(* ===== verification/Rust_Prelude.thy ===== *)
theory Rust_Prelude
  imports Main "HOL-Library.Word"
begin

text \<open>
  Shared vocabulary of the development: Rust's \<open>Result\<close> as a sum, the \<open>?\<close>
  operator as \<open>rbind\<close>, a database transaction that commits on \<open>Ok\<close> and rolls
  back on \<open>Err\<close>, the fixed-width integer helpers of the standard library, and
  the generic lemmas and theorem collections that the component theories use.
\<close>

unbundle bit_operations_syntax

section \<open>Results and early returns\<close>

type_synonym ('e, 'a) result = "'e + 'a"

definition rbind :: "('e, 'a) result \<Rightarrow> ('a \<Rightarrow> ('e, 'b) result) \<Rightarrow> ('e, 'b) result" where
  "rbind m f = (case m of Inl e \<Rightarrow> Inl e | Inr x \<Rightarrow> f x)"

definition map_err :: "('e \<Rightarrow> 'f) \<Rightarrow> ('e, 'a) result \<Rightarrow> ('f, 'a) result" where
  "map_err g m = (case m of Inl e \<Rightarrow> Inl (g e) | Inr x \<Rightarrow> Inr x)"

definition ok_or :: "'e \<Rightarrow> 'a option \<Rightarrow> ('e, 'a) result" where
  "ok_or e m = (case m of None \<Rightarrow> Inl e | Some x \<Rightarrow> Inr x)"

definition ensure :: "bool \<Rightarrow> 'e \<Rightarrow> ('e, unit) result" where
  "ensure b e = (if b then Inr () else Inl e)"

definition transpose :: "('e, 'a) result option \<Rightarrow> ('e, 'a option) result" where
  "transpose m = (case m of None \<Rightarrow> Inr None | Some r \<Rightarrow> (case r of Inl e \<Rightarrow> Inl e | Inr x \<Rightarrow> Inr (Some x)))"

fun rmap :: "('a \<Rightarrow> ('e, 'b) result) \<Rightarrow> 'a list \<Rightarrow> ('e, 'b list) result" where
  "rmap f [] = Inr []"
| "rmap f (x # xs) = rbind (f x) (\<lambda>y. rbind (rmap f xs) (\<lambda>ys. Inr (y # ys)))"

definition is_ok :: "('e, 'a) result \<Rightarrow> bool" where
  "is_ok m = (case m of Inl _ \<Rightarrow> False | Inr _ \<Rightarrow> True)"

lemma rbind_simps [simp]:
  "rbind (Inl e) f = Inl e"
  "rbind (Inr x) f = f x"
  by (simp_all add: rbind_def)

lemma rbind_Inr_iff: "rbind m f = Inr y \<longleftrightarrow> (\<exists>x. m = Inr x \<and> f x = Inr y)"
  by (cases m) auto

lemma rbind_Inl_iff: "rbind m f = Inl e \<longleftrightarrow> m = Inl e \<or> (\<exists>x. m = Inr x \<and> f x = Inl e)"
  by (cases m) auto

lemma map_err_simps [simp]:
  "map_err g (Inl e) = Inl (g e)"
  "map_err g (Inr x) = Inr x"
  "map_err g m = Inr y \<longleftrightarrow> m = Inr y"
  by (cases m; simp add: map_err_def)+

lemma map_err_Inl_iff: "map_err g m = Inl e \<longleftrightarrow> (\<exists>d. m = Inl d \<and> e = g d)"
  by (cases m) (auto simp: map_err_def)

lemma ok_or_simps [simp]:
  "ok_or e None = Inl e"
  "ok_or e (Some x) = Inr x"
  "ok_or e m = Inr y \<longleftrightarrow> m = Some y"
  by (cases m; simp add: ok_or_def)+

lemma ensure_simps [simp]:
  "ensure True e = Inr ()"
  "ensure False e = Inl e"
  "ensure b e = Inr u \<longleftrightarrow> b"
  "ensure b e = Inl d \<longleftrightarrow> \<not> b \<and> d = e"
  by (auto simp: ensure_def)

lemma transpose_simps [simp]:
  "transpose None = Inr None"
  "transpose (Some (Inl e)) = Inl e"
  "transpose (Some (Inr x)) = Inr (Some x)"
  by (simp_all add: transpose_def)

lemma transpose_Inr_iff:
  "transpose m = Inr y \<longleftrightarrow> (m = None \<and> y = None \<or> (\<exists>x. m = Some (Inr x) \<and> y = Some x))"
  by (auto simp: transpose_def split: option.splits sum.splits)

lemma is_ok_simps [simp]: "is_ok (Inr x)" "\<not> is_ok (Inl e)"
  by (simp_all add: is_ok_def)

lemma is_ok_iff: "is_ok m \<longleftrightarrow> (\<exists>x. m = Inr x)"
  by (cases m) auto

lemma rmap_Inr_iff:
  "rmap f xs = Inr ys \<longleftrightarrow> list_all2 (\<lambda>x y. f x = Inr y) xs ys"
  by (induction xs arbitrary: ys) (auto simp: rbind_Inr_iff list_all2_Cons1)

lemma rbind_assoc: "rbind (rbind m f) g = rbind m (\<lambda>x. rbind (f x) g)"
  by (cases m) simp_all

lemma rmap_append: "rmap f (xs @ ys) = rbind (rmap f xs) (\<lambda>a. rbind (rmap f ys) (\<lambda>b. Inr (a @ b)))"
proof (induction xs)
  case Nil
  show ?case by (cases "rmap f ys") simp_all
next
  case (Cons x xs)
  then show ?case by (cases "f x"; cases "rmap f xs"; cases "rmap f ys") simp_all
qed

lemma rmap_total: "(\<And>x. x \<in> set xs \<Longrightarrow> \<exists>y. f x = Inr y) \<Longrightarrow> \<exists>ys. rmap f xs = Inr ys"
  by (induction xs) (auto simp: rbind_Inr_iff)

lemma rmap_last:
  "rmap f xs = Inr ys \<Longrightarrow> xs \<noteq> [] \<Longrightarrow> ys \<noteq> [] \<and> f (last xs) = Inr (last ys)"
proof (induction xs arbitrary: ys)
  case Nil
  then show ?case by simp
next
  case (Cons x xs)
  then show ?case by (cases "xs = []") (auto simp: rbind_Inr_iff)
qed

lemmas result_iffs = rbind_Inr_iff rbind_Inl_iff map_err_Inl_iff transpose_Inr_iff

section \<open>Transactions\<close>

text \<open>
  \<open>rusqlite::Transaction\<close> commits when \<open>commit\<close> is reached and rolls back when it is
  dropped on an early return. A body that fails therefore leaves the database as it was.
\<close>

type_synonym ('db, 'e, 'a) tx = "'db \<Rightarrow> ('e, 'db \<times> 'a) result"

definition run_tx :: "('db, 'e, 'a) tx \<Rightarrow> 'db \<Rightarrow> 'db \<times> ('e, 'a) result" where
  "run_tx body db = (case body db of Inl e \<Rightarrow> (db, Inl e) | Inr (db', x) \<Rightarrow> (db', Inr x))"

lemma run_tx_Inr [simp]: "run_tx body db = (db', Inr x) \<longleftrightarrow> body db = Inr (db', x)"
  by (auto simp: run_tx_def split: sum.splits prod.splits)

lemma run_tx_Inl [simp]: "run_tx body db = (db', Inl e) \<longleftrightarrow> db' = db \<and> body db = Inl e"
  by (auto simp: run_tx_def split: sum.splits prod.splits)

lemma run_tx_failure_rolls_back: "run_tx body db = (db', Inl e) \<Longrightarrow> db' = db"
  by simp

lemma run_tx_of_body:
  "body db = Inr (db', x) \<Longrightarrow> run_tx body db = (db', Inr x)"
  "body db = Inl e \<Longrightarrow> run_tx body db = (db, Inl e)"
  by simp_all

section \<open>Fixed-width integers\<close>

type_synonym u8 = "8 word"

definition i64_min :: int where "i64_min = - (2 ^ 63)"
definition i64_max :: int where "i64_max = 2 ^ 63 - 1"

definition in_i64 :: "int \<Rightarrow> bool" where
  "in_i64 x \<longleftrightarrow> i64_min \<le> x \<and> x \<le> i64_max"

text \<open>\<open>i64::saturating_add\<close>.\<close>

definition i64_saturating_add :: "int \<Rightarrow> int \<Rightarrow> int" where
  "i64_saturating_add x y = max i64_min (min i64_max (x + y))"

lemma i64_saturating_add_in_range:
  "in_i64 (x + y) \<Longrightarrow> i64_saturating_add x y = x + y"
  by (simp add: i64_saturating_add_def in_i64_def)

lemma i64_saturating_add_less:
  "now \<le> i64_max \<Longrightarrow> i64_min < now \<Longrightarrow> i64_saturating_add x y > now \<longleftrightarrow> x + y > now \<and> now < i64_max"
  by (auto simp: i64_saturating_add_def i64_min_def i64_max_def)

section \<open>Generic facts on lists and options\<close>

lemma find_Some_mem: "find P xs = Some x \<Longrightarrow> x \<in> set xs \<and> P x"
  by (induction xs) (auto split: if_splits)

lemma list_all_mem: "list_all P xs \<Longrightarrow> x \<in> set xs \<Longrightarrow> P x"
  by (simp add: list_all_iff)

lemma map_if_id: "(\<And>x. x \<in> set xs \<Longrightarrow> \<not> P x) \<Longrightarrow> map (\<lambda>x. if P x then f x else x) xs = xs"
  by (induction xs) auto

lemma distinct_map_unique:
  "distinct (map k xs) \<Longrightarrow> x \<in> set xs \<Longrightarrow> y \<in> set xs \<Longrightarrow> k x = k y \<Longrightarrow> x = y"
  by (auto simp: distinct_map inj_on_def)

lemma find_unique:
  assumes "distinct (map k xs)" "x \<in> set xs"
  shows "find (\<lambda>y. k y = k x) xs = Some x"
  using assms by (induction xs) (auto simp: rev_image_eqI)

lemma filter_singleton:
  assumes "distinct xs" "x \<in> set xs" "p x" "\<And>y. y \<in> set xs \<Longrightarrow> p y \<Longrightarrow> y = x"
  shows "filter p xs = [x]"
  using assms
proof (induction xs)
  case Nil
  then show ?case by simp
next
  case (Cons z zs)
  show ?case
  proof (cases "z = x")
    case True
    have "\<not> p y" if "y \<in> set zs" for y
      using Cons.prems(1) Cons.prems(4)[of y] that True by auto
    then have "filter p zs = []" by (simp add: filter_empty_conv)
    then show ?thesis using True Cons.prems(3) by simp
  next
    case False
    then have z: "\<not> p z" "x \<in> set zs" using Cons.prems(2) Cons.prems(4)[of z] by auto
    have "distinct zs" using Cons.prems(1) by simp
    from Cons.IH[OF this z(2) Cons.prems(3)] have "filter p zs = [x]"
      using Cons.prems(4) list.set_intros(2)[of _ zs z] by blast
    then show ?thesis using z(1) by simp
  qed
qed

lemma distinct_map_snoc:
  "distinct (map k (xs @ [x])) \<longleftrightarrow> distinct (map k xs) \<and> (\<forall>y \<in> set xs. k y \<noteq> k x)"
  by (auto simp: image_iff)

end
