(* ===== verification/Rust_Text.thy ===== *)
theory Rust_Text
  imports Rust_Prelude "HOL-Library.List_Lexorder"
begin

text \<open>
  Rust strings. A \<open>str\<close> is the list of its Unicode scalar values (what \<open>chars()\<close>
  yields); its UTF-8 bytes (\<open>bytes()\<close>, \<open>len()\<close>, \<open>as_bytes()\<close>) are computed by
  \<open>str_bytes\<close>. The order on lists of \<open>List_Lexorder\<close> is the order of \<open>str\<close>: UTF-8
  preserves the order of scalar values. A literal of the source is written \<open>lit\<close>.
\<close>

type_synonym rchar = int
type_synonym str = "rchar list"

definition lit :: "string \<Rightarrow> str" where
  "lit s = map of_char s"

lemma lit_simps [simp]: "lit [] = []" "lit (c # cs) = of_char c # lit cs"
  by (simp_all add: lit_def)

section \<open>Character classes\<close>

definition is_ascii_digit :: "rchar \<Rightarrow> bool" where
  "is_ascii_digit c \<longleftrightarrow> 48 \<le> c \<and> c \<le> 57"

definition is_ascii_lowercase :: "rchar \<Rightarrow> bool" where
  "is_ascii_lowercase c \<longleftrightarrow> 97 \<le> c \<and> c \<le> 122"

definition is_ascii_uppercase :: "rchar \<Rightarrow> bool" where
  "is_ascii_uppercase c \<longleftrightarrow> 65 \<le> c \<and> c \<le> 90"

definition is_ascii_alphanumeric :: "rchar \<Rightarrow> bool" where
  "is_ascii_alphanumeric c \<longleftrightarrow> is_ascii_digit c \<or> is_ascii_lowercase c \<or> is_ascii_uppercase c"

definition is_ascii :: "rchar \<Rightarrow> bool" where
  "is_ascii c \<longleftrightarrow> 0 \<le> c \<and> c < 128"

text \<open>\<open>char::is_whitespace\<close>: the Unicode White_Space property.\<close>

definition is_whitespace :: "rchar \<Rightarrow> bool" where
  "is_whitespace c \<longleftrightarrow>
     (9 \<le> c \<and> c \<le> 13) \<or> c = 32 \<or> c = 133 \<or> c = 160 \<or> c = 5760 \<or>
     (8192 \<le> c \<and> c \<le> 8202) \<or> c = 8232 \<or> c = 8233 \<or> c = 8239 \<or> c = 8287 \<or> c = 12288"

text \<open>\<open>char::is_control\<close>: the general category Cc.\<close>

definition is_control :: "rchar \<Rightarrow> bool" where
  "is_control c \<longleftrightarrow> (0 \<le> c \<and> c \<le> 31) \<or> (127 \<le> c \<and> c \<le> 159)"

definition ascii_lower :: "rchar \<Rightarrow> rchar" where
  "ascii_lower c = (if is_ascii_uppercase c then c + 32 else c)"

definition ascii_upper :: "rchar \<Rightarrow> rchar" where
  "ascii_upper c = (if is_ascii_lowercase c then c - 32 else c)"

lemmas char_class_defs =
  is_ascii_digit_def is_ascii_lowercase_def is_ascii_uppercase_def is_ascii_alphanumeric_def
  is_ascii_def is_whitespace_def is_control_def ascii_lower_def ascii_upper_def

lemma ascii_lower_idem [simp]: "ascii_lower (ascii_lower c) = ascii_lower c"
  by (auto simp: char_class_defs)

section \<open>String operations of the standard library\<close>

definition to_ascii_lowercase :: "str \<Rightarrow> str" where
  "to_ascii_lowercase s = map ascii_lower s"

definition to_ascii_uppercase :: "str \<Rightarrow> str" where
  "to_ascii_uppercase s = map ascii_upper s"

definition eq_ignore_ascii_case :: "str \<Rightarrow> str \<Rightarrow> bool" where
  "eq_ignore_ascii_case s t \<longleftrightarrow> to_ascii_lowercase s = to_ascii_lowercase t"

definition trim_start_matches :: "(rchar \<Rightarrow> bool) \<Rightarrow> str \<Rightarrow> str" where
  "trim_start_matches p s = dropWhile p s"

definition trim_matches :: "(rchar \<Rightarrow> bool) \<Rightarrow> str \<Rightarrow> str" where
  "trim_matches p s = rev (dropWhile p (rev (dropWhile p s)))"

definition str_trim :: "str \<Rightarrow> str" where
  "str_trim s = trim_matches is_whitespace s"

definition str_trim_start :: "str \<Rightarrow> str" where
  "str_trim_start s = trim_start_matches is_whitespace s"

definition starts_with :: "str \<Rightarrow> str \<Rightarrow> bool" where
  "starts_with p s \<longleftrightarrow> take (length p) s = p"

definition ends_with :: "str \<Rightarrow> str \<Rightarrow> bool" where
  "ends_with p s \<longleftrightarrow> starts_with (rev p) (rev s)"

fun contains :: "str \<Rightarrow> str \<Rightarrow> bool" where
  "contains p [] = (p = [])"
| "contains p (c # cs) = (starts_with p (c # cs) \<or> contains p cs)"

text \<open>\<open>str::split\<close> on a character predicate; never empty.\<close>

fun str_split :: "(rchar \<Rightarrow> bool) \<Rightarrow> str \<Rightarrow> str list" where
  "str_split p [] = [[]]"
| "str_split p (c # cs) =
     (if p c then [] # str_split p cs
      else (case str_split p cs of [] \<Rightarrow> [[c]] | w # ws \<Rightarrow> (c # w) # ws))"

fun split_once :: "rchar \<Rightarrow> str \<Rightarrow> (str \<times> str) option" where
  "split_once d [] = None"
| "split_once d (c # cs) =
     (if c = d then Some ([], cs)
      else map_option (\<lambda>(a, b). (c # a, b)) (split_once d cs))"

text \<open>\<open>split_whitespace\<close>: the non-empty pieces.\<close>

definition split_whitespace :: "str \<Rightarrow> str list" where
  "split_whitespace s = filter (\<lambda>w. w \<noteq> []) (str_split is_whitespace s)"

fun join :: "str \<Rightarrow> str list \<Rightarrow> str" where
  "join sep [] = []"
| "join sep [w] = w"
| "join sep (w # ws) = w @ sep @ join sep ws"

lemma str_split_nonempty [simp]: "str_split p s \<noteq> []"
  by (cases s) (auto split: list.splits)

lemma str_split_no_sep: "w \<in> set (str_split p s) \<Longrightarrow> c \<in> set w \<Longrightarrow> \<not> p c \<and> c \<in> set s"
proof (induction s arbitrary: w c)
  case Nil
  then show ?case by simp
next
  case (Cons d s w c)
  show ?case
  proof (cases "p d")
    case True
    with Cons show ?thesis by auto
  next
    case False
    obtain v vs where split: "str_split p s = v # vs"
      by (cases "str_split p s") simp_all
    have tail: "x \<in> set v \<Longrightarrow> \<not> p x \<and> x \<in> set s" for x
      using Cons.IH[of v x] Cons.IH split by simp
    show ?thesis
    proof (cases "w \<in> set vs")
      case True
      then show ?thesis using Cons.IH[of w c] Cons.prems split by simp
    next
      case out: False
      then have "w = d # v" using Cons.prems(1) split False by simp
      then show ?thesis using tail Cons.prems(2) False by auto
    qed
  qed
qed

lemma dropWhile_hd: "dropWhile p s = c # cs \<Longrightarrow> \<not> p c"
  by (metis hd_dropWhile list.distinct(1) list.sel(1))

lemma set_dropWhile_subset: "set (dropWhile p s) \<subseteq> set s"
  by (induction s) auto

lemma set_trim_matches: "set (trim_matches p s) \<subseteq> set s"
  using set_dropWhile_subset[of p "rev (dropWhile p s)"] set_dropWhile_subset[of p s]
  by (simp add: trim_matches_def)

lemma dropWhile_all_iff: "(\<forall>c \<in> set (dropWhile p s). p c) \<longleftrightarrow> (\<forall>c \<in> set s. p c)"
  by (induction s) auto

lemma trim_matches_nonempty_iff: "trim_matches p s = [] \<longleftrightarrow> (\<forall>c \<in> set s. p c)"
  by (simp only: trim_matches_def rev_is_Nil_conv dropWhile_eq_Nil_conv set_rev dropWhile_all_iff)

lemma trim_matches_last:
  assumes "trim_matches p s \<noteq> []"
  shows "\<not> p (last (trim_matches p s))"
proof -
  from assms have "dropWhile p (rev (dropWhile p s)) \<noteq> []" by (simp add: trim_matches_def)
  then have "\<not> p (hd (dropWhile p (rev (dropWhile p s))))" by (rule hd_dropWhile)
  then show ?thesis using assms by (simp add: trim_matches_def last_rev)
qed

lemma dropWhile_rev_hd:
  assumes "xs \<noteq> []" "\<not> p (hd xs)"
  shows "rev (dropWhile p (rev xs)) \<noteq> [] \<and> hd (rev (dropWhile p (rev xs))) = hd xs"
proof -
  obtain y ys where xs: "xs = y # ys" using assms(1) by (cases xs) auto
  with assms(2) have y: "\<not> p y" by simp
  have "dropWhile p (rev ys @ [y]) = dropWhile p (rev ys) @ [y]"
    using y by (simp add: dropWhile_append3)
  then show ?thesis using xs by simp
qed

lemma trim_matches_hd:
  assumes "trim_matches p s \<noteq> []"
  shows "\<not> p (hd (trim_matches p s))"
proof -
  have ne: "dropWhile p s \<noteq> []" using assms unfolding trim_matches_def by (metis dropWhile.simps(1) rev.simps(1))
  then have "\<not> p (hd (dropWhile p s))" by (rule hd_dropWhile)
  with dropWhile_rev_hd[of "dropWhile p s" p, OF ne] show ?thesis by (simp add: trim_matches_def)
qed

lemma dropWhile_id: "s = [] \<or> \<not> p (hd s) \<Longrightarrow> dropWhile p s = s"
  by (cases s) auto

lemma trim_matches_id:
  "s = [] \<or> (\<not> p (hd s) \<and> \<not> p (last s)) \<Longrightarrow> trim_matches p s = s"
  by (cases "s = []") (auto simp: trim_matches_def dropWhile_id hd_rev)

lemma trim_matches_idem [simp]: "trim_matches p (trim_matches p s) = trim_matches p s"
  using trim_matches_hd trim_matches_last trim_matches_id by metis

lemma str_trim_idem [simp]: "str_trim (str_trim s) = str_trim s"
  by (simp add: str_trim_def)

lemma str_trim_id: "(\<And>c. c \<in> set s \<Longrightarrow> \<not> is_whitespace c) \<Longrightarrow> str_trim s = s"
  unfolding str_trim_def by (rule trim_matches_id) (auto simp: hd_in_set)

lemma str_trim_nonempty: "s \<noteq> [] \<Longrightarrow> (\<And>c. c \<in> set s \<Longrightarrow> \<not> is_whitespace c) \<Longrightarrow> str_trim s \<noteq> []"
  by (simp add: str_trim_id)

lemma starts_with_simps [simp]:
  "starts_with [] s"
  "starts_with (d # p) [] = False"
  "starts_with (d # p) (c # s) = (d = c \<and> starts_with p s)"
  by (auto simp: starts_with_def)

lemma starts_with_set: "starts_with p s \<Longrightarrow> set p \<subseteq> set s"
  unfolding starts_with_def by (metis set_take_subset)

lemma contains_set: "contains p s \<Longrightarrow> set p \<subseteq> set s"
proof (induction s)
  case Nil
  then show ?case by simp
next
  case (Cons c s)
  then show ?case using starts_with_set[of p "c # s"] by auto
qed

section \<open>UTF-8\<close>

definition utf8_char :: "rchar \<Rightarrow> int list" where
  "utf8_char c =
     (if c < 128 then [c]
      else if c < 2048 then [192 + c div 64, 128 + c mod 64]
      else if c < 65536 then [224 + c div 4096, 128 + c div 64 mod 64, 128 + c mod 64]
      else [240 + c div 262144, 128 + c div 4096 mod 64, 128 + c div 64 mod 64, 128 + c mod 64])"

definition utf8 :: "str \<Rightarrow> int list" where
  "utf8 s = concat (map utf8_char s)"

definition str_bytes :: "str \<Rightarrow> u8 list" where
  "str_bytes s = map word_of_int (utf8 s)"

definition str_len :: "str \<Rightarrow> nat" where
  "str_len s = length (utf8 s)"

definition all_bytes :: "(rchar \<Rightarrow> bool) \<Rightarrow> str \<Rightarrow> bool" where
  "all_bytes p s \<longleftrightarrow> list_all p (utf8 s)"

lemma utf8_simps [simp]: "utf8 [] = []" "utf8 (c # s) = utf8_char c @ utf8 s"
  by (simp_all add: utf8_def)

lemma str_len_simps [simp]: "str_len [] = 0" "str_len (c # s) = length (utf8_char c) + str_len s"
  by (simp_all add: str_len_def)

lemma utf8_char_ascii: "is_ascii c \<Longrightarrow> utf8_char c = [c]"
  by (simp add: utf8_char_def is_ascii_def)

lemma utf8_ascii: "list_all is_ascii s \<Longrightarrow> utf8 s = s"
  by (induction s) (auto simp: utf8_char_ascii)

lemma str_len_ascii: "list_all is_ascii s \<Longrightarrow> str_len s = length s"
  by (simp add: str_len_def utf8_ascii)

lemma utf8_char_nonempty [simp]: "utf8_char c \<noteq> []"
  by (simp add: utf8_char_def)

lemma str_len_0 [simp]: "str_len s = 0 \<longleftrightarrow> s = []"
  by (cases s) auto

text \<open>A byte test that only admits ASCII holds of all bytes iff it holds of all characters.\<close>

lemma all_bytes_ascii:
  assumes "\<And>c. p c \<Longrightarrow> is_ascii c"
  shows "all_bytes p s \<longleftrightarrow> list_all p s"
proof -
  have char: "list_all p (utf8_char c) \<longleftrightarrow> p c" for c
  proof (cases "c < 128")
    case True
    then show ?thesis by (simp add: utf8_char_def)
  next
    case False
    have "\<not> p x" if "x \<ge> 128" for x using assms[of x] that by (auto simp: is_ascii_def)
    with False show ?thesis by (simp add: utf8_char_def)
  qed
  show ?thesis by (induction s) (auto simp: all_bytes_def char)
qed

text \<open>
  \<open>std::str::from_utf8\<close>: the well-formed sequences of the Unicode standard (shortest
  form, no surrogates, at most \<open>U+10FFFF\<close>).
\<close>

definition is_cont :: "int \<Rightarrow> bool" where
  "is_cont b \<longleftrightarrow> 128 \<le> b \<and> b < 192"

fun utf8_decode :: "int list \<Rightarrow> str option" where
  "utf8_decode [] = Some []"
| "utf8_decode (a # r) =
    (if a < 128 then map_option ((#) a) (utf8_decode r)
     else if a < 194 then None
     else if a < 224 then
       (case r of b # r' \<Rightarrow>
          (if is_cont b then map_option ((#) ((a - 192) * 64 + (b - 128))) (utf8_decode r') else None)
        | _ \<Rightarrow> None)
     else if a < 240 then
       (case r of b # c # r' \<Rightarrow>
          (if is_cont b \<and> is_cont c \<and> (a = 224 \<longrightarrow> 160 \<le> b) \<and> (a = 237 \<longrightarrow> b < 160)
           then map_option ((#) ((a - 224) * 4096 + (b - 128) * 64 + (c - 128))) (utf8_decode r') else None)
        | _ \<Rightarrow> None)
     else if a < 245 then
       (case r of b # c # d # r' \<Rightarrow>
          (if is_cont b \<and> is_cont c \<and> is_cont d \<and> (a = 240 \<longrightarrow> 144 \<le> b) \<and> (a = 244 \<longrightarrow> b < 144)
           then map_option ((#) ((a - 240) * 262144 + (b - 128) * 4096 + (c - 128) * 64 + (d - 128)))
                  (utf8_decode r') else None)
        | _ \<Rightarrow> None)
     else None)"

definition from_utf8 :: "u8 list \<Rightarrow> str option" where
  "from_utf8 bs = utf8_decode (map uint bs)"

definition is_scalar :: "rchar \<Rightarrow> bool" where
  "is_scalar c \<longleftrightarrow> 0 \<le> c \<and> c < 1114112 \<and> \<not> (55296 \<le> c \<and> c < 57344)"

declare utf8_decode.simps(2) [simp del]

lemma div64_split: "c div 64 = c div 4096 * 64 + c div 64 mod 64" for c :: int
proof -
  have "c div 4096 = c div 64 div 64" by (simp add: zdiv_zmult2_eq[symmetric])
  then show ?thesis by simp
qed

lemma div4096_split: "c div 4096 = c div 262144 * 64 + c div 4096 mod 64" for c :: int
proof -
  have "c div 262144 = c div 4096 div 64" by (simp add: zdiv_zmult2_eq[symmetric])
  then show ?thesis by simp
qed

lemma split64_2: "c div 4096 * 4096 + c div 64 mod 64 * 64 + c mod 64 = (c :: int)"
  using div64_split[of c] div_mult_mod_eq[of c 64] by linarith

lemma split64_3:
  "c div 262144 * 262144 + c div 4096 mod 64 * 4096 + c div 64 mod 64 * 64 + c mod 64 = (c :: int)"
  using div4096_split[of c] split64_2[of c] by linarith

lemma utf8_decode_4:
  assumes "0 \<le> x" "x < 5" "0 \<le> y" "y < 64" "0 \<le> z" "z < 64" "0 \<le> w" "w < 64"
    and "x = 0 \<longrightarrow> 16 \<le> y" "x = 4 \<longrightarrow> y < 16"
  shows "utf8_decode ((240 + x) # (128 + y) # (128 + z) # (128 + w) # r)
           = map_option ((#) (x * 262144 + y * 4096 + z * 64 + w)) (utf8_decode r)"
  using assms by (simp add: utf8_decode.simps(2) is_cont_def)

lemma utf8_decode_char:
  assumes "is_scalar c"
  shows "utf8_decode (utf8_char c @ r) = map_option ((#) c) (utf8_decode r)"
proof -
  consider "c < 128" | "128 \<le> c" "c < 2048" | "2048 \<le> c" "c < 65536" | "65536 \<le> c" by linarith
  then show ?thesis
  proof cases
    case 1
    then show ?thesis by (simp add: utf8_char_def utf8_decode.simps(2))
  next
    case 2
    have "2 \<le> c div 64" "c div 64 < 32" using 2 by linarith+
    then show ?thesis using 2 by (simp add: utf8_char_def utf8_decode.simps(2) is_cont_def)
  next
    case 3
    have q: "c div 4096 < 16" "0 \<le> c div 4096" using 3 by linarith+
    have lo: "c div 4096 = 0 \<longrightarrow> 32 \<le> c div 64 mod 64"
      using 3 div64_split[of c] by linarith
    have hi: "c div 4096 = 13 \<longrightarrow> c div 64 mod 64 < 32"
    proof
      assume q13: "c div 4096 = 13"
      then have "c < 57344" by linarith
      then have "c < 55296" using assms by (simp add: is_scalar_def)
      then have "c div 64 < 864" by linarith
      then show "c div 64 mod 64 < 32" using q13 div64_split[of c] by linarith
    qed
    have eq: "c div 4096 * 4096 + c div 64 mod 64 * 64 + c mod 64 = c" by (rule split64_2)
    show ?thesis using 3 q lo hi eq
      by (simp add: utf8_char_def utf8_decode.simps(2) is_cont_def)
  next
    case 4
    have b: "c < 1114112" using assms by (simp add: is_scalar_def)
    have q: "c div 262144 < 5" "0 \<le> c div 262144" using 4 b by linarith+
    have lo: "c div 262144 = 0 \<longrightarrow> 16 \<le> c div 4096 mod 64"
      using 4 div4096_split[of c] by linarith
    have hi: "c div 262144 = 4 \<longrightarrow> c div 4096 mod 64 < 16"
      using b div4096_split[of c] by linarith
    have eq: "c div 262144 * 262144 + c div 4096 mod 64 * 4096 + c div 64 mod 64 * 64 + c mod 64 = c"
      by (rule split64_3)
    have "utf8_char c @ r = (240 + c div 262144) # (128 + c div 4096 mod 64)
                # (128 + c div 64 mod 64) # (128 + c mod 64) # r"
      using 4 by (simp add: utf8_char_def)
    moreover have m: "0 \<le> t mod 64" "t mod 64 < 64" for t :: int by simp_all
    ultimately show ?thesis
      by (simp only: utf8_decode_4[OF q(2,1) m m m lo hi] eq)
  qed
qed

lemma utf8_decode_utf8: "list_all is_scalar s \<Longrightarrow> utf8_decode (utf8 s) = Some s"
  by (induction s) (auto simp: utf8_decode_char)

lemma utf8_byte_range: "list_all is_scalar s \<Longrightarrow> b \<in> set (utf8 s) \<Longrightarrow> 0 \<le> b \<and> b < 256"
proof (induction s)
  case Nil
  then show ?case by simp
next
  case (Cons c s)
  from Cons.prems have c: "0 \<le> c" "c < 1114112" by (auto simp: is_scalar_def)
  have "b \<in> set (utf8_char c) \<Longrightarrow> 0 \<le> b \<and> b < 256"
    using c by (auto simp: utf8_char_def split: if_splits; presburger)
  with Cons show ?case by auto
qed

lemma from_utf8_str_bytes: "list_all is_scalar s \<Longrightarrow> from_utf8 (str_bytes s) = Some s"
proof -
  assume s: "list_all is_scalar s"
  have "map (\<lambda>x. uint (word_of_int x :: u8)) (utf8 s) = utf8 s"
    using utf8_byte_range[OF s] by (intro map_idI) (simp add: uint_word_of_int take_bit_eq_mod)
  then show ?thesis using utf8_decode_utf8[OF s] by (simp add: from_utf8_def str_bytes_def comp_def)
qed

section \<open>Decimal and hexadecimal text\<close>

fun show_nat_acc :: "nat \<Rightarrow> int \<Rightarrow> str \<Rightarrow> str" where
  "show_nat_acc 0 n acc = acc"
| "show_nat_acc (Suc k) n acc =
     (if n < 10 then (48 + n) # acc else show_nat_acc k (n div 10) ((48 + n mod 10) # acc))"

text \<open>\<open>Display\<close> of an \<open>i64\<close>: 20 digits are enough for every 64-bit value.\<close>

definition show_int :: "int \<Rightarrow> str" where
  "show_int n = (if n < 0 then 45 # show_nat_acc 20 (- n) [] else show_nat_acc 20 n [])"

fun digits_value :: "int \<Rightarrow> str \<Rightarrow> int option" where
  "digits_value acc [] = Some acc"
| "digits_value acc (c # cs) = (if is_ascii_digit c then digits_value (acc * 10 + (c - 48)) cs else None)"

text \<open>\<open>str::parse::<i64>\<close>: an optional sign, at least one digit, no overflow.\<close>

definition parse_i64 :: "str \<Rightarrow> int option" where
  "parse_i64 s =
     (let (neg, ds) = (case s of [] \<Rightarrow> (False, []) | c # cs \<Rightarrow>
            if c = 45 then (True, cs) else if c = 43 then (False, cs) else (False, s))
      in if ds = [] then None
         else Option.bind (digits_value 0 ds)
                (\<lambda>v. let n = (if neg then - v else v) in if in_i64 n then Some n else None))"

definition hex_char :: "int \<Rightarrow> rchar" where
  "hex_char n = (if n < 10 then 48 + n else 87 + n)"

definition lower_hex :: "u8 list \<Rightarrow> str" where
  "lower_hex bs = concat (map (\<lambda>b. [hex_char (uint (drop_bit 4 b)), hex_char (uint (b AND 15))]) bs)"

lemma lower_hex_simps [simp]:
  "lower_hex [] = []"
  "lower_hex (b # bs) = hex_char (uint (drop_bit 4 b)) # hex_char (uint (b AND 15)) # lower_hex bs"
  by (simp_all add: lower_hex_def)

lemma uint_u8_bounds: "0 \<le> uint (b :: u8)" "uint (b :: u8) < 256"
  using uint_bounded[of b] by simp_all

lemma uint_high_nibble: "uint (drop_bit 4 (b :: u8)) = uint b div 16"
  by (simp only: unsigned_drop_bit_eq drop_bit_eq_div[where 'a = int]) (simp add: take_bit_eq_mod uint_u8_bounds mod_pos_pos_trivial)

lemma uint_low_nibble: "uint ((b :: u8) AND 15) = uint b mod 16"
proof -
  have "b AND 15 = take_bit 4 b" by (simp only: take_bit_eq_mask) (simp add: mask_eq_exp_minus_1)
  then have "uint (b AND 15) = uint (take_bit 4 b)" by simp
  also have "\<dots> = take_bit 4 (uint b)" by (rule unsigned_take_bit_eq)
  finally show ?thesis by (simp add: take_bit_eq_mod)
qed

lemma length_lower_hex [simp]: "length (lower_hex bs) = 2 * length bs"
  by (induction bs) auto

definition is_lower_hex_char :: "rchar \<Rightarrow> bool" where
  "is_lower_hex_char c \<longleftrightarrow> is_ascii_digit c \<or> (97 \<le> c \<and> c \<le> 102)"

lemma lower_hex_chars: "list_all is_lower_hex_char (lower_hex bs)"
proof (induction bs)
  case Nil
  then show ?case by simp
next
  case (Cons b bs)
  have "is_lower_hex_char (hex_char n)" if "0 \<le> n" "n < 16" for n
    using that by (auto simp: is_lower_hex_char_def hex_char_def is_ascii_digit_def)
  moreover have "uint b div 16 < 16" "0 \<le> uint b div 16" using uint_u8_bounds[of b] by linarith+
  ultimately show ?case using Cons by (simp add: uint_high_nibble uint_low_nibble del: div_pos_pos_trivial)
qed

section \<open>Round trips\<close>

lemma digits_value_append:
  "digits_value a (s @ t) = Option.bind (digits_value a s) (\<lambda>v. digits_value v t)"
  by (induction s arbitrary: a) auto

lemma show_nat_acc_append: "show_nat_acc k n acc = show_nat_acc k n [] @ acc"
proof (induction k arbitrary: n acc)
  case 0
  then show ?case by simp
next
  case (Suc k)
  show ?case
    using Suc[of "n div 10" "(48 + n mod 10) # acc"] Suc[of "n div 10" "[48 + n mod 10]"] by simp
qed

lemma show_nat_acc_digits: "0 \<le> n \<Longrightarrow> c \<in> set (show_nat_acc k n []) \<Longrightarrow> is_ascii_digit c"
proof (induction k arbitrary: n)
  case 0
  then show ?case by simp
next
  case (Suc k)
  show ?case
  proof (cases "n < 10")
    case True
    then show ?thesis using Suc.prems by (simp add: is_ascii_digit_def)
  next
    case False
    then have "show_nat_acc (Suc k) n [] = show_nat_acc k (n div 10) [] @ [48 + n mod 10]"
      by (simp add: show_nat_acc_append[of k "n div 10" "[48 + n mod 10]"])
    then have "c \<in> set (show_nat_acc k (n div 10) []) \<or> c = 48 + n mod 10"
      using Suc.prems(2) by auto
    then show ?thesis using Suc.IH[of "n div 10"] Suc.prems(1)
      by (auto simp: is_ascii_digit_def)
  qed
qed

lemma digits_value_show:
  "0 \<le> n \<Longrightarrow> n < 10 ^ Suc k \<Longrightarrow> digits_value 0 (show_nat_acc (Suc k) n []) = Some n
     \<and> show_nat_acc (Suc k) n [] \<noteq> []"
proof (induction k arbitrary: n)
  case 0
  then show ?case by (simp add: is_ascii_digit_def)
next
  case (Suc k)
  show ?case
  proof (cases "n < 10")
    case True
    then show ?thesis using Suc.prems by (simp add: is_ascii_digit_def)
  next
    case False
    then have eq: "show_nat_acc (Suc (Suc k)) n [] = show_nat_acc (Suc k) (n div 10) [] @ [48 + n mod 10]"
      by (simp only: show_nat_acc.simps(2)[of "Suc k"] if_False
          show_nat_acc_append[of "Suc k" "n div 10" "[48 + n mod 10]"])
    have "n div 10 < 10 ^ Suc k" using Suc.prems by (simp add: div_less_iff_less_mult ac_simps)
    then have "digits_value 0 (show_nat_acc (Suc k) (n div 10) []) = Some (n div 10)"
      using Suc.IH Suc.prems(1) by simp
    then show ?thesis unfolding eq
      using Suc.prems(1) by (simp add: digits_value_append is_ascii_digit_def del: show_nat_acc.simps)
  qed
qed

lemma parse_show_i64:
  assumes "in_i64 n"
  shows "parse_i64 (show_int n) = Some n"
proof -
  let ?s = "\<lambda>m. show_nat_acc (Suc 19) m []"
  have bound: "\<bar>n\<bar> < 10 ^ Suc 19" using assms by (auto simp: in_i64_def i64_min_def i64_max_def)
  then have v: "digits_value 0 (?s \<bar>n\<bar>) = Some \<bar>n\<bar>" "?s \<bar>n\<bar> \<noteq> []"
    using digits_value_show[of "\<bar>n\<bar>" 19] by simp_all
  have twenty: "(20 :: nat) = Suc 19" by simp
  show ?thesis
  proof (cases "n < 0")
    case True
    then show ?thesis using v assms by (simp only: parse_i64_def show_int_def twenty) simp
  next
    case False
    obtain c cs where s: "?s \<bar>n\<bar> = c # cs" using v(2) by (cases "?s \<bar>n\<bar>") auto
    have "is_ascii_digit c" using show_nat_acc_digits[of "\<bar>n\<bar>" c "Suc 19"] s by simp
    then have "c \<noteq> 45" "c \<noteq> 43" by (auto simp: is_ascii_digit_def)
    then show ?thesis using v s False assms
      by (simp only: parse_i64_def show_int_def twenty) (simp add: Let_def)
  qed
qed

lemma show_int_inject: "in_i64 m \<Longrightarrow> in_i64 n \<Longrightarrow> show_int m = show_int n \<Longrightarrow> m = n"
  using parse_show_i64 by (metis option.inject)

lemma show_int_chars: "c \<in> set (show_int n) \<Longrightarrow> is_ascii_digit c \<or> c = 45"
  by (auto simp: show_int_def dest: show_nat_acc_digits[rotated] split: if_splits)

text \<open>A field list joined by a separator that no field contains can be split again.\<close>

lemma append_sep_inject:
  "d \<notin> set a \<Longrightarrow> d \<notin> set b \<Longrightarrow> a @ d # x = b @ d # y \<longleftrightarrow> a = b \<and> x = y"
proof (induction a arbitrary: b)
  case Nil
  then show ?case by (cases b) auto
next
  case (Cons e a)
  then show ?case by (cases b) auto
qed

lemma lower_hex_inject: "lower_hex xs = lower_hex ys \<longleftrightarrow> xs = ys"
proof (induction xs arbitrary: ys)
  case Nil
  then show ?case by (cases ys) auto
next
  case (Cons x xs ys)
  have nib: "hex_char m = hex_char n \<Longrightarrow> 0 \<le> m \<Longrightarrow> m < 16 \<Longrightarrow> 0 \<le> n \<Longrightarrow> n < 16 \<Longrightarrow> m = n" for m n
    by (auto simp: hex_char_def split: if_splits)
  have byte: "hex_char (uint x div 16) = hex_char (uint y div 16) \<and> hex_char (uint x mod 16) = hex_char (uint y mod 16)
      \<longleftrightarrow> x = y" for y :: u8
  proof
    assume h: "hex_char (uint x div 16) = hex_char (uint y div 16) \<and> hex_char (uint x mod 16) = hex_char (uint y mod 16)"
    have r: "0 \<le> uint x div 16" "uint x div 16 < 16" "0 \<le> uint y div 16" "uint y div 16 < 16"
      using uint_u8_bounds[of x] uint_u8_bounds[of y] by linarith+
    have "uint x div 16 = uint y div 16" by (rule nib[OF conjunct1[OF h] r])
    moreover have "uint x mod 16 = uint y mod 16" by (rule nib[OF conjunct2[OF h]]) simp_all
    ultimately have "uint x = uint y"
      using div_mult_mod_eq[of "uint x" 16] div_mult_mod_eq[of "uint y" 16] by metis
    then show "x = y" by (simp add: word_uint_eq_iff)
  qed simp
  show ?case
  proof (cases ys)
    case Nil
    then show ?thesis by simp
  next
    case (Cons y zs)
    then show ?thesis
      by (simp only: lower_hex_simps list.inject uint_high_nibble uint_low_nibble Cons.IH
          byte[of y, symmetric]) blast
  qed
qed

end
