(* ===== verification/Rust_Time.thy ===== *)
theory Rust_Time
  imports Rust_Text
begin

text \<open>
  The part of the crate \<open>time\<close> the program relies on. An \<open>OffsetDateTime\<close> is an instant, in
  nanoseconds since the Unix epoch, seen from a UTC offset in seconds; the crate compares
  instants and ignores the offset. RFC 3339 formatting and parsing is third-party code: it is a
  parameter \<open>codec\<close>, and \<open>codec_ok\<close> states what its documentation promises for whole seconds
  in UTC (every instant of the years 0 to 9999 has a text, the text parses back, and the texts
  are ordered like the instants).
\<close>

section \<open>Instants and offsets\<close>

record odt =
  instant_ns :: int
  offset_secs :: int

definition NANOS :: int where "NANOS = 1000000000"

text \<open>The instants of the years \<open>-9999\<close> to \<open>9999\<close>, in seconds.\<close>

definition odt_min_secs :: int where "odt_min_secs = - 377705116800"
definition odt_max_secs :: int where "odt_max_secs = 253402300799"

definition utc_secs :: "int \<Rightarrow> odt" where
  "utc_secs t = \<lparr>instant_ns = t * NANOS, offset_secs = 0\<rparr>"

definition from_unix_timestamp :: "int \<Rightarrow> odt option" where
  "from_unix_timestamp t = (if odt_min_secs \<le> t \<and> t \<le> odt_max_secs then Some (utc_secs t) else None)"

definition unix_timestamp :: "odt \<Rightarrow> int" where
  "unix_timestamp d = instant_ns d div NANOS"

definition nanosecond :: "odt \<Rightarrow> int" where
  "nanosecond d = instant_ns d mod NANOS"

definition is_utc :: "odt \<Rightarrow> bool" where
  "is_utc d \<longleftrightarrow> offset_secs d = 0"

definition to_utc :: "odt \<Rightarrow> odt" where
  "to_utc d = d\<lparr>offset_secs := 0\<rparr>"

text \<open>\<open>PartialEq\<close> and \<open>Ord\<close> of the crate compare instants.\<close>

definition same_instant :: "odt \<Rightarrow> odt \<Rightarrow> bool" where
  "same_instant a b \<longleftrightarrow> instant_ns a = instant_ns b"

definition before :: "odt \<Rightarrow> odt \<Rightarrow> bool" where
  "before a b \<longleftrightarrow> instant_ns a < instant_ns b"

definition local_secs :: "odt \<Rightarrow> int" where
  "local_secs d = unix_timestamp d + offset_secs d"

text \<open>\<open>checked_add\<close> of whole seconds fails when the local date leaves the supported years.\<close>

definition odt_checked_add :: "odt \<Rightarrow> int \<Rightarrow> odt option" where
  "odt_checked_add d s =
     (let d' = d\<lparr>instant_ns := instant_ns d + s * NANOS\<rparr>
      in if odt_min_secs \<le> local_secs d' \<and> local_secs d' \<le> odt_max_secs then Some d' else None)"

text \<open>\<open>checked_add\<close> of a duration in nanoseconds.\<close>

definition odt_checked_add_ns :: "odt \<Rightarrow> int \<Rightarrow> odt option" where
  "odt_checked_add_ns d n =
     (let d' = d\<lparr>instant_ns := instant_ns d + n\<rparr>
      in if odt_min_secs \<le> local_secs d' \<and> local_secs d' \<le> odt_max_secs then Some d' else None)"

lemma utc_secs_simps [simp]:
  "unix_timestamp (utc_secs t) = t"
  "nanosecond (utc_secs t) = 0"
  "is_utc (utc_secs t)"
  "to_utc (utc_secs t) = utc_secs t"
  "instant_ns (utc_secs t) = t * NANOS"
  "offset_secs (utc_secs t) = 0"
  "utc_secs t = utc_secs u \<longleftrightarrow> t = u"
  "same_instant (utc_secs t) (utc_secs u) \<longleftrightarrow> t = u"
  "before (utc_secs t) (utc_secs u) \<longleftrightarrow> t < u"
  by (auto simp: utc_secs_def unix_timestamp_def nanosecond_def is_utc_def to_utc_def NANOS_def
      same_instant_def before_def)

lemma to_utc_simps [simp]:
  "instant_ns (to_utc d) = instant_ns d"
  "offset_secs (to_utc d) = 0"
  "is_utc (to_utc d)"
  "nanosecond (to_utc d) = nanosecond d"
  "unix_timestamp (to_utc d) = unix_timestamp d"
  "to_utc (to_utc d) = to_utc d"
  "same_instant (to_utc d) e \<longleftrightarrow> same_instant d e"
  "same_instant e (to_utc d) \<longleftrightarrow> same_instant e d"
  by (simp_all add: to_utc_def is_utc_def nanosecond_def unix_timestamp_def same_instant_def)

lemma to_utc_whole: "nanosecond d = 0 \<Longrightarrow> to_utc d = utc_secs (unix_timestamp d)"
  by (cases d) (simp add: to_utc_def utc_secs_def nanosecond_def unix_timestamp_def NANOS_def
      minus_mod_eq_div_mult[symmetric])

lemma is_utc_to_utc: "is_utc d \<Longrightarrow> to_utc d = d"
  by (simp add: is_utc_def to_utc_def)

lemma utc_whole: "is_utc d \<Longrightarrow> nanosecond d = 0 \<Longrightarrow> d = utc_secs (unix_timestamp d)"
  using to_utc_whole is_utc_to_utc by metis

lemma same_instant_refl [simp]: "same_instant d d"
  by (simp add: same_instant_def)

lemma same_instant_sym: "same_instant a b \<Longrightarrow> same_instant b a"
  by (simp add: same_instant_def)

lemma odt_checked_add_utc:
  "odt_checked_add (utc_secs t) s =
     (if odt_min_secs \<le> t + s \<and> t + s \<le> odt_max_secs then Some (utc_secs (t + s)) else None)"
proof -
  have "(utc_secs t)\<lparr>instant_ns := instant_ns (utc_secs t) + s * NANOS\<rparr> = utc_secs (t + s)"
    by (simp add: utc_secs_def algebra_simps)
  then show ?thesis by (simp add: odt_checked_add_def local_secs_def Let_def)
qed

lemma from_unix_timestamp_Some [simp]:
  "from_unix_timestamp t = Some d \<longleftrightarrow> odt_min_secs \<le> t \<and> t \<le> odt_max_secs \<and> d = utc_secs t"
  by (auto simp: from_unix_timestamp_def)

section \<open>RFC 3339\<close>

record codec =
  rfc_format :: "odt \<Rightarrow> str option"
  rfc_parse :: "str \<Rightarrow> odt option"

text \<open>\<open>0000-01-01T00:00:00Z\<close>, the first instant RFC 3339 can write.\<close>

definition rfc_min_secs :: int where "rfc_min_secs = - 62167219200"

definition rfc_range :: "int \<Rightarrow> bool" where
  "rfc_range t \<longleftrightarrow> rfc_min_secs \<le> t \<and> t \<le> odt_max_secs"

definition codec_ok :: "codec \<Rightarrow> bool" where
  "codec_ok C \<longleftrightarrow>
     (\<forall>t. rfc_range t \<longrightarrow> (\<exists>s. rfc_format C (utc_secs t) = Some s \<and> rfc_parse C s = Some (utc_secs t)))
   \<and> (\<forall>t. \<not> rfc_range t \<longrightarrow> rfc_format C (utc_secs t) = None)
   \<and> (\<forall>t u s r. rfc_format C (utc_secs t) = Some s \<longrightarrow> rfc_format C (utc_secs u) = Some r
         \<longrightarrow> (s < r \<longleftrightarrow> t < u))"

definition rfc :: "codec \<Rightarrow> int \<Rightarrow> str" where
  "rfc C t = (case rfc_format C (utc_secs t) of Some s \<Rightarrow> s | None \<Rightarrow> [])"

text \<open>
  For any offset and fraction of a second: what is written is read back as the same instant.
\<close>

definition codec_reads_back :: "codec \<Rightarrow> bool" where
  "codec_reads_back C \<longleftrightarrow> (\<forall>d s. rfc_format C d = Some s \<longrightarrow> (\<exists>e. rfc_parse C s = Some e \<and> same_instant e d))"

lemma codec_format: "codec_ok C \<Longrightarrow> rfc_range t \<Longrightarrow> rfc_format C (utc_secs t) = Some (rfc C t)"
  by (auto simp: codec_ok_def rfc_def split: option.splits)

lemma codec_parse: "codec_ok C \<Longrightarrow> rfc_range t \<Longrightarrow> rfc_parse C (rfc C t) = Some (utc_secs t)"
  by (fastforce simp: codec_ok_def rfc_def)

lemma codec_format_iff:
  "codec_ok C \<Longrightarrow> rfc_format C (utc_secs t) = Some s \<longleftrightarrow> rfc_range t \<and> s = rfc C t"
  by (cases "rfc_range t") (auto simp: codec_format, simp add: codec_ok_def)

lemma codec_less: "codec_ok C \<Longrightarrow> rfc_range t \<Longrightarrow> rfc_range u \<Longrightarrow> rfc C t < rfc C u \<longleftrightarrow> t < u"
  using codec_format[of C t] codec_format[of C u] by (auto simp: codec_ok_def)

lemma codec_le: "codec_ok C \<Longrightarrow> rfc_range t \<Longrightarrow> rfc_range u \<Longrightarrow> rfc C t \<le> rfc C u \<longleftrightarrow> t \<le> u"
  using codec_less[of C u t] by (simp add: linorder_not_less[symmetric])

lemma codec_inject: "codec_ok C \<Longrightarrow> rfc_range t \<Longrightarrow> rfc_range u \<Longrightarrow> rfc C t = rfc C u \<longleftrightarrow> t = u"
  using codec_less[of C t u] codec_less[of C u t] by (cases t u rule: linorder_cases) auto

lemma rfc_range_bounds: "rfc_range t \<Longrightarrow> odt_min_secs \<le> t \<and> t \<le> odt_max_secs"
  by (simp add: rfc_range_def rfc_min_secs_def odt_min_secs_def)

text \<open>The laws can hold: a codec that writes an instant as one character does.\<close>

definition demo_codec :: codec where
  "demo_codec = \<lparr>rfc_format = (\<lambda>d. if is_utc d \<and> nanosecond d = 0 \<and> rfc_range (unix_timestamp d)
                    then Some [unix_timestamp d] else None),
                 rfc_parse = (\<lambda>s. case s of [t] \<Rightarrow> (if rfc_range t then Some (utc_secs t) else None) | _ \<Rightarrow> None)\<rparr>"

lemma demo_codec_ok: "codec_ok demo_codec"
  by (auto simp: codec_ok_def demo_codec_def split: if_splits)

lemma demo_rfc: "rfc_range t \<Longrightarrow> rfc demo_codec t = [t]"
  by (simp add: rfc_def demo_codec_def)

lemma demo_codec_reads_back: "codec_reads_back demo_codec"
  using utc_whole by (auto simp: codec_reads_back_def demo_codec_def split: if_splits)

end
