(* ===== verification/Token_Cipher.thy ===== *)
theory Token_Cipher
  imports Rust_Text
begin

text \<open>
  The envelope encryption of \<open>src/pa/crypto.rs\<close>: \<open>TokenCipher\<close> seals token bytes under a
  32-byte master key with AES-256-GCM and authenticates a context that is not stored in the
  envelope. The crates ring (sealing, opening, key lengths) and base64 are parameters, collected
  in \<open>sealer\<close>; the random nonce of one call is an argument of \<open>encrypt\<close>, \<open>None\<close> when the
  generator failed. The laws of the crates are in \<open>sealer_ok\<close>.
\<close>

section \<open>Errors and values\<close>

datatype crypto_error =
    InvalidKeyLength nat nat
  | EmptyToken
  | EmptyContext
  | EncryptionFailed
  | DecryptionFailed

type_synonym 'a crypto_result = "(crypto_error, 'a) result"

definition TOKEN_CIPHER_VERSION :: nat where "TOKEN_CIPHER_VERSION = 1"
definition NONCE_LEN :: nat where "NONCE_LEN = 12"
definition AES_GCM_TAG_LEN :: nat where "AES_GCM_TAG_LEN = 16"

record encrypted_secret =
  es_version :: nat
  es_nonce :: str
  es_ciphertext :: str

text \<open>
  \<open>seal key nonce context plaintext\<close> is \<open>seal_in_place_append_tag\<close>,
  \<open>unseal key nonce context ciphertext\<close> is \<open>open_in_place\<close>.
\<close>

record sealer =
  key_accepted :: "u8 list \<Rightarrow> bool"
  seal :: "u8 list \<Rightarrow> u8 list \<Rightarrow> u8 list \<Rightarrow> u8 list \<Rightarrow> u8 list option"
  unseal :: "u8 list \<Rightarrow> u8 list \<Rightarrow> u8 list \<Rightarrow> u8 list \<Rightarrow> u8 list option"
  b64_encode :: "u8 list \<Rightarrow> str"
  b64_decode :: "str \<Rightarrow> u8 list option"

record token_cipher =
  tc_key :: "u8 list"

section \<open>Operations\<close>

definition token_cipher_new :: "sealer \<Rightarrow> u8 list \<Rightarrow> token_cipher crypto_result" where
  "token_cipher_new A master_key =
     (if length master_key \<noteq> 32 then Inl (InvalidKeyLength 32 (length master_key))
      else if \<not> key_accepted A master_key then Inl (InvalidKeyLength 32 (length master_key))
      else Inr \<lparr>tc_key = master_key\<rparr>)"

definition from_master_key :: "sealer \<Rightarrow> u8 list \<Rightarrow> token_cipher crypto_result" where
  "from_master_key A master_key = token_cipher_new A master_key"

definition encrypt ::
    "sealer \<Rightarrow> token_cipher \<Rightarrow> u8 list option \<Rightarrow> u8 list \<Rightarrow> u8 list \<Rightarrow> encrypted_secret crypto_result" where
  "encrypt A tc rnd token ctx =
     (if token = [] then Inl EmptyToken
      else if ctx = [] then Inl EmptyContext
      else rbind (ok_or EncryptionFailed rnd) (\<lambda>nonce_bytes.
        rbind (ok_or EncryptionFailed (seal A (tc_key tc) nonce_bytes ctx token)) (\<lambda>ciphertext.
        Inr \<lparr>es_version = TOKEN_CIPHER_VERSION, es_nonce = b64_encode A nonce_bytes,
             es_ciphertext = b64_encode A ciphertext\<rparr>)))"

definition decrypt :: "sealer \<Rightarrow> token_cipher \<Rightarrow> encrypted_secret \<Rightarrow> u8 list \<Rightarrow> u8 list crypto_result" where
  "decrypt A tc envelope ctx =
     (if ctx = [] \<or> es_version envelope \<noteq> TOKEN_CIPHER_VERSION then Inl DecryptionFailed
      else rbind (ok_or DecryptionFailed (b64_decode A (es_nonce envelope))) (\<lambda>nonce_bytes.
        if length nonce_bytes \<noteq> NONCE_LEN then Inl DecryptionFailed
        else rbind (ok_or DecryptionFailed (b64_decode A (es_ciphertext envelope))) (\<lambda>ciphertext.
          if length ciphertext \<le> AES_GCM_TAG_LEN then Inl DecryptionFailed
          else rbind (ok_or DecryptionFailed (unseal A (tc_key tc) nonce_bytes ctx ciphertext)) (\<lambda>plaintext.
            if plaintext = [] then Inl DecryptionFailed else Inr plaintext))))"

section \<open>The laws of the crates\<close>

text \<open>
  AES-GCM appends a tag of 16 bytes (a lower bound suffices here), opens what it sealed, and refuses a ciphertext under any
  nonce or context other than the ones it was sealed with (in the ideal model of authenticated
  encryption); base64 decodes what it encoded.
\<close>

definition sealer_ok :: "sealer \<Rightarrow> bool" where
  "sealer_ok A \<longleftrightarrow>
     (\<forall>bs. b64_decode A (b64_encode A bs) = Some bs)
   \<and> (\<forall>k n c p s. seal A k n c p = Some s \<longrightarrow> length p + AES_GCM_TAG_LEN \<le> length s)
   \<and> (\<forall>k n c p s. length n = NONCE_LEN \<and> seal A k n c p = Some s \<longrightarrow> unseal A k n c s = Some p)
   \<and> (\<forall>k n c p s n' c'. length n = NONCE_LEN \<and> length n' = NONCE_LEN \<and> seal A k n c p = Some s
        \<and> (n', c') \<noteq> (n, c) \<longrightarrow> unseal A k n' c' s = None)"

lemma sealer_okD:
  assumes "sealer_ok A"
  shows "b64_decode A (b64_encode A bs) = Some bs"
    and "seal A k n c p = Some s \<Longrightarrow> length p + AES_GCM_TAG_LEN \<le> length s"
    and "seal A k n c p = Some s \<Longrightarrow> length n = NONCE_LEN \<Longrightarrow> unseal A k n c s = Some p"
    and "seal A k n c p = Some s \<Longrightarrow> length n = NONCE_LEN \<Longrightarrow> c' \<noteq> c \<Longrightarrow> unseal A k n c' s = None"
  using assms unfolding sealer_ok_def by blast+

lemma encrypt_Inr_iff:
  "encrypt A tc rnd token ctx = Inr e \<longleftrightarrow>
     token \<noteq> [] \<and> ctx \<noteq> [] \<and>
     (\<exists>n c. rnd = Some n \<and> seal A (tc_key tc) n ctx token = Some c \<and>
        e = \<lparr>es_version = TOKEN_CIPHER_VERSION, es_nonce = b64_encode A n, es_ciphertext = b64_encode A c\<rparr>)"
  by (auto simp: encrypt_def rbind_Inr_iff)

text \<open>An envelope opens under its own context, and fails under every other one.\<close>

lemma decrypt_encrypt:
  assumes A: "sealer_ok A" and n: "length n = NONCE_LEN"
    and e: "encrypt A tc (Some n) token ctx = Inr e"
  shows "decrypt A tc e ctx' = (if ctx' = ctx then Inr token else Inl DecryptionFailed)"
proof -
  obtain c where c: "token \<noteq> []" "ctx \<noteq> []" "seal A (tc_key tc) n ctx token = Some c"
    and e_eq: "e = \<lparr>es_version = TOKEN_CIPHER_VERSION, es_nonce = b64_encode A n, es_ciphertext = b64_encode A c\<rparr>"
    using e by (auto simp: encrypt_Inr_iff)
  have len: "\<not> length c \<le> AES_GCM_TAG_LEN" using sealer_okD(2)[OF A c(3)] c(1) by (cases token) simp_all
  show ?thesis
  proof (cases "ctx' = ctx")
    case True
    then show ?thesis using c(1,2) len n sealer_okD(3)[OF A c(3) n]
      by (simp add: decrypt_def e_eq sealer_okD(1)[OF A])
  next
    case False
    then show ?thesis using len n sealer_okD(4)[OF A c(3) n False]
      by (simp add: decrypt_def e_eq sealer_okD(1)[OF A])
  qed
qed

lemma decrypt_other_errors: "decrypt A tc e ctx = Inl err \<Longrightarrow> err = DecryptionFailed"
  by (auto simp: decrypt_def rbind_Inl_iff ok_or_def split: if_splits option.splits)

section \<open>A concrete sealer\<close>

text \<open>
  A sealer that satisfies the laws: the ciphertext writes down nonce and context in front of the
  plaintext, each byte of the two after a marker byte, and opening compares them.
\<close>

fun marked :: "u8 list \<Rightarrow> u8 list" where
  "marked [] = [0]"
| "marked (b # bs) = 1 # b # marked bs"

fun strip_prefix_bytes :: "u8 list \<Rightarrow> u8 list \<Rightarrow> u8 list option" where
  "strip_prefix_bytes [] s = Some s"
| "strip_prefix_bytes (p # ps) [] = None"
| "strip_prefix_bytes (p # ps) (c # s) = (if p = c then strip_prefix_bytes ps s else None)"

definition demo_header :: "u8 list \<Rightarrow> u8 list \<Rightarrow> u8 list" where
  "demo_header n c = replicate 16 0 @ marked n @ marked c"

definition demo_sealer :: sealer where
  "demo_sealer = \<lparr>key_accepted = (\<lambda>_. True),
     seal = (\<lambda>k n c p. Some (demo_header n c @ p)),
     unseal = (\<lambda>k n c s. strip_prefix_bytes (demo_header n c) s),
     b64_encode = map uint, b64_decode = (\<lambda>s. Some (map word_of_int s))\<rparr>"

lemma strip_prefix_append:
  "strip_prefix_bytes (p @ q) s = Option.bind (strip_prefix_bytes p s) (strip_prefix_bytes q)"
  by (induction p s rule: strip_prefix_bytes.induct) auto

lemma strip_same_prefix [simp]: "strip_prefix_bytes p (p @ s) = Some s"
  by (induction p) auto

lemma strip_marked: "strip_prefix_bytes (marked x) (marked y @ s) = (if x = y then Some s else None)"
proof (induction x arbitrary: y)
  case Nil
  then show ?case by (cases y) auto
next
  case (Cons a x)
  then show ?case by (cases y) auto
qed

lemma strip_demo_header:
  "strip_prefix_bytes (demo_header n' c') (demo_header n c @ s) = (if (n', c') = (n, c) then Some s else None)"
  by (simp add: demo_header_def strip_prefix_append strip_marked)

lemma demo_sealer_ok: "sealer_ok demo_sealer"
proof -
  have "length p + AES_GCM_TAG_LEN \<le> length (demo_header n c @ p)" for n c p
    by (simp add: demo_header_def AES_GCM_TAG_LEN_def)
  then show ?thesis by (auto simp: sealer_ok_def demo_sealer_def strip_demo_header comp_def)
qed

end
