(* ===== verification/Store_Common.thy ===== *)
theory Store_Common
  imports Rust_Time Token_Cipher
begin

text \<open>
  Shared parts of \<open>src/pa/store.rs\<close>: the error type, the closed enumerations with their stored
  names, the validators of identifiers and texts, and the timestamp helpers. Every validator
  returns its argument unchanged or an \<open>InvalidInput\<close> that names the field.
\<close>

section \<open>Errors\<close>

datatype store_error =
    EmptyDatabaseKey
  | SqlCipherUnavailable
  | UnsupportedSchemaVersion int
  | InvalidInput string
  | NotFound string
  | AppointmentQuoteNotYetValid
  | AppointmentQuoteExpired
  | CursorConflict string
  | Conflict string
  | StoredValueInvalid
  | StoredRecordInvalid string
  | Crypto crypto_error
  | SqliteError

type_synonym 'a store_result = "(store_error, 'a) result"

definition stored_record_invalid :: "string \<Rightarrow> store_error" where
  "stored_record_invalid resource = StoredRecordInvalid resource"

section \<open>Limits\<close>

definition MAX_AUDIT_ENTITY_ID_LENGTH :: nat where "MAX_AUDIT_ENTITY_ID_LENGTH = 256"
definition MAX_AUDIT_IDEMPOTENCY_KEY_LENGTH :: nat where "MAX_AUDIT_IDEMPOTENCY_KEY_LENGTH = 256"
definition MAX_AUDIT_LIST_LIMIT :: nat where "MAX_AUDIT_LIST_LIMIT = 100"
definition MAX_MESSAGE_ID_LENGTH :: nat where "MAX_MESSAGE_ID_LENGTH = 256"
definition MAX_PROVIDER_CURSOR_LENGTH :: nat where "MAX_PROVIDER_CURSOR_LENGTH = MAX_MESSAGE_ID_LENGTH"
definition MAX_MESSAGE_SUMMARY_LENGTH :: nat where "MAX_MESSAGE_SUMMARY_LENGTH = 4096"
definition MAX_MESSAGE_SUBJECT_LENGTH :: nat where "MAX_MESSAGE_SUBJECT_LENGTH = 256"
definition MAX_MESSAGE_SENDER_LENGTH :: nat where "MAX_MESSAGE_SENDER_LENGTH = 320"
definition MAX_MESSAGE_LIST_LIMIT :: nat where "MAX_MESSAGE_LIST_LIMIT = 100"
definition MAX_TASK_ID_LENGTH :: nat where "MAX_TASK_ID_LENGTH = MAX_MESSAGE_ID_LENGTH"
definition MAX_TASK_TITLE_LENGTH :: nat where "MAX_TASK_TITLE_LENGTH = MAX_MESSAGE_ID_LENGTH"
definition MAX_TASK_DURATION_MINUTES :: int where "MAX_TASK_DURATION_MINUTES = 24 * 60"
definition MAX_TASK_LIST_LIMIT :: nat where "MAX_TASK_LIST_LIMIT = 100"

lemmas store_limits =
  MAX_AUDIT_ENTITY_ID_LENGTH_def MAX_AUDIT_IDEMPOTENCY_KEY_LENGTH_def MAX_AUDIT_LIST_LIMIT_def
  MAX_MESSAGE_ID_LENGTH_def MAX_PROVIDER_CURSOR_LENGTH_def MAX_MESSAGE_SUMMARY_LENGTH_def
  MAX_MESSAGE_SUBJECT_LENGTH_def MAX_MESSAGE_SENDER_LENGTH_def MAX_MESSAGE_LIST_LIMIT_def
  MAX_TASK_ID_LENGTH_def MAX_TASK_TITLE_LENGTH_def MAX_TASK_DURATION_MINUTES_def MAX_TASK_LIST_LIMIT_def

section \<open>Identifiers and texts\<close>

definition machine_byte :: "rchar \<Rightarrow> bool" where
  "machine_byte b \<longleftrightarrow> is_ascii_alphanumeric b \<or> b \<in> {46, 95, 58, 45}"

definition validate_machine_identifier_with_limit :: "str \<Rightarrow> string \<Rightarrow> nat \<Rightarrow> str store_result" where
  "validate_machine_identifier_with_limit v field maximum_length =
     (if v = [] \<or> str_len v > maximum_length \<or> list_ex is_whitespace v \<or> list_ex is_control v
         \<or> \<not> all_bytes machine_byte v
      then Inl (InvalidInput field) else Inr v)"

definition validate_message_identifier :: "str \<Rightarrow> string \<Rightarrow> str store_result" where
  "validate_message_identifier v field = validate_machine_identifier_with_limit v field MAX_MESSAGE_ID_LENGTH"

definition validate_message_id :: "str \<Rightarrow> str store_result" where
  "validate_message_id v = validate_message_identifier v ''message_id''"

definition validate_message_idempotency_key :: "str \<Rightarrow> str store_result" where
  "validate_message_idempotency_key v = validate_message_identifier v ''idempotency_key''"

definition validate_message_source_id :: "str \<Rightarrow> str store_result" where
  "validate_message_source_id v = validate_message_identifier v ''source_id''"

definition validate_provider_message_id :: "str \<Rightarrow> str store_result" where
  "validate_provider_message_id v = validate_message_identifier v ''provider_message_id''"

definition validate_provider_stream_identifier :: "str \<Rightarrow> string \<Rightarrow> str store_result" where
  "validate_provider_stream_identifier v field =
     validate_machine_identifier_with_limit v field MAX_PROVIDER_CURSOR_LENGTH"

definition validate_provider_cursor_identifier :: "str \<Rightarrow> string \<Rightarrow> str store_result" where
  "validate_provider_cursor_identifier v field =
     (if str_trim v = [] \<or> str_len v > MAX_PROVIDER_CURSOR_LENGTH \<or> \<not> list_all is_ascii v
         \<or> list_ex is_control v
      then Inl (InvalidInput field) else Inr v)"

definition validate_task_identifier :: "str \<Rightarrow> string \<Rightarrow> str store_result" where
  "validate_task_identifier v field =
     (if v = [] \<or> str_len v > MAX_TASK_ID_LENGTH \<or> list_ex is_whitespace v \<or> list_ex is_control v
         \<or> \<not> all_bytes machine_byte v
      then Inl (InvalidInput field) else Inr v)"

definition validate_task_idempotency_key :: "str \<Rightarrow> str store_result" where
  "validate_task_idempotency_key v = validate_task_identifier v ''idempotency_key''"

definition validate_task_source_id :: "str \<Rightarrow> str store_result" where
  "validate_task_source_id v = validate_task_identifier v ''source_id''"

definition validate_machine_identifier :: "str \<Rightarrow> string \<Rightarrow> str store_result" where
  "validate_machine_identifier v field =
     (if v = [] \<or> str_len v > MAX_TASK_ID_LENGTH \<or> \<not> all_bytes machine_byte v
      then Inl (InvalidInput field) else Inr v)"

definition validate_provider_event_id :: "str \<Rightarrow> str store_result" where
  "validate_provider_event_id v =
     (if str_trim v = [] \<or> str_len v > MAX_TASK_ID_LENGTH \<or> \<not> list_all is_ascii v \<or> list_ex is_control v
      then Inl (InvalidInput ''provider_event_id'') else Inr v)"

definition validate_audit_machine_identifier :: "str \<Rightarrow> string \<Rightarrow> nat \<Rightarrow> str store_result" where
  "validate_audit_machine_identifier v field maximum_length =
     (if \<not> (1 \<le> str_len v \<and> str_len v \<le> maximum_length) \<or> \<not> all_bytes machine_byte v
      then Inl (InvalidInput field) else Inr v)"

definition validate_audit_entity_id :: "str \<Rightarrow> str store_result" where
  "validate_audit_entity_id v = validate_audit_machine_identifier v ''entity_id'' MAX_AUDIT_ENTITY_ID_LENGTH"

definition validate_audit_idempotency_key :: "str \<Rightarrow> str store_result" where
  "validate_audit_idempotency_key v =
     validate_audit_machine_identifier v ''idempotency_key'' MAX_AUDIT_IDEMPOTENCY_KEY_LENGTH"

definition validate_message_text :: "str \<Rightarrow> string \<Rightarrow> nat \<Rightarrow> str store_result" where
  "validate_message_text v field maximum_length =
     (if str_trim v = [] \<or> str_len v > maximum_length \<or> list_ex is_control v
      then Inl (InvalidInput field) else Inr v)"

definition validate_message_summary :: "str \<Rightarrow> str store_result" where
  "validate_message_summary v = validate_message_text v ''summary'' MAX_MESSAGE_SUMMARY_LENGTH"

definition validate_message_subject :: "str option \<Rightarrow> str option store_result" where
  "validate_message_subject v =
     transpose (map_option (\<lambda>v. validate_message_text v ''subject'' MAX_MESSAGE_SUBJECT_LENGTH) v)"

definition validate_message_sender :: "str option \<Rightarrow> str option store_result" where
  "validate_message_sender v =
     transpose (map_option (\<lambda>v. validate_message_text v ''sender'' MAX_MESSAGE_SENDER_LENGTH) v)"

definition validate_task_title :: "str \<Rightarrow> str store_result" where
  "validate_task_title v =
     (if str_trim v = [] \<or> str_len v > MAX_TASK_TITLE_LENGTH \<or> list_ex is_control v
      then Inl (InvalidInput ''title'') else Inr v)"

definition validate_non_empty :: "str \<Rightarrow> string \<Rightarrow> str store_result" where
  "validate_non_empty v field = (if str_trim v = [] then Inl (InvalidInput field) else Inr v)"

definition validate_source_id :: "str \<Rightarrow> str store_result" where
  "validate_source_id v =
     rbind (validate_non_empty v ''source_id'') (\<lambda>v.
       if list_ex is_control v then Inl (InvalidInput ''source_id'') else Inr v)"

definition machine_id :: "nat \<Rightarrow> str \<Rightarrow> bool" where
  "machine_id n s \<longleftrightarrow> s \<noteq> [] \<and> length s \<le> n \<and> list_all machine_byte s"

definition plain_text :: "nat \<Rightarrow> str \<Rightarrow> bool" where
  "plain_text n s \<longleftrightarrow> str_trim s \<noteq> [] \<and> str_len s \<le> n \<and> \<not> list_ex is_control s"

lemma machine_byte_ascii: "machine_byte c \<Longrightarrow> is_ascii c"
  by (auto simp: machine_byte_def char_class_defs)

lemma machine_byte_plain: "machine_byte c \<Longrightarrow> \<not> is_whitespace c \<and> \<not> is_control c"
  by (auto simp: machine_byte_def is_whitespace_def is_control_def char_class_defs)

lemma machine_id_str_len: "list_all machine_byte s \<Longrightarrow> str_len s = length s"
  by (rule str_len_ascii) (auto simp: list_all_iff machine_byte_ascii)

lemma all_machine_bytes [simp]: "all_bytes machine_byte s \<longleftrightarrow> list_all machine_byte s"
  by (rule all_bytes_ascii[OF machine_byte_ascii])

lemma machine_plain: "list_all machine_byte s \<Longrightarrow> \<not> list_ex is_whitespace s \<and> \<not> list_ex is_control s"
  by (auto simp: list_all_iff list_ex_iff machine_byte_plain)

text \<open>All identifier validators decide the same predicate and differ only in the field they name.\<close>

lemma validate_machine_identifier_with_limit_eq:
  "validate_machine_identifier_with_limit v f n = (if machine_id n v then Inr v else Inl (InvalidInput f))"
  by (auto simp: validate_machine_identifier_with_limit_def machine_id_def machine_id_str_len machine_plain)

lemma validate_message_identifier_eq:
  "validate_message_identifier v f = (if machine_id 256 v then Inr v else Inl (InvalidInput f))"
  by (simp add: validate_message_identifier_def validate_machine_identifier_with_limit_eq store_limits)

lemma validate_task_identifier_eq:
  "validate_task_identifier v f = (if machine_id 256 v then Inr v else Inl (InvalidInput f))"
  by (auto simp: validate_task_identifier_def machine_id_def machine_id_str_len machine_plain store_limits)

lemma validate_machine_identifier_eq:
  "validate_machine_identifier v f = (if machine_id 256 v then Inr v else Inl (InvalidInput f))"
  by (auto simp: validate_machine_identifier_def machine_id_def machine_id_str_len store_limits)

lemma validate_audit_machine_identifier_eq:
  "validate_audit_machine_identifier v f n = (if machine_id n v then Inr v else Inl (InvalidInput f))"
  by (cases "v = []") (auto simp: validate_audit_machine_identifier_def machine_id_def machine_id_str_len
      Suc_le_eq)

lemma validate_message_text_eq:
  "validate_message_text v f n = (if plain_text n v then Inr v else Inl (InvalidInput f))"
  by (auto simp: validate_message_text_def plain_text_def)

lemma validate_task_title_eq:
  "validate_task_title v = (if plain_text 256 v then Inr v else Inl (InvalidInput ''title''))"
  by (auto simp: validate_task_title_def plain_text_def store_limits)

lemmas validator_eqs =
  validate_message_id_def validate_message_idempotency_key_def validate_message_source_id_def
  validate_provider_message_id_def validate_task_idempotency_key_def validate_task_source_id_def
  validate_audit_entity_id_def validate_audit_idempotency_key_def validate_message_summary_def
  validate_provider_stream_identifier_def
  validate_machine_identifier_with_limit_eq validate_message_identifier_eq validate_task_identifier_eq
  validate_machine_identifier_eq validate_audit_machine_identifier_eq validate_message_text_eq
  validate_task_title_eq

lemma validate_provider_cursor_identifier_Inr:
  "validate_provider_cursor_identifier v f = Inr w \<longleftrightarrow>
     w = v \<and> is_ok (validate_provider_cursor_identifier v f)"
  by (auto simp: validate_provider_cursor_identifier_def)

lemma validate_provider_cursor_identifier_field:
  "is_ok (validate_provider_cursor_identifier v f) \<longleftrightarrow> is_ok (validate_provider_cursor_identifier v g)"
  by (auto simp: validate_provider_cursor_identifier_def)

section \<open>Timestamps\<close>

definition format_offset_datetime :: "codec \<Rightarrow> odt \<Rightarrow> str store_result" where
  "format_offset_datetime C v = ok_or (stored_record_invalid ''draft'') (rfc_format C v)"

definition parse_offset_datetime :: "codec \<Rightarrow> str \<Rightarrow> odt store_result" where
  "parse_offset_datetime C v = ok_or (stored_record_invalid ''draft'') (rfc_parse C v)"

definition format_audit_timestamp :: "codec \<Rightarrow> odt \<Rightarrow> string \<Rightarrow> (odt \<times> str) store_result" where
  "format_audit_timestamp C v field =
     (let v = to_utc v in
      if nanosecond v \<noteq> 0 then Inl (InvalidInput field)
      else rbind (ok_or (InvalidInput field) (rfc_format C v)) (\<lambda>s. Inr (v, s)))"

definition parse_audit_timestamp :: "codec \<Rightarrow> str \<Rightarrow> string \<Rightarrow> odt store_result" where
  "parse_audit_timestamp C v resource =
     rbind (ok_or (stored_record_invalid resource) (rfc_parse C v)) (\<lambda>parsed.
     rbind (ok_or (stored_record_invalid resource) (from_unix_timestamp (unix_timestamp parsed))) (\<lambda>d.
     let canonical = to_utc d in
     rbind (ok_or (stored_record_invalid resource) (rfc_format C canonical)) (\<lambda>canonical_text.
     if v \<noteq> canonical_text then Inl (stored_record_invalid resource) else Inr canonical)))"

definition format_task_timestamp :: "codec \<Rightarrow> odt \<Rightarrow> string \<Rightarrow> (odt \<times> str) store_result" where
  "format_task_timestamp C v field =
     (let v = to_utc v in
      if nanosecond v \<noteq> 0 then Inl (InvalidInput field)
      else rbind (ok_or (InvalidInput field) (rfc_format C v)) (\<lambda>s. Inr (v, s)))"

definition format_task_updated_timestamp :: "codec \<Rightarrow> odt \<Rightarrow> (odt \<times> str) store_result" where
  "format_task_updated_timestamp C v =
     (if \<not> is_utc v \<or> nanosecond v \<noteq> 0 then Inl (InvalidInput ''updated_at'')
      else rbind (ok_or (InvalidInput ''updated_at'') (rfc_format C v)) (\<lambda>s. Inr (v, s)))"

definition parse_task_timestamp :: "codec \<Rightarrow> str \<Rightarrow> string \<Rightarrow> odt store_result" where
  "parse_task_timestamp C v resource =
     rbind (ok_or (stored_record_invalid resource) (rfc_parse C v)) (\<lambda>parsed.
     let parsed = to_utc parsed in
     if nanosecond parsed \<noteq> 0 then Inl (stored_record_invalid resource)
     else rbind (ok_or (stored_record_invalid resource) (rfc_format C parsed)) (\<lambda>canonical.
       if canonical \<noteq> v then Inl (stored_record_invalid resource) else Inr parsed))"

definition parse_task_timestamp_text :: "codec \<Rightarrow> str \<Rightarrow> str store_result" where
  "parse_task_timestamp_text C v =
     rbind (parse_task_timestamp C v ''task'') (\<lambda>parsed.
       ok_or (stored_record_invalid ''task'') (rfc_format C parsed))"

definition validate_message_timestamp :: "codec \<Rightarrow> str \<Rightarrow> str store_result" where
  "validate_message_timestamp C v =
     rbind (ok_or (InvalidInput ''timestamp'') (rfc_parse C v)) (\<lambda>parsed.
     rbind (ok_or (InvalidInput ''timestamp'') (rfc_format C (to_utc parsed))) (\<lambda>canonical.
     if canonical \<noteq> v \<or> nanosecond parsed \<noteq> 0 then Inl (InvalidInput ''timestamp'') else Inr v))"

definition format_message_timestamp :: "codec \<Rightarrow> odt \<Rightarrow> (odt \<times> str) store_result" where
  "format_message_timestamp C v =
     (if \<not> is_utc v then Inl (InvalidInput ''received_at'')
      else format_audit_timestamp C v ''received_at'')"

definition format_message_updated_timestamp :: "codec \<Rightarrow> odt \<Rightarrow> (odt \<times> str) store_result" where
  "format_message_updated_timestamp C v =
     (if \<not> is_utc v then Inl (InvalidInput ''updated_at'')
      else if nanosecond v \<noteq> 0 then Inl (InvalidInput ''updated_at'')
      else rbind (ok_or (InvalidInput ''updated_at'') (rfc_format C v)) (\<lambda>s. Inr (v, s)))"

definition parse_message_timestamp :: "codec \<Rightarrow> str \<Rightarrow> odt store_result" where
  "parse_message_timestamp C v =
     rbind (ok_or (stored_record_invalid ''message'') (rfc_parse C v)) (\<lambda>parsed.
     if nanosecond parsed \<noteq> 0 then Inl (stored_record_invalid ''message'')
     else let canonical = to_utc parsed in
       rbind (ok_or (stored_record_invalid ''message'') (rfc_format C canonical)) (\<lambda>canonical_text.
         if v \<noteq> canonical_text then Inl (stored_record_invalid ''message'') else Inr canonical))"

definition parse_message_timestamp_text :: "codec \<Rightarrow> str \<Rightarrow> str store_result" where
  "parse_message_timestamp_text C v =
     rbind (parse_message_timestamp C v) (\<lambda>parsed.
       ok_or (stored_record_invalid ''message'') (rfc_format C parsed))"

text \<open>
  On whole seconds the formatters and the strict parsers have closed forms: what is written is
  the canonical text of a second in range, and exactly those texts are read back.
\<close>

definition rfc_time :: "codec \<Rightarrow> str \<Rightarrow> int \<Rightarrow> bool" where
  "rfc_time C s t \<longleftrightarrow> rfc_range t \<and> s = rfc C t"

lemma rfc_time_unique: "codec_ok C \<Longrightarrow> rfc_time C s t \<Longrightarrow> rfc_time C s u \<Longrightarrow> t = u"
  using codec_inject unfolding rfc_time_def by metis

lemma format_whole:
  assumes "codec_ok C" "is_utc d" "nanosecond d = 0"
  shows "rfc_format C d = Some s \<longleftrightarrow> rfc_time C s (unix_timestamp d)"
proof -
  have "d = utc_secs (unix_timestamp d)" by (rule utc_whole[OF assms(2,3)])
  then show ?thesis using codec_format_iff[OF assms(1), of "unix_timestamp d"] by (simp add: rfc_time_def)
qed

lemma format_audit_timestamp_Inr:
  "codec_ok C \<Longrightarrow> format_audit_timestamp C d f = Inr (e, s) \<longleftrightarrow>
     nanosecond d = 0 \<and> e = utc_secs (unix_timestamp d) \<and> rfc_time C s (unix_timestamp d)"
  using to_utc_whole[of d]
  by (auto simp: format_audit_timestamp_def rbind_Inr_iff format_whole Let_def)

lemma format_task_timestamp_eq: "format_task_timestamp = format_audit_timestamp"
  by (simp add: format_task_timestamp_def format_audit_timestamp_def fun_eq_iff)

lemma format_task_updated_timestamp_Inr:
  "codec_ok C \<Longrightarrow> format_task_updated_timestamp C d = Inr (e, s) \<longleftrightarrow>
     is_utc d \<and> nanosecond d = 0 \<and> e = d \<and> rfc_time C s (unix_timestamp d)"
  by (auto simp: format_task_updated_timestamp_def rbind_Inr_iff format_whole)

lemma format_message_timestamp_Inr:
  "codec_ok C \<Longrightarrow> format_message_timestamp C d = Inr (e, s) \<longleftrightarrow>
     is_utc d \<and> nanosecond d = 0 \<and> e = utc_secs (unix_timestamp d) \<and> rfc_time C s (unix_timestamp d)"
  by (auto simp: format_message_timestamp_def format_audit_timestamp_Inr)

lemma format_message_updated_timestamp_Inr:
  "codec_ok C \<Longrightarrow> format_message_updated_timestamp C d = Inr (e, s) \<longleftrightarrow>
     is_utc d \<and> nanosecond d = 0 \<and> e = d \<and> rfc_time C s (unix_timestamp d)"
  by (auto simp: format_message_updated_timestamp_def rbind_Inr_iff format_whole)

lemma parse_audit_timestamp_Inr:
  assumes C: "codec_ok C"
  shows "parse_audit_timestamp C s r = Inr d \<longleftrightarrow> (\<exists>t. rfc_time C s t \<and> d = utc_secs t)" (is "?l \<longleftrightarrow> ?r")
proof
  show "?l \<Longrightarrow> ?r"
    using C by (auto simp: parse_audit_timestamp_def rbind_Inr_iff Let_def codec_format_iff rfc_time_def
        split: if_splits)
  show "?r \<Longrightarrow> ?l"
  proof -
    assume ?r
    then obtain t where t: "rfc_range t" "s = rfc C t" "d = utc_secs t" by (auto simp: rfc_time_def)
    then have "odt_min_secs \<le> t" "t \<le> odt_max_secs" using rfc_range_bounds by auto
    then show ?l using C t
      by (simp add: parse_audit_timestamp_def codec_parse codec_format Let_def from_unix_timestamp_def)
  qed
qed

lemma parse_task_timestamp_Inr:
  assumes C: "codec_ok C"
  shows "parse_task_timestamp C s r = Inr d \<longleftrightarrow> (\<exists>t. rfc_time C s t \<and> d = utc_secs t)" (is "?l \<longleftrightarrow> ?r")
proof
  show "?l \<Longrightarrow> ?r"
    using C by (fastforce simp: parse_task_timestamp_def rbind_Inr_iff Let_def format_whole
        to_utc_whole split: if_splits)
  show "?r \<Longrightarrow> ?l"
    using C by (auto simp: parse_task_timestamp_def rfc_time_def codec_parse codec_format)
qed

lemma parse_message_timestamp_Inr:
  assumes C: "codec_ok C"
  shows "parse_message_timestamp C s = Inr d \<longleftrightarrow> (\<exists>t. rfc_time C s t \<and> d = utc_secs t)" (is "?l \<longleftrightarrow> ?r")
proof
  show "?l \<Longrightarrow> ?r"
    using C by (fastforce simp: parse_message_timestamp_def rbind_Inr_iff Let_def format_whole
        to_utc_whole split: if_splits)
  show "?r \<Longrightarrow> ?l"
    using C by (auto simp: parse_message_timestamp_def rfc_time_def codec_parse codec_format)
qed

lemma rfc_time_format: "codec_ok C \<Longrightarrow> rfc_time C s t \<Longrightarrow> rfc_format C (utc_secs t) = Some s"
  by (simp add: rfc_time_def codec_format)

lemma parse_task_timestamp_text_Inr:
  "codec_ok C \<Longrightarrow> parse_task_timestamp_text C s = Inr r \<longleftrightarrow> r = s \<and> (\<exists>t. rfc_time C s t)"
  by (auto simp: parse_task_timestamp_text_def rbind_Inr_iff parse_task_timestamp_Inr rfc_time_format)

lemma parse_message_timestamp_text_Inr:
  "codec_ok C \<Longrightarrow> parse_message_timestamp_text C s = Inr r \<longleftrightarrow> r = s \<and> (\<exists>t. rfc_time C s t)"
  by (auto simp: parse_message_timestamp_text_def rbind_Inr_iff parse_message_timestamp_Inr rfc_time_format)

end
