(* ===== verification/Domain_Values.thy ===== *)
theory Domain_Values
  imports Rust_Time
begin

text \<open>
  \<open>src/pa/domain.rs\<close>: the validated values of the personal-assistant workflow. The constructors
  are the only way to make a value, so each type comes with a well-formedness predicate and the
  lemma that its constructors, its deserializer and its operations establish or keep it.
  \<open>OffsetDateTime + Duration\<close> panics when the result leaves the supported years; such a
  constructor returns an option whose \<open>None\<close> is that panic.
\<close>

section \<open>Errors, kinds and durations\<close>

datatype proposal_state = PsPending | PsAccepted | PsDeclined | PsExpired

datatype domain_error =
    BlankRequiredField string
  | InvalidEmail
  | UnconfirmedEmail
  | ZeroDuration string
  | InvalidQuoteExpiry
  | InvalidAppointmentSlot
  | QuoteExpired
  | QuoteNotYetValid
  | TerminalProposalState proposal_state
  | InvalidProposalTransition proposal_state proposal_state
  | WireError

type_synonym 'a domain_result = "(domain_error, 'a) result"

datatype appointment_kind = AkCallback | AkMeeting

fun ak_duration_minutes :: "appointment_kind \<Rightarrow> int" where
  "ak_duration_minutes AkCallback = 15"
| "ak_duration_minutes AkMeeting = 30"

text \<open>A \<open>time::Duration\<close> of whole seconds.\<close>

definition minutes :: "int \<Rightarrow> int" where "minutes m = m * 60"

definition ak_duration :: "appointment_kind \<Rightarrow> int" where
  "ak_duration k = minutes (ak_duration_minutes k)"

definition requester_included_by_default :: "appointment_kind \<Rightarrow> bool" where
  "requester_included_by_default k \<longleftrightarrow> k = AkMeeting"

definition owner_only_by_default :: "appointment_kind \<Rightarrow> bool" where
  "owner_only_by_default k \<longleftrightarrow> \<not> requester_included_by_default k"

datatype task_kind = TkBill | TkCallback | TkReading | TkEmailReply | TkPreparation

fun tk_duration_minutes :: "task_kind \<Rightarrow> int" where
  "tk_duration_minutes TkBill = 15"
| "tk_duration_minutes TkCallback = 15"
| "tk_duration_minutes TkReading = 30"
| "tk_duration_minutes TkEmailReply = 30"
| "tk_duration_minutes TkPreparation = 60"

definition tk_duration :: "task_kind \<Rightarrow> int" where
  "tk_duration k = minutes (tk_duration_minutes k)"

datatype duration_minutes = DurationMinutes (dm_minutes: int)

definition dm_new :: "int \<Rightarrow> duration_minutes domain_result" where
  "dm_new m = (if m = 0 then Inl (ZeroDuration ''duration'') else Inr (DurationMinutes m))"

definition dm_as_duration :: "duration_minutes \<Rightarrow> int" where
  "dm_as_duration d = minutes (dm_minutes d)"

definition dm_wf :: "duration_minutes \<Rightarrow> bool" where
  "dm_wf d \<longleftrightarrow> 1 \<le> dm_minutes d \<and> dm_minutes d < 2 ^ 32"

section \<open>Texts, emails and callers\<close>

definition non_blank :: "str \<Rightarrow> string \<Rightarrow> str domain_result" where
  "non_blank v field =
     (let trimmed = str_trim v in
      if trimmed = [] then Inl (BlankRequiredField field) else Inr trimmed)"

definition email_char :: "rchar \<Rightarrow> bool" where
  "email_char c \<longleftrightarrow> is_ascii_alphanumeric c \<or> c \<in> {64, 46, 95, 45, 43}"

definition is_valid_email :: "str \<Rightarrow> bool" where
  "is_valid_email v =
     (if v = [] \<or> str_trim v \<noteq> v \<or> list_ex is_whitespace v \<or> \<not> list_all email_char v then False
      else let parts = str_split (\<lambda>c. c = 64) v;
               local = (case parts of p # _ \<Rightarrow> p | [] \<Rightarrow> []);
               domain = (case parts of _ # p # _ \<Rightarrow> p | _ \<Rightarrow> [])
           in if length parts > 2 \<or> local = [] \<or> domain = []
                 \<or> starts_with [46] local \<or> ends_with [46] local
                 \<or> starts_with [46] domain \<or> ends_with [46] domain \<or> 46 \<notin> set domain
              then False
              else \<not> list_ex (\<lambda>p. p = []) (str_split (\<lambda>c. c = 46) domain))"

record confirmed_email =
  ce_value :: str
  ce_confirmed :: bool

definition ce_confirm :: "str \<Rightarrow> confirmed_email domain_result" where
  "ce_confirm v = (if \<not> is_valid_email v then Inl InvalidEmail
                   else Inr \<lparr>ce_value = v, ce_confirmed = True\<rparr>)"

text \<open>Serialized input never attests a confirmation, whatever it contains.\<close>

definition ce_deserialize :: "'wire \<Rightarrow> confirmed_email domain_result" where
  "ce_deserialize w = Inl UnconfirmedEmail"

definition email_wf :: "confirmed_email \<Rightarrow> bool" where
  "email_wf e \<longleftrightarrow> is_valid_email (ce_value e) \<and> ce_confirmed e"

record caller_identity =
  ci_name :: str
  ci_email :: confirmed_email

definition ci_new :: "str \<Rightarrow> confirmed_email \<Rightarrow> caller_identity domain_result" where
  "ci_new name email =
     rbind (non_blank name ''name'') (\<lambda>name. Inr \<lparr>ci_name = name, ci_email = email\<rparr>)"

definition ci_deserialize :: "str \<times> 'wire \<Rightarrow> caller_identity domain_result" where
  "ci_deserialize w = rbind (ce_deserialize (snd w)) (\<lambda>email. ci_new (fst w) email)"

definition trimmed_text :: "str \<Rightarrow> bool" where
  "trimmed_text s \<longleftrightarrow> s \<noteq> [] \<and> str_trim s = s"

definition caller_wf :: "caller_identity \<Rightarrow> bool" where
  "caller_wf c \<longleftrightarrow> trimmed_text (ci_name c) \<and> email_wf (ci_email c)"

lemma non_blank_Inr: "non_blank v f = Inr w \<longleftrightarrow> w = str_trim v \<and> w \<noteq> []"
  by (auto simp: non_blank_def Let_def)

lemma non_blank_trimmed: "non_blank v f = Inr w \<Longrightarrow> trimmed_text w"
  by (auto simp: non_blank_Inr trimmed_text_def str_trim_idem)

lemma ce_confirm_Inr:
  "ce_confirm v = Inr e \<longleftrightarrow> is_valid_email v \<and> e = \<lparr>ce_value = v, ce_confirmed = True\<rparr>"
  by (auto simp: ce_confirm_def)

section \<open>Quotes\<close>

type_synonym quote_id = "128 word"

record quote =
  q_id :: quote_id
  q_issued_at :: odt
  q_expires_at :: odt

definition VALID_FOR :: int where "VALID_FOR = minutes 5"

definition quote_with_id :: "quote_id \<Rightarrow> odt \<Rightarrow> quote option" where
  "quote_with_id i issued_at =
     map_option (\<lambda>e. \<lparr>q_id = i, q_issued_at = issued_at, q_expires_at = e\<rparr>)
       (odt_checked_add issued_at VALID_FOR)"

definition quote_is_expired :: "quote \<Rightarrow> odt \<Rightarrow> bool" where
  "quote_is_expired q at \<longleftrightarrow> \<not> before at (q_expires_at q)"

definition quote_is_valid_at :: "quote \<Rightarrow> odt \<Rightarrow> bool" where
  "quote_is_valid_at q at \<longleftrightarrow> \<not> before at (q_issued_at q) \<and> \<not> quote_is_expired q at"

definition quote_consume :: "quote \<Rightarrow> odt \<Rightarrow> quote_id domain_result" where
  "quote_consume q at =
     (if before at (q_issued_at q) then Inl QuoteNotYetValid
      else if quote_is_expired q at then Inl QuoteExpired
      else Inr (q_id q))"

definition quote_deserialize :: "quote \<Rightarrow> quote domain_result" where
  "quote_deserialize w =
     rbind (ok_or InvalidQuoteExpiry (odt_checked_add (q_issued_at w) VALID_FOR)) (\<lambda>expected.
       if \<not> same_instant (q_expires_at w) expected then Inl InvalidQuoteExpiry
       else Inr \<lparr>q_id = q_id w, q_issued_at = q_issued_at w, q_expires_at = q_expires_at w\<rparr>)"

definition quote_wf :: "quote \<Rightarrow> bool" where
  "quote_wf q \<longleftrightarrow> instant_ns (q_expires_at q) = instant_ns (q_issued_at q) + 300 * NANOS"

lemma odt_checked_add_SomeD:
  "odt_checked_add d s = Some e \<Longrightarrow> instant_ns e = instant_ns d + s * NANOS \<and> offset_secs e = offset_secs d"
  by (auto simp: odt_checked_add_def Let_def split: if_splits)

lemma VALID_FOR_eq: "VALID_FOR = 300"
  by (simp add: VALID_FOR_def minutes_def)

lemma quote_with_id_wf: "quote_with_id i t = Some q \<Longrightarrow> quote_wf q \<and> q_id q = i \<and> q_issued_at q = t"
  by (auto simp: quote_with_id_def quote_wf_def VALID_FOR_eq dest: odt_checked_add_SomeD)

lemma quote_deserialize_wf: "quote_deserialize w = Inr q \<Longrightarrow> quote_wf q \<and> q = w"
  by (auto simp: quote_deserialize_def rbind_Inr_iff quote_wf_def same_instant_def VALID_FOR_eq
      dest!: odt_checked_add_SomeD split: if_splits)

section \<open>Slots, keys and drafts\<close>

record appointment_slot =
  slot_starts_at :: odt
  slot_ends_at :: odt

definition slot_new :: "odt \<Rightarrow> odt \<Rightarrow> appointment_slot domain_result" where
  "slot_new s e = (if \<not> before s e then Inl InvalidAppointmentSlot
                   else Inr \<lparr>slot_starts_at = s, slot_ends_at = e\<rparr>)"

definition slot_duration_ns :: "appointment_slot \<Rightarrow> int" where
  "slot_duration_ns s = instant_ns (slot_ends_at s) - instant_ns (slot_starts_at s)"

definition slot_deserialize :: "appointment_slot \<Rightarrow> appointment_slot domain_result" where
  "slot_deserialize w = slot_new (slot_starts_at w) (slot_ends_at w)"

definition slot_wf :: "appointment_slot \<Rightarrow> bool" where
  "slot_wf s \<longleftrightarrow> before (slot_starts_at s) (slot_ends_at s)"

lemma slot_new_Inr:
  "slot_new s e = Inr w \<longleftrightarrow> before s e \<and> w = \<lparr>slot_starts_at = s, slot_ends_at = e\<rparr>"
  by (auto simp: slot_new_def)

definition idempotency_key_new :: "str \<Rightarrow> str domain_result" where
  "idempotency_key_new v = non_blank v ''idempotency_key''"

record appointment_draft =
  ad_quote_id :: quote_id
  ad_caller :: caller_identity
  ad_kind :: appointment_kind
  ad_starts_at :: odt
  ad_ends_at :: odt
  ad_requester_included :: bool
  ad_idempotency_key :: str

text \<open>\<open>None\<close> is the panic of \<open>starts_at + duration\<close>.\<close>

definition ad_new_with_requester_inclusion ::
    "appointment_kind \<Rightarrow> caller_identity \<Rightarrow> odt \<Rightarrow> quote_id \<Rightarrow> str \<Rightarrow> bool
      \<Rightarrow> appointment_draft domain_result option" where
  "ad_new_with_requester_inclusion kind caller starts_at qid key included =
     (let duration = ak_duration kind in
      if duration \<le> 0 then Some (Inl (ZeroDuration ''duration''))
      else map_option (\<lambda>e. Inr \<lparr>ad_quote_id = qid, ad_caller = caller, ad_kind = kind,
             ad_starts_at = starts_at, ad_ends_at = e, ad_requester_included = included,
             ad_idempotency_key = key\<rparr>) (odt_checked_add starts_at duration))"

definition ad_new ::
    "appointment_kind \<Rightarrow> caller_identity \<Rightarrow> odt \<Rightarrow> quote_id \<Rightarrow> str
      \<Rightarrow> appointment_draft domain_result option" where
  "ad_new kind caller starts_at qid key =
     ad_new_with_requester_inclusion kind caller starts_at qid key (requester_included_by_default kind)"

definition ad_deserialize ::
    "str \<times> 'wire \<Rightarrow> appointment_draft \<Rightarrow> appointment_draft domain_result option" where
  "ad_deserialize caller_wire w =
     (case rbind (ci_deserialize caller_wire) (\<lambda>caller.
             rbind (idempotency_key_new (ad_idempotency_key w)) (\<lambda>key. Inr (caller, key))) of
        Inl e \<Rightarrow> Some (Inl e)
      | Inr (caller, key) \<Rightarrow>
          map_option (\<lambda>r. rbind r (\<lambda>draft.
              if \<not> same_instant (ad_ends_at draft) (ad_ends_at w) then Inl WireError else Inr draft))
            (ad_new_with_requester_inclusion (ad_kind w) caller (ad_starts_at w) (ad_quote_id w) key
               (ad_requester_included w)))"

definition draft_wf :: "appointment_draft \<Rightarrow> bool" where
  "draft_wf d \<longleftrightarrow> instant_ns (ad_ends_at d) = instant_ns (ad_starts_at d) + ak_duration (ad_kind d) * NANOS
     \<and> offset_secs (ad_ends_at d) = offset_secs (ad_starts_at d)"

lemma ak_duration_pos: "0 < ak_duration k"
  by (cases k) (simp_all add: ak_duration_def minutes_def)

lemma ad_new_with_requester_inclusion_wf:
  "ad_new_with_requester_inclusion k c s q i b = Some (Inr d) \<Longrightarrow>
     draft_wf d \<and> ad_kind d = k \<and> ad_starts_at d = s \<and> ad_quote_id d = q \<and> ad_caller d = c
       \<and> ad_requester_included d = b \<and> ad_idempotency_key d = i"
  using ak_duration_pos[of k]
  by (auto simp: ad_new_with_requester_inclusion_def Let_def draft_wf_def dest: odt_checked_add_SomeD
      split: if_splits)

record owner_task_draft =
  ot_kind :: task_kind
  ot_title :: str
  ot_duration :: duration_minutes
  ot_due_at :: "odt option"
  ot_idempotency_key :: str

definition ot_with_duration ::
    "task_kind \<Rightarrow> str \<Rightarrow> int \<Rightarrow> odt option \<Rightarrow> str \<Rightarrow> owner_task_draft domain_result" where
  "ot_with_duration kind title duration_minutes due_at key =
     rbind (non_blank title ''title'') (\<lambda>title.
     rbind (dm_new duration_minutes) (\<lambda>duration.
       Inr \<lparr>ot_kind = kind, ot_title = title, ot_duration = duration, ot_due_at = due_at,
            ot_idempotency_key = key\<rparr>))"

definition ot_new :: "task_kind \<Rightarrow> str \<Rightarrow> str \<Rightarrow> owner_task_draft domain_result" where
  "ot_new kind title key = ot_with_duration kind title (tk_duration_minutes kind) None key"

definition ot_with_due_at :: "task_kind \<Rightarrow> str \<Rightarrow> odt \<Rightarrow> str \<Rightarrow> owner_task_draft domain_result" where
  "ot_with_due_at kind title due_at key = ot_with_duration kind title (tk_duration_minutes kind) (Some due_at) key"

definition ot_deserialize :: "owner_task_draft \<Rightarrow> owner_task_draft domain_result" where
  "ot_deserialize w =
     rbind (dm_new (dm_minutes (ot_duration w))) (\<lambda>duration.
     rbind (idempotency_key_new (ot_idempotency_key w)) (\<lambda>key.
       ot_with_duration (ot_kind w) (ot_title w) (dm_minutes duration) (ot_due_at w) key))"

definition owner_task_wf :: "owner_task_draft \<Rightarrow> bool" where
  "owner_task_wf t \<longleftrightarrow> trimmed_text (ot_title t) \<and> trimmed_text (ot_idempotency_key t)
     \<and> dm_minutes (ot_duration t) \<noteq> 0"

lemma tk_duration_minutes_pos: "0 < tk_duration_minutes k"
  by (cases k) simp_all

lemma str_trim_trimmed: "trimmed_text s \<Longrightarrow> non_blank s f = Inr s"
  by (auto simp: trimmed_text_def non_blank_def)

section \<open>Proposal states\<close>

definition is_terminal :: "proposal_state \<Rightarrow> bool" where
  "is_terminal s \<longleftrightarrow> s \<noteq> PsPending"

definition can_transition_to :: "proposal_state \<Rightarrow> proposal_state \<Rightarrow> bool" where
  "can_transition_to s next \<longleftrightarrow>
     (s, next) \<in> {(PsPending, PsAccepted), (PsPending, PsDeclined), (PsPending, PsExpired)}"

definition transition_to :: "proposal_state \<Rightarrow> proposal_state \<Rightarrow> proposal_state domain_result" where
  "transition_to s next =
     (if is_terminal s then Inl (TerminalProposalState s)
      else if \<not> can_transition_to s next then Inl (InvalidProposalTransition s next)
      else Inr next)"

definition ps_accept :: "proposal_state \<Rightarrow> proposal_state domain_result" where
  "ps_accept s = transition_to s PsAccepted"

definition ps_decline :: "proposal_state \<Rightarrow> proposal_state domain_result" where
  "ps_decline s = transition_to s PsDeclined"

definition ps_expire :: "proposal_state \<Rightarrow> proposal_state domain_result" where
  "ps_expire s = transition_to s PsExpired"

lemma transition_to_Inr: "transition_to s n = Inr r \<longleftrightarrow> s = PsPending \<and> n \<noteq> PsPending \<and> r = n"
  by (cases n) (auto simp: transition_to_def is_terminal_def can_transition_to_def)

lemma can_transition_to_iff: "can_transition_to s n \<longleftrightarrow> s = PsPending \<and> n \<noteq> PsPending"
  by (cases n) (auto simp: can_transition_to_def)


section \<open>Properties of the values\<close>

lemma str_split_head:
  "str_split p s = w # ws \<Longrightarrow> (\<forall>c \<in> set w. \<not> p c) \<and>
     (if ws = [] then s = w else \<exists>c rest. p c \<and> s = w @ c # rest \<and> str_split p rest = ws)"
proof (induction s arbitrary: w ws)
  case Nil
  then show ?case by auto
next
  case (Cons d s)
  obtain v vs where v: "str_split p s = v # vs" by (cases "str_split p s") simp_all
  show ?case
  proof (cases "p d")
    case True
    then have "w = [] \<and> ws = v # vs" using Cons.prems v by auto
    then show ?thesis using True v by auto
  next
    case False
    then have w: "w = d # v \<and> ws = vs" using Cons.prems v by auto
    show ?thesis using Cons.IH[OF v] w False by (auto split: if_splits)
  qed
qed

lemma str_split_append_sep:
  "(\<forall>c \<in> set w. \<not> p c) \<Longrightarrow> p d \<Longrightarrow> str_split p (w @ d # s) = w # str_split p s"
  by (induction w) auto

lemma str_split_whole: "(\<forall>c \<in> set w. \<not> p c) \<Longrightarrow> str_split p w = [w]"
  by (induction w) auto

lemma str_split_two_iff:
  "str_split (\<lambda>c. c = d) s = [a, b] \<longleftrightarrow> s = a @ d # b \<and> d \<notin> set a \<and> d \<notin> set b"
proof
  assume h: "str_split (\<lambda>c. c = d) s = [a, b]"
  from str_split_head[OF h] obtain rest where
    "d \<notin> set a" "s = a @ d # rest" "str_split (\<lambda>c. c = d) rest = [b]" by auto
  with str_split_head[of "\<lambda>c. c = d" rest b "[]"] show "s = a @ d # b \<and> d \<notin> set a \<and> d \<notin> set b"
    by auto
next
  assume s: "s = a @ d # b \<and> d \<notin> set a \<and> d \<notin> set b"
  then have "\<forall>c \<in> set a. c \<noteq> d" "\<forall>c \<in> set b. c \<noteq> d" by auto
  then show "str_split (\<lambda>c. c = d) s = [a, b]"
    using s by (simp only: str_split_append_sep[of a "\<lambda>c. c = d" d b] str_split_whole[of b "\<lambda>c. c = d"])
qed

lemma email_char_not_space: "email_char c \<Longrightarrow> \<not> is_whitespace c"
  by (auto simp: email_char_def char_class_defs)

lemma email_char_no_space: "list_all email_char v \<Longrightarrow> str_trim v = v \<and> \<not> list_ex is_whitespace v"
  using email_char_not_space by (auto simp: list_all_iff list_ex_iff intro!: str_trim_id)

text \<open>What a dotted name is: every label between the dots is non-empty.\<close>

definition labels_ok :: "str \<Rightarrow> bool" where
  "labels_ok d \<longleftrightarrow> [] \<notin> set (str_split (\<lambda>c. c = 46) d)"

lemma str_split_hd_empty: "p c \<Longrightarrow> [] \<in> set (str_split p (c # s))"
  by simp

lemma str_split_snoc: "p c \<Longrightarrow> \<exists>ws. ws \<noteq> [] \<and> str_split p (s @ [c]) = ws @ [[]]"
proof (induction s)
  case Nil
  then show ?case by simp
next
  case (Cons d s)
  then obtain w ws where "str_split p (s @ [c]) = (w # ws) @ [[]]" by (metis neq_Nil_conv)
  then show ?case by (cases "p d") (auto intro: exI[of _ "[] # w # ws"] exI[of _ "(d # w) # ws"])
qed

lemma str_split_last_empty: "p c \<Longrightarrow> [] \<in> set (str_split p (s @ [c]))"
  using str_split_snoc[of p c s] by auto

lemma labels_ok_edges: "labels_ok d \<Longrightarrow> \<not> starts_with [46] d \<and> \<not> ends_with [46] d \<and> d \<noteq> []"
proof -
  assume d: "labels_ok d"
  have "d \<noteq> []" using d by (auto simp: labels_ok_def)
  moreover have "\<not> starts_with [46] d"
    using d str_split_hd_empty[of "\<lambda>c. c = 46" 46] by (cases d) (auto simp: labels_ok_def)
  moreover have "\<not> ends_with [46] d"
  proof
    assume e: "ends_with [46] d"
    obtain s c where "d = s @ [c]" using \<open>d \<noteq> []\<close> by (cases d rule: rev_cases) auto
    then show False using d e str_split_last_empty[of "\<lambda>c. c = 46" c s]
      by (auto simp: labels_ok_def ends_with_def)
  qed
  ultimately show ?thesis by simp
qed

lemma str_split_length_gt_two:
  assumes "length (str_split (\<lambda>c. c = d) s) \<noteq> 2"
  shows "\<not> (\<exists>a b. s = a @ d # b \<and> d \<notin> set a \<and> d \<notin> set b)"
proof
  assume "\<exists>a b. s = a @ d # b \<and> d \<notin> set a \<and> d \<notin> set b"
  then obtain a b where "str_split (\<lambda>c. c = d) s = [a, b]" using str_split_two_iff by blast
  with assms show False by simp
qed

lemma is_valid_email_iff:
  "is_valid_email v \<longleftrightarrow>
     list_all email_char v \<and>
     (\<exists>local domain. v = local @ 64 # domain \<and> 64 \<notin> set local \<and> 64 \<notin> set domain
        \<and> local \<noteq> [] \<and> \<not> starts_with [46] local \<and> \<not> ends_with [46] local
        \<and> 46 \<in> set domain \<and> labels_ok domain)"
proof -
  obtain a as where sp: "str_split (\<lambda>c. c = 64) v = a # as" by (cases "str_split (\<lambda>c. c = 64) v") simp_all
  show ?thesis
  proof (cases "list_all email_char v \<and> v \<noteq> []")
    case False
    then show ?thesis by (auto simp: is_valid_email_def)
  next
    case ok: True
    consider (one) "as = []" | (two) b where "as = [b]" | (more) b c cs where "as = b # c # cs"
      by (cases as; cases "tl as") auto
    then show ?thesis
    proof cases
      case one
      then have "\<not> (\<exists>a b. v = a @ 64 # b \<and> 64 \<notin> set a \<and> 64 \<notin> set b)"
        using str_split_length_gt_two[of 64 v] sp by simp
      then show ?thesis using ok one sp by (auto simp: is_valid_email_def)
    next
      case two
      then have v: "v = a @ 64 # b" "64 \<notin> set a" "64 \<notin> set b"
        using sp str_split_two_iff[of 64 v a b] by auto
      have "v = a' @ 64 # b' \<and> 64 \<notin> set a' \<longleftrightarrow> a' = a \<and> b' = b" for a' b'
        using v append_sep_inject[of 64 a' a b' b] by auto
      then have "(\<exists>local domain. v = local @ 64 # domain \<and> 64 \<notin> set local \<and> 64 \<notin> set domain
        \<and> local \<noteq> [] \<and> \<not> starts_with [46] local \<and> \<not> ends_with [46] local
        \<and> 46 \<in> set domain \<and> labels_ok domain) \<longleftrightarrow> a \<noteq> [] \<and> \<not> starts_with [46] a \<and> \<not> ends_with [46] a
        \<and> 46 \<in> set b \<and> labels_ok b" using v by blast
      moreover have "is_valid_email v \<longleftrightarrow> a \<noteq> [] \<and> \<not> starts_with [46] a \<and> \<not> ends_with [46] a
        \<and> 46 \<in> set b \<and> labels_ok b"
        using ok two sp labels_ok_edges[of b] email_char_no_space[of v]
        by (auto simp: is_valid_email_def labels_ok_def list_ex_iff)
      ultimately show ?thesis using ok by blast
    next
      case more
      then have "\<not> (\<exists>a b. v = a @ 64 # b \<and> 64 \<notin> set a \<and> 64 \<notin> set b)"
        using str_split_length_gt_two[of 64 v] sp by simp
      then show ?thesis using ok more sp by (auto simp: is_valid_email_def)
    qed
  qed
qed

text \<open>
  The email check accepts exactly the texts \<open>local@domain\<close> over letters, digits and
  \<open>@._-+\<close> with one \<open>@\<close>, a local part that neither starts nor ends with a dot, and a domain
  with at least one dot and no empty label; in particular a confirmed email can carry no
  whitespace, no line break and no control character.
\<close>

theorem confirmed_email_shape:
  "ce_confirm v = Inr e \<longleftrightarrow>
     e = \<lparr>ce_value = v, ce_confirmed = True\<rparr> \<and> list_all email_char v \<and>
     (\<exists>local domain. v = local @ 64 # domain \<and> 64 \<notin> set local \<and> 64 \<notin> set domain
        \<and> local \<noteq> [] \<and> \<not> starts_with [46] local \<and> \<not> ends_with [46] local
        \<and> 46 \<in> set domain \<and> [] \<notin> set (str_split (\<lambda>c. c = 46) domain))"
  by (auto simp: ce_confirm_Inr is_valid_email_iff labels_ok_def)

text \<open>
  C30. A quote that was constructed or deserialized is consumable exactly in the half-open
  interval of five minutes from its issue, the error tells which side was missed, and the
  offset from which an instant is written plays no part.
\<close>

theorem quote_consumable_for_five_minutes:
  assumes "quote_with_id i t = Some q \<or> quote_deserialize q = Inr q"
  shows "quote_consume q at =
     (if instant_ns at < instant_ns (q_issued_at q) then Inl QuoteNotYetValid
      else if instant_ns (q_issued_at q) + 300 * NANOS \<le> instant_ns at then Inl QuoteExpired
      else Inr (q_id q))"
  using assms quote_with_id_wf[of i t q] quote_deserialize_wf[of q q]
  by (auto simp: quote_consume_def quote_is_expired_def before_def quote_wf_def)

theorem quote_consumable_for_five_minutes_witness:
  "let q = \<lparr>q_id = 7, q_issued_at = utc_secs 100, q_expires_at = utc_secs 400\<rparr> in
     quote_consume q (utc_secs 399) = Inr 7 \<and> quote_consume q (utc_secs 400) = Inl QuoteExpired"
proof -
  let ?q = "\<lparr>q_id = 7, q_issued_at = utc_secs 100, q_expires_at = utc_secs 400\<rparr>"
  have "quote_with_id 7 (utc_secs 100) = Some ?q"
    by (simp add: quote_with_id_def odt_checked_add_utc VALID_FOR_eq odt_min_secs_def odt_max_secs_def)
  then have "quote_with_id 7 (utc_secs 100) = Some ?q \<or> quote_deserialize ?q = Inr ?q" ..
  from quote_consumable_for_five_minutes[OF this] show ?thesis by (simp add: NANOS_def)
qed

end
