(* ===== verification/Store_Schema.thy ===== *)
theory Store_Schema
  imports Store_Common Domain_Values
begin

text \<open>
  The tables of \<open>src/pa/store.rs\<close> and the closed enumerations of their text columns. A table is
  the list of its rows in insertion order, a row is a record that mirrors the \<open>*StoredRow\<close>
  structure the code reads (state columns stay texts, as in the database). Every enumeration is
  an instance of the locale \<open>stored_enum\<close>: its stored names parse back and nothing else parses.
\<close>

section \<open>Closed enumerations\<close>

datatype message_provider =
    MpVoice
  | MpOutlook
  | MpGmail

fun provider_as_str :: "message_provider \<Rightarrow> str" where
  "provider_as_str MpVoice = lit ''voice''"
| "provider_as_str MpOutlook = lit ''outlook''"
| "provider_as_str MpGmail = lit ''gmail''"

definition provider_from_storage :: "str \<Rightarrow> message_provider store_result" where
  "provider_from_storage v =
     (if v = lit ''voice'' then Inr MpVoice
      else if v = lit ''outlook'' then Inr MpOutlook
      else if v = lit ''gmail'' then Inr MpGmail
      else Inl (stored_record_invalid ''message provider''))"

datatype triage_state =
    TsRecorded
  | TsUnprocessed
  | TsActionable
  | TsAmbiguous
  | TsIgnored
  | TsScheduled

fun triage_as_str :: "triage_state \<Rightarrow> str" where
  "triage_as_str TsRecorded = lit ''recorded''"
| "triage_as_str TsUnprocessed = lit ''unprocessed''"
| "triage_as_str TsActionable = lit ''actionable''"
| "triage_as_str TsAmbiguous = lit ''ambiguous''"
| "triage_as_str TsIgnored = lit ''ignored''"
| "triage_as_str TsScheduled = lit ''scheduled''"

definition triage_from_storage :: "str \<Rightarrow> triage_state store_result" where
  "triage_from_storage v =
     (if v = lit ''recorded'' then Inr TsRecorded
      else if v = lit ''unprocessed'' then Inr TsUnprocessed
      else if v = lit ''actionable'' then Inr TsActionable
      else if v = lit ''ambiguous'' then Inr TsAmbiguous
      else if v = lit ''ignored'' then Inr TsIgnored
      else if v = lit ''scheduled'' then Inr TsScheduled
      else Inl (stored_record_invalid ''message triage state''))"

datatype task_state =
    StPending
  | StProposed
  | StScheduled
  | StNoSlot

fun task_state_as_str :: "task_state \<Rightarrow> str" where
  "task_state_as_str StPending = lit ''pending''"
| "task_state_as_str StProposed = lit ''proposed''"
| "task_state_as_str StScheduled = lit ''scheduled''"
| "task_state_as_str StNoSlot = lit ''no_slot''"

definition task_state_from_storage :: "str \<Rightarrow> task_state store_result" where
  "task_state_from_storage v =
     (if v = lit ''pending'' then Inr StPending
      else if v = lit ''proposed'' then Inr StProposed
      else if v = lit ''scheduled'' then Inr StScheduled
      else if v = lit ''no_slot'' then Inr StNoSlot
      else Inl (stored_record_invalid ''task state''))"

datatype audit_event_type =
    MessageRecorded
  | RequestSubmitted
  | OwnerTaskSubmitted
  | ProposalCreated
  | ProposalAccepted
  | ProposalDeclined
  | ProposalExpired
  | ProposalPromoted
  | NotificationEnqueued
  | NotificationSent
  | NotificationRetryScheduled
  | ProviderCursorAdvanced

fun audit_event_as_str :: "audit_event_type \<Rightarrow> str" where
  "audit_event_as_str MessageRecorded = lit ''message_recorded''"
| "audit_event_as_str RequestSubmitted = lit ''request_submitted''"
| "audit_event_as_str OwnerTaskSubmitted = lit ''owner_task_submitted''"
| "audit_event_as_str ProposalCreated = lit ''proposal_created''"
| "audit_event_as_str ProposalAccepted = lit ''proposal_accepted''"
| "audit_event_as_str ProposalDeclined = lit ''proposal_declined''"
| "audit_event_as_str ProposalExpired = lit ''proposal_expired''"
| "audit_event_as_str ProposalPromoted = lit ''proposal_promoted''"
| "audit_event_as_str NotificationEnqueued = lit ''notification_enqueued''"
| "audit_event_as_str NotificationSent = lit ''notification_sent''"
| "audit_event_as_str NotificationRetryScheduled = lit ''notification_retry_scheduled''"
| "audit_event_as_str ProviderCursorAdvanced = lit ''provider_cursor_advanced''"

definition audit_event_from_storage :: "str \<Rightarrow> audit_event_type store_result" where
  "audit_event_from_storage v =
     (if v = lit ''message_recorded'' then Inr MessageRecorded
      else if v = lit ''request_submitted'' then Inr RequestSubmitted
      else if v = lit ''owner_task_submitted'' then Inr OwnerTaskSubmitted
      else if v = lit ''proposal_created'' then Inr ProposalCreated
      else if v = lit ''proposal_accepted'' then Inr ProposalAccepted
      else if v = lit ''proposal_declined'' then Inr ProposalDeclined
      else if v = lit ''proposal_expired'' then Inr ProposalExpired
      else if v = lit ''proposal_promoted'' then Inr ProposalPromoted
      else if v = lit ''notification_enqueued'' then Inr NotificationEnqueued
      else if v = lit ''notification_sent'' then Inr NotificationSent
      else if v = lit ''notification_retry_scheduled'' then Inr NotificationRetryScheduled
      else if v = lit ''provider_cursor_advanced'' then Inr ProviderCursorAdvanced
      else Inl (stored_record_invalid ''audit event''))"

datatype audit_entity_type =
    AeMessage
  | AeAppointmentRequest
  | AeOwnerTask
  | AeProposal
  | AeNotification
  | AeProviderCursor

fun audit_entity_as_str :: "audit_entity_type \<Rightarrow> str" where
  "audit_entity_as_str AeMessage = lit ''message''"
| "audit_entity_as_str AeAppointmentRequest = lit ''appointment_request''"
| "audit_entity_as_str AeOwnerTask = lit ''owner_task''"
| "audit_entity_as_str AeProposal = lit ''proposal''"
| "audit_entity_as_str AeNotification = lit ''notification''"
| "audit_entity_as_str AeProviderCursor = lit ''provider_cursor''"

definition audit_entity_from_storage :: "str \<Rightarrow> audit_entity_type store_result" where
  "audit_entity_from_storage v =
     (if v = lit ''message'' then Inr AeMessage
      else if v = lit ''appointment_request'' then Inr AeAppointmentRequest
      else if v = lit ''owner_task'' then Inr AeOwnerTask
      else if v = lit ''proposal'' then Inr AeProposal
      else if v = lit ''notification'' then Inr AeNotification
      else if v = lit ''provider_cursor'' then Inr AeProviderCursor
      else Inl (stored_record_invalid ''audit entity''))"

datatype notification_kind =
    NkCallSummary
  | NkProposalRequested
  | NkProposalAccepted
  | NkProposalDeclined
  | NkProposalExpired

fun notification_kind_storage_name :: "notification_kind \<Rightarrow> str" where
  "notification_kind_storage_name NkCallSummary = lit ''call_summary''"
| "notification_kind_storage_name NkProposalRequested = lit ''proposal_requested''"
| "notification_kind_storage_name NkProposalAccepted = lit ''proposal_accepted''"
| "notification_kind_storage_name NkProposalDeclined = lit ''proposal_declined''"
| "notification_kind_storage_name NkProposalExpired = lit ''proposal_expired''"

definition parse_notification_kind :: "str \<Rightarrow> notification_kind store_result" where
  "parse_notification_kind v =
     (if v = lit ''call_summary'' then Inr NkCallSummary
      else if v = lit ''proposal_requested'' then Inr NkProposalRequested
      else if v = lit ''proposal_accepted'' then Inr NkProposalAccepted
      else if v = lit ''proposal_declined'' then Inr NkProposalDeclined
      else if v = lit ''proposal_expired'' then Inr NkProposalExpired
      else Inl (stored_record_invalid ''notification''))"

datatype notification_status =
    NsPending
  | NsDelivering
  | NsSent

fun notification_status_as_str :: "notification_status \<Rightarrow> str" where
  "notification_status_as_str NsPending = lit ''pending''"
| "notification_status_as_str NsDelivering = lit ''delivering''"
| "notification_status_as_str NsSent = lit ''sent''"

definition parse_notification_status :: "str \<Rightarrow> notification_status store_result" where
  "parse_notification_status v =
     (if v = lit ''pending'' then Inr NsPending
      else if v = lit ''delivering'' then Inr NsDelivering
      else if v = lit ''sent'' then Inr NsSent
      else Inl (stored_record_invalid ''notification''))"

fun proposal_state_storage_name :: "proposal_state \<Rightarrow> str" where
  "proposal_state_storage_name PsPending = lit ''pending''"
| "proposal_state_storage_name PsAccepted = lit ''accepted''"
| "proposal_state_storage_name PsDeclined = lit ''declined''"
| "proposal_state_storage_name PsExpired = lit ''expired''"

definition parse_proposal_state :: "str \<Rightarrow> proposal_state store_result" where
  "parse_proposal_state v =
     (if v = lit ''pending'' then Inr PsPending
      else if v = lit ''accepted'' then Inr PsAccepted
      else if v = lit ''declined'' then Inr PsDeclined
      else if v = lit ''expired'' then Inr PsExpired
      else Inl (stored_record_invalid ''proposal''))"

fun appointment_kind_storage_name :: "appointment_kind \<Rightarrow> str" where
  "appointment_kind_storage_name AkCallback = lit ''callback''"
| "appointment_kind_storage_name AkMeeting = lit ''meeting''"

definition parse_appointment_kind :: "str \<Rightarrow> appointment_kind store_result" where
  "parse_appointment_kind v =
     (if v = lit ''callback'' then Inr AkCallback
      else if v = lit ''meeting'' then Inr AkMeeting
      else Inl (stored_record_invalid ''appointment draft''))"

fun task_kind_storage_name :: "task_kind \<Rightarrow> str" where
  "task_kind_storage_name TkBill = lit ''bill''"
| "task_kind_storage_name TkCallback = lit ''callback''"
| "task_kind_storage_name TkReading = lit ''reading''"
| "task_kind_storage_name TkEmailReply = lit ''email_reply''"
| "task_kind_storage_name TkPreparation = lit ''preparation''"

definition parse_task_kind :: "str \<Rightarrow> task_kind store_result" where
  "parse_task_kind v =
     (if v = lit ''bill'' then Inr TkBill
      else if v = lit ''callback'' then Inr TkCallback
      else if v = lit ''reading'' then Inr TkReading
      else if v = lit ''email_reply'' then Inr TkEmailReply
      else if v = lit ''preparation'' then Inr TkPreparation
      else Inl (stored_record_invalid ''owner task draft''))"

text \<open>What the readers and writers of a text column rely on.\<close>

locale stored_enum =
  fixes name_of :: "'a \<Rightarrow> str"
    and of_name :: "str \<Rightarrow> 'a store_result"
  assumes of_name_name: "of_name (name_of x) = Inr x"
    and name_of_name: "of_name s = Inr x \<Longrightarrow> s = name_of x"
begin

lemma of_name_iff: "of_name s = Inr x \<longleftrightarrow> s = name_of x"
  using of_name_name name_of_name by metis

lemma name_inject: "name_of x = name_of y \<longleftrightarrow> x = y"
  using of_name_name by (metis sum.inject(2))

lemma of_name_fails: "(\<exists>e. of_name s = Inl e) \<longleftrightarrow> s \<notin> range name_of"
  using of_name_iff by (metis obj_sumE sum.distinct(1) rangeE rangeI)

end

interpretation provider: stored_enum provider_as_str provider_from_storage
proof
  fix x s
  show "provider_from_storage (provider_as_str x) = Inr x" by (cases x) (simp_all add: provider_from_storage_def)
  show "provider_from_storage s = Inr x \<Longrightarrow> s = provider_as_str x" by (auto simp: provider_from_storage_def split: if_splits)
qed

interpretation triage: stored_enum triage_as_str triage_from_storage
proof
  fix x s
  show "triage_from_storage (triage_as_str x) = Inr x" by (cases x) (simp_all add: triage_from_storage_def)
  show "triage_from_storage s = Inr x \<Longrightarrow> s = triage_as_str x" by (auto simp: triage_from_storage_def split: if_splits)
qed

interpretation tstate: stored_enum task_state_as_str task_state_from_storage
proof
  fix x s
  show "task_state_from_storage (task_state_as_str x) = Inr x" by (cases x) (simp_all add: task_state_from_storage_def)
  show "task_state_from_storage s = Inr x \<Longrightarrow> s = task_state_as_str x" by (auto simp: task_state_from_storage_def split: if_splits)
qed

interpretation aevent: stored_enum audit_event_as_str audit_event_from_storage
proof
  fix x s
  show "audit_event_from_storage (audit_event_as_str x) = Inr x" by (cases x) (simp_all add: audit_event_from_storage_def)
  show "audit_event_from_storage s = Inr x \<Longrightarrow> s = audit_event_as_str x" by (auto simp: audit_event_from_storage_def split: if_splits)
qed

interpretation aentity: stored_enum audit_entity_as_str audit_entity_from_storage
proof
  fix x s
  show "audit_entity_from_storage (audit_entity_as_str x) = Inr x" by (cases x) (simp_all add: audit_entity_from_storage_def)
  show "audit_entity_from_storage s = Inr x \<Longrightarrow> s = audit_entity_as_str x" by (auto simp: audit_entity_from_storage_def split: if_splits)
qed

interpretation nkind: stored_enum notification_kind_storage_name parse_notification_kind
proof
  fix x s
  show "parse_notification_kind (notification_kind_storage_name x) = Inr x" by (cases x) (simp_all add: parse_notification_kind_def)
  show "parse_notification_kind s = Inr x \<Longrightarrow> s = notification_kind_storage_name x" by (auto simp: parse_notification_kind_def split: if_splits)
qed

interpretation nstatus: stored_enum notification_status_as_str parse_notification_status
proof
  fix x s
  show "parse_notification_status (notification_status_as_str x) = Inr x" by (cases x) (simp_all add: parse_notification_status_def)
  show "parse_notification_status s = Inr x \<Longrightarrow> s = notification_status_as_str x" by (auto simp: parse_notification_status_def split: if_splits)
qed

interpretation pstate: stored_enum proposal_state_storage_name parse_proposal_state
proof
  fix x s
  show "parse_proposal_state (proposal_state_storage_name x) = Inr x" by (cases x) (simp_all add: parse_proposal_state_def)
  show "parse_proposal_state s = Inr x \<Longrightarrow> s = proposal_state_storage_name x" by (auto simp: parse_proposal_state_def split: if_splits)
qed

interpretation akind: stored_enum appointment_kind_storage_name parse_appointment_kind
proof
  fix x s
  show "parse_appointment_kind (appointment_kind_storage_name x) = Inr x" by (cases x) (simp_all add: parse_appointment_kind_def)
  show "parse_appointment_kind s = Inr x \<Longrightarrow> s = appointment_kind_storage_name x" by (auto simp: parse_appointment_kind_def split: if_splits)
qed

interpretation tkind: stored_enum task_kind_storage_name parse_task_kind
proof
  fix x s
  show "parse_task_kind (task_kind_storage_name x) = Inr x" by (cases x) (simp_all add: parse_task_kind_def)
  show "parse_task_kind s = Inr x \<Longrightarrow> s = task_kind_storage_name x" by (auto simp: parse_task_kind_def split: if_splits)
qed

lemmas stored_enum_iffs =
  provider.of_name_iff triage.of_name_iff tstate.of_name_iff aevent.of_name_iff aentity.of_name_iff
  nkind.of_name_iff nstatus.of_name_iff pstate.of_name_iff akind.of_name_iff tkind.of_name_iff

lemmas stored_enum_injects =
  provider.name_inject triage.name_inject tstate.name_inject aevent.name_inject aentity.name_inject
  nkind.name_inject nstatus.name_inject pstate.name_inject akind.name_inject tkind.name_inject

lemmas stored_enum_names [simp] =
  provider.of_name_name triage.of_name_name tstate.of_name_name aevent.of_name_name aentity.of_name_name
  nkind.of_name_name nstatus.of_name_name pstate.of_name_name akind.of_name_name tkind.of_name_name

section \<open>Rows and tables\<close>

record replay_row =
  rp_nonce :: str
  rp_consumed_at :: str
  rp_expires_at :: str

record cursor_row =
  pc_provider :: str
  pc_cursor :: "str option"
  pc_updated_at :: str

record audit_row =
  au_id :: int
  au_idempotency_key :: str
  au_event_type :: str
  au_entity_type :: str
  au_entity_id :: str
  au_details :: "str option"
  au_occurred_at :: str
  au_created_at :: str

record message_row =
  me_id :: int
  me_idempotency_key :: str
  me_source_id :: str
  me_provider :: str
  me_provider_message_id :: str
  me_summary :: str
  me_subject :: "str option"
  me_sender :: "str option"
  me_received_at :: str
  me_triage_state :: str
  me_created_at :: str
  me_updated_at :: str

record task_row =
  ta_id :: int
  ta_idempotency_key :: str
  ta_source_id :: str
  ta_message_id :: int
  ta_title :: str
  ta_kind :: str
  ta_duration_minutes :: int
  ta_due_at :: "str option"
  ta_state :: str
  ta_created_at :: str
  ta_updated_at :: str

record appointment_row =
  ap_id :: int
  ap_idempotency_key :: str
  ap_source_id :: str
  ap_quote_id :: str
  ap_caller_name :: str
  ap_caller_email :: str
  ap_kind :: str
  ap_starts_at :: str
  ap_ends_at :: str
  ap_requester_included :: int

record owner_task_row =
  ow_id :: int
  ow_idempotency_key :: str
  ow_source_id :: "str option"
  ow_title :: str
  ow_kind :: str
  ow_duration_minutes :: int
  ow_due_at :: "str option"

record proposal_row =
  pr_id :: int
  pr_idempotency_key :: str
  pr_source_id :: str
  pr_appointment_draft_id :: "int option"
  pr_owner_task_draft_id :: "int option"
  pr_state :: str
  pr_created_at :: str
  pr_updated_at :: str

record event_mapping_row =
  ev_id :: int
  ev_proposal_id :: int
  ev_provider :: str
  ev_provider_event_id :: str
  ev_source_id :: str
  ev_starts_at :: "str option"
  ev_ends_at :: "str option"
  ev_created_at :: str
  ev_updated_at :: str

record notification_row =
  no_id :: int
  no_idempotency_key :: str
  no_proposal_id :: "int option"
  no_event_mapping_id :: "int option"
  no_notification_kind :: str
  no_recipient :: str
  no_payload :: "str option"
  no_status :: str
  no_available_at :: str
  no_lease_until :: "str option"
  no_sent_at :: "str option"
  no_last_error_code :: "str option"
  no_attempts :: int
  no_created_at :: str
  no_updated_at :: str

record appointment_quote_row =
  qt_quote_id :: str
  qt_appointment_kind :: str
  qt_timezone :: str
  qt_issued_at :: str
  qt_expires_at :: str
  qt_slot_count :: int
  qt_state :: str
  qt_appointment_draft_id :: "int option"
  qt_selected_slot_index :: "int option"
  qt_consumed_at :: "str option"
  qt_proposal_id :: "int option"

text \<open>A slot row also holds the id of its quote, which the queries select by.\<close>

record appointment_quote_slot_row =
  qs_quote_id :: str
  qs_slot_index :: int
  qs_starts_at :: str
  qs_ends_at :: str

record owner_task_placement_row =
  pl_owner_task_draft_id :: int
  pl_starts_at :: str
  pl_ends_at :: str
  pl_timezone :: str
  pl_operation_key :: str
  pl_owner_fingerprint :: str
  pl_provider_event_id :: "str option"
  pl_state :: str

record db =
  replay_nonces :: "replay_row list"
  provider_cursors :: "cursor_row list"
  audit_events :: "audit_row list"
  messages :: "message_row list"
  tasks :: "task_row list"
  appointment_drafts :: "appointment_row list"
  owner_task_drafts :: "owner_task_row list"
  proposals :: "proposal_row list"
  event_mappings :: "event_mapping_row list"
  notification_outbox :: "notification_row list"
  appointment_quotes :: "appointment_quote_row list"
  appointment_quote_slots :: "appointment_quote_slot_row list"
  owner_task_placements :: "owner_task_placement_row list"

definition empty_db :: db where
  "empty_db = \<lparr>replay_nonces = [], provider_cursors = [], audit_events = [], messages = [], tasks = [],
     appointment_drafts = [], owner_task_drafts = [], proposals = [], event_mappings = [],
     notification_outbox = [], appointment_quotes = [], appointment_quote_slots = [], owner_task_placements = []\<rparr>"

text \<open>The rowid SQLite gives a new row of an \<open>INTEGER PRIMARY KEY\<close> table.\<close>

definition next_id :: "('r \<Rightarrow> int) \<Rightarrow> 'r list \<Rightarrow> int" where
  "next_id idf rows = foldr (\<lambda>r m. max (idf r) m) rows 0 + 1"

text \<open>Ids grow with insertion, so \<open>ORDER BY id ASC\<close> is the insertion order.\<close>

definition ids_ok :: "('r \<Rightarrow> int) \<Rightarrow> 'r list \<Rightarrow> bool" where
  "ids_ok idf rows \<longleftrightarrow> sorted_wrt (<) (map idf rows) \<and> (\<forall>r \<in> set rows. 1 \<le> idf r)"

lemma next_id_greater: "r \<in> set rows \<Longrightarrow> idf r < next_id idf rows"
  unfolding next_id_def by (induction rows) auto

lemma next_id_pos: "1 \<le> next_id idf rows"
proof -
  have "0 \<le> foldr (\<lambda>r m. max (idf r) m) rows 0" by (induction rows) auto
  then show ?thesis by (simp add: next_id_def)
qed

lemma ids_ok_Nil [simp]: "ids_ok idf []"
  by (simp add: ids_ok_def)

lemma ids_ok_insert: "ids_ok idf rows \<Longrightarrow> idf r = next_id idf rows \<Longrightarrow> ids_ok idf (rows @ [r])"
  using next_id_greater[of _ rows idf] next_id_pos[of idf rows]
  by (auto simp: ids_ok_def sorted_wrt_append)

lemma ids_ok_filter: "ids_ok idf rows \<Longrightarrow> ids_ok idf (filter p rows)"
  by (auto simp: ids_ok_def sorted_wrt_map sorted_wrt_filter)

lemma ids_ok_map:
  assumes "ids_ok idf rows" "\<And>r. idf (f r) = idf r"
  shows "ids_ok idf (map f rows)"
proof -
  have "idf \<circ> f = idf" using assms(2) by (simp add: fun_eq_iff)
  then show ?thesis using assms by (simp add: ids_ok_def)
qed

lemma ids_ok_distinct: "ids_ok idf rows \<Longrightarrow> distinct (map idf rows)"
  unfolding ids_ok_def using strict_sorted_iff by blast

lemma ids_ok_unique: "ids_ok idf rows \<Longrightarrow> x \<in> set rows \<Longrightarrow> y \<in> set rows \<Longrightarrow> idf x = idf y \<Longrightarrow> x = y"
  using distinct_map_unique ids_ok_distinct by metis

lemma ids_ok_sort: "ids_ok idf rows \<Longrightarrow> sort_key idf rows = rows"
  unfolding ids_ok_def by (intro sort_key_id_if_sorted) (auto simp: strict_sorted_iff)

section \<open>Updating one row\<close>

text \<open>\<open>UPDATE ... SET ... WHERE p\<close> together with the number of rows it changed.\<close>

definition update_rows :: "('r \<Rightarrow> bool) \<Rightarrow> ('r \<Rightarrow> 'r) \<Rightarrow> 'r list \<Rightarrow> 'r list" where
  "update_rows p f rows = map (\<lambda>r. if p r then f r else r) rows"

definition count_rows :: "('r \<Rightarrow> bool) \<Rightarrow> 'r list \<Rightarrow> nat" where
  "count_rows p rows = length (filter p rows)"

lemma count_rows_key:
  assumes "distinct (map k rows)" "x \<in> set rows" "q x"
  shows "count_rows (\<lambda>r. k r = k x \<and> q r) rows = 1"
proof -
  have "filter (\<lambda>r. k r = k x \<and> q r) rows = [x]"
    using assms
  proof (induction rows)
    case Nil
    then show ?case by simp
  next
    case (Cons r rows)
    show ?case
    proof (cases "r = x")
      case True
      then have "filter (\<lambda>r. k r = k x \<and> q r) rows = []"
        using Cons.prems(1) by (auto simp: filter_empty_conv image_iff)
      then show ?thesis using True Cons.prems(3) by simp
    next
      case False
      then have "x \<in> set rows" using Cons.prems(2) by simp
      then have "k r \<noteq> k x" using Cons.prems(1) by (auto simp: image_iff)
      then show ?thesis using Cons \<open>x \<in> set rows\<close> by simp
    qed
  qed
  then show ?thesis by (simp add: count_rows_def)
qed

lemma update_rows_key: "(\<And>r. k (f r) = k r) \<Longrightarrow> map k (update_rows p f rows) = map k rows"
  by (simp add: update_rows_def)

lemma find_update_rows:
  assumes "\<And>r. k (f r) = k r"
  shows "find (\<lambda>r. k r = i) (update_rows p f rows) =
           map_option (\<lambda>r. if p r then f r else r) (find (\<lambda>r. k r = i) rows)"
  unfolding update_rows_def using assms by (induction rows) auto

lemma update_one:
  assumes "distinct (map k rows)" "x \<in> set rows" "q x"
  shows "update_rows (\<lambda>r. k r = k x \<and> q r) f rows = update_rows (\<lambda>r. k r = k x) f rows"
  unfolding update_rows_def using distinct_map_unique[OF assms(1) _ assms(2)] assms(3)
  by (intro map_cong refl) metis

lemma update_rows_all:
  assumes "distinct (map k rows)" "x \<in> set rows" "\<forall>r \<in> set rows. P r" "P (f x)"
  shows "\<forall>r \<in> set (update_rows (\<lambda>r. k r = k x) f rows). P r"
  using distinct_map_unique[OF assms(1) _ assms(2)] assms(3,4) by (auto simp: update_rows_def)

lemma ids_ok_update: "ids_ok idf rows \<Longrightarrow> (\<And>r. idf (f r) = idf r) \<Longrightarrow> ids_ok idf (update_rows p f rows)"
  unfolding update_rows_def by (rule ids_ok_map) auto

text \<open>The state column of the row with a given key.\<close>

definition lookup_state :: "('r \<Rightarrow> 'k) \<Rightarrow> ('r \<Rightarrow> 's option) \<Rightarrow> 'r list \<Rightarrow> 'k \<Rightarrow> 's option" where
  "lookup_state key st rows k = Option.bind (find (\<lambda>r. key r = k) rows) st"

lemma lookup_state_row:
  "distinct (map key rows) \<Longrightarrow> x \<in> set rows \<Longrightarrow> lookup_state key st rows (key x) = st x"
  by (simp add: lookup_state_def find_unique)

lemma lookup_state_update:
  assumes "distinct (map key rows)" "x \<in> set rows" "\<And>r. key (f r) = key r"
  shows "lookup_state key st (update_rows (\<lambda>r. key r = key x) f rows) j =
    (if j = key x then st (f x) else lookup_state key st rows j)"
proof (cases "j = key x")
  case True
  then show ?thesis
    using find_update_rows[of key f, OF assms(3), of j "\<lambda>r. key r = key x" rows] find_unique[OF assms(1,2)]
    by (simp add: lookup_state_def)
next
  case False
  have "find (\<lambda>r. key r = j) (update_rows (\<lambda>r. key r = key x) f rows) = find (\<lambda>r. key r = j) rows"
    using find_update_rows[of key f, OF assms(3), of j "\<lambda>r. key r = key x" rows] False
    by (cases "find (\<lambda>r. key r = j) rows") (auto dest: find_Some_mem)
  then show ?thesis using False by (simp add: lookup_state_def)
qed

lemma find_append: "find p (xs @ ys) = (case find p xs of None \<Rightarrow> find p ys | Some x \<Rightarrow> Some x)"
  by (induction xs) auto

section \<open>Cursor-paged listings\<close>

text \<open>
  \<open>WHERE (?1 IS NULL OR id > ?1) ORDER BY id ASC LIMIT ?2\<close>, and the loop of a client that reads
  pages until one is empty, each time from the last id it saw.
\<close>

definition page_rows :: "('r \<Rightarrow> int) \<Rightarrow> int option \<Rightarrow> nat \<Rightarrow> 'r list \<Rightarrow> 'r list" where
  "page_rows idf after_id limit rows =
     take limit (sort_key idf (filter (\<lambda>r. case after_id of None \<Rightarrow> True | Some i \<Rightarrow> i < idf r) rows))"

fun read_pages :: "(int option \<Rightarrow> ('e, 'x list) result) \<Rightarrow> ('x \<Rightarrow> int) \<Rightarrow> nat \<Rightarrow> int option \<Rightarrow> ('e, 'x list) result" where
  "read_pages list xid 0 after_id = Inr []"
| "read_pages list xid (Suc fuel) after_id =
     rbind (list after_id) (\<lambda>page.
       if page = [] then Inr []
       else rbind (read_pages list xid fuel (Some (xid (last page)))) (\<lambda>rest. Inr (page @ rest)))"

lemma filter_after_last:
  fixes idf :: "'r \<Rightarrow> int"
  assumes "sorted_wrt (<) (map idf (pre @ suf))" "pre \<noteq> []"
  shows "filter (\<lambda>r. idf (last pre) < idf r) (pre @ suf) = suf"
proof -
  obtain ys y where pre: "pre = ys @ [y]" using assms(2) by (cases pre rule: rev_cases) auto
  have "filter (\<lambda>r. idf y < idf r) ys = []"
    using assms(1) by (force simp: pre sorted_wrt_append filter_empty_conv)
  moreover have "filter (\<lambda>r. idf y < idf r) suf = suf"
    using assms(1) by (auto simp: pre sorted_wrt_append)
  ultimately show ?thesis by (simp add: pre)
qed

lemma page_rows_after:
  assumes "ids_ok idf rows" "rows = pre @ suf"
    and "after_id = (if pre = [] then None else Some (idf (last pre)))"
  shows "page_rows idf after_id limit rows = take limit suf"
proof -
  have "filter (\<lambda>r. case after_id of None \<Rightarrow> True | Some i \<Rightarrow> i < idf r) rows = suf"
    using filter_after_last[of idf pre suf] assms by (auto simp: ids_ok_def)
  moreover have "ids_ok idf suf" using assms(1,2) by (auto simp: ids_ok_def sorted_wrt_append)
  ultimately show ?thesis by (simp add: page_rows_def ids_ok_sort)
qed

lemma read_pages_suffix:
  assumes ids: "ids_ok idf rows" and limit: "0 < limit"
    and dec: "\<And>r. r \<in> set rows \<Longrightarrow> \<exists>x. dec r = Inr x \<and> xid x = idf r"
    and list: "\<And>after_id. (\<forall>i. after_id = Some i \<longrightarrow> 1 \<le> i) \<Longrightarrow>
      list after_id = rmap dec (page_rows idf after_id limit rows)"
  shows "rows = pre @ suf \<Longrightarrow> length suf < fuel \<Longrightarrow>
    after_id = (if pre = [] then None else Some (idf (last pre))) \<Longrightarrow>
    read_pages list xid fuel after_id = rmap dec suf"
proof (induction fuel arbitrary: pre suf after_id)
  case 0
  then show ?case by simp
next
  case (Suc fuel)
  have "\<forall>i. after_id = Some i \<longrightarrow> 1 \<le> i"
    using Suc.prems(1,3) ids by (auto simp: ids_ok_def split: if_splits)
  then have page: "list after_id = rmap dec (take limit suf)"
    using list page_rows_after[OF ids Suc.prems(1,3)] by simp
  show ?case
  proof (cases "suf = []")
    case True
    then show ?thesis using page by simp
  next
    case False
    let ?t = "take limit suf" let ?d = "drop limit suf"
    have ne: "?t \<noteq> []" using False limit by (cases suf; cases limit) auto
    obtain xs where xs: "rmap dec ?t = Inr xs"
      using rmap_total[of ?t dec] dec Suc.prems(1) set_take_subset[of limit suf] by fastforce
    have lst: "xs \<noteq> []" "dec (last ?t) = Inr (last xs)" using rmap_last[OF xs ne] by auto
    have "last ?t \<in> set rows" using ne Suc.prems(1) in_set_takeD[of "last ?t" limit suf] by simp
    then have "xid (last xs) = idf (last ?t)" using dec lst(2) by fastforce
    moreover have "read_pages list xid fuel (Some (idf (last ?t))) = rmap dec ?d"
      using Suc.IH[of "pre @ ?t" ?d "Some (idf (last ?t))"] Suc.prems(1,2) ne limit False
      by (cases suf) auto
    ultimately show ?thesis
      using page xs lst(1) rmap_append[of dec ?t ?d] by simp
  qed
qed

lemma read_pages_complete:
  assumes "ids_ok idf rows" "0 < limit" "length rows < fuel"
    and "\<And>r. r \<in> set rows \<Longrightarrow> \<exists>x. dec r = Inr x \<and> xid x = idf r"
    and "\<And>after_id. (\<forall>i. after_id = Some i \<longrightarrow> 1 \<le> i) \<Longrightarrow>
      list after_id = rmap dec (page_rows idf after_id limit rows)"
  shows "read_pages list xid fuel None = rmap dec rows"
  by (rule read_pages_suffix[OF assms(1,2,4,5), where pre = "[]"]) (use assms(3) in simp_all)

end
