(* ===== verification/Auth.thy ===== *)
theory Auth
  imports Rust_Text
begin

text \<open>
  \<open>src/pa/auth.rs\<close>: HMAC authentication of internal requests. The bounded in-memory replay
  guard, the canonical request, signing and verification are translated function by
  function. SHA-256 and HMAC-SHA-256 come from the crate \<open>ring\<close> and are parameters
  (\<open>sha\<close>, \<open>hmac\<close>). The trait \<open>ReplayGuard\<close> is the locale \<open>replay_guard\<close>: the client
  \<open>verify_request\<close> is proved free of replays over its laws once, and the laws are
  discharged for the in-memory guard here and for the persistent one in \<open>Store_Replay\<close>.
\<close>

section \<open>Constants and errors\<close>

definition X_AV_TIMESTAMP :: str where "X_AV_TIMESTAMP = lit ''X-AV-Timestamp''"
definition X_AV_NONCE :: str where "X_AV_NONCE = lit ''X-AV-Nonce''"
definition X_AV_SIGNATURE :: str where "X_AV_SIGNATURE = lit ''X-AV-Signature''"

definition MAX_CLOCK_SKEW_SECONDS :: int where "MAX_CLOCK_SKEW_SECONDS = 60"
definition REPLAY_RETENTION_SECONDS :: int where "REPLAY_RETENTION_SECONDS = 5 * 60"
definition DEFAULT_REPLAY_CAPACITY :: nat where "DEFAULT_REPLAY_CAPACITY = 4096"
definition SHA256_OUTPUT_LEN :: nat where "SHA256_OUTPUT_LEN = 32"

datatype auth_error =
    EmptySecret
  | NonUtf8Header str
  | InvalidTimestamp
  | TimestampOutsideAllowedSkew
  | InvalidNonce
  | InvalidSignatureEncoding
  | InvalidSignature
  | NonceReplay

section \<open>The in-memory replay guard\<close>

text \<open>The hash map from nonce to acceptance time is a list of pairs with distinct keys.\<close>

record in_memory_guard =
  accepted :: "(str \<times> int) list"
  capacity :: nat

definition guard_new :: "nat \<Rightarrow> in_memory_guard" where
  "guard_new cap = \<lparr>accepted = [], capacity = max cap 1\<rparr>"

definition guard_default :: in_memory_guard where
  "guard_default = guard_new DEFAULT_REPLAY_CAPACITY"

definition guard_len :: "in_memory_guard \<Rightarrow> nat" where
  "guard_len g = length (accepted g)"

definition guard_is_empty :: "in_memory_guard \<Rightarrow> bool" where
  "guard_is_empty g = (accepted g = [])"

definition evict_expired :: "in_memory_guard \<Rightarrow> int \<Rightarrow> in_memory_guard \<times> nat" where
  "evict_expired g now =
     (let before = length (accepted g);
          g' = g\<lparr>accepted := filter (\<lambda>(_, accepted_at).
                  i64_saturating_add accepted_at REPLAY_RETENTION_SECONDS > now) (accepted g)\<rparr>
      in (g', before - length (accepted g')))"

definition check_and_record :: "in_memory_guard \<Rightarrow> str \<Rightarrow> int \<Rightarrow> in_memory_guard \<times> bool" where
  "check_and_record g nonce now =
     (let g = fst (evict_expired g now)
      in if List.member (map fst (accepted g)) nonce \<or> length (accepted g) \<ge> capacity g
         then (g, False)
         else (g\<lparr>accepted := (nonce, now) # accepted g\<rparr>, True))"

section \<open>Signing and verification\<close>

definition hmac_key :: "u8 list \<Rightarrow> (auth_error, u8 list) result" where
  "hmac_key secret = (if secret = [] then Inl EmptySecret else Inr secret)"

definition nonce_byte :: "rchar \<Rightarrow> bool" where
  "nonce_byte b \<longleftrightarrow> is_ascii_alphanumeric b \<or> b = 95 \<or> b = 45"

definition validate_nonce :: "str \<Rightarrow> (auth_error, unit) result" where
  "validate_nonce nonce =
     (if \<not> (16 \<le> str_len nonce \<and> str_len nonce \<le> 128) \<or> \<not> all_bytes nonce_byte nonce
      then Inl InvalidNonce else Inr ())"

definition hex_digit :: "int \<Rightarrow> u8 option" where
  "hex_digit v =
     (if 48 \<le> v \<and> v \<le> 57 then Some (word_of_int (v - 48))
      else if 97 \<le> v \<and> v \<le> 102 then Some (word_of_int (v - 97 + 10))
      else None)"

fun decode_hex_pairs :: "int list \<Rightarrow> u8 list option" where
  "decode_hex_pairs (a # b # rest) =
     (case hex_digit a of None \<Rightarrow> None | Some high \<Rightarrow>
      (case hex_digit b of None \<Rightarrow> None | Some low \<Rightarrow>
        map_option ((#) (push_bit 4 high OR low)) (decode_hex_pairs rest)))"
| "decode_hex_pairs _ = Some []"

definition decode_hex :: "str \<Rightarrow> u8 list option" where
  "decode_hex v = (let bytes = utf8 v in
     if length bytes mod 2 \<noteq> 0 then None else decode_hex_pairs bytes)"

definition canonical_request ::
    "(u8 list \<Rightarrow> u8 list) \<Rightarrow> str \<Rightarrow> str \<Rightarrow> int \<Rightarrow> str \<Rightarrow> u8 list \<Rightarrow> str" where
  "canonical_request sha meth path_and_query timestamp nonce body =
     to_ascii_uppercase meth @ [10] @ path_and_query @ [10] @ show_int timestamp @ [10]
       @ nonce @ [10] @ lower_hex (sha body)"

definition sign_request ::
    "(u8 list \<Rightarrow> u8 list) \<Rightarrow> (u8 list \<Rightarrow> u8 list \<Rightarrow> u8 list) \<Rightarrow> u8 list \<Rightarrow> str \<Rightarrow> str \<Rightarrow> int \<Rightarrow> str
      \<Rightarrow> u8 list \<Rightarrow> (auth_error, str) result" where
  "sign_request sha hmac secret meth path_and_query timestamp nonce body =
     rbind (hmac_key secret) (\<lambda>key.
     rbind (validate_nonce nonce) (\<lambda>_.
       let canonical = canonical_request sha meth path_and_query timestamp nonce body
       in Inr (lower_hex (hmac key (str_bytes canonical)))))"

record signed_request =
  req_method :: str
  req_path_and_query :: str
  req_timestamp_header :: "u8 list"
  req_nonce_header :: "u8 list"
  req_signature_header :: "u8 list"
  req_body :: "u8 list"

text \<open>Everything \<open>verify_request\<close> does before it consults the replay guard.\<close>

definition authenticate ::
    "(u8 list \<Rightarrow> u8 list) \<Rightarrow> (u8 list \<Rightarrow> u8 list \<Rightarrow> u8 list) \<Rightarrow> u8 list \<Rightarrow> signed_request \<Rightarrow> int
      \<Rightarrow> (auth_error, str) result" where
  "authenticate sha hmac secret r current_timestamp =
     rbind (hmac_key secret) (\<lambda>key.
     rbind (ok_or (NonUtf8Header X_AV_TIMESTAMP) (from_utf8 (req_timestamp_header r))) (\<lambda>timestamp_text.
     rbind (ok_or (NonUtf8Header X_AV_NONCE) (from_utf8 (req_nonce_header r))) (\<lambda>nonce.
     rbind (ok_or (NonUtf8Header X_AV_SIGNATURE) (from_utf8 (req_signature_header r))) (\<lambda>signature_text.
     rbind (ok_or InvalidTimestamp (parse_i64 timestamp_text)) (\<lambda>timestamp.
     rbind (ensure (\<not> \<bar>timestamp - current_timestamp\<bar> > MAX_CLOCK_SKEW_SECONDS) TimestampOutsideAllowedSkew) (\<lambda>_.
     rbind (validate_nonce nonce) (\<lambda>_.
     rbind (ok_or InvalidSignatureEncoding (decode_hex signature_text)) (\<lambda>signature.
     rbind (ensure (length signature = SHA256_OUTPUT_LEN) InvalidSignatureEncoding) (\<lambda>_.
       let canonical = canonical_request sha (req_method r) (req_path_and_query r) timestamp nonce (req_body r)
       in if hmac key (str_bytes canonical) = signature then Inr nonce else Inl InvalidSignature)))))))))"

definition verify_request ::
    "(u8 list \<Rightarrow> u8 list) \<Rightarrow> (u8 list \<Rightarrow> u8 list \<Rightarrow> u8 list) \<Rightarrow> ('g \<Rightarrow> str \<Rightarrow> int \<Rightarrow> 'g \<times> bool)
      \<Rightarrow> u8 list \<Rightarrow> signed_request \<Rightarrow> int \<Rightarrow> 'g \<Rightarrow> 'g \<times> (auth_error, unit) result" where
  "verify_request sha hmac check secret r current_timestamp g =
     (case authenticate sha hmac secret r current_timestamp of
        Inl e \<Rightarrow> (g, Inl e)
      | Inr nonce \<Rightarrow>
          (let (g', fresh) = check g nonce current_timestamp
           in (g', if fresh then Inr () else Inl NonceReplay)))"

fun verify_run ::
    "(u8 list \<Rightarrow> u8 list) \<Rightarrow> (u8 list \<Rightarrow> u8 list \<Rightarrow> u8 list) \<Rightarrow> ('g \<Rightarrow> str \<Rightarrow> int \<Rightarrow> 'g \<times> bool)
      \<Rightarrow> u8 list \<Rightarrow> (signed_request \<times> int) list \<Rightarrow> 'g \<Rightarrow> 'g" where
  "verify_run sha hmac check secret [] g = g"
| "verify_run sha hmac check secret ((r, now) # rs) g =
     verify_run sha hmac check secret rs (fst (verify_request sha hmac check secret r now g))"

section \<open>What an accepted request satisfies\<close>

lemma authenticate_InrD:
  assumes "authenticate sha hmac secret r now = Inr nonce"
  shows "secret \<noteq> []"
    and "from_utf8 (req_nonce_header r) = Some nonce"
    and "validate_nonce nonce = Inr ()"
    and "\<exists>tt t st sig. from_utf8 (req_timestamp_header r) = Some tt \<and> parse_i64 tt = Some t
           \<and> \<bar>t - now\<bar> \<le> 60 \<and> from_utf8 (req_signature_header r) = Some st \<and> decode_hex st = Some sig
           \<and> length sig = 32
           \<and> sig = hmac secret (str_bytes (canonical_request sha (req_method r) (req_path_and_query r) t nonce (req_body r)))"
  using assms
  by (auto simp: authenticate_def rbind_Inr_iff hmac_key_def MAX_CLOCK_SKEW_SECONDS_def Let_def
      SHA256_OUTPUT_LEN_def split: if_splits)

lemma verify_Inr_iff:
  "verify_request sha hmac check secret r now g = (g', Inr ()) \<longleftrightarrow>
     (\<exists>nonce. authenticate sha hmac secret r now = Inr nonce \<and> check g nonce now = (g', True))"
  by (auto simp: verify_request_def split: sum.splits prod.splits if_splits)

lemma verify_state:
  "fst (verify_request sha hmac check secret r now g) =
     (case authenticate sha hmac secret r now of Inl _ \<Rightarrow> g | Inr nonce \<Rightarrow> fst (check g nonce now))"
  by (auto simp: verify_request_def split: sum.splits prod.splits)

section \<open>The replay-guard contract\<close>

locale replay_guard =
  fixes check :: "'g \<Rightarrow> str \<Rightarrow> int \<Rightarrow> 'g \<times> bool"
    and held :: "'g \<Rightarrow> str \<Rightarrow> int \<Rightarrow> bool"
    and guard_inv :: "'g \<Rightarrow> bool"
    and clock_ok :: "int \<Rightarrow> bool"
  assumes inv_check: "guard_inv g \<Longrightarrow> clock_ok now \<Longrightarrow> guard_inv (fst (check g n now))"
    and accept_held: "guard_inv g \<Longrightarrow> clock_ok now \<Longrightarrow> validate_nonce n = Inr () \<Longrightarrow>
          check g n now = (g', True) \<Longrightarrow> held g' n now"
    and held_kept: "guard_inv g \<Longrightarrow> clock_ok now \<Longrightarrow> held g n t \<Longrightarrow>
          now < t + REPLAY_RETENTION_SECONDS \<Longrightarrow> held (fst (check g m now)) n t"
    and held_rejects: "guard_inv g \<Longrightarrow> clock_ok now \<Longrightarrow> held g n t \<Longrightarrow>
          now < t + REPLAY_RETENTION_SECONDS \<Longrightarrow> \<not> snd (check g n now)"
begin

lemma verify_inv:
  "guard_inv g \<Longrightarrow> clock_ok now \<Longrightarrow> guard_inv (fst (verify_request sha hmac check secret r now g))"
  by (auto simp: verify_state inv_check split: sum.splits)

lemma verify_held:
  "guard_inv g \<Longrightarrow> clock_ok now \<Longrightarrow> held g n t \<Longrightarrow> now < t + REPLAY_RETENTION_SECONDS \<Longrightarrow>
     held (fst (verify_request sha hmac check secret r now g)) n t"
  by (auto simp: verify_state held_kept split: sum.splits)

lemma run_held:
  assumes "guard_inv g" "held g n t"
    and "\<And>r now. (r, now) \<in> set rs \<Longrightarrow> clock_ok now \<and> now < t + REPLAY_RETENTION_SECONDS"
  shows "guard_inv (verify_run sha hmac check secret rs g) \<and> held (verify_run sha hmac check secret rs g) n t"
  using assms
proof (induction rs arbitrary: g)
  case Nil
  then show ?case by simp
next
  case (Cons e rs)
  obtain r now where e: "e = (r, now)" by (cases e)
  with Cons.prems(3) have now: "clock_ok now" "now < t + REPLAY_RETENTION_SECONDS" by auto
  have "guard_inv (fst (verify_request sha hmac check secret r now g))"
    and "held (fst (verify_request sha hmac check secret r now g)) n t"
    using Cons.prems(1,2) now by (auto intro: verify_inv verify_held)
  then show ?case using Cons.IH Cons.prems(3) e by auto
qed

text \<open>
  Two requests with the same timestamp and nonce headers are never both accepted: the skew
  window closes (at most \<open>2 \<cdot> 60\<close> seconds after the first acceptance) before the nonce is
  forgotten (\<open>300\<close> seconds after it).
\<close>

lemma no_replay:
  assumes inv: "guard_inv g"
    and first: "verify_request sha hmac check secret r1 t1 g = (g1, Inr ())"
    and second: "verify_request sha hmac check secret r2 t2 (verify_run sha hmac check secret mid g1) = (g2, res)"
    and same: "req_timestamp_header r2 = req_timestamp_header r1" "req_nonce_header r2 = req_nonce_header r1"
    and clock: "clock_ok t1" "clock_ok t2" "\<And>r t. (r, t) \<in> set mid \<Longrightarrow> clock_ok t \<and> t \<le> t2"
  shows "res \<noteq> Inr ()"
proof
  assume "res = Inr ()"
  with second obtain n2 where a2: "authenticate sha hmac secret r2 t2 = Inr n2"
    and c2: "check (verify_run sha hmac check secret mid g1) n2 t2 = (g2, True)"
    by (auto simp: verify_Inr_iff)
  from first obtain n where a1: "authenticate sha hmac secret r1 t1 = Inr n"
    and c1: "check g n t1 = (g1, True)"
    by (auto simp: verify_Inr_iff)
  have "n2 = n" using authenticate_InrD(2)[OF a1] authenticate_InrD(2)[OF a2] same by simp
  obtain tt t where t: "from_utf8 (req_timestamp_header r1) = Some tt" "parse_i64 tt = Some t" "\<bar>t - t1\<bar> \<le> 60"
    using authenticate_InrD(4)[OF a1] by blast
  have "\<bar>t - t2\<bar> \<le> 60"
    using authenticate_InrD(4)[OF a2] t same by auto
  with t(3) have window: "t2 < t1 + REPLAY_RETENTION_SECONDS"
    by (simp add: REPLAY_RETENTION_SECONDS_def)
  have "guard_inv g1" using inv_check[OF inv clock(1), of n] c1 by simp
  moreover have "held g1 n t1"
    using accept_held[OF inv clock(1) authenticate_InrD(3)[OF a1] c1] .
  ultimately have "guard_inv (verify_run sha hmac check secret mid g1)"
    and "held (verify_run sha hmac check secret mid g1) n t1"
    using run_held[of g1 n t1 mid] clock(3) window by fastforce+
  then show False
    using held_rejects[OF _ clock(2) _ window] c2 \<open>n2 = n\<close> by fastforce
qed

end

section \<open>The in-memory guard satisfies the contract\<close>

definition mem_held :: "in_memory_guard \<Rightarrow> str \<Rightarrow> int \<Rightarrow> bool" where
  "mem_held g n t \<longleftrightarrow> (n, t) \<in> set (accepted g)"

definition mem_inv :: "in_memory_guard \<Rightarrow> bool" where
  "mem_inv g \<longleftrightarrow> distinct (map fst (accepted g)) \<and> length (accepted g) \<le> capacity g \<and> 1 \<le> capacity g"

definition mem_clock_ok :: "int \<Rightarrow> bool" where
  "mem_clock_ok now \<longleftrightarrow> i64_min \<le> now \<and> now < i64_max"

lemma accepted_evict:
  "accepted (fst (evict_expired g now)) =
     filter (\<lambda>(_, a). i64_saturating_add a REPLAY_RETENTION_SECONDS > now) (accepted g)"
  "capacity (fst (evict_expired g now)) = capacity g"
  by (simp_all add: evict_expired_def Let_def)

lemma retained_while_fresh:
  "mem_clock_ok now \<Longrightarrow> now < t + REPLAY_RETENTION_SECONDS \<Longrightarrow>
     now < i64_saturating_add t REPLAY_RETENTION_SECONDS"
  by (auto simp: i64_saturating_add_def mem_clock_ok_def)

lemma distinct_map_fst_filter: "distinct (map fst xs) \<Longrightarrow> distinct (map fst (filter p xs))"
  by (simp add: distinct_map_filter)

lemma evict_inv: "mem_inv g \<Longrightarrow> mem_inv (fst (evict_expired g now))"
  by (auto simp: mem_inv_def accepted_evict distinct_map_fst_filter
      intro: le_trans[OF length_filter_le])

lemma check_inv: "mem_inv g \<Longrightarrow> mem_inv (fst (check_and_record g n now))"
  using evict_inv[of g now]
  by (auto simp: check_and_record_def Let_def mem_inv_def)

interpretation mem: replay_guard check_and_record mem_held mem_inv mem_clock_ok
proof
  fix g now n m g' t
  show "mem_inv g \<Longrightarrow> mem_inv (fst (check_and_record g n now))"
    by (rule check_inv)
  show "check_and_record g n now = (g', True) \<Longrightarrow> mem_held g' n now"
    by (auto simp: check_and_record_def Let_def mem_held_def split: if_splits)
  show "mem_clock_ok now \<Longrightarrow> mem_held g n t \<Longrightarrow> now < t + REPLAY_RETENTION_SECONDS \<Longrightarrow>
      mem_held (fst (check_and_record g m now)) n t"
    by (auto simp: check_and_record_def Let_def mem_held_def accepted_evict retained_while_fresh)
  show "mem_clock_ok now \<Longrightarrow> mem_held g n t \<Longrightarrow> now < t + REPLAY_RETENTION_SECONDS \<Longrightarrow>
      \<not> snd (check_and_record g n now)"
    by (force simp: check_and_record_def Let_def mem_held_def accepted_evict retained_while_fresh
        split: if_splits)
qed

section \<open>Signatures, nonces and the properties of the component\<close>


lemma and_15_take_bit: "(b :: u8) AND 15 = take_bit 4 b"
  by (simp only: take_bit_eq_mask) (simp add: mask_eq_exp_minus_1)

lemma nibbles_join: "push_bit 4 (drop_bit 4 b) OR take_bit 4 b = (b :: u8)"
  by (rule bit_word_eqI) (auto simp: bit_simps)

lemma decode_hex_lower_hex: "decode_hex (lower_hex bs) = Some bs"
proof -
  have ascii: "list_all is_ascii (lower_hex bs)"
    using lower_hex_chars[of bs]
    by (auto simp: list_all_iff is_lower_hex_char_def is_ascii_def is_ascii_digit_def)
  have digit: "hex_digit (hex_char n) = Some (word_of_int n)" if "0 \<le> n" "n < 16" for n
    using that by (auto simp: hex_digit_def hex_char_def)
  have join: "push_bit 4 (word_of_int (uint b div 16)) OR word_of_int (uint b mod 16) = b" for b :: u8
  proof -
    have "word_of_int (uint b div 16) = drop_bit 4 b"
      by (simp only: uint_high_nibble[symmetric] word_of_int_uint)
    moreover have "word_of_int (uint b mod 16) = take_bit 4 b"
      by (simp only: uint_low_nibble[symmetric] word_of_int_uint and_15_take_bit)
    ultimately show ?thesis by (simp only: nibbles_join)
  qed
  have pairs: "decode_hex_pairs (lower_hex bs) = Some bs"
  proof (induction bs)
    case Nil
    then show ?case by simp
  next
    case (Cons b bs)
    have "0 \<le> uint b div 16" "uint b div 16 < 16" using uint_u8_bounds[of b] by linarith+
    then show ?case using Cons
      by (simp only: lower_hex_simps uint_high_nibble uint_low_nibble decode_hex_pairs.simps digit
          option.case option.map join pos_mod_sign pos_mod_bound)
  qed
  show ?thesis by (simp add: decode_hex_def utf8_ascii[OF ascii] pairs)
qed

lemma lower_hex_scalar: "list_all is_scalar (lower_hex bs)"
  using lower_hex_chars[of bs]
  by (auto simp: list_all_iff is_scalar_def is_lower_hex_char_def is_ascii_digit_def)

lemma validate_nonce_iff:
  "validate_nonce n = Inr () \<longleftrightarrow> 16 \<le> length n \<and> length n \<le> 128 \<and> list_all nonce_byte n"
proof -
  have asc: "nonce_byte c \<Longrightarrow> is_ascii c" for c
    by (auto simp: nonce_byte_def char_class_defs)
  have "list_all nonce_byte n \<Longrightarrow> list_all is_ascii n"
    using asc by (auto simp: list_all_iff)
  then show ?thesis
    by (auto simp: validate_nonce_def all_bytes_ascii[OF asc] str_len_ascii)
qed

text \<open>
  C29. A request signed with \<open>sign_request\<close> and sent with its timestamp, nonce and signature
  as header text is accepted, at every clock reading within the allowed skew, by any replay
  guard that has not seen the nonce.
\<close>

theorem signed_request_is_accepted:
  assumes sign: "sign_request sha hmac secret meth path t nonce body = Inr signature"
    and t: "in_i64 t" and skew: "\<bar>t - now\<bar> \<le> MAX_CLOCK_SKEW_SECONDS"
    and tag: "\<And>key msg. length (hmac key msg) = SHA256_OUTPUT_LEN"
    and fresh: "check g nonce now = (g', True)"
  shows "verify_request sha hmac check secret
           \<lparr>req_method = meth, req_path_and_query = path,
            req_timestamp_header = str_bytes (show_int t), req_nonce_header = str_bytes nonce,
            req_signature_header = str_bytes signature, req_body = body\<rparr> now g = (g', Inr ())"
proof -
  from sign have secret: "secret \<noteq> []" and nonce: "validate_nonce nonce = Inr ()"
    and sig: "signature = lower_hex (hmac secret (str_bytes (canonical_request sha meth path t nonce body)))"
    by (auto simp: sign_request_def rbind_Inr_iff hmac_key_def Let_def split: if_splits)
  have "list_all is_scalar (show_int t)"
    by (auto simp: list_all_iff is_scalar_def is_ascii_digit_def dest: show_int_chars)
  moreover have "list_all is_scalar nonce"
    using nonce by (auto simp: validate_nonce_iff list_all_iff is_scalar_def nonce_byte_def char_class_defs)
  moreover have "list_all is_scalar signature"
    unfolding sig by (rule lower_hex_scalar)
  ultimately have "authenticate sha hmac secret
           \<lparr>req_method = meth, req_path_and_query = path,
            req_timestamp_header = str_bytes (show_int t), req_nonce_header = str_bytes nonce,
            req_signature_header = str_bytes signature, req_body = body\<rparr> now = Inr nonce"
    using secret nonce t skew tag
    by (simp add: authenticate_def hmac_key_def from_utf8_str_bytes parse_show_i64 Let_def sig
        decode_hex_lower_hex ensure_def)
  then show ?thesis using fresh by (simp add: verify_Inr_iff)
qed

definition demo_hmac :: "u8 list \<Rightarrow> u8 list \<Rightarrow> u8 list" where
  "demo_hmac key msg = take 32 (replicate 31 0 @ [sum_list key + sum_list msg])"

theorem signed_request_is_accepted_witness:
  "\<exists>signature. sign_request (\<lambda>b. b) demo_hmac [1] (lit ''get'') (lit ''/'') 100 (lit ''nonce_0123456789'') [7] = Inr signature
     \<and> snd (verify_request (\<lambda>b. b) demo_hmac check_and_record [1]
           \<lparr>req_method = lit ''get'', req_path_and_query = lit ''/'',
            req_timestamp_header = str_bytes (show_int 100), req_nonce_header = str_bytes (lit ''nonce_0123456789''),
            req_signature_header = str_bytes signature, req_body = [7]\<rparr> 130 (guard_new 0)) = Inr ()"
proof -
  have ok: "validate_nonce (lit ''nonce_0123456789'') = Inr ()"
    by (simp add: validate_nonce_iff nonce_byte_def char_class_defs)
  obtain signature where s:
    "sign_request (\<lambda>b. b) demo_hmac [1] (lit ''get'') (lit ''/'') 100 (lit ''nonce_0123456789'') [7] = Inr signature"
    using ok by (auto simp: sign_request_def hmac_key_def Let_def simp del: lit_simps)
  have c: "check_and_record (guard_new 0) (lit ''nonce_0123456789'') 130 =
     (\<lparr>accepted = [(lit ''nonce_0123456789'', 130)], capacity = 1\<rparr>, True)"
    by (simp add: check_and_record_def evict_expired_def guard_new_def Let_def del: lit_simps)
  show ?thesis
    by (intro exI conjI, rule s, subst signed_request_is_accepted[where check = check_and_record and g = "guard_new 0" and now = 130
        and sha = "\<lambda>b. b" and hmac = demo_hmac, OF s _ _ _ c])
      (auto simp: in_i64_def i64_min_def i64_max_def MAX_CLOCK_SKEW_SECONDS_def demo_hmac_def
        SHA256_OUTPUT_LEN_def simp del: lit_simps)
qed

text \<open>
  C14. The in-memory guard admits no replay: once a request is accepted, no later request that
  carries the same timestamp and nonce headers is accepted, whatever else is sent between
  them, as long as the clock does not run past the second attempt and back.
\<close>

theorem in_memory_guard_stops_replays:
  assumes "mem_inv g"
    and "verify_request sha hmac check_and_record secret r1 t1 g = (g1, Inr ())"
    and "verify_request sha hmac check_and_record secret r2 t2
           (verify_run sha hmac check_and_record secret mid g1) = (g2, res)"
    and "req_timestamp_header r2 = req_timestamp_header r1" "req_nonce_header r2 = req_nonce_header r1"
    and "mem_clock_ok t1" "mem_clock_ok t2" "\<And>r t. (r, t) \<in> set mid \<Longrightarrow> mem_clock_ok t \<and> t \<le> t2"
  shows "res \<noteq> Inr ()"
  using assms by (rule mem.no_replay)

definition demo_request :: "(u8 list \<Rightarrow> u8 list) \<Rightarrow> (u8 list \<Rightarrow> u8 list \<Rightarrow> u8 list) \<Rightarrow> signed_request" where
  "demo_request sha hmac = \<lparr>req_method = lit ''get'', req_path_and_query = lit ''/'',
     req_timestamp_header = str_bytes (lit ''100''), req_nonce_header = str_bytes (lit ''nonce_0123456789''),
     req_signature_header = str_bytes (lower_hex (hmac [1] (str_bytes
        (canonical_request sha (lit ''get'') (lit ''/'') 100 (lit ''nonce_0123456789'') [7])))), req_body = [7]\<rparr>"

lemma demo_request_accepted:
  "fst (verify_request (\<lambda>b. b) demo_hmac check_and_record [1] (demo_request (\<lambda>b. b) demo_hmac) 130 (guard_new 0))
     = \<lparr>accepted = [(lit ''nonce_0123456789'', 130)], capacity = 1\<rparr>"
  "snd (verify_request (\<lambda>b. b) demo_hmac check_and_record [1] (demo_request (\<lambda>b. b) demo_hmac) 130 (guard_new 0))
     = Inr ()"
  by code_simp+

theorem in_memory_guard_stops_replays_witness:
  "snd (verify_request (\<lambda>b. b) demo_hmac check_and_record [1] (demo_request (\<lambda>b. b) demo_hmac) 140
     (verify_run (\<lambda>b. b) demo_hmac check_and_record [1] []
       (fst (verify_request (\<lambda>b. b) demo_hmac check_and_record [1] (demo_request (\<lambda>b. b) demo_hmac) 130
              (guard_new 0))))) \<noteq> Inr ()"
proof -
  let ?verify = "verify_request (\<lambda>b. b) demo_hmac check_and_record [1] (demo_request (\<lambda>b. b) demo_hmac)"
  let ?g1 = "fst (?verify 130 (guard_new 0))"
  have first: "?verify 130 (guard_new 0) = (?g1, Inr ())"
    using demo_request_accepted(2) by (intro prod_eqI) simp_all
  have second: "?verify 140 (verify_run (\<lambda>b. b) demo_hmac check_and_record [1] [] ?g1)
      = (fst (?verify 140 ?g1), snd (?verify 140 ?g1))" by simp
  have "snd (?verify 140 ?g1) \<noteq> Inr ()"
    by (rule in_memory_guard_stops_replays[OF _ first second])
      (simp_all add: mem_inv_def guard_new_def mem_clock_ok_def i64_min_def i64_max_def)
  then show ?thesis by simp
qed

text \<open>C22. The canonical text determines every signed field: no two requests whose meth and
  path are free of newlines share it unless they agree on the upper-cased meth, the path, the
  timestamp, the nonce and the body digest.\<close>

theorem canonical_request_injective:
  assumes "canonical_request sha m p t n b = canonical_request sha m' p' t' n' b'"
    and "10 \<notin> set m" "10 \<notin> set m'" "10 \<notin> set p" "10 \<notin> set p'"
    and "in_i64 t" "in_i64 t'" "validate_nonce n = Inr ()" "validate_nonce n' = Inr ()"
  shows "to_ascii_uppercase m = to_ascii_uppercase m' \<and> p = p' \<and> t = t' \<and> n = n' \<and> sha b = sha b'"
proof -
  have up: "10 \<notin> set s \<Longrightarrow> 10 \<notin> set (to_ascii_uppercase s)" for s
    by (auto simp: to_ascii_uppercase_def ascii_upper_def is_ascii_lowercase_def split: if_splits)
  have int: "10 \<notin> set (show_int k)" for k
    by (auto dest: show_int_chars simp: is_ascii_digit_def)
  have nonce: "validate_nonce k = Inr () \<Longrightarrow> 10 \<notin> set k" for k
    by (auto simp: validate_nonce_iff list_all_iff nonce_byte_def char_class_defs)
  from assms show ?thesis
    by (simp add: canonical_request_def append_sep_inject up int nonce lower_hex_inject)
      (metis show_int_inject)
qed

theorem canonical_request_injective_witness:
  "(lit ''/a'') = (lit ''/a'') \<and> to_ascii_uppercase (lit ''get'') = to_ascii_uppercase (lit ''GET'')"
  using canonical_request_injective[where sha = "\<lambda>b. b" and m = "lit ''get''" and m' = "lit ''GET''"
      and p = "lit ''/a''" and p' = "lit ''/a''" and t = 5 and t' = 5 and n = "lit ''nonce_0123456789''"
      and n' = "lit ''nonce_0123456789''" and b = "[1]" and b' = "[1]"]
  by (simp add: canonical_request_def to_ascii_uppercase_def ascii_upper_def char_class_defs in_i64_def
      i64_min_def i64_max_def validate_nonce_iff nonce_byte_def)

end
