(* ===== verification/Store_Replay.thy ===== *)
theory Store_Replay
  imports Store_Schema Auth
begin

text \<open>
  The persistent replay guard of \<open>src/pa/store.rs\<close> (\<open>consume_replay_nonce\<close>): expired rows are
  deleted and the nonce is inserted in one immediate transaction. Expiry is decided by comparing
  RFC 3339 texts, so the guard depends on the order of those texts (\<open>codec_ok\<close>). The guard is
  shown to satisfy the contract \<open>replay_guard\<close> of \<open>Auth\<close>, and therefore to stop replays.
\<close>

definition validate_replay_nonce :: "str \<Rightarrow> unit store_result" where
  "validate_replay_nonce nonce =
     (if \<not> (16 \<le> str_len nonce \<and> str_len nonce \<le> 128) \<or> \<not> all_bytes nonce_byte nonce
      then Inl (InvalidInput ''nonce'') else Inr ())"

definition replay_timestamps :: "codec \<Rightarrow> int \<Rightarrow> (str \<times> str) store_result" where
  "replay_timestamps C now =
     rbind (ok_or (InvalidInput ''now'') (from_unix_timestamp now)) (\<lambda>d.
     let consumed_at = to_utc d in
     rbind (ok_or (InvalidInput ''now'') (odt_checked_add consumed_at REPLAY_RETENTION_SECONDS)) (\<lambda>expires_at.
     rbind (ok_or (InvalidInput ''now'') (rfc_format C consumed_at)) (\<lambda>consumed_text.
     rbind (ok_or (InvalidInput ''now'') (rfc_format C expires_at)) (\<lambda>expires_text.
       Inr (consumed_text, expires_text)))))"

definition consume_replay_nonce :: "codec \<Rightarrow> db \<Rightarrow> str \<Rightarrow> int \<Rightarrow> db \<times> bool store_result" where
  "consume_replay_nonce C db nonce now =
     (case rbind (validate_replay_nonce nonce) (\<lambda>_. replay_timestamps C now) of
        Inl e \<Rightarrow> (db, Inl e)
      | Inr (consumed_at, expires_at) \<Rightarrow>
          (let rows = filter (\<lambda>r. \<not> rp_expires_at r \<le> consumed_at) (replay_nonces db);
               inserted = (nonce \<notin> rp_nonce ` set rows);
               rows' = (if inserted
                        then rows @ [\<lparr>rp_nonce = nonce, rp_consumed_at = consumed_at, rp_expires_at = expires_at\<rparr>]
                        else rows)
           in (db\<lparr>replay_nonces := rows'\<rparr>, Inr inserted)))"

text \<open>\<open>impl ReplayGuard for PaStore\<close>: a failure counts as a rejection.\<close>

definition store_check_and_record :: "codec \<Rightarrow> db \<Rightarrow> str \<Rightarrow> int \<Rightarrow> db \<times> bool" where
  "store_check_and_record C db nonce now =
     (let (db', r) = consume_replay_nonce C db nonce now
      in (db', case r of Inl _ \<Rightarrow> False | Inr b \<Rightarrow> b))"

section \<open>The guard contract\<close>

definition store_clock_ok :: "int \<Rightarrow> bool" where
  "store_clock_ok now \<longleftrightarrow> rfc_range now \<and> rfc_range (now + REPLAY_RETENTION_SECONDS)"

definition store_held :: "codec \<Rightarrow> db \<Rightarrow> str \<Rightarrow> int \<Rightarrow> bool" where
  "store_held C db nonce t \<longleftrightarrow> rfc_range (t + REPLAY_RETENTION_SECONDS)
     \<and> (\<exists>r \<in> set (replay_nonces db). rp_nonce r = nonce \<and> rp_expires_at r = rfc C (t + REPLAY_RETENTION_SECONDS))"

definition store_replay_inv :: "codec \<Rightarrow> db \<Rightarrow> bool" where
  "store_replay_inv C db \<longleftrightarrow> codec_ok C \<and> distinct (map rp_nonce (replay_nonces db))"

lemma validate_replay_nonce_Inr: "validate_replay_nonce n = Inr () \<longleftrightarrow> validate_nonce n = Inr ()"
  by (simp add: validate_replay_nonce_def validate_nonce_def)

lemma replay_timestamps_eq:
  assumes "codec_ok C" "store_clock_ok now"
  shows "replay_timestamps C now = Inr (rfc C now, rfc C (now + REPLAY_RETENTION_SECONDS))"
  using assms rfc_range_bounds[of now] rfc_range_bounds[of "now + REPLAY_RETENTION_SECONDS"]
  by (simp add: replay_timestamps_def store_clock_ok_def from_unix_timestamp_def odt_checked_add_utc
      codec_format Let_def)

lemma replay_timestamps_Inr:
  assumes "codec_ok C" "replay_timestamps C now = Inr (c, e)"
  shows "store_clock_ok now" "c = rfc C now" "e = rfc C (now + REPLAY_RETENTION_SECONDS)"
  using assms
  by (auto simp: replay_timestamps_def rbind_Inr_iff store_clock_ok_def odt_checked_add_utc codec_format_iff
      Let_def split: if_splits)

text \<open>The state after a call and its verdict, in one equation.\<close>

definition live_rows :: "codec \<Rightarrow> db \<Rightarrow> int \<Rightarrow> replay_row list" where
  "live_rows C db now = filter (\<lambda>r. rfc C now < rp_expires_at r) (replay_nonces db)"

lemma consume_replay_nonce_eq:
  assumes "codec_ok C" "store_clock_ok now"
  shows "consume_replay_nonce C db nonce now =
    (if validate_nonce nonce \<noteq> Inr () then (db, Inl (InvalidInput ''nonce''))
     else if nonce \<in> rp_nonce ` set (live_rows C db now)
     then (db\<lparr>replay_nonces := live_rows C db now\<rparr>, Inr False)
     else (db\<lparr>replay_nonces := live_rows C db now @
             [\<lparr>rp_nonce = nonce, rp_consumed_at = rfc C now,
               rp_expires_at = rfc C (now + REPLAY_RETENTION_SECONDS)\<rparr>]\<rparr>, Inr True))"
proof (cases "validate_nonce nonce = Inr ()")
  case True
  then show ?thesis using replay_timestamps_eq[OF assms] validate_replay_nonce_Inr[of nonce]
    by (simp add: consume_replay_nonce_def live_rows_def not_le Let_def)
next
  case False
  then have "validate_replay_nonce nonce = Inl (InvalidInput ''nonce'')"
    by (auto simp: validate_replay_nonce_def validate_nonce_def split: if_splits)
  then show ?thesis using False by (simp add: consume_replay_nonce_def)
qed

lemma consume_replay_nonce_bad_clock:
  assumes "codec_ok C" "\<not> store_clock_ok now"
  shows "\<exists>e. consume_replay_nonce C db nonce now = (db, Inl e)"
proof -
  have "\<not> (\<exists>c e. replay_timestamps C now = Inr (c, e))"
    using replay_timestamps_Inr[OF assms(1)] assms(2) by blast
  then obtain e where "replay_timestamps C now = Inl e"
    by (metis obj_sumE surj_pair)
  then show ?thesis by (cases "validate_replay_nonce nonce") (simp_all add: consume_replay_nonce_def)
qed

lemma live_rows_distinct: "store_replay_inv C db \<Longrightarrow> distinct (map rp_nonce (live_rows C db now))"
  by (simp add: store_replay_inv_def live_rows_def distinct_map_filter)

lemma live_rows_held:
  assumes "codec_ok C" "store_clock_ok now" "store_held C db n t" "now < t + REPLAY_RETENTION_SECONDS"
  shows "\<exists>r \<in> set (live_rows C db now). rp_nonce r = n \<and> rp_expires_at r = rfc C (t + REPLAY_RETENTION_SECONDS)"
  using assms codec_less[of C now "t + REPLAY_RETENTION_SECONDS"]
  by (auto simp: live_rows_def store_held_def store_clock_ok_def)

lemma store_check_eq:
  "store_check_and_record C db nonce now =
     (fst (consume_replay_nonce C db nonce now), snd (consume_replay_nonce C db nonce now) = Inr True)"
  by (cases "snd (consume_replay_nonce C db nonce now)")
    (auto simp: store_check_and_record_def split: prod.splits)

interpretation stored: replay_guard "store_check_and_record C" "store_held C" "store_replay_inv C" store_clock_ok
  for C
proof
  fix db now n m db' t
  show "store_replay_inv C db \<Longrightarrow> store_clock_ok now \<Longrightarrow>
      store_replay_inv C (fst (store_check_and_record C db n now))"
    using live_rows_distinct[of C db now]
    by (auto simp: store_check_eq consume_replay_nonce_eq store_replay_inv_def)
  show "store_replay_inv C db \<Longrightarrow> store_clock_ok now \<Longrightarrow> validate_nonce n = Inr () \<Longrightarrow>
      store_check_and_record C db n now = (db', True) \<Longrightarrow> store_held C db' n now"
    by (auto simp: store_check_eq consume_replay_nonce_eq store_replay_inv_def store_held_def store_clock_ok_def
        split: if_splits)
  show "store_replay_inv C db \<Longrightarrow> store_clock_ok now \<Longrightarrow> store_held C db n t \<Longrightarrow>
      now < t + REPLAY_RETENTION_SECONDS \<Longrightarrow> store_held C (fst (store_check_and_record C db m now)) n t"
    using live_rows_held[of C now db n t]
    by (auto simp: store_check_eq consume_replay_nonce_eq store_replay_inv_def store_held_def)
  show "store_replay_inv C db \<Longrightarrow> store_clock_ok now \<Longrightarrow> store_held C db n t \<Longrightarrow>
      now < t + REPLAY_RETENTION_SECONDS \<Longrightarrow> \<not> snd (store_check_and_record C db n now)"
    using live_rows_held[of C now db n t]
    by (auto simp: store_check_eq consume_replay_nonce_eq store_replay_inv_def)
qed


section \<open>Equivalence with the retention specification\<close>

text \<open>
  What the guard promises: a nonce is accepted exactly when it is well formed and was not
  accepted during the last \<open>REPLAY_RETENTION_SECONDS\<close>. The specification keeps the whole
  history of acceptances; the implementation forgets and compares texts.
\<close>

definition retention_spec :: "(str \<times> int) list \<Rightarrow> str \<Rightarrow> int \<Rightarrow> bool" where
  "retention_spec hist nonce now \<longleftrightarrow> validate_nonce nonce = Inr () \<and>
     (\<forall>(m, t) \<in> set hist. m = nonce \<longrightarrow> t + REPLAY_RETENTION_SECONDS \<le> now)"

fun spec_verdicts :: "(str \<times> int) list \<Rightarrow> (str \<times> int) list \<Rightarrow> bool list" where
  "spec_verdicts hist [] = []"
| "spec_verdicts hist ((nonce, now) # ops) =
     (let ok = retention_spec hist nonce now
      in ok # spec_verdicts (if ok then (nonce, now) # hist else hist) ops)"

fun store_verdicts :: "codec \<Rightarrow> db \<Rightarrow> (str \<times> int) list \<Rightarrow> bool list" where
  "store_verdicts C db [] = []"
| "store_verdicts C db ((nonce, now) # ops) =
     (let (db', ok) = store_check_and_record C db nonce now in ok # store_verdicts C db' ops)"

definition simulates :: "codec \<Rightarrow> db \<Rightarrow> (str \<times> int) list \<Rightarrow> int \<Rightarrow> bool" where
  "simulates C db hist last_now \<longleftrightarrow>
     (\<forall>r \<in> set (replay_nonces db). \<exists>t. (rp_nonce r, t) \<in> set hist \<and> rfc_range (t + REPLAY_RETENTION_SECONDS)
         \<and> rp_expires_at r = rfc C (t + REPLAY_RETENTION_SECONDS))
   \<and> (\<forall>(n, t) \<in> set hist. last_now < t + REPLAY_RETENTION_SECONDS \<longrightarrow> store_held C db n t)"

lemma simulates_accept:
  assumes "codec_ok C" "simulates C db hist last_now" "last_now \<le> now" "store_clock_ok now"
  shows "n \<in> rp_nonce ` set (live_rows C db now) \<longleftrightarrow>
           (\<exists>t. (n, t) \<in> set hist \<and> now < t + REPLAY_RETENTION_SECONDS)"
proof
  assume "n \<in> rp_nonce ` set (live_rows C db now)"
  then obtain r where r: "r \<in> set (replay_nonces db)" "rp_nonce r = n" "rfc C now < rp_expires_at r"
    by (auto simp: live_rows_def)
  with assms(2) obtain t where "(n, t) \<in> set hist" "rfc_range (t + REPLAY_RETENTION_SECONDS)"
    "rp_expires_at r = rfc C (t + REPLAY_RETENTION_SECONDS)"
    by (auto simp: simulates_def)
  then show "\<exists>t. (n, t) \<in> set hist \<and> now < t + REPLAY_RETENTION_SECONDS"
    using codec_less[OF assms(1)] r(3) assms(4) by (auto simp: store_clock_ok_def)
next
  assume "\<exists>t. (n, t) \<in> set hist \<and> now < t + REPLAY_RETENTION_SECONDS"
  then obtain t where t: "(n, t) \<in> set hist" "now < t + REPLAY_RETENTION_SECONDS" by blast
  then have "store_held C db n t" using assms(2,3) by (auto simp: simulates_def)
  then show "n \<in> rp_nonce ` set (live_rows C db now)"
    using live_rows_held[OF assms(1,4) _ t(2)] by blast
qed

lemma simulates_step:
  assumes "codec_ok C" "simulates C db hist last_now" "last_now \<le> now" "store_clock_ok now"
  shows "snd (store_check_and_record C db n now) = retention_spec hist n now"
    and "simulates C (fst (store_check_and_record C db n now))
           (if retention_spec hist n now then (n, now) # hist else hist) now"
proof -
  have acc: "n \<in> rp_nonce ` set (live_rows C db now) \<longleftrightarrow> \<not> (\<forall>(m, t) \<in> set hist. m = n \<longrightarrow> t + REPLAY_RETENTION_SECONDS \<le> now)"
    using simulates_accept[OF assms, of n] by (fastforce simp: not_le)
  show verdict: "snd (store_check_and_record C db n now) = retention_spec hist n now"
    using acc by (simp add: store_check_eq consume_replay_nonce_eq[OF assms(1,4)] retention_spec_def)
  have kept: "store_held C (fst (store_check_and_record C db n now)) m t"
    if "(m, t) \<in> set hist" "now < t + REPLAY_RETENTION_SECONDS" for m t
  proof -
    have "store_held C db m t" using assms(2,3) that by (auto simp: simulates_def)
    then show ?thesis
      using live_rows_held[OF assms(1,4) _ that(2)]
      by (auto simp: store_check_eq consume_replay_nonce_eq[OF assms(1,4)] store_held_def)
  qed
  have rows: "set (replay_nonces (fst (store_check_and_record C db n now))) \<subseteq> set (replay_nonces db) \<union>
      (if retention_spec hist n now then {\<lparr>rp_nonce = n, rp_consumed_at = rfc C now,
         rp_expires_at = rfc C (now + REPLAY_RETENTION_SECONDS)\<rparr>} else {})"
    using acc by (auto simp: store_check_eq consume_replay_nonce_eq[OF assms(1,4)] live_rows_def
        retention_spec_def)
  have new: "retention_spec hist n now \<Longrightarrow> store_held C (fst (store_check_and_record C db n now)) n now"
    using acc assms(4) by (auto simp: store_check_eq consume_replay_nonce_eq[OF assms(1,4)]
        retention_spec_def store_held_def store_clock_ok_def)
  have clock: "rfc_range (now + REPLAY_RETENTION_SECONDS)" using assms(4) by (simp add: store_clock_ok_def)
  have "\<exists>t. (rp_nonce r, t) \<in> set (if retention_spec hist n now then (n, now) # hist else hist)
      \<and> rfc_range (t + REPLAY_RETENTION_SECONDS) \<and> rp_expires_at r = rfc C (t + REPLAY_RETENTION_SECONDS)"
    if r: "r \<in> set (replay_nonces (fst (store_check_and_record C db n now)))" for r
  proof (cases "r \<in> set (replay_nonces db)")
    case True
    then obtain t where "(rp_nonce r, t) \<in> set hist" "rfc_range (t + REPLAY_RETENTION_SECONDS)"
      "rp_expires_at r = rfc C (t + REPLAY_RETENTION_SECONDS)"
      using assms(2) unfolding simulates_def by blast
    then show ?thesis by (intro exI[of _ t]) simp
  next
    case False
    then have "retention_spec hist n now \<and> rp_nonce r = n
        \<and> rp_expires_at r = rfc C (now + REPLAY_RETENTION_SECONDS)"
      using rows r by (cases "retention_spec hist n now") auto
    then show ?thesis using clock by auto
  qed
  then show "simulates C (fst (store_check_and_record C db n now))
           (if retention_spec hist n now then (n, now) # hist else hist) now"
    using kept new by (auto simp: simulates_def)
qed

lemma store_verdicts_simulate:
  assumes "codec_ok C" "simulates C db hist last_now"
    and "sorted_wrt (\<le>) (last_now # map snd ops)" "\<forall>(n, now) \<in> set ops. store_clock_ok now"
  shows "store_verdicts C db ops = spec_verdicts hist ops"
  using assms
proof (induction ops arbitrary: db hist last_now)
  case Nil
  then show ?case by simp
next
  case (Cons op ops)
  obtain n now where op: "op = (n, now)" by (cases op)
  have le: "last_now \<le> now" and clk: "store_clock_ok now" using Cons.prems op by auto
  note step = simulates_step[OF Cons.prems(1,2) le clk, of n]
  have "store_verdicts C (fst (store_check_and_record C db n now)) ops =
      spec_verdicts (if retention_spec hist n now then (n, now) # hist else hist) ops"
    by (rule Cons.IH[OF Cons.prems(1) step(2)]) (use Cons.prems(3,4) op in auto)
  then show ?case using step(1) op by (simp add: split_beta Let_def)
qed

text \<open>
  C8. The persistent guard implements its retention specification: along every sequence of
  calls with a clock that does not go back, from an empty table, it accepts exactly the
  well-formed nonces that were not accepted during the preceding 300 seconds.
\<close>

theorem persistent_guard_implements_retention:
  assumes "codec_ok C" "sorted (map snd ops)" "\<forall>(n, now) \<in> set ops. store_clock_ok now"
  shows "store_verdicts C empty_db ops = spec_verdicts [] ops"
proof (cases ops)
  case Nil
  then show ?thesis by simp
next
  case (Cons op rest)
  have "simulates C empty_db [] (snd op)" by (simp add: simulates_def empty_db_def)
  then show ?thesis
    by (rule store_verdicts_simulate[OF assms(1)]) (use assms(2,3) Cons in auto)
qed

theorem persistent_guard_implements_retention_witness:
  "store_verdicts demo_codec empty_db
     [(lit ''nonce_0123456789'', 0), (lit ''nonce_0123456789'', 299), (lit ''nonce_0123456789'', 300)]
   = [True, False, True]"
proof -
  have ok: "validate_nonce (lit ''nonce_0123456789'') = Inr ()"
    by (simp add: validate_nonce_iff nonce_byte_def char_class_defs)
  have "store_clock_ok 0" "store_clock_ok 299" "store_clock_ok 300"
    by (simp_all add: store_clock_ok_def rfc_range_def rfc_min_secs_def odt_max_secs_def
        REPLAY_RETENTION_SECONDS_def)
  then show ?thesis using ok
    by (subst persistent_guard_implements_retention[OF demo_codec_ok])
      (simp_all add: retention_spec_def REPLAY_RETENTION_SECONDS_def del: lit_simps)
qed

end
