(* ===== verification/Hmac_Admission.thy ===== *)
theory Hmac_Admission
  imports Store_Replay
begin

text \<open>
  \<open>src/pa/http/middleware_hmac.rs\<close> and the error envelope of \<open>src/pa/http/mod.rs\<close>: bounded
  buffering of a request body and HMAC admission of a protected request against the persistent
  replay store. A header map (crate \<open>http\<close>) is the function \<open>get_all\<close> from a header name to its
  values in order; a body stream is the list of its chunks, a chunk that fails is \<open>None\<close>.
\<close>

section \<open>Results and errors\<close>

record api_error =
  ae_code :: string
  ae_message :: string
  ae_request_id :: str

definition api_error_new :: "string \<Rightarrow> string \<Rightarrow> str \<Rightarrow> api_error" where
  "api_error_new code message request_id =
     \<lparr>ae_code = code, ae_message = message, ae_request_id = request_id\<rparr>"

datatype admission_result = AdmissionAccepted "u8 list" | AdmissionRejected api_error

definition rejected_required :: "str \<Rightarrow> admission_result" where
  "rejected_required request_id =
     AdmissionRejected (api_error_new ''authentication_required'' ''authentication required'' request_id)"

definition rejected_authentication :: "str \<Rightarrow> admission_result" where
  "rejected_authentication request_id =
     AdmissionRejected (api_error_new ''authentication_failed'' ''authentication failed'' request_id)"

definition rejected_body_invalid :: "str \<Rightarrow> admission_result" where
  "rejected_body_invalid request_id =
     AdmissionRejected (api_error_new ''request_body_invalid'' ''request body is invalid'' request_id)"

definition rejected_replay :: "str \<Rightarrow> admission_result" where
  "rejected_replay request_id =
     AdmissionRejected (api_error_new ''authentication_replay'' ''authentication replay detected'' request_id)"

definition rejected_unavailable :: "str \<Rightarrow> admission_result" where
  "rejected_unavailable request_id =
     AdmissionRejected (api_error_new ''middleware_unavailable'' ''middleware is unavailable'' request_id)"

definition rejected_too_large :: "str \<Rightarrow> admission_result" where
  "rejected_too_large request_id =
     AdmissionRejected (api_error_new ''request_body_too_large'' ''request body is too large'' request_id)"

lemmas rejected_defs =
  rejected_required_def rejected_authentication_def rejected_body_invalid_def rejected_replay_def
  rejected_unavailable_def rejected_too_large_def api_error_new_def

section \<open>Bodies and headers\<close>

definition MAX_HTTP_REQUEST_BODY_BYTES :: nat where "MAX_HTTP_REQUEST_BODY_BYTES = 64 * 1024"

definition buffer_body :: "u8 list \<Rightarrow> u8 list option" where
  "buffer_body body = (if length body > MAX_HTTP_REQUEST_BODY_BYTES then None else Some body)"

datatype body_read_error = TooLarge | Invalid

fun read_body_loop :: "u8 list \<Rightarrow> u8 list option list \<Rightarrow> (body_read_error, u8 list) result" where
  "read_body_loop buffered [] = Inr buffered"
| "read_body_loop buffered (None # stream) = Inl Invalid"
| "read_body_loop buffered (Some chunk # stream) =
     (if length chunk > MAX_HTTP_REQUEST_BODY_BYTES - length buffered then Inl TooLarge
      else read_body_loop (buffered @ chunk) stream)"

definition read_bounded_body :: "u8 list option list \<Rightarrow> (body_read_error, u8 list) result" where
  "read_bounded_body stream = read_body_loop [] stream"

datatype header_cardinality = Missing | Duplicate

definition required_header :: "(str \<Rightarrow> u8 list list) \<Rightarrow> str \<Rightarrow> (header_cardinality, u8 list) result" where
  "required_header get_all name =
     (case get_all name of
        [] \<Rightarrow> Inl Missing
      | v # vs \<Rightarrow> (if vs \<noteq> [] then Inl Duplicate else Inr v))"

section \<open>Admission\<close>

text \<open>The guard over the store keeps a flag that remembers a failed persistence operation.\<close>

definition guard_check :: "codec \<Rightarrow> db \<times> bool \<Rightarrow> str \<Rightarrow> int \<Rightarrow> (db \<times> bool) \<times> bool" where
  "guard_check C g nonce now =
     (case consume_replay_nonce C (fst g) nonce now of
        (db', Inr consumed) \<Rightarrow> ((db', snd g), consumed)
      | (db', Inl _) \<Rightarrow> ((db', True), False))"

definition reject_header :: "str \<Rightarrow> header_cardinality \<Rightarrow> admission_result" where
  "reject_header request_id c =
     (case c of Missing \<Rightarrow> rejected_required request_id | Duplicate \<Rightarrow> rejected_authentication request_id)"

text \<open>The request that reaches \<open>verify_request\<close>, or the early rejection.\<close>

definition admission_request ::
    "u8 list \<Rightarrow> str \<Rightarrow> u8 list \<Rightarrow> (str \<Rightarrow> u8 list list) \<Rightarrow> str \<Rightarrow> (admission_result, signed_request) result" where
  "admission_request meth path_and_query body get_all request_id =
     rbind (ok_or (rejected_too_large request_id) (buffer_body body)) (\<lambda>body.
     rbind (ok_or (rejected_authentication request_id) (from_utf8 meth)) (\<lambda>meth.
     rbind (map_err (reject_header request_id) (required_header get_all X_AV_TIMESTAMP)) (\<lambda>timestamp.
     rbind (map_err (reject_header request_id) (required_header get_all X_AV_NONCE)) (\<lambda>nonce.
     rbind (map_err (reject_header request_id) (required_header get_all X_AV_SIGNATURE)) (\<lambda>signature.
       Inr \<lparr>req_method = meth, req_path_and_query = path_and_query, req_timestamp_header = timestamp,
            req_nonce_header = nonce, req_signature_header = signature, req_body = body\<rparr>)))))"

definition admit_with_state ::
    "codec \<Rightarrow> (u8 list \<Rightarrow> u8 list) \<Rightarrow> (u8 list \<Rightarrow> u8 list \<Rightarrow> u8 list) \<Rightarrow> u8 list
      \<Rightarrow> u8 list \<Rightarrow> str \<Rightarrow> u8 list \<Rightarrow> (str \<Rightarrow> u8 list list) \<Rightarrow> str \<Rightarrow> int \<Rightarrow> db \<Rightarrow> db \<times> admission_result" where
  "admit_with_state C sha hmac secret meth path_and_query body get_all request_id now db =
     (case admission_request meth path_and_query body get_all request_id of
        Inl rejection \<Rightarrow> (db, rejection)
      | Inr r \<Rightarrow>
          (let ((db', persistence_failed), result) =
                 verify_request sha hmac (guard_check C) secret r now (db, False)
           in (db', case result of
                 Inr _ \<Rightarrow> AdmissionAccepted (req_body r)
               | Inl e \<Rightarrow>
                   (if persistence_failed then rejected_unavailable request_id
                    else if e = NonceReplay then rejected_replay request_id
                    else rejected_authentication request_id))))"

definition admit_body ::
    "codec \<Rightarrow> (u8 list \<Rightarrow> u8 list) \<Rightarrow> (u8 list \<Rightarrow> u8 list \<Rightarrow> u8 list) \<Rightarrow> u8 list
      \<Rightarrow> u8 list \<Rightarrow> str \<Rightarrow> u8 list option list \<Rightarrow> (str \<Rightarrow> u8 list list) \<Rightarrow> str \<Rightarrow> int \<Rightarrow> db \<Rightarrow> db \<times> admission_result" where
  "admit_body C sha hmac secret meth path_and_query stream get_all request_id now db =
     (case read_bounded_body stream of
        Inl TooLarge \<Rightarrow> (db, rejected_too_large request_id)
      | Inl Invalid \<Rightarrow> (db, rejected_body_invalid request_id)
      | Inr body \<Rightarrow> admit_with_state C sha hmac secret meth path_and_query body get_all request_id now db)"


section \<open>Body buffering\<close>

lemma read_body_loop_Inr:
  "length buffered \<le> MAX_HTTP_REQUEST_BODY_BYTES \<Longrightarrow>
   read_body_loop buffered stream = Inr b \<longleftrightarrow>
     None \<notin> set stream \<and> b = buffered @ concat (map the stream) \<and> length b \<le> MAX_HTTP_REQUEST_BODY_BYTES"
  by (induction buffered stream rule: read_body_loop.induct) auto

lemma read_body_loop_TooLarge:
  "length buffered \<le> MAX_HTTP_REQUEST_BODY_BYTES \<Longrightarrow>
   read_body_loop buffered stream = Inl TooLarge \<longleftrightarrow>
     (\<exists>pre c post. stream = map Some pre @ Some c # post
        \<and> length (buffered @ concat pre) \<le> MAX_HTTP_REQUEST_BODY_BYTES
        \<and> MAX_HTTP_REQUEST_BODY_BYTES < length (buffered @ concat pre @ c))"
proof (induction buffered stream rule: read_body_loop.induct)
  case (1 buffered)
  then show ?case by simp
next
  case (2 buffered stream)
  then show ?case by (auto simp: Cons_eq_append_conv)
next
  case (3 buffered chunk stream)
  let ?M = MAX_HTTP_REQUEST_BODY_BYTES
  show ?case
  proof (cases "length chunk > ?M - length buffered")
    case True
    then have "\<exists>pre c post. Some chunk # stream = map Some pre @ Some c # post
        \<and> length (buffered @ concat pre) \<le> ?M \<and> ?M < length (buffered @ concat pre @ c)"
      using 3(2) by (intro exI[of _ "[]"] exI[of _ chunk] exI[of _ stream]) auto
    then show ?thesis using True by simp
  next
    case False
    then have fit: "length (buffered @ chunk) \<le> ?M" using 3(2) by simp
    have "(\<exists>pre c post. Some chunk # stream = map Some pre @ Some c # post
        \<and> length (buffered @ concat pre) \<le> ?M \<and> ?M < length (buffered @ concat pre @ c))
      \<longleftrightarrow> (\<exists>pre c post. stream = map Some pre @ Some c # post
        \<and> length ((buffered @ chunk) @ concat pre) \<le> ?M \<and> ?M < length ((buffered @ chunk) @ concat pre @ c))"
      (is "?l \<longleftrightarrow> ?r")
    proof
      assume ?l
      then obtain pre c post where h: "Some chunk # stream = map Some pre @ Some c # post"
        "length (buffered @ concat pre) \<le> ?M" "?M < length (buffered @ concat pre @ c)" by blast
      show ?r
      proof (cases pre)
        case Nil
        then show ?thesis using h fit by simp
      next
        case (Cons p ps)
        then show ?thesis using h by (intro exI[of _ ps] exI[of _ c] exI[of _ post]) auto
      qed
    next
      assume ?r
      then obtain pre c post where "stream = map Some pre @ Some c # post"
        "length ((buffered @ chunk) @ concat pre) \<le> ?M" "?M < length ((buffered @ chunk) @ concat pre @ c)"
        by blast
      then show ?l by (intro exI[of _ "chunk # pre"] exI[of _ c] exI[of _ post]) auto
    qed
    then show ?thesis using 3(1)[OF False fit] False by simp
  qed
qed

section \<open>The outcome of an admission\<close>

lemma required_header_Inr: "required_header get_all n = Inr v \<longleftrightarrow> get_all n = [v]"
  by (auto simp: required_header_def split: list.splits)

lemma buffer_body_Some: "buffer_body b = Some c \<longleftrightarrow> c = b \<and> length b \<le> MAX_HTTP_REQUEST_BODY_BYTES"
  by (auto simp: buffer_body_def)

lemma admission_request_Inr:
  "admission_request meth path body get_all rid = Inr r \<longleftrightarrow>
     length body \<le> MAX_HTTP_REQUEST_BODY_BYTES \<and>
     (\<exists>m ts n sg. from_utf8 meth = Some m \<and> get_all X_AV_TIMESTAMP = [ts] \<and> get_all X_AV_NONCE = [n]
        \<and> get_all X_AV_SIGNATURE = [sg]
        \<and> r = \<lparr>req_method = m, req_path_and_query = path, req_timestamp_header = ts,
               req_nonce_header = n, req_signature_header = sg, req_body = body\<rparr>)"
  by (auto simp: admission_request_def rbind_Inr_iff required_header_Inr buffer_body_Some)

lemma reject_header_is_rejection: "\<exists>e. reject_header rid c = AdmissionRejected e"
  by (cases c) (simp_all add: reject_header_def rejected_defs)

lemma admission_request_Inl:
  "admission_request meth path body get_all rid = Inl a \<Longrightarrow> \<exists>e. a = AdmissionRejected e"
  by (auto simp: admission_request_def rbind_Inl_iff map_err_Inl_iff ok_or_def rejected_defs reject_header_is_rejection
      split: option.splits)

lemma verify_guard_check:
  "verify_request sha hmac (guard_check C) secret r now (db, False) =
     (case authenticate sha hmac secret r now of
        Inl e \<Rightarrow> ((db, False), Inl e)
      | Inr nonce \<Rightarrow>
          (case consume_replay_nonce C db nonce now of
             (db', Inr True) \<Rightarrow> ((db', False), Inr ())
           | (db', Inr False) \<Rightarrow> ((db', False), Inl NonceReplay)
           | (db', Inl _) \<Rightarrow> ((db', True), Inl NonceReplay)))"
  by (auto simp: verify_request_def guard_check_def split: sum.splits prod.splits bool.splits)

lemma authenticate_not_replay: "authenticate sha hmac secret r now \<noteq> Inl NonceReplay"
  by (auto simp: authenticate_def rbind_Inl_iff hmac_key_def validate_nonce_def ok_or_def Let_def
      split: if_splits option.splits)

lemma admit_cases:
  "admit_with_state C sha hmac secret meth path body get_all rid now db =
     (case admission_request meth path body get_all rid of
        Inl rejection \<Rightarrow> (db, rejection)
      | Inr r \<Rightarrow>
          (case authenticate sha hmac secret r now of
             Inl _ \<Rightarrow> (db, rejected_authentication rid)
           | Inr nonce \<Rightarrow>
               (case consume_replay_nonce C db nonce now of
                  (db', Inr True) \<Rightarrow> (db', AdmissionAccepted body)
                | (db', Inr False) \<Rightarrow> (db', rejected_replay rid)
                | (db', Inl _) \<Rightarrow> (db', rejected_unavailable rid))))"
proof (cases "admission_request meth path body get_all rid")
  case (Inl a)
  then show ?thesis by (simp add: admit_with_state_def)
next
  case (Inr r)
  then have body: "req_body r = body" by (auto simp: admission_request_Inr)
  show ?thesis
  proof (cases "authenticate sha hmac secret r now")
    case (Inl e)
    then have "e \<noteq> NonceReplay" using authenticate_not_replay by metis
    then show ?thesis using Inl Inr by (simp add: admit_with_state_def verify_guard_check)
  next
    case auth: (Inr nonce)
    obtain db' res where "consume_replay_nonce C db nonce now = (db', res)" by fastforce
    then show ?thesis using auth Inr body
      by (cases res) (auto simp: admit_with_state_def verify_guard_check split: bool.splits)
  qed
qed

lemma accepted_window:
  assumes a1: "authenticate sha hmac secret r1 t1 = Inr n1"
    and a2: "authenticate sha hmac secret r2 t2 = Inr n2"
    and same: "req_timestamp_header r2 = req_timestamp_header r1" "req_nonce_header r2 = req_nonce_header r1"
  shows "n2 = n1 \<and> t2 < t1 + REPLAY_RETENTION_SECONDS"
proof -
  have "n2 = n1" using authenticate_InrD(2)[OF a1] authenticate_InrD(2)[OF a2] same by simp
  moreover obtain tt t where "from_utf8 (req_timestamp_header r1) = Some tt" "parse_i64 tt = Some t" "\<bar>t - t1\<bar> \<le> 60"
    using authenticate_InrD(4)[OF a1] by blast
  moreover from this have "\<bar>t - t2\<bar> \<le> 60" using authenticate_InrD(4)[OF a2] same by auto
  ultimately show ?thesis by (simp add: REPLAY_RETENTION_SECONDS_def)
qed

lemma admit_state:
  "fst (admit_with_state C sha hmac secret meth path body get_all rid now db) = db \<or>
   (\<exists>nonce. fst (admit_with_state C sha hmac secret meth path body get_all rid now db)
              = fst (store_check_and_record C db nonce now))"
proof (cases "admission_request meth path body get_all rid")
  case (Inl a)
  then show ?thesis by (simp add: admit_cases)
next
  case (Inr r)
  show ?thesis
  proof (cases "authenticate sha hmac secret r now")
    case (Inl e)
    then show ?thesis using Inr by (simp add: admit_cases)
  next
    case auth: (Inr nonce)
    obtain d res where "consume_replay_nonce C db nonce now = (d, res)" by fastforce
    then show ?thesis using auth Inr
      by (cases res) (auto simp: admit_cases store_check_eq split: bool.splits intro!: exI[of _ nonce])
  qed
qed

lemma consume_state:
  assumes "consume_replay_nonce C db n now = (db', r)"
  shows "db'\<lparr>replay_nonces := []\<rparr> = db\<lparr>replay_nonces := []\<rparr>"
    and "r = Inl e \<Longrightarrow> db' = db"
    and "r = Inr False \<Longrightarrow> set (replay_nonces db') \<subseteq> set (replay_nonces db)"
  using assms by (auto simp: consume_replay_nonce_def Let_def split: sum.splits prod.splits if_splits)

lemma admit_Rejected:
  assumes "admit_with_state C sha hmac secret meth path body get_all rid now db = (db', AdmissionRejected e)"
  shows "db' = db \<and> admission_request meth path body get_all rid = Inl (AdmissionRejected e)
    \<or> db' = db \<and> AdmissionRejected e \<in> {rejected_authentication rid, rejected_unavailable rid}
    \<or> (\<exists>n. consume_replay_nonce C db n now = (db', Inr False)) \<and> AdmissionRejected e = rejected_replay rid"
proof (cases "admission_request meth path body get_all rid")
  case (Inl a)
  then show ?thesis using assms by (simp add: admit_cases)
next
  case (Inr r)
  show ?thesis
  proof (cases "authenticate sha hmac secret r now")
    case (Inl x)
    then show ?thesis using assms Inr by (simp add: admit_cases)
  next
    case auth: (Inr nonce)
    obtain d res where c: "consume_replay_nonce C db nonce now = (d, res)" by fastforce
    then show ?thesis using assms auth Inr consume_state(2)[OF c]
      by (cases res) (auto simp: admit_cases split: bool.splits)
  qed
qed

lemma reject_header_code:
  "reject_header rid c = AdmissionRejected e \<Longrightarrow>
     ae_code e \<in> {''authentication_required'', ''authentication_failed''} \<and> ae_request_id e = rid"
  by (cases c) (auto simp: reject_header_def rejected_defs)

lemma early_rejection_codes:
  "admission_request meth path body get_all rid = Inl (AdmissionRejected e) \<Longrightarrow>
     ae_code e \<in> {''request_body_too_large'', ''authentication_required'', ''authentication_failed''}
     \<and> ae_request_id e = rid"
  using reject_header_code[OF sym, of e rid]
  by (auto simp: admission_request_def rbind_Inl_iff map_err_Inl_iff ok_or_def rejected_too_large_def
      rejected_authentication_def api_error_new_def split: option.splits)

lemma admit_held:
  assumes "store_replay_inv C db" "store_clock_ok now" "store_held C db n t" "now < t + REPLAY_RETENTION_SECONDS"
  shows "store_replay_inv C (fst (admit_with_state C sha hmac secret meth path body get_all rid now db))
       \<and> store_held C (fst (admit_with_state C sha hmac secret meth path body get_all rid now db)) n t"
  using admit_state[of C sha hmac secret meth path body get_all rid now db]
    stored.inv_check[OF assms(1,2)] stored.held_kept[OF assms] assms(1,3) by metis

lemma admit_Accepted:
  "admit_with_state C sha hmac secret meth path body get_all rid now db = (db', AdmissionAccepted b) \<longleftrightarrow>
     (\<exists>r nonce. admission_request meth path body get_all rid = Inr r \<and> b = body
        \<and> authenticate sha hmac secret r now = Inr nonce
        \<and> consume_replay_nonce C db nonce now = (db', Inr True))"
  using admission_request_Inl[of meth path body get_all rid]
  by (auto simp: admit_cases rejected_defs split: sum.splits prod.splits bool.splits)

section \<open>Properties of the component\<close>

text \<open>
  A request is admitted exactly when its body is within the limit, its meth is UTF-8, each
  of the three headers occurs exactly once, timestamp, nonce and signature authenticate it, and
  the store had not consumed the nonce; the body is handed on unchanged.
\<close>

theorem admission_accepts_iff:
  "admit_with_state C sha hmac secret meth path body get_all rid now db = (db', AdmissionAccepted b) \<longleftrightarrow>
     b = body \<and> length body \<le> 65536 \<and>
     (\<exists>m ts n sg nonce. from_utf8 meth = Some m \<and> get_all X_AV_TIMESTAMP = [ts] \<and> get_all X_AV_NONCE = [n]
        \<and> get_all X_AV_SIGNATURE = [sg]
        \<and> authenticate sha hmac secret
            \<lparr>req_method = m, req_path_and_query = path, req_timestamp_header = ts,
             req_nonce_header = n, req_signature_header = sg, req_body = body\<rparr> now = Inr nonce
        \<and> consume_replay_nonce C db nonce now = (db', Inr True))"
  unfolding admit_Accepted
  by (auto simp: admission_request_Inr MAX_HTTP_REQUEST_BODY_BYTES_def)

text \<open>
  A rejected request leaves the database as it was, except that a detected replay may drop
  expired nonces; the error code is one of five fixed codes and carries the request id.
\<close>

theorem rejection_changes_nothing:
  assumes "admit_with_state C sha hmac secret meth path body get_all rid now db = (db', AdmissionRejected e)"
  shows "db'\<lparr>replay_nonces := []\<rparr> = db\<lparr>replay_nonces := []\<rparr>
    \<and> set (replay_nonces db') \<subseteq> set (replay_nonces db)
    \<and> (ae_code e \<noteq> ''authentication_replay'' \<longrightarrow> db' = db)
    \<and> ae_code e \<in> {''request_body_too_large'', ''authentication_required'', ''authentication_failed'',
                   ''authentication_replay'', ''middleware_unavailable''}
    \<and> ae_request_id e = rid"
  using admit_Rejected[OF assms]
proof (elim disjE conjE exE)
  assume "db' = db" "admission_request meth path body get_all rid = Inl (AdmissionRejected e)"
  then show ?thesis using early_rejection_codes by fastforce
next
  assume "db' = db" "AdmissionRejected e \<in> {rejected_authentication rid, rejected_unavailable rid}"
  then show ?thesis by (auto simp: rejected_defs)
next
  fix n
  assume c: "consume_replay_nonce C db n now = (db', Inr False)" and "AdmissionRejected e = rejected_replay rid"
  then show ?thesis using consume_state(1,3)[OF c] by (simp add: rejected_defs)
qed

theorem rejection_changes_nothing_witness:
  "admit_with_state demo_codec (\<lambda>b. b) demo_hmac [1] [71] (lit ''/'') [] (\<lambda>_. []) (lit ''r1'') 0 empty_db
     = (empty_db, rejected_required (lit ''r1''))
   \<and> ae_code (api_error_new ''authentication_required'' ''authentication required'' (lit ''r1''))
       \<noteq> ''authentication_replay''"
proof -
  have "from_utf8 [71] = Some [71]" by (simp add: from_utf8_def utf8_decode.simps(2))
  then have a: "admit_with_state demo_codec (\<lambda>b. b) demo_hmac [1] [71] (lit ''/'') [] (\<lambda>_. []) (lit ''r1'') 0 empty_db
      = (empty_db, AdmissionRejected (api_error_new ''authentication_required'' ''authentication required'' (lit ''r1'')))"
    by (simp add: admit_cases admission_request_def buffer_body_def required_header_def reject_header_def
        rejected_required_def)
  from rejection_changes_nothing[OF a] show ?thesis using a
    by (simp add: rejected_required_def api_error_new_def)
qed

fun admit_run ::
    "codec \<Rightarrow> (u8 list \<Rightarrow> u8 list) \<Rightarrow> (u8 list \<Rightarrow> u8 list \<Rightarrow> u8 list) \<Rightarrow> u8 list
      \<Rightarrow> (u8 list \<times> str \<times> u8 list \<times> (str \<Rightarrow> u8 list list) \<times> str \<times> int) list \<Rightarrow> db \<Rightarrow> db" where
  "admit_run C sha hmac secret [] db = db"
| "admit_run C sha hmac secret ((meth, path, body, get_all, rid, now) # calls) db =
     admit_run C sha hmac secret calls
       (fst (admit_with_state C sha hmac secret meth path body get_all rid now db))"

definition call_time :: "u8 list \<times> str \<times> u8 list \<times> (str \<Rightarrow> u8 list list) \<times> str \<times> int \<Rightarrow> int" where
  "call_time c = (case c of (_, _, _, _, _, now) \<Rightarrow> now)"

lemma admit_run_held:
  assumes "store_replay_inv C db" "store_held C db n t"
    and "\<And>c. c \<in> set calls \<Longrightarrow> store_clock_ok (call_time c) \<and> call_time c < t + REPLAY_RETENTION_SECONDS"
  shows "store_replay_inv C (admit_run C sha hmac secret calls db)
       \<and> store_held C (admit_run C sha hmac secret calls db) n t"
  using assms
proof (induction calls arbitrary: db)
  case Nil
  then show ?case by simp
next
  case (Cons c calls)
  obtain meth path body get_all rid now where c: "c = (meth, path, body, get_all, rid, now)"
    by (cases c) auto
  have "store_clock_ok now" "now < t + REPLAY_RETENTION_SECONDS"
    using Cons.prems(3)[of c] c by (auto simp: call_time_def)
  note step = admit_held[OF Cons.prems(1) this(1) Cons.prems(2) this(2), of sha hmac secret meth path body get_all rid]
  show ?case using Cons.IH[of "fst (admit_with_state C sha hmac secret meth path body get_all rid now db)"]
      step Cons.prems(3) c by auto
qed

text \<open>
  C1. No admitted request can be replayed: after an admission, a request that carries the same
  timestamp and nonce headers is not admitted, whatever meth, path, body or signature it has
  and whatever requests arrive in between, while the clock of every call stays at or below the
  time of that second attempt.
\<close>

theorem admission_stops_replays:
  assumes "store_replay_inv C db"
    and first: "admit_with_state C sha hmac secret m1 p1 b1 h1 rid1 t1 db = (db1, AdmissionAccepted a1)"
    and second: "admit_with_state C sha hmac secret m2 p2 b2 h2 rid2 t2
                   (admit_run C sha hmac secret calls db1) = (db2, res)"
    and same: "h2 X_AV_TIMESTAMP = h1 X_AV_TIMESTAMP" "h2 X_AV_NONCE = h1 X_AV_NONCE"
    and clock: "store_clock_ok t1" "store_clock_ok t2"
      "\<And>c. c \<in> set calls \<Longrightarrow> store_clock_ok (call_time c) \<and> call_time c \<le> t2"
  shows "res \<noteq> AdmissionAccepted a2"
proof
  assume "res = AdmissionAccepted a2"
  then obtain r2 n2 where r2: "admission_request m2 p2 b2 h2 rid2 = Inr r2"
    "authenticate sha hmac secret r2 t2 = Inr n2"
    "consume_replay_nonce C (admit_run C sha hmac secret calls db1) n2 t2 = (db2, Inr True)"
    using second by (auto simp: admit_Accepted)
  obtain r1 n1 where r1: "admission_request m1 p1 b1 h1 rid1 = Inr r1"
    "authenticate sha hmac secret r1 t1 = Inr n1" "consume_replay_nonce C db n1 t1 = (db1, Inr True)"
    using first by (auto simp: admit_Accepted)
  have heads: "req_timestamp_header r2 = req_timestamp_header r1" "req_nonce_header r2 = req_nonce_header r1"
    using r1(1) r2(1) same by (auto simp: admission_request_Inr)
  have win: "n2 = n1" "t2 < t1 + REPLAY_RETENTION_SECONDS"
    using accepted_window[OF r1(2) r2(2) heads] by auto
  have c1: "store_check_and_record C db n1 t1 = (db1, True)" using r1(3) by (simp add: store_check_eq)
  have "store_replay_inv C db1" "store_held C db1 n1 t1"
    using stored.inv_check[OF assms(1) clock(1), of n1] c1
      stored.accept_held[OF assms(1) clock(1) authenticate_InrD(3)[OF r1(2)] c1] by simp_all
  then have "store_replay_inv C (admit_run C sha hmac secret calls db1)
      \<and> store_held C (admit_run C sha hmac secret calls db1) n1 t1"
    by (rule admit_run_held) (use clock(3) win(2) in force)
  then have "\<not> snd (store_check_and_record C (admit_run C sha hmac secret calls db1) n1 t2)"
    using stored.held_rejects clock(2) win(2) by blast
  then show False using r2(3) win(1) by (simp add: store_check_eq)
qed

definition demo_headers :: "str \<Rightarrow> u8 list list" where
  "demo_headers name =
     (if name = X_AV_TIMESTAMP then [str_bytes (lit ''100'')]
      else if name = X_AV_NONCE then [str_bytes (lit ''nonce_0123456789'')]
      else if name = X_AV_SIGNATURE then [str_bytes (lower_hex (demo_hmac [1] (str_bytes
        (canonical_request (\<lambda>b. b) (lit ''G'') (lit ''/'') 100 (lit ''nonce_0123456789'') [7]))))]
      else [])"

definition demo_signed :: signed_request where
  "demo_signed = \<lparr>req_method = lit ''G'', req_path_and_query = lit ''/'',
     req_timestamp_header = str_bytes (lit ''100''), req_nonce_header = str_bytes (lit ''nonce_0123456789''),
     req_signature_header = str_bytes (lower_hex (demo_hmac [1] (str_bytes
        (canonical_request (\<lambda>b. b) (lit ''G'') (lit ''/'') 100 (lit ''nonce_0123456789'') [7])))), req_body = [7]\<rparr>"

lemma demo_signed_authenticated:
  "authenticate (\<lambda>b. b) demo_hmac [1] demo_signed 130 = Inr (lit ''nonce_0123456789'')"
  by code_simp

lemma demo_signed_request: "admission_request [71] (lit ''/'') [7] demo_headers rid = Inr demo_signed"
proof -
  have m: "from_utf8 [71] = Some (lit ''G'')" by (simp add: from_utf8_def utf8_decode.simps(2))
  have "X_AV_NONCE \<noteq> X_AV_TIMESTAMP" "X_AV_SIGNATURE \<noteq> X_AV_TIMESTAMP" "X_AV_SIGNATURE \<noteq> X_AV_NONCE"
    by (simp_all add: X_AV_NONCE_def X_AV_TIMESTAMP_def X_AV_SIGNATURE_def)
  then show ?thesis unfolding admission_request_Inr
    using m by (simp add: demo_headers_def demo_signed_def MAX_HTTP_REQUEST_BODY_BYTES_def del: lit_simps)
qed

lemma demo_admission:
  "snd (admit_with_state demo_codec (\<lambda>b. b) demo_hmac [1] [71] (lit ''/'') [7] demo_headers (lit ''r'') 130 empty_db)
     = AdmissionAccepted [7]"
proof -
  have "store_clock_ok 130" by (simp add: store_clock_ok_def rfc_range_def rfc_min_secs_def odt_max_secs_def
        REPLAY_RETENTION_SECONDS_def)
  moreover have "validate_nonce (lit ''nonce_0123456789'') = Inr ()"
    by (simp add: validate_nonce_iff nonce_byte_def char_class_defs)
  ultimately have "snd (consume_replay_nonce demo_codec empty_db (lit ''nonce_0123456789'') 130) = Inr True"
    by (simp add: consume_replay_nonce_eq[OF demo_codec_ok] live_rows_def empty_db_def del: lit_simps)
  then show ?thesis
    by (cases "consume_replay_nonce demo_codec empty_db (lit ''nonce_0123456789'') 130")
      (simp add: admit_cases demo_signed_request demo_signed_authenticated del: lit_simps)
qed

theorem admission_stops_replays_witness:
  "snd (admit_with_state demo_codec (\<lambda>b. b) demo_hmac [1] [71] (lit ''/'') [7] demo_headers (lit ''s'') 140
     (admit_run demo_codec (\<lambda>b. b) demo_hmac [1] [([71], lit ''/x'', [], \<lambda>_. [], lit ''q'', 135)]
       (fst (admit_with_state demo_codec (\<lambda>b. b) demo_hmac [1] [71] (lit ''/'') [7] demo_headers (lit ''r'') 130
          empty_db)))) \<noteq> AdmissionAccepted [7]"
proof -
  let ?admit = "admit_with_state demo_codec (\<lambda>b. b) demo_hmac [1] [71] (lit ''/'') [7] demo_headers"
  let ?calls = "[([71], lit ''/x'', [], \<lambda>_. [], lit ''q'', 135)]"
  have first: "?admit (lit ''r'') 130 empty_db = (fst (?admit (lit ''r'') 130 empty_db), AdmissionAccepted [7])"
    using demo_admission by (intro prod_eqI) simp_all
  let ?db = "admit_run demo_codec (\<lambda>b. b) demo_hmac [1] ?calls (fst (?admit (lit ''r'') 130 empty_db))"
  have second: "?admit (lit ''s'') 140 ?db = (fst (?admit (lit ''s'') 140 ?db), snd (?admit (lit ''s'') 140 ?db))"
    by simp
  have "store_replay_inv demo_codec empty_db" using demo_codec_ok by (simp add: store_replay_inv_def empty_db_def)
  then show ?thesis
    by (rule admission_stops_replays[OF _ first second])
      (auto simp: store_clock_ok_def rfc_range_def rfc_min_secs_def odt_max_secs_def
        REPLAY_RETENTION_SECONDS_def call_time_def)
qed

text \<open>
  The body reader returns exactly the concatenation of a stream whose chunks are all valid
  and fit the limit together, and otherwise fails; it fails with \<open>TooLarge\<close> exactly when some
  chunk passes the limit before an invalid one, having buffered at most the limit.
\<close>

theorem bounded_body_reader:
  "(read_bounded_body stream = Inr b \<longleftrightarrow>
      None \<notin> set stream \<and> b = concat (map the stream) \<and> length b \<le> 65536)
   \<and> (read_bounded_body stream = Inl TooLarge \<longleftrightarrow>
      (\<exists>pre c post. stream = map Some pre @ Some c # post
         \<and> length (concat pre) \<le> 65536 \<and> 65536 < length (concat pre @ c)))"
  using read_body_loop_Inr[of "[]" stream b] read_body_loop_TooLarge[of "[]" stream]
  by (auto simp: read_bounded_body_def MAX_HTTP_REQUEST_BODY_BYTES_def)

end
