(* ===== verification/Store_Contracts.thy ===== *)
theory Store_Contracts
  imports Store_Schema
begin

text \<open>
  The two contracts that the operations of the store share, as locales. \<open>idempotent_create\<close>: an
  exact retry of a creation returns the original record and changes nothing. \<open>cas_machine\<close>: a
  compare-and-set transition moves one entity along an allowed edge and leaves the others alone.
  The component theories interpret them on the code's operations.
\<close>

section \<open>The contract of idempotent creation\<close>

fun create_run :: "('arg \<Rightarrow> str \<Rightarrow> 'db \<Rightarrow> 'db \<times> 'r store_result) \<Rightarrow> ('arg \<times> str) list \<Rightarrow> 'db \<Rightarrow> 'db" where
  "create_run create [] db = db"
| "create_run create ((a, clk) # calls) db = create_run create calls (fst (create a clk db))"

locale idempotent_create =
  fixes create :: "'arg \<Rightarrow> str \<Rightarrow> 'db \<Rightarrow> 'db \<times> 'r store_result"
    and stored :: "'arg \<Rightarrow> 'r \<Rightarrow> 'db \<Rightarrow> bool"
    and inv :: "'db \<Rightarrow> bool"
  assumes create_ok: "inv db \<Longrightarrow> create a clk db = (db', Inr r) \<Longrightarrow> inv db' \<and> stored a r db'"
    and create_keeps: "inv db \<Longrightarrow> stored a r db \<Longrightarrow> create b clk db = (db', Inr r') \<Longrightarrow> stored a r db'"
    and create_retry: "inv db \<Longrightarrow> stored a r db \<Longrightarrow> create a clk db = (db, Inr r)"
    and create_error: "create a clk db = (db', Inl e) \<Longrightarrow> db' = db"
begin

lemma create_step:
  assumes "inv db" "stored a r db"
  shows "inv (fst (create b clk db)) \<and> stored a r (fst (create b clk db))"
proof (cases "create b clk db")
  case (Pair db' res)
  show ?thesis
  proof (cases res)
    case (Inl e)
    then show ?thesis using create_error[of b clk db db' e] Pair assms by simp
  next
    case (Inr r')
    then show ?thesis using create_ok[of db b clk db' r'] create_keeps[of db a r b clk db' r'] Pair assms by simp
  qed
qed

lemma run_keeps:
  "inv db \<Longrightarrow> stored a r db \<Longrightarrow> inv (create_run create calls db) \<and> stored a r (create_run create calls db)"
proof (induction calls arbitrary: db)
  case Nil
  then show ?case by simp
next
  case (Cons c calls)
  then show ?case using create_step by (cases c) simp
qed

text \<open>A retry after any other creations returns the first result and leaves the state alone.\<close>

lemma retry_after_run:
  assumes "inv db" "create a clk db = (db', Inr r)"
  shows "create a clk' (create_run create calls db') = (create_run create calls db', Inr r)"
  using create_ok[OF assms] run_keeps create_retry by blast

lemma run_inv: "inv db \<Longrightarrow> inv (create_run create calls db)"
proof (induction calls arbitrary: db)
  case Nil
  then show ?case by simp
next
  case (Cons c calls)
  obtain a clk where c: "c = (a, clk)" by (cases c)
  have "inv (fst (create a clk db))"
    using create_ok[of db a clk] create_error[of a clk db] Cons.prems
    by (cases "create a clk db"; cases "snd (create a clk db)") auto
  then show ?case using Cons.IH c by simp
qed

end

section \<open>The contract of compare-and-set transitions\<close>

fun transition_run ::
    "('k \<Rightarrow> 's \<Rightarrow> 's \<Rightarrow> 't \<Rightarrow> 'db \<Rightarrow> 'db \<times> 'r store_result) \<Rightarrow> ('k \<times> 's \<times> 's \<times> 't) list \<Rightarrow> 'db \<Rightarrow> 'db" where
  "transition_run cas [] db = db"
| "transition_run cas ((k, e, n, t) # calls) db = transition_run cas calls (fst (cas k e n t db))"

text \<open>
  A state machine: an operation \<open>move\<close> brings the entity \<open>target a\<close> to the state \<open>dest a\<close> along an
  allowed edge, or finds it there already.
\<close>

fun move_run :: "('a \<Rightarrow> 'db \<Rightarrow> 'db \<times> 'r store_result) \<Rightarrow> 'a list \<Rightarrow> 'db \<Rightarrow> 'db" where
  "move_run move [] db = db"
| "move_run move (a # calls) db = move_run move calls (fst (move a db))"

locale state_machine =
  fixes move :: "'a \<Rightarrow> 'db \<Rightarrow> 'db \<times> 'r store_result"
    and target :: "'a \<Rightarrow> 'k"
    and dest :: "'a \<Rightarrow> 's"
    and state_of :: "'db \<Rightarrow> 'k \<Rightarrow> 's option"
    and allowed :: "'s \<Rightarrow> 's \<Rightarrow> bool"
    and inv :: "'db \<Rightarrow> bool"
  assumes move_ok: "inv db \<Longrightarrow> move a db = (db', Inr r) \<Longrightarrow>
        inv db' \<and> (db' = db \<and> state_of db (target a) = Some (dest a) \<or>
          (\<exists>e. allowed e (dest a) \<and> state_of db (target a) = Some e \<and> state_of db' (target a) = Some (dest a)))"
    and move_others: "inv db \<Longrightarrow> move a db = (db', Inr r) \<Longrightarrow> j \<noteq> target a \<Longrightarrow> state_of db' j = state_of db j"
    and move_error: "move a db = (db', Inl err) \<Longrightarrow> db' = db"
begin

lemma move_step:
  assumes "inv db"
  shows "inv (fst (move a db)) \<and>
    (state_of (fst (move a db)) j = state_of db j \<or>
     (\<exists>s s'. state_of db j = Some s \<and> allowed s s' \<and> state_of (fst (move a db)) j = Some s'))"
proof (cases "move a db")
  case (Pair db' res)
  show ?thesis
  proof (cases res)
    case (Inl err)
    then show ?thesis using move_error[of a db db' err] Pair assms by simp
  next
    case (Inr r)
    then have c: "move a db = (db', Inr r)" using Pair by simp
    show ?thesis using move_ok[OF assms c] move_others[OF assms c, of j] Pair by (cases "j = target a") auto
  qed
qed

text \<open>Along any run an entity only moves along allowed edges, and never disappears.\<close>

lemma moves_path:
  assumes "inv db"
  shows "inv (move_run move calls db) \<and>
    (case state_of db j of None \<Rightarrow> state_of (move_run move calls db) j = None
     | Some s \<Rightarrow> \<exists>s'. state_of (move_run move calls db) j = Some s' \<and> allowed\<^sup>*\<^sup>* s s')"
  using assms
proof (induction calls arbitrary: db)
  case Nil
  then show ?case by (auto split: option.splits)
next
  case (Cons a calls)
  note step = move_step[OF Cons.prems, of a j]
  note rest = Cons.IH[of "fst (move a db)"]
  show ?case
  proof (cases "state_of db j")
    case None
    then show ?thesis using step rest by auto
  next
    case (Some s)
    then obtain s1 where s1: "state_of (fst (move a db)) j = Some s1" "s1 = s \<or> allowed s s1"
      using step by auto
    then obtain s2 where s2: "state_of (move_run move calls (fst (move a db))) j = Some s2"
      "allowed\<^sup>*\<^sup>* s1 s2"
      using rest step by auto
    have "allowed\<^sup>*\<^sup>* s s2"
      using s1(2) s2(2) by (auto intro: converse_rtranclp_into_rtranclp)
    then show ?thesis using Some s2(1) rest step by auto
  qed
qed

text \<open>A state without outgoing edges is kept for ever.\<close>

lemma moves_terminal:
  assumes "inv db" "state_of db j = Some s" "\<And>s'. \<not> allowed s s'"
  shows "state_of (move_run move calls db) j = Some s"
proof -
  obtain s' where s': "state_of (move_run move calls db) j = Some s'" "allowed\<^sup>*\<^sup>* s s'"
    using moves_path[OF assms(1), of calls j] assms(2) by auto
  from s'(2) have "s' = s" using assms(3) by (cases rule: converse_rtranclpE) auto
  then show ?thesis using s'(1) by simp
qed

end

locale cas_machine =
  fixes cas :: "'k \<Rightarrow> 's \<Rightarrow> 's \<Rightarrow> 't \<Rightarrow> 'db \<Rightarrow> 'db \<times> 'r store_result"
    and state_of :: "'db \<Rightarrow> 'k \<Rightarrow> 's option"
    and allowed :: "'s \<Rightarrow> 's \<Rightarrow> bool"
    and inv :: "'db \<Rightarrow> bool"
  assumes cas_ok: "inv db \<Longrightarrow> cas k e n t db = (db', Inr r) \<Longrightarrow>
        inv db' \<and> (db' = db \<and> state_of db k = Some n \<or>
                    allowed e n \<and> state_of db k = Some e \<and> state_of db' k = Some n)"
    and cas_others: "inv db \<Longrightarrow> cas k e n t db = (db', Inr r) \<Longrightarrow> j \<noteq> k \<Longrightarrow> state_of db' j = state_of db j"
    and cas_error: "cas k e n t db = (db', Inl err) \<Longrightarrow> db' = db"

text \<open>A compare-and-set operation is a state machine over its calls.\<close>

definition cas_call :: "('k \<Rightarrow> 's \<Rightarrow> 's \<Rightarrow> 't \<Rightarrow> 'db \<Rightarrow> 'db \<times> 'r store_result) \<Rightarrow> 'k \<times> 's \<times> 's \<times> 't \<Rightarrow> 'db \<Rightarrow> 'db \<times> 'r store_result" where
  "cas_call cas c db = (case c of (k, e, n, t) \<Rightarrow> cas k e n t db)"

lemma transition_run_moves: "transition_run cas calls db = move_run (cas_call cas) calls db"
  by (induction cas calls db rule: transition_run.induct) (simp_all add: cas_call_def)

sublocale cas_machine \<subseteq> moves: state_machine "cas_call cas" fst "\<lambda>c. fst (snd (snd c))" state_of allowed inv
proof
  fix db db' r j err and a :: "'k \<times> 's \<times> 's \<times> 't"
  obtain k e n t where a: "a = (k, e, n, t)" by (cases a) auto
  show "inv db \<Longrightarrow> cas_call cas a db = (db', Inr r) \<Longrightarrow>
      inv db' \<and> (db' = db \<and> state_of db (fst a) = Some (fst (snd (snd a))) \<or>
        (\<exists>e. allowed e (fst (snd (snd a))) \<and> state_of db (fst a) = Some e \<and> state_of db' (fst a) = Some (fst (snd (snd a)))))"
    using cas_ok[of db k e n t db' r] by (auto simp: a cas_call_def)
  show "inv db \<Longrightarrow> cas_call cas a db = (db', Inr r) \<Longrightarrow> j \<noteq> fst a \<Longrightarrow> state_of db' j = state_of db j"
    using cas_others[of db k e n t db' r j] by (auto simp: a cas_call_def)
  show "cas_call cas a db = (db', Inl err) \<Longrightarrow> db' = db"
    using cas_error[of k e n t db db' err] by (auto simp: a cas_call_def)
qed

context cas_machine
begin

lemma run_path:
  "inv db \<Longrightarrow> inv (transition_run cas calls db) \<and>
    (case state_of db j of None \<Rightarrow> state_of (transition_run cas calls db) j = None
     | Some s \<Rightarrow> \<exists>s'. state_of (transition_run cas calls db) j = Some s' \<and> allowed\<^sup>*\<^sup>* s s')"
  unfolding transition_run_moves by (rule moves.moves_path)

lemma run_terminal:
  "inv db \<Longrightarrow> state_of db j = Some s \<Longrightarrow> (\<And>s'. \<not> allowed s s') \<Longrightarrow>
    state_of (transition_run cas calls db) j = Some s"
  unfolding transition_run_moves by (rule moves.moves_terminal)

text \<open>Of two workers that expect the same state, at most one moves the entity.\<close>

lemma single_winner:
  assumes "inv db" "cas k e n t db = (db1, Inr r1)" "cas k e m u db1 = (db2, Inr r2)" "\<not> allowed n m"
    and "\<not> allowed e e" "state_of db k = Some e"
  shows "m = n \<and> db2 = db1"
  using cas_ok[OF assms(1,2)] cas_ok[OF _ assms(3)] assms(4-6) by auto

end

section \<open>Insert or retry\<close>

text \<open>
  The loop over the rows that made an \<open>INSERT ... ON CONFLICT DO NOTHING\<close> insert nothing: all of
  them have to be the same record as the request. \<open>dup\<close> is the error for a second exact match, if
  the code looks for one.
\<close>

fun retry_loop ::
    "('r \<Rightarrow> ('e, 'x) result) \<Rightarrow> ('x \<Rightarrow> bool) \<Rightarrow> 'e option \<Rightarrow> 'e \<Rightarrow> 'r list \<Rightarrow> 'x option \<Rightarrow> ('e, 'x option) result" where
  "retry_loop dec exact dup conflict [] found = Inr found"
| "retry_loop dec exact dup conflict (c # cs) found =
     rbind (dec c) (\<lambda>stored.
       if exact stored
       then (case dup of
               Some e \<Rightarrow> if found \<noteq> None then Inl e else retry_loop dec exact dup conflict cs (Some stored)
             | None \<Rightarrow> retry_loop dec exact dup conflict cs (Some stored))
       else Inl conflict)"

lemma retry_loop_Some:
  "retry_loop dec exact dup conflict cs found = Inr (Some x) \<Longrightarrow>
     found = Some x \<or> (\<exists>c \<in> set cs. dec c = Inr x \<and> exact x)"
  by (induction dec exact dup conflict cs found rule: retry_loop.induct)
    (auto simp: rbind_Inr_iff split: if_splits option.splits)

text \<open>
  The shape of an insert-or-retry operation: under the precondition \<open>pre\<close> it appends the new row
  when no row has an identity of the request (\<open>same\<close>), and otherwise accepts only an exact retry.
  Every such operation is an idempotent creation.
\<close>

locale insert_or_retry =
  fixes create :: "'arg \<Rightarrow> str \<Rightarrow> 'db \<Rightarrow> 'db \<times> 'x store_result"
    and pre :: "'arg \<Rightarrow> 'db \<Rightarrow> bool"
    and same :: "'arg \<Rightarrow> 'r \<Rightarrow> bool"
    and new :: "'arg \<Rightarrow> str \<Rightarrow> 'db \<Rightarrow> 'r"
    and dec :: "'db \<Rightarrow> 'r \<Rightarrow> 'x store_result"
    and exact :: "'arg \<Rightarrow> 'x \<Rightarrow> bool"
    and dup :: "store_error option"
    and conflict :: store_error
    and rows :: "'db \<Rightarrow> 'r list"
    and add :: "'db \<Rightarrow> 'r \<Rightarrow> 'db"
    and inv :: "'db \<Rightarrow> bool"
  assumes create_Inr: "inv db \<Longrightarrow> create a clk db = (db', Inr x) \<longleftrightarrow> pre a db \<and>
      (if filter (same a) (rows db) = []
       then dec db (new a clk db) = Inr x \<and> db' = add db (new a clk db)
       else db' = db \<and> retry_loop (dec db) (exact a) dup conflict (filter (same a) (rows db)) None = Inr (Some x))"
    and create_Inl: "create a clk db = (db', Inl e) \<Longrightarrow> db' = db"
    and new_ok: "inv db \<Longrightarrow> pre a db \<Longrightarrow> filter (same a) (rows db) = [] \<Longrightarrow> dec db (new a clk db) = Inr x \<Longrightarrow>
      inv (add db (new a clk db)) \<and> exact a x"
    and exact_same: "inv db \<Longrightarrow> dec db r = Inr x \<Longrightarrow> exact a x \<Longrightarrow> same a r"
    and same_unique: "inv db \<Longrightarrow> r \<in> set (rows db) \<Longrightarrow> dec db r = Inr x \<Longrightarrow> exact a x \<Longrightarrow>
      r' \<in> set (rows db) \<Longrightarrow> same a r' \<Longrightarrow> r' = r"
    and distinct_rows: "inv db \<Longrightarrow> distinct (rows db)"
    and rows_add: "rows (add db r) = rows db @ [r]"
    and dec_add: "dec (add db r) r' = dec db r'"
    and pre_add: "pre a (add db r) = pre a db"
begin

definition stored :: "'arg \<Rightarrow> 'x \<Rightarrow> 'db \<Rightarrow> bool" where
  "stored a x db \<longleftrightarrow> pre a db \<and> exact a x \<and> (\<exists>r \<in> set (rows db). dec db r = Inr x)"

lemma created:
  assumes "inv db" "create a clk db = (db', Inr x)"
  shows "inv db' \<and> stored a x db'"
proof (cases "filter (same a) (rows db) = []")
  case True
  then have *: "pre a db" "dec db (new a clk db) = Inr x" "db' = add db (new a clk db)"
    using create_Inr[OF assms(1)] assms(2) by auto
  show ?thesis
    using new_ok[OF assms(1) *(1) True *(2)] * by (simp add: stored_def rows_add dec_add pre_add)
next
  case False
  then have "pre a db" "db' = db" "retry_loop (dec db) (exact a) dup conflict (filter (same a) (rows db)) None = Inr (Some x)"
    using create_Inr[OF assms(1)] assms(2) by auto
  then show ?thesis using retry_loop_Some[of "dec db"] assms(1) by (fastforce simp: stored_def)
qed

lemma only_candidate:
  assumes "inv db" "r \<in> set (rows db)" "dec db r = Inr x" "exact a x"
  shows "filter (same a) (rows db) = [r]"
  by (rule filter_singleton[OF distinct_rows[OF assms(1)] assms(2)])
    (use exact_same[OF assms(1,3,4)] same_unique[OF assms(1-4)] in auto)

lemma retried:
  assumes "inv db" "stored a x db"
  shows "create a clk db = (db, Inr x)"
proof -
  obtain r where r: "r \<in> set (rows db)" "dec db r = Inr x" "pre a db" "exact a x"
    using assms(2) by (auto simp: stored_def)
  then show ?thesis using only_candidate[OF assms(1) r(1,2,4)] create_Inr[OF assms(1)]
    by (simp split: option.splits)
qed

lemma appended:
  assumes "inv db" "create a clk db = (db', Inr x)"
  shows "db' = db \<or> (\<exists>r. db' = add db r)"
  using assms create_Inr[OF assms(1)] by (auto split: if_splits)

end

sublocale insert_or_retry \<subseteq> idempotent_create create stored inv
proof
  fix db a clk db' r b r' e
  show "inv db \<Longrightarrow> create a clk db = (db', Inr r) \<Longrightarrow> inv db' \<and> stored a r db'" by (rule created)
  show "inv db \<Longrightarrow> stored a r db \<Longrightarrow> create b clk db = (db', Inr r') \<Longrightarrow> stored a r db'"
    using appended[of db b clk db' r'] by (auto simp: stored_def rows_add dec_add pre_add)
  show "inv db \<Longrightarrow> stored a r db \<Longrightarrow> create a clk db = (db, Inr r)" by (rule retried)
  show "create a clk db = (db', Inl e) \<Longrightarrow> db' = db" by (rule create_Inl)
qed

end
