(* ===== verification/Store_Audit.thy ===== *)
theory Store_Audit
  imports Store_Contracts
begin

text \<open>
  The append-only audit log of \<open>src/pa/store.rs\<close>: \<open>append_audit_event\<close>, the load by idempotency
  key and the cursor-paged listing, with the strict decoder of a stored row. The
  append is an instance of \<open>idempotent_create\<close>. The argument \<open>clk\<close> of an operation is the text
  SQLite's \<open>strftime(..., 'now')\<close> yields while it runs.
\<close>

section \<open>Records and the strict decoder\<close>

record stored_audit_event =
  sa_id :: int
  sa_idempotency_key :: str
  sa_event_type :: audit_event_type
  sa_entity_type :: audit_entity_type
  sa_entity_id :: str
  sa_occurred_at :: odt
  sa_created_at :: str

definition audit_invalid :: store_error where
  "audit_invalid = stored_record_invalid ''audit event''"

definition decode_audit_event_row :: "codec \<Rightarrow> audit_row \<Rightarrow> stored_audit_event store_result" where
  "decode_audit_event_row C row =
     rbind (ensure (\<not> (au_id row \<le> 0 \<or> au_details row \<noteq> None)) audit_invalid) (\<lambda>_.
     rbind (map_err (\<lambda>_. audit_invalid) (validate_audit_idempotency_key (au_idempotency_key row))) (\<lambda>key.
     rbind (map_err (\<lambda>_. audit_invalid) (audit_event_from_storage (au_event_type row))) (\<lambda>event_type.
     rbind (map_err (\<lambda>_. audit_invalid) (audit_entity_from_storage (au_entity_type row))) (\<lambda>entity_type.
     rbind (map_err (\<lambda>_. audit_invalid) (validate_audit_entity_id (au_entity_id row))) (\<lambda>entity_id.
     rbind (parse_audit_timestamp C (au_occurred_at row) ''audit event'') (\<lambda>occurred_at.
     rbind (parse_audit_timestamp C (au_created_at row) ''audit event'') (\<lambda>created.
     rbind (ok_or audit_invalid (rfc_format C created)) (\<lambda>created_at.
       Inr \<lparr>sa_id = au_id row, sa_idempotency_key = key, sa_event_type = event_type,
            sa_entity_type = entity_type, sa_entity_id = entity_id, sa_occurred_at = occurred_at,
            sa_created_at = created_at\<rparr>))))))))"

lemma decode_audit_event_row_Inr:
  assumes C: "codec_ok C"
  shows "decode_audit_event_row C row = Inr e \<longleftrightarrow>
    1 \<le> au_id row \<and> au_details row = None \<and> machine_id 256 (au_idempotency_key row)
    \<and> machine_id 256 (au_entity_id row)
    \<and> au_event_type row = audit_event_as_str (sa_event_type e)
    \<and> au_entity_type row = audit_entity_as_str (sa_entity_type e)
    \<and> sa_id e = au_id row \<and> sa_idempotency_key e = au_idempotency_key row
    \<and> sa_entity_id e = au_entity_id row \<and> sa_created_at e = au_created_at row
    \<and> (\<exists>t. rfc_time C (au_occurred_at row) t \<and> sa_occurred_at e = utc_secs t)
    \<and> (\<exists>t. rfc_time C (au_created_at row) t)" (is "?l \<longleftrightarrow> ?r")
proof
  show "?l \<Longrightarrow> ?r"
    using C by (auto simp: decode_audit_event_row_def rbind_Inr_iff validator_eqs store_limits
        stored_enum_iffs parse_audit_timestamp_Inr rfc_time_format split: if_splits)
  assume r: ?r
  then obtain t u where "rfc_time C (au_occurred_at row) t" "sa_occurred_at e = utc_secs t"
    "rfc_time C (au_created_at row) u" by blast
  moreover from this have "parse_audit_timestamp C (au_occurred_at row) ''audit event'' = Inr (utc_secs t)"
    "parse_audit_timestamp C (au_created_at row) ''audit event'' = Inr (utc_secs u)"
    using parse_audit_timestamp_Inr[OF C] by blast+
  ultimately show ?l using r C
    by (cases e) (simp add: decode_audit_event_row_def validator_eqs store_limits rfc_time_format)
qed

section \<open>Operations\<close>

definition find_audit_row :: "db \<Rightarrow> str \<Rightarrow> audit_row option" where
  "find_audit_row db key = find (\<lambda>r. au_idempotency_key r = key) (audit_events db)"

definition insert_audit_row :: "db \<Rightarrow> str \<Rightarrow> str \<Rightarrow> str \<Rightarrow> str \<Rightarrow> str \<Rightarrow> str \<Rightarrow> db \<times> nat" where
  "insert_audit_row db key event_type entity_type entity_id occurred_at clk =
     (if \<exists>r \<in> set (audit_events db). au_idempotency_key r = key then (db, 0)
      else (db\<lparr>audit_events := audit_events db @
              [\<lparr>au_id = next_id au_id (audit_events db), au_idempotency_key = key, au_event_type = event_type,
                au_entity_type = entity_type, au_entity_id = entity_id, au_details = None,
                au_occurred_at = occurred_at, au_created_at = clk\<rparr>]\<rparr>, 1))"

definition append_audit_event ::
    "codec \<Rightarrow> str \<Rightarrow> audit_event_type \<Rightarrow> audit_entity_type \<Rightarrow> str \<Rightarrow> odt \<Rightarrow> str \<Rightarrow> db
      \<Rightarrow> db \<times> stored_audit_event store_result" where
  "append_audit_event C key event_type entity_type entity_id occurred_at clk =
     run_tx (\<lambda>db.
       rbind (validate_audit_idempotency_key key) (\<lambda>key.
       rbind (validate_audit_entity_id entity_id) (\<lambda>entity_id.
       rbind (format_audit_timestamp C occurred_at ''occurred_at'') (\<lambda>(occurred_at, occurred_at_text).
       let (db', inserted) = insert_audit_row db key (audit_event_as_str event_type)
                               (audit_entity_as_str entity_type) entity_id occurred_at_text clk in
       rbind (ok_or audit_invalid (find_audit_row db' key)) (\<lambda>row.
       rbind (decode_audit_event_row C row) (\<lambda>stored.
         if inserted = 1 then Inr (db', stored)
         else if sa_event_type stored = event_type \<and> sa_entity_type stored = entity_type
              \<and> sa_entity_id stored = entity_id \<and> same_instant (sa_occurred_at stored) occurred_at
         then Inr (db', stored)
         else Inl (Conflict ''audit event'')))))))"

definition load_audit_event_by_idempotency_key ::
    "codec \<Rightarrow> str \<Rightarrow> db \<Rightarrow> stored_audit_event store_result" where
  "load_audit_event_by_idempotency_key C key db =
     rbind (validate_audit_idempotency_key key) (\<lambda>key.
     rbind (ok_or (NotFound ''audit event'') (find_audit_row db key)) (\<lambda>row.
       decode_audit_event_row C row))"

definition list_audit_events ::
    "codec \<Rightarrow> int option \<Rightarrow> nat \<Rightarrow> db \<Rightarrow> stored_audit_event list store_result" where
  "list_audit_events C after_id limit db =
     (if (case after_id of None \<Rightarrow> False | Some i \<Rightarrow> i \<le> 0) then Inl (InvalidInput ''cursor'')
      else if limit = 0 \<or> limit > MAX_AUDIT_LIST_LIMIT then Inl (InvalidInput ''limit'')
      else rmap (decode_audit_event_row C) (page_rows au_id after_id limit (audit_events db)))"

section \<open>The invariant of the log\<close>

definition audit_inv :: "codec \<Rightarrow> db \<Rightarrow> bool" where
  "audit_inv C db \<longleftrightarrow> codec_ok C \<and> ids_ok au_id (audit_events db)
     \<and> distinct (map au_idempotency_key (audit_events db))
     \<and> (\<forall>row \<in> set (audit_events db). \<exists>e. decode_audit_event_row C row = Inr e)"

type_synonym audit_arg = "str \<times> audit_event_type \<times> audit_entity_type \<times> str \<times> odt"

definition audit_create :: "codec \<Rightarrow> audit_arg \<Rightarrow> str \<Rightarrow> db \<Rightarrow> db \<times> stored_audit_event store_result" where
  "audit_create C a clk = (case a of (key, et, nt, eid, at) \<Rightarrow> append_audit_event C key et nt eid at clk)"

definition audit_matches :: "audit_arg \<Rightarrow> stored_audit_event \<Rightarrow> bool" where
  "audit_matches a e = (case a of (key, et, nt, eid, at) \<Rightarrow>
     machine_id 256 key \<and> machine_id 256 eid \<and> nanosecond at = 0 \<and> rfc_range (unix_timestamp at)
     \<and> sa_idempotency_key e = key \<and> sa_event_type e = et \<and> sa_entity_type e = nt \<and> sa_entity_id e = eid
     \<and> sa_occurred_at e = utc_secs (unix_timestamp at))"

definition audit_stored :: "codec \<Rightarrow> audit_arg \<Rightarrow> stored_audit_event \<Rightarrow> db \<Rightarrow> bool" where
  "audit_stored C a e db \<longleftrightarrow> audit_matches a e \<and>
     (\<exists>row \<in> set (audit_events db). decode_audit_event_row C row = Inr e)"

lemma find_audit_row_eq:
  assumes "distinct (map au_idempotency_key (audit_events db))" "row \<in> set (audit_events db)"
    "au_idempotency_key row = key"
  shows "find_audit_row db key = Some row"
  using find_unique[OF assms(1,2)] assms(3) by (simp add: find_audit_row_def)

lemma find_audit_row_Some: "find_audit_row db key = Some row \<Longrightarrow> row \<in> set (audit_events db) \<and> au_idempotency_key row = key"
  by (auto simp: find_audit_row_def dest: find_Some_mem)

lemma find_audit_row_None: "find_audit_row db key = None \<longleftrightarrow> (\<forall>r \<in> set (audit_events db). au_idempotency_key r \<noteq> key)"
  by (auto simp: find_audit_row_def find_None_iff)

lemma find_audit_row_insert:
  "find_audit_row db key = None \<Longrightarrow> au_idempotency_key row = key \<Longrightarrow>
   find_audit_row (db\<lparr>audit_events := audit_events db @ [row]\<rparr>) key = Some row"
  by (simp add: find_audit_row_def find_append)

definition new_audit_row :: "db \<Rightarrow> audit_arg \<Rightarrow> codec \<Rightarrow> str \<Rightarrow> audit_row" where
  "new_audit_row db a C clk = (case a of (key, et, nt, eid, at) \<Rightarrow>
     \<lparr>au_id = next_id au_id (audit_events db), au_idempotency_key = key,
      au_event_type = audit_event_as_str et, au_entity_type = audit_entity_as_str nt, au_entity_id = eid,
      au_details = None, au_occurred_at = rfc C (unix_timestamp at), au_created_at = clk\<rparr>)"

definition audit_valid :: "audit_arg \<Rightarrow> bool" where
  "audit_valid a = (case a of (key, et, nt, eid, at) \<Rightarrow>
     machine_id 256 key \<and> machine_id 256 eid \<and> nanosecond at = 0 \<and> rfc_range (unix_timestamp at))"

lemma append_audit_event_invalid:
  assumes "codec_ok C" "\<not> audit_valid (key, et, nt, eid, at)"
  shows "\<exists>f. append_audit_event C key et nt eid at clk db = (db, Inl (InvalidInput f))"
proof -
  have "(\<exists>d s. format_audit_timestamp C at ''occurred_at'' = Inr (d, s)) \<longleftrightarrow>
      nanosecond at = 0 \<and> rfc_range (unix_timestamp at)"
    using format_audit_timestamp_Inr[OF assms(1)] by (auto simp: rfc_time_def)
  moreover have "format_audit_timestamp C at ''occurred_at'' = Inl e \<Longrightarrow> e = InvalidInput ''occurred_at''" for e
    by (auto simp: format_audit_timestamp_def Let_def ok_or_def rbind_Inl_iff split: if_splits option.splits)
  ultimately show ?thesis using assms(2)
    by (cases "format_audit_timestamp C at ''occurred_at''")
      (auto simp: append_audit_event_def run_tx_def audit_valid_def validator_eqs store_limits)
qed

text \<open>The outcome of a well-formed append, by whether the key is taken.\<close>

lemma append_audit_event_cases:
  assumes C: "codec_ok C" and a: "a = (key, et, nt, eid, at)" "audit_valid a"
  shows "append_audit_event C key et nt eid at clk db =
    (case find_audit_row db key of
       None \<Rightarrow> (case decode_audit_event_row C (new_audit_row db a C clk) of
                  Inl e \<Rightarrow> (db, Inl e)
                | Inr e \<Rightarrow> (db\<lparr>audit_events := audit_events db @ [new_audit_row db a C clk]\<rparr>, Inr e))
     | Some row \<Rightarrow> (case decode_audit_event_row C row of
                  Inl e \<Rightarrow> (db, Inl e)
                | Inr e \<Rightarrow> (if sa_event_type e = et \<and> sa_entity_type e = nt \<and> sa_entity_id e = eid
                               \<and> same_instant (sa_occurred_at e) at
                            then (db, Inr e) else (db, Inl (Conflict ''audit event'')))))"
proof -
  have v: "validate_audit_idempotency_key key = Inr key" "validate_audit_entity_id eid = Inr eid"
    using a by (simp_all add: audit_valid_def validator_eqs store_limits)
  have f: "format_audit_timestamp C at ''occurred_at'' = Inr (utc_secs (unix_timestamp at), rfc C (unix_timestamp at))"
    using a C by (simp add: audit_valid_def format_audit_timestamp_Inr rfc_time_def)
  have same: "same_instant d (utc_secs (unix_timestamp at)) \<longleftrightarrow> same_instant d at" for d
  proof -
    have "utc_secs (unix_timestamp at) = to_utc at" using a to_utc_whole[of at] by (simp add: audit_valid_def)
    then show ?thesis by (simp only: to_utc_simps(8))
  qed
  show ?thesis
  proof (cases "find_audit_row db key")
    case None
    have free: "\<not> (\<exists>r \<in> set (audit_events db). au_idempotency_key r = key)"
      using None by (simp add: find_audit_row_None)
    have "insert_audit_row db key (audit_event_as_str et) (audit_entity_as_str nt) eid (rfc C (unix_timestamp at)) clk
        = (db\<lparr>audit_events := audit_events db @ [new_audit_row db a C clk]\<rparr>, 1)"
      using free by (simp add: insert_audit_row_def new_audit_row_def a(1))
    moreover have "find_audit_row (db\<lparr>audit_events := audit_events db @ [new_audit_row db a C clk]\<rparr>) key
        = Some (new_audit_row db a C clk)"
      by (rule find_audit_row_insert[OF None]) (simp add: new_audit_row_def a(1))
    ultimately show ?thesis using None
      by (simp add: append_audit_event_def run_tx_def v f split: sum.splits)
  next
    case (Some row)
    have "\<exists>r \<in> set (audit_events db). au_idempotency_key r = key"
      using find_audit_row_Some[OF Some] by blast
    then have "insert_audit_row db key (audit_event_as_str et) (audit_entity_as_str nt) eid (rfc C (unix_timestamp at)) clk
        = (db, 0)"
      by (simp add: insert_audit_row_def)
    then show ?thesis using Some
      by (auto simp: append_audit_event_def run_tx_def v f same split: sum.splits)
  qed
qed


lemma same_instant_whole: "same_instant (utc_secs t) d \<Longrightarrow> t = unix_timestamp d"
  by (auto simp: same_instant_def unix_timestamp_def NANOS_def)

lemma same_instant_utc: "nanosecond d = 0 \<Longrightarrow> same_instant (utc_secs (unix_timestamp d)) d"
  using to_utc_whole[of d] to_utc_simps(7)[of d d] by simp

lemma new_audit_row_decoded:
  assumes C: "codec_ok C" and a: "audit_valid a" and d: "decode_audit_event_row C (new_audit_row db a C clk) = Inr e"
  shows "audit_matches a e"
proof -
  obtain key et nt eid at where x: "a = (key, et, nt, eid, at)" by (cases a) auto
  from d obtain t where "rfc_time C (rfc C (unix_timestamp at)) t" "sa_occurred_at e = utc_secs t"
    unfolding decode_audit_event_row_Inr[OF C] by (auto simp: new_audit_row_def x)
  moreover from this have "t = unix_timestamp at"
    using rfc_time_unique[OF C] a by (auto simp: rfc_time_def audit_valid_def x codec_inject[OF C])
  ultimately show ?thesis
    using d a unfolding decode_audit_event_row_Inr[OF C]
    by (simp add: audit_matches_def audit_valid_def x new_audit_row_def stored_enum_injects)
qed

lemma audit_inv_insert:
  assumes "audit_inv C db" "find_audit_row db key = None" "au_idempotency_key row = key"
    "au_id row = next_id au_id (audit_events db)" "decode_audit_event_row C row = Inr e"
  shows "audit_inv C (db\<lparr>audit_events := audit_events db @ [row]\<rparr>)"
  using assms ids_ok_insert[of au_id "audit_events db" row]
  by (auto simp: audit_inv_def find_audit_row_None)

lemma audit_matches_retry:
  assumes "codec_ok C" "decode_audit_event_row C row = Inr e"
    "sa_event_type e = et" "sa_entity_type e = nt" "sa_entity_id e = eid" "same_instant (sa_occurred_at e) at"
    "audit_valid (key, et, nt, eid, at)" "au_idempotency_key row = key"
  shows "audit_matches (key, et, nt, eid, at) e"
  using assms unfolding decode_audit_event_row_Inr[OF assms(1)]
  by (auto simp: audit_matches_def audit_valid_def dest: same_instant_whole)

lemma audit_create_ok:
  assumes inv: "audit_inv C db" and c: "audit_create C a clk db = (db', Inr r)"
  shows "audit_inv C db' \<and> audit_stored C a r db'"
proof -
  obtain key et nt eid at where x: "a = (key, et, nt, eid, at)" by (cases a) auto
  have C: "codec_ok C" using inv by (simp add: audit_inv_def)
  have c': "append_audit_event C key et nt eid at clk db = (db', Inr r)" using c by (simp add: audit_create_def x)
  then have valid: "audit_valid a"
    using append_audit_event_invalid[OF C] unfolding x by (metis Pair_inject sum.distinct(1))
  note cases = append_audit_event_cases[OF C x valid, of clk db]
  show ?thesis
  proof (cases "find_audit_row db key")
    case None
    with c' cases have d: "decode_audit_event_row C (new_audit_row db a C clk) = Inr r"
      and db': "db' = db\<lparr>audit_events := audit_events db @ [new_audit_row db a C clk]\<rparr>"
      by (auto split: sum.splits)
    have "audit_inv C db'" unfolding db'
      by (rule audit_inv_insert[OF inv None _ _ d]) (simp_all add: new_audit_row_def x)
    then show ?thesis using new_audit_row_decoded[OF C valid d] d
      by (auto simp: audit_stored_def db')
  next
    case (Some row)
    have row: "row \<in> set (audit_events db)" "au_idempotency_key row = key"
      using find_audit_row_Some[OF Some] by auto
    from c' cases Some have d: "decode_audit_event_row C row = Inr r" and db': "db' = db"
      and eq: "sa_event_type r = et" "sa_entity_type r = nt" "sa_entity_id r = eid" "same_instant (sa_occurred_at r) at"
      by (auto split: sum.splits if_splits)
    have "audit_matches a r" unfolding x
      by (rule audit_matches_retry[OF C d eq _ row(2)]) (use valid x in simp)
    then show ?thesis using inv d row(1) db' by (auto simp: audit_stored_def)
  qed
qed

lemma audit_create_retry:
  assumes inv: "audit_inv C db" and st: "audit_stored C a e db"
  shows "audit_create C a clk db = (db, Inr e)"
proof -
  obtain key et nt eid at where x: "a = (key, et, nt, eid, at)" by (cases a) auto
  have C: "codec_ok C" using inv by (simp add: audit_inv_def)
  from st obtain row where row: "row \<in> set (audit_events db)" "decode_audit_event_row C row = Inr e"
    and m: "audit_matches a e" by (auto simp: audit_stored_def)
  have valid: "audit_valid a" using m by (simp add: audit_matches_def audit_valid_def x)
  have key: "au_idempotency_key row = key"
    using row(2) m unfolding decode_audit_event_row_Inr[OF C] by (simp add: audit_matches_def x)
  have "find_audit_row db key = Some row"
    using find_audit_row_eq[OF _ row(1) key] inv by (simp add: audit_inv_def)
  moreover have "same_instant (sa_occurred_at e) at"
    using m same_instant_utc[of at] by (simp add: audit_matches_def x)
  ultimately show ?thesis
    using append_audit_event_cases[OF C x valid, of clk db] row(2) m
    by (simp add: audit_create_def x audit_matches_def)
qed

lemma audit_create_appends:
  assumes "audit_create C a clk db = (db', Inr r)"
  shows "\<exists>new. audit_events db' = audit_events db @ new \<and> db' = db\<lparr>audit_events := audit_events db'\<rparr>"
  using assms
  by (auto simp: audit_create_def append_audit_event_def rbind_Inr_iff insert_audit_row_def Let_def
      split: prod.splits if_splits)

lemma audit_create_error: "audit_create C a clk db = (db', Inl e) \<Longrightarrow> db' = db"
  by (auto simp: audit_create_def append_audit_event_def split: prod.splits)

interpretation audit: idempotent_create "audit_create C" "audit_stored C" "audit_inv C" for C
proof
  fix db a clk db' r b r' e
  show "audit_inv C db \<Longrightarrow> audit_create C a clk db = (db', Inr r) \<Longrightarrow> audit_inv C db' \<and> audit_stored C a r db'"
    by (rule audit_create_ok)
  show "audit_stored C a r db \<Longrightarrow> audit_create C b clk db = (db', Inr r') \<Longrightarrow> audit_stored C a r db'"
    using audit_create_appends[of C b clk db db' r'] by (auto simp: audit_stored_def)
  show "audit_inv C db \<Longrightarrow> audit_stored C a r db \<Longrightarrow> audit_create C a clk db = (db, Inr r)"
    by (rule audit_create_retry)
  show "audit_create C a clk db = (db', Inl e) \<Longrightarrow> db' = db"
    by (rule audit_create_error)
qed


section \<open>Properties of the log\<close>

lemma audit_inv_empty: "codec_ok C \<Longrightarrow> audit_inv C empty_db"
  by (simp add: audit_inv_def empty_db_def)

text \<open>
  An append that succeeded can be retried at any later time, after any other appends: it
  returns the original event with its id and timestamps, and changes nothing.
\<close>

theorem audit_append_is_idempotent:
  assumes "audit_inv C db"
    and "append_audit_event C key et nt eid at clk db = (db', Inr event)"
  shows "append_audit_event C key et nt eid at clk' (create_run (audit_create C) others db')
           = (create_run (audit_create C) others db', Inr event)"
  using audit.retry_after_run[OF assms(1), of "(key, et, nt, eid, at)" clk db' event clk' others] assms(2)
  by (simp add: audit_create_def)

definition demo_audit_row :: audit_row where
  "demo_audit_row = \<lparr>au_id = 1, au_idempotency_key = lit ''k'', au_event_type = lit ''proposal_created'',
     au_entity_type = lit ''proposal'', au_entity_id = lit ''7'', au_details = None, au_occurred_at = [50],
     au_created_at = [60]\<rparr>"

definition demo_audit_event :: stored_audit_event where
  "demo_audit_event = \<lparr>sa_id = 1, sa_idempotency_key = lit ''k'', sa_event_type = ProposalCreated,
     sa_entity_type = AeProposal, sa_entity_id = lit ''7'', sa_occurred_at = utc_secs 50, sa_created_at = [60]\<rparr>"

lemma demo_audit_append:
  "append_audit_event demo_codec (lit ''k'') ProposalCreated AeProposal (lit ''7'') (utc_secs 50) [60] empty_db
     = (empty_db\<lparr>audit_events := [demo_audit_row]\<rparr>, Inr demo_audit_event)"
proof -
  have r: "rfc_range 50" "rfc_range 60" by (simp_all add: rfc_range_def rfc_min_secs_def odt_max_secs_def)
  have v: "audit_valid (lit ''k'', ProposalCreated, AeProposal, lit ''7'', utc_secs 50)"
    using r by (simp add: audit_valid_def machine_id_def machine_byte_def char_class_defs)
  have n: "new_audit_row empty_db (lit ''k'', ProposalCreated, AeProposal, lit ''7'', utc_secs 50) demo_codec [60]
      = demo_audit_row"
    using r by (simp add: new_audit_row_def demo_audit_row_def demo_rfc next_id_def empty_db_def del: lit_simps)
  have d: "decode_audit_event_row demo_codec demo_audit_row = Inr demo_audit_event"
    unfolding decode_audit_event_row_Inr[OF demo_codec_ok]
    using r by (auto simp: demo_audit_row_def demo_audit_event_def machine_id_def machine_byte_def char_class_defs
        rfc_time_def demo_rfc intro!: exI[of _ 50] exI[of _ 60])
  show ?thesis
    using append_audit_event_cases[OF demo_codec_ok refl v, of "[60]" empty_db] n d
    by (simp add: find_audit_row_def empty_db_def del: lit_simps)
qed

theorem audit_append_is_idempotent_witness:
  "append_audit_event demo_codec (lit ''k'') ProposalCreated AeProposal (lit ''7'') (utc_secs 50) [99]
     (empty_db\<lparr>audit_events := [demo_audit_row]\<rparr>)
   = (empty_db\<lparr>audit_events := [demo_audit_row]\<rparr>, Inr demo_audit_event)"
  using audit_append_is_idempotent[OF audit_inv_empty[OF demo_codec_ok] demo_audit_append, of "[99]" "[]"]
  by simp

text \<open>
  The log is append-only: every append, successful or not, leaves the existing rows as an
  unchanged prefix and touches no other table; a key that is taken by different content is
  refused with a conflict, and afterwards all ids are distinct, positive and in insertion order.
\<close>

theorem audit_log_is_append_only:
  assumes "audit_inv C db"
  shows "\<exists>new. audit_events (create_run (audit_create C) calls db) = audit_events db @ new
      \<and> create_run (audit_create C) calls db = db\<lparr>audit_events := audit_events db @ new\<rparr>
      \<and> sorted_wrt (<) (map au_id (audit_events db @ new))
      \<and> distinct (map au_idempotency_key (audit_events db @ new))"
proof -
  have step: "\<exists>new. audit_events (fst (audit_create C a clk d)) = audit_events d @ new
      \<and> fst (audit_create C a clk d) = d\<lparr>audit_events := audit_events (fst (audit_create C a clk d))\<rparr>" for a clk d
    using audit_create_appends[of C a clk d] audit_create_error[of C a clk d]
    by (cases "audit_create C a clk d"; cases "snd (audit_create C a clk d)") auto
  have "\<exists>new. audit_events (create_run (audit_create C) calls d) = audit_events d @ new
      \<and> create_run (audit_create C) calls d = d\<lparr>audit_events := audit_events d @ new\<rparr>" for d
  proof (induction calls arbitrary: d)
    case Nil
    then show ?case by simp
  next
    case (Cons c calls)
    obtain a clk where c: "c = (a, clk)" by (cases c)
    obtain new where new: "audit_events (fst (audit_create C a clk d)) = audit_events d @ new"
      "fst (audit_create C a clk d) = d\<lparr>audit_events := audit_events d @ new\<rparr>"
      using step[of a clk d] by metis
    obtain more where "audit_events (create_run (audit_create C) calls (fst (audit_create C a clk d)))
        = (audit_events d @ new) @ more"
      "create_run (audit_create C) calls (fst (audit_create C a clk d))
        = d\<lparr>audit_events := (audit_events d @ new) @ more\<rparr>"
      using Cons.IH[of "fst (audit_create C a clk d)"] new by auto
    then show ?case using c by (intro exI[of _ "new @ more"]) simp
  qed
  then obtain new where new: "audit_events (create_run (audit_create C) calls db) = audit_events db @ new"
    "create_run (audit_create C) calls db = db\<lparr>audit_events := audit_events db @ new\<rparr>" by blast
  moreover have "audit_inv C (create_run (audit_create C) calls db)"
    by (rule audit.run_inv[OF assms])
  ultimately show ?thesis by (auto simp: audit_inv_def ids_ok_def)
qed

theorem audit_log_is_append_only_witness:
  "\<exists>new. audit_events (create_run (audit_create demo_codec)
      [((lit ''k'', ProposalCreated, AeProposal, lit ''7'', utc_secs 50), [60])] empty_db) = [] @ new"
  using audit_log_is_append_only[OF audit_inv_empty[OF demo_codec_ok],
      of "[((lit ''k'', ProposalCreated, AeProposal, lit ''7'', utc_secs 50), [60])]"]
  by (auto simp: empty_db_def)

text \<open>
  Paging through the log is complete and repeats nothing: reading pages of any allowed size
  until one is empty, each from the last id seen, returns every stored event once, in order.
\<close>

theorem audit_paging_is_complete:
  assumes inv: "audit_inv C db" and limit: "1 \<le> limit" "limit \<le> 100" and fuel: "length (audit_events db) < fuel"
  shows "\<exists>events. read_pages (\<lambda>after_id. list_audit_events C after_id limit db) sa_id fuel None = Inr events
      \<and> list_all2 (\<lambda>row e. decode_audit_event_row C row = Inr e) (audit_events db) events"
proof -
  have C: "codec_ok C" and ids: "ids_ok au_id (audit_events db)" using inv by (simp_all add: audit_inv_def)
  have dec: "\<exists>e. decode_audit_event_row C r = Inr e \<and> sa_id e = au_id r" if "r \<in> set (audit_events db)" for r
    using inv that unfolding audit_inv_def decode_audit_event_row_Inr[OF C] by blast
  have "read_pages (\<lambda>after_id. list_audit_events C after_id limit db) sa_id fuel None
      = rmap (decode_audit_event_row C) (audit_events db)"
    by (rule read_pages_complete[OF ids _ fuel dec, of limit])
      (use limit in \<open>auto simp: list_audit_events_def store_limits split: option.splits\<close>)
  moreover obtain events where "rmap (decode_audit_event_row C) (audit_events db) = Inr events"
    using rmap_total dec by metis
  ultimately show ?thesis by (auto simp: rmap_Inr_iff)
qed

theorem audit_paging_is_complete_witness:
  "\<exists>events. read_pages (\<lambda>after_id. list_audit_events demo_codec after_id 1
       (empty_db\<lparr>audit_events := [demo_audit_row]\<rparr>)) sa_id 2 None = Inr events"
proof -
  have "audit_create demo_codec (lit ''k'', ProposalCreated, AeProposal, lit ''7'', utc_secs 50) [60] empty_db
      = (empty_db\<lparr>audit_events := [demo_audit_row]\<rparr>, Inr demo_audit_event)"
    unfolding audit_create_def prod.case by (rule demo_audit_append)
  then have "audit_inv demo_codec (empty_db\<lparr>audit_events := [demo_audit_row]\<rparr>)"
    using audit_create_ok[OF audit_inv_empty[OF demo_codec_ok]] by blast
  from audit_paging_is_complete[OF this, of 1 2] show ?thesis by auto
qed

end
