(* ===== verification/Store_Cursor.thy ===== *)
theory Store_Cursor
  imports Store_Schema
begin

text \<open>
  Provider cursors of \<open>src/pa/store.rs\<close>: \<open>load_provider_cursor\<close> and the compare-and-set
  \<open>advance_provider_cursor\<close>. A stream has no row, a row without cursor (legacy), or a row with
  a cursor. The abstract contract is a compare-and-set register per stream.
\<close>

section \<open>Operations\<close>

definition cursor_conflict :: store_error where
  "cursor_conflict = CursorConflict ''provider cursor''"

definition load_provider_cursor_row :: "db \<Rightarrow> str \<Rightarrow> str option option" where
  "load_provider_cursor_row db stream =
     map_option pc_cursor (find (\<lambda>r. pc_provider r = stream) (provider_cursors db))"

definition load_provider_cursor :: "str \<Rightarrow> db \<Rightarrow> str option store_result" where
  "load_provider_cursor stream_id db =
     rbind (validate_provider_stream_identifier stream_id ''stream_id'') (\<lambda>stream_id.
       case load_provider_cursor_row db stream_id of
         None \<Rightarrow> Inr None
       | Some None \<Rightarrow> Inr None
       | Some (Some cursor) \<Rightarrow>
           map_err (\<lambda>_. stored_record_invalid ''provider cursor'')
             (rbind (validate_provider_cursor_identifier cursor ''cursor'') (\<lambda>c. Inr (Some c))))"

definition set_cursor :: "str option \<Rightarrow> str \<Rightarrow> str \<Rightarrow> str \<Rightarrow> db \<Rightarrow> db \<times> nat" where
  "set_cursor current stream next clk db =
     (let p = (\<lambda>r. pc_provider r = stream \<and> pc_cursor r = current)
      in (db\<lparr>provider_cursors := update_rows p (\<lambda>r. r\<lparr>pc_cursor := Some next, pc_updated_at := clk\<rparr>)
               (provider_cursors db)\<rparr>, count_rows p (provider_cursors db)))"

definition insert_cursor :: "str \<Rightarrow> str \<Rightarrow> str \<Rightarrow> db \<Rightarrow> db \<times> nat" where
  "insert_cursor stream next clk db =
     (if stream \<in> pc_provider ` set (provider_cursors db) then (db, 0)
      else (db\<lparr>provider_cursors := provider_cursors db @
              [\<lparr>pc_provider = stream, pc_cursor = Some next, pc_updated_at = clk\<rparr>]\<rparr>, 1))"

definition checked_cursor :: "str option option \<Rightarrow> str option option store_result" where
  "checked_cursor current =
     (case current of
        None \<Rightarrow> Inr None
      | Some None \<Rightarrow> Inr (Some None)
      | Some (Some cursor) \<Rightarrow>
          rbind (map_err (\<lambda>_. stored_record_invalid ''provider cursor'')
                   (validate_provider_cursor_identifier cursor ''cursor'')) (\<lambda>c. Inr (Some (Some c))))"

definition advance_provider_cursor ::
    "str \<Rightarrow> str option \<Rightarrow> str \<Rightarrow> str \<Rightarrow> db \<Rightarrow> db \<times> unit store_result" where
  "advance_provider_cursor stream_id expected next clk =
     run_tx (\<lambda>db.
       rbind (validate_provider_stream_identifier stream_id ''stream_id'') (\<lambda>stream_id.
       rbind (transpose (map_option (\<lambda>v. validate_provider_cursor_identifier v ''expected'') expected)) (\<lambda>expected.
       rbind (validate_provider_cursor_identifier next ''next'') (\<lambda>next.
       rbind (checked_cursor (load_provider_cursor_row db stream_id)) (\<lambda>current.
       case current of
         None \<Rightarrow>
           if expected \<noteq> None then Inl cursor_conflict
           else (let (db', inserted) = insert_cursor stream_id next clk db
                 in if inserted \<noteq> 1 then Inl cursor_conflict else Inr (db', ()))
       | Some current \<Rightarrow>
           if expected \<noteq> current then Inl cursor_conflict
           else if current = Some next then Inr (db, ())
           else (let (db', updated) = set_cursor current stream_id next clk db
                 in if updated \<noteq> 1 then Inl cursor_conflict else Inr (db', ())))))))"

section \<open>The compare-and-set register\<close>

definition cursor_ok :: "str \<Rightarrow> bool" where
  "cursor_ok c \<longleftrightarrow> str_trim c \<noteq> [] \<and> str_len c \<le> 256 \<and> list_all is_ascii c \<and> \<not> list_ex is_control c"

definition cursor_inv :: "db \<Rightarrow> bool" where
  "cursor_inv db \<longleftrightarrow> distinct (map pc_provider (provider_cursors db))
     \<and> (\<forall>r \<in> set (provider_cursors db). case pc_cursor r of None \<Rightarrow> True | Some c \<Rightarrow> cursor_ok c)"

definition cursor_of :: "db \<Rightarrow> str \<Rightarrow> str option" where
  "cursor_of db stream = Option.bind (load_provider_cursor_row db stream) (\<lambda>c. c)"

lemma validate_cursor_eq:
  "validate_provider_cursor_identifier v f = (if cursor_ok v then Inr v else Inl (InvalidInput f))"
  by (auto simp: validate_provider_cursor_identifier_def cursor_ok_def store_limits)

lemma cursor_row_ok:
  "cursor_inv db \<Longrightarrow> load_provider_cursor_row db s = Some (Some c) \<Longrightarrow> cursor_ok c"
  by (force simp: cursor_inv_def load_provider_cursor_row_def dest: find_Some_mem)

lemma checked_cursor_inv:
  "cursor_inv db \<Longrightarrow> checked_cursor (load_provider_cursor_row db s) = Inr (load_provider_cursor_row db s)"
  using cursor_row_ok[of db s]
  by (auto simp: checked_cursor_def validate_cursor_eq split: option.splits)

lemma load_cursor_eq:
  assumes "cursor_inv db" "machine_id 256 stream"
  shows "load_provider_cursor stream db = Inr (cursor_of db stream)"
  using cursor_row_ok[OF assms(1), of stream] assms(2)
  by (auto simp: load_provider_cursor_def cursor_of_def validator_eqs store_limits validate_cursor_eq
      split: option.splits)

lemma cursor_row_count:
  assumes "cursor_inv db" "load_provider_cursor_row db s = Some c"
  shows "count_rows (\<lambda>r. pc_provider r = s \<and> pc_cursor r = c) (provider_cursors db) = 1"
proof -
  from assms(2) obtain r where r: "r \<in> set (provider_cursors db)" "pc_provider r = s" "pc_cursor r = c"
    by (auto simp: load_provider_cursor_row_def dest: find_Some_mem)
  show ?thesis
    using count_rows_key[of pc_provider "provider_cursors db" r "\<lambda>r. pc_cursor r = c"] assms(1) r
    by (simp add: cursor_inv_def)
qed

lemma set_cursor_row:
  assumes "load_provider_cursor_row db s = Some c"
  shows "load_provider_cursor_row (fst (set_cursor c s n clk db)) t =
           (if t = s then Some (Some n) else load_provider_cursor_row db t)"
proof -
  let ?f = "\<lambda>r. r\<lparr>pc_cursor := Some n, pc_updated_at := clk\<rparr>"
  have "find (\<lambda>r. pc_provider r = t) (update_rows (\<lambda>r. pc_provider r = s \<and> pc_cursor r = c) ?f (provider_cursors db))
      = map_option (\<lambda>r. if pc_provider r = s \<and> pc_cursor r = c then ?f r else r)
          (find (\<lambda>r. pc_provider r = t) (provider_cursors db))"
    by (rule find_update_rows) simp
  then have eq: "load_provider_cursor_row (fst (set_cursor c s n clk db)) t = map_option pc_cursor
      (map_option (\<lambda>r. if pc_provider r = s \<and> pc_cursor r = c then ?f r else r)
          (find (\<lambda>r. pc_provider r = t) (provider_cursors db)))"
    by (simp add: set_cursor_def load_provider_cursor_row_def Let_def)
  show ?thesis
  proof (cases "find (\<lambda>r. pc_provider r = t) (provider_cursors db)")
    case None
    then show ?thesis using eq assms by (auto simp: load_provider_cursor_row_def)
  next
    case (Some r)
    then have "pc_provider r = t" by (auto dest: find_Some_mem)
    then show ?thesis using eq assms Some by (auto simp: load_provider_cursor_row_def)
  qed
qed

lemma insert_cursor_row:
  assumes "load_provider_cursor_row db s = None"
  shows "snd (insert_cursor s n clk db) = 1"
    and "load_provider_cursor_row (fst (insert_cursor s n clk db)) t =
           (if t = s then Some (Some n) else load_provider_cursor_row db t)"
  using assms
  by (auto simp: insert_cursor_def load_provider_cursor_row_def find_append find_None_iff split: option.splits
      dest: find_Some_mem)

lemma set_cursor_inv: "cursor_inv db \<Longrightarrow> cursor_ok n \<Longrightarrow> cursor_inv (fst (set_cursor c s n clk db))"
  by (auto simp: cursor_inv_def set_cursor_def update_rows_key Let_def) (auto simp: update_rows_def)

lemma insert_cursor_inv: "cursor_inv db \<Longrightarrow> cursor_ok n \<Longrightarrow> cursor_inv (fst (insert_cursor s n clk db))"
  by (auto simp: cursor_inv_def insert_cursor_def)


section \<open>Properties of the register\<close>

lemma transpose_cursor:
  "transpose (map_option (\<lambda>v. if cursor_ok v then Inr v else Inl (InvalidInput f)) e) =
     (if (case e of None \<Rightarrow> True | Some v \<Rightarrow> cursor_ok v) then Inr e else Inl (InvalidInput f))"
  by (cases e) (simp_all add: validate_cursor_eq)

lemma advance_cases:
  assumes inv: "cursor_inv db" and s: "machine_id 256 s" and n: "cursor_ok n"
    and e: "case e of None \<Rightarrow> True | Some v \<Rightarrow> cursor_ok v"
  shows "advance_provider_cursor s e n clk db =
    (if e \<noteq> cursor_of db s then (db, Inl cursor_conflict)
     else if e = Some n then (db, Inr ())
     else case load_provider_cursor_row db s of
            None \<Rightarrow> (fst (insert_cursor s n clk db), Inr ())
          | Some c \<Rightarrow> (fst (set_cursor c s n clk db), Inr ()))"
proof -
  have v: "validate_provider_stream_identifier s ''stream_id'' = Inr s"
    using s by (simp add: validator_eqs store_limits)
  show ?thesis
  proof (cases "load_provider_cursor_row db s")
    case None
    obtain d where "insert_cursor s n clk db = (d, 1)"
      using insert_cursor_row(1)[OF None, of n clk] by (metis prod.collapse)
    then show ?thesis using None e n v checked_cursor_inv[OF inv, of s]
      by (cases e) (simp_all add: advance_provider_cursor_def run_tx_def transpose_cursor validate_cursor_eq cursor_of_def)
  next
    case (Some c)
    obtain d where "set_cursor c s n clk db = (d, 1)"
      using cursor_row_count[OF inv Some] by (auto simp: set_cursor_def Let_def)
    then show ?thesis using Some e n v checked_cursor_inv[OF inv, of s]
      by (auto simp: advance_provider_cursor_def run_tx_def transpose_cursor validate_cursor_eq cursor_of_def)
  qed
qed

lemma advance_invalid:
  assumes "\<not> (machine_id 256 s \<and> cursor_ok n \<and> (case e of None \<Rightarrow> True | Some v \<Rightarrow> cursor_ok v))"
  shows "\<exists>f. advance_provider_cursor s e n clk db = (db, Inl (InvalidInput f))"
  using assms
  by (auto simp: advance_provider_cursor_def run_tx_def transpose_cursor validate_cursor_eq validator_eqs store_limits)

text \<open>
  C13. An advance is a compare-and-set: on a well-formed table and valid arguments it succeeds
  exactly when the expected cursor is the one a load returns, then a load returns the next cursor
  and every other stream keeps its own; otherwise it is refused with a conflict and nothing
  changes. A retry whose expected cursor already is the next one changes nothing at all.
\<close>

theorem provider_cursor_compare_and_set:
  assumes "cursor_inv db" "machine_id 256 s" "cursor_ok n" "case e of None \<Rightarrow> True | Some v \<Rightarrow> cursor_ok v"
    and res: "res = advance_provider_cursor s e n clk db"
  shows "(if load_provider_cursor s db = Inr e
          then snd res = Inr () \<and> cursor_inv (fst res) \<and> load_provider_cursor s (fst res) = Inr (Some n)
             \<and> (\<forall>t. t \<noteq> s \<longrightarrow> load_provider_cursor t (fst res) = load_provider_cursor t db)
             \<and> (e = Some n \<longrightarrow> fst res = db)
          else res = (db, Inl (CursorConflict ''provider cursor'')))"
proof -
  note c = advance_cases[OF assms(1-4), of clk]
  note l = load_cursor_eq[OF assms(1,2)]
  show ?thesis
  proof (cases "e = cursor_of db s")
    case False
    then show ?thesis using c l by (simp add: res cursor_conflict_def)
  next
    case True
    show ?thesis
    proof (cases "e = Some n")
      case eq: True
      then show ?thesis using c l True assms(1) by (simp add: res)
    next
      case False
      have row: "load_provider_cursor_row (fst res) t = (if t = s then Some (Some n) else load_provider_cursor_row db t)" for t
        using c True False insert_cursor_row(2)[of db s n clk t] set_cursor_row[of db s _ n clk t]
        by (auto simp: res split: option.splits)
      have inv: "cursor_inv (fst res)"
        using c True False insert_cursor_inv[OF assms(1,3)] set_cursor_inv[OF assms(1,3)]
        by (auto simp: res split: option.splits)
      have "load_provider_cursor s (fst res) = Inr (Some n)"
        using load_cursor_eq[OF inv assms(2)] row[of s] by (simp add: cursor_of_def)
      moreover have "t \<noteq> s \<Longrightarrow> load_provider_cursor t (fst res) = load_provider_cursor t db" for t
        using row[of t] by (auto simp: load_provider_cursor_def validator_eqs)
      ultimately show ?thesis
        using c l True False inv by (auto simp: res split: option.splits)
    qed
  qed
qed

theorem provider_cursor_compare_and_set_witness:
  "snd (advance_provider_cursor (lit ''mail'') None (lit ''c1'') (lit ''t'') empty_db) = Inr ()"
proof -
  have a: "cursor_inv empty_db" "machine_id 256 (lit ''mail'')" "cursor_ok (lit ''c1'')"
    by (simp_all add: cursor_inv_def empty_db_def machine_id_def machine_byte_def char_class_defs cursor_ok_def
        str_trim_def trim_matches_def utf8_char_def)
  have "load_provider_cursor (lit ''mail'') empty_db = Inr None"
    using load_cursor_eq[OF a(1,2)] by (simp add: cursor_of_def load_provider_cursor_row_def empty_db_def)
  then show ?thesis
    using provider_cursor_compare_and_set[OF a _ refl, of None "lit ''t''"] by simp
qed

fun advance_run :: "(str \<times> str option \<times> str \<times> str) list \<Rightarrow> db \<Rightarrow> db \<times> (str \<times> str option \<times> str) list" where
  "advance_run [] db = (db, [])"
| "advance_run ((s, e, n, clk) # calls) db =
     (case advance_provider_cursor s e n clk db of
        (db', Inr _) \<Rightarrow> (let (d, log) = advance_run calls db' in (d, (s, e, n) # log))
      | (db', Inl _) \<Rightarrow> advance_run calls db')"

text \<open>The successful advances of one stream, each continuing the one before.\<close>

fun cursor_chain :: "str option \<Rightarrow> (str option \<times> str) list \<Rightarrow> bool" where
  "cursor_chain c [] = True"
| "cursor_chain c ((e, n) # log) = (e = c \<and> cursor_chain (Some n) log)"

definition stream_log :: "str \<Rightarrow> (str \<times> str option \<times> str) list \<Rightarrow> (str option \<times> str) list" where
  "stream_log s log = map snd (filter (\<lambda>c. fst c = s) log)"

lemma advance_effect:
  assumes "cursor_inv db" "advance_provider_cursor s e n clk db = (db', r)"
  shows "cursor_inv db' \<and> (case r of Inl _ \<Rightarrow> db' = db
     | Inr _ \<Rightarrow> e = cursor_of db s \<and> cursor_of db' s = Some n \<and> (\<forall>t. t \<noteq> s \<longrightarrow> cursor_of db' t = cursor_of db t))"
proof (cases "machine_id 256 s \<and> cursor_ok n \<and> (case e of None \<Rightarrow> True | Some v \<Rightarrow> cursor_ok v)")
  case False
  then obtain f where "advance_provider_cursor s e n clk db = (db, Inl (InvalidInput f))"
    using advance_invalid by blast
  then show ?thesis using assms by simp
next
  case True
  note valid = True
  note c = advance_cases[OF assms(1), of s n e clk]
  have row: "\<And>t. load_provider_cursor_row db' t = (if t = s then Some (Some n) else load_provider_cursor_row db t)"
    if "e = cursor_of db s" "e \<noteq> Some n"
    using c True that assms(2) insert_cursor_row(2)[of db s n clk] set_cursor_row[of db s _ n clk]
    by (auto split: option.splits)
  have "cursor_inv db'"
    using c True assms insert_cursor_inv[OF assms(1)] set_cursor_inv[OF assms(1)]
    by (auto split: option.splits if_splits)
  moreover have "case r of Inl _ \<Rightarrow> db' = db
     | Inr _ \<Rightarrow> e = cursor_of db s \<and> cursor_of db' s = Some n \<and> (\<forall>t. t \<noteq> s \<longrightarrow> cursor_of db' t = cursor_of db t)"
  proof (cases "e = cursor_of db s \<and> e \<noteq> Some n")
    case True
    have "cursor_of db' s = Some n" "\<forall>t. t \<noteq> s \<longrightarrow> cursor_of db' t = cursor_of db t"
      using row[OF conjunct1[OF True] conjunct2[OF True]] by (simp_all add: cursor_of_def)
    then show ?thesis
      using c True valid assms(2) by (auto split: option.splits sum.splits)
  next
    case no: False
    then show ?thesis
      using c valid assms(2) by (auto split: option.splits if_splits)
  qed
  ultimately show ?thesis ..
qed

text \<open>
  Concurrent workers lose no update: in every interleaving of advances, the successful ones
  of a stream form a chain, each expecting exactly the cursor the previous one wrote, and the
  last one is what the store holds.
\<close>

theorem provider_cursor_updates_form_a_chain:
  assumes "cursor_inv db" "advance_run calls db = (db', log)"
  shows "cursor_chain (cursor_of db s) (stream_log s log)
    \<and> cursor_of db' s = (if stream_log s log = [] then cursor_of db s else Some (snd (last (stream_log s log))))"
  using assms
proof (induction calls arbitrary: db db' log)
  case Nil
  then show ?case by (simp add: stream_log_def)
next
  case (Cons call calls)
  obtain t e n clk where call: "call = (t, e, n, clk)" by (cases call) auto
  obtain d r where adv: "advance_provider_cursor t e n clk db = (d, r)" by fastforce
  note eff = advance_effect[OF Cons.prems(1) adv]
  show ?case
  proof (cases r)
    case (Inl err)
    then show ?thesis using Cons.IH[of d db' log] Cons.prems adv eff call by simp
  next
    case (Inr u)
    obtain d' log' where run: "advance_run calls d = (d', log')" by fastforce
    then have log: "db' = d'" "log = (t, e, n) # log'" using Cons.prems(2) adv Inr call by auto
    have "cursor_chain (cursor_of d s) (stream_log s log')
      \<and> cursor_of d' s = (if stream_log s log' = [] then cursor_of d s else Some (snd (last (stream_log s log'))))"
      using Cons.IH[OF _ run] eff by simp
    then show ?thesis using eff Inr log
      by (cases "t = s") (auto simp: stream_log_def)
  qed
qed

theorem provider_cursor_updates_form_a_chain_witness:
  "let (db', log) = advance_run [(lit ''s'', None, lit ''a'', []), (lit ''s'', None, lit ''b'', []),
       (lit ''s'', Some (lit ''a''), lit ''c'', [])] empty_db
   in cursor_chain None (stream_log (lit ''s'') log)"
proof -
  let ?run = "advance_run [(lit ''s'', None, lit ''a'', []), (lit ''s'', None, lit ''b'', []),
       (lit ''s'', Some (lit ''a''), lit ''c'', [])] empty_db"
  have "cursor_inv empty_db" by (simp add: cursor_inv_def empty_db_def)
  from provider_cursor_updates_form_a_chain[OF this, of _ "fst ?run" "snd ?run" "lit ''s''"]
  have "cursor_chain (cursor_of empty_db (lit ''s'')) (stream_log (lit ''s'') (snd ?run))" by (metis prod.collapse)
  then show ?thesis by (simp add: case_prod_beta cursor_of_def load_provider_cursor_row_def empty_db_def del: lit_simps)
qed

end
