(* ===== verification/Store_Messages.thy ===== *)
theory Store_Messages
  imports Store_Contracts
begin

text \<open>
  Provider messages of \<open>src/pa/store.rs\<close>: \<open>record_message\<close>, the loads by identity, the listings
  and the compare-and-set triage transition, with the strict row decoder. A \<open>message_request\<close>
  bundles the parameters of \<open>record_message\<close>; the summary arrives as text and is validated by
  \<open>MessageSummary::new\<close> inside.
\<close>

section \<open>Records, states and the strict decoder\<close>

record message_request =
  rq_idempotency_key :: str
  rq_source_id :: str
  rq_provider :: message_provider
  rq_provider_message_id :: str
  rq_summary :: str
  rq_subject :: "str option"
  rq_sender :: "str option"
  rq_received_at :: odt

record stored_message =
  sm_id :: int
  sm_idempotency_key :: str
  sm_source_id :: str
  sm_provider :: message_provider
  sm_provider_message_id :: str
  sm_summary :: str
  sm_subject :: "str option"
  sm_sender :: "str option"
  sm_received_at :: odt
  sm_triage_state :: triage_state
  sm_created_at :: str
  sm_updated_at :: str

fun initial_message_state :: "message_provider \<Rightarrow> triage_state" where
  "initial_message_state MpVoice = TsRecorded"
| "initial_message_state MpOutlook = TsUnprocessed"
| "initial_message_state MpGmail = TsUnprocessed"

definition valid_message_state :: "message_provider \<Rightarrow> triage_state \<Rightarrow> bool" where
  "valid_message_state provider s =
     (case provider of
        MpVoice \<Rightarrow> s = TsRecorded
      | _ \<Rightarrow> s \<in> {TsUnprocessed, TsActionable, TsAmbiguous, TsIgnored, TsScheduled})"

definition valid_message_transition :: "triage_state \<Rightarrow> triage_state \<Rightarrow> bool" where
  "valid_message_transition e n \<longleftrightarrow>
     (e, n) \<in> {(TsUnprocessed, TsActionable), (TsUnprocessed, TsAmbiguous), (TsUnprocessed, TsIgnored),
               (TsActionable, TsScheduled)}"

definition message_invalid :: store_error where
  "message_invalid = stored_record_invalid ''message''"

definition decode_message_row :: "codec \<Rightarrow> message_row \<Rightarrow> stored_message store_result" where
  "decode_message_row C row =
     rbind (ensure (\<not> me_id row \<le> 0) message_invalid) (\<lambda>_.
     rbind (map_err (\<lambda>_. message_invalid) (validate_message_idempotency_key (me_idempotency_key row))) (\<lambda>key.
     rbind (map_err (\<lambda>_. message_invalid) (validate_message_source_id (me_source_id row))) (\<lambda>source_id.
     rbind (map_err (\<lambda>_. message_invalid) (provider_from_storage (me_provider row))) (\<lambda>provider.
     rbind (map_err (\<lambda>_. message_invalid) (validate_provider_message_id (me_provider_message_id row))) (\<lambda>pmid.
     rbind (map_err (\<lambda>_. message_invalid) (validate_message_summary (me_summary row))) (\<lambda>summary.
     rbind (map_err (\<lambda>_. message_invalid) (validate_message_subject (me_subject row))) (\<lambda>subject.
     rbind (map_err (\<lambda>_. message_invalid) (validate_message_sender (me_sender row))) (\<lambda>sender.
     rbind (parse_message_timestamp C (me_received_at row)) (\<lambda>received_at.
     rbind (map_err (\<lambda>_. message_invalid) (triage_from_storage (me_triage_state row))) (\<lambda>triage_state.
     rbind (ensure (valid_message_state provider triage_state) message_invalid) (\<lambda>_.
     rbind (parse_message_timestamp_text C (me_created_at row)) (\<lambda>created_at.
     rbind (parse_message_timestamp_text C (me_updated_at row)) (\<lambda>updated_at.
       Inr \<lparr>sm_id = me_id row, sm_idempotency_key = key, sm_source_id = source_id, sm_provider = provider,
            sm_provider_message_id = pmid, sm_summary = summary, sm_subject = subject, sm_sender = sender,
            sm_received_at = received_at, sm_triage_state = triage_state, sm_created_at = created_at,
            sm_updated_at = updated_at\<rparr>)))))))))))))"

definition opt_text :: "nat \<Rightarrow> str option \<Rightarrow> bool" where
  "opt_text n v = (case v of None \<Rightarrow> True | Some s \<Rightarrow> plain_text n s)"

lemma validate_message_subject_Inr: "validate_message_subject v = Inr w \<longleftrightarrow> w = v \<and> opt_text 256 v"
  by (cases v) (auto simp: validate_message_subject_def validate_message_text_eq opt_text_def store_limits)

lemma validate_message_sender_Inr: "validate_message_sender v = Inr w \<longleftrightarrow> w = v \<and> opt_text 320 v"
  by (cases v) (auto simp: validate_message_sender_def validate_message_text_eq opt_text_def store_limits)

text \<open>A row that decodes, field by field.\<close>

definition message_row_decodes :: "codec \<Rightarrow> message_row \<Rightarrow> stored_message \<Rightarrow> bool" where
  "message_row_decodes C row m \<longleftrightarrow>
    1 \<le> me_id row \<and> machine_id 256 (me_idempotency_key row) \<and> machine_id 256 (me_source_id row)
    \<and> machine_id 256 (me_provider_message_id row) \<and> plain_text 4096 (me_summary row)
    \<and> opt_text 256 (me_subject row) \<and> opt_text 320 (me_sender row)
    \<and> me_provider row = provider_as_str (sm_provider m) \<and> me_triage_state row = triage_as_str (sm_triage_state m)
    \<and> valid_message_state (sm_provider m) (sm_triage_state m)
    \<and> sm_id m = me_id row \<and> sm_idempotency_key m = me_idempotency_key row \<and> sm_source_id m = me_source_id row
    \<and> sm_provider_message_id m = me_provider_message_id row \<and> sm_summary m = me_summary row
    \<and> sm_subject m = me_subject row \<and> sm_sender m = me_sender row
    \<and> sm_created_at m = me_created_at row \<and> sm_updated_at m = me_updated_at row
    \<and> (\<exists>t. rfc_time C (me_received_at row) t \<and> sm_received_at m = utc_secs t)
    \<and> (\<exists>t. rfc_time C (me_created_at row) t) \<and> (\<exists>t. rfc_time C (me_updated_at row) t)"

lemma decode_message_row_Inr:
  assumes C: "codec_ok C"
  shows "decode_message_row C row = Inr m \<longleftrightarrow> message_row_decodes C row m"
proof
  show "decode_message_row C row = Inr m \<Longrightarrow> message_row_decodes C row m"
    using C by (auto simp: decode_message_row_def rbind_Inr_iff validator_eqs store_limits stored_enum_iffs
        validate_message_subject_Inr validate_message_sender_Inr parse_message_timestamp_Inr
        parse_message_timestamp_text_Inr message_row_decodes_def split: if_splits)
next
  assume r: "message_row_decodes C row m"
  then obtain t where t: "rfc_time C (me_received_at row) t" "sm_received_at m = utc_secs t"
    by (auto simp: message_row_decodes_def)
  have "parse_message_timestamp C (me_received_at row) = Inr (utc_secs t)"
    using t parse_message_timestamp_Inr[OF C] by blast
  moreover have "parse_message_timestamp_text C (me_created_at row) = Inr (me_created_at row)"
    "parse_message_timestamp_text C (me_updated_at row) = Inr (me_updated_at row)"
    using r parse_message_timestamp_text_Inr[OF C] by (auto simp: message_row_decodes_def)
  moreover have "validate_message_subject (me_subject row) = Inr (me_subject row)"
    "validate_message_sender (me_sender row) = Inr (me_sender row)"
    using r by (simp_all add: validate_message_subject_Inr validate_message_sender_Inr message_row_decodes_def)
  ultimately show "decode_message_row C row = Inr m" using r t(2)
    by (cases m) (simp add: decode_message_row_def validator_eqs store_limits message_row_decodes_def)
qed

section \<open>Recording\<close>

definition same_message_identity :: "str \<Rightarrow> str \<Rightarrow> str \<Rightarrow> str \<Rightarrow> message_row \<Rightarrow> bool" where
  "same_message_identity key source provider pmid r \<longleftrightarrow>
     me_idempotency_key r = key \<or> me_source_id r = source \<or>
     (me_provider r = provider \<and> me_provider_message_id r = pmid)"

definition query_message_rows_by_identity :: "db \<Rightarrow> str \<Rightarrow> str \<Rightarrow> message_provider \<Rightarrow> str \<Rightarrow> message_row list" where
  "query_message_rows_by_identity db key source provider pmid =
     filter (same_message_identity key source (provider_as_str provider) pmid) (messages db)"

definition new_message_row :: "db \<Rightarrow> message_request \<Rightarrow> str \<Rightarrow> str \<Rightarrow> message_row" where
  "new_message_row db rq received_at clk =
     \<lparr>me_id = next_id me_id (messages db), me_idempotency_key = rq_idempotency_key rq,
      me_source_id = rq_source_id rq, me_provider = provider_as_str (rq_provider rq),
      me_provider_message_id = rq_provider_message_id rq, me_summary = rq_summary rq,
      me_subject = rq_subject rq, me_sender = rq_sender rq, me_received_at = received_at,
      me_triage_state = triage_as_str (initial_message_state (rq_provider rq)),
      me_created_at = clk, me_updated_at = clk\<rparr>"

definition exact_message :: "message_request \<Rightarrow> odt \<Rightarrow> stored_message \<Rightarrow> bool" where
  "exact_message rq received_at m \<longleftrightarrow>
     sm_idempotency_key m = rq_idempotency_key rq \<and> sm_source_id m = rq_source_id rq
     \<and> sm_provider m = rq_provider rq \<and> sm_provider_message_id m = rq_provider_message_id rq
     \<and> sm_summary m = rq_summary rq \<and> sm_subject m = rq_subject rq \<and> sm_sender m = rq_sender rq
     \<and> same_instant (sm_received_at m) received_at"

text \<open>The loop over the candidates of a refused insert.\<close>

fun exact_message_retry ::
    "codec \<Rightarrow> message_request \<Rightarrow> odt \<Rightarrow> message_row list \<Rightarrow> stored_message option \<Rightarrow> stored_message option store_result" where
  "exact_message_retry C rq received_at [] found = Inr found"
| "exact_message_retry C rq received_at (candidate # rest) found =
     rbind (decode_message_row C candidate) (\<lambda>stored.
       if exact_message rq received_at stored
       then (if found \<noteq> None then Inl message_invalid
             else exact_message_retry C rq received_at rest (Some stored))
       else Inl (Conflict ''message''))"

definition record_message :: "codec \<Rightarrow> message_request \<Rightarrow> str \<Rightarrow> db \<Rightarrow> db \<times> stored_message store_result" where
  "record_message C rq clk =
     run_tx (\<lambda>db.
       rbind (validate_message_idempotency_key (rq_idempotency_key rq)) (\<lambda>key.
       rbind (validate_message_source_id (rq_source_id rq)) (\<lambda>source_id.
       rbind (validate_provider_message_id (rq_provider_message_id rq)) (\<lambda>pmid.
       rbind (validate_message_summary (rq_summary rq)) (\<lambda>summary.
       rbind (validate_message_subject (rq_subject rq)) (\<lambda>subject.
       rbind (validate_message_sender (rq_sender rq)) (\<lambda>sender.
       rbind (format_message_timestamp C (rq_received_at rq)) (\<lambda>(received_at, received_at_text).
       let candidates = query_message_rows_by_identity db key source_id (rq_provider rq) pmid in
       if candidates = []
       then (let row = new_message_row db rq received_at_text clk
             in rbind (decode_message_row C row) (\<lambda>stored. Inr (db\<lparr>messages := messages db @ [row]\<rparr>, stored)))
       else rbind (exact_message_retry C rq received_at candidates None) (\<lambda>exact_retry.
            rbind (ok_or message_invalid exact_retry) (\<lambda>stored. Inr (db, stored)))))))))))"


section \<open>Loads, listings and transitions\<close>

definition load_message_where :: "codec \<Rightarrow> (message_row \<Rightarrow> bool) \<Rightarrow> db \<Rightarrow> stored_message store_result" where
  "load_message_where C p db =
     rbind (ok_or (NotFound ''message'') (find p (messages db))) (\<lambda>row. decode_message_row C row)"

definition load_message_by_id :: "codec \<Rightarrow> int \<Rightarrow> db \<Rightarrow> stored_message store_result" where
  "load_message_by_id C i db = load_message_where C (\<lambda>r. me_id r = i) db"

definition load_message_by_idempotency_key :: "codec \<Rightarrow> str \<Rightarrow> db \<Rightarrow> stored_message store_result" where
  "load_message_by_idempotency_key C key db =
     rbind (validate_message_idempotency_key key) (\<lambda>key. load_message_where C (\<lambda>r. me_idempotency_key r = key) db)"

definition load_message_by_source_id :: "codec \<Rightarrow> str \<Rightarrow> db \<Rightarrow> stored_message store_result" where
  "load_message_by_source_id C source db =
     rbind (validate_message_source_id source) (\<lambda>source. load_message_where C (\<lambda>r. me_source_id r = source) db)"

definition load_message_by_provider_message_id ::
    "codec \<Rightarrow> message_provider \<Rightarrow> str \<Rightarrow> db \<Rightarrow> stored_message store_result" where
  "load_message_by_provider_message_id C provider pmid db =
     rbind (validate_provider_message_id pmid) (\<lambda>pmid.
       load_message_where C (\<lambda>r. me_provider r = provider_as_str provider \<and> me_provider_message_id r = pmid) db)"

definition check_page :: "int option \<Rightarrow> nat \<Rightarrow> nat \<Rightarrow> unit store_result" where
  "check_page after_id limit maximum =
     (if (case after_id of None \<Rightarrow> False | Some i \<Rightarrow> i \<le> 0) then Inl (InvalidInput ''cursor'')
      else if limit = 0 \<or> limit > maximum then Inl (InvalidInput ''limit'')
      else Inr ())"

definition list_messages :: "codec \<Rightarrow> int option \<Rightarrow> nat \<Rightarrow> db \<Rightarrow> stored_message list store_result" where
  "list_messages C after_id limit db =
     rbind (check_page after_id limit MAX_MESSAGE_LIST_LIMIT) (\<lambda>_.
       rmap (decode_message_row C) (page_rows me_id after_id limit (messages db)))"

text \<open>Rows whose state is outside the closed set are included so that the decoder rejects them.\<close>

definition triage_names :: "str list" where
  "triage_names = map triage_as_str [TsRecorded, TsUnprocessed, TsActionable, TsAmbiguous, TsIgnored, TsScheduled]"

definition list_messages_by_triage_state ::
    "codec \<Rightarrow> triage_state \<Rightarrow> int option \<Rightarrow> nat \<Rightarrow> db \<Rightarrow> stored_message list store_result" where
  "list_messages_by_triage_state C s after_id limit db =
     rbind (check_page after_id limit MAX_MESSAGE_LIST_LIMIT) (\<lambda>_.
       rmap (decode_message_row C) (page_rows me_id after_id limit
         (filter (\<lambda>r. me_triage_state r = triage_as_str s \<or> me_triage_state r \<notin> set triage_names) (messages db))))"

definition update_message_state :: "triage_state \<Rightarrow> str \<Rightarrow> str \<Rightarrow> triage_state \<Rightarrow> db \<Rightarrow> db \<times> nat" where
  "update_message_state next updated_at source expected db =
     (let p = (\<lambda>r. me_source_id r = source
                 \<and> me_provider r \<in> {provider_as_str MpOutlook, provider_as_str MpGmail}
                 \<and> me_triage_state r = triage_as_str expected)
      in (db\<lparr>messages := update_rows p (\<lambda>r. r\<lparr>me_triage_state := triage_as_str next, me_updated_at := updated_at\<rparr>)
               (messages db)\<rparr>, count_rows p (messages db)))"

definition transition_message ::
    "codec \<Rightarrow> str \<Rightarrow> triage_state \<Rightarrow> triage_state \<Rightarrow> odt \<Rightarrow> db \<Rightarrow> db \<times> stored_message store_result" where
  "transition_message C source expected next updated_at =
     run_tx (\<lambda>db.
       rbind (validate_message_source_id source) (\<lambda>source.
       rbind (format_message_updated_timestamp C updated_at) (\<lambda>(_, updated_at_text).
       rbind (ensure (valid_message_transition expected next) (Conflict ''message transition'')) (\<lambda>_.
       rbind (ok_or (NotFound ''message'') (find (\<lambda>r. me_source_id r = source) (messages db))) (\<lambda>current_row.
       rbind (decode_message_row C current_row) (\<lambda>current.
       if sm_provider current = MpVoice then Inl (Conflict ''message transition'')
       else if sm_triage_state current = next \<and> sm_updated_at current = updated_at_text then Inr (db, current)
       else if sm_triage_state current \<noteq> expected then Inl (Conflict ''message transition'')
       else (let (db', updated) = update_message_state next updated_at_text source expected db in
             if updated \<noteq> 1 then Inl (Conflict ''message transition'')
             else rbind (ok_or message_invalid (find (\<lambda>r. me_source_id r = source) (messages db'))) (\<lambda>row.
                  rbind (decode_message_row C row) (\<lambda>stored. Inr (db', stored))))))))))"

section \<open>The invariant of the table\<close>

definition me_origin :: "message_row \<Rightarrow> str \<times> str" where
  "me_origin r = (me_provider r, me_provider_message_id r)"

definition message_inv :: "codec \<Rightarrow> db \<Rightarrow> bool" where
  "message_inv C db \<longleftrightarrow> codec_ok C \<and> ids_ok me_id (messages db)
     \<and> distinct (map me_idempotency_key (messages db)) \<and> distinct (map me_source_id (messages db))
     \<and> distinct (map me_origin (messages db))
     \<and> (\<forall>row \<in> set (messages db). \<exists>m. decode_message_row C row = Inr m)"

definition message_valid :: "message_request \<Rightarrow> bool" where
  "message_valid rq \<longleftrightarrow> machine_id 256 (rq_idempotency_key rq) \<and> machine_id 256 (rq_source_id rq)
     \<and> machine_id 256 (rq_provider_message_id rq) \<and> plain_text 4096 (rq_summary rq)
     \<and> opt_text 256 (rq_subject rq) \<and> opt_text 320 (rq_sender rq)
     \<and> is_utc (rq_received_at rq) \<and> nanosecond (rq_received_at rq) = 0
     \<and> rfc_range (unix_timestamp (rq_received_at rq))"

definition message_candidates :: "db \<Rightarrow> message_request \<Rightarrow> message_row list" where
  "message_candidates db rq = query_message_rows_by_identity db (rq_idempotency_key rq) (rq_source_id rq)
     (rq_provider rq) (rq_provider_message_id rq)"

lemma record_message_Inr:
  assumes C: "codec_ok C"
  shows "record_message C rq clk db = (db', Inr m) \<longleftrightarrow> message_valid rq \<and>
    (let row = new_message_row db rq (rfc C (unix_timestamp (rq_received_at rq))) clk in
     if message_candidates db rq = []
     then decode_message_row C row = Inr m \<and> db' = db\<lparr>messages := messages db @ [row]\<rparr>
     else db' = db \<and> exact_message_retry C rq (rq_received_at rq) (message_candidates db rq) None = Inr (Some m))"
proof -
  have t: "utc_secs (unix_timestamp d) = d" if "is_utc d" "nanosecond d = 0" for d
    using utc_whole[OF that] by simp
  show ?thesis
    using t[of "rq_received_at rq"]
    by (auto simp: record_message_def rbind_Inr_iff validator_eqs store_limits validate_message_subject_Inr
        validate_message_sender_Inr format_message_timestamp_Inr[OF C] message_valid_def rfc_time_def
        message_candidates_def Let_def split: if_splits)
qed

lemma record_message_error: "record_message C rq clk db = (db', Inl e) \<Longrightarrow> db' = db"
  by (simp add: record_message_def)


definition message_matches :: "message_request \<Rightarrow> stored_message \<Rightarrow> bool" where
  "message_matches rq m \<longleftrightarrow> message_valid rq \<and> exact_message rq (rq_received_at rq) m
     \<and> sm_received_at m = rq_received_at rq"

definition message_stored :: "codec \<Rightarrow> message_request \<Rightarrow> stored_message \<Rightarrow> db \<Rightarrow> bool" where
  "message_stored C rq m db \<longleftrightarrow> message_matches rq m \<and>
     (\<exists>row \<in> set (messages db). decode_message_row C row = Inr m)"

lemma exact_message_retry_Some:
  "exact_message_retry C rq at cs found = Inr (Some m) \<Longrightarrow>
     found = Some m \<or> (\<exists>c \<in> set cs. decode_message_row C c = Inr m \<and> exact_message rq at m)"
  by (induction C rq at cs found rule: exact_message_retry.induct) (auto simp: rbind_Inr_iff split: if_splits)

lemma decoded_received_at:
  assumes "codec_ok C" "decode_message_row C row = Inr m"
  shows "sm_received_at m = utc_secs (unix_timestamp (sm_received_at m))"
  using assms by (auto simp: decode_message_row_Inr message_row_decodes_def)

lemma exact_message_matches:
  assumes C: "codec_ok C" and d: "decode_message_row C row = Inr m" and v: "message_valid rq"
    and e: "exact_message rq (rq_received_at rq) m"
  shows "message_matches rq m"
proof -
  have "rq_received_at rq = utc_secs (unix_timestamp (rq_received_at rq))"
    using v utc_whole by (simp add: message_valid_def)
  moreover have "same_instant (sm_received_at m) (rq_received_at rq)" using e by (simp add: exact_message_def)
  ultimately have "sm_received_at m = rq_received_at rq"
    using decoded_received_at[OF C d] by (metis utc_secs_simps(8))
  then show ?thesis using v e by (simp add: message_matches_def)
qed

lemma new_message_row_decoded:
  assumes C: "codec_ok C" and v: "message_valid rq"
    and d: "decode_message_row C (new_message_row db rq (rfc C (unix_timestamp (rq_received_at rq))) clk) = Inr m"
  shows "message_matches rq m"
proof (rule exact_message_matches[OF C d v])
  from d obtain t where "rfc_time C (rfc C (unix_timestamp (rq_received_at rq))) t" "sm_received_at m = utc_secs t"
    by (auto simp: decode_message_row_Inr[OF C] message_row_decodes_def new_message_row_def)
  then have "t = unix_timestamp (rq_received_at rq)"
    using v by (auto simp: rfc_time_def message_valid_def codec_inject[OF C])
  then have "sm_received_at m = rq_received_at rq"
    using v utc_whole[of "rq_received_at rq"] \<open>sm_received_at m = utc_secs t\<close> by (simp add: message_valid_def)
  then show "exact_message rq (rq_received_at rq) m"
    using d by (simp add: decode_message_row_Inr[OF C] message_row_decodes_def new_message_row_def
        exact_message_def stored_enum_injects)
qed

lemma message_candidates_set:
  "c \<in> set (message_candidates db rq) \<longleftrightarrow> c \<in> set (messages db) \<and>
     (me_idempotency_key c = rq_idempotency_key rq \<or> me_source_id c = rq_source_id rq
      \<or> me_origin c = (provider_as_str (rq_provider rq), rq_provider_message_id rq))"
  by (auto simp: message_candidates_def query_message_rows_by_identity_def same_message_identity_def me_origin_def)

lemma message_inv_insert:
  assumes inv: "message_inv C db" and free: "message_candidates db rq = []"
    and d: "decode_message_row C (new_message_row db rq at clk) = Inr m"
  shows "message_inv C (db\<lparr>messages := messages db @ [new_message_row db rq at clk]\<rparr>)"
proof -
  let ?row = "new_message_row db rq at clk"
  have "\<forall>r \<in> set (messages db). me_idempotency_key r \<noteq> me_idempotency_key ?row"
    "\<forall>r \<in> set (messages db). me_source_id r \<noteq> me_source_id ?row"
    "\<forall>r \<in> set (messages db). me_origin r \<noteq> me_origin ?row"
    using free message_candidates_set[of _ db rq] by (auto simp: new_message_row_def me_origin_def)
  moreover have "ids_ok me_id (messages db @ [?row])"
    using inv ids_ok_insert[of me_id "messages db" ?row] by (simp add: message_inv_def new_message_row_def)
  moreover have "\<forall>row \<in> set (messages db @ [?row]). \<exists>m. decode_message_row C row = Inr m"
    using inv d by (auto simp: message_inv_def)
  ultimately show ?thesis using inv by (simp add: message_inv_def distinct_map_snoc del: map_append)
qed

lemma record_message_ok:
  assumes inv: "message_inv C db" and c: "record_message C rq clk db = (db', Inr m)"
  shows "message_inv C db' \<and> message_stored C rq m db'"
proof -
  have C: "codec_ok C" using inv by (simp add: message_inv_def)
  let ?row = "new_message_row db rq (rfc C (unix_timestamp (rq_received_at rq))) clk"
  have v: "message_valid rq" using c by (simp add: record_message_Inr[OF C])
  show ?thesis
  proof (cases "message_candidates db rq = []")
    case True
    then have d: "decode_message_row C ?row = Inr m" and db': "db' = db\<lparr>messages := messages db @ [?row]\<rparr>"
      using c by (simp_all add: record_message_Inr[OF C] Let_def)
    show ?thesis
      using message_inv_insert[OF inv True d] new_message_row_decoded[OF C v d] d
      by (auto simp: message_stored_def db')
  next
    case False
    then have db': "db' = db"
      and r: "exact_message_retry C rq (rq_received_at rq) (message_candidates db rq) None = Inr (Some m)"
      using c by (simp_all add: record_message_Inr[OF C] Let_def)
    obtain row where row: "row \<in> set (message_candidates db rq)" "decode_message_row C row = Inr m"
      "exact_message rq (rq_received_at rq) m"
      using exact_message_retry_Some[OF r] by auto
    show ?thesis
      using exact_message_matches[OF C row(2) v row(3)] row inv message_candidates_set[of row db rq]
      by (auto simp: message_stored_def db')
  qed
qed

lemma message_row_unique:
  assumes inv: "message_inv C db" and m: "message_matches rq m" and row: "row \<in> set (messages db)" "decode_message_row C row = Inr m"
  shows "message_candidates db rq = [row]"
proof -
  have C: "codec_ok C" using inv by (simp add: message_inv_def)
  have eq: "me_idempotency_key row = rq_idempotency_key rq" "me_source_id row = rq_source_id rq"
    "me_origin row = (provider_as_str (rq_provider rq), rq_provider_message_id rq)"
    using m row(2) by (simp_all add: decode_message_row_Inr[OF C] message_row_decodes_def message_matches_def
        exact_message_def me_origin_def)
  have one: "c = row" if "c \<in> set (message_candidates db rq)" for c
  proof -
    have c: "c \<in> set (messages db)" and "me_idempotency_key c = me_idempotency_key row
        \<or> me_source_id c = me_source_id row \<or> me_origin c = me_origin row"
      using that eq by (simp_all add: message_candidates_set)
    moreover have "distinct (map me_idempotency_key (messages db))" "distinct (map me_source_id (messages db))"
      "distinct (map me_origin (messages db))" using inv by (simp_all add: message_inv_def)
    ultimately show ?thesis using distinct_map_unique[OF _ c row(1)] by metis
  qed
  have "distinct (messages db)"
    using inv ids_ok_distinct[of me_id "messages db"] by (simp add: message_inv_def distinct_map)
  then show ?thesis
    unfolding message_candidates_def query_message_rows_by_identity_def
    by (rule filter_singleton[OF _ row(1)])
      (use one eq message_candidates_set[of _ db rq] row(1)
       in \<open>auto simp: message_candidates_def query_message_rows_by_identity_def\<close>)
qed

lemma record_message_retry:
  assumes inv: "message_inv C db" and st: "message_stored C rq m db"
  shows "record_message C rq clk db = (db, Inr m)"
proof -
  have C: "codec_ok C" using inv by (simp add: message_inv_def)
  obtain row where row: "row \<in> set (messages db)" "decode_message_row C row = Inr m" and m: "message_matches rq m"
    using st by (auto simp: message_stored_def)
  have "message_candidates db rq = [row]" by (rule message_row_unique[OF inv m row])
  then show ?thesis using row(2) m
    by (simp add: record_message_Inr[OF C] message_matches_def Let_def)
qed

lemma record_message_appends:
  assumes "message_inv C db" "record_message C rq clk db = (db', Inr m)"
  shows "\<exists>new. messages db' = messages db @ new \<and> db' = db\<lparr>messages := messages db'\<rparr>"
  using assms by (auto simp: message_inv_def record_message_Inr Let_def split: if_splits)

interpretation message: idempotent_create "record_message C" "message_stored C" "message_inv C" for C
proof
  fix db a clk db' r b r' e
  show "message_inv C db \<Longrightarrow> record_message C a clk db = (db', Inr r) \<Longrightarrow> message_inv C db' \<and> message_stored C a r db'"
    by (rule record_message_ok)
  show "message_inv C db \<Longrightarrow> message_stored C a r db \<Longrightarrow> record_message C b clk db = (db', Inr r') \<Longrightarrow> message_stored C a r db'"
    using record_message_appends[of C db b clk db' r'] by (auto simp: message_stored_def)
  show "message_inv C db \<Longrightarrow> message_stored C a r db \<Longrightarrow> record_message C a clk db = (db, Inr r)"
    by (rule record_message_retry)
  show "record_message C a clk db = (db', Inl e) \<Longrightarrow> db' = db"
    by (rule record_message_error)
qed


section \<open>The triage state machine\<close>

definition message_state :: "db \<Rightarrow> str \<Rightarrow> triage_state option" where
  "message_state db source =
     Option.bind (find (\<lambda>r. me_source_id r = source) (messages db))
       (\<lambda>r. case triage_from_storage (me_triage_state r) of Inl _ \<Rightarrow> None | Inr s \<Rightarrow> Some s)"

definition set_triage :: "triage_state \<Rightarrow> str \<Rightarrow> message_row \<Rightarrow> message_row" where
  "set_triage next updated_at r = r\<lparr>me_triage_state := triage_as_str next, me_updated_at := updated_at\<rparr>"

lemma set_triage_simps [simp]:
  "me_id (set_triage n u r) = me_id r" "me_idempotency_key (set_triage n u r) = me_idempotency_key r"
  "me_source_id (set_triage n u r) = me_source_id r" "me_provider (set_triage n u r) = me_provider r"
  "me_provider_message_id (set_triage n u r) = me_provider_message_id r"
  "me_summary (set_triage n u r) = me_summary r" "me_subject (set_triage n u r) = me_subject r"
  "me_sender (set_triage n u r) = me_sender r" "me_received_at (set_triage n u r) = me_received_at r"
  "me_created_at (set_triage n u r) = me_created_at r" "me_origin (set_triage n u r) = me_origin r"
  "me_triage_state (set_triage n u r) = triage_as_str n" "me_updated_at (set_triage n u r) = u"
  by (simp_all add: set_triage_def me_origin_def)

definition with_triage :: "str \<Rightarrow> triage_state \<Rightarrow> str \<Rightarrow> db \<Rightarrow> db" where
  "with_triage source next updated_at db =
     db\<lparr>messages := update_rows (\<lambda>r. me_source_id r = source) (set_triage next updated_at) (messages db)\<rparr>"

lemma find_message_unique:
  assumes "message_inv C db" "row \<in> set (messages db)"
  shows "find (\<lambda>r. me_source_id r = me_source_id row) (messages db) = Some row"
  using find_unique[OF _ assms(2), of me_source_id] assms(1) by (simp add: message_inv_def)

lemma message_state_row:
  assumes "message_inv C db" "row \<in> set (messages db)" "decode_message_row C row = Inr m"
  shows "message_state db (me_source_id row) = Some (sm_triage_state m)"
  using find_message_unique[OF assms(1,2)] assms(1,3)
  by (simp add: message_state_def message_inv_def decode_message_row_Inr message_row_decodes_def)

lemma update_message_state_eq:
  assumes inv: "message_inv C db" and row: "row \<in> set (messages db)" "decode_message_row C row = Inr m"
    and p: "sm_provider m \<noteq> MpVoice" and e: "sm_triage_state m = e"
  shows "update_message_state n u (me_source_id row) e db = (with_triage (me_source_id row) n u db, 1)"
proof -
  let ?q = "\<lambda>r. me_provider r \<in> {provider_as_str MpOutlook, provider_as_str MpGmail} \<and> me_triage_state r = triage_as_str e"
  have C: "codec_ok C" using inv by (simp add: message_inv_def)
  have q: "?q row" using row(2) p e
    by (cases "sm_provider m") (auto simp: decode_message_row_Inr[OF C] message_row_decodes_def)
  have only: "r = row" if "r \<in> set (messages db)" "me_source_id r = me_source_id row" for r
    using distinct_map_unique[of me_source_id "messages db" r row] inv that row(1) by (simp add: message_inv_def)
  have "count_rows (\<lambda>r. me_source_id r = me_source_id row \<and> ?q r) (messages db) = 1"
    by (rule count_rows_key[where q = ?q, OF _ row(1) q]) (use inv in \<open>simp add: message_inv_def\<close>)
  moreover have "update_rows (\<lambda>r. me_source_id r = me_source_id row \<and> ?q r) (set_triage n u) (messages db)
      = update_rows (\<lambda>r. me_source_id r = me_source_id row) (set_triage n u) (messages db)"
    unfolding update_rows_def using only q by (intro map_cong refl) metis
  moreover have "(\<lambda>r. r\<lparr>me_triage_state := triage_as_str n, me_updated_at := u\<rparr>) = set_triage n u"
    by (simp add: set_triage_def fun_eq_iff)
  ultimately show ?thesis
    by (simp add: update_message_state_def with_triage_def Let_def)
qed

lemma find_with_triage:
  "find (\<lambda>r. me_source_id r = s) (messages (with_triage source n u db)) =
     map_option (\<lambda>r. if me_source_id r = source then set_triage n u r else r)
       (find (\<lambda>r. me_source_id r = s) (messages db))"
  unfolding with_triage_def by simp (rule find_update_rows, simp)

lemma decode_set_triage:
  assumes C: "codec_ok C" and d: "decode_message_row C row = Inr m"
    and s: "valid_message_state (sm_provider m) n" and u: "rfc_time C u t"
  shows "decode_message_row C (set_triage n u row) = Inr (m\<lparr>sm_triage_state := n, sm_updated_at := u\<rparr>)"
  using d s u by (auto simp: decode_message_row_Inr[OF C] message_row_decodes_def)

lemma with_triage_inv:
  assumes inv: "message_inv C db" and row: "row \<in> set (messages db)" "decode_message_row C row = Inr m"
    and s: "valid_message_state (sm_provider m) n" and u: "rfc_time C u t"
  shows "message_inv C (with_triage (me_source_id row) n u db)"
proof -
  have C: "codec_ok C" using inv by (simp add: message_inv_def)
  let ?f = "\<lambda>r. if me_source_id r = me_source_id row then set_triage n u r else r"
  have rows: "messages (with_triage (me_source_id row) n u db) = map ?f (messages db)"
    by (simp add: with_triage_def update_rows_def)
  have keys: "map me_idempotency_key (map ?f (messages db)) = map me_idempotency_key (messages db)"
    "map me_source_id (map ?f (messages db)) = map me_source_id (messages db)"
    "map me_origin (map ?f (messages db)) = map me_origin (messages db)"
    by (auto simp: comp_def)
  have only: "r = row" if "r \<in> set (messages db)" "me_source_id r = me_source_id row" for r
    using distinct_map_unique[of me_source_id "messages db" r row] inv that row(1) by (simp add: message_inv_def)
  have "\<exists>m. decode_message_row C (?f r) = Inr m" if "r \<in> set (messages db)" for r
    using decode_set_triage[OF C row(2) s u] only[OF that] that inv by (auto simp: message_inv_def)
  then have "\<forall>r \<in> set (map ?f (messages db)). \<exists>m. decode_message_row C r = Inr m"
    unfolding list.set_map by blast
  moreover have "ids_ok me_id (map ?f (messages db))"
    by (rule ids_ok_map) (use inv in \<open>simp_all add: message_inv_def\<close>)
  ultimately show ?thesis using inv by (simp add: message_inv_def rows keys del: map_map set_map)
qed

lemma valid_transition_state:
  "valid_message_transition e n \<Longrightarrow> p \<noteq> MpVoice \<Longrightarrow> valid_message_state p n \<and> valid_message_state p e \<and> e \<noteq> n"
  by (cases p) (auto simp: valid_message_transition_def valid_message_state_def)

lemma transition_message_row:
  assumes inv: "message_inv C db" and row: "row \<in> set (messages db)" "decode_message_row C row = Inr m"
    and p: "sm_provider m \<noteq> MpVoice" and v: "valid_message_transition e n"
    and t: "is_utc t" "nanosecond t = 0" "rfc_time C u (unix_timestamp t)"
  shows "transition_message C (me_source_id row) e n t db =
    (if sm_triage_state m = n \<and> sm_updated_at m = u then (db, Inr m)
     else if sm_triage_state m \<noteq> e then (db, Inl (Conflict ''message transition''))
     else (with_triage (me_source_id row) n u db, Inr (m\<lparr>sm_triage_state := n, sm_updated_at := u\<rparr>)))"
proof -
  have C: "codec_ok C" using inv by (simp add: message_inv_def)
  have id: "validate_message_source_id (me_source_id row) = Inr (me_source_id row)"
    using row(2) by (simp add: decode_message_row_Inr[OF C] message_row_decodes_def validator_eqs)
  have f: "format_message_updated_timestamp C t = Inr (t, u)"
    using t by (simp add: format_message_updated_timestamp_Inr[OF C])
  have d: "decode_message_row C (set_triage n u row) = Inr (m\<lparr>sm_triage_state := n, sm_updated_at := u\<rparr>)"
    using decode_set_triage[OF C row(2) _ t(3)] valid_transition_state[OF v p] by simp
  have find: "find (\<lambda>r. me_source_id r = me_source_id row) (messages db) = Some row"
    by (rule find_message_unique[OF inv row(1)])
  then have find': "find (\<lambda>r. me_source_id r = me_source_id row) (messages (with_triage (me_source_id row) n u db))
      = Some (set_triage n u row)"
    by (simp add: find_with_triage)
  show ?thesis
    using id f v find find' d row(2) p update_message_state_eq[OF inv row p refl, of n u]
    by (auto simp: transition_message_def run_tx_def)
qed

lemma transition_message_Inr:
  assumes inv: "message_inv C db"
  shows "transition_message C s e n t db = (db', Inr m') \<longleftrightarrow>
    is_utc t \<and> nanosecond t = 0 \<and> rfc_range (unix_timestamp t) \<and> valid_message_transition e n
    \<and> (\<exists>row m. row \<in> set (messages db) \<and> me_source_id row = s \<and> decode_message_row C row = Inr m
         \<and> sm_provider m \<noteq> MpVoice
         \<and> (if sm_triage_state m = n \<and> sm_updated_at m = rfc C (unix_timestamp t)
            then db' = db \<and> m' = m
            else sm_triage_state m = e \<and> db' = with_triage s n (rfc C (unix_timestamp t)) db
               \<and> m' = m\<lparr>sm_triage_state := n, sm_updated_at := rfc C (unix_timestamp t)\<rparr>))"
  (is "?l \<longleftrightarrow> ?r")
proof
  have C: "codec_ok C" using inv by (simp add: message_inv_def)
  assume l: ?l
  then obtain u row m where x: "format_message_updated_timestamp C t = Inr (t, u)" "valid_message_transition e n"
    "find (\<lambda>r. me_source_id r = s) (messages db) = Some row" "decode_message_row C row = Inr m" "sm_provider m \<noteq> MpVoice"
    by (auto simp: transition_message_def rbind_Inr_iff validator_eqs format_message_updated_timestamp_Inr[OF C]
        split: if_splits)
  have row: "row \<in> set (messages db)" "me_source_id row = s" using find_Some_mem[OF x(3)] by auto
  have t: "is_utc t" "nanosecond t = 0" "rfc_time C u (unix_timestamp t)"
    using x(1) by (auto simp: format_message_updated_timestamp_Inr[OF C])
  show ?r
    using l transition_message_row[OF inv row(1) x(4,5,2) t] row t x(2,4,5)
    by (auto simp: rfc_time_def split: if_splits)
next
  assume ?r
  then obtain row m where r: "row \<in> set (messages db)" "me_source_id row = s" "decode_message_row C row = Inr m"
    "sm_provider m \<noteq> MpVoice" "is_utc t" "nanosecond t = 0" "rfc_range (unix_timestamp t)"
    "valid_message_transition e n"
    "if sm_triage_state m = n \<and> sm_updated_at m = rfc C (unix_timestamp t) then db' = db \<and> m' = m
     else sm_triage_state m = e \<and> db' = with_triage s n (rfc C (unix_timestamp t)) db
        \<and> m' = m\<lparr>sm_triage_state := n, sm_updated_at := rfc C (unix_timestamp t)\<rparr>" by blast
  have "rfc_time C (rfc C (unix_timestamp t)) (unix_timestamp t)" using r(7) by (simp add: rfc_time_def)
  from transition_message_row[OF inv r(1,3,4,8,5,6) this] show ?l using r(2,9) by (auto split: if_splits)
qed


lemma message_state_with_triage:
  "message_state (with_triage s n u db) j =
     (if j = s \<and> message_state db s \<noteq> None then Some n
      else if j = s \<and> find (\<lambda>r. me_source_id r = s) (messages db) \<noteq> None then Some n else message_state db j)"
proof (cases "find (\<lambda>r. me_source_id r = j) (messages db)")
  case None
  then show ?thesis by (auto simp: message_state_def find_with_triage)
next
  case (Some r)
  then have "me_source_id r = j" by (auto dest: find_Some_mem)
  then show ?thesis using Some by (auto simp: message_state_def find_with_triage)
qed

interpretation triage: cas_machine "transition_message C" message_state valid_message_transition "message_inv C" for C
proof
  fix db k e n t db' r j err
  assume inv: "message_inv C db"
  then have C: "codec_ok C" by (simp add: message_inv_def)
  {
    assume c: "transition_message C k e n t db = (db', Inr r)"
    then obtain row m where x: "row \<in> set (messages db)" "me_source_id row = k" "decode_message_row C row = Inr m"
      "sm_provider m \<noteq> MpVoice" "valid_message_transition e n" "rfc_range (unix_timestamp t)"
      "if sm_triage_state m = n \<and> sm_updated_at m = rfc C (unix_timestamp t) then db' = db \<and> r = m
       else sm_triage_state m = e \<and> db' = with_triage k n (rfc C (unix_timestamp t)) db
         \<and> r = m\<lparr>sm_triage_state := n, sm_updated_at := rfc C (unix_timestamp t)\<rparr>"
      using transition_message_Inr[OF inv, of k e n t db' r] by blast
    have st: "message_state db k = Some (sm_triage_state m)"
      using message_state_row[OF inv x(1,3)] x(2) by simp
    have inv': "message_inv C (with_triage k n (rfc C (unix_timestamp t)) db)"
      using with_triage_inv[OF inv x(1,3), of n "rfc C (unix_timestamp t)" "unix_timestamp t"]
        valid_transition_state[OF x(5,4)] x(2,6) by (simp add: rfc_time_def)
    have at_k: "message_state (with_triage k n (rfc C (unix_timestamp t)) db) k = Some n"
      using st by (simp add: message_state_with_triage)
    have off_k: "j \<noteq> k \<Longrightarrow> message_state (with_triage k n (rfc C (unix_timestamp t)) db) j = message_state db j"
      by (simp add: message_state_with_triage)
    show "message_inv C db' \<and> (db' = db \<and> message_state db k = Some n \<or>
        valid_message_transition e n \<and> message_state db k = Some e \<and> message_state db' k = Some n)"
    proof (cases "sm_triage_state m = n \<and> sm_updated_at m = rfc C (unix_timestamp t)")
      case True
      then show ?thesis using x(7) st inv by simp
    next
      case False
      then have "sm_triage_state m = e \<and> db' = with_triage k n (rfc C (unix_timestamp t)) db"
        using x(7) by (simp only: if_False simp_thms)
      then show ?thesis using st inv' at_k x(5) by simp
    qed
    show "j \<noteq> k \<Longrightarrow> message_state db' j = message_state db j"
      using x(7) off_k by (cases "sm_triage_state m = n \<and> sm_updated_at m = rfc C (unix_timestamp t)") auto
  }
next
  fix k e n t db db' err
  show "transition_message C k e n t db = (db', Inl err) \<Longrightarrow> db' = db"
    by (simp add: transition_message_def)
qed

section \<open>The life of a message\<close>

inductive message_step :: "codec \<Rightarrow> db \<Rightarrow> db \<Rightarrow> bool" for C where
  recorded: "record_message C rq clk db = (db', Inr m) \<Longrightarrow> message_step C db db'"
| triaged: "transition_message C s e n t db = (db', Inr m) \<Longrightarrow> message_step C db db'"

inductive_cases message_stepE: "message_step C db db'"

definition message_identity ::
    "message_row \<Rightarrow> int \<times> str \<times> str \<times> str \<times> str \<times> str \<times> str option \<times> str option \<times> str \<times> str" where
  "message_identity r = (me_id r, me_idempotency_key r, me_source_id r, me_provider r, me_provider_message_id r,
     me_summary r, me_subject r, me_sender r, me_received_at r, me_created_at r)"

definition triage_path :: "message_row \<Rightarrow> message_row \<Rightarrow> bool" where
  "triage_path r r' \<longleftrightarrow> (\<exists>s s'. me_triage_state r = triage_as_str s \<and> me_triage_state r' = triage_as_str s'
     \<and> valid_message_transition\<^sup>*\<^sup>* s s' \<and> (me_provider r = provider_as_str MpVoice \<longrightarrow> r' = r))"

lemma triage_path_trans: "triage_path a b \<Longrightarrow> triage_path b c \<Longrightarrow> message_identity b = message_identity a \<Longrightarrow> triage_path a c"
  by (auto simp: triage_path_def stored_enum_injects message_identity_def)

lemma triage_path_refl: "message_inv C db \<Longrightarrow> r \<in> set (messages db) \<Longrightarrow> triage_path r r"
proof -
  assume inv: "message_inv C db" and r: "r \<in> set (messages db)"
  then obtain m where "decode_message_row C r = Inr m" "codec_ok C" by (auto simp: message_inv_def)
  then have "me_triage_state r = triage_as_str (sm_triage_state m)"
    by (simp add: decode_message_row_Inr message_row_decodes_def)
  then show "triage_path r r" by (auto simp: triage_path_def)
qed

lemma message_step_life:
  assumes inv: "message_inv C db" and step: "message_step C db db'"
  shows "message_inv C db' \<and> (\<forall>r \<in> set (messages db). \<exists>r' \<in> set (messages db').
           message_identity r' = message_identity r \<and> triage_path r r')"
  using step
proof (rule message_stepE)
  fix rq clk m
  assume recorded: "record_message C rq clk db = (db', Inr m)"
  have "message_inv C db'" using record_message_ok[OF inv recorded] by simp
  then show ?thesis using record_message_appends[OF inv recorded] triage_path_refl[OF inv]
    by (metis Un_iff set_append)
next
  fix s e n t m'
  assume triaged: "transition_message C s e n t db = (db', Inr m')"
  have C: "codec_ok C" using inv by (simp add: message_inv_def)
  have inv': "message_inv C db'" using triage.cas_ok[OF inv triaged] by simp
  obtain row m where x: "row \<in> set (messages db)" "me_source_id row = s" "decode_message_row C row = Inr m"
      "sm_provider m \<noteq> MpVoice" "valid_message_transition e n"
      "db' = db \<or> sm_triage_state m = e \<and> db' = with_triage s n (rfc C (unix_timestamp t)) db"
    using transition_message_Inr[OF inv, of s e n t db' m'] triaged by (metis (no_types, lifting))
  show ?thesis
  proof (cases "db' = db")
    case True
    then show ?thesis using inv triage_path_refl[OF inv] by blast
  next
    case False
    let ?f = "\<lambda>r. if me_source_id r = s then set_triage n (rfc C (unix_timestamp t)) r else r"
    have rows: "set (messages db') = ?f ` set (messages db)"
      using False x(6) by (auto simp: with_triage_def update_rows_def)
    have "message_identity (?f r) = message_identity r \<and> triage_path r (?f r)" if r: "r \<in> set (messages db)" for r
    proof (cases "me_source_id r = s")
      case True
      then have "r = row" using distinct_map_unique[of me_source_id "messages db" r row] inv r x(1,2)
        by (simp add: message_inv_def)
      moreover have "me_triage_state row = triage_as_str e" "me_provider row \<noteq> provider_as_str MpVoice"
        using x(3,4,6) False by (auto simp: decode_message_row_Inr[OF C] message_row_decodes_def stored_enum_injects
            simp del: provider_as_str.simps)
      ultimately show ?thesis using True x(5) by (auto simp: message_identity_def triage_path_def)
    next
      case False
      then show ?thesis using triage_path_refl[OF inv r] by simp
    qed
    then show ?thesis using inv' rows by blast
  qed
qed

text \<open>
  C11. A stored message never disappears and never changes except for its triage state: along any
  sequence of successful recordings and transitions its identity, content and creation time stay
  the same, its state moves only along the transition graph, and a voice message is never touched.
\<close>

theorem message_life_cycle:
  assumes "message_inv C db" "(message_step C)\<^sup>*\<^sup>* db db'" "r \<in> set (messages db)"
  shows "message_inv C db' \<and> (\<exists>r' \<in> set (messages db'). message_identity r' = message_identity r
    \<and> (\<exists>s s'. me_triage_state r = triage_as_str s \<and> me_triage_state r' = triage_as_str s'
         \<and> valid_message_transition\<^sup>*\<^sup>* s s' \<and> (me_provider r = provider_as_str MpVoice \<longrightarrow> r' = r)))"
proof -
  have "message_inv C db' \<and> (\<exists>r' \<in> set (messages db'). message_identity r' = message_identity r \<and> triage_path r r')"
    using assms(2)
  proof (induction rule: rtranclp_induct)
    case base
    then show ?case using assms(1,3) triage_path_refl by blast
  next
    case (step d d')
    then obtain r1 where r1: "r1 \<in> set (messages d)" "message_identity r1 = message_identity r" "triage_path r r1"
      and inv: "message_inv C d" by blast
    obtain r2 where "r2 \<in> set (messages d')" "message_identity r2 = message_identity r1" "triage_path r1 r2"
      and "message_inv C d'"
      using message_step_life[OF inv step.hyps(2)] r1(1) by blast
    then show ?case using r1 triage_path_trans by metis
  qed
  then show ?thesis unfolding triage_path_def .
qed


section \<open>The schema accepts every row\<close>

text \<open>
  The \<open>CHECK\<close> constraints of the table (\<open>apply_schema_v6\<close>). \<open>utc_text\<close> stands for SQLite's
  \<open>strftime\<close>-based test that a text is a canonical UTC timestamp of 20 characters.
\<close>

definition sql_space :: "rchar \<Rightarrow> bool" where
  "sql_space c \<longleftrightarrow> c \<in> {9, 10, 11, 12, 13, 32, 133, 160, 5760, 8192, 8193, 8194, 8195, 8196, 8197, 8198, 8199,
     8200, 8201, 8202, 8232, 8233, 8239, 8287, 12288}"

definition sql_identifier_check :: "nat \<Rightarrow> str \<Rightarrow> bool" where
  "sql_identifier_check n s \<longleftrightarrow> 1 \<le> str_len s \<and> str_len s \<le> n \<and> 0 \<notin> set s
     \<and> \<not> list_ex (\<lambda>c. \<not> (is_ascii_alphanumeric c \<or> c \<in> {46, 95, 58, 45})) s"

definition sql_text_check :: "nat \<Rightarrow> str \<Rightarrow> bool" where
  "sql_text_check n s \<longleftrightarrow> 1 \<le> str_len s \<and> str_len s \<le> n \<and> 0 \<notin> set s
     \<and> length (trim_matches sql_space s) > 0
     \<and> \<not> list_ex (\<lambda>c. (1 \<le> c \<and> c \<le> 31) \<or> (127 \<le> c \<and> c \<le> 159)) s"

definition message_row_check :: "(str \<Rightarrow> bool) \<Rightarrow> message_row \<Rightarrow> bool" where
  "message_row_check utc_text r \<longleftrightarrow>
     sql_identifier_check 256 (me_idempotency_key r) \<and> sql_identifier_check 256 (me_source_id r)
     \<and> me_provider r \<in> {lit ''voice'', lit ''outlook'', lit ''gmail''}
     \<and> sql_identifier_check 256 (me_provider_message_id r) \<and> sql_text_check 4096 (me_summary r)
     \<and> (case me_subject r of None \<Rightarrow> True | Some s \<Rightarrow> sql_text_check 256 s)
     \<and> (case me_sender r of None \<Rightarrow> True | Some s \<Rightarrow> sql_text_check 320 s)
     \<and> utc_text (me_received_at r)
     \<and> me_triage_state r \<in> {lit ''recorded'', lit ''unprocessed'', lit ''actionable'', lit ''ambiguous'',
                            lit ''ignored'', lit ''scheduled''}
     \<and> utc_text (me_created_at r) \<and> utc_text (me_updated_at r)
     \<and> (me_provider r = lit ''voice'' \<and> me_triage_state r = lit ''recorded''
        \<or> me_provider r \<in> {lit ''outlook'', lit ''gmail''} \<and> me_triage_state r = lit ''unprocessed''
        \<or> me_triage_state r \<in> {lit ''actionable'', lit ''ambiguous'', lit ''ignored'', lit ''scheduled''})"

lemma sql_space_eq: "sql_space = is_whitespace"
proof
  fix c
  show "sql_space c = is_whitespace c"
  proof (cases "8192 \<le> c \<and> c \<le> 8202 \<or> 9 \<le> c \<and> c \<le> 13")
    case True
    then have "c \<in> {8192, 8193, 8194, 8195, 8196, 8197, 8198, 8199, 8200, 8201, 8202, 9, 10, 11, 12, 13}"
      by (simp, presburger)
    then show ?thesis using True by (auto simp: sql_space_def is_whitespace_def)
  next
    case False
    then show ?thesis by (auto simp: sql_space_def is_whitespace_def)
  qed
qed

lemma str_len_pos: "s \<noteq> [] \<Longrightarrow> 1 \<le> str_len s"
  using str_len_0[of s] by (cases "str_len s") auto

lemma machine_id_sql: "machine_id n s \<Longrightarrow> sql_identifier_check n s"
proof -
  assume s: "machine_id n s"
  then have all: "list_all machine_byte s" "s \<noteq> []" "length s \<le> n" by (simp_all add: machine_id_def)
  then have "0 \<notin> set s" by (auto simp: list_all_iff machine_byte_def char_class_defs)
  then show ?thesis
    using all machine_id_str_len[OF all(1)] str_len_pos[OF all(2)]
    by (auto simp: sql_identifier_check_def list_ex_iff list_all_iff machine_byte_def)
qed

lemma plain_text_sql: "plain_text n s \<Longrightarrow> sql_text_check n s"
proof -
  assume s: "plain_text n s"
  then have "s \<noteq> []" by (auto simp: plain_text_def str_trim_def trim_matches_def)
  then show ?thesis
    using s str_len_pos[of s]
    by (auto simp: sql_text_check_def plain_text_def sql_space_eq str_trim_def list_ex_iff is_control_def)
qed

lemma decoded_message_passes:
  assumes C: "codec_ok C" and d: "decode_message_row C r = Inr m" and u: "\<And>t. rfc_range t \<Longrightarrow> utc_text (rfc C t)"
  shows "message_row_check utc_text r"
proof -
  have opt: "opt_text n v \<Longrightarrow> (case v of None \<Rightarrow> True | Some s \<Rightarrow> sql_text_check n s)" for n v
    by (cases v) (auto simp: opt_text_def plain_text_sql)
  have time: "\<exists>t. rfc_time C s t \<Longrightarrow> utc_text s" for s using u by (auto simp: rfc_time_def)
  note row = d[unfolded decode_message_row_Inr[OF C] message_row_decodes_def]
  have names: "me_provider r = provider_as_str (sm_provider m)" "me_triage_state r = triage_as_str (sm_triage_state m)"
    "valid_message_state (sm_provider m) (sm_triage_state m)" using row by simp_all
  have "me_provider r \<in> {lit ''voice'', lit ''outlook'', lit ''gmail''}
    \<and> me_triage_state r \<in> {lit ''recorded'', lit ''unprocessed'', lit ''actionable'', lit ''ambiguous'',
                            lit ''ignored'', lit ''scheduled''}
    \<and> (me_provider r = lit ''voice'' \<and> me_triage_state r = lit ''recorded''
        \<or> me_provider r \<in> {lit ''outlook'', lit ''gmail''} \<and> me_triage_state r = lit ''unprocessed''
        \<or> me_triage_state r \<in> {lit ''actionable'', lit ''ambiguous'', lit ''ignored'', lit ''scheduled''})"
    using names(3) unfolding names(1,2)
    by (cases "sm_provider m"; cases "sm_triage_state m") (simp_all add: valid_message_state_def)
  then show ?thesis
    unfolding message_row_check_def
    using row machine_id_sql plain_text_sql opt time by blast
qed

text \<open>
  The Rust validation is at least as strict as the database: after any successful recordings
  and transitions every row of the table satisfies all \<open>CHECK\<close> constraints and all uniqueness
  constraints of the schema, so no write of the code is refused by them.
\<close>

theorem message_rows_satisfy_schema:
  assumes "message_inv C db" "(message_step C)\<^sup>*\<^sup>* db db'"
    and "\<And>t. rfc_range t \<Longrightarrow> utc_text (rfc C t)"
  shows "list_all (message_row_check utc_text) (messages db')
    \<and> distinct (map me_idempotency_key (messages db')) \<and> distinct (map me_source_id (messages db'))
    \<and> distinct (map (\<lambda>r. (me_provider r, me_provider_message_id r)) (messages db'))"
proof -
  have "message_inv C db'"
    using assms(2) by (induction rule: rtranclp_induct) (use assms(1) message_step_life in blast)+
  then show ?thesis
    using decoded_message_passes[where utc_text = utc_text and C = C, OF _ _ assms(3)]
    by (auto simp: message_inv_def list_all_iff me_origin_def[abs_def])
qed

text \<open>
  A recording that succeeded can be retried at any later time, after any other recordings: it
  returns the original message and changes nothing.
\<close>

theorem message_recording_is_idempotent:
  assumes "message_inv C db" "record_message C rq clk db = (db', Inr m)"
  shows "record_message C rq clk' (create_run (record_message C) others db')
           = (create_run (record_message C) others db', Inr m)"
  by (rule message.retry_after_run[OF assms])

text \<open>
  Two workers that saw the same triage state cannot both move a message to different states:
  after one transition succeeded, another from the same expected state succeeds only as an
  identical retry, and then changes nothing; whatever is attempted afterwards, a message that is
  ambiguous, ignored or scheduled stays so.
\<close>

theorem message_transition_has_one_winner:
  assumes "message_inv C db" "message_state db s = Some e"
    and "transition_message C s e n t db = (db1, Inr m1)"
  shows "(transition_message C s e n' t' db1 = (db2, Inr m2) \<longrightarrow> n' = n \<and> db2 = db1)
    \<and> (n \<in> {TsAmbiguous, TsIgnored, TsScheduled} \<longrightarrow>
        message_state (transition_run (transition_message C) calls db1) s = Some n)"
proof -
  have ok: "message_inv C db1" "message_state db1 s = Some n"
    using triage.cas_ok[OF assms(1,3)] assms(2) by auto
  have valid: "valid_message_transition e n"
    using transition_message_Inr[OF assms(1)] assms(3) by blast
  have irr: "\<not> valid_message_transition x x" for x by (auto simp: valid_message_transition_def)
  have "n' = n \<and> db2 = db1" if c: "transition_message C s e n' t' db1 = (db2, Inr m2)"
  proof -
    have "db2 = db1 \<and> message_state db1 s = Some n' \<or> message_state db1 s = Some e"
      using triage.cas_ok[OF ok(1) c] by blast
    then show ?thesis using ok(2) valid irr by auto
  qed
  moreover have "message_state (transition_run (transition_message C) calls db1) s = Some n"
    if "n \<in> {TsAmbiguous, TsIgnored, TsScheduled}"
    by (rule triage.run_terminal[OF ok]) (use that in \<open>auto simp: valid_message_transition_def\<close>)
  ultimately show ?thesis by blast
qed

text \<open>
  C31. Paging through the messages, or through those of one triage state, is complete: reading
  pages of any allowed size until one is empty returns exactly those messages, once, in id order.
\<close>

theorem message_paging_is_complete:
  assumes inv: "message_inv C db" and limit: "1 \<le> limit" "limit \<le> 100" and fuel: "length (messages db) < fuel"
  shows "\<exists>all some. read_pages (\<lambda>a. list_messages C a limit db) sm_id fuel None = Inr all
      \<and> list_all2 (\<lambda>row m. decode_message_row C row = Inr m) (messages db) all
      \<and> read_pages (\<lambda>a. list_messages_by_triage_state C s a limit db) sm_id fuel None = Inr some
      \<and> some = filter (\<lambda>m. sm_triage_state m = s) all"
proof -
  have C: "codec_ok C" and ids: "ids_ok me_id (messages db)" using inv by (simp_all add: message_inv_def)
  have dec: "\<exists>m. decode_message_row C r = Inr m \<and> sm_id m = me_id r" if "r \<in> set (messages db)" for r
    using inv that unfolding message_inv_def decode_message_row_Inr[OF C] message_row_decodes_def by blast
  have page: "check_page a limit MAX_MESSAGE_LIST_LIMIT = Inr ()" if "\<forall>i. a = Some i \<longrightarrow> 1 \<le> i" for a
    using that limit by (auto simp: check_page_def store_limits split: option.splits)
  have all: "read_pages (\<lambda>a. list_messages C a limit db) sm_id fuel None = rmap (decode_message_row C) (messages db)"
    by (rule read_pages_complete[OF ids _ fuel dec, of limit]) (use limit page in \<open>auto simp: list_messages_def\<close>)
  let ?p = "\<lambda>r. me_triage_state r = triage_as_str s \<or> me_triage_state r \<notin> set triage_names"
  have "read_pages (\<lambda>a. list_messages_by_triage_state C s a limit db) sm_id fuel None
      = rmap (decode_message_row C) (filter ?p (messages db))"
    by (rule read_pages_complete[OF ids_ok_filter[OF ids], of limit])
      (use limit page fuel dec le_less_trans[OF length_filter_le fuel] in \<open>auto simp: list_messages_by_triage_state_def\<close>)
  moreover have "rmap (decode_message_row C) rows = Inr xs \<Longrightarrow>
      rmap (decode_message_row C) (filter ?p rows) = Inr (filter (\<lambda>m. sm_triage_state m = s) xs)" for rows xs
  proof (induction rows arbitrary: xs)
    case Nil
    then show ?case by simp
  next
    case (Cons r rows)
    then obtain m ys where x: "decode_message_row C r = Inr m" "rmap (decode_message_row C) rows = Inr ys" "xs = m # ys"
      by (auto simp: rbind_Inr_iff)
    have "me_triage_state r = triage_as_str (sm_triage_state m)"
      using x(1) by (simp add: decode_message_row_Inr[OF C] message_row_decodes_def)
    moreover have "triage_as_str t \<in> set triage_names" for t by (cases t) (simp_all add: triage_names_def)
    ultimately have "?p r \<longleftrightarrow> sm_triage_state m = s" by (auto simp: triage.name_inject)
    then show ?case using Cons.IH[OF x(2)] x by simp
  qed
  moreover obtain xs where "rmap (decode_message_row C) (messages db) = Inr xs" using rmap_total dec by metis
  ultimately show ?thesis using all by (auto simp: rmap_Inr_iff)
qed


section \<open>Witnesses\<close>

definition demo_request_message :: message_request where
  "demo_request_message = \<lparr>rq_idempotency_key = lit ''k'', rq_source_id = lit ''s'', rq_provider = MpGmail,
     rq_provider_message_id = lit ''p'', rq_summary = lit ''hello'', rq_subject = None, rq_sender = None,
     rq_received_at = utc_secs 50\<rparr>"

definition demo_message_row :: message_row where
  "demo_message_row = \<lparr>me_id = 1, me_idempotency_key = lit ''k'', me_source_id = lit ''s'', me_provider = lit ''gmail'',
     me_provider_message_id = lit ''p'', me_summary = lit ''hello'', me_subject = None, me_sender = None,
     me_received_at = [50], me_triage_state = lit ''unprocessed'', me_created_at = [60], me_updated_at = [60]\<rparr>"

definition demo_message :: stored_message where
  "demo_message = \<lparr>sm_id = 1, sm_idempotency_key = lit ''k'', sm_source_id = lit ''s'', sm_provider = MpGmail,
     sm_provider_message_id = lit ''p'', sm_summary = lit ''hello'', sm_subject = None, sm_sender = None,
     sm_received_at = utc_secs 50, sm_triage_state = TsUnprocessed, sm_created_at = [60], sm_updated_at = [60]\<rparr>"

definition demo_messages_db :: db where
  "demo_messages_db = empty_db\<lparr>messages := [demo_message_row]\<rparr>"

lemma demo_times: "rfc_range 50" "rfc_range 60" "rfc_range 70"
  by (simp_all add: rfc_range_def rfc_min_secs_def odt_max_secs_def)

lemma demo_message_decodes: "decode_message_row demo_codec demo_message_row = Inr demo_message"
  unfolding decode_message_row_Inr[OF demo_codec_ok] message_row_decodes_def
  using demo_times
  by (auto simp: demo_message_row_def demo_message_def machine_id_def machine_byte_def char_class_defs
      rfc_time_def demo_rfc plain_text_def str_trim_def trim_matches_def utf8_char_def opt_text_def
      valid_message_state_def intro!: exI[of _ 50] exI[of _ 60])

lemma message_inv_empty: "codec_ok C \<Longrightarrow> message_inv C empty_db"
  by (simp add: message_inv_def empty_db_def)

lemma demo_record:
  "record_message demo_codec demo_request_message [60] empty_db = (demo_messages_db, Inr demo_message)"
proof -
  have "message_valid demo_request_message"
    using demo_times by (simp add: message_valid_def demo_request_message_def machine_id_def machine_byte_def
        char_class_defs plain_text_def str_trim_def trim_matches_def utf8_char_def opt_text_def)
  moreover have "new_message_row empty_db demo_request_message
      (rfc demo_codec (unix_timestamp (rq_received_at demo_request_message))) [60] = demo_message_row"
    using demo_times by (simp add: new_message_row_def demo_request_message_def demo_message_row_def demo_rfc
        next_id_def empty_db_def)
  ultimately show ?thesis
    using demo_message_decodes
    by (simp add: record_message_Inr[OF demo_codec_ok] message_candidates_def query_message_rows_by_identity_def
        demo_messages_db_def empty_db_def)
qed

lemma demo_messages_inv: "message_inv demo_codec demo_messages_db"
  using record_message_ok[OF message_inv_empty[OF demo_codec_ok] demo_record] by simp

lemma demo_transition:
  "transition_message demo_codec (lit ''s'') TsUnprocessed TsIgnored (utc_secs 70) demo_messages_db
     = (with_triage (lit ''s'') TsIgnored [70] demo_messages_db,
        Inr (demo_message\<lparr>sm_triage_state := TsIgnored, sm_updated_at := [70]\<rparr>))"
  using transition_message_row[OF demo_messages_inv, of demo_message_row demo_message TsUnprocessed TsIgnored
      "utc_secs 70" "[70]"] demo_message_decodes demo_times
  by (simp add: demo_messages_db_def valid_message_transition_def rfc_time_def demo_rfc demo_message_def
      demo_message_row_def)

theorem message_recording_is_idempotent_witness:
  "record_message demo_codec demo_request_message [99] demo_messages_db = (demo_messages_db, Inr demo_message)"
  using message_recording_is_idempotent[OF message_inv_empty[OF demo_codec_ok] demo_record, of "[99]" "[]"] by simp

theorem message_life_cycle_witness:
  "\<exists>r' \<in> set (messages (with_triage (lit ''s'') TsIgnored [70] demo_messages_db)). message_identity r' = message_identity demo_message_row"
proof -
  have "(message_step demo_codec)\<^sup>*\<^sup>* demo_messages_db (with_triage (lit ''s'') TsIgnored [70] demo_messages_db)"
    using message_step.triaged[OF demo_transition] by blast
  from message_life_cycle[OF demo_messages_inv this, of demo_message_row] show ?thesis
    by (auto simp: demo_messages_db_def)
qed

theorem message_rows_satisfy_schema_witness:
  "list_all (message_row_check (\<lambda>_. True)) (messages demo_messages_db)"
  using message_rows_satisfy_schema[OF demo_messages_inv rtranclp.rtrancl_refl, of "\<lambda>_. True"] by simp

theorem message_transition_has_one_winner_witness:
  "message_state (transition_run (transition_message demo_codec)
      [(lit ''s'', TsUnprocessed, TsActionable, utc_secs 70)]
      (with_triage (lit ''s'') TsIgnored [70] demo_messages_db)) (lit ''s'') = Some TsIgnored"
proof -
  have st: "message_state demo_messages_db (lit ''s'') = Some TsUnprocessed"
    by (simp add: message_state_def demo_messages_db_def demo_message_row_def triage_from_storage_def)
  show ?thesis
    using message_transition_has_one_winner[OF demo_messages_inv st demo_transition,
        of TsIgnored "utc_secs 70" _ _ "[(lit ''s'', TsUnprocessed, TsActionable, utc_secs 70)]"] by simp
qed

theorem message_paging_is_complete_witness:
  "\<exists>all. read_pages (\<lambda>a. list_messages demo_codec a 1 demo_messages_db) sm_id 2 None = Inr all"
  using message_paging_is_complete[OF demo_messages_inv, of 1 2 TsIgnored] by (auto simp: demo_messages_db_def)

end
