(* ===== verification/Store_Tasks.thy ===== *)
theory Store_Tasks
  imports Store_Messages
begin

text \<open>
  Email tasks of \<open>src/pa/store.rs\<close>: \<open>record_task\<close>, the loads, the compare-and-set
  \<open>transition_task\<close> and the listing by state. A task refers to a message; every operation
  reconstructs that message and checks its state. \<open>task_request\<close> bundles the parameters of
  \<open>record_task\<close>; the title arrives as text and is validated by \<open>TaskTitle::new\<close> inside.
\<close>

section \<open>Records, states and the strict decoder\<close>

record task_request =
  tq_idempotency_key :: str
  tq_source_id :: str
  tq_message_id :: int
  tq_title :: str
  tq_kind :: task_kind
  tq_duration_minutes :: "32 word option"
  tq_due_at :: "odt option"

record stored_task =
  st_id :: int
  st_idempotency_key :: str
  st_source_id :: str
  st_message_id :: int
  st_title :: str
  st_kind :: task_kind
  st_duration :: duration_minutes
  st_due_at :: "odt option"
  st_state :: task_state
  st_created_at :: str
  st_updated_at :: str

definition valid_task_transition :: "task_state \<Rightarrow> task_state \<Rightarrow> bool" where
  "valid_task_transition e n \<longleftrightarrow>
     (e, n) \<in> {(StPending, StProposed), (StPending, StNoSlot), (StProposed, StScheduled), (StProposed, StNoSlot)}"

definition validate_task_duration :: "int \<Rightarrow> duration_minutes store_result" where
  "validate_task_duration m =
     (if m = 0 \<or> m > MAX_TASK_DURATION_MINUTES then Inl (InvalidInput ''duration_minutes'')
      else map_err (\<lambda>_. InvalidInput ''duration_minutes'') (dm_new m))"

text \<open>\<open>u32::try_from\<close> of the stored 64-bit integer.\<close>

definition validate_task_duration_i64 :: "int \<Rightarrow> duration_minutes store_result" where
  "validate_task_duration_i64 m =
     (if 0 \<le> m \<and> m < 2 ^ 32 then validate_task_duration m else Inl (InvalidInput ''duration_minutes''))"

definition task_invalid :: store_error where
  "task_invalid = stored_record_invalid ''task''"

definition decode_task_row :: "codec \<Rightarrow> task_row \<Rightarrow> stored_task store_result" where
  "decode_task_row C row =
     rbind (ensure (\<not> (ta_id row \<le> 0 \<or> ta_message_id row \<le> 0)) task_invalid) (\<lambda>_.
     rbind (map_err (\<lambda>_. task_invalid) (validate_task_idempotency_key (ta_idempotency_key row))) (\<lambda>key.
     rbind (map_err (\<lambda>_. task_invalid) (validate_task_source_id (ta_source_id row))) (\<lambda>source_id.
     rbind (map_err (\<lambda>_. task_invalid) (validate_task_title (ta_title row))) (\<lambda>title.
     rbind (map_err (\<lambda>_. task_invalid) (parse_task_kind (ta_kind row))) (\<lambda>kind.
     rbind (map_err (\<lambda>_. task_invalid) (validate_task_duration_i64 (ta_duration_minutes row))) (\<lambda>duration.
     rbind (transpose (map_option (\<lambda>v. parse_task_timestamp C v ''task'') (ta_due_at row))) (\<lambda>due_at.
     rbind (map_err (\<lambda>_. task_invalid) (task_state_from_storage (ta_state row))) (\<lambda>state.
     rbind (parse_task_timestamp_text C (ta_created_at row)) (\<lambda>created_at.
     rbind (parse_task_timestamp_text C (ta_updated_at row)) (\<lambda>updated_at.
       Inr \<lparr>st_id = ta_id row, st_idempotency_key = key, st_source_id = source_id,
            st_message_id = ta_message_id row, st_title = title, st_kind = kind, st_duration = duration,
            st_due_at = due_at, st_state = state, st_created_at = created_at, st_updated_at = updated_at\<rparr>))))))))))"

definition validate_actionable_message :: "stored_message \<Rightarrow> string \<Rightarrow> unit store_result" where
  "validate_actionable_message m resource =
     (if sm_provider m \<notin> {MpOutlook, MpGmail} \<or> sm_triage_state m \<noteq> TsActionable
      then Inl (stored_record_invalid resource) else Inr ())"

definition validate_task_message_lifecycle :: "stored_message \<Rightarrow> string \<Rightarrow> unit store_result" where
  "validate_task_message_lifecycle m resource =
     (if \<not> (sm_provider m \<in> {MpOutlook, MpGmail} \<and> sm_triage_state m \<in> {TsActionable, TsScheduled})
      then Inl (stored_record_invalid resource) else Inr ())"

definition find_message :: "int \<Rightarrow> db \<Rightarrow> message_row option" where
  "find_message i db = find (\<lambda>r. me_id r = i) (messages db)"

definition validate_task_message_in_transaction :: "codec \<Rightarrow> int \<Rightarrow> db \<Rightarrow> unit store_result" where
  "validate_task_message_in_transaction C i db =
     rbind (ok_or task_invalid (find_message i db)) (\<lambda>row.
     rbind (map_err (\<lambda>_. task_invalid) (decode_message_row C row)) (\<lambda>message.
       validate_actionable_message message ''task''))"

definition validate_task_message_in_lifecycle_transaction :: "codec \<Rightarrow> int \<Rightarrow> db \<Rightarrow> unit store_result" where
  "validate_task_message_in_lifecycle_transaction C i db =
     rbind (ok_or task_invalid (find_message i db)) (\<lambda>row.
     rbind (map_err (\<lambda>_. task_invalid) (decode_message_row C row)) (\<lambda>message.
       validate_task_message_lifecycle message ''task''))"

definition validate_task_message_on_connection :: "codec \<Rightarrow> int \<Rightarrow> db \<Rightarrow> unit store_result" where
  "validate_task_message_on_connection C i db =
     rbind (ok_or task_invalid (find_message i db)) (\<lambda>row.
     rbind (map_err (\<lambda>_. task_invalid) (decode_message_row C row)) (\<lambda>message.
       validate_task_message_lifecycle message ''task''))"

section \<open>Operations\<close>

definition query_task_rows_by_identity :: "str \<Rightarrow> str \<Rightarrow> task_row \<Rightarrow> bool" where
  "query_task_rows_by_identity key source r \<longleftrightarrow> ta_idempotency_key r = key \<or> ta_source_id r = source"

definition new_task_row :: "task_request \<Rightarrow> duration_minutes \<Rightarrow> str option \<Rightarrow> str \<Rightarrow> db \<Rightarrow> task_row" where
  "new_task_row rq duration due_at clk db =
     \<lparr>ta_id = next_id ta_id (tasks db), ta_idempotency_key = tq_idempotency_key rq, ta_source_id = tq_source_id rq,
      ta_message_id = tq_message_id rq, ta_title = tq_title rq, ta_kind = task_kind_storage_name (tq_kind rq),
      ta_duration_minutes = dm_minutes duration, ta_due_at = due_at, ta_state = task_state_as_str StPending,
      ta_created_at = clk, ta_updated_at = clk\<rparr>"

definition same_due :: "odt option \<Rightarrow> odt option \<Rightarrow> bool" where
  "same_due a b = (case (a, b) of (None, None) \<Rightarrow> True | (Some x, Some y) \<Rightarrow> same_instant x y | _ \<Rightarrow> False)"

definition exact_task :: "task_request \<Rightarrow> duration_minutes \<Rightarrow> odt option \<Rightarrow> stored_task \<Rightarrow> bool" where
  "exact_task rq duration due_at t \<longleftrightarrow>
     st_idempotency_key t = tq_idempotency_key rq \<and> st_source_id t = tq_source_id rq
     \<and> st_message_id t = tq_message_id rq \<and> st_title t = tq_title rq \<and> st_kind t = tq_kind rq
     \<and> st_duration t = duration \<and> same_due (st_due_at t) due_at"

text \<open>Decoding a candidate and checking its message.\<close>

definition checked_task :: "codec \<Rightarrow> db \<Rightarrow> task_row \<Rightarrow> stored_task store_result" where
  "checked_task C db row =
     rbind (decode_task_row C row) (\<lambda>stored.
     rbind (validate_task_message_in_transaction C (st_message_id stored) db) (\<lambda>_. Inr stored))"

definition record_task :: "codec \<Rightarrow> task_request \<Rightarrow> str \<Rightarrow> db \<Rightarrow> db \<times> stored_task store_result" where
  "record_task C rq clk =
     run_tx (\<lambda>db.
       rbind (validate_task_idempotency_key (tq_idempotency_key rq)) (\<lambda>key.
       rbind (validate_task_source_id (tq_source_id rq)) (\<lambda>source_id.
       rbind (ensure (\<not> tq_message_id rq \<le> 0) (InvalidInput ''message_id'')) (\<lambda>_.
       rbind (validate_task_title (tq_title rq)) (\<lambda>title.
       rbind (validate_task_duration (case tq_duration_minutes rq of
                Some m \<Rightarrow> uint m | None \<Rightarrow> tk_duration_minutes (tq_kind rq))) (\<lambda>duration.
       rbind (transpose (map_option (\<lambda>v. format_task_timestamp C v ''due_at'') (tq_due_at rq))) (\<lambda>due.
       rbind (ok_or message_invalid (find_message (tq_message_id rq) db)) (\<lambda>message_row.
       rbind (map_err (\<lambda>_. message_invalid) (decode_message_row C message_row)) (\<lambda>message.
       rbind (validate_actionable_message message ''message'') (\<lambda>_.
       let candidates = filter (query_task_rows_by_identity key source_id) (tasks db) in
       if candidates = []
       then (let row = new_task_row rq duration (map_option snd due) clk db;
                 db' = db\<lparr>tasks := tasks db @ [row]\<rparr>
             in rbind (checked_task C db' row) (\<lambda>stored. Inr (db', stored)))
       else rbind (retry_loop (checked_task C db) (exact_task rq duration (map_option fst due))
                     (Some task_invalid) (Conflict ''task'') candidates None) (\<lambda>exact_retry.
            rbind (ok_or task_invalid exact_retry) (\<lambda>stored. Inr (db, stored)))))))))))))"

definition load_task_where :: "codec \<Rightarrow> (task_row \<Rightarrow> bool) \<Rightarrow> db \<Rightarrow> stored_task store_result" where
  "load_task_where C p db =
     rbind (ok_or (NotFound ''task'') (find p (tasks db))) (\<lambda>row.
     rbind (decode_task_row C row) (\<lambda>task.
     rbind (validate_task_message_on_connection C (st_message_id task) db) (\<lambda>_. Inr task)))"

definition load_task_by_id :: "codec \<Rightarrow> int \<Rightarrow> db \<Rightarrow> stored_task store_result" where
  "load_task_by_id C i db =
     (if i \<le> 0 then Inl (InvalidInput ''id'') else load_task_where C (\<lambda>r. ta_id r = i) db)"

definition load_task_by_idempotency_key :: "codec \<Rightarrow> str \<Rightarrow> db \<Rightarrow> stored_task store_result" where
  "load_task_by_idempotency_key C key db =
     rbind (validate_task_idempotency_key key) (\<lambda>key. load_task_where C (\<lambda>r. ta_idempotency_key r = key) db)"

definition load_task_by_source_id :: "codec \<Rightarrow> str \<Rightarrow> db \<Rightarrow> stored_task store_result" where
  "load_task_by_source_id C source db =
     rbind (validate_task_source_id source) (\<lambda>source. load_task_where C (\<lambda>r. ta_source_id r = source) db)"

definition set_task_state :: "task_state \<Rightarrow> str \<Rightarrow> task_row \<Rightarrow> task_row" where
  "set_task_state next updated_at r = r\<lparr>ta_state := task_state_as_str next, ta_updated_at := updated_at\<rparr>"

definition update_task_state :: "task_state \<Rightarrow> str \<Rightarrow> str \<Rightarrow> task_state \<Rightarrow> db \<Rightarrow> db \<times> nat" where
  "update_task_state next updated_at source expected db =
     (let p = (\<lambda>r. ta_source_id r = source \<and> ta_state r = task_state_as_str expected)
      in (db\<lparr>tasks := update_rows p (set_task_state next updated_at) (tasks db)\<rparr>, count_rows p (tasks db)))"

definition transition_task ::
    "codec \<Rightarrow> str \<Rightarrow> task_state \<Rightarrow> task_state \<Rightarrow> odt \<Rightarrow> db \<Rightarrow> db \<times> stored_task store_result" where
  "transition_task C source expected next updated_at =
     run_tx (\<lambda>db.
       rbind (validate_task_source_id source) (\<lambda>source.
       rbind (format_task_updated_timestamp C updated_at) (\<lambda>(_, updated_at_text).
       rbind (ensure (valid_task_transition expected next) (Conflict ''task transition'')) (\<lambda>_.
       rbind (ok_or (NotFound ''task'') (find (\<lambda>r. ta_source_id r = source) (tasks db))) (\<lambda>current_row.
       rbind (decode_task_row C current_row) (\<lambda>current.
       rbind (validate_task_message_in_lifecycle_transaction C (st_message_id current) db) (\<lambda>_.
       if st_state current = next \<and> st_updated_at current = updated_at_text then Inr (db, current)
       else if st_state current \<noteq> expected then Inl (Conflict ''task transition'')
       else (let (db', updated) = update_task_state next updated_at_text source expected db in
             if updated \<noteq> 1 then Inl (Conflict ''task transition'')
             else rbind (ok_or task_invalid (find (\<lambda>r. ta_source_id r = source) (tasks db'))) (\<lambda>row.
                  rbind (decode_task_row C row) (\<lambda>stored.
                  rbind (validate_task_message_in_lifecycle_transaction C (st_message_id stored) db') (\<lambda>_.
                    Inr (db', stored))))))))))))"

text \<open>Every task and its message is reconstructed before the state filter and the limit apply.\<close>

definition list_tasks_by_state ::
    "codec \<Rightarrow> task_state \<Rightarrow> int option \<Rightarrow> nat \<Rightarrow> db \<Rightarrow> stored_task list store_result" where
  "list_tasks_by_state C state after_id limit db =
     rbind (check_page after_id limit MAX_TASK_LIST_LIMIT) (\<lambda>_.
     rbind (rmap (\<lambda>row.
              rbind (decode_task_row C row) (\<lambda>task.
              rbind (map_err (\<lambda>_. task_invalid)
                       (validate_task_message_on_connection C (st_message_id task) db)) (\<lambda>_. Inr task)))
            (sort_key ta_id (tasks db))) (\<lambda>all.
       Inr (take limit (filter (\<lambda>t. st_state t = state \<and> (case after_id of None \<Rightarrow> True | Some c \<Rightarrow> st_id t > c)) all))))"

section \<open>Closed forms\<close>

definition task_duration_ok :: "int \<Rightarrow> bool" where
  "task_duration_ok m \<longleftrightarrow> 1 \<le> m \<and> m \<le> 1440"

lemma validate_task_duration_Inr:
  "0 \<le> m \<Longrightarrow> validate_task_duration m = Inr d \<longleftrightarrow> task_duration_ok m \<and> d = DurationMinutes m"
  by (auto simp: validate_task_duration_def dm_new_def task_duration_ok_def store_limits)

lemma validate_task_duration_i64_Inr:
  "validate_task_duration_i64 m = Inr d \<longleftrightarrow> task_duration_ok m \<and> d = DurationMinutes m"
  by (cases "0 \<le> m") (auto simp: validate_task_duration_i64_def validate_task_duration_Inr,
      auto simp: task_duration_ok_def)

definition task_row_decodes :: "codec \<Rightarrow> task_row \<Rightarrow> stored_task \<Rightarrow> bool" where
  "task_row_decodes C row t \<longleftrightarrow>
    1 \<le> ta_id row \<and> 1 \<le> ta_message_id row \<and> machine_id 256 (ta_idempotency_key row)
    \<and> machine_id 256 (ta_source_id row) \<and> plain_text 256 (ta_title row)
    \<and> ta_kind row = task_kind_storage_name (st_kind t) \<and> ta_state row = task_state_as_str (st_state t)
    \<and> task_duration_ok (ta_duration_minutes row) \<and> st_duration t = DurationMinutes (ta_duration_minutes row)
    \<and> st_id t = ta_id row \<and> st_message_id t = ta_message_id row \<and> st_idempotency_key t = ta_idempotency_key row
    \<and> st_source_id t = ta_source_id row \<and> st_title t = ta_title row
    \<and> st_created_at t = ta_created_at row \<and> st_updated_at t = ta_updated_at row
    \<and> (case ta_due_at row of None \<Rightarrow> st_due_at t = None
       | Some s \<Rightarrow> \<exists>u. rfc_time C s u \<and> st_due_at t = Some (utc_secs u))
    \<and> (\<exists>u. rfc_time C (ta_created_at row) u) \<and> (\<exists>u. rfc_time C (ta_updated_at row) u)"

lemma decode_task_row_Inr:
  assumes C: "codec_ok C"
  shows "decode_task_row C row = Inr t \<longleftrightarrow> task_row_decodes C row t"
proof
  show "decode_task_row C row = Inr t \<Longrightarrow> task_row_decodes C row t"
    using C by (auto simp: decode_task_row_def rbind_Inr_iff validator_eqs store_limits stored_enum_iffs
        parse_task_timestamp_Inr parse_task_timestamp_text_Inr validate_task_duration_i64_Inr
        task_row_decodes_def transpose_Inr_iff split: if_splits option.splits)
next
  assume r: "task_row_decodes C row t"
  have due: "transpose (map_option (\<lambda>v. parse_task_timestamp C v ''task'') (ta_due_at row)) = Inr (st_due_at t)"
    using r by (auto simp: task_row_decodes_def transpose_Inr_iff parse_task_timestamp_Inr[OF C] split: option.splits)
  have "parse_task_timestamp_text C (ta_created_at row) = Inr (ta_created_at row)"
    "parse_task_timestamp_text C (ta_updated_at row) = Inr (ta_updated_at row)"
    "validate_task_duration_i64 (ta_duration_minutes row) = Inr (st_duration t)"
    using r by (auto simp: task_row_decodes_def parse_task_timestamp_text_Inr[OF C] validate_task_duration_i64_Inr)
  then show "decode_task_row C row = Inr t" using r due
    by (cases t) (simp add: decode_task_row_def validator_eqs store_limits task_row_decodes_def)
qed

text \<open>The message of a task: an email that is actionable, or already scheduled.\<close>

definition email_message :: "codec \<Rightarrow> triage_state set \<Rightarrow> int \<Rightarrow> db \<Rightarrow> bool" where
  "email_message C ss i db \<longleftrightarrow> (\<exists>row m. find_message i db = Some row \<and> decode_message_row C row = Inr m
     \<and> sm_provider m \<noteq> MpVoice \<and> sm_triage_state m \<in> ss)"

lemma email_providers: "p \<in> {MpOutlook, MpGmail} \<longleftrightarrow> p \<noteq> MpVoice"
  by (cases p) auto

lemma task_message_checks:
  "validate_task_message_in_transaction C i db = (if email_message C {TsActionable} i db then Inr () else Inl task_invalid)"
  "validate_task_message_in_lifecycle_transaction C i db =
     (if email_message C {TsActionable, TsScheduled} i db then Inr () else Inl task_invalid)"
  "validate_task_message_on_connection C i db =
     (if email_message C {TsActionable, TsScheduled} i db then Inr () else Inl task_invalid)"
  by (cases "find_message i db"; cases "decode_message_row C (the (find_message i db))";
      auto simp: validate_task_message_in_transaction_def validate_task_message_in_lifecycle_transaction_def
        validate_task_message_on_connection_def validate_actionable_message_def validate_task_message_lifecycle_def
        email_message_def email_providers task_invalid_def; cases "sm_provider (projr (decode_message_row C (the (find_message i db))))"; auto)+

lemma email_message_tasks [simp]: "email_message C ss i (db\<lparr>tasks := x\<rparr>) = email_message C ss i db"
  by (simp add: email_message_def find_message_def)

lemma email_message_mono: "email_message C ss i db \<Longrightarrow> ss \<subseteq> ss' \<Longrightarrow> email_message C ss' i db"
  by (auto simp: email_message_def)


section \<open>The invariant and the contract of recording\<close>

definition task_inv :: "codec \<Rightarrow> db \<Rightarrow> bool" where
  "task_inv C db \<longleftrightarrow> message_inv C db \<and> ids_ok ta_id (tasks db)
     \<and> distinct (map ta_idempotency_key (tasks db)) \<and> distinct (map ta_source_id (tasks db))
     \<and> (\<forall>row \<in> set (tasks db). \<exists>t. decode_task_row C row = Inr t
          \<and> email_message C {TsActionable, TsScheduled} (ta_message_id row) db)"

definition request_duration :: "task_request \<Rightarrow> int" where
  "request_duration rq = (case tq_duration_minutes rq of Some m \<Rightarrow> uint m | None \<Rightarrow> tk_duration_minutes (tq_kind rq))"

definition due_ok :: "odt option \<Rightarrow> bool" where
  "due_ok d = (case d of None \<Rightarrow> True | Some d \<Rightarrow> nanosecond d = 0 \<and> rfc_range (unix_timestamp d))"

definition task_valid :: "task_request \<Rightarrow> bool" where
  "task_valid rq \<longleftrightarrow> machine_id 256 (tq_idempotency_key rq) \<and> machine_id 256 (tq_source_id rq)
     \<and> 1 \<le> tq_message_id rq \<and> plain_text 256 (tq_title rq) \<and> task_duration_ok (request_duration rq)
     \<and> due_ok (tq_due_at rq)"

definition task_pre :: "codec \<Rightarrow> task_request \<Rightarrow> db \<Rightarrow> bool" where
  "task_pre C rq db \<longleftrightarrow> task_valid rq \<and> email_message C {TsActionable} (tq_message_id rq) db"

definition task_same :: "task_request \<Rightarrow> task_row \<Rightarrow> bool" where
  "task_same rq = query_task_rows_by_identity (tq_idempotency_key rq) (tq_source_id rq)"

definition task_new :: "codec \<Rightarrow> task_request \<Rightarrow> str \<Rightarrow> db \<Rightarrow> task_row" where
  "task_new C rq clk db = new_task_row rq (DurationMinutes (request_duration rq))
     (map_option (\<lambda>d. rfc C (unix_timestamp d)) (tq_due_at rq)) clk db"

definition task_exact :: "task_request \<Rightarrow> stored_task \<Rightarrow> bool" where
  "task_exact rq = exact_task rq (DurationMinutes (request_duration rq)) (map_option to_utc (tq_due_at rq))"

definition add_task :: "db \<Rightarrow> task_row \<Rightarrow> db" where
  "add_task db row = db\<lparr>tasks := tasks db @ [row]\<rparr>"

lemma request_duration_nonneg: "0 \<le> request_duration rq"
  using tk_duration_minutes_pos[of "tq_kind rq"] by (auto simp: request_duration_def split: option.splits)

lemma format_due:
  assumes C: "codec_ok C"
  shows "transpose (map_option (\<lambda>v. format_task_timestamp C v ''due_at'') due) = Inr d \<longleftrightarrow>
    due_ok due \<and> d = map_option (\<lambda>v. (to_utc v, rfc C (unix_timestamp v))) due"
  by (cases due) (auto simp: transpose_Inr_iff format_task_timestamp_eq format_audit_timestamp_Inr[OF C]
      due_ok_def rfc_time_def to_utc_whole)

lemma validate_actionable_message_Inr:
  "validate_actionable_message m r = Inr u \<longleftrightarrow> sm_provider m \<noteq> MpVoice \<and> sm_triage_state m = TsActionable"
  by (cases "sm_provider m") (auto simp: validate_actionable_message_def)

lemma actionable_check:
  "(\<exists>row. find_message i db = Some row \<and> (\<exists>m. decode_message_row C row = Inr m
      \<and> sm_provider m \<noteq> MpVoice \<and> sm_triage_state m = TsActionable \<and> P)) \<longleftrightarrow> email_message C {TsActionable} i db \<and> P"
  by (auto simp: email_message_def)

lemma record_task_Inr:
  assumes C: "codec_ok C"
  shows "record_task C rq clk db = (db', Inr t) \<longleftrightarrow> task_pre C rq db \<and>
    (if filter (task_same rq) (tasks db) = []
     then checked_task C db (task_new C rq clk db) = Inr t \<and> db' = add_task db (task_new C rq clk db)
     else db' = db \<and> retry_loop (checked_task C db) (task_exact rq) (Some task_invalid) (Conflict ''task'')
                       (filter (task_same rq) (tasks db)) None = Inr (Some t))"
proof -
  have ct: "checked_task C (db\<lparr>tasks := x\<rparr>) = checked_task C db" for x
    by (simp add: checked_task_def fun_eq_iff task_message_checks)
  have mo: "map_option fst (map_option (\<lambda>v. (to_utc v, rfc C (unix_timestamp v))) d) = map_option to_utc d"
    "map_option snd (map_option (\<lambda>v. (to_utc v, rfc C (unix_timestamp v))) d) = map_option (\<lambda>d. rfc C (unix_timestamp d)) d"
    for d by (cases d; simp)+
  have "record_task C rq clk db = (db', Inr t) \<longleftrightarrow> task_valid rq \<and>
    (\<exists>row. find_message (tq_message_id rq) db = Some row \<and> (\<exists>m. decode_message_row C row = Inr m
      \<and> sm_provider m \<noteq> MpVoice \<and> sm_triage_state m = TsActionable \<and>
    (if filter (task_same rq) (tasks db) = []
     then checked_task C db (task_new C rq clk db) = Inr t \<and> db' = add_task db (task_new C rq clk db)
     else db' = db \<and> retry_loop (checked_task C db) (task_exact rq) (Some task_invalid) (Conflict ''task'')
                       (filter (task_same rq) (tasks db)) None = Inr (Some t))))"
    unfolding record_task_def run_tx_Inr rbind_Inr_iff format_due[OF C] validate_actionable_message_Inr
      validate_task_duration_Inr[OF request_duration_nonneg, unfolded request_duration_def]
    by (simp add: validator_eqs task_valid_def request_duration_def Let_def task_same_def task_new_def
        task_exact_def add_task_def ct mo rbind_Inr_iff not_le conj_ac cong: conj_cong) auto
  then show ?thesis by (simp add: actionable_check task_pre_def)
qed

lemma checked_task_Inr:
  "checked_task C db row = Inr t \<longleftrightarrow> decode_task_row C row = Inr t \<and> email_message C {TsActionable} (st_message_id t) db"
  by (auto simp: checked_task_def rbind_Inr_iff task_message_checks split: if_splits)


lemma task_new_decoded:
  assumes C: "codec_ok C" and v: "task_valid rq" and d: "decode_task_row C (task_new C rq clk db) = Inr t"
  shows "task_exact rq t"
proof -
  have r: "task_row_decodes C (task_new C rq clk db) t" using d by (simp add: decode_task_row_Inr[OF C])
  have "same_due (st_due_at t) (map_option to_utc (tq_due_at rq))"
  proof (cases "tq_due_at rq")
    case None
    then show ?thesis using r by (simp add: task_row_decodes_def task_new_def new_task_row_def same_due_def)
  next
    case (Some d)
    then obtain u where u: "rfc_time C (rfc C (unix_timestamp d)) u" "st_due_at t = Some (utc_secs u)"
      using r by (auto simp: task_row_decodes_def task_new_def new_task_row_def)
    have "u = unix_timestamp d" "d = d" "nanosecond d = 0"
      using u(1) v Some rfc_time_unique[OF C, of "rfc C (unix_timestamp d)" u "unix_timestamp d"]
      by (auto simp: task_valid_def due_ok_def rfc_time_def)
    then show ?thesis using u(2) Some by (simp add: same_due_def to_utc_whole)
  qed
  then show ?thesis using r
    by (simp add: task_exact_def exact_task_def task_row_decodes_def task_new_def new_task_row_def stored_enum_injects)
qed

lemma task_inv_add:
  assumes inv: "task_inv C db" and pre: "task_pre C rq db" and free: "filter (task_same rq) (tasks db) = []"
    and d: "decode_task_row C (task_new C rq clk db) = Inr t"
  shows "task_inv C (add_task db (task_new C rq clk db))"
proof -
  let ?row = "task_new C rq clk db"
  have free: "\<forall>r \<in> set (tasks db). ta_idempotency_key r \<noteq> ta_idempotency_key ?row"
    "\<forall>r \<in> set (tasks db). ta_source_id r \<noteq> ta_source_id ?row"
    using free by (auto simp: filter_empty_conv task_same_def query_task_rows_by_identity_def task_new_def new_task_row_def)
  have "ids_ok ta_id (tasks db @ [?row])"
    using inv ids_ok_insert[of ta_id "tasks db" ?row] by (simp add: task_inv_def task_new_def new_task_row_def)
  moreover have "email_message C {TsActionable, TsScheduled} (ta_message_id ?row) db"
    using pre by (auto simp: task_pre_def task_new_def new_task_row_def intro: email_message_mono)
  moreover have "message_inv C (db\<lparr>tasks := x\<rparr>) = message_inv C db" for x
    by (simp add: message_inv_def)
  ultimately show ?thesis using inv d free
    by (auto simp: task_inv_def add_task_def distinct_map_snoc simp del: map_append)
qed

lemma add_task_simps [simp]: "tasks (add_task db r) = tasks db @ [r]" "messages (add_task db r) = messages db"
  "email_message C ss i (add_task db r) = email_message C ss i db"
  by (simp_all add: add_task_def)

lemma checked_task_add [simp]: "checked_task C (add_task db r) = checked_task C db"
  by (simp add: checked_task_def fun_eq_iff task_message_checks)

lemma task_exact_row:
  assumes "codec_ok C" "decode_task_row C r = Inr t" "task_exact rq t"
  shows "ta_idempotency_key r = tq_idempotency_key rq \<and> ta_source_id r = tq_source_id rq"
  using assms by (auto simp: decode_task_row_Inr task_row_decodes_def task_exact_def exact_task_def)

interpretation task: insert_or_retry "record_task C" "task_pre C" task_same "task_new C" "checked_task C" task_exact
  "Some task_invalid" "Conflict ''task''" tasks add_task "task_inv C" for C
proof
  fix db clk db' t rq e r r'
  assume inv: "task_inv C db"
  then have C: "codec_ok C" by (simp add: task_inv_def message_inv_def)
  show "record_task C rq clk db = (db', Inr t) \<longleftrightarrow> task_pre C rq db \<and>
    (if filter (task_same rq) (tasks db) = []
     then checked_task C db (task_new C rq clk db) = Inr t \<and> db' = add_task db (task_new C rq clk db)
     else db' = db \<and> retry_loop (checked_task C db) (task_exact rq) (Some task_invalid) (Conflict ''task'')
                       (filter (task_same rq) (tasks db)) None = Inr (Some t))"
    by (rule record_task_Inr[OF C])
  show "task_pre C rq db \<Longrightarrow> filter (task_same rq) (tasks db) = [] \<Longrightarrow> checked_task C db (task_new C rq clk db) = Inr t \<Longrightarrow>
      task_inv C (add_task db (task_new C rq clk db)) \<and> task_exact rq t"
    using task_inv_add[OF inv, of rq clk t] task_new_decoded[OF C, of rq clk db t] by (simp add: checked_task_Inr task_pre_def)
  show "checked_task C db r = Inr t \<Longrightarrow> task_exact rq t \<Longrightarrow> task_same rq r"
    using task_exact_row[OF C] by (simp add: checked_task_Inr task_same_def query_task_rows_by_identity_def)
  show "r \<in> set (tasks db) \<Longrightarrow> checked_task C db r = Inr t \<Longrightarrow> task_exact rq t \<Longrightarrow> r' \<in> set (tasks db) \<Longrightarrow>
      task_same rq r' \<Longrightarrow> r' = r"
    using task_exact_row[OF C, of r t rq] inv distinct_map_unique[of ta_idempotency_key "tasks db" r' r]
      distinct_map_unique[of ta_source_id "tasks db" r' r]
    by (auto simp: checked_task_Inr task_same_def query_task_rows_by_identity_def task_inv_def)
  show "distinct (tasks db)"
    using inv ids_ok_distinct[of ta_id "tasks db"] by (simp add: task_inv_def distinct_map)
next
  fix rq clk and db :: db and db' e r r'
  show "record_task C rq clk db = (db', Inl e) \<Longrightarrow> db' = db" by (simp add: record_task_def)
  show "tasks (add_task db r) = tasks db @ [r]" by simp
  show "checked_task C (add_task db r) r' = checked_task C db r'" by simp
  show "task_pre C rq (add_task db r) = task_pre C rq db" by (simp add: task_pre_def)
qed

section \<open>The state machine of a task\<close>

definition task_status :: "task_row \<Rightarrow> task_state option" where
  "task_status r = (case task_state_from_storage (ta_state r) of Inl _ \<Rightarrow> None | Inr s \<Rightarrow> Some s)"

definition task_state_of :: "db \<Rightarrow> str \<Rightarrow> task_state option" where
  "task_state_of db = lookup_state ta_source_id task_status (tasks db)"

lemma set_task_state_simps [simp]:
  "ta_id (set_task_state n u r) = ta_id r" "ta_idempotency_key (set_task_state n u r) = ta_idempotency_key r"
  "ta_source_id (set_task_state n u r) = ta_source_id r" "ta_message_id (set_task_state n u r) = ta_message_id r"
  "ta_title (set_task_state n u r) = ta_title r" "ta_kind (set_task_state n u r) = ta_kind r"
  "ta_duration_minutes (set_task_state n u r) = ta_duration_minutes r" "ta_due_at (set_task_state n u r) = ta_due_at r"
  "ta_created_at (set_task_state n u r) = ta_created_at r"
  "ta_state (set_task_state n u r) = task_state_as_str n" "ta_updated_at (set_task_state n u r) = u"
  by (simp_all add: set_task_state_def)

definition with_task_state :: "str \<Rightarrow> task_state \<Rightarrow> str \<Rightarrow> db \<Rightarrow> db" where
  "with_task_state source next updated_at db =
     db\<lparr>tasks := update_rows (\<lambda>r. ta_source_id r = source) (set_task_state next updated_at) (tasks db)\<rparr>"

lemma decode_set_task_state:
  assumes "codec_ok C" "decode_task_row C row = Inr t" "rfc_time C u v"
  shows "decode_task_row C (set_task_state n u row) = Inr (t\<lparr>st_state := n, st_updated_at := u\<rparr>)"
  using assms by (auto simp: decode_task_row_Inr task_row_decodes_def split: option.splits)

lemma with_task_state_inv:
  assumes inv: "task_inv C db" and row: "row \<in> set (tasks db)" and u: "rfc_time C u v"
  shows "task_inv C (with_task_state (ta_source_id row) n u db)"
proof -
  have C: "codec_ok C" using inv by (simp add: task_inv_def message_inv_def)
  have "\<forall>r \<in> set (update_rows (\<lambda>r. ta_source_id r = ta_source_id row) (set_task_state n u) (tasks db)).
      \<exists>t. decode_task_row C r = Inr t \<and> email_message C {TsActionable, TsScheduled} (ta_message_id r) db"
    by (rule update_rows_all[OF _ row]) (use inv row decode_set_task_state[OF C _ u, of row _ n] in \<open>auto simp: task_inv_def\<close>)
  then show ?thesis using inv
    by (simp add: task_inv_def with_task_state_def update_rows_key ids_ok_update message_inv_def)
qed

lemma transition_task_row:
  assumes inv: "task_inv C db" and row: "row \<in> set (tasks db)" "decode_task_row C row = Inr t"
    and v: "valid_task_transition e n" and d: "is_utc d" "nanosecond d = 0" "rfc_time C u (unix_timestamp d)"
  shows "transition_task C (ta_source_id row) e n d db =
    (if st_state t = n \<and> st_updated_at t = u then (db, Inr t)
     else if st_state t \<noteq> e then (db, Inl (Conflict ''task transition''))
     else (with_task_state (ta_source_id row) n u db, Inr (t\<lparr>st_state := n, st_updated_at := u\<rparr>)))"
proof -
  have C: "codec_ok C" using inv by (simp add: task_inv_def message_inv_def)
  have dist: "distinct (map ta_source_id (tasks db))" using inv by (simp add: task_inv_def)
  have r: "machine_id 256 (ta_source_id row)" "ta_state row = task_state_as_str (st_state t)" "st_message_id t = ta_message_id row"
    using row(2) by (simp_all add: decode_task_row_Inr[OF C] task_row_decodes_def)
  have em: "email_message C {TsActionable, TsScheduled} (ta_message_id row) db"
    using inv row(1) by (auto simp: task_inv_def)
  have f: "format_task_updated_timestamp C d = Inr (d, u)"
    using d by (simp add: format_task_updated_timestamp_Inr[OF C])
  have upd: "update_task_state n u (ta_source_id row) (st_state t) db = (with_task_state (ta_source_id row) n u db, 1)"
    using count_rows_key[OF dist row(1), of "\<lambda>r. ta_state r = task_state_as_str (st_state t)"]
      update_one[OF dist row(1), of "\<lambda>r. ta_state r = task_state_as_str (st_state t)"] r(2)
    by (simp add: update_task_state_def with_task_state_def)
  have find: "find (\<lambda>r. ta_source_id r = ta_source_id row) (tasks db) = Some row"
    by (rule find_unique[OF dist row(1)])
  then have find': "find (\<lambda>r. ta_source_id r = ta_source_id row) (tasks (with_task_state (ta_source_id row) n u db))
      = Some (set_task_state n u row)"
    by (simp add: with_task_state_def find_update_rows)
  have em': "email_message C ss i (with_task_state s n u db) = email_message C ss i db" for ss i s
    by (simp add: with_task_state_def)
  show ?thesis
    using r(1,3) em f v find find' decode_set_task_state[OF C row(2) d(3), of n] row(2) upd
    by (auto simp: transition_task_def run_tx_def validator_eqs task_message_checks em')
qed

lemma transition_task_found:
  assumes inv: "task_inv C db" and c: "transition_task C s e n d db = (db', Inr t')"
  obtains row t u where "row \<in> set (tasks db)" "ta_source_id row = s" "decode_task_row C row = Inr t"
    "valid_task_transition e n" "is_utc d" "nanosecond d = 0" "rfc_time C u (unix_timestamp d)"
proof -
  have C: "codec_ok C" using inv by (simp add: task_inv_def message_inv_def)
  from c obtain u row t where x: "format_task_updated_timestamp C d = Inr (d, u)" "valid_task_transition e n"
    "find (\<lambda>r. ta_source_id r = s) (tasks db) = Some row" "decode_task_row C row = Inr t"
    by (auto simp: transition_task_def rbind_Inr_iff validator_eqs format_task_updated_timestamp_Inr[OF C] split: if_splits)
  then show thesis using that[of row t u] find_Some_mem[OF x(3)]
    by (simp add: format_task_updated_timestamp_Inr[OF C])
qed

interpretation task_cas: cas_machine "transition_task C" task_state_of valid_task_transition "task_inv C" for C
proof
  fix db k e n d db' r j err
  assume inv: "task_inv C db"
  have dist: "distinct (map ta_source_id (tasks db))" using inv by (simp add: task_inv_def)
  have C: "codec_ok C" using inv by (simp add: task_inv_def message_inv_def)
  {
    assume c: "transition_task C k e n d db = (db', Inr r)"
    then obtain row t u where x: "row \<in> set (tasks db)" "ta_source_id row = k" "decode_task_row C row = Inr t"
      "valid_task_transition e n" "is_utc d" "nanosecond d = 0" "rfc_time C u (unix_timestamp d)"
      using transition_task_found[OF inv c] by metis
    note step = transition_task_row[OF inv x(1,3,4,5,6,7)]
    have st: "task_state_of db k = Some (st_state t)"
      using x(3) unfolding task_state_of_def x(2)[symmetric] lookup_state_row[OF dist x(1)]
      by (simp add: decode_task_row_Inr[OF C] task_row_decodes_def task_status_def)
    have after: "task_state_of (with_task_state k n u db) i = (if i = k then Some n else task_state_of db i)" for i
      using lookup_state_update[OF dist x(1), of "set_task_state n u" task_status i] x(2)
      by (simp add: task_state_of_def with_task_state_def task_status_def)
    show "task_inv C db' \<and> (db' = db \<and> task_state_of db k = Some n \<or>
        valid_task_transition e n \<and> task_state_of db k = Some e \<and> task_state_of db' k = Some n)"
      using c step st after with_task_state_inv[OF inv x(1,7), of n] inv x(2,4) by (auto split: if_splits)
    show "j \<noteq> k \<Longrightarrow> task_state_of db' j = task_state_of db j"
      using c step after x(2) by (auto split: if_splits)
  }
next
  fix k e n d db db' err
  show "transition_task C k e n d db = (db', Inl err) \<Longrightarrow> db' = db"
    by (simp add: transition_task_def)
qed


section \<open>Tasks and their messages\<close>

text \<open>Everything that changes the table of tasks, and everything that changes it or the messages.\<close>

inductive task_step :: "codec \<Rightarrow> db \<Rightarrow> db \<Rightarrow> bool" for C where
  recorded: "record_task C rq clk db = (db', Inr t) \<Longrightarrow> task_step C db db'"
| moved: "transition_task C s e n d db = (db', Inr t) \<Longrightarrow> task_step C db db'"

inductive email_step :: "codec \<Rightarrow> db \<Rightarrow> db \<Rightarrow> bool" for C where
  message: "message_step C db db' \<Longrightarrow> email_step C db db'"
| task: "task_step C db db' \<Longrightarrow> email_step C db db'"

inductive_cases task_stepE: "task_step C db db'"
inductive_cases email_stepE: "email_step C db db'"

lemma triage_open_path:
  "valid_message_transition\<^sup>*\<^sup>* s s' \<Longrightarrow> s \<in> {TsActionable, TsScheduled} \<Longrightarrow> s' \<in> {TsActionable, TsScheduled}"
  by (induction rule: rtranclp_induct) (auto simp: valid_message_transition_def)

lemma message_step_tasks:
  assumes inv: "message_inv C db" and step: "message_step C db db'"
  shows "tasks db' = tasks db"
  using step
proof (rule message_stepE)
  fix rq clk m assume "record_message C rq clk db = (db', Inr m)"
  then obtain new where "db' = db\<lparr>messages := messages db'\<rparr>" using record_message_appends[OF inv] by blast
  then show ?thesis by (metis db.ext_inject db.surjective db.update_convs(4))
next
  fix s e n t m assume c: "transition_message C s e n t db = (db', Inr m)"
  then have "db' = db \<or> db' = with_triage s n (rfc C (unix_timestamp t)) db"
    using transition_message_Inr[OF inv, of s e n t db' m] by (metis (no_types, lifting))
  then show ?thesis by (auto simp: with_triage_def)
qed

lemma message_step_email:
  assumes inv: "message_inv C db" and step: "message_step C db db'"
    and e: "email_message C {TsActionable, TsScheduled} i db"
  shows "email_message C {TsActionable, TsScheduled} i db'"
proof -
  have C: "codec_ok C" using inv by (simp add: message_inv_def)
  obtain r m where r: "r \<in> set (messages db)" "me_id r = i" "decode_message_row C r = Inr m"
    "sm_provider m \<noteq> MpVoice" "sm_triage_state m \<in> {TsActionable, TsScheduled}"
    using e find_Some_mem[of _ "messages db"] by (fastforce simp: email_message_def find_message_def)
  obtain r' where r': "r' \<in> set (messages db')" "message_identity r' = message_identity r" "triage_path r r'"
    and inv': "message_inv C db'"
    using message_step_life[OF inv step] r(1) by blast
  obtain m' where m': "decode_message_row C r' = Inr m'" using inv' r'(1) by (auto simp: message_inv_def)
  have fields: "me_provider r = provider_as_str (sm_provider m)" "me_triage_state r = triage_as_str (sm_triage_state m)"
    "me_provider r' = provider_as_str (sm_provider m')" "me_triage_state r' = triage_as_str (sm_triage_state m')"
    using r(3) m' by (simp_all add: decode_message_row_Inr[OF C] message_row_decodes_def)
  have ids: "me_id r' = i" "me_provider r' = me_provider r" using r'(2) r(2) by (simp_all add: message_identity_def)
  have "valid_message_transition\<^sup>*\<^sup>* (sm_triage_state m) (sm_triage_state m')"
    using r'(3) fields(2,4) by (auto simp: triage_path_def stored_enum_injects)
  then have "sm_triage_state m' \<in> {TsActionable, TsScheduled}" using triage_open_path r(5) by blast
  moreover have "sm_provider m' = sm_provider m" using ids(2) fields(1,3) by (simp add: stored_enum_injects)
  moreover have "find_message i db' = Some r'"
    using find_unique[OF ids_ok_distinct r'(1), of me_id] inv' ids(1) by (simp add: find_message_def message_inv_def)
  ultimately show ?thesis using m' r(4) by (auto simp: email_message_def)
qed

definition task_identity :: "task_row \<Rightarrow> int \<times> str \<times> str \<times> int \<times> str \<times> str \<times> int \<times> str option \<times> str" where
  "task_identity r = (ta_id r, ta_idempotency_key r, ta_source_id r, ta_message_id r, ta_title r, ta_kind r,
     ta_duration_minutes r, ta_due_at r, ta_created_at r)"

definition task_path :: "task_row \<Rightarrow> task_row \<Rightarrow> bool" where
  "task_path r r' \<longleftrightarrow> task_identity r' = task_identity r \<and>
     (\<exists>s s'. ta_state r = task_state_as_str s \<and> ta_state r' = task_state_as_str s' \<and> valid_task_transition\<^sup>*\<^sup>* s s')"

lemma task_path_refl: "task_inv C db \<Longrightarrow> r \<in> set (tasks db) \<Longrightarrow> task_path r r"
proof -
  assume inv: "task_inv C db" and r: "r \<in> set (tasks db)"
  then obtain t where "decode_task_row C r = Inr t" "codec_ok C" by (auto simp: task_inv_def message_inv_def)
  then have "ta_state r = task_state_as_str (st_state t)"
    by (simp add: decode_task_row_Inr task_row_decodes_def)
  then show "task_path r r" by (auto simp: task_path_def)
qed

lemma task_path_compose: "task_path a b \<Longrightarrow> task_path b c \<Longrightarrow> task_path a c"
  by (auto simp: task_path_def stored_enum_injects)

lemma transition_task_rows:
  assumes inv: "task_inv C db" and c: "transition_task C s e n d db = (db', Inr t)" and r: "r \<in> set (tasks db)"
  shows "\<exists>r' \<in> set (tasks db'). task_path r r'"
proof -
  have C: "codec_ok C" using inv by (simp add: task_inv_def message_inv_def)
  obtain row t u where x: "row \<in> set (tasks db)" "ta_source_id row = s" "decode_task_row C row = Inr t"
    "valid_task_transition e n" "is_utc d" "nanosecond d = 0" "rfc_time C u (unix_timestamp d)"
    using transition_task_found[OF inv c] by metis
  have refl: "task_path r r" by (rule task_path_refl[OF inv r])
  have "db' = db \<or> st_state t = e \<and> db' = with_task_state s n u db"
    using transition_task_row[OF inv x(1,3,4,5,6,7)] c x(2) by (auto split: if_splits)
  then show ?thesis
  proof
    assume "db' = db" then show ?thesis using r refl by blast
  next
    assume w: "st_state t = e \<and> db' = with_task_state s n u db"
    let ?f = "\<lambda>r. if ta_source_id r = s then set_task_state n u r else r"
    have "?f r \<in> set (tasks db')" using r w by (simp add: with_task_state_def update_rows_def)
    moreover have "task_path r (?f r)"
    proof (cases "ta_source_id r = s")
      case True
      then have "r = row" using distinct_map_unique[of ta_source_id "tasks db" r row] inv r x(1,2)
        by (simp add: task_inv_def)
      then have "ta_state r = task_state_as_str e"
        using x(3) w by (simp add: decode_task_row_Inr[OF C] task_row_decodes_def)
      then show ?thesis using True x(4) by (auto simp: task_path_def task_identity_def)
    next
      case False
      then show ?thesis using refl by simp
    qed
    ultimately show ?thesis by blast
  qed
qed

lemma task_step_life:
  assumes inv: "task_inv C db" and step: "task_step C db db'"
  shows "task_inv C db' \<and> messages db' = messages db \<and> (\<forall>r \<in> set (tasks db). \<exists>r' \<in> set (tasks db'). task_path r r')"
  using step
proof (rule task_stepE)
  fix rq clk t
  assume c: "record_task C rq clk db = (db', Inr t)"
  have "task_inv C db'" using task.created[OF inv c] by simp
  moreover have "set (tasks db) \<subseteq> set (tasks db') \<and> messages db' = messages db" using task.appended[OF inv c] by auto
  ultimately show ?thesis using task_path_refl[OF inv] by blast
next
  fix s e n d t
  assume c: "transition_task C s e n d db = (db', Inr t)"
  then obtain row t u where x: "row \<in> set (tasks db)" "ta_source_id row = s" "decode_task_row C row = Inr t"
    "valid_task_transition e n" "is_utc d" "nanosecond d = 0" "rfc_time C u (unix_timestamp d)"
    using transition_task_found[OF inv c] by metis
  have "messages db' = messages db"
    using transition_task_row[OF inv x(1,3,4,5,6,7)] c x(2) by (auto simp: with_task_state_def split: if_splits)
  then show ?thesis using task_cas.cas_ok[OF inv c] transition_task_rows[OF inv c] by simp
qed

lemma email_step_life:
  assumes inv: "task_inv C db" and step: "email_step C db db'"
  shows "task_inv C db' \<and> (\<forall>r \<in> set (tasks db). \<exists>r' \<in> set (tasks db'). task_path r r')"
  using step
proof (rule email_stepE)
  assume m: "message_step C db db'"
  have mi: "message_inv C db" using inv by (simp add: task_inv_def)
  have "message_inv C db'" using message_step_life[OF mi m] by simp
  then have "task_inv C db'"
    using inv message_step_email[OF mi m] message_step_tasks[OF mi m] by (simp add: task_inv_def)
  then show ?thesis using message_step_tasks[OF mi m] task_path_refl[OF inv] by auto
next
  assume "task_step C db db'"
  then show ?thesis using task_step_life[OF inv] by simp
qed

lemma task_steps_messages: "(task_step C)\<^sup>*\<^sup>* db db' \<Longrightarrow> task_inv C db \<Longrightarrow> task_inv C db' \<and> messages db' = messages db"
  by (induction rule: rtranclp_induct) (auto dest: task_step_life)

lemma task_steps_email: "(task_step C)\<^sup>*\<^sup>* db db' \<Longrightarrow> (email_step C)\<^sup>*\<^sup>* db db'"
  by (rule rtranclp_mono[THEN predicate2D]) (auto intro: email_step.task)

lemma email_steps_life:
  assumes "(email_step C)\<^sup>*\<^sup>* db db'" "task_inv C db" "r \<in> set (tasks db)"
  shows "task_inv C db' \<and> (\<exists>r' \<in> set (tasks db'). task_path r r')"
  using assms
proof (induction rule: rtranclp_induct)
  case base
  then show ?case using task_path_refl by blast
next
  case (step d d')
  then show ?case using email_step_life[of C d d'] task_path_compose by blast
qed

lemma email_steps_inv: "(email_step C)\<^sup>*\<^sup>* db db' \<Longrightarrow> task_inv C db \<Longrightarrow> task_inv C db'"
  by (induction rule: rtranclp_induct) (use email_step_life in blast)+

text \<open>
  C10. Tasks and messages stay consistent: along any interleaving of message recordings, triage
  transitions, task recordings and task transitions, every task keeps its identity and content and
  moves only along the task graph, and the message it was extracted from is still in the table, is
  an email, and is actionable or scheduled, so the checks of the task operations keep passing.
\<close>

theorem tasks_keep_their_email:
  assumes "(email_step C)\<^sup>*\<^sup>* db db'" "task_inv C db"
  shows "task_inv C db'
    \<and> (\<forall>r \<in> set (tasks db). \<exists>r' \<in> set (tasks db'). task_identity r' = task_identity r
         \<and> (\<exists>s s'. ta_state r = task_state_as_str s \<and> ta_state r' = task_state_as_str s' \<and> valid_task_transition\<^sup>*\<^sup>* s s'))
    \<and> (\<forall>r \<in> set (tasks db'). validate_task_message_on_connection C (ta_message_id r) db' = Inr ())"
proof -
  have inv': "task_inv C db'" by (rule email_steps_inv[OF assms])
  then have "\<forall>r \<in> set (tasks db'). validate_task_message_on_connection C (ta_message_id r) db' = Inr ()"
    by (auto simp: task_inv_def task_message_checks)
  then show ?thesis using inv' email_steps_life[OF assms] by (auto simp: task_path_def)
qed

text \<open>
  A task recording can be retried after any other recordings and task transitions: it changes
  nothing and returns the task with the identity it was recorded with, in its current state.
\<close>

theorem task_recording_is_idempotent:
  assumes inv: "task_inv C db" and c: "record_task C rq clk db = (db', Inr t)" and steps: "(task_step C)\<^sup>*\<^sup>* db' db''"
  shows "\<exists>t'. record_task C rq clk' db'' = (db'', Inr t')
    \<and> t' = t\<lparr>st_state := st_state t', st_updated_at := st_updated_at t'\<rparr>"
proof -
  have inv': "task_inv C db'" using task.created[OF inv c] by simp
  have later: "task_inv C db''" "messages db'' = messages db'"
    "\<forall>r \<in> set (tasks db'). \<exists>r' \<in> set (tasks db''). task_identity r' = task_identity r"
    using task_steps_messages[OF steps inv'] email_steps_life[OF task_steps_email[OF steps] inv']
    by (auto simp: task_path_def)
  have C: "codec_ok C" using inv by (simp add: task_inv_def message_inv_def)
  obtain r where r: "r \<in> set (tasks db')" "checked_task C db' r = Inr t" and x: "task_pre C rq db'" "task_exact rq t"
    using task.created[OF inv c] by (auto simp: task.stored_def)
  obtain r' where r': "r' \<in> set (tasks db'')" "task_identity r' = task_identity r" using later(3) r(1) by blast
  have em: "email_message C ss i db'' = email_message C ss i db'" for ss i
    using later(2) by (simp add: email_message_def find_message_def)
  obtain t' where t': "decode_task_row C r' = Inr t'" using later(1) r'(1) by (auto simp: task_inv_def)
  have d: "task_row_decodes C r t" "task_row_decodes C r' t'"
    using r(2) t' by (simp_all add: checked_task_Inr decode_task_row_Inr[OF C])
  have due: "st_due_at t' = st_due_at t"
    using d r'(2) rfc_time_unique[OF C]
    by (cases "ta_due_at r") (auto simp: task_row_decodes_def task_identity_def)
  have eq: "t' = t\<lparr>st_state := st_state t', st_updated_at := st_updated_at t'\<rparr>"
    using d r'(2) due by (cases t; cases t') (auto simp: task_row_decodes_def task_identity_def stored_enum_injects)
  have "checked_task C db'' r' = Inr t'"
    using r(2) t' em d r'(2) by (auto simp: checked_task_Inr task_row_decodes_def task_identity_def)
  moreover have "task_exact rq t'" using x(2) arg_cong[OF eq, of "\<lambda>t. task_exact rq t"]
    by (simp add: task_exact_def exact_task_def)
  moreover have "task_pre C rq db''" using x(1) em by (simp add: task_pre_def)
  ultimately have "task.stored C rq t' db''" using r'(1) by (auto simp: task.stored_def)
  then show ?thesis using task.retried[OF later(1)] eq by blast
qed


section \<open>Errors, listings and the schema\<close>

lemma record_task_not_actionable:
  assumes C: "codec_ok C" and v: "task_valid rq" and n: "\<not> email_message C {TsActionable} (tq_message_id rq) db"
  shows "record_task C rq clk db = (db, Inl message_invalid)"
proof -
  have "validate_task_duration (request_duration rq) = Inr (DurationMinutes (request_duration rq))"
    "transpose (map_option (\<lambda>v. format_task_timestamp C v ''due_at'') (tq_due_at rq))
      = Inr (map_option (\<lambda>v. (to_utc v, rfc C (unix_timestamp v))) (tq_due_at rq))"
    using v by (simp_all add: validate_task_duration_Inr[OF request_duration_nonneg] format_due[OF C] task_valid_def)
  moreover have "validate_actionable_message m ''message'' = Inl message_invalid"
    if "find_message (tq_message_id rq) db = Some row" "decode_message_row C row = Inr m" for row m
    using n that by (cases "sm_provider m") (auto simp: validate_actionable_message_def email_message_def message_invalid_def)
  ultimately show ?thesis using v
    by (cases "find_message (tq_message_id rq) db"; cases "decode_message_row C (the (find_message (tq_message_id rq) db))")
      (simp_all add: record_task_def run_tx_def validator_eqs task_valid_def request_duration_def)
qed

text \<open>
  A recorded task cannot be recorded again once its email is scheduled: after the triage
  transition of its message to scheduled the exact retry fails with an invalid-message error and
  changes nothing, although the task is still there.
\<close>

theorem task_retry_fails_after_scheduling:
  assumes inv: "task_inv C db" and c: "record_task C rq clk db = (db', Inr t)"
    and m: "transition_message C s TsActionable TsScheduled d db' = (db'', Inr m)" "sm_id m = tq_message_id rq"
  shows "record_task C rq clk' db'' = (db'', Inl (StoredRecordInvalid ''message''))
    \<and> (\<exists>r \<in> set (tasks db''). decode_task_row C r = Inr t)"
proof -
  have C: "codec_ok C" using inv by (simp add: task_inv_def message_inv_def)
  have inv': "task_inv C db'" and pre: "task_valid rq" and row: "\<exists>r \<in> set (tasks db'). decode_task_row C r = Inr t"
    using task.created[OF inv c] by (auto simp: task.stored_def task_pre_def checked_task_Inr)
  have mi: "message_inv C db'" using inv' by (simp add: task_inv_def)
  have mi'': "message_inv C db''" using triage.cas_ok[OF mi m(1)] by simp
  obtain r where r: "r \<in> set (messages db'')" "decode_message_row C r = Inr m" "sm_triage_state m = TsScheduled"
  proof -
    obtain row m0 where x: "row \<in> set (messages db')" "me_source_id row = s" "decode_message_row C row = Inr m0"
      "sm_provider m0 \<noteq> MpVoice" "is_utc d" "nanosecond d = 0" "rfc_range (unix_timestamp d)"
      "if sm_triage_state m0 = TsScheduled \<and> sm_updated_at m0 = rfc C (unix_timestamp d) then db'' = db' \<and> m = m0
       else sm_triage_state m0 = TsActionable \<and> db'' = with_triage s TsScheduled (rfc C (unix_timestamp d)) db'
          \<and> m = m0\<lparr>sm_triage_state := TsScheduled, sm_updated_at := rfc C (unix_timestamp d)\<rparr>"
      using transition_message_Inr[OF mi, of s TsActionable TsScheduled d db'' m] m(1) by blast
    let ?new = "set_triage TsScheduled (rfc C (unix_timestamp d)) row"
    have "decode_message_row C ?new = Inr (m0\<lparr>sm_triage_state := TsScheduled, sm_updated_at := rfc C (unix_timestamp d)\<rparr>)"
      by (rule decode_set_triage[OF C x(3)])
        (use x(4,7) in \<open>auto simp: rfc_time_def valid_message_state_def split: message_provider.splits\<close>)
    moreover have "?new \<in> set (messages (with_triage s TsScheduled (rfc C (unix_timestamp d)) db'))"
      using x(1,2) by (auto simp: with_triage_def update_rows_def)
    ultimately show thesis using x(1,3,8) that by (cases "sm_triage_state m0 = TsScheduled \<and> sm_updated_at m0 = rfc C (unix_timestamp d)") auto
  qed
  have "me_id r = tq_message_id rq" using r(2) m(2) by (simp add: decode_message_row_Inr[OF C] message_row_decodes_def)
  then have "find_message (tq_message_id rq) db'' = Some r"
    using find_unique[OF ids_ok_distinct r(1), of me_id] mi'' by (simp add: find_message_def message_inv_def)
  then have "\<not> email_message C {TsActionable} (tq_message_id rq) db''" using r(2,3) by (simp add: email_message_def)
  moreover have "tasks db'' = tasks db'" by (rule message_step_tasks[OF mi message_step.triaged[OF m(1)]])
  ultimately show ?thesis using record_task_not_actionable[OF C pre] row
    by (simp add: message_invalid_def stored_record_invalid_def)
qed

lemma rmap_filter:
  "rmap f xs = Inr ys \<Longrightarrow> (\<And>x y. x \<in> set xs \<Longrightarrow> f x = Inr y \<Longrightarrow> q x = q' y) \<Longrightarrow> rmap f (filter q xs) = Inr (filter q' ys)"
proof (induction xs arbitrary: ys)
  case Nil
  then show ?case by simp
next
  case (Cons x xs)
  then obtain y zs where "f x = Inr y" "rmap f xs = Inr zs" "ys = y # zs" by (auto simp: rbind_Inr_iff)
  then show ?case using Cons.IH[of zs] Cons.prems(2)[of x y] Cons.prems(2) by simp
qed

lemma rmap_take: "rmap f xs = Inr ys \<Longrightarrow> rmap f (take n xs) = Inr (take n ys)"
  by (simp add: rmap_Inr_iff)

lemma rmap_cong: "(\<And>x. x \<in> set xs \<Longrightarrow> f x = g x) \<Longrightarrow> rmap f xs = rmap g xs"
  by (induction xs) auto

lemma list_tasks_page:
  assumes inv: "task_inv C db" and limit: "0 < limit" "limit \<le> 100" and a: "\<forall>i. after_id = Some i \<longrightarrow> 1 \<le> i"
  shows "list_tasks_by_state C s after_id limit db =
    rmap (decode_task_row C) (page_rows ta_id after_id limit (filter (\<lambda>r. ta_state r = task_state_as_str s) (tasks db)))"
proof -
  have C: "codec_ok C" using inv by (simp add: task_inv_def message_inv_def)
  have ids: "ids_ok ta_id (tasks db)" using inv by (simp add: task_inv_def)
  let ?cur = "\<lambda>i. case after_id of None \<Rightarrow> True | Some c \<Rightarrow> c < i"
  obtain all where all: "rmap (decode_task_row C) (tasks db) = Inr all"
    using rmap_total[of "tasks db" "decode_task_row C"] inv by (auto simp: task_inv_def)
  have fields: "ta_state r = task_state_as_str (st_state t) \<and> ta_id r = st_id t" if "decode_task_row C r = Inr t" for r t
    using that by (simp add: decode_task_row_Inr[OF C] task_row_decodes_def)
  have checked: "rbind (decode_task_row C row) (\<lambda>task. rbind (map_err (\<lambda>_. task_invalid)
      (validate_task_message_on_connection C (st_message_id task) db)) (\<lambda>_. Inr task)) = decode_task_row C row"
    if row: "row \<in> set (tasks db)" for row
  proof -
    obtain t where "decode_task_row C row = Inr t" "email_message C {TsActionable, TsScheduled} (ta_message_id row) db"
      using inv row by (auto simp: task_inv_def)
    moreover from this have "st_message_id t = ta_message_id row"
      by (simp add: decode_task_row_Inr[OF C] task_row_decodes_def)
    ultimately show ?thesis by (simp add: task_message_checks)
  qed
  have page: "check_page after_id limit MAX_TASK_LIST_LIMIT = Inr ()"
    using limit a by (auto simp: check_page_def store_limits split: option.splits)
  have "list_tasks_by_state C s after_id limit db =
      Inr (take limit (filter (\<lambda>t. st_state t = s \<and> ?cur (st_id t)) all))"
    using all rmap_cong[of "tasks db", OF checked]
    by (simp add: list_tasks_by_state_def page ids_ok_sort[OF ids])
  moreover have "rmap (decode_task_row C) (filter (\<lambda>r. ta_state r = task_state_as_str s \<and> ?cur (ta_id r)) (tasks db))
      = Inr (filter (\<lambda>t. st_state t = s \<and> ?cur (st_id t)) all)"
    by (rule rmap_filter[OF all], drule fields) (auto simp: stored_enum_injects split: option.splits)
  moreover have "page_rows ta_id after_id limit (filter (\<lambda>r. ta_state r = task_state_as_str s) (tasks db))
      = take limit (filter (\<lambda>r. ta_state r = task_state_as_str s \<and> ?cur (ta_id r)) (tasks db))"
    using ids_ok_sort[OF ids_ok_filter[OF ids]] by (simp add: page_rows_def conj_commute)
  ultimately show ?thesis by (simp add: rmap_take)
qed

text \<open>
  The listing of one task state is complete: reading pages of any allowed size until one is
  empty ends and returns exactly the tasks in that state, once each, in id order.
\<close>

theorem task_listing_is_complete:
  assumes inv: "task_inv C db" and limit: "0 < limit" "limit \<le> 100" and fuel: "length (tasks db) < fuel"
  shows "\<exists>all. rmap (decode_task_row C) (tasks db) = Inr all
    \<and> read_pages (\<lambda>a. list_tasks_by_state C s a limit db) st_id fuel None = Inr (filter (\<lambda>t. st_state t = s) all)"
proof -
  have C: "codec_ok C" using inv by (simp add: task_inv_def message_inv_def)
  have ids: "ids_ok ta_id (tasks db)" using inv by (simp add: task_inv_def)
  have dec: "\<exists>t. decode_task_row C r = Inr t \<and> st_id t = ta_id r" if "r \<in> set (tasks db)" for r
    using inv that by (fastforce simp: task_inv_def decode_task_row_Inr[OF C] task_row_decodes_def)
  let ?p = "\<lambda>r. ta_state r = task_state_as_str s"
  obtain all where all: "rmap (decode_task_row C) (tasks db) = Inr all"
    using rmap_total[of "tasks db" "decode_task_row C"] dec by blast
  have "read_pages (\<lambda>a. list_tasks_by_state C s a limit db) st_id fuel None
      = rmap (decode_task_row C) (filter ?p (tasks db))"
    by (rule read_pages_complete[OF ids_ok_filter[OF ids] limit(1)])
      (use dec fuel list_tasks_page[OF inv limit] le_less_trans[OF length_filter_le fuel] in auto)
  moreover have "rmap (decode_task_row C) (filter ?p (tasks db)) = Inr (filter (\<lambda>t. st_state t = s) all)"
    by (rule rmap_filter[OF all]) (auto simp: decode_task_row_Inr[OF C] task_row_decodes_def stored_enum_injects)
  ultimately show ?thesis using all by simp
qed

lemma email_message_mem: "email_message C ss i db \<Longrightarrow> \<exists>r. r \<in> set (messages db) \<and> me_id r = i"
  by (auto simp: email_message_def find_message_def dest: find_Some_mem)

text \<open>The \<open>CHECK\<close> constraints of the table \<open>tasks\<close> (\<open>apply_schema_v7\<close>).\<close>

definition task_row_check :: "(str \<Rightarrow> bool) \<Rightarrow> task_row \<Rightarrow> bool" where
  "task_row_check utc_text r \<longleftrightarrow>
     sql_identifier_check 256 (ta_idempotency_key r) \<and> sql_identifier_check 256 (ta_source_id r)
     \<and> sql_text_check 256 (ta_title r)
     \<and> ta_kind r \<in> {lit ''bill'', lit ''callback'', lit ''reading'', lit ''email_reply'', lit ''preparation''}
     \<and> 1 \<le> ta_duration_minutes r \<and> ta_duration_minutes r \<le> 1440
     \<and> (case ta_due_at r of None \<Rightarrow> True | Some s \<Rightarrow> utc_text s)
     \<and> ta_state r \<in> {lit ''pending'', lit ''proposed'', lit ''scheduled'', lit ''no_slot''}
     \<and> utc_text (ta_created_at r) \<and> utc_text (ta_updated_at r)"

lemma decoded_task_passes:
  assumes C: "codec_ok C" and d: "decode_task_row C r = Inr t" and u: "\<And>t. rfc_range t \<Longrightarrow> utc_text (rfc C t)"
  shows "task_row_check utc_text r"
proof -
  have row: "task_row_decodes C r t" using d by (simp add: decode_task_row_Inr[OF C])
  have time: "rfc_time C s t \<Longrightarrow> utc_text s" for s t using u by (auto simp: rfc_time_def)
  have "ta_kind r \<in> {lit ''bill'', lit ''callback'', lit ''reading'', lit ''email_reply'', lit ''preparation''}"
    using row by (cases "st_kind t") (simp_all add: task_row_decodes_def)
  moreover have "ta_state r \<in> {lit ''pending'', lit ''proposed'', lit ''scheduled'', lit ''no_slot''}"
    using row by (cases "st_state t") (simp_all add: task_row_decodes_def)
  moreover have "case ta_due_at r of None \<Rightarrow> True | Some s \<Rightarrow> utc_text s"
    using row time by (auto simp: task_row_decodes_def split: option.splits)
  ultimately show ?thesis using row time machine_id_sql plain_text_sql
    unfolding task_row_check_def task_row_decodes_def task_duration_ok_def by blast
qed

text \<open>
  Every task row that the operations write satisfies the constraints of the schema, and its
  foreign key finds its message.
\<close>

theorem task_rows_satisfy_schema:
  assumes "task_inv C db" "(email_step C)\<^sup>*\<^sup>* db db'" and "\<And>t. rfc_range t \<Longrightarrow> utc_text (rfc C t)"
  shows "list_all (task_row_check utc_text) (tasks db')
    \<and> distinct (map ta_idempotency_key (tasks db')) \<and> distinct (map ta_source_id (tasks db'))
    \<and> (\<forall>r \<in> set (tasks db'). ta_message_id r \<in> me_id ` set (messages db'))"
proof -
  have inv: "task_inv C db'" by (rule email_steps_inv[OF assms(2,1)])
  then have C: "codec_ok C" by (simp add: task_inv_def message_inv_def)
  have "ta_message_id r \<in> me_id ` set (messages db')" if "r \<in> set (tasks db')" for r
    using inv that email_message_mem unfolding task_inv_def by (metis imageI)
  moreover have "task_row_check utc_text r" if "r \<in> set (tasks db')" for r
    using inv that decoded_task_passes[where utc_text = utc_text, OF C _ assms(3)] by (fastforce simp: task_inv_def)
  ultimately show ?thesis using inv by (auto simp: task_inv_def list_all_iff)
qed


section \<open>Witnesses\<close>

definition demo_email_db :: db where
  "demo_email_db = with_triage (lit ''s'') TsActionable [70] demo_messages_db"

definition demo_task_request :: task_request where
  "demo_task_request = \<lparr>tq_idempotency_key = lit ''tk'', tq_source_id = lit ''ts'', tq_message_id = 1,
     tq_title = lit ''pay'', tq_kind = TkBill, tq_duration_minutes = None, tq_due_at = None\<rparr>"

definition demo_task_row :: task_row where
  "demo_task_row = \<lparr>ta_id = 1, ta_idempotency_key = lit ''tk'', ta_source_id = lit ''ts'', ta_message_id = 1,
     ta_title = lit ''pay'', ta_kind = lit ''bill'', ta_duration_minutes = 15, ta_due_at = None,
     ta_state = lit ''pending'', ta_created_at = [60], ta_updated_at = [60]\<rparr>"

definition demo_task :: stored_task where
  "demo_task = \<lparr>st_id = 1, st_idempotency_key = lit ''tk'', st_source_id = lit ''ts'', st_message_id = 1,
     st_title = lit ''pay'', st_kind = TkBill, st_duration = DurationMinutes 15, st_due_at = None,
     st_state = StPending, st_created_at = [60], st_updated_at = [60]\<rparr>"

definition demo_task_db :: db where
  "demo_task_db = add_task demo_email_db demo_task_row"

lemma demo_actionable:
  "transition_message demo_codec (lit ''s'') TsUnprocessed TsActionable (utc_secs 70) demo_messages_db
     = (demo_email_db, Inr (demo_message\<lparr>sm_triage_state := TsActionable, sm_updated_at := [70]\<rparr>))"
  using transition_message_row[OF demo_messages_inv, of demo_message_row demo_message TsUnprocessed TsActionable
      "utc_secs 70" "[70]"] demo_message_decodes demo_times
  by (simp add: demo_messages_db_def valid_message_transition_def rfc_time_def demo_rfc demo_message_def
      demo_message_row_def demo_email_db_def)

lemma demo_email_rows: "messages demo_email_db = [set_triage TsActionable [70] demo_message_row]" "tasks demo_email_db = []"
  by (simp_all add: demo_email_db_def with_triage_def demo_messages_db_def update_rows_def demo_message_row_def empty_db_def)

lemma demo_email_decodes:
  "decode_message_row demo_codec (set_triage TsActionable [70] demo_message_row)
     = Inr (demo_message\<lparr>sm_triage_state := TsActionable, sm_updated_at := [70]\<rparr>)"
  by (rule decode_set_triage[OF demo_codec_ok demo_message_decodes, where t = 70])
    (simp_all add: demo_message_def valid_message_state_def rfc_time_def demo_rfc demo_times)

lemma demo_email_inv: "task_inv demo_codec demo_email_db"
  using triage.cas_ok[OF demo_messages_inv demo_actionable] by (simp add: task_inv_def demo_email_rows)

lemma demo_email_actionable: "email_message demo_codec {TsActionable} 1 demo_email_db"
  using demo_email_decodes
  by (simp add: email_message_def find_message_def demo_email_rows demo_message_row_def demo_message_def)

lemma demo_task_decodes: "decode_task_row demo_codec demo_task_row = Inr demo_task"
  unfolding decode_task_row_Inr[OF demo_codec_ok] task_row_decodes_def
  using demo_times
  by (auto simp: demo_task_row_def demo_task_def machine_id_def machine_byte_def char_class_defs task_duration_ok_def
      rfc_time_def demo_rfc plain_text_def str_trim_def trim_matches_def utf8_char_def intro!: exI[of _ 60])

lemma demo_task_recorded:
  "record_task demo_codec demo_task_request [60] demo_email_db = (demo_task_db, Inr demo_task)"
proof -
  have new: "task_new demo_codec demo_task_request [60] demo_email_db = demo_task_row"
    by (simp add: task_new_def new_task_row_def demo_task_request_def demo_task_row_def request_duration_def
        next_id_def demo_email_rows)
  have "task_pre demo_codec demo_task_request demo_email_db"
    using demo_email_actionable by (simp add: task_pre_def task_valid_def demo_task_request_def machine_id_def
        machine_byte_def char_class_defs plain_text_def str_trim_def trim_matches_def utf8_char_def
        task_duration_ok_def request_duration_def due_ok_def)
  moreover have "checked_task demo_codec demo_email_db demo_task_row = Inr demo_task"
    using demo_task_decodes demo_email_actionable by (simp add: checked_task_Inr demo_task_def)
  ultimately show ?thesis
    by (simp add: record_task_Inr[OF demo_codec_ok] demo_email_rows new demo_task_db_def)
qed

lemma demo_task_inv: "task_inv demo_codec demo_task_db"
  using task.created[OF demo_email_inv demo_task_recorded] by simp

lemma demo_task_rows: "tasks demo_task_db = [demo_task_row]" "messages demo_task_db = messages demo_email_db"
  by (simp_all add: demo_task_db_def demo_email_rows)

theorem tasks_keep_their_email_witness:
  "validate_task_message_on_connection demo_codec 1 demo_task_db = Inr ()"
proof -
  have "(email_step demo_codec)\<^sup>*\<^sup>* demo_email_db demo_task_db"
    using email_step.task[OF task_step.recorded[OF demo_task_recorded]] by blast
  from tasks_keep_their_email[OF this demo_email_inv] show ?thesis
    by (simp add: demo_task_rows demo_task_row_def)
qed

theorem task_recording_is_idempotent_witness:
  "\<exists>t'. record_task demo_codec demo_task_request [99] demo_task_db = (demo_task_db, Inr t')"
  using task_recording_is_idempotent[OF demo_email_inv demo_task_recorded rtranclp.rtrancl_refl, of "[99]"] by blast

theorem task_retry_fails_after_scheduling_witness:
  "\<exists>db''. record_task demo_codec demo_task_request [99] db'' = (db'', Inl (StoredRecordInvalid ''message''))
     \<and> tasks db'' \<noteq> []"
proof -
  let ?row = "set_triage TsActionable [70] demo_message_row"
  let ?m = "demo_message\<lparr>sm_triage_state := TsActionable, sm_updated_at := [70]\<rparr>"
  have mi: "message_inv demo_codec demo_task_db" using demo_task_inv by (simp add: task_inv_def)
  have "transition_message demo_codec (lit ''s'') TsActionable TsScheduled (utc_secs 70) demo_task_db
    = (with_triage (lit ''s'') TsScheduled [70] demo_task_db,
       Inr (?m\<lparr>sm_triage_state := TsScheduled, sm_updated_at := [70]\<rparr>))"
    using transition_message_row[OF mi, of ?row ?m TsActionable TsScheduled "utc_secs 70" "[70]"]
      demo_email_decodes demo_times
    by (simp add: demo_task_rows demo_email_rows valid_message_transition_def rfc_time_def demo_rfc
        demo_message_def demo_message_row_def)
  from task_retry_fails_after_scheduling[OF demo_email_inv demo_task_recorded this, of "[99]"]
  show ?thesis by (auto simp: demo_message_def demo_task_request_def)
qed

theorem task_listing_is_complete_witness:
  "\<exists>all. read_pages (\<lambda>a. list_tasks_by_state demo_codec StPending a 1 demo_task_db) st_id 2 None = Inr all"
  using task_listing_is_complete[OF demo_task_inv, of 1 2 StPending] by (auto simp: demo_task_rows)

theorem task_rows_satisfy_schema_witness:
  "list_all (task_row_check (\<lambda>_. True)) (tasks demo_task_db)"
  using task_rows_satisfy_schema[OF demo_task_inv rtranclp.rtrancl_refl, of "\<lambda>_. True"] by simp

end
