(* ===== verification/Store_Proposals.thy ===== *)
theory Store_Proposals
  imports Store_Contracts
begin

text \<open>
  Proposals and calendar event mappings of \<open>src/pa/store.rs\<close>: creation from one draft, the
  pending-to-decided transition, the attachment of a provider event, the loads and the deletions
  with the foreign-key actions of the schema. \<open>N\<close> stands for chrono's \<open>NaiveDateTime\<close>: it gives
  the canonical text of a \<open>%Y-%m-%d %H:%M:%S\<close> timestamp, or nothing when the text does not parse.
\<close>

section \<open>Records and the strict decoders\<close>

datatype proposal_source = AppointmentDraftSource int | OwnerTaskDraftSource int

definition from_ids :: "int option \<Rightarrow> int option \<Rightarrow> proposal_source store_result" where
  "from_ids appointment owner_task =
     (case (appointment, owner_task) of
        (Some i, None) \<Rightarrow> if i > 0 then Inr (AppointmentDraftSource i) else Inl (InvalidInput ''source'')
      | (None, Some i) \<Rightarrow> if i > 0 then Inr (OwnerTaskDraftSource i) else Inl (InvalidInput ''source'')
      | _ \<Rightarrow> Inl (InvalidInput ''source''))"

fun appointment_draft_id :: "proposal_source \<Rightarrow> int option" where
  "appointment_draft_id (AppointmentDraftSource i) = Some i"
| "appointment_draft_id (OwnerTaskDraftSource i) = None"

fun owner_task_draft_id :: "proposal_source \<Rightarrow> int option" where
  "owner_task_draft_id (AppointmentDraftSource i) = None"
| "owner_task_draft_id (OwnerTaskDraftSource i) = Some i"

record stored_proposal =
  sp_id :: int
  sp_idempotency_key :: str
  sp_source_id :: str
  sp_source :: proposal_source
  sp_state :: proposal_state
  sp_created_at :: str
  sp_updated_at :: str

record stored_event_mapping =
  se_id :: int
  se_proposal_id :: int
  se_provider :: str
  se_provider_event_id :: str
  se_source_id :: str
  se_starts_at :: "odt option"
  se_ends_at :: "odt option"
  se_created_at :: str
  se_updated_at :: str

type_synonym naive_codec = "str \<Rightarrow> str option"

definition validate_stored_timestamp :: "naive_codec \<Rightarrow> str \<Rightarrow> string \<Rightarrow> str store_result" where
  "validate_stored_timestamp N v resource =
     rbind (ok_or (stored_record_invalid resource) (N v)) (\<lambda>canonical.
       if canonical \<noteq> v then Inl (stored_record_invalid resource) else Inr v)"

definition validate_proposal_source :: "proposal_source \<Rightarrow> unit store_result" where
  "validate_proposal_source s =
     (case s of
        AppointmentDraftSource i \<Rightarrow> if i > 0 then Inr () else Inl (InvalidInput ''source'')
      | OwnerTaskDraftSource i \<Rightarrow> if i > 0 then Inr () else Inl (InvalidInput ''source''))"

definition proposal_invalid :: store_error where
  "proposal_invalid = stored_record_invalid ''proposal''"

definition decode_proposal_row :: "naive_codec \<Rightarrow> proposal_row \<Rightarrow> stored_proposal store_result" where
  "decode_proposal_row N row =
     rbind (ensure (\<not> pr_id row \<le> 0) proposal_invalid) (\<lambda>_.
     rbind (map_err (\<lambda>_. proposal_invalid) (idempotency_key_new (pr_idempotency_key row))) (\<lambda>key.
     rbind (map_err (\<lambda>_. proposal_invalid) (validate_source_id (pr_source_id row))) (\<lambda>source_id.
     rbind (map_err (\<lambda>_. proposal_invalid) (from_ids (pr_appointment_draft_id row) (pr_owner_task_draft_id row))) (\<lambda>source.
     rbind (parse_proposal_state (pr_state row)) (\<lambda>state.
     rbind (validate_stored_timestamp N (pr_created_at row) ''proposal'') (\<lambda>created_at.
     rbind (validate_stored_timestamp N (pr_updated_at row) ''proposal'') (\<lambda>updated_at.
       Inr \<lparr>sp_id = pr_id row, sp_idempotency_key = key, sp_source_id = source_id, sp_source = source,
            sp_state = state, sp_created_at = created_at, sp_updated_at = updated_at\<rparr>)))))))"

definition mapping_invalid :: store_error where
  "mapping_invalid = stored_record_invalid ''event mapping''"

definition decode_event_mapping_row ::
    "codec \<Rightarrow> naive_codec \<Rightarrow> event_mapping_row \<Rightarrow> stored_event_mapping store_result" where
  "decode_event_mapping_row C N row =
     rbind (ensure (\<not> (ev_id row \<le> 0 \<or> ev_proposal_id row \<le> 0)) mapping_invalid) (\<lambda>_.
     rbind (map_err (\<lambda>_. mapping_invalid) (validate_non_empty (ev_provider row) ''provider'')) (\<lambda>provider.
     rbind (map_err (\<lambda>_. mapping_invalid) (validate_non_empty (ev_provider_event_id row) ''provider_event_id'')) (\<lambda>event_id.
     rbind (map_err (\<lambda>_. mapping_invalid) (validate_source_id (ev_source_id row))) (\<lambda>source_id.
     rbind (map_err (\<lambda>_. mapping_invalid) (transpose (map_option (parse_offset_datetime C) (ev_starts_at row)))) (\<lambda>starts_at.
     rbind (map_err (\<lambda>_. mapping_invalid) (transpose (map_option (parse_offset_datetime C) (ev_ends_at row)))) (\<lambda>ends_at.
     rbind (ensure (\<not> ((starts_at \<noteq> None) \<noteq> (ends_at \<noteq> None)
                      \<or> (case (starts_at, ends_at) of (Some s, Some e) \<Rightarrow> \<not> before s e | _ \<Rightarrow> False))) mapping_invalid) (\<lambda>_.
     rbind (validate_stored_timestamp N (ev_created_at row) ''event mapping'') (\<lambda>created_at.
     rbind (validate_stored_timestamp N (ev_updated_at row) ''event mapping'') (\<lambda>updated_at.
       Inr \<lparr>se_id = ev_id row, se_proposal_id = ev_proposal_id row, se_provider = provider,
            se_provider_event_id = event_id, se_source_id = source_id, se_starts_at = starts_at,
            se_ends_at = ends_at, se_created_at = created_at, se_updated_at = updated_at\<rparr>)))))))))"

section \<open>Proposals\<close>

definition ensure_proposal_source_exists :: "proposal_source \<Rightarrow> db \<Rightarrow> unit store_result" where
  "ensure_proposal_source_exists s db =
     (case s of
        AppointmentDraftSource i \<Rightarrow>
          ensure (\<exists>r \<in> set (appointment_drafts db). ap_id r = i) (NotFound ''appointment draft'')
      | OwnerTaskDraftSource i \<Rightarrow>
          ensure (\<exists>r \<in> set (owner_task_drafts db). ow_id r = i) (NotFound ''owner task draft''))"

definition query_proposal_rows_by_identity :: "str \<Rightarrow> str \<Rightarrow> proposal_row \<Rightarrow> bool" where
  "query_proposal_rows_by_identity key source r \<longleftrightarrow> pr_idempotency_key r = key \<or> pr_source_id r = source"

definition new_proposal_row :: "str \<Rightarrow> str \<Rightarrow> proposal_source \<Rightarrow> str \<Rightarrow> db \<Rightarrow> proposal_row" where
  "new_proposal_row key source_id source clk db =
     \<lparr>pr_id = next_id pr_id (proposals db), pr_idempotency_key = key, pr_source_id = source_id,
      pr_appointment_draft_id = appointment_draft_id source, pr_owner_task_draft_id = owner_task_draft_id source,
      pr_state = lit ''pending'', pr_created_at = clk, pr_updated_at = clk\<rparr>"

definition exact_proposal :: "str \<Rightarrow> str \<Rightarrow> proposal_source \<Rightarrow> stored_proposal \<Rightarrow> bool" where
  "exact_proposal key source_id source p \<longleftrightarrow>
     sp_idempotency_key p = key \<and> sp_source_id p = source_id \<and> sp_source p = source"

definition create_proposal_in_transaction ::
    "naive_codec \<Rightarrow> str \<Rightarrow> str \<Rightarrow> proposal_source \<Rightarrow> str \<Rightarrow> db \<Rightarrow> (db \<times> stored_proposal) store_result" where
  "create_proposal_in_transaction N key source_id source clk db =
     rbind (ensure_proposal_source_exists source db) (\<lambda>_.
     let candidates = filter (query_proposal_rows_by_identity key source_id) (proposals db) in
     if candidates = []
     then (let row = new_proposal_row key source_id source clk db
           in rbind (decode_proposal_row N row) (\<lambda>stored. Inr (db\<lparr>proposals := proposals db @ [row]\<rparr>, stored)))
     else rbind (retry_loop (decode_proposal_row N) (exact_proposal key source_id source) None
                   (Conflict ''proposal'') candidates None) (\<lambda>exact_retry.
          rbind (ok_or proposal_invalid exact_retry) (\<lambda>stored. Inr (db, stored))))"

definition create_proposal ::
    "naive_codec \<Rightarrow> str \<Rightarrow> str \<Rightarrow> proposal_source \<Rightarrow> str \<Rightarrow> db \<Rightarrow> db \<times> stored_proposal store_result" where
  "create_proposal N key source_id source clk =
     run_tx (\<lambda>db.
       rbind (validate_non_empty key ''idempotency_key'') (\<lambda>key.
       rbind (validate_source_id source_id) (\<lambda>source_id.
       rbind (validate_proposal_source source) (\<lambda>_.
         create_proposal_in_transaction N key source_id source clk db))))"

definition load_proposal_where :: "naive_codec \<Rightarrow> (proposal_row \<Rightarrow> bool) \<Rightarrow> db \<Rightarrow> stored_proposal store_result" where
  "load_proposal_where N p db =
     rbind (ok_or (NotFound ''proposal'') (find p (proposals db))) (decode_proposal_row N)"

definition load_proposal_by_id :: "naive_codec \<Rightarrow> int \<Rightarrow> db \<Rightarrow> stored_proposal store_result" where
  "load_proposal_by_id N i db = load_proposal_where N (\<lambda>r. pr_id r = i) db"

definition load_proposal_by_idempotency_key :: "naive_codec \<Rightarrow> str \<Rightarrow> db \<Rightarrow> stored_proposal store_result" where
  "load_proposal_by_idempotency_key N key db =
     rbind (validate_non_empty key ''idempotency_key'') (\<lambda>key. load_proposal_where N (\<lambda>r. pr_idempotency_key r = key) db)"

definition load_proposal_by_source_id :: "naive_codec \<Rightarrow> str \<Rightarrow> db \<Rightarrow> stored_proposal store_result" where
  "load_proposal_by_source_id N source_id db =
     rbind (validate_source_id source_id) (\<lambda>source_id. load_proposal_where N (\<lambda>r. pr_source_id r = source_id) db)"

definition set_proposal_state :: "proposal_state \<Rightarrow> str \<Rightarrow> proposal_row \<Rightarrow> proposal_row" where
  "set_proposal_state next clk r = r\<lparr>pr_state := proposal_state_storage_name next, pr_updated_at := clk\<rparr>"

definition update_proposal_state :: "proposal_state \<Rightarrow> int \<Rightarrow> str \<Rightarrow> db \<Rightarrow> db \<times> nat" where
  "update_proposal_state next i clk db =
     (let p = (\<lambda>r. pr_id r = i \<and> pr_state r = lit ''pending'')
      in (db\<lparr>proposals := update_rows p (set_proposal_state next clk) (proposals db)\<rparr>, count_rows p (proposals db)))"

definition transition_proposal ::
    "naive_codec \<Rightarrow> int \<Rightarrow> proposal_state \<Rightarrow> str \<Rightarrow> db \<Rightarrow> db \<times> stored_proposal store_result" where
  "transition_proposal N i next clk =
     run_tx (\<lambda>db.
       rbind (ok_or (NotFound ''proposal'') (find (\<lambda>r. pr_id r = i) (proposals db))) (\<lambda>current_row.
       rbind (decode_proposal_row N current_row) (\<lambda>current.
       if sp_state current = next \<and> is_terminal (sp_state current) then Inr (db, current)
       else if \<not> can_transition_to (sp_state current) next then Inl (Conflict ''proposal transition'')
       else (let (db', updated) = update_proposal_state next i clk db in
             if updated \<noteq> 1 then Inl (Conflict ''proposal transition'')
             else rbind (ok_or proposal_invalid (find (\<lambda>r. pr_id r = i) (proposals db'))) (\<lambda>row.
                  rbind (decode_proposal_row N row) (\<lambda>stored. Inr (db', stored)))))))"

section \<open>Event mappings\<close>

record mapping_request =
  mq_proposal_id :: int
  mq_provider :: str
  mq_provider_event_id :: str
  mq_source_id :: str
  mq_starts_at :: "odt option"
  mq_ends_at :: "odt option"

definition validate_event_times :: "odt option \<Rightarrow> odt option \<Rightarrow> unit store_result" where
  "validate_event_times starts_at ends_at =
     (case (starts_at, ends_at) of
        (None, None) \<Rightarrow> Inr ()
      | (Some s, Some e) \<Rightarrow> if before s e then Inr () else Inl (InvalidInput ''event_times'')
      | (Some _, None) \<Rightarrow> Inl (InvalidInput ''ends_at'')
      | (None, Some _) \<Rightarrow> Inl (InvalidInput ''starts_at''))"

definition query_event_mapping_rows_by_identity :: "int \<Rightarrow> str \<Rightarrow> str \<Rightarrow> str \<Rightarrow> event_mapping_row \<Rightarrow> bool" where
  "query_event_mapping_rows_by_identity proposal_id provider event_id source_id r \<longleftrightarrow>
     ev_proposal_id r = proposal_id \<or> (ev_provider r = provider \<and> ev_provider_event_id r = event_id)
     \<or> ev_source_id r = source_id"

definition new_mapping_row :: "mapping_request \<Rightarrow> str option \<Rightarrow> str option \<Rightarrow> str \<Rightarrow> db \<Rightarrow> event_mapping_row" where
  "new_mapping_row rq starts_at ends_at clk db =
     \<lparr>ev_id = next_id ev_id (event_mappings db), ev_proposal_id = mq_proposal_id rq, ev_provider = mq_provider rq,
      ev_provider_event_id = mq_provider_event_id rq, ev_source_id = mq_source_id rq,
      ev_starts_at = starts_at, ev_ends_at = ends_at, ev_created_at = clk, ev_updated_at = clk\<rparr>"

definition same_time :: "odt option \<Rightarrow> odt option \<Rightarrow> bool" where
  "same_time a b = (case (a, b) of (None, None) \<Rightarrow> True | (Some x, Some y) \<Rightarrow> same_instant x y | _ \<Rightarrow> False)"

definition exact_mapping :: "mapping_request \<Rightarrow> stored_event_mapping \<Rightarrow> bool" where
  "exact_mapping rq m \<longleftrightarrow>
     se_proposal_id m = mq_proposal_id rq \<and> se_provider m = mq_provider rq
     \<and> se_provider_event_id m = mq_provider_event_id rq \<and> se_source_id m = mq_source_id rq
     \<and> same_time (se_starts_at m) (mq_starts_at rq) \<and> same_time (se_ends_at m) (mq_ends_at rq)"

definition attach_event_mapping ::
    "codec \<Rightarrow> naive_codec \<Rightarrow> mapping_request \<Rightarrow> str \<Rightarrow> db \<Rightarrow> db \<times> stored_event_mapping store_result" where
  "attach_event_mapping C N rq clk =
     run_tx (\<lambda>db.
       rbind (validate_non_empty (mq_provider rq) ''provider'') (\<lambda>provider.
       rbind (validate_non_empty (mq_provider_event_id rq) ''provider_event_id'') (\<lambda>event_id.
       rbind (validate_source_id (mq_source_id rq)) (\<lambda>source_id.
       rbind (validate_event_times (mq_starts_at rq) (mq_ends_at rq)) (\<lambda>_.
       rbind (ensure (\<exists>r \<in> set (proposals db). pr_id r = mq_proposal_id rq) (NotFound ''proposal'')) (\<lambda>_.
       rbind (transpose (map_option (format_offset_datetime C) (mq_starts_at rq))) (\<lambda>starts_at.
       rbind (transpose (map_option (format_offset_datetime C) (mq_ends_at rq))) (\<lambda>ends_at.
       let candidates = filter (query_event_mapping_rows_by_identity (mq_proposal_id rq) provider event_id source_id)
                          (event_mappings db) in
       if candidates = []
       then (let row = new_mapping_row rq starts_at ends_at clk db
             in rbind (decode_event_mapping_row C N row) (\<lambda>stored.
                  Inr (db\<lparr>event_mappings := event_mappings db @ [row]\<rparr>, stored)))
       else rbind (retry_loop (decode_event_mapping_row C N) (exact_mapping rq) None (Conflict ''event mapping'')
                     candidates None) (\<lambda>exact_retry.
            rbind (ok_or mapping_invalid exact_retry) (\<lambda>stored. Inr (db, stored)))))))))))"

definition load_mapping_where ::
    "codec \<Rightarrow> naive_codec \<Rightarrow> (event_mapping_row \<Rightarrow> bool) \<Rightarrow> db \<Rightarrow> stored_event_mapping store_result" where
  "load_mapping_where C N p db =
     rbind (ok_or (NotFound ''event mapping'') (find p (event_mappings db))) (decode_event_mapping_row C N)"

definition load_event_mapping_by_id :: "codec \<Rightarrow> naive_codec \<Rightarrow> int \<Rightarrow> db \<Rightarrow> stored_event_mapping store_result" where
  "load_event_mapping_by_id C N i db = load_mapping_where C N (\<lambda>r. ev_id r = i) db"

definition load_event_mapping_by_proposal_id ::
    "codec \<Rightarrow> naive_codec \<Rightarrow> int \<Rightarrow> db \<Rightarrow> stored_event_mapping store_result" where
  "load_event_mapping_by_proposal_id C N i db = load_mapping_where C N (\<lambda>r. ev_proposal_id r = i) db"

definition load_event_mapping_by_provider_event ::
    "codec \<Rightarrow> naive_codec \<Rightarrow> str \<Rightarrow> str \<Rightarrow> db \<Rightarrow> stored_event_mapping store_result" where
  "load_event_mapping_by_provider_event C N provider event_id db =
     rbind (validate_non_empty provider ''provider'') (\<lambda>provider.
     rbind (validate_non_empty event_id ''provider_event_id'') (\<lambda>event_id.
       load_mapping_where C N (\<lambda>r. ev_provider r = provider \<and> ev_provider_event_id r = event_id) db))"

definition load_event_mapping_by_source_id ::
    "codec \<Rightarrow> naive_codec \<Rightarrow> str \<Rightarrow> db \<Rightarrow> stored_event_mapping store_result" where
  "load_event_mapping_by_source_id C N source_id db =
     rbind (validate_source_id source_id) (\<lambda>source_id. load_mapping_where C N (\<lambda>r. ev_source_id r = source_id) db)"

section \<open>Deletions and foreign keys\<close>

text \<open>
  \<open>ON DELETE CASCADE\<close>: a deleted mapping takes its notifications along, and a deleted proposal its
  mappings and notifications. \<open>ON DELETE RESTRICT\<close>: a proposal that a consumed quote refers to, and
  a draft that a quote or a placement refers to, cannot be deleted (an SQLite error).
\<close>

definition delete_mappings :: "(event_mapping_row \<Rightarrow> bool) \<Rightarrow> db \<Rightarrow> db" where
  "delete_mappings p db =
     db\<lparr>event_mappings := filter (\<lambda>r. \<not> p r) (event_mappings db),
        notification_outbox := filter (\<lambda>n. \<not> (\<exists>r \<in> set (event_mappings db). p r \<and> no_event_mapping_id n = Some (ev_id r)))
          (notification_outbox db)\<rparr>"

definition delete_event_mapping_by_id :: "int \<Rightarrow> db \<Rightarrow> db \<times> unit store_result" where
  "delete_event_mapping_by_id i db =
     (if \<exists>r \<in> set (event_mappings db). ev_id r = i then (delete_mappings (\<lambda>r. ev_id r = i) db, Inr ())
      else (db, Inl (NotFound ''event mapping'')))"

definition delete_proposal_by_id :: "int \<Rightarrow> db \<Rightarrow> db \<times> unit store_result" where
  "delete_proposal_by_id i db =
     (if \<not> (\<exists>r \<in> set (proposals db). pr_id r = i) then (db, Inl (NotFound ''proposal''))
      else if \<exists>q \<in> set (appointment_quotes db). qt_proposal_id q = Some i then (db, Inl SqliteError)
      else (let db1 = delete_mappings (\<lambda>r. ev_proposal_id r = i) db
            in (db1\<lparr>proposals := filter (\<lambda>r. pr_id r \<noteq> i) (proposals db1),
                   notification_outbox := filter (\<lambda>n. no_proposal_id n \<noteq> Some i) (notification_outbox db1)\<rparr>, Inr ())))"

definition delete_appointment_draft_by_id :: "int \<Rightarrow> db \<Rightarrow> db \<times> unit store_result" where
  "delete_appointment_draft_by_id i =
     run_tx (\<lambda>db.
       if (\<exists>r \<in> set (appointment_drafts db). ap_id r = i)
          \<and> \<not> (\<exists>p \<in> set (proposals db). pr_appointment_draft_id p = Some i)
       then (if \<exists>q \<in> set (appointment_quotes db). qt_appointment_draft_id q = Some i then Inl SqliteError
             else Inr (db\<lparr>appointment_drafts := filter (\<lambda>r. ap_id r \<noteq> i) (appointment_drafts db)\<rparr>, ()))
       else if \<exists>r \<in> set (appointment_drafts db). ap_id r = i then Inl (Conflict ''appointment draft'')
       else Inl (NotFound ''appointment draft''))"

definition delete_owner_task_draft_by_id :: "int \<Rightarrow> db \<Rightarrow> db \<times> unit store_result" where
  "delete_owner_task_draft_by_id i =
     run_tx (\<lambda>db.
       if (\<exists>r \<in> set (owner_task_drafts db). ow_id r = i)
          \<and> \<not> (\<exists>p \<in> set (proposals db). pr_owner_task_draft_id p = Some i)
       then (if \<exists>q \<in> set (owner_task_placements db). pl_owner_task_draft_id q = i then Inl SqliteError
             else Inr (db\<lparr>owner_task_drafts := filter (\<lambda>r. ow_id r \<noteq> i) (owner_task_drafts db)\<rparr>, ()))
       else if \<exists>r \<in> set (owner_task_drafts db). ow_id r = i then Inl (Conflict ''owner task draft'')
       else Inl (NotFound ''owner task draft''))"


section \<open>Closed forms\<close>

lemma validate_non_empty_Inr: "validate_non_empty v f = Inr w \<longleftrightarrow> w = v \<and> str_trim v \<noteq> []"
  by (auto simp: validate_non_empty_def)

definition source_text :: "str \<Rightarrow> bool" where
  "source_text s \<longleftrightarrow> str_trim s \<noteq> [] \<and> \<not> list_ex is_control s"

lemma validate_source_id_Inr: "validate_source_id v = Inr w \<longleftrightarrow> w = v \<and> source_text v"
  by (auto simp: validate_source_id_def rbind_Inr_iff validate_non_empty_Inr source_text_def)

lemma validate_stored_timestamp_Inr: "validate_stored_timestamp N v r = Inr w \<longleftrightarrow> w = v \<and> N v = Some v"
  by (auto simp: validate_stored_timestamp_def rbind_Inr_iff)

fun source_row_id :: "proposal_source \<Rightarrow> int" where
  "source_row_id (AppointmentDraftSource i) = i"
| "source_row_id (OwnerTaskDraftSource i) = i"

lemma from_ids_Inr:
  "from_ids a b = Inr s \<longleftrightarrow> a = appointment_draft_id s \<and> b = owner_task_draft_id s \<and> 0 < source_row_id s"
  by (cases s) (auto simp: from_ids_def split: option.splits)

lemma validate_proposal_source_Inr: "validate_proposal_source s = Inr u \<longleftrightarrow> 0 < source_row_id s"
  by (cases s) (auto simp: validate_proposal_source_def)

lemma source_ids_inject:
  "appointment_draft_id s = appointment_draft_id t \<Longrightarrow> owner_task_draft_id s = owner_task_draft_id t \<Longrightarrow> s = t"
  by (cases s; cases t) auto

definition proposal_row_decodes :: "naive_codec \<Rightarrow> proposal_row \<Rightarrow> stored_proposal \<Rightarrow> bool" where
  "proposal_row_decodes N row p \<longleftrightarrow>
     1 \<le> pr_id row \<and> str_trim (pr_idempotency_key row) \<noteq> [] \<and> source_text (pr_source_id row)
     \<and> pr_appointment_draft_id row = appointment_draft_id (sp_source p)
     \<and> pr_owner_task_draft_id row = owner_task_draft_id (sp_source p) \<and> 0 < source_row_id (sp_source p)
     \<and> pr_state row = proposal_state_storage_name (sp_state p)
     \<and> N (pr_created_at row) = Some (pr_created_at row) \<and> N (pr_updated_at row) = Some (pr_updated_at row)
     \<and> sp_id p = pr_id row \<and> sp_idempotency_key p = str_trim (pr_idempotency_key row)
     \<and> sp_source_id p = pr_source_id row \<and> sp_created_at p = pr_created_at row \<and> sp_updated_at p = pr_updated_at row"

lemma decode_proposal_row_Inr: "decode_proposal_row N row = Inr p \<longleftrightarrow> proposal_row_decodes N row p"
  unfolding decode_proposal_row_def rbind_Inr_iff map_err_simps ensure_simps idempotency_key_new_def non_blank_Inr
    validate_source_id_Inr from_ids_Inr stored_enum_iffs validate_stored_timestamp_Inr
  by (cases p) (auto simp: proposal_row_decodes_def)

section \<open>The contract of creation\<close>

definition proposal_inv :: "naive_codec \<Rightarrow> db \<Rightarrow> bool" where
  "proposal_inv N db \<longleftrightarrow> ids_ok pr_id (proposals db)
     \<and> distinct (map pr_idempotency_key (proposals db)) \<and> distinct (map pr_source_id (proposals db))
     \<and> (\<forall>row \<in> set (proposals db). \<exists>p. decode_proposal_row N row = Inr p)"

definition proposal_pre :: "str \<times> str \<times> proposal_source \<Rightarrow> db \<Rightarrow> bool" where
  "proposal_pre a db = (case a of (key, source_id, source) \<Rightarrow>
     str_trim key \<noteq> [] \<and> source_text source_id \<and> 0 < source_row_id source
     \<and> ensure_proposal_source_exists source db = Inr ())"

definition add_proposal :: "db \<Rightarrow> proposal_row \<Rightarrow> db" where
  "add_proposal db row = db\<lparr>proposals := proposals db @ [row]\<rparr>"

lemma create_proposal_Inr:
  "create_proposal N key source_id source clk db = (db', Inr p) \<longleftrightarrow> proposal_pre (key, source_id, source) db \<and>
    (if filter (query_proposal_rows_by_identity key source_id) (proposals db) = []
     then decode_proposal_row N (new_proposal_row key source_id source clk db) = Inr p
       \<and> db' = add_proposal db (new_proposal_row key source_id source clk db)
     else db' = db \<and> retry_loop (decode_proposal_row N) (exact_proposal key source_id source) None (Conflict ''proposal'')
                       (filter (query_proposal_rows_by_identity key source_id) (proposals db)) None = Inr (Some p))"
  unfolding create_proposal_def create_proposal_in_transaction_def run_tx_Inr rbind_Inr_iff validate_non_empty_Inr
    validate_source_id_Inr validate_proposal_source_Inr
  by (auto simp: proposal_pre_def add_proposal_def Let_def rbind_Inr_iff)

lemma create_proposal_Inl: "create_proposal N key source_id source clk db = (db', Inl e) \<Longrightarrow> db' = db"
  by (simp add: create_proposal_def)

text \<open>A caller that hands over an \<open>IdempotencyKey\<close>, which is trimmed.\<close>

definition create_with_key ::
    "naive_codec \<Rightarrow> str \<times> str \<times> proposal_source \<Rightarrow> str \<Rightarrow> db \<Rightarrow> db \<times> stored_proposal store_result" where
  "create_with_key N a clk db = (case a of (key, source_id, source) \<Rightarrow>
     (case idempotency_key_new key of
        Inl _ \<Rightarrow> (db, Inl (InvalidInput ''idempotency_key''))
      | Inr key \<Rightarrow> create_proposal N key source_id source clk db))"

definition proposal_same :: "str \<times> str \<times> proposal_source \<Rightarrow> proposal_row \<Rightarrow> bool" where
  "proposal_same a = (case a of (key, source_id, source) \<Rightarrow> query_proposal_rows_by_identity (str_trim key) source_id)"

definition proposal_new :: "str \<times> str \<times> proposal_source \<Rightarrow> str \<Rightarrow> db \<Rightarrow> proposal_row" where
  "proposal_new a clk db = (case a of (key, source_id, source) \<Rightarrow> new_proposal_row (str_trim key) source_id source clk db)"

definition proposal_exact :: "str \<times> str \<times> proposal_source \<Rightarrow> stored_proposal \<Rightarrow> bool" where
  "proposal_exact a = (case a of (key, source_id, source) \<Rightarrow> exact_proposal (str_trim key) source_id source)"

definition keyed_proposal_inv :: "naive_codec \<Rightarrow> db \<Rightarrow> bool" where
  "keyed_proposal_inv N db \<longleftrightarrow> proposal_inv N db \<and> (\<forall>r \<in> set (proposals db). str_trim (pr_idempotency_key r) = pr_idempotency_key r)"

lemma create_with_key_Inr:
  "create_with_key N a clk db = (db', Inr p) \<longleftrightarrow> proposal_pre a db \<and>
    (if filter (proposal_same a) (proposals db) = []
     then decode_proposal_row N (proposal_new a clk db) = Inr p \<and> db' = add_proposal db (proposal_new a clk db)
     else db' = db \<and> retry_loop (decode_proposal_row N) (proposal_exact a) None (Conflict ''proposal'')
                       (filter (proposal_same a) (proposals db)) None = Inr (Some p))"
proof -
  obtain key s src where a: "a = (key, s, src)" by (cases a) auto
  show ?thesis
  proof (cases "idempotency_key_new key")
    case (Inl e)
    then have "str_trim key = []"
      using non_blank_Inr[of key "''idempotency_key''" "str_trim key"] by (auto simp: idempotency_key_new_def)
    then show ?thesis using Inl by (simp add: a create_with_key_def proposal_pre_def)
  next
    case (Inr k)
    then have "k = str_trim key \<and> str_trim key \<noteq> []" by (auto simp: idempotency_key_new_def non_blank_Inr)
    then show ?thesis using Inr
      by (simp add: a create_with_key_def create_proposal_Inr proposal_pre_def proposal_same_def proposal_new_def proposal_exact_def)
  qed
qed

lemma new_proposal_inv:
  assumes inv: "proposal_inv N db" and free: "filter (query_proposal_rows_by_identity key s) (proposals db) = []"
    and d: "decode_proposal_row N (new_proposal_row key s src clk db) = Inr p"
  shows "proposal_inv N (add_proposal db (new_proposal_row key s src clk db))"
proof -
  let ?row = "new_proposal_row key s src clk db"
  have free: "\<forall>r \<in> set (proposals db). pr_idempotency_key r \<noteq> pr_idempotency_key ?row"
    "\<forall>r \<in> set (proposals db). pr_source_id r \<noteq> pr_source_id ?row"
    using free by (auto simp: filter_empty_conv query_proposal_rows_by_identity_def new_proposal_row_def)
  have "ids_ok pr_id (proposals db @ [?row])"
    using inv ids_ok_insert[of pr_id "proposals db" ?row] by (simp add: proposal_inv_def new_proposal_row_def)
  then show ?thesis using inv d free
    by (auto simp: proposal_inv_def add_proposal_def distinct_map_snoc simp del: map_append)
qed

lemma new_proposal_exact:
  "decode_proposal_row N (new_proposal_row key s src clk db) = Inr p \<Longrightarrow> str_trim key = key \<Longrightarrow> exact_proposal key s src p"
  by (auto simp: decode_proposal_row_Inr proposal_row_decodes_def new_proposal_row_def exact_proposal_def
      intro!: source_ids_inject)

interpretation proposal: insert_or_retry "create_with_key N" proposal_pre proposal_same proposal_new
  "\<lambda>_. decode_proposal_row N" proposal_exact None "Conflict ''proposal''" proposals add_proposal "keyed_proposal_inv N" for N
proof
  fix db clk db' p e r r' and a :: "str \<times> str \<times> proposal_source"
  obtain key s src where a: "a = (key, s, src)" by (cases a) auto
  show "create_with_key N a clk db = (db', Inl e) \<Longrightarrow> db' = db"
    using create_proposal_Inl by (auto simp: a create_with_key_def split: sum.splits)
  show "proposals (add_proposal db r) = proposals db @ [r]" by (simp add: add_proposal_def)
  show "proposal_pre a (add_proposal db r) = proposal_pre a db"
    by (cases src) (simp_all add: a proposal_pre_def add_proposal_def ensure_proposal_source_exists_def)
  show "create_with_key N a clk db = (db', Inr p) \<longleftrightarrow> proposal_pre a db \<and>
    (if filter (proposal_same a) (proposals db) = []
     then decode_proposal_row N (proposal_new a clk db) = Inr p \<and> db' = add_proposal db (proposal_new a clk db)
     else db' = db \<and> retry_loop (decode_proposal_row N) (proposal_exact a) None (Conflict ''proposal'')
                       (filter (proposal_same a) (proposals db)) None = Inr (Some p))"
    by (rule create_with_key_Inr)
  assume inv: "keyed_proposal_inv N db"
  show "filter (proposal_same a) (proposals db) = [] \<Longrightarrow> decode_proposal_row N (proposal_new a clk db) = Inr p \<Longrightarrow>
      keyed_proposal_inv N (add_proposal db (proposal_new a clk db)) \<and> proposal_exact a p"
    using inv new_proposal_inv[of N db "str_trim key" s src clk p] new_proposal_exact[of N "str_trim key" s src clk db p]
    by (auto simp: a keyed_proposal_inv_def proposal_same_def proposal_new_def proposal_exact_def add_proposal_def new_proposal_row_def)
  show "decode_proposal_row N r = Inr p \<Longrightarrow> proposal_exact a p \<Longrightarrow> proposal_same a r"
    by (simp add: a proposal_exact_def proposal_same_def exact_proposal_def query_proposal_rows_by_identity_def
        decode_proposal_row_Inr proposal_row_decodes_def)
  show "r \<in> set (proposals db) \<Longrightarrow> decode_proposal_row N r = Inr p \<Longrightarrow> proposal_exact a p \<Longrightarrow>
      r' \<in> set (proposals db) \<Longrightarrow> proposal_same a r' \<Longrightarrow> r' = r"
    using inv distinct_map_unique[of pr_idempotency_key "proposals db" r' r]
      distinct_map_unique[of pr_source_id "proposals db" r' r]
    by (auto simp: a keyed_proposal_inv_def proposal_inv_def proposal_exact_def proposal_same_def exact_proposal_def
        query_proposal_rows_by_identity_def decode_proposal_row_Inr proposal_row_decodes_def)
  show "distinct (proposals db)"
    using inv ids_ok_distinct[of pr_id "proposals db"] by (simp add: keyed_proposal_inv_def proposal_inv_def distinct_map)
qed simp

text \<open>
  A proposal created under a trimmed idempotency key can be created again at any later time, after any
  other creations with trimmed keys: the call returns the original proposal and changes nothing.
\<close>

theorem proposal_creation_is_idempotent:
  assumes "keyed_proposal_inv N db" "str_trim key = key"
    and "create_proposal N key source_id source clk db = (db', Inr p)"
  shows "create_proposal N key source_id source clk' (create_run (create_with_key N) others db')
    = (create_run (create_with_key N) others db', Inr p)"
proof -
  have "idempotency_key_new key = Inr key"
    using assms(2,3) by (simp add: create_proposal_Inr proposal_pre_def idempotency_key_new_def non_blank_Inr)
  then have "create_with_key N (key, source_id, source) c d = create_proposal N key source_id source c d" for c d
    by (simp add: create_with_key_def)
  then show ?thesis
    using proposal.retry_after_run[OF assms(1), of "(key, source_id, source)" clk db' p] assms(3) by simp
qed

text \<open>
  A proposal created under a key with surrounding white space can never be created again:
  the exact retry is refused as a conflict, because the stored key is compared after trimming.
\<close>

theorem padded_key_cannot_be_retried:
  assumes inv: "proposal_inv N db" and pad: "str_trim key \<noteq> key"
    and c: "create_proposal N key source_id source clk db = (db', Inr p)"
  shows "create_proposal N key source_id source clk' db' = (db', Inl (Conflict ''proposal''))"
proof -
  have not_exact: "\<not> exact_proposal key s src q" if "decode_proposal_row N r = Inr q" for r q s src
    using that pad by (auto simp: decode_proposal_row_Inr proposal_row_decodes_def exact_proposal_def)
  have never: "retry_loop (decode_proposal_row N) (exact_proposal key source_id source) None e (c # cs) None \<noteq> Inr (Some q)" for e c cs q
    using not_exact by (auto simp: rbind_Inr_iff)
  let ?row = "new_proposal_row key source_id source clk db"
  have new: "filter (query_proposal_rows_by_identity key source_id) (proposals db) = []"
    "decode_proposal_row N ?row = Inr p" "db' = add_proposal db ?row" "proposal_pre (key, source_id, source) db"
    using c never by (cases "filter (query_proposal_rows_by_identity key source_id) (proposals db)";
        auto simp: create_proposal_Inr)+
  have cand: "filter (query_proposal_rows_by_identity key source_id) (proposals db') = [?row]"
    using new(1) by (simp add: new(3) add_proposal_def query_proposal_rows_by_identity_def new_proposal_row_def)
  have "ensure_proposal_source_exists source db' = Inr ()"
    using new(4) by (cases source) (simp_all add: new(3) add_proposal_def proposal_pre_def ensure_proposal_source_exists_def)
  then show ?thesis
    using cand new(2,4) not_exact[OF new(2)]
    by (simp add: create_proposal_def create_proposal_in_transaction_def run_tx_def validate_non_empty_def proposal_pre_def
        validate_source_id_def source_text_def validate_proposal_source_def) (cases source; simp)
qed


section \<open>Decisions\<close>

definition proposal_status :: "proposal_row \<Rightarrow> proposal_state option" where
  "proposal_status r = (case parse_proposal_state (pr_state r) of Inl _ \<Rightarrow> None | Inr s \<Rightarrow> Some s)"

definition proposal_state_of :: "db \<Rightarrow> int \<Rightarrow> proposal_state option" where
  "proposal_state_of db = lookup_state pr_id proposal_status (proposals db)"

definition with_proposal_state :: "int \<Rightarrow> proposal_state \<Rightarrow> str \<Rightarrow> db \<Rightarrow> db" where
  "with_proposal_state i next clk db =
     db\<lparr>proposals := update_rows (\<lambda>r. pr_id r = i) (set_proposal_state next clk) (proposals db)\<rparr>"

lemma set_proposal_state_simps [simp]:
  "pr_id (set_proposal_state n u r) = pr_id r" "pr_idempotency_key (set_proposal_state n u r) = pr_idempotency_key r"
  "pr_source_id (set_proposal_state n u r) = pr_source_id r"
  "pr_appointment_draft_id (set_proposal_state n u r) = pr_appointment_draft_id r"
  "pr_owner_task_draft_id (set_proposal_state n u r) = pr_owner_task_draft_id r"
  "pr_created_at (set_proposal_state n u r) = pr_created_at r" "pr_updated_at (set_proposal_state n u r) = u"
  "pr_state (set_proposal_state n u r) = proposal_state_storage_name n"
  by (simp_all add: set_proposal_state_def)

lemma decode_set_proposal_state:
  assumes "decode_proposal_row N row = Inr p"
  shows "decode_proposal_row N (set_proposal_state n clk row) =
    (if N clk = Some clk then Inr (p\<lparr>sp_state := n, sp_updated_at := clk\<rparr>) else Inl proposal_invalid)"
proof (cases "N clk = Some clk")
  case True
  then have "decode_proposal_row N (set_proposal_state n clk row) = Inr (p\<lparr>sp_state := n, sp_updated_at := clk\<rparr>)"
    using assms by (simp add: decode_proposal_row_Inr proposal_row_decodes_def)
  then show ?thesis using True by simp
next
  case False
  then have "validate_stored_timestamp N clk ''proposal'' = Inl proposal_invalid"
    by (cases "N clk") (auto simp: validate_stored_timestamp_def proposal_invalid_def)
  then show ?thesis using assms False by (auto simp: decode_proposal_row_def rbind_Inr_iff)
qed

lemma with_proposal_state_inv:
  assumes inv: "proposal_inv N db" and row: "row \<in> set (proposals db)" and u: "N clk = Some clk"
  shows "proposal_inv N (with_proposal_state (pr_id row) n clk db)"
proof -
  have dist: "distinct (map pr_id (proposals db))" using inv ids_ok_distinct by (auto simp: proposal_inv_def)
  have "\<forall>r \<in> set (update_rows (\<lambda>r. pr_id r = pr_id row) (set_proposal_state n clk) (proposals db)).
      \<exists>p. decode_proposal_row N r = Inr p"
    by (rule update_rows_all[OF dist row]) (use inv row decode_set_proposal_state[of N row _ n clk] u in \<open>auto simp: proposal_inv_def\<close>)
  then show ?thesis using inv
    by (simp add: proposal_inv_def with_proposal_state_def update_rows_key ids_ok_update)
qed

lemma transition_proposal_row:
  assumes inv: "proposal_inv N db" and row: "row \<in> set (proposals db)" "decode_proposal_row N row = Inr p"
  shows "transition_proposal N (pr_id row) n clk db =
    (if sp_state p = n \<and> is_terminal n then (db, Inr p)
     else if \<not> can_transition_to (sp_state p) n then (db, Inl (Conflict ''proposal transition''))
     else if N clk = Some clk
     then (with_proposal_state (pr_id row) n clk db, Inr (p\<lparr>sp_state := n, sp_updated_at := clk\<rparr>))
     else (db, Inl proposal_invalid))"
proof -
  have dist: "distinct (map pr_id (proposals db))" using inv ids_ok_distinct by (auto simp: proposal_inv_def)
  have st: "pr_state row = proposal_state_storage_name (sp_state p)"
    using row(2) by (simp add: decode_proposal_row_Inr proposal_row_decodes_def)
  have upd: "update_proposal_state n (pr_id row) clk db = (with_proposal_state (pr_id row) n clk db, 1)"
    if "can_transition_to (sp_state p) n"
    using count_rows_key[OF dist row(1), of "\<lambda>r. pr_state r = lit ''pending''"]
      update_one[OF dist row(1), of "\<lambda>r. pr_state r = lit ''pending''"] st that
    by (simp add: update_proposal_state_def with_proposal_state_def can_transition_to_iff)
  have find: "find (\<lambda>r. pr_id r = pr_id row) (proposals db) = Some row" by (rule find_unique[OF dist row(1)])
  then have find': "find (\<lambda>r. pr_id r = pr_id row) (proposals (with_proposal_state (pr_id row) n clk db))
      = Some (set_proposal_state n clk row)"
    by (simp add: with_proposal_state_def find_update_rows)
  show ?thesis
    using find find' row(2) decode_set_proposal_state[OF row(2), of n clk] upd
    by (auto simp: transition_proposal_def run_tx_def)
qed

lemma transition_proposal_found:
  assumes "transition_proposal N i n clk db = (db', Inr q)"
  obtains row p where "row \<in> set (proposals db)" "pr_id row = i" "decode_proposal_row N row = Inr p"
  using assms by (auto simp: transition_proposal_def rbind_Inr_iff dest: find_Some_mem)

definition decide :: "naive_codec \<Rightarrow> int \<times> proposal_state \<times> str \<Rightarrow> db \<Rightarrow> db \<times> stored_proposal store_result" where
  "decide N a db = (case a of (i, n, clk) \<Rightarrow> transition_proposal N i n clk db)"

interpretation decisions: state_machine "decide N" fst "\<lambda>a. fst (snd a)" proposal_state_of can_transition_to "proposal_inv N" for N
proof
  fix db db' r j err and a :: "int \<times> proposal_state \<times> str"
  obtain i n clk where a: "a = (i, n, clk)" by (cases a) auto
  show "decide N a db = (db', Inl err) \<Longrightarrow> db' = db" by (simp add: a decide_def transition_proposal_def)
  assume inv: "proposal_inv N db"
  {
    assume c: "decide N a db = (db', Inr r)"
    then obtain row p where x: "row \<in> set (proposals db)" "pr_id row = i" "decode_proposal_row N row = Inr p"
      using transition_proposal_found[of N i n clk db db' r] by (auto simp: a decide_def)
    have dist: "distinct (map pr_id (proposals db))" using inv ids_ok_distinct by (auto simp: proposal_inv_def)
    note step = transition_proposal_row[OF inv x(1,3), of n clk]
    have st: "proposal_state_of db i = Some (sp_state p)"
      using x(3) unfolding proposal_state_of_def x(2)[symmetric] lookup_state_row[OF dist x(1)]
      by (simp add: decode_proposal_row_Inr proposal_row_decodes_def proposal_status_def)
    have after: "proposal_state_of (with_proposal_state i n clk db) k = (if k = i then Some n else proposal_state_of db k)" for k
      using lookup_state_update[OF dist x(1), of "set_proposal_state n clk" proposal_status k] x(2)
      by (simp add: proposal_state_of_def with_proposal_state_def proposal_status_def)
    show "proposal_inv N db' \<and> (db' = db \<and> proposal_state_of db (fst a) = Some (fst (snd a)) \<or>
        (\<exists>e. can_transition_to e (fst (snd a)) \<and> proposal_state_of db (fst a) = Some e
           \<and> proposal_state_of db' (fst a) = Some (fst (snd a))))"
      using c step st after with_proposal_state_inv[OF inv x(1), of clk n] inv x(2)
      by (auto simp: a decide_def split: if_splits)
    show "j \<noteq> fst a \<Longrightarrow> proposal_state_of db' j = proposal_state_of db j"
      using c step after x(2) by (auto simp: a decide_def split: if_splits)
  }
qed

text \<open>
  C12. The first decision on a proposal is final: after a transition to accepted, declined or
  expired succeeded, no sequence of further transitions changes the state; a repeated identical
  decision succeeds and changes nothing, every other one is refused as a conflict.
\<close>

theorem first_decision_is_final:
  assumes "proposal_inv N db" "transition_proposal N i n clk db = (db', Inr p)"
  shows "n \<noteq> PsPending \<and> sp_state p = n
    \<and> proposal_state_of (move_run (decide N) calls db') i = Some n
    \<and> transition_proposal N i n clk' db' = (db', Inr p)
    \<and> (m \<noteq> n \<longrightarrow> transition_proposal N i m clk' db' = (db', Inl (Conflict ''proposal transition'')))"
proof -
  obtain row q where x: "row \<in> set (proposals db)" "pr_id row = i" "decode_proposal_row N row = Inr q"
    using transition_proposal_found[OF assms(2)] by metis
  have n: "n \<noteq> PsPending" "sp_state p = n"
    using transition_proposal_row[OF assms(1) x(1,3), of n clk] assms(2) x(2)
    by (auto simp: is_terminal_def can_transition_to_iff split: if_splits)
  have c: "decide N (i, n, clk) db = (db', Inr p)" using assms(2) by (simp add: decide_def)
  have inv': "proposal_inv N db'" and st: "proposal_state_of db' i = Some n"
    using decisions.move_ok[OF assms(1) c] by auto
  obtain row' where r': "row' \<in> set (proposals db')" "pr_id row' = i" "decode_proposal_row N row' = Inr p"
  proof (cases "sp_state q = n \<and> is_terminal n")
    case True
    then have "db' = db \<and> p = q" using transition_proposal_row[OF assms(1) x(1,3), of n clk] assms(2) x(2) by simp
    then show thesis using that x by blast
  next
    case False
    then have "N clk = Some clk" "db' = with_proposal_state i n clk db" "p = q\<lparr>sp_state := n, sp_updated_at := clk\<rparr>"
      using transition_proposal_row[OF assms(1) x(1,3), of n clk] assms(2) x(2) by (auto split: if_splits)
    moreover from this(1) have "decode_proposal_row N (set_proposal_state n clk row) = Inr (q\<lparr>sp_state := n, sp_updated_at := clk\<rparr>)"
      by (simp add: decode_set_proposal_state[OF x(3)])
    ultimately show thesis using that[of "set_proposal_state n clk row"] x(1,2)
      by (auto simp: with_proposal_state_def update_rows_def)
  qed
  have "proposal_state_of (move_run (decide N) calls db') i = Some n"
    by (rule decisions.moves_terminal[OF inv' st]) (use n in \<open>simp add: can_transition_to_iff\<close>)
  then show ?thesis
    using n transition_proposal_row[OF inv' r'(1,3), of _ clk'] r'(2) by (auto simp: is_terminal_def can_transition_to_iff)
qed


section \<open>The contract of event mappings\<close>

definition time_text :: "codec \<Rightarrow> odt option \<Rightarrow> str option" where
  "time_text C d = Option.bind d (rfc_format C)"

definition time_ok :: "codec \<Rightarrow> odt option \<Rightarrow> bool" where
  "time_ok C d = (case d of None \<Rightarrow> True | Some d \<Rightarrow> rfc_format C d \<noteq> None)"

lemma format_time_Inr:
  "transpose (map_option (format_offset_datetime C) d) = Inr t \<longleftrightarrow> time_ok C d \<and> t = time_text C d"
  by (cases d) (auto simp: transpose_Inr_iff format_offset_datetime_def time_ok_def time_text_def)

definition time_read :: "codec \<Rightarrow> str option \<Rightarrow> odt option \<Rightarrow> bool" where
  "time_read C s d = (case s of None \<Rightarrow> d = None | Some s \<Rightarrow> rfc_parse C s \<noteq> None \<and> d = rfc_parse C s)"

lemma parse_time_Inr: "transpose (map_option (parse_offset_datetime C) s) = Inr d \<longleftrightarrow> time_read C s d"
  by (cases s) (auto simp: transpose_Inr_iff parse_offset_datetime_def time_read_def)

lemma time_read_written:
  "codec_reads_back C \<Longrightarrow> time_ok C d \<Longrightarrow> time_read C (time_text C d) e \<Longrightarrow> same_time e d"
  by (cases d) (fastforce simp: codec_reads_back_def time_ok_def time_text_def time_read_def same_time_def)+

definition times_ordered :: "odt option \<Rightarrow> odt option \<Rightarrow> bool" where
  "times_ordered a b = (case (a, b) of (None, None) \<Rightarrow> True | (Some s, Some e) \<Rightarrow> before s e | _ \<Rightarrow> False)"

lemma validate_event_times_Inr: "validate_event_times a b = Inr u \<longleftrightarrow> times_ordered a b"
  by (auto simp: validate_event_times_def times_ordered_def split: option.splits)

definition mapping_row_decodes :: "codec \<Rightarrow> naive_codec \<Rightarrow> event_mapping_row \<Rightarrow> stored_event_mapping \<Rightarrow> bool" where
  "mapping_row_decodes C N row m \<longleftrightarrow>
     1 \<le> ev_id row \<and> 1 \<le> ev_proposal_id row \<and> str_trim (ev_provider row) \<noteq> []
     \<and> str_trim (ev_provider_event_id row) \<noteq> [] \<and> source_text (ev_source_id row)
     \<and> time_read C (ev_starts_at row) (se_starts_at m) \<and> time_read C (ev_ends_at row) (se_ends_at m)
     \<and> times_ordered (se_starts_at m) (se_ends_at m)
     \<and> N (ev_created_at row) = Some (ev_created_at row) \<and> N (ev_updated_at row) = Some (ev_updated_at row)
     \<and> se_id m = ev_id row \<and> se_proposal_id m = ev_proposal_id row \<and> se_provider m = ev_provider row
     \<and> se_provider_event_id m = ev_provider_event_id row \<and> se_source_id m = ev_source_id row
     \<and> se_created_at m = ev_created_at row \<and> se_updated_at m = ev_updated_at row"

lemma ordered_check:
  "(\<not> ((a \<noteq> None) \<noteq> (b \<noteq> None) \<or> (case (a, b) of (Some s, Some e) \<Rightarrow> \<not> before s e | _ \<Rightarrow> False))) \<longleftrightarrow> times_ordered a b"
  by (cases a; cases b) (simp_all add: times_ordered_def)

lemma decode_event_mapping_row_Inr: "decode_event_mapping_row C N row = Inr m \<longleftrightarrow> mapping_row_decodes C N row m"
  unfolding decode_event_mapping_row_def rbind_Inr_iff map_err_simps ordered_check ensure_simps
    validate_non_empty_Inr validate_source_id_Inr parse_time_Inr validate_stored_timestamp_Inr
  by (cases m) (auto simp: mapping_row_decodes_def)

definition mapping_inv :: "codec \<Rightarrow> naive_codec \<Rightarrow> db \<Rightarrow> bool" where
  "mapping_inv C N db \<longleftrightarrow> codec_reads_back C \<and> ids_ok ev_id (event_mappings db)
     \<and> distinct (map ev_proposal_id (event_mappings db)) \<and> distinct (map ev_source_id (event_mappings db))
     \<and> distinct (map (\<lambda>r. (ev_provider r, ev_provider_event_id r)) (event_mappings db))
     \<and> (\<forall>row \<in> set (event_mappings db). \<exists>m. decode_event_mapping_row C N row = Inr m)"

definition mapping_pre :: "codec \<Rightarrow> mapping_request \<Rightarrow> db \<Rightarrow> bool" where
  "mapping_pre C rq db \<longleftrightarrow> str_trim (mq_provider rq) \<noteq> [] \<and> str_trim (mq_provider_event_id rq) \<noteq> []
     \<and> source_text (mq_source_id rq) \<and> times_ordered (mq_starts_at rq) (mq_ends_at rq)
     \<and> (\<exists>r \<in> set (proposals db). pr_id r = mq_proposal_id rq)
     \<and> time_ok C (mq_starts_at rq) \<and> time_ok C (mq_ends_at rq)"

definition mapping_same :: "mapping_request \<Rightarrow> event_mapping_row \<Rightarrow> bool" where
  "mapping_same rq = query_event_mapping_rows_by_identity (mq_proposal_id rq) (mq_provider rq)
     (mq_provider_event_id rq) (mq_source_id rq)"

definition mapping_new :: "codec \<Rightarrow> mapping_request \<Rightarrow> str \<Rightarrow> db \<Rightarrow> event_mapping_row" where
  "mapping_new C rq clk db = new_mapping_row rq (time_text C (mq_starts_at rq)) (time_text C (mq_ends_at rq)) clk db"

definition add_mapping :: "db \<Rightarrow> event_mapping_row \<Rightarrow> db" where
  "add_mapping db row = db\<lparr>event_mappings := event_mappings db @ [row]\<rparr>"

lemma attach_event_mapping_Inr:
  "attach_event_mapping C N rq clk db = (db', Inr m) \<longleftrightarrow> mapping_pre C rq db \<and>
    (if filter (mapping_same rq) (event_mappings db) = []
     then decode_event_mapping_row C N (mapping_new C rq clk db) = Inr m \<and> db' = add_mapping db (mapping_new C rq clk db)
     else db' = db \<and> retry_loop (decode_event_mapping_row C N) (exact_mapping rq) None (Conflict ''event mapping'')
                       (filter (mapping_same rq) (event_mappings db)) None = Inr (Some m))"
  unfolding attach_event_mapping_def run_tx_Inr rbind_Inr_iff validate_non_empty_Inr validate_source_id_Inr
    validate_event_times_Inr format_time_Inr ensure_simps
  by (auto simp: mapping_pre_def mapping_same_def mapping_new_def add_mapping_def Let_def rbind_Inr_iff)

lemma mapping_new_inv:
  assumes inv: "mapping_inv C N db" and free: "filter (mapping_same rq) (event_mappings db) = []"
    and d: "decode_event_mapping_row C N (mapping_new C rq clk db) = Inr m"
  shows "mapping_inv C N (add_mapping db (mapping_new C rq clk db))"
proof -
  let ?row = "mapping_new C rq clk db"
  have free: "\<forall>r \<in> set (event_mappings db). ev_proposal_id r \<noteq> ev_proposal_id ?row"
    "\<forall>r \<in> set (event_mappings db). ev_source_id r \<noteq> ev_source_id ?row"
    "\<forall>r \<in> set (event_mappings db). (ev_provider r, ev_provider_event_id r) \<noteq> (ev_provider ?row, ev_provider_event_id ?row)"
    using free by (auto simp: filter_empty_conv mapping_same_def query_event_mapping_rows_by_identity_def
        mapping_new_def new_mapping_row_def)
  have "ids_ok ev_id (event_mappings db @ [?row])"
    using inv ids_ok_insert[of ev_id "event_mappings db" ?row]
    by (simp add: mapping_inv_def mapping_new_def new_mapping_row_def)
  then show ?thesis using inv d free
    unfolding mapping_inv_def add_mapping_def by (auto simp: distinct_map_snoc simp del: map_append)
qed

lemma exact_mapping_row:
  "decode_event_mapping_row C N r = Inr m \<Longrightarrow> exact_mapping rq m \<Longrightarrow> ev_proposal_id r = mq_proposal_id rq
     \<and> ev_provider r = mq_provider rq \<and> ev_provider_event_id r = mq_provider_event_id rq \<and> ev_source_id r = mq_source_id rq"
  by (simp add: decode_event_mapping_row_Inr mapping_row_decodes_def exact_mapping_def)

interpretation mapping: insert_or_retry "attach_event_mapping C N" "mapping_pre C" mapping_same "mapping_new C"
  "\<lambda>_. decode_event_mapping_row C N" exact_mapping None "Conflict ''event mapping''" event_mappings add_mapping
  "mapping_inv C N" for C N
proof
  fix db clk db' m e r r' rq
  show "attach_event_mapping C N rq clk db = (db', Inl e) \<Longrightarrow> db' = db" by (simp add: attach_event_mapping_def)
  show "event_mappings (add_mapping db r) = event_mappings db @ [r]" by (simp add: add_mapping_def)
  show "mapping_pre C rq (add_mapping db r) = mapping_pre C rq db" by (simp add: mapping_pre_def add_mapping_def)
  show "attach_event_mapping C N rq clk db = (db', Inr m) \<longleftrightarrow> mapping_pre C rq db \<and>
    (if filter (mapping_same rq) (event_mappings db) = []
     then decode_event_mapping_row C N (mapping_new C rq clk db) = Inr m \<and> db' = add_mapping db (mapping_new C rq clk db)
     else db' = db \<and> retry_loop (decode_event_mapping_row C N) (exact_mapping rq) None (Conflict ''event mapping'')
                       (filter (mapping_same rq) (event_mappings db)) None = Inr (Some m))"
    by (rule attach_event_mapping_Inr)
  assume inv: "mapping_inv C N db"
  then have C: "codec_reads_back C" by (simp add: mapping_inv_def)
  show "mapping_pre C rq db \<Longrightarrow> filter (mapping_same rq) (event_mappings db) = [] \<Longrightarrow>
      decode_event_mapping_row C N (mapping_new C rq clk db) = Inr m \<Longrightarrow>
      mapping_inv C N (add_mapping db (mapping_new C rq clk db)) \<and> exact_mapping rq m"
    using mapping_new_inv[OF inv, of rq clk m] time_read_written[OF C, of "mq_starts_at rq" "se_starts_at m"]
      time_read_written[OF C, of "mq_ends_at rq" "se_ends_at m"]
    by (simp add: exact_mapping_def mapping_pre_def decode_event_mapping_row_Inr mapping_row_decodes_def
        mapping_new_def new_mapping_row_def)
  show "decode_event_mapping_row C N r = Inr m \<Longrightarrow> exact_mapping rq m \<Longrightarrow> mapping_same rq r"
    using exact_mapping_row[of C N r m rq] by (simp add: mapping_same_def query_event_mapping_rows_by_identity_def)
  show "r \<in> set (event_mappings db) \<Longrightarrow> decode_event_mapping_row C N r = Inr m \<Longrightarrow> exact_mapping rq m \<Longrightarrow>
      r' \<in> set (event_mappings db) \<Longrightarrow> mapping_same rq r' \<Longrightarrow> r' = r"
    using inv exact_mapping_row[of C N r m rq] distinct_map_unique[of ev_proposal_id "event_mappings db" r' r]
      distinct_map_unique[of ev_source_id "event_mappings db" r' r]
      distinct_map_unique[of "\<lambda>r. (ev_provider r, ev_provider_event_id r)" "event_mappings db" r' r]
    unfolding mapping_inv_def mapping_same_def query_event_mapping_rows_by_identity_def by auto
  show "distinct (event_mappings db)"
    using inv ids_ok_distinct[of ev_id "event_mappings db"] by (simp add: mapping_inv_def distinct_map)
qed simp

text \<open>
  An event mapping that was attached can be attached again at any later time, after any other
  attachments: the call returns the original mapping, with its event times, and changes nothing;
  no other mapping can take over the proposal.
\<close>

theorem event_mapping_is_idempotent:
  assumes "mapping_inv C N db" "attach_event_mapping C N rq clk db = (db', Inr m)"
  shows "attach_event_mapping C N rq clk' (create_run (attach_event_mapping C N) others db')
      = (create_run (attach_event_mapping C N) others db', Inr m)
    \<and> (\<forall>r \<in> set (event_mappings (create_run (attach_event_mapping C N) others db')).
         ev_proposal_id r = mq_proposal_id rq \<longrightarrow> decode_event_mapping_row C N r = Inr m)"
proof -
  let ?d = "create_run (attach_event_mapping C N) others db'"
  have inv: "mapping_inv C N ?d" and st: "mapping.stored C N rq m ?d"
    using mapping.run_keeps mapping.created[OF assms] by blast+
  obtain r where r: "r \<in> set (event_mappings ?d)" "decode_event_mapping_row C N r = Inr m" "exact_mapping rq m"
    using st by (auto simp: mapping.stored_def)
  have "r' = r" if "r' \<in> set (event_mappings ?d)" "ev_proposal_id r' = mq_proposal_id rq" for r'
    using distinct_map_unique[of ev_proposal_id "event_mappings ?d" r' r] inv that r exact_mapping_row[OF r(2,3)]
    by (simp add: mapping_inv_def)
  then show ?thesis using mapping.retry_after_run[OF assms] r(2) by auto
qed

section \<open>Referential integrity\<close>

definition refs_ok :: "db \<Rightarrow> bool" where
  "refs_ok db \<longleftrightarrow>
     (\<forall>p \<in> set (proposals db). \<forall>i. (pr_appointment_draft_id p = Some i \<longrightarrow> i \<in> ap_id ` set (appointment_drafts db))
         \<and> (pr_owner_task_draft_id p = Some i \<longrightarrow> i \<in> ow_id ` set (owner_task_drafts db)))
     \<and> (\<forall>m \<in> set (event_mappings db). ev_proposal_id m \<in> pr_id ` set (proposals db))
     \<and> (\<forall>n \<in> set (notification_outbox db). \<forall>i. (no_proposal_id n = Some i \<longrightarrow> i \<in> pr_id ` set (proposals db))
         \<and> (no_event_mapping_id n = Some i \<longrightarrow> i \<in> ev_id ` set (event_mappings db)))
     \<and> (\<forall>q \<in> set (appointment_quotes db). \<forall>i. (qt_proposal_id q = Some i \<longrightarrow> i \<in> pr_id ` set (proposals db))
         \<and> (qt_appointment_draft_id q = Some i \<longrightarrow> i \<in> ap_id ` set (appointment_drafts db)))
     \<and> (\<forall>l \<in> set (owner_task_placements db). pl_owner_task_draft_id l \<in> ow_id ` set (owner_task_drafts db))"

inductive proposal_step :: "codec \<Rightarrow> naive_codec \<Rightarrow> db \<Rightarrow> db \<Rightarrow> bool" for C N where
  created: "create_proposal N key source_id source clk db = (db', Inr p) \<Longrightarrow> proposal_step C N db db'"
| decided: "transition_proposal N i n clk db = (db', Inr p) \<Longrightarrow> proposal_step C N db db'"
| attached: "attach_event_mapping C N rq clk db = (db', Inr m) \<Longrightarrow> proposal_step C N db db'"
| mapping_deleted: "delete_event_mapping_by_id i db = (db', Inr u) \<Longrightarrow> proposal_step C N db db'"
| proposal_deleted: "delete_proposal_by_id i db = (db', Inr u) \<Longrightarrow> proposal_step C N db db'"
| appointment_draft_deleted: "delete_appointment_draft_by_id i db = (db', Inr u) \<Longrightarrow> proposal_step C N db db'"
| owner_task_draft_deleted: "delete_owner_task_draft_by_id i db = (db', Inr u) \<Longrightarrow> proposal_step C N db db'"

lemma refs_add_proposal:
  assumes "refs_ok db" "ensure_proposal_source_exists source db = Inr ()"
  shows "refs_ok (add_proposal db (new_proposal_row key s source clk db))"
  using assms
  by (cases source) (auto simp: refs_ok_def add_proposal_def new_proposal_row_def ensure_proposal_source_exists_def)

lemma refs_add_mapping:
  assumes "refs_ok db" "mapping_pre C rq db"
  shows "refs_ok (add_mapping db (mapping_new C rq clk db))"
proof -
  have "mq_proposal_id rq \<in> pr_id ` set (proposals db)" using assms(2) unfolding mapping_pre_def by (metis image_eqI)
  then show ?thesis using assms(1) by (auto simp: refs_ok_def add_mapping_def mapping_new_def new_mapping_row_def)
qed

lemma refs_with_state:
  "refs_ok db \<Longrightarrow> refs_ok (db\<lparr>proposals := update_rows p (set_proposal_state n clk) (proposals db)\<rparr>)"
proof -
  have "pr_id ` set (update_rows p (set_proposal_state n clk) rows) = pr_id ` set rows" for p rows
    using update_rows_key[of pr_id "set_proposal_state n clk" p rows] by (metis list.set_map set_proposal_state_simps(1))
  moreover have "r \<in> set (update_rows p (set_proposal_state n clk) rows) \<Longrightarrow> \<exists>q \<in> set rows.
      pr_appointment_draft_id r = pr_appointment_draft_id q \<and> pr_owner_task_draft_id r = pr_owner_task_draft_id q" for p rows r
    by (auto simp: update_rows_def)
  ultimately show "refs_ok db \<Longrightarrow> refs_ok (db\<lparr>proposals := update_rows p (set_proposal_state n clk) (proposals db)\<rparr>)"
    unfolding refs_ok_def by (simp, metis)
qed

lemma refs_delete_mappings:
  assumes "refs_ok db"
  shows "refs_ok (delete_mappings p db)"
proof -
  have "i \<in> ev_id ` {r \<in> set (event_mappings db). \<not> p r}"
    if "n \<in> set (notification_outbox db)" "\<forall>r \<in> set (event_mappings db). p r \<longrightarrow> no_event_mapping_id n \<noteq> Some (ev_id r)"
      "no_event_mapping_id n = Some i" for n i
    using assms that by (fastforce simp: refs_ok_def)
  then show ?thesis using assms by (auto simp: refs_ok_def delete_mappings_def)
qed

lemma image_filter_neq: "j \<in> f ` {r \<in> set rows. f r \<noteq> i} \<longleftrightarrow> j \<in> f ` set rows \<and> j \<noteq> i"
  by auto

lemma refs_delete_proposal:
  assumes "refs_ok db" "delete_proposal_by_id i db = (db', Inr u)"
  shows "refs_ok db'"
proof -
  let ?d = "delete_mappings (\<lambda>r. ev_proposal_id r = i) db"
  have q: "\<forall>q \<in> set (appointment_quotes db). qt_proposal_id q \<noteq> Some i"
    and db': "db' = ?d\<lparr>proposals := filter (\<lambda>r. pr_id r \<noteq> i) (proposals ?d),
                   notification_outbox := filter (\<lambda>n. no_proposal_id n \<noteq> Some i) (notification_outbox ?d)\<rparr>"
    using assms(2) by (auto simp: delete_proposal_by_id_def Let_def split: if_splits)
  have ref: "refs_ok ?d" by (rule refs_delete_mappings[OF assms(1)])
  have m: "\<forall>m \<in> set (event_mappings ?d). ev_proposal_id m \<noteq> i" by (simp add: delete_mappings_def)
  have q': "appointment_quotes ?d = appointment_quotes db" by (simp add: delete_mappings_def)
  show ?thesis using ref q m unfolding refs_ok_def db' by (simp add: image_filter_neq q') blast
qed

lemma refs_delete_appointment_draft:
  assumes "refs_ok db" "delete_appointment_draft_by_id i db = (db', Inr u)"
  shows "refs_ok db'"
proof -
  have "\<forall>q \<in> set (appointment_quotes db). qt_appointment_draft_id q \<noteq> Some i"
    "\<forall>p \<in> set (proposals db). pr_appointment_draft_id p \<noteq> Some i"
    and db': "db' = db\<lparr>appointment_drafts := filter (\<lambda>r. ap_id r \<noteq> i) (appointment_drafts db)\<rparr>"
    using assms(2) by (auto simp: delete_appointment_draft_by_id_def split: if_splits)
  then show ?thesis using assms(1) unfolding refs_ok_def db' by (simp add: image_filter_neq) blast
qed

lemma refs_delete_owner_task_draft:
  assumes "refs_ok db" "delete_owner_task_draft_by_id i db = (db', Inr u)"
  shows "refs_ok db'"
proof -
  have "\<forall>q \<in> set (owner_task_placements db). pl_owner_task_draft_id q \<noteq> i"
    "\<forall>p \<in> set (proposals db). pr_owner_task_draft_id p \<noteq> Some i"
    and db': "db' = db\<lparr>owner_task_drafts := filter (\<lambda>r. ow_id r \<noteq> i) (owner_task_drafts db)\<rparr>"
    using assms(2) by (auto simp: delete_owner_task_draft_by_id_def split: if_splits)
  then show ?thesis using assms(1) unfolding refs_ok_def db' by (simp add: image_filter_neq) blast
qed

lemma proposal_step_refs: "proposal_step C N db db' \<Longrightarrow> refs_ok db \<Longrightarrow> refs_ok db'"
proof (induction rule: proposal_step.induct)
  case (created key source_id source clk db db' p)
  then show ?case using refs_add_proposal by (auto simp: create_proposal_Inr proposal_pre_def split: if_splits)
next
  case (decided i n clk db db' p)
  then have "db' = db \<or> (\<exists>q. db' = db\<lparr>proposals := update_rows q (set_proposal_state n clk) (proposals db)\<rparr>)"
    by (auto simp: transition_proposal_def rbind_Inr_iff update_proposal_state_def Let_def split: if_splits)
  then show ?case using decided refs_with_state by auto
next
  case (attached rq clk db db' m)
  then show ?case using refs_add_mapping by (auto simp: attach_event_mapping_Inr split: if_splits)
next
  case (mapping_deleted i db db' u)
  then show ?case using refs_delete_mappings by (auto simp: delete_event_mapping_by_id_def split: if_splits)
qed (rule refs_delete_proposal refs_delete_appointment_draft refs_delete_owner_task_draft; assumption)+

section \<open>Witnesses\<close>

definition demo_drafts_db :: db where
  "demo_drafts_db = empty_db\<lparr>owner_task_drafts := [\<lparr>ow_id = 1, ow_idempotency_key = lit ''d'', ow_source_id = None,
     ow_title = lit ''pay'', ow_kind = lit ''bill'', ow_duration_minutes = 15, ow_due_at = None\<rparr>]\<rparr>"

definition demo_proposal_row :: "str \<Rightarrow> proposal_row" where
  "demo_proposal_row key = \<lparr>pr_id = 1, pr_idempotency_key = key, pr_source_id = lit ''s'', pr_appointment_draft_id = None,
     pr_owner_task_draft_id = Some 1, pr_state = lit ''pending'', pr_created_at = [60], pr_updated_at = [60]\<rparr>"

definition demo_proposal :: "str \<Rightarrow> stored_proposal" where
  "demo_proposal key = \<lparr>sp_id = 1, sp_idempotency_key = str_trim key, sp_source_id = lit ''s'',
     sp_source = OwnerTaskDraftSource 1, sp_state = PsPending, sp_created_at = [60], sp_updated_at = [60]\<rparr>"

definition demo_proposal_db :: "str \<Rightarrow> db" where
  "demo_proposal_db key = add_proposal demo_drafts_db (demo_proposal_row key)"

lemma demo_proposal_tables [simp]:
  "proposals (demo_proposal_db key) = [demo_proposal_row key]" "event_mappings (demo_proposal_db key) = []"
  "appointment_quotes (demo_proposal_db key) = []" "notification_outbox (demo_proposal_db key) = []"
  "proposals (add_mapping db row) = proposals db" "event_mappings (add_mapping db row) = event_mappings db @ [row]"
  "appointment_quotes (add_mapping db row) = appointment_quotes db"
  "notification_outbox (add_mapping db row) = notification_outbox db"
  by (simp_all add: demo_proposal_db_def add_proposal_def add_mapping_def demo_drafts_db_def empty_db_def)

lemmas text_evals = str_trim_def trim_matches_def utf8_char_def char_class_defs source_text_def list_ex_iff

lemma demo_trims: "str_trim (lit ''k'') = lit ''k''" "str_trim (lit '' k'') = lit ''k''" "source_text (lit ''s'')"
  by (simp_all add: text_evals)

lemma demo_proposal_decodes:
  "str_trim key \<noteq> [] \<Longrightarrow> decode_proposal_row Some (demo_proposal_row key) = Inr (demo_proposal key)"
  using demo_trims(3)
  by (simp add: decode_proposal_row_Inr proposal_row_decodes_def demo_proposal_row_def demo_proposal_def)

lemma demo_created:
  assumes "str_trim key \<noteq> []"
  shows "create_proposal Some key (lit ''s'') (OwnerTaskDraftSource 1) [60] demo_drafts_db
    = (demo_proposal_db key, Inr (demo_proposal key))"
proof -
  have "new_proposal_row key (lit ''s'') (OwnerTaskDraftSource 1) [60] demo_drafts_db = demo_proposal_row key"
    by (simp add: new_proposal_row_def demo_proposal_row_def demo_drafts_db_def empty_db_def next_id_def)
  then show ?thesis
    using demo_proposal_decodes[OF assms] demo_trims(3) assms
    by (simp add: create_proposal_Inr proposal_pre_def demo_proposal_db_def ensure_proposal_source_exists_def)
      (simp add: demo_drafts_db_def empty_db_def)
qed

lemma demo_drafts_inv: "proposal_inv N demo_drafts_db" "keyed_proposal_inv N demo_drafts_db" "refs_ok demo_drafts_db"
  by (simp_all add: proposal_inv_def keyed_proposal_inv_def refs_ok_def demo_drafts_db_def empty_db_def)

theorem proposal_creation_is_idempotent_witness:
  "create_proposal Some (lit ''k'') (lit ''s'') (OwnerTaskDraftSource 1) [99] (demo_proposal_db (lit ''k''))
    = (demo_proposal_db (lit ''k''), Inr (demo_proposal (lit ''k'')))"
  using proposal_creation_is_idempotent[OF demo_drafts_inv(2) demo_trims(1) demo_created, of "[99]" "[]"] demo_trims(1)
  by simp

theorem padded_key_cannot_be_retried_witness:
  "create_proposal Some (lit '' k'') (lit ''s'') (OwnerTaskDraftSource 1) [99] (demo_proposal_db (lit '' k''))
    = (demo_proposal_db (lit '' k''), Inl (Conflict ''proposal''))"
  using padded_key_cannot_be_retried[OF demo_drafts_inv(1) _ demo_created, of "lit '' k''" "[99]"] demo_trims(2)
  by simp

lemma demo_proposal_inv: "proposal_inv Some (demo_proposal_db (lit ''k''))"
  using demo_proposal_decodes[of "lit ''k''"] demo_trims(1)
  by (simp add: proposal_inv_def demo_proposal_db_def add_proposal_def demo_drafts_db_def empty_db_def ids_ok_def)
    (simp add: demo_proposal_row_def)

lemma demo_decided:
  "transition_proposal Some 1 PsAccepted [70] (demo_proposal_db (lit ''k''))
    = (with_proposal_state 1 PsAccepted [70] (demo_proposal_db (lit ''k'')),
       Inr ((demo_proposal (lit ''k''))\<lparr>sp_state := PsAccepted, sp_updated_at := [70]\<rparr>))"
proof -
  have "demo_proposal_row (lit ''k'') \<in> set (proposals (demo_proposal_db (lit ''k'')))"
    by (simp add: demo_proposal_db_def add_proposal_def)
  moreover have "pr_id (demo_proposal_row (lit ''k'')) = 1" by (simp add: demo_proposal_row_def)
  ultimately show ?thesis
    using transition_proposal_row[OF demo_proposal_inv _ demo_proposal_decodes, of "lit ''k''" PsAccepted "[70]"] demo_trims(1)
    by (simp add: demo_proposal_def can_transition_to_iff)
qed

theorem first_decision_is_final_witness:
  "transition_proposal Some 1 PsDeclined [80] (with_proposal_state 1 PsAccepted [70] (demo_proposal_db (lit ''k'')))
    = (with_proposal_state 1 PsAccepted [70] (demo_proposal_db (lit ''k'')), Inl (Conflict ''proposal transition''))"
  using first_decision_is_final[OF demo_proposal_inv demo_decided, of "[]" "[80]" PsDeclined] by simp

definition demo_mapping_request :: mapping_request where
  "demo_mapping_request = \<lparr>mq_proposal_id = 1, mq_provider = lit ''p'', mq_provider_event_id = lit ''e'', mq_source_id = lit ''s'',
     mq_starts_at = Some (utc_secs 50), mq_ends_at = Some (utc_secs 60)\<rparr>"

definition demo_mapping_row :: event_mapping_row where
  "demo_mapping_row = \<lparr>ev_id = 1, ev_proposal_id = 1, ev_provider = lit ''p'', ev_provider_event_id = lit ''e'',
     ev_source_id = lit ''s'', ev_starts_at = Some [50], ev_ends_at = Some [60], ev_created_at = [60], ev_updated_at = [60]\<rparr>"

definition demo_mapping :: stored_event_mapping where
  "demo_mapping = \<lparr>se_id = 1, se_proposal_id = 1, se_provider = lit ''p'', se_provider_event_id = lit ''e'',
     se_source_id = lit ''s'', se_starts_at = Some (utc_secs 50), se_ends_at = Some (utc_secs 60),
     se_created_at = [60], se_updated_at = [60]\<rparr>"

lemma demo_codec_seconds: "rfc_range t \<Longrightarrow> rfc_format demo_codec (utc_secs t) = Some [t]"
  "rfc_range t \<Longrightarrow> rfc_parse demo_codec [t] = Some (utc_secs t)"
  by (simp_all add: demo_codec_def)

lemma demo_seconds: "rfc_range 50" "rfc_range 60" "rfc_range 70"
  by (simp_all add: rfc_range_def rfc_min_secs_def odt_max_secs_def)

lemma demo_attached:
  "attach_event_mapping demo_codec Some demo_mapping_request [60] (demo_proposal_db (lit ''k''))
    = (add_mapping (demo_proposal_db (lit ''k'')) demo_mapping_row, Inr demo_mapping)"
proof -
  have new: "mapping_new demo_codec demo_mapping_request [60] (demo_proposal_db key) = demo_mapping_row" for key
    using demo_seconds demo_codec_seconds
    by (simp add: mapping_new_def new_mapping_row_def demo_mapping_request_def demo_mapping_row_def time_text_def next_id_def)
  have texts: "str_trim (lit ''p'') \<noteq> []" "str_trim (lit ''e'') \<noteq> []" by (simp_all add: text_evals)
  have "mapping_pre demo_codec demo_mapping_request (demo_proposal_db (lit ''k''))"
    using demo_seconds demo_codec_seconds texts demo_trims(3)
    by (simp add: mapping_pre_def demo_mapping_request_def times_ordered_def time_ok_def demo_proposal_db_def add_proposal_def)
      (simp add: demo_proposal_row_def)
  moreover have "decode_event_mapping_row demo_codec Some demo_mapping_row = Inr demo_mapping"
    using demo_seconds demo_codec_seconds texts demo_trims(3)
    by (simp add: decode_event_mapping_row_Inr mapping_row_decodes_def demo_mapping_row_def demo_mapping_def
        time_read_def times_ordered_def)
  ultimately show ?thesis by (simp add: attach_event_mapping_Inr new)
qed

lemma demo_mapping_inv: "mapping_inv demo_codec Some (demo_proposal_db (lit ''k''))"
  using demo_codec_reads_back
  by (simp add: mapping_inv_def demo_proposal_db_def add_proposal_def demo_drafts_db_def empty_db_def)

theorem event_mapping_is_idempotent_witness:
  "attach_event_mapping demo_codec Some demo_mapping_request [99] (add_mapping (demo_proposal_db (lit ''k'')) demo_mapping_row)
    = (add_mapping (demo_proposal_db (lit ''k'')) demo_mapping_row, Inr demo_mapping)"
  using event_mapping_is_idempotent[OF demo_mapping_inv demo_attached, of "[99]" "[]"] by simp

end
