(* ===== verification/Notification_Time.thy ===== *)
theory Notification_Time
  imports Store_Common
begin

text \<open>
  The times of the notification outbox (\<open>src/pa/store.rs\<close>). They are stored as RFC 3339 texts in
  UTC, whose fraction of a second has a variable number of digits. The queries therefore compare a
  fixed-width key, computed for the argument by \<open>format_notification_comparison_datetime\<close> and for
  the stored text by the SQL expression of \<open>notification_timestamp_comparison_sql\<close>. \<open>codec_utc\<close>
  states the documented shape of the crate's output in UTC: 19 characters for the whole seconds,
  ordered like them, then a point and the digits of the fraction without trailing zeros unless the
  fraction is zero, then \<open>Z\<close>.
\<close>

section \<open>The shape of the texts\<close>

fun fixed_digits :: "nat \<Rightarrow> int \<Rightarrow> str" where
  "fixed_digits 0 n = []"
| "fixed_digits (Suc k) n = (48 + n div 10 ^ k) # fixed_digits k (n mod 10 ^ k)"

definition strip_zeros :: "str \<Rightarrow> str" where
  "strip_zeros s = rev (dropWhile (\<lambda>c. c = 48) (rev s))"

definition frac_text :: "int \<Rightarrow> str" where
  "frac_text n = (if n = 0 then [] else 46 # strip_zeros (fixed_digits 9 n))"

definition codec_utc :: "codec \<Rightarrow> bool" where
  "codec_utc C \<longleftrightarrow> (\<exists>W. (\<forall>t. rfc_range t \<longrightarrow> length (W t) = 19 \<and> 46 \<notin> set (W t) \<and> 90 \<notin> set (W t))
     \<and> (\<forall>t u. rfc_range t \<longrightarrow> rfc_range u \<longrightarrow> (W t < W u \<longleftrightarrow> t < u))
     \<and> (\<forall>d. is_utc d \<longrightarrow> rfc_format C d =
          (if rfc_range (unix_timestamp d) then Some (W (unix_timestamp d) @ frac_text (nanosecond d) @ [90]) else None)))"

section \<open>The comparison keys\<close>

definition normalize_notification_time :: "odt \<Rightarrow> odt store_result" where
  "normalize_notification_time v = Inr (to_utc v)"

definition strip_suffix_char :: "rchar \<Rightarrow> str \<Rightarrow> str option" where
  "strip_suffix_char c s = (if s \<noteq> [] \<and> last s = c then Some (butlast s) else None)"

definition notification_invalid :: store_error where
  "notification_invalid = stored_record_invalid ''notification''"

definition format_notification_comparison_datetime :: "codec \<Rightarrow> odt \<Rightarrow> str store_result" where
  "format_notification_comparison_datetime C v =
     rbind (normalize_notification_time v) (\<lambda>v.
     rbind (format_offset_datetime C v) (\<lambda>text.
     rbind (ok_or notification_invalid (strip_suffix_char 90 text)) (\<lambda>without_offset.
     let (whole, fraction) = (case split_once 46 without_offset of Some p \<Rightarrow> p | None \<Rightarrow> (without_offset, [])) in
     if str_len fraction > 9 then Inl notification_invalid
     else Inr (whole @ [46] @ fraction @ replicate (9 - str_len fraction) 48 @ [90]))))"

text \<open>
  The SQL expression on a stored text: \<open>instr\<close>, \<open>replace\<close>, \<open>substr\<close> and \<open>printf('%-9s', _)\<close>.
\<close>

definition sql_replace_char :: "rchar \<Rightarrow> str \<Rightarrow> str \<Rightarrow> str" where
  "sql_replace_char c by s = concat (map (\<lambda>d. if d = c then by else [d]) s)"

definition sql_instr_char :: "rchar \<Rightarrow> str \<Rightarrow> nat" where
  "sql_instr_char c s = (if c \<in> set s then length (takeWhile (\<lambda>d. d \<noteq> c) s) + 1 else 0)"

definition sql_pad_left :: "nat \<Rightarrow> str \<Rightarrow> str" where
  "sql_pad_left n s = s @ replicate (n - length s) 32"

definition notification_timestamp_comparison_sql :: "str \<Rightarrow> str" where
  "notification_timestamp_comparison_sql s =
     (if sql_instr_char 46 s = 0 then sql_replace_char 90 (lit ''.000000000Z'') s
      else take (sql_instr_char 46 s) s
           @ sql_replace_char 32 (lit ''0'')
               (sql_pad_left 9 (take (length s - sql_instr_char 46 s - 1) (drop (sql_instr_char 46 s) s)))
           @ lit ''Z'')"

section \<open>Both keys are the instant in fixed width\<close>

lemma length_fixed_digits [simp]: "length (fixed_digits k n) = k"
  by (induction k arbitrary: n) simp_all

lemma digit_bounds:
  assumes "0 \<le> (n :: int)" "n < 10 * 10 ^ k"
  shows "0 \<le> n div 10 ^ k \<and> n div 10 ^ k < 10"
proof -
  have "n div 10 ^ k * 10 ^ k \<le> n" by (simp add: minus_mod_eq_div_mult[symmetric])
  then have "n div 10 ^ k * 10 ^ k < 10 * 10 ^ k" using assms(2) by linarith
  then have "n div 10 ^ k < 10" by (simp only: mult_less_cancel_right_pos zero_less_power zero_less_numeral)
  then show ?thesis using assms(1) by (simp add: pos_imp_zdiv_nonneg_iff)
qed

lemma fixed_digits_ascii: "0 \<le> n \<Longrightarrow> n < 10 ^ k \<Longrightarrow> c \<in> set (fixed_digits k n) \<Longrightarrow> 48 \<le> c \<and> c \<le> 57"
proof (induction k arbitrary: n)
  case 0
  then show ?case by simp
next
  case (Suc k)
  have "0 \<le> n div 10 ^ k" "n div 10 ^ k < 10" using digit_bounds[OF Suc.prems(1)] Suc.prems(2) by simp_all
  then show ?case using Suc.prems(3) Suc.IH[of "n mod 10 ^ k"] by auto
qed

lemma fixed_digits_less:
  "0 \<le> n \<Longrightarrow> n < 10 ^ k \<Longrightarrow> 0 \<le> m \<Longrightarrow> m < 10 ^ k \<Longrightarrow> fixed_digits k n < fixed_digits k m \<longleftrightarrow> n < m"
proof (induction k arbitrary: n m)
  case 0
  then show ?case by simp
next
  case (Suc k)
  let ?p = "10 ^ k :: int"
  have rest: "fixed_digits k (n mod ?p) < fixed_digits k (m mod ?p) \<longleftrightarrow> n mod ?p < m mod ?p"
    by (rule Suc.IH) simp_all
  have split: "n = ?p * (n div ?p) + n mod ?p" "m = ?p * (m div ?p) + m mod ?p" by simp_all
  have mods: "0 \<le> n mod ?p" "n mod ?p < ?p" "0 \<le> m mod ?p" "m mod ?p < ?p" by simp_all
  have "n < m \<longleftrightarrow> n div ?p < m div ?p \<or> (n div ?p = m div ?p \<and> n mod ?p < m mod ?p)"
  proof (cases "n div ?p" "m div ?p" rule: linorder_cases)
    case less
    then have "?p * (n div ?p + 1) \<le> ?p * (m div ?p)" by (intro mult_left_mono) simp_all
    then have "?p * (n div ?p) + ?p \<le> ?p * (m div ?p)" by (simp add: algebra_simps)
    then show ?thesis using less split mods by linarith
  next
    case equal
    then show ?thesis using split by (metis add_less_cancel_left less_irrefl)
  next
    case greater
    then have "?p * (m div ?p + 1) \<le> ?p * (n div ?p)" by (intro mult_left_mono) simp_all
    then have "?p * (m div ?p) + ?p \<le> ?p * (n div ?p)" by (simp add: algebra_simps)
    then show ?thesis using greater split mods by linarith
  qed
  then show ?case using rest by simp
qed

lemma append_less_append:
  "length xs = length ys \<Longrightarrow> (xs @ us :: str) < ys @ vs \<longleftrightarrow> xs < ys \<or> (xs = ys \<and> us < vs)"
  by (induction xs ys rule: list_induct2) auto

lemma strip_zeros_pad:
  assumes "length s = 9"
  shows "length (strip_zeros s) \<le> 9 \<and> strip_zeros s @ replicate (9 - length (strip_zeros s)) 48 = s"
proof -
  let ?t = "takeWhile (\<lambda>c. c = 48) (rev s)"
  have s: "s = strip_zeros s @ rev ?t"
    unfolding strip_zeros_def by (metis rev_append rev_rev_ident takeWhile_dropWhile_id)
  then have "length (strip_zeros s) + length ?t = 9" using assms by (metis length_append length_rev)
  moreover have "?t = replicate (length ?t) 48" by (rule replicate_eqI) (auto dest: set_takeWhileD)
  then have "rev ?t = replicate (length ?t) 48" by (metis rev_replicate)
  ultimately show ?thesis using s by (metis add_diff_cancel_left' le_add1)
qed

definition comparison_key :: "str \<Rightarrow> int \<Rightarrow> str" where
  "comparison_key whole n = whole @ [46] @ fixed_digits 9 n @ [90]"

lemma comparison_key_less:
  assumes "length w = length v" "0 \<le> n" "n < NANOS" "0 \<le> m" "m < NANOS"
  shows "comparison_key w n < comparison_key v m \<longleftrightarrow> w < v \<or> (w = v \<and> n < m)"
  using assms fixed_digits_less[of n 9 m] by (auto simp: comparison_key_def append_less_append NANOS_def)

lemma strip_zeros_set: "c \<in> set (strip_zeros s) \<Longrightarrow> c \<in> set s"
  using set_dropWhile_subset by (fastforce simp: strip_zeros_def)

lemma frac_digits_no:
  assumes "0 \<le> n" "n < NANOS"
  shows "c \<in> set (strip_zeros (fixed_digits 9 n)) \<Longrightarrow> 48 \<le> c \<and> c \<le> 57"
  using fixed_digits_ascii[of n 9] assms strip_zeros_set by (simp add: NANOS_def)

lemma sql_replace_none: "c \<notin> set s \<Longrightarrow> sql_replace_char c by s = s"
  by (induction s) (auto simp: sql_replace_char_def)

lemma sql_replace_append: "sql_replace_char c by (xs @ ys) = sql_replace_char c by xs @ sql_replace_char c by ys"
  by (simp add: sql_replace_char_def)

lemma sql_replace_replicate: "sql_replace_char c [d] (replicate n c) = replicate n d"
  by (induction n) (simp_all add: sql_replace_char_def)

lemma fixed_digits_zero: "fixed_digits k 0 = replicate k 48"
  by (induction k) simp_all

lemma sql_key_of_text:
  assumes w: "46 \<notin> set w" "90 \<notin> set w" and n: "0 \<le> n" "n < NANOS"
  shows "notification_timestamp_comparison_sql (w @ frac_text n @ [90]) = comparison_key w n"
proof (cases "n = 0")
  case True
  have "fixed_digits 9 0 = lit ''000000000''" by (simp add: eval_nat_numeral)
  then show ?thesis using w True
    by (simp add: notification_timestamp_comparison_sql_def sql_instr_char_def frac_text_def comparison_key_def
        sql_replace_append sql_replace_none) (simp add: sql_replace_char_def)
next
  case False
  let ?f = "strip_zeros (fixed_digits 9 n)"
  have instr: "sql_instr_char 46 (w @ 46 # ?f @ [90]) = length w + 1"
  proof -
    have "takeWhile (\<lambda>d. d \<noteq> 46) (w @ 46 # ?f @ [90]) = w" using w(1) by (induction w) auto
    then show ?thesis by (simp add: sql_instr_char_def)
  qed
  have "32 \<notin> set ?f" using frac_digits_no[OF n, of 32] by auto
  then have "sql_replace_char 32 [48] (sql_pad_left 9 ?f) = fixed_digits 9 n"
    using strip_zeros_pad[of "fixed_digits 9 n"]
    by (simp add: sql_pad_left_def sql_replace_append sql_replace_none sql_replace_replicate)
  then show ?thesis using False instr
    by (simp add: notification_timestamp_comparison_sql_def frac_text_def comparison_key_def)
qed

lemma split_once_append: "d \<notin> set a \<Longrightarrow> split_once d (a @ d # b) = Some (a, b)"
  by (induction a) auto

lemma split_once_none: "d \<notin> set a \<Longrightarrow> split_once d a = None"
  by (induction a) auto

text \<open>The instant that a stored text denotes.\<close>

definition stamp :: "codec \<Rightarrow> str \<Rightarrow> odt \<Rightarrow> bool" where
  "stamp C s d \<longleftrightarrow> is_utc d \<and> rfc_format C d = Some s"

lemma nanosecond_bounds: "0 \<le> nanosecond d \<and> nanosecond d < NANOS"
  by (simp add: nanosecond_def NANOS_def)

lemma instant_split: "instant_ns d = unix_timestamp d * NANOS + nanosecond d"
  by (simp add: unix_timestamp_def nanosecond_def)

lemma instant_less: "instant_ns d < instant_ns e \<longleftrightarrow>
    unix_timestamp d < unix_timestamp e \<or> (unix_timestamp d = unix_timestamp e \<and> nanosecond d < nanosecond e)"
  unfolding instant_split[of d] instant_split[of e] using nanosecond_bounds[of d] nanosecond_bounds[of e]
  by (auto simp: NANOS_def)

lemma keys_agree:
  assumes "codec_utc C" "stamp C s d"
  shows "format_notification_comparison_datetime C d = Inr (notification_timestamp_comparison_sql s)"
proof -
  obtain W where W: "\<And>t. rfc_range t \<Longrightarrow> length (W t) = 19 \<and> 46 \<notin> set (W t) \<and> 90 \<notin> set (W t)"
    "\<And>d. is_utc d \<Longrightarrow> rfc_format C d =
          (if rfc_range (unix_timestamp d) then Some (W (unix_timestamp d) @ frac_text (nanosecond d) @ [90]) else None)"
    using assms(1) unfolding codec_utc_def by metis
  let ?w = "W (unix_timestamp d)" let ?n = "nanosecond d" let ?f = "strip_zeros (fixed_digits 9 ?n)"
  have d: "is_utc d" "rfc_range (unix_timestamp d)" "s = ?w @ frac_text ?n @ [90]" "to_utc d = d"
    using assms(2) W(2)[of d] is_utc_to_utc[of d] by (auto simp: stamp_def split: if_splits)
  have "list_all is_ascii ?f" using frac_digits_no[of ?n] nanosecond_bounds[of d] by (fastforce simp: list_all_iff is_ascii_def)
  then have len: "str_len ?f = length ?f" by (rule str_len_ascii)
  have sql: "notification_timestamp_comparison_sql s = comparison_key ?w ?n"
    unfolding d(3) using sql_key_of_text W(1)[OF d(2)] nanosecond_bounds by blast
  have pad: "length ?f \<le> 9 \<and> ?f @ replicate (9 - length ?f) 48 = fixed_digits 9 ?n" by (rule strip_zeros_pad) simp
  show ?thesis
  proof (cases "?n = 0")
    case True
    then show ?thesis using assms(2) d W(1)[OF d(2)] sql
      by (simp add: format_notification_comparison_datetime_def normalize_notification_time_def format_offset_datetime_def
          stamp_def strip_suffix_char_def frac_text_def split_once_none comparison_key_def fixed_digits_zero)
  next
    case False
    have bl: "butlast (?w @ 46 # ?f @ [90]) = ?w @ 46 # ?f" by (simp add: butlast_append)
    show ?thesis using assms(2) d W(1)[OF d(2)] sql False pad len
      by (simp add: format_notification_comparison_datetime_def normalize_notification_time_def format_offset_datetime_def
          stamp_def strip_suffix_char_def frac_text_def split_once_append comparison_key_def bl)
  qed
qed

lemma sql_key_less:
  assumes "codec_utc C" "stamp C s d" "stamp C r e"
  shows "notification_timestamp_comparison_sql s < notification_timestamp_comparison_sql r \<longleftrightarrow> before d e"
proof -
  obtain W where W: "\<And>t. rfc_range t \<Longrightarrow> length (W t) = 19 \<and> 46 \<notin> set (W t) \<and> 90 \<notin> set (W t)"
    "\<And>t u. rfc_range t \<Longrightarrow> rfc_range u \<Longrightarrow> W t < W u \<longleftrightarrow> t < u"
    "\<And>d. is_utc d \<Longrightarrow> rfc_format C d =
          (if rfc_range (unix_timestamp d) then Some (W (unix_timestamp d) @ frac_text (nanosecond d) @ [90]) else None)"
    using assms(1) unfolding codec_utc_def by metis
  have d: "rfc_range (unix_timestamp d)" "s = W (unix_timestamp d) @ frac_text (nanosecond d) @ [90]"
    using assms(2) W(3)[of d] by (auto simp: stamp_def split: if_splits)
  have e: "rfc_range (unix_timestamp e)" "r = W (unix_timestamp e) @ frac_text (nanosecond e) @ [90]"
    using assms(3) W(3)[of e] by (auto simp: stamp_def split: if_splits)
  have "W (unix_timestamp d) = W (unix_timestamp e) \<longleftrightarrow> unix_timestamp d = unix_timestamp e"
    using W(2)[OF d(1) e(1)] W(2)[OF e(1) d(1)] by (metis less_irrefl linorder_less_linear)
  then show ?thesis
    using sql_key_of_text[of "W (unix_timestamp d)" "nanosecond d"] sql_key_of_text[of "W (unix_timestamp e)" "nanosecond e"]
      W(1)[OF d(1)] W(1)[OF e(1)] W(2)[OF d(1) e(1)] nanosecond_bounds
      comparison_key_less[of "W (unix_timestamp d)" "W (unix_timestamp e)" "nanosecond d" "nanosecond e"]
    by (simp add: d(2) e(2) before_def instant_less)
qed


text \<open>
  The queries of the outbox compare instants: the key computed by the SQL expression from a
  stored text equals the key that the Rust code computes for the same instant, and the keys are
  ordered like the instants, down to the nanosecond.
\<close>

theorem comparison_keys_order_instants:
  assumes "codec_utc C" "stamp C s d" "stamp C r e"
  shows "format_notification_comparison_datetime C d = Inr (notification_timestamp_comparison_sql s)
    \<and> (notification_timestamp_comparison_sql s \<le> notification_timestamp_comparison_sql r \<longleftrightarrow> instant_ns d \<le> instant_ns e)"
  using keys_agree[OF assms(1,2)] sql_key_less[OF assms(1,3,2)]
  by (simp add: before_def linorder_not_less[symmetric])

text \<open>The raw texts are not ordered like the instants: a fraction sorts before the whole second.\<close>

lemma raw_text_fraction_first:
  assumes "codec_utc C" "stamp C s d" "stamp C r e"
    and "unix_timestamp d = unix_timestamp e" "nanosecond d = 0" "nanosecond e \<noteq> 0"
  shows "r < s"
proof -
  obtain W where W: "\<And>d. is_utc d \<Longrightarrow> rfc_format C d =
          (if rfc_range (unix_timestamp d) then Some (W (unix_timestamp d) @ frac_text (nanosecond d) @ [90]) else None)"
    using assms(1) unfolding codec_utc_def by metis
  have "s = W (unix_timestamp d) @ [90]" using assms(2,5) W[of d] by (auto simp: stamp_def frac_text_def split: if_splits)
  moreover have "r = W (unix_timestamp d) @ 46 # strip_zeros (fixed_digits 9 (nanosecond e)) @ [90]"
    using assms(3,4,6) W[of e] by (auto simp: stamp_def frac_text_def split: if_splits)
  ultimately show ?thesis by (simp add: append_less_append)
qed

section \<open>The laws can hold\<close>

text \<open>A codec of the documented shape, with one character for the seconds.\<close>

fun digits_val :: "str \<Rightarrow> int" where
  "digits_val [] = 0"
| "digits_val (c # cs) = (c - 48) * 10 ^ length cs + digits_val cs"

lemma digits_val_fixed: "digits_val (fixed_digits k n) = n" if "0 \<le> n" "n < 10 ^ k"
  using that
proof (induction k arbitrary: n)
  case 0
  then show ?case by simp
next
  case (Suc k)
  then show ?case using Suc.IH[of "n mod 10 ^ k"] div_mult_mod_eq[of n "10 ^ k"] by simp
qed

definition demo_whole :: "int \<Rightarrow> str" where
  "demo_whole t = replicate 18 0 @ [t + 62167219300]"

definition demo_fraction :: "str \<Rightarrow> int" where
  "demo_fraction rest = (case rest of [] \<Rightarrow> 0 | c # cs \<Rightarrow>
     if c = 46 then digits_val (butlast cs @ replicate (9 - length (butlast cs)) 48) else 0)"

definition demo_utc_codec :: codec where
  "demo_utc_codec = \<lparr>
     rfc_format = (\<lambda>d. if is_utc d \<and> rfc_range (unix_timestamp d)
        then Some (demo_whole (unix_timestamp d) @ frac_text (nanosecond d) @ [90]) else None),
     rfc_parse = (\<lambda>s. if length s < 20 then None
        else Some \<lparr>instant_ns = (s ! 18 - 62167219300) * NANOS + demo_fraction (drop 19 s), offset_secs = 0\<rparr>)\<rparr>"

lemma demo_fraction_text: "0 \<le> n \<Longrightarrow> n < NANOS \<Longrightarrow> demo_fraction (frac_text n @ [90]) = n"
  using strip_zeros_pad[of "fixed_digits 9 n"] digits_val_fixed[of n 9]
  by (simp add: demo_fraction_def frac_text_def NANOS_def)

lemma demo_whole_simps: "length (demo_whole t) = 19" "demo_whole t ! 18 = t + 62167219300"
  by (simp_all add: demo_whole_def nth_append)

lemma demo_utc_reads:
  assumes "is_utc d" "rfc_range (unix_timestamp d)"
  shows "rfc_parse demo_utc_codec (demo_whole (unix_timestamp d) @ frac_text (nanosecond d) @ [90]) = Some d"
proof -
  have "demo_fraction (frac_text (nanosecond d) @ [90]) = nanosecond d"
    using demo_fraction_text nanosecond_bounds by blast
  then show ?thesis using assms(1) instant_split[of d]
    by (cases d) (simp add: demo_utc_codec_def demo_whole_simps nth_append is_utc_def)
qed

lemma demo_whole_less: "demo_whole t < demo_whole u \<longleftrightarrow> t < u"
  by (simp add: demo_whole_def append_less_append)

lemma demo_utc_codec_ok: "codec_ok demo_utc_codec"
proof -
  have f: "rfc_format demo_utc_codec (utc_secs t) = (if rfc_range t then Some (demo_whole t @ [90]) else None)" for t
    by (simp add: demo_utc_codec_def frac_text_def)
  have p: "rfc_range t \<Longrightarrow> rfc_parse demo_utc_codec (demo_whole t @ [90]) = Some (utc_secs t)" for t
    using demo_utc_reads[of "utc_secs t"] by (simp add: frac_text_def)
  have l: "demo_whole t @ [90] < demo_whole u @ [90] \<longleftrightarrow> t < u" for t u
    by (simp add: append_less_append demo_whole_simps demo_whole_less)
  show ?thesis using p by (auto simp: codec_ok_def f l split: if_splits)
qed

lemma demo_utc_reads_back: "codec_reads_back demo_utc_codec"
  unfolding codec_reads_back_def
proof (intro allI impI)
  fix d s assume "rfc_format demo_utc_codec d = Some s"
  then have "is_utc d" "rfc_range (unix_timestamp d)" "s = demo_whole (unix_timestamp d) @ frac_text (nanosecond d) @ [90]"
    by (auto simp: demo_utc_codec_def split: if_splits)
  then show "\<exists>e. rfc_parse demo_utc_codec s = Some e \<and> same_instant e d" using demo_utc_reads by auto
qed

lemma demo_utc_shape: "codec_utc demo_utc_codec"
proof -
  have "46 \<notin> set (demo_whole t) \<and> 90 \<notin> set (demo_whole t)" if "rfc_range t" for t
    using that by (auto simp: demo_whole_def rfc_range_def rfc_min_secs_def)
  then show ?thesis unfolding codec_utc_def
    by (intro exI[of _ demo_whole]) (simp add: demo_whole_simps demo_whole_less demo_utc_codec_def)
qed

theorem comparison_keys_order_instants_witness:
  "\<exists>s r. rfc_format demo_utc_codec (utc_secs 5) = Some s
     \<and> rfc_format demo_utc_codec \<lparr>instant_ns = 5500000000, offset_secs = 0\<rparr> = Some r
     \<and> notification_timestamp_comparison_sql s \<le> notification_timestamp_comparison_sql r"
proof -
  let ?e = "\<lparr>instant_ns = 5500000000, offset_secs = 0\<rparr> :: odt"
  have f: "rfc_range 5" "unix_timestamp ?e = 5" "is_utc ?e"
    by (simp_all add: rfc_range_def rfc_min_secs_def odt_max_secs_def unix_timestamp_def NANOS_def is_utc_def)
  then obtain s r where "stamp demo_utc_codec s (utc_secs 5)" "stamp demo_utc_codec r ?e"
    by (simp add: stamp_def demo_utc_codec_def)
  from comparison_keys_order_instants[OF demo_utc_shape this] this show ?thesis
    by (auto simp: stamp_def NANOS_def)
qed

end
