(* ===== verification/Store_Notifications.thy ===== *)
theory Store_Notifications
  imports Store_Proposals Notification_Time "HOL-Library.Product_Lexorder"
begin

text \<open>
  The notification outbox of \<open>src/pa/store.rs\<close>: \<open>enqueue_notification\<close>, the loads and the listing,
  the lease-based \<open>claim_notifications\<close>, and the completion of a delivery attempt by
  \<open>mark_notification_sent\<close> or \<open>reschedule_notification\<close>. \<open>J\<close> stands for serde_json on the template
  values. The argument \<open>clk\<close> is the instant that \<open>OffsetDateTime::now_utc()\<close> returns.
\<close>

section \<open>Template values and records\<close>

record template_data =
  td_title :: "str option"
  td_starts_at :: "odt option"
  td_ends_at :: "odt option"
  td_timezone :: "str option"
  td_appointment_kind :: "appointment_kind option"
  td_proposal_state :: "proposal_state option"

definition blank_option :: "str option \<Rightarrow> bool" where
  "blank_option v = (case v of None \<Rightarrow> False | Some s \<Rightarrow> str_trim s = [])"

definition offset_option :: "odt option \<Rightarrow> bool" where
  "offset_option d = (case d of None \<Rightarrow> False | Some d \<Rightarrow> \<not> is_utc d)"

definition td_new :: "template_data \<Rightarrow> template_data store_result" where
  "td_new w =
     (if blank_option (td_title w) then Inl (InvalidInput ''title'')
      else if blank_option (td_timezone w) then Inl (InvalidInput ''timezone'')
      else if (td_starts_at w \<noteq> None) \<noteq> (td_ends_at w \<noteq> None) then Inl (InvalidInput ''template_times'')
      else if offset_option (td_starts_at w) then Inl (InvalidInput ''starts_at'')
      else if offset_option (td_ends_at w) then Inl (InvalidInput ''ends_at'')
      else if (case (td_starts_at w, td_ends_at w) of (Some s, Some e) \<Rightarrow> \<not> before s e | _ \<Rightarrow> False)
      then Inl (InvalidInput ''template_times'')
      else Inr (w\<lparr>td_title := map_option str_trim (td_title w), td_timezone := map_option str_trim (td_timezone w)\<rparr>))"

record json =
  js_write :: "template_data \<Rightarrow> str option"
  js_read :: "str \<Rightarrow> template_data option"

definition json_ok :: "json \<Rightarrow> bool" where
  "json_ok J \<longleftrightarrow> (\<forall>t s. js_write J t = Some s \<longrightarrow> js_read J s = Some t)"

text \<open>The deserializer reads the wire struct and validates it with \<open>new\<close>.\<close>

definition td_deserialize :: "json \<Rightarrow> str \<Rightarrow> template_data store_result" where
  "td_deserialize J s = rbind (ok_or notification_invalid (js_read J s)) td_new"

text \<open>\<open>PartialEq\<close>: instants compare as instants.\<close>

definition same_template :: "template_data \<Rightarrow> template_data \<Rightarrow> bool" where
  "same_template a b \<longleftrightarrow> td_title a = td_title b \<and> same_time (td_starts_at a) (td_starts_at b)
     \<and> same_time (td_ends_at a) (td_ends_at b) \<and> td_timezone a = td_timezone b
     \<and> td_appointment_kind a = td_appointment_kind b \<and> td_proposal_state a = td_proposal_state b"

record stored_notification =
  sn_id :: int
  sn_idempotency_key :: str
  sn_proposal_id :: "int option"
  sn_event_mapping_id :: "int option"
  sn_kind :: notification_kind
  sn_recipient :: str
  sn_template_data :: template_data
  sn_status :: notification_status
  sn_available_at :: odt
  sn_lease_until :: "odt option"
  sn_sent_at :: "odt option"
  sn_last_error_code :: "str option"
  sn_attempts :: int
  sn_created_at :: str
  sn_updated_at :: str

definition requires_proposal :: "notification_kind \<Rightarrow> bool" where
  "requires_proposal k \<longleftrightarrow> k \<noteq> NkCallSummary"

definition recipient_new :: "str \<Rightarrow> str store_result" where
  "recipient_new v = map_err (\<lambda>_. InvalidInput ''recipient'') (rbind (ce_confirm v) (\<lambda>e. Inr (ce_value e)))"

definition validate_stored_reference :: "int option \<Rightarrow> string \<Rightarrow> int option store_result" where
  "validate_stored_reference v resource =
     (if (case v of None \<Rightarrow> False | Some i \<Rightarrow> i \<le> 0) then Inl (stored_record_invalid resource) else Inr v)"

definition error_code_byte :: "rchar \<Rightarrow> bool" where
  "error_code_byte c \<longleftrightarrow> is_ascii_alphanumeric c \<or> c \<in> {95, 45}"

definition validate_notification_error_code :: "str \<Rightarrow> str store_result" where
  "validate_notification_error_code v =
     (if v = [] \<or> str_len v > 64 \<or> \<not> all_bytes error_code_byte v then Inl (InvalidInput ''error_code'') else Inr v)"

definition validate_notification_delivery_cursor :: "int \<Rightarrow> int \<Rightarrow> unit store_result" where
  "validate_notification_delivery_cursor i expected_attempt =
     (if i \<le> 0 then Inl (InvalidInput ''id'')
      else if expected_attempt \<le> 0 then Inl (InvalidInput ''expected_attempt'')
      else Inr ())"

definition parse_stored_notification_timestamp :: "codec \<Rightarrow> str \<Rightarrow> odt store_result" where
  "parse_stored_notification_timestamp C v =
     rbind (ok_or notification_invalid (rfc_parse C v)) (\<lambda>parsed.
     let parsed = to_utc parsed in
     rbind (map_err (\<lambda>_. notification_invalid) (format_offset_datetime C parsed)) (\<lambda>canonical.
       if canonical \<noteq> v then Inl notification_invalid else Inr parsed))"

definition validate_stored_notification_metadata_timestamp :: "codec \<Rightarrow> str \<Rightarrow> str store_result" where
  "validate_stored_notification_metadata_timestamp C v =
     rbind (parse_stored_notification_timestamp C v) (\<lambda>parsed.
       map_err (\<lambda>_. notification_invalid) (format_offset_datetime C parsed))"

text \<open>Which columns belong to which status.\<close>

definition delivery_shape :: "notification_status \<Rightarrow> int \<Rightarrow> bool \<Rightarrow> bool \<Rightarrow> bool \<Rightarrow> bool" where
  "delivery_shape status attempts has_lease has_sent has_error =
     (case status of
        NsPending \<Rightarrow> \<not> has_lease \<and> \<not> has_sent
      | NsDelivering \<Rightarrow> attempts > 0 \<and> has_lease \<and> \<not> has_sent \<and> \<not> has_error
      | NsSent \<Rightarrow> attempts > 0 \<and> \<not> has_lease \<and> has_sent \<and> \<not> has_error)"

definition decode_notification_row :: "codec \<Rightarrow> json \<Rightarrow> notification_row \<Rightarrow> stored_notification store_result" where
  "decode_notification_row C J row =
     rbind (ensure (\<not> (no_id row \<le> 0 \<or> no_attempts row < 0)) notification_invalid) (\<lambda>_.
     rbind (map_err (\<lambda>_. notification_invalid) (idempotency_key_new (no_idempotency_key row))) (\<lambda>key.
     rbind (validate_stored_reference (no_proposal_id row) ''notification'') (\<lambda>proposal_id.
     rbind (validate_stored_reference (no_event_mapping_id row) ''notification'') (\<lambda>event_mapping_id.
     rbind (parse_notification_kind (no_notification_kind row)) (\<lambda>kind.
     rbind (ensure (\<not> (requires_proposal kind \<noteq> (proposal_id \<noteq> None)
                     \<or> (\<not> requires_proposal kind \<and> event_mapping_id \<noteq> None))) notification_invalid) (\<lambda>_.
     rbind (map_err (\<lambda>_. notification_invalid) (recipient_new (no_recipient row))) (\<lambda>recipient.
     rbind (ok_or notification_invalid (no_payload row)) (\<lambda>payload.
     rbind (map_err (\<lambda>_. notification_invalid) (td_deserialize J payload)) (\<lambda>template.
     rbind (parse_notification_status (no_status row)) (\<lambda>status.
     rbind (parse_stored_notification_timestamp C (no_available_at row)) (\<lambda>available_at.
     rbind (transpose (map_option (parse_stored_notification_timestamp C) (no_lease_until row))) (\<lambda>lease_until.
     rbind (transpose (map_option (parse_stored_notification_timestamp C) (no_sent_at row))) (\<lambda>sent_at.
     rbind (map_err (\<lambda>_. notification_invalid)
              (transpose (map_option validate_notification_error_code (no_last_error_code row)))) (\<lambda>error_code.
     rbind (ensure (delivery_shape status (no_attempts row) (lease_until \<noteq> None) (sent_at \<noteq> None) (error_code \<noteq> None))
              notification_invalid) (\<lambda>_.
     rbind (validate_stored_notification_metadata_timestamp C (no_created_at row)) (\<lambda>created_at.
     rbind (validate_stored_notification_metadata_timestamp C (no_updated_at row)) (\<lambda>updated_at.
       Inr \<lparr>sn_id = no_id row, sn_idempotency_key = key, sn_proposal_id = proposal_id,
            sn_event_mapping_id = event_mapping_id, sn_kind = kind, sn_recipient = recipient,
            sn_template_data = template, sn_status = status, sn_available_at = available_at,
            sn_lease_until = lease_until, sn_sent_at = sent_at, sn_last_error_code = error_code,
            sn_attempts = no_attempts row, sn_created_at = created_at, sn_updated_at = updated_at\<rparr>)))))))))))))))))"

definition validate_stored_notification_references :: "stored_notification \<Rightarrow> db \<Rightarrow> unit store_result" where
  "validate_stored_notification_references n db =
     rbind (case sn_proposal_id n of None \<Rightarrow> Inr ()
            | Some i \<Rightarrow> ensure (\<exists>r \<in> set (proposals db). pr_id r = i) notification_invalid) (\<lambda>_.
     case sn_event_mapping_id n of None \<Rightarrow> Inr ()
     | Some i \<Rightarrow>
         rbind (ok_or notification_invalid (find (\<lambda>r. ev_id r = i) (event_mappings db))) (\<lambda>m.
           ensure (Some (ev_proposal_id m) = sn_proposal_id n) notification_invalid))"

definition validate_notification_references ::
    "int option \<Rightarrow> int option \<Rightarrow> notification_kind \<Rightarrow> db \<Rightarrow> unit store_result" where
  "validate_notification_references proposal_id event_mapping_id kind db =
     rbind (ensure (\<not> (case proposal_id of None \<Rightarrow> False | Some i \<Rightarrow> i \<le> 0)) (InvalidInput ''proposal_id'')) (\<lambda>_.
     rbind (ensure (\<not> (case event_mapping_id of None \<Rightarrow> False | Some i \<Rightarrow> i \<le> 0)) (InvalidInput ''event_mapping_id'')) (\<lambda>_.
     rbind (ensure (\<not> (requires_proposal kind \<and> proposal_id = None)) (InvalidInput ''proposal_id'')) (\<lambda>_.
     rbind (if requires_proposal kind then Inr ()
            else rbind (ensure (proposal_id = None) (InvalidInput ''proposal_id'')) (\<lambda>_.
                 ensure (event_mapping_id = None) (InvalidInput ''event_mapping_id''))) (\<lambda>_.
     rbind (case proposal_id of None \<Rightarrow> Inr ()
            | Some i \<Rightarrow> ensure (\<exists>r \<in> set (proposals db). pr_id r = i) (NotFound ''proposal'')) (\<lambda>_.
     case event_mapping_id of None \<Rightarrow> Inr ()
     | Some i \<Rightarrow>
         rbind (ok_or (NotFound ''event mapping'') (find (\<lambda>r. ev_id r = i) (event_mappings db))) (\<lambda>m.
           ensure (Some (ev_proposal_id m) = proposal_id) (Conflict ''notification'')))))))"

section \<open>Enqueueing and reading\<close>

record notification_request =
  nq_idempotency_key :: str
  nq_proposal_id :: "int option"
  nq_event_mapping_id :: "int option"
  nq_kind :: notification_kind
  nq_recipient :: str
  nq_template_data :: template_data
  nq_available_at :: odt

definition new_notification_row :: "notification_request \<Rightarrow> str \<Rightarrow> str \<Rightarrow> str \<Rightarrow> str \<Rightarrow> db \<Rightarrow> notification_row" where
  "new_notification_row rq key payload available_at persisted_at db =
     \<lparr>no_id = next_id no_id (notification_outbox db), no_idempotency_key = key, no_proposal_id = nq_proposal_id rq,
      no_event_mapping_id = nq_event_mapping_id rq, no_notification_kind = notification_kind_storage_name (nq_kind rq),
      no_recipient = nq_recipient rq, no_payload = Some payload, no_status = lit ''pending'',
      no_available_at = available_at, no_lease_until = None, no_sent_at = None, no_last_error_code = None,
      no_attempts = 0, no_created_at = persisted_at, no_updated_at = persisted_at\<rparr>"

definition checked_notification :: "codec \<Rightarrow> json \<Rightarrow> db \<Rightarrow> notification_row \<Rightarrow> stored_notification store_result" where
  "checked_notification C J db row =
     rbind (decode_notification_row C J row) (\<lambda>n.
     rbind (validate_stored_notification_references n db) (\<lambda>_. Inr n))"

definition exact_notification :: "notification_request \<Rightarrow> odt \<Rightarrow> stored_notification \<Rightarrow> bool" where
  "exact_notification rq available_at n \<longleftrightarrow>
     sn_proposal_id n = nq_proposal_id rq \<and> sn_event_mapping_id n = nq_event_mapping_id rq \<and> sn_kind n = nq_kind rq
     \<and> sn_recipient n = nq_recipient rq \<and> same_template (sn_template_data n) (nq_template_data rq)
     \<and> same_instant (sn_available_at n) available_at"

definition enqueue_notification ::
    "codec \<Rightarrow> json \<Rightarrow> notification_request \<Rightarrow> odt \<Rightarrow> db \<Rightarrow> db \<times> stored_notification store_result" where
  "enqueue_notification C J rq clk =
     run_tx (\<lambda>db.
       rbind (map_err (\<lambda>_. InvalidInput ''idempotency_key'') (idempotency_key_new (nq_idempotency_key rq))) (\<lambda>key.
       rbind (normalize_notification_time (nq_available_at rq)) (\<lambda>available_at.
       rbind (format_offset_datetime C available_at) (\<lambda>available_at_text.
       rbind (format_offset_datetime C clk) (\<lambda>persisted_at.
       rbind (ok_or StoredValueInvalid (js_write J (nq_template_data rq))) (\<lambda>payload.
       rbind (validate_notification_references (nq_proposal_id rq) (nq_event_mapping_id rq) (nq_kind rq) db) (\<lambda>_.
       case find (\<lambda>r. no_idempotency_key r = key) (notification_outbox db) of
         None \<Rightarrow>
           (let row = new_notification_row rq key payload available_at_text persisted_at db;
                db' = db\<lparr>notification_outbox := notification_outbox db @ [row]\<rparr>
            in rbind (checked_notification C J db' row) (\<lambda>stored. Inr (db', stored)))
       | Some row \<Rightarrow>
           rbind (checked_notification C J db row) (\<lambda>stored.
             if exact_notification rq available_at stored then Inr (db, stored)
             else Inl (Conflict ''notification'')))))))))"

definition load_notification_from_connection :: "codec \<Rightarrow> json \<Rightarrow> int \<Rightarrow> db \<Rightarrow> stored_notification store_result" where
  "load_notification_from_connection C J i db =
     rbind (ok_or (NotFound ''notification'') (find (\<lambda>r. no_id r = i) (notification_outbox db)))
       (checked_notification C J db)"

definition load_notification_by_id :: "codec \<Rightarrow> json \<Rightarrow> int \<Rightarrow> db \<Rightarrow> stored_notification store_result" where
  "load_notification_by_id C J i db =
     rbind (ok_or (NotFound ''notification'') (find (\<lambda>r. no_id r = i) (notification_outbox db)))
       (checked_notification C J db)"

definition load_notification_by_idempotency_key :: "codec \<Rightarrow> json \<Rightarrow> str \<Rightarrow> db \<Rightarrow> stored_notification store_result" where
  "load_notification_by_idempotency_key C J key db =
     rbind (map_err (\<lambda>_. InvalidInput ''idempotency_key'') (idempotency_key_new key)) (\<lambda>key.
     rbind (ok_or (NotFound ''notification'') (find (\<lambda>r. no_idempotency_key r = key) (notification_outbox db)))
       (checked_notification C J db))"

text \<open>\<open>ORDER BY available_at ASC, id ASC\<close> on the raw texts.\<close>

definition list_pending_notifications :: "codec \<Rightarrow> json \<Rightarrow> db \<Rightarrow> stored_notification list store_result" where
  "list_pending_notifications C J db =
     rmap (checked_notification C J db)
       (sort_key (\<lambda>r. (no_available_at r, no_id r))
         (filter (\<lambda>r. no_status r = lit ''pending'') (notification_outbox db)))"

section \<open>Claiming and completing attempts\<close>

definition eligible :: "str \<Rightarrow> notification_row \<Rightarrow> bool" where
  "eligible now_key r \<longleftrightarrow>
     (no_status r = lit ''pending'' \<and> notification_timestamp_comparison_sql (no_available_at r) \<le> now_key)
     \<or> (no_status r = lit ''delivering'' \<and>
        (case no_lease_until r of None \<Rightarrow> False | Some l \<Rightarrow> notification_timestamp_comparison_sql l \<le> now_key))"

definition candidate_ids :: "str \<Rightarrow> nat \<Rightarrow> db \<Rightarrow> int list" where
  "candidate_ids now_key limit db =
     map no_id (take limit (sort_key (\<lambda>r. (notification_timestamp_comparison_sql (no_available_at r), no_id r))
       (filter (eligible now_key) (notification_outbox db))))"

definition set_delivering :: "str \<Rightarrow> str \<Rightarrow> notification_row \<Rightarrow> notification_row" where
  "set_delivering lease_until updated_at r =
     r\<lparr>no_status := lit ''delivering'', no_attempts := no_attempts r + 1, no_lease_until := Some lease_until,
       no_sent_at := None, no_last_error_code := None, no_updated_at := updated_at\<rparr>"

definition update_outbox :: "(notification_row \<Rightarrow> bool) \<Rightarrow> (notification_row \<Rightarrow> notification_row) \<Rightarrow> db \<Rightarrow> db \<times> nat" where
  "update_outbox p f db =
     (db\<lparr>notification_outbox := update_rows p f (notification_outbox db)\<rparr>, count_rows p (notification_outbox db))"

fun claim_rows ::
    "codec \<Rightarrow> json \<Rightarrow> str \<Rightarrow> str \<Rightarrow> str \<Rightarrow> int list \<Rightarrow> db \<Rightarrow> (db \<times> stored_notification list) store_result" where
  "claim_rows C J now_key lease_until updated_at [] db = Inr (db, [])"
| "claim_rows C J now_key lease_until updated_at (i # ids) db =
     (let (db', updated) = update_outbox (\<lambda>r. no_id r = i \<and> eligible now_key r) (set_delivering lease_until updated_at) db in
      if updated \<noteq> 1 then Inl (CursorConflict ''notification'')
      else rbind (load_notification_from_connection C J i db') (\<lambda>n.
           rbind (claim_rows C J now_key lease_until updated_at ids db') (\<lambda>(db'', rest). Inr (db'', n # rest))))"

definition claim_notifications ::
    "codec \<Rightarrow> json \<Rightarrow> odt \<Rightarrow> nat \<Rightarrow> int \<Rightarrow> odt \<Rightarrow> db \<Rightarrow> db \<times> stored_notification list store_result" where
  "claim_notifications C J now limit lease_duration clk =
     run_tx (\<lambda>db.
       rbind (ensure (\<not> (limit = 0 \<or> int limit > i64_max)) (InvalidInput ''limit'')) (\<lambda>_.
       rbind (ensure (lease_duration > 0) (InvalidInput ''lease_duration'')) (\<lambda>_.
       rbind (normalize_notification_time now) (\<lambda>now.
       rbind (ok_or (InvalidInput ''lease_duration'') (odt_checked_add_ns now lease_duration)) (\<lambda>lease_until.
       rbind (format_notification_comparison_datetime C now) (\<lambda>now_key.
       rbind (format_offset_datetime C lease_until) (\<lambda>lease_until_text.
       rbind (format_offset_datetime C clk) (\<lambda>updated_at.
         claim_rows C J now_key lease_until_text updated_at (candidate_ids now_key limit db) db))))))))"

definition set_sent :: "str \<Rightarrow> str \<Rightarrow> notification_row \<Rightarrow> notification_row" where
  "set_sent sent_at updated_at r =
     r\<lparr>no_status := lit ''sent'', no_lease_until := None, no_sent_at := Some sent_at, no_last_error_code := None,
       no_updated_at := updated_at\<rparr>"

definition owns :: "int \<Rightarrow> int \<Rightarrow> notification_row \<Rightarrow> bool" where
  "owns i attempt r \<longleftrightarrow> no_id r = i \<and> no_status r = lit ''delivering'' \<and> no_attempts r = attempt"

definition mark_notification_sent ::
    "codec \<Rightarrow> json \<Rightarrow> int \<Rightarrow> int \<Rightarrow> odt \<Rightarrow> odt \<Rightarrow> db \<Rightarrow> db \<times> stored_notification store_result" where
  "mark_notification_sent C J i expected_attempt sent_at clk =
     run_tx (\<lambda>db.
       rbind (validate_notification_delivery_cursor i expected_attempt) (\<lambda>_.
       rbind (normalize_notification_time sent_at) (\<lambda>sent_at.
       rbind (format_offset_datetime C sent_at) (\<lambda>sent_at_text.
       rbind (format_offset_datetime C clk) (\<lambda>updated_at.
       rbind (load_notification_from_connection C J i db) (\<lambda>existing.
       if sn_status existing = NsSent \<and> sn_attempts existing = expected_attempt
          \<and> same_time (sn_sent_at existing) (Some sent_at)
       then Inr (db, existing)
       else if sn_status existing \<noteq> NsDelivering \<or> sn_attempts existing \<noteq> expected_attempt
       then Inl (CursorConflict ''notification'')
       else (let (db', updated) = update_outbox (owns i expected_attempt) (set_sent sent_at_text updated_at) db in
             if updated \<noteq> 1 then Inl (CursorConflict ''notification'')
             else rbind (load_notification_from_connection C J i db') (\<lambda>sent. Inr (db', sent)))))))))"

definition set_pending :: "str \<Rightarrow> str \<Rightarrow> str \<Rightarrow> notification_row \<Rightarrow> notification_row" where
  "set_pending available_at error_code updated_at r =
     r\<lparr>no_status := lit ''pending'', no_available_at := available_at, no_lease_until := None, no_sent_at := None,
       no_last_error_code := Some error_code, no_updated_at := updated_at\<rparr>"

definition reschedule_notification ::
    "codec \<Rightarrow> json \<Rightarrow> int \<Rightarrow> int \<Rightarrow> odt \<Rightarrow> str \<Rightarrow> odt \<Rightarrow> db \<Rightarrow> db \<times> stored_notification store_result" where
  "reschedule_notification C J i expected_attempt available_at error_code clk =
     run_tx (\<lambda>db.
       rbind (validate_notification_delivery_cursor i expected_attempt) (\<lambda>_.
       rbind (normalize_notification_time available_at) (\<lambda>available_at.
       rbind (format_offset_datetime C available_at) (\<lambda>available_at_text.
       rbind (format_offset_datetime C clk) (\<lambda>updated_at.
       rbind (validate_notification_error_code error_code) (\<lambda>error_code.
       rbind (load_notification_from_connection C J i db) (\<lambda>existing.
       if sn_status existing \<noteq> NsDelivering \<or> sn_attempts existing \<noteq> expected_attempt
       then Inl (CursorConflict ''notification'')
       else (let (db', updated) = update_outbox (owns i expected_attempt)
                                    (set_pending available_at_text error_code updated_at) db in
             if updated \<noteq> 1 then Inl (CursorConflict ''notification'')
             else rbind (load_notification_from_connection C J i db') (\<lambda>pending. Inr (db', pending))))))))))"

definition delete_notification_by_id :: "int \<Rightarrow> db \<Rightarrow> db \<times> unit store_result" where
  "delete_notification_by_id i db =
     (if \<exists>r \<in> set (notification_outbox db). no_id r = i
      then (db\<lparr>notification_outbox := filter (\<lambda>r. no_id r \<noteq> i) (notification_outbox db)\<rparr>, Inr ())
      else (db, Inl (NotFound ''notification'')))"


section \<open>Closed forms of the decoder\<close>

lemma parse_stored_Inr:
  assumes "codec_reads_back C"
  shows "parse_stored_notification_timestamp C v = Inr d \<longleftrightarrow> stamp C v d"
proof
  assume "parse_stored_notification_timestamp C v = Inr d"
  then show "stamp C v d"
    by (auto simp: parse_stored_notification_timestamp_def rbind_Inr_iff format_offset_datetime_def stamp_def Let_def
        split: if_splits)
next
  assume s: "stamp C v d"
  then obtain e where "rfc_parse C v = Some e" "same_instant e d"
    using assms by (auto simp: stamp_def codec_reads_back_def)
  moreover from this have "to_utc e = d" using s by (cases e; cases d) (simp add: stamp_def to_utc_def same_instant_def is_utc_def)
  ultimately show "parse_stored_notification_timestamp C v = Inr d"
    using s by (simp add: parse_stored_notification_timestamp_def format_offset_datetime_def stamp_def)
qed

lemma metadata_timestamp_Inr:
  assumes "codec_reads_back C"
  shows "validate_stored_notification_metadata_timestamp C v = Inr w \<longleftrightarrow> w = v \<and> (\<exists>d. stamp C v d)"
  by (auto simp: validate_stored_notification_metadata_timestamp_def rbind_Inr_iff parse_stored_Inr[OF assms]
      format_offset_datetime_def stamp_def)

definition stamp_option :: "codec \<Rightarrow> str option \<Rightarrow> odt option \<Rightarrow> bool" where
  "stamp_option C s d = (case s of None \<Rightarrow> d = None | Some s \<Rightarrow> \<exists>e. stamp C s e \<and> d = Some e)"

lemma parse_stored_option_Inr:
  "codec_reads_back C \<Longrightarrow> transpose (map_option (parse_stored_notification_timestamp C) s) = Inr d \<longleftrightarrow> stamp_option C s d"
  by (cases s) (auto simp: transpose_Inr_iff parse_stored_Inr stamp_option_def)

lemma stamp_option_simps [simp]:
  "stamp_option C None d \<longleftrightarrow> d = None"
  "stamp_option C (Some s) d \<longleftrightarrow> (\<exists>e. stamp C s e \<and> d = Some e)"
  by (simp_all add: stamp_option_def)

definition error_code_ok :: "str \<Rightarrow> bool" where
  "error_code_ok v \<longleftrightarrow> v \<noteq> [] \<and> str_len v \<le> 64 \<and> all_bytes error_code_byte v"

lemma validate_notification_error_code_Inr: "validate_notification_error_code v = Inr w \<longleftrightarrow> w = v \<and> error_code_ok v"
  by (auto simp: validate_notification_error_code_def error_code_ok_def)

lemma error_code_option_Inr:
  "transpose (map_option validate_notification_error_code v) = Inr w \<longleftrightarrow> w = v \<and> (\<forall>s. v = Some s \<longrightarrow> error_code_ok s)"
  by (cases v) (auto simp: transpose_Inr_iff validate_notification_error_code_Inr)

lemma recipient_new_Inr: "recipient_new v = Inr w \<longleftrightarrow> w = v \<and> is_valid_email v"
  by (auto simp: recipient_new_def rbind_Inr_iff ce_confirm_Inr)

definition positive_option :: "int option \<Rightarrow> bool" where
  "positive_option v = (case v of None \<Rightarrow> True | Some i \<Rightarrow> 0 < i)"

lemma validate_stored_reference_Inr: "validate_stored_reference v r = Inr w \<longleftrightarrow> w = v \<and> positive_option v"
  by (auto simp: validate_stored_reference_def positive_option_def split: option.splits)

definition links_shape :: "notification_kind \<Rightarrow> int option \<Rightarrow> int option \<Rightarrow> bool" where
  "links_shape k p m \<longleftrightarrow> requires_proposal k = (p \<noteq> None) \<and> (\<not> requires_proposal k \<longrightarrow> m = None)"

lemma links_check:
  "(\<not> (requires_proposal k \<noteq> (p \<noteq> None) \<or> (\<not> requires_proposal k \<and> m \<noteq> None))) \<longleftrightarrow> links_shape k p m"
  by (auto simp: links_shape_def)

definition notification_row_decodes :: "codec \<Rightarrow> json \<Rightarrow> notification_row \<Rightarrow> stored_notification \<Rightarrow> bool" where
  "notification_row_decodes C J row n \<longleftrightarrow>
     1 \<le> no_id row \<and> 0 \<le> no_attempts row \<and> str_trim (no_idempotency_key row) \<noteq> []
     \<and> positive_option (no_proposal_id row) \<and> positive_option (no_event_mapping_id row)
     \<and> no_notification_kind row = notification_kind_storage_name (sn_kind n)
     \<and> links_shape (sn_kind n) (no_proposal_id row) (no_event_mapping_id row)
     \<and> is_valid_email (no_recipient row)
     \<and> (\<exists>p. no_payload row = Some p \<and> td_deserialize J p = Inr (sn_template_data n))
     \<and> no_status row = notification_status_as_str (sn_status n)
     \<and> stamp C (no_available_at row) (sn_available_at n) \<and> stamp_option C (no_lease_until row) (sn_lease_until n)
     \<and> stamp_option C (no_sent_at row) (sn_sent_at n)
     \<and> (\<forall>s. no_last_error_code row = Some s \<longrightarrow> error_code_ok s)
     \<and> delivery_shape (sn_status n) (no_attempts row) (sn_lease_until n \<noteq> None) (sn_sent_at n \<noteq> None)
         (no_last_error_code row \<noteq> None)
     \<and> (\<exists>d. stamp C (no_created_at row) d) \<and> (\<exists>d. stamp C (no_updated_at row) d)
     \<and> sn_id n = no_id row \<and> sn_idempotency_key n = str_trim (no_idempotency_key row)
     \<and> sn_proposal_id n = no_proposal_id row \<and> sn_event_mapping_id n = no_event_mapping_id row
     \<and> sn_recipient n = no_recipient row \<and> sn_last_error_code n = no_last_error_code row
     \<and> sn_attempts n = no_attempts row \<and> sn_created_at n = no_created_at row \<and> sn_updated_at n = no_updated_at row"

lemma decode_notification_row_Inr:
  assumes "codec_reads_back C"
  shows "decode_notification_row C J row = Inr n \<longleftrightarrow> notification_row_decodes C J row n"
  unfolding decode_notification_row_def rbind_Inr_iff map_err_simps ok_or_simps idempotency_key_new_def non_blank_Inr
    validate_stored_reference_Inr links_check ensure_simps recipient_new_Inr stored_enum_iffs parse_stored_Inr[OF assms]
    parse_stored_option_Inr[OF assms] error_code_option_Inr metadata_timestamp_Inr[OF assms]
  by (cases n) (auto simp: notification_row_decodes_def)

section \<open>The invariant of the outbox\<close>

definition links_ok :: "db \<Rightarrow> int option \<Rightarrow> int option \<Rightarrow> bool" where
  "links_ok db p m \<longleftrightarrow> (\<forall>i. p = Some i \<longrightarrow> (\<exists>r \<in> set (proposals db). pr_id r = i))
     \<and> (\<forall>i. m = Some i \<longrightarrow> (\<exists>r. find (\<lambda>r. ev_id r = i) (event_mappings db) = Some r \<and> Some (ev_proposal_id r) = p))"

lemma stored_references_Inr:
  "validate_stored_notification_references n db = Inr u \<longleftrightarrow> links_ok db (sn_proposal_id n) (sn_event_mapping_id n)"
  by (cases "sn_proposal_id n"; cases "sn_event_mapping_id n")
    (auto simp: validate_stored_notification_references_def links_ok_def rbind_Inr_iff)

lemma references_Inr:
  "validate_notification_references p m k db = Inr u \<longleftrightarrow>
     positive_option p \<and> positive_option m \<and> links_shape k p m \<and> links_ok db p m"
  by (cases p; cases m)
    (auto simp: validate_notification_references_def positive_option_def links_shape_def links_ok_def rbind_Inr_iff
      split: if_splits)

lemma checked_notification_Inr:
  assumes "codec_reads_back C"
  shows "checked_notification C J db row = Inr n \<longleftrightarrow>
    notification_row_decodes C J row n \<and> links_ok db (no_proposal_id row) (no_event_mapping_id row)"
  by (auto simp: checked_notification_def rbind_Inr_iff stored_references_Inr decode_notification_row_Inr[OF assms]
      notification_row_decodes_def)

definition outbox_inv :: "codec \<Rightarrow> json \<Rightarrow> db \<Rightarrow> bool" where
  "outbox_inv C J db \<longleftrightarrow> codec_reads_back C \<and> json_ok J \<and> ids_ok no_id (notification_outbox db)
     \<and> distinct (map no_idempotency_key (notification_outbox db))
     \<and> (\<forall>row \<in> set (notification_outbox db). str_trim (no_idempotency_key row) = no_idempotency_key row
          \<and> (\<exists>n. checked_notification C J db row = Inr n))"

lemma references_outbox [simp]:
  "validate_stored_notification_references n (db\<lparr>notification_outbox := x\<rparr>) = validate_stored_notification_references n db"
  by (cases "sn_proposal_id n"; cases "sn_event_mapping_id n") (simp_all add: validate_stored_notification_references_def)

lemma checked_outbox [simp]: "checked_notification C J (db\<lparr>notification_outbox := x\<rparr>) row = checked_notification C J db row"
  by (simp add: checked_notification_def)

lemma decode_set_delivering:
  assumes "notification_row_decodes C J row n" "stamp C l d" "stamp C u v"
  shows "notification_row_decodes C J (set_delivering l u row)
    (n\<lparr>sn_status := NsDelivering, sn_attempts := sn_attempts n + 1, sn_lease_until := Some d, sn_sent_at := None,
       sn_last_error_code := None, sn_updated_at := u\<rparr>)"
  using assms by (auto simp: notification_row_decodes_def set_delivering_def delivery_shape_def)

lemma decode_set_sent:
  assumes "notification_row_decodes C J row n" "sn_status n = NsDelivering" "stamp C s d" "stamp C u v"
  shows "notification_row_decodes C J (set_sent s u row)
    (n\<lparr>sn_status := NsSent, sn_lease_until := None, sn_sent_at := Some d, sn_last_error_code := None, sn_updated_at := u\<rparr>)"
  using assms by (auto simp: notification_row_decodes_def set_sent_def delivery_shape_def)

lemma decode_set_pending:
  assumes "notification_row_decodes C J row n" "stamp C a d" "stamp C u v" "error_code_ok e"
  shows "notification_row_decodes C J (set_pending a e u row)
    (n\<lparr>sn_status := NsPending, sn_available_at := d, sn_lease_until := None, sn_sent_at := None,
       sn_last_error_code := Some e, sn_updated_at := u\<rparr>)"
  using assms by (auto simp: notification_row_decodes_def set_pending_def delivery_shape_def)

lemma outbox_set_simps [simp]:
  "no_id (set_delivering l u r) = no_id r" "no_idempotency_key (set_delivering l u r) = no_idempotency_key r"
  "no_proposal_id (set_delivering l u r) = no_proposal_id r" "no_event_mapping_id (set_delivering l u r) = no_event_mapping_id r"
  "no_id (set_sent s u r) = no_id r" "no_idempotency_key (set_sent s u r) = no_idempotency_key r"
  "no_proposal_id (set_sent s u r) = no_proposal_id r" "no_event_mapping_id (set_sent s u r) = no_event_mapping_id r"
  "no_id (set_pending a e u r) = no_id r" "no_idempotency_key (set_pending a e u r) = no_idempotency_key r"
  "no_proposal_id (set_pending a e u r) = no_proposal_id r" "no_event_mapping_id (set_pending a e u r) = no_event_mapping_id r"
  by (simp_all add: set_delivering_def set_sent_def set_pending_def)

text \<open>Replacing one row by an update that keeps its identity and decodes.\<close>

definition with_row :: "notification_row \<Rightarrow> (notification_row \<Rightarrow> notification_row) \<Rightarrow> db \<Rightarrow> db" where
  "with_row row f db = db\<lparr>notification_outbox := update_rows (\<lambda>r. no_id r = no_id row) f (notification_outbox db)\<rparr>"

lemma outbox_distinct: "outbox_inv C J db \<Longrightarrow> distinct (map no_id (notification_outbox db))"
  using ids_ok_distinct by (auto simp: outbox_inv_def)

lemma update_outbox_row:
  assumes "outbox_inv C J db" "row \<in> set (notification_outbox db)" "q row"
  shows "update_outbox (\<lambda>r. no_id r = no_id row \<and> q r) f db = (with_row row f db, 1)"
  using count_rows_key[OF outbox_distinct[OF assms(1)] assms(2), of q] assms(3)
    update_one[OF outbox_distinct[OF assms(1)] assms(2), of q]
  by (simp add: update_outbox_def with_row_def)

lemma with_row_inv:
  assumes inv: "outbox_inv C J db" and row: "row \<in> set (notification_outbox db)"
    and f: "\<And>r. no_id (f r) = no_id r" "\<And>r. no_idempotency_key (f r) = no_idempotency_key r"
      "checked_notification C J db (f row) = Inr n"
  shows "outbox_inv C J (with_row row f db)"
proof -
  have "\<forall>r \<in> set (update_rows (\<lambda>r. no_id r = no_id row) f (notification_outbox db)).
      str_trim (no_idempotency_key r) = no_idempotency_key r \<and> (\<exists>n. checked_notification C J db r = Inr n)"
    by (rule update_rows_all[OF outbox_distinct[OF inv] row]) (use inv row f(2,3) in \<open>auto simp: outbox_inv_def\<close>)
  then show ?thesis using inv f(1,2)
    by (simp add: outbox_inv_def with_row_def update_rows_key ids_ok_update)
qed

lemma find_outbox: "outbox_inv C J db \<Longrightarrow> row \<in> set (notification_outbox db) \<Longrightarrow>
    find (\<lambda>r. no_id r = no_id row) (notification_outbox db) = Some row"
  using find_unique[OF outbox_distinct] by blast

lemma load_with_row:
  assumes "outbox_inv C J db" "row \<in> set (notification_outbox db)" "\<And>r. no_id (f r) = no_id r"
  shows "load_notification_from_connection C J (no_id row) (with_row row f db) = checked_notification C J db (f row)"
  using find_outbox[OF assms(1,2)] find_update_rows[of no_id f, OF assms(3)]
  by (simp add: load_notification_from_connection_def with_row_def)


section \<open>Claims\<close>

definition deliver :: "int list \<Rightarrow> str \<Rightarrow> str \<Rightarrow> db \<Rightarrow> db" where
  "deliver ids l u db =
     db\<lparr>notification_outbox := update_rows (\<lambda>r. no_id r \<in> set ids) (set_delivering l u) (notification_outbox db)\<rparr>"

lemma deliver_with_row: "no_id row \<notin> set ids \<Longrightarrow>
    deliver ids l u (with_row row (set_delivering l u) db) = deliver (no_id row # ids) l u db"
  by (auto simp: deliver_def with_row_def update_rows_def)

lemma claim_rows_run:
  assumes "stamp C l d" "stamp C u v"
  shows "outbox_inv C J db \<Longrightarrow> distinct ids \<Longrightarrow> \<forall>i \<in> set ids. \<exists>r \<in> set (notification_outbox db). no_id r = i \<and> eligible k r \<Longrightarrow>
    \<exists>ns. claim_rows C J k l u ids db = Inr (deliver ids l u db, ns) \<and> outbox_inv C J (deliver ids l u db)
      \<and> list_all2 (\<lambda>i n. \<exists>r \<in> set (notification_outbox db). no_id r = i \<and> checked_notification C J db (set_delivering l u r) = Inr n) ids ns"
proof (induction ids arbitrary: db)
  case Nil
  then show ?case by (simp add: deliver_def update_rows_def)
next
  case (Cons i ids)
  let ?f = "set_delivering l u"
  have C: "codec_reads_back C" using Cons.prems(1) by (simp add: outbox_inv_def)
  obtain row where row: "row \<in> set (notification_outbox db)" "no_id row = i" "eligible k row" using Cons.prems(3) by auto
  obtain n where n: "checked_notification C J db row = Inr n" using Cons.prems(1) row(1) by (auto simp: outbox_inv_def)
  obtain n' where n': "checked_notification C J db (?f row) = Inr n'"
    using n decode_set_delivering[OF _ assms, of J row n] by (auto simp: checked_notification_Inr[OF C])
  have inv': "outbox_inv C J (with_row row ?f db)" using with_row_inv[OF Cons.prems(1) row(1), of ?f n'] n' by simp
  have rest: "\<forall>j \<in> set ids. \<exists>r \<in> set (notification_outbox (with_row row ?f db)). no_id r = j \<and> eligible k r"
  proof
    fix j assume j: "j \<in> set ids"
    then obtain r where r: "r \<in> set (notification_outbox db)" "no_id r = j" "eligible k r" using Cons.prems(3) by auto
    then have "no_id r \<noteq> no_id row" using Cons.prems(2) j row(2) by auto
    then have "r \<in> set (notification_outbox (with_row row ?f db))" using r(1) by (auto simp: with_row_def update_rows_def)
    then show "\<exists>r \<in> set (notification_outbox (with_row row ?f db)). no_id r = j \<and> eligible k r" using r by blast
  qed
  obtain ns where ns: "claim_rows C J k l u ids (with_row row ?f db) = Inr (deliver ids l u (with_row row ?f db), ns)"
    "outbox_inv C J (deliver ids l u (with_row row ?f db))"
    "list_all2 (\<lambda>i n. \<exists>r \<in> set (notification_outbox (with_row row ?f db)). no_id r = i
       \<and> checked_notification C J (with_row row ?f db) (?f r) = Inr n) ids ns"
    using Cons.IH[OF inv' _ rest] Cons.prems(2) by auto
  have other: "r \<in> set (notification_outbox db)"
    if "r \<in> set (notification_outbox (with_row row ?f db))" "no_id r \<noteq> i" for r
    using that row(2) by (auto simp: with_row_def update_rows_def split: if_splits)
  have chk: "checked_notification C J (with_row row ?f db) = checked_notification C J db"
    by (simp add: with_row_def fun_eq_iff)
  have "list_all2 (\<lambda>i n. \<exists>r \<in> set (notification_outbox db). no_id r = i \<and> checked_notification C J db (?f r) = Inr n) ids ns"
    by (rule list.rel_mono_strong[OF ns(3)]) (use other Cons.prems(2) chk in auto)
  moreover have "update_outbox (\<lambda>r. no_id r = i \<and> eligible k r) ?f db = (with_row row ?f db, 1)"
    using update_outbox_row[OF Cons.prems(1) row(1), of "eligible k" ?f] row(2,3) by simp
  moreover have "load_notification_from_connection C J i (with_row row ?f db) = Inr n'"
    using load_with_row[OF Cons.prems(1) row(1), of ?f] n' row(2) by simp
  moreover have "deliver ids l u (with_row row ?f db) = deliver (i # ids) l u db"
    using deliver_with_row[of row ids l u db] Cons.prems(2) row(2) by simp
  ultimately show ?case using ns(1,2) n' row(1,2) by auto
qed

lemma candidate_ids_ok:
  assumes "outbox_inv C J db"
  shows "distinct (candidate_ids k limit db)"
    and "i \<in> set (candidate_ids k limit db) \<Longrightarrow> \<exists>r \<in> set (notification_outbox db). no_id r = i \<and> eligible k r"
proof -
  have "distinct (map no_id (filter (eligible k) (notification_outbox db)))"
    by (rule distinct_map_filter[OF outbox_distinct[OF assms]])
  then show "distinct (candidate_ids k limit db)"
    unfolding candidate_ids_def take_map[symmetric] by (intro distinct_take) (simp add: distinct_map)
  show "i \<in> set (candidate_ids k limit db) \<Longrightarrow> \<exists>r \<in> set (notification_outbox db). no_id r = i \<and> eligible k r"
    unfolding candidate_ids_def using in_set_takeD by fastforce
qed

text \<open>The arguments that \<open>claim_notifications\<close> accepts, and the end of the lease.\<close>

definition claim_lease :: "codec \<Rightarrow> odt \<Rightarrow> nat \<Rightarrow> int \<Rightarrow> odt \<Rightarrow> odt \<Rightarrow> bool" where
  "claim_lease C now limit lease_duration clk lease \<longleftrightarrow> 0 < limit \<and> int limit \<le> i64_max \<and> 0 < lease_duration
     \<and> odt_checked_add_ns (to_utc now) lease_duration = Some lease
     \<and> (\<exists>s. stamp C s (to_utc now)) \<and> (\<exists>s. stamp C s lease) \<and> (\<exists>s. stamp C s clk)"

definition due_at :: "odt \<Rightarrow> stored_notification \<Rightarrow> bool" where
  "due_at now n \<longleftrightarrow>
     (sn_status n = NsPending \<and> instant_ns (sn_available_at n) \<le> instant_ns now)
     \<or> (sn_status n = NsDelivering \<and> (\<exists>l. sn_lease_until n = Some l \<and> instant_ns l \<le> instant_ns now))"

lemma sql_key_le: "codec_utc C \<Longrightarrow> stamp C s d \<Longrightarrow> stamp C r e \<Longrightarrow>
    notification_timestamp_comparison_sql s \<le> notification_timestamp_comparison_sql r \<longleftrightarrow> instant_ns d \<le> instant_ns e"
  using sql_key_less[of C r e s d] by (simp add: before_def linorder_not_less[symmetric])

lemma eligible_due:
  assumes "codec_utc C" "notification_row_decodes C J r n" "stamp C s now"
  shows "eligible (notification_timestamp_comparison_sql s) r \<longleftrightarrow> due_at now n"
proof -
  have st: "no_status r = lit ''pending'' \<longleftrightarrow> sn_status n = NsPending" "no_status r = lit ''delivering'' \<longleftrightarrow> sn_status n = NsDelivering"
    using assms(2) by (cases "sn_status n"; simp add: notification_row_decodes_def)+
  have "stamp C (no_available_at r) (sn_available_at n)" "stamp_option C (no_lease_until r) (sn_lease_until n)"
    using assms(2) by (simp_all add: notification_row_decodes_def)
  then show ?thesis
    using sql_key_le[OF assms(1) _ assms(3)] by (cases "no_lease_until r") (auto simp: eligible_def due_at_def st simp del: lit_simps)
qed

lemma claim_notifications_run:
  assumes C: "codec_utc C" and inv: "outbox_inv C J db" and args: "claim_lease C now limit L clk lease"
    and s: "stamp C s (to_utc now)" and l: "stamp C l lease" and u: "stamp C u clk"
  shows "\<exists>ns. claim_notifications C J now limit L clk db
      = (deliver (candidate_ids (notification_timestamp_comparison_sql s) limit db) l u db, Inr ns)
    \<and> outbox_inv C J (deliver (candidate_ids (notification_timestamp_comparison_sql s) limit db) l u db)
    \<and> list_all2 (\<lambda>i n. \<exists>r \<in> set (notification_outbox db). no_id r = i \<and> checked_notification C J db (set_delivering l u r) = Inr n)
        (candidate_ids (notification_timestamp_comparison_sql s) limit db) ns"
proof -
  have R: "format_offset_datetime C lease = Inr l" "format_offset_datetime C clk = Inr u"
    using l u by (simp_all add: format_offset_datetime_def stamp_def)
  have "format_notification_comparison_datetime C (to_utc now) = Inr (notification_timestamp_comparison_sql s)"
    by (rule keys_agree[OF C s])
  then show ?thesis
    using claim_rows_run[OF l u inv candidate_ids_ok(1)[OF inv], of "notification_timestamp_comparison_sql s" limit "notification_timestamp_comparison_sql s"]
      candidate_ids_ok(2)[OF inv] args R
    by (auto simp: claim_notifications_def run_tx_def normalize_notification_time_def claim_lease_def)
qed

lemma claim_notifications_args:
  assumes "claim_notifications C J now limit L clk db = (db', Inr ns)" "is_utc clk"
  obtains lease s l u where "claim_lease C now limit L clk lease" "stamp C s (to_utc now)" "stamp C l lease" "stamp C u clk"
proof -
  from assms(1) obtain lease k l u where x: "0 < limit" "int limit \<le> i64_max" "0 < L"
    "odt_checked_add_ns (to_utc now) L = Some lease" "format_notification_comparison_datetime C (to_utc now) = Inr k"
    "format_offset_datetime C lease = Inr l" "format_offset_datetime C clk = Inr u"
    by (auto simp: claim_notifications_def rbind_Inr_iff normalize_notification_time_def not_le)
  have "is_utc lease" using x(4) by (auto simp: odt_checked_add_ns_def Let_def is_utc_def split: if_splits)
  moreover obtain s where "rfc_format C (to_utc now) = Some s"
    using x(5) by (auto simp: format_notification_comparison_datetime_def rbind_Inr_iff normalize_notification_time_def
        format_offset_datetime_def)
  ultimately show thesis using that[of lease s l u] x assms(2)
    by (auto simp: claim_lease_def stamp_def format_offset_datetime_def)
qed


section \<open>The specification of the outbox\<close>

text \<open>
  The outbox as the list of its decoded notifications, and a claim on it: the due notifications,
  the earliest first and by id at the same instant, at most \<open>limit\<close> of them.
\<close>

definition outbox_view :: "codec \<Rightarrow> json \<Rightarrow> db \<Rightarrow> stored_notification list store_result" where
  "outbox_view C J db = rmap (checked_notification C J db) (notification_outbox db)"

definition claimed :: "odt \<Rightarrow> str \<Rightarrow> stored_notification \<Rightarrow> stored_notification" where
  "claimed lease u n = n\<lparr>sn_status := NsDelivering, sn_attempts := sn_attempts n + 1, sn_lease_until := Some lease,
     sn_sent_at := None, sn_last_error_code := None, sn_updated_at := u\<rparr>"

definition chosen :: "odt \<Rightarrow> nat \<Rightarrow> stored_notification list \<Rightarrow> stored_notification list" where
  "chosen now limit all =
     take limit (sort_key (\<lambda>n. (instant_ns (sn_available_at n), sn_id n)) (filter (due_at now) all))"

lemma insort_key_cong_le:
  fixes f :: "'a \<Rightarrow> 'b::linorder" and g :: "'a \<Rightarrow> 'c::linorder"
  shows "(\<And>y. y \<in> set xs \<Longrightarrow> f x \<le> f y \<longleftrightarrow> g x \<le> g y) \<Longrightarrow> insort_key f x xs = insort_key g x xs"
  by (induction xs) auto

lemma sort_key_cong_le:
  fixes f :: "'a \<Rightarrow> 'b::linorder" and g :: "'a \<Rightarrow> 'c::linorder"
  shows "(\<And>x y. x \<in> set xs \<Longrightarrow> y \<in> set xs \<Longrightarrow> f x \<le> f y \<longleftrightarrow> g x \<le> g y) \<Longrightarrow> sort_key f xs = sort_key g xs"
proof (induction xs)
  case Nil
  then show ?case by simp
next
  case (Cons x xs)
  then show ?case using insort_key_cong_le[of "sort_key g xs" f x g] by simp
qed

lemma insort_key_map: "insort_key g (D x) (map D xs) = map D (insort_key (\<lambda>x. g (D x)) x xs)"
  by (induction xs) auto

lemma sort_key_map: "sort_key g (map D xs) = map D (sort_key (\<lambda>x. g (D x)) xs)"
  by (induction xs) (simp_all add: insort_key_map)

lemma rmap_Inr_map: "rmap f xs = Inr ys \<Longrightarrow> ys = map (\<lambda>x. projr (f x)) xs"
  by (induction xs arbitrary: ys) (auto simp: rbind_Inr_iff)

lemma outbox_view_some:
  assumes "outbox_inv C J db"
  shows "\<exists>D. outbox_view C J db = Inr (map D (notification_outbox db))
    \<and> (\<forall>r \<in> set (notification_outbox db). checked_notification C J db r = Inr (D r))"
proof -
  obtain all where all: "outbox_view C J db = Inr all"
    using rmap_total[of "notification_outbox db" "checked_notification C J db"] assms
    by (auto simp: outbox_view_def outbox_inv_def)
  show ?thesis
    using all rmap_Inr_map[OF all[unfolded outbox_view_def]] assms
    by (intro exI[of _ "\<lambda>r. projr (checked_notification C J db r)"]) (fastforce simp: outbox_inv_def)
qed

lemma map_key_inj: "distinct (map k xs) \<Longrightarrow> x \<in> set xs \<Longrightarrow> y \<in> set xs \<Longrightarrow> D x = D y \<Longrightarrow> (\<And>z. z \<in> set xs \<Longrightarrow> k' (D z) = k z) \<Longrightarrow> x = y"
  using distinct_map_unique by metis

lemma decodes_id: "notification_row_decodes C J r n \<Longrightarrow> sn_id n = no_id r"
  unfolding notification_row_decodes_def by (elim conjE) assumption

text \<open>The rows a claim selects are the notifications of the specification, in its order.\<close>

lemma candidates_chosen:
  assumes C: "codec_utc C" "codec_reads_back C" and s: "stamp C s now"
    and D: "\<And>r. r \<in> set (notification_outbox db) \<Longrightarrow> checked_notification C J db r = Inr (D r)"
  shows "candidate_ids (notification_timestamp_comparison_sql s) limit db
      = map sn_id (chosen now limit (map D (notification_outbox db)))"
proof -
  let ?rows = "notification_outbox db"
  have d: "notification_row_decodes C J r (D r)" if "r \<in> set ?rows" for r
    using D[OF that] by (simp add: checked_notification_Inr[OF C(2)])
  have f: "filter (eligible (notification_timestamp_comparison_sql s)) ?rows = filter (\<lambda>r. due_at now (D r)) ?rows" (is "_ = ?due")
    by (rule filter_cong[OF refl]) (simp add: eligible_due[OF C(1) d s])
  have le: "(notification_timestamp_comparison_sql (no_available_at r), no_id r)
        \<le> (notification_timestamp_comparison_sql (no_available_at q), no_id q)
      \<longleftrightarrow> (instant_ns (sn_available_at (D r)), sn_id (D r)) \<le> (instant_ns (sn_available_at (D q)), sn_id (D q))"
    if "r \<in> set ?due" "q \<in> set ?due" for r q
  proof -
    have rq: "notification_row_decodes C J r (D r)" "notification_row_decodes C J q (D q)" using d that by auto
    then have st: "stamp C (no_available_at r) (sn_available_at (D r))" "stamp C (no_available_at q) (sn_available_at (D q))"
      by (simp_all add: notification_row_decodes_def)
    have ids: "sn_id (D r) = no_id r" "sn_id (D q) = no_id q" using rq decodes_id by blast+
    have "notification_timestamp_comparison_sql (no_available_at r) < notification_timestamp_comparison_sql (no_available_at q)
        \<longleftrightarrow> instant_ns (sn_available_at (D r)) < instant_ns (sn_available_at (D q))"
      using sql_key_less[OF C(1) st] by (simp add: before_def)
    then show ?thesis using sql_key_le[OF C(1) st] ids by auto
  qed
  have so: "sort_key (\<lambda>r. (notification_timestamp_comparison_sql (no_available_at r), no_id r)) ?due
      = sort_key (\<lambda>r. (instant_ns (sn_available_at (D r)), sn_id (D r))) ?due"
    by (rule sort_key_cong_le) (rule le)
  let ?sorted = "take limit (sort_key (\<lambda>r. (instant_ns (sn_available_at (D r)), sn_id (D r))) ?due)"
  have ch: "chosen now limit (map D ?rows) = map D ?sorted"
    unfolding chosen_def filter_map comp_def sort_key_map take_map ..
  have ids: "no_id r = (sn_id \<circ> D) r" if "r \<in> set ?sorted" for r
  proof -
    have "r \<in> set ?rows" using in_set_takeD[OF that] by simp
    then show ?thesis using decodes_id[OF d] by (simp only: comp_apply)
  qed
  have "map no_id ?sorted = map sn_id (map D ?sorted)" unfolding map_map by (rule map_cong[OF refl ids])
  then show ?thesis unfolding candidate_ids_def f so ch .
qed

lemma view_deliver:
  assumes C: "codec_reads_back C" and st: "stamp C l lease" "stamp C u v"
    and D: "\<And>r. r \<in> set (notification_outbox db) \<Longrightarrow> checked_notification C J db r = Inr (D r)"
  shows "outbox_view C J (deliver ids l u db)
    = Inr (map (\<lambda>n. if sn_id n \<in> set ids then claimed lease u n else n) (map D (notification_outbox db)))"
proof -
  let ?rows = "notification_outbox db"
  have chk: "checked_notification C J (deliver ids l u db) = checked_notification C J db"
    by (simp add: deliver_def fun_eq_iff)
  have row: "checked_notification C J db (if no_id r \<in> set ids then set_delivering l u r else r)
      = Inr (if sn_id (D r) \<in> set ids then claimed lease u (D r) else D r)" if "r \<in> set ?rows" for r
  proof -
    have d: "notification_row_decodes C J r (D r)" "links_ok db (no_proposal_id r) (no_event_mapping_id r)"
      using D[OF that] by (simp_all add: checked_notification_Inr[OF C])
    moreover have "checked_notification C J db (set_delivering l u r) = Inr (claimed lease u (D r))"
      using decode_set_delivering[OF d(1) st] d(2) by (simp add: checked_notification_Inr[OF C] claimed_def)
    ultimately show ?thesis using D[OF that] decodes_id[OF d(1)] by simp
  qed
  show ?thesis unfolding outbox_view_def chk rmap_Inr_iff
    by (auto simp: deliver_def update_rows_def list_all2_conv_all_nth row)
qed

lemma deliver_claimed:
  assumes C: "codec_reads_back C" and st: "stamp C l lease" "stamp C u v"
    and D: "\<And>r. r \<in> set (notification_outbox db) \<Longrightarrow> checked_notification C J db r = Inr (D r)"
    and ns: "list_all2 (\<lambda>i n. \<exists>r \<in> set (notification_outbox db). no_id r = i
       \<and> checked_notification C J db (set_delivering l u r) = Inr n) (map sn_id xs) ns"
    and xs: "set xs \<subseteq> D ` set (notification_outbox db)" and dist: "distinct (map no_id (notification_outbox db))"
  shows "ns = map (claimed lease u) xs"
  using ns xs
proof (induction xs arbitrary: ns)
  case Nil
  then show ?case by simp
next
  case (Cons x xs)
  then obtain n ns' r where n: "ns = n # ns'" "r \<in> set (notification_outbox db)" "no_id r = sn_id x"
    "checked_notification C J db (set_delivering l u r) = Inr n" by (auto simp: list_all2_Cons1)
  obtain q where q: "q \<in> set (notification_outbox db)" "x = D q" using Cons.prems(2) by auto
  have d: "notification_row_decodes C J q (D q)" "links_ok db (no_proposal_id q) (no_event_mapping_id q)"
    using D[OF q(1)] by (simp_all add: checked_notification_Inr[OF C])
  then have "no_id r = no_id q" using n(3) q(2) decodes_id[OF d(1)] by simp
  then have "r = q" using distinct_map_unique[OF dist n(2) q(1)] by simp
  then have "n = claimed lease u x"
    using n(4) q(2) decode_set_delivering[OF d(1) st] d(2)
    by (simp add: checked_notification_Inr[OF C] claimed_def) (metis C Inr_inject decode_notification_row_Inr)
  then show ?case using Cons n(1) by (simp add: list_all2_Cons1)
qed

lemma view_ids_distinct:
  assumes "outbox_inv C J db" "outbox_view C J db = Inr all"
  shows "distinct (map sn_id all)"
proof -
  have C: "codec_reads_back C" using assms(1) by (simp add: outbox_inv_def)
  have "map sn_id all = map no_id (notification_outbox db)"
    using assms(2) unfolding outbox_view_def rmap_Inr_iff checked_notification_Inr[OF C]
    by (induction rule: list_all2_induct) (auto simp: decodes_id)
  then show ?thesis using outbox_distinct[OF assms(1)] by simp
qed

lemma claim_run_view:
  assumes C: "codec_utc C" and inv: "outbox_inv C J db" and args: "claim_lease C now limit L clk lease"
    and all: "outbox_view C J db = Inr all"
  shows "\<exists>db' u. rfc_format C clk = Some u
      \<and> claim_notifications C J now limit L clk db = (db', Inr (map (claimed lease u) (chosen (to_utc now) limit all)))
      \<and> outbox_inv C J db'
      \<and> outbox_view C J db' =
          Inr (map (\<lambda>n. if n \<in> set (chosen (to_utc now) limit all) then claimed lease u n else n) all)"
proof -
  obtain s l u where st: "stamp C s (to_utc now)" "stamp C l lease" "stamp C u clk"
    using args by (auto simp: claim_lease_def)
  have R: "codec_reads_back C" using inv by (simp add: outbox_inv_def)
  obtain D where D: "outbox_view C J db = Inr (map D (notification_outbox db))"
    "\<And>r. r \<in> set (notification_outbox db) \<Longrightarrow> checked_notification C J db r = Inr (D r)"
    using outbox_view_some[OF inv] by blast
  have a: "all = map D (notification_outbox db)" using D(1) all by simp
  let ?x = "chosen (to_utc now) limit all"
  note ids = candidates_chosen[OF C R st(1) D(2), of limit, folded a]
  obtain ns where ns: "claim_notifications C J now limit L clk db = (deliver (map sn_id ?x) l u db, Inr ns)"
    "outbox_inv C J (deliver (map sn_id ?x) l u db)"
    "list_all2 (\<lambda>i n. \<exists>r \<in> set (notification_outbox db). no_id r = i
       \<and> checked_notification C J db (set_delivering l u r) = Inr n) (map sn_id ?x) ns"
    using claim_notifications_run[OF C inv args st] ids by auto
  have sub: "set ?x \<subseteq> set all" unfolding chosen_def using set_take_subset by fastforce
  have "ns = map (claimed lease u) ?x"
    by (rule deliver_claimed[OF R st(2,3) D(2) ns(3) _ outbox_distinct[OF inv]]) (use sub a in auto)
  moreover have "sn_id n \<in> set (map sn_id ?x) \<longleftrightarrow> n \<in> set ?x" if "n \<in> set all" for n
    using distinct_map_unique[OF view_ids_distinct[OF inv all]] that sub by auto
  then have "map (\<lambda>n. if sn_id n \<in> set (map sn_id ?x) then claimed lease u n else n) all
      = map (\<lambda>n. if n \<in> set ?x then claimed lease u n else n) all" by simp
  moreover note view_deliver[OF R st(2,3) D(2), of "map sn_id ?x"]
  ultimately show ?thesis using ns(1,2) st(3) a by (auto simp: stamp_def)
qed

section \<open>The life cycle of one notification\<close>

datatype outbox_op =
  Enqueue notification_request
| Claim odt nat int
| Sent int int odt
| Reschedule int int odt str
| Remove int

text \<open>What an operation may do to a notification that it does not remove.\<close>

inductive life :: "outbox_op \<Rightarrow> stored_notification \<Rightarrow> stored_notification \<Rightarrow> bool" where
  idle: "life op n n"
| claim: "due_at (to_utc now) n \<Longrightarrow> instant_ns lease = instant_ns now + L \<Longrightarrow> 0 < L \<Longrightarrow>
    life (Claim now limit L) n (claimed lease u n)"
| sent: "sn_status n = NsDelivering \<Longrightarrow>
    life (Sent (sn_id n) (sn_attempts n) t) n
      (n\<lparr>sn_status := NsSent, sn_lease_until := None, sn_sent_at := Some (to_utc t), sn_last_error_code := None,
         sn_updated_at := u\<rparr>)"
| pending: "sn_status n = NsDelivering \<Longrightarrow>
    life (Reschedule (sn_id n) (sn_attempts n) t e) n
      (n\<lparr>sn_status := NsPending, sn_available_at := to_utc t, sn_lease_until := None, sn_sent_at := None,
         sn_last_error_code := Some e, sn_updated_at := u\<rparr>)"

inductive_cases life_claimE: "life (Claim now limit L) n n'"
inductive_cases life_sentE: "life (Sent i a t) n n'"
inductive_cases life_rescheduleE: "life (Reschedule i a t e) n n'"
inductive_cases life_enqueueE: "life (Enqueue rq) n n'"

text \<open>A successful operation, at the clock reading \<open>clk\<close>, which is in UTC.\<close>

inductive outbox_step :: "codec \<Rightarrow> json \<Rightarrow> outbox_op \<Rightarrow> db \<Rightarrow> db \<Rightarrow> bool" for C J where
  enqueue: "is_utc clk \<Longrightarrow> enqueue_notification C J rq clk db = (db', Inr n) \<Longrightarrow> outbox_step C J (Enqueue rq) db db'"
| claim: "is_utc clk \<Longrightarrow> claim_notifications C J now limit L clk db = (db', Inr ns) \<Longrightarrow>
    outbox_step C J (Claim now limit L) db db'"
| sent: "is_utc clk \<Longrightarrow> mark_notification_sent C J i a t clk db = (db', Inr n) \<Longrightarrow> outbox_step C J (Sent i a t) db db'"
| reschedule: "is_utc clk \<Longrightarrow> reschedule_notification C J i a t e clk db = (db', Inr n) \<Longrightarrow>
    outbox_step C J (Reschedule i a t e) db db'"
| removed: "delete_notification_by_id i db = (db', Inr v) \<Longrightarrow> outbox_step C J (Remove i) db db'"

lemma checked_id: "codec_reads_back C \<Longrightarrow> checked_notification C J db r = Inr n \<Longrightarrow> sn_id n = no_id r"
  using decodes_id by (auto simp: checked_notification_Inr)

lemma load_iff:
  assumes "outbox_inv C J db"
  shows "load_notification_from_connection C J i db = Inr n \<longleftrightarrow>
    (\<exists>row \<in> set (notification_outbox db). no_id row = i \<and> checked_notification C J db row = Inr n)"
proof -
  have "find (\<lambda>r. no_id r = i) (notification_outbox db) = Some row \<longleftrightarrow> row \<in> set (notification_outbox db) \<and> no_id row = i" for row
    using find_outbox[OF assms] by (auto dest: find_Some_mem)
  then show ?thesis by (auto simp: load_notification_from_connection_def rbind_Inr_iff)
qed

lemma load_view:
  assumes "outbox_inv C J db" "outbox_view C J db = Inr all"
  shows "load_notification_from_connection C J i db = Inr n \<longleftrightarrow> n \<in> set all \<and> sn_id n = i"
proof -
  have C: "codec_reads_back C" using assms(1) by (simp add: outbox_inv_def)
  note l2 = assms(2)[unfolded outbox_view_def rmap_Inr_iff]
  have "(\<exists>row \<in> set (notification_outbox db). no_id row = i \<and> checked_notification C J db row = Inr n) \<longleftrightarrow> n \<in> set all \<and> sn_id n = i"
    using l2 by (induction rule: list_all2_induct) (auto dest: checked_id[OF C])
  then show ?thesis using load_iff[OF assms(1)] by simp
qed

lemma checked_with_row: "checked_notification C J (with_row row f db) = checked_notification C J db"
  by (simp add: with_row_def fun_eq_iff)

lemma load_with_row_other:
  assumes "j \<noteq> no_id row" "\<And>r. no_id (f r) = no_id r"
  shows "load_notification_from_connection C J j (with_row row f db) = load_notification_from_connection C J j db"
proof -
  have "find (\<lambda>r. no_id r = j) (update_rows (\<lambda>r. no_id r = no_id row) f (notification_outbox db))
      = find (\<lambda>r. no_id r = j) (notification_outbox db)"
    using find_update_rows[of no_id f, OF assms(2), of j "\<lambda>r. no_id r = no_id row" "notification_outbox db"] assms(1)
    by (cases "find (\<lambda>r. no_id r = j) (notification_outbox db)") (auto dest: find_Some_mem)
  then show ?thesis unfolding load_notification_from_connection_def checked_with_row by (simp add: with_row_def)
qed

text \<open>The guarded update by which a worker completes its own attempt.\<close>

lemma owned_update:
  assumes inv: "outbox_inv C J db" and n: "load_notification_from_connection C J i db = Inr n"
    and own: "sn_status n = NsDelivering" "sn_attempts n = a"
  obtains row where "row \<in> set (notification_outbox db)" "no_id row = i" "notification_row_decodes C J row n"
    "links_ok db (no_proposal_id row) (no_event_mapping_id row)"
    "\<And>f. update_outbox (owns i a) f db = (with_row row f db, 1)"
proof -
  have C: "codec_reads_back C" using inv by (simp add: outbox_inv_def)
  obtain row where row: "row \<in> set (notification_outbox db)" "no_id row = i" "checked_notification C J db row = Inr n"
    using n load_iff[OF inv] by auto
  have d: "notification_row_decodes C J row n" "links_ok db (no_proposal_id row) (no_event_mapping_id row)"
    using row(3) by (simp_all add: checked_notification_Inr[OF C])
  have q: "no_status row = lit ''delivering'' \<and> no_attempts row = a"
    using d(1) own by (simp add: notification_row_decodes_def)
  have "update_outbox (owns i a) f db = (with_row row f db, 1)" for f
    using update_outbox_row[OF inv row(1), of "\<lambda>r. no_status r = lit ''delivering'' \<and> no_attempts r = a" f] q row(2)
    unfolding owns_def by simp
  then show thesis using that row d by blast
qed

lemma sent_run:
  assumes inv: "outbox_inv C J db" and run: "mark_notification_sent C J i a t clk db = (db', Inr n')" and clk: "is_utc clk"
  obtains "db' = db" "load_notification_from_connection C J i db = Inr n'" "sn_status n' = NsSent"
  | row n s u where "row \<in> set (notification_outbox db)" "no_id row = i" "notification_row_decodes C J row n"
    "links_ok db (no_proposal_id row) (no_event_mapping_id row)" "sn_status n = NsDelivering" "sn_attempts n = a"
    "load_notification_from_connection C J i db = Inr n" "stamp C s (to_utc t)" "stamp C u clk"
    "db' = with_row row (set_sent s u) db" "load_notification_from_connection C J i db' = Inr n'"
proof -
  obtain s u n where x: "rfc_format C (to_utc t) = Some s" "rfc_format C clk = Some u"
    "load_notification_from_connection C J i db = Inr n"
    "(if sn_status n = NsSent \<and> sn_attempts n = a \<and> same_time (sn_sent_at n) (Some (to_utc t)) then Inr (db, n)
      else if sn_status n \<noteq> NsDelivering \<or> sn_attempts n \<noteq> a then Inl (CursorConflict ''notification'')
      else (let (db', updated) = update_outbox (owns i a) (set_sent s u) db in
             if updated \<noteq> 1 then Inl (CursorConflict ''notification'')
             else rbind (load_notification_from_connection C J i db') (\<lambda>sent. Inr (db', sent)))) = Inr (db', n')"
    using run by (auto simp: mark_notification_sent_def rbind_Inr_iff normalize_notification_time_def format_offset_datetime_def)
  have st: "stamp C s (to_utc t)" "stamp C u clk" using x(1,2) clk by (simp_all add: stamp_def)
  show thesis
  proof (cases "sn_status n = NsDelivering \<and> sn_attempts n = a")
    case False
    then show thesis using x that(1) by (auto split: if_splits)
  next
    case True
    then obtain row where row: "row \<in> set (notification_outbox db)" "no_id row = i" "notification_row_decodes C J row n"
      "links_ok db (no_proposal_id row) (no_event_mapping_id row)" "\<And>f. update_outbox (owns i a) f db = (with_row row f db, 1)"
      using owned_update[OF inv x(3)] by blast
    then show thesis using x True that(2)[OF row(1-4) _ _ x(3) st] by (auto simp: rbind_Inr_iff)
  qed
qed

lemma reschedule_run:
  assumes inv: "outbox_inv C J db" and run: "reschedule_notification C J i a t e clk db = (db', Inr n')" and clk: "is_utc clk"
  obtains row n s u where "row \<in> set (notification_outbox db)" "no_id row = i" "notification_row_decodes C J row n"
    "links_ok db (no_proposal_id row) (no_event_mapping_id row)" "sn_status n = NsDelivering" "sn_attempts n = a"
    "load_notification_from_connection C J i db = Inr n" "stamp C s (to_utc t)" "stamp C u clk" "error_code_ok e"
    "db' = with_row row (set_pending s e u) db" "load_notification_from_connection C J i db' = Inr n'"
proof -
  obtain s u n where x: "rfc_format C (to_utc t) = Some s" "rfc_format C clk = Some u" "error_code_ok e"
    "load_notification_from_connection C J i db = Inr n" "sn_status n = NsDelivering" "sn_attempts n = a"
    "(let (db', updated) = update_outbox (owns i a) (set_pending s e u) db in
             if updated \<noteq> 1 then Inl (CursorConflict ''notification'')
             else rbind (load_notification_from_connection C J i db') (\<lambda>sent. Inr (db', sent))) = Inr (db', n')"
    using run by (auto simp: reschedule_notification_def rbind_Inr_iff normalize_notification_time_def
        format_offset_datetime_def validate_notification_error_code_Inr split: if_splits)
  have st: "stamp C s (to_utc t)" "stamp C u clk" using x(1,2) clk by (simp_all add: stamp_def)
  obtain row where row: "row \<in> set (notification_outbox db)" "no_id row = i" "notification_row_decodes C J row n"
      "links_ok db (no_proposal_id row) (no_event_mapping_id row)" "\<And>f. update_outbox (owns i a) f db = (with_row row f db, 1)"
      using owned_update[OF inv x(4-6)] by blast
  then show thesis using x that[OF row(1-4) x(5,6,4) st x(3)] by (auto simp: rbind_Inr_iff)
qed

lemma enqueue_run:
  assumes inv: "outbox_inv C J db" and run: "enqueue_notification C J rq clk db = (db', Inr n)"
  obtains (retry) row where "db' = db" "row \<in> set (notification_outbox db)" "checked_notification C J db row = Inr n"
    "no_idempotency_key row = str_trim (nq_idempotency_key rq)" "exact_notification rq (to_utc (nq_available_at rq)) n"
  | (new) p s u row where "row = new_notification_row rq (str_trim (nq_idempotency_key rq)) p s u db"
    "rfc_format C (to_utc (nq_available_at rq)) = Some s" "js_write J (nq_template_data rq) = Some p"
    "db' = db\<lparr>notification_outbox := notification_outbox db @ [row]\<rparr>" "checked_notification C J db row = Inr n"
    "\<forall>r \<in> set (notification_outbox db). no_idempotency_key r \<noteq> str_trim (nq_idempotency_key rq)"
proof -
  let ?key = "str_trim (nq_idempotency_key rq)"
  obtain s u p where x: "rfc_format C (to_utc (nq_available_at rq)) = Some s" "js_write J (nq_template_data rq) = Some p"
    "(case find (\<lambda>r. no_idempotency_key r = ?key) (notification_outbox db) of
         None \<Rightarrow>
           (let row = new_notification_row rq ?key p s u db;
                db' = db\<lparr>notification_outbox := notification_outbox db @ [row]\<rparr>
            in rbind (checked_notification C J db' row) (\<lambda>stored. Inr (db', stored)))
       | Some row \<Rightarrow>
           rbind (checked_notification C J db row) (\<lambda>stored.
             if exact_notification rq (to_utc (nq_available_at rq)) stored then Inr (db, stored)
             else Inl (Conflict ''notification''))) = Inr (db', n)"
    using run by (auto simp: enqueue_notification_def rbind_Inr_iff normalize_notification_time_def
        format_offset_datetime_def idempotency_key_new_def non_blank_Inr)
  show thesis
  proof (cases "find (\<lambda>r. no_idempotency_key r = ?key) (notification_outbox db)")
    case None
    then have "\<forall>r \<in> set (notification_outbox db). no_idempotency_key r \<noteq> ?key" by (auto simp: find_None_iff)
    then show thesis using x(3) None new[OF refl x(1,2), of u] by (auto simp: rbind_Inr_iff Let_def)
  next
    case (Some row)
    then show thesis using x(3) find_Some_mem[OF Some] retry[of row] by (auto simp: rbind_Inr_iff split: if_splits)
  qed
qed

lemma update_keeps_loads:
  assumes inv: "outbox_inv C J db" and row: "row \<in> set (notification_outbox db)" "no_id row = i"
    and f: "\<And>r. no_id (f r) = no_id r" "\<And>r. no_idempotency_key (f r) = no_idempotency_key r"
    and d: "notification_row_decodes C J (f row) n'" "links_ok db (no_proposal_id (f row)) (no_event_mapping_id (f row))"
  shows "outbox_inv C J (with_row row f db)"
    and "load_notification_from_connection C J j (with_row row f db) =
      (if j = i then Inr n' else load_notification_from_connection C J j db)"
proof -
  have C: "codec_reads_back C" using inv by (simp add: outbox_inv_def)
  have ch: "checked_notification C J db (f row) = Inr n'" using d by (simp add: checked_notification_Inr[OF C])
  show "outbox_inv C J (with_row row f db)" by (rule with_row_inv[OF inv row(1) f ch])
  show "load_notification_from_connection C J j (with_row row f db) =
      (if j = i then Inr n' else load_notification_from_connection C J j db)"
    using load_with_row[OF inv row(1), of f] load_with_row_other[of j row f] f(1) ch row(2) by auto
qed

lemma load_id: "outbox_inv C J db \<Longrightarrow> load_notification_from_connection C J i db = Inr n \<Longrightarrow> sn_id n = i"
  using load_iff checked_id by (fastforce simp: outbox_inv_def)

text \<open>Every operation keeps the invariant, and does to a stored notification what \<open>life\<close> allows.\<close>

lemma enqueue_step:
  assumes inv: "outbox_inv C J db" and run: "enqueue_notification C J rq clk db = (db', Inr m)"
  shows "outbox_inv C J db' \<and> (\<forall>i n. load_notification_from_connection C J i db = Inr n \<longrightarrow> load_notification_from_connection C J i db' = Inr n)"
  using inv run
proof (cases rule: enqueue_run)
  case retry
  then show ?thesis using inv by simp
next
  case (new p s u row)
  have id: "no_id row = next_id no_id (notification_outbox db)" "no_idempotency_key row = str_trim (nq_idempotency_key rq)"
    using new(1) by (simp_all add: new_notification_row_def)
  have "outbox_inv C J db'"
    using inv new(3-6) id ids_ok_insert[of no_id "notification_outbox db" row]
    by (auto simp: outbox_inv_def image_iff)
  then show ?thesis using load_iff[OF inv] load_iff[of C J db'] new(4) by auto
qed

lemma sent_step:
  assumes inv: "outbox_inv C J db" and run: "mark_notification_sent C J i a t clk db = (db', Inr m)" and clk: "is_utc clk"
  shows "outbox_inv C J db' \<and> (\<forall>j n. load_notification_from_connection C J j db = Inr n \<longrightarrow>
    (\<exists>n'. load_notification_from_connection C J j db' = Inr n' \<and> life (Sent i a t) n n'))"
  using inv run clk
proof (cases rule: sent_run)
  case 1
  then show ?thesis using inv by (auto intro: life.idle)
next
  case (2 row n s u)
  have C: "codec_reads_back C" using inv by (simp add: outbox_inv_def)
  note up = update_keeps_loads[OF inv 2(1,2), of "set_sent s u", OF _ _ decode_set_sent[OF 2(3,5,8,9)]]
  have "life (Sent i a t) n (n\<lparr>sn_status := NsSent, sn_lease_until := None, sn_sent_at := Some (to_utc t),
      sn_last_error_code := None, sn_updated_at := u\<rparr>)"
    using life.sent[OF 2(5), of t u] 2(6) load_id[OF inv 2(7)] by simp
  then show ?thesis using up 2(4,7,10) by (auto intro: life.idle)
qed

lemma reschedule_step:
  assumes inv: "outbox_inv C J db" and run: "reschedule_notification C J i a t e clk db = (db', Inr m)" and clk: "is_utc clk"
  shows "outbox_inv C J db' \<and> (\<forall>j n. load_notification_from_connection C J j db = Inr n \<longrightarrow>
    (\<exists>n'. load_notification_from_connection C J j db' = Inr n' \<and> life (Reschedule i a t e) n n'))"
  using inv run clk
proof (cases rule: reschedule_run)
  case (1 row n s u)
  note up = update_keeps_loads[OF inv 1(1,2), of "set_pending s e u", OF _ _ decode_set_pending[OF 1(3,8,9,10)]]
  have "life (Reschedule i a t e) n (n\<lparr>sn_status := NsPending, sn_available_at := to_utc t, sn_lease_until := None,
      sn_sent_at := None, sn_last_error_code := Some e, sn_updated_at := u\<rparr>)"
    using life.pending[OF 1(5), of t e u] 1(6) load_id[OF inv 1(7)] by simp
  then show ?thesis using up 1(4,7,11) by (auto intro: life.idle)
qed

lemma claim_step:
  assumes C: "codec_utc C" and inv: "outbox_inv C J db" and clk: "is_utc clk"
    and run: "claim_notifications C J now limit L clk db = (db', Inr ns)"
  shows "outbox_inv C J db' \<and> (\<forall>j n. load_notification_from_connection C J j db = Inr n \<longrightarrow>
    (\<exists>n'. load_notification_from_connection C J j db' = Inr n' \<and> life (Claim now limit L) n n'))"
proof -
  obtain lease where args: "claim_lease C now limit L clk lease" using claim_notifications_args[OF run clk] by blast
  obtain all where all: "outbox_view C J db = Inr all" using outbox_view_some[OF inv] by blast
  obtain u where u: "outbox_inv C J db'"
    "outbox_view C J db' = Inr (map (\<lambda>n. if n \<in> set (chosen (to_utc now) limit all) then claimed lease u n else n) all)"
    using claim_run_view[OF C inv args all] run by auto
  have lease: "instant_ns lease = instant_ns now + L" "0 < L"
    using args by (auto simp: claim_lease_def odt_checked_add_ns_def Let_def split: if_splits)
  have due: "due_at (to_utc now) n" if "n \<in> set (chosen (to_utc now) limit all)" for n
    using in_set_takeD[OF that[unfolded chosen_def]] by simp
  have "\<exists>n'. load_notification_from_connection C J j db' = Inr n' \<and> life (Claim now limit L) n n'"
    if "load_notification_from_connection C J j db = Inr n" for j n
  proof -
    let ?n = "if n \<in> set (chosen (to_utc now) limit all) then claimed lease u n else n"
    have "n \<in> set all" "sn_id n = j" using that load_view[OF inv all] by auto
    then have "load_notification_from_connection C J j db' = Inr ?n"
      using load_view[OF u, of j ?n] by (auto simp: claimed_def)
    moreover have "life (Claim now limit L) n ?n" using due lease by (auto intro: life.idle life.claim)
    ultimately show ?thesis by blast
  qed
  then show ?thesis using u(1) by blast
qed

lemma remove_step:
  assumes inv: "outbox_inv C J db" and run: "delete_notification_by_id i db = (db', Inr v)"
  shows "outbox_inv C J db' \<and> (\<forall>j n. i \<noteq> j \<longrightarrow> load_notification_from_connection C J j db = Inr n \<longrightarrow>
    load_notification_from_connection C J j db' = Inr n)"
proof -
  have db': "db' = db\<lparr>notification_outbox := filter (\<lambda>r. no_id r \<noteq> i) (notification_outbox db)\<rparr>"
    using run by (auto simp: delete_notification_by_id_def split: if_splits)
  have "outbox_inv C J db'"
    using inv by (auto simp: outbox_inv_def ids_ok_def db' distinct_map_filter sorted_wrt_map intro: sorted_wrt_filter)
  then show ?thesis using load_iff[OF inv] load_iff[of C J db'] db' by auto
qed

lemma outbox_step_life:
  assumes C: "codec_utc C"
  shows "outbox_step C J op db db' \<Longrightarrow> outbox_inv C J db \<Longrightarrow> outbox_inv C J db' \<and>
    (\<forall>j n. op \<noteq> Remove j \<longrightarrow> load_notification_from_connection C J j db = Inr n \<longrightarrow>
      (\<exists>n'. load_notification_from_connection C J j db' = Inr n' \<and> life op n n'))"
proof (induction rule: outbox_step.induct)
  case (enqueue clk rq db db' n)
  then show ?case using enqueue_step by (blast intro: life.idle)
next
  case (claim clk now limit L db db' ns)
  then show ?case using claim_step[OF C] by blast
next
  case (sent clk i a t db db' n)
  then show ?case using sent_step by blast
next
  case (reschedule clk i a t e db db' n)
  then show ?case using reschedule_step by blast
next
  case (removed i db db' v)
  then show ?case using remove_step by (blast intro: life.idle)
qed

end
