(* ===== verification/Outbox_Runs.thy ===== *)
theory Outbox_Runs
  imports Store_Notifications
begin

text \<open>
  The notification outbox over time: runs of its operations, \<open>delete_notification_by_id\<close> included
  (\<open>outbox_path\<close>; deletions that cascade from a proposal or an event mapping are no steps), simulate the life cycle
  of each notification, and the properties of leases, attempt numbers, retries and listings follow
  from that. The last sections build the small outbox on which the witnesses evaluate them.
\<close>

section \<open>Runs of the outbox\<close>

text \<open>Any interleaving of successful operations that satisfy \<open>P\<close>.\<close>

definition outbox_path :: "codec \<Rightarrow> json \<Rightarrow> (outbox_op \<Rightarrow> bool) \<Rightarrow> db \<Rightarrow> db \<Rightarrow> bool" where
  "outbox_path C J P = (\<lambda>db db'. \<exists>op. P op \<and> outbox_step C J op db db')\<^sup>*\<^sup>*"

lemma outbox_path_life:
  assumes C: "codec_utc C" and inv: "outbox_inv C J db" and path: "outbox_path C J P db db'"
  shows "outbox_inv C J db' \<and> (\<not> P (Remove j) \<longrightarrow> load_notification_from_connection C J j db = Inr n \<longrightarrow>
    (\<exists>n'. load_notification_from_connection C J j db' = Inr n' \<and> (\<lambda>n n'. \<exists>op. P op \<and> life op n n')\<^sup>*\<^sup>* n n'))"
  using path unfolding outbox_path_def
proof (induction rule: rtranclp_induct)
  case base
  then show ?case using inv by blast
next
  case (step db1 db2)
  then obtain op where op: "P op" "outbox_step C J op db1 db2" by blast
  have inv1: "outbox_inv C J db1" using step.IH by blast
  note next_ = outbox_step_life[OF C op(2) inv1]
  show ?case
  proof (intro conjI impI)
    assume kept: "\<not> P (Remove j)" and "load_notification_from_connection C J j db = Inr n"
    then obtain n1 where n1: "load_notification_from_connection C J j db1 = Inr n1"
      "(\<lambda>n n'. \<exists>op. P op \<and> life op n n')\<^sup>*\<^sup>* n n1" using step.IH by blast
    then obtain n2 where n2: "load_notification_from_connection C J j db2 = Inr n2" "life op n1 n2"
      using next_ kept op(1) by metis
    have "(\<lambda>n n'. \<exists>op. P op \<and> life op n n')\<^sup>*\<^sup>* n n2"
      using n1(2) by (rule rtranclp.rtrancl_into_rtrancl) (use n2(2) op(1) in blast)
    then show "\<exists>n'. load_notification_from_connection C J j db2 = Inr n' \<and> (\<lambda>n n'. \<exists>op. P op \<and> life op n n')\<^sup>*\<^sup>* n n'"
      using n2(1) by blast
  qed (use next_ in blast)
qed

text \<open>What one step of the life cycle keeps, and what it can only increase.\<close>

definition same_request :: "stored_notification \<Rightarrow> stored_notification \<Rightarrow> bool" where
  "same_request n n' \<longleftrightarrow> sn_id n' = sn_id n \<and> sn_idempotency_key n' = sn_idempotency_key n
     \<and> sn_proposal_id n' = sn_proposal_id n \<and> sn_event_mapping_id n' = sn_event_mapping_id n \<and> sn_kind n' = sn_kind n
     \<and> sn_recipient n' = sn_recipient n \<and> sn_template_data n' = sn_template_data n \<and> sn_created_at n' = sn_created_at n"

lemma life_keeps:
  assumes "life op n n'"
  shows "same_request n n' \<and> sn_attempts n \<le> sn_attempts n' \<and> (sn_status n = NsSent \<longrightarrow> n' = n)"
  using assms by (cases rule: life.cases) (auto simp: same_request_def claimed_def due_at_def)

lemma lives_keep:
  assumes "(\<lambda>n n'. \<exists>op. P op \<and> life op n n')\<^sup>*\<^sup>* n n'"
  shows "same_request n n' \<and> sn_attempts n \<le> sn_attempts n' \<and> (sn_status n = NsSent \<longrightarrow> n' = n)"
  using assms
proof (induction rule: rtranclp_induct)
  case base
  then show ?case by (simp add: same_request_def)
next
  case (step n1 n2)
  then obtain op where "life op n1 n2" by blast
  from life_keeps[OF this] step.IH show ?case by (auto simp: same_request_def)
qed

text \<open>Operations that leave a leased notification to the worker that holds it.\<close>

definition respects_lease :: "stored_notification \<Rightarrow> outbox_op \<Rightarrow> bool" where
  "respects_lease n op =
     (case op of
        Enqueue rq \<Rightarrow> True
      | Claim now limit L \<Rightarrow> (case sn_lease_until n of None \<Rightarrow> False | Some l \<Rightarrow> before now l)
      | Sent i a t \<Rightarrow> \<not> (i = sn_id n \<and> a = sn_attempts n)
      | Reschedule i a t e \<Rightarrow> \<not> (i = sn_id n \<and> a = sn_attempts n)
      | Remove i \<Rightarrow> i \<noteq> sn_id n)"

lemma respects_lease_removal [simp]: "\<not> respects_lease n (Remove (sn_id n))"
  by (simp add: respects_lease_def)

lemma life_leased:
  assumes "life op n n'" "respects_lease n op" "sn_status n = NsDelivering"
  shows "n' = n"
  using assms by (cases rule: life.cases) (auto simp: respects_lease_def due_at_def before_def split: option.splits)

lemma lives_leased:
  assumes "(\<lambda>n n'. \<exists>op. respects_lease m op \<and> life op n n')\<^sup>*\<^sup>* m m'" "sn_status m = NsDelivering"
  shows "m' = m"
  using assms by (induction rule: rtranclp_induct) (use life_leased in blast)+

lemma claim_returns:
  assumes C: "codec_utc C" and inv: "outbox_inv C J db" and clk: "is_utc clk"
    and run: "claim_notifications C J now limit L clk db = (db', Inr ns)" and n: "n \<in> set ns"
  shows "outbox_inv C J db' \<and> sn_status n = NsDelivering \<and> load_notification_from_connection C J (sn_id n) db' = Inr n
    \<and> (\<exists>l m. sn_lease_until n = Some l \<and> instant_ns l = instant_ns now + L
         \<and> load_notification_from_connection C J (sn_id n) db = Inr m \<and> due_at now m \<and> sn_attempts n = sn_attempts m + 1)"
proof -
  obtain lease where args: "claim_lease C now limit L clk lease" using claim_notifications_args[OF run clk] by blast
  obtain all where all: "outbox_view C J db = Inr all" using outbox_view_some[OF inv] by blast
  obtain u where u: "ns = map (claimed lease u) (chosen (to_utc now) limit all)" "outbox_inv C J db'"
    "outbox_view C J db' = Inr (map (\<lambda>n. if n \<in> set (chosen (to_utc now) limit all) then claimed lease u n else n) all)"
    using claim_run_view[OF C inv args all] run by auto
  obtain m where m: "m \<in> set (chosen (to_utc now) limit all)" "n = claimed lease u m" using n u(1) by auto
  have mm: "m \<in> set all" "due_at (to_utc now) m" using in_set_takeD[OF m(1)[unfolded chosen_def]] by simp_all
  have "instant_ns lease = instant_ns now + L"
    using args by (auto simp: claim_lease_def odt_checked_add_ns_def Let_def split: if_splits)
  moreover have "load_notification_from_connection C J (sn_id n) db' = Inr n"
    using load_view[OF u(2,3), of "sn_id n" n] m mm(1) by auto
  moreover have "load_notification_from_connection C J (sn_id n) db = Inr m"
    using load_view[OF inv all, of "sn_id n" m] mm(1) m(2) by (simp add: claimed_def)
  ultimately show ?thesis using u(2) m(2) mm(2) by (auto simp: claimed_def due_at_def)
qed

lemma sent_needs_attempt:
  assumes "mark_notification_sent C J i a t clk db = (db', Inr m)"
  shows "\<exists>n. load_notification_from_connection C J i db = Inr n \<and> sn_attempts n = a"
  using assms by (auto simp: mark_notification_sent_def rbind_Inr_iff split: if_splits)

lemma reschedule_needs_attempt:
  assumes "reschedule_notification C J i a t e clk db = (db', Inr m)"
  shows "\<exists>n. load_notification_from_connection C J i db = Inr n \<and> sn_attempts n = a"
  using assms by (auto simp: reschedule_notification_def rbind_Inr_iff split: if_splits)

lemma outbox_error:
  "mark_notification_sent C J i a t clk db = (db', Inl e) \<Longrightarrow> db' = db"
  "reschedule_notification C J i a t c clk db = (db', Inl e) \<Longrightarrow> db' = db"
  by (simp_all add: mark_notification_sent_def reschedule_notification_def)

lemma owner_completes:
  assumes inv: "outbox_inv C J db" and n: "load_notification_from_connection C J i db = Inr n"
    and own: "sn_status n = NsDelivering"
    and st: "stamp C s (to_utc t)" "stamp C u clk"
  shows "\<exists>db'. mark_notification_sent C J i (sn_attempts n) t clk db = (db', Inr
    (n\<lparr>sn_status := NsSent, sn_lease_until := None, sn_sent_at := Some (to_utc t), sn_last_error_code := None, sn_updated_at := u\<rparr>))"
proof -
  obtain row where row: "row \<in> set (notification_outbox db)" "no_id row = i" "notification_row_decodes C J row n"
    "links_ok db (no_proposal_id row) (no_event_mapping_id row)"
    "\<And>f. update_outbox (owns i (sn_attempts n)) f db = (with_row row f db, 1)"
    using owned_update[OF inv n own refl] by blast
  have pos: "0 < i" "0 < sn_attempts n"
    using row(2,3) own by (auto simp: notification_row_decodes_def delivery_shape_def)
  show ?thesis
    using update_keeps_loads(2)[OF inv row(1,2), of "set_sent s u", OF _ _ decode_set_sent[OF row(3) own st], of i] row(4,5) n own st pos
    by (simp add: mark_notification_sent_def run_tx_def validate_notification_delivery_cursor_def
        normalize_notification_time_def format_offset_datetime_def stamp_def)
qed

section \<open>Properties\<close>

text \<open>
  C2. \<open>claim_notifications\<close> implements the claim on the list of notifications: it returns the
  notifications that are due, the earliest instant first and by id at the same instant, at most
  \<open>limit\<close> of them, each with a new attempt number and a lease that ends \<open>L\<close> nanoseconds after
  \<open>now\<close>. No other notification changes, and the call never ends in a conflict.
\<close>

theorem claim_takes_the_due_notifications:
  assumes "codec_utc C" "outbox_inv C J db" "claim_lease C now limit L clk lease" "outbox_view C J db = Inr all"
  shows "\<exists>db' u. rfc_format C clk = Some u
      \<and> claim_notifications C J now limit L clk db = (db', Inr (map (claimed lease u) (chosen (to_utc now) limit all)))
      \<and> outbox_inv C J db'
      \<and> outbox_view C J db' =
          Inr (map (\<lambda>n. if n \<in> set (chosen (to_utc now) limit all) then claimed lease u n else n) all)"
  using claim_run_view[OF assms] .

text \<open>
  C3. A lease is exclusive: after any further enqueues, claims, deliveries, reschedules and
  removals, as long as nobody completes or reschedules this attempt, nobody removes this
  notification and every claim in between is made before the lease ends, the notification is stored
  as it was returned, and no claim before the end of the lease returns it again.
\<close>

theorem lease_is_exclusive:
  assumes C: "codec_utc C" and inv: "outbox_inv C J db" and clk: "is_utc clk"
    and run: "claim_notifications C J now limit L clk db = (db1, Inr ns)" and n: "n \<in> set ns"
    and path: "outbox_path C J (respects_lease n) db1 db2"
  shows "load_notification_from_connection C J (sn_id n) db2 = Inr n
    \<and> (\<forall>clk2 now2 limit2 L2 db3 ms. is_utc clk2 \<longrightarrow> instant_ns now2 < instant_ns now + L \<longrightarrow>
        claim_notifications C J now2 limit2 L2 clk2 db2 = (db3, Inr ms) \<longrightarrow> sn_id n \<notin> sn_id ` set ms)"
proof -
  note r = claim_returns[OF C inv clk run n]
  obtain n' where n': "load_notification_from_connection C J (sn_id n) db2 = Inr n'"
    "outbox_inv C J db2" "(\<lambda>m m'. \<exists>op. respects_lease n op \<and> life op m m')\<^sup>*\<^sup>* n n'"
    using outbox_path_life[OF C _ path, of "sn_id n" n] r respects_lease_removal by blast
  have here: "load_notification_from_connection C J (sn_id n) db2 = Inr n" using lives_leased[OF n'(3)] r n'(1) by simp
  have "sn_id n \<notin> sn_id ` set ms"
    if c2: "is_utc clk2" "claim_notifications C J now2 limit2 L2 clk2 db2 = (db3, Inr ms)"
      and early: "instant_ns now2 < instant_ns now + L" for clk2 now2 limit2 L2 db3 ms
  proof
    assume "sn_id n \<in> sn_id ` set ms"
    then obtain m where "m \<in> set ms" "sn_id m = sn_id n" by auto
    then have "due_at now2 n" using claim_returns[OF C n'(2) c2] here by fastforce
    then show False using r early by (auto simp: due_at_def)
  qed
  then show ?thesis using here by blast
qed

text \<open>
  C35. The worker that holds a lease can complete its attempt: after any operations that respect
  its lease, \<open>mark_notification_sent\<close> with its attempt number succeeds and the notification is sent.
\<close>

theorem lease_owner_completes:
  assumes C: "codec_utc C" and inv: "outbox_inv C J db" and clk: "is_utc clk"
    and run: "claim_notifications C J now limit L clk db = (db1, Inr ns)" and n: "n \<in> set ns"
    and path: "outbox_path C J (respects_lease n) db1 db2"
    and times: "rfc_format C (to_utc t) = Some s" "rfc_format C clk2 = Some u" "is_utc clk2"
  shows "\<exists>db3. mark_notification_sent C J (sn_id n) (sn_attempts n) t clk2 db2 = (db3, Inr
    (n\<lparr>sn_status := NsSent, sn_lease_until := None, sn_sent_at := Some (to_utc t), sn_last_error_code := None, sn_updated_at := u\<rparr>))"
proof -
  note r = claim_returns[OF C inv clk run n]
  obtain n' where n': "load_notification_from_connection C J (sn_id n) db2 = Inr n'" "outbox_inv C J db2"
    "(\<lambda>m m'. \<exists>op. respects_lease n op \<and> life op m m')\<^sup>*\<^sup>* n n'"
    using outbox_path_life[OF C _ path, of "sn_id n" n] r respects_lease_removal by blast
  have here: "load_notification_from_connection C J (sn_id n) db2 = Inr n" using lives_leased[OF n'(3)] r n'(1) by simp
  have st: "stamp C s (to_utc t)" "stamp C u clk2" using times by (simp_all add: stamp_def)
  show ?thesis using owner_completes[OF n'(2) here _ st] r by blast
qed

text \<open>
  C15. The attempt number fences off late workers: after any enqueues, claims, deliveries,
  reschedules and removals of other notifications, the attempt number of a notification has not
  decreased, a sent notification is unchanged, and a worker whose attempt number is smaller than a
  number the notification has had can neither mark it sent nor reschedule it.
\<close>

theorem attempt_number_fences_workers:
  assumes C: "codec_utc C" and inv: "outbox_inv C J db" and n: "load_notification_from_connection C J i db = Inr n"
    and path: "outbox_path C J (\<lambda>op. op \<noteq> Remove i) db db'"
  shows "\<exists>n'. load_notification_from_connection C J i db' = Inr n' \<and> same_request n n' \<and> sn_attempts n \<le> sn_attempts n'
      \<and> (sn_status n = NsSent \<longrightarrow> n' = n)
      \<and> (\<forall>a t clk e. a < sn_attempts n \<longrightarrow>
          (\<exists>err. mark_notification_sent C J i a t clk db' = (db', Inl err))
          \<and> (\<exists>err. reschedule_notification C J i a t e clk db' = (db', Inl err)))"
proof -
  obtain n' where n': "load_notification_from_connection C J i db' = Inr n'"
    "(\<lambda>m m'. \<exists>op. op \<noteq> Remove i \<and> life op m m')\<^sup>*\<^sup>* n n'"
    using outbox_path_life[OF C inv path, of i n] n by blast
  note keep = lives_keep[OF n'(2)]
  have "\<exists>err. mark_notification_sent C J i a t clk db' = (db', Inl err)"
    "\<exists>err. reschedule_notification C J i a t e clk db' = (db', Inl err)" if a: "a < sn_attempts n" for a t clk e
  proof -
    show "\<exists>err. mark_notification_sent C J i a t clk db' = (db', Inl err)"
      using sent_needs_attempt[of C J i a t clk db'] outbox_error(1)[of C J i a t clk db'] n'(1) keep a
      by (cases "mark_notification_sent C J i a t clk db'"; cases "snd (mark_notification_sent C J i a t clk db')") fastforce+
    show "\<exists>err. reschedule_notification C J i a t e clk db' = (db', Inl err)"
      using reschedule_needs_attempt[of C J i a t e clk db'] outbox_error(2)[of C J i a t e clk db'] n'(1) keep a
      by (cases "reschedule_notification C J i a t e clk db'"; cases "snd (reschedule_notification C J i a t e clk db')") fastforce+
  qed
  then show ?thesis using n'(1) keep by blast
qed

section \<open>Retries of an enqueue\<close>

definition same_but_outbox :: "db \<Rightarrow> db \<Rightarrow> bool" where
  "same_but_outbox db db' \<longleftrightarrow> db' = db\<lparr>notification_outbox := notification_outbox db'\<rparr>"

lemma same_but_outbox_intros [simp]:
  "same_but_outbox db db" "same_but_outbox db (db\<lparr>notification_outbox := x\<rparr>)"
  by (simp_all add: same_but_outbox_def)

lemma same_but_outbox_chain: "same_but_outbox a b \<Longrightarrow> same_but_outbox b c \<Longrightarrow> same_but_outbox a c"
  unfolding same_but_outbox_def by (cases a; cases b; cases c) simp

lemma update_outbox_frame: "update_outbox p f db = (db', k) \<Longrightarrow> same_but_outbox db db'"
  by (auto simp: update_outbox_def)

lemma claim_rows_frame: "claim_rows C J k l u ids db = Inr (db', ns) \<Longrightarrow> same_but_outbox db db'"
proof (induction ids arbitrary: db ns)
  case Nil
  then show ?case by simp
next
  case (Cons i ids)
  obtain db1 c where up: "update_outbox (\<lambda>r. no_id r = i \<and> eligible k r) (set_delivering l u) db = (db1, c)" by force
  then obtain ms where "claim_rows C J k l u ids db1 = Inr (db', ms)"
    using Cons.prems by (auto simp: rbind_Inr_iff split: if_splits)
  then show ?case using Cons.IH update_outbox_frame[OF up] same_but_outbox_chain by blast
qed

lemma enqueue_frame: "enqueue_notification C J rq clk db = (db', Inr n) \<Longrightarrow> same_but_outbox db db'"
  by (auto simp: enqueue_notification_def rbind_Inr_iff Let_def split: option.splits if_splits)

lemma outbox_step_frame: "outbox_step C J op db db' \<Longrightarrow> same_but_outbox db db'"
proof (induction rule: outbox_step.induct)
  case (enqueue clk rq db db' n)
  then show ?case using enqueue_frame by blast
next
  case (claim clk now limit L db db' ns)
  then show ?case using claim_rows_frame by (fastforce simp: claim_notifications_def rbind_Inr_iff)
next
  case (sent clk i a t db db' n)
  then show ?case
    by (auto simp: mark_notification_sent_def rbind_Inr_iff update_outbox_def split: if_splits)
next
  case (reschedule clk i a t e db db' n)
  then show ?case
    by (auto simp: reschedule_notification_def rbind_Inr_iff update_outbox_def split: if_splits)
next
  case (removed i db db' v)
  then show ?case by (auto simp: delete_notification_by_id_def split: if_splits)
qed

lemma outbox_path_frame: "outbox_path C J P db db' \<Longrightarrow> same_but_outbox db db'"
  unfolding outbox_path_def
proof (induction rule: rtranclp_induct)
  case base
  then show ?case by simp
next
  case (step db1 db2)
  then show ?case using outbox_step_frame same_but_outbox_chain by blast
qed

lemma references_frame:
  assumes "same_but_outbox db db'"
  shows "validate_notification_references p m k db' = validate_notification_references p m k db"
proof -
  obtain x where "db' = db\<lparr>notification_outbox := x\<rparr>" using assms by (auto simp: same_but_outbox_def)
  then have "proposals db' = proposals db" "event_mappings db' = event_mappings db" by simp_all
  then show ?thesis unfolding validate_notification_references_def by (simp only:)
qed

text \<open>A request for a key that is taken.\<close>

lemma enqueue_taken:
  assumes inv: "outbox_inv C J db" and row: "row \<in> set (notification_outbox db)"
    "no_idempotency_key row = str_trim (nq_idempotency_key rq)" "checked_notification C J db row = Inr m"
    and ok: "str_trim (nq_idempotency_key rq) \<noteq> []" "rfc_format C (to_utc (nq_available_at rq)) = Some s"
      "rfc_format C clk = Some u" "js_write J (nq_template_data rq) = Some p"
      "validate_notification_references (nq_proposal_id rq) (nq_event_mapping_id rq) (nq_kind rq) db = Inr ()"
  shows "enqueue_notification C J rq clk db =
    (db, if exact_notification rq (to_utc (nq_available_at rq)) m then Inr m else Inl (Conflict ''notification''))"
proof -
  have key: "idempotency_key_new (nq_idempotency_key rq) = Inr (str_trim (nq_idempotency_key rq))"
    using ok(1) by (simp add: idempotency_key_new_def non_blank_Inr)
  have "distinct (map no_idempotency_key (notification_outbox db))" using inv by (simp add: outbox_inv_def)
  then have "find (\<lambda>r. no_idempotency_key r = str_trim (nq_idempotency_key rq)) (notification_outbox db) = Some row"
    using find_unique[of no_idempotency_key "notification_outbox db" row] row(1,2) by simp
  then show ?thesis using row(3) ok key
    by (simp add: enqueue_notification_def run_tx_def normalize_notification_time_def format_offset_datetime_def)
qed

lemma enqueue_args:
  assumes "enqueue_notification C J rq clk db = (db', Inr n)"
  shows "str_trim (nq_idempotency_key rq) \<noteq> [] \<and> (\<exists>s. rfc_format C (to_utc (nq_available_at rq)) = Some s)
    \<and> (\<exists>p. js_write J (nq_template_data rq) = Some p)
    \<and> validate_notification_references (nq_proposal_id rq) (nq_event_mapping_id rq) (nq_kind rq) db = Inr ()"
  using assms by (auto simp: enqueue_notification_def rbind_Inr_iff normalize_notification_time_def
      format_offset_datetime_def idempotency_key_new_def non_blank_Inr)

lemma same_template_refl [simp]: "same_template t t"
  by (simp add: same_template_def same_time_def split: option.splits)

lemma enqueued_exact:
  assumes inv: "outbox_inv C J db" and td: "td_new (nq_template_data rq) = Inr (nq_template_data rq)"
    and run: "enqueue_notification C J rq clk db = (db', Inr n)"
  shows "exact_notification rq (to_utc (nq_available_at rq)) n
    \<and> load_notification_from_connection C J (sn_id n) db' = Inr n \<and> sn_idempotency_key n = str_trim (nq_idempotency_key rq)"
  using inv run
proof (cases rule: enqueue_run)
  case (retry row)
  have C: "codec_reads_back C" using inv by (simp add: outbox_inv_def)
  show ?thesis using retry load_iff[OF inv, of "sn_id n" n] checked_id[OF C retry(3)]
    by (auto simp: checked_notification_Inr[OF C] notification_row_decodes_def)
next
  case (new p s u row)
  have C: "codec_reads_back C" and J: "json_ok J" using inv by (simp_all add: outbox_inv_def)
  have d: "notification_row_decodes C J row n" using new(5) by (simp add: checked_notification_Inr[OF C])
  have "td_deserialize J p = Inr (nq_template_data rq)" using td J new(3) by (simp add: td_deserialize_def json_ok_def)
  moreover have "stamp C s (sn_available_at n)" using d new(1) by (simp add: notification_row_decodes_def new_notification_row_def)
  then have "sn_available_at n = to_utc (nq_available_at rq)"
    using new(2) C by (metis stamp_def Inr_inject parse_stored_Inr to_utc_simps(3))
  ultimately have "exact_notification rq (to_utc (nq_available_at rq)) n \<and> sn_idempotency_key n = str_trim (nq_idempotency_key rq)"
    using d new(1) by (auto simp: exact_notification_def notification_row_decodes_def new_notification_row_def nkind.name_inject)
  moreover have "load_notification_from_connection C J (sn_id n) db' = Inr n"
    using enqueue_step[OF inv run] load_iff[of C J db' "sn_id n" n] new(4,5) checked_id[OF C new(5)] by auto
  ultimately show ?thesis by blast
qed

text \<open>
  C36. The exact retry of an \<open>enqueue_notification\<close>, after any further operations on the outbox
  that do not remove the notification, changes nothing. It returns the notification in its current state, unless a reschedule has moved
  its delivery time: then the same request is refused with \<open>Conflict\<close>, although the documentation
  promises that an exact retry returns the row.
\<close>

theorem enqueue_retry_after_reschedule:
  assumes C: "codec_utc C" and inv: "outbox_inv C J db" and td: "td_new (nq_template_data rq) = Inr (nq_template_data rq)"
    and run: "enqueue_notification C J rq clk db = (db1, Inr n)" and path: "outbox_path C J (\<lambda>op. op \<noteq> Remove (sn_id n)) db1 db2"
    and clk2: "rfc_format C clk2 = Some u"
  shows "\<exists>m. load_notification_from_connection C J (sn_id n) db2 = Inr m \<and> same_request n m
    \<and> enqueue_notification C J rq clk2 db2 =
        (db2, if same_instant (sn_available_at m) (nq_available_at rq) then Inr m else Inl (Conflict ''notification''))"
proof -
  have R: "codec_reads_back C" using inv by (simp add: outbox_inv_def)
  note ex = enqueued_exact[OF inv td run] and args = enqueue_args[OF run]
  have inv1: "outbox_inv C J db1" using enqueue_step[OF inv run] by blast
  obtain m where m: "load_notification_from_connection C J (sn_id n) db2 = Inr m" "outbox_inv C J db2"
    "(\<lambda>m m'. \<exists>op. op \<noteq> Remove (sn_id n) \<and> life op m m')\<^sup>*\<^sup>* n m"
    using outbox_path_life[OF C inv1 path, of "sn_id n" n] ex by blast
  have same: "same_request n m" using lives_keep[OF m(3)] by blast
  obtain row where row: "row \<in> set (notification_outbox db2)" "checked_notification C J db2 row = Inr m"
    using m(1) load_iff[OF m(2)] by auto
  have "str_trim (no_idempotency_key row) = no_idempotency_key row" using m(2) row(1) by (auto simp: outbox_inv_def)
  then have key: "no_idempotency_key row = str_trim (nq_idempotency_key rq)"
    using row(2) same ex by (auto simp: checked_notification_Inr[OF R] notification_row_decodes_def same_request_def)
  have "same_but_outbox db db2"
    using outbox_path_frame[OF path] same_but_outbox_chain enqueue_frame[OF run] by blast
  then have refs: "validate_notification_references (nq_proposal_id rq) (nq_event_mapping_id rq) (nq_kind rq) db2 = Inr ()"
    using references_frame args by metis
  obtain s p where sp: "rfc_format C (to_utc (nq_available_at rq)) = Some s" "js_write J (nq_template_data rq) = Some p"
    using args by blast
  have "exact_notification rq (to_utc (nq_available_at rq)) m \<longleftrightarrow> same_instant (sn_available_at m) (nq_available_at rq)"
    using ex same by (auto simp: exact_notification_def same_request_def)
  then show ?thesis
    using enqueue_taken[OF m(2) row(1) key row(2) _ sp(1) clk2 sp(2) refs] args m(1) same by auto
qed

section \<open>The order of the pending listing\<close>

text \<open>
  \<open>list_pending_notifications\<close> sorts by the stored text of the time. Within one second the
  text with a fraction sorts before the whole second, so a notification that is available later
  can be listed first: the listing is not ordered by availability.
\<close>

theorem pending_listing_puts_fractions_first:
  assumes C: "codec_utc C" and inv: "outbox_inv C J db" and all: "list_pending_notifications C J db = Inr ns"
    and ij: "i < length ns" "j < length ns"
    and times: "unix_timestamp (sn_available_at (ns ! i)) = unix_timestamp (sn_available_at (ns ! j))"
      "nanosecond (sn_available_at (ns ! i)) = 0" "nanosecond (sn_available_at (ns ! j)) \<noteq> 0"
  shows "j < i \<and> before (sn_available_at (ns ! i)) (sn_available_at (ns ! j))"
proof -
  let ?rows = "sort_key (\<lambda>r. (no_available_at r, no_id r)) (filter (\<lambda>r. no_status r = lit ''pending'') (notification_outbox db))"
  have R: "codec_reads_back C" using inv by (simp add: outbox_inv_def)
  have l2: "list_all2 (\<lambda>r n. checked_notification C J db r = Inr n) ?rows ns"
    using all by (simp only: list_pending_notifications_def rmap_Inr_iff)
  have len: "length ?rows = length ns" by (rule list_all2_lengthD[OF l2])
  have st: "stamp C (no_available_at (?rows ! k)) (sn_available_at (ns ! k))" if "k < length ns" for k
  proof -
    have "notification_row_decodes C J (?rows ! k) (ns ! k)"
      using list_all2_nthD2[OF l2 that] by (simp only: checked_notification_Inr[OF R])
    then show ?thesis by (simp only: notification_row_decodes_def)
  qed
  have "no_available_at (?rows ! j) < no_available_at (?rows ! i)"
    by (rule raw_text_fraction_first[OF C st[OF ij(1)] st[OF ij(2)] times])
  moreover have "no_available_at (?rows ! i) \<le> no_available_at (?rows ! j)" if "i \<le> j"
  proof -
    have "sorted (map (\<lambda>r. (no_available_at r, no_id r)) ?rows)" by (rule sorted_sort_key)
    from sorted_nth_mono[OF this that] ij(2) len that
    show ?thesis by (auto simp: less_eq_prod_def)
  qed
  ultimately have "j < i" by (meson leD le_less_linear)
  moreover have "before (sn_available_at (ns ! i)) (sn_available_at (ns ! j))"
    using times nanosecond_bounds[of "sn_available_at (ns ! j)"] by (simp add: before_def instant_less)
  ultimately show ?thesis ..
qed


section \<open>The hypotheses can hold\<close>

definition new_notification :: "notification_request \<Rightarrow> str \<Rightarrow> db \<Rightarrow> stored_notification" where
  "new_notification rq u db =
     \<lparr>sn_id = next_id no_id (notification_outbox db), sn_idempotency_key = str_trim (nq_idempotency_key rq),
      sn_proposal_id = nq_proposal_id rq, sn_event_mapping_id = nq_event_mapping_id rq, sn_kind = nq_kind rq,
      sn_recipient = nq_recipient rq, sn_template_data = nq_template_data rq, sn_status = NsPending,
      sn_available_at = to_utc (nq_available_at rq), sn_lease_until = None, sn_sent_at = None,
      sn_last_error_code = None, sn_attempts = 0, sn_created_at = u, sn_updated_at = u\<rparr>"

lemma enqueue_fresh:
  assumes inv: "outbox_inv C J db" and td: "td_new (nq_template_data rq) = Inr (nq_template_data rq)"
    and key: "str_trim (nq_idempotency_key rq) \<noteq> []"
      "\<forall>r \<in> set (notification_outbox db). no_idempotency_key r \<noteq> str_trim (nq_idempotency_key rq)"
    and ok: "stamp C s (to_utc (nq_available_at rq))" "stamp C u clk" "js_write J (nq_template_data rq) = Some p"
      "is_valid_email (nq_recipient rq)"
      "validate_notification_references (nq_proposal_id rq) (nq_event_mapping_id rq) (nq_kind rq) db = Inr ()"
  shows "enqueue_notification C J rq clk db =
    (db\<lparr>notification_outbox := notification_outbox db @ [new_notification_row rq (str_trim (nq_idempotency_key rq)) p s u db]\<rparr>,
     Inr (new_notification rq u db))"
proof -
  let ?row = "new_notification_row rq (str_trim (nq_idempotency_key rq)) p s u db"
  have C: "codec_reads_back C" and J: "json_ok J" using inv by (simp_all add: outbox_inv_def)
  have "td_deserialize J p = Inr (nq_template_data rq)" using td J ok(3) by (simp add: td_deserialize_def json_ok_def)
  then have "notification_row_decodes C J ?row (new_notification rq u db)"
    using key ok next_id_pos[of no_id "notification_outbox db"]
    by (auto simp: notification_row_decodes_def new_notification_row_def new_notification_def delivery_shape_def references_Inr)
  moreover have "links_ok db (no_proposal_id ?row) (no_event_mapping_id ?row)"
    using ok(5) by (simp add: references_Inr new_notification_row_def)
  ultimately have ch: "checked_notification C J db ?row = Inr (new_notification rq u db)"
    by (simp add: checked_notification_Inr[OF C])
  have f: "find (\<lambda>r. no_idempotency_key r = str_trim (nq_idempotency_key rq)) (notification_outbox db) = None"
    using key(2) by (auto simp: find_None_iff)
  have "idempotency_key_new (nq_idempotency_key rq) = Inr (str_trim (nq_idempotency_key rq))"
    using key(1) by (simp add: idempotency_key_new_def non_blank_Inr)
  then show ?thesis using ok f ch
    by (simp add: enqueue_notification_def run_tx_def normalize_notification_time_def format_offset_datetime_def stamp_def)
qed

definition demo_template :: template_data where
  "demo_template = \<lparr>td_title = None, td_starts_at = None, td_ends_at = None, td_timezone = None,
     td_appointment_kind = None, td_proposal_state = None\<rparr>"

definition demo_json :: json where
  "demo_json = \<lparr>js_write = (\<lambda>t. if t = demo_template then Some [123, 125] else None), js_read = (\<lambda>_. Some demo_template)\<rparr>"

definition demo_request :: "str \<Rightarrow> odt \<Rightarrow> notification_request" where
  "demo_request key t = \<lparr>nq_idempotency_key = key, nq_proposal_id = None, nq_event_mapping_id = None,
     nq_kind = NkCallSummary, nq_recipient = lit ''a@b.co'', nq_template_data = demo_template, nq_available_at = t\<rparr>"

definition demo_half :: odt where
  "demo_half = \<lparr>instant_ns = 10500000000, offset_secs = 0\<rparr>"

lemma demo_half_simps [simp]: "unix_timestamp demo_half = 10" "nanosecond demo_half = 500000000" "to_utc demo_half = demo_half"
    "is_utc demo_half" "instant_ns demo_half = 10500000000"
  by (simp_all add: demo_half_def unix_timestamp_def nanosecond_def NANOS_def to_utc_def is_utc_def)

lemma demo_template_new: "td_new demo_template = Inr demo_template"
  by (simp add: td_new_def demo_template_def blank_option_def offset_option_def)

lemma demo_email: "is_valid_email (lit ''a@b.co'')" by code_simp

lemma demo_stamp: "is_utc d \<Longrightarrow> rfc_range (unix_timestamp d) \<Longrightarrow> \<exists>s. stamp demo_utc_codec s d"
  by (simp add: stamp_def demo_utc_codec_def)

lemma demo_range: "0 \<le> t \<Longrightarrow> t \<le> 1000 \<Longrightarrow> rfc_range t"
  by (simp add: rfc_range_def rfc_min_secs_def odt_max_secs_def)

lemma demo_keys: "str_trim (lit ''k'') = lit ''k''" "str_trim (lit ''m'') = lit ''m''" by code_simp+

definition demo_text :: "odt \<Rightarrow> str" where "demo_text d = the (rfc_format demo_utc_codec d)"

lemma demo_text_stamp: "is_utc d \<Longrightarrow> rfc_range (unix_timestamp d) \<Longrightarrow> stamp demo_utc_codec (demo_text d) d"
  using demo_stamp by (auto simp: demo_text_def stamp_def)

lemma demo_outbox_empty: "outbox_inv demo_utc_codec demo_json empty_db"
  using demo_utc_reads_back by (simp add: outbox_inv_def empty_db_def json_ok_def demo_json_def)

lemma demo_references: "validate_notification_references None None NkCallSummary db = Inr ()"
  by (simp add: references_Inr positive_option_def links_shape_def links_ok_def requires_proposal_def)

lemma demo_request_simps: "nq_idempotency_key (demo_request k t) = k" "nq_proposal_id (demo_request k t) = None"
  "nq_event_mapping_id (demo_request k t) = None" "nq_kind (demo_request k t) = NkCallSummary"
  "nq_recipient (demo_request k t) = lit ''a@b.co''" "nq_template_data (demo_request k t) = demo_template"
  "nq_available_at (demo_request k t) = t" "js_write demo_json demo_template = Some [123, 125]"
  by (simp_all add: demo_request_def demo_json_def)

lemma demo_enqueue:
  assumes inv: "outbox_inv demo_utc_codec demo_json db" and k: "str_trim k = k" "k \<noteq> []"
    and fresh: "\<forall>r \<in> set (notification_outbox db). no_idempotency_key r \<noteq> k"
    and t: "is_utc t" "rfc_range (unix_timestamp t)" and clk: "is_utc clk" "rfc_range (unix_timestamp clk)"
  shows "enqueue_notification demo_utc_codec demo_json (demo_request k t) clk db =
    (db\<lparr>notification_outbox := notification_outbox db @
         [new_notification_row (demo_request k t) k [123, 125] (demo_text t) (demo_text clk) db]\<rparr>,
     Inr (new_notification (demo_request k t) (demo_text clk) db))"
proof -
  have u: "to_utc t = t" using t(1) by (rule is_utc_to_utc)
  show ?thesis
    using enqueue_fresh[OF inv, of "demo_request k t" "demo_text t" "demo_text clk" clk "[123, 125]",
        unfolded demo_request_simps u k(1), OF demo_template_new k(2) fresh demo_text_stamp[OF t] demo_text_stamp[OF clk]
          refl demo_email demo_references] .
qed

definition demo_row :: "str \<Rightarrow> odt \<Rightarrow> db \<Rightarrow> notification_row" where
  "demo_row k t db = new_notification_row (demo_request k t) k [123, 125] (demo_text t) (demo_text (utc_secs 0)) db"

definition demo_queue :: "db" where
  "demo_queue = empty_db\<lparr>notification_outbox := [demo_row (lit ''k'') (utc_secs 10) empty_db]\<rparr>"

definition demo_note :: stored_notification where
  "demo_note = new_notification (demo_request (lit ''k'') (utc_secs 10)) (demo_text (utc_secs 0)) empty_db"

lemma demo_enqueued:
  "enqueue_notification demo_utc_codec demo_json (demo_request (lit ''k'') (utc_secs 10)) (utc_secs 0) empty_db
    = (demo_queue, Inr demo_note)"
proof -
  have "notification_outbox empty_db = []" by (simp add: empty_db_def)
  then show ?thesis
    using demo_enqueue[OF demo_outbox_empty demo_keys(1), of "utc_secs 10" "utc_secs 0"] demo_range
    unfolding demo_queue_def demo_note_def demo_row_def by simp
qed

lemma demo_queue_inv: "outbox_inv demo_utc_codec demo_json demo_queue"
  using enqueue_step[OF demo_outbox_empty demo_enqueued] by blast

lemma demo_view: "outbox_view demo_utc_codec demo_json demo_queue = Inr [demo_note]"
proof -
  have "load_notification_from_connection demo_utc_codec demo_json (sn_id demo_note) demo_queue = Inr demo_note"
    using enqueued_exact[OF demo_outbox_empty _ demo_enqueued] demo_template_new by (simp only: demo_request_simps)
  then obtain r where "r \<in> set (notification_outbox demo_queue)" "checked_notification demo_utc_codec demo_json demo_queue r = Inr demo_note"
    using load_iff[OF demo_queue_inv] by blast
  then show ?thesis by (simp add: outbox_view_def demo_queue_def)
qed

lemma demo_add_ns: "odt_checked_add_ns (utc_secs 20) (30 * NANOS) = Some (utc_secs 50)"
  by (simp add: odt_checked_add_ns_def utc_secs_def local_secs_def unix_timestamp_def NANOS_def odt_min_secs_def odt_max_secs_def)

lemma demo_claim_args: "claim_lease demo_utc_codec (utc_secs 20) 5 (30 * NANOS) (utc_secs 20) (utc_secs 50)"
proof -
  have "\<exists>s. stamp demo_utc_codec s (utc_secs 20)" "\<exists>s. stamp demo_utc_codec s (utc_secs 50)"
    using demo_stamp[of "utc_secs 20"] demo_stamp[of "utc_secs 50"] demo_range by simp_all
  then show ?thesis using demo_add_ns by (simp add: claim_lease_def i64_max_def NANOS_def)
qed

lemma demo_note_simps: "sn_status demo_note = NsPending" "sn_available_at demo_note = utc_secs 10" "sn_id demo_note = 1"
    "sn_attempts demo_note = 0"
  by (simp_all add: demo_note_def new_notification_def demo_request_simps empty_db_def next_id_def)

lemma demo_chosen: "chosen (utc_secs 20) 5 [demo_note] = [demo_note]"
  by (simp add: chosen_def due_at_def demo_note_simps NANOS_def)

definition demo_delivery :: stored_notification where
  "demo_delivery = claimed (utc_secs 50) (demo_text (utc_secs 20)) demo_note"

lemma demo_format: "rfc_format demo_utc_codec (utc_secs 20) = Some (demo_text (utc_secs 20))"
    "rfc_format demo_utc_codec (utc_secs 0) = Some (demo_text (utc_secs 0))"
  using demo_text_stamp[of "utc_secs 20"] demo_text_stamp[of "utc_secs 0"] demo_range by (simp_all add: stamp_def)

theorem claim_takes_the_due_notifications_witness:
  "\<exists>db'. claim_notifications demo_utc_codec demo_json (utc_secs 20) 5 (30 * NANOS) (utc_secs 20) demo_queue
      = (db', Inr [demo_delivery]) \<and> outbox_view demo_utc_codec demo_json db' = Inr [demo_delivery]"
  using claim_takes_the_due_notifications[OF demo_utc_shape demo_queue_inv demo_claim_args demo_view] demo_chosen demo_format
  by (auto simp: demo_delivery_def)

lemma demo_claimed:
  "\<exists>db'. claim_notifications demo_utc_codec demo_json (utc_secs 20) 5 (30 * NANOS) (utc_secs 20) demo_queue
      = (db', Inr [demo_delivery]) \<and> outbox_inv demo_utc_codec demo_json db'"
  using claim_run_view[OF demo_utc_shape demo_queue_inv demo_claim_args demo_view] demo_chosen demo_format
  by (auto simp: demo_delivery_def)


lemma demo_delivery_simps: "sn_id demo_delivery = 1" "sn_attempts demo_delivery = 1" "sn_status demo_delivery = NsDelivering"
  "sn_available_at demo_delivery = utc_secs 10" "sn_lease_until demo_delivery = Some (utc_secs 50)"
  by (simp_all add: demo_delivery_def claimed_def demo_note_simps)

lemma outbox_path_refl: "outbox_path C J P db db"
  by (simp add: outbox_path_def)

lemma outbox_path_step: "outbox_path C J P db db1 \<Longrightarrow> P op \<Longrightarrow> outbox_step C J op db1 db2 \<Longrightarrow> outbox_path C J P db db2"
  unfolding outbox_path_def by (rule rtranclp.rtrancl_into_rtrancl) blast+

lemma outbox_keys_claim: "claim_rows C J k l u ids db = Inr (db', ns) \<Longrightarrow>
    map no_idempotency_key (notification_outbox db') = map no_idempotency_key (notification_outbox db)"
proof (induction ids arbitrary: db ns)
  case Nil
  then show ?case by simp
next
  case (Cons i ids)
  obtain db1 c where up: "update_outbox (\<lambda>r. no_id r = i \<and> eligible k r) (set_delivering l u) db = (db1, c)" by force
  then obtain ms where "claim_rows C J k l u ids db1 = Inr (db', ms)"
    using Cons.prems by (auto simp: rbind_Inr_iff split: if_splits)
  then show ?case using Cons.IH up by (auto simp: update_outbox_def update_rows_key)
qed

lemma claim_keys: "claim_notifications C J now limit L clk db = (db', Inr ns) \<Longrightarrow>
    map no_idempotency_key (notification_outbox db') = map no_idempotency_key (notification_outbox db)"
  using outbox_keys_claim by (fastforce simp: claim_notifications_def rbind_Inr_iff)

lemma demo_m: "lit ''m'' \<noteq> []" by simp

lemma demo_range10: "rfc_range (unix_timestamp (utc_secs 10))" and demo_range0: "rfc_range (unix_timestamp (utc_secs 0))"
  by (simp_all add: demo_range)

text \<open>A claim, followed by the enqueueing of another notification and its removal.\<close>

lemma demo_keys_of_claim:
  assumes "claim_notifications demo_utc_codec demo_json now limit L clk demo_queue = (db1, Inr ns)"
  shows "map no_idempotency_key (notification_outbox db1) = [lit ''k'']"
  using claim_keys[OF assms] demo_keys(1)
  by (simp add: demo_queue_def demo_row_def new_notification_row_def del: lit_simps)

lemma demo_extra:
  assumes inv: "outbox_inv demo_utc_codec demo_json db" and keys: "map no_idempotency_key (notification_outbox db) = [lit ''k'']"
  shows "\<exists>db2. outbox_step demo_utc_codec demo_json (Enqueue (demo_request (lit ''m'') (utc_secs 10))) db db2
    \<and> map no_idempotency_key (notification_outbox db2) = [lit ''k'', lit ''m'']"
proof -
  have "\<forall>r \<in> set (notification_outbox db). no_idempotency_key r = lit ''k''"
    using keys by (metis (no_types, lifting) image_eqI list.set_map list.simps(15) singletonD list.set(1))
  then have fresh: "\<forall>r \<in> set (notification_outbox db). no_idempotency_key r \<noteq> lit ''m''" by auto
  note e = demo_enqueue[OF inv demo_keys(2) demo_m fresh utc_secs_simps(3) demo_range10 utc_secs_simps(3) demo_range0]
  have "map no_idempotency_key (notification_outbox db @ [new_notification_row rq (lit ''m'') p s u db]) = [lit ''k'', lit ''m'']" for rq p s u
    using keys by (simp add: new_notification_row_def del: lit_simps)
  then show ?thesis using outbox_step.enqueue[OF utc_secs_simps(3) e] by fastforce
qed

lemma demo_busy:
  "\<exists>db1 db2. claim_notifications demo_utc_codec demo_json (utc_secs 20) 5 (30 * NANOS) (utc_secs 20) demo_queue
      = (db1, Inr [demo_delivery])
    \<and> db2 \<noteq> db1 \<and> outbox_path demo_utc_codec demo_json (respects_lease demo_delivery) db1 db2"
proof -
  obtain db1 where db1: "claim_notifications demo_utc_codec demo_json (utc_secs 20) 5 (30 * NANOS) (utc_secs 20) demo_queue
      = (db1, Inr [demo_delivery])" "outbox_inv demo_utc_codec demo_json db1" using demo_claimed by blast
  obtain db2 where db2: "outbox_step demo_utc_codec demo_json (Enqueue (demo_request (lit ''m'') (utc_secs 10))) db1 db2"
    "map no_idempotency_key (notification_outbox db2) = [lit ''k'', lit ''m'']"
    using demo_extra[OF db1(2) demo_keys_of_claim[OF db1(1)]] by (elim exE conjE) (rule that)
  have "outbox_path demo_utc_codec demo_json (respects_lease demo_delivery) db1 db2"
    by (rule outbox_path_step[OF outbox_path_refl _ db2(1)]) (simp add: respects_lease_def)
  moreover have "db2 \<noteq> db1" using demo_keys_of_claim[OF db1(1)] db2(2) by auto
  ultimately show ?thesis using db1(1) by blast
qed

theorem lease_is_exclusive_witness:
  "\<exists>db1 db2. claim_notifications demo_utc_codec demo_json (utc_secs 20) 5 (30 * NANOS) (utc_secs 20) demo_queue
      = (db1, Inr [demo_delivery]) \<and> db2 \<noteq> db1
    \<and> load_notification_from_connection demo_utc_codec demo_json 1 db2 = Inr demo_delivery"
proof -
  obtain db1 db2 where d: "claim_notifications demo_utc_codec demo_json (utc_secs 20) 5 (30 * NANOS) (utc_secs 20) demo_queue
      = (db1, Inr [demo_delivery])" "db2 \<noteq> db1" "outbox_path demo_utc_codec demo_json (respects_lease demo_delivery) db1 db2"
    using demo_busy by blast
  have "load_notification_from_connection demo_utc_codec demo_json (sn_id demo_delivery) db2 = Inr demo_delivery"
    using lease_is_exclusive[OF demo_utc_shape demo_queue_inv _ d(1) _ d(3)] by simp
  then show ?thesis using d demo_delivery_simps(1) by auto
qed

theorem lease_owner_completes_witness:
  "\<exists>db2 db3 n. mark_notification_sent demo_utc_codec demo_json 1 1 (utc_secs 20) (utc_secs 20) db2 = (db3, Inr n)
    \<and> sn_status n = NsSent"
proof -
  obtain db1 db2 where d: "claim_notifications demo_utc_codec demo_json (utc_secs 20) 5 (30 * NANOS) (utc_secs 20) demo_queue
      = (db1, Inr [demo_delivery])" "outbox_path demo_utc_codec demo_json (respects_lease demo_delivery) db1 db2"
    using demo_busy by blast
  have f: "rfc_format demo_utc_codec (to_utc (utc_secs 20)) = Some (demo_text (utc_secs 20))" using demo_format by simp
  show ?thesis
    using lease_owner_completes[OF demo_utc_shape demo_queue_inv _ d(1) _ d(2) f demo_format(1)] demo_delivery_simps by fastforce
qed

lemma owner_reschedules:
  assumes inv: "outbox_inv C J db" and n: "load_notification_from_connection C J i db = Inr n"
    and own: "sn_status n = NsDelivering"
    and st: "stamp C s (to_utc t)" "stamp C u clk" "error_code_ok e"
  shows "\<exists>db'. reschedule_notification C J i (sn_attempts n) t e clk db = (db', Inr
    (n\<lparr>sn_status := NsPending, sn_available_at := to_utc t, sn_lease_until := None, sn_sent_at := None,
       sn_last_error_code := Some e, sn_updated_at := u\<rparr>))"
proof -
  obtain row where row: "row \<in> set (notification_outbox db)" "no_id row = i" "notification_row_decodes C J row n"
    "links_ok db (no_proposal_id row) (no_event_mapping_id row)"
    "\<And>f. update_outbox (owns i (sn_attempts n)) f db = (with_row row f db, 1)"
    using owned_update[OF inv n own refl] by blast
  have pos: "0 < i" "0 < sn_attempts n"
    using row(2,3) own by (auto simp: notification_row_decodes_def delivery_shape_def)
  have e: "validate_notification_error_code e = Inr e" using st(3) by (simp add: validate_notification_error_code_Inr)
  show ?thesis
    using update_keeps_loads(2)[OF inv row(1,2), of "set_pending s e u", OF _ _ decode_set_pending[OF row(3) st], of i]
      row(4,5) n own st pos e
    by (simp add: reschedule_notification_def run_tx_def validate_notification_delivery_cursor_def
        normalize_notification_time_def format_offset_datetime_def stamp_def)
qed

lemma demo_error_code: "error_code_ok (lit ''smtp'')" by code_simp

text \<open>A claim and a reschedule by its worker.\<close>

lemma reschedule_keys:
  assumes "outbox_inv C J db" "reschedule_notification C J i a t e clk db = (db', Inr n)" "is_utc clk"
  shows "map no_idempotency_key (notification_outbox db') = map no_idempotency_key (notification_outbox db)"
  using assms by (cases rule: reschedule_run) (simp add: with_row_def update_rows_key)

lemma demo_rescheduled:
  "\<exists>db2 m. outbox_path demo_utc_codec demo_json (\<lambda>op. op \<noteq> Remove 1) demo_queue db2
    \<and> outbox_inv demo_utc_codec demo_json db2
    \<and> map no_idempotency_key (notification_outbox db2) = [lit ''k'']
    \<and> load_notification_from_connection demo_utc_codec demo_json 1 db2 = Inr m
    \<and> sn_available_at m = utc_secs 20 \<and> sn_attempts m = 1 \<and> sn_status m = NsPending"
proof -
  obtain db1 where db1: "claim_notifications demo_utc_codec demo_json (utc_secs 20) 5 (30 * NANOS) (utc_secs 20) demo_queue
      = (db1, Inr [demo_delivery])" using demo_claimed by blast
  let ?m = "demo_delivery\<lparr>sn_status := NsPending, sn_available_at := utc_secs 20, sn_lease_until := None,
         sn_sent_at := None, sn_last_error_code := Some (lit ''smtp''), sn_updated_at := demo_text (utc_secs 20)\<rparr>"
  have c: "is_utc (utc_secs 20)" by simp
  have r: "outbox_inv demo_utc_codec demo_json db1" "load_notification_from_connection demo_utc_codec demo_json 1 db1 = Inr demo_delivery"
    using claim_returns[OF demo_utc_shape demo_queue_inv c db1, of demo_delivery] demo_delivery_simps by simp_all
  have st: "stamp demo_utc_codec (demo_text (utc_secs 20)) (to_utc (utc_secs 20))" using demo_text_stamp demo_range by simp
  then obtain db2 where db2: "reschedule_notification demo_utc_codec demo_json 1 1 (utc_secs 20) (lit ''smtp'') (utc_secs 20) db1
     = (db2, Inr ?m)"
    using owner_reschedules[OF r(1,2), of "demo_text (utc_secs 20)" "utc_secs 20"] demo_delivery_simps demo_error_code by fastforce
  have "outbox_path demo_utc_codec demo_json (\<lambda>op. op \<noteq> Remove 1) demo_queue db1"
    by (rule outbox_path_step[OF outbox_path_refl _ outbox_step.claim[OF c db1]]) simp
  then have p: "outbox_path demo_utc_codec demo_json (\<lambda>op. op \<noteq> Remove 1) demo_queue db2"
    by (rule outbox_path_step[OF _ _ outbox_step.reschedule[OF c db2]]) simp
  moreover from r(1) db2 c have "load_notification_from_connection demo_utc_codec demo_json 1 db2 = Inr ?m"
    by (rule reschedule_run)
  moreover have "outbox_inv demo_utc_codec demo_json db2" using outbox_path_life[OF demo_utc_shape demo_queue_inv p] by blast
  moreover have "map no_idempotency_key (notification_outbox db2) = [lit ''k'']"
    using reschedule_keys[OF r(1) db2 c] demo_keys_of_claim[OF db1] by simp
  ultimately show ?thesis using demo_delivery_simps by fastforce
qed

text \<open>A second claim, after the first worker has rescheduled: attempt 2.\<close>

lemma outbox_view_single:
  assumes "outbox_inv C J db" "length (notification_outbox db) = 1" "load_notification_from_connection C J i db = Inr m"
  shows "outbox_view C J db = Inr [m]"
proof -
  obtain all where all: "outbox_view C J db = Inr all" using outbox_view_some[OF assms(1)] by blast
  then have "length all = 1" using assms(2) list_all2_lengthD by (fastforce simp: outbox_view_def rmap_Inr_iff)
  moreover have "m \<in> set all" using load_view[OF assms(1) all] assms(3) by blast
  ultimately show ?thesis using all by (cases all) auto
qed

lemma demo_second_claim_args: "claim_lease demo_utc_codec (utc_secs 60) 5 (30 * NANOS) (utc_secs 60) (utc_secs 90)"
proof -
  have "odt_checked_add_ns (utc_secs 60) (30 * NANOS) = Some (utc_secs 90)"
    by (simp add: odt_checked_add_ns_def utc_secs_def local_secs_def unix_timestamp_def NANOS_def odt_min_secs_def odt_max_secs_def)
  moreover have "\<exists>s. stamp demo_utc_codec s (utc_secs 60)" "\<exists>s. stamp demo_utc_codec s (utc_secs 90)"
    using demo_stamp[of "utc_secs 60"] demo_stamp[of "utc_secs 90"] demo_range by simp_all
  ultimately show ?thesis by (simp add: claim_lease_def i64_max_def NANOS_def)
qed

lemma demo_reclaimed:
  "\<exists>db n. outbox_path demo_utc_codec demo_json (\<lambda>op. op \<noteq> Remove 1) demo_queue db
    \<and> outbox_inv demo_utc_codec demo_json db \<and> map no_idempotency_key (notification_outbox db) = [lit ''k'']
    \<and> load_notification_from_connection demo_utc_codec demo_json 1 db = Inr n
    \<and> sn_status n = NsDelivering \<and> sn_attempts n = 2"
proof -
  obtain db2 m where m: "outbox_path demo_utc_codec demo_json (\<lambda>op. op \<noteq> Remove 1) demo_queue db2"
    "outbox_inv demo_utc_codec demo_json db2" "map no_idempotency_key (notification_outbox db2) = [lit ''k'']"
    "load_notification_from_connection demo_utc_codec demo_json 1 db2 = Inr m"
    "sn_available_at m = utc_secs 20" "sn_attempts m = 1" "sn_status m = NsPending"
    using demo_rescheduled by (elim exE conjE) (rule that)
  have len: "length (notification_outbox db2) = 1" using m(3) by (metis length_map list.size(3,4) One_nat_def add_0)
  have ch: "chosen (utc_secs 60) 5 [m] = [m]" using m(5,7) by (simp add: chosen_def due_at_def NANOS_def)
  obtain db3 u where db3: "claim_notifications demo_utc_codec demo_json (utc_secs 60) 5 (30 * NANOS) (utc_secs 60) db2
      = (db3, Inr [claimed (utc_secs 90) u m])"
    using claim_run_view[OF demo_utc_shape m(2) demo_second_claim_args outbox_view_single[OF m(2) len m(4)]] ch by auto
  have c: "is_utc (utc_secs 60)" by simp
  have id: "sn_id m = 1" using load_id[OF m(2,4)] .
  note r = claim_returns[OF demo_utc_shape m(2) c db3, of "claimed (utc_secs 90) u m"]
  have "outbox_path demo_utc_codec demo_json (\<lambda>op. op \<noteq> Remove 1) demo_queue db3"
    by (rule outbox_path_step[OF m(1) _ outbox_step.claim[OF c db3]]) simp
  then show ?thesis using r claim_keys[OF db3] m(3,6) id
    by (intro exI[of _ db3] exI[of _ "claimed (utc_secs 90) u m"]) (simp add: claimed_def del: lit_simps)
qed

theorem attempt_number_fences_workers_witness:
  "\<exists>db err. outbox_path demo_utc_codec demo_json (\<lambda>op. op \<noteq> Remove 1) demo_queue db
    \<and> (\<exists>n. load_notification_from_connection demo_utc_codec demo_json 1 db = Inr n \<and> sn_status n = NsDelivering \<and> sn_attempts n = 2)
    \<and> mark_notification_sent demo_utc_codec demo_json 1 1 (utc_secs 60) (utc_secs 60) db = (db, Inl err)
    \<and> (\<exists>err'. reschedule_notification demo_utc_codec demo_json 1 1 (utc_secs 60) (lit ''smtp'') (utc_secs 60) db = (db, Inl err'))"
proof -
  obtain db n where n: "outbox_path demo_utc_codec demo_json (\<lambda>op. op \<noteq> Remove 1) demo_queue db"
    "outbox_inv demo_utc_codec demo_json db" "map no_idempotency_key (notification_outbox db) = [lit ''k'']"
    "load_notification_from_connection demo_utc_codec demo_json 1 db = Inr n" "sn_status n = NsDelivering" "sn_attempts n = 2"
    using demo_reclaimed by (elim exE conjE) (rule that)
  obtain db2 where db2: "outbox_step demo_utc_codec demo_json (Enqueue (demo_request (lit ''m'') (utc_secs 10))) db db2"
    using demo_extra[OF n(2,3)] by blast
  have more: "outbox_path demo_utc_codec demo_json (\<lambda>op. op \<noteq> Remove 1) db db2"
    by (rule outbox_path_step[OF outbox_path_refl _ db2]) simp
  have late: "1 < sn_attempts n" using n(6) by simp
  obtain n' where n': "load_notification_from_connection demo_utc_codec demo_json 1 db2 = Inr n'"
    "\<exists>err. mark_notification_sent demo_utc_codec demo_json 1 1 (utc_secs 60) (utc_secs 60) db2 = (db2, Inl err)"
    "\<exists>err. reschedule_notification demo_utc_codec demo_json 1 1 (utc_secs 60) (lit ''smtp'') (utc_secs 60) db2 = (db2, Inl err)"
    using attempt_number_fences_workers[OF demo_utc_shape n(2,4) more] late by blast
  have "n' = n" using enqueue_step[OF n(2)] n(4) n'(1) db2 by (auto elim!: outbox_step.cases)
  moreover have "outbox_path demo_utc_codec demo_json (\<lambda>op. op \<noteq> Remove 1) demo_queue db2"
    by (rule outbox_path_step[OF n(1) _ db2]) simp
  ultimately show ?thesis using n' n(5,6) by blast
qed

theorem enqueue_retry_after_reschedule_witness:
  "\<exists>db2. enqueue_notification demo_utc_codec demo_json (demo_request (lit ''k'') (utc_secs 10)) (utc_secs 0) empty_db = (demo_queue, Inr demo_note)
    \<and> outbox_path demo_utc_codec demo_json (\<lambda>op. op \<noteq> Remove 1) demo_queue db2
    \<and> enqueue_notification demo_utc_codec demo_json (demo_request (lit ''k'') (utc_secs 10)) (utc_secs 0) db2
        = (db2, Inl (Conflict ''notification''))"
proof -
  obtain db2 m where m: "outbox_path demo_utc_codec demo_json (\<lambda>op. op \<noteq> Remove 1) demo_queue db2"
    "load_notification_from_connection demo_utc_codec demo_json 1 db2 = Inr m" "sn_available_at m = utc_secs 20"
    using demo_rescheduled by blast
  have td: "td_new (nq_template_data (demo_request (lit ''k'') (utc_secs 10))) = Inr (nq_template_data (demo_request (lit ''k'') (utc_secs 10)))"
    by (simp only: demo_request_simps demo_template_new)
  have path: "outbox_path demo_utc_codec demo_json (\<lambda>op. op \<noteq> Remove (sn_id demo_note)) demo_queue db2"
    using m(1) by (simp only: demo_note_simps(3))
  from enqueue_retry_after_reschedule[OF demo_utc_shape demo_outbox_empty td demo_enqueued path demo_format(2)] m(2,3)
  show ?thesis using m(1) demo_enqueued demo_note_simps(3) by (auto simp: demo_request_simps demo_note_simps(3))
qed


lemma list_all2_Inr_mem: "list_all2 (\<lambda>x y. f x = Inr y) xs ys \<Longrightarrow> x \<in> set xs \<Longrightarrow> f x = Inr y \<Longrightarrow> y \<in> set ys"
  by (induction rule: list_all2_induct) auto

lemma decodes_status: "notification_row_decodes C J r n \<Longrightarrow> no_status r = notification_status_as_str (sn_status n)"
  unfolding notification_row_decodes_def by (elim conjE) assumption

lemma list_pending_set:
  assumes "list_pending_notifications C J db = Inr ns" "r \<in> set (notification_outbox db)" "no_status r = lit ''pending''"
    "checked_notification C J db r = Inr n"
  shows "n \<in> set ns"
proof -
  have l2: "list_all2 (\<lambda>r n. checked_notification C J db r = Inr n)
      (sort_key (\<lambda>r. (no_available_at r, no_id r)) (filter (\<lambda>r. no_status r = lit ''pending'') (notification_outbox db))) ns"
    using assms(1) by (simp only: list_pending_notifications_def rmap_Inr_iff)
  have "r \<in> set (sort_key (\<lambda>r. (no_available_at r, no_id r)) (filter (\<lambda>r. no_status r = lit ''pending'') (notification_outbox db)))"
    using assms(2,3) by simp
  then show ?thesis by (rule list_all2_Inr_mem[OF l2 _ assms(4)])
qed

lemma list_pending_total: "outbox_inv C J db \<Longrightarrow> \<exists>ns. list_pending_notifications C J db = Inr ns"
  unfolding list_pending_notifications_def by (rule rmap_total) (auto simp: outbox_inv_def)

text \<open>Two notifications of the same second, the second one half a second later.\<close>

lemma demo_second:
  "\<exists>db n. enqueue_notification demo_utc_codec demo_json (demo_request (lit ''m'') demo_half) (utc_secs 0) demo_queue = (db, Inr n)
    \<and> sn_available_at n = demo_half \<and> sn_status n = NsPending \<and> sn_id n = 2"
proof -
  have fresh: "\<forall>r \<in> set (notification_outbox demo_queue). no_idempotency_key r \<noteq> lit ''m''"
    by (simp add: demo_queue_def demo_row_def new_notification_row_def demo_request_simps)
  have h: "rfc_range (unix_timestamp demo_half)" by (simp add: demo_range)
  have "next_id no_id (notification_outbox demo_queue) = 2"
    by (simp add: demo_queue_def demo_row_def new_notification_row_def next_id_def empty_db_def)
  then show ?thesis
    using demo_enqueue[OF demo_queue_inv demo_keys(2) demo_m fresh demo_half_simps(4) h utc_secs_simps(3) demo_range0]
    by (auto simp: new_notification_def demo_request_simps)
qed

theorem pending_listing_puts_fractions_first_witness:
  "\<exists>db ns i j. list_pending_notifications demo_utc_codec demo_json db = Inr ns \<and> j < i \<and> i < length ns
    \<and> before (sn_available_at (ns ! i)) (sn_available_at (ns ! j))"
proof -
  obtain db n where e: "enqueue_notification demo_utc_codec demo_json (demo_request (lit ''m'') demo_half) (utc_secs 0) demo_queue = (db, Inr n)"
    "sn_available_at n = demo_half" "sn_status n = NsPending" "sn_id n = 2" using demo_second by blast
  have inv: "outbox_inv demo_utc_codec demo_json db" using enqueue_step[OF demo_queue_inv e(1)] by blast
  have n: "load_notification_from_connection demo_utc_codec demo_json 2 db = Inr n"
    using enqueued_exact[OF demo_queue_inv _ e(1)] demo_template_new e(4) by (simp add: demo_request_simps)
  have "load_notification_from_connection demo_utc_codec demo_json 1 demo_queue = Inr demo_note"
    using load_view[OF demo_queue_inv demo_view, of 1 demo_note] demo_note_simps by simp
  then have k: "load_notification_from_connection demo_utc_codec demo_json 1 db = Inr demo_note"
    using enqueue_step[OF demo_queue_inv e(1)] by blast
  obtain ns where ns: "list_pending_notifications demo_utc_codec demo_json db = Inr ns" using list_pending_total[OF inv] by blast
  have mem: "m \<in> set ns" if a: "load_notification_from_connection demo_utc_codec demo_json x db = Inr m" "sn_status m = NsPending" for x m
  proof -
    obtain r where r: "r \<in> set (notification_outbox db)" "checked_notification demo_utc_codec demo_json db r = Inr m"
      using a(1) unfolding load_iff[OF inv] by blast
    have d: "notification_row_decodes demo_utc_codec demo_json r m" using r(2)
      by (simp only: checked_notification_Inr[OF demo_utc_reads_back])
    have "no_status r = lit ''pending''" unfolding decodes_status[OF d] a(2)
      by (rule notification_status_as_str.simps(1))
    then show ?thesis by (rule list_pending_set[OF ns r(1) _ r(2)])
  qed
  obtain i j where ij: "i < length ns" "ns ! i = demo_note" "j < length ns" "ns ! j = n"
    using mem[OF k demo_note_simps(1)] mem[OF n e(3)] by (auto simp: in_set_conv_nth)
  have t: "unix_timestamp (sn_available_at (ns ! i)) = unix_timestamp (sn_available_at (ns ! j))"
      "nanosecond (sn_available_at (ns ! i)) = 0" "nanosecond (sn_available_at (ns ! j)) \<noteq> 0"
    unfolding ij(2,4) e(2) demo_note_simps(2) by simp_all
  show ?thesis using pending_listing_puts_fractions_first[OF demo_utc_shape inv ns ij(1,3) t] ns ij by blast
qed

end
