(* ===== verification/Store_Quotes.thy ===== *)
theory Store_Quotes
  imports Store_Proposals Notification_Time
begin

text \<open>
  Appointment drafts and quotes of \<open>src/pa/store.rs\<close>. A quote freezes the offered slots of one
  search for five minutes; preparing it selects a slot and stores the appointment draft,
  submitting it turns the draft into the one pending proposal of the quote. Every operation runs
  in a transaction and reads the quote back through the strict decoder.

  The texts of third-party types are parameters, collected in the record \<open>texts\<close>: the RFC 3339
  codec, chrono's canonical naive timestamps, the parser and printer of \<open>Uuid\<close>, and the
  canonical name of the IANA zone a text parses to. \<open>texts_ok\<close> states what is relied on: a
  formatted time and a printed UUID are read back as they were, and a UUID is printed in lower
  case.

  \<open>AppointmentDraft::new\<close> panics when the end of the appointment leaves the years the crate
  \<open>time\<close> supports. A result that may also be such a panic has the error type \<open>fault\<close>; the
  unwinding drops the transaction, so a panic rolls back as an error does.
\<close>

section \<open>Panics\<close>

datatype 'e fault = Failed 'e | Panicked

type_synonym 'a store_outcome = "(store_error fault, 'a) result"

definition or_fail :: "('e, 'a) result \<Rightarrow> ('e fault, 'a) result" where
  "or_fail m = map_err Failed m"

definition recover :: "'d \<Rightarrow> ('e fault, 'a) result \<Rightarrow> ('d fault, 'a) result" where
  "recover d m = map_err (\<lambda>e. case e of Failed _ \<Rightarrow> Failed d | Panicked \<Rightarrow> Panicked) m"

lemma or_fail_simps [simp]:
  "or_fail (Inl e) = Inl (Failed e)"
  "or_fail (Inr x) = Inr x"
  "or_fail m = Inr y \<longleftrightarrow> m = Inr y"
  by (simp_all add: or_fail_def)

lemma recover_simps [simp]:
  "recover d (Inr x) = Inr x"
  "recover d (Inl (Failed e)) = Inl (Failed d)"
  "recover d (Inl Panicked) = Inl Panicked"
  "recover d m = Inr y \<longleftrightarrow> m = Inr y"
  by (simp_all add: recover_def)

section \<open>Parameters and records\<close>

record texts =
  tx_time :: codec
  tx_naive :: naive_codec
  tx_uuid_parse :: "str \<Rightarrow> quote_id option"
  tx_uuid_show :: "quote_id \<Rightarrow> str"
  tx_zone :: "str \<Rightarrow> str option"

record stored_appointment_draft =
  sd_id :: int
  sd_source_id :: str
  sd_draft :: appointment_draft

datatype quote_state = QsIssued | QsPrepared | QsConsumed

fun quote_state_storage_name :: "quote_state \<Rightarrow> str" where
  "quote_state_storage_name QsIssued = lit ''issued''"
| "quote_state_storage_name QsPrepared = lit ''prepared''"
| "quote_state_storage_name QsConsumed = lit ''consumed''"

record stored_appointment_quote =
  sq_quote :: quote
  sq_appointment_kind :: appointment_kind
  sq_timezone :: str
  sq_offered_slots :: "appointment_slot list"
  sq_state :: quote_state
  sq_selected_slot_index :: "32 word option"
  sq_appointment_draft :: "stored_appointment_draft option"
  sq_consumed_at :: "odt option"
  sq_proposal_id :: "int option"

definition sq_appointment_draft_id :: "stored_appointment_quote \<Rightarrow> int option" where
  "sq_appointment_draft_id q = map_option sd_id (sq_appointment_draft q)"

definition MAX_APPOINTMENT_QUOTE_SLOTS :: nat where "MAX_APPOINTMENT_QUOTE_SLOTS = 100"

definition draft_invalid :: store_error where
  "draft_invalid = stored_record_invalid ''appointment draft''"

definition quote_invalid :: store_error where
  "quote_invalid = stored_record_invalid ''appointment quote''"

definition quote_conflict :: "store_error fault" where
  "quote_conflict = Failed (Conflict ''appointment quote'')"

text \<open>The derived \<open>PartialEq\<close> of drafts and quotes compares times as instants.\<close>

definition same_draft :: "appointment_draft \<Rightarrow> appointment_draft \<Rightarrow> bool" where
  "same_draft a b \<longleftrightarrow>
     ad_quote_id a = ad_quote_id b \<and> ad_caller a = ad_caller b \<and> ad_kind a = ad_kind b
     \<and> same_instant (ad_starts_at a) (ad_starts_at b) \<and> same_instant (ad_ends_at a) (ad_ends_at b)
     \<and> ad_requester_included a = ad_requester_included b \<and> ad_idempotency_key a = ad_idempotency_key b"

definition same_quote :: "quote \<Rightarrow> quote \<Rightarrow> bool" where
  "same_quote a b \<longleftrightarrow> q_id a = q_id b \<and> same_instant (q_issued_at a) (q_issued_at b)
     \<and> same_instant (q_expires_at a) (q_expires_at b)"

definition slot_key :: "appointment_slot \<Rightarrow> int \<times> int" where
  "slot_key s = (instant_ns (slot_starts_at s), instant_ns (slot_ends_at s))"

section \<open>Parsers and validators\<close>

definition parse_quote_state :: "str \<Rightarrow> quote_state store_result" where
  "parse_quote_state v =
     (if v = lit ''issued'' then Inr QsIssued
      else if v = lit ''prepared'' then Inr QsPrepared
      else if v = lit ''consumed'' then Inr QsConsumed
      else Inl quote_invalid)"

definition parse_appointment_quote_kind :: "str \<Rightarrow> appointment_kind store_result" where
  "parse_appointment_quote_kind v =
     (if v = lit ''callback'' then Inr AkCallback
      else if v = lit ''meeting'' then Inr AkMeeting
      else Inl quote_invalid)"

definition parse_quote_id :: "texts \<Rightarrow> str \<Rightarrow> quote_id store_result" where
  "parse_quote_id T v =
     rbind (ok_or quote_invalid (tx_uuid_parse T v)) (\<lambda>parsed.
       if tx_uuid_show T parsed \<noteq> v then Inl quote_invalid else Inr parsed)"

definition format_appointment_quote_datetime :: "texts \<Rightarrow> odt \<Rightarrow> str store_result" where
  "format_appointment_quote_datetime T v =
     ok_or (InvalidInput ''appointment_quote_time'') (rfc_format (tx_time T) (to_utc v))"

definition parse_appointment_quote_datetime :: "texts \<Rightarrow> str \<Rightarrow> odt store_result" where
  "parse_appointment_quote_datetime T v =
     rbind (ok_or quote_invalid (rfc_parse (tx_time T) v)) (\<lambda>parsed.
     let parsed = to_utc parsed in
     rbind (ok_or quote_invalid (rfc_format (tx_time T) parsed)) (\<lambda>canonical.
       if v \<noteq> canonical then Inl quote_invalid else Inr parsed))"

definition validate_appointment_quote_timezone :: "texts \<Rightarrow> str \<Rightarrow> str store_result" where
  "validate_appointment_quote_timezone T v =
     (if str_trim v = [] then Inl (InvalidInput ''timezone'')
      else rbind (ok_or (InvalidInput ''timezone'') (tx_zone T v)) (\<lambda>name.
        if name \<noteq> v then Inl (InvalidInput ''timezone'') else Inr name))"

fun slots_distinct :: "int \<Rightarrow> (int \<times> int) list \<Rightarrow> appointment_slot list \<Rightarrow> bool" where
  "slots_distinct duration seen [] = True"
| "slots_distinct duration seen (s # slots) =
     (if slot_duration_ns s \<noteq> duration \<or> slot_key s \<in> set seen then False
      else slots_distinct duration (slot_key s # seen) slots)"

definition validate_appointment_quote_slots :: "appointment_kind \<Rightarrow> appointment_slot list \<Rightarrow> unit store_result" where
  "validate_appointment_quote_slots kind slots =
     (if slots = [] \<or> length slots > MAX_APPOINTMENT_QUOTE_SLOTS then Inl (InvalidInput ''offered_slots'')
      else ensure (slots_distinct (ak_duration kind * NANOS) [] slots) (InvalidInput ''offered_slots''))"

section \<open>Appointment drafts\<close>

definition appointment_row_fields ::
    "texts \<Rightarrow> appointment_row \<Rightarrow> (str \<times> str \<times> quote_id \<times> appointment_kind \<times> odt \<times> odt \<times> bool \<times> caller_identity) store_result" where
  "appointment_row_fields T row =
     rbind (ensure (\<not> ap_id row \<le> 0) draft_invalid) (\<lambda>_.
     rbind (map_err (\<lambda>_. draft_invalid) (validate_source_id (ap_source_id row))) (\<lambda>source_id.
     rbind (map_err (\<lambda>_. draft_invalid) (idempotency_key_new (ap_idempotency_key row))) (\<lambda>key.
     rbind (ok_or draft_invalid (tx_uuid_parse T (ap_quote_id row))) (\<lambda>qid.
     rbind (ensure (\<not> tx_uuid_show T qid \<noteq> ap_quote_id row) draft_invalid) (\<lambda>_.
     rbind (parse_appointment_kind (ap_kind row)) (\<lambda>kind.
     rbind (parse_offset_datetime (tx_time T) (ap_starts_at row)) (\<lambda>starts_at.
     rbind (parse_offset_datetime (tx_time T) (ap_ends_at row)) (\<lambda>ends_at.
     rbind (if ap_requester_included row = 0 then Inr False
            else if ap_requester_included row = 1 then Inr True else Inl draft_invalid) (\<lambda>included.
     rbind (map_err (\<lambda>_. draft_invalid) (ce_confirm (ap_caller_email row))) (\<lambda>email.
     rbind (map_err (\<lambda>_. draft_invalid) (ci_new (ap_caller_name row) email)) (\<lambda>caller.
       Inr (source_id, key, qid, kind, starts_at, ends_at, included, caller))))))))))))"

definition decode_appointment_row :: "texts \<Rightarrow> appointment_row \<Rightarrow> stored_appointment_draft store_outcome" where
  "decode_appointment_row T row =
     rbind (or_fail (appointment_row_fields T row)) (\<lambda>(source_id, key, qid, kind, starts_at, ends_at, included, caller).
     rbind (ok_or Panicked (ad_new_with_requester_inclusion kind caller starts_at qid key included)) (\<lambda>made.
     or_fail (rbind (map_err (\<lambda>_. draft_invalid) made) (\<lambda>draft.
       if \<not> same_instant (ad_ends_at draft) ends_at then Inl draft_invalid
       else Inr \<lparr>sd_id = ap_id row, sd_source_id = source_id, sd_draft = draft\<rparr>))))"

definition query_appointment_rows_by_identity :: "str \<Rightarrow> str \<Rightarrow> str \<Rightarrow> appointment_row \<Rightarrow> bool" where
  "query_appointment_rows_by_identity key source_id quote_id r \<longleftrightarrow>
     ap_idempotency_key r = key \<or> ap_source_id r = source_id \<or> ap_quote_id r = quote_id"

definition new_appointment_row :: "texts \<Rightarrow> str \<Rightarrow> appointment_draft \<Rightarrow> str \<Rightarrow> str \<Rightarrow> db \<Rightarrow> appointment_row" where
  "new_appointment_row T source_id draft starts_at ends_at db =
     \<lparr>ap_id = next_id ap_id (appointment_drafts db), ap_idempotency_key = ad_idempotency_key draft,
      ap_source_id = source_id, ap_quote_id = tx_uuid_show T (ad_quote_id draft),
      ap_caller_name = ci_name (ad_caller draft), ap_caller_email = ce_value (ci_email (ad_caller draft)),
      ap_kind = appointment_kind_storage_name (ad_kind draft), ap_starts_at = starts_at, ap_ends_at = ends_at,
      ap_requester_included = (if ad_requester_included draft then 1 else 0)\<rparr>"

definition exact_draft :: "str \<Rightarrow> appointment_draft \<Rightarrow> stored_appointment_draft \<Rightarrow> bool" where
  "exact_draft source_id draft s \<longleftrightarrow> sd_source_id s = source_id \<and> same_draft (sd_draft s) draft"

definition save_appointment_draft_in_transaction ::
    "texts \<Rightarrow> str \<Rightarrow> appointment_draft \<Rightarrow> db \<Rightarrow> (db \<times> stored_appointment_draft) store_outcome" where
  "save_appointment_draft_in_transaction T source_id draft db =
     rbind (or_fail (format_offset_datetime (tx_time T) (ad_starts_at draft))) (\<lambda>starts_at.
     rbind (or_fail (format_offset_datetime (tx_time T) (ad_ends_at draft))) (\<lambda>ends_at.
     let candidates = filter (query_appointment_rows_by_identity (ad_idempotency_key draft) source_id
                        (tx_uuid_show T (ad_quote_id draft))) (appointment_drafts db) in
     if candidates = []
     then (let row = new_appointment_row T source_id draft starts_at ends_at db
           in Inr (db\<lparr>appointment_drafts := appointment_drafts db @ [row]\<rparr>,
                   \<lparr>sd_id = ap_id row, sd_source_id = source_id, sd_draft = draft\<rparr>))
     else rbind (retry_loop (decode_appointment_row T) (exact_draft source_id draft) None
                   (Failed (Conflict ''appointment draft'')) candidates None) (\<lambda>exact_retry.
          rbind (or_fail (ok_or draft_invalid exact_retry)) (\<lambda>stored. Inr (db, stored)))))"

definition save_appointment_draft ::
    "texts \<Rightarrow> str \<Rightarrow> appointment_draft \<Rightarrow> db \<Rightarrow> db \<times> stored_appointment_draft store_outcome" where
  "save_appointment_draft T source_id draft =
     run_tx (\<lambda>db.
       rbind (or_fail (validate_source_id source_id)) (\<lambda>source_id.
         save_appointment_draft_in_transaction T source_id draft db))"

definition load_appointment_draft_by_id :: "texts \<Rightarrow> int \<Rightarrow> db \<Rightarrow> stored_appointment_draft store_outcome" where
  "load_appointment_draft_by_id T i db =
     rbind (or_fail (ok_or (NotFound ''appointment draft'') (find (\<lambda>r. ap_id r = i) (appointment_drafts db))))
       (decode_appointment_row T)"

definition load_appointment_draft_by_idempotency_key ::
    "texts \<Rightarrow> str \<Rightarrow> db \<Rightarrow> stored_appointment_draft store_outcome" where
  "load_appointment_draft_by_idempotency_key T key db =
     rbind (or_fail (validate_non_empty key ''idempotency_key'')) (\<lambda>key.
     rbind (or_fail (ok_or (NotFound ''appointment draft'')
              (find (\<lambda>r. ap_idempotency_key r = key) (appointment_drafts db))))
       (decode_appointment_row T))"

section \<open>Decoding a quote\<close>

fun decode_slots ::
    "texts \<Rightarrow> appointment_kind \<Rightarrow> int \<Rightarrow> (int \<times> int) list \<Rightarrow> appointment_quote_slot_row list
      \<Rightarrow> appointment_slot list store_result" where
  "decode_slots T kind expected_index intervals [] = Inr []"
| "decode_slots T kind expected_index intervals (slot # slots) =
     rbind (ensure (\<not> qs_slot_index slot \<noteq> expected_index) quote_invalid) (\<lambda>_.
     rbind (parse_appointment_quote_datetime T (qs_starts_at slot)) (\<lambda>starts_at.
     rbind (parse_appointment_quote_datetime T (qs_ends_at slot)) (\<lambda>ends_at.
     rbind (map_err (\<lambda>_. quote_invalid) (slot_new starts_at ends_at)) (\<lambda>s.
       if slot_duration_ns s \<noteq> ak_duration kind * NANOS \<or> slot_key s \<in> set intervals then Inl quote_invalid
       else rbind (decode_slots T kind (expected_index + 1) (slot_key s # intervals) slots) (\<lambda>offered.
              Inr (s # offered))))))"

definition quote_slot_rows :: "str \<Rightarrow> db \<Rightarrow> appointment_quote_slot_row list" where
  "quote_slot_rows quote_id db =
     take (MAX_APPOINTMENT_QUOTE_SLOTS + 1)
       (sort_key qs_slot_index (filter (\<lambda>s. qs_quote_id s = quote_id) (appointment_quote_slots db)))"

text \<open>The immutable part of a quote: its identity, validity, kind, zone and frozen slots.\<close>

definition decode_frozen_quote ::
    "texts \<Rightarrow> appointment_quote_slot_row list \<Rightarrow> appointment_quote_row
      \<Rightarrow> (quote \<times> appointment_kind \<times> str \<times> appointment_slot list) store_result" where
  "decode_frozen_quote T slots row =
     rbind (parse_quote_id T (qt_quote_id row)) (\<lambda>quote_id.
     rbind (parse_appointment_quote_kind (qt_appointment_kind row)) (\<lambda>kind.
     rbind (map_err (\<lambda>_. quote_invalid) (validate_appointment_quote_timezone T (qt_timezone row))) (\<lambda>timezone.
     rbind (parse_appointment_quote_datetime T (qt_issued_at row)) (\<lambda>issued_at.
     rbind (parse_appointment_quote_datetime T (qt_expires_at row)) (\<lambda>expires_at.
     rbind (ok_or quote_invalid (odt_checked_add issued_at VALID_FOR)) (\<lambda>expected.
     rbind (ensure (\<not> \<not> same_instant expected expires_at) quote_invalid) (\<lambda>_.
     rbind (ok_or quote_invalid (quote_with_id quote_id issued_at)) (\<lambda>quote.
     rbind (ensure (1 \<le> qt_slot_count row \<and> qt_slot_count row \<le> int MAX_APPOINTMENT_QUOTE_SLOTS) quote_invalid) (\<lambda>_.
     rbind (ensure (\<not> int (length slots) \<noteq> qt_slot_count row) quote_invalid) (\<lambda>_.
     rbind (decode_slots T kind 0 [] slots) (\<lambda>offered.
       Inr (quote, kind, timezone, offered))))))))))))"

definition selected_index :: "appointment_slot list \<Rightarrow> int option \<Rightarrow> nat store_result" where
  "selected_index slots i =
     (case i of
        None \<Rightarrow> Inl quote_invalid
      | Some i \<Rightarrow> if 0 \<le> i \<and> i < int (length slots) then Inr (nat i) else Inl quote_invalid)"

definition positive_id :: "int option \<Rightarrow> int store_result" where
  "positive_id i = (case i of None \<Rightarrow> Inl quote_invalid | Some i \<Rightarrow> if i > 0 then Inr i else Inl quote_invalid)"

definition decode_linked_draft ::
    "texts \<Rightarrow> db \<Rightarrow> quote \<Rightarrow> appointment_kind \<Rightarrow> appointment_slot list \<Rightarrow> appointment_quote_row
      \<Rightarrow> (int \<times> 32 word \<times> stored_appointment_draft) store_outcome" where
  "decode_linked_draft T db quote kind slots row =
     rbind (or_fail (positive_id (qt_appointment_draft_id row))) (\<lambda>draft_id.
     rbind (or_fail (selected_index slots (qt_selected_slot_index row))) (\<lambda>i.
     rbind (or_fail (ok_or quote_invalid (find (\<lambda>r. ap_id r = draft_id) (appointment_drafts db)))) (\<lambda>draft_row.
     rbind (recover quote_invalid (decode_appointment_row T draft_row)) (\<lambda>draft.
     let d = sd_draft draft; slot = slots ! i in
       if ad_quote_id d \<noteq> q_id quote \<or> ad_kind d \<noteq> kind
          \<or> \<not> same_instant (ad_starts_at d) (slot_starts_at slot) \<or> \<not> same_instant (ad_ends_at d) (slot_ends_at slot)
       then Inl (Failed quote_invalid)
       else Inr (draft_id, word_of_nat i, draft)))))"

definition decode_consumption ::
    "texts \<Rightarrow> db \<Rightarrow> int \<Rightarrow> appointment_quote_row \<Rightarrow> (odt \<times> int) store_result" where
  "decode_consumption T db draft_id row =
     rbind (rbind (ok_or quote_invalid (qt_consumed_at row)) (parse_appointment_quote_datetime T)) (\<lambda>consumed_at.
     rbind (positive_id (qt_proposal_id row)) (\<lambda>proposal_id.
     rbind (ok_or quote_invalid (find (\<lambda>r. pr_id r = proposal_id) (proposals db))) (\<lambda>proposal_row.
     rbind (map_err (\<lambda>_. quote_invalid) (decode_proposal_row (tx_naive T) proposal_row)) (\<lambda>proposal.
       if appointment_draft_id (sp_source proposal) \<noteq> Some draft_id then Inl quote_invalid
       else Inr (consumed_at, proposal_id)))))"

definition decode_quote_progress ::
    "texts \<Rightarrow> db \<Rightarrow> quote \<Rightarrow> appointment_kind \<Rightarrow> appointment_slot list \<Rightarrow> quote_state \<Rightarrow> appointment_quote_row
      \<Rightarrow> (32 word option \<times> stored_appointment_draft option \<times> odt option \<times> int option) store_outcome" where
  "decode_quote_progress T db quote kind slots state row =
     (case state of
       QsIssued \<Rightarrow>
         if qt_appointment_draft_id row \<noteq> None \<or> qt_selected_slot_index row \<noteq> None
            \<or> qt_consumed_at row \<noteq> None \<or> qt_proposal_id row \<noteq> None
         then Inl (Failed quote_invalid) else Inr (None, None, None, None)
     | QsPrepared \<Rightarrow>
         rbind (decode_linked_draft T db quote kind slots row) (\<lambda>(draft_id, i, draft).
           if qt_consumed_at row \<noteq> None \<or> qt_proposal_id row \<noteq> None then Inl (Failed quote_invalid)
           else Inr (Some i, Some draft, None, None))
     | QsConsumed \<Rightarrow>
         rbind (decode_linked_draft T db quote kind slots row) (\<lambda>(draft_id, i, draft).
         rbind (or_fail (decode_consumption T db draft_id row)) (\<lambda>(consumed_at, proposal_id).
           Inr (Some i, Some draft, Some consumed_at, Some proposal_id))))"

definition decode_appointment_quote_row ::
    "texts \<Rightarrow> db \<Rightarrow> appointment_quote_row \<Rightarrow> stored_appointment_quote store_outcome" where
  "decode_appointment_quote_row T db row =
     rbind (or_fail (decode_frozen_quote T (quote_slot_rows (qt_quote_id row) db) row)) (\<lambda>(quote, kind, timezone, slots).
     rbind (or_fail (parse_quote_state (qt_state row))) (\<lambda>state.
     rbind (decode_quote_progress T db quote kind slots state row) (\<lambda>(i, draft, consumed_at, proposal_id).
       Inr \<lparr>sq_quote = quote, sq_appointment_kind = kind, sq_timezone = timezone, sq_offered_slots = slots,
            sq_state = state, sq_selected_slot_index = i, sq_appointment_draft = draft,
            sq_consumed_at = consumed_at, sq_proposal_id = proposal_id\<rparr>)))"

definition decode_appointment_quote_by_id ::
    "texts \<Rightarrow> quote_id \<Rightarrow> db \<Rightarrow> stored_appointment_quote store_outcome" where
  "decode_appointment_quote_by_id T quote_id db =
     (case find (\<lambda>r. qt_quote_id r = tx_uuid_show T quote_id) (appointment_quotes db) of
        Some row \<Rightarrow> decode_appointment_quote_row T db row
      | None \<Rightarrow>
          if \<not> list_ex (\<lambda>r. eq_ignore_ascii_case (qt_quote_id r) (tx_uuid_show T quote_id)) (appointment_quotes db)
          then Inl (Failed (NotFound ''appointment quote''))
          else Inl (Failed quote_invalid))"

definition load_appointment_quote_by_id :: "texts \<Rightarrow> quote_id \<Rightarrow> db \<Rightarrow> stored_appointment_quote store_outcome" where
  "load_appointment_quote_by_id T quote_id db = decode_appointment_quote_by_id T quote_id db"

definition load_appointment_quote_by_draft_id :: "texts \<Rightarrow> int \<Rightarrow> db \<Rightarrow> stored_appointment_quote store_outcome" where
  "load_appointment_quote_by_draft_id T draft_id db =
     (if draft_id \<le> 0 then Inl (Failed (InvalidInput ''appointment_draft_id''))
      else rbind (or_fail (
             rbind (ok_or (NotFound ''appointment quote'')
               (find (\<lambda>r. qt_appointment_draft_id r = Some draft_id) (appointment_quotes db))) (\<lambda>row.
             parse_quote_id T (qt_quote_id row)))) (\<lambda>quote_id.
           decode_appointment_quote_by_id T quote_id db))"

section \<open>Saving a quote\<close>

text \<open>
  The constraints of \<open>appointment_quote_slots\<close>: the primary key, the unique interval and the
  checks. A row that violates one makes the statement fail.
\<close>

definition slot_row_allowed :: "appointment_quote_slot_row list \<Rightarrow> appointment_quote_slot_row \<Rightarrow> bool" where
  "slot_row_allowed rows r \<longleftrightarrow>
     0 \<le> qs_slot_index r \<and> qs_slot_index r \<le> 99 \<and> qs_starts_at r < qs_ends_at r
     \<and> \<not> list_ex (\<lambda>s. qs_quote_id s = qs_quote_id r \<and>
           (qs_slot_index s = qs_slot_index r \<or> (qs_starts_at s = qs_starts_at r \<and> qs_ends_at s = qs_ends_at r))) rows"

fun insert_slots :: "texts \<Rightarrow> str \<Rightarrow> int \<Rightarrow> appointment_slot list \<Rightarrow> db \<Rightarrow> db store_result" where
  "insert_slots T quote_id i [] db = Inr db"
| "insert_slots T quote_id i (s # slots) db =
     rbind (format_appointment_quote_datetime T (slot_starts_at s)) (\<lambda>starts_at.
     rbind (format_appointment_quote_datetime T (slot_ends_at s)) (\<lambda>ends_at.
     let row = \<lparr>qs_quote_id = quote_id, qs_slot_index = i, qs_starts_at = starts_at, qs_ends_at = ends_at\<rparr> in
       if \<not> slot_row_allowed (appointment_quote_slots db) row then Inl SqliteError
       else insert_slots T quote_id (i + 1) slots
              (db\<lparr>appointment_quote_slots := appointment_quote_slots db @ [row]\<rparr>)))"

definition new_quote_row :: "str \<Rightarrow> appointment_kind \<Rightarrow> str \<Rightarrow> str \<Rightarrow> str \<Rightarrow> nat \<Rightarrow> appointment_quote_row" where
  "new_quote_row quote_id kind timezone issued_at expires_at slot_count =
     \<lparr>qt_quote_id = quote_id, qt_appointment_kind = appointment_kind_storage_name kind, qt_timezone = timezone,
      qt_issued_at = issued_at, qt_expires_at = expires_at, qt_slot_count = int slot_count,
      qt_state = quote_state_storage_name QsIssued, qt_appointment_draft_id = None,
      qt_selected_slot_index = None, qt_consumed_at = None, qt_proposal_id = None\<rparr>"

definition save_appointment_quote ::
    "texts \<Rightarrow> quote \<Rightarrow> appointment_kind \<Rightarrow> str \<Rightarrow> appointment_slot list \<Rightarrow> db
      \<Rightarrow> db \<times> stored_appointment_quote store_outcome" where
  "save_appointment_quote T quote kind timezone slots =
     run_tx (\<lambda>db.
       rbind (or_fail (validate_appointment_quote_timezone T timezone)) (\<lambda>timezone.
       rbind (or_fail (validate_appointment_quote_slots kind slots)) (\<lambda>_.
       let quote_id = tx_uuid_show T (q_id quote) in
       rbind (or_fail (format_appointment_quote_datetime T (q_issued_at quote))) (\<lambda>issued_at.
       rbind (or_fail (format_appointment_quote_datetime T (q_expires_at quote))) (\<lambda>expires_at.
       rbind (if list_ex (\<lambda>r. qt_quote_id r = quote_id) (appointment_quotes db) then Inr db
              else or_fail (insert_slots T quote_id 0 slots
                     (db\<lparr>appointment_quotes := appointment_quotes db
                           @ [new_quote_row quote_id kind timezone issued_at expires_at (length slots)]\<rparr>))) (\<lambda>db'.
       rbind (decode_appointment_quote_by_id T (q_id quote) db') (\<lambda>stored.
         if \<not> same_quote (sq_quote stored) quote \<or> sq_appointment_kind stored \<noteq> kind
            \<or> sq_timezone stored \<noteq> timezone \<or> map slot_key (sq_offered_slots stored) \<noteq> map slot_key slots
         then Inl quote_conflict
         else Inr (db', stored))))))))"

section \<open>Preparing and submitting\<close>

definition set_prepared :: "int \<Rightarrow> 32 word \<Rightarrow> appointment_quote_row \<Rightarrow> appointment_quote_row" where
  "set_prepared draft_id i r = r\<lparr>qt_state := lit ''prepared'', qt_appointment_draft_id := Some draft_id,
     qt_selected_slot_index := Some (uint i)\<rparr>"

text \<open>
  \<open>UPDATE appointment_quotes SET state = 'prepared' ... WHERE ... AND state = 'issued'\<close>; the column
  \<open>appointment_draft_id\<close> is \<open>UNIQUE\<close>.
\<close>

definition update_prepared :: "texts \<Rightarrow> quote_id \<Rightarrow> int \<Rightarrow> 32 word \<Rightarrow> db \<Rightarrow> (db \<times> nat) store_result" where
  "update_prepared T quote_id draft_id i db =
     (let p = (\<lambda>r. qt_quote_id r = tx_uuid_show T quote_id \<and> qt_state r = lit ''issued'')
      in if list_ex p (appointment_quotes db)
            \<and> list_ex (\<lambda>r. \<not> p r \<and> qt_appointment_draft_id r = Some draft_id) (appointment_quotes db)
         then Inl SqliteError
         else Inr (db\<lparr>appointment_quotes := update_rows p (set_prepared draft_id i) (appointment_quotes db)\<rparr>,
                   count_rows p (appointment_quotes db)))"

definition prepare_appointment_draft_from_quote ::
    "texts \<Rightarrow> quote_id \<Rightarrow> 32 word \<Rightarrow> str \<Rightarrow> appointment_draft \<Rightarrow> odt \<Rightarrow> db
      \<Rightarrow> db \<times> stored_appointment_quote store_outcome" where
  "prepare_appointment_draft_from_quote T quote_id slot_index source_id draft now =
     run_tx (\<lambda>db.
       rbind (or_fail (validate_source_id source_id)) (\<lambda>source_id.
       rbind (decode_appointment_quote_by_id T quote_id db) (\<lambda>current.
       if sq_state current \<noteq> QsIssued
       then (if sq_selected_slot_index current = Some slot_index
                \<and> (case sq_appointment_draft current of None \<Rightarrow> False | Some stored \<Rightarrow> exact_draft source_id draft stored)
             then Inr (db, current) else Inl quote_conflict)
       else if ad_quote_id draft \<noteq> quote_id \<or> ad_kind draft \<noteq> sq_appointment_kind current then Inl quote_conflict
       else if before now (q_issued_at (sq_quote current)) then Inl (Failed AppointmentQuoteNotYetValid)
       else if \<not> before now (q_expires_at (sq_quote current)) then Inl (Failed AppointmentQuoteExpired)
       else rbind (or_fail (ensure (unat slot_index < length (sq_offered_slots current)) (InvalidInput ''slot_index''))) (\<lambda>_.
       let selected_slot = sq_offered_slots current ! unat slot_index in
       if \<not> same_instant (ad_starts_at draft) (slot_starts_at selected_slot)
          \<or> \<not> same_instant (ad_ends_at draft) (slot_ends_at selected_slot)
       then Inl quote_conflict
       else rbind (save_appointment_draft_in_transaction T source_id draft db) (\<lambda>(db1, stored_draft).
            rbind (or_fail (update_prepared T quote_id (sd_id stored_draft) slot_index db1)) (\<lambda>(db2, updated).
            if updated \<noteq> 1 then Inl quote_conflict
            else rbind (decode_appointment_quote_by_id T quote_id db2) (\<lambda>prepared. Inr (db2, prepared))))))))"

definition set_consumed :: "str \<Rightarrow> int \<Rightarrow> appointment_quote_row \<Rightarrow> appointment_quote_row" where
  "set_consumed consumed_at proposal_id r =
     r\<lparr>qt_state := lit ''consumed'', qt_consumed_at := Some consumed_at, qt_proposal_id := Some proposal_id\<rparr>"

definition update_consumed :: "texts \<Rightarrow> quote_id \<Rightarrow> int \<Rightarrow> str \<Rightarrow> int \<Rightarrow> db \<Rightarrow> db \<times> nat" where
  "update_consumed T quote_id draft_id consumed_at proposal_id db =
     (let p = (\<lambda>r. qt_quote_id r = tx_uuid_show T quote_id \<and> qt_state r = lit ''prepared''
                  \<and> qt_appointment_draft_id r = Some draft_id)
      in (db\<lparr>appointment_quotes := update_rows p (set_consumed consumed_at proposal_id) (appointment_quotes db)\<rparr>,
          count_rows p (appointment_quotes db)))"

definition consumed_retry ::
    "texts \<Rightarrow> stored_appointment_quote \<Rightarrow> int \<Rightarrow> str \<Rightarrow> str \<Rightarrow> db \<Rightarrow> stored_proposal store_outcome" where
  "consumed_retry T current draft_id key source_id db =
     rbind (or_fail (ok_or quote_invalid (sq_appointment_draft_id current))) (\<lambda>linked_draft_id.
     rbind (or_fail (ok_or quote_invalid (sq_proposal_id current))) (\<lambda>proposal_id.
     rbind (or_fail (ok_or quote_invalid (find (\<lambda>r. pr_id r = proposal_id) (proposals db)))) (\<lambda>proposal_row.
     rbind (or_fail (map_err (\<lambda>_. quote_invalid) (decode_proposal_row (tx_naive T) proposal_row))) (\<lambda>proposal.
       if linked_draft_id \<noteq> draft_id \<or> sp_idempotency_key proposal \<noteq> key \<or> sp_source_id proposal \<noteq> source_id
          \<or> sp_source proposal \<noteq> AppointmentDraftSource draft_id
       then Inl quote_conflict else Inr proposal))))"

definition submit_appointment_quote ::
    "texts \<Rightarrow> quote_id \<Rightarrow> int \<Rightarrow> str \<Rightarrow> str \<Rightarrow> odt \<Rightarrow> str \<Rightarrow> db \<Rightarrow> db \<times> stored_proposal store_outcome" where
  "submit_appointment_quote T quote_id draft_id key source_id now clk =
     run_tx (\<lambda>db.
       rbind (or_fail (ensure (\<not> draft_id \<le> 0) (InvalidInput ''appointment_draft_id''))) (\<lambda>_.
       rbind (or_fail (validate_non_empty key ''idempotency_key'')) (\<lambda>key.
       rbind (or_fail (validate_source_id source_id)) (\<lambda>source_id.
       rbind (or_fail (format_appointment_quote_datetime T now)) (\<lambda>consumed_at.
       rbind (decode_appointment_quote_by_id T quote_id db) (\<lambda>current.
       case sq_state current of
         QsConsumed \<Rightarrow> rbind (consumed_retry T current draft_id key source_id db) (\<lambda>proposal. Inr (db, proposal))
       | QsIssued \<Rightarrow> Inl quote_conflict
       | QsPrepared \<Rightarrow>
           if sq_appointment_draft_id current \<noteq> Some draft_id then Inl quote_conflict
           else if before now (q_issued_at (sq_quote current)) then Inl (Failed AppointmentQuoteNotYetValid)
           else if \<not> before now (q_expires_at (sq_quote current)) then Inl (Failed AppointmentQuoteExpired)
           else
             rbind (or_fail (create_proposal_in_transaction (tx_naive T) key source_id
                      (AppointmentDraftSource draft_id) clk db)) (\<lambda>(db1, proposal).
             if sp_state proposal \<noteq> PsPending then Inl quote_conflict
             else (let (db2, updated) = update_consumed T quote_id draft_id consumed_at (sp_id proposal) db1 in
               if updated \<noteq> 1 then Inl quote_conflict
               else rbind (decode_appointment_quote_by_id T quote_id db2) (\<lambda>quote.
                 if sq_proposal_id quote \<noteq> Some (sp_id proposal)
                    \<or> (case sq_consumed_at quote of None \<Rightarrow> True | Some t \<Rightarrow> \<not> same_instant t now)
                 then Inl (Failed quote_invalid)
                 else rbind (or_fail (ok_or proposal_invalid (find (\<lambda>r. pr_id r = sp_id proposal) (proposals db2)))) (\<lambda>row.
                      rbind (or_fail (decode_proposal_row (tx_naive T) row)) (\<lambda>stored. Inr (db2, stored))))))))))))"

section \<open>Laws of the parameters and closed forms\<close>

definition codec_exact :: "codec \<Rightarrow> bool" where
  "codec_exact C \<longleftrightarrow> (\<forall>d s. rfc_format C d = Some s \<longrightarrow> rfc_parse C s = Some d)"

definition texts_ok :: "texts \<Rightarrow> bool" where
  "texts_ok T \<longleftrightarrow>
     (\<forall>u. tx_uuid_parse T (tx_uuid_show T u) = Some u \<and> to_ascii_lowercase (tx_uuid_show T u) = tx_uuid_show T u)
     \<and> codec_utc (tx_time T) \<and> codec_exact (tx_time T)"

lemma uuid_show_inject: "texts_ok T \<Longrightarrow> tx_uuid_show T u = tx_uuid_show T v \<longleftrightarrow> u = v"
  unfolding texts_ok_def by (metis option.inject)

lemma texts_okD:
  "texts_ok T \<Longrightarrow> tx_uuid_parse T (tx_uuid_show T u) = Some u"
  "texts_ok T \<Longrightarrow> codec_utc (tx_time T)"
  "texts_ok T \<Longrightarrow> rfc_format (tx_time T) d = Some s \<Longrightarrow> rfc_parse (tx_time T) s = Some d"
  by (simp_all add: texts_ok_def codec_exact_def)

lemma parse_quote_id_Inr: "texts_ok T \<Longrightarrow> parse_quote_id T v = Inr u \<longleftrightarrow> v = tx_uuid_show T u"
  by (auto simp: parse_quote_id_def rbind_Inr_iff texts_okD)

lemma quote_time_Inr:
  assumes "texts_ok T"
  shows "parse_appointment_quote_datetime T s = Inr d \<longleftrightarrow> stamp (tx_time T) s d"
proof
  assume "parse_appointment_quote_datetime T s = Inr d"
  then show "stamp (tx_time T) s d"
    by (auto simp: parse_appointment_quote_datetime_def rbind_Inr_iff Let_def stamp_def is_utc_def to_utc_def split: if_splits)
next
  assume s: "stamp (tx_time T) s d"
  then have "rfc_parse (tx_time T) s = Some d" "to_utc d = d"
    using texts_okD(3)[OF assms] by (simp_all add: stamp_def is_utc_to_utc)
  then show "parse_appointment_quote_datetime T s = Inr d"
    using s by (simp add: parse_appointment_quote_datetime_def rbind_Inr_iff stamp_def)
qed

lemma format_quote_time_Inr:
  "format_appointment_quote_datetime T d = Inr s \<longleftrightarrow> stamp (tx_time T) s (to_utc d)"
  by (simp add: format_appointment_quote_datetime_def stamp_def is_utc_def to_utc_def)

lemma stamp_inject: "texts_ok T \<Longrightarrow> stamp (tx_time T) s d \<Longrightarrow> stamp (tx_time T) s e \<Longrightarrow> d = e"
  using quote_time_Inr by (metis sum.inject(2))

interpretation qstate: stored_enum quote_state_storage_name parse_quote_state
proof
  fix x s
  show "parse_quote_state (quote_state_storage_name x) = Inr x" by (cases x) (simp_all add: parse_quote_state_def)
  show "parse_quote_state s = Inr x \<Longrightarrow> s = quote_state_storage_name x" by (auto simp: parse_quote_state_def split: if_splits)
qed

interpretation qkind: stored_enum appointment_kind_storage_name parse_appointment_quote_kind
proof
  fix x s
  show "parse_appointment_quote_kind (appointment_kind_storage_name x) = Inr x"
    by (cases x) (simp_all add: parse_appointment_quote_kind_def)
  show "parse_appointment_quote_kind s = Inr x \<Longrightarrow> s = appointment_kind_storage_name x"
    by (auto simp: parse_appointment_quote_kind_def split: if_splits)
qed

text \<open>A later whole second has a larger text, whatever the fractions are.\<close>

lemma stamp_less:
  assumes "codec_utc C" "stamp C s d" "stamp C r e" "unix_timestamp d < unix_timestamp e"
  shows "s < r"
proof -
  obtain W where W: "\<And>t. rfc_range t \<Longrightarrow> length (W t) = 19"
      "\<And>t u. rfc_range t \<Longrightarrow> rfc_range u \<Longrightarrow> W t < (W u :: str) \<longleftrightarrow> t < u"
      "\<And>d. is_utc d \<Longrightarrow> rfc_format C d =
          (if rfc_range (unix_timestamp d) then Some (W (unix_timestamp d) @ frac_text (nanosecond d) @ [90]) else None)"
    using assms(1) unfolding codec_utc_def by blast
  have r: "rfc_range (unix_timestamp d)" "rfc_range (unix_timestamp e)"
    using assms(2,3) W(3)[of d] W(3)[of e] by (auto simp: stamp_def split: if_splits)
  then have "s = W (unix_timestamp d) @ frac_text (nanosecond d) @ [90]"
    "r = W (unix_timestamp e) @ frac_text (nanosecond e) @ [90]"
    using assms(2,3) W(3)[of d] W(3)[of e] by (simp_all add: stamp_def)
  then show ?thesis using r W(1,2) assms(4) by (simp add: append_less_append)
qed

section \<open>Slots\<close>

definition utc_slot :: "appointment_slot \<Rightarrow> appointment_slot" where
  "utc_slot s = \<lparr>slot_starts_at = to_utc (slot_starts_at s), slot_ends_at = to_utc (slot_ends_at s)\<rparr>"

lemma utc_slot_simps [simp]:
  "slot_key (utc_slot s) = slot_key s"
  "slot_duration_ns (utc_slot s) = slot_duration_ns s"
  "slot_starts_at (utc_slot s) = to_utc (slot_starts_at s)"
  "slot_ends_at (utc_slot s) = to_utc (slot_ends_at s)"
  by (simp_all add: utc_slot_def slot_key_def slot_duration_ns_def to_utc_def)

lemma slots_distinct_utc [simp]: "slots_distinct n seen (map utc_slot slots) = slots_distinct n seen slots"
  by (induction slots arbitrary: seen) simp_all

fun slots_written :: "texts \<Rightarrow> int \<Rightarrow> appointment_slot list \<Rightarrow> appointment_quote_slot_row list \<Rightarrow> bool" where
  "slots_written T i [] rows = (rows = [])"
| "slots_written T i (s # slots) rows =
     (case rows of [] \<Rightarrow> False
      | r # rows \<Rightarrow> qs_slot_index r = i \<and> stamp (tx_time T) (qs_starts_at r) (slot_starts_at s)
          \<and> stamp (tx_time T) (qs_ends_at r) (slot_ends_at s) \<and> slots_written T (i + 1) slots rows)"

lemma duration_before: "slot_duration_ns s = ak_duration k * NANOS \<Longrightarrow> before (slot_starts_at s) (slot_ends_at s)"
proof -
  assume "slot_duration_ns s = ak_duration k * NANOS"
  moreover have "0 < ak_duration k * NANOS" using ak_duration_pos[of k] by (simp add: NANOS_def)
  ultimately show ?thesis by (simp add: slot_duration_ns_def before_def)
qed

lemma decode_slots_Inr:
  assumes T: "texts_ok T"
  shows "decode_slots T k i seen rows = Inr slots \<longleftrightarrow>
    slots_written T i slots rows \<and> slots_distinct (ak_duration k * NANOS) seen slots"
proof (induction rows arbitrary: i seen slots)
  case Nil
  then show ?case by (cases slots) auto
next
  case (Cons r rows)
  note time = quote_time_Inr[OF T]
  show ?case
  proof (cases slots)
    case Nil
    then show ?thesis by (auto simp: rbind_Inr_iff split: if_splits)
  next
    case (Cons s rest)
    have "decode_slots T k i seen (r # rows) = Inr (s # rest) \<longleftrightarrow>
      qs_slot_index r = i \<and> stamp (tx_time T) (qs_starts_at r) (slot_starts_at s)
      \<and> stamp (tx_time T) (qs_ends_at r) (slot_ends_at s) \<and> before (slot_starts_at s) (slot_ends_at s)
      \<and> slot_duration_ns s = ak_duration k * NANOS \<and> slot_key s \<notin> set seen
      \<and> decode_slots T k (i + 1) (slot_key s # seen) rows = Inr rest"
      by (cases s) (auto simp: rbind_Inr_iff time slot_new_Inr split: if_splits)
    then show ?thesis using Cons.IH[of "i + 1" "slot_key s # seen" rest] duration_before[of s k] Cons by auto
  qed
qed

lemma slots_written_length: "slots_written T i slots rows \<Longrightarrow> length rows = length slots"
  by (induction T i slots rows rule: slots_written.induct) (auto split: list.splits)

lemma slots_written_indices: "slots_written T i slots rows \<Longrightarrow> r \<in> set rows \<Longrightarrow> i \<le> qs_slot_index r"
  by (induction T i slots rows rule: slots_written.induct) (fastforce split: list.splits)+

lemma slots_written_sorted: "slots_written T i slots rows \<Longrightarrow> sorted (map qs_slot_index rows)"
proof (induction T i slots rows rule: slots_written.induct)
  case (2 T i s slots rows)
  then show ?case using slots_written_indices[of T "i + 1" slots] by (fastforce split: list.splits)
qed simp

lemma slots_written_append:
  "slots_written T i slots rows \<Longrightarrow> slots_written T (i + int (length slots)) slots' rows' \<Longrightarrow>
     slots_written T i (slots @ slots') (rows @ rows')"
proof (induction T i slots rows rule: slots_written.induct)
  case (2 T i s slots rows)
  then show ?case by (auto split: list.splits simp: algebra_simps)
qed simp

lemma slots_distinct_iff:
  "slots_distinct n seen slots \<longleftrightarrow>
     (\<forall>s \<in> set slots. slot_duration_ns s = n \<and> slot_key s \<notin> set seen) \<and> distinct (map slot_key slots)"
  by (induction slots arbitrary: seen) (auto simp: image_iff)

text \<open>Inserting the slots of a new quote appends one row per slot and violates no constraint.\<close>

lemma insert_slots_Inr:
  assumes T: "texts_ok T"
  shows "insert_slots T qid i slots db = Inr db' \<Longrightarrow>
    \<exists>rows. db' = db\<lparr>appointment_quote_slots := appointment_quote_slots db @ rows\<rparr>
      \<and> slots_written T i (map utc_slot slots) rows \<and> (\<forall>r \<in> set rows. qs_quote_id r = qid)"
proof (induction slots arbitrary: i db)
  case Nil
  then show ?case by simp
next
  case (Cons s slots)
  obtain a b where ab: "stamp (tx_time T) a (to_utc (slot_starts_at s))" "stamp (tx_time T) b (to_utc (slot_ends_at s))"
    "insert_slots T qid (i + 1) slots (db\<lparr>appointment_quote_slots := appointment_quote_slots db
        @ [\<lparr>qs_quote_id = qid, qs_slot_index = i, qs_starts_at = a, qs_ends_at = b\<rparr>]\<rparr>) = Inr db'"
    using Cons.prems by (auto simp: rbind_Inr_iff format_quote_time_Inr Let_def split: if_splits)
  from Cons.IH[OF ab(3)] show ?case using ab(1,2) by fastforce
qed

section \<open>Drafts\<close>

text \<open>What the constructors guarantee of an \<open>AppointmentDraft\<close> value.\<close>

definition draft_made :: "appointment_draft \<Rightarrow> bool" where
  "draft_made d \<longleftrightarrow> caller_wf (ad_caller d) \<and> trimmed_text (ad_idempotency_key d)
     \<and> odt_checked_add (ad_starts_at d) (ak_duration (ad_kind d)) = Some (ad_ends_at d)"

lemma ad_new_Inr:
  "ad_new_with_requester_inclusion k c t q key b = Some (Inr d) \<longleftrightarrow>
    odt_checked_add t (ak_duration k) = Some (ad_ends_at d)
    \<and> d = \<lparr>ad_quote_id = q, ad_caller = c, ad_kind = k, ad_starts_at = t, ad_ends_at = ad_ends_at d,
         ad_requester_included = b, ad_idempotency_key = key\<rparr>"
  using ak_duration_pos[of k] by (cases d) (auto simp: ad_new_with_requester_inclusion_def Let_def)

lemma ad_new_not_Inl: "ad_new_with_requester_inclusion k c t q key b \<noteq> Some (Inl e)"
  using ak_duration_pos[of k] by (auto simp: ad_new_with_requester_inclusion_def Let_def)

lemma ci_new_Inr: "ci_new name email = Inr c \<longleftrightarrow> str_trim name \<noteq> [] \<and> c = \<lparr>ci_name = str_trim name, ci_email = email\<rparr>"
  by (auto simp: ci_new_def rbind_Inr_iff non_blank_Inr)

definition draft_row_decodes :: "texts \<Rightarrow> appointment_row \<Rightarrow> stored_appointment_draft \<Rightarrow> bool" where
  "draft_row_decodes T row s \<longleftrightarrow>
     1 \<le> ap_id row \<and> source_text (ap_source_id row) \<and> str_trim (ap_idempotency_key row) \<noteq> []
     \<and> ap_quote_id row = tx_uuid_show T (ad_quote_id (sd_draft s))
     \<and> ap_kind row = appointment_kind_storage_name (ad_kind (sd_draft s))
     \<and> rfc_parse (tx_time T) (ap_starts_at row) = Some (ad_starts_at (sd_draft s))
     \<and> (\<exists>e. rfc_parse (tx_time T) (ap_ends_at row) = Some e \<and> same_instant (ad_ends_at (sd_draft s)) e)
     \<and> ap_requester_included row = (if ad_requester_included (sd_draft s) then 1 else 0)
     \<and> is_valid_email (ap_caller_email row) \<and> str_trim (ap_caller_name row) \<noteq> []
     \<and> ad_caller (sd_draft s) = \<lparr>ci_name = str_trim (ap_caller_name row),
          ci_email = \<lparr>ce_value = ap_caller_email row, ce_confirmed = True\<rparr>\<rparr>
     \<and> odt_checked_add (ad_starts_at (sd_draft s)) (ak_duration (ad_kind (sd_draft s))) = Some (ad_ends_at (sd_draft s))
     \<and> ad_idempotency_key (sd_draft s) = str_trim (ap_idempotency_key row)
     \<and> sd_id s = ap_id row \<and> sd_source_id s = ap_source_id row"

lemma included_Inr:
  "(if n = 0 then Inr False else if n = (1::int) then Inr True else Inl e) = Inr b \<longleftrightarrow> n = (if b then 1 else 0)"
  by auto

lemma appointment_row_fields_Inr:
  assumes T: "texts_ok T"
  shows "appointment_row_fields T row = Inr (sid, key, qid, kind, starts, ends, inc, caller) \<longleftrightarrow>
     1 \<le> ap_id row \<and> source_text (ap_source_id row) \<and> sid = ap_source_id row
     \<and> str_trim (ap_idempotency_key row) \<noteq> [] \<and> key = str_trim (ap_idempotency_key row)
     \<and> ap_quote_id row = tx_uuid_show T qid \<and> ap_kind row = appointment_kind_storage_name kind
     \<and> rfc_parse (tx_time T) (ap_starts_at row) = Some starts \<and> rfc_parse (tx_time T) (ap_ends_at row) = Some ends
     \<and> ap_requester_included row = (if inc then 1 else 0)
     \<and> is_valid_email (ap_caller_email row) \<and> str_trim (ap_caller_name row) \<noteq> []
     \<and> caller = \<lparr>ci_name = str_trim (ap_caller_name row), ci_email = \<lparr>ce_value = ap_caller_email row, ce_confirmed = True\<rparr>\<rparr>"
  unfolding appointment_row_fields_def rbind_Inr_iff map_err_simps ensure_simps ok_or_simps
    idempotency_key_new_def non_blank_Inr validate_source_id_Inr stored_enum_iffs parse_offset_datetime_def
    included_Inr ce_confirm_Inr ci_new_Inr
  by (auto simp: texts_okD(1)[OF T])

lemma decode_appointment_row_Inr:
  assumes T: "texts_ok T"
  shows "decode_appointment_row T row = Inr s \<longleftrightarrow> draft_row_decodes T row s"
proof
  assume "decode_appointment_row T row = Inr s"
  then obtain sid key qid kind starts ends inc caller made d where
    f: "appointment_row_fields T row = Inr (sid, key, qid, kind, starts, ends, inc, caller)"
    and made: "ad_new_with_requester_inclusion kind caller starts qid key inc = Some made" and d: "made = Inr d"
    and e: "same_instant (ad_ends_at d) ends" and s: "s = \<lparr>sd_id = ap_id row, sd_source_id = sid, sd_draft = d\<rparr>"
    by (fastforce simp: decode_appointment_row_def rbind_Inr_iff split: if_splits)
  have a: "odt_checked_add starts (ak_duration kind) = Some (ad_ends_at d)"
    "ad_quote_id d = qid" "ad_caller d = caller" "ad_kind d = kind" "ad_starts_at d = starts"
    "ad_requester_included d = inc" "ad_idempotency_key d = key"
    using made d by (auto simp: ad_new_Inr dest: arg_cong[of d _ ad_quote_id] arg_cong[of d _ ad_caller]
        arg_cong[of d _ ad_kind] arg_cong[of d _ ad_starts_at] arg_cong[of d _ ad_requester_included]
        arg_cong[of d _ ad_idempotency_key])
  show "draft_row_decodes T row s"
    using f e by (simp add: appointment_row_fields_Inr[OF T] draft_row_decodes_def s a)
next
  assume d: "draft_row_decodes T row s"
  let ?d = "sd_draft s"
  have new: "ad_new_with_requester_inclusion (ad_kind ?d) (ad_caller ?d) (ad_starts_at ?d) (ad_quote_id ?d)
      (ad_idempotency_key ?d) (ad_requester_included ?d) = Some (Inr ?d)"
    using d by (simp add: ad_new_Inr draft_row_decodes_def)
  obtain e where e: "rfc_parse (tx_time T) (ap_ends_at row) = Some e" "same_instant (ad_ends_at ?d) e"
    using d by (auto simp: draft_row_decodes_def)
  have "appointment_row_fields T row = Inr (ap_source_id row, ad_idempotency_key ?d, ad_quote_id ?d, ad_kind ?d,
      ad_starts_at ?d, e, ad_requester_included ?d, ad_caller ?d)"
    using d e by (simp add: appointment_row_fields_Inr[OF T] draft_row_decodes_def)
  then show "decode_appointment_row T row = Inr s"
    using d new e by (cases s) (simp add: decode_appointment_row_def draft_row_decodes_def)
qed

definition draft_inv :: "texts \<Rightarrow> db \<Rightarrow> bool" where
  "draft_inv T db \<longleftrightarrow> ids_ok ap_id (appointment_drafts db)
     \<and> distinct (map ap_idempotency_key (appointment_drafts db)) \<and> distinct (map ap_source_id (appointment_drafts db))
     \<and> distinct (map ap_quote_id (appointment_drafts db))
     \<and> (\<forall>row \<in> set (appointment_drafts db). \<exists>s. decode_appointment_row T row = Inr s
          \<and> ad_idempotency_key (sd_draft s) = ap_idempotency_key row)"

definition add_draft :: "db \<Rightarrow> appointment_row \<Rightarrow> db" where
  "add_draft db row = db\<lparr>appointment_drafts := appointment_drafts db @ [row]\<rparr>"

lemma new_row_decodes:
  assumes T: "texts_ok T" and d: "draft_made d" "source_text source_id"
    and f: "rfc_format (tx_time T) (ad_starts_at d) = Some a" "rfc_format (tx_time T) (ad_ends_at d) = Some b"
  shows "decode_appointment_row T (new_appointment_row T source_id d a b db) =
    Inr \<lparr>sd_id = next_id ap_id (appointment_drafts db), sd_source_id = source_id, sd_draft = d\<rparr>"
  using d f texts_okD(3)[OF T] next_id_pos[of ap_id "appointment_drafts db"]
  by (simp add: decode_appointment_row_Inr[OF T] draft_row_decodes_def new_appointment_row_def draft_made_def
      caller_wf_def trimmed_text_def email_wf_def)

text \<open>Saving a draft appends its row or finds it: in both cases the row decodes to the result.\<close>

lemma save_draft_cases:
  assumes T: "texts_ok T" and inv: "draft_inv T db" and d: "draft_made d" "source_text source_id"
    and run: "save_appointment_draft_in_transaction T source_id d db = Inr (db', s)"
  shows "draft_inv T db' \<and> exact_draft source_id d s
    \<and> (\<exists>row \<in> set (appointment_drafts db'). decode_appointment_row T row = Inr s)
    \<and> (db' = db \<or> (\<exists>row. db' = add_draft db row \<and> ap_id row = next_id ap_id (appointment_drafts db)))"
proof -
  let ?same = "query_appointment_rows_by_identity (ad_idempotency_key d) source_id (tx_uuid_show T (ad_quote_id d))"
  obtain a b where f: "rfc_format (tx_time T) (ad_starts_at d) = Some a" "rfc_format (tx_time T) (ad_ends_at d) = Some b"
    using run by (auto simp: save_appointment_draft_in_transaction_def rbind_Inr_iff format_offset_datetime_def)
  show ?thesis
  proof (cases "filter ?same (appointment_drafts db) = []")
    case True
    let ?row = "new_appointment_row T source_id d a b db"
    have r: "db' = add_draft db ?row" "s = \<lparr>sd_id = ap_id ?row, sd_source_id = source_id, sd_draft = d\<rparr>"
      using run True f by (auto simp: save_appointment_draft_in_transaction_def rbind_Inr_iff format_offset_datetime_def
          Let_def add_draft_def)
    have i: "ap_id ?row = next_id ap_id (appointment_drafts db)" "ap_idempotency_key ?row = ad_idempotency_key d"
      "ap_source_id ?row = source_id" "ap_quote_id ?row = tx_uuid_show T (ad_quote_id d)"
      by (simp_all add: new_appointment_row_def)
    have fresh: "\<forall>r \<in> set (appointment_drafts db). ap_idempotency_key r \<noteq> ap_idempotency_key ?row
        \<and> ap_source_id r \<noteq> ap_source_id ?row \<and> ap_quote_id r \<noteq> ap_quote_id ?row"
      using True by (auto simp: filter_empty_conv query_appointment_rows_by_identity_def i)
    have ids: "ids_ok ap_id (appointment_drafts db @ [?row])"
      using inv ids_ok_insert[of ap_id "appointment_drafts db" ?row] i(1) by (simp add: draft_inv_def)
    have dec: "decode_appointment_row T ?row = Inr s" using new_row_decodes[OF T d f, of db] r(2) i(1) by simp
    have "draft_inv T db'"
      using inv ids fresh dec r i(2) by (auto simp: draft_inv_def add_draft_def distinct_map_snoc simp del: map_append)
    then show ?thesis using r dec i(1) by (auto simp: exact_draft_def same_draft_def add_draft_def)
  next
    case False
    then have "db' = db" "retry_loop (decode_appointment_row T) (exact_draft source_id d) None
        (Failed (Conflict ''appointment draft'')) (filter ?same (appointment_drafts db)) None = Inr (Some s)"
      using run f by (auto simp: save_appointment_draft_in_transaction_def rbind_Inr_iff format_offset_datetime_def Let_def)
    then show ?thesis using inv retry_loop_Some[of "decode_appointment_row T"] by fastforce
  qed
qed

section \<open>The closed form of a quote row\<close>

definition frozen_decodes :: "texts \<Rightarrow> appointment_quote_slot_row list \<Rightarrow> appointment_quote_row \<Rightarrow> stored_appointment_quote \<Rightarrow> bool" where
  "frozen_decodes T slots row q \<longleftrightarrow>
     qt_quote_id row = tx_uuid_show T (q_id (sq_quote q))
     \<and> qt_appointment_kind row = appointment_kind_storage_name (sq_appointment_kind q)
     \<and> sq_timezone q = qt_timezone row \<and> str_trim (qt_timezone row) \<noteq> [] \<and> tx_zone T (qt_timezone row) = Some (qt_timezone row)
     \<and> stamp (tx_time T) (qt_issued_at row) (q_issued_at (sq_quote q))
     \<and> stamp (tx_time T) (qt_expires_at row) (q_expires_at (sq_quote q))
     \<and> odt_checked_add (q_issued_at (sq_quote q)) VALID_FOR = Some (q_expires_at (sq_quote q))
     \<and> 1 \<le> qt_slot_count row \<and> qt_slot_count row \<le> int MAX_APPOINTMENT_QUOTE_SLOTS
     \<and> int (length slots) = qt_slot_count row
     \<and> slots_written T 0 (sq_offered_slots q) slots
     \<and> slots_distinct (ak_duration (sq_appointment_kind q) * NANOS) [] (sq_offered_slots q)"

lemma utc_expiry:
  assumes "odt_checked_add a n = Some e" "is_utc a" "is_utc d" "same_instant e d"
  shows "d = e"
  using odt_checked_add_SomeD[OF assms(1)] assms(2-4) by (simp add: same_instant_def is_utc_def)

lemma timezone_Inr:
  "validate_appointment_quote_timezone T v = Inr w \<longleftrightarrow> w = v \<and> str_trim v \<noteq> [] \<and> tx_zone T v = Some v"
  by (auto simp: validate_appointment_quote_timezone_def rbind_Inr_iff)

lemma decode_frozen_Inr:
  assumes T: "texts_ok T"
  shows "decode_frozen_quote T slots row = Inr (quote, kind, zone, offered) \<longleftrightarrow>
    frozen_decodes T slots row \<lparr>sq_quote = quote, sq_appointment_kind = kind, sq_timezone = zone, sq_offered_slots = offered,
      sq_state = st, sq_selected_slot_index = i, sq_appointment_draft = d, sq_consumed_at = c, sq_proposal_id = p\<rparr>"
    (is "_ = frozen_decodes T slots row ?q")
proof
  assume "decode_frozen_quote T slots row = Inr (quote, kind, zone, offered)"
  then obtain qid t u e where f: "qt_quote_id row = tx_uuid_show T qid" "stamp (tx_time T) (qt_issued_at row) t"
      "stamp (tx_time T) (qt_expires_at row) u" "odt_checked_add t VALID_FOR = Some e" "same_instant e u"
      "quote_with_id qid t = Some quote"
    and rest: "qt_appointment_kind row = appointment_kind_storage_name kind" "zone = qt_timezone row"
      "str_trim (qt_timezone row) \<noteq> []" "tx_zone T (qt_timezone row) = Some (qt_timezone row)"
      "1 \<le> qt_slot_count row" "qt_slot_count row \<le> int MAX_APPOINTMENT_QUOTE_SLOTS" "int (length slots) = qt_slot_count row"
      "slots_written T 0 offered slots" "slots_distinct (ak_duration kind * NANOS) [] offered"
    unfolding decode_frozen_quote_def rbind_Inr_iff map_err_simps ensure_simps ok_or_simps parse_quote_id_Inr[OF T]
      qkind.of_name_iff timezone_Inr quote_time_Inr[OF T] decode_slots_Inr[OF T] by auto
  have "u = e" using utc_expiry[OF f(4)] f by (simp add: stamp_def)
  moreover have "quote = \<lparr>q_id = qid, q_issued_at = t, q_expires_at = e\<rparr>" using f(4,6) by (simp add: quote_with_id_def)
  ultimately show "frozen_decodes T slots row ?q" using f rest by (simp add: frozen_decodes_def)
next
  assume f: "frozen_decodes T slots row ?q"
  have "quote_with_id (q_id quote) (q_issued_at quote) = Some quote" "same_instant (q_expires_at quote) (q_expires_at quote)"
    using f by (auto simp: quote_with_id_def frozen_decodes_def)
  then show "decode_frozen_quote T slots row = Inr (quote, kind, zone, offered)"
    using f unfolding decode_frozen_quote_def rbind_Inr_iff map_err_simps ensure_simps ok_or_simps parse_quote_id_Inr[OF T]
      qkind.of_name_iff timezone_Inr quote_time_Inr[OF T] decode_slots_Inr[OF T]
    by (fastforce simp: frozen_decodes_def)
qed

definition draft_linked ::
    "texts \<Rightarrow> db \<Rightarrow> quote \<Rightarrow> appointment_kind \<Rightarrow> appointment_slot list \<Rightarrow> appointment_quote_row
      \<Rightarrow> 32 word option \<Rightarrow> stored_appointment_draft option \<Rightarrow> bool" where
  "draft_linked T db quote kind slots row w d \<longleftrightarrow> (\<exists>d' i r. d = Some d'
     \<and> qt_appointment_draft_id row = Some (sd_id d') \<and> 0 < sd_id d'
     \<and> qt_selected_slot_index row = Some (int i) \<and> i < length slots \<and> w = Some (word_of_nat i)
     \<and> find (\<lambda>r. ap_id r = sd_id d') (appointment_drafts db) = Some r \<and> decode_appointment_row T r = Inr d'
     \<and> ad_quote_id (sd_draft d') = q_id quote \<and> ad_kind (sd_draft d') = kind
     \<and> same_instant (ad_starts_at (sd_draft d')) (slot_starts_at (slots ! i))
     \<and> same_instant (ad_ends_at (sd_draft d')) (slot_ends_at (slots ! i)))"

definition consumption_linked :: "texts \<Rightarrow> db \<Rightarrow> appointment_quote_row \<Rightarrow> odt option \<Rightarrow> int option \<Rightarrow> bool" where
  "consumption_linked T db row c p \<longleftrightarrow> (\<exists>t i s r pp. c = Some t \<and> p = Some i \<and> 0 < i
     \<and> qt_proposal_id row = Some i \<and> qt_consumed_at row = Some s \<and> stamp (tx_time T) s t
     \<and> find (\<lambda>r. pr_id r = i) (proposals db) = Some r \<and> decode_proposal_row (tx_naive T) r = Inr pp
     \<and> appointment_draft_id (sp_source pp) = qt_appointment_draft_id row)"

definition progress_decodes ::
    "texts \<Rightarrow> db \<Rightarrow> quote \<Rightarrow> appointment_kind \<Rightarrow> appointment_slot list \<Rightarrow> quote_state \<Rightarrow> appointment_quote_row
      \<Rightarrow> 32 word option \<Rightarrow> stored_appointment_draft option \<Rightarrow> odt option \<Rightarrow> int option \<Rightarrow> bool" where
  "progress_decodes T db quote kind slots state row i d c p \<longleftrightarrow>
     (case state of
        QsIssued \<Rightarrow> qt_appointment_draft_id row = None \<and> qt_selected_slot_index row = None \<and> i = None \<and> d = None
          \<and> qt_consumed_at row = None \<and> qt_proposal_id row = None \<and> c = None \<and> p = None
      | QsPrepared \<Rightarrow> draft_linked T db quote kind slots row i d
          \<and> qt_consumed_at row = None \<and> qt_proposal_id row = None \<and> c = None \<and> p = None
      | QsConsumed \<Rightarrow> draft_linked T db quote kind slots row i d \<and> consumption_linked T db row c p)"

definition quote_row_decodes :: "texts \<Rightarrow> db \<Rightarrow> appointment_quote_row \<Rightarrow> stored_appointment_quote \<Rightarrow> bool" where
  "quote_row_decodes T db row q \<longleftrightarrow>
     frozen_decodes T (quote_slot_rows (qt_quote_id row) db) row q \<and> qt_state row = quote_state_storage_name (sq_state q)
     \<and> progress_decodes T db (sq_quote q) (sq_appointment_kind q) (sq_offered_slots q) (sq_state q) row
         (sq_selected_slot_index q) (sq_appointment_draft q) (sq_consumed_at q) (sq_proposal_id q)"

lemma selected_index_Inr: "selected_index slots i = Inr k \<longleftrightarrow> i = Some (int k) \<and> k < length slots"
  by (auto simp: selected_index_def split: option.splits if_splits)

lemma positive_id_Inr: "positive_id i = Inr k \<longleftrightarrow> i = Some k \<and> 0 < k"
  by (auto simp: positive_id_def split: option.splits if_splits)

lemma decode_id: "decode_appointment_row T r = Inr d \<Longrightarrow> sd_id d = ap_id r"
  by (auto simp: decode_appointment_row_def rbind_Inr_iff split: prod.splits if_splits)

lemma decode_found_id:
  "find (\<lambda>r. ap_id r = i) rows = Some r \<Longrightarrow> decode_appointment_row T r = Inr d \<Longrightarrow> i = sd_id d"
  using decode_id find_Some_mem by fastforce

lemma decode_linked_draft_Inr:
  "decode_linked_draft T db quote kind slots row = Inr (di, w, d) \<longleftrightarrow>
    draft_linked T db quote kind slots row (Some w) (Some d) \<and> di = sd_id d"
  unfolding decode_linked_draft_def rbind_Inr_iff or_fail_simps recover_simps positive_id_Inr selected_index_Inr ok_or_simps
  by (auto simp: draft_linked_def Let_def dest: decode_found_id split: if_splits)

lemma decode_consumption_Inr:
  assumes T: "texts_ok T" and d: "qt_appointment_draft_id row = Some di"
  shows "decode_consumption T db di row = Inr (t, p) \<longleftrightarrow> consumption_linked T db row (Some t) (Some p)"
  unfolding decode_consumption_def rbind_Inr_iff positive_id_Inr ok_or_simps quote_time_Inr[OF T] map_err_simps
  by (auto simp: consumption_linked_def d split: if_splits)

lemma draft_linked_row: "draft_linked T db quote kind slots row i d \<Longrightarrow>
  \<exists>w d'. i = Some w \<and> d = Some d' \<and> qt_appointment_draft_id row = Some (sd_id d')"
  by (auto simp: draft_linked_def)

lemma consumption_linked_Some: "consumption_linked T db row c p \<Longrightarrow> \<exists>t i. c = Some t \<and> p = Some i"
  by (auto simp: consumption_linked_def)

lemma decode_quote_progress_Inr:
  assumes T: "texts_ok T"
  shows "decode_quote_progress T db quote kind slots state row = Inr (i, d, c, p) \<longleftrightarrow>
    progress_decodes T db quote kind slots state row i d c p"
proof (cases state)
  case QsIssued
  then show ?thesis by (auto simp: decode_quote_progress_def progress_decodes_def)
next
  case QsPrepared
  then show ?thesis
    by (auto simp: decode_quote_progress_def progress_decodes_def rbind_Inr_iff decode_linked_draft_Inr
        split: if_splits) (metis draft_linked_row)
next
  case QsConsumed
  show ?thesis
  proof
    assume "decode_quote_progress T db quote kind slots state row = Inr (i, d, c, p)"
    then obtain w d' t p' where x: "draft_linked T db quote kind slots row (Some w) (Some d')"
      "decode_consumption T db (sd_id d') row = Inr (t, p')" "i = Some w" "d = Some d'" "c = Some t" "p = Some p'"
      by (auto simp: decode_quote_progress_def QsConsumed rbind_Inr_iff decode_linked_draft_Inr)
    have "qt_appointment_draft_id row = Some (sd_id d')" using draft_linked_row[OF x(1)] by auto
    from decode_consumption_Inr[OF T this] x show "progress_decodes T db quote kind slots state row i d c p"
      by (simp add: progress_decodes_def QsConsumed)
  next
    assume "progress_decodes T db quote kind slots state row i d c p"
    then have x: "draft_linked T db quote kind slots row i d" "consumption_linked T db row c p"
      by (simp_all add: progress_decodes_def QsConsumed)
    obtain w d' where l: "i = Some w" "d = Some d'" "qt_appointment_draft_id row = Some (sd_id d')"
      using draft_linked_row[OF x(1)] by blast
    obtain t p' where c: "c = Some t" "p = Some p'" using consumption_linked_Some[OF x(2)] by blast
    show "decode_quote_progress T db quote kind slots state row = Inr (i, d, c, p)"
      using x decode_consumption_Inr[OF T l(3)]
      by (simp add: decode_quote_progress_def QsConsumed rbind_Inr_iff decode_linked_draft_Inr l c)
  qed
qed

lemma decode_appointment_quote_row_Inr:
  assumes T: "texts_ok T"
  shows "decode_appointment_quote_row T db row = Inr q \<longleftrightarrow> quote_row_decodes T db row q"
proof -
  obtain quote kind zone slots st i d c p where q: "q = \<lparr>sq_quote = quote, sq_appointment_kind = kind, sq_timezone = zone,
     sq_offered_slots = slots, sq_state = st, sq_selected_slot_index = i, sq_appointment_draft = d, sq_consumed_at = c,
     sq_proposal_id = p\<rparr>"
    by (cases q)
  have "decode_appointment_quote_row T db row = Inr q \<longleftrightarrow>
      decode_frozen_quote T (quote_slot_rows (qt_quote_id row) db) row = Inr (quote, kind, zone, slots)
      \<and> qt_state row = quote_state_storage_name st
      \<and> decode_quote_progress T db quote kind slots st row = Inr (i, d, c, p)"
    by (auto simp: decode_appointment_quote_row_def q rbind_Inr_iff qstate.of_name_iff)
  then show ?thesis
    using decode_frozen_Inr[OF T, of _ row quote kind zone slots st i d c p]
    by (simp add: decode_quote_progress_Inr[OF T] quote_row_decodes_def q)
qed

end
