(* ===== verification/Store_Owner_Tasks.thy ===== *)
theory Store_Owner_Tasks
  imports Store_Quotes
begin

text \<open>
  Owner tasks of \<open>src/pa/store.rs\<close>: the immutable task drafts, and the placements that bind a draft
  to its calendar interval, its operation key and the fingerprint of the owner, from prepared to
  submitted with the one provider event that completed the task.
\<close>

section \<open>Records\<close>

record stored_owner_task =
  so_id :: int
  so_source_id :: "str option"
  so_draft :: owner_task_draft

record stored_placement =
  sp_draft_id :: int
  sp_starts_at :: odt
  sp_ends_at :: odt
  sp_timezone :: str
  sp_operation_key :: str
  sp_owner_fingerprint :: str
  sp_provider_event_id :: "str option"

definition is_submitted :: "stored_placement \<Rightarrow> bool" where
  "is_submitted p \<longleftrightarrow> sp_provider_event_id p \<noteq> None"

definition owner_invalid :: store_error where
  "owner_invalid = stored_record_invalid ''owner task draft''"

definition placement_invalid :: store_error where
  "placement_invalid = stored_record_invalid ''owner task placement''"

definition placement_conflict :: store_error where
  "placement_conflict = Conflict ''owner task placement''"

text \<open>The derived \<open>PartialEq\<close> of task drafts compares the due times as instants.\<close>

definition same_owner_task :: "owner_task_draft \<Rightarrow> owner_task_draft \<Rightarrow> bool" where
  "same_owner_task a b \<longleftrightarrow> ot_kind a = ot_kind b \<and> ot_title a = ot_title b \<and> ot_duration a = ot_duration b
     \<and> same_time (ot_due_at a) (ot_due_at b) \<and> ot_idempotency_key a = ot_idempotency_key b"

section \<open>Parsers and validators\<close>

definition validate_owner_task_timezone :: "texts \<Rightarrow> str \<Rightarrow> str store_result" where
  "validate_owner_task_timezone T v =
     map_err (\<lambda>_. InvalidInput ''timezone'') (validate_appointment_quote_timezone T v)"

definition format_owner_task_placement_datetime :: "codec \<Rightarrow> odt \<Rightarrow> str store_result" where
  "format_owner_task_placement_datetime C v =
     (let v = to_utc v in
      if nanosecond v \<noteq> 0 then Inl (InvalidInput ''owner_task_placement_time'')
      else ok_or (InvalidInput ''owner_task_placement_time'') (rfc_format C v))"

definition parse_owner_task_placement_datetime :: "codec \<Rightarrow> str \<Rightarrow> odt store_result" where
  "parse_owner_task_placement_datetime C v =
     rbind (ok_or placement_invalid (rfc_parse C v)) (\<lambda>parsed.
     let parsed = to_utc parsed in
     rbind (map_err (\<lambda>_. placement_invalid) (format_owner_task_placement_datetime C parsed)) (\<lambda>canonical.
       if canonical \<noteq> v then Inl placement_invalid else Inr parsed))"

definition u32_try_from :: "int \<Rightarrow> int option" where
  "u32_try_from n = (if 0 \<le> n \<and> n < 2 ^ 32 then Some n else None)"

section \<open>Decoding\<close>

definition decode_owner_task_row :: "codec \<Rightarrow> owner_task_row \<Rightarrow> stored_owner_task store_result" where
  "decode_owner_task_row C row =
     (if ow_id row \<le> 0 then Inl owner_invalid
      else rbind (map_err (\<lambda>_. owner_invalid) (transpose (map_option validate_source_id (ow_source_id row)))) (\<lambda>source_id.
      rbind (parse_task_kind (ow_kind row)) (\<lambda>kind.
      rbind (ok_or owner_invalid (u32_try_from (ow_duration_minutes row))) (\<lambda>duration_minutes.
      rbind (transpose (map_option (parse_offset_datetime C) (ow_due_at row))) (\<lambda>due_at.
      rbind (map_err (\<lambda>_. owner_invalid) (idempotency_key_new (ow_idempotency_key row))) (\<lambda>key.
      rbind (map_err (\<lambda>_. owner_invalid) (ot_with_duration kind (ow_title row) duration_minutes due_at key)) (\<lambda>draft.
        Inr \<lparr>so_id = ow_id row, so_source_id = source_id, so_draft = draft\<rparr>)))))))"

definition placement_columns_valid :: "texts \<Rightarrow> owner_task_placement_row \<Rightarrow> bool" where
  "placement_columns_valid T row \<longleftrightarrow>
     \<not> (pl_owner_task_draft_id row \<le> 0
        \<or> \<not> is_ok (validate_owner_task_timezone T (pl_timezone row))
        \<or> \<not> is_ok (validate_machine_identifier (pl_operation_key row) ''operation_key'')
        \<or> \<not> is_ok (validate_machine_identifier (pl_owner_fingerprint row) ''owner_fingerprint'')
        \<or> (case pl_provider_event_id row of None \<Rightarrow> False | Some e \<Rightarrow> \<not> is_ok (validate_provider_event_id e)))"

definition decode_owner_task_placement :: "texts \<Rightarrow> owner_task_placement_row \<Rightarrow> stored_placement store_result" where
  "decode_owner_task_placement T row =
     (if \<not> placement_columns_valid T row then Inl placement_invalid
      else rbind (parse_owner_task_placement_datetime (tx_time T) (pl_starts_at row)) (\<lambda>starts_at.
      rbind (parse_owner_task_placement_datetime (tx_time T) (pl_ends_at row)) (\<lambda>ends_at.
      if \<not> before starts_at ends_at then Inl placement_invalid
      else if \<not> (pl_state row = lit ''prepared'' \<and> pl_provider_event_id row = None
                  \<or> pl_state row = lit ''submitted'' \<and> pl_provider_event_id row \<noteq> None)
      then Inl placement_invalid
      else Inr \<lparr>sp_draft_id = pl_owner_task_draft_id row, sp_starts_at = starts_at, sp_ends_at = ends_at,
                sp_timezone = pl_timezone row, sp_operation_key = pl_operation_key row,
                sp_owner_fingerprint = pl_owner_fingerprint row, sp_provider_event_id = pl_provider_event_id row\<rparr>)))"

definition ensure_owner_task_draft_exists :: "codec \<Rightarrow> int \<Rightarrow> db \<Rightarrow> unit store_result" where
  "ensure_owner_task_draft_exists C i db =
     (case find (\<lambda>r. ow_id r = i) (owner_task_drafts db) of
        Some row \<Rightarrow> rbind (decode_owner_task_row C row) (\<lambda>_. Inr ())
      | None \<Rightarrow> Inl (NotFound ''owner task draft''))"

definition validate_owner_task_placement_reference :: "codec \<Rightarrow> stored_placement \<Rightarrow> db \<Rightarrow> unit store_result" where
  "validate_owner_task_placement_reference C p db =
     map_err (\<lambda>_. placement_invalid) (ensure_owner_task_draft_exists C (sp_draft_id p) db)"

section \<open>Drafts\<close>

definition query_owner_task_rows_by_identity :: "str \<Rightarrow> str option \<Rightarrow> owner_task_row \<Rightarrow> bool" where
  "query_owner_task_rows_by_identity key source_id r \<longleftrightarrow>
     ow_idempotency_key r = key \<or> source_id \<noteq> None \<and> ow_source_id r = source_id"

definition new_owner_task_row :: "str option \<Rightarrow> owner_task_draft \<Rightarrow> str option \<Rightarrow> db \<Rightarrow> owner_task_row" where
  "new_owner_task_row source_id draft due_at db =
     \<lparr>ow_id = next_id ow_id (owner_task_drafts db), ow_idempotency_key = ot_idempotency_key draft,
      ow_source_id = source_id, ow_title = ot_title draft, ow_kind = task_kind_storage_name (ot_kind draft),
      ow_duration_minutes = dm_minutes (ot_duration draft), ow_due_at = due_at\<rparr>"

text \<open>
  \<open>INSERT ... ON CONFLICT DO NOTHING\<close> with the number of inserted rows: the key and the source are
  unique, and the \<open>CHECK\<close> of the duration fails the statement.
\<close>

definition insert_owner_task ::
    "str option \<Rightarrow> owner_task_draft \<Rightarrow> str option \<Rightarrow> db \<Rightarrow> (db \<times> nat) store_result" where
  "insert_owner_task source_id draft due_at db =
     (let row = new_owner_task_row source_id draft due_at db in
      if \<not> 0 < ow_duration_minutes row then Inl SqliteError
      else if list_ex (query_owner_task_rows_by_identity (ot_idempotency_key draft) source_id) (owner_task_drafts db)
      then Inr (db, 0)
      else Inr (db\<lparr>owner_task_drafts := owner_task_drafts db @ [row]\<rparr>, 1))"

definition exact_owner_task :: "str option \<Rightarrow> owner_task_draft \<Rightarrow> stored_owner_task \<Rightarrow> bool" where
  "exact_owner_task source_id draft s \<longleftrightarrow> so_source_id s = source_id \<and> same_owner_task (so_draft s) draft"

definition save_owner_task_draft ::
    "codec \<Rightarrow> str option \<Rightarrow> owner_task_draft \<Rightarrow> db \<Rightarrow> db \<times> stored_owner_task store_result" where
  "save_owner_task_draft C source_id draft =
     run_tx (\<lambda>db.
       rbind (transpose (map_option validate_source_id source_id)) (\<lambda>source_id.
       rbind (transpose (map_option (format_offset_datetime C) (ot_due_at draft))) (\<lambda>due_at.
       rbind (insert_owner_task source_id draft due_at db) (\<lambda>(db1, inserted).
       if inserted = 1
       then Inr (db1, \<lparr>so_id = next_id ow_id (owner_task_drafts db), so_source_id = source_id, so_draft = draft\<rparr>)
       else rbind (retry_loop (decode_owner_task_row C) (exact_owner_task source_id draft) None
                     (Conflict ''owner task draft'')
                     (filter (query_owner_task_rows_by_identity (ot_idempotency_key draft) source_id) (owner_task_drafts db1))
                     None) (\<lambda>exact_retry.
            rbind (ok_or owner_invalid exact_retry) (\<lambda>stored. Inr (db1, stored)))))))"

definition load_owner_task_draft_by_id :: "codec \<Rightarrow> int \<Rightarrow> db \<Rightarrow> stored_owner_task store_result" where
  "load_owner_task_draft_by_id C i db =
     rbind (ok_or (NotFound ''owner task draft'') (find (\<lambda>r. ow_id r = i) (owner_task_drafts db)))
       (decode_owner_task_row C)"

definition load_owner_task_draft_by_idempotency_key :: "codec \<Rightarrow> str \<Rightarrow> db \<Rightarrow> stored_owner_task store_result" where
  "load_owner_task_draft_by_idempotency_key C key db =
     rbind (validate_non_empty key ''idempotency_key'') (\<lambda>key.
     rbind (ok_or (NotFound ''owner task draft'') (find (\<lambda>r. ow_idempotency_key r = key) (owner_task_drafts db)))
       (decode_owner_task_row C))"

section \<open>Placements\<close>

definition new_placement_row :: "int \<Rightarrow> str \<Rightarrow> str \<Rightarrow> str \<Rightarrow> str \<Rightarrow> str \<Rightarrow> owner_task_placement_row" where
  "new_placement_row draft_id starts_at ends_at timezone operation_key owner_fingerprint =
     \<lparr>pl_owner_task_draft_id = draft_id, pl_starts_at = starts_at, pl_ends_at = ends_at, pl_timezone = timezone,
      pl_operation_key = operation_key, pl_owner_fingerprint = owner_fingerprint, pl_provider_event_id = None,
      pl_state = lit ''prepared''\<rparr>"

text \<open>
  The insert of a placement: a trigger refuses a fingerprint that is empty or has a character
  outside of the machine alphabet, the draft has to exist, and the draft and the key are unique.
\<close>

definition fingerprint_trigger :: "str \<Rightarrow> bool" where
  "fingerprint_trigger f \<longleftrightarrow> f = [] \<or> list_ex (\<lambda>c. \<not> machine_byte c) f"

definition insert_placement :: "owner_task_placement_row \<Rightarrow> db \<Rightarrow> db store_result" where
  "insert_placement row db =
     (if fingerprint_trigger (pl_owner_fingerprint row) then Inl SqliteError
      else if list_ex (\<lambda>r. pl_owner_task_draft_id r = pl_owner_task_draft_id row \<or> pl_operation_key r = pl_operation_key row)
                (owner_task_placements db) then Inr db
      else if \<not> list_ex (\<lambda>r. ow_id r = pl_owner_task_draft_id row) (owner_task_drafts db) then Inl SqliteError
      else Inr (db\<lparr>owner_task_placements := owner_task_placements db @ [row]\<rparr>))"

text \<open>What both saving operations do once the draft is known.\<close>

definition bind_placement ::
    "texts \<Rightarrow> int \<Rightarrow> odt \<Rightarrow> odt \<Rightarrow> str \<Rightarrow> str \<Rightarrow> str \<Rightarrow> str \<Rightarrow> str \<Rightarrow> db \<Rightarrow> (db \<times> stored_placement) store_result" where
  "bind_placement T draft_id starts_at ends_at starts_at_text ends_at_text timezone operation_key owner_fingerprint db =
     rbind (insert_placement (new_placement_row draft_id starts_at_text ends_at_text timezone operation_key owner_fingerprint) db) (\<lambda>db1.
     rbind (case find (\<lambda>r. pl_owner_task_draft_id r = draft_id) (owner_task_placements db1) of
              Some row \<Rightarrow> Inr row
            | None \<Rightarrow> ok_or (NotFound ''owner task placement'')
                        (find (\<lambda>r. pl_operation_key r = operation_key) (owner_task_placements db1))) (\<lambda>row.
     rbind (decode_owner_task_placement T row) (\<lambda>placement.
     if sp_draft_id placement \<noteq> draft_id then Inl placement_conflict
     else if \<not> same_instant (sp_starts_at placement) starts_at \<or> \<not> same_instant (sp_ends_at placement) ends_at
        \<or> sp_timezone placement \<noteq> timezone \<or> sp_operation_key placement \<noteq> operation_key
        \<or> sp_owner_fingerprint placement \<noteq> owner_fingerprint
     then Inl placement_conflict
     else Inr (db1, placement))))"

definition placement_arguments ::
    "texts \<Rightarrow> odt \<Rightarrow> odt \<Rightarrow> str \<Rightarrow> str \<Rightarrow> str \<Rightarrow> (str \<times> str \<times> str \<times> str \<times> str) store_result" where
  "placement_arguments T starts_at ends_at timezone operation_key owner_fingerprint =
     rbind (validate_owner_task_timezone T timezone) (\<lambda>timezone.
     rbind (validate_machine_identifier operation_key ''operation_key'') (\<lambda>operation_key.
     rbind (validate_machine_identifier owner_fingerprint ''owner_fingerprint'') (\<lambda>owner_fingerprint.
     rbind (format_owner_task_placement_datetime (tx_time T) starts_at) (\<lambda>starts_at_text.
     rbind (format_owner_task_placement_datetime (tx_time T) ends_at) (\<lambda>ends_at_text.
       Inr (timezone, operation_key, owner_fingerprint, starts_at_text, ends_at_text))))))"

definition save_owner_task_placement ::
    "texts \<Rightarrow> int \<Rightarrow> odt \<Rightarrow> odt \<Rightarrow> str \<Rightarrow> str \<Rightarrow> str \<Rightarrow> db \<Rightarrow> db \<times> stored_placement store_result" where
  "save_owner_task_placement T draft_id starts_at ends_at timezone operation_key owner_fingerprint =
     run_tx (\<lambda>db.
       if draft_id \<le> 0 \<or> \<not> before starts_at ends_at then Inl (InvalidInput ''owner_task_placement'')
       else rbind (placement_arguments T starts_at ends_at timezone operation_key owner_fingerprint)
         (\<lambda>(timezone, operation_key, owner_fingerprint, starts_at_text, ends_at_text).
       rbind (ensure_owner_task_draft_exists (tx_time T) draft_id db) (\<lambda>_.
         bind_placement T draft_id starts_at ends_at starts_at_text ends_at_text timezone operation_key owner_fingerprint db)))"

definition save_prepared_owner_task ::
    "texts \<Rightarrow> str option \<Rightarrow> owner_task_draft \<Rightarrow> odt \<Rightarrow> odt \<Rightarrow> str \<Rightarrow> str \<Rightarrow> str \<Rightarrow> db
      \<Rightarrow> db \<times> (stored_owner_task \<times> stored_placement) store_result" where
  "save_prepared_owner_task T source_id draft starts_at ends_at timezone operation_key owner_fingerprint =
     run_tx (\<lambda>db.
       if \<not> before starts_at ends_at then Inl (InvalidInput ''owner_task_placement'')
       else rbind (transpose (map_option validate_source_id source_id)) (\<lambda>source_id.
       rbind (placement_arguments T starts_at ends_at timezone operation_key owner_fingerprint)
         (\<lambda>(timezone, operation_key, owner_fingerprint, starts_at_text, ends_at_text).
       rbind (transpose (map_option (format_offset_datetime (tx_time T)) (ot_due_at draft))) (\<lambda>due_at.
       rbind (insert_owner_task source_id draft due_at db) (\<lambda>(db1, _).
       rbind (rmap (decode_owner_task_row (tx_time T))
                (filter (query_owner_task_rows_by_identity (ot_idempotency_key draft) source_id) (owner_task_drafts db1))) (\<lambda>candidates.
       rbind (ok_or (Conflict ''owner task draft'') (find (exact_owner_task source_id draft) candidates)) (\<lambda>stored.
       rbind (bind_placement T (so_id stored) starts_at ends_at starts_at_text ends_at_text timezone operation_key
                owner_fingerprint db1) (\<lambda>(db2, placement).
         Inr (db2, stored, placement)))))))))"

definition load_owner_task_placement :: "texts \<Rightarrow> int \<Rightarrow> db \<Rightarrow> stored_placement store_result" where
  "load_owner_task_placement T i db =
     rbind (ok_or (NotFound ''owner task placement'')
              (find (\<lambda>r. pl_owner_task_draft_id r = i) (owner_task_placements db))) (\<lambda>row.
     rbind (decode_owner_task_placement T row) (\<lambda>placement.
     rbind (validate_owner_task_placement_reference (tx_time T) placement db) (\<lambda>_. Inr placement)))"

definition set_submitted :: "str \<Rightarrow> owner_task_placement_row \<Rightarrow> owner_task_placement_row" where
  "set_submitted e r = r\<lparr>pl_state := lit ''submitted'', pl_provider_event_id := Some e\<rparr>"

text \<open>The update of one placement; the provider event is unique.\<close>

definition update_submitted :: "int \<Rightarrow> str \<Rightarrow> db \<Rightarrow> db store_result" where
  "update_submitted i e db =
     (if list_ex (\<lambda>r. pl_owner_task_draft_id r = i) (owner_task_placements db)
         \<and> list_ex (\<lambda>r. pl_owner_task_draft_id r \<noteq> i \<and> pl_provider_event_id r = Some e) (owner_task_placements db)
      then Inl SqliteError
      else Inr (db\<lparr>owner_task_placements :=
                     update_rows (\<lambda>r. pl_owner_task_draft_id r = i) (set_submitted e) (owner_task_placements db)\<rparr>))"

definition submit_owner_task_placement ::
    "texts \<Rightarrow> int \<Rightarrow> str \<Rightarrow> db \<Rightarrow> db \<times> stored_placement store_result" where
  "submit_owner_task_placement T i provider_event_id =
     run_tx (\<lambda>db.
       rbind (validate_provider_event_id provider_event_id) (\<lambda>event.
       rbind (load_owner_task_placement T i db) (\<lambda>placement.
       case sp_provider_event_id placement of
         Some existing \<Rightarrow> if existing \<noteq> event then Inl placement_conflict else Inr (db, placement)
       | None \<Rightarrow>
           rbind (case find (\<lambda>r. pl_provider_event_id r = Some event) (owner_task_placements db) of
                    None \<Rightarrow> Inr ()
                  | Some row \<Rightarrow> rbind (decode_owner_task_placement T row) (\<lambda>existing.
                      if sp_draft_id existing \<noteq> i then Inl placement_conflict else Inr ())) (\<lambda>_.
           rbind (update_submitted i event db) (\<lambda>db1.
           rbind (load_owner_task_placement T i db1) (\<lambda>submitted. Inr (db1, submitted)))))))"

end
