(* ===== verification/Store_Placements.thy ===== *)
theory Store_Placements
  imports Store_Owner_Tasks
begin

text \<open>
  The life of owner tasks: the invariant of the two tables, and that every operation keeps the
  bindings that exist, so that a prepared task can be retried and is submitted with one event.
\<close>

section \<open>Closed forms\<close>

lemma u32_try_from_Some [simp]: "u32_try_from n = Some m \<longleftrightarrow> m = n \<and> 0 \<le> n \<and> n < 2 ^ 32"
  by (auto simp: u32_try_from_def)

lemma same_owner_task_refl [simp]: "same_owner_task d d"
  by (simp add: same_owner_task_def same_time_def split: option.splits)

lemma source_option_Inr:
  "transpose (map_option validate_source_id s) = Inr r \<longleftrightarrow> r = s \<and> (\<forall>x. s = Some x \<longrightarrow> source_text x)"
  by (cases s) (auto simp: transpose_Inr_iff validate_source_id_Inr)

definition parsed_option :: "codec \<Rightarrow> str option \<Rightarrow> odt option \<Rightarrow> bool" where
  "parsed_option C s d \<longleftrightarrow> (case s of None \<Rightarrow> d = None | Some v \<Rightarrow> \<exists>t. rfc_parse C v = Some t \<and> d = Some t)"

definition owner_row_decodes :: "codec \<Rightarrow> owner_task_row \<Rightarrow> stored_owner_task \<Rightarrow> bool" where
  "owner_row_decodes C row s \<longleftrightarrow>
     1 \<le> ow_id row \<and> (\<forall>x. ow_source_id row = Some x \<longrightarrow> source_text x)
     \<and> ow_kind row = task_kind_storage_name (ot_kind (so_draft s))
     \<and> 1 \<le> ow_duration_minutes row \<and> ow_duration_minutes row < 2 ^ 32
     \<and> ot_duration (so_draft s) = DurationMinutes (ow_duration_minutes row)
     \<and> parsed_option C (ow_due_at row) (ot_due_at (so_draft s))
     \<and> str_trim (ow_idempotency_key row) \<noteq> [] \<and> ot_idempotency_key (so_draft s) = str_trim (ow_idempotency_key row)
     \<and> str_trim (ow_title row) \<noteq> [] \<and> ot_title (so_draft s) = str_trim (ow_title row)
     \<and> so_id s = ow_id row \<and> so_source_id s = ow_source_id row"

lemma ot_with_duration_Inr:
  "ot_with_duration k t n due key = Inr d \<longleftrightarrow> str_trim t \<noteq> [] \<and> n \<noteq> 0
     \<and> d = \<lparr>ot_kind = k, ot_title = str_trim t, ot_duration = DurationMinutes n, ot_due_at = due, ot_idempotency_key = key\<rparr>"
  by (auto simp: ot_with_duration_def rbind_Inr_iff non_blank_Inr dm_new_def split: if_splits)

lemma due_option_Inr: "transpose (map_option (parse_offset_datetime C) s) = Inr d \<longleftrightarrow> parsed_option C s d"
  by (cases s) (auto simp: parsed_option_def transpose_Inr_iff parse_offset_datetime_def)

lemma decode_owner_task_row_Inr: "decode_owner_task_row C row = Inr s \<longleftrightarrow> owner_row_decodes C row s"
proof -
  have le: "\<not> ow_id row \<le> 0 \<longleftrightarrow> 1 \<le> ow_id row" "(0 \<le> n \<and> n < 2 ^ 32) \<and> n \<noteq> 0 \<longleftrightarrow> 1 \<le> n \<and> n < (2 ^ 32 :: int)" for n
    by auto
  show ?thesis
    unfolding decode_owner_task_row_def owner_row_decodes_def
    by (cases s; cases "so_draft s")
      (auto simp: rbind_Inr_iff source_option_Inr stored_enum_iffs due_option_Inr idempotency_key_new_def
        non_blank_Inr ot_with_duration_Inr)
qed

text \<open>A time text as placements store it: canonical, in UTC, without fractions.\<close>

definition whole_stamp :: "codec \<Rightarrow> str \<Rightarrow> odt \<Rightarrow> bool" where
  "whole_stamp C s d \<longleftrightarrow> stamp C s d \<and> nanosecond d = 0"

lemma placement_format_Inr: "format_owner_task_placement_datetime C d = Inr s \<longleftrightarrow> whole_stamp C s (to_utc d)"
  by (auto simp: format_owner_task_placement_datetime_def Let_def whole_stamp_def stamp_def is_utc_def to_utc_def)

lemma placement_parse_Inr:
  assumes T: "texts_ok T"
  shows "parse_owner_task_placement_datetime (tx_time T) s = Inr d \<longleftrightarrow> whole_stamp (tx_time T) s d"
proof
  assume "parse_owner_task_placement_datetime (tx_time T) s = Inr d"
  then show "whole_stamp (tx_time T) s d"
    by (auto simp: parse_owner_task_placement_datetime_def rbind_Inr_iff Let_def placement_format_Inr to_utc_def split: if_splits)
next
  assume s: "whole_stamp (tx_time T) s d"
  then have "rfc_parse (tx_time T) s = Some d" "to_utc d = d"
    using texts_okD(3)[OF T] by (simp_all add: whole_stamp_def stamp_def is_utc_to_utc)
  then show "parse_owner_task_placement_datetime (tx_time T) s = Inr d"
    using s by (simp add: parse_owner_task_placement_datetime_def rbind_Inr_iff placement_format_Inr Let_def)
qed

definition event_text :: "str \<Rightarrow> bool" where
  "event_text e \<longleftrightarrow> str_trim e \<noteq> [] \<and> str_len e \<le> 256 \<and> list_all is_ascii e \<and> \<not> list_ex is_control e"

lemma provider_event_Inr: "validate_provider_event_id v = Inr w \<longleftrightarrow> w = v \<and> event_text v"
  by (auto simp: validate_provider_event_id_def event_text_def store_limits)

lemma task_zone_Inr: "validate_owner_task_timezone T v = Inr w \<longleftrightarrow> w = v \<and> str_trim v \<noteq> [] \<and> tx_zone T v = Some v"
  by (simp add: validate_owner_task_timezone_def timezone_Inr)

definition placement_decodes :: "texts \<Rightarrow> owner_task_placement_row \<Rightarrow> stored_placement \<Rightarrow> bool" where
  "placement_decodes T row p \<longleftrightarrow>
     1 \<le> pl_owner_task_draft_id row \<and> str_trim (pl_timezone row) \<noteq> [] \<and> tx_zone T (pl_timezone row) = Some (pl_timezone row)
     \<and> machine_id 256 (pl_operation_key row) \<and> machine_id 256 (pl_owner_fingerprint row)
     \<and> (\<forall>e. pl_provider_event_id row = Some e \<longrightarrow> event_text e)
     \<and> whole_stamp (tx_time T) (pl_starts_at row) (sp_starts_at p) \<and> whole_stamp (tx_time T) (pl_ends_at row) (sp_ends_at p)
     \<and> before (sp_starts_at p) (sp_ends_at p)
     \<and> pl_state row = (if pl_provider_event_id row = None then lit ''prepared'' else lit ''submitted'')
     \<and> sp_draft_id p = pl_owner_task_draft_id row \<and> sp_timezone p = pl_timezone row
     \<and> sp_operation_key p = pl_operation_key row \<and> sp_owner_fingerprint p = pl_owner_fingerprint row
     \<and> sp_provider_event_id p = pl_provider_event_id row"

lemma placement_columns_iff:
  "placement_columns_valid T row \<longleftrightarrow> 1 \<le> pl_owner_task_draft_id row
     \<and> str_trim (pl_timezone row) \<noteq> [] \<and> tx_zone T (pl_timezone row) = Some (pl_timezone row)
     \<and> machine_id 256 (pl_operation_key row) \<and> machine_id 256 (pl_owner_fingerprint row)
     \<and> (\<forall>e. pl_provider_event_id row = Some e \<longrightarrow> event_text e)"
  by (auto simp: placement_columns_valid_def is_ok_iff task_zone_Inr validate_machine_identifier_eq provider_event_Inr
      split: option.splits)

lemma decode_placement_Inr:
  assumes T: "texts_ok T"
  shows "decode_owner_task_placement T row = Inr p \<longleftrightarrow> placement_decodes T row p"
proof -
  have state: "(pl_state row = lit ''prepared'' \<and> pl_provider_event_id row = None
      \<or> pl_state row = lit ''submitted'' \<and> pl_provider_event_id row \<noteq> None)
    \<longleftrightarrow> pl_state row = (if pl_provider_event_id row = None then lit ''prepared'' else lit ''submitted'')" by auto
  show ?thesis
    unfolding decode_owner_task_placement_def state placement_decodes_def
    by (cases p) (auto simp: rbind_Inr_iff placement_columns_iff placement_parse_Inr[OF T] simp del: lit_simps)
qed

section \<open>The invariant\<close>

definition owner_rows_ok :: "codec \<Rightarrow> owner_task_row list \<Rightarrow> bool" where
  "owner_rows_ok C rows \<longleftrightarrow> ids_ok ow_id rows \<and> distinct (map ow_idempotency_key rows)
     \<and> (\<forall>r \<in> set rows. \<forall>q \<in> set rows. ow_source_id r \<noteq> None \<and> ow_source_id q = ow_source_id r \<longrightarrow> q = r)
     \<and> (\<forall>r \<in> set rows. \<exists>s. decode_owner_task_row C r = Inr s \<and> ot_idempotency_key (so_draft s) = ow_idempotency_key r)"

definition placement_rows_ok :: "texts \<Rightarrow> owner_task_placement_row list \<Rightarrow> bool" where
  "placement_rows_ok T rows \<longleftrightarrow> distinct (map pl_owner_task_draft_id rows) \<and> distinct (map pl_operation_key rows)
     \<and> (\<forall>r \<in> set rows. \<forall>q \<in> set rows. pl_provider_event_id r \<noteq> None \<and> pl_provider_event_id q = pl_provider_event_id r \<longrightarrow> q = r)
     \<and> (\<forall>r \<in> set rows. \<exists>p. decode_owner_task_placement T r = Inr p)"

definition owner_inv :: "texts \<Rightarrow> db \<Rightarrow> bool" where
  "owner_inv T db \<longleftrightarrow> owner_rows_ok (tx_time T) (owner_task_drafts db) \<and> placement_rows_ok T (owner_task_placements db)
     \<and> pl_owner_task_draft_id ` set (owner_task_placements db) \<subseteq> ow_id ` set (owner_task_drafts db)"

definition placement_follows :: "stored_placement \<Rightarrow> stored_placement \<Rightarrow> bool" where
  "placement_follows p q \<longleftrightarrow> sp_draft_id q = sp_draft_id p \<and> sp_starts_at q = sp_starts_at p \<and> sp_ends_at q = sp_ends_at p
     \<and> sp_timezone q = sp_timezone p \<and> sp_operation_key q = sp_operation_key p
     \<and> sp_owner_fingerprint q = sp_owner_fingerprint p
     \<and> (is_submitted p \<longrightarrow> sp_provider_event_id q = sp_provider_event_id p)"

lemma placement_follows_refl [simp]: "placement_follows p p"
  by (simp add: placement_follows_def)

lemma placement_follows_trans: "placement_follows p q \<Longrightarrow> placement_follows q r \<Longrightarrow> placement_follows p r"
  by (auto simp: placement_follows_def is_submitted_def)

lemma draft_load_iff:
  assumes "owner_rows_ok C (owner_task_drafts db)"
  shows "load_owner_task_draft_by_id C i db = Inr s \<longleftrightarrow>
    (\<exists>r \<in> set (owner_task_drafts db). ow_id r = i \<and> decode_owner_task_row C r = Inr s)"
proof -
  have "distinct (map ow_id (owner_task_drafts db))" using assms by (simp add: owner_rows_ok_def ids_ok_distinct)
  then show ?thesis
    using find_unique[of ow_id "owner_task_drafts db"] find_Some_mem
    by (fastforce simp: load_owner_task_draft_by_id_def rbind_Inr_iff)
qed

lemma reference_ok:
  assumes "owner_rows_ok C (owner_task_drafts db)" "i \<in> ow_id ` set (owner_task_drafts db)"
  shows "ensure_owner_task_draft_exists C i db = Inr ()"
proof -
  obtain r where r: "r \<in> set (owner_task_drafts db)" "i = ow_id r" using assms(2) by blast
  then have "find (\<lambda>q. ow_id q = i) (owner_task_drafts db) = Some r"
    using assms(1) find_unique[OF ids_ok_distinct r(1)] r(2) by (simp add: owner_rows_ok_def)
  moreover obtain s where "decode_owner_task_row C r = Inr s" using assms(1) r by (auto simp: owner_rows_ok_def)
  ultimately show ?thesis by (simp add: ensure_owner_task_draft_exists_def)
qed

lemma placement_row_found:
  assumes T: "texts_ok T" and inv: "owner_inv T db" and r: "r \<in> set (owner_task_placements db)"
  shows "find (\<lambda>q. pl_owner_task_draft_id q = pl_owner_task_draft_id r) (owner_task_placements db) = Some r"
    "ensure_owner_task_draft_exists (tx_time T) (pl_owner_task_draft_id r) db = Inr ()"
  using inv r find_unique[of pl_owner_task_draft_id] reference_ok[of "tx_time T" db]
  by (auto simp: owner_inv_def placement_rows_ok_def)

lemma placement_load_iff:
  assumes T: "texts_ok T" and inv: "owner_inv T db"
  shows "load_owner_task_placement T i db = Inr p \<longleftrightarrow>
    (\<exists>r \<in> set (owner_task_placements db). pl_owner_task_draft_id r = i \<and> placement_decodes T r p)"
proof
  assume "load_owner_task_placement T i db = Inr p"
  then show "\<exists>r \<in> set (owner_task_placements db). pl_owner_task_draft_id r = i \<and> placement_decodes T r p"
    using decode_placement_Inr[OF T] find_Some_mem by (fastforce simp: load_owner_task_placement_def rbind_Inr_iff)
next
  assume "\<exists>r \<in> set (owner_task_placements db). pl_owner_task_draft_id r = i \<and> placement_decodes T r p"
  then obtain r where r: "r \<in> set (owner_task_placements db)" "pl_owner_task_draft_id r = i" "placement_decodes T r p" by blast
  then have "sp_draft_id p = i" by (simp add: placement_decodes_def)
  then show "load_owner_task_placement T i db = Inr p"
    using placement_row_found[OF T inv r(1)] r decode_placement_Inr[OF T, of r p]
    by (simp add: load_owner_task_placement_def validate_owner_task_placement_reference_def)
qed

lemma placement_load_id:
  "texts_ok T \<Longrightarrow> owner_inv T db \<Longrightarrow> load_owner_task_placement T i db = Inr p \<Longrightarrow> sp_draft_id p = i"
  by (auto simp: placement_load_iff placement_decodes_def)

section \<open>Operations on drafts\<close>

text \<open>
  How the two tables move: drafts are only added, or deleted while nothing is placed on them;
  every placement stays and keeps what it was bound to.
\<close>

definition placements_kept :: "texts \<Rightarrow> db \<Rightarrow> db \<Rightarrow> bool" where
  "placements_kept T db db' \<longleftrightarrow> owner_inv T db'
     \<and> (\<forall>i p. load_owner_task_placement T i db = Inr p \<longrightarrow>
          (\<exists>q. load_owner_task_placement T i db' = Inr q \<and> placement_follows p q)
          \<and> load_owner_task_draft_by_id (tx_time T) i db' = load_owner_task_draft_by_id (tx_time T) i db)"

lemma placements_kept_refl: "owner_inv T db \<Longrightarrow> placements_kept T db db"
  by (auto simp: placements_kept_def)

lemma placements_kept_trans: "placements_kept T db db1 \<Longrightarrow> placements_kept T db1 db2 \<Longrightarrow> placements_kept T db db2"
  unfolding placements_kept_def by (metis placement_follows_trans)

lemma placements_kept_same:
  assumes "owner_inv T db" "owner_task_drafts db' = owner_task_drafts db" "owner_task_placements db' = owner_task_placements db"
  shows "placements_kept T db db'"
  using assms by (auto simp: placements_kept_def owner_inv_def load_owner_task_placement_def load_owner_task_draft_by_id_def
      validate_owner_task_placement_reference_def ensure_owner_task_draft_exists_def intro!: exI)

text \<open>What the constructors guarantee of an \<open>OwnerTaskDraft\<close>.\<close>

definition owner_task_made :: "owner_task_draft \<Rightarrow> bool" where
  "owner_task_made d \<longleftrightarrow> owner_task_wf d \<and> dm_wf (ot_duration d)"

lemma format_due_Inr:
  "transpose (map_option (format_offset_datetime C) d) = Inr s \<longleftrightarrow>
    (case d of None \<Rightarrow> s = None | Some t \<Rightarrow> \<exists>v. rfc_format C t = Some v \<and> s = Some v)"
  by (cases d) (auto simp: transpose_Inr_iff format_offset_datetime_def)

lemma new_owner_row_decodes:
  assumes T: "texts_ok T" and d: "owner_task_made d" and src: "\<forall>x. s = Some x \<longrightarrow> source_text x"
    and due: "transpose (map_option (format_offset_datetime (tx_time T)) (ot_due_at d)) = Inr due"
  shows "decode_owner_task_row (tx_time T) (new_owner_task_row s d due db) =
    Inr \<lparr>so_id = next_id ow_id (owner_task_drafts db), so_source_id = s, so_draft = d\<rparr>"
proof -
  have "parsed_option (tx_time T) due (ot_due_at d)"
    using due texts_okD(3)[OF T] by (auto simp: format_due_Inr parsed_option_def split: option.splits)
  then show ?thesis
    using d src next_id_pos[of ow_id "owner_task_drafts db"]
    by (cases "ot_duration d") (auto simp: decode_owner_task_row_Inr owner_row_decodes_def new_owner_task_row_def
        owner_task_made_def owner_task_wf_def trimmed_text_def dm_wf_def)
qed

definition add_owner_task :: "db \<Rightarrow> owner_task_row \<Rightarrow> db" where
  "add_owner_task db r = db\<lparr>owner_task_drafts := owner_task_drafts db @ [r]\<rparr>"

lemma find_snoc: "find P xs = Some x \<Longrightarrow> find P (xs @ ys) = Some x"
  by (induction xs) auto

lemma ensure_found_snoc:
  "ensure_owner_task_draft_exists C i db = Inr () \<Longrightarrow> ensure_owner_task_draft_exists C i (add_owner_task db r) = Inr ()"
  by (auto simp: ensure_owner_task_draft_exists_def add_owner_task_def find_snoc split: option.splits)

lemma placements_kept_added:
  assumes inv: "owner_inv T db" and rows: "owner_rows_ok (tx_time T) (owner_task_drafts db @ [r])"
  shows "placements_kept T db (add_owner_task db r)"
proof -
  let ?db = "add_owner_task db r"
  have inv': "owner_inv T ?db" using inv rows by (auto simp: owner_inv_def add_owner_task_def)
  have "load_owner_task_draft_by_id (tx_time T) i ?db = load_owner_task_draft_by_id (tx_time T) i db"
    and "load_owner_task_placement T i ?db = Inr p" if p: "load_owner_task_placement T i db = Inr p" for i p
  proof -
    have ok: "ensure_owner_task_draft_exists (tx_time T) (sp_draft_id p) db = Inr ()"
      using p by (auto simp: load_owner_task_placement_def rbind_Inr_iff validate_owner_task_placement_reference_def)
    have i: "sp_draft_id p = i"
      using p find_Some_mem by (fastforce simp: load_owner_task_placement_def rbind_Inr_iff decode_owner_task_placement_def
          split: if_splits)
    then obtain x where "find (\<lambda>r. ow_id r = i) (owner_task_drafts db) = Some x"
      using ok by (auto simp: ensure_owner_task_draft_exists_def split: option.splits)
    then show "load_owner_task_draft_by_id (tx_time T) i ?db = load_owner_task_draft_by_id (tx_time T) i db"
      by (simp add: load_owner_task_draft_by_id_def add_owner_task_def find_snoc)
    show "load_owner_task_placement T i ?db = Inr p"
      using p ensure_found_snoc[OF ok] by (auto simp: load_owner_task_placement_def rbind_Inr_iff
          validate_owner_task_placement_reference_def add_owner_task_def)
  qed
  then show ?thesis using inv' by (auto simp: placements_kept_def)
qed

lemma insert_owner_task_cases:
  assumes T: "texts_ok T" and inv: "owner_inv T db" and d: "owner_task_made d" and src: "\<forall>x. s = Some x \<longrightarrow> source_text x"
    and due: "transpose (map_option (format_offset_datetime (tx_time T)) (ot_due_at d)) = Inr due"
    and run: "insert_owner_task s d due db = Inr (db1, n)"
  shows "placements_kept T db db1"
    and "n = 1 \<Longrightarrow> \<exists>r \<in> set (owner_task_drafts db1). decode_owner_task_row (tx_time T) r =
           Inr \<lparr>so_id = next_id ow_id (owner_task_drafts db), so_source_id = s, so_draft = d\<rparr>"
    and "n \<noteq> 1 \<Longrightarrow> db1 = db"
    and "n = 1 \<longleftrightarrow> \<not> list_ex (query_owner_task_rows_by_identity (ot_idempotency_key d) s) (owner_task_drafts db)"
proof -
  let ?r = "new_owner_task_row s d due db"
  let ?same = "query_owner_task_rows_by_identity (ot_idempotency_key d) s"
  have c: "db1 = (if list_ex ?same (owner_task_drafts db) then db else add_owner_task db ?r)"
    "n = (if list_ex ?same (owner_task_drafts db) then 0 else 1)"
    using run by (auto simp: insert_owner_task_def Let_def add_owner_task_def split: if_splits)
  note dec = new_owner_row_decodes[OF T d src due, of db]
  show "n = 1 \<longleftrightarrow> \<not> list_ex ?same (owner_task_drafts db)" "n \<noteq> 1 \<Longrightarrow> db1 = db" using c by auto
  show "\<exists>r \<in> set (owner_task_drafts db1). decode_owner_task_row (tx_time T) r =
           Inr \<lparr>so_id = next_id ow_id (owner_task_drafts db), so_source_id = s, so_draft = d\<rparr>" if n: "n = 1"
  proof (rule bexI[of _ ?r])
    show "?r \<in> set (owner_task_drafts db1)" using c n by (cases "list_ex ?same (owner_task_drafts db)") (simp_all add: add_owner_task_def)
  qed (rule dec)
  show "placements_kept T db db1"
  proof (cases "list_ex ?same (owner_task_drafts db)")
    case True
    then show ?thesis using c(1) placements_kept_refl[OF inv] by simp
  next
    case False
    have old: "owner_rows_ok (tx_time T) (owner_task_drafts db)" using inv by (simp add: owner_inv_def)
    have r: "ow_id ?r = next_id ow_id (owner_task_drafts db)" "ow_idempotency_key ?r = ot_idempotency_key d" "ow_source_id ?r = s"
      by (simp_all add: new_owner_task_row_def)
    have fresh: "\<forall>q \<in> set (owner_task_drafts db). ow_idempotency_key q \<noteq> ow_idempotency_key ?r
        \<and> (s = None \<or> ow_source_id q \<noteq> s)"
      using False by (auto simp: list_ex_iff query_owner_task_rows_by_identity_def r)
    have "ids_ok ow_id (owner_task_drafts db @ [?r])" using old ids_ok_insert r(1) by (auto simp: owner_rows_ok_def)
    moreover have "distinct (map ow_idempotency_key (owner_task_drafts db @ [?r]))"
      using old fresh unfolding owner_rows_ok_def distinct_map_snoc by blast
    moreover have "\<forall>a \<in> set (owner_task_drafts db @ [?r]). \<forall>b \<in> set (owner_task_drafts db @ [?r]).
        ow_source_id a \<noteq> None \<and> ow_source_id b = ow_source_id a \<longrightarrow> b = a"
    proof (intro ballI impI)
      fix a b assume "a \<in> set (owner_task_drafts db @ [?r])" "b \<in> set (owner_task_drafts db @ [?r])"
        "ow_source_id a \<noteq> None \<and> ow_source_id b = ow_source_id a"
      then show "b = a" using old fresh r(3) unfolding owner_rows_ok_def by (cases "a = ?r"; cases "b = ?r") (auto simp del: not_None_eq)
    qed
    moreover have "\<forall>a \<in> set (owner_task_drafts db @ [?r]). \<exists>s. decode_owner_task_row (tx_time T) a = Inr s
        \<and> ot_idempotency_key (so_draft s) = ow_idempotency_key a"
      using old dec r(2) by (auto simp: owner_rows_ok_def)
    ultimately have "owner_rows_ok (tx_time T) (owner_task_drafts db @ [?r])" unfolding owner_rows_ok_def by blast
    then show ?thesis using c(1) False placements_kept_added[OF inv] by simp
  qed
qed

text \<open>An exact row is the only candidate of a request.\<close>

lemma only_owner_candidate:
  assumes rows: "owner_rows_ok C rows" and r: "r \<in> set rows" "decode_owner_task_row C r = Inr x" "exact_owner_task s d x"
  shows "filter (query_owner_task_rows_by_identity (ot_idempotency_key d) s) rows = [r]"
proof (rule filter_singleton)
  have key: "ow_idempotency_key r = ot_idempotency_key d" "ow_source_id r = s"
    using rows r by (auto simp: owner_rows_ok_def exact_owner_task_def same_owner_task_def decode_owner_task_row_Inr owner_row_decodes_def)
  show "distinct rows" using rows ids_ok_distinct distinct_map unfolding owner_rows_ok_def by blast
  show "query_owner_task_rows_by_identity (ot_idempotency_key d) s r" using key by (simp add: query_owner_task_rows_by_identity_def)
  show "q = r" if "q \<in> set rows" "query_owner_task_rows_by_identity (ot_idempotency_key d) s q" for q
    using that key r(1) rows distinct_map_unique[of ow_idempotency_key rows q r]
    by (auto simp: owner_rows_ok_def query_owner_task_rows_by_identity_def)
qed (rule r(1))

section \<open>Operations on placements\<close>

definition add_placement :: "db \<Rightarrow> owner_task_placement_row \<Rightarrow> db" where
  "add_placement db r = db\<lparr>owner_task_placements := owner_task_placements db @ [r]\<rparr>"

definition bound_to :: "stored_placement \<Rightarrow> int \<Rightarrow> odt \<Rightarrow> odt \<Rightarrow> str \<Rightarrow> str \<Rightarrow> str \<Rightarrow> bool" where
  "bound_to p i a b zone key owner \<longleftrightarrow> sp_draft_id p = i \<and> same_instant (sp_starts_at p) a \<and> same_instant (sp_ends_at p) b
     \<and> sp_timezone p = zone \<and> sp_operation_key p = key \<and> sp_owner_fingerprint p = owner"

definition placement_args :: "texts \<Rightarrow> odt \<Rightarrow> odt \<Rightarrow> str \<Rightarrow> str \<Rightarrow> str \<Rightarrow> str \<Rightarrow> str \<Rightarrow> bool" where
  "placement_args T a b zone key owner u v \<longleftrightarrow> str_trim zone \<noteq> [] \<and> tx_zone T zone = Some zone
     \<and> machine_id 256 key \<and> machine_id 256 owner
     \<and> whole_stamp (tx_time T) u (to_utc a) \<and> whole_stamp (tx_time T) v (to_utc b)"

lemma placement_arguments_Inr:
  "placement_arguments T a b zone key owner = Inr (zone', key', owner', u, v) \<longleftrightarrow>
    zone' = zone \<and> key' = key \<and> owner' = owner \<and> placement_args T a b zone key owner u v"
  by (auto simp: placement_arguments_def rbind_Inr_iff task_zone_Inr validate_machine_identifier_eq placement_format_Inr
      placement_args_def)

lemma machine_id_trigger: "machine_id n f \<Longrightarrow> \<not> fingerprint_trigger f"
  by (auto simp: machine_id_def fingerprint_trigger_def list_all_iff list_ex_iff)

lemma same_instant_to_utc [simp]: "same_instant (to_utc a) a"
  by (simp add: same_instant_def to_utc_def)

lemma before_to_utc [simp]: "before (to_utc a) (to_utc b) = before a b"
  by (simp add: before_def to_utc_def)

lemma new_placement_decodes:
  assumes T: "texts_ok T" and i: "0 < i" and args: "placement_args T a b zone key owner u v" and ab: "before a b"
  shows "placement_decodes T (new_placement_row i u v zone key owner)
    \<lparr>sp_draft_id = i, sp_starts_at = to_utc a, sp_ends_at = to_utc b, sp_timezone = zone, sp_operation_key = key,
     sp_owner_fingerprint = owner, sp_provider_event_id = None\<rparr>"
  using assms(2-) by (simp add: placement_decodes_def new_placement_row_def placement_args_def del: lit_simps)

lemma find_append_None: "find P xs = None \<Longrightarrow> find P (xs @ ys) = find P ys"
  by (induction xs) auto

lemma placement_added:
  assumes T: "texts_ok T" and inv: "owner_inv T db" and i: "i \<in> ow_id ` set (owner_task_drafts db)" "0 < i"
    and args: "placement_args T a b zone key owner u v" "before a b"
    and fresh: "\<not> list_ex (\<lambda>r. pl_owner_task_draft_id r = i \<or> pl_operation_key r = key) (owner_task_placements db)"
  shows "placements_kept T db (add_placement db (new_placement_row i u v zone key owner))"
    and "load_owner_task_placement T i (add_placement db (new_placement_row i u v zone key owner)) =
      Inr \<lparr>sp_draft_id = i, sp_starts_at = to_utc a, sp_ends_at = to_utc b, sp_timezone = zone, sp_operation_key = key,
       sp_owner_fingerprint = owner, sp_provider_event_id = None\<rparr>"
proof -
  let ?r = "new_placement_row i u v zone key owner"
  let ?db = "add_placement db ?r"
  note dec = new_placement_decodes[OF T i(2) args]
  have r: "pl_owner_task_draft_id ?r = i" "pl_operation_key ?r = key" "pl_provider_event_id ?r = None"
    by (simp_all add: new_placement_row_def)
  have d: "owner_task_drafts ?db = owner_task_drafts db" "owner_task_placements ?db = owner_task_placements db @ [?r]"
    by (simp_all add: add_placement_def)
  have old: "placement_rows_ok T (owner_task_placements db)" using inv by (simp add: owner_inv_def)
  have ids: "distinct (map pl_owner_task_draft_id (owner_task_placements db @ [?r]))"
    using old fresh unfolding placement_rows_ok_def distinct_map_snoc list_ex_iff r(1) by blast
  have "distinct (map pl_operation_key (owner_task_placements db @ [?r]))"
    using old fresh unfolding placement_rows_ok_def distinct_map_snoc list_ex_iff r(2) by blast
  note ids this
  moreover have "\<forall>x \<in> set (owner_task_placements db @ [?r]). \<exists>p. decode_owner_task_placement T x = Inr p"
    using old dec decode_placement_Inr[OF T] by (auto simp: placement_rows_ok_def)
  moreover have "\<forall>x \<in> set (owner_task_placements db @ [?r]). \<forall>y \<in> set (owner_task_placements db @ [?r]).
      pl_provider_event_id x \<noteq> None \<and> pl_provider_event_id y = pl_provider_event_id x \<longrightarrow> y = x"
    using old r(3) unfolding placement_rows_ok_def by (metis UnE empty_iff empty_set set_ConsD set_append)
  ultimately have "placement_rows_ok T (owner_task_placements ?db)" unfolding d placement_rows_ok_def by blast
  then have inv': "owner_inv T ?db" using inv i(1) by (auto simp: owner_inv_def d r)
  have "load_owner_task_placement T j ?db = Inr p" if "load_owner_task_placement T j db = Inr p" for j p
    using that by (auto simp: placement_load_iff[OF T inv] placement_load_iff[OF T inv'] d)
  then show "placements_kept T db ?db" using inv' by (auto simp: placements_kept_def load_owner_task_draft_by_id_def d)
  show "load_owner_task_placement T i ?db = Inr \<lparr>sp_draft_id = i, sp_starts_at = to_utc a, sp_ends_at = to_utc b,
      sp_timezone = zone, sp_operation_key = key, sp_owner_fingerprint = owner, sp_provider_event_id = None\<rparr>"
    unfolding placement_load_iff[OF T inv'] d using dec r(1) by auto
qed

lemma load_found:
  assumes T: "texts_ok T" and inv: "owner_inv T db" and l: "load_owner_task_placement T i db = Inr p"
  shows "\<exists>r. find (\<lambda>r. pl_owner_task_draft_id r = i) (owner_task_placements db) = Some r \<and> placement_decodes T r p
    \<and> r \<in> set (owner_task_placements db) \<and> pl_owner_task_draft_id r = i"
  using l placement_row_found(1)[OF T inv] by (auto simp: placement_load_iff[OF T inv])

lemma bind_retry:
  assumes T: "texts_ok T" and inv: "owner_inv T db" and l: "load_owner_task_placement T i db = Inr p"
    and b: "bound_to p i a b zone key owner" and args: "placement_args T a b zone key owner u v"
  shows "bind_placement T i a b u v zone key owner db = Inr (db, p)"
proof -
  obtain r where r: "find (\<lambda>r. pl_owner_task_draft_id r = i) (owner_task_placements db) = Some r" "placement_decodes T r p"
    "r \<in> set (owner_task_placements db)" "pl_owner_task_draft_id r = i" using load_found[OF T inv l] by blast
  have "insert_placement (new_placement_row i u v zone key owner) db = Inr db"
    using args r(3,4) machine_id_trigger[of 256 owner] by (auto simp: insert_placement_def new_placement_row_def placement_args_def list_ex_iff)
  then show ?thesis
    using r(1,2) b decode_placement_Inr[OF T, of r p] by (simp add: bind_placement_def bound_to_def)
qed

lemma bind_placement_cases:
  assumes T: "texts_ok T" and inv: "owner_inv T db" and i: "i \<in> ow_id ` set (owner_task_drafts db)" "0 < i"
    and args: "placement_args T a b zone key owner u v" "before a b"
    and run: "bind_placement T i a b u v zone key owner db = Inr (db', p)"
  shows "placements_kept T db db' \<and> load_owner_task_placement T i db' = Inr p \<and> bound_to p i a b zone key owner"
proof -
  let ?r = "new_placement_row i u v zone key owner"
  have trig: "\<not> fingerprint_trigger (pl_owner_fingerprint ?r)"
    using args(1) machine_id_trigger[of 256 owner] by (simp add: new_placement_row_def placement_args_def)
  have same: "bound_to p i a b zone key owner"
    using run by (auto simp: bind_placement_def rbind_Inr_iff bound_to_def split: if_splits)
  show ?thesis
  proof (cases "list_ex (\<lambda>r. pl_owner_task_draft_id r = i \<or> pl_operation_key r = key) (owner_task_placements db)")
    case True
    then have "insert_placement ?r db = Inr db" using trig by (simp add: insert_placement_def new_placement_row_def)
    then obtain row where db': "db' = db" and dec: "decode_owner_task_placement T row = Inr p"
      and row: "row \<in> set (owner_task_placements db)"
      using run find_Some_mem by (fastforce simp: bind_placement_def rbind_Inr_iff split: if_splits option.splits)
    have "placement_decodes T row p" using dec decode_placement_Inr[OF T] by simp
    moreover have "pl_owner_task_draft_id row = i" using same calculation by (simp add: bound_to_def placement_decodes_def)
    ultimately show ?thesis using row same placements_kept_refl[OF inv] db' by (auto simp: placement_load_iff[OF T inv])
  next
    case False
    have "list_ex (\<lambda>r. ow_id r = i) (owner_task_drafts db)" using i(1) by (auto simp: list_ex_iff)
    then have ins: "insert_placement ?r db = Inr (add_placement db ?r)"
      using False trig by (simp add: insert_placement_def add_placement_def new_placement_row_def)
    note a = placement_added[OF T inv i args False]
    obtain x where x: "find (\<lambda>r. pl_owner_task_draft_id r = i) (owner_task_placements (add_placement db ?r)) = Some x"
      "decode_owner_task_placement T x = Inr \<lparr>sp_draft_id = i, sp_starts_at = to_utc a, sp_ends_at = to_utc b,
      sp_timezone = zone, sp_operation_key = key, sp_owner_fingerprint = owner, sp_provider_event_id = None\<rparr>"
      using a(2) by (auto simp: load_owner_task_placement_def rbind_Inr_iff)
    then have "db' = add_placement db ?r" "p = \<lparr>sp_draft_id = i, sp_starts_at = to_utc a, sp_ends_at = to_utc b,
      sp_timezone = zone, sp_operation_key = key, sp_owner_fingerprint = owner, sp_provider_event_id = None\<rparr>"
      using run ins by (auto simp: bind_placement_def)
    then show ?thesis using a same by simp
  qed
qed

section \<open>Submission\<close>

definition submitted_db :: "int \<Rightarrow> str \<Rightarrow> db \<Rightarrow> db" where
  "submitted_db i e db = db\<lparr>owner_task_placements :=
     update_rows (\<lambda>r. pl_owner_task_draft_id r = i) (set_submitted e) (owner_task_placements db)\<rparr>"

definition event_taken :: "str \<Rightarrow> db \<Rightarrow> bool" where
  "event_taken e db \<longleftrightarrow> (\<exists>r \<in> set (owner_task_placements db). pl_provider_event_id r = Some e)"

lemma set_submitted_simps [simp]:
  "pl_owner_task_draft_id (set_submitted e r) = pl_owner_task_draft_id r"
  "pl_operation_key (set_submitted e r) = pl_operation_key r"
  "pl_provider_event_id (set_submitted e r) = Some e"
  by (simp_all add: set_submitted_def)

lemma set_submitted_decodes:
  "placement_decodes T r p \<Longrightarrow> event_text e \<Longrightarrow>
    placement_decodes T (set_submitted e r) (p\<lparr>sp_provider_event_id := Some e\<rparr>)"
  by (auto simp: placement_decodes_def set_submitted_def simp del: lit_simps)

lemma submitted_db_ok:
  assumes T: "texts_ok T" and inv: "owner_inv T db" and l: "load_owner_task_placement T i db = Inr p"
    and new: "sp_provider_event_id p = None" "\<not> event_taken e db" and e: "event_text e"
  shows "placements_kept T db (submitted_db i e db)"
    and "load_owner_task_placement T i (submitted_db i e db) = Inr (p\<lparr>sp_provider_event_id := Some e\<rparr>)"
proof -
  let ?db = "submitted_db i e db" and ?rows = "owner_task_placements db"
  let ?f = "\<lambda>r. if pl_owner_task_draft_id r = i then set_submitted e r else r"
  obtain r where r: "r \<in> set ?rows" "pl_owner_task_draft_id r = i" "placement_decodes T r p"
    using l by (auto simp: placement_load_iff[OF T inv])
  have d: "owner_task_drafts ?db = owner_task_drafts db" "owner_task_placements ?db = map ?f ?rows"
    by (simp_all add: submitted_db_def update_rows_def)
  have old: "placement_rows_ok T ?rows" using inv by (simp add: owner_inv_def)
  have only: "x = r" if "x \<in> set ?rows" "pl_owner_task_draft_id x = i" for x
    using old that r(1,2) distinct_map_unique[of pl_owner_task_draft_id ?rows x r] by (simp add: placement_rows_ok_def)
  have cols: "map pl_owner_task_draft_id (map ?f ?rows) = map pl_owner_task_draft_id ?rows"
    "map pl_operation_key (map ?f ?rows) = map pl_operation_key ?rows" by auto
  then have "distinct (map pl_owner_task_draft_id (map ?f ?rows))" "distinct (map pl_operation_key (map ?f ?rows))"
    using old by (simp_all only: placement_rows_ok_def)
  moreover have "\<forall>x \<in> set (map ?f ?rows). \<forall>y \<in> set (map ?f ?rows).
      pl_provider_event_id x \<noteq> None \<and> pl_provider_event_id y = pl_provider_event_id x \<longrightarrow> y = x"
  proof (intro ballI impI)
    fix x y assume "x \<in> set (map ?f ?rows)" "y \<in> set (map ?f ?rows)"
      and eq: "pl_provider_event_id x \<noteq> None \<and> pl_provider_event_id y = pl_provider_event_id x"
    then obtain a b where ab: "a \<in> set ?rows" "x = ?f a" "b \<in> set ?rows" "y = ?f b" by auto
    have taken: "pl_provider_event_id c \<noteq> Some e" if "c \<in> set ?rows" for c using new(2) that by (auto simp: event_taken_def)
    show "y = x"
    proof (cases "pl_owner_task_draft_id a = i"; cases "pl_owner_task_draft_id b = i")
      assume "pl_owner_task_draft_id a = i" "pl_owner_task_draft_id b = i"
      then show ?thesis using ab only by auto
    next
      assume "pl_owner_task_draft_id a = i" "pl_owner_task_draft_id b \<noteq> i"
      then show ?thesis using ab eq taken[OF ab(3)] by simp
    next
      assume "pl_owner_task_draft_id a \<noteq> i" "pl_owner_task_draft_id b = i"
      then show ?thesis using ab eq taken[OF ab(1)] by simp
    next
      assume "pl_owner_task_draft_id a \<noteq> i" "pl_owner_task_draft_id b \<noteq> i"
      then show ?thesis using ab eq old by (simp add: placement_rows_ok_def)
    qed
  qed
  moreover have dec: "\<forall>x \<in> set ?rows. \<forall>q. placement_decodes T x q \<longrightarrow> placement_decodes T (?f x)
      (if pl_owner_task_draft_id x = i then q\<lparr>sp_provider_event_id := Some e\<rparr> else q)"
    using set_submitted_decodes[OF _ e] by simp
  then have "\<forall>x \<in> set (map ?f ?rows). \<exists>p. decode_owner_task_placement T x = Inr p"
  proof (intro ballI)
    fix y assume "y \<in> set (map ?f ?rows)"
    then obtain x where x: "x \<in> set ?rows" "y = ?f x" by auto
    then obtain q where "placement_decodes T x q"
      using old decode_placement_Inr[OF T] unfolding placement_rows_ok_def by blast
    then have "placement_decodes T y (if pl_owner_task_draft_id x = i then q\<lparr>sp_provider_event_id := Some e\<rparr> else q)"
      using dec x by blast
    then show "\<exists>p. decode_owner_task_placement T y = Inr p" using decode_placement_Inr[OF T] by blast
  qed
  ultimately have "placement_rows_ok T (owner_task_placements ?db)" unfolding d placement_rows_ok_def by blast
  moreover have "pl_owner_task_draft_id ` set (map ?f ?rows) = pl_owner_task_draft_id ` set ?rows"
    using cols(1) by (metis list.set_map)
  ultimately have inv': "owner_inv T ?db" using inv by (simp add: owner_inv_def d)
  have load: "load_owner_task_placement T j ?db = Inr (if j = i then q\<lparr>sp_provider_event_id := Some e\<rparr> else q)"
    if "load_owner_task_placement T j db = Inr q" for j q
  proof -
    obtain x where x: "x \<in> set ?rows" "pl_owner_task_draft_id x = j" "placement_decodes T x q"
      using \<open>load_owner_task_placement T j db = Inr q\<close> by (auto simp: placement_load_iff[OF T inv])
    have "?f x \<in> set (map ?f ?rows)" "pl_owner_task_draft_id (?f x) = j" using x(1,2) by simp_all
    moreover have "placement_decodes T (?f x) (if j = i then q\<lparr>sp_provider_event_id := Some e\<rparr> else q)"
      using dec x by blast
    ultimately show ?thesis unfolding placement_load_iff[OF T inv'] d by blast
  qed
  show "load_owner_task_placement T i ?db = Inr (p\<lparr>sp_provider_event_id := Some e\<rparr>)" using load[OF l] by simp
  have "placement_follows q (if j = i then q\<lparr>sp_provider_event_id := Some e\<rparr> else q)"
    if "load_owner_task_placement T j db = Inr q" for j q
    using that l new(1) by (auto simp: placement_follows_def is_submitted_def)
  then show "placements_kept T db ?db"
    using inv' load by (auto simp: placements_kept_def load_owner_task_draft_by_id_def d)
qed

lemma submit_task_outcome:
  assumes T: "texts_ok T" and inv: "owner_inv T db" and l: "load_owner_task_placement T i db = Inr p" and e: "event_text e"
  shows "submit_owner_task_placement T i e db =
    (case sp_provider_event_id p of
       Some x \<Rightarrow> (db, if x = e then Inr p else Inl placement_conflict)
     | None \<Rightarrow> if event_taken e db then (db, Inl placement_conflict)
               else (submitted_db i e db, Inr (p\<lparr>sp_provider_event_id := Some e\<rparr>)))"
proof (cases "sp_provider_event_id p")
  case (Some x)
  then show ?thesis
    using l e provider_event_Inr[of e e] by (auto simp: submit_owner_task_placement_def run_tx_def)
next
  case None
  obtain r where r: "r \<in> set (owner_task_placements db)" "pl_owner_task_draft_id r = i" "placement_decodes T r p"
    using l by (auto simp: placement_load_iff[OF T inv])
  show ?thesis
  proof (cases "event_taken e db")
    case True
    then have "find (\<lambda>r. pl_provider_event_id r = Some e) (owner_task_placements db) \<noteq> None"
      unfolding event_taken_def find_None_iff by blast
    then obtain x where x: "find (\<lambda>r. pl_provider_event_id r = Some e) (owner_task_placements db) = Some x" by blast
    have xm: "x \<in> set (owner_task_placements db)" "pl_provider_event_id x = Some e" using find_Some_mem[OF x] by simp_all
    obtain q where q: "decode_owner_task_placement T x = Inr q" "sp_draft_id q = pl_owner_task_draft_id x"
      using inv xm(1) decode_placement_Inr[OF T] unfolding owner_inv_def placement_rows_ok_def by (metis placement_decodes_def)
    have "pl_owner_task_draft_id x \<noteq> i"
    proof
      assume "pl_owner_task_draft_id x = i"
      then have "x = r" using inv r(1,2) xm(1) distinct_map_unique[of pl_owner_task_draft_id "owner_task_placements db" x r]
        by (simp add: owner_inv_def placement_rows_ok_def)
      then show False using xm(2) r(3) None by (simp add: placement_decodes_def)
    qed
    then show ?thesis using l e provider_event_Inr[of e e] None True x q
      by (simp add: submit_owner_task_placement_def run_tx_def)
  next
    case False
    then have f: "find (\<lambda>r. pl_provider_event_id r = Some e) (owner_task_placements db) = None"
      "\<not> list_ex (\<lambda>r. pl_owner_task_draft_id r \<noteq> i \<and> pl_provider_event_id r = Some e) (owner_task_placements db)"
      by (auto simp: event_taken_def find_None_iff list_ex_iff)
    then have "update_submitted i e db = Inr (submitted_db i e db)" by (auto simp: update_submitted_def submitted_db_def)
    then show ?thesis using l e provider_event_Inr[of e e] None False f(1) submitted_db_ok[OF T inv l None False e]
      by (simp add: submit_owner_task_placement_def run_tx_def)
  qed
qed

lemma submit_task_step:
  assumes T: "texts_ok T" and inv: "owner_inv T db" and run: "submit_owner_task_placement T i e db = (db', Inr p)"
  shows "placements_kept T db db'" "event_text e" "load_owner_task_placement T i db' = Inr p" "sp_provider_event_id p = Some e"
proof -
  have l: "event_text e" "\<exists>q. load_owner_task_placement T i db = Inr q"
    using run by (auto simp: submit_owner_task_placement_def rbind_Inr_iff provider_event_Inr)
  then obtain q where q: "load_owner_task_placement T i db = Inr q" by blast
  note out = submit_task_outcome[OF T inv q l(1)]
  show "event_text e" by (rule l(1))
  show "placements_kept T db db'" "load_owner_task_placement T i db' = Inr p" "sp_provider_event_id p = Some e"
    using out run submitted_db_ok[OF T inv q _ _ l(1)] placements_kept_refl[OF inv] q
    by (auto split: option.splits if_splits)
qed

section \<open>Saving and deleting\<close>

lemma save_draft_step:
  assumes T: "texts_ok T" and inv: "owner_inv T db" and d: "owner_task_made d"
    and run: "save_owner_task_draft (tx_time T) s d db = (db', Inr x)"
  shows "placements_kept T db db'"
proof -
  obtain due db1 n where "\<forall>x. s = Some x \<longrightarrow> source_text x"
    "transpose (map_option (format_offset_datetime (tx_time T)) (ot_due_at d)) = Inr due"
    "insert_owner_task s d due db = Inr (db1, n)" "db' = db1"
    using run by (auto simp: save_owner_task_draft_def rbind_Inr_iff source_option_Inr split: if_splits)
  then show ?thesis using insert_owner_task_cases(1)[OF T inv d] by simp
qed

lemma ensure_exists_id:
  "ensure_owner_task_draft_exists C i db = Inr () \<Longrightarrow> i \<in> ow_id ` set (owner_task_drafts db)"
  using find_Some_mem by (fastforce simp: ensure_owner_task_draft_exists_def split: option.splits)

lemma save_placement_step:
  assumes T: "texts_ok T" and inv: "owner_inv T db"
    and run: "save_owner_task_placement T i a b zone key owner db = (db', Inr p)"
  shows "placements_kept T db db' \<and> load_owner_task_placement T i db' = Inr p \<and> bound_to p i a b zone key owner"
proof -
  obtain u v where f: "0 < i" "before a b" "placement_args T a b zone key owner u v"
    "ensure_owner_task_draft_exists (tx_time T) i db = Inr ()" "bind_placement T i a b u v zone key owner db = Inr (db', p)"
    using run by (auto simp: save_owner_task_placement_def rbind_Inr_iff placement_arguments_Inr split: if_splits)
  show ?thesis by (rule bind_placement_cases[OF T inv ensure_exists_id[OF f(4)] f(1,3,2,5)])
qed

lemma exact_found:
  assumes "find (exact_owner_task s d) xs = Some x" "rmap f rows = Inr xs"
  shows "exact_owner_task s d x \<and> (\<exists>r \<in> set rows. f r = Inr x)"
proof -
  have x: "x \<in> set xs" "exact_owner_task s d x" using find_Some_mem[OF assms(1)] by simp_all
  have "list_all2 (\<lambda>r y. f r = Inr y) rows xs" using assms(2) by (simp add: rmap_Inr_iff)
  then have "\<exists>r \<in> set rows. f r = Inr x" using x(1) by (induction rule: list_all2_induct) auto
  then show ?thesis using x(2) by blast
qed

lemma prepared_step:
  assumes T: "texts_ok T" and inv: "owner_inv T db" and d: "owner_task_made d"
    and run: "save_prepared_owner_task T s d a b zone key owner db = (db', Inr (x, p))"
  shows "placements_kept T db db'" "exact_owner_task s d x" "bound_to p (so_id x) a b zone key owner"
    and "load_owner_task_draft_by_id (tx_time T) (so_id x) db' = Inr x" "load_owner_task_placement T (so_id x) db' = Inr p"
proof -
  obtain due u v db1 n xs where pre: "before a b" "\<forall>x. s = Some x \<longrightarrow> source_text x"
      "placement_args T a b zone key owner u v"
      "transpose (map_option (format_offset_datetime (tx_time T)) (ot_due_at d)) = Inr due"
      "insert_owner_task s d due db = Inr (db1, n)"
    and cand: "rmap (decode_owner_task_row (tx_time T))
        (filter (query_owner_task_rows_by_identity (ot_idempotency_key d) s) (owner_task_drafts db1)) = Inr xs"
      "find (exact_owner_task s d) xs = Some x"
    and bind: "bind_placement T (so_id x) a b u v zone key owner db1 = Inr (db', p)"
    using run by (auto simp: save_prepared_owner_task_def rbind_Inr_iff source_option_Inr placement_arguments_Inr split: if_splits)
  note ins = insert_owner_task_cases[OF T inv d pre(2,4,5)]
  have inv1: "owner_inv T db1" using ins(1) by (simp add: placements_kept_def)
  have rows1: "owner_rows_ok (tx_time T) (owner_task_drafts db1)" using inv1 by (simp add: owner_inv_def)
  obtain r where r: "r \<in> set (owner_task_drafts db1)" "decode_owner_task_row (tx_time T) r = Inr x"
    and ex: "exact_owner_task s d x" using exact_found[OF cand(2,1)] by auto
  have i: "so_id x = ow_id r" "0 < ow_id r" using r(2) by (auto simp: decode_owner_task_row_Inr owner_row_decodes_def)
  have "so_id x \<in> ow_id ` set (owner_task_drafts db1)" "0 < so_id x" using r(1) i by simp_all
  note b = bind_placement_cases[OF T inv1 this pre(3,1) bind]
  show "placements_kept T db db'" using placements_kept_trans[OF ins(1)] b by blast
  show "exact_owner_task s d x" "bound_to p (so_id x) a b zone key owner" "load_owner_task_placement T (so_id x) db' = Inr p"
    using ex b by simp_all
  have same: "owner_task_drafts db' = owner_task_drafts db1"
    using bind by (auto simp: bind_placement_def rbind_Inr_iff insert_placement_def split: if_splits option.splits)
  then show "load_owner_task_draft_by_id (tx_time T) (so_id x) db' = Inr x"
    using draft_load_iff[of "tx_time T" db'] rows1 r i(1) by auto
qed

lemma prepared_retry:
  assumes T: "texts_ok T" and inv: "owner_inv T db" and d: "owner_task_made d"
    and x: "load_owner_task_draft_by_id (tx_time T) (so_id x) db = Inr x" "exact_owner_task s d x"
    and p: "load_owner_task_placement T (so_id x) db = Inr p" "bound_to p (so_id x) a b zone key owner"
    and args: "before a b" "placement_args T a b zone key owner u v" "\<forall>x. s = Some x \<longrightarrow> source_text x"
      "transpose (map_option (format_offset_datetime (tx_time T)) (ot_due_at d)) = Inr due"
  shows "save_prepared_owner_task T s d a b zone key owner db = (db, Inr (x, p))"
proof -
  have rows: "owner_rows_ok (tx_time T) (owner_task_drafts db)" using inv by (simp add: owner_inv_def)
  obtain r where r: "r \<in> set (owner_task_drafts db)" "decode_owner_task_row (tx_time T) r = Inr x"
    using x(1) by (auto simp: draft_load_iff[OF rows])
  note only = only_owner_candidate[OF rows r x(2)]
  have "\<exists>q \<in> set (owner_task_drafts db). query_owner_task_rows_by_identity (ot_idempotency_key d) s q"
    using only by (metis filter_empty_conv list.distinct(1))
  moreover have "0 < dm_minutes (ot_duration d)" using d by (simp add: owner_task_made_def dm_wf_def)
  ultimately have ins: "insert_owner_task s d due db = Inr (db, 0)"
    by (simp add: insert_owner_task_def new_owner_task_row_def list_ex_iff)
  have "transpose (map_option validate_source_id s) = Inr s"
    "placement_arguments T a b zone key owner = Inr (zone, key, owner, u, v)"
    using args by (simp_all add: source_option_Inr placement_arguments_Inr)
  then show ?thesis
    using args(1,4) ins only r(2) x(2) bind_retry[OF T inv p args(2)] by (simp add: save_prepared_owner_task_def)
qed

lemma delete_task_step:
  assumes T: "texts_ok T" and inv: "owner_inv T db" and run: "delete_owner_task_draft_by_id i db = (db', Inr u)"
  shows "placements_kept T db db'"
proof -
  have free: "\<forall>r \<in> set (owner_task_placements db). pl_owner_task_draft_id r \<noteq> i"
    and db': "db' = db\<lparr>owner_task_drafts := filter (\<lambda>r. ow_id r \<noteq> i) (owner_task_drafts db)\<rparr>"
    using run by (auto simp: delete_owner_task_draft_by_id_def split: if_splits)
  have "owner_rows_ok (tx_time T) (filter (\<lambda>r. ow_id r \<noteq> i) (owner_task_drafts db))"
    using inv by (auto simp: owner_inv_def owner_rows_ok_def ids_ok_filter distinct_map_filter)
  then have inv': "owner_inv T db'" using inv free by (auto simp: owner_inv_def db')
  have rows: "owner_rows_ok (tx_time T) (owner_task_drafts db)" "owner_rows_ok (tx_time T) (owner_task_drafts db')"
    using inv inv' by (simp_all add: owner_inv_def)
  have "load_owner_task_placement T j db' = Inr p"
    "load_owner_task_draft_by_id (tx_time T) j db' = load_owner_task_draft_by_id (tx_time T) j db"
    if "load_owner_task_placement T j db = Inr p" for j p
  proof -
    show "load_owner_task_placement T j db' = Inr p"
      using \<open>load_owner_task_placement T j db = Inr p\<close>
      unfolding placement_load_iff[OF T inv] placement_load_iff[OF T inv'] by (simp add: db')
    have "j \<noteq> i" using \<open>load_owner_task_placement T j db = Inr p\<close> free by (auto simp: placement_load_iff[OF T inv])
    then have "find (\<lambda>r. ow_id r = j) (filter (\<lambda>r. ow_id r \<noteq> i) rows) = find (\<lambda>r. ow_id r = j) rows"
      for rows :: "owner_task_row list"
      by (induction rows) auto
    then show "load_owner_task_draft_by_id (tx_time T) j db' = load_owner_task_draft_by_id (tx_time T) j db"
      by (simp add: load_owner_task_draft_by_id_def db')
  qed
  then show ?thesis using inv' by (auto simp: placements_kept_def)
qed

section \<open>Runs\<close>

text \<open>Every successful operation on owner tasks, and any operation on the other tables.\<close>

inductive owner_step :: "texts \<Rightarrow> db \<Rightarrow> db \<Rightarrow> bool" for T where
  draft_saved: "owner_task_made d \<Longrightarrow> save_owner_task_draft (tx_time T) s d db = (db', Inr x) \<Longrightarrow> owner_step T db db'"
| placement_saved: "save_owner_task_placement T i a b zone key owner db = (db', Inr p) \<Longrightarrow> owner_step T db db'"
| prepared: "owner_task_made d \<Longrightarrow> save_prepared_owner_task T s d a b zone key owner db = (db', Inr xp) \<Longrightarrow> owner_step T db db'"
| submitted: "submit_owner_task_placement T i e db = (db', Inr p) \<Longrightarrow> owner_step T db db'"
| deleted: "delete_owner_task_draft_by_id i db = (db', Inr u) \<Longrightarrow> owner_step T db db'"
| elsewhere: "owner_task_drafts db' = owner_task_drafts db \<Longrightarrow> owner_task_placements db' = owner_task_placements db
    \<Longrightarrow> owner_step T db db'"

lemma owner_step_keeps:
  assumes T: "texts_ok T" and inv: "owner_inv T db"
  shows "owner_step T db db' \<Longrightarrow> placements_kept T db db'"
proof (induction rule: owner_step.cases)
  case (prepared d s a b zone key owner db db' xp)
  then show ?case using prepared_step(1)[OF T] inv by (cases xp) auto
qed (use inv save_draft_step[OF T] save_placement_step[OF T] submit_task_step(1)[OF T] delete_task_step[OF T]
      placements_kept_same in auto)

lemma owner_run_keeps:
  assumes T: "texts_ok T" and inv: "owner_inv T db" and run: "(owner_step T)\<^sup>*\<^sup>* db db'"
  shows "placements_kept T db db'"
  using run
proof (induction rule: rtranclp_induct)
  case base
  show ?case using placements_kept_refl[OF inv] .
next
  case (step db1 db2)
  then have "owner_inv T db1" by (simp add: placements_kept_def)
  then show ?case using owner_step_keeps[OF T _ step(2)] placements_kept_trans[OF step(3)] by blast
qed

end
