(* ===== verification/Store_Quote_Life.thy ===== *)
theory Store_Quote_Life
  imports Store_Quotes
begin

text \<open>
  The life of an appointment quote. \<open>quote_inv\<close> is the invariant of the draft, proposal and quote
  tables: every row decodes, and the rows a quote refers to are there. \<open>quote_step\<close> is one
  successful call of any operation that writes those tables; it preserves the invariant, never
  changes the frozen part of a quote and moves its state only forward.
\<close>

section \<open>The invariant\<close>

definition quote_inv :: "texts \<Rightarrow> db \<Rightarrow> bool" where
  "quote_inv T db \<longleftrightarrow> draft_inv T db \<and> proposal_inv (tx_naive T) db
     \<and> distinct (map qt_quote_id (appointment_quotes db))
     \<and> (\<forall>s \<in> set (appointment_quote_slots db). qs_quote_id s \<in> qt_quote_id ` set (appointment_quotes db))
     \<and> (\<forall>row \<in> set (appointment_quotes db). \<exists>q. quote_row_decodes T db row q)"

text \<open>
  The rows the quotes of \<open>db\<close> refer to are still there in \<open>db'\<close>; a proposal may have been decided.
\<close>

definition same_proposal :: "stored_proposal \<Rightarrow> stored_proposal \<Rightarrow> bool" where
  "same_proposal p p' \<longleftrightarrow> sp_id p' = sp_id p \<and> sp_idempotency_key p' = sp_idempotency_key p
     \<and> sp_source_id p' = sp_source_id p \<and> sp_source p' = sp_source p"

lemma same_proposal_refl [simp]: "same_proposal p p"
  by (simp add: same_proposal_def)

definition backing_kept :: "texts \<Rightarrow> db \<Rightarrow> db \<Rightarrow> bool" where
  "backing_kept T db db' \<longleftrightarrow> (\<forall>row \<in> set (appointment_quotes db).
     quote_slot_rows (qt_quote_id row) db' = quote_slot_rows (qt_quote_id row) db
     \<and> (\<forall>i r. qt_appointment_draft_id row = Some i \<longrightarrow> find (\<lambda>r. ap_id r = i) (appointment_drafts db) = Some r \<longrightarrow>
          find (\<lambda>r. ap_id r = i) (appointment_drafts db') = Some r)
     \<and> (\<forall>i r p. qt_proposal_id row = Some i \<longrightarrow> find (\<lambda>r. pr_id r = i) (proposals db) = Some r \<longrightarrow>
          decode_proposal_row (tx_naive T) r = Inr p \<longrightarrow>
          (\<exists>r' p'. find (\<lambda>r. pr_id r = i) (proposals db') = Some r' \<and> decode_proposal_row (tx_naive T) r' = Inr p'
             \<and> same_proposal p p')))"

lemma decodes_kept:
  assumes k: "backing_kept T db db'" and row: "row \<in> set (appointment_quotes db)" and d: "quote_row_decodes T db row q"
  shows "quote_row_decodes T db' row q"
proof -
  have s: "quote_slot_rows (qt_quote_id row) db' = quote_slot_rows (qt_quote_id row) db"
    and f: "\<And>i r. qt_appointment_draft_id row = Some i \<Longrightarrow> find (\<lambda>r. ap_id r = i) (appointment_drafts db) = Some r \<Longrightarrow>
          find (\<lambda>r. ap_id r = i) (appointment_drafts db') = Some r"
    and p: "\<And>i r p. qt_proposal_id row = Some i \<Longrightarrow> find (\<lambda>r. pr_id r = i) (proposals db) = Some r \<Longrightarrow>
          decode_proposal_row (tx_naive T) r = Inr p \<Longrightarrow>
          \<exists>r' p'. find (\<lambda>r. pr_id r = i) (proposals db') = Some r' \<and> decode_proposal_row (tx_naive T) r' = Inr p'
             \<and> same_proposal p p'"
    using k row unfolding backing_kept_def by blast+
  have linked: "draft_linked T db a b c row w d \<Longrightarrow> draft_linked T db' a b c row w d" for a b c w d
    unfolding draft_linked_def using f by blast
  have consumed: "consumption_linked T db row c p \<Longrightarrow> consumption_linked T db' row c p" for c p
    unfolding consumption_linked_def using p unfolding same_proposal_def by metis
  show ?thesis
    using d linked consumed by (auto simp: quote_row_decodes_def progress_decodes_def s split: quote_state.splits)
qed

lemma quote_row_decodes_quotes [simp]:
  "quote_row_decodes T (db\<lparr>appointment_quotes := rows\<rparr>) row q = quote_row_decodes T db row q"
  by (simp add: quote_row_decodes_def progress_decodes_def draft_linked_def consumption_linked_def quote_slot_rows_def
      split: quote_state.split)

lemma quote_row_id: "quote_row_decodes T db row q \<Longrightarrow> qt_quote_id row = tx_uuid_show T (q_id (sq_quote q))"
  by (simp add: quote_row_decodes_def frozen_decodes_def)

lemma quote_row_state: "quote_row_decodes T db row q \<Longrightarrow> qt_state row = quote_state_storage_name (sq_state q)"
  by (simp add: quote_row_decodes_def)

text \<open>Reading a quote by its identity.\<close>

lemma quote_by_id:
  assumes T: "texts_ok T" and inv: "quote_inv T db"
  shows "decode_appointment_quote_by_id T u db = Inr q \<longleftrightarrow>
    (\<exists>row \<in> set (appointment_quotes db). qt_quote_id row = tx_uuid_show T u \<and> quote_row_decodes T db row q)"
proof
  assume "decode_appointment_quote_by_id T u db = Inr q"
  then obtain row where "find (\<lambda>r. qt_quote_id r = tx_uuid_show T u) (appointment_quotes db) = Some row"
    "decode_appointment_quote_row T db row = Inr q"
    by (auto simp: decode_appointment_quote_by_id_def split: option.splits if_splits)
  then show "\<exists>row \<in> set (appointment_quotes db). qt_quote_id row = tx_uuid_show T u \<and> quote_row_decodes T db row q"
    using find_Some_mem decode_appointment_quote_row_Inr[OF T] by fastforce
next
  assume "\<exists>row \<in> set (appointment_quotes db). qt_quote_id row = tx_uuid_show T u \<and> quote_row_decodes T db row q"
  then obtain row where row: "row \<in> set (appointment_quotes db)" "qt_quote_id row = tx_uuid_show T u" "quote_row_decodes T db row q"
    by blast
  have "distinct (map qt_quote_id (appointment_quotes db))" using inv by (simp add: quote_inv_def)
  from find_unique[OF this row(1)] show "decode_appointment_quote_by_id T u db = Inr q"
    using row decode_appointment_quote_row_Inr[OF T] by (simp add: decode_appointment_quote_by_id_def)
qed

lemma quote_by_id_total:
  assumes T: "texts_ok T" and inv: "quote_inv T db"
  shows "(\<exists>q. decode_appointment_quote_by_id T u db = Inr q \<and> q_id (sq_quote q) = u)
    \<or> (decode_appointment_quote_by_id T u db = Inl (Failed (NotFound ''appointment quote''))
       \<and> (\<forall>row \<in> set (appointment_quotes db). qt_quote_id row \<noteq> tx_uuid_show T u))"
proof (cases "\<exists>row \<in> set (appointment_quotes db). qt_quote_id row = tx_uuid_show T u")
  case True
  then obtain row q where row: "row \<in> set (appointment_quotes db)" "qt_quote_id row = tx_uuid_show T u" "quote_row_decodes T db row q"
    using inv by (auto simp: quote_inv_def)
  then have "q_id (sq_quote q) = u" using quote_row_id uuid_show_inject[OF T] by metis
  then show ?thesis using row quote_by_id[OF T inv] by blast
next
  case False
  have lower: "to_ascii_lowercase (qt_quote_id row) = qt_quote_id row" if "row \<in> set (appointment_quotes db)" for row
  proof -
    obtain q where "quote_row_decodes T db row q" using inv \<open>row \<in> _\<close> by (auto simp: quote_inv_def)
    from quote_row_id[OF this] T show ?thesis by (simp add: texts_ok_def)
  qed
  have "find (\<lambda>r. qt_quote_id r = tx_uuid_show T u) (appointment_quotes db) = None"
    using False by (simp add: find_None_iff)
  moreover have "\<not> list_ex (\<lambda>r. eq_ignore_ascii_case (qt_quote_id r) (tx_uuid_show T u)) (appointment_quotes db)"
    using False lower T by (auto simp: list_ex_iff eq_ignore_ascii_case_def texts_ok_def)
  ultimately show ?thesis using False by (simp add: decode_appointment_quote_by_id_def)
qed

text \<open>A step that leaves the quotes and what they refer to leaves every read of a quote.\<close>

lemma inv_kept:
  assumes inv: "quote_inv T db" and k: "backing_kept T db db'"
    and q: "appointment_quotes db' = appointment_quotes db" "appointment_quote_slots db' = appointment_quote_slots db"
    and inv': "draft_inv T db'" "proposal_inv (tx_naive T) db'"
  shows "quote_inv T db'"
  using inv inv' decodes_kept[OF k] unfolding quote_inv_def q by blast

lemma reads_kept:
  assumes T: "texts_ok T" and inv: "quote_inv T db" "quote_inv T db'" and k: "backing_kept T db db'"
    and sub: "set (appointment_quotes db) \<subseteq> set (appointment_quotes db')"
    and r: "decode_appointment_quote_by_id T u db = Inr q"
  shows "decode_appointment_quote_by_id T u db' = Inr q"
  using r sub decodes_kept[OF k] unfolding quote_by_id[OF T inv(1)] quote_by_id[OF T inv(2)] by blast

text \<open>Rewriting one quote row.\<close>

lemma quote_rewritten:
  assumes T: "texts_ok T" and inv: "quote_inv T db" and row: "row \<in> set (appointment_quotes db)"
    and f: "\<And>r. qt_quote_id (f r) = qt_quote_id r" and d: "quote_row_decodes T db (f row) q"
    and db': "db' = db\<lparr>appointment_quotes := update_rows (\<lambda>r. qt_quote_id r = qt_quote_id row) f (appointment_quotes db)\<rparr>"
  shows "quote_inv T db'" and "decode_appointment_quote_by_id T (q_id (sq_quote q)) db' = Inr q"
    and "u \<noteq> q_id (sq_quote q) \<Longrightarrow> decode_appointment_quote_by_id T u db = Inr p \<Longrightarrow> decode_appointment_quote_by_id T u db' = Inr p"
proof -
  let ?rows = "update_rows (\<lambda>r. qt_quote_id r = qt_quote_id row) f (appointment_quotes db)"
  have dist: "distinct (map qt_quote_id (appointment_quotes db))" using inv by (simp add: quote_inv_def)
  have ids: "map qt_quote_id ?rows = map qt_quote_id (appointment_quotes db)" using update_rows_key f by metis
  have all: "\<forall>r \<in> set ?rows. \<exists>q. quote_row_decodes T db r q"
    using update_rows_all[OF dist row, of "\<lambda>r. \<exists>q. quote_row_decodes T db r q" f] inv d by (auto simp: quote_inv_def)
  have slots: "qt_quote_id ` set ?rows = qt_quote_id ` set (appointment_quotes db)" using ids by (metis list.set_map)
  show inv': "quote_inv T db'"
    using inv all ids slots by (auto simp: quote_inv_def db' draft_inv_def proposal_inv_def)
  have new: "f row \<in> set ?rows" using row by (auto simp: update_rows_def)
  show "decode_appointment_quote_by_id T (q_id (sq_quote q)) db' = Inr q"
    unfolding quote_by_id[OF T inv'] using new d quote_row_id[OF d] by (intro bexI[of _ "f row"]) (simp_all add: db')
  assume u: "u \<noteq> q_id (sq_quote q)" and p: "decode_appointment_quote_by_id T u db = Inr p"
  then obtain r where r: "r \<in> set (appointment_quotes db)" "qt_quote_id r = tx_uuid_show T u" "quote_row_decodes T db r p"
    unfolding quote_by_id[OF T inv] by blast
  have "qt_quote_id r \<noteq> qt_quote_id row"
    using u r(2) quote_row_id[OF d] f uuid_show_inject[OF T] by metis
  then have "r \<in> set ?rows" using r(1) by (force simp: update_rows_def)
  then show "decode_appointment_quote_by_id T u db' = Inr p"
    unfolding quote_by_id[OF T inv'] using r by (auto simp: db')
qed

section \<open>Steps on drafts and proposals\<close>

lemma find_filter_neq: "find (\<lambda>r. k r = i) (filter (\<lambda>r. k r \<noteq> j) rows) = (if i = j then None else find (\<lambda>r. k r = i) rows)"
  by (induction rows) auto

lemma find_snoc_Some: "find p xs = Some x \<Longrightarrow> find p (xs @ ys) = Some x"
  by (simp add: find_append)

text \<open>What an operation leaves of the quotes: all of them, with everything they refer to.\<close>

definition quotes_kept :: "texts \<Rightarrow> db \<Rightarrow> db \<Rightarrow> bool" where
  "quotes_kept T db db' \<longleftrightarrow> appointment_quotes db' = appointment_quotes db
     \<and> appointment_quote_slots db' = appointment_quote_slots db \<and> backing_kept T db db'
     \<and> draft_inv T db' \<and> proposal_inv (tx_naive T) db'"

lemma quotes_kept_refl: "quote_inv T db \<Longrightarrow> quotes_kept T db db"
  by (auto simp: quotes_kept_def backing_kept_def quote_inv_def)

lemma quotes_kept_inv: "quote_inv T db \<Longrightarrow> quotes_kept T db db' \<Longrightarrow> quote_inv T db'"
  using inv_kept by (auto simp: quotes_kept_def)

lemma quotes_kept_reads:
  assumes "texts_ok T" "quote_inv T db" "quotes_kept T db db'" "decode_appointment_quote_by_id T u db = Inr q"
  shows "decode_appointment_quote_by_id T u db' = Inr q"
  by (rule reads_kept[OF assms(1,2) quotes_kept_inv[OF assms(2,3)] _ _ assms(4)]) (use assms(3) in \<open>simp_all add: quotes_kept_def\<close>)

lemma quotes_kept_add_draft:
  "quote_inv T db \<Longrightarrow> draft_inv T (add_draft db row) \<Longrightarrow> quotes_kept T db (add_draft db row)"
  by (auto simp: quotes_kept_def backing_kept_def add_draft_def quote_slot_rows_def quote_inv_def proposal_inv_def find_snoc_Some)

lemma quotes_kept_add_proposal:
  "quote_inv T db \<Longrightarrow> proposal_inv (tx_naive T) (add_proposal db row) \<Longrightarrow> quotes_kept T db (add_proposal db row)"
  by (auto simp: quotes_kept_def backing_kept_def add_proposal_def quote_slot_rows_def quote_inv_def draft_inv_def find_snoc_Some)

lemma create_proposal_cases:
  assumes inv: "proposal_inv N db" and run: "create_proposal_in_transaction N key s src clk db = Inr (db', p)"
  shows "proposal_inv N db' \<and> (db' = db \<or> db' = add_proposal db (new_proposal_row key s src clk db))
    \<and> sp_source p = src \<and> (\<exists>row \<in> set (proposals db'). decode_proposal_row N row = Inr p)"
proof (cases "filter (query_proposal_rows_by_identity key s) (proposals db) = []")
  case True
  let ?row = "new_proposal_row key s src clk db"
  have d: "decode_proposal_row N ?row = Inr p" "db' = add_proposal db ?row"
    using run True by (auto simp: create_proposal_in_transaction_def rbind_Inr_iff Let_def add_proposal_def)
  have "sp_source p = src"
    using d(1) by (auto simp: decode_proposal_row_Inr proposal_row_decodes_def new_proposal_row_def intro: source_ids_inject)
  then show ?thesis using new_proposal_inv[OF inv True d(1)] d by (auto simp: add_proposal_def)
next
  case False
  then have "db' = db" "retry_loop (decode_proposal_row N) (exact_proposal key s src) None (Conflict ''proposal'')
      (filter (query_proposal_rows_by_identity key s) (proposals db)) None = Inr (Some p)"
    using run by (auto simp: create_proposal_in_transaction_def rbind_Inr_iff Let_def)
  then show ?thesis using inv retry_loop_Some[of "decode_proposal_row N"] by (fastforce simp: exact_proposal_def)
qed

lemma create_proposal_fields:
  assumes inv: "proposal_inv N db" and run: "create_proposal_in_transaction N key s src clk db = Inr (db', p)"
  shows "sp_source p = src" "sp_source_id p = s" "sp_idempotency_key p = str_trim key"
proof -
  show "sp_source p = src" using create_proposal_cases[OF inv run] by blast
  have "sp_source_id p = s \<and> sp_idempotency_key p = str_trim key"
  proof (cases "filter (query_proposal_rows_by_identity key s) (proposals db) = []")
    case True
    then have "decode_proposal_row N (new_proposal_row key s src clk db) = Inr p"
      using run by (auto simp: create_proposal_in_transaction_def rbind_Inr_iff Let_def)
    then show ?thesis by (simp add: decode_proposal_row_Inr proposal_row_decodes_def new_proposal_row_def)
  next
    case False
    then have "retry_loop (decode_proposal_row N) (exact_proposal key s src) None (Conflict ''proposal'')
        (filter (query_proposal_rows_by_identity key s) (proposals db)) None = Inr (Some p)"
      using run by (auto simp: create_proposal_in_transaction_def rbind_Inr_iff Let_def)
    then obtain r where "decode_proposal_row N r = Inr p" "exact_proposal key s src p" using retry_loop_Some by fastforce
    then show ?thesis by (auto simp: decode_proposal_row_Inr proposal_row_decodes_def exact_proposal_def)
  qed
  then show "sp_source_id p = s" "sp_idempotency_key p = str_trim key" by blast+
qed

lemma quotes_kept_created:
  assumes inv: "quote_inv T db" and run: "create_proposal_in_transaction (tx_naive T) key s src clk db = Inr (db', p)"
  shows "quotes_kept T db db'"
  using create_proposal_cases[OF _ run] inv quotes_kept_refl[OF inv] quotes_kept_add_proposal[OF inv]
  by (auto simp: quote_inv_def)

lemma quotes_kept_saved_draft:
  assumes T: "texts_ok T" and inv: "quote_inv T db" and d: "draft_made d" "source_text s"
    and run: "save_appointment_draft_in_transaction T s d db = Inr (db', st)"
  shows "quotes_kept T db db'"
  using save_draft_cases[OF T _ d run] inv quotes_kept_refl[OF inv] quotes_kept_add_draft[OF inv]
  by (auto simp: quote_inv_def)

lemma quotes_kept_decided:
  assumes inv: "quote_inv T db" and run: "transition_proposal (tx_naive T) i n clk db = (db', Inr p)"
  shows "quotes_kept T db db'"
proof -
  have pinv: "proposal_inv (tx_naive T) db" using inv by (simp add: quote_inv_def)
  obtain row q where row: "row \<in> set (proposals db)" "pr_id row = i" "decode_proposal_row (tx_naive T) row = Inr q"
    using transition_proposal_found[OF run] by blast
  have c: "db' = db \<or> (tx_naive T clk = Some clk \<and> db' = with_proposal_state i n clk db)"
    using transition_proposal_row[OF pinv row(1,3), of n clk] run row(2) by (auto split: if_splits)
  show ?thesis
  proof (cases "db' = db")
    case True
    then show ?thesis using quotes_kept_refl[OF inv] by simp
  next
    case False
    then have u: "tx_naive T clk = Some clk" "db' = with_proposal_state i n clk db" using c by auto
    have inv': "proposal_inv (tx_naive T) db'" using with_proposal_state_inv[OF pinv row(1) u(1), of n] row(2) u(2) by simp
    have "\<exists>r' p'. find (\<lambda>r. pr_id r = j) (proposals db') = Some r' \<and> decode_proposal_row (tx_naive T) r' = Inr p'
        \<and> same_proposal p p'"
      if "find (\<lambda>r. pr_id r = j) (proposals db) = Some r" "decode_proposal_row (tx_naive T) r = Inr p" for j r p
      using that u(1) decode_set_proposal_state[OF that(2), of n clk]
      by (cases "pr_id r = i") (auto simp: u(2) with_proposal_state_def find_update_rows same_proposal_def)
    then show ?thesis
      using inv inv' by (auto simp: quotes_kept_def backing_kept_def u(2) with_proposal_state_def quote_slot_rows_def
          quote_inv_def draft_inv_def)
  qed
qed

lemma quotes_kept_proposal_deleted:
  assumes inv: "quote_inv T db" and run: "delete_proposal_by_id i db = (db', Inr u)"
  shows "quotes_kept T db db'"
proof -
  have q: "\<forall>q \<in> set (appointment_quotes db). qt_proposal_id q \<noteq> Some i"
    and db': "proposals db' = filter (\<lambda>r. pr_id r \<noteq> i) (proposals db)" "appointment_quotes db' = appointment_quotes db"
      "appointment_quote_slots db' = appointment_quote_slots db" "appointment_drafts db' = appointment_drafts db"
    using run by (auto simp: delete_proposal_by_id_def delete_mappings_def Let_def split: if_splits)
  have "proposal_inv (tx_naive T) db'"
    using inv by (auto simp: quote_inv_def proposal_inv_def db' ids_ok_filter distinct_map_filter)
  then show ?thesis
    using inv q by (fastforce simp: quotes_kept_def backing_kept_def db' quote_slot_rows_def quote_inv_def draft_inv_def find_filter_neq)
qed

lemma quotes_kept_draft_deleted:
  assumes inv: "quote_inv T db" and run: "delete_appointment_draft_by_id i db = (db', Inr u)"
  shows "quotes_kept T db db'"
proof -
  have q: "\<forall>q \<in> set (appointment_quotes db). qt_appointment_draft_id q \<noteq> Some i"
    and db': "db' = db\<lparr>appointment_drafts := filter (\<lambda>r. ap_id r \<noteq> i) (appointment_drafts db)\<rparr>"
    using run by (auto simp: delete_appointment_draft_by_id_def split: if_splits)
  have "draft_inv T db'" using inv by (auto simp: quote_inv_def draft_inv_def db' ids_ok_filter distinct_map_filter)
  then show ?thesis
    using inv q by (fastforce simp: quotes_kept_def backing_kept_def db' quote_slot_rows_def quote_inv_def proposal_inv_def find_filter_neq)
qed

lemma quotes_kept_same:
  assumes inv: "quote_inv T db"
    and "appointment_quotes db' = appointment_quotes db" "appointment_quote_slots db' = appointment_quote_slots db"
      "appointment_drafts db' = appointment_drafts db" "proposals db' = proposals db"
  shows "quotes_kept T db db'"
  using inv assms(2-) by (auto simp: quotes_kept_def backing_kept_def quote_slot_rows_def quote_inv_def draft_inv_def proposal_inv_def)

lemma quotes_kept_proposal_step:
  assumes inv: "quote_inv T db" and step: "proposal_step C (tx_naive T) db db'"
  shows "quotes_kept T db db'"
  using step
proof cases
  case (created key source_id source clk p)
  then show ?thesis using quotes_kept_created[OF inv]
    by (auto simp: create_proposal_def rbind_Inr_iff validate_non_empty_Inr validate_source_id_Inr)
next
  case (attached rq clk m)
  then show ?thesis using quotes_kept_same[OF inv]
    by (auto simp: attach_event_mapping_Inr add_mapping_def split: if_splits)
next
  case (mapping_deleted i u)
  then show ?thesis using quotes_kept_same[OF inv]
    by (auto simp: delete_event_mapping_by_id_def delete_mappings_def split: if_splits)
next
  case (owner_task_draft_deleted i u)
  then show ?thesis using quotes_kept_same[OF inv]
    by (auto simp: delete_owner_task_draft_by_id_def split: if_splits)
qed (use quotes_kept_decided[OF inv] quotes_kept_proposal_deleted[OF inv] quotes_kept_draft_deleted[OF inv] in auto)

section \<open>Saving, preparing and submitting a quote\<close>

text \<open>The forward steps of one quote.\<close>

inductive quote_life :: "stored_appointment_quote \<Rightarrow> stored_appointment_quote \<Rightarrow> bool" where
  prepared: "sq_state q = QsIssued \<Longrightarrow> unat w < length (sq_offered_slots q) \<Longrightarrow>
     same_instant (ad_starts_at (sd_draft d)) (slot_starts_at (sq_offered_slots q ! unat w)) \<Longrightarrow>
     same_instant (ad_ends_at (sd_draft d)) (slot_ends_at (sq_offered_slots q ! unat w)) \<Longrightarrow>
     quote_life q (q\<lparr>sq_state := QsPrepared, sq_selected_slot_index := Some w, sq_appointment_draft := Some d\<rparr>)"
| consumed: "sq_state q = QsPrepared \<Longrightarrow> quote_is_valid_at (sq_quote q) t \<Longrightarrow>
     quote_life q (q\<lparr>sq_state := QsConsumed, sq_consumed_at := Some t, sq_proposal_id := Some p\<rparr>)"

lemma sort_key_sorted: "sorted (map k xs) \<Longrightarrow> sort_key k xs = xs"
  by (rule sort_key_id_if_sorted)

lemma saved_quote:
  assumes T: "texts_ok T" and inv: "quote_inv T db" and run: "save_appointment_quote T quote kind zone slots db = (db', Inr q)"
  shows "quote_inv T db'" and "decode_appointment_quote_by_id T (q_id quote) db' = Inr q"
    and "decode_appointment_quote_by_id T u db = Inr p \<Longrightarrow> decode_appointment_quote_by_id T u db' = Inr p"
    and "same_quote (sq_quote q) quote" "sq_appointment_kind q = kind" "sq_timezone q = zone"
      "map slot_key (sq_offered_slots q) = map slot_key slots"
proof -
  let ?id = "tx_uuid_show T (q_id quote)"
  obtain a b where ab: "stamp (tx_time T) a (to_utc (q_issued_at quote))" "stamp (tx_time T) b (to_utc (q_expires_at quote))"
    and ins: "(if list_ex (\<lambda>r. qt_quote_id r = ?id) (appointment_quotes db) then Inr db
              else or_fail (insert_slots T ?id 0 slots
                     (db\<lparr>appointment_quotes := appointment_quotes db @ [new_quote_row ?id kind zone a b (length slots)]\<rparr>))) = Inr db'"
    and dec: "decode_appointment_quote_by_id T (q_id quote) db' = Inr q"
    and same: "same_quote (sq_quote q) quote" "sq_appointment_kind q = kind" "sq_timezone q = zone"
      "map slot_key (sq_offered_slots q) = map slot_key slots"
    using run by (auto simp: save_appointment_quote_def rbind_Inr_iff format_quote_time_Inr timezone_Inr Let_def split: if_splits)
  have "quote_inv T db' \<and> backing_kept T db db' \<and> set (appointment_quotes db) \<subseteq> set (appointment_quotes db')"
  proof (cases "list_ex (\<lambda>r. qt_quote_id r = ?id) (appointment_quotes db)")
    case True
    then show ?thesis using ins inv quotes_kept_refl[OF inv] by (simp add: quotes_kept_def)
  next
    case False
    let ?row = "new_quote_row ?id kind zone a b (length slots)"
    obtain rows where db': "db' = db\<lparr>appointment_quotes := appointment_quotes db @ [?row],
         appointment_quote_slots := appointment_quote_slots db @ rows\<rparr>" and rows: "\<forall>r \<in> set rows. qs_quote_id r = ?id"
      using ins False insert_slots_Inr[OF T, of ?id 0 slots _ db'] by fastforce
    have new: "qt_quote_id ?row = ?id" by (simp add: new_quote_row_def)
    have fresh: "qt_quote_id r \<noteq> ?id" if "r \<in> set (appointment_quotes db)" for r
      using False that by (auto simp: list_ex_iff)
    have old: "distinct (map qt_quote_id (appointment_quotes db))"
      "\<forall>s \<in> set (appointment_quote_slots db). qs_quote_id s \<in> qt_quote_id ` set (appointment_quotes db)"
      using inv by (simp_all add: quote_inv_def)
    have "filter (\<lambda>s. qs_quote_id s = qt_quote_id r) rows = []" if "r \<in> set (appointment_quotes db)" for r
      using rows fresh[OF that] by (auto simp: filter_empty_conv)
    then have kept: "backing_kept T db db'" by (auto simp: backing_kept_def db' quote_slot_rows_def)
    have "find (\<lambda>r. qt_quote_id r = ?id) (appointment_quotes db) = None" using fresh by (auto simp: find_None_iff)
    then have "find (\<lambda>r. qt_quote_id r = ?id) (appointment_quotes db') = Some ?row"
      by (simp add: db' find_append new)
    then have row: "quote_row_decodes T db' ?row q"
      using dec decode_appointment_quote_row_Inr[OF T] by (simp add: decode_appointment_quote_by_id_def)
    have "\<forall>r \<in> set (appointment_quotes db'). \<exists>q. quote_row_decodes T db' r q"
    proof -
      have all: "\<forall>r \<in> set (appointment_quotes db). \<exists>q. quote_row_decodes T db' r q"
        using inv decodes_kept[OF kept] unfolding quote_inv_def by blast
      have rows: "set (appointment_quotes db') = insert ?row (set (appointment_quotes db))" by (simp add: db')
      show ?thesis unfolding rows ball_simps using all row by blast
    qed
    moreover have "distinct (map qt_quote_id (appointment_quotes db'))"
      using old(1) fresh by (simp add: db' distinct_map_snoc new del: map_append)
    moreover have "\<forall>s \<in> set (appointment_quote_slots db'). qs_quote_id s \<in> qt_quote_id ` set (appointment_quotes db')"
      using old(2) rows by (auto simp: db' new)
    moreover have "draft_inv T db'" "proposal_inv (tx_naive T) db'"
      using inv by (simp_all add: quote_inv_def draft_inv_def proposal_inv_def db')
    ultimately have "quote_inv T db'" unfolding quote_inv_def by blast
    then show ?thesis using kept by (auto simp: db')
  qed
  then show "quote_inv T db'" "decode_appointment_quote_by_id T (q_id quote) db' = Inr q"
    "decode_appointment_quote_by_id T u db = Inr p \<Longrightarrow> decode_appointment_quote_by_id T u db' = Inr p"
    using dec reads_kept[OF T inv] by blast+
  show "same_quote (sq_quote q) quote" "sq_appointment_kind q = kind" "sq_timezone q = zone"
      "map slot_key (sq_offered_slots q) = map slot_key slots" by (rule same)+
qed

text \<open>The row of a quote that is read back.\<close>

lemma quote_rowE:
  assumes "texts_ok T" "quote_inv T db" "decode_appointment_quote_by_id T u db = Inr q"
  obtains row where "row \<in> set (appointment_quotes db)" "qt_quote_id row = tx_uuid_show T u" "quote_row_decodes T db row q"
    "q_id (sq_quote q) = u"
proof -
  obtain row where row: "row \<in> set (appointment_quotes db)" "qt_quote_id row = tx_uuid_show T u" "quote_row_decodes T db row q"
    using assms(3) unfolding quote_by_id[OF assms(1,2)] by blast
  have "tx_uuid_show T (q_id (sq_quote q)) = tx_uuid_show T u" using quote_row_id[OF row(3)] row(2) by simp
  then have "q_id (sq_quote q) = u" using uuid_show_inject[OF assms(1)] by simp
  then show ?thesis using that row by blast
qed

lemma draft_by_id:
  assumes "draft_inv T db" "r \<in> set (appointment_drafts db)" "decode_appointment_row T r = Inr d"
  shows "find (\<lambda>r. ap_id r = sd_id d) (appointment_drafts db) = Some r"
  using find_unique[of ap_id "appointment_drafts db" r] assms ids_ok_distinct[of ap_id "appointment_drafts db"]
  by (simp add: draft_inv_def decode_id)

text \<open>A stored draft belongs to the one quote whose identity it carries.\<close>

lemma draft_of_one_quote:
  assumes inv: "quote_inv T db" and kept: "backing_kept T db db1" and row: "row \<in> set (appointment_quotes db)"
    and r: "r \<in> set (appointment_drafts db1)" "decode_appointment_row T r = Inr d" "draft_inv T db1"
    and i: "qt_appointment_draft_id row = Some (sd_id d)"
  shows "qt_quote_id row = tx_uuid_show T (ad_quote_id (sd_draft d))"
proof -
  obtain q where q: "quote_row_decodes T db row q" using inv row by (auto simp: quote_inv_def)
  then have "draft_linked T db (sq_quote q) (sq_appointment_kind q) (sq_offered_slots q) row
      (sq_selected_slot_index q) (sq_appointment_draft q)"
    using i by (auto simp: quote_row_decodes_def progress_decodes_def split: quote_state.splits)
  then obtain d' r' where d': "sd_id d' = sd_id d" "find (\<lambda>r. ap_id r = sd_id d') (appointment_drafts db) = Some r'"
    "decode_appointment_row T r' = Inr d'" "ad_quote_id (sd_draft d') = q_id (sq_quote q)"
    using i by (auto simp: draft_linked_def)
  then have "find (\<lambda>r. ap_id r = sd_id d) (appointment_drafts db1) = Some r'"
    using kept row i by (auto simp: backing_kept_def)
  then have "r' = r" using draft_by_id[OF r(3,1,2)] by simp
  then show ?thesis using r(2) d' quote_row_id[OF q] by simp
qed

lemma frozen_decodes_progress [simp]:
  "frozen_decodes T slots (set_prepared i w row) q = frozen_decodes T slots row q"
  "frozen_decodes T slots (set_consumed s p row) q = frozen_decodes T slots row q"
  "frozen_decodes T slots row (q\<lparr>sq_state := st\<rparr>) = frozen_decodes T slots row q"
  "frozen_decodes T slots row (q\<lparr>sq_selected_slot_index := w'\<rparr>) = frozen_decodes T slots row q"
  "frozen_decodes T slots row (q\<lparr>sq_appointment_draft := d\<rparr>) = frozen_decodes T slots row q"
  "frozen_decodes T slots row (q\<lparr>sq_consumed_at := c\<rparr>) = frozen_decodes T slots row q"
  "frozen_decodes T slots row (q\<lparr>sq_proposal_id := p'\<rparr>) = frozen_decodes T slots row q"
  by (simp_all add: frozen_decodes_def set_prepared_def set_consumed_def)

lemma prepared_row_decodes:
  assumes T: "texts_ok T" and row: "quote_row_decodes T db row q" and st: "sq_state q = QsIssued"
    and r: "r \<in> set (appointment_drafts db)" "decode_appointment_row T r = Inr d" "draft_inv T db"
    and m: "unat w < length (sq_offered_slots q)" "ad_quote_id (sd_draft d) = q_id (sq_quote q)"
      "ad_kind (sd_draft d) = sq_appointment_kind q"
      "same_instant (ad_starts_at (sd_draft d)) (slot_starts_at (sq_offered_slots q ! unat w))"
      "same_instant (ad_ends_at (sd_draft d)) (slot_ends_at (sq_offered_slots q ! unat w))"
  shows "quote_row_decodes T db (set_prepared (sd_id d) w row)
    (q\<lparr>sq_state := QsPrepared, sq_selected_slot_index := Some w, sq_appointment_draft := Some d\<rparr>)"
proof -
  have "0 < sd_id d" using r(2) by (simp add: decode_appointment_row_Inr[OF T] draft_row_decodes_def)
  then have "draft_linked T db (sq_quote q) (sq_appointment_kind q) (sq_offered_slots q) (set_prepared (sd_id d) w row) (Some w) (Some d)"
    using m r(2) draft_by_id[OF r(3,1,2)] by (auto simp: draft_linked_def set_prepared_def intro!: exI[of _ "unat w"])
  then show ?thesis
    using row st by (simp add: quote_row_decodes_def progress_decodes_def) (simp add: set_prepared_def)
qed

definition prepared_quote :: "stored_appointment_quote \<Rightarrow> 32 word \<Rightarrow> stored_appointment_draft \<Rightarrow> stored_appointment_quote" where
  "prepared_quote q w d = q\<lparr>sq_state := QsPrepared, sq_selected_slot_index := Some w, sq_appointment_draft := Some d\<rparr>"

definition consumed_quote :: "stored_appointment_quote \<Rightarrow> odt \<Rightarrow> int \<Rightarrow> stored_appointment_quote" where
  "consumed_quote q t p = q\<lparr>sq_state := QsConsumed, sq_consumed_at := Some t, sq_proposal_id := Some p\<rparr>"

text \<open>The draft is the one slot \<open>w\<close> of the quote asks for.\<close>

definition draft_fits :: "stored_appointment_quote \<Rightarrow> 32 word \<Rightarrow> appointment_draft \<Rightarrow> bool" where
  "draft_fits q w d \<longleftrightarrow> ad_quote_id d = q_id (sq_quote q) \<and> ad_kind d = sq_appointment_kind q
     \<and> unat w < length (sq_offered_slots q)
     \<and> same_instant (ad_starts_at d) (slot_starts_at (sq_offered_slots q ! unat w))
     \<and> same_instant (ad_ends_at d) (slot_ends_at (sq_offered_slots q ! unat w))"

lemma draft_fits_same:
  "same_draft d d' \<Longrightarrow> draft_fits q w d' \<Longrightarrow> draft_fits q w d"
  by (simp add: same_draft_def draft_fits_def same_instant_def)

text \<open>Storing the preparation succeeds once the draft is stored.\<close>

lemma prepare_stores:
  assumes T: "texts_ok T" and inv: "quote_inv T db" and q: "decode_appointment_quote_by_id T u db = Inr q"
    and st: "sq_state q = QsIssued" and d: "draft_made d" "source_text s" and fits: "draft_fits q w d"
    and run: "save_appointment_draft_in_transaction T s d db = Inr (db1, sd)"
  obtains db2 where "update_prepared T u (sd_id sd) w db1 = Inr (db2, 1)"
    "decode_appointment_quote_by_id T u db2 = Inr (prepared_quote q w sd)" "quote_inv T db2"
    "\<And>v p. v \<noteq> u \<Longrightarrow> decode_appointment_quote_by_id T v db = Inr p \<Longrightarrow> decode_appointment_quote_by_id T v db2 = Inr p"
proof -
  obtain row where row: "row \<in> set (appointment_quotes db)" "qt_quote_id row = tx_uuid_show T u" "quote_row_decodes T db row q"
    "q_id (sq_quote q) = u"
    using quote_rowE[OF T inv q] .
  have c: "draft_inv T db1" "exact_draft s d sd" "\<exists>r \<in> set (appointment_drafts db1). decode_appointment_row T r = Inr sd"
    using save_draft_cases[OF T _ d run] inv by (auto simp: quote_inv_def)
  then obtain r where r: "r \<in> set (appointment_drafts db1)" "decode_appointment_row T r = Inr sd" by blast
  have kept: "quotes_kept T db db1" by (rule quotes_kept_saved_draft[OF T inv d run])
  have inv1: "quote_inv T db1" by (rule quotes_kept_inv[OF inv kept])
  have quotes: "appointment_quotes db1 = appointment_quotes db" and backing: "backing_kept T db db1"
    using kept by (simp_all add: quotes_kept_def)
  have row1: "row \<in> set (appointment_quotes db1)" "quote_row_decodes T db1 row q"
    using row decodes_kept[OF backing] quotes by auto
  have dist: "distinct (map qt_quote_id (appointment_quotes db1))" using inv1 by (simp add: quote_inv_def)
  have issued: "qt_state row = lit ''issued''" using quote_row_state[OF row(3)] st by (simp del: lit_simps)
  let ?p = "\<lambda>r. qt_quote_id r = tx_uuid_show T u \<and> qt_state r = lit ''issued''"
  let ?db2 = "db1\<lparr>appointment_quotes := update_rows (\<lambda>r. qt_quote_id r = qt_quote_id row) (set_prepared (sd_id sd) w) (appointment_quotes db1)\<rparr>"
  have upd: "update_rows ?p (set_prepared (sd_id sd) w) (appointment_quotes db1)
      = update_rows (\<lambda>r. qt_quote_id r = qt_quote_id row) (set_prepared (sd_id sd) w) (appointment_quotes db1)"
    "count_rows ?p (appointment_quotes db1) = 1"
    using update_one[OF dist row1(1), of "\<lambda>r. qt_state r = lit ''issued''" "set_prepared (sd_id sd) w"]
      count_rows_key[OF dist row1(1), of "\<lambda>r. qt_state r = lit ''issued''"] issued row(2) by (simp_all del: lit_simps)
  have fit: "draft_fits q w (sd_draft sd)" using c(2) fits draft_fits_same by (auto simp: exact_draft_def)
  have free: "\<not> list_ex (\<lambda>r. \<not> ?p r \<and> qt_appointment_draft_id r = Some (sd_id sd)) (appointment_quotes db1)"
  proof
    assume "list_ex (\<lambda>r. \<not> ?p r \<and> qt_appointment_draft_id r = Some (sd_id sd)) (appointment_quotes db1)"
    then obtain r' where r': "r' \<in> set (appointment_quotes db)" "\<not> ?p r'" "qt_appointment_draft_id r' = Some (sd_id sd)"
      unfolding list_ex_iff quotes by blast
    have "qt_quote_id r' = tx_uuid_show T (ad_quote_id (sd_draft sd))"
      by (rule draft_of_one_quote[OF inv backing r'(1) r c(1) r'(3)])
    then have "qt_quote_id r' = qt_quote_id row" using fit row(2,4) by (simp add: draft_fits_def)
    then have "r' = row" using distinct_map_unique[OF dist, of r' row] r'(1) row1(1) quotes by simp
    then show False using r'(2) issued row(2) by simp
  qed
  have upd2: "update_prepared T u (sd_id sd) w db1 = Inr (?db2, 1)"
    using free by (simp add: update_prepared_def Let_def upd del: lit_simps)
  have dec: "quote_row_decodes T db1 (set_prepared (sd_id sd) w row) (prepared_quote q w sd)"
    unfolding prepared_quote_def
    by (rule prepared_row_decodes[OF T row1(2) st r c(1)]) (use fit in \<open>simp_all add: draft_fits_def\<close>)
  have id: "q_id (sq_quote (prepared_quote q w sd)) = u" by (simp add: prepared_quote_def row(4))
  have f: "\<And>r. qt_quote_id (set_prepared (sd_id sd) w r) = qt_quote_id r" by (simp add: set_prepared_def)
  note rw = quote_rewritten[OF T inv1 row1(1) f dec refl, unfolded id]
  show thesis
    by (rule that[OF upd2 rw(2,1) rw(3)]) (use quotes_kept_reads[OF T inv kept] in auto)
qed

definition save_prepared :: "texts \<Rightarrow> quote_id \<Rightarrow> 32 word \<Rightarrow> str \<Rightarrow> appointment_draft \<Rightarrow> db \<Rightarrow> db" where
  "save_prepared T u w s d db = (case save_appointment_draft_in_transaction T s d db of
     Inl e \<Rightarrow> db
   | Inr (db1, sd) \<Rightarrow> (case update_prepared T u (sd_id sd) w db1 of Inl e \<Rightarrow> db | Inr (db2, n) \<Rightarrow> db2))"

text \<open>Every outcome of a preparation.\<close>

lemma prepare_outcome:
  assumes T: "texts_ok T" and inv: "quote_inv T db" and q: "decode_appointment_quote_by_id T u db = Inr q"
    and d: "draft_made d" "source_text s"
  shows "prepare_appointment_draft_from_quote T u w s d now db =
    (if sq_state q \<noteq> QsIssued then
       (if sq_selected_slot_index q = Some w \<and> (\<exists>sd. sq_appointment_draft q = Some sd \<and> exact_draft s d sd)
        then (db, Inr q) else (db, Inl quote_conflict))
     else if ad_quote_id d \<noteq> u \<or> ad_kind d \<noteq> sq_appointment_kind q then (db, Inl quote_conflict)
     else if before now (q_issued_at (sq_quote q)) then (db, Inl (Failed AppointmentQuoteNotYetValid))
     else if quote_is_expired (sq_quote q) now then (db, Inl (Failed AppointmentQuoteExpired))
     else if length (sq_offered_slots q) \<le> unat w then (db, Inl (Failed (InvalidInput ''slot_index'')))
     else if \<not> draft_fits q w d then (db, Inl quote_conflict)
     else case save_appointment_draft_in_transaction T s d db of
        Inl e \<Rightarrow> (db, Inl e)
      | Inr (db1, sd) \<Rightarrow> (save_prepared T u w s d db, Inr (prepared_quote q w sd)))"
proof -
  have id: "q_id (sq_quote q) = u" using quote_rowE[OF T inv q] by blast
  have v: "validate_source_id s = Inr s" using d(2) by (simp add: validate_source_id_Inr)
  show ?thesis
  proof (cases "sq_state q = QsIssued \<and> draft_fits q w d \<and> \<not> before now (q_issued_at (sq_quote q))
      \<and> before now (q_expires_at (sq_quote q))")
    case True
    show ?thesis
    proof (cases "save_appointment_draft_in_transaction T s d db")
      case (Inl e)
      then show ?thesis using True v q id
        by (auto simp: prepare_appointment_draft_from_quote_def run_tx_def draft_fits_def quote_is_expired_def Let_def)
    next
      case (Inr x)
      obtain db1 sd where x: "x = (db1, sd)" by (cases x)
      obtain db2 where p: "update_prepared T u (sd_id sd) w db1 = Inr (db2, 1)"
        "decode_appointment_quote_by_id T u db2 = Inr (prepared_quote q w sd)"
        using prepare_stores[OF T inv q _ d _ Inr[unfolded x]] True by blast
      then show ?thesis using True v q id Inr x
        by (auto simp: prepare_appointment_draft_from_quote_def run_tx_def draft_fits_def quote_is_expired_def Let_def save_prepared_def)
    qed
  next
    case False
    then show ?thesis using v q id
      by (auto simp: prepare_appointment_draft_from_quote_def run_tx_def draft_fits_def quote_is_expired_def quote_conflict_def
          Let_def split: option.splits)
  qed
qed

lemma proposal_by_id:
  assumes "proposal_inv N db" "r \<in> set (proposals db)" "decode_proposal_row N r = Inr p"
  shows "find (\<lambda>r. pr_id r = sp_id p) (proposals db) = Some r"
  using find_unique[of pr_id "proposals db" r] assms ids_ok_distinct[of pr_id "proposals db"]
  by (simp add: proposal_inv_def decode_proposal_row_Inr proposal_row_decodes_def)

text \<open>The consumption writes the quote row of a prepared quote.\<close>

lemma submit_stores:
  assumes T: "texts_ok T" and inv: "quote_inv T db" and q: "decode_appointment_quote_by_id T u db = Inr q"
    and st: "sq_state q = QsPrepared" and di: "sq_appointment_draft_id q = Some di"
    and c: "stamp (tx_time T) c (to_utc now)"
    and run: "create_proposal_in_transaction (tx_naive T) key src (AppointmentDraftSource di) clk db = Inr (db1, p)"
    and db2: "db2 = fst (update_consumed T u di c (sp_id p) db1)"
  shows "update_consumed T u di c (sp_id p) db1 = (db2, 1)"
    "decode_appointment_quote_by_id T u db2 = Inr (consumed_quote q (to_utc now) (sp_id p))" "quote_inv T db2"
    "\<And>v p. v \<noteq> u \<Longrightarrow> decode_appointment_quote_by_id T v db = Inr p \<Longrightarrow> decode_appointment_quote_by_id T v db2 = Inr p"
    "\<exists>r. find (\<lambda>r. pr_id r = sp_id p) (proposals db2) = Some r \<and> decode_proposal_row (tx_naive T) r = Inr p"
proof -
  obtain row where row: "row \<in> set (appointment_quotes db)" "qt_quote_id row = tx_uuid_show T u" "quote_row_decodes T db row q"
    "q_id (sq_quote q) = u"
    using quote_rowE[OF T inv q] .
  have cp: "proposal_inv (tx_naive T) db1" "sp_source p = AppointmentDraftSource di"
    "\<exists>r \<in> set (proposals db1). decode_proposal_row (tx_naive T) r = Inr p"
    using create_proposal_cases[OF _ run] inv by (auto simp: quote_inv_def)
  then obtain r where r: "r \<in> set (proposals db1)" "decode_proposal_row (tx_naive T) r = Inr p" by blast
  have find: "find (\<lambda>r. pr_id r = sp_id p) (proposals db1) = Some r" by (rule proposal_by_id[OF cp(1) r])
  have kept: "quotes_kept T db db1" by (rule quotes_kept_created[OF inv run])
  have inv1: "quote_inv T db1" by (rule quotes_kept_inv[OF inv kept])
  have row1: "row \<in> set (appointment_quotes db1)" "quote_row_decodes T db1 row q"
    using row decodes_kept[of T db db1] kept by (auto simp: quotes_kept_def)
  have dist: "distinct (map qt_quote_id (appointment_quotes db1))" using inv1 by (simp add: quote_inv_def)
  have linked: "draft_linked T db1 (sq_quote q) (sq_appointment_kind q) (sq_offered_slots q) row
      (sq_selected_slot_index q) (sq_appointment_draft q)" "qt_consumed_at row = None" "qt_proposal_id row = None"
    using row1(2) st by (simp_all add: quote_row_decodes_def progress_decodes_def)
  have did: "qt_appointment_draft_id row = Some di"
    using linked(1) di by (auto simp: draft_linked_def sq_appointment_draft_id_def)
  have prep: "qt_state row = lit ''prepared'' \<and> qt_appointment_draft_id row = Some di"
    using quote_row_state[OF row(3)] st did by (simp del: lit_simps)
  let ?f = "set_consumed c (sp_id p)"
  let ?p = "\<lambda>r. qt_quote_id r = tx_uuid_show T u \<and> qt_state r = lit ''prepared'' \<and> qt_appointment_draft_id r = Some di"
  have upd: "update_rows ?p ?f (appointment_quotes db1)
      = update_rows (\<lambda>r. qt_quote_id r = qt_quote_id row) ?f (appointment_quotes db1)"
    "count_rows ?p (appointment_quotes db1) = 1"
    using update_one[OF dist row1(1), of "\<lambda>r. qt_state r = lit ''prepared'' \<and> qt_appointment_draft_id r = Some di" ?f]
      count_rows_key[OF dist row1(1), of "\<lambda>r. qt_state r = lit ''prepared'' \<and> qt_appointment_draft_id r = Some di"]
      prep row(2) by (simp_all del: lit_simps)
  have db2': "db2 = db1\<lparr>appointment_quotes := update_rows (\<lambda>r. qt_quote_id r = qt_quote_id row) ?f (appointment_quotes db1)\<rparr>"
    using upd by (simp add: db2 update_consumed_def Let_def del: lit_simps)
  show "update_consumed T u di c (sp_id p) db1 = (db2, 1)"
    using upd by (simp add: db2' update_consumed_def Let_def del: lit_simps)
  have pos: "0 < sp_id p" using r(2) by (simp add: decode_proposal_row_Inr proposal_row_decodes_def)
  have "draft_linked T db1 (sq_quote q) (sq_appointment_kind q) (sq_offered_slots q) (?f row)
      (sq_selected_slot_index q) (sq_appointment_draft q)"
    using linked(1) by (simp add: draft_linked_def set_consumed_def)
  moreover have "consumption_linked T db1 (?f row) (Some (to_utc now)) (Some (sp_id p))"
    using pos c find r(2) did cp(2) by (auto simp: consumption_linked_def set_consumed_def)
  ultimately have dec: "quote_row_decodes T db1 (?f row) (consumed_quote q (to_utc now) (sp_id p))"
    using row1(2) by (simp add: quote_row_decodes_def progress_decodes_def consumed_quote_def) (simp add: set_consumed_def)
  have id: "q_id (sq_quote (consumed_quote q (to_utc now) (sp_id p))) = u" by (simp add: consumed_quote_def row(4))
  have f: "\<And>r. qt_quote_id (?f r) = qt_quote_id r" by (simp add: set_consumed_def)
  note rw = quote_rewritten[OF T inv1 row1(1) f dec db2', unfolded id]
  show "decode_appointment_quote_by_id T u db2 = Inr (consumed_quote q (to_utc now) (sp_id p))" "quote_inv T db2"
    by (rule rw)+
  show "\<And>v p. v \<noteq> u \<Longrightarrow> decode_appointment_quote_by_id T v db = Inr p \<Longrightarrow> decode_appointment_quote_by_id T v db2 = Inr p"
    using rw(3) quotes_kept_reads[OF T inv kept] by blast
  show "\<exists>r. find (\<lambda>r. pr_id r = sp_id p) (proposals db2) = Some r \<and> decode_proposal_row (tx_naive T) r = Inr p"
    using find r(2) by (simp add: db2')
qed

text \<open>The proposal of a consumed quote.\<close>

lemma consumed_proposal:
  assumes T: "texts_ok T" and inv: "quote_inv T db" and q: "decode_appointment_quote_by_id T u db = Inr q"
    and st: "sq_state q = QsConsumed"
  obtains i p r di where "sq_proposal_id q = Some i" "find (\<lambda>r. pr_id r = i) (proposals db) = Some r"
    "decode_proposal_row (tx_naive T) r = Inr p" "sp_id p = i" "sq_appointment_draft_id q = Some di"
    "sp_source p = AppointmentDraftSource di"
proof -
  obtain row where row: "quote_row_decodes T db row q" using quote_rowE[OF T inv q] by metis
  then have l: "draft_linked T db (sq_quote q) (sq_appointment_kind q) (sq_offered_slots q) row
      (sq_selected_slot_index q) (sq_appointment_draft q)" "consumption_linked T db row (sq_consumed_at q) (sq_proposal_id q)"
    using st by (simp_all add: quote_row_decodes_def progress_decodes_def)
  obtain d where d: "sq_appointment_draft q = Some d" "qt_appointment_draft_id row = Some (sd_id d)"
    using draft_linked_row[OF l(1)] by blast
  obtain i r p where p: "sq_proposal_id q = Some i" "find (\<lambda>r. pr_id r = i) (proposals db) = Some r"
    "decode_proposal_row (tx_naive T) r = Inr p" "appointment_draft_id (sp_source p) = Some (sd_id d)"
    using l(2) d(2) by (auto simp: consumption_linked_def)
  have "sp_id p = i" using p(2,3) find_Some_mem[OF p(2)] by (simp add: decode_proposal_row_Inr proposal_row_decodes_def)
  moreover have "sp_source p = AppointmentDraftSource (sd_id d)" using p(4) by (cases "sp_source p") auto
  ultimately show ?thesis using that p d(1) by (simp add: sq_appointment_draft_id_def)
qed

text \<open>Every outcome of a submission whose arguments are well formed.\<close>

lemma submit_outcome:
  assumes T: "texts_ok T" and inv: "quote_inv T db" and q: "decode_appointment_quote_by_id T u db = Inr q"
    and args: "0 < di" "str_trim key \<noteq> []" "source_text src" and c: "stamp (tx_time T) c (to_utc now)"
  shows "submit_appointment_quote T u di key src now clk db =
    (case sq_state q of
       QsConsumed \<Rightarrow> (db, consumed_retry T q di key src db)
     | QsIssued \<Rightarrow> (db, Inl quote_conflict)
     | QsPrepared \<Rightarrow>
         if sq_appointment_draft_id q \<noteq> Some di then (db, Inl quote_conflict)
         else if before now (q_issued_at (sq_quote q)) then (db, Inl (Failed AppointmentQuoteNotYetValid))
         else if quote_is_expired (sq_quote q) now then (db, Inl (Failed AppointmentQuoteExpired))
         else (case create_proposal_in_transaction (tx_naive T) key src (AppointmentDraftSource di) clk db of
             Inl e \<Rightarrow> (db, Inl (Failed e))
           | Inr (db1, p) \<Rightarrow> if sp_state p \<noteq> PsPending then (db, Inl quote_conflict)
               else (fst (update_consumed T u di c (sp_id p) db1), Inr p)))"
proof -
  have f: "format_appointment_quote_datetime T now = Inr c" using c by (simp add: format_quote_time_Inr)
  have v: "validate_source_id src = Inr src" "validate_non_empty key ''idempotency_key'' = Inr key"
    using args by (simp_all add: validate_source_id_Inr validate_non_empty_Inr)
  have [simp]: "\<not> di \<le> 0" using args(1) by simp
  show ?thesis
  proof (cases "sq_state q")
    case QsConsumed
    then show ?thesis using f v q
      by (cases "consumed_retry T q di key src db") (simp_all add: submit_appointment_quote_def run_tx_def)
  next
    case QsIssued
    then show ?thesis using f v q by (simp add: submit_appointment_quote_def run_tx_def)
  next
    case st: QsPrepared
    show ?thesis
    proof (cases "sq_appointment_draft_id q = Some di \<and> \<not> before now (q_issued_at (sq_quote q)) \<and> \<not> quote_is_expired (sq_quote q) now")
      case False
      then show ?thesis using f v q st by (auto simp: submit_appointment_quote_def run_tx_def quote_is_expired_def)
    next
      case ok: True
      show ?thesis
      proof (cases "create_proposal_in_transaction (tx_naive T) key src (AppointmentDraftSource di) clk db")
        case (Inl e)
        then show ?thesis using f v q st ok by (auto simp: submit_appointment_quote_def run_tx_def quote_is_expired_def)
      next
        case (Inr x)
        obtain db1 p where x: "x = (db1, p)" by (cases x)
        define db2 where "db2 = fst (update_consumed T u di c (sp_id p) db1)"
        note s = submit_stores[OF T inv q st _ c Inr[unfolded x] db2_def]
        have di: "sq_appointment_draft_id q = Some di" using ok by simp
        obtain r where r: "find (\<lambda>r. pr_id r = sp_id p) (proposals db2) = Some r" "decode_proposal_row (tx_naive T) r = Inr p"
          using s(5)[OF di] by blast
        show ?thesis using f v q st ok Inr s(1,2)[OF di] r
          by (simp add: submit_appointment_quote_def run_tx_def quote_is_expired_def x consumed_quote_def same_instant_def to_utc_def)
      qed
    qed
  qed
qed

section \<open>A new quote is stored\<close>

lemma stamp_range: "codec_utc C \<Longrightarrow> stamp C s d \<Longrightarrow> rfc_range (unix_timestamp d)"
  by (auto simp: codec_utc_def stamp_def split: if_splits)

text \<open>Every time of the slot has a text.\<close>

definition slot_writable :: "texts \<Rightarrow> appointment_slot \<Rightarrow> bool" where
  "slot_writable T s \<longleftrightarrow> (\<exists>a b. stamp (tx_time T) a (to_utc (slot_starts_at s)) \<and> stamp (tx_time T) b (to_utc (slot_ends_at s)))"

definition slot_row_of :: "texts \<Rightarrow> appointment_quote_slot_row \<Rightarrow> appointment_slot \<Rightarrow> bool" where
  "slot_row_of T r s \<longleftrightarrow> stamp (tx_time T) (qs_starts_at r) (to_utc (slot_starts_at s))
     \<and> stamp (tx_time T) (qs_ends_at r) (to_utc (slot_ends_at s))"

lemma slot_text_order:
  assumes T: "texts_ok T" and s: "slot_duration_ns s = ak_duration k * NANOS"
    and a: "stamp (tx_time T) a (to_utc (slot_starts_at s))" "stamp (tx_time T) b (to_utc (slot_ends_at s))"
  shows "a < b"
proof (rule stamp_less[OF texts_okD(2)[OF T] a])
  have "60 * NANOS \<le> ak_duration k * NANOS" by (cases k) (simp_all add: ak_duration_def minutes_def NANOS_def)
  then show "unix_timestamp (to_utc (slot_starts_at s)) < unix_timestamp (to_utc (slot_ends_at s))"
    using s by (simp add: unix_timestamp_def slot_duration_ns_def to_utc_def NANOS_def)
qed

lemma insert_slots_ok:
  assumes T: "texts_ok T"
  shows "\<forall>s \<in> set slots. slot_writable T s \<Longrightarrow> slots_distinct (ak_duration k * NANOS) seen slots \<Longrightarrow>
    \<forall>r \<in> set (appointment_quote_slots db). qs_quote_id r = qid \<longrightarrow>
      qs_slot_index r < i \<and> (\<exists>s. slot_row_of T r s \<and> slot_key s \<in> set seen) \<Longrightarrow>
    0 \<le> i \<Longrightarrow> i + int (length slots) \<le> 100 \<Longrightarrow> \<exists>db'. insert_slots T qid i slots db = Inr db'"
proof (induction slots arbitrary: i db seen)
  case Nil
  then show ?case by simp
next
  case (Cons s slots)
  obtain a b where ab: "stamp (tx_time T) a (to_utc (slot_starts_at s))" "stamp (tx_time T) b (to_utc (slot_ends_at s))"
    using Cons.prems(1) by (auto simp: slot_writable_def)
  have dur: "slot_duration_ns s = ak_duration k * NANOS" "slot_key s \<notin> set seen"
    "slots_distinct (ak_duration k * NANOS) (slot_key s # seen) slots"
    using Cons.prems(2) by (simp_all split: if_splits)
  let ?row = "\<lparr>qs_quote_id = qid, qs_slot_index = i, qs_starts_at = a, qs_ends_at = b\<rparr>"
  have "\<not> (qs_starts_at r = a \<and> qs_ends_at r = b)"
    if "r \<in> set (appointment_quote_slots db)" "qs_quote_id r = qid" for r
  proof
    assume e: "qs_starts_at r = a \<and> qs_ends_at r = b"
    obtain s' where s': "slot_row_of T r s'" "slot_key s' \<in> set seen" using Cons.prems(3) \<open>r \<in> _\<close> \<open>qs_quote_id r = qid\<close> by blast
    have "to_utc (slot_starts_at s') = to_utc (slot_starts_at s)" "to_utc (slot_ends_at s') = to_utc (slot_ends_at s)"
      using s'(1) e ab stamp_inject[OF T] unfolding slot_row_of_def by blast+
    then have "slot_key (utc_slot s') = slot_key (utc_slot s)" unfolding utc_slot_def by simp
    then have "slot_key s' = slot_key s" by simp
    then show False using s'(2) dur(2) by simp
  qed
  then have allowed: "slot_row_allowed (appointment_quote_slots db) ?row"
    using Cons.prems(3-5) slot_text_order[OF T dur(1) ab] by (auto simp: slot_row_allowed_def list_ex_iff)
  let ?db = "db\<lparr>appointment_quote_slots := appointment_quote_slots db @ [?row]\<rparr>"
  have rows: "\<forall>r \<in> set (appointment_quote_slots ?db). qs_quote_id r = qid \<longrightarrow>
      qs_slot_index r < i + 1 \<and> (\<exists>s'. slot_row_of T r s' \<and> slot_key s' \<in> set (slot_key s # seen))"
  proof (intro ballI impI)
    fix r assume r: "r \<in> set (appointment_quote_slots ?db)" "qs_quote_id r = qid"
    show "qs_slot_index r < i + 1 \<and> (\<exists>s'. slot_row_of T r s' \<and> slot_key s' \<in> set (slot_key s # seen))"
    proof (cases "r = ?row")
      case True
      then show ?thesis using ab by (auto simp: slot_row_of_def)
    next
      case False
      then have "r \<in> set (appointment_quote_slots db)" using r(1) by simp
      then show ?thesis using Cons.prems(3) r(2) by fastforce
    qed
  qed
  obtain db' where "insert_slots T qid (i + 1) slots ?db = Inr db'"
    using Cons.IH[OF _ dur(3) rows] Cons.prems(1,4,5) by auto
  then show ?case using allowed ab by (simp add: format_quote_time_Inr[THEN iffD2])
qed

definition utc_quote :: "quote \<Rightarrow> quote" where
  "utc_quote q = q\<lparr>q_issued_at := to_utc (q_issued_at q), q_expires_at := to_utc (q_expires_at q)\<rparr>"

definition issued_quote :: "quote \<Rightarrow> appointment_kind \<Rightarrow> str \<Rightarrow> appointment_slot list \<Rightarrow> stored_appointment_quote" where
  "issued_quote quote kind zone slots =
     \<lparr>sq_quote = utc_quote quote, sq_appointment_kind = kind, sq_timezone = zone, sq_offered_slots = map utc_slot slots,
      sq_state = QsIssued, sq_selected_slot_index = None, sq_appointment_draft = None, sq_consumed_at = None,
      sq_proposal_id = None\<rparr>"

lemma utc_expiry_add:
  assumes T: "texts_ok T" and q: "quote_wf quote"
    and s: "stamp (tx_time T) a (to_utc (q_issued_at quote))" "stamp (tx_time T) b (to_utc (q_expires_at quote))"
  shows "odt_checked_add (to_utc (q_issued_at quote)) VALID_FOR = Some (to_utc (q_expires_at quote))"
proof -
  have "rfc_range (unix_timestamp (to_utc (q_expires_at quote)))" by (rule stamp_range[OF texts_okD(2)[OF T] s(2)])
  then have r: "odt_min_secs \<le> unix_timestamp (q_expires_at quote)" "unix_timestamp (q_expires_at quote) \<le> odt_max_secs"
    using rfc_range_bounds by (simp_all add: unix_timestamp_def to_utc_def)
  have "(to_utc (q_issued_at quote))\<lparr>instant_ns := instant_ns (to_utc (q_issued_at quote)) + VALID_FOR * NANOS\<rparr>
      = to_utc (q_expires_at quote)"
    using q by (simp add: quote_wf_def to_utc_def VALID_FOR_eq)
  then show ?thesis using r by (simp add: odt_checked_add_def Let_def local_secs_def unix_timestamp_def to_utc_def)
qed

lemma new_quote_stored:
  assumes T: "texts_ok T" and inv: "quote_inv T db" and fresh: "decode_appointment_quote_by_id T (q_id quote) db = Inl e"
    and z: "str_trim zone \<noteq> []" "tx_zone T zone = Some zone" and v: "validate_appointment_quote_slots kind slots = Inr ()"
    and q: "quote_wf quote" and w: "\<forall>s \<in> set slots. slot_writable T s"
    and s: "stamp (tx_time T) a (to_utc (q_issued_at quote))" "stamp (tx_time T) b (to_utc (q_expires_at quote))"
  shows "\<exists>db'. save_appointment_quote T quote kind zone slots db = (db', Inr (issued_quote quote kind zone slots))"
proof -
  let ?id = "tx_uuid_show T (q_id quote)" let ?row = "new_quote_row ?id kind zone a b (length slots)"
  let ?dur = "ak_duration kind * NANOS"
  have none: "\<forall>row \<in> set (appointment_quotes db). qt_quote_id row \<noteq> ?id"
    using quote_by_id_total[OF T inv, of "q_id quote"] fresh by auto
  have slots: "slots \<noteq> []" "length slots \<le> 100" "slots_distinct ?dur [] slots"
    using v by (auto simp: validate_appointment_quote_slots_def MAX_APPOINTMENT_QUOTE_SLOTS_def split: if_splits)
  have orphan: "\<forall>r \<in> set (appointment_quote_slots db). qs_quote_id r \<noteq> ?id"
    using inv none by (auto simp: quote_inv_def)
  let ?db1 = "db\<lparr>appointment_quotes := appointment_quotes db @ [?row]\<rparr>"
  obtain db' where ins: "insert_slots T ?id 0 slots ?db1 = Inr db'"
    using insert_slots_ok[OF T w slots(3), of ?db1 ?id 0] orphan slots(2) by auto
  then obtain rows where db': "db' = ?db1\<lparr>appointment_quote_slots := appointment_quote_slots db @ rows\<rparr>"
    and rows: "slots_written T 0 (map utc_slot slots) rows" "\<forall>r \<in> set rows. qs_quote_id r = ?id"
    using insert_slots_Inr[OF T ins] by auto
  have "filter (\<lambda>s. qs_quote_id s = ?id) (appointment_quote_slots db') = rows"
    using orphan rows(2) by (simp add: db' filter_empty_conv filter_id_conv[THEN iffD2])
  moreover have "length rows = length slots" using slots_written_length[OF rows(1)] by simp
  ultimately have qsr: "quote_slot_rows ?id db' = rows" "length rows = length slots"
    using slots_written_sorted[OF rows(1)] slots(2)
    by (simp_all add: quote_slot_rows_def sort_key_sorted MAX_APPOINTMENT_QUOTE_SLOTS_def)
  have "Suc 0 \<le> length slots" using slots(1) by (cases slots) simp_all
  then have frozen: "frozen_decodes T rows ?row (issued_quote quote kind zone slots)"
    using s z rows(1) slots qsr(2) utc_expiry_add[OF T q s]
    by (auto simp: frozen_decodes_def new_quote_row_def issued_quote_def utc_quote_def MAX_APPOINTMENT_QUOTE_SLOTS_def)
  have "quote_row_decodes T db' ?row (issued_quote quote kind zone slots)"
    using frozen qsr(1) by (simp add: quote_row_decodes_def progress_decodes_def issued_quote_def new_quote_row_def)
  then have dec: "decode_appointment_quote_row T db' ?row = Inr (issued_quote quote kind zone slots)"
    by (simp add: decode_appointment_quote_row_Inr[OF T])
  have "find (\<lambda>r. qt_quote_id r = ?id) (appointment_quotes db) = None" using none by (auto simp: find_None_iff)
  then have by_id: "decode_appointment_quote_by_id T (q_id quote) db' = Inr (issued_quote quote kind zone slots)"
    using dec by (simp add: decode_appointment_quote_by_id_def db' find_append new_quote_row_def)
  have "\<not> list_ex (\<lambda>r. qt_quote_id r = ?id) (appointment_quotes db)" using none by (auto simp: list_ex_iff)
  moreover have "validate_appointment_quote_timezone T zone = Inr zone" using z by (simp add: timezone_Inr)
  moreover have "map slot_key (map utc_slot slots) = map slot_key slots" by simp
  ultimately show ?thesis
    using v s[THEN format_quote_time_Inr[THEN iffD2]] ins by_id
    by (intro exI[of _ db']) (simp add: save_appointment_quote_def run_tx_def same_quote_def issued_quote_def utc_quote_def
        same_instant_def to_utc_def comp_def)
qed

end
