(* ===== verification/Store_Quote_Runs.thy ===== *)
theory Store_Quote_Runs
  imports Store_Quote_Life
begin

text \<open>
  Runs of the quote operations in any order, together with the proposal and draft operations of
  \<open>Store_Proposals\<close>, and the properties of a quote along such a run: it never changes what it
  offered, it is prepared at most once and consumed at most once, within its five minutes, into
  one proposal, and the calls of a client that lost an answer can be repeated at any time.
\<close>

section \<open>Steps\<close>

text \<open>
  One successful call. The drafts are values of \<open>AppointmentDraft\<close>, so they satisfy what its
  constructors establish. \<open>C\<close> is the codec of the calendar event times.
\<close>

inductive quote_step :: "codec \<Rightarrow> texts \<Rightarrow> db \<Rightarrow> db \<Rightarrow> bool" for C T where
  draft_saved: "save_appointment_draft T s d db = (db', Inr sd) \<Longrightarrow> draft_made d \<Longrightarrow> quote_step C T db db'"
| quote_saved: "save_appointment_quote T quote kind zone slots db = (db', Inr q) \<Longrightarrow> quote_step C T db db'"
| quote_prepared: "prepare_appointment_draft_from_quote T u w s d now db = (db', Inr q) \<Longrightarrow> draft_made d \<Longrightarrow> quote_step C T db db'"
| quote_submitted: "submit_appointment_quote T u di key src now clk db = (db', Inr p) \<Longrightarrow> quote_step C T db db'"
| proposal_changed: "proposal_step C (tx_naive T) db db' \<Longrightarrow> quote_step C T db db'"

text \<open>What a step does to one quote.\<close>

definition quote_moves :: "texts \<Rightarrow> db \<Rightarrow> db \<Rightarrow> bool" where
  "quote_moves T db db' \<longleftrightarrow> (\<forall>u q. decode_appointment_quote_by_id T u db = Inr q \<longrightarrow>
     (\<exists>q'. decode_appointment_quote_by_id T u db' = Inr q' \<and> quote_life\<^sup>*\<^sup>* q q'))"

lemma quote_moves_kept:
  "texts_ok T \<Longrightarrow> quote_inv T db \<Longrightarrow> quotes_kept T db db' \<Longrightarrow> quote_moves T db db'"
  unfolding quote_moves_def using quotes_kept_reads by blast

lemma quote_moves_refl: "quote_moves T db db"
  by (auto simp: quote_moves_def)

lemma quote_moves_trans: "quote_moves T db db1 \<Longrightarrow> quote_moves T db1 db2 \<Longrightarrow> quote_moves T db db2"
  unfolding quote_moves_def by (meson rtranclp_trans)

lemma prepare_step:
  assumes T: "texts_ok T" and inv: "quote_inv T db" and d: "draft_made d"
    and run: "prepare_appointment_draft_from_quote T u w s d now db = (db', Inr q')"
  shows "quote_inv T db'" "quote_moves T db db'" "decode_appointment_quote_by_id T u db' = Inr q'"
    "sq_state q' \<noteq> QsIssued" "sq_selected_slot_index q' = Some w"
    "\<exists>sd. sq_appointment_draft q' = Some sd \<and> exact_draft s d sd" "source_text s"
    "(db' = db \<and> decode_appointment_quote_by_id T u db = Inr q') \<or>
     (\<exists>q sd. decode_appointment_quote_by_id T u db = Inr q \<and> sq_state q = QsIssued \<and> q' = prepared_quote q w sd
        \<and> quote_is_valid_at (sq_quote q) now \<and> draft_fits q w d)"
proof -
  obtain q where src: "source_text s" and q: "decode_appointment_quote_by_id T u db = Inr q"
    using run by (auto simp: prepare_appointment_draft_from_quote_def rbind_Inr_iff validate_source_id_Inr)
  note out = prepare_outcome[OF T inv q d src, of w now]
  have id: "q_id (sq_quote q) = u" using quote_rowE[OF T inv q] by blast
  have "(db' = db \<and> q' = q \<and> sq_state q \<noteq> QsIssued \<and> sq_selected_slot_index q = Some w
        \<and> (\<exists>sd. sq_appointment_draft q = Some sd \<and> exact_draft s d sd))
    \<or> (\<exists>db1 sd. sq_state q = QsIssued \<and> quote_is_valid_at (sq_quote q) now \<and> draft_fits q w d
        \<and> save_appointment_draft_in_transaction T s d db = Inr (db1, sd) \<and> db' = save_prepared T u w s d db
        \<and> q' = prepared_quote q w sd)"
    using run unfolding out by (auto simp: quote_is_valid_at_def split: if_splits sum.splits)
  then have "quote_inv T db' \<and> quote_moves T db db' \<and> decode_appointment_quote_by_id T u db' = Inr q'
    \<and> sq_state q' \<noteq> QsIssued \<and> sq_selected_slot_index q' = Some w \<and> (\<exists>sd. sq_appointment_draft q' = Some sd \<and> exact_draft s d sd)
    \<and> ((db' = db \<and> decode_appointment_quote_by_id T u db = Inr q') \<or>
     (\<exists>q sd. decode_appointment_quote_by_id T u db = Inr q \<and> sq_state q = QsIssued \<and> q' = prepared_quote q w sd
        \<and> quote_is_valid_at (sq_quote q) now \<and> draft_fits q w d))"
  proof (elim disjE conjE exE)
    assume "db' = db" "q' = q" "sq_state q \<noteq> QsIssued" "sq_selected_slot_index q = Some w"
    moreover fix sd assume "sq_appointment_draft q = Some sd" "exact_draft s d sd"
    ultimately show ?thesis using inv q quote_moves_refl by simp
  next
    fix db1 sd
    assume st: "sq_state q = QsIssued" and valid: "quote_is_valid_at (sq_quote q) now" and fits: "draft_fits q w d"
      and run1: "save_appointment_draft_in_transaction T s d db = Inr (db1, sd)"
      and db': "db' = save_prepared T u w s d db" and q': "q' = prepared_quote q w sd"
    obtain db2 where s: "update_prepared T u (sd_id sd) w db1 = Inr (db2, 1)"
      "decode_appointment_quote_by_id T u db2 = Inr q'" "quote_inv T db2"
      "\<And>v p. v \<noteq> u \<Longrightarrow> decode_appointment_quote_by_id T v db = Inr p \<Longrightarrow> decode_appointment_quote_by_id T v db2 = Inr p"
      using prepare_stores[OF T inv q st d src fits run1] unfolding q' by blast
    have db2: "db' = db2" by (simp add: db' save_prepared_def run1 s(1))
    have ex: "exact_draft s d sd" using save_draft_cases[OF T _ d src run1] inv by (simp add: quote_inv_def)
    then have "draft_fits q w (sd_draft sd)" using draft_fits_same fits by (auto simp: exact_draft_def)
    then have "quote_life q q'"
      unfolding q' prepared_quote_def using st by (intro quote_life.prepared) (simp_all add: draft_fits_def)
    then have "quote_moves T db db'"
      unfolding quote_moves_def db2 using s(2,4) q by (metis r_into_rtranclp rtranclp.rtrancl_refl sum.inject(2))
    then show ?thesis using s(2,3) db2 q st valid fits ex by (auto simp: q' prepared_quote_def)
  qed
  then show "quote_inv T db'" "quote_moves T db db'" "decode_appointment_quote_by_id T u db' = Inr q'"
    "sq_state q' \<noteq> QsIssued" "sq_selected_slot_index q' = Some w"
    "\<exists>sd. sq_appointment_draft q' = Some sd \<and> exact_draft s d sd"
    "(db' = db \<and> decode_appointment_quote_by_id T u db = Inr q') \<or>
     (\<exists>q sd. decode_appointment_quote_by_id T u db = Inr q \<and> sq_state q = QsIssued \<and> q' = prepared_quote q w sd
        \<and> quote_is_valid_at (sq_quote q) now \<and> draft_fits q w d)"
    by blast+
  show "source_text s" by (rule src)
qed

lemma consumed_retry_eq:
  assumes "sq_proposal_id q = Some i" "find (\<lambda>r. pr_id r = i) (proposals db) = Some r"
    "decode_proposal_row (tx_naive T) r = Inr p" "sq_appointment_draft_id q = Some dj" "sp_source p = AppointmentDraftSource dj"
  shows "consumed_retry T q di key src db =
    (if dj = di \<and> sp_idempotency_key p = key \<and> sp_source_id p = src then Inr p else Inl quote_conflict)"
  using assms by (simp add: consumed_retry_def)

lemma submit_step:
  assumes T: "texts_ok T" and inv: "quote_inv T db"
    and run: "submit_appointment_quote T u di key src now clk db = (db', Inr p)"
  shows "quote_inv T db'" "quote_moves T db db'" "0 < di" "str_trim key \<noteq> []" "source_text src"
    "\<exists>c. stamp (tx_time T) c (to_utc now)"
    "\<exists>q'. decode_appointment_quote_by_id T u db' = Inr q' \<and> sq_state q' = QsConsumed \<and> sq_proposal_id q' = Some (sp_id p)
       \<and> sq_appointment_draft_id q' = Some di"
    "\<exists>r. find (\<lambda>r. pr_id r = sp_id p) (proposals db') = Some r \<and> decode_proposal_row (tx_naive T) r = Inr p"
    "sp_source_id p = src" "sp_idempotency_key p = str_trim key" "sp_source p = AppointmentDraftSource di"
proof -
  obtain c q where args: "0 < di" "str_trim key \<noteq> []" "source_text src" "stamp (tx_time T) c (to_utc now)"
    and q: "decode_appointment_quote_by_id T u db = Inr q"
    using run by (auto simp: submit_appointment_quote_def rbind_Inr_iff validate_source_id_Inr validate_non_empty_Inr
        format_quote_time_Inr)
  note out = submit_outcome[OF T inv q args, of clk]
  have "quote_inv T db' \<and> quote_moves T db db' \<and>
    (\<exists>q'. decode_appointment_quote_by_id T u db' = Inr q' \<and> sq_state q' = QsConsumed \<and> sq_proposal_id q' = Some (sp_id p)
       \<and> sq_appointment_draft_id q' = Some di)
    \<and> (\<exists>r. find (\<lambda>r. pr_id r = sp_id p) (proposals db') = Some r \<and> decode_proposal_row (tx_naive T) r = Inr p)
    \<and> sp_source_id p = src \<and> sp_idempotency_key p = str_trim key \<and> sp_source p = AppointmentDraftSource di"
  proof (cases "sq_state q")
    case QsConsumed
    obtain i p' r dj where cp: "sq_proposal_id q = Some i" "find (\<lambda>r. pr_id r = i) (proposals db) = Some r"
      "decode_proposal_row (tx_naive T) r = Inr p'" "sp_id p' = i" "sq_appointment_draft_id q = Some dj"
      "sp_source p' = AppointmentDraftSource dj"
      using consumed_proposal[OF T inv q QsConsumed] .
    have "db' = db" "dj = di" "p' = p" "sp_idempotency_key p' = key" "sp_source_id p' = src"
      using run consumed_retry_eq[OF cp(1,2,3,5,6), of di key src] unfolding out by (auto simp: QsConsumed split: if_splits)
    moreover have "sp_idempotency_key p' = str_trim (sp_idempotency_key p')"
      using cp(3) by (simp add: decode_proposal_row_Inr proposal_row_decodes_def)
    ultimately show ?thesis using inv q QsConsumed cp quote_moves_refl by simp
  next
    case QsIssued
    then show ?thesis using run unfolding out by simp
  next
    case st: QsPrepared
    obtain db1 where x: "sq_appointment_draft_id q = Some di" "\<not> before now (q_issued_at (sq_quote q))"
      "\<not> quote_is_expired (sq_quote q) now"
      "create_proposal_in_transaction (tx_naive T) key src (AppointmentDraftSource di) clk db = Inr (db1, p)"
      "db' = fst (update_consumed T u di c (sp_id p) db1)"
      using run unfolding out by (auto simp: st split: if_splits sum.splits)
    note s = submit_stores[OF T inv q st x(1) args(4) x(4,5)]
    have "quote_is_valid_at (sq_quote q) (to_utc now)"
      using x(2,3) by (simp add: quote_is_valid_at_def quote_is_expired_def before_def to_utc_def)
    then have "quote_life q (consumed_quote q (to_utc now) (sp_id p))"
      unfolding consumed_quote_def using st by (rule quote_life.consumed[rotated])
    then have "quote_moves T db db'"
      unfolding quote_moves_def using s(2,4) q by (metis r_into_rtranclp rtranclp.rtrancl_refl sum.inject(2))
    moreover obtain r where r: "find (\<lambda>r. pr_id r = sp_id p) (proposals db') = Some r" "decode_proposal_row (tx_naive T) r = Inr p"
      using s(5) by blast
    moreover have "sp_source p = AppointmentDraftSource di" "sp_source_id p = src" "sp_idempotency_key p = str_trim key"
      using create_proposal_fields[OF _ x(4)] inv by (auto simp: quote_inv_def)
    ultimately show ?thesis using s(2,3) x(1) by (auto simp: consumed_quote_def sq_appointment_draft_id_def)
  qed
  then show "quote_inv T db'" "quote_moves T db db'"
    "\<exists>q'. decode_appointment_quote_by_id T u db' = Inr q' \<and> sq_state q' = QsConsumed \<and> sq_proposal_id q' = Some (sp_id p)
       \<and> sq_appointment_draft_id q' = Some di"
    "\<exists>r. find (\<lambda>r. pr_id r = sp_id p) (proposals db') = Some r \<and> decode_proposal_row (tx_naive T) r = Inr p"
    "sp_source_id p = src" "sp_idempotency_key p = str_trim key" "sp_source p = AppointmentDraftSource di"
    by blast+
  show "0 < di" "str_trim key \<noteq> []" "source_text src" "\<exists>c. stamp (tx_time T) c (to_utc now)" using args by auto
qed

lemma quote_step_moves:
  assumes T: "texts_ok T" and inv: "quote_inv T db" and step: "quote_step C T db db'"
  shows "quote_inv T db' \<and> quote_moves T db db'"
  using step
proof cases
  case (draft_saved s d sd)
  then have "source_text s" "save_appointment_draft_in_transaction T s d db = Inr (db', sd)"
    by (auto simp: save_appointment_draft_def rbind_Inr_iff validate_source_id_Inr)
  from quotes_kept_saved_draft[OF T inv draft_saved(2) this] show ?thesis
    using quotes_kept_inv[OF inv] quote_moves_kept[OF T inv] by blast
next
  case (quote_saved quote kind zone slots q)
  then show ?thesis
    using saved_quote[OF T inv quote_saved] unfolding quote_moves_def by blast
next
  case (quote_prepared u w s d now q)
  then show ?thesis using prepare_step[OF T inv quote_prepared(2,1)] by blast
next
  case (quote_submitted u di key src now clk p)
  then show ?thesis using submit_step[OF T inv quote_submitted] by blast
next
  case proposal_changed
  from quotes_kept_proposal_step[OF inv this] show ?thesis
    using quotes_kept_inv[OF inv] quote_moves_kept[OF T inv] by blast
qed

lemma quote_run:
  assumes T: "texts_ok T" and inv: "quote_inv T db" and steps: "(quote_step C T)\<^sup>*\<^sup>* db db'"
  shows "quote_inv T db' \<and> quote_moves T db db'"
  using steps
proof (induction rule: rtranclp_induct)
  case base
  then show ?case using inv quote_moves_refl by blast
next
  case (step d d')
  then show ?case using quote_step_moves[OF T _ step.hyps(2)] quote_moves_trans by blast
qed

text \<open>What a quote keeps for ever, and what it keeps once it is prepared or consumed.\<close>

definition quote_follows :: "stored_appointment_quote \<Rightarrow> stored_appointment_quote \<Rightarrow> bool" where
  "quote_follows q q' \<longleftrightarrow>
     sq_quote q' = sq_quote q \<and> sq_appointment_kind q' = sq_appointment_kind q \<and> sq_timezone q' = sq_timezone q
     \<and> sq_offered_slots q' = sq_offered_slots q
     \<and> (sq_state q \<noteq> QsIssued \<longrightarrow> sq_state q' \<noteq> QsIssued \<and> sq_selected_slot_index q' = sq_selected_slot_index q
          \<and> sq_appointment_draft q' = sq_appointment_draft q)
     \<and> (sq_state q = QsConsumed \<longrightarrow> q' = q)
     \<and> (sq_state q \<noteq> QsConsumed \<longrightarrow> sq_state q' = QsConsumed \<longrightarrow>
          (\<exists>t. sq_consumed_at q' = Some t \<and> quote_is_valid_at (sq_quote q) t))"

lemma quote_life_follows: "quote_life\<^sup>*\<^sup>* q q' \<Longrightarrow> quote_follows q q'"
proof (induction rule: rtranclp_induct)
  case base
  then show ?case by (simp add: quote_follows_def)
next
  case (step q1 q2)
  from step.hyps(2) show ?case
  proof cases
    case (prepared w d)
    then have "sq_state q = QsIssued" using step.IH by (auto simp: quote_follows_def)
    then show ?thesis using step.IH by (simp add: quote_follows_def prepared(1))
  next
    case (consumed t p)
    have "sq_state q \<noteq> QsConsumed" using step.IH consumed(2) by (auto simp: quote_follows_def)
    then show ?thesis using step.IH consumed(2,3) by (simp add: quote_follows_def consumed(1))
  qed
qed

section \<open>The proposal of a consumed quote\<close>

definition consumed_into :: "texts \<Rightarrow> db \<Rightarrow> quote_id \<Rightarrow> stored_proposal \<Rightarrow> bool" where
  "consumed_into T db u p \<longleftrightarrow> (\<exists>q r. decode_appointment_quote_by_id T u db = Inr q \<and> sq_state q = QsConsumed
     \<and> sq_proposal_id q = Some (sp_id p)
     \<and> find (\<lambda>r. pr_id r = sp_id p) (proposals db) = Some r \<and> decode_proposal_row (tx_naive T) r = Inr p)"

definition proposals_move :: "texts \<Rightarrow> db \<Rightarrow> db \<Rightarrow> bool" where
  "proposals_move T db db' \<longleftrightarrow> (\<forall>u p. consumed_into T db u p \<longrightarrow> (\<exists>p'. consumed_into T db' u p' \<and> same_proposal p p'))"

lemma proposals_move_refl: "proposals_move T db db"
  unfolding proposals_move_def using same_proposal_refl by blast

lemma proposals_move_trans: "proposals_move T db db1 \<Longrightarrow> proposals_move T db1 db2 \<Longrightarrow> proposals_move T db db2"
  unfolding proposals_move_def same_proposal_def by metis

lemma proposals_move_kept:
  assumes T: "texts_ok T" and inv: "quote_inv T db" and kept: "quotes_kept T db db'"
  shows "proposals_move T db db'"
  unfolding proposals_move_def
proof (intro allI impI)
  fix u p assume "consumed_into T db u p"
  then obtain q r where q: "decode_appointment_quote_by_id T u db = Inr q" "sq_state q = QsConsumed"
    "sq_proposal_id q = Some (sp_id p)" and r: "find (\<lambda>r. pr_id r = sp_id p) (proposals db) = Some r"
    "decode_proposal_row (tx_naive T) r = Inr p" by (auto simp: consumed_into_def)
  obtain row where row: "row \<in> set (appointment_quotes db)" "quote_row_decodes T db row q" using quote_rowE[OF T inv q(1)] by metis
  then have "qt_proposal_id row = Some (sp_id p)"
    using q(2,3) by (auto simp: quote_row_decodes_def progress_decodes_def consumption_linked_def)
  then obtain r' p' where "find (\<lambda>r. pr_id r = sp_id p) (proposals db') = Some r'" "decode_proposal_row (tx_naive T) r' = Inr p'"
    "same_proposal p p'"
    using kept row(1) r unfolding quotes_kept_def backing_kept_def by blast
  moreover have "decode_appointment_quote_by_id T u db' = Inr q" by (rule quotes_kept_reads[OF T inv kept q(1)])
  moreover have "sp_id p' = sp_id p" using \<open>same_proposal p p'\<close> by (simp add: same_proposal_def)
  ultimately show "\<exists>p'. consumed_into T db' u p' \<and> same_proposal p p'"
    using q(2,3) unfolding consumed_into_def by metis
qed

lemma proposals_move_same:
  assumes "proposals db2 = proposals db1"
    and "\<And>v q. decode_appointment_quote_by_id T v db1 = Inr q \<Longrightarrow> sq_state q = QsConsumed \<Longrightarrow>
      decode_appointment_quote_by_id T v db2 = Inr q"
  shows "proposals_move T db1 db2"
  unfolding proposals_move_def consumed_into_def using assms same_proposal_refl by metis

lemma quote_rewritten_proposals:
  assumes T: "texts_ok T" and inv: "quote_inv T db" and kept: "quotes_kept T db db1" and same: "proposals db2 = proposals db1"
    and others: "\<And>v p. v \<noteq> u \<Longrightarrow> decode_appointment_quote_by_id T v db = Inr p \<Longrightarrow> decode_appointment_quote_by_id T v db2 = Inr p"
    and u: "decode_appointment_quote_by_id T u db = Inr q" "sq_state q \<noteq> QsConsumed"
  shows "proposals_move T db db2"
proof (rule proposals_move_trans[OF proposals_move_kept[OF T inv kept]])
  have u1: "decode_appointment_quote_by_id T u db1 = Inr q" by (rule quotes_kept_reads[OF T inv kept u(1)])
  have inv1: "quote_inv T db1" by (rule quotes_kept_inv[OF inv kept])
  show "proposals_move T db1 db2"
  proof (rule proposals_move_same[OF same])
    fix v q1 assume v: "decode_appointment_quote_by_id T v db1 = Inr q1" "sq_state q1 = QsConsumed"
    then have "v \<noteq> u" using u1 u(2) by auto
    moreover have "decode_appointment_quote_by_id T v db = Inr q1"
    proof -
      obtain row where row: "row \<in> set (appointment_quotes db1)" "qt_quote_id row = tx_uuid_show T v" using quote_rowE[OF T inv1 v(1)] by metis
      then have "row \<in> set (appointment_quotes db)" using kept by (simp add: quotes_kept_def)
      then obtain q0 where "decode_appointment_quote_by_id T v db = Inr q0"
        using row(2) quote_by_id_total[OF T inv, of v] by auto
      with quotes_kept_reads[OF T inv kept this] v(1) show ?thesis by simp
    qed
    ultimately show "decode_appointment_quote_by_id T v db2 = Inr q1" using others by blast
  qed
qed

lemma update_prepared_proposals: "update_prepared T u di w db1 = Inr (db2, n) \<Longrightarrow> proposals db2 = proposals db1"
  by (auto simp: update_prepared_def Let_def split: if_splits)

lemma update_consumed_proposals: "proposals (fst (update_consumed T u di c i db1)) = proposals db1"
  by (simp add: update_consumed_def Let_def)

lemma prepare_proposals:
  assumes T: "texts_ok T" and inv: "quote_inv T db" and d: "draft_made d"
    and run: "prepare_appointment_draft_from_quote T u w s d now db = (db', Inr q')"
  shows "proposals_move T db db'"
proof -
  obtain q where src: "source_text s" and q: "decode_appointment_quote_by_id T u db = Inr q"
    using run by (auto simp: prepare_appointment_draft_from_quote_def rbind_Inr_iff validate_source_id_Inr)
  show ?thesis
  proof (cases "db' = db")
    case True
    then show ?thesis using proposals_move_refl by simp
  next
    case False
    then obtain db1 sd where st: "sq_state q = QsIssued" and fits: "draft_fits q w d"
      and run1: "save_appointment_draft_in_transaction T s d db = Inr (db1, sd)" and db': "db' = save_prepared T u w s d db"
      using run unfolding prepare_outcome[OF T inv q d src, of w now] by (auto split: if_splits sum.splits)
    obtain db2 where p: "update_prepared T u (sd_id sd) w db1 = Inr (db2, 1)"
      "\<And>v p. v \<noteq> u \<Longrightarrow> decode_appointment_quote_by_id T v db = Inr p \<Longrightarrow> decode_appointment_quote_by_id T v db2 = Inr p"
      using prepare_stores[OF T inv q st d src fits run1] by blast
    have "db' = db2" by (simp add: db' save_prepared_def run1 p(1))
    then have same: "proposals db' = proposals db1" using update_prepared_proposals[OF p(1)] by simp
    have kept: "quotes_kept T db db1" by (rule quotes_kept_saved_draft[OF T inv d src run1])
    show ?thesis
      by (rule quote_rewritten_proposals[OF T inv kept same _ q]) (use p(2) \<open>db' = db2\<close> st in simp_all)
  qed
qed

lemma submit_proposals:
  assumes T: "texts_ok T" and inv: "quote_inv T db"
    and run: "submit_appointment_quote T u di key src now clk db = (db', Inr p)"
  shows "proposals_move T db db'"
proof -
  obtain c q where args: "0 < di" "str_trim key \<noteq> []" "source_text src" "stamp (tx_time T) c (to_utc now)"
    and q: "decode_appointment_quote_by_id T u db = Inr q"
    using run by (auto simp: submit_appointment_quote_def rbind_Inr_iff validate_source_id_Inr validate_non_empty_Inr
        format_quote_time_Inr)
  show ?thesis
  proof (cases "db' = db")
    case True
    then show ?thesis using proposals_move_refl by simp
  next
    case False
    then obtain db1 where st: "sq_state q = QsPrepared" and x: "sq_appointment_draft_id q = Some di"
      "create_proposal_in_transaction (tx_naive T) key src (AppointmentDraftSource di) clk db = Inr (db1, p)"
      "db' = fst (update_consumed T u di c (sp_id p) db1)"
      using run unfolding submit_outcome[OF T inv q args, of clk] by (auto split: if_splits sum.splits quote_state.splits)
    have same: "proposals db' = proposals db1" by (simp add: x(3) update_consumed_proposals)
    have kept: "quotes_kept T db db1" by (rule quotes_kept_created[OF inv x(2)])
    show ?thesis
      by (rule quote_rewritten_proposals[OF T inv kept same submit_stores(4)[OF T inv q st x(1) args(4) x(2,3)] q])
        (simp_all add: st)
  qed
qed

lemma insert_slots_proposals: "insert_slots T qid i slots db = Inr db' \<Longrightarrow> proposals db' = proposals db"
  by (induction slots arbitrary: i db) (fastforce simp: rbind_Inr_iff Let_def split: if_splits)+

lemma saved_quote_proposals:
  assumes "save_appointment_quote T quote kind zone slots db = (db', Inr q)"
  shows "proposals db' = proposals db"
  using assms by (auto simp: save_appointment_quote_def rbind_Inr_iff Let_def dest!: insert_slots_proposals split: if_splits)

lemma quote_step_proposals:
  assumes T: "texts_ok T" and inv: "quote_inv T db" and step: "quote_step C T db db'"
  shows "proposals_move T db db'"
  using step
proof cases
  case (draft_saved s d sd)
  then have "source_text s" "save_appointment_draft_in_transaction T s d db = Inr (db', sd)"
    by (auto simp: save_appointment_draft_def rbind_Inr_iff validate_source_id_Inr)
  from quotes_kept_saved_draft[OF T inv draft_saved(2) this] show ?thesis by (rule proposals_move_kept[OF T inv])
next
  case (quote_saved quote kind zone slots q)
  show ?thesis
    by (rule proposals_move_same[OF saved_quote_proposals[OF quote_saved]]) (rule saved_quote(3)[OF T inv quote_saved])
next
  case (quote_prepared u w s d now q)
  then show ?thesis using prepare_proposals[OF T inv quote_prepared(2,1)] by blast
next
  case (quote_submitted u di key src now clk p)
  then show ?thesis using submit_proposals[OF T inv quote_submitted] by blast
next
  case proposal_changed
  from quotes_kept_proposal_step[OF inv this] show ?thesis by (rule proposals_move_kept[OF T inv])
qed

lemma quote_run_proposals:
  assumes T: "texts_ok T" and inv: "quote_inv T db" and steps: "(quote_step C T)\<^sup>*\<^sup>* db db'"
  shows "proposals_move T db db'"
  using steps
proof (induction rule: rtranclp_induct)
  case base
  then show ?case by (rule proposals_move_refl)
next
  case (step d d')
  then show ?case using quote_step_proposals[OF T _ step.hyps(2)] quote_run[OF T inv step.hyps(1)] proposals_move_trans by blast
qed

section \<open>Properties\<close>

text \<open>
  C6. A quote is frozen and only moves forward: in every later state of the database it is still
  there, with the identity, validity, kind, zone and offered slots it was issued with; a prepared
  quote keeps its selection and its draft, a consumed one does not change any more, and a
  consumption happened at a time at which the quote was valid. All rows stay decodable.
\<close>

theorem quote_is_frozen_and_moves_forward:
  assumes "texts_ok T" "quote_inv T db" "(quote_step C T)\<^sup>*\<^sup>* db db'"
    and "load_appointment_quote_by_id T u db = Inr q"
  shows "quote_inv T db' \<and> (\<exists>q'. load_appointment_quote_by_id T u db' = Inr q' \<and> quote_follows q q')"
  using quote_run[OF assms(1-3)] assms(4) quote_life_follows
  unfolding quote_moves_def load_appointment_quote_by_id_def by blast

text \<open>
  C7. Preparing an issued quote succeeds exactly when it is called during the five minutes of the
  quote, with a draft of its kind for the selected slot, and that draft can be saved (its source is
  valid and no other draft has its key, source or quote). The quote is then stored as prepared, with
  the slot that was asked for; a call that fails changes nothing.
\<close>

theorem preparation_succeeds_iff:
  assumes T: "texts_ok T" and inv: "quote_inv T db" and q: "load_appointment_quote_by_id T u db = Inr q"
    and st: "sq_state q = QsIssued" and d: "draft_made d"
    and res: "res = prepare_appointment_draft_from_quote T u w s d now db"
  shows "((\<exists>q'. snd res = Inr q') \<longleftrightarrow> quote_is_valid_at (sq_quote q) now \<and> draft_fits q w d
        \<and> (\<exists>db1 sd. save_appointment_draft T s d db = (db1, Inr sd)))
    \<and> (\<forall>q'. snd res = Inr q' \<longrightarrow> load_appointment_quote_by_id T u (fst res) = Inr q'
        \<and> sq_state q' = QsPrepared \<and> sq_selected_slot_index q' = Some w)
    \<and> (\<forall>e. snd res = Inl e \<longrightarrow> fst res = db)"
proof -
  have q': "decode_appointment_quote_by_id T u db = Inr q" using q by (simp add: load_appointment_quote_by_id_def)
  have id: "q_id (sq_quote q) = u" using quote_rowE[OF T inv q'] by blast
  have save: "(\<exists>db1 sd. save_appointment_draft T s d db = (db1, Inr sd)) \<longleftrightarrow>
      source_text s \<and> (\<exists>x. save_appointment_draft_in_transaction T s d db = Inr x)"
    by (auto simp: save_appointment_draft_def rbind_Inr_iff validate_source_id_Inr)
  have iff: "(\<exists>q'. snd res = Inr q') \<longleftrightarrow> quote_is_valid_at (sq_quote q) now \<and> draft_fits q w d
        \<and> source_text s \<and> (\<exists>x. save_appointment_draft_in_transaction T s d db = Inr x)"
  proof (cases "source_text s")
    case True
    show ?thesis
      unfolding res prepare_outcome[OF T inv q' d True, of w now] using st id True
      by (cases "save_appointment_draft_in_transaction T s d db") (auto simp: quote_is_valid_at_def draft_fits_def)
  next
    case False
    then have "\<nexists>q'. snd res = Inr q'"
      unfolding res prepare_appointment_draft_from_quote_def run_tx_def
      by (auto simp: rbind_Inr_iff validate_source_id_Inr split: sum.splits prod.splits)
    then show ?thesis using False by blast
  qed
  have stored: "load_appointment_quote_by_id T u (fst res) = Inr q' \<and> sq_state q' = QsPrepared \<and> sq_selected_slot_index q' = Some w"
    if "snd res = Inr q'" for q'
  proof -
    have run: "prepare_appointment_draft_from_quote T u w s d now db = (fst res, Inr q')" using that res by (simp add: prod_eq_iff)
    note p = prepare_step[OF T inv d run]
    from p(8) have "sq_state q' = QsPrepared" using p(4) q' st by (auto simp: prepared_quote_def)
    then show ?thesis using p(3,5) by (simp add: load_appointment_quote_by_id_def)
  qed
  have "fst res = db" if "snd res = Inl e" for e
    using that unfolding res prepare_appointment_draft_from_quote_def run_tx_def by (auto split: sum.splits prod.splits)
  then show ?thesis using iff save stored by blast
qed

text \<open>
  A preparation can be repeated at any later time, even after the quote expired or was
  consumed: the same call changes nothing and returns the quote with the selection and the draft
  it was prepared with.
\<close>

theorem preparation_can_be_repeated:
  assumes T: "texts_ok T" and inv: "quote_inv T db" and d: "draft_made d"
    and run: "prepare_appointment_draft_from_quote T u w s d now db = (db1, Inr q1)"
    and steps: "(quote_step C T)\<^sup>*\<^sup>* db1 db2"
  shows "\<exists>q2. prepare_appointment_draft_from_quote T u w s d now' db2 = (db2, Inr q2) \<and> quote_follows q1 q2"
proof -
  note p = prepare_step[OF T inv d run]
  obtain q2 where q2: "decode_appointment_quote_by_id T u db2 = Inr q2" "quote_follows q1 q2" and inv2: "quote_inv T db2"
    using quote_run[OF T p(1) steps] p(3) quote_life_follows unfolding quote_moves_def by blast
  have "sq_state q2 \<noteq> QsIssued" "sq_selected_slot_index q2 = Some w" "sq_appointment_draft q2 = sq_appointment_draft q1"
    using q2(2) p(4,5) by (simp_all add: quote_follows_def)
  then show ?thesis
    using prepare_outcome[OF T inv2 q2(1) d p(7), of w now'] p(6) q2(2) by auto
qed

lemma submit_rolls_back: "submit_appointment_quote T u di key src now clk db = (db', Inl e) \<Longrightarrow> db' = db"
  by (simp add: submit_appointment_quote_def)

text \<open>
  C5. A quote is submitted once: after a submission returned a proposal, no later submission of
  the quote changes anything, and one that succeeds asks for the same draft, source and key and
  returns that proposal; the same call under a trimmed key succeeds at any later time.
\<close>

theorem quote_is_submitted_once:
  assumes T: "texts_ok T" and inv: "quote_inv T db"
    and run: "submit_appointment_quote T u di key src now clk db = (db1, Inr p)"
    and steps: "(quote_step C T)\<^sup>*\<^sup>* db1 db2"
    and res: "res = submit_appointment_quote T u dj key' src' now' clk' db2"
  shows "fst res = db2
    \<and> (\<forall>p'. snd res = Inr p' \<longrightarrow> sp_id p' = sp_id p \<and> dj = di \<and> src' = src \<and> key' = str_trim key)
    \<and> (dj = di \<and> src' = src \<and> key' = key \<and> str_trim key = key \<and> (\<exists>c. stamp (tx_time T) c (to_utc now')) \<longrightarrow>
        (\<exists>p'. snd res = Inr p' \<and> same_proposal p p'))"
proof -
  note s = submit_step[OF T inv run]
  have inv2: "quote_inv T db2" using quote_run[OF T s(1) steps] by blast
  have "consumed_into T db1 u p" using s(7,8) by (auto simp: consumed_into_def)
  then obtain p2 where p2: "consumed_into T db2 u p2" "same_proposal p p2"
    using quote_run_proposals[OF T s(1) steps] unfolding proposals_move_def by blast
  then obtain q r where q: "decode_appointment_quote_by_id T u db2 = Inr q" "sq_state q = QsConsumed"
      "sq_proposal_id q = Some (sp_id p2)"
    and r: "find (\<lambda>r. pr_id r = sp_id p2) (proposals db2) = Some r" "decode_proposal_row (tx_naive T) r = Inr p2"
    by (auto simp: consumed_into_def)
  obtain dk where dk: "sq_appointment_draft_id q = Some dk" "sp_source p2 = AppointmentDraftSource dk"
    using consumed_proposal[OF T inv2 q(1,2)] q(3) r by (metis option.inject sum.inject(2))
  have same: "dk = di" "sp_idempotency_key p2 = str_trim key" "sp_source_id p2 = src" "sp_id p2 = sp_id p"
    using p2(2) s(9-11) dk(2) by (simp_all add: same_proposal_def)
  note retry = consumed_retry_eq[OF q(3) r dk]
  have out: "res = (db2, if dj = di \<and> str_trim key = key' \<and> src' = src then Inr p2 else Inl quote_conflict)"
    if a: "0 < dj" "str_trim key' \<noteq> []" "source_text src'" "\<exists>c. stamp (tx_time T) c (to_utc now')"
  proof -
    obtain c where "stamp (tx_time T) c (to_utc now')" using a(4) by blast
    then show ?thesis using submit_outcome[OF T inv2 q(1) a(1-3)] q(2) retry[of dj key' src'] same by (auto simp: res)
  qed
  have ok: "res = (db2, Inr p2) \<and> dj = di \<and> str_trim key = key' \<and> src' = src" if "snd res = Inr p'" for p'
  proof -
    have "submit_appointment_quote T u dj key' src' now' clk' db2 = (fst res, Inr p')" using res that by (simp add: prod_eq_iff)
    note s' = submit_step[OF T inv2 this]
    show ?thesis using out[OF s'(3-6)] that by (auto split: if_splits)
  qed
  have "fst res = db2"
  proof (cases "snd res")
    case (Inl e)
    then have "submit_appointment_quote T u dj key' src' now' clk' db2 = (fst res, Inl e)" using res by (simp add: prod_eq_iff)
    then show ?thesis by (rule submit_rolls_back)
  next
    case (Inr p')
    then show ?thesis using ok by simp
  qed
  moreover have "sp_id p' = sp_id p \<and> dj = di \<and> src' = src \<and> key' = str_trim key" if "snd res = Inr p'" for p'
  proof -
    have "p' = p2" using ok[OF that] that by (metis snd_conv sum.inject(2))
    then show ?thesis using ok[OF that] same(4) by simp
  qed
  moreover have "snd res = Inr p2" if "dj = di \<and> src' = src \<and> key' = key \<and> str_trim key = key"
      "\<exists>c. stamp (tx_time T) c (to_utc now')"
  proof -
    have "res = (db2, Inr p2)" using out[OF _ _ _ that(2)] that(1) s(3-5) by simp
    then show ?thesis by simp
  qed
  ultimately show ?thesis using p2(2) by blast
qed

section \<open>No operation panics\<close>

lemma or_fail_not_panicked [simp]: "or_fail m \<noteq> Inl Panicked"
  by (cases m) simp_all

lemma retry_loop_Inl:
  "\<forall>c \<in> set cs. \<exists>x. dec c = Inr x \<Longrightarrow> retry_loop dec exact None conflict cs found = Inl e \<Longrightarrow> e = conflict"
  by (induction cs arbitrary: found) (auto simp: rbind_Inl_iff split: if_splits)

lemma save_draft_no_panic:
  assumes "draft_inv T db"
  shows "save_appointment_draft_in_transaction T s d db \<noteq> Inl Panicked"
proof -
  have "retry_loop (decode_appointment_row T) exact None (Failed e) (filter p (appointment_drafts db)) None \<noteq> Inl Panicked"
    for exact e p
    using assms retry_loop_Inl[of "filter p (appointment_drafts db)" "decode_appointment_row T" exact "Failed e" None Panicked]
    by (auto simp: draft_inv_def)
  then show ?thesis by (auto simp: save_appointment_draft_in_transaction_def rbind_Inl_iff Let_def)
qed

lemma by_id_no_panic: "texts_ok T \<Longrightarrow> quote_inv T db \<Longrightarrow> decode_appointment_quote_by_id T u db \<noteq> Inl Panicked"
  using quote_by_id_total[of T db u] by auto

lemma consumed_retry_no_panic: "consumed_retry T q di key src db \<noteq> Inl Panicked"
  by (auto simp: consumed_retry_def rbind_Inl_iff quote_conflict_def)

lemma prepare_no_panic:
  assumes T: "texts_ok T" and inv: "quote_inv T db" and d: "draft_made d"
  shows "snd (prepare_appointment_draft_from_quote T u w s d now db) \<noteq> Inl Panicked"
proof (cases "source_text s \<and> (\<exists>q. decode_appointment_quote_by_id T u db = Inr q)")
  case True
  then obtain q where q: "decode_appointment_quote_by_id T u db = Inr q" "source_text s" by blast
  show ?thesis
    using save_draft_no_panic[of T db s d] inv unfolding prepare_outcome[OF T inv q(1) d q(2)]
    by (auto simp: quote_conflict_def quote_inv_def split: sum.splits)
next
  case False
  have "prepare_appointment_draft_from_quote T u w s d now db = (db, Inl e) \<Longrightarrow> e \<noteq> Panicked" for e
    using False by_id_no_panic[OF T inv, of u]
    by (auto simp: prepare_appointment_draft_from_quote_def rbind_Inl_iff validate_source_id_Inr)
  moreover have "\<exists>e. prepare_appointment_draft_from_quote T u w s d now db = (db, Inl e)"
  proof (cases "prepare_appointment_draft_from_quote T u w s d now db")
    case (Pair db' r)
    then show ?thesis using False
      by (cases r) (auto simp: prepare_appointment_draft_from_quote_def rbind_Inr_iff validate_source_id_Inr)
  qed
  ultimately show ?thesis by auto
qed

lemma submit_no_panic:
  assumes T: "texts_ok T" and inv: "quote_inv T db"
  shows "snd (submit_appointment_quote T u di key src now clk db) \<noteq> Inl Panicked"
proof (cases "\<exists>c q. 0 < di \<and> str_trim key \<noteq> [] \<and> source_text src \<and> stamp (tx_time T) c (to_utc now)
    \<and> decode_appointment_quote_by_id T u db = Inr q")
  case True
  then obtain c q where a: "0 < di" "str_trim key \<noteq> []" "source_text src" "stamp (tx_time T) c (to_utc now)"
    and q: "decode_appointment_quote_by_id T u db = Inr q" by blast
  show ?thesis unfolding submit_outcome[OF T inv q a]
    using consumed_retry_no_panic by (auto simp: quote_conflict_def split: sum.splits quote_state.splits)
next
  case False
  show ?thesis
  proof
    assume "snd (submit_appointment_quote T u di key src now clk db) = Inl Panicked"
    then obtain db' where "submit_appointment_quote T u di key src now clk db = (db', Inl Panicked)"
      by (cases "submit_appointment_quote T u di key src now clk db") auto
    then show False using False by_id_no_panic[OF T inv, of u]
      by (auto simp: submit_appointment_quote_def rbind_Inl_iff validate_source_id_Inr validate_non_empty_Inr
        format_quote_time_Inr)
  qed
qed

lemma insert_slots_quotes: "insert_slots T qid i slots db = Inr db' \<Longrightarrow> appointment_quotes db' = appointment_quotes db"
  by (induction slots arbitrary: i db) (fastforce simp: rbind_Inr_iff Let_def split: if_splits)+

lemma fresh_quote_no_panic:
  assumes "qt_quote_id r = tx_uuid_show T u" "appointment_quotes db' = rows @ [r]"
    "\<not> list_ex (\<lambda>r. qt_quote_id r = tx_uuid_show T u) rows" "qt_state r = quote_state_storage_name QsIssued"
  shows "decode_appointment_quote_by_id T u db' \<noteq> Inl Panicked"
proof -
  have "find (\<lambda>r. qt_quote_id r = tx_uuid_show T u) rows = None" using assms(3) by (auto simp: find_None_iff list_ex_iff)
  then have "find (\<lambda>r. qt_quote_id r = tx_uuid_show T u) (appointment_quotes db') = Some r" using assms(1,2)
    by (simp add: find_append)
  moreover have "parse_quote_state (qt_state r) = Inr st \<Longrightarrow> st = QsIssued" for st
    unfolding assms(4) by (simp add: parse_quote_state_def)
  ultimately show ?thesis
    by (auto simp: decode_appointment_quote_by_id_def decode_appointment_quote_row_def decode_quote_progress_def rbind_Inl_iff
        split: if_splits)
qed

lemma save_quote_no_panic:
  assumes T: "texts_ok T" and inv: "quote_inv T db"
  shows "snd (save_appointment_quote T quote kind zone slots db) \<noteq> Inl Panicked"
proof
  assume p: "snd (save_appointment_quote T quote kind zone slots db) = Inl Panicked"
  have old: "decode_appointment_quote_by_id T (q_id quote) db \<noteq> Inl Panicked" by (rule by_id_no_panic[OF T inv])
  have new: "decode_appointment_quote_by_id T (q_id quote) db' \<noteq> Inl Panicked"
    if "insert_slots T (tx_uuid_show T (q_id quote)) 0 slots (db\<lparr>appointment_quotes := appointment_quotes db
          @ [new_quote_row (tx_uuid_show T (q_id quote)) kind z a b n]\<rparr>) = Inr db'"
      "\<not> list_ex (\<lambda>r. qt_quote_id r = tx_uuid_show T (q_id quote)) (appointment_quotes db)" for db' z a b n
    by (rule fresh_quote_no_panic[OF _ insert_slots_quotes[OF that(1), simplified] that(2)]) (simp_all add: new_quote_row_def)
  from p obtain db' where "save_appointment_quote T quote kind zone slots db = (db', Inl Panicked)"
    by (cases "save_appointment_quote T quote kind zone slots db") auto
  then show False using old new
    by (auto simp: save_appointment_quote_def rbind_Inl_iff Let_def quote_conflict_def split: if_splits)
qed

lemma by_draft_no_panic:
  "texts_ok T \<Longrightarrow> quote_inv T db \<Longrightarrow> load_appointment_quote_by_draft_id T i db \<noteq> Inl Panicked"
  using by_id_no_panic by (auto simp: load_appointment_quote_by_draft_id_def rbind_Inl_iff split: if_splits)

lemma load_draft_no_panic:
  assumes "draft_inv T db"
  shows "load_appointment_draft_by_id T i db \<noteq> Inl Panicked"
    "load_appointment_draft_by_idempotency_key T key db \<noteq> Inl Panicked"
  using assms by (auto simp: load_appointment_draft_by_id_def load_appointment_draft_by_idempotency_key_def rbind_Inl_iff
      draft_inv_def dest!: find_Some_mem)

text \<open>
  C32. The store never panics on what it has stored: in every state reached by saving, preparing and
  submitting drafts and quotes and by changing or deleting proposals and drafts, each of the eight
  operations on drafts and quotes returns or fails with an error: the loads of a draft by id and by
  key, the loads of a quote by id and by draft, the saving of a draft and of a quote, the
  preparation and the submission. The end of a stored appointment can always be computed again.
\<close>

theorem stored_appointments_never_panic:
  assumes T: "texts_ok T" and inv: "quote_inv T db" and steps: "(quote_step C T)\<^sup>*\<^sup>* db db'" and d: "draft_made d"
  shows "load_appointment_draft_by_id T i db' \<noteq> Inl Panicked
    \<and> load_appointment_draft_by_idempotency_key T k db' \<noteq> Inl Panicked
    \<and> load_appointment_quote_by_id T u db' \<noteq> Inl Panicked
    \<and> load_appointment_quote_by_draft_id T i db' \<noteq> Inl Panicked
    \<and> snd (save_appointment_draft T s d db') \<noteq> Inl Panicked
    \<and> snd (save_appointment_quote T quote kind zone slots db') \<noteq> Inl Panicked
    \<and> snd (prepare_appointment_draft_from_quote T u w s d now db') \<noteq> Inl Panicked
    \<and> snd (submit_appointment_quote T u j key src now clk db') \<noteq> Inl Panicked"
proof -
  have inv': "quote_inv T db'" using quote_run[OF T inv steps] by blast
  then have dinv: "draft_inv T db'" by (simp add: quote_inv_def)
  have "snd (save_appointment_draft T s d db') \<noteq> Inl Panicked"
    using save_draft_no_panic[OF dinv] by (auto simp: save_appointment_draft_def run_tx_def rbind_def split: sum.splits prod.splits)
  then show ?thesis
    using load_draft_no_panic[OF dinv] by_id_no_panic[OF T inv'] by_draft_no_panic[OF T inv'] save_quote_no_panic[OF T inv']
      prepare_no_panic[OF T inv' d] submit_no_panic[OF T inv']
    by (simp add: load_appointment_quote_by_id_def)
qed

section \<open>Saving\<close>

text \<open>
  A valid quote is stored: with a canonical zone, one to a hundred distinct slots of the
  appointment's length and times that have a text, a quote with a new identity is saved and read
  back as it was, in UTC and in the state issued; saving it again at any later time succeeds, and
  changes nothing.
\<close>

theorem valid_quote_is_stored:
  assumes T: "texts_ok T" and inv: "quote_inv T db"
    and "load_appointment_quote_by_id T (q_id quote) db = Inl e" "str_trim zone \<noteq> []" "tx_zone T zone = Some zone"
      "validate_appointment_quote_slots kind slots = Inr ()" "quote_wf quote" "\<forall>s \<in> set slots. slot_writable T s"
      "stamp (tx_time T) a (to_utc (q_issued_at quote))" "stamp (tx_time T) b (to_utc (q_expires_at quote))"
  shows "\<exists>db'. save_appointment_quote T quote kind zone slots db = (db', Inr (issued_quote quote kind zone slots))
    \<and> (\<forall>db''. (quote_step C T)\<^sup>*\<^sup>* db' db'' \<longrightarrow> (\<exists>q. save_appointment_quote T quote kind zone slots db'' = (db'', Inr q)
          \<and> quote_follows (issued_quote quote kind zone slots) q))"
proof -
  let ?q = "issued_quote quote kind zone slots"
  obtain db' where run: "save_appointment_quote T quote kind zone slots db = (db', Inr ?q)"
    using new_quote_stored[OF T inv _ assms(4-10)] assms(3) by (auto simp: load_appointment_quote_by_id_def)
  note s = saved_quote[OF T inv run]
  have "\<exists>q. save_appointment_quote T quote kind zone slots db'' = (db'', Inr q) \<and> quote_follows ?q q"
    if steps: "(quote_step C T)\<^sup>*\<^sup>* db' db''" for db''
  proof -
    obtain q where q: "decode_appointment_quote_by_id T (q_id quote) db'' = Inr q" "quote_follows ?q q" and inv'': "quote_inv T db''"
      using quote_run[OF T s(1) steps] s(2) quote_life_follows unfolding quote_moves_def by blast
    obtain row where "row \<in> set (appointment_quotes db'')" "qt_quote_id row = tx_uuid_show T (q_id quote)"
      using quote_rowE[OF T inv'' q(1)] by metis
    then have "list_ex (\<lambda>r. qt_quote_id r = tx_uuid_show T (q_id quote)) (appointment_quotes db'')" by (auto simp: list_ex_iff)
    moreover have "validate_appointment_quote_timezone T zone = Inr zone" using assms(4,5) by (simp add: timezone_Inr)
    ultimately show ?thesis
      using assms(6,9,10) q s(4-7)
      by (auto simp: save_appointment_quote_def run_tx_def format_quote_time_Inr[THEN iffD2] quote_follows_def issued_quote_def)
  qed
  then show ?thesis using run by blast
qed

section \<open>Witnesses\<close>

definition demo_texts :: texts where
  "demo_texts = \<lparr>tx_time = demo_utc_codec, tx_naive = Some,
     tx_uuid_parse = (\<lambda>s. case s of [c] \<Rightarrow> Some (word_of_int (c - 256)) | _ \<Rightarrow> None),
     tx_uuid_show = (\<lambda>u. [uint u + 256]), tx_zone = Some\<rparr>"

lemma demo_exact: "codec_exact demo_utc_codec"
  unfolding codec_exact_def
proof (intro allI impI)
  fix d s assume "rfc_format demo_utc_codec d = Some s"
  then have "is_utc d" "rfc_range (unix_timestamp d)" "s = demo_whole (unix_timestamp d) @ frac_text (nanosecond d) @ [90]"
    by (auto simp: demo_utc_codec_def split: if_splits)
  then show "rfc_parse demo_utc_codec s = Some d" using demo_utc_reads by simp
qed

lemma demo_texts_ok: "texts_ok demo_texts"
proof -
  have "to_ascii_lowercase [uint (u :: quote_id) + 256] = [uint u + 256]" for u
    by (simp add: to_ascii_lowercase_def ascii_lower_def is_ascii_uppercase_def) (use uint_ge_0[of u] in linarith)
  then show ?thesis by (simp add: texts_ok_def demo_texts_def demo_exact demo_utc_shape)
qed

lemma demo_stamp_secs: "rfc_range t \<Longrightarrow> stamp (tx_time demo_texts) (demo_whole t @ [90]) (utc_secs t)"
  by (simp add: stamp_def demo_texts_def demo_utc_codec_def frac_text_def is_utc_def utc_secs_def unix_timestamp_def
      nanosecond_def NANOS_def)

lemma utc_secs_utc [simp]: "to_utc (utc_secs t) = utc_secs t"
  by (simp add: to_utc_def utc_secs_def)

definition demo_offer :: quote where
  "demo_offer = \<lparr>q_id = 7, q_issued_at = utc_secs 0, q_expires_at = utc_secs 300\<rparr>"

definition demo_slots :: "appointment_slot list" where
  "demo_slots = [\<lparr>slot_starts_at = utc_secs 900, slot_ends_at = utc_secs 1800\<rparr>]"

definition demo_caller :: caller_identity where
  "demo_caller = \<lparr>ci_name = lit ''Ann'', ci_email = \<lparr>ce_value = lit ''a@b.co'', ce_confirmed = True\<rparr>\<rparr>"

definition demo_appointment :: appointment_draft where
  "demo_appointment = \<lparr>ad_quote_id = 7, ad_caller = demo_caller, ad_kind = AkCallback, ad_starts_at = utc_secs 900,
     ad_ends_at = utc_secs 1800, ad_requester_included = False, ad_idempotency_key = lit ''k''\<rparr>"

lemma demo_inv: "quote_inv demo_texts empty_db"
  by (simp add: quote_inv_def draft_inv_def proposal_inv_def empty_db_def)

lemma demo_offer_args:
  "validate_appointment_quote_slots AkCallback demo_slots = Inr ()" "quote_wf demo_offer"
  "\<forall>s \<in> set demo_slots. slot_writable demo_texts s"
  "stamp (tx_time demo_texts) (demo_whole 0 @ [90]) (to_utc (q_issued_at demo_offer))"
  "stamp (tx_time demo_texts) (demo_whole 300 @ [90]) (to_utc (q_expires_at demo_offer))"
  "tx_zone demo_texts (lit ''UTC'') = Some (lit ''UTC'')" "q_id demo_offer = 7"
  "load_appointment_quote_by_id demo_texts 7 empty_db = Inl (Failed (NotFound ''appointment quote''))"
proof -
  have r: "rfc_range 0" "rfc_range 300" "rfc_range 900" "rfc_range 1800"
    by (simp_all add: rfc_range_def rfc_min_secs_def odt_max_secs_def)
  show "validate_appointment_quote_slots AkCallback demo_slots = Inr ()"
    by (simp add: validate_appointment_quote_slots_def demo_slots_def MAX_APPOINTMENT_QUOTE_SLOTS_def slot_duration_ns_def
        ak_duration_def minutes_def utc_secs_def NANOS_def)
  show "quote_wf demo_offer" by (simp add: quote_wf_def demo_offer_def utc_secs_def NANOS_def)
  show "\<forall>s \<in> set demo_slots. slot_writable demo_texts s"
    using demo_stamp_secs[OF r(3)] demo_stamp_secs[OF r(4)] by (auto simp: demo_slots_def slot_writable_def)
  show "stamp (tx_time demo_texts) (demo_whole 0 @ [90]) (to_utc (q_issued_at demo_offer))"
    "stamp (tx_time demo_texts) (demo_whole 300 @ [90]) (to_utc (q_expires_at demo_offer))"
    using demo_stamp_secs[OF r(1)] demo_stamp_secs[OF r(2)] by (simp_all add: demo_offer_def)
  show "tx_zone demo_texts (lit ''UTC'') = Some (lit ''UTC'')" "q_id demo_offer = 7"
    by (simp_all add: demo_texts_def demo_offer_def)
  show "load_appointment_quote_by_id demo_texts 7 empty_db = Inl (Failed (NotFound ''appointment quote''))"
    by (simp add: load_appointment_quote_by_id_def decode_appointment_quote_by_id_def empty_db_def)
qed

lemma demo_zone: "str_trim (lit ''UTC'') \<noteq> []" by code_simp

abbreviation "demo_issued \<equiv> issued_quote demo_offer AkCallback (lit ''UTC'') demo_slots"

theorem valid_quote_is_stored_witness:
  "\<exists>db'. save_appointment_quote demo_texts demo_offer AkCallback (lit ''UTC'') demo_slots empty_db = (db', Inr demo_issued)"
  using valid_quote_is_stored[where C = demo_codec, OF demo_texts_ok demo_inv _ demo_zone demo_offer_args(6,1-5)] demo_offer_args(7,8) by fastforce

lemma demo_draft_made: "draft_made demo_appointment"
proof -
  have "trimmed_text (lit ''Ann'')" "trimmed_text (lit ''k'')" "is_valid_email (lit ''a@b.co'')"
    by (simp_all add: trimmed_text_def) code_simp+
  moreover have "odt_checked_add (utc_secs 900) (ak_duration AkCallback) = Some (utc_secs 1800)"
    by (simp add: odt_checked_add_def ak_duration_def minutes_def utc_secs_def NANOS_def local_secs_def unix_timestamp_def
        odt_min_secs_def odt_max_secs_def)
  ultimately show ?thesis
    by (simp add: draft_made_def demo_appointment_def demo_caller_def caller_wf_def email_wf_def del: lit_simps)
qed

lemma demo_source: "source_text (lit ''s'')" "str_trim (lit ''p'') = lit ''p''" "lit ''p'' \<noteq> []"
  by code_simp+

lemma insert_slots_frame: "insert_slots T qid i slots db = Inr db' \<Longrightarrow> appointment_drafts db' = appointment_drafts db"
  by (induction slots arbitrary: i db) (fastforce simp: rbind_Inr_iff Let_def split: if_splits)+

lemma saved_quote_drafts:
  assumes "save_appointment_quote T quote kind zone slots db = (db', Inr q)"
  shows "appointment_drafts db' = appointment_drafts db"
  using assms by (auto simp: save_appointment_quote_def rbind_Inr_iff Let_def dest!: insert_slots_frame split: if_splits)

text \<open>The first draft of an empty table, and the first proposal of one.\<close>

lemma first_draft:
  assumes "appointment_drafts db = []" "rfc_format (tx_time T) (ad_starts_at d) = Some a" "rfc_format (tx_time T) (ad_ends_at d) = Some b"
  shows "\<exists>sd. save_appointment_draft_in_transaction T s d db = Inr (add_draft db (new_appointment_row T s d a b db), sd)"
  using assms by (simp add: save_appointment_draft_in_transaction_def format_offset_datetime_def add_draft_def Let_def)

lemma first_proposal:
  assumes "proposals db = []" "r \<in> set (appointment_drafts db)" "ap_id r = di" "N clk = Some clk"
    and "str_trim key \<noteq> []" "source_text src" "0 < di"
  shows "\<exists>db1 p. create_proposal_in_transaction N key src (AppointmentDraftSource di) clk db = Inr (db1, p) \<and> sp_state p = PsPending"
proof -
  let ?row = "new_proposal_row key src (AppointmentDraftSource di) clk db"
  have "decode_proposal_row N ?row = Inr \<lparr>sp_id = pr_id ?row, sp_idempotency_key = str_trim key, sp_source_id = src,
      sp_source = AppointmentDraftSource di, sp_state = PsPending, sp_created_at = clk, sp_updated_at = clk\<rparr>"
    using assms(4-7) by (simp add: decode_proposal_row_Inr proposal_row_decodes_def new_proposal_row_def next_id_def assms(1) del: lit_simps)
  moreover have "\<exists>r \<in> set (appointment_drafts db). ap_id r = di" using assms(2,3) by blast
  ultimately show ?thesis
    using assms(1) by (simp add: create_proposal_in_transaction_def ensure_proposal_source_exists_def Let_def)
qed

lemma quote_demo_times:
  "rfc_format (tx_time demo_texts) (utc_secs 900) = Some (demo_whole 900 @ [90])"
  "rfc_format (tx_time demo_texts) (utc_secs 1800) = Some (demo_whole 1800 @ [90])"
  "stamp (tx_time demo_texts) (demo_whole 20 @ [90]) (to_utc (utc_secs 20))"
  using demo_stamp_secs[of 900] demo_stamp_secs[of 1800] demo_stamp_secs[of 20]
  by (simp_all add: stamp_def rfc_range_def rfc_min_secs_def odt_max_secs_def)

lemma demo_run:
  obtains db1 db2 db3 db0 sd p where
    "save_appointment_quote demo_texts demo_offer AkCallback (lit ''UTC'') demo_slots empty_db = (db1, Inr demo_issued)"
    "quote_inv demo_texts db1" "load_appointment_quote_by_id demo_texts 7 db1 = Inr demo_issued"
    "save_appointment_draft demo_texts (lit ''s'') demo_appointment db1 = (db0, Inr sd)"
    "prepare_appointment_draft_from_quote demo_texts 7 0 (lit ''s'') demo_appointment (utc_secs 10) db1
       = (db2, Inr (prepared_quote demo_issued 0 sd))"
    "submit_appointment_quote demo_texts 7 (sd_id sd) (lit ''p'') (lit ''s'') (utc_secs 20) (lit ''t'') db2 = (db3, Inr p)"
proof -
  let ?T = demo_texts
  obtain db1 where save: "save_appointment_quote ?T demo_offer AkCallback (lit ''UTC'') demo_slots empty_db = (db1, Inr demo_issued)"
    using valid_quote_is_stored_witness by blast
  note s = saved_quote[OF demo_texts_ok demo_inv save]
  have q: "decode_appointment_quote_by_id ?T 7 db1 = Inr demo_issued" using s(2) by (simp add: demo_offer_def)
  have empty: "appointment_drafts db1 = []" "proposals db1 = []"
    using saved_quote_drafts[OF save] saved_quote_proposals[OF save] by (simp_all add: empty_db_def)
  let ?row = "new_appointment_row ?T (lit ''s'') demo_appointment (demo_whole 900 @ [90]) (demo_whole 1800 @ [90]) db1"
  have "rfc_format (tx_time ?T) (ad_starts_at demo_appointment) = Some (demo_whole 900 @ [90])"
    "rfc_format (tx_time ?T) (ad_ends_at demo_appointment) = Some (demo_whole 1800 @ [90])"
    using quote_demo_times by (simp_all add: demo_appointment_def)
  from first_draft[OF empty(1) this] obtain sd
    where tx: "save_appointment_draft_in_transaction ?T (lit ''s'') demo_appointment db1 = Inr (add_draft db1 ?row, sd)"
    by blast
  have sd: "save_appointment_draft ?T (lit ''s'') demo_appointment db1 = (add_draft db1 ?row, Inr sd)"
    using tx demo_source(1) by (simp add: save_appointment_draft_def run_tx_def validate_source_id_Inr[THEN iffD2] del: lit_simps)
  have st: "sq_state demo_issued = QsIssued" by (simp add: issued_quote_def)
  have fits: "draft_fits demo_issued 0 demo_appointment"
    by (simp add: draft_fits_def issued_quote_def demo_appointment_def utc_quote_def demo_offer_def demo_slots_def same_instant_def)
  have valid: "quote_is_valid_at (sq_quote demo_issued) (utc_secs t)" if "0 \<le> t" "t < 300" for t
    using that by (simp add: quote_is_valid_at_def quote_is_expired_def issued_quote_def utc_quote_def demo_offer_def before_def
        utc_secs_def NANOS_def)
  obtain db2 where p: "update_prepared ?T 7 (sd_id sd) 0 (add_draft db1 ?row) = Inr (db2, 1)"
    "decode_appointment_quote_by_id ?T 7 db2 = Inr (prepared_quote demo_issued 0 sd)" "quote_inv ?T db2"
    by (rule prepare_stores[OF demo_texts_ok s(1) q st demo_draft_made demo_source(1) fits tx]) (rule that, assumption+)
  have "ad_quote_id demo_appointment = 7" "ad_kind demo_appointment = sq_appointment_kind demo_issued"
    by (simp_all add: demo_appointment_def issued_quote_def)
  then have prep: "prepare_appointment_draft_from_quote ?T 7 0 (lit ''s'') demo_appointment (utc_secs 10) db1
      = (db2, Inr (prepared_quote demo_issued 0 sd))"
    unfolding prepare_outcome[OF demo_texts_ok s(1) q demo_draft_made demo_source(1)]
    using st valid[of 10] fits tx p(1)
    by (simp add: quote_is_valid_at_def save_prepared_def draft_fits_def del: lit_simps)
  have e: "exact_draft (lit ''s'') demo_appointment sd" "decode_appointment_row ?T ?row = Inr sd"
    using save_draft_cases[OF demo_texts_ok _ demo_draft_made demo_source(1) tx] s(1) empty(1)
    by (auto simp: quote_inv_def add_draft_def)
  have id: "0 < sd_id sd" "ap_id ?row = sd_id sd"
    using e(2) decode_id[OF e(2)] by (simp_all add: decode_appointment_row_Inr[OF demo_texts_ok] draft_row_decodes_def)
  have db2: "appointment_drafts db2 = [?row]" "proposals db2 = []"
    using p(1) empty by (auto simp: update_prepared_def Let_def add_draft_def split: if_splits)
  have key: "str_trim (lit ''p'') \<noteq> []" using demo_source(2,3) by (simp del: lit_simps)
  have mem: "?row \<in> set (appointment_drafts db2)" by (simp add: db2(1))
  have clk: "tx_naive ?T (lit ''t'') = Some (lit ''t'')" by (simp add: demo_texts_def)
  from first_proposal[where N = "tx_naive ?T" and clk = "lit ''t''", OF db2(2) mem id(2) clk key demo_source(1) id(1)] obtain d3 pp
    where c: "create_proposal_in_transaction (tx_naive ?T) (lit ''p'') (lit ''s'') (AppointmentDraftSource (sd_id sd)) (lit ''t'') db2
      = Inr (d3, pp)" "sp_state pp = PsPending"
    by blast
  have "submit_appointment_quote ?T 7 (sd_id sd) (lit ''p'') (lit ''s'') (utc_secs 20) (lit ''t'') db2
      = (fst (update_consumed ?T 7 (sd_id sd) (demo_whole 20 @ [90]) (sp_id pp) d3), Inr pp)"
    unfolding submit_outcome[OF demo_texts_ok p(3,2) id(1) key demo_source(1) quote_demo_times(3)]
    using c valid[of 20] by (simp add: prepared_quote_def sq_appointment_draft_id_def quote_is_valid_at_def del: lit_simps)
  then show thesis using that save s(1) q sd prep by (simp add: load_appointment_quote_by_id_def)
qed

theorem quote_is_frozen_and_moves_forward_witness:
  "\<exists>db1 db2 q'. load_appointment_quote_by_id demo_texts 7 db1 = Inr demo_issued \<and> (quote_step demo_codec demo_texts)\<^sup>*\<^sup>* db1 db2
    \<and> load_appointment_quote_by_id demo_texts 7 db2 = Inr q' \<and> quote_follows demo_issued q'"
proof (rule demo_run)
  fix db1 db2 db3 db0 sd p
  assume x: "quote_inv demo_texts db1" "load_appointment_quote_by_id demo_texts 7 db1 = Inr demo_issued"
    "prepare_appointment_draft_from_quote demo_texts 7 0 (lit ''s'') demo_appointment (utc_secs 10) db1
       = (db2, Inr (prepared_quote demo_issued 0 sd))"
  have "(quote_step demo_codec demo_texts)\<^sup>*\<^sup>* db1 db2" using quote_step.quote_prepared[OF x(3) demo_draft_made] by blast
  from quote_is_frozen_and_moves_forward[OF demo_texts_ok x(1) this x(2)] x(2) this show ?thesis by blast
qed

theorem preparation_succeeds_iff_witness:
  "\<exists>db1 db2 q'. load_appointment_quote_by_id demo_texts 7 db1 = Inr demo_issued
    \<and> prepare_appointment_draft_from_quote demo_texts 7 0 (lit ''s'') demo_appointment (utc_secs 10) db1 = (db2, Inr q')
    \<and> load_appointment_quote_by_id demo_texts 7 db2 = Inr q' \<and> sq_state q' = QsPrepared
    \<and> quote_is_valid_at (sq_quote demo_issued) (utc_secs 10) \<and> draft_fits demo_issued 0 demo_appointment
    \<and> fst (prepare_appointment_draft_from_quote demo_texts 7 0 (lit ''s'') demo_appointment (utc_secs 300) db1) = db1
    \<and> fst (prepare_appointment_draft_from_quote demo_texts 7 1 (lit ''s'') demo_appointment (utc_secs 10) db1) = db1"
proof (rule demo_run)
  fix db1 db2 db3 db0 sd p
  assume x: "quote_inv demo_texts db1" "load_appointment_quote_by_id demo_texts 7 db1 = Inr demo_issued"
    "save_appointment_draft demo_texts (lit ''s'') demo_appointment db1 = (db0, Inr sd)"
    "prepare_appointment_draft_from_quote demo_texts 7 0 (lit ''s'') demo_appointment (utc_secs 10) db1
       = (db2, Inr (prepared_quote demo_issued 0 sd))"
  have st: "sq_state demo_issued = QsIssued" by (simp add: issued_quote_def)
  note iff = preparation_succeeds_iff[OF demo_texts_ok x(1,2) st demo_draft_made refl, of _ "lit ''s''"]
  have misfit: "\<not> draft_fits demo_issued 1 demo_appointment" by (simp add: draft_fits_def issued_quote_def demo_slots_def)
  have late: "\<not> quote_is_valid_at (sq_quote demo_issued) (utc_secs 300)"
    by (simp add: quote_is_valid_at_def quote_is_expired_def issued_quote_def utc_quote_def demo_offer_def before_def
        utc_secs_def NANOS_def)
  have "fst (prepare_appointment_draft_from_quote demo_texts 7 1 (lit ''s'') demo_appointment (utc_secs 10) db1) = db1"
    using iff[of 1 "utc_secs 10"] misfit
    by (cases "snd (prepare_appointment_draft_from_quote demo_texts 7 1 (lit ''s'') demo_appointment (utc_secs 10) db1)") simp_all
  moreover have "fst (prepare_appointment_draft_from_quote demo_texts 7 0 (lit ''s'') demo_appointment (utc_secs 300) db1) = db1"
    using iff[of 0 "utc_secs 300"] late
    by (cases "snd (prepare_appointment_draft_from_quote demo_texts 7 0 (lit ''s'') demo_appointment (utc_secs 300) db1)") simp_all
  ultimately show ?thesis using iff[of 0 "utc_secs 10"] x(2,4) by auto
qed

theorem preparation_can_be_repeated_witness:
  "\<exists>db2 q1 q2. prepare_appointment_draft_from_quote demo_texts 7 0 (lit ''s'') demo_appointment (utc_secs 9999) db2 = (db2, Inr q2)
    \<and> quote_follows q1 q2 \<and> sq_state q1 = QsPrepared"
proof (rule demo_run)
  fix db1 db2 db3 db0 sd p
  assume x: "quote_inv demo_texts db1"
    "prepare_appointment_draft_from_quote demo_texts 7 0 (lit ''s'') demo_appointment (utc_secs 10) db1
       = (db2, Inr (prepared_quote demo_issued 0 sd))"
  have "\<exists>q2. prepare_appointment_draft_from_quote demo_texts 7 0 (lit ''s'') demo_appointment (utc_secs 9999) db2 = (db2, Inr q2)
      \<and> quote_follows (prepared_quote demo_issued 0 sd) q2"
    by (rule preparation_can_be_repeated[OF demo_texts_ok x(1) demo_draft_made x(2) rtranclp.rtrancl_refl[of "quote_step demo_codec demo_texts"]])
  moreover have "sq_state (prepared_quote demo_issued 0 sd) = QsPrepared" by (simp add: prepared_quote_def)
  ultimately show ?thesis by blast
qed

theorem quote_is_submitted_once_witness:
  "\<exists>db2 db3 p di. submit_appointment_quote demo_texts 7 di (lit ''p'') (lit ''s'') (utc_secs 20) (lit ''t'') db2 = (db3, Inr p)
    \<and> (\<exists>p'. submit_appointment_quote demo_texts 7 di (lit ''p'') (lit ''s'') (utc_secs 20) (lit ''t'') db3 = (db3, Inr p') \<and> same_proposal p p')"
proof (rule demo_run)
  fix db1 db2 db3 db0 sd p
  assume x: "quote_inv demo_texts db1"
    "prepare_appointment_draft_from_quote demo_texts 7 0 (lit ''s'') demo_appointment (utc_secs 10) db1
       = (db2, Inr (prepared_quote demo_issued 0 sd))"
    "submit_appointment_quote demo_texts 7 (sd_id sd) (lit ''p'') (lit ''s'') (utc_secs 20) (lit ''t'') db2 = (db3, Inr p)"
  have inv: "quote_inv demo_texts db2" using prepare_step(1)[OF demo_texts_ok x(1) demo_draft_made x(2)] .
  from quote_is_submitted_once[OF demo_texts_ok inv x(3) rtranclp.rtrancl_refl[of "quote_step demo_codec demo_texts"] refl,
      of "sd_id sd" "lit ''p''" "lit ''s''" "utc_secs 20" "lit ''t''"] quote_demo_times(3) demo_source(2)
  show ?thesis using x(3) by (metis prod.collapse)
qed

theorem stored_appointments_never_panic_witness:
  "\<exists>db q sd. (quote_step demo_codec demo_texts)\<^sup>*\<^sup>* empty_db db
    \<and> load_appointment_quote_by_id demo_texts 7 db = Inr q \<and> sq_appointment_draft q = Some sd
    \<and> load_appointment_draft_by_id demo_texts (sd_id sd) db \<noteq> Inl Panicked
    \<and> load_appointment_draft_by_idempotency_key demo_texts (lit ''k'') db \<noteq> Inl Panicked
    \<and> load_appointment_quote_by_draft_id demo_texts (sd_id sd) db \<noteq> Inl Panicked
    \<and> snd (save_appointment_quote demo_texts demo_offer AkCallback (lit ''UTC'') demo_slots db) \<noteq> Inl Panicked
    \<and> snd (prepare_appointment_draft_from_quote demo_texts 7 0 (lit ''s'') demo_appointment (utc_secs 10) db) \<noteq> Inl Panicked"
proof (rule demo_run)
  fix db1 db2 db3 db0 sd p
  assume x: "save_appointment_quote demo_texts demo_offer AkCallback (lit ''UTC'') demo_slots empty_db = (db1, Inr demo_issued)"
    "quote_inv demo_texts db1"
    "prepare_appointment_draft_from_quote demo_texts 7 0 (lit ''s'') demo_appointment (utc_secs 10) db1
       = (db2, Inr (prepared_quote demo_issued 0 sd))"
  have steps: "(quote_step demo_codec demo_texts)\<^sup>*\<^sup>* empty_db db2"
    using quote_step.quote_saved[OF x(1)] quote_step.quote_prepared[OF x(3) demo_draft_made]
    by (meson converse_rtranclp_into_rtranclp r_into_rtranclp)
  have "load_appointment_quote_by_id demo_texts 7 db2 = Inr (prepared_quote demo_issued 0 sd)"
    using prepare_step(3)[OF demo_texts_ok x(2) demo_draft_made x(3)] by (simp add: load_appointment_quote_by_id_def)
  moreover have "sq_appointment_draft (prepared_quote demo_issued 0 sd) = Some sd" by (simp add: prepared_quote_def)
  ultimately show ?thesis
    using stored_appointments_never_panic[OF demo_texts_ok demo_inv steps demo_draft_made] steps by blast
qed

end
