(* ===== verification/Owner_Task_Runs.thy ===== *)
theory Owner_Task_Runs
  imports Store_Placements Store_Quote_Runs
begin

text \<open>
  What the store promises about owner tasks over any sequence of operations: an exact retry finds
  the task and its placement again, a placement is completed by one provider event, and nothing
  that is placed is lost.
\<close>

section \<open>Properties\<close>

lemma bound_follows:
  assumes "placement_follows p q" "bound_to q i a b zone key owner" shows "bound_to p i a b zone key owner"
  using assms by (simp add: placement_follows_def bound_to_def)

lemma follows_bound:
  assumes "placement_follows p q" "bound_to p i a b zone key owner" shows "bound_to q i a b zone key owner"
  using assms by (simp add: placement_follows_def bound_to_def)

lemma exact_drafts_equal:
  assumes rows: "owner_rows_ok C (owner_task_drafts db)"
    and x: "load_owner_task_draft_by_id C i db = Inr x" "exact_owner_task s d x"
    and y: "load_owner_task_draft_by_id C j db = Inr y" "exact_owner_task s d y"
  shows "x = y"
proof -
  obtain r q where r: "r \<in> set (owner_task_drafts db)" "decode_owner_task_row C r = Inr x"
    and q: "q \<in> set (owner_task_drafts db)" "decode_owner_task_row C q = Inr y"
    using x(1) y(1) by (auto simp: draft_load_iff[OF rows])
  have "[r] = [q]" using only_owner_candidate[OF rows r x(2)] only_owner_candidate[OF rows q y(2)] by simp
  then show ?thesis using r(2) q(2) by simp
qed

lemma prepared_args:
  assumes "save_prepared_owner_task T s d a b zone key owner db = (db', Inr xp)"
  shows "\<exists>u v due. before a b \<and> placement_args T a b zone key owner u v \<and> (\<forall>x. s = Some x \<longrightarrow> source_text x)
    \<and> transpose (map_option (format_offset_datetime (tx_time T)) (ot_due_at d)) = Inr due"
  using assms
  by (fastforce simp: save_prepared_owner_task_def rbind_Inr_iff source_option_Inr placement_arguments_Inr split: if_splits)

lemma saves_roll_back:
  "save_prepared_owner_task T s d a b zone key owner db = (db', Inl e) \<Longrightarrow> db' = db"
  "submit_owner_task_placement T i ev db = (db', Inl e) \<Longrightarrow> db' = db"
  by (simp_all add: save_prepared_owner_task_def submit_owner_task_placement_def)

text \<open>
  C33. Preparing an owner task binds it once: after any further operations the exact retry changes
  nothing and returns the same draft and the placement, which kept its binding and may have been
  submitted meanwhile; the same draft with another interval, zone, operation key or owner is
  refused and changes nothing.
\<close>

theorem prepared_task_is_bound_once:
  assumes T: "texts_ok T" and inv: "owner_inv T db" and d: "owner_task_made d"
    and run: "save_prepared_owner_task T s d a b zone key owner db = (db1, Inr (x, p))"
    and steps: "(owner_step T)\<^sup>*\<^sup>* db1 db2"
  shows "(\<exists>q. save_prepared_owner_task T s d a b zone key owner db2 = (db2, Inr (x, q)) \<and> placement_follows p q)
    \<and> (\<forall>a' b' zone' key' owner'. \<not> bound_to p (so_id x) a' b' zone' key' owner' \<longrightarrow>
          (\<exists>e. save_prepared_owner_task T s d a' b' zone' key' owner' db2 = (db2, Inl e)))"
proof -
  note s1 = prepared_step[OF T inv d run]
  have inv1: "owner_inv T db1" using s1(1) by (simp add: placements_kept_def)
  have keep: "placements_kept T db1 db2" by (rule owner_run_keeps[OF T inv1 steps])
  then have inv2: "owner_inv T db2" by (simp add: placements_kept_def)
  obtain q where q: "load_owner_task_placement T (so_id x) db2 = Inr q" "placement_follows p q"
    and x2: "load_owner_task_draft_by_id (tx_time T) (so_id x) db2 = Inr x"
    using keep s1(4,5) unfolding placements_kept_def by metis
  obtain u v due where args: "before a b" "placement_args T a b zone key owner u v" "\<forall>x. s = Some x \<longrightarrow> source_text x"
    "transpose (map_option (format_offset_datetime (tx_time T)) (ot_due_at d)) = Inr due"
    using prepared_args[OF run] by blast
  have retry: "save_prepared_owner_task T s d a b zone key owner db2 = (db2, Inr (x, q))"
    by (rule prepared_retry[OF T inv2 d x2 s1(2) q(1) follows_bound[OF q(2) s1(3)] args])
  have "\<exists>e. save_prepared_owner_task T s d a' b' zone' key' owner' db2 = (db2, Inl e)"
    if new: "\<not> bound_to p (so_id x) a' b' zone' key' owner'" for a' b' zone' key' owner'
  proof (cases "save_prepared_owner_task T s d a' b' zone' key' owner' db2")
    case (Pair db3 res)
    show ?thesis
    proof (cases res)
      case (Inl e)
      then show ?thesis using Pair saves_roll_back(1) by blast
    next
      case (Inr yr)
      obtain y r where yr: "yr = (y, r)" by (cases yr)
      note s2 = prepared_step[OF T inv2 d Pair[unfolded Inr yr]]
      have inv3: "owner_rows_ok (tx_time T) (owner_task_drafts db3)" using s2(1) by (simp add: placements_kept_def owner_inv_def)
      have x3: "load_owner_task_draft_by_id (tx_time T) (so_id x) db3 = Inr x"
        and r3: "\<exists>r3. load_owner_task_placement T (so_id x) db3 = Inr r3 \<and> placement_follows q r3"
        using s2(1) q(1) x2 unfolding placements_kept_def by metis+
      have "y = x" by (rule exact_drafts_equal[OF inv3 s2(4,2) x3 s1(2)])
      then have "placement_follows q r" using r3 s2(5) by auto
      then have "bound_to p (so_id x) a' b' zone' key' owner'"
        using bound_follows[OF placement_follows_trans[OF q(2)]] s2(3) \<open>y = x\<close> by simp
      then show ?thesis using new by blast
    qed
  qed
  then show ?thesis using retry q(2) by blast
qed

text \<open>
  One event completes one task: after a task was submitted with an event, and whatever happens
  then, submitting it again with that event changes nothing and returns the same placement, while
  another event for the task, and the event for another task, are refused.
\<close>

theorem event_completes_one_task:
  assumes T: "texts_ok T" and inv: "owner_inv T db"
    and run: "submit_owner_task_placement T i e db = (db1, Inr p)" and steps: "(owner_step T)\<^sup>*\<^sup>* db1 db2"
  shows "\<exists>q. load_owner_task_placement T i db2 = Inr q \<and> placement_follows p q \<and> sp_provider_event_id q = Some e
    \<and> submit_owner_task_placement T i e db2 = (db2, Inr q)
    \<and> (\<forall>j e'. (j = i) \<noteq> (e' = e) \<longrightarrow> (\<exists>err. submit_owner_task_placement T j e' db2 = (db2, Inl err)))"
proof -
  note s = submit_task_step[OF T inv run]
  have inv1: "owner_inv T db1" using s(1) by (simp add: placements_kept_def)
  have keep: "placements_kept T db1 db2" by (rule owner_run_keeps[OF T inv1 steps])
  then have inv2: "owner_inv T db2" by (simp add: placements_kept_def)
  obtain q where q: "load_owner_task_placement T i db2 = Inr q" "placement_follows p q"
    using keep s(3) unfolding placements_kept_def by metis
  have ev: "sp_provider_event_id q = Some e" using q(2) s(4) by (simp add: placement_follows_def is_submitted_def)
  have retry: "submit_owner_task_placement T i e db2 = (db2, Inr q)" using submit_task_outcome[OF T inv2 q(1) s(2)] ev by simp
  have "\<exists>err. submit_owner_task_placement T j e' db2 = (db2, Inl err)" if ne: "(j = i) \<noteq> (e' = e)" for j e'
  proof (cases "submit_owner_task_placement T j e' db2")
    case (Pair db3 res)
    show ?thesis
    proof (cases res)
      case (Inl err)
      then show ?thesis using Pair saves_roll_back(2) by blast
    next
      case (Inr r)
      note s2 = submit_task_step[OF T inv2 Pair[unfolded Inr]]
      have inv3: "owner_inv T db3" using s2(1) by (simp add: placements_kept_def)
      obtain q3 where q3: "load_owner_task_placement T i db3 = Inr q3" "placement_follows q q3"
        using s2(1) q(1) unfolding placements_kept_def by metis
      have ev3: "sp_provider_event_id q3 = Some e" using q3(2) ev by (simp add: placement_follows_def is_submitted_def)
      obtain x y where x: "x \<in> set (owner_task_placements db3)" "pl_owner_task_draft_id x = i" "pl_provider_event_id x = Some e"
        and y: "y \<in> set (owner_task_placements db3)" "pl_owner_task_draft_id y = j" "pl_provider_event_id y = Some e'"
        using q3(1) ev3 s2(3,4) by (auto simp: placement_load_iff[OF T inv3] placement_decodes_def)
      have "j = i \<longleftrightarrow> e' = e"
      proof
        assume "j = i"
        have "distinct (map pl_owner_task_draft_id (owner_task_placements db3))"
          using inv3 by (simp add: owner_inv_def placement_rows_ok_def)
        then have "y = x" by (rule distinct_map_unique) (use x y \<open>j = i\<close> in simp_all)
        then show "e' = e" using x(3) y(3) by simp
      next
        assume "e' = e"
        then have "y = x" using inv3 x(1,3) y(1,3) unfolding owner_inv_def placement_rows_ok_def by (metis option.distinct(1))
        then show "j = i" using x(2) y(2) by simp
      qed
      then show ?thesis using ne by blast
    qed
  qed
  then show ?thesis using q ev retry by blast
qed

text \<open>
  C34. Nothing that is placed is lost: along any run of operations every placement keeps its
  interval, zone, operation key, owner and event, its draft can be loaded and stays the same,
  deleting the draft is refused, and all rows stay decodable and refer to existing drafts.
\<close>

theorem placed_tasks_are_kept:
  assumes T: "texts_ok T" and inv: "owner_inv T db" and steps: "(owner_step T)\<^sup>*\<^sup>* db db'"
    and p: "load_owner_task_placement T i db = Inr p"
  shows "owner_inv T db'
    \<and> (\<exists>q. load_owner_task_placement T i db' = Inr q \<and> placement_follows p q)
    \<and> (\<exists>x. load_owner_task_draft_by_id (tx_time T) i db = Inr x \<and> load_owner_task_draft_by_id (tx_time T) i db' = Inr x)
    \<and> (\<exists>e. delete_owner_task_draft_by_id i db' = (db', Inl e))"
proof -
  have keep: "placements_kept T db db'" by (rule owner_run_keeps[OF T inv steps])
  then have inv': "owner_inv T db'" by (simp add: placements_kept_def)
  obtain q where q: "load_owner_task_placement T i db' = Inr q" "placement_follows p q"
    and same: "load_owner_task_draft_by_id (tx_time T) i db' = load_owner_task_draft_by_id (tx_time T) i db"
    using keep p unfolding placements_kept_def by metis
  obtain r where r: "r \<in> set (owner_task_placements db')" "pl_owner_task_draft_id r = i"
    using q(1) by (auto simp: placement_load_iff[OF T inv'])
  obtain w where w: "w \<in> set (owner_task_drafts db')" "ow_id w = i" using inv' r by (auto simp: owner_inv_def)
  obtain x where "decode_owner_task_row (tx_time T) w = Inr x" using inv' w(1) by (auto simp: owner_inv_def owner_rows_ok_def)
  then have "load_owner_task_draft_by_id (tx_time T) i db' = Inr x"
    using inv' w draft_load_iff[of "tx_time T" db'] by (auto simp: owner_inv_def)
  moreover have "\<exists>e. delete_owner_task_draft_by_id i db' = (db', Inl e)"
    using r w by (auto simp: delete_owner_task_draft_by_id_def run_tx_def)
  ultimately show ?thesis using inv' q same by auto
qed

section \<open>Witnesses\<close>

definition demo_chore :: owner_task_draft where
  "demo_chore = \<lparr>ot_kind = TkBill, ot_title = lit ''pay'', ot_duration = DurationMinutes 15, ot_due_at = None,
     ot_idempotency_key = lit ''k''\<rparr>"

definition demo_placed_db :: db where
  "demo_placed_db = empty_db\<lparr>owner_task_drafts := [\<lparr>ow_id = 1, ow_idempotency_key = lit ''k'', ow_source_id = None,
     ow_title = lit ''pay'', ow_kind = lit ''bill'', ow_duration_minutes = 15, ow_due_at = None\<rparr>],
     owner_task_placements := [\<lparr>pl_owner_task_draft_id = 1, pl_starts_at = demo_whole 900 @ [90],
       pl_ends_at = demo_whole 1800 @ [90], pl_timezone = lit ''UTC'', pl_operation_key = lit ''op'',
       pl_owner_fingerprint = lit ''fp'', pl_provider_event_id = None, pl_state = lit ''prepared''\<rparr>]\<rparr>"

definition demo_placement :: stored_placement where
  "demo_placement = \<lparr>sp_draft_id = 1, sp_starts_at = utc_secs 900, sp_ends_at = utc_secs 1800, sp_timezone = lit ''UTC'',
     sp_operation_key = lit ''op'', sp_owner_fingerprint = lit ''fp'', sp_provider_event_id = None\<rparr>"

lemma demo_owner_inv_empty: "owner_inv demo_texts empty_db"
  by (simp add: owner_inv_def owner_rows_ok_def placement_rows_ok_def empty_db_def)

lemma demo_chore_made: "owner_task_made demo_chore"
proof -
  have "trimmed_text (lit ''pay'')" "trimmed_text (lit ''k'')" by (simp_all add: trimmed_text_def) code_simp+
  then show ?thesis by (simp add: owner_task_made_def owner_task_wf_def demo_chore_def dm_wf_def del: lit_simps)
qed

lemma demo_placement_args:
  "placement_args demo_texts (utc_secs 900) (utc_secs 1800) (lit ''UTC'') (lit ''op'') (lit ''fp'')
     (demo_whole 900 @ [90]) (demo_whole 1800 @ [90])"
  "before (utc_secs 900) (utc_secs 1800)"
proof -
  have r: "rfc_range 900" "rfc_range 1800" by (simp_all add: rfc_range_def rfc_min_secs_def odt_max_secs_def)
  have "machine_id 256 (lit ''op'')" "machine_id 256 (lit ''fp'')" by code_simp+
  moreover have "nanosecond (utc_secs t) = 0" for t by (simp add: nanosecond_def utc_secs_def)
  moreover have "tx_zone demo_texts (lit ''UTC'') = Some (lit ''UTC'')" by (simp add: demo_texts_def)
  ultimately show "placement_args demo_texts (utc_secs 900) (utc_secs 1800) (lit ''UTC'') (lit ''op'') (lit ''fp'')
     (demo_whole 900 @ [90]) (demo_whole 1800 @ [90])"
    using demo_stamp_secs[OF r(1)] demo_stamp_secs[OF r(2)] demo_zone
    by (simp add: placement_args_def whole_stamp_def del: lit_simps)
  show "before (utc_secs 900) (utc_secs 1800)" by (simp add: before_def utc_secs_def NANOS_def)
qed

abbreviation "demo_bind \<equiv> save_prepared_owner_task demo_texts None demo_chore (utc_secs 900) (utc_secs 1800)
  (lit ''UTC'') (lit ''op'') (lit ''fp'')"

lemma demo_prepared:
  "demo_bind empty_db = (demo_placed_db, Inr (\<lparr>so_id = 1, so_source_id = None, so_draft = demo_chore\<rparr>, demo_placement))"
proof -
  let ?db = "add_owner_task empty_db (new_owner_task_row None demo_chore None empty_db)"
  let ?x = "\<lparr>so_id = 1, so_source_id = None, so_draft = demo_chore\<rparr>"
  let ?r = "new_placement_row 1 (demo_whole 900 @ [90]) (demo_whole 1800 @ [90]) (lit ''UTC'') (lit ''op'') (lit ''fp'')"
  have due: "transpose (map_option (format_offset_datetime (tx_time demo_texts)) (ot_due_at demo_chore)) = Inr None"
    by (simp add: demo_chore_def)
  have ins: "insert_owner_task None demo_chore None empty_db = Inr (?db, 1)"
    by (simp add: insert_owner_task_def new_owner_task_row_def demo_chore_def add_owner_task_def empty_db_def)
  have inv: "owner_inv demo_texts ?db"
    using insert_owner_task_cases(1)[OF demo_texts_ok demo_owner_inv_empty demo_chore_made _ due ins]
    by (simp add: placements_kept_def)
  have one: "next_id ow_id (owner_task_drafts empty_db) = 1" by (simp add: next_id_def empty_db_def)
  have row: "decode_owner_task_row (tx_time demo_texts) (new_owner_task_row None demo_chore None empty_db) = Inr ?x"
    using new_owner_row_decodes[OF demo_texts_ok demo_chore_made _ due, of None empty_db] one by simp
  have cand: "filter (query_owner_task_rows_by_identity (ot_idempotency_key demo_chore) None) (owner_task_drafts ?db) =
      [new_owner_task_row None demo_chore None empty_db]"
    by (simp add: add_owner_task_def empty_db_def query_owner_task_rows_by_identity_def new_owner_task_row_def)
  have ex: "exact_owner_task None demo_chore ?x" by (simp add: exact_owner_task_def)
  have id: "(1::int) \<in> ow_id ` set (owner_task_drafts ?db)"
    using one by (simp add: add_owner_task_def new_owner_task_row_def)
  have fresh: "\<not> list_ex (\<lambda>r. pl_owner_task_draft_id r = 1 \<or> pl_operation_key r = lit ''op'') (owner_task_placements ?db)"
    by (simp add: add_owner_task_def empty_db_def)
  have trig: "\<not> fingerprint_trigger (lit ''fp'')" by code_simp
  have insp: "insert_placement ?r ?db = Inr (add_placement ?db ?r)"
    using trig one by (simp add: insert_placement_def new_placement_row_def add_placement_def add_owner_task_def empty_db_def
        new_owner_task_row_def next_id_def)
  have p: "\<lparr>sp_draft_id = 1, sp_starts_at = utc_secs 900, sp_ends_at = utc_secs 1800, sp_timezone = lit ''UTC'',
       sp_operation_key = lit ''op'', sp_owner_fingerprint = lit ''fp'', sp_provider_event_id = None\<rparr> = demo_placement"
    by (simp add: demo_placement_def)
  have load: "load_owner_task_placement demo_texts 1 (add_placement ?db ?r) = Inr demo_placement"
    using placement_added(2)[OF demo_texts_ok inv id _ demo_placement_args fresh] p by simp
  obtain w where w: "find (\<lambda>r. pl_owner_task_draft_id r = 1) (owner_task_placements (add_placement ?db ?r)) = Some w"
    "decode_owner_task_placement demo_texts w = Inr demo_placement"
    using load by (auto simp: load_owner_task_placement_def rbind_Inr_iff)
  have same: "bound_to demo_placement 1 (utc_secs 900) (utc_secs 1800) (lit ''UTC'') (lit ''op'') (lit ''fp'')"
    by (simp add: bound_to_def demo_placement_def same_instant_def)
  have bind: "bind_placement demo_texts 1 (utc_secs 900) (utc_secs 1800) (demo_whole 900 @ [90]) (demo_whole 1800 @ [90])
      (lit ''UTC'') (lit ''op'') (lit ''fp'') ?db = Inr (add_placement ?db ?r, demo_placement)"
    using insp w same by (simp add: bind_placement_def bound_to_def del: lit_simps)
  have db: "add_placement ?db ?r = demo_placed_db"
    by (simp add: add_placement_def add_owner_task_def demo_placed_db_def new_owner_task_row_def new_placement_row_def
        demo_chore_def empty_db_def next_id_def)
  have "placement_arguments demo_texts (utc_secs 900) (utc_secs 1800) (lit ''UTC'') (lit ''op'') (lit ''fp'') =
      Inr (lit ''UTC'', lit ''op'', lit ''fp'', demo_whole 900 @ [90], demo_whole 1800 @ [90])"
    using demo_placement_args(1) by (simp add: placement_arguments_Inr del: lit_simps)
  then show ?thesis
    using ins cand row ex bind db demo_placement_args(2) due
    by (simp add: save_prepared_owner_task_def del: lit_simps)
qed

lemma demo_placed_inv: "owner_inv demo_texts demo_placed_db"
  and demo_task_load: "load_owner_task_placement demo_texts 1 demo_placed_db = Inr demo_placement"
  using prepared_step[OF demo_texts_ok demo_owner_inv_empty demo_chore_made demo_prepared] by (simp_all add: placements_kept_def)

theorem prepared_task_is_bound_once_witness:
  "\<exists>q. demo_bind demo_placed_db = (demo_placed_db, Inr (\<lparr>so_id = 1, so_source_id = None, so_draft = demo_chore\<rparr>, q))
    \<and> placement_follows demo_placement q"
  using prepared_task_is_bound_once[OF demo_texts_ok demo_owner_inv_empty demo_chore_made demo_prepared rtranclp.rtrancl_refl]
  by blast

lemma demo_submitted:
  "\<exists>db p. submit_owner_task_placement demo_texts 1 (lit ''ev'') demo_placed_db = (db, Inr p)"
proof -
  have "event_text (lit ''ev'')" by code_simp
  moreover have "\<not> event_taken (lit ''ev'') demo_placed_db" by (simp add: event_taken_def demo_placed_db_def)
  ultimately show ?thesis
    using submit_task_outcome[OF demo_texts_ok demo_placed_inv demo_task_load] by (simp add: demo_placement_def del: lit_simps)
qed

theorem event_completes_one_task_witness:
  "\<exists>db p. submit_owner_task_placement demo_texts 1 (lit ''ev'') db = (db, Inr p)
    \<and> (\<exists>e. submit_owner_task_placement demo_texts 1 (lit ''other'') db = (db, Inl e))"
proof -
  obtain db p where r: "submit_owner_task_placement demo_texts 1 (lit ''ev'') demo_placed_db = (db, Inr p)"
    using demo_submitted by blast
  have ne: "(1 = (1::int)) \<noteq> (lit ''other'' = lit ''ev'')" by simp
  show ?thesis
    using event_completes_one_task[OF demo_texts_ok demo_placed_inv r rtranclp.rtrancl_refl] ne by blast
qed

theorem placed_tasks_are_kept_witness:
  "\<exists>db q. submit_owner_task_placement demo_texts 1 (lit ''ev'') demo_placed_db = (db, Inr q)
    \<and> (\<exists>q. load_owner_task_placement demo_texts 1 db = Inr q \<and> placement_follows demo_placement q)
    \<and> (\<exists>e. delete_owner_task_draft_by_id 1 db = (db, Inl e))"
proof -
  obtain db p where r: "submit_owner_task_placement demo_texts 1 (lit ''ev'') demo_placed_db = (db, Inr p)"
    using demo_submitted by blast
  have "(owner_step demo_texts)\<^sup>*\<^sup>* demo_placed_db db" using owner_step.submitted[OF r] by simp
  then show ?thesis using placed_tasks_are_kept[OF demo_texts_ok demo_placed_inv _ demo_task_load] r by blast
qed

end
