(* ===== verification/Reference_Runs.thy ===== *)
theory Reference_Runs
  imports Outbox_Runs Owner_Task_Runs
begin

text \<open>
  The foreign keys of the store over all of its operations: \<open>reference_step\<close> is one successful
  operation on the tables that refer to each other (drafts, quotes and their slots, proposals, event
  mappings, notifications, placements), or a change of the other tables. Each operation keeps
  \<open>references_ok\<close>, the conjunction of all references.
\<close>

section \<open>One step of the store\<close>



section \<open>Each operation keeps the references\<close>














section \<open>Quotes and drafts\<close>












section \<open>Owner tasks\<close>






section \<open>Properties\<close>


section \<open>Witness\<close>








end
