(* ===== verification/Availability.thy ===== *)
theory Availability
  imports Rust_Time
begin

text \<open>
  \<open>src/pa/availability.rs\<close>: the owner's bookable slots. A local date is the number of days since
  1970-01-01, a local time the nanoseconds since midnight, a local date and time the nanoseconds
  since the local midnight of 1970-01-01, a duration a number of nanoseconds. The time zone
  database (crate \<open>chrono_tz\<close>) is the record \<open>tz\<close>: the offset in seconds at an instant and the
  instants of a local time. \<open>tz_ok\<close> states what the crate documents: \<open>from_local_datetime\<close> returns
  the instants whose local time is the given one.
\<close>

section \<open>Errors, intervals and windows\<close>

datatype availability_error =
    InvalidBusyInterval odt odt
  | InvalidWorkingWindow int int
  | InvalidTimezone str
  | InvalidDuration string
  | DateTimeOverflow

type_synonym 'a availability_result = "(availability_error, 'a) result"

record busy_interval =
  bi_starts_at :: odt
  bi_ends_at :: odt

definition busy_interval_new :: "odt \<Rightarrow> odt \<Rightarrow> busy_interval availability_result" where
  "busy_interval_new starts_at ends_at =
     (let starts_at = to_utc starts_at; ends_at = to_utc ends_at in
      if \<not> before starts_at ends_at then Inl (InvalidBusyInterval starts_at ends_at)
      else Inr \<lparr>bi_starts_at = starts_at, bi_ends_at = ends_at\<rparr>)"

definition DAY_NS :: int where "DAY_NS = 86400 * NANOS"
definition GRID_NS :: int where "GRID_NS = 15 * 60 * NANOS"

record working_window =
  ww_starts_at :: int
  ww_ends_at :: int

definition working_window_new :: "int \<Rightarrow> int \<Rightarrow> working_window availability_result" where
  "working_window_new starts_at ends_at =
     (if ends_at \<le> starts_at then Inl (InvalidWorkingWindow starts_at ends_at)
      else Inr \<lparr>ww_starts_at = starts_at, ww_ends_at = ends_at\<rparr>)"

text \<open>\<open>Time::from_hms\<close> of the crate \<open>time\<close>.\<close>

definition time_from_hms :: "u8 \<Rightarrow> u8 \<Rightarrow> u8 \<Rightarrow> int option" where
  "time_from_hms h m s =
     (if unat h < 24 \<and> unat m < 60 \<and> unat s < 60
      then Some ((int (unat h) * 3600 + int (unat m) * 60 + int (unat s)) * NANOS) else None)"

definition working_window_from_hm :: "u8 \<Rightarrow> u8 \<Rightarrow> u8 \<Rightarrow> u8 \<Rightarrow> working_window availability_result" where
  "working_window_from_hm start_hour start_minute end_hour end_minute =
     rbind (ok_or (InvalidWorkingWindow 0 0) (time_from_hms start_hour start_minute 0)) (\<lambda>starts_at.
     rbind (ok_or (InvalidWorkingWindow starts_at 0) (time_from_hms end_hour end_minute 0)) (\<lambda>ends_at.
       working_window_new starts_at ends_at))"

datatype weekday = Mon | Tue | Wed | Thu | Fri | Sat | Sun

fun weekday_index :: "weekday \<Rightarrow> nat" where
  "weekday_index Mon = 0"
| "weekday_index Tue = 1"
| "weekday_index Wed = 2"
| "weekday_index Thu = 3"
| "weekday_index Fri = 4"
| "weekday_index Sat = 5"
| "weekday_index Sun = 6"

section \<open>Time zones and the policy\<close>

datatype local_result = LocalSingle int | LocalAmbiguous int int | LocalNone

record tz =
  tz_offset :: "int \<Rightarrow> int"
  tz_from_local :: "int \<Rightarrow> local_result"

definition naive_local :: "tz \<Rightarrow> int \<Rightarrow> int" where
  "naive_local Z t = t + tz_offset Z t * NANOS"

definition tz_ok :: "tz \<Rightarrow> bool" where
  "tz_ok Z \<longleftrightarrow> (\<forall>l. case tz_from_local Z l of
       LocalSingle t \<Rightarrow> (\<forall>u. naive_local Z u = l \<longleftrightarrow> u = t)
     | LocalAmbiguous a b \<Rightarrow> (\<forall>u. naive_local Z u = l \<longleftrightarrow> u = a \<or> u = b)
     | LocalNone \<Rightarrow> (\<forall>u. naive_local Z u \<noteq> l))"

record availability_policy =
  ap_timezone_name :: str
  ap_timezone :: tz
  ap_windows :: "working_window list list"
  ap_minimum_notice :: int
  ap_booking_horizon :: int
  ap_meeting_buffer :: int

fun index_windows :: "(weekday \<times> working_window list) list \<Rightarrow> working_window list list \<Rightarrow> working_window list list" where
  "index_windows [] indexed = indexed"
| "index_windows ((weekday, day_windows) # rest) indexed =
     index_windows rest
       (indexed[weekday_index weekday := indexed ! weekday_index weekday @ sort_key ww_starts_at day_windows])"

fun windows_overlap :: "working_window list \<Rightarrow> bool" where
  "windows_overlap (v # w # ws) \<longleftrightarrow> ww_starts_at w < ww_ends_at v \<or> windows_overlap (w # ws)"
| "windows_overlap _ \<longleftrightarrow> False"

definition policy_new ::
    "(str \<Rightarrow> tz option) \<Rightarrow> str \<Rightarrow> (weekday \<times> working_window list) list \<Rightarrow> int \<Rightarrow> int \<Rightarrow> int
       \<Rightarrow> availability_policy availability_result" where
  "policy_new parse_tz timezone windows minimum_notice booking_horizon meeting_buffer =
     (let timezone_name = str_trim timezone in
      rbind (ok_or (InvalidTimezone timezone_name) (parse_tz timezone_name)) (\<lambda>timezone.
      if minimum_notice < 0 \<or> booking_horizon \<le> 0 \<or> meeting_buffer < 0
      then Inl (InvalidDuration (if minimum_notice < 0 then ''minimum_notice''
                                 else if booking_horizon \<le> 0 then ''booking_horizon'' else ''meeting_buffer''))
      else
        (let indexed = map (sort_key ww_starts_at) (index_windows windows (replicate 7 [])) in
         if list_ex windows_overlap indexed then Inl (InvalidWorkingWindow 0 0)
         else Inr \<lparr>ap_timezone_name = timezone_name, ap_timezone = timezone, ap_windows = indexed,
                   ap_minimum_notice = minimum_notice, ap_booking_horizon = booking_horizon,
                   ap_meeting_buffer = meeting_buffer\<rparr>)))"

text \<open>\<open>unwrap\<close> of a window that is valid: Monday to Friday, 08:00 to 18:00.\<close>

definition default_working_windows :: "(weekday \<times> working_window list) list" where
  "default_working_windows =
     (case working_window_from_hm 8 0 18 0 of
        Inr window \<Rightarrow> [(Mon, [window]), (Tue, [window]), (Wed, [window]), (Thu, [window]), (Fri, [window])]
      | Inl _ \<Rightarrow> [])"

definition for_timezone :: "(str \<Rightarrow> tz option) \<Rightarrow> str \<Rightarrow> availability_policy availability_result" where
  "for_timezone parse_tz timezone =
     policy_new parse_tz timezone default_working_windows (3600 * NANOS) (60 * DAY_NS) 0"

definition working_windows :: "availability_policy \<Rightarrow> weekday \<Rightarrow> working_window list" where
  "working_windows P weekday = ap_windows P ! weekday_index weekday"

section \<open>Busy intervals\<close>

fun merge_loop :: "busy_interval list \<Rightarrow> busy_interval list \<Rightarrow> busy_interval list" where
  "merge_loop [] merged = merged"
| "merge_loop (interval # rest) merged =
     (if merged = [] then merge_loop rest [interval]
      else let previous = last merged in
        if \<not> before (bi_ends_at previous) (bi_starts_at interval)
        then (if before (bi_ends_at previous) (bi_ends_at interval)
              then merge_loop rest (butlast merged @ [previous\<lparr>bi_ends_at := bi_ends_at interval\<rparr>])
              else merge_loop rest merged)
        else merge_loop rest (merged @ [interval]))"

definition merge_busy_intervals :: "busy_interval list \<Rightarrow> busy_interval list \<Rightarrow> busy_interval list" where
  "merge_busy_intervals outlook_busy google_busy =
     merge_loop (sort_key (\<lambda>i. instant_ns (bi_starts_at i)) (outlook_busy @ google_busy)) []"

definition odt_checked_sub_ns :: "odt \<Rightarrow> int \<Rightarrow> odt option" where
  "odt_checked_sub_ns d n = odt_checked_add_ns d (- n)"

definition buffered_is_free :: "odt \<Rightarrow> odt \<Rightarrow> int \<Rightarrow> busy_interval list \<Rightarrow> bool availability_result" where
  "buffered_is_free candidate_start candidate_end buffer busy =
     rbind (ok_or DateTimeOverflow (odt_checked_sub_ns candidate_start buffer)) (\<lambda>buffered_start.
     rbind (ok_or DateTimeOverflow (odt_checked_add_ns candidate_end buffer)) (\<lambda>buffered_end.
       Inr (list_all (\<lambda>i. \<not> before (bi_starts_at i) buffered_end \<or> \<not> before buffered_start (bi_ends_at i)) busy)))"

section \<open>The local grid\<close>

definition chrono_hour :: "int \<Rightarrow> int" where "chrono_hour t = t div (3600 * NANOS)"
definition chrono_minute :: "int \<Rightarrow> int" where "chrono_minute t = t div (60 * NANOS) mod 60"
definition chrono_second :: "int \<Rightarrow> int" where "chrono_second t = t div NANOS mod 60"
definition chrono_nanosecond :: "int \<Rightarrow> int" where "chrono_nanosecond t = t mod NANOS"

definition naive_new :: "int \<Rightarrow> int \<Rightarrow> int" where "naive_new date time = date * DAY_NS + time"
definition naive_date :: "int \<Rightarrow> int" where "naive_date l = l div DAY_NS"
definition naive_time :: "int \<Rightarrow> int" where "naive_time l = l mod DAY_NS"

text \<open>1970-01-01 was a Thursday.\<close>

definition date_weekday :: "int \<Rightarrow> weekday" where
  "date_weekday date = [Mon, Tue, Wed, Thu, Fri, Sat, Sun] ! nat ((date + 3) mod 7)"

text \<open>The last date of chrono, 262142-12-31.\<close>

definition chrono_max_date :: int where "chrono_max_date = 95026236"
definition chrono_min_date :: int where "chrono_min_date = - 96465292"

definition succ_opt :: "int \<Rightarrow> int option" where
  "succ_opt date = (if date < chrono_max_date then Some (date + 1) else None)"

definition naive_checked_add :: "int \<Rightarrow> int \<Rightarrow> int option" where
  "naive_checked_add l n = (if naive_date (l + n) \<le> chrono_max_date then Some (l + n) else None)"

definition ceil_window_grid :: "int \<Rightarrow> int \<Rightarrow> int option" where
  "ceil_window_grid date time =
     (let minute = chrono_hour time * 60 + chrono_minute time;
          minute = (if chrono_second time \<noteq> 0 \<or> chrono_nanosecond time \<noteq> 0 then minute + 1 else minute);
          minute = ((minute + 14) div 15) * 15
      in if minute \<ge> 24 * 60 then None
         else Some (naive_new date ((minute div 60 * 3600 + minute mod 60 * 60) * NANOS)))"

definition ceil_local_grid :: "int \<Rightarrow> int" where
  "ceil_local_grid l =
     (case ceil_window_grid (naive_date l) (naive_time l) of
        Some g \<Rightarrow> g
      | None \<Rightarrow> naive_new (naive_date l + 1) 0)"

definition local_to_utc :: "tz \<Rightarrow> int \<Rightarrow> int option" where
  "local_to_utc Z l =
     (case tz_from_local Z l of
        LocalSingle value \<Rightarrow> Some value
      | LocalAmbiguous first second \<Rightarrow> Some (min first second)
      | LocalNone \<Rightarrow> None)"

definition to_chrono_utc :: "odt \<Rightarrow> int availability_result" where
  "to_chrono_utc d =
     (if chrono_min_date \<le> naive_date (instant_ns d) \<and> naive_date (instant_ns d) \<le> chrono_max_date
      then Inr (instant_ns d) else Inl DateTimeOverflow)"

definition from_chrono_utc :: "int \<Rightarrow> odt availability_result" where
  "from_chrono_utc t =
     rbind (ok_or DateTimeOverflow (from_unix_timestamp (t div NANOS))) (\<lambda>base.
       Inr (to_utc (base\<lparr>instant_ns := instant_ns base + t mod NANOS\<rparr>)))"

definition candidate_ends_within_working_window :: "tz \<Rightarrow> int \<Rightarrow> int \<Rightarrow> odt \<Rightarrow> bool availability_result" where
  "candidate_ends_within_working_window Z date window_end candidate_end =
     rbind (to_chrono_utc candidate_end) (\<lambda>candidate_end_utc.
     let candidate_end_local = naive_local Z candidate_end_utc in
     if naive_date candidate_end_local \<noteq> date \<or> naive_time candidate_end_local > window_end then Inr False
     else (case local_to_utc Z (naive_new date window_end) of
             Some window_end_utc \<Rightarrow> Inr (candidate_end_utc \<le> window_end_utc)
           | None \<Rightarrow> Inr True))"

section \<open>The search for slots\<close>

text \<open>The values the loops of \<open>available_slots\<close> do not change.\<close>

record slot_search =
  ss_policy :: availability_policy
  ss_duration :: int
  ss_lead_time :: odt
  ss_rounded_lead_local :: int
  ss_horizon_end :: odt
  ss_busy :: "busy_interval list"
  ss_limit :: nat

datatype verdict = Skip | Stop | Take odt

text \<open>One turn of the innermost loop: the candidate that starts at \<open>local_start\<close>.\<close>

definition acceptable :: "slot_search \<Rightarrow> int \<Rightarrow> int \<Rightarrow> odt \<Rightarrow> odt \<Rightarrow> bool availability_result" where
  "acceptable S date window_end candidate_start candidate_end =
     (if before candidate_start (ss_lead_time S) then Inr False
      else if before (ss_horizon_end S) candidate_end then Inr False
      else rbind (candidate_ends_within_working_window (ap_timezone (ss_policy S)) date window_end candidate_end) (\<lambda>within.
        if \<not> within then Inr False
        else buffered_is_free candidate_start candidate_end (ap_meeting_buffer (ss_policy S)) (ss_busy S)))"

definition try_candidate :: "slot_search \<Rightarrow> int \<Rightarrow> int \<Rightarrow> int \<Rightarrow> verdict availability_result" where
  "try_candidate S date window_end local_start =
     (if local_start < ss_rounded_lead_local S then Inr Skip
      else (case local_to_utc (ap_timezone (ss_policy S)) local_start of
        None \<Rightarrow> Inr Skip
      | Some t \<Rightarrow>
          rbind (from_chrono_utc t) (\<lambda>candidate_start.
          case odt_checked_add_ns candidate_start (ss_duration S) of
            None \<Rightarrow> Inr Stop
          | Some candidate_end \<Rightarrow>
              rbind (acceptable S date window_end candidate_start candidate_end) (\<lambda>ok.
                Inr (if ok then Take candidate_start else Skip)))))"

text \<open>The loops return the slots found so far, and whether the limit was reached.\<close>

function window_loop :: "slot_search \<Rightarrow> int \<Rightarrow> int \<Rightarrow> int \<Rightarrow> odt list \<Rightarrow> (bool \<times> odt list) availability_result" where
  "window_loop S date window_end local_start slots =
     (if local_start < naive_new date window_end then
        rbind (try_candidate S date window_end local_start) (\<lambda>verdict.
        case verdict of
          Stop \<Rightarrow> Inr (False, slots)
        | Skip \<Rightarrow>
            (case naive_checked_add local_start GRID_NS of
               None \<Rightarrow> Inr (False, slots)
             | Some next_start \<Rightarrow> window_loop S date window_end next_start slots)
        | Take s \<Rightarrow>
            (if length (slots @ [s]) = ss_limit S then Inr (True, slots @ [s])
             else (case naive_checked_add local_start GRID_NS of
                     None \<Rightarrow> Inr (False, slots @ [s])
                   | Some next_start \<Rightarrow> window_loop S date window_end next_start (slots @ [s]))))
      else Inr (False, slots))"
  by pat_completeness auto
termination
  by (relation "measure (\<lambda>(S, date, window_end, local_start, slots). nat (naive_new date window_end - local_start))")
    (auto simp: naive_checked_add_def GRID_NS_def NANOS_def split: if_splits)

fun windows_loop :: "slot_search \<Rightarrow> int \<Rightarrow> working_window list \<Rightarrow> odt list \<Rightarrow> (bool \<times> odt list) availability_result" where
  "windows_loop S date [] slots = Inr (False, slots)"
| "windows_loop S date (w # ws) slots =
     (case ceil_window_grid date (ww_starts_at w) of
        None \<Rightarrow> windows_loop S date ws slots
      | Some first_start \<Rightarrow>
          rbind (window_loop S date (ww_ends_at w) first_start slots) (\<lambda>(finished, slots).
            if finished then Inr (True, slots) else windows_loop S date ws slots))"

function day_loop :: "slot_search \<Rightarrow> int \<Rightarrow> int \<Rightarrow> odt list \<Rightarrow> odt list availability_result" where
  "day_loop S date final_date slots =
     (if date \<le> final_date then
        rbind (windows_loop S date (working_windows (ss_policy S) (date_weekday date)) slots) (\<lambda>(finished, slots).
        if finished then Inr slots
        else (case succ_opt date of
                None \<Rightarrow> Inr slots
              | Some next_date \<Rightarrow> day_loop S next_date final_date slots))
      else Inr slots)"
  by pat_completeness auto
termination
  by (relation "measure (\<lambda>(S, date, final_date, slots). nat (final_date + 1 - date))")
    (auto simp: succ_opt_def split: if_splits)

definition available_slots ::
    "availability_policy \<Rightarrow> odt \<Rightarrow> int \<Rightarrow> busy_interval list \<Rightarrow> busy_interval list \<Rightarrow> nat \<Rightarrow> odt list availability_result" where
  "available_slots P now requested_duration outlook_busy google_busy limit =
     (if requested_duration \<le> 0 then Inl (InvalidDuration ''requested_duration'')
      else if limit = 0 then Inr []
      else
        let now = to_utc now in
        rbind (ok_or DateTimeOverflow (odt_checked_add_ns now (ap_booking_horizon P))) (\<lambda>horizon_end.
        rbind (ok_or DateTimeOverflow (odt_checked_add_ns now (ap_minimum_notice P))) (\<lambda>lead_time.
        rbind (to_chrono_utc now) (\<lambda>now_utc.
        rbind (to_chrono_utc horizon_end) (\<lambda>horizon_utc.
        rbind (to_chrono_utc lead_time) (\<lambda>lead_utc.
        let local_now = naive_local (ap_timezone P) now_utc;
            local_horizon = naive_local (ap_timezone P) horizon_utc;
            S = \<lparr>ss_policy = P, ss_duration = requested_duration, ss_lead_time = lead_time,
                 ss_rounded_lead_local = ceil_local_grid (naive_local (ap_timezone P) lead_utc),
                 ss_horizon_end = horizon_end, ss_busy = merge_busy_intervals outlook_busy google_busy,
                 ss_limit = limit\<rparr>
        in day_loop S (naive_date local_now) (naive_date local_horizon) []))))))"


declare window_loop.simps [simp del] day_loop.simps [simp del]

section \<open>The grid of a day\<close>

lemma time_units: "NANOS > 0" "DAY_NS > 0" "GRID_NS > 0" "DAY_NS = 96 * GRID_NS"
  by (simp_all add: DAY_NS_def GRID_NS_def NANOS_def)

definition grid_points :: "int \<Rightarrow> int \<Rightarrow> int list" where
  "grid_points l e = map (\<lambda>k. l + int k * GRID_NS) [0..<nat ((e - l + GRID_NS - 1) div GRID_NS)]"

definition day_points :: "int \<Rightarrow> int list" where
  "day_points date = map (\<lambda>k. naive_new date (int k * GRID_NS)) [0..<96]"

lemma grid_points_Nil: "e \<le> l \<Longrightarrow> grid_points l e = []"
proof -
  assume "e \<le> l"
  then have "(e - l + GRID_NS - 1) div GRID_NS \<le> (GRID_NS - 1) div GRID_NS"
    using time_units by (intro zdiv_mono1) auto
  moreover have "(GRID_NS - 1) div GRID_NS = 0" by (simp add: GRID_NS_def NANOS_def)
  ultimately show ?thesis by (simp add: grid_points_def)
qed

lemma grid_Suc: "map (\<lambda>k. l + int k * GRID_NS) [0..<Suc n] = l # map (\<lambda>k. l + GRID_NS + int k * GRID_NS) [0..<n]"
proof -
  have "[0..<Suc n] = 0 # map Suc [0..<n]" by (simp add: upt_conv_Cons map_Suc_upt del: upt_Suc)
  then show ?thesis by (simp add: algebra_simps)
qed

lemma grid_points_Cons: "l < e \<Longrightarrow> grid_points l e = l # grid_points (l + GRID_NS) e"
proof -
  assume l: "l < e"
  let ?n = "(e - l + GRID_NS - 1) div GRID_NS" and ?m = "(e - (l + GRID_NS) + GRID_NS - 1) div GRID_NS"
  have eq: "e - l + GRID_NS - 1 = (e - (l + GRID_NS) + GRID_NS - 1) + GRID_NS" by simp
  have n: "?n = ?m + 1" unfolding eq by (rule div_add_self2) (use time_units(3) in simp)
  have "0 \<le> ?m" using l time_units(3) by (intro pos_imp_zdiv_nonneg_iff[THEN iffD2]) auto
  then have "nat ?n = Suc (nat ?m)" using n by simp
  then show ?thesis unfolding grid_points_def by (simp only: grid_Suc)
qed

lemma int_le_div_iff: "0 < c \<Longrightarrow> (a::int) \<le> b div c \<longleftrightarrow> a * c \<le> b"
proof
  assume c: "0 < c" and a: "a \<le> b div c"
  have "a * c \<le> b div c * c" using a c by (intro mult_right_mono) auto
  also have "\<dots> \<le> b" using c div_mult_mod_eq[of b c] pos_mod_sign[of c b] by linarith
  finally show "a * c \<le> b" .
next
  assume c: "0 < c" and a: "a * c \<le> b"
  have "a * c div c \<le> b div c" using zdiv_mono1[OF a c] .
  then show "a \<le> b div c" using c by simp
qed

lemma grid_points_set: "x \<in> set (grid_points l e) \<longleftrightarrow> (\<exists>k. x = l + int k * GRID_NS) \<and> x < e"
proof -
  have "k < nat ((e - l + GRID_NS - 1) div GRID_NS) \<longleftrightarrow> l + int k * GRID_NS < e" for k
  proof -
    have "k < nat ((e - l + GRID_NS - 1) div GRID_NS) \<longleftrightarrow> int k + 1 \<le> (e - l + GRID_NS - 1) div GRID_NS" by linarith
    also have "\<dots> \<longleftrightarrow> (int k + 1) * GRID_NS \<le> e - l + GRID_NS - 1" by (rule int_le_div_iff[OF time_units(3)])
    also have "\<dots> \<longleftrightarrow> l + int k * GRID_NS < e" by (auto simp: algebra_simps)
    finally show ?thesis .
  qed
  note lt = this
  have "x \<in> set (grid_points l e) \<longleftrightarrow> (\<exists>k. k < nat ((e - l + GRID_NS - 1) div GRID_NS) \<and> x = l + int k * GRID_NS)"
    unfolding grid_points_def set_map set_upt image_iff by auto
  then show ?thesis unfolding lt by auto
qed

lemma grid_step_less: "l + int k * GRID_NS < l + int j * GRID_NS \<longleftrightarrow> k < j"
  using time_units(3) by simp

lemma grid_points_sorted: "sorted_wrt (<) (grid_points l e)"
  unfolding grid_points_def sorted_wrt_map grid_step_less by (rule sorted_wrt_upt)

lemma day_points_sorted: "sorted_wrt (<) (day_points date)"
  unfolding day_points_def sorted_wrt_map naive_new_def grid_step_less by (rule sorted_wrt_upt)

text \<open>The date and the time of a local date and time.\<close>

lemma naive_new_split:
  assumes "0 \<le> t" "t < DAY_NS"
  shows "naive_date (naive_new d t) = d" "naive_time (naive_new d t) = t"
  using assms time_units(2) by (simp_all add: naive_date_def naive_time_def naive_new_def)

lemma naive_new_eta: "naive_new (naive_date l) (naive_time l) = l"
  by (simp add: naive_new_def naive_date_def naive_time_def)

lemma naive_time_bounds: "0 \<le> naive_time l \<and> naive_time l < DAY_NS"
  using time_units(2) by (simp add: naive_time_def)

lemma day_points_split:
  assumes "l \<in> set (day_points d)"
  shows "naive_date l = d \<and> (\<exists>k<96. naive_time l = int k * GRID_NS)"
proof -
  from assms obtain k where k: "k < 96" "l = naive_new d (int k * GRID_NS)" by (auto simp: day_points_def)
  have "0 \<le> int k * GRID_NS" "int k * GRID_NS < DAY_NS"
    using k(1) time_units(3) unfolding time_units(4) by (simp_all add: mult_strict_right_mono)
  then show ?thesis using naive_new_split k by blast
qed

text \<open>\<open>ceil_window_grid\<close> is the first grid point of the date that is not before the time.\<close>

lemma int_le_eq: "(\<And>a::int. a \<le> x \<longleftrightarrow> a \<le> y) \<Longrightarrow> x = y"
  by (meson order_antisym order_refl)

lemma minute_parts:
  "chrono_hour t * 60 + chrono_minute t = t div (60 * NANOS)"
  "chrono_second t \<noteq> 0 \<or> chrono_nanosecond t \<noteq> 0 \<longleftrightarrow> t mod (60 * NANOS) \<noteq> 0"
proof -
  have "t div (3600 * NANOS) = t div (60 * NANOS) div 60"
    using zdiv_zmult2_eq[of 60 t "60 * NANOS"] by (simp add: mult.commute)
  then show "chrono_hour t * 60 + chrono_minute t = t div (60 * NANOS)"
    by (simp add: chrono_hour_def chrono_minute_def)
  have "t mod (NANOS * 60) = NANOS * (t div NANOS mod 60) + t mod NANOS"
    by (rule zmod_zmult2_eq) simp
  moreover have "0 \<le> t div NANOS mod 60" "0 \<le> t mod NANOS" using time_units(1) by simp_all
  ultimately show "chrono_second t \<noteq> 0 \<or> chrono_nanosecond t \<noteq> 0 \<longleftrightarrow> t mod (60 * NANOS) \<noteq> 0"
    using time_units(1) by (simp add: chrono_second_def chrono_nanosecond_def mult.commute add_nonneg_eq_0_iff)
qed

lemma ceil_div: "(if t mod c \<noteq> 0 then t div c + 1 else t div c) = (t + c - 1) div c" if "0 < (c::int)"
proof (rule int_le_eq)
  fix a
  have "a \<le> (t + c - 1) div c \<longleftrightarrow> a * c < t + c" using int_le_div_iff[OF that, of a "t + c - 1"] by auto
  also have "\<dots> \<longleftrightarrow> a * c < (t div c + 1) * c + t mod c" by (simp add: algebra_simps)
  also have "\<dots> \<longleftrightarrow> a \<le> (if t mod c \<noteq> 0 then t div c + 1 else t div c)" (is "?l \<longleftrightarrow> ?r")
  proof -
    have r: "0 \<le> t mod c" "t mod c < c" using that by simp_all
    show ?thesis
    proof (cases "t mod c = 0")
      case True
      then show ?thesis using that by (simp add: mult_less_cancel_right)
    next
      case False
      have "?l \<longleftrightarrow> a \<le> t div c + 1"
      proof
        assume ?l
        then have "a * c < (t div c + 2) * c" using r unfolding distrib_right by linarith
        then show "a \<le> t div c + 1" using that by (simp add: mult_less_cancel_right)
      next
        assume "a \<le> t div c + 1"
        then have "a * c \<le> (t div c + 1) * c" using that by (intro mult_right_mono) auto
        then show ?l using False r by linarith
      qed
      then show ?thesis using False by simp
    qed
  qed
  finally show "a \<le> (if t mod c \<noteq> 0 then t div c + 1 else t div c) \<longleftrightarrow> a \<le> (t + c - 1) div c" by simp
qed

lemma fifteen: "a \<le> (m + 14) div 15 \<longleftrightarrow> (a - 1) * 15 + 1 \<le> (m :: int)"
  using int_le_div_iff[of 15 a "m + 14"] by auto

lemma ceil_minutes:
  "ceil_window_grid d t = (let k = (t + GRID_NS - 1) div GRID_NS in
    if 96 \<le> k then None else Some (naive_new d (k * GRID_NS)))"
proof -
  let ?m = "if t mod (60 * NANOS) \<noteq> 0 then t div (60 * NANOS) + 1 else t div (60 * NANOS)"
  have k: "(?m + 14) div 15 = (t + GRID_NS - 1) div GRID_NS"
  proof (rule int_le_eq)
    fix a :: int
    have "a \<le> (?m + 14) div 15 \<longleftrightarrow> (a - 1) * 15 + 1 \<le> ?m" by (rule fifteen)
    also have "\<dots> \<longleftrightarrow> (a - 1) * 15 + 1 \<le> (t + 60 * NANOS - 1) div (60 * NANOS)"
      using ceil_div[of "60 * NANOS" t] by (simp add: NANOS_def)
    also have "(a - 1) * 15 + 1 \<le> (t + 60 * NANOS - 1) div (60 * NANOS) \<longleftrightarrow> ((a - 1) * 15 + 1) * (60 * NANOS) \<le> t + 60 * NANOS - 1"
      by (rule int_le_div_iff) (simp add: NANOS_def)
    also have "\<dots> \<longleftrightarrow> a * GRID_NS \<le> t + GRID_NS - 1" by (auto simp: GRID_NS_def NANOS_def)
    also have "\<dots> \<longleftrightarrow> a \<le> (t + GRID_NS - 1) div GRID_NS" by (rule int_le_div_iff[OF time_units(3), symmetric])
    finally show "a \<le> (?m + 14) div 15 \<longleftrightarrow> a \<le> (t + GRID_NS - 1) div GRID_NS" .
  qed
  have g: "(m div 60 * 3600 + m mod 60 * 60) * NANOS = m * (60 * NANOS)" for m :: int
  proof -
    have "m div 60 * 3600 + m mod 60 * 60 = m * 60" using div_mult_mod_eq[of m 60] by linarith
    then show ?thesis by simp
  qed
  have "ceil_window_grid d t = (let minute = (?m + 14) div 15 * 15 in
    if minute \<ge> 24 * 60 then None else Some (naive_new d (minute * (60 * NANOS))))"
    unfolding ceil_window_grid_def minute_parts Let_def g by simp
  moreover have "24 * 60 \<le> j * 15 \<longleftrightarrow> 96 \<le> j" "j * 15 * (60 * NANOS) = j * GRID_NS" for j :: int
    by (auto simp: GRID_NS_def)
  ultimately show ?thesis unfolding k Let_def by (simp only:)
qed

text \<open>The turns of the innermost loop are the grid points of the date inside the window.\<close>

lemma window_grid:
  assumes "0 \<le> s" "e \<le> DAY_NS"
  shows "(case ceil_window_grid d s of None \<Rightarrow> [] | Some f \<Rightarrow> grid_points f (naive_new d e))
    = filter (\<lambda>l. s \<le> naive_time l \<and> naive_time l < e) (day_points d)" (is "?l = ?r")
proof -
  let ?k = "(s + GRID_NS - 1) div GRID_NS"
  have k: "a \<le> ?k - 1 \<longleftrightarrow> a * GRID_NS < s" for a
    using int_le_div_iff[OF time_units(3), of "a + 1" "s + GRID_NS - 1"] by (auto simp: algebra_simps)
  have k0: "0 \<le> ?k" using assms(1) time_units(3) by (intro pos_imp_zdiv_nonneg_iff[THEN iffD2]) auto
  have r: "x \<in> set ?r \<longleftrightarrow> (\<exists>j<96. x = naive_new d (int j * GRID_NS) \<and> s \<le> int j * GRID_NS \<and> int j * GRID_NS < e)" for x
  proof -
    have "naive_time (naive_new d (int j * GRID_NS)) = int j * GRID_NS" if "j < 96" for j :: nat
      using that time_units(3) by (intro naive_new_split(2)) (simp_all add: time_units(4))
    then show ?thesis by (auto simp: day_points_def)
  qed
  have small: "j < 96" if "int j * GRID_NS < e" for j
  proof -
    have "int j * GRID_NS < 96 * GRID_NS" using that assms(2) time_units(4) by simp
    then show ?thesis using time_units(3) by (simp add: mult_less_cancel_right)
  qed
  have "set ?l = set ?r"
  proof (cases "96 \<le> ?k")
    case True
    then have "\<not> s \<le> int j * GRID_NS" if "j < 96" for j using k[of "int j"] that by auto
    then have empty: "x \<notin> set ?r" for x unfolding r by blast
    have "set ?r = {}" by (rule equals0I) (rule notE[OF empty])
    then show ?thesis using True ceil_minutes[of d s] by (simp add: Let_def)
  next
    case False
    have "x \<in> set (grid_points (naive_new d (?k * GRID_NS)) (naive_new d e)) \<longleftrightarrow> x \<in> set ?r" for x
    proof -
      have "naive_new d (?k * GRID_NS) + int i * GRID_NS = naive_new d (int (nat ?k + i) * GRID_NS)" for i
        using k0 by (simp add: naive_new_def distrib_right)
      then have "x \<in> set (grid_points (naive_new d (?k * GRID_NS)) (naive_new d e)) \<longleftrightarrow>
          (\<exists>i. x = naive_new d (int (nat ?k + i) * GRID_NS) \<and> int (nat ?k + i) * GRID_NS < e)"
        unfolding grid_points_set by (auto simp: naive_new_def)
      also have "\<dots> \<longleftrightarrow> (\<exists>j. nat ?k \<le> j \<and> x = naive_new d (int j * GRID_NS) \<and> int j * GRID_NS < e)"
        by (metis le_Suc_ex le_add1)
      also have "\<dots> \<longleftrightarrow> (\<exists>j<96. x = naive_new d (int j * GRID_NS) \<and> s \<le> int j * GRID_NS \<and> int j * GRID_NS < e)"
      proof -
        have "nat ?k \<le> j \<longleftrightarrow> s \<le> int j * GRID_NS" for j using k[of "int j"] k0 by linarith
        then show ?thesis using small by metis
      qed
      finally show ?thesis unfolding r .
    qed
    then show ?thesis using False ceil_minutes[of d s] by (auto simp: Let_def)
  qed
  moreover have "sorted_wrt (<) ?l" by (auto simp: grid_points_sorted split: option.splits)
  moreover have "sorted_wrt (<) ?r" by (intro sorted_wrt_filter day_points_sorted)
  ultimately show ?thesis by (metis strict_sorted_equal)
qed

section \<open>The windows of one day\<close>

definition in_window :: "working_window \<Rightarrow> int \<Rightarrow> bool" where
  "in_window w l \<longleftrightarrow> ww_starts_at w \<le> naive_time l \<and> naive_time l < ww_ends_at w"

definition windows_sorted :: "working_window list \<Rightarrow> bool" where
  "windows_sorted ws \<longleftrightarrow> sorted_wrt (\<lambda>v w. ww_ends_at v \<le> ww_starts_at w) ws
     \<and> (\<forall>w \<in> set ws. 0 \<le> ww_starts_at w \<and> ww_starts_at w < ww_ends_at w \<and> ww_ends_at w < DAY_NS)"

lemma map_filter_append: "List.map_filter f (xs @ ys) = List.map_filter f xs @ List.map_filter f ys"
  by (simp add: List.map_filter_def)

lemma map_filter_cong: "(\<And>x. x \<in> set xs \<Longrightarrow> f x = g x) \<Longrightarrow> List.map_filter f xs = List.map_filter g xs"
  by (induction xs) (simp_all add: List.map_filter_simps split: option.split)

lemma map_filter_filter: "List.map_filter f (filter p xs) = List.map_filter (\<lambda>x. if p x then f x else None) xs"
  by (induction xs) (simp_all add: List.map_filter_simps split: option.split)

lemma map_filter_none: "(\<And>x. x \<in> set xs \<Longrightarrow> f x = None) \<Longrightarrow> List.map_filter f xs = []"
  by (induction xs) (simp_all add: List.map_filter_simps)

lemma in_later_window: "windows_sorted (w # ws) \<Longrightarrow> v \<in> set ws \<Longrightarrow> in_window v l \<Longrightarrow> ww_ends_at w \<le> naive_time l"
  by (auto simp: windows_sorted_def in_window_def)

text \<open>Going through the windows one after the other is going through the points of the day.\<close>

lemma windows_points:
  assumes "windows_sorted ws" "sorted_wrt (\<lambda>a b. naive_time a < naive_time b) ls"
  shows "concat (map (\<lambda>w. List.map_filter (A w) (filter (in_window w) ls)) ws) =
    List.map_filter (\<lambda>l. Option.bind (find (\<lambda>w. in_window w l) ws) (\<lambda>w. A w l)) ls"
  using assms
proof (induction ws arbitrary: ls)
  case Nil
  then show ?case by (simp add: map_filter_none)
next
  case (Cons w ws)
  let ?p = "\<lambda>l. naive_time l < ww_ends_at w"
  define a b where "a = takeWhile ?p ls" and "b = dropWhile ?p ls"
  have ls: "ls = a @ b" by (simp add: a_def b_def)
  have a: "naive_time l < ww_ends_at w" if "l \<in> set a" for l using that set_takeWhileD unfolding a_def by fastforce
  have b: "ww_ends_at w \<le> naive_time l" if "l \<in> set b" for l
  proof -
    have "b \<noteq> []" using that by auto
    then have hd: "\<not> ?p (hd b)" unfolding b_def by (rule hd_dropWhile)
    have "sorted_wrt (\<lambda>a b. naive_time a < naive_time b) b" using Cons.prems(2) ls by (simp add: sorted_wrt_append)
    then show ?thesis using that hd \<open>b \<noteq> []\<close> by (cases b) auto
  qed
  have sorted: "windows_sorted ws" using Cons.prems(1) by (simp add: windows_sorted_def)
  have later: "\<not> in_window v l" if "l \<in> set a" "v \<in> set ws" for l v
    using in_later_window[OF Cons.prems(1) that(2), of l] a[OF that(1)] by auto
  have notw: "\<not> in_window w l" if "l \<in> set b" for l using b[OF that] by (simp add: in_window_def)
  have A: "List.map_filter (\<lambda>l. Option.bind (find (\<lambda>w. in_window w l) (w # ws)) (\<lambda>w. A w l)) a
      = List.map_filter (A w) (filter (in_window w) a)"
    unfolding map_filter_filter
  proof (rule map_filter_cong)
    fix l assume "l \<in> set a"
    then have "find (\<lambda>w. in_window w l) ws = None" using later by (auto simp: find_None_iff)
    then show "Option.bind (find (\<lambda>w. in_window w l) (w # ws)) (\<lambda>w. A w l) = (if in_window w l then A w l else None)" by simp
  qed
  have B: "List.map_filter (\<lambda>l. Option.bind (find (\<lambda>w. in_window w l) (w # ws)) (\<lambda>w. A w l)) b
      = List.map_filter (\<lambda>l. Option.bind (find (\<lambda>w. in_window w l) ws) (\<lambda>w. A w l)) b"
    by (rule map_filter_cong) (simp add: notw)
  have ih: "concat (map (\<lambda>w. List.map_filter (A w) (filter (in_window w) b)) ws) =
      List.map_filter (\<lambda>l. Option.bind (find (\<lambda>w. in_window w l) ws) (\<lambda>w. A w l)) b"
    by (rule Cons.IH[OF sorted]) (use Cons.prems(2) ls in \<open>simp add: sorted_wrt_append\<close>)
  have "filter (in_window v) a = []" if "v \<in> set ws" for v using later that by (auto simp: filter_empty_conv)
  then have "map (\<lambda>v. List.map_filter (A v) (filter (in_window v) ls)) ws
      = map (\<lambda>v. List.map_filter (A v) (filter (in_window v) b)) ws"
    unfolding ls by (intro map_cong[OF refl]) (simp add: List.map_filter_simps)
  then have "concat (map (\<lambda>v. List.map_filter (A v) (filter (in_window v) ls)) (w # ws))
      = List.map_filter (A w) (filter (in_window w) ls) @ concat (map (\<lambda>v. List.map_filter (A v) (filter (in_window v) b)) ws)"
    by (simp only: list.map concat.simps)
  moreover have "filter (in_window w) b = []" using notw by (simp add: filter_empty_conv)
  ultimately show ?case unfolding ih using A B by (simp only: ls map_filter_append filter_append append_Nil2)
qed


section \<open>What the loops compute\<close>

definition verdict_of :: "odt option \<Rightarrow> verdict" where
  "verdict_of v = (case v of None \<Rightarrow> Skip | Some s \<Rightarrow> Take s)"

text \<open>The result of a loop that stops as soon as \<open>n\<close> slots are found.\<close>

definition upto_limit :: "nat \<Rightarrow> odt list \<Rightarrow> bool \<times> odt list" where
  "upto_limit n xs = (n \<le> length xs, take n xs)"

lemma upto_limit_more: "n \<le> length xs \<Longrightarrow> upto_limit n (xs @ ys) = (True, take n xs)"
  by (simp add: upto_limit_def)

lemma upto_limit_less: "length xs < n \<Longrightarrow> upto_limit n xs = (False, xs)"
  by (simp add: upto_limit_def)

lemma naive_checked_add_grid:
  assumes "l < naive_new d e" "e \<le> DAY_NS" "d + 1 \<le> chrono_max_date"
  shows "naive_checked_add l GRID_NS = Some (l + GRID_NS)"
proof -
  have "l + GRID_NS < (d + 2) * DAY_NS"
    using assms(1,2) time_units unfolding naive_new_def distrib_right by linarith
  then have "naive_date (l + GRID_NS) < d + 2"
    unfolding naive_date_def using int_le_div_iff[OF time_units(2), of "d + 2" "l + GRID_NS"] by linarith
  then show ?thesis using assms(3) by (simp add: naive_checked_add_def)
qed

lemma window_loop_run:
  assumes "e \<le> DAY_NS" "d + 1 \<le> chrono_max_date"
  shows "(\<And>l. l \<in> set (grid_points ls (naive_new d e)) \<Longrightarrow> try_candidate S d e l = Inr (verdict_of (A l))) \<Longrightarrow>
    length slots < ss_limit S \<Longrightarrow>
    window_loop S d e ls slots = Inr (upto_limit (ss_limit S) (slots @ List.map_filter A (grid_points ls (naive_new d e))))"
proof (induction "nat (naive_new d e - ls)" arbitrary: ls slots rule: less_induct)
  case less
  show ?case
  proof (cases "ls < naive_new d e")
    case False
    then show ?thesis using less.prems(2)
      by (simp add: window_loop.simps grid_points_Nil List.map_filter_simps upto_limit_less)
  next
    case True
    note grid = grid_points_Cons[OF True] and add = naive_checked_add_grid[OF True assms]
    have here: "try_candidate S d e ls = Inr (verdict_of (A ls))" using less.prems(1) grid by simp
    have smaller: "nat (naive_new d e - (ls + GRID_NS)) < nat (naive_new d e - ls)" using True time_units(3) by linarith
    have rest: "l \<in> set (grid_points (ls + GRID_NS) (naive_new d e)) \<Longrightarrow> try_candidate S d e l = Inr (verdict_of (A l))" for l
      using less.prems(1) grid by simp
    note ih = less.hyps[OF smaller rest]
    show ?thesis
    proof (cases "A ls")
      case None
      then show ?thesis using ih[OF _ less.prems(2)] True here add grid
        by (subst window_loop.simps) (simp add: verdict_of_def List.map_filter_simps)
    next
      case (Some s)
      show ?thesis
      proof (cases "length (slots @ [s]) = ss_limit S")
        case limit: True
        have "upto_limit (ss_limit S) ((slots @ [s]) @ List.map_filter A (grid_points (ls + GRID_NS) (naive_new d e))) = (True, slots @ [s])"
          using limit upto_limit_more[of "ss_limit S" "slots @ [s]"] by simp
        then show ?thesis using True here grid Some limit
          by (subst window_loop.simps) (simp add: verdict_of_def List.map_filter_simps)
      next
        case False
        then have "length (slots @ [s]) < ss_limit S" using less.prems(2) by simp
        from ih[OF _ this] show ?thesis using True here add grid Some False
          by (subst window_loop.simps) (simp add: verdict_of_def List.map_filter_simps)
      qed
    qed
  qed
qed

definition window_slots :: "(working_window \<Rightarrow> int \<Rightarrow> odt option) \<Rightarrow> int \<Rightarrow> working_window list \<Rightarrow> odt list" where
  "window_slots A d ws = concat (map (\<lambda>w. List.map_filter (A w) (filter (in_window w) (day_points d))) ws)"

lemma windows_loop_run:
  assumes "d + 1 \<le> chrono_max_date"
  shows "\<forall>w \<in> set ws. 0 \<le> ww_starts_at w \<and> ww_ends_at w \<le> DAY_NS \<and>
      (\<forall>l \<in> set (day_points d). in_window w l \<longrightarrow> try_candidate S d (ww_ends_at w) l = Inr (verdict_of (A w l))) \<Longrightarrow>
    length slots < ss_limit S \<Longrightarrow>
    windows_loop S d ws slots = Inr (upto_limit (ss_limit S) (slots @ window_slots A d ws))"
proof (induction ws arbitrary: slots)
  case Nil
  then show ?case by (simp add: window_slots_def upto_limit_less)
next
  case (Cons w ws)
  let ?new = "List.map_filter (A w) (filter (in_window w) (day_points d))"
  have w: "0 \<le> ww_starts_at w" "ww_ends_at w \<le> DAY_NS"
    "\<forall>l \<in> set (day_points d). in_window w l \<longrightarrow> try_candidate S d (ww_ends_at w) l = Inr (verdict_of (A w l))"
    using Cons.prems(1) by simp_all
  note grid = window_grid[OF w(1,2), of d, folded in_window_def]
  have ih: "length slots < ss_limit S \<Longrightarrow>
      windows_loop S d ws slots = Inr (upto_limit (ss_limit S) (slots @ window_slots A d ws))" for slots
    by (rule Cons.IH) (use Cons.prems(1) in auto)
  have slots: "window_slots A d (w # ws) = ?new @ window_slots A d ws" by (simp add: window_slots_def)
  show ?case
  proof (cases "ceil_window_grid d (ww_starts_at w)")
    case None
    then have "?new = []" using grid by (simp add: List.map_filter_simps)
    then show ?thesis using None ih[OF Cons.prems(2)] slots by simp
  next
    case (Some f)
    then have g: "grid_points f (naive_new d (ww_ends_at w)) = filter (in_window w) (day_points d)" using grid by simp
    have "window_loop S d (ww_ends_at w) f slots = Inr (upto_limit (ss_limit S) (slots @ ?new))"
      unfolding g[symmetric]
      by (rule window_loop_run[OF w(2) assms _ Cons.prems(2)]) (use w(3) g in auto)
    moreover have "upto_limit (ss_limit S) (slots @ ?new @ window_slots A d ws)
        = (if ss_limit S \<le> length (slots @ ?new) then (True, take (ss_limit S) (slots @ ?new))
           else upto_limit (ss_limit S) ((slots @ ?new) @ window_slots A d ws))"
      using upto_limit_more[of "ss_limit S" "slots @ ?new" "window_slots A d ws"] by simp
    ultimately show ?thesis using Some ih[of "slots @ ?new"] slots
      by (simp add: upto_limit_def split: if_splits)
  qed
qed

lemma day_loop_run:
  assumes "d1 < chrono_max_date"
    and "\<And>d slots. d0 \<le> d \<Longrightarrow> d \<le> d1 \<Longrightarrow> length slots < ss_limit S \<Longrightarrow>
      windows_loop S d (working_windows (ss_policy S) (date_weekday d)) slots = Inr (upto_limit (ss_limit S) (slots @ B d))"
  shows "length slots < ss_limit S \<Longrightarrow>
    day_loop S d0 d1 slots = Inr (take (ss_limit S) (slots @ concat (map B [d0..d1])))"
  using assms(2)
proof (induction "nat (d1 + 1 - d0)" arbitrary: d0 slots rule: less_induct)
  case less
  show ?case
  proof (cases "d0 \<le> d1")
    case False
    then show ?thesis using less.prems(1) by (simp add: day_loop.simps)
  next
    case True
    have up: "[d0..d1] = d0 # [d0 + 1..d1]" using True by (simp add: upto_rec1)
    have w: "windows_loop S d0 (working_windows (ss_policy S) (date_weekday d0)) slots = Inr (upto_limit (ss_limit S) (slots @ B d0))"
      using less.prems(2)[of d0 slots] True less.prems(1) by simp
    have ih: "length slots < ss_limit S \<Longrightarrow> day_loop S (d0 + 1) d1 slots = Inr (take (ss_limit S) (slots @ concat (map B [d0 + 1..d1])))" for slots
      by (rule less.hyps) (use True less.prems(2) in auto)
    have "succ_opt d0 = Some (d0 + 1)" using True assms(1) by (simp add: succ_opt_def)
    then show ?thesis using w ih[of "slots @ B d0"] True up
      by (subst day_loop.simps) (simp add: upto_limit_def)
  qed
qed


section \<open>Merging busy intervals\<close>

definition interval_ok :: "busy_interval \<Rightarrow> bool" where
  "interval_ok i \<longleftrightarrow> before (bi_starts_at i) (bi_ends_at i)"

definition busy_at :: "busy_interval list \<Rightarrow> int \<Rightarrow> bool" where
  "busy_at busy t \<longleftrightarrow> (\<exists>i \<in> set busy. instant_ns (bi_starts_at i) \<le> t \<and> t < instant_ns (bi_ends_at i))"

definition separated :: "busy_interval list \<Rightarrow> bool" where
  "separated busy \<longleftrightarrow> sorted_wrt (\<lambda>i j. before (bi_ends_at i) (bi_starts_at j)) busy"

lemma busy_at_append: "busy_at (xs @ ys) t \<longleftrightarrow> busy_at xs t \<or> busy_at ys t"
  by (auto simp: busy_at_def)

lemma busy_interval_new_ok: "busy_interval_new a b = Inr i \<Longrightarrow> interval_ok i"
  by (auto simp: busy_interval_new_def interval_ok_def Let_def split: if_splits)

lemma merge_loop_spec:
  assumes "sorted (map (\<lambda>i. instant_ns (bi_starts_at i)) rest)" "\<forall>i \<in> set (merged @ rest). interval_ok i" "separated merged"
    and "merged \<noteq> [] \<longrightarrow> (\<forall>i \<in> set rest. instant_ns (bi_starts_at (last merged)) \<le> instant_ns (bi_starts_at i))"
  shows "separated (merge_loop rest merged) \<and> (\<forall>i \<in> set (merge_loop rest merged). interval_ok i)
    \<and> (\<forall>t. busy_at (merge_loop rest merged) t \<longleftrightarrow> busy_at (merged @ rest) t)"
  using assms
proof (induction rest merged rule: merge_loop.induct)
  case (1 merged)
  then show ?case by simp
next
  case (2 i rest merged)
  have i: "interval_ok i" "\<forall>j \<in> set rest. instant_ns (bi_starts_at i) \<le> instant_ns (bi_starts_at j)"
    "sorted (map (\<lambda>i. instant_ns (bi_starts_at i)) rest)" using 2(5,6) by simp_all
  show ?case
  proof (cases "merged = []")
    case True
    have "separated [i]" by (simp add: separated_def)
    then show ?thesis using 2(1)[OF True i(3)] i 2(6) True by (simp add: busy_at_def)
  next
    case False
    define ms p where "ms = butlast merged" and "p = last merged"
    have m: "merged = ms @ [p]" using False by (simp add: ms_def p_def)
    have p: "interval_ok p" "instant_ns (bi_starts_at p) \<le> instant_ns (bi_starts_at i)" "last merged = p" "butlast merged = ms"
      using 2(6,8) m by auto
    have sep: "separated ms" "\<forall>j \<in> set ms. before (bi_ends_at j) (bi_starts_at p)"
      using 2(7) m by (auto simp: separated_def sorted_wrt_append)
    show ?thesis
    proof (cases "before (bi_ends_at p) (bi_starts_at i)")
      case True
      have "\<forall>j \<in> set ms. before (bi_ends_at j) (bi_starts_at i)" using sep(2) p(2) by (auto simp: before_def)
      then have s: "separated (merged @ [i])" using sep True m by (auto simp: separated_def sorted_wrt_append)
      have "separated (merge_loop rest (merged @ [i])) \<and> (\<forall>i \<in> set (merge_loop rest (merged @ [i])). interval_ok i)
        \<and> (\<forall>t. busy_at (merge_loop rest (merged @ [i])) t \<longleftrightarrow> busy_at ((merged @ [i]) @ rest) t)"
        by (rule 2(4)) (use False p True i s 2(6) in auto)
      then show ?thesis using False p(3) True by (simp add: Let_def)
    next
      case touch: False
      show ?thesis
      proof (cases "before (bi_ends_at p) (bi_ends_at i)")
        case True
        let ?q = "p\<lparr>bi_ends_at := bi_ends_at i\<rparr>"
        have s: "separated (ms @ [?q])" using sep by (auto simp: separated_def sorted_wrt_append)
        have q: "interval_ok ?q" using p(2) i(1) by (simp add: interval_ok_def before_def)
        have starts: "\<forall>j \<in> set rest. instant_ns (bi_starts_at p) \<le> instant_ns (bi_starts_at j)" using p(2) i(2) by fastforce
        have "separated (merge_loop rest (ms @ [?q])) \<and> (\<forall>i \<in> set (merge_loop rest (ms @ [?q])). interval_ok i)
          \<and> (\<forall>t. busy_at (merge_loop rest (ms @ [?q])) t \<longleftrightarrow> busy_at ((ms @ [?q]) @ rest) t)"
          using 2(2)[OF False p(3)[symmetric] touch True, unfolded p(4), OF i(3) _ s] starts q 2(6) m by simp
        moreover have "busy_at [?q] t \<longleftrightarrow> busy_at [p] t \<or> busy_at [i] t" for t
          using touch True p i by (auto simp: busy_at_def before_def interval_ok_def)
        then have "busy_at ((ms @ [?q]) @ rest) t \<longleftrightarrow> busy_at (merged @ i # rest) t" for t
          unfolding m busy_at_append by (metis append_Cons append_Nil busy_at_append)
        ultimately show ?thesis using False p(3,4) touch True by (simp add: Let_def)
      next
        case inside: False
        have starts: "\<forall>j \<in> set rest. instant_ns (bi_starts_at p) \<le> instant_ns (bi_starts_at j)" using p(2) i(2) by fastforce
        have "separated (merge_loop rest merged) \<and> (\<forall>i \<in> set (merge_loop rest merged). interval_ok i)
          \<and> (\<forall>t. busy_at (merge_loop rest merged) t \<longleftrightarrow> busy_at (merged @ rest) t)"
          by (rule 2(3)[OF False p(3)[symmetric] touch inside i(3) _ 2(7)]) (use 2(6) starts p(3) in auto)
        moreover have "busy_at [i] t \<Longrightarrow> busy_at merged t" for t
          using touch inside p i unfolding m by (auto simp: busy_at_def before_def interval_ok_def)
        then have "busy_at (merged @ rest) t \<longleftrightarrow> busy_at (merged @ i # rest) t" for t
          unfolding busy_at_append by (metis append_Cons append_Nil busy_at_append)
        ultimately show ?thesis using False p(3) touch inside by (simp add: Let_def)
      qed
    qed
  qed
qed

text \<open>
  \<open>merge_busy_intervals\<close> computes the normal form of the two calendars: its intervals are
  non-empty, in order and separated by free time, and an instant is inside one of them exactly when
  it is inside an interval of one of the calendars.
\<close>

theorem merge_is_the_separated_union:
  assumes "\<forall>i \<in> set (outlook_busy @ google_busy). interval_ok i"
  shows "separated (merge_busy_intervals outlook_busy google_busy)
    \<and> (\<forall>i \<in> set (merge_busy_intervals outlook_busy google_busy). interval_ok i)
    \<and> (\<forall>t. busy_at (merge_busy_intervals outlook_busy google_busy) t \<longleftrightarrow> busy_at outlook_busy t \<or> busy_at google_busy t)"
proof -
  let ?s = "sort_key (\<lambda>i. instant_ns (bi_starts_at i)) (outlook_busy @ google_busy)"
  have "sorted (map (\<lambda>i. instant_ns (bi_starts_at i)) ?s)" by (rule sorted_sort_key)
  from merge_loop_spec[of ?s "[]", OF this] assms show ?thesis
    unfolding merge_busy_intervals_def
    by (simp add: separated_def[of "[]"]) (auto simp: busy_at_def)
qed

section \<open>The reference for available slots\<close>

definition free_between :: "busy_interval list \<Rightarrow> int \<Rightarrow> int \<Rightarrow> bool" where
  "free_between busy a b \<longleftrightarrow> list_all (\<lambda>i. b \<le> instant_ns (bi_starts_at i) \<or> instant_ns (bi_ends_at i) \<le> a) busy"

lemma free_between_iff:
  assumes "a < b" "\<forall>i \<in> set busy. interval_ok i"
  shows "free_between busy a b \<longleftrightarrow> (\<forall>t. a \<le> t \<and> t < b \<longrightarrow> \<not> busy_at busy t)"
proof
  assume "free_between busy a b"
  then show "\<forall>t. a \<le> t \<and> t < b \<longrightarrow> \<not> busy_at busy t" by (fastforce simp: free_between_def busy_at_def list_all_iff)
next
  assume free: "\<forall>t. a \<le> t \<and> t < b \<longrightarrow> \<not> busy_at busy t"
  have "b \<le> instant_ns (bi_starts_at i) \<or> instant_ns (bi_ends_at i) \<le> a" if "i \<in> set busy" for i
  proof (rule ccontr)
    assume o: "\<not> ?thesis"
    have "busy_at busy (max a (instant_ns (bi_starts_at i)))"
      using o that assms by (auto simp: busy_at_def interval_ok_def before_def intro!: bexI[of _ i])
    then show False using free o assms(1) by auto
  qed
  then show "free_between busy a b" by (simp add: free_between_def list_all_iff)
qed

lemma free_between_merge:
  assumes "a < b" "\<forall>i \<in> set (outlook_busy @ google_busy). interval_ok i"
  shows "free_between (merge_busy_intervals outlook_busy google_busy) a b \<longleftrightarrow> free_between (outlook_busy @ google_busy) a b"
proof -
  let ?s = "sort_key (\<lambda>i. instant_ns (bi_starts_at i)) (outlook_busy @ google_busy)"
  have "sorted (map (\<lambda>i. instant_ns (bi_starts_at i)) ?s)" by (rule sorted_sort_key)
  note merged = merge_loop_spec[of ?s "[]", OF this, folded merge_busy_intervals_def]
  have m: "\<forall>i \<in> set (merge_busy_intervals outlook_busy google_busy). interval_ok i"
    "busy_at (merge_busy_intervals outlook_busy google_busy) t \<longleftrightarrow> busy_at (outlook_busy @ google_busy) t" for t
    using merged assms(2) by (auto simp: separated_def[of "[]"] busy_at_def)
  show ?thesis unfolding free_between_iff[OF assms(1) m(1)] free_between_iff[OF assms] m(2) ..
qed


definition utc_at :: "int \<Rightarrow> odt" where "utc_at t = \<lparr>instant_ns = t, offset_secs = 0\<rparr>"

definition ends_in_window :: "tz \<Rightarrow> int \<Rightarrow> int \<Rightarrow> int \<Rightarrow> bool" where
  "ends_in_window Z date window_end e \<longleftrightarrow>
     naive_date (naive_local Z e) = date \<and> naive_time (naive_local Z e) \<le> window_end
     \<and> (case local_to_utc Z (naive_new date window_end) of Some u \<Rightarrow> e \<le> u | None \<Rightarrow> True)"

text \<open>
  The slot that starts at a local date and time, if it can be booked: it is late enough, it ends
  within the horizon and within the window it starts in, and with the buffer on both sides it
  overlaps no busy interval of either calendar.
\<close>

definition bookable :: "availability_policy \<Rightarrow> int \<Rightarrow> int \<Rightarrow> busy_interval list \<Rightarrow> int \<Rightarrow> odt option" where
  "bookable P now duration busy l =
     (case local_to_utc (ap_timezone P) l of
        None \<Rightarrow> None
      | Some t \<Rightarrow>
          if ceil_local_grid (naive_local (ap_timezone P) (now + ap_minimum_notice P)) \<le> l
             \<and> now + ap_minimum_notice P \<le> t \<and> t + duration \<le> now + ap_booking_horizon P
             \<and> (\<exists>w \<in> set (working_windows P (date_weekday (naive_date l))).
                  in_window w l \<and> ends_in_window (ap_timezone P) (naive_date l) (ww_ends_at w) (t + duration))
             \<and> free_between busy (t - ap_meeting_buffer P) (t + duration + ap_meeting_buffer P)
          then Some (utc_at t) else None)"

text \<open>The local grid points from the date of \<open>now\<close> to the date of the horizon.\<close>

definition search_grid :: "availability_policy \<Rightarrow> int \<Rightarrow> int list" where
  "search_grid P now =
     concat (map day_points [naive_date (naive_local (ap_timezone P) now)
                             ..naive_date (naive_local (ap_timezone P) (now + ap_booking_horizon P))])"

definition policy_ok :: "availability_policy \<Rightarrow> bool" where
  "policy_ok P \<longleftrightarrow> (\<forall>weekday. windows_sorted (working_windows P weekday)) \<and> 0 \<le> ap_minimum_notice P
     \<and> 0 < ap_booking_horizon P \<and> 0 \<le> ap_meeting_buffer P"

text \<open>All instants of a search are dates that the crate \<open>time\<close> supports.\<close>

definition odt_fits :: "int \<Rightarrow> bool" where
  "odt_fits t \<longleftrightarrow> odt_min_secs \<le> t div NANOS \<and> t div NANOS \<le> odt_max_secs"

definition search_fits :: "availability_policy \<Rightarrow> int \<Rightarrow> int \<Rightarrow> bool" where
  "search_fits P now duration \<longleftrightarrow>
     odt_fits (now - 3 * DAY_NS - ap_meeting_buffer P)
     \<and> odt_fits (now + ap_minimum_notice P + ap_booking_horizon P + 3 * DAY_NS + duration + ap_meeting_buffer P)"

definition tz_bounded :: "tz \<Rightarrow> bool" where
  "tz_bounded Z \<longleftrightarrow> (\<forall>t. - 86400 < tz_offset Z t \<and> tz_offset Z t < 86400)"

lemma odt_fits_between: "odt_fits a \<Longrightarrow> odt_fits b \<Longrightarrow> a \<le> t \<Longrightarrow> t \<le> b \<Longrightarrow> odt_fits t"
  unfolding odt_fits_def using zdiv_mono1[of a t NANOS] zdiv_mono1[of t b NANOS] time_units(1) by linarith

lemma checked_add_fits: "odt_fits (instant_ns d + n) \<Longrightarrow> is_utc d \<Longrightarrow> odt_checked_add_ns d n = Some (utc_at (instant_ns d + n))"
  by (cases d) (simp add: odt_checked_add_ns_def odt_fits_def local_secs_def unix_timestamp_def is_utc_def utc_at_def)

lemma odt_fits_chrono: "odt_fits t \<Longrightarrow> chrono_min_date + 2 \<le> naive_date t \<and> naive_date t + 2 \<le> chrono_max_date"
proof -
  assume f: "odt_fits t"
  have "naive_date t = t div NANOS div 86400"
    using zdiv_zmult2_eq[of 86400 t NANOS] by (simp add: naive_date_def DAY_NS_def mult.commute)
  moreover have "odt_min_secs div 86400 \<le> t div NANOS div 86400" "t div NANOS div 86400 \<le> odt_max_secs div 86400"
    using f unfolding odt_fits_def by (auto intro: zdiv_mono1)
  ultimately show ?thesis
    by (simp add: odt_min_secs_def odt_max_secs_def chrono_min_date_def chrono_max_date_def)
qed

lemma to_chrono_fits: "odt_fits (instant_ns d) \<Longrightarrow> to_chrono_utc d = Inr (instant_ns d)"
  using odt_fits_chrono[of "instant_ns d"] by (simp add: to_chrono_utc_def)

lemma from_chrono_fits: "odt_fits t \<Longrightarrow> from_chrono_utc t = Inr (utc_at t)"
proof -
  assume "odt_fits t"
  then have e: "from_unix_timestamp (t div NANOS) = Some (utc_secs (t div NANOS))"
    by (simp add: odt_fits_def)
  moreover have "t div NANOS * NANOS + t mod NANOS = t" by simp
  ultimately show ?thesis unfolding from_chrono_utc_def e ok_or_simps rbind_simps
    by (simp add: utc_at_def to_utc_def utc_secs_def)
qed

lemma utc_at_simps [simp]: "instant_ns (utc_at t) = t" "is_utc (utc_at t)" "to_utc (utc_at t) = utc_at t"
  "utc_at t = utc_at u \<longleftrightarrow> t = u"
  by (simp_all add: utc_at_def is_utc_def to_utc_def)

lemma local_to_utc_local: "tz_ok Z \<Longrightarrow> local_to_utc Z l = Some t \<Longrightarrow> naive_local Z t = l"
  unfolding tz_ok_def local_to_utc_def
  by (drule spec[of _ l]) (auto split: local_result.splits simp: min_def split: if_splits)

lemma naive_local_close: "tz_bounded Z \<Longrightarrow> t - DAY_NS < naive_local Z t \<and> naive_local Z t < t + DAY_NS"
proof -
  assume "tz_bounded Z"
  then have "- 86400 < tz_offset Z t" "tz_offset Z t < 86400" by (simp_all add: tz_bounded_def)
  then show ?thesis by (simp add: naive_local_def DAY_NS_def NANOS_def)
qed

lemma naive_date_close: "naive_date l * DAY_NS \<le> l \<and> l < naive_date l * DAY_NS + DAY_NS"
  using naive_new_eta[of l] naive_time_bounds[of l] unfolding naive_new_def by linarith

text \<open>The start of every grid point of the search is near the search interval.\<close>

lemma search_start_bounds:
  assumes Z: "tz_ok Z" "tz_bounded Z" and t: "local_to_utc Z l = Some t"
    and d: "naive_date (naive_local Z now) \<le> naive_date l" "naive_date l \<le> naive_date (naive_local Z h)"
  shows "now - 3 * DAY_NS \<le> t \<and> t \<le> h + 3 * DAY_NS"
proof -
  have l: "naive_local Z t = l" by (rule local_to_utc_local[OF Z(1) t])
  have "naive_date (naive_local Z now) * DAY_NS \<le> naive_date l * DAY_NS" "naive_date l * DAY_NS \<le> naive_date (naive_local Z h) * DAY_NS"
    using d time_units(2) by (auto intro: mult_right_mono)
  then show ?thesis
    using naive_local_close[OF Z(2), of t] naive_local_close[OF Z(2), of now] naive_local_close[OF Z(2), of h]
      naive_date_close[of l] naive_date_close[of "naive_local Z now"] naive_date_close[of "naive_local Z h"] time_units(2)
    unfolding l by linarith
qed

text \<open>What one turn decides when every instant is supported.\<close>

definition window_candidate :: "slot_search \<Rightarrow> working_window \<Rightarrow> int \<Rightarrow> odt option" where
  "window_candidate S w l =
     (case local_to_utc (ap_timezone (ss_policy S)) l of
        None \<Rightarrow> None
      | Some t \<Rightarrow>
          if ss_rounded_lead_local S \<le> l \<and> instant_ns (ss_lead_time S) \<le> t
             \<and> t + ss_duration S \<le> instant_ns (ss_horizon_end S)
             \<and> ends_in_window (ap_timezone (ss_policy S)) (naive_date l) (ww_ends_at w) (t + ss_duration S)
             \<and> free_between (ss_busy S) (t - ap_meeting_buffer (ss_policy S)) (t + ss_duration S + ap_meeting_buffer (ss_policy S))
          then Some (utc_at t) else None)"

lemma try_candidate_run:
  assumes fits: "\<And>t. local_to_utc (ap_timezone (ss_policy S)) l = Some t \<Longrightarrow>
      odt_fits t \<and> odt_fits (t + ss_duration S) \<and> odt_fits (t - ap_meeting_buffer (ss_policy S))
      \<and> odt_fits (t + ss_duration S + ap_meeting_buffer (ss_policy S))"
    and d: "naive_date l = d"
  shows "try_candidate S d (ww_ends_at w) l = Inr (verdict_of (window_candidate S w l))"
proof (cases "local_to_utc (ap_timezone (ss_policy S)) l")
  case None
  then show ?thesis by (simp add: try_candidate_def window_candidate_def verdict_of_def)
next
  case (Some t)
  note f = fits[OF Some]
  let ?e = "t + ss_duration S" and ?b = "ap_meeting_buffer (ss_policy S)"
  have "candidate_ends_within_working_window (ap_timezone (ss_policy S)) d (ww_ends_at w) (utc_at ?e)
      = Inr (ends_in_window (ap_timezone (ss_policy S)) d (ww_ends_at w) ?e)"
    using to_chrono_fits[of "utc_at ?e"] f
    by (auto simp: candidate_ends_within_working_window_def ends_in_window_def Let_def split: option.splits)
  moreover have "buffered_is_free (utc_at t) (utc_at ?e) ?b (ss_busy S) = Inr (free_between (ss_busy S) (t - ?b) (?e + ?b))"
    using checked_add_fits[of "utc_at t" "- ?b"] checked_add_fits[of "utc_at ?e" ?b] f
    by (simp add: buffered_is_free_def odt_checked_sub_ns_def free_between_def before_def not_less)
  ultimately have "acceptable S d (ww_ends_at w) (utc_at t) (utc_at ?e) =
      Inr (instant_ns (ss_lead_time S) \<le> t \<and> ?e \<le> instant_ns (ss_horizon_end S)
        \<and> ends_in_window (ap_timezone (ss_policy S)) d (ww_ends_at w) ?e \<and> free_between (ss_busy S) (t - ?b) (?e + ?b))"
    by (auto simp: acceptable_def before_def)
  then show ?thesis
    using Some from_chrono_fits[of t] checked_add_fits[of "utc_at t" "ss_duration S"] f d
    by (auto simp: try_candidate_def window_candidate_def verdict_of_def)
qed

section \<open>The search equals the reference\<close>

definition search_of :: "availability_policy \<Rightarrow> int \<Rightarrow> int \<Rightarrow> busy_interval list \<Rightarrow> busy_interval list \<Rightarrow> nat \<Rightarrow> slot_search" where
  "search_of P now duration outlook_busy google_busy limit =
     \<lparr>ss_policy = P, ss_duration = duration, ss_lead_time = utc_at (now + ap_minimum_notice P),
      ss_rounded_lead_local = ceil_local_grid (naive_local (ap_timezone P) (now + ap_minimum_notice P)),
      ss_horizon_end = utc_at (now + ap_booking_horizon P), ss_busy = merge_busy_intervals outlook_busy google_busy,
      ss_limit = limit\<rparr>"

lemma windows_sorted_unique:
  assumes "windows_sorted ws" "v \<in> set ws" "w \<in> set ws" "in_window v l" "in_window w l"
  shows "v = w"
  using assms
proof (induction ws)
  case Nil
  then show ?case by simp
next
  case (Cons x ws)
  have sorted: "windows_sorted ws" using Cons.prems(1) by (simp add: windows_sorted_def)
  have later: "u \<in> set ws \<Longrightarrow> in_window u l \<Longrightarrow> \<not> in_window x l" for u
    using in_later_window[OF Cons.prems(1), of u l] by (auto simp: in_window_def[of x])
  show ?case using Cons.IH[OF sorted] Cons.prems(2-5) later by auto
qed

lemma bookable_by_window:
  assumes ws: "windows_sorted (working_windows P (date_weekday (naive_date l)))"
    and busy: "0 < duration" "0 \<le> ap_meeting_buffer P" "\<forall>i \<in> set (outlook_busy @ google_busy). interval_ok i"
  shows "Option.bind (find (\<lambda>w. in_window w l) (working_windows P (date_weekday (naive_date l))))
      (\<lambda>w. window_candidate (search_of P now duration outlook_busy google_busy limit) w l)
    = bookable P now duration (outlook_busy @ google_busy) l"
proof -
  let ?ws = "working_windows P (date_weekday (naive_date l))"
  have free: "free_between (merge_busy_intervals outlook_busy google_busy) (t - ap_meeting_buffer P) (t + duration + ap_meeting_buffer P)
      \<longleftrightarrow> free_between (outlook_busy @ google_busy) (t - ap_meeting_buffer P) (t + duration + ap_meeting_buffer P)" for t
    by (rule free_between_merge[OF _ busy(3)]) (use busy in linarith)
  show ?thesis
  proof (cases "find (\<lambda>w. in_window w l) ?ws")
    case None
    then have "\<not> (\<exists>w \<in> set ?ws. in_window w l)" by (auto simp: find_None_iff)
    then show ?thesis using None by (auto simp: bookable_def split: option.splits)
  next
    case (Some w)
    then have w: "w \<in> set ?ws" "in_window w l" using find_Some_mem by fastforce+
    have "(\<exists>v \<in> set ?ws. in_window v l \<and> Q v) \<longleftrightarrow> Q w" for Q using w windows_sorted_unique[OF ws _ w(1) _ w(2)] by blast
    then show ?thesis unfolding Some
      by (auto simp: bookable_def window_candidate_def search_of_def free split: option.splits)
  qed
qed

lemma day_slots:
  assumes P: "policy_ok P" and busy: "0 < duration" "\<forall>i \<in> set (outlook_busy @ google_busy). interval_ok i"
  shows "window_slots (window_candidate (search_of P now duration outlook_busy google_busy limit)) d
      (working_windows P (date_weekday d)) = List.map_filter (bookable P now duration (outlook_busy @ google_busy)) (day_points d)"
proof -
  have sorted: "sorted_wrt (\<lambda>a b. naive_time a < naive_time b) (day_points d)"
  proof (rule sorted_wrt_mono_rel[OF _ day_points_sorted])
    fix a b assume "a \<in> set (day_points d)" "b \<in> set (day_points d)" "a < b"
    then show "naive_time a < naive_time b"
      using day_points_split naive_new_eta[of a] naive_new_eta[of b] unfolding naive_new_def by fastforce
  qed
  have ws: "windows_sorted (working_windows P (date_weekday d))" using P by (simp add: policy_ok_def)
  show ?thesis unfolding window_slots_def windows_points[OF ws sorted]
  proof (rule map_filter_cong)
    fix l assume "l \<in> set (day_points d)"
    then have "naive_date l = d" using day_points_split by blast
    then show "Option.bind (find (\<lambda>w. in_window w l) (working_windows P (date_weekday d)))
        (\<lambda>w. window_candidate (search_of P now duration outlook_busy google_busy limit) w l)
      = bookable P now duration (outlook_busy @ google_busy) l"
      using bookable_by_window[of P l duration] ws P busy by (simp add: policy_ok_def)
  qed
qed

lemma map_filter_concat: "List.map_filter f (concat xss) = concat (map (List.map_filter f) xss)"
  by (induction xss) (simp_all add: map_filter_append List.map_filter_simps)

lemma available_slots_run:
  assumes P: "policy_ok P" and Z: "tz_ok (ap_timezone P)" "tz_bounded (ap_timezone P)"
    and busy: "\<forall>i \<in> set (outlook_busy @ google_busy). interval_ok i"
    and dur: "0 < duration" and fits: "search_fits P (instant_ns now) duration"
  shows "available_slots P now duration outlook_busy google_busy limit =
    Inr (take limit (List.map_filter (bookable P (instant_ns now) duration (outlook_busy @ google_busy))
                       (search_grid P (instant_ns now))))"
proof (cases "limit = 0")
  case True
  then show ?thesis using dur by (simp add: available_slots_def)
next
  case False
  let ?n = "instant_ns now" and ?Z = "ap_timezone P" and ?b = "ap_meeting_buffer P"
  let ?S = "search_of P ?n duration outlook_busy google_busy limit"
  let ?d0 = "naive_date (naive_local ?Z ?n)" and ?d1 = "naive_date (naive_local ?Z (?n + ap_booking_horizon P))"
  have pos: "0 \<le> ap_minimum_notice P" "0 < ap_booking_horizon P" "0 \<le> ?b" using P by (simp_all add: policy_ok_def)
  have f: "odt_fits t" if "?n - 3 * DAY_NS - ?b \<le> t"
    "t \<le> ?n + ap_minimum_notice P + ap_booking_horizon P + 3 * DAY_NS + duration + ?b" for t
    using odt_fits_between[OF _ _ that] fits by (simp add: search_fits_def)
  have f1: "odt_fits ?n" "odt_fits (?n + ap_booking_horizon P)" "odt_fits (?n + ap_minimum_notice P)"
    by (rule f; use pos dur time_units in linarith)+
  have run: "available_slots P now duration outlook_busy google_busy limit = day_loop ?S ?d0 ?d1 []"
    using False dur checked_add_fits[of "to_utc now"] to_chrono_fits[of "to_utc now"] f1
      to_chrono_fits[of "utc_at (?n + ap_booking_horizon P)"] to_chrono_fits[of "utc_at (?n + ap_minimum_notice P)"]
    by (simp add: available_slots_def search_of_def Let_def)
  have dates: "naive_date l + 1 \<le> chrono_max_date" if "naive_date l \<le> ?d1" for l
  proof -
    have "naive_local ?Z (?n + ap_booking_horizon P) < ?n + ap_booking_horizon P + DAY_NS"
      using naive_local_close[OF Z(2)] by blast
    then have "?d1 \<le> naive_date (?n + ap_booking_horizon P + DAY_NS)"
      unfolding naive_date_def using time_units(2) by (intro zdiv_mono1) auto
    moreover have "odt_fits (?n + ap_booking_horizon P + DAY_NS)" by (rule f) (use pos dur time_units in linarith)+
    ultimately show ?thesis using odt_fits_chrono that by fastforce
  qed
  have cand: "try_candidate ?S d (ww_ends_at w) l = Inr (verdict_of (window_candidate ?S w l))"
    if "?d0 \<le> d" "d \<le> ?d1" "l \<in> set (day_points d)" for d w l
  proof (rule try_candidate_run)
    show d: "naive_date l = d" using day_points_split that(3) by blast
    fix t assume "local_to_utc (ap_timezone (ss_policy ?S)) l = Some t"
    then have "?n - 3 * DAY_NS \<le> t \<and> t \<le> ?n + ap_booking_horizon P + 3 * DAY_NS"
      using search_start_bounds[OF Z] d that(1,2) by (simp add: search_of_def)
    then show "odt_fits t \<and> odt_fits (t + ss_duration ?S) \<and> odt_fits (t - ap_meeting_buffer (ss_policy ?S))
        \<and> odt_fits (t + ss_duration ?S + ap_meeting_buffer (ss_policy ?S))"
      using pos dur by (auto simp: search_of_def intro!: f)
  qed
  have day: "windows_loop ?S d (working_windows (ss_policy ?S) (date_weekday d)) slots = Inr (upto_limit (ss_limit ?S)
      (slots @ List.map_filter (bookable P ?n duration (outlook_busy @ google_busy)) (day_points d)))"
    if "?d0 \<le> d" "d \<le> ?d1" "length slots < ss_limit ?S" for d slots
  proof -
    have "d + 1 \<le> chrono_max_date" using dates[of "naive_new d 0"] that(2) naive_new_split[of 0 d] time_units(2) by simp
    moreover have "windows_sorted (working_windows P (date_weekday d))" using P by (simp add: policy_ok_def)
    ultimately have "windows_loop ?S d (working_windows P (date_weekday d)) slots = Inr (upto_limit (ss_limit ?S)
        (slots @ window_slots (window_candidate ?S) d (working_windows P (date_weekday d))))"
      using cand that by (intro windows_loop_run) (auto simp: windows_sorted_def)
    then show ?thesis using day_slots[OF P dur busy] by (simp add: search_of_def)
  qed
  have last: "?d1 < chrono_max_date" using dates[of "naive_local ?Z (?n + ap_booking_horizon P)"] by simp
  have "day_loop ?S ?d0 ?d1 [] = Inr (take (ss_limit ?S) ([] @ concat
      (map (\<lambda>d. List.map_filter (bookable P ?n duration (outlook_busy @ google_busy)) (day_points d)) [?d0..?d1])))"
    by (rule day_loop_run[OF last day]) (use False in \<open>simp_all add: search_of_def\<close>)
  then show ?thesis unfolding run by (simp add: search_of_def search_grid_def map_filter_concat comp_def)
qed

text \<open>
  C4. \<open>available_slots\<close> returns the first \<open>limit\<close> bookable slots of the local fifteen-minute grid, in
  the order of their local starts, from today to the day of the horizon. Every bookable grid point
  counts (the nested loops over dates, windows and starts miss none), and the search always ends
  with a result when its instants are supported dates.
\<close>

theorem available_slots_are_the_first_bookable:
  assumes P: "policy_ok P" and Z: "tz_ok (ap_timezone P)" "tz_bounded (ap_timezone P)"
    and busy: "\<forall>i \<in> set (outlook_busy @ google_busy). interval_ok i"
    and dur: "0 < duration" and fits: "search_fits P (instant_ns now) duration"
  shows "available_slots P now duration outlook_busy google_busy limit =
    Inr (take limit (List.map_filter (bookable P (instant_ns now) duration (outlook_busy @ google_busy))
                       (search_grid P (instant_ns now))))"
  using available_slots_run[OF assms] .


section \<open>Policies\<close>

lemma index_windows_nth:
  "weekday_index d < length indexed \<Longrightarrow> set (index_windows ws indexed ! weekday_index d)
     \<subseteq> set (indexed ! weekday_index d) \<union> (\<Union>p \<in> set ws. set (snd p))"
proof (induction ws indexed rule: index_windows.induct)
  case (1 indexed)
  then show ?case by simp
next
  case (2 weekday day_windows rest indexed)
  have "weekday_index d < length (indexed[weekday_index weekday := indexed ! weekday_index weekday @ sort_key ww_starts_at day_windows])"
    using 2(2) by simp
  from 2(1)[OF this] 2(2) show ?case by (cases "weekday_index d = weekday_index weekday") auto
qed

lemma index_windows_length: "length (index_windows ws indexed) = length indexed"
  by (induction ws indexed rule: index_windows.induct) simp_all

lemma weekday_index_less: "weekday_index d < 7"
  by (cases d) simp_all

definition window_ok :: "working_window \<Rightarrow> bool" where
  "window_ok w \<longleftrightarrow> 0 \<le> ww_starts_at w \<and> ww_starts_at w < ww_ends_at w \<and> ww_ends_at w < DAY_NS"

lemma no_overlap_sorted:
  assumes "\<not> windows_overlap ws" "\<forall>w \<in> set ws. window_ok w"
  shows "windows_sorted ws"
proof -
  have "sorted_wrt (\<lambda>v w. ww_ends_at v \<le> ww_starts_at w) ws"
    using assms
  proof (induction ws rule: windows_overlap.induct)
    case (1 v w ws)
    then have rest: "sorted_wrt (\<lambda>v w. ww_ends_at v \<le> ww_starts_at w) (w # ws)" by simp
    have vw: "ww_ends_at v \<le> ww_starts_at w" "window_ok w" using 1(2,3) by auto
    have "ww_ends_at v \<le> ww_starts_at x" if "x \<in> set ws" for x
    proof -
      have "ww_ends_at w \<le> ww_starts_at x" using rest that by simp
      then show ?thesis using vw by (simp add: window_ok_def)
    qed
    then show ?case using rest vw by simp
  qed simp_all
  then show ?thesis using assms(2) by (simp add: windows_sorted_def window_ok_def)
qed

text \<open>The constructor establishes the invariant of a policy.\<close>

lemma policy_new_ok:
  assumes new: "policy_new parse_tz timezone windows notice horizon buffer = Inr P"
    and ws: "\<forall>p \<in> set windows. \<forall>w \<in> set (snd p). window_ok w"
  shows "policy_ok P \<and> parse_tz (str_trim timezone) = Some (ap_timezone P)
    \<and> ap_minimum_notice P = notice \<and> ap_booking_horizon P = horizon \<and> ap_meeting_buffer P = buffer"
proof -
  let ?i = "map (sort_key ww_starts_at) (index_windows windows (replicate 7 []))"
  have P: "\<not> list_ex windows_overlap ?i" "ap_windows P = ?i" "0 \<le> notice" "0 < horizon" "0 \<le> buffer"
    "parse_tz (str_trim timezone) = Some (ap_timezone P)" "ap_minimum_notice P = notice" "ap_booking_horizon P = horizon"
    "ap_meeting_buffer P = buffer"
    using new by (auto simp: policy_new_def rbind_Inr_iff Let_def split: if_splits)
  have "windows_sorted (working_windows P d)" for d
  proof (rule no_overlap_sorted)
    have d: "weekday_index d < length (index_windows windows (replicate 7 []))"
      using weekday_index_less by (simp add: index_windows_length)
    then have w: "working_windows P d = sort_key ww_starts_at (index_windows windows (replicate 7 []) ! weekday_index d)"
      by (simp add: working_windows_def P(2))
    show "\<not> windows_overlap (working_windows P d)"
      using P(1) d w by (metis list_ex_iff length_map nth_map nth_mem)
    show "\<forall>w \<in> set (working_windows P d). window_ok w"
      using index_windows_nth[of d "replicate 7 []" windows] weekday_index_less[of d] ws unfolding w by fastforce
  qed
  then show ?thesis using P by (simp add: policy_ok_def)
qed

lemma map_filter_mem: "y \<in> set (List.map_filter f xs) \<longleftrightarrow> (\<exists>x \<in> set xs. f x = Some y)"
  by (induction xs) (auto simp: List.map_filter_simps split: option.splits)

text \<open>
  C16. No double booking: a slot that \<open>available_slots\<close> returns for a policy made by its constructor
  respects the notice and the horizon, starts on the local grid and inside a working window of its
  local weekday, ends inside the same window, and at no instant from the buffer before it to the
  buffer after it is the owner busy in either calendar.
\<close>

theorem returned_slots_are_free:
  assumes new: "policy_new parse_tz timezone windows notice horizon buffer = Inr P"
    and ws: "\<forall>p \<in> set windows. \<forall>w \<in> set (snd p). window_ok w"
    and Z: "tz_ok (ap_timezone P)" "tz_bounded (ap_timezone P)"
    and busy: "\<forall>i \<in> set (outlook_busy @ google_busy). interval_ok i"
    and dur: "0 < duration" and fits: "search_fits P (instant_ns now) duration"
    and slots: "available_slots P now duration outlook_busy google_busy limit = Inr slots" and s: "s \<in> set slots"
  shows "let t = instant_ns s; l = naive_local (ap_timezone P) t; e = naive_local (ap_timezone P) (t + duration) in
      length slots \<le> limit \<and> is_utc s \<and> instant_ns now + notice \<le> t \<and> t + duration \<le> instant_ns now + horizon
      \<and> GRID_NS dvd naive_time l
      \<and> (\<exists>w \<in> set (working_windows P (date_weekday (naive_date l))). ww_starts_at w \<le> naive_time l
           \<and> naive_date e = naive_date l \<and> naive_time e \<le> ww_ends_at w)
      \<and> (\<forall>x. t - buffer \<le> x \<and> x < t + duration + buffer \<longrightarrow> \<not> busy_at outlook_busy x \<and> \<not> busy_at google_busy x)"
proof -
  note P = policy_new_ok[OF new ws]
  have eq: "slots = take limit (List.map_filter (bookable P (instant_ns now) duration (outlook_busy @ google_busy))
                       (search_grid P (instant_ns now)))"
    using available_slots_run[OF _ Z busy dur fits] P slots by simp
  then obtain l where l: "l \<in> set (search_grid P (instant_ns now))"
    "bookable P (instant_ns now) duration (outlook_busy @ google_busy) l = Some s"
    using s in_set_takeD map_filter_mem by metis
  obtain t where t: "local_to_utc (ap_timezone P) l = Some t" "s = utc_at t" "instant_ns now + notice \<le> t"
    "t + duration \<le> instant_ns now + horizon"
    "\<exists>w \<in> set (working_windows P (date_weekday (naive_date l))).
                  in_window w l \<and> ends_in_window (ap_timezone P) (naive_date l) (ww_ends_at w) (t + duration)"
    "free_between (outlook_busy @ google_busy) (t - buffer) (t + duration + buffer)"
    using l(2) P by (auto simp: bookable_def split: option.splits if_splits)
  have b: "0 \<le> buffer" using P by (auto simp: policy_ok_def)
  have local: "naive_local (ap_timezone P) t = l" by (rule local_to_utc_local[OF Z(1) t(1)])
  have grid: "GRID_NS dvd naive_time l" using l(1) day_points_split by (fastforce simp: search_grid_def)
  have "\<forall>x. t - buffer \<le> x \<and> x < t + duration + buffer \<longrightarrow> \<not> busy_at (outlook_busy @ google_busy) x"
    using t(6) free_between_iff[OF _ busy, of "t - buffer" "t + duration + buffer"] b dur by simp
  then show ?thesis using t local grid eq
    by (auto simp: Let_def busy_at_append in_window_def ends_in_window_def)
qed

section \<open>The hypotheses can hold\<close>

definition utc_zone :: tz where
  "utc_zone = \<lparr>tz_offset = (\<lambda>_. 0), tz_from_local = LocalSingle\<rparr>"

lemma utc_zone_ok: "tz_ok utc_zone" "tz_bounded utc_zone"
  by (auto simp: tz_ok_def tz_bounded_def utc_zone_def naive_local_def)

definition hm :: "int \<Rightarrow> int \<Rightarrow> int" where "hm h m = (h * 3600 + m * 60) * NANOS"

definition demo_windows :: "(weekday \<times> working_window list) list" where
  "demo_windows = [(Thu, [\<lparr>ww_starts_at = hm 8 10, ww_ends_at = hm 9 0\<rparr>, \<lparr>ww_starts_at = hm 14 0, ww_ends_at = hm 15 0\<rparr>])]"

definition demo_policy :: availability_policy where
  "demo_policy = \<lparr>ap_timezone_name = lit ''UTC'', ap_timezone = utc_zone, ap_windows = [[], [], [], snd (hd demo_windows), [], [], []],
     ap_minimum_notice = hm 1 0, ap_booking_horizon = hm 20 0, ap_meeting_buffer = hm 0 5\<rparr>"

definition demo_busy :: "busy_interval list" where
  "demo_busy = [\<lparr>bi_starts_at = utc_at (hm 8 0), bi_ends_at = utc_at (hm 8 20)\<rparr>]"

lemma demo_policy_new: "policy_new (\<lambda>_. Some utc_zone) (lit ''UTC'') demo_windows (hm 1 0) (hm 20 0) (hm 0 5) = Inr demo_policy"
proof -
  have "str_trim (lit ''UTC'') = lit ''UTC''" by code_simp
  moreover have "map (sort_key ww_starts_at) (index_windows demo_windows (replicate 7 [])) = [[], [], [], snd (hd demo_windows), [], [], []]"
    by (simp add: demo_windows_def hm_def NANOS_def eval_nat_numeral)
  ultimately show ?thesis
    by (simp add: policy_new_def demo_policy_def del: lit_simps) (simp add: demo_windows_def hm_def NANOS_def)
qed

lemma demo_policy_facts: "policy_ok demo_policy" "ap_timezone demo_policy = utc_zone"
  "\<forall>p \<in> set demo_windows. \<forall>w \<in> set (snd p). window_ok w" "\<forall>i \<in> set (demo_busy @ []). interval_ok i"
  "search_fits demo_policy (instant_ns (utc_at 0)) (hm 0 20)"
proof -
  show ws: "\<forall>p \<in> set demo_windows. \<forall>w \<in> set (snd p). window_ok w"
    by (simp add: demo_windows_def window_ok_def hm_def NANOS_def DAY_NS_def)
  show "policy_ok demo_policy" using policy_new_ok[OF demo_policy_new ws] by blast
  show "ap_timezone demo_policy = utc_zone" by (simp add: demo_policy_def)
  show "\<forall>i \<in> set (demo_busy @ []). interval_ok i" by (simp add: demo_busy_def interval_ok_def before_def hm_def NANOS_def)
  show "search_fits demo_policy (instant_ns (utc_at 0)) (hm 0 20)"
    by (simp add: search_fits_def odt_fits_def demo_policy_def hm_def NANOS_def DAY_NS_def odt_min_secs_def odt_max_secs_def)
qed

lemma demo_search: "take 2 (List.map_filter (bookable demo_policy 0 (hm 0 20) (demo_busy @ [])) (search_grid demo_policy 0))
    = [utc_at (hm 8 30), utc_at (hm 14 0)]"
  by code_simp

theorem available_slots_are_the_first_bookable_witness:
  "available_slots demo_policy (utc_at 0) (hm 0 20) demo_busy [] 2 = Inr [utc_at (hm 8 30), utc_at (hm 14 0)]"
proof -
  have "0 < hm 0 20" by (simp add: hm_def NANOS_def)
  from available_slots_are_the_first_bookable[OF demo_policy_facts(1) _ _ demo_policy_facts(4) this demo_policy_facts(5)]
  show ?thesis using demo_policy_facts(2) utc_zone_ok demo_search by simp
qed

theorem merge_is_the_separated_union_witness: "separated (merge_busy_intervals demo_busy demo_busy)"
  using merge_is_the_separated_union[of demo_busy demo_busy] demo_policy_facts(4) by simp

theorem returned_slots_are_free_witness:
  "utc_at (hm 8 30) \<in> set [utc_at (hm 8 30), utc_at (hm 14 0)] \<and> \<not> busy_at demo_busy (hm 8 30 - hm 0 5)"
proof -
  have d: "0 < hm 0 20" "hm 8 30 - hm 0 5 < hm 8 30 + hm 0 20 + hm 0 5" by (simp_all add: hm_def NANOS_def)
  have run: "available_slots demo_policy (utc_at 0) (hm 0 20) demo_busy [] 2 = Inr [utc_at (hm 8 30), utc_at (hm 14 0)]"
    using available_slots_run[OF demo_policy_facts(1) _ _ demo_policy_facts(4) d(1) demo_policy_facts(5)]
      demo_policy_facts(2) utc_zone_ok demo_search by simp
  show ?thesis
    using returned_slots_are_free[OF demo_policy_new demo_policy_facts(3) _ _ demo_policy_facts(4) d(1) demo_policy_facts(5) run,
        of "utc_at (hm 8 30)"] demo_policy_facts(2) utc_zone_ok d(2) by (auto simp: Let_def)
qed

end
