(* ===== verification/Sigv4.thy ===== *)
theory Sigv4
  imports Rust_Text "HOL-Library.Multiset" "HOL-Library.Product_Lexorder"
begin

text \<open>
  \<open>src/pa/sigv4.rs\<close>: AWS Signature Version 4 for S3. SHA-256 and HMAC-SHA-256 (crate \<open>ring\<close>) are the
  parameters \<open>sha\<close> and \<open>hmac\<close>. The bytes of a text are the numbers \<open>utf8\<close> lists; nibbles are
  computed with \<open>div\<close> and \<open>mod\<close>, which no byte operation of the code overflows.
\<close>

section \<open>Data and errors\<close>

datatype sigv4_error =
    InvalidMethod
  | InvalidUri
  | InvalidTimestamp
  | InvalidRegion
  | InvalidCredential
  | InvalidHeader
  | DuplicateHeader
  | MissingRequiredHeader
  | PayloadHashMismatch
  | UnsupportedHeader
  | Crypto

type_synonym 'a sigv4_result = "(sigv4_error, 'a) result"

definition SERVICE :: str where "SERVICE = lit ''s3''"
definition ALGORITHM :: str where "ALGORITHM = lit ''AWS4-HMAC-SHA256''"
definition TERMINATOR :: str where "TERMINATOR = lit ''aws4_request''"
definition MAX_REGION_LEN :: nat where "MAX_REGION_LEN = 64"
definition MIN_ACCESS_KEY_LEN :: nat where "MIN_ACCESS_KEY_LEN = 16"
definition MAX_ACCESS_KEY_LEN :: nat where "MAX_ACCESS_KEY_LEN = 128"
definition MAX_SECRET_LEN :: nat where "MAX_SECRET_LEN = 4096"
definition MAX_SESSION_TOKEN_LEN :: nat where "MAX_SESSION_TOKEN_LEN = 4096"

type_synonym header = "str \<times> str"

record aws_request =
  ar_method :: str
  ar_uri :: str
  ar_headers :: "header list"
  ar_payload_sha256 :: str
  ar_region :: str

record aws_credentials =
  ac_access_key_id :: str
  ac_secret_access_key :: "u8 list"
  ac_session_token :: "str option"

record aws_signed_request =
  as_authorization :: str
  as_signed_headers :: str
  as_amz_date :: str

section \<open>Dates, regions and credentials\<close>

definition two_digits :: "int list \<Rightarrow> int" where
  "two_digits bytes = (bytes ! 0 - 48) * 10 + bytes ! 1 - 48"

definition four_digits :: "int list \<Rightarrow> int" where
  "four_digits bytes =
     (bytes ! 0 - 48) * 1000 + (bytes ! 1 - 48) * 100 + (bytes ! 2 - 48) * 10 + (bytes ! 3 - 48)"

definition days_in_month :: "int \<Rightarrow> int \<Rightarrow> int" where
  "days_in_month year month =
     (if month = 2 then (if year mod 400 = 0 \<or> (year mod 4 = 0 \<and> year mod 100 \<noteq> 0) then 29 else 28)
      else if month \<in> {4, 6, 9, 11} then 30 else 31)"

definition validate_scope_date :: "str \<Rightarrow> unit sigv4_result" where
  "validate_scope_date date =
     (let bytes = utf8 date in
      if length bytes \<noteq> 8 \<or> \<not> list_all is_ascii_digit bytes then Inl InvalidTimestamp
      else let year = four_digits (take 4 bytes); month = two_digits (take 2 (drop 4 bytes));
               day = two_digits (take 2 (drop 6 bytes)) in
        if month = 0 \<or> month > 12 \<or> day = 0 \<or> day > days_in_month year month then Inl InvalidTimestamp
        else Inr ())"

definition validate_timestamp :: "str \<Rightarrow> str sigv4_result" where
  "validate_timestamp timestamp =
     (let bytes = utf8 timestamp in
      if length bytes \<noteq> 16 \<or> bytes ! 8 \<noteq> 84 \<or> bytes ! 15 \<noteq> 90 \<or> \<not> list_all is_ascii_digit (take 8 bytes)
         \<or> \<not> list_all is_ascii_digit (take 6 (drop 9 bytes))
      then Inl InvalidTimestamp
      else let hour = two_digits (take 2 (drop 9 bytes)); minute = two_digits (take 2 (drop 11 bytes));
               second = two_digits (take 2 (drop 13 bytes)) in
        if hour > 23 \<or> minute > 59 \<or> second > 59 then Inl InvalidTimestamp
        else rbind (validate_scope_date (take 8 timestamp)) (\<lambda>_. Inr (take 8 timestamp)))"

definition is_region_byte :: "int \<Rightarrow> bool" where
  "is_region_byte b \<longleftrightarrow> is_ascii_lowercase b \<or> is_ascii_digit b \<or> b = 45"

definition validate_region :: "str \<Rightarrow> unit sigv4_result" where
  "validate_region region =
     (if region = [] \<or> str_len region > MAX_REGION_LEN \<or> \<not> all_bytes is_region_byte region
      then Inl InvalidRegion else Inr ())"

definition is_access_key_id :: "str \<Rightarrow> bool" where
  "is_access_key_id v \<longleftrightarrow> v \<noteq> [] \<and> str_len v \<ge> MIN_ACCESS_KEY_LEN \<and> str_len v \<le> MAX_ACCESS_KEY_LEN
     \<and> all_bytes is_ascii_alphanumeric v"

definition is_bounded_ascii_identifier :: "str \<Rightarrow> nat \<Rightarrow> bool" where
  "is_bounded_ascii_identifier v max_len \<longleftrightarrow> v \<noteq> [] \<and> str_len v \<le> max_len
     \<and> all_bytes (\<lambda>b. is_ascii b \<and> 33 \<le> b \<and> b \<le> 126) v"

definition validate_credentials :: "aws_credentials \<Rightarrow> unit sigv4_result" where
  "validate_credentials c =
     (if \<not> is_access_key_id (ac_access_key_id c) \<or> ac_secret_access_key c = []
         \<or> length (ac_secret_access_key c) > MAX_SECRET_LEN then Inl InvalidCredential
      else (case ac_session_token c of
              Some token \<Rightarrow> if \<not> is_bounded_ascii_identifier token MAX_SESSION_TOKEN_LEN then Inl InvalidCredential else Inr ()
            | None \<Rightarrow> Inr ()))"

section \<open>Headers\<close>

definition token_punctuation :: "int set" where
  "token_punctuation = {33, 35, 36, 37, 38, 39, 42, 43, 45, 46, 94, 95, 96, 124, 126}"

definition is_method_byte :: "int \<Rightarrow> bool" where
  "is_method_byte b \<longleftrightarrow> is_ascii_alphanumeric b \<or> b \<in> token_punctuation"

definition is_header_name_byte :: "int \<Rightarrow> bool" where
  "is_header_name_byte b \<longleftrightarrow> is_ascii_alphanumeric b \<or> b \<in> token_punctuation"

definition canonical_method :: "str \<Rightarrow> str sigv4_result" where
  "canonical_method m =
     (if m = [] \<or> str_len m > 64 \<or> \<not> list_all is_ascii m \<or> \<not> all_bytes is_method_byte m
      then Inl InvalidMethod else Inr m)"

definition normalize_header_name :: "str \<Rightarrow> str sigv4_result" where
  "normalize_header_name name =
     (if name = [] \<or> \<not> list_all is_ascii name \<or> \<not> all_bytes is_header_name_byte name then Inl InvalidHeader
      else let normalized = to_ascii_lowercase name in
        if normalized = lit ''authorization'' then Inl UnsupportedHeader else Inr normalized)"

fun collapse :: "str \<Rightarrow> str \<Rightarrow> bool \<Rightarrow> str" where
  "collapse [] normalized pending_space = normalized"
| "collapse (c # cs) normalized pending_space =
     (if c = 32 \<or> c = 9 then collapse cs normalized (if normalized \<noteq> [] then True else pending_space)
      else if pending_space then collapse cs (normalized @ [32] @ [c]) False
      else collapse cs (normalized @ [c]) pending_space)"

definition normalize_header_value :: "str \<Rightarrow> str sigv4_result" where
  "normalize_header_value v =
     (if list_ex (\<lambda>c. is_control c \<and> c \<noteq> 32 \<and> c \<noteq> 9) v then Inl InvalidHeader else Inr (collapse v [] False))"

record canonical_header =
  ch_name :: str
  ch_value :: str

fun adjacent_names :: "canonical_header list \<Rightarrow> bool" where
  "adjacent_names (g # h # hs) \<longleftrightarrow> ch_name g = ch_name h \<or> adjacent_names (h # hs)"
| "adjacent_names _ \<longleftrightarrow> False"

definition find_header :: "str \<Rightarrow> canonical_header list \<Rightarrow> canonical_header option" where
  "find_header name hs = find (\<lambda>h. ch_name h = name) hs"

definition canonical_headers :: "header list \<Rightarrow> str \<Rightarrow> canonical_header list sigv4_result" where
  "canonical_headers headers payload_sha256 =
     rbind (rmap (\<lambda>(name, v). rbind (normalize_header_name name) (\<lambda>name.
              rbind (normalize_header_value v) (\<lambda>v. Inr \<lparr>ch_name = name, ch_value = v\<rparr>))) headers) (\<lambda>normalized.
     let normalized = sort_key ch_name normalized in
     rbind (ensure (\<not> adjacent_names normalized) DuplicateHeader) (\<lambda>_.
     rbind (ok_or MissingRequiredHeader (find_header (lit ''host'') normalized)) (\<lambda>host.
     rbind (ensure (ch_value host \<noteq> []) InvalidHeader) (\<lambda>_.
     rbind (ok_or MissingRequiredHeader (find_header (lit ''x-amz-content-sha256'') normalized)) (\<lambda>payload_header.
     rbind (ensure (ch_value payload_header = payload_sha256) PayloadHashMismatch) (\<lambda>_.
     rbind (ok_or MissingRequiredHeader (find_header (lit ''x-amz-date'') normalized)) (\<lambda>date_header.
     rbind (validate_timestamp (ch_value date_header)) (\<lambda>_. Inr normalized))))))))"

definition validate_session_token_header :: "header list \<Rightarrow> str option \<Rightarrow> unit sigv4_result" where
  "validate_session_token_header headers expected =
     (let matching = filter (\<lambda>(name, _). eq_ignore_ascii_case name (lit ''x-amz-security-token'')) headers in
      case expected of
        None \<Rightarrow> if matching \<noteq> [] then Inl InvalidCredential else Inr ()
      | Some expected \<Rightarrow>
          (case matching of
             [] \<Rightarrow> Inl MissingRequiredHeader
           | [(_, v)] \<Rightarrow> rbind (normalize_header_value v) (\<lambda>v. if v \<noteq> expected then Inl InvalidCredential else Inr ())
           | _ \<Rightarrow> Inl DuplicateHeader))"

section \<open>The URI\<close>

definition is_hex_byte :: "int \<Rightarrow> bool" where
  "is_hex_byte b \<longleftrightarrow> is_ascii_digit b \<or> (97 \<le> b \<and> b \<le> 102) \<or> (65 \<le> b \<and> b \<le> 70)"

definition hex_value :: "int \<Rightarrow> int" where
  "hex_value b = (if 48 \<le> b \<and> b \<le> 57 then b - 48 else if 97 \<le> b \<and> b \<le> 102 then b - 97 + 10 else b - 65 + 10)"

definition is_uri_unreserved :: "int \<Rightarrow> bool" where
  "is_uri_unreserved b \<longleftrightarrow> is_ascii_alphanumeric b \<or> b \<in> {45, 46, 95, 126}"

definition HEX :: "int \<Rightarrow> rchar" where
  "HEX n = (if n < 10 then 48 + n else 55 + n)"

definition escape :: "int \<Rightarrow> str" where
  "escape b = [37, HEX (b div 16), HEX (b mod 16)]"

fun percent_encode :: "int list \<Rightarrow> bool \<Rightarrow> bool \<Rightarrow> str" where
  "percent_encode [] preserve_slash preserve_valid_escapes = []"
| "percent_encode (b # bs) preserve_slash preserve_valid_escapes =
     (case bs of
        h # l # rest \<Rightarrow>
          (if preserve_valid_escapes \<and> b = 37 \<and> is_hex_byte h \<and> is_hex_byte l
           then let decoded = hex_value h * 16 + hex_value l in
             (if is_uri_unreserved decoded then [decoded] else escape decoded)
             @ percent_encode rest preserve_slash preserve_valid_escapes
           else (if is_uri_unreserved b \<or> (preserve_slash \<and> b = 47) then [b] else escape b)
             @ percent_encode bs preserve_slash preserve_valid_escapes)
      | _ \<Rightarrow> (if is_uri_unreserved b \<or> (preserve_slash \<and> b = 47) then [b] else escape b)
             @ percent_encode bs preserve_slash preserve_valid_escapes)"

definition canonical_query :: "str \<Rightarrow> str" where
  "canonical_query raw_query =
     (if raw_query = [] then []
      else let pairs = map (\<lambda>pair. let (name, v) = (case split_once 61 pair of Some p \<Rightarrow> p | None \<Rightarrow> (pair, [])) in
                 (percent_encode (utf8 name) False True, percent_encode (utf8 v) False True))
               (str_split (\<lambda>c. c = 38) raw_query)
      in join (lit ''&'') (map (\<lambda>(name, v). name @ lit ''='' @ v) (sort pairs)))"

definition canonical_uri_and_query :: "str \<Rightarrow> (str \<times> str) sigv4_result" where
  "canonical_uri_and_query uri =
     (if list_ex is_control uri \<or> 35 \<in> set uri then Inl InvalidUri
      else let (raw_path, raw_query) = (case split_once 63 uri of Some p \<Rightarrow> p | None \<Rightarrow> (uri, []));
               raw_path = (if raw_path = [] then lit ''/'' else raw_path) in
        if \<not> starts_with (lit ''/'') raw_path then Inl InvalidUri
        else Inr (percent_encode (utf8 raw_path) True True, canonical_query raw_query))"

section \<open>The canonical request and the signature\<close>

definition validate_payload_hash :: "str \<Rightarrow> unit sigv4_result" where
  "validate_payload_hash v =
     (if str_len v \<noteq> 64 \<or> \<not> all_bytes (\<lambda>b. is_ascii_digit b \<or> (97 \<le> b \<and> b \<le> 102)) v
      then Inl PayloadHashMismatch else Inr ())"

record canonicalized_request =
  cz_canonical :: str
  cz_signed_headers :: str

fun header_lines :: "canonical_header list \<Rightarrow> str" where
  "header_lines [] = []"
| "header_lines (h # hs) = ch_name h @ [58] @ ch_value h @ [10] @ header_lines hs"

fun header_names :: "nat \<Rightarrow> canonical_header list \<Rightarrow> str" where
  "header_names index [] = []"
| "header_names index (h # hs) = (if index \<noteq> 0 then [59] else []) @ ch_name h @ header_names (index + 1) hs"

definition canonicalize :: "str \<Rightarrow> str \<Rightarrow> header list \<Rightarrow> str \<Rightarrow> canonicalized_request sigv4_result" where
  "canonicalize meth uri headers payload_sha256 =
     rbind (validate_payload_hash payload_sha256) (\<lambda>_.
     rbind (canonical_method meth) (\<lambda>meth.
     rbind (canonical_uri_and_query uri) (\<lambda>(canonical_uri, query).
     rbind (canonical_headers headers payload_sha256) (\<lambda>headers.
       Inr \<lparr>cz_canonical = meth @ [10] @ canonical_uri @ [10] @ query @ [10] @ header_lines headers @ [10]
              @ header_names 0 headers @ [10] @ payload_sha256,
            cz_signed_headers = header_names 0 headers\<rparr>))))"

definition sigv4_canonical_request :: "str \<Rightarrow> str \<Rightarrow> header list \<Rightarrow> str \<Rightarrow> str sigv4_result" where
  "sigv4_canonical_request meth uri headers payload_sha256 =
     rbind (canonicalize meth uri headers payload_sha256) (\<lambda>c. Inr (cz_canonical c))"

definition signing_key_derive ::
    "(u8 list \<Rightarrow> u8 list \<Rightarrow> u8 list) \<Rightarrow> u8 list \<Rightarrow> str \<Rightarrow> str \<Rightarrow> str \<Rightarrow> u8 list sigv4_result" where
  "signing_key_derive hmac secret date region service =
     (if secret = [] \<or> length secret > MAX_SECRET_LEN then Inl InvalidCredential
      else rbind (validate_scope_date date) (\<lambda>_.
           rbind (validate_region region) (\<lambda>_.
           if service \<noteq> SERVICE then Inl InvalidRegion
           else let secret_key = str_bytes (lit ''AWS4'') @ secret;
                    date_key = hmac secret_key (str_bytes date);
                    region_key = hmac date_key (str_bytes region);
                    service_key = hmac region_key (str_bytes service)
                in Inr (hmac service_key (str_bytes TERMINATOR)))))"

fun existing_date :: "header list \<Rightarrow> str option \<Rightarrow> str option sigv4_result" where
  "existing_date [] existing = Inr existing"
| "existing_date ((name, v) # headers) existing =
     (if eq_ignore_ascii_case name (lit ''x-amz-date'')
      then rbind (normalize_header_value v) (\<lambda>normalized.
           if existing \<noteq> None then Inl DuplicateHeader else existing_date headers (Some normalized))
      else existing_date headers existing)"

definition sigv4_sign_request ::
    "(u8 list \<Rightarrow> u8 list) \<Rightarrow> (u8 list \<Rightarrow> u8 list \<Rightarrow> u8 list) \<Rightarrow> aws_request \<Rightarrow> aws_credentials \<Rightarrow> str
       \<Rightarrow> aws_signed_request sigv4_result" where
  "sigv4_sign_request sha hmac request credentials timestamp =
     rbind (validate_timestamp timestamp) (\<lambda>scope_date.
     rbind (validate_region (ar_region request)) (\<lambda>_.
     rbind (validate_credentials credentials) (\<lambda>_.
     rbind (existing_date (ar_headers request) None) (\<lambda>existing.
     rbind (case existing of
              Some d \<Rightarrow> if d \<noteq> timestamp then Inl InvalidTimestamp else Inr (ar_headers request)
            | None \<Rightarrow> Inr (ar_headers request @ [(lit ''x-amz-date'', timestamp)])) (\<lambda>headers.
     rbind (validate_session_token_header headers (ac_session_token credentials)) (\<lambda>_.
     rbind (canonicalize (ar_method request) (ar_uri request) headers (ar_payload_sha256 request)) (\<lambda>canonicalized.
     let canonical_hash = lower_hex (sha (str_bytes (cz_canonical canonicalized)));
         string_to_sign = ALGORITHM @ [10] @ timestamp @ [10] @ scope_date @ lit ''/'' @ ar_region request @ lit ''/''
            @ SERVICE @ lit ''/'' @ TERMINATOR @ [10] @ canonical_hash in
     rbind (signing_key_derive hmac (ac_secret_access_key credentials) scope_date (ar_region request) SERVICE) (\<lambda>signing_key.
     let signature = lower_hex (hmac signing_key (str_bytes string_to_sign)) in
       Inr \<lparr>as_authorization = ALGORITHM @ lit '' Credential='' @ ac_access_key_id credentials @ lit ''/'' @ scope_date
              @ lit ''/'' @ ar_region request @ lit ''/'' @ SERVICE @ lit ''/'' @ TERMINATOR @ lit '',SignedHeaders=''
              @ cz_signed_headers canonicalized @ lit '',Signature='' @ signature,
            as_signed_headers = cz_signed_headers canonicalized, as_amz_date = timestamp\<rparr>))))))))"


section \<open>Percent encoding\<close>

text \<open>The bytes an encoded text stands for.\<close>

fun pct_decode :: "int list \<Rightarrow> int list" where
  "pct_decode [] = []"
| "pct_decode (b # bs) =
     (case bs of
        h # l # rest \<Rightarrow>
          (if b = 37 \<and> is_hex_byte h \<and> is_hex_byte l then (hex_value h * 16 + hex_value l) # pct_decode rest
           else b # pct_decode bs)
      | _ \<Rightarrow> b # pct_decode bs)"

definition enc_byte :: "int \<Rightarrow> str" where
  "enc_byte b = (if is_uri_unreserved b then [b] else escape b)"

definition byte_ok :: "int \<Rightarrow> bool" where "byte_ok b \<longleftrightarrow> 0 \<le> b \<and> b < 256"

lemma nibble_hex: "0 \<le> n \<Longrightarrow> n < 16 \<Longrightarrow> is_hex_byte (HEX n) \<and> hex_value (HEX n) = n"
  by (auto simp: is_hex_byte_def HEX_def hex_value_def is_ascii_digit_def)

lemma hex_value_range: "is_hex_byte h \<Longrightarrow> 0 \<le> hex_value h \<and> hex_value h < 16"
  by (auto simp: is_hex_byte_def hex_value_def is_ascii_digit_def)

lemma escape_parts:
  assumes "byte_ok b"
  shows "is_hex_byte (HEX (b div 16))" "is_hex_byte (HEX (b mod 16))"
    "hex_value (HEX (b div 16)) * 16 + hex_value (HEX (b mod 16)) = b"
proof -
  have "0 \<le> b div 16" "b div 16 < 16" using assms by (auto simp: byte_ok_def)
  then show "is_hex_byte (HEX (b div 16))" "is_hex_byte (HEX (b mod 16))"
    "hex_value (HEX (b div 16)) * 16 + hex_value (HEX (b mod 16)) = b"
    using nibble_hex[of "b div 16"] nibble_hex[of "b mod 16"] by simp_all
qed

lemma unreserved_not_percent: "is_uri_unreserved b \<Longrightarrow> b \<noteq> 37"
  by (auto simp: is_uri_unreserved_def char_class_defs)

lemma encode_kept: "b \<noteq> 37 \<Longrightarrow> is_uri_unreserved b \<or> (s \<and> b = 47) \<Longrightarrow>
    percent_encode (b # xs) s True = b # percent_encode xs s True"
  by (cases xs; cases "tl xs") auto

lemma encode_escape:
  "byte_ok d \<Longrightarrow> percent_encode (escape d @ xs) s True = enc_byte d @ percent_encode xs s True"
  using escape_parts[of d] by (simp add: escape_def enc_byte_def)

lemma decode_kept: "b \<noteq> 37 \<Longrightarrow> pct_decode (b # xs) = b # pct_decode xs"
  by (cases xs; cases "tl xs") auto

lemma decode_escape: "byte_ok d \<Longrightarrow> pct_decode (escape d @ xs) = d # pct_decode xs"
  using escape_parts[of d] by (simp add: escape_def)

lemma decode_enc_byte: "byte_ok d \<Longrightarrow> pct_decode (enc_byte d @ xs) = d # pct_decode xs"
  using decode_escape decode_kept unreserved_not_percent by (simp add: enc_byte_def)

text \<open>What one step of the encoder emits, and what is left.\<close>

lemma encode_step:
  assumes "byte_ok b" "\<forall>x \<in> set bs. byte_ok x"
  obtains (triple) d rest where "byte_ok d" "\<forall>x \<in> set rest. byte_ok x" "length rest < length (b # bs)"
      "percent_encode (b # bs) s True = enc_byte d @ percent_encode rest s True"
      "pct_decode (b # bs) = d # pct_decode rest"
      "percent_encode (b # bs) False True = enc_byte d @ percent_encode rest False True"
  | (slash) "s" "b = 47" "percent_encode (b # bs) s True = 47 # percent_encode bs s True"
      "pct_decode (b # bs) = 47 # pct_decode bs"
proof -
  show thesis
  proof (cases "\<exists>h l rest. bs = h # l # rest \<and> b = 37 \<and> is_hex_byte h \<and> is_hex_byte l")
    case True
    then obtain h l rest where bs: "bs = h # l # rest" "b = 37" "is_hex_byte h" "is_hex_byte l" by blast
    have "byte_ok (hex_value h * 16 + hex_value l)"
      using hex_value_range[OF bs(3)] hex_value_range[OF bs(4)] by (auto simp: byte_ok_def)
    then show thesis using bs assms by (intro triple[of "hex_value h * 16 + hex_value l" rest]) (auto simp: Let_def enc_byte_def)
  next
    case False
    note no = this
    have step: "percent_encode (b # bs) t True =
        (if is_uri_unreserved b \<or> (t \<and> b = 47) then [b] else escape b) @ percent_encode bs t True"
      and dec: "pct_decode (b # bs) = b # pct_decode bs" for t
    proof -
      have "percent_encode (b # bs) t True =
        (if is_uri_unreserved b \<or> (t \<and> b = 47) then [b] else escape b) @ percent_encode bs t True
        \<and> pct_decode (b # bs) = b # pct_decode bs"
      proof (cases bs)
        case Nil
        then show ?thesis by simp
      next
        case (Cons h r)
        note bs = Cons
        show ?thesis
        proof (cases r)
          case Nil
          then show ?thesis using bs by simp
        next
          case (Cons l rest)
          then have "\<not> (b = 37 \<and> is_hex_byte h \<and> is_hex_byte l)" using no bs by blast
          then show ?thesis unfolding bs Cons by (subst percent_encode.simps(2), subst pct_decode.simps(2)) auto
        qed
      qed
      then show "percent_encode (b # bs) t True =
        (if is_uri_unreserved b \<or> (t \<and> b = 47) then [b] else escape b) @ percent_encode bs t True"
        "pct_decode (b # bs) = b # pct_decode bs" by blast+
    qed
    show thesis
    proof (cases "s \<and> b = 47")
      case True
      then have "percent_encode (b # bs) s True = 47 # percent_encode bs s True" unfolding step by simp
      then show thesis using slash True dec by blast
    next
      case False
      have e: "(if is_uri_unreserved b \<or> (t \<and> b = 47) then [b] else escape b) = enc_byte b" if "\<not> (t \<and> b = 47)" for t
        using that by (auto simp: enc_byte_def)
      have "percent_encode (b # bs) s True = enc_byte b @ percent_encode bs s True"
        "percent_encode (b # bs) False True = enc_byte b @ percent_encode bs False True"
        unfolding step e[OF False] using e[of False] by simp_all
      then show thesis using triple[of b bs] assms dec by simp
    qed
  qed
qed

lemma encode_decode:
  "\<forall>b \<in> set v. byte_ok b \<Longrightarrow> pct_decode (percent_encode v s True) = pct_decode v"
proof (induction v rule: length_induct)
  case (1 v)
  show ?case
  proof (cases v)
    case Nil
    then show ?thesis by simp
  next
    case (Cons b bs)
    then have ok: "byte_ok b" "\<forall>x \<in> set bs. byte_ok x" using 1(2) by auto
    from ok show ?thesis
    proof (cases rule: encode_step[where s = s])
      case (triple d rest)
      have "pct_decode (percent_encode rest s True) = pct_decode rest" using 1(1) triple(2,3) Cons by simp
      then show ?thesis using triple(1,4,5) Cons decode_enc_byte by simp
    next
      case slash
      have "pct_decode (percent_encode bs s True) = pct_decode bs" using 1(1) ok(2) Cons by simp
      then show ?thesis using slash Cons decode_kept[of 47] by simp
    qed
  qed
qed

lemma encode_encode:
  "\<forall>b \<in> set v. byte_ok b \<Longrightarrow> percent_encode (percent_encode v s True) s True = percent_encode v s True"
proof (induction v rule: length_induct)
  case (1 v)
  show ?case
  proof (cases v)
    case Nil
    then show ?thesis by simp
  next
    case (Cons b bs)
    then have ok: "byte_ok b" "\<forall>x \<in> set bs. byte_ok x" using 1(2) by auto
    from ok show ?thesis
    proof (cases rule: encode_step[where s = s])
      case (triple d rest)
      have ih: "percent_encode (percent_encode rest s True) s True = percent_encode rest s True" using 1(1) triple(2,3) Cons by simp
      have "percent_encode (enc_byte d @ xs) s True = enc_byte d @ percent_encode xs s True" for xs
        using encode_escape[OF triple(1), of xs s] encode_kept[of d s xs] unreserved_not_percent by (auto simp: enc_byte_def)
      then show ?thesis using ih triple(4) Cons by simp
    next
      case slash
      have "percent_encode (percent_encode bs s True) s True = percent_encode bs s True" using 1(1) ok(2) Cons by simp
      then show ?thesis using slash Cons encode_kept[of 47 s] by simp
    qed
  qed
qed

lemma encode_reference:
  "\<forall>b \<in> set v. byte_ok b \<Longrightarrow> percent_encode v False True = concat (map enc_byte (pct_decode v))"
proof (induction v rule: length_induct)
  case (1 v)
  show ?case
  proof (cases v)
    case Nil
    then show ?thesis by simp
  next
    case (Cons b bs)
    then have ok: "byte_ok b" "\<forall>x \<in> set bs. byte_ok x" using 1(2) by auto
    from ok show ?thesis
    proof (cases rule: encode_step[where s = False])
      case (triple d rest)
      have "percent_encode rest False True = concat (map enc_byte (pct_decode rest))" using 1(1) triple(2,3) Cons by simp
      then show ?thesis using triple(5,6) Cons by simp
    next
      case slash
      then show ?thesis by simp
    qed
  qed
qed

text \<open>
  Percent encoding computes a normal form. Encoding again changes nothing, decoding gives the
  same bytes as before, and without the special treatment of \<open>/\<close> the text is the encoding of the
  decoded bytes one by one: two texts that stand for the same bytes get the same encoding.
\<close>

theorem percent_encoding_is_a_normal_form:
  assumes "\<forall>b \<in> set v. 0 \<le> b \<and> b < 256"
  shows "percent_encode (percent_encode v s True) s True = percent_encode v s True
    \<and> pct_decode (percent_encode v s True) = pct_decode v
    \<and> percent_encode v False True = concat (map (\<lambda>b. if is_uri_unreserved b then [b] else escape b) (pct_decode v))"
  using encode_encode[of v s] encode_decode[of v s] encode_reference[of v] assms by (simp add: byte_ok_def enc_byte_def[abs_def])

theorem percent_encoding_is_a_normal_form_witness:
  "pct_decode (percent_encode (lit ''a%7e b/%2f'') True True) = lit ''a~ b//''"
proof -
  have "\<forall>b \<in> set (lit ''a%7e b/%2f''). 0 \<le> b \<and> b < 256" by simp
  from percent_encoding_is_a_normal_form[OF this, of True] show ?thesis
    by (simp add: is_hex_byte_def hex_value_def is_ascii_digit_def)
qed


section \<open>The canonical request determines the request\<close>

lemma escape_no_newline: "byte_ok b \<Longrightarrow> 10 \<notin> set (escape b)"
proof -
  assume "byte_ok b"
  have "HEX n \<noteq> 10" if "0 \<le> n" for n using that by (auto simp: HEX_def)
  moreover have "0 \<le> b div 16" using \<open>byte_ok b\<close> by (simp add: byte_ok_def pos_imp_zdiv_nonneg_iff)
  ultimately show ?thesis by (auto simp: escape_def)
qed

lemma enc_byte_no_newline: "byte_ok b \<Longrightarrow> 10 \<notin> set (enc_byte b)"
  using escape_no_newline by (auto simp: enc_byte_def is_uri_unreserved_def char_class_defs)

lemma encode_no_newline: "\<forall>b \<in> set v. byte_ok b \<Longrightarrow> 10 \<notin> set (percent_encode v s True)"
proof (induction v rule: length_induct)
  case (1 v)
  show ?case
  proof (cases v)
    case Nil
    then show ?thesis by simp
  next
    case (Cons b bs)
    then have ok: "byte_ok b" "\<forall>x \<in> set bs. byte_ok x" using 1(2) by auto
    from ok show ?thesis
    proof (cases rule: encode_step[where s = s])
      case (triple d rest)
      have "10 \<notin> set (percent_encode rest s True)" using 1(1) triple(2,3) Cons by simp
      then show ?thesis using triple(4) enc_byte_no_newline[OF triple(1)] Cons by simp
    next
      case slash
      have "10 \<notin> set (percent_encode bs s True)" using 1(1) ok(2) Cons by simp
      then show ?thesis using slash Cons by simp
    qed
  qed
qed

lemma split_once_set: "split_once d s = Some (a, b) \<Longrightarrow> set a \<subseteq> set s \<and> set b \<subseteq> set s"
proof (induction s arbitrary: a b)
  case Nil
  then show ?case by simp
next
  case (Cons c s)
  then show ?case by (fastforce split: if_splits)
qed

lemma join_no_char: "c \<notin> set sep \<Longrightarrow> \<forall>w \<in> set ws. c \<notin> set w \<Longrightarrow> c \<notin> set (join sep ws)"
  by (induction sep ws rule: join.induct) auto

lemma scalar_bytes: "list_all is_scalar s \<Longrightarrow> \<forall>b \<in> set (utf8 s). byte_ok b"
  using utf8_byte_range by (auto simp: byte_ok_def)

lemma scalar_subset: "list_all is_scalar s \<Longrightarrow> set t \<subseteq> set s \<Longrightarrow> list_all is_scalar t"
  by (auto simp: list_all_iff)

lemma query_no_newline:
  assumes "list_all is_scalar q"
  shows "10 \<notin> set (canonical_query q)"
proof (cases "q = []")
  case True
  then show ?thesis by (simp add: canonical_query_def)
next
  case False
  let ?f = "\<lambda>pair. let (name, v) = (case split_once 61 pair of Some p \<Rightarrow> p | None \<Rightarrow> (pair, [])) in
                 (percent_encode (utf8 name) False True, percent_encode (utf8 v) False True)"
  have "10 \<notin> set (fst (?f w)) \<and> 10 \<notin> set (snd (?f w))" if "w \<in> set (str_split (\<lambda>c. c = 38) q)" for w
  proof -
    have "list_all is_scalar w" using scalar_subset[OF assms] str_split_no_sep[OF that] by blast
    then show ?thesis
      using encode_no_newline[OF scalar_bytes] scalar_subset[of w] split_once_set[of 61 w]
      by (auto simp: Let_def split: option.splits prod.splits)
  qed
  then have "\<forall>p \<in> set (sort (map ?f (str_split (\<lambda>c. c = 38) q))). 10 \<notin> set (fst p) \<and> 10 \<notin> set (snd p)"
    by (auto simp del: split_paired_All)
  then have "\<forall>w \<in> set (map (\<lambda>(name, v). name @ lit ''='' @ v) (sort (map ?f (str_split (\<lambda>c. c = 38) q)))). 10 \<notin> set w"
    by (auto simp only: list.set_map fst_conv snd_conv set_append ball_simps split_beta lit_simps) auto
  then show ?thesis using False join_no_char[of 10 "lit ''&''"] by (simp add: canonical_query_def Let_def)
qed

lemma uri_no_newline:
  assumes "canonical_uri_and_query uri = Inr (p, q)" "list_all is_scalar uri"
  shows "10 \<notin> set p" "10 \<notin> set q"
proof -
  obtain rp rq where r: "(case split_once 63 uri of Some p \<Rightarrow> p | None \<Rightarrow> (uri, [])) = (rp, rq)" by force
  then have sub: "list_all is_scalar rp" "list_all is_scalar rq"
    using split_once_set[of 63 uri] scalar_subset[OF assms(2)] assms(2) by (auto split: option.splits)
  have "p = percent_encode (utf8 (if rp = [] then lit ''/'' else rp)) True True" "q = canonical_query rq"
    using assms(1) r by (auto simp: canonical_uri_and_query_def Let_def split: if_splits)
  moreover have "list_all is_scalar (if rp = [] then lit ''/'' else rp)" using sub(1) by (simp add: is_scalar_def)
  ultimately show "10 \<notin> set p" "10 \<notin> set q" using encode_no_newline[OF scalar_bytes] query_no_newline[OF sub(2)] by auto
qed

definition header_ok :: "canonical_header \<Rightarrow> bool" where
  "header_ok h \<longleftrightarrow> ch_name h \<noteq> [] \<and> 58 \<notin> set (ch_name h) \<and> 10 \<notin> set (ch_name h) \<and> 10 \<notin> set (ch_value h)"

lemma header_ok_start: "header_ok h \<Longrightarrow> ch_name h @ x \<noteq> 10 # y"
  by (cases "ch_name h") (auto simp: header_ok_def)

lemma header_lines_inject:
  "\<forall>h \<in> set hs \<union> set gs. header_ok h \<Longrightarrow> header_lines hs @ 10 # r = header_lines gs @ 10 # s \<Longrightarrow> hs = gs \<and> r = s"
proof (induction hs arbitrary: gs)
  case Nil
  then show ?case using header_ok_start by (cases gs) (auto dest: sym)
next
  case (Cons h hs)
  show ?case
  proof (cases gs)
    case Nil
    then show ?thesis using Cons.prems header_ok_start[of h] by simp
  next
    case (Cons g gs')
    have ok: "header_ok h" "header_ok g" using Cons.prems(1) Cons by simp_all
    have "ch_name h @ 58 # (ch_value h @ 10 # header_lines hs @ 10 # r) = ch_name g @ 58 # (ch_value g @ 10 # header_lines gs' @ 10 # s)"
      using Cons.prems(2) Cons by simp
    then have n: "ch_name h = ch_name g" "ch_value h @ 10 # header_lines hs @ 10 # r = ch_value g @ 10 # header_lines gs' @ 10 # s"
      using ok append_sep_inject[of 58 "ch_name h" "ch_name g"] by (auto simp: header_ok_def)
    then have v: "ch_value h = ch_value g" "header_lines hs @ 10 # r = header_lines gs' @ 10 # s"
      using ok append_sep_inject[of 10 "ch_value h" "ch_value g"] by (auto simp: header_ok_def)
    have "hs = gs' \<and> r = s" by (rule Cons.IH[OF _ v(2)]) (use Cons.prems(1) Cons in auto)
    then show ?thesis using n(1) v(1) Cons by simp
  qed
qed

lemma token_chars: "is_header_name_byte c \<Longrightarrow> c \<noteq> 58 \<and> c \<noteq> 10 \<and> is_ascii c"
  by (auto simp: is_header_name_byte_def token_punctuation_def char_class_defs)

lemma lower_token: "is_header_name_byte c \<Longrightarrow> ascii_lower c \<noteq> 58 \<and> ascii_lower c \<noteq> 10"
  using token_chars[of c] by (auto simp: char_class_defs)

lemma normalize_header_name_ok:
  assumes "normalize_header_name name = Inr n"
  shows "n \<noteq> [] \<and> 58 \<notin> set n \<and> 10 \<notin> set n \<and> n = to_ascii_lowercase name"
proof -
  have "all_bytes is_header_name_byte name" "name \<noteq> []" "n = to_ascii_lowercase name"
    using assms by (auto simp: normalize_header_name_def Let_def split: if_splits)
  moreover from this(1) have "list_all is_header_name_byte name" using all_bytes_ascii token_chars by metis
  ultimately show ?thesis using lower_token by (auto simp: to_ascii_lowercase_def list_all_iff)
qed

lemma collapse_chars: "c \<in> set (collapse v n p) \<Longrightarrow> c \<in> set v \<or> c \<in> set n \<or> c = 32"
  by (induction v n p rule: collapse.induct) (auto split: if_splits)

lemma normalize_header_value_ok:
  assumes "normalize_header_value v = Inr w"
  shows "10 \<notin> set w"
proof
  assume "10 \<in> set w"
  then have "10 \<in> set v" using assms collapse_chars[of 10 v "[]" False] by (auto simp: normalize_header_value_def split: if_splits)
  then show False using assms by (auto simp: normalize_header_value_def list_ex_iff is_control_def split: if_splits)
qed

definition norm_header :: "header \<Rightarrow> canonical_header sigv4_result" where
  "norm_header h = (case h of (name, v) \<Rightarrow> rbind (normalize_header_name name) (\<lambda>name.
     rbind (normalize_header_value v) (\<lambda>v. Inr \<lparr>ch_name = name, ch_value = v\<rparr>)))"

definition check_headers :: "str \<Rightarrow> canonical_header list \<Rightarrow> canonical_header list sigv4_result" where
  "check_headers payload_sha256 normalized =
     rbind (ensure (\<not> adjacent_names normalized) DuplicateHeader) (\<lambda>_.
     rbind (ok_or MissingRequiredHeader (find_header (lit ''host'') normalized)) (\<lambda>host.
     rbind (ensure (ch_value host \<noteq> []) InvalidHeader) (\<lambda>_.
     rbind (ok_or MissingRequiredHeader (find_header (lit ''x-amz-content-sha256'') normalized)) (\<lambda>payload_header.
     rbind (ensure (ch_value payload_header = payload_sha256) PayloadHashMismatch) (\<lambda>_.
     rbind (ok_or MissingRequiredHeader (find_header (lit ''x-amz-date'') normalized)) (\<lambda>date_header.
     rbind (validate_timestamp (ch_value date_header)) (\<lambda>_. Inr normalized)))))))"

lemma canonical_headers_alt:
  "canonical_headers headers payload = rbind (rmap norm_header headers) (\<lambda>xs. check_headers payload (sort_key ch_name xs))"
proof -
  have "norm_header = (\<lambda>(name, v). rbind (normalize_header_name name) (\<lambda>name.
     rbind (normalize_header_value v) (\<lambda>v. Inr \<lparr>ch_name = name, ch_value = v\<rparr>)))"
    by (simp add: fun_eq_iff norm_header_def)
  then show ?thesis by (simp only: canonical_headers_def check_headers_def Let_def)
qed

lemma check_headers_Inr: "check_headers payload xs = Inr hs \<Longrightarrow> hs = xs \<and> \<not> adjacent_names xs"
  by (auto simp: check_headers_def rbind_Inr_iff)

lemma norm_header_ok: "norm_header h = Inr c \<Longrightarrow> header_ok c"
  using normalize_header_name_ok normalize_header_value_ok
  by (auto simp: norm_header_def header_ok_def rbind_Inr_iff split: prod.splits)

lemma canonical_headers_norm:
  assumes "canonical_headers headers payload = Inr hs"
  obtains xs where "rmap norm_header headers = Inr xs" "hs = sort_key ch_name xs" "\<not> adjacent_names hs"
  using assms unfolding canonical_headers_alt by (auto simp: rbind_Inr_iff dest: check_headers_Inr)

lemma rmap_set: "rmap f xs = Inr ys \<Longrightarrow> y \<in> set ys \<Longrightarrow> \<exists>x \<in> set xs. f x = Inr y"
  by (induction xs arbitrary: ys) (auto simp: rbind_Inr_iff)

lemma canonical_headers_ok: "canonical_headers headers payload = Inr hs \<Longrightarrow> h \<in> set hs \<Longrightarrow> header_ok h"
  using canonical_headers_norm rmap_set norm_header_ok by (metis set_sort)

text \<open>
  C17. No two requests share a canonical request: its text determines the method, the canonical path
  and query, the list of normalised headers, and the payload hash. What is signed is unambiguous.
\<close>

theorem canonical_request_is_unambiguous:
  assumes a: "sigv4_canonical_request m u hs p = Inr c" and b: "sigv4_canonical_request m' u' hs' p' = Inr c"
    and scalar: "list_all is_scalar u" "list_all is_scalar u'"
  shows "m = m' \<and> canonical_uri_and_query u = canonical_uri_and_query u'
    \<and> canonical_headers hs p = canonical_headers hs' p' \<and> p = p'"
proof -
  obtain x q xs where 1: "m \<noteq> []" "all_bytes is_method_byte m" "canonical_uri_and_query u = Inr (x, q)"
    "canonical_headers hs p = Inr xs"
    "c = m @ [10] @ x @ [10] @ q @ [10] @ header_lines xs @ [10] @ header_names 0 xs @ [10] @ p"
    using a by (auto simp: sigv4_canonical_request_def canonicalize_def rbind_Inr_iff canonical_method_def split: if_splits prod.splits)
  obtain x' q' xs' where 2: "m' \<noteq> []" "all_bytes is_method_byte m'" "canonical_uri_and_query u' = Inr (x', q')"
    "canonical_headers hs' p' = Inr xs'"
    "c = m' @ [10] @ x' @ [10] @ q' @ [10] @ header_lines xs' @ [10] @ header_names 0 xs' @ [10] @ p'"
    using b by (auto simp: sigv4_canonical_request_def canonicalize_def rbind_Inr_iff canonical_method_def split: if_splits prod.splits)
  have tok: "is_method_byte c \<Longrightarrow> c \<noteq> 10 \<and> is_ascii c" for c
    using token_chars[of c] by (simp add: is_method_byte_def is_header_name_byte_def)
  have no: "10 \<notin> set m" "10 \<notin> set m'"
    using 1(2) 2(2) tok all_bytes_ascii[of is_method_byte] by (auto simp: list_all_iff)
  note nl = uri_no_newline[OF 1(3) scalar(1)] uri_no_newline[OF 2(3) scalar(2)]
  have eq: "m @ 10 # x @ 10 # q @ 10 # header_lines xs @ 10 # header_names 0 xs @ 10 # p
      = m' @ 10 # x' @ 10 # q' @ 10 # header_lines xs' @ 10 # header_names 0 xs' @ 10 # p'"
    using 1(5) 2(5) by simp
  then have "m = m'" "x @ 10 # q @ 10 # header_lines xs @ 10 # header_names 0 xs @ 10 # p
      = x' @ 10 # q' @ 10 # header_lines xs' @ 10 # header_names 0 xs' @ 10 # p'"
    using append_sep_inject[OF no] by auto
  moreover from this(2) have "x = x'" "q @ 10 # header_lines xs @ 10 # header_names 0 xs @ 10 # p
      = q' @ 10 # header_lines xs' @ 10 # header_names 0 xs' @ 10 # p'"
    using append_sep_inject[OF nl(1,3)] by auto
  moreover from this(2) have "q = q'" "header_lines xs @ 10 # header_names 0 xs @ 10 # p
      = header_lines xs' @ 10 # header_names 0 xs' @ 10 # p'"
    using append_sep_inject[OF nl(2,4)] by auto
  moreover from this(2) have "xs = xs' \<and> header_names 0 xs @ 10 # p = header_names 0 xs' @ 10 # p'"
    by (rule header_lines_inject[rotated]) (use canonical_headers_ok[OF 1(4)] canonical_headers_ok[OF 2(4)] in blast)
  ultimately show ?thesis using 1(3,4) 2(3,4) by simp
qed


section \<open>Signatures do not depend on the order of headers\<close>

lemma sorted_adjacent_distinct: "sorted (map ch_name hs) \<Longrightarrow> \<not> adjacent_names hs \<Longrightarrow> distinct (map ch_name hs)"
proof (induction hs rule: adjacent_names.induct)
  case (1 g h hs)
  then have "ch_name g < ch_name h" "\<forall>x \<in> set hs. ch_name h \<le> ch_name x" by auto
  then have "ch_name g \<noteq> ch_name x" if "x \<in> set hs" for x using that by fastforce
  then show ?case using 1 by auto
qed simp_all

lemma sort_names_mset:
  assumes "mset xs = mset ys" "\<not> adjacent_names (sort_key ch_name xs)"
  shows "sort_key ch_name ys = sort_key ch_name xs"
proof -
  have "distinct (map ch_name (sort_key ch_name xs))" by (rule sorted_adjacent_distinct[OF sorted_sort_key assms(2)])
  then have "inj_on ch_name (set ys)" using assms(1) by (metis distinct_map set_sort set_mset_mset)
  then show ?thesis by (intro sort_key_inj_key_eq) (simp_all add: assms(1))
qed

lemma filter_mset_nil: "mset xs = mset ys \<Longrightarrow> filter p xs = [] \<longleftrightarrow> filter p ys = []"
  by (metis mset_filter mset_zero_iff)

lemma filter_mset_one: "mset xs = mset ys \<Longrightarrow> filter p xs = [h] \<Longrightarrow> filter p ys = [h]"
  by (metis mset_filter mset_single_iff_right)

definition date_name :: "canonical_header \<Rightarrow> bool" where
  "date_name h \<longleftrightarrow> ch_name h = lit ''x-amz-date''"

definition token_name :: "canonical_header \<Rightarrow> bool" where
  "token_name h \<longleftrightarrow> ch_name h = lit ''x-amz-security-token''"

lemma literal_names:
  "eq_ignore_ascii_case name (lit ''x-amz-date'') \<longleftrightarrow> to_ascii_lowercase name = lit ''x-amz-date''"
  "eq_ignore_ascii_case name (lit ''x-amz-security-token'') \<longleftrightarrow> to_ascii_lowercase name = lit ''x-amz-security-token''"
proof -
  have "to_ascii_lowercase (lit ''x-amz-date'') = lit ''x-amz-date''"
    "to_ascii_lowercase (lit ''x-amz-security-token'') = lit ''x-amz-security-token''" by code_simp+
  then show "eq_ignore_ascii_case name (lit ''x-amz-date'') \<longleftrightarrow> to_ascii_lowercase name = lit ''x-amz-date''"
    "eq_ignore_ascii_case name (lit ''x-amz-security-token'') \<longleftrightarrow> to_ascii_lowercase name = lit ''x-amz-security-token''"
    by (simp_all only: eq_ignore_ascii_case_def)
qed

lemma norm_header_parts:
  "norm_header (name, v) = Inr h \<longleftrightarrow> normalize_header_name name = Inr (ch_name h) \<and> normalize_header_value v = Inr (ch_value h)"
  by (cases h) (auto simp: norm_header_def rbind_Inr_iff)

lemma existing_date_some:
  "rmap norm_header hs = Inr xs \<Longrightarrow>
    existing_date hs (Some d) = (if filter date_name xs = [] then Inr (Some d) else Inl DuplicateHeader)"
proof (induction hs arbitrary: xs)
  case Nil
  then show ?case by simp
next
  case (Cons h hs)
  obtain name v where h: "h = (name, v)" by (cases h)
  obtain c cs where c: "norm_header h = Inr c" "rmap norm_header hs = Inr cs" "xs = c # cs"
    using Cons.prems by (auto simp: rbind_Inr_iff)
  then have nv: "ch_name c = to_ascii_lowercase name" "normalize_header_value v = Inr (ch_value c)"
    using h normalize_header_name_ok by (auto simp: norm_header_parts)
  then have "date_name c \<longleftrightarrow> to_ascii_lowercase name = lit ''x-amz-date''" by (simp only: date_name_def)
  then show ?case using Cons.IH[OF c(2)] h c(3) nv by (simp add: literal_names del: lit_simps)
qed

lemma existing_date_none:
  "rmap norm_header hs = Inr xs \<Longrightarrow>
    existing_date hs None = (case filter date_name xs of [] \<Rightarrow> Inr None | [h] \<Rightarrow> Inr (Some (ch_value h)) | _ \<Rightarrow> Inl DuplicateHeader)"
proof (induction hs arbitrary: xs)
  case Nil
  then show ?case by simp
next
  case (Cons h hs)
  obtain name v where h: "h = (name, v)" by (cases h)
  obtain c cs where c: "norm_header h = Inr c" "rmap norm_header hs = Inr cs" "xs = c # cs"
    using Cons.prems by (auto simp: rbind_Inr_iff)
  then have nv: "ch_name c = to_ascii_lowercase name" "normalize_header_value v = Inr (ch_value c)"
    using h normalize_header_name_ok by (auto simp: norm_header_parts)
  then have "date_name c \<longleftrightarrow> to_ascii_lowercase name = lit ''x-amz-date''" by (simp only: date_name_def)
  then show ?case using Cons.IH[OF c(2)] existing_date_some[OF c(2), of "ch_value c"] h c(3) nv
    by (simp add: literal_names del: lit_simps split: list.splits)
qed

lemma token_filter:
  "rmap norm_header hs = Inr xs \<Longrightarrow>
    rmap norm_header (filter (\<lambda>(name, _). eq_ignore_ascii_case name (lit ''x-amz-security-token'')) hs) = Inr (filter token_name xs)"
proof (induction hs arbitrary: xs)
  case Nil
  then show ?case by simp
next
  case (Cons h hs)
  obtain name v where h: "h = (name, v)" by (cases h)
  obtain c cs where c: "norm_header h = Inr c" "rmap norm_header hs = Inr cs" "xs = c # cs"
    using Cons.prems by (auto simp: rbind_Inr_iff)
  then have "ch_name c = to_ascii_lowercase name" using h normalize_header_name_ok by (auto simp: norm_header_parts)
  then show ?case using Cons.IH[OF c(2)] h c by (simp add: literal_names token_name_def del: lit_simps)
qed

lemma session_token_check:
  assumes "rmap norm_header hs = Inr xs"
  shows "validate_session_token_header hs expected = Inr u \<longleftrightarrow>
    (case expected of None \<Rightarrow> filter token_name xs = [] | Some e \<Rightarrow> \<exists>h. filter token_name xs = [h] \<and> ch_value h = e)"
proof -
  let ?m = "filter (\<lambda>(name, _). eq_ignore_ascii_case name (lit ''x-amz-security-token'')) hs"
  note f = token_filter[OF assms]
  have nil: "?m = [] \<longleftrightarrow> filter token_name xs = []" using f by (cases ?m) (auto simp: rbind_Inr_iff)
  have one: "(case ?m of [] \<Rightarrow> Inl MissingRequiredHeader
           | [(_, v)] \<Rightarrow> rbind (normalize_header_value v) (\<lambda>v. if v \<noteq> e then Inl InvalidCredential else Inr ())
           | _ \<Rightarrow> Inl DuplicateHeader) = Inr u \<longleftrightarrow> (\<exists>h. filter token_name xs = [h] \<and> ch_value h = e)" for e
    using f by (auto simp: rbind_Inr_iff norm_header_parts dest!: sym[of "[_]" "filter token_name xs"] split: list.splits)
  show ?thesis
  proof (cases expected)
    case None
    then show ?thesis by (simp add: validate_session_token_header_def Let_def nil del: lit_simps)
  next
    case (Some e)
    then show ?thesis unfolding validate_session_token_header_def Let_def by (simp only: option.case one)
  qed
qed

lemma rmap_map: "rmap f xs = Inr ys \<longleftrightarrow> map f xs = map Inr ys"
proof (induction xs arbitrary: ys)
  case Nil
  then show ?case by auto
next
  case (Cons x xs)
  then show ?case by (cases ys) (auto simp: rbind_Inr_iff)
qed

text \<open>The same headers in another order, up to the case of the names and blanks in the values.\<close>

definition same_headers :: "header list \<Rightarrow> header list \<Rightarrow> bool" where
  "same_headers hs gs \<longleftrightarrow> mset (map norm_header hs) = mset (map norm_header gs)"

lemma same_headers_norm:
  assumes "same_headers hs gs" "rmap norm_header hs = Inr xs"
  obtains ys where "rmap norm_header gs = Inr ys" "mset ys = mset xs"
proof -
  have m: "mset (map norm_header gs) = mset (map Inr xs)" using assms by (simp only: same_headers_def rmap_map)
  let ?ys = "map projr (map norm_header gs)"
  have "\<forall>x \<in> set (map norm_header gs). x = Inr (projr x)"
    using mset_eq_setD[OF m] by fastforce
  then have "map norm_header gs = map Inr ?ys" by (simp add: list.map_comp comp_def)
  moreover have "mset ?ys = image_mset projr (mset (map norm_header gs))" by (simp only: mset_map)
  then have "mset ?ys = mset xs" unfolding m by (simp add: multiset.map_comp comp_def)
  ultimately show thesis using that[of ?ys] by (simp add: rmap_map)
qed

lemma canonicalize_same:
  assumes "same_headers hs gs" "canonicalize m u hs p = Inr c"
  shows "canonicalize m u gs p = Inr c"
proof -
  obtain ks where ks: "canonical_headers hs p = Inr ks" using assms(2) by (auto simp: canonicalize_def rbind_Inr_iff split: prod.splits)
  then obtain xs where xs: "rmap norm_header hs = Inr xs" "check_headers p (sort_key ch_name xs) = Inr ks"
    by (auto simp: canonical_headers_alt rbind_Inr_iff)
  obtain ys where ys: "rmap norm_header gs = Inr ys" "mset ys = mset xs" by (rule same_headers_norm[OF assms(1) xs(1)])
  have "sort_key ch_name ys = sort_key ch_name xs"
    by (rule sort_names_mset) (use ys(2) check_headers_Inr[OF xs(2)] in simp_all)
  then have "canonical_headers gs p = canonical_headers hs p" using xs ys(1) by (simp add: canonical_headers_alt)
  then show ?thesis using assms(2) by (simp add: canonicalize_def)
qed

lemma same_headers_snoc: "same_headers hs gs \<Longrightarrow> same_headers (hs @ [h]) (gs @ [h])"
  by (simp add: same_headers_def)

text \<open>
  The signature of a request depends on its headers as a set of fields only: when signing
  succeeds, signing the same request with the headers in another order, with names in another case
  or with other blanks in the values gives the same authorization.
\<close>

theorem signature_ignores_header_order:
  assumes run: "sigv4_sign_request sha hmac r c t = Inr s" and same: "same_headers (ar_headers r) gs"
  shows "sigv4_sign_request sha hmac (r\<lparr>ar_headers := gs\<rparr>) c t = Inr s"
proof -
  let ?hs = "ar_headers r"
  obtain e where e: "existing_date ?hs None = Inr e" "\<forall>d. e = Some d \<longrightarrow> d = t"
    using run by (auto simp: sigv4_sign_request_def rbind_Inr_iff split: if_splits option.splits)
  define final where "final = (\<lambda>hs. if e = None then hs @ [(lit ''x-amz-date'', t)] else hs)"
  obtain z where z: "validate_session_token_header (final ?hs) (ac_session_token c) = Inr ()"
    "canonicalize (ar_method r) (ar_uri r) (final ?hs) (ar_payload_sha256 r) = Inr z"
    using run e unfolding final_def
    by (cases e) (auto simp: sigv4_sign_request_def rbind_Inr_iff split: if_splits)
  have sf: "same_headers (final ?hs) (final gs)" using same same_headers_snoc by (simp add: final_def)
  obtain ks where "canonical_headers (final ?hs) (ar_payload_sha256 r) = Inr ks"
    using z(2) by (auto simp: canonicalize_def rbind_Inr_iff split: prod.splits)
  then obtain xs where xs: "rmap norm_header (final ?hs) = Inr xs" by (auto simp: canonical_headers_alt rbind_Inr_iff)
  obtain ys where ys: "rmap norm_header (final gs) = Inr ys" "mset ys = mset xs" by (rule same_headers_norm[OF sf xs])
  have "validate_session_token_header (final gs) (ac_session_token c) = Inr ()"
    using z(1) filter_mset_nil[OF ys(2)[symmetric], of token_name] filter_mset_one[OF ys(2)[symmetric], of token_name]
    unfolding session_token_check[OF xs] session_token_check[OF ys(1)] by (auto split: option.splits)
  moreover have "existing_date gs None = Inr e"
  proof -
    obtain xs0 where x0: "rmap norm_header ?hs = Inr xs0"
      using xs by (auto simp: final_def rmap_append rbind_Inr_iff split: if_splits)
    obtain ys0 where y0: "rmap norm_header gs = Inr ys0" "mset ys0 = mset xs0" by (rule same_headers_norm[OF same x0])
    show ?thesis
      using e(1) filter_mset_nil[OF y0(2)[symmetric], of date_name] filter_mset_one[OF y0(2)[symmetric], of date_name]
      unfolding existing_date_none[OF x0] existing_date_none[OF y0(1)]
      by (auto split: list.splits)
  qed
  moreover have "canonicalize (ar_method r) (ar_uri r) (final gs) (ar_payload_sha256 r) = Inr z"
    by (rule canonicalize_same[OF sf z(2)])
  ultimately show ?thesis using run e z unfolding final_def
    by (cases e) (simp_all add: sigv4_sign_request_def del: lit_simps)
qed

section \<open>The hypotheses can hold\<close>

definition demo_aws :: aws_request where
  "demo_aws = \<lparr>ar_method = lit ''PUT'', ar_uri = lit ''/b/k?x=1'', ar_headers = [(lit ''Host'', lit ''s3''),
     (lit ''X-Amz-Content-Sha256'', replicate 64 97)], ar_payload_sha256 = replicate 64 97, ar_region = lit ''eu-west-1''\<rparr>"

definition demo_aws_credentials :: aws_credentials where
  "demo_aws_credentials = \<lparr>ac_access_key_id = replicate 16 65, ac_secret_access_key = [1], ac_session_token = None\<rparr>"

definition demo_swapped :: "header list" where
  "demo_swapped = [(lit ''x-amz-content-sha256'', replicate 64 97), (lit ''host'', lit '' s3 '')]"

lemma demo_signed: "is_ok (sigv4_sign_request (\<lambda>_. []) (\<lambda>_ _. []) demo_aws demo_aws_credentials (lit ''20250131T120000Z''))"
  by code_simp

lemma demo_same_headers: "same_headers (ar_headers demo_aws) demo_swapped"
proof -
  have "map norm_header (ar_headers demo_aws) = rev (map norm_header demo_swapped)" by code_simp
  then show ?thesis by (simp add: same_headers_def)
qed

theorem signature_ignores_header_order_witness:
  "sigv4_sign_request (\<lambda>_. []) (\<lambda>_ _. []) (demo_aws\<lparr>ar_headers := demo_swapped\<rparr>) demo_aws_credentials (lit ''20250131T120000Z'')
     = sigv4_sign_request (\<lambda>_. []) (\<lambda>_ _. []) demo_aws demo_aws_credentials (lit ''20250131T120000Z'')"
proof -
  obtain s where s: "sigv4_sign_request (\<lambda>_. []) (\<lambda>_ _. []) demo_aws demo_aws_credentials (lit ''20250131T120000Z'') = Inr s"
    using demo_signed unfolding is_ok_iff by blast
  from signature_ignores_header_order[OF s demo_same_headers] s show ?thesis by simp
qed

definition demo_aws_headers :: "header list" where
  "demo_aws_headers = (lit ''x-amz-date'', lit ''20250131T120000Z'') # ar_headers demo_aws"

lemma demo_canonical: "is_ok (sigv4_canonical_request (lit ''PUT'') (lit ''/b/k?x=1'') demo_aws_headers (replicate 64 97))"
  "list_all is_scalar (lit ''/b/k?x=1'')"
  by code_simp+

theorem canonical_request_is_unambiguous_witness:
  "\<exists>c. sigv4_canonical_request (lit ''PUT'') (lit ''/b/k?x=1'') demo_aws_headers (replicate 64 97) = Inr c
     \<and> canonical_headers demo_aws_headers (replicate 64 97) = canonical_headers demo_aws_headers (replicate 64 97)"
proof -
  obtain c where c: "sigv4_canonical_request (lit ''PUT'') (lit ''/b/k?x=1'') demo_aws_headers (replicate 64 97) = Inr c"
    using demo_canonical(1) unfolding is_ok_iff by blast
  from canonical_request_is_unambiguous[OF c c demo_canonical(2,2)] c show ?thesis by blast
qed

end
