(* ===== verification/Phone_Book.thy ===== *)
theory Phone_Book
  imports Rust_Text
begin

text \<open>
  The caller phone book, \<open>src/phonebook.rs\<close>: caller records, the policy entries, the inbound access
  decision and the normalization of caller ids. The map is a partial function; writing the file,
  which may fail after the map was changed, is a parameter. The call counter, a \<open>u64\<close> that no
  decision reads, is an unbounded integer.
\<close>

section \<open>Records\<close>

definition WILDCARD_CALLER_ID :: str where "WILDCARD_CALLER_ID = lit ''*''"
definition NO_CALLER_ID_POLICY_KEY :: str where "NO_CALLER_ID_POLICY_KEY = lit ''__no_caller_id__''"
definition NO_CALLER_ID_DISPLAY :: str where "NO_CALLER_ID_DISPLAY = lit ''no-caller-id''"

record caller_record =
  cr_caller_id :: str
  cr_first_seen_at :: str
  cr_last_seen_at :: str
  cr_call_count :: int
  cr_disabled :: bool
  cr_system_entry :: bool
  cr_first_name :: "str option"
  cr_last_name :: "str option"
  cr_email :: "str option"
  cr_company :: "str option"
  cr_timezone :: "str option"
  cr_preferred_language :: "str option"
  cr_notes :: "str list"

definition caller_record_new :: "str \<Rightarrow> str \<Rightarrow> caller_record" where
  "caller_record_new caller_id now =
     \<lparr>cr_caller_id = caller_id, cr_first_seen_at = now, cr_last_seen_at = now, cr_call_count = 0, cr_disabled = False,
      cr_system_entry = False, cr_first_name = None, cr_last_name = None, cr_email = None, cr_company = None,
      cr_timezone = None, cr_preferred_language = None, cr_notes = []\<rparr>"

definition new_system_entry :: "str \<Rightarrow> str \<Rightarrow> bool \<Rightarrow> str list \<Rightarrow> caller_record" where
  "new_system_entry caller_id now disabled notes =
     (caller_record_new caller_id now)\<lparr>cr_disabled := disabled, cr_system_entry := True, cr_notes := notes\<rparr>"

definition missing_fields :: "caller_record \<Rightarrow> str list" where
  "missing_fields r =
     (if cr_first_name r = None then [lit ''first_name''] else [])
     @ (if cr_last_name r = None then [lit ''last_name''] else [])
     @ (if cr_email r = None then [lit ''email''] else [])
     @ (if cr_company r = None then [lit ''company''] else [])"

definition note_mentions_language :: "str \<Rightarrow> bool" where
  "note_mentions_language note =
     (let n = to_ascii_lowercase note in
      contains (lit '' language'') n \<or> starts_with (lit ''language '') n \<or> contains (lit ''speaks '') n
      \<or> contains (lit ''spoke '') n \<or> contains (lit ''used '') n)"

definition sanitize :: "caller_record \<Rightarrow> caller_record" where
  "sanitize r = r\<lparr>cr_notes := filter (\<lambda>n. \<not> note_mentions_language n) (cr_notes r)\<rparr>"

type_synonym callers = "str \<rightharpoonup> caller_record"

definition sanitize_phone_book :: "callers \<Rightarrow> callers" where
  "sanitize_phone_book b = (\<lambda>k. map_option sanitize (b k))"

definition or_insert :: "str \<Rightarrow> caller_record \<Rightarrow> callers \<Rightarrow> callers" where
  "or_insert k r b = (if b k = None then b(k \<mapsto> r) else b)"

definition seed_policy_entries :: "str \<Rightarrow> callers \<Rightarrow> callers \<times> bool" where
  "seed_policy_entries now b =
     (let changed = (b WILDCARD_CALLER_ID = None);
          b = or_insert WILDCARD_CALLER_ID (new_system_entry WILDCARD_CALLER_ID now True
                [lit ''System policy entry for callers that do present caller ID but do not have an exact record.'',
                 lit ''Disabled by default to enforce deny-by-default inbound access.'']) b;
          changed = (changed \<or> b NO_CALLER_ID_POLICY_KEY = None);
          b = or_insert NO_CALLER_ID_POLICY_KEY (new_system_entry NO_CALLER_ID_POLICY_KEY now True
                [lit ''System policy entry for callers that do not present caller ID.'',
                 lit ''Disabled by default to enforce deny-by-default inbound access.'']) b
      in (b, changed))"

section \<open>Normalization\<close>

definition strip_scheme :: "str \<Rightarrow> str" where
  "strip_scheme trimmed =
     (let lowered = to_ascii_lowercase trimmed in
      if starts_with (lit ''sip:'') lowered then drop 4 trimmed
      else if starts_with (lit ''sips:'') lowered then drop 5 trimmed
      else if starts_with (lit ''tel:'') lowered then drop 4 trimmed
      else trimmed)"

definition reserved_ids :: "str list" where
  "reserved_ids = [lit ''anonymous'', lit ''unknown'', lit ''unavailable'', lit ''private'', lit ''restricted'']"

definition caller_id_char :: "rchar \<Rightarrow> bool" where
  "caller_id_char c \<longleftrightarrow> is_ascii_alphanumeric c \<or> c \<in> {43, 45, 95, 46}"

definition normalize_caller_id :: "str \<Rightarrow> str option" where
  "normalize_caller_id raw =
     (let trimmed = trim_matches (\<lambda>c. c \<in> {60, 62, 34, 39}) (str_trim raw) in
      if trimmed = [] then None
      else if to_ascii_lowercase trimmed \<in> set reserved_ids then None
      else let without_params = hd (str_split (\<lambda>c. c = 59 \<or> c = 63) (strip_scheme trimmed));
               user_part = str_trim (hd (str_split (\<lambda>c. c = 64) without_params))
           in if user_part = [] then None
              else let normalized = filter caller_id_char user_part
                   in if normalized = [] then None else Some normalized)"

definition caller_id_display :: "str \<Rightarrow> str" where
  "caller_id_display raw = (case normalize_caller_id raw of Some k \<Rightarrow> k | None \<Rightarrow> NO_CALLER_ID_DISPLAY)"

definition looks_like_email :: "str \<Rightarrow> bool" where
  "looks_like_email v =
     (let parts = str_split (\<lambda>c. c = 64) v;
          local = hd parts;
          domain = (case parts of _ # d # _ \<Rightarrow> d | _ \<Rightarrow> [])
      in if length parts > 2 then False
         else local \<noteq> [] \<and> 46 \<in> set domain \<and> \<not> starts_with [46] domain \<and> \<not> ends_with [46] domain
              \<and> list_all (\<lambda>c. is_ascii_alphanumeric c \<or> c \<in> {64, 46, 95, 45, 43}) v)"

definition normalize_email_candidate :: "str \<Rightarrow> str option" where
  "normalize_email_candidate v =
     (let n = to_ascii_lowercase (trim_matches (\<lambda>c. c \<in> {34, 39, 46, 44, 59, 58}) (str_trim v))
      in if looks_like_email n then Some n else None)"

section \<open>Updates\<close>

record caller_update =
  cu_first_name :: "str option"
  cu_last_name :: "str option"
  cu_email :: "str option"
  cu_company :: "str option"
  cu_timezone :: "str option"
  cu_preferred_language :: "str option"
  cu_notes :: "str list"

definition merge_option :: "str option \<Rightarrow> str option \<Rightarrow> str option" where
  "merge_option target candidate =
     (case candidate of None \<Rightarrow> target | Some v \<Rightarrow> if str_trim v = [] then target else Some (str_trim v))"

fun merge_notes :: "str list \<Rightarrow> str list \<Rightarrow> str list" where
  "merge_notes target [] = target"
| "merge_notes target (note # notes) =
     (let trimmed = str_trim note in
      if trimmed = [] then merge_notes target notes
      else if \<not> list_ex (\<lambda>existing. eq_ignore_ascii_case existing trimmed) target
      then merge_notes (target @ [trimmed]) notes
      else merge_notes target notes)"

definition apply_update :: "caller_update \<Rightarrow> str \<Rightarrow> caller_record \<Rightarrow> caller_record" where
  "apply_update u now r =
     (let r = r\<lparr>cr_first_name := merge_option (cr_first_name r) (cu_first_name u),
               cr_last_name := merge_option (cr_last_name r) (cu_last_name u),
               cr_email := merge_option (cr_email r) (map_option to_ascii_lowercase (cu_email u)),
               cr_company := merge_option (cr_company r) (cu_company u),
               cr_timezone := merge_option (cr_timezone r) (cu_timezone u),
               cr_preferred_language := merge_option (cr_preferred_language r) (cu_preferred_language u),
               cr_notes := merge_notes (cr_notes r) (cu_notes u)\<rparr>
      in (sanitize r)\<lparr>cr_last_seen_at := now\<rparr>)"

section \<open>The store\<close>

type_synonym persist = "callers \<Rightarrow> (string, unit) result"

definition phone_book_load :: "persist \<Rightarrow> str \<Rightarrow> callers \<Rightarrow> (string, callers) result" where
  "phone_book_load save now file =
     (case seed_policy_entries now file of (b, seeded) \<Rightarrow>
       let b = sanitize_phone_book b in
       rbind (if seeded then save b else Inr ()) (\<lambda>_. Inr b))"

definition touch_caller :: "persist \<Rightarrow> str \<Rightarrow> str \<Rightarrow> callers \<Rightarrow> callers \<times> (string, caller_record) result" where
  "touch_caller save now caller_id b =
     (let r = (case b caller_id of Some r \<Rightarrow> r | None \<Rightarrow> caller_record_new caller_id now);
          r = r\<lparr>cr_last_seen_at := now, cr_call_count := cr_call_count r + 1\<rparr>;
          b = b(caller_id \<mapsto> r)
      in (b, rbind (save b) (\<lambda>_. Inr r)))"

definition phone_book_get :: "str \<Rightarrow> callers \<Rightarrow> caller_record option" where
  "phone_book_get caller_id b =
     (case b caller_id of None \<Rightarrow> None | Some r \<Rightarrow> if \<not> cr_system_entry r then Some r else None)"

definition merge_update ::
    "persist \<Rightarrow> str \<Rightarrow> str \<Rightarrow> str \<Rightarrow> caller_update \<Rightarrow> callers \<Rightarrow> callers \<times> (string, caller_record) result" where
  "merge_update save created now caller_id u b =
     (let r = (case b caller_id of Some r \<Rightarrow> r | None \<Rightarrow> caller_record_new caller_id created);
          r = apply_update u now r;
          b = b(caller_id \<mapsto> r)
      in (b, rbind (save b) (\<lambda>_. Inr r)))"

datatype policy_match = PolicyExact | PolicyWildcard | PolicyNoCallerId

record access_decision =
  ac_caller_id :: "str option"
  ac_allowed :: bool
  ac_matched_policy :: policy_match
  ac_matched_record_key :: str
  ac_track_existing_caller :: bool

definition entry_enabled :: "caller_record option \<Rightarrow> bool" where
  "entry_enabled e = (case e of Some r \<Rightarrow> \<not> cr_disabled r | None \<Rightarrow> False)"

definition inbound_access_decision :: "str \<Rightarrow> callers \<Rightarrow> access_decision" where
  "inbound_access_decision raw b =
     (case normalize_caller_id raw of
        Some caller_id \<Rightarrow>
          (case b caller_id of
             Some r \<Rightarrow> \<lparr>ac_caller_id = Some caller_id, ac_allowed = (\<not> cr_disabled r), ac_matched_policy = PolicyExact,
                        ac_matched_record_key = caller_id, ac_track_existing_caller = (\<not> cr_disabled r)\<rparr>
           | None \<Rightarrow> \<lparr>ac_caller_id = Some caller_id, ac_allowed = entry_enabled (b WILDCARD_CALLER_ID),
                      ac_matched_policy = PolicyWildcard, ac_matched_record_key = WILDCARD_CALLER_ID,
                      ac_track_existing_caller = False\<rparr>)
      | None \<Rightarrow> \<lparr>ac_caller_id = None, ac_allowed = entry_enabled (b NO_CALLER_ID_POLICY_KEY),
                 ac_matched_policy = PolicyNoCallerId, ac_matched_record_key = NO_CALLER_ID_POLICY_KEY,
                 ac_track_existing_caller = False\<rparr>)"

section \<open>Normal forms\<close>

lemma caller_id_char_plain:
  "caller_id_char c \<Longrightarrow> \<not> is_whitespace c \<and> c \<notin> {60, 62, 34, 39} \<and> c \<noteq> 59 \<and> c \<noteq> 63 \<and> c \<noteq> 64 \<and> c \<noteq> 58"
  by (auto simp: caller_id_char_def is_ascii_alphanumeric_def is_ascii_digit_def is_ascii_lowercase_def
      is_ascii_uppercase_def is_whitespace_def)

lemma ascii_lower_colon: "ascii_lower c = 58 \<longleftrightarrow> c = 58"
  by (auto simp: ascii_lower_def is_ascii_uppercase_def)

lemma no_colon_no_scheme: "58 \<notin> set s \<Longrightarrow> strip_scheme s = s"
proof -
  assume s: "58 \<notin> set s"
  have "\<not> starts_with (p @ [58]) (to_ascii_lowercase s)" for p
  proof
    assume "starts_with (p @ [58]) (to_ascii_lowercase s)"
    then have "set (p @ [58]) \<subseteq> set (to_ascii_lowercase s)" unfolding starts_with_def by (metis set_take_subset)
    then have "58 \<in> set (to_ascii_lowercase s)" by simp
    then show False using s ascii_lower_colon by (auto simp: to_ascii_lowercase_def)
  qed
  from this[of "lit ''sip''"] this[of "lit ''sips''"] this[of "lit ''tel''"] show ?thesis
    by (simp add: strip_scheme_def)
qed

lemma split_absent: "\<forall>c \<in> set s. \<not> p c \<Longrightarrow> str_split p s = [s]"
  by (induction s) auto

lemma trim_matches_none: "\<forall>c \<in> set s. \<not> p c \<Longrightarrow> trim_matches p s = s"
  by (rule trim_matches_id) (cases "s = []", simp_all)

text \<open>The ids of a book are stable: a normalized id is its own normal form, unless it is reserved.\<close>

lemma normalize_plain:
  assumes "k \<noteq> []" "list_all caller_id_char k"
  shows "normalize_caller_id k = (if to_ascii_lowercase k \<in> set reserved_ids then None else Some k)"
proof -
  have c: "\<forall>c \<in> set k. caller_id_char c" using assms(2) by (simp add: list_all_iff)
  then have q: "\<forall>c \<in> set k. \<not> is_whitespace c" "\<forall>c \<in> set k. \<not> c \<in> {60, 62, 34, 39}"
      "\<forall>c \<in> set k. \<not> (c = 59 \<or> c = 63)" "\<forall>c \<in> set k. \<not> c = 64" "58 \<notin> set k"
    using caller_id_char_plain by blast+
  have "str_trim k = k" using trim_matches_none[OF q(1)] by (simp add: str_trim_def)
  moreover have "filter caller_id_char k = k" using assms(2) by (simp add: list_all_iff filter_id_conv)
  ultimately show ?thesis
    using assms(1) trim_matches_none[OF q(2)] no_colon_no_scheme[OF q(5)] split_absent[OF q(3)] split_absent[OF q(4)]
    by (simp add: normalize_caller_id_def Let_def)
qed

lemma normalized_chars: "normalize_caller_id raw = Some k \<Longrightarrow> k \<noteq> [] \<and> list_all caller_id_char k"
  by (auto simp: normalize_caller_id_def Let_def list_all_iff split: if_splits)

text \<open>
  Normalizing a caller id gives a text of letters, digits and \<open>+-_.\<close> only, so no id can be the
  wildcard entry; normalizing again changes nothing, except that an id which spells one of the
  reserved words is then taken for a hidden caller.
\<close>

theorem normalized_caller_ids_are_stable:
  assumes "normalize_caller_id raw = Some k"
  shows "k \<noteq> [] \<and> list_all caller_id_char k \<and> k \<noteq> WILDCARD_CALLER_ID
    \<and> normalize_caller_id k = (if to_ascii_lowercase k \<in> set reserved_ids then None else Some k)"
proof -
  have k: "k \<noteq> []" "list_all caller_id_char k" using normalized_chars[OF assms] by simp_all
  have "\<not> list_all caller_id_char WILDCARD_CALLER_ID"
    by (simp add: WILDCARD_CALLER_ID_def caller_id_char_def is_ascii_alphanumeric_def is_ascii_digit_def
        is_ascii_lowercase_def is_ascii_uppercase_def)
  then show ?thesis using k normalize_plain[OF k] by auto
qed

theorem normalized_caller_ids_are_stable_witness:
  "normalize_caller_id (lit ''<sip:+61400@host;x=1>'') = Some (lit ''+61400'')
    \<and> normalize_caller_id (lit ''+61400'') = Some (lit ''+61400'')"
proof -
  have n: "normalize_caller_id (lit ''<sip:+61400@host;x=1>'') = Some (lit ''+61400'')" by code_simp
  have "to_ascii_lowercase (lit ''+61400'') \<notin> set reserved_ids" by code_simp
  then show ?thesis using normalized_caller_ids_are_stable[OF n] n by simp
qed

text \<open>
  The SIP form of a hidden caller keeps a caller id, although the bare word has none; and a caller
  can present the key of the policy entry for hidden callers and is then matched exactly by it.
\<close>

lemma anonymous_sip_uri_has_caller_id:
  "normalize_caller_id (lit ''sip:anonymous@anonymous.invalid'') = Some (lit ''anonymous'')
    \<and> normalize_caller_id (lit ''anonymous'') = None"
  by code_simp

lemma policy_key_is_a_caller_id:
  "normalize_caller_id NO_CALLER_ID_POLICY_KEY = Some NO_CALLER_ID_POLICY_KEY"
  by code_simp

section \<open>Access\<close>

text \<open>
  What calls do with the book: an inbound call touches the record it was admitted by, an outbound
  call touches its target, and a conversation updates the record of its caller.
\<close>

inductive book_step :: "str set \<Rightarrow> callers \<Rightarrow> callers \<Rightarrow> bool" for K where
  inbound: "inbound_access_decision raw b = d \<Longrightarrow> ac_allowed d \<Longrightarrow> ac_track_existing_caller d \<Longrightarrow> ac_caller_id d = Some k
    \<Longrightarrow> touch_caller save now k b = (b', r) \<Longrightarrow> book_step K b b'"
| outbound: "k \<in> K \<Longrightarrow> touch_caller save now k b = (b', r) \<Longrightarrow> book_step K b b'"
| updated: "k \<in> K \<Longrightarrow> merge_update save created now k u b = (b', r) \<Longrightarrow> book_step K b b'"

definition same_flags :: "caller_record \<Rightarrow> caller_record \<Rightarrow> bool" where
  "same_flags r q \<longleftrightarrow> cr_disabled q = cr_disabled r \<and> cr_system_entry q = cr_system_entry r"

definition entry_kept :: "bool \<Rightarrow> caller_record option \<Rightarrow> caller_record option \<Rightarrow> bool" where
  "entry_kept may_add e e' =
     (case e of Some r \<Rightarrow> (case e' of Some q \<Rightarrow> same_flags r q | None \<Rightarrow> False)
      | None \<Rightarrow> (case e' of Some q \<Rightarrow> may_add \<and> \<not> cr_disabled q \<and> \<not> cr_system_entry q | None \<Rightarrow> True))"

definition access_kept :: "str set \<Rightarrow> callers \<Rightarrow> callers \<Rightarrow> bool" where
  "access_kept K b b' \<longleftrightarrow> (\<forall>k. entry_kept (k \<in> K) (b k) (b' k))"

lemma entry_kept_refl: "entry_kept m e e"
  by (cases e) (simp_all add: entry_kept_def same_flags_def)

lemma entry_kept_trans: "entry_kept m e f \<Longrightarrow> entry_kept m f g \<Longrightarrow> entry_kept m e g"
  by (cases e; cases f; cases g) (simp_all add: entry_kept_def same_flags_def)

lemma access_kept_refl: "access_kept K b b"
  by (simp add: access_kept_def entry_kept_refl)

lemma access_kept_trans: "access_kept K b c \<Longrightarrow> access_kept K c d \<Longrightarrow> access_kept K b d"
  unfolding access_kept_def using entry_kept_trans by blast

lemma access_keptD: "access_kept K b b' \<Longrightarrow> entry_kept (k \<in> K) (b k) (b' k)"
  by (simp add: access_kept_def)

lemma access_kept_Some: "access_kept K b b' \<Longrightarrow> b k = Some r \<Longrightarrow> \<exists>q. b' k = Some q \<and> same_flags r q"
  using access_keptD[of K b b' k] by (simp add: entry_kept_def split: option.splits)

lemma access_kept_None: "access_kept K b b' \<Longrightarrow> b k = None \<Longrightarrow> k \<notin> K \<Longrightarrow> b' k = None"
  using access_keptD[of K b b' k] by (simp add: entry_kept_def split: option.splits)

lemma apply_update_flags [simp]:
  "cr_disabled (apply_update u now r) = cr_disabled r" "cr_system_entry (apply_update u now r) = cr_system_entry r"
  by (simp_all add: apply_update_def sanitize_def Let_def)

lemma put_kept:
  "b k \<noteq> None \<or> k \<in> K \<Longrightarrow> entry_kept True (b k) (Some q) \<Longrightarrow> access_kept K b (b(k \<mapsto> q))"
  by (auto simp: access_kept_def entry_kept_def same_flags_def split: option.splits)

lemma touch_kept: "b k \<noteq> None \<or> k \<in> K \<Longrightarrow> access_kept K b (fst (touch_caller save now k b))"
  unfolding touch_caller_def Let_def fst_conv
  by (rule put_kept, assumption) (simp add: entry_kept_def same_flags_def caller_record_new_def split: option.splits)

lemma merge_kept: "b k \<noteq> None \<or> k \<in> K \<Longrightarrow> access_kept K b (fst (merge_update save created now k u b))"
  unfolding merge_update_def Let_def fst_conv
  by (rule put_kept, assumption) (simp add: entry_kept_def same_flags_def caller_record_new_def split: option.splits)

lemma tracked_exists: "ac_track_existing_caller (inbound_access_decision raw b) \<Longrightarrow>
    ac_caller_id (inbound_access_decision raw b) = Some k \<Longrightarrow> b k \<noteq> None"
  by (auto simp: inbound_access_decision_def split: option.splits)

lemma book_step_kept: "book_step K b b' \<Longrightarrow> access_kept K b b'"
proof (induction rule: book_step.induct)
  case (inbound raw b d k save now b' r)
  then show ?case using tracked_exists[of raw b k] touch_kept[of b k K save now] by simp
next
  case (outbound k save now b b' r)
  then show ?case using touch_kept[of b k K save now] by simp
next
  case (updated k save created now u b b' r)
  then show ?case using merge_kept[of b k K save created now u] by simp
qed

lemma book_run_kept: "(book_step K)\<^sup>*\<^sup>* b b' \<Longrightarrow> access_kept K b b'"
proof (induction rule: rtranclp_induct)
  case base
  show ?case by (rule access_kept_refl)
next
  case (step c d)
  show ?case by (rule access_kept_trans[OF step.IH book_step_kept[OF step.hyps(2)]])
qed

lemma entry_enabled_kept:
  assumes "access_kept K b b'" "b k \<noteq> None" shows "entry_enabled (b' k) = entry_enabled (b k)"
proof -
  obtain r where r: "b k = Some r" using assms(2) by blast
  then obtain q where "b' k = Some q" "same_flags r q" using access_kept_Some[OF assms(1)] by blast
  then show ?thesis using r by (simp add: same_flags_def entry_enabled_def)
qed

text \<open>
  C38. Calls decide nothing about who may call: along any run of inbound calls, outbound calls and
  profile updates, a caller who has a record, a caller whom no outbound call or update concerned, and
  a caller without id are admitted exactly as before; in particular a record that is disabled stays
  disabled.
\<close>

theorem calls_keep_the_access_policy:
  assumes seeded: "b WILDCARD_CALLER_ID \<noteq> None" "b NO_CALLER_ID_POLICY_KEY \<noteq> None" and steps: "(book_step K)\<^sup>*\<^sup>* b b'"
    and who: "\<forall>k. normalize_caller_id raw = Some k \<longrightarrow> b k \<noteq> None \<or> k \<notin> K"
  shows "ac_allowed (inbound_access_decision raw b') = ac_allowed (inbound_access_decision raw b)
    \<and> (\<forall>k r. b k = Some r \<and> cr_disabled r \<longrightarrow> (\<exists>r'. b' k = Some r' \<and> cr_disabled r'))"
proof -
  have kept: "access_kept K b b'" by (rule book_run_kept[OF steps])
  have disabled: "\<exists>r'. b' k = Some r' \<and> cr_disabled r'" if "b k = Some r" "cr_disabled r" for k r
    using access_kept_Some[OF kept that(1)] that(2) by (auto simp: same_flags_def)
  have "ac_allowed (inbound_access_decision raw b') = ac_allowed (inbound_access_decision raw b)"
  proof (cases "normalize_caller_id raw")
    case None
    then show ?thesis using entry_enabled_kept[OF kept seeded(2)] by (simp add: inbound_access_decision_def)
  next
    case (Some k)
    show ?thesis
    proof (cases "b k")
      case None
      then have "b' k = None" using access_kept_None[OF kept] who Some by blast
      then show ?thesis using None Some entry_enabled_kept[OF kept seeded(1)] by (simp add: inbound_access_decision_def)
    next
      case (Some r)
      then obtain q where "b' k = Some q" "same_flags r q" using access_kept_Some[OF kept] by blast
      then show ?thesis using Some \<open>normalize_caller_id raw = Some k\<close> by (simp add: inbound_access_decision_def same_flags_def)
    qed
  qed
  then show ?thesis using disabled by blast
qed

lemma seeded_entries:
  "phone_book_load save now file = Inr b \<Longrightarrow> b WILDCARD_CALLER_ID \<noteq> None \<and> b NO_CALLER_ID_POLICY_KEY \<noteq> None"
  by (auto simp: phone_book_load_def seed_policy_entries_def or_insert_def sanitize_phone_book_def rbind_Inr_iff Let_def
      split: if_splits)

theorem calls_keep_the_access_policy_witness:
  "\<exists>b b'. phone_book_load (\<lambda>_. Inr ()) (lit ''t'') Map.empty = Inr b \<and> fst (touch_caller (\<lambda>_. Inr ()) (lit ''t'') (lit ''2'') b) = b'
    \<and> \<not> ac_allowed (inbound_access_decision (lit ''1'') b')"
proof -
  obtain b where b: "phone_book_load (\<lambda>_. Inr ()) (lit ''t'') Map.empty = Inr b" by (simp add: phone_book_load_def seed_policy_entries_def Let_def)
  obtain b' r where t: "touch_caller (\<lambda>_. Inr ()) (lit ''t'') (lit ''2'') b = (b', r)" by (cases "touch_caller (\<lambda>_. Inr ()) (lit ''t'') (lit ''2'') b")
  have steps: "(book_step {lit ''2''})\<^sup>*\<^sup>* b b'" using book_step.outbound[OF _ t, of "{lit ''2''}"] by auto
  have n: "normalize_caller_id (lit ''1'') = Some (lit ''1'')" by code_simp
  have "\<not> ac_allowed (inbound_access_decision (lit ''1'') b)"
    using b n by (auto simp: phone_book_load_def seed_policy_entries_def or_insert_def sanitize_phone_book_def Let_def
        inbound_access_decision_def entry_enabled_def new_system_entry_def sanitize_def WILDCARD_CALLER_ID_def
        NO_CALLER_ID_POLICY_KEY_def)
  moreover have "\<forall>k. normalize_caller_id (lit ''1'') = Some k \<longrightarrow> b k \<noteq> None \<or> k \<notin> {lit ''2''}" using n by simp
  ultimately show ?thesis
    using calls_keep_the_access_policy[OF _ _ steps, of "lit ''1''"] seeded_entries[OF b] b t by auto
qed

end
