(* ===== verification/Provider_Types.thy ===== *)
theory Provider_Types
  imports Availability Domain_Values
begin

text \<open>
  The validated values of the provider boundary, \<open>src/pa/providers.rs\<close>: the closed errors, sessions,
  time ranges, calendar events, drafts, promotions, changes and pages. A \<open>DateTime<Utc>\<close> of chrono
  is its instant in nanoseconds.
\<close>

section \<open>Errors\<close>

datatype provider_input_field =
    AccountId | AccessToken | SourceId | ItemId | NextCursor | PifTimeRange | PifRetryAfter | EmailAddress
  | Subject | OperationKey | Label | Limit | ReceivedAt | SentAt | Title | TaskDuration | DueAt | EventId
  | Timezone | LastModifiedAt | ChangedAt | AttendeeRsvp | PifBackupObjectKey | Ciphertext | Checksum
  | EncryptionMetadata | ProviderVersion | UploadedAt | StoredByteCount

datatype retry_after = RetryAfter (ra_duration: int)

datatype provider_error =
    PeInvalidInput provider_input_field
  | PeTokenExpired
  | PeThrottled retry_after
  | PeCursorExpired
  | PeNotFound
  | PeConflict
  | PeUnavailable

type_synonym 'a provider_result = "(provider_error, 'a) result"

definition retry_after_new :: "int \<Rightarrow> retry_after provider_result" where
  "retry_after_new duration =
     (if duration \<le> 0 then Inl (PeInvalidInput PifRetryAfter) else Inr (RetryAfter duration))"

fun pe_retry_after :: "provider_error \<Rightarrow> retry_after option" where
  "pe_retry_after (PeThrottled r) = Some r"
| "pe_retry_after _ = None"

section \<open>Validators\<close>

definition MAX_PROVIDER_ID_LENGTH :: nat where "MAX_PROVIDER_ID_LENGTH = 256"
definition MAX_MAIL_ADDRESS_LENGTH :: nat where "MAX_MAIL_ADDRESS_LENGTH = 320"
definition MAX_MAIL_TEXT_LENGTH :: nat where "MAX_MAIL_TEXT_LENGTH = MAX_PROVIDER_ID_LENGTH"
definition MAX_CALENDAR_TITLE_LENGTH :: nat where "MAX_CALENDAR_TITLE_LENGTH = MAX_PROVIDER_ID_LENGTH"
definition MAX_TIMEZONE_LENGTH :: nat where "MAX_TIMEZONE_LENGTH = MAX_PROVIDER_ID_LENGTH"
definition MAX_MAIL_SYNC_LIMIT :: nat where "MAX_MAIL_SYNC_LIMIT = 100"
definition MAX_PROVIDER_PAGE_LIMIT :: nat where "MAX_PROVIDER_PAGE_LIMIT = MAX_MAIL_SYNC_LIMIT"
definition MAX_CALENDAR_SYNC_LIMIT :: nat where "MAX_CALENDAR_SYNC_LIMIT = MAX_PROVIDER_PAGE_LIMIT"

lemmas provider_limits = MAX_PROVIDER_ID_LENGTH_def MAX_MAIL_ADDRESS_LENGTH_def MAX_MAIL_TEXT_LENGTH_def
  MAX_CALENDAR_TITLE_LENGTH_def MAX_TIMEZONE_LENGTH_def MAX_MAIL_SYNC_LIMIT_def MAX_PROVIDER_PAGE_LIMIT_def
  MAX_CALENDAR_SYNC_LIMIT_def

definition validate_identifier :: "str \<Rightarrow> provider_input_field \<Rightarrow> str provider_result" where
  "validate_identifier v field =
     (if str_trim v = [] \<or> str_len v > MAX_PROVIDER_ID_LENGTH \<or> \<not> list_all is_ascii v \<or> list_ex is_control v
      then Inl (PeInvalidInput field) else Inr v)"

definition validate_mail_text :: "str \<Rightarrow> provider_input_field \<Rightarrow> str provider_result" where
  "validate_mail_text v field =
     (if str_trim v = [] \<or> str_len v > MAX_MAIL_TEXT_LENGTH \<or> list_ex is_control v
      then Inl (PeInvalidInput field) else Inr v)"

definition validate_calendar_title :: "str \<Rightarrow> str provider_result" where
  "validate_calendar_title v =
     (if str_trim v = [] \<or> str_len v > MAX_CALENDAR_TITLE_LENGTH \<or> list_ex is_control v
      then Inl (PeInvalidInput Title) else Inr v)"

text \<open>The zones of the time zone database, a crate, are a parameter.\<close>

definition validate_timezone :: "(str \<Rightarrow> 'z option) \<Rightarrow> str \<Rightarrow> str provider_result" where
  "validate_timezone parse_tz v =
     (if str_trim v = [] \<or> str_len v > MAX_TIMEZONE_LENGTH \<or> str_trim v \<noteq> v \<or> parse_tz v = None
      then Inl (PeInvalidInput Timezone) else Inr v)"

text \<open>\<open>timestamp_nanos_opt\<close>: the nanoseconds since the epoch have to fit an \<open>i64\<close>.\<close>

definition validate_utc_timestamp :: "int \<Rightarrow> provider_input_field \<Rightarrow> int provider_result" where
  "validate_utc_timestamp v field = (if \<not> in_i64 v then Inl (PeInvalidInput field) else Inr v)"

definition is_valid_mail_address :: "str \<Rightarrow> bool" where
  "is_valid_mail_address v =
     (if v = [] \<or> str_trim v \<noteq> v \<or> list_ex is_whitespace v \<or> \<not> list_all email_char v then False
      else let parts = str_split (\<lambda>c. c = 64) v;
               local = (case parts of p # _ \<Rightarrow> p | [] \<Rightarrow> []);
               domain = (case parts of _ # p # _ \<Rightarrow> p | _ \<Rightarrow> [])
           in if length parts > 2 \<or> local = [] \<or> domain = []
                 \<or> starts_with [46] local \<or> ends_with [46] local
                 \<or> starts_with [46] domain \<or> ends_with [46] domain \<or> 46 \<notin> set domain
              then False
              else \<not> list_ex (\<lambda>p. p = []) (str_split (\<lambda>c. c = 46) domain))"

datatype mail_address = MailAddress (ma_str: str)

definition mail_address_new :: "str \<Rightarrow> mail_address provider_result" where
  "mail_address_new v =
     (if str_len v > MAX_MAIL_ADDRESS_LENGTH \<or> \<not> is_valid_mail_address v
      then Inl (PeInvalidInput EmailAddress) else Inr (MailAddress v))"

section \<open>Sessions and ranges\<close>

record provider_session =
  ps_account_id :: str
  ps_access_token :: str
  ps_expires_at :: "int option"

definition session_new :: "str \<Rightarrow> str \<Rightarrow> int option \<Rightarrow> provider_session provider_result" where
  "session_new account_id access_token expires_at =
     rbind (validate_identifier account_id AccountId) (\<lambda>account_id.
       if str_trim access_token = [] \<or> list_ex is_control access_token then Inl (PeInvalidInput AccessToken)
       else Inr \<lparr>ps_account_id = account_id, ps_access_token = access_token, ps_expires_at = expires_at\<rparr>)"

record time_range =
  tr_start :: int
  tr_end :: int

definition time_range_new :: "int \<Rightarrow> int \<Rightarrow> time_range provider_result" where
  "time_range_new s e =
     rbind (validate_utc_timestamp s PifTimeRange) (\<lambda>s.
     rbind (validate_utc_timestamp e PifTimeRange) (\<lambda>e.
       if \<not> s < e then Inl (PeInvalidInput PifTimeRange) else Inr \<lparr>tr_start = s, tr_end = e\<rparr>))"

section \<open>Events\<close>

datatype rsvp = NeedsAction | Accepted | Declined | Tentative

record calendar_attendee =
  at_address :: mail_address
  at_rsvp :: rsvp

definition attendee_new :: "mail_address \<Rightarrow> rsvp \<Rightarrow> calendar_attendee provider_result" where
  "attendee_new a r = Inr \<lparr>at_address = a, at_rsvp = r\<rparr>"

definition needs_action :: "mail_address \<Rightarrow> calendar_attendee" where
  "needs_action a = \<lparr>at_address = a, at_rsvp = NeedsAction\<rparr>"

datatype provider_event_id = ProviderEventId (pe_str: str)

definition event_id_new :: "str \<Rightarrow> provider_event_id provider_result" where
  "event_id_new v = rbind (validate_identifier v EventId) (\<lambda>v. Inr (ProviderEventId v))"

datatype changed_at = CalendarChangedAt (ca_time: int)

definition changed_at_new :: "int \<Rightarrow> changed_at provider_result" where
  "changed_at_new v = rbind (validate_utc_timestamp v ChangedAt) (\<lambda>v. Inr (CalendarChangedAt v))"

record calendar_event =
  ce_provider_event_id :: str
  ce_operation_key :: str
  ce_title :: str
  ce_time_range :: time_range
  ce_timezone :: str
  ce_attendees :: "calendar_attendee list"
  ce_last_modified_at :: int

definition event_new ::
    "(str \<Rightarrow> 'z option) \<Rightarrow> str \<Rightarrow> str \<Rightarrow> str \<Rightarrow> time_range \<Rightarrow> str \<Rightarrow> calendar_attendee list \<Rightarrow> int
      \<Rightarrow> calendar_event provider_result" where
  "event_new parse_tz provider_event_id operation_key title span timezone attendees last_modified_at =
     (if \<not> distinct (map at_address attendees) then Inl (PeInvalidInput EmailAddress)
      else rbind (validate_identifier provider_event_id EventId) (\<lambda>provider_event_id.
      rbind (validate_identifier operation_key OperationKey) (\<lambda>operation_key.
      rbind (validate_calendar_title title) (\<lambda>title.
      rbind (validate_timezone parse_tz timezone) (\<lambda>timezone.
      rbind (validate_utc_timestamp last_modified_at LastModifiedAt) (\<lambda>last_modified_at.
        Inr \<lparr>ce_provider_event_id = provider_event_id, ce_operation_key = operation_key, ce_title = title,
             ce_time_range = span, ce_timezone = timezone, ce_attendees = attendees,
             ce_last_modified_at = last_modified_at\<rparr>))))))"

datatype calendar_change =
    Upsert calendar_event
  | Deleted provider_event_id changed_at

definition change_upsert :: "calendar_event \<Rightarrow> calendar_change provider_result" where
  "change_upsert e = Inr (Upsert e)"

definition change_deleted :: "str \<Rightarrow> int \<Rightarrow> calendar_change provider_result" where
  "change_deleted i t =
     rbind (event_id_new i) (\<lambda>i. rbind (changed_at_new t) (\<lambda>t. Inr (Deleted i t)))"

fun cc_provider_event_id :: "calendar_change \<Rightarrow> str" where
  "cc_provider_event_id (Upsert e) = ce_provider_event_id e"
| "cc_provider_event_id (Deleted i t) = pe_str i"

fun cc_changed_at :: "calendar_change \<Rightarrow> int" where
  "cc_changed_at (Upsert e) = ce_last_modified_at e"
| "cc_changed_at (Deleted i t) = ca_time t"

fun cc_event :: "calendar_change \<Rightarrow> calendar_event option" where
  "cc_event (Upsert e) = Some e"
| "cc_event (Deleted i t) = None"

section \<open>Drafts and promotions\<close>

record owner_event_draft =
  oe_operation_key :: str
  oe_title :: str
  oe_time_range :: time_range
  oe_timezone :: str

definition owner_event_draft_new ::
    "(str \<Rightarrow> 'z option) \<Rightarrow> str \<Rightarrow> str \<Rightarrow> time_range \<Rightarrow> str \<Rightarrow> owner_event_draft provider_result" where
  "owner_event_draft_new parse_tz operation_key title span timezone =
     rbind (validate_identifier operation_key OperationKey) (\<lambda>operation_key.
     rbind (validate_calendar_title title) (\<lambda>title.
     rbind (validate_timezone parse_tz timezone) (\<lambda>timezone.
       Inr \<lparr>oe_operation_key = operation_key, oe_title = title, oe_time_range = span, oe_timezone = timezone\<rparr>)))"

record google_proposal_draft =
  gp_operation_key :: str
  gp_pending_title :: str
  gp_time_range :: time_range
  gp_timezone :: str
  gp_owner :: calendar_attendee

definition google_proposal_draft_new ::
    "(str \<Rightarrow> 'z option) \<Rightarrow> str \<Rightarrow> str \<Rightarrow> time_range \<Rightarrow> str \<Rightarrow> calendar_attendee list
      \<Rightarrow> google_proposal_draft provider_result" where
  "google_proposal_draft_new parse_tz operation_key pending_title span timezone attendees =
     (if length attendees \<noteq> 1 \<or> at_rsvp (attendees ! 0) \<noteq> NeedsAction then Inl (PeInvalidInput AttendeeRsvp)
      else rbind (validate_identifier operation_key OperationKey) (\<lambda>operation_key.
      rbind (validate_calendar_title pending_title) (\<lambda>pending_title.
      rbind (validate_timezone parse_tz timezone) (\<lambda>timezone.
        Inr \<lparr>gp_operation_key = operation_key, gp_pending_title = pending_title, gp_time_range = span,
             gp_timezone = timezone, gp_owner = hd attendees\<rparr>))))"

definition from_owner ::
    "(str \<Rightarrow> 'z option) \<Rightarrow> str \<Rightarrow> str \<Rightarrow> time_range \<Rightarrow> str \<Rightarrow> calendar_attendee
      \<Rightarrow> google_proposal_draft provider_result" where
  "from_owner parse_tz operation_key pending_title span timezone owner =
     google_proposal_draft_new parse_tz operation_key pending_title span timezone [owner]"

definition gp_attendees :: "google_proposal_draft \<Rightarrow> calendar_attendee list" where
  "gp_attendees d = [gp_owner d]"

record google_proposal_promotion =
  pm_provider_event_id :: str
  pm_final_title :: str
  pm_requester :: "calendar_attendee option"
  pm_expected_owner_acceptance :: bool

definition promotion_new ::
    "str \<Rightarrow> str \<Rightarrow> calendar_attendee option \<Rightarrow> bool \<Rightarrow> google_proposal_promotion provider_result" where
  "promotion_new provider_event_id final_title requester expected =
     rbind (validate_identifier provider_event_id EventId) (\<lambda>provider_event_id.
     rbind (validate_calendar_title final_title) (\<lambda>final_title.
       Inr \<lparr>pm_provider_event_id = provider_event_id, pm_final_title = final_title, pm_requester = requester,
            pm_expected_owner_acceptance = expected\<rparr>))"

section \<open>Pages\<close>

record item_failure =
  if_source_id :: str
  if_item_id :: str
  if_error :: provider_error

definition item_failure_new :: "str \<Rightarrow> str \<Rightarrow> provider_error \<Rightarrow> item_failure provider_result" where
  "item_failure_new source_id item_id e =
     rbind (validate_identifier source_id SourceId) (\<lambda>source_id.
     rbind (validate_identifier item_id ItemId) (\<lambda>item_id.
       Inr \<lparr>if_source_id = source_id, if_item_id = item_id, if_error = e\<rparr>))"

record 'a sync_page =
  pg_items :: "'a list"
  pg_next_cursor :: "str option"
  pg_item_failures :: "item_failure list"

definition sync_page_new :: "'a list \<Rightarrow> str option \<Rightarrow> item_failure list \<Rightarrow> 'a sync_page provider_result" where
  "sync_page_new items next_cursor failures =
     rbind (transpose (map_option (\<lambda>c. validate_identifier c NextCursor) next_cursor)) (\<lambda>next_cursor.
       Inr \<lparr>pg_items = items, pg_next_cursor = next_cursor, pg_item_failures = failures\<rparr>)"

record calendar_sync_request =
  sr_time_range :: time_range
  sr_cursor :: "str option"
  sr_limit :: nat

definition sync_request_new :: "time_range \<Rightarrow> str option \<Rightarrow> nat \<Rightarrow> calendar_sync_request provider_result" where
  "sync_request_new span cursor limit =
     (if limit = 0 \<or> limit > MAX_CALENDAR_SYNC_LIMIT then Inl (PeInvalidInput Limit)
      else rbind (transpose (map_option (\<lambda>c. validate_identifier c NextCursor) cursor)) (\<lambda>cursor.
        Inr \<lparr>sr_time_range = span, sr_cursor = cursor, sr_limit = limit\<rparr>))"

section \<open>Facts\<close>

definition plain_id :: "str \<Rightarrow> bool" where
  "plain_id v \<longleftrightarrow> str_trim v \<noteq> [] \<and> str_len v \<le> 256 \<and> list_all is_ascii v \<and> \<not> list_ex is_control v"

lemma validate_identifier_Inr: "validate_identifier v f = Inr w \<longleftrightarrow> w = v \<and> plain_id v"
  by (auto simp: validate_identifier_def plain_id_def provider_limits)

lemma validate_utc_timestamp_Inr: "validate_utc_timestamp v f = Inr w \<longleftrightarrow> w = v \<and> in_i64 v"
  by (auto simp: validate_utc_timestamp_def)

lemma time_range_new_Inr:
  "time_range_new s e = Inr r \<longleftrightarrow> in_i64 s \<and> in_i64 e \<and> s < e \<and> r = \<lparr>tr_start = s, tr_end = e\<rparr>"
  by (auto simp: time_range_new_def rbind_Inr_iff validate_utc_timestamp_Inr)

text \<open>The two copies of the address check agree.\<close>

lemma is_valid_mail_address_eq: "is_valid_mail_address v = is_valid_email v"
  by (simp only: is_valid_mail_address_def is_valid_email_def)

definition title_text :: "str \<Rightarrow> bool" where
  "title_text v \<longleftrightarrow> str_trim v \<noteq> [] \<and> str_len v \<le> 256 \<and> \<not> list_ex is_control v"

lemma validate_calendar_title_Inr: "validate_calendar_title v = Inr w \<longleftrightarrow> w = v \<and> title_text v"
  by (auto simp: validate_calendar_title_def title_text_def provider_limits)

definition zone_text :: "(str \<Rightarrow> 'z option) \<Rightarrow> str \<Rightarrow> bool" where
  "zone_text parse_tz v \<longleftrightarrow> v \<noteq> [] \<and> str_len v \<le> 256 \<and> str_trim v = v \<and> parse_tz v \<noteq> None"

lemma validate_timezone_Inr: "validate_timezone P v = Inr w \<longleftrightarrow> w = v \<and> zone_text P v"
  by (auto simp: validate_timezone_def zone_text_def provider_limits)

lemma event_new_Inr:
  "event_new P i k t r z as m = Inr e \<longleftrightarrow> distinct (map at_address as) \<and> plain_id i \<and> plain_id k \<and> title_text t
     \<and> zone_text P z \<and> in_i64 m
     \<and> e = \<lparr>ce_provider_event_id = i, ce_operation_key = k, ce_title = t, ce_time_range = r, ce_timezone = z,
          ce_attendees = as, ce_last_modified_at = m\<rparr>"
  by (auto simp: event_new_def rbind_Inr_iff validate_identifier_Inr validate_calendar_title_Inr validate_timezone_Inr
      validate_utc_timestamp_Inr)

lemma owner_event_draft_new_Inr:
  "owner_event_draft_new P k t r z = Inr d \<longleftrightarrow> plain_id k \<and> title_text t \<and> zone_text P z
     \<and> d = \<lparr>oe_operation_key = k, oe_title = t, oe_time_range = r, oe_timezone = z\<rparr>"
  by (auto simp: owner_event_draft_new_def rbind_Inr_iff validate_identifier_Inr validate_calendar_title_Inr validate_timezone_Inr)

end
