(* ===== verification/State_Result.thy ===== *)
theory State_Result
  imports Rust_Prelude
begin

text \<open>
  Computations that change a state and may fail: on an early return the changes made so far stay.
  This is the shape of the services, which call the store and the providers one after another.
\<close>

type_synonym ('s, 'e, 'a) op = "'s \<Rightarrow> 's \<times> ('e, 'a) result"

definition sret :: "'a \<Rightarrow> ('s, 'e, 'a) op" where
  "sret x s = (s, Inr x)"

definition sfail :: "'e \<Rightarrow> ('s, 'e, 'a) op" where
  "sfail e s = (s, Inl e)"

definition sbind :: "('s, 'e, 'a) op \<Rightarrow> ('a \<Rightarrow> ('s, 'e, 'b) op) \<Rightarrow> ('s, 'e, 'b) op" where
  "sbind m f s = (case m s of (s', r) \<Rightarrow> (case r of Inl e \<Rightarrow> (s', Inl e) | Inr x \<Rightarrow> f x s'))"

definition slift :: "('e, 'a) result \<Rightarrow> ('s, 'e, 'a) op" where
  "slift r s = (s, r)"

definition sget :: "('s \<Rightarrow> 'a) \<Rightarrow> ('s, 'e, 'a) op" where
  "sget f s = (s, Inr (f s))"

definition smap_err :: "('e \<Rightarrow> 'f) \<Rightarrow> ('s, 'e, 'a) op \<Rightarrow> ('s, 'f, 'a) op" where
  "smap_err g m s = (case m s of (s', r) \<Rightarrow> (s', map_err g r))"

lemma s_simps [simp]:
  "sret x s = (s, Inr x)"
  "sfail e s = (s, Inl e)"
  "slift r s = (s, r)"
  "sget f s = (s, Inr (f s))"
  by (simp_all add: sret_def sfail_def slift_def sget_def)

lemma sbind_simps:
  "m s = (s', Inl e) \<Longrightarrow> sbind m f s = (s', Inl e)"
  "m s = (s', Inr x) \<Longrightarrow> sbind m f s = f x s'"
  by (simp_all add: sbind_def)

lemma sbind_pure [simp]:
  "sbind (sret x) f = f x"
  "sbind (sfail e) f = sfail e"
  "sbind (slift (Inr x)) f = f x"
  "sbind (slift (Inl e)) f = sfail e"
  by (simp_all add: sbind_def fun_eq_iff)

lemma sbind_Inr_iff: "sbind m f s = (t, Inr y) \<longleftrightarrow> (\<exists>s' x. m s = (s', Inr x) \<and> f x s' = (t, Inr y))"
  by (auto simp: sbind_def split: prod.splits sum.splits)

lemma sbind_Inl_iff:
  "sbind m f s = (t, Inl e) \<longleftrightarrow> m s = (t, Inl e) \<or> (\<exists>s' x. m s = (s', Inr x) \<and> f x s' = (t, Inl e))"
  by (auto simp: sbind_def split: prod.splits sum.splits)

lemma smap_err_Inr_iff [simp]: "smap_err g m s = (t, Inr y) \<longleftrightarrow> m s = (t, Inr y)"
  by (auto simp: smap_err_def split: prod.splits)

lemma smap_err_Inl_iff: "smap_err g m s = (t, Inl e) \<longleftrightarrow> (\<exists>d. m s = (t, Inl d) \<and> e = g d)"
  by (auto simp: smap_err_def map_err_Inl_iff split: prod.splits)

text \<open>A predicate that every step keeps is kept by the whole, whether it succeeds or not.\<close>

definition keeps :: "('s \<Rightarrow> 's \<Rightarrow> bool) \<Rightarrow> ('s, 'e, 'a) op \<Rightarrow> bool" where
  "keeps R m \<longleftrightarrow> (\<forall>s. R s (fst (m s)))"

lemma keeps_pure: "(\<And>s. R s s) \<Longrightarrow> keeps R (sret x)" "(\<And>s. R s s) \<Longrightarrow> keeps R (sfail e)"
  "(\<And>s. R s s) \<Longrightarrow> keeps R (slift r)" "(\<And>s. R s s) \<Longrightarrow> keeps R (sget f)"
  by (simp_all add: keeps_def)

lemma keeps_sbind:
  assumes "\<And>s t u. R s t \<Longrightarrow> R t u \<Longrightarrow> R s u" "keeps R m" "\<And>x. keeps R (f x)"
  shows "keeps R (sbind m f)"
  unfolding keeps_def
proof
  fix s
  obtain s' r where m: "m s = (s', r)" by (cases "m s")
  have "R s s'" using assms(2) m unfolding keeps_def by (metis fst_conv)
  then show "R s (fst (sbind m f s))"
    using m assms(1,3) unfolding keeps_def by (cases r) (auto simp: sbind_def)
qed

lemma keeps_smap_err: "keeps R m \<Longrightarrow> keeps R (smap_err g m)"
  by (simp add: keeps_def smap_err_def split: prod.splits) (metis fst_conv)

end
