(* ===== verification/Assistant_Service.thy ===== *)
theory Assistant_Service
  imports Store_Owner_Tasks Store_Notifications Store_Messages Store_Audit Availability Provider_Types State_Result
    Phone_Book
begin

text \<open>
  The application services of the assistant, \<open>src/pa/service.rs\<close>: they search slots, prepare and
  submit appointment requests and owner tasks, and record messages, over the store and the two
  calendar providers. An operation is a computation over a pair: the database and the world of the
  providers; what was done before an early return stays. The providers are a record of such
  computations over their world (the sessions are constant and left out). SHA-256, the local date
  and time of a zone and the fresh identity of a quote are parameters; \<open>clk n\<close> and \<open>now_utc n\<close> are
  the clock readings of the n-th store call of an operation.
\<close>

section \<open>Errors and the service\<close>

datatype service_error =
    SvInvalidInput string
  | SvAvailability availability_error
  | SvOutlookCalendar provider_error
  | SvGoogleCalendar provider_error
  | SvStore store_error
  | SvDomain domain_error
  | SvOwnerNotConfigured
  | SvNoAvailability

type_synonym 'a service_result = "(service_error, 'a) result"

fun availability_category :: "availability_error \<Rightarrow> str" where
  "availability_category (InvalidBusyInterval s e) = lit ''invalid_busy_interval''"
| "availability_category (InvalidWorkingWindow s e) = lit ''invalid_working_window''"
| "availability_category (InvalidTimezone z) = lit ''invalid_timezone''"
| "availability_category (InvalidDuration f) = lit ''invalid_duration''"
| "availability_category DateTimeOverflow = lit ''date_time_overflow''"

record 'w calendars =
  outlook_list_busy :: "time_range \<Rightarrow> ('w, provider_error, busy_interval list) op"
  outlook_find_owner_event :: "owner_event_draft \<Rightarrow> ('w, provider_error, calendar_event) op"
  outlook_create_owner_event :: "owner_event_draft \<Rightarrow> ('w, provider_error, calendar_event) op"
  google_list_busy :: "time_range \<Rightarrow> ('w, provider_error, busy_interval list) op"
  google_find_proposal :: "google_proposal_draft \<Rightarrow> ('w, provider_error, calendar_event) op"
  google_create_proposal :: "google_proposal_draft \<Rightarrow> ('w, provider_error, calendar_event) op"

record 'w pa_service =
  sv_texts :: texts
  sv_json :: json
  sv_sha256 :: "u8 list \<Rightarrow> u8 list"
  sv_local_date :: "str \<Rightarrow> int \<Rightarrow> str"
  sv_local_time :: "str \<Rightarrow> int \<Rightarrow> str"
  sv_calendars :: "'w calendars"
  sv_policy :: availability_policy
  sv_owner :: "mail_address option"

abbreviation sv_codec :: "'w pa_service \<Rightarrow> codec" where "sv_codec S \<equiv> tx_time (sv_texts S)"

type_synonym ('w, 'a) service_op = "(db \<times> 'w, service_error, 'a) op"
type_synonym ('w, 'a) service_outcome = "(db \<times> 'w, service_error fault, 'a) op"

definition on_store :: "(db \<Rightarrow> db \<times> ('e, 'a) result) \<Rightarrow> (db \<times> 'w, 'e, 'a) op" where
  "on_store f s = (case f (fst s) of (db, r) \<Rightarrow> ((db, snd s), r))"

definition from_store :: "(db \<Rightarrow> ('e, 'a) result) \<Rightarrow> (db \<times> 'w, 'e, 'a) op" where
  "from_store f s = (s, f (fst s))"

definition on_world :: "('w, 'e, 'a) op \<Rightarrow> (db \<times> 'w, 'e, 'a) op" where
  "on_world f s = (case f (snd s) of (w, r) \<Rightarrow> ((fst s, w), r))"

text \<open>\<open>match\<close> on the result of a call.\<close>

definition smatch :: "('s, 'e, 'a) op \<Rightarrow> (('e, 'a) result \<Rightarrow> ('s, 'd, 'b) op) \<Rightarrow> ('s, 'd, 'b) op" where
  "smatch m f s = (case m s of (s', r) \<Rightarrow> f r s')"

text \<open>A provider call, or a store call that may panic, inside an operation that may.\<close>

definition outcome :: "('e \<Rightarrow> service_error) \<Rightarrow> (db \<times> 'w, 'e, 'a) op \<Rightarrow> ('w, 'a) service_outcome" where
  "outcome f = smap_err (\<lambda>e. Failed (f e))"

definition store_outcome_op :: "(db \<times> 'w, store_error fault, 'a) op \<Rightarrow> ('w, 'a) service_outcome" where
  "store_outcome_op = smap_err (map_fault SvStore)"

definition slift_fail :: "'a service_result \<Rightarrow> ('w, 'a) service_outcome" where
  "slift_fail r = slift (or_fail r)"

definition store_check :: "'a store_result \<Rightarrow> ('w, 'a) service_op" where
  "store_check r = slift (map_err SvStore r)"

section \<open>Helpers\<close>

definition PENDING_PROPOSAL_TITLE :: str where "PENDING_PROPOSAL_TITLE = lit ''Pending assistant request''"
definition OWNER_VERIFICATION_VALID_FOR :: int where "OWNER_VERIFICATION_VALID_FOR = 60"

definition proposal_operation_key :: "int \<Rightarrow> str" where
  "proposal_operation_key draft_id = lit ''pa-google-proposal-draft-'' @ show_int draft_id"

definition owner_fingerprint :: "(u8 list \<Rightarrow> u8 list) \<Rightarrow> str \<Rightarrow> str" where
  "owner_fingerprint sha owner = lower_hex (sha (str_bytes owner))"

definition event_mapping_source :: "(u8 list \<Rightarrow> u8 list) \<Rightarrow> int \<Rightarrow> mail_address \<Rightarrow> str" where
  "event_mapping_source sha proposal_id owner =
     lit ''pa-event-source-'' @ show_int proposal_id @ lit ''-'' @ owner_fingerprint sha (ma_str owner)"

definition owner_caller_fingerprint :: "(u8 list \<Rightarrow> u8 list) \<Rightarrow> str \<Rightarrow> str" where
  "owner_caller_fingerprint sha normalized_caller =
     lower_hex (sha (str_bytes (lit ''agent_voice_owner_v1'') @ [0] @ str_bytes normalized_caller))"

definition normalize_owner_number :: "str \<Rightarrow> string \<Rightarrow> str service_result" where
  "normalize_owner_number raw field = ok_or (SvInvalidInput field) (normalize_caller_id raw)"

definition canonical_owner_time :: "odt \<Rightarrow> string \<Rightarrow> odt service_result" where
  "canonical_owner_time v field = (if \<not> is_utc v \<or> nanosecond v \<noteq> 0 then Inl (SvInvalidInput field) else Inr v)"

definition service_chrono_utc :: "odt \<Rightarrow> int service_result" where
  "service_chrono_utc v = map_err SvAvailability (to_chrono_utc v)"

definition service_range :: "odt \<Rightarrow> odt \<Rightarrow> time_range service_result" where
  "service_range s e =
     rbind (service_chrono_utc s) (\<lambda>s. rbind (service_chrono_utc e) (\<lambda>e.
       map_err (\<lambda>_. SvInvalidInput ''time_range'') (time_range_new s e)))"

definition canonicalize_utc_second :: "odt \<Rightarrow> odt" where
  "canonicalize_utc_second v = (to_utc v)\<lparr>instant_ns := instant_ns v - nanosecond v\<rparr>"

definition canonicalize_submission_timestamp :: "odt \<Rightarrow> odt \<Rightarrow> odt \<Rightarrow> odt service_result" where
  "canonicalize_submission_timestamp validation_now issued_at expires_at =
     (let durable_now = canonicalize_utc_second validation_now in
      if \<not> before durable_now issued_at then Inr durable_now
      else rbind (ok_or (SvAvailability DateTimeOverflow) (odt_checked_add durable_now 1)) (\<lambda>next_second.
        if \<not> before next_second expires_at then Inl (SvStore (Conflict ''appointment quote'')) else Inr next_second))"

definition busy_overlaps :: "busy_interval list \<Rightarrow> odt \<Rightarrow> odt \<Rightarrow> bool" where
  "busy_overlaps intervals starts_at ends_at =
     list_ex (\<lambda>i. before (bi_starts_at i) ends_at \<and> before starts_at (bi_ends_at i)) intervals"

definition appointment_recap :: "'w pa_service \<Rightarrow> appointment_draft \<Rightarrow> str \<Rightarrow> str service_result" where
  "appointment_recap S draft timezone =
     rbind (ok_or (SvStore quote_invalid) (tx_zone (sv_texts S) timezone)) (\<lambda>zone.
     rbind (service_chrono_utc (ad_starts_at draft)) (\<lambda>start.
       Inr ((case ad_kind draft of AkCallback \<Rightarrow> lit ''Callback'' | AkMeeting \<Rightarrow> lit ''Meeting'')
            @ lit '' for '' @ ci_name (ad_caller draft) @ lit '' <'' @ ce_value (ci_email (ad_caller draft))
            @ lit ''> on '' @ sv_local_date S zone start @ lit '' at '' @ sv_local_time S zone start
            @ lit '' ('' @ zone @ lit ''); ''
            @ (if ad_requester_included draft then lit ''requester included'' else lit ''requester not included'')
            @ lit ''.'')))"

section \<open>Searching slots\<close>

record availability_search =
  as_quote :: quote
  as_appointment_kind :: appointment_kind
  as_timezone :: str
  as_offered_slots :: "appointment_slot list"

definition offer_slot :: "appointment_kind \<Rightarrow> odt \<Rightarrow> appointment_slot service_result" where
  "offer_slot kind starts_at =
     rbind (ok_or (SvAvailability DateTimeOverflow) (odt_checked_add starts_at (ak_duration kind))) (\<lambda>ends_at.
       map_err (\<lambda>_. SvInvalidInput ''appointment_slot'') (slot_new starts_at ends_at))"

definition search_slots ::
    "'w pa_service \<Rightarrow> appointment_kind \<Rightarrow> odt \<Rightarrow> nat \<Rightarrow> quote_id \<Rightarrow> ('w, availability_search) service_outcome" where
  "search_slots S kind now limit fresh_id =
     (if limit = 0 \<or> limit > MAX_APPOINTMENT_QUOTE_SLOTS then sfail (Failed (SvInvalidInput ''limit''))
      else let now = to_utc now; P = sv_policy S; overflow = SvAvailability DateTimeOverflow in
      sbind (slift_fail (ok_or overflow (odt_checked_add_ns now (ap_booking_horizon P)))) (\<lambda>horizon_end.
      sbind (slift_fail (ok_or overflow (odt_checked_sub_ns now (ap_meeting_buffer P)))) (\<lambda>provider_start.
      sbind (slift_fail (ok_or overflow (odt_checked_add_ns horizon_end (ap_meeting_buffer P)))) (\<lambda>provider_end.
      sbind (slift_fail (ok_or overflow (odt_checked_add now VALID_FOR))) (\<lambda>quote_expiry.
      sbind (slift_fail (service_range provider_start provider_end)) (\<lambda>span.
      sbind (outcome SvOutlookCalendar (on_world (outlook_list_busy (sv_calendars S) span))) (\<lambda>outlook_busy.
      sbind (outcome SvGoogleCalendar (on_world (google_list_busy (sv_calendars S) span))) (\<lambda>google_busy.
      sbind (slift_fail (map_err SvAvailability
               (available_slots P now (ak_duration kind * NANOS) outlook_busy google_busy limit))) (\<lambda>starts.
      if starts = [] then sfail (Failed SvNoAvailability)
      else sbind (slift_fail (rmap (offer_slot kind) starts)) (\<lambda>offered_slots.
      sbind (slift (ok_or Panicked (quote_with_id fresh_id now))) (\<lambda>quote.
      sbind (store_outcome_op (on_store (save_appointment_quote (sv_texts S) quote kind (ap_timezone_name P) offered_slots))) (\<lambda>stored.
        sret \<lparr>as_quote = sq_quote stored, as_appointment_kind = sq_appointment_kind stored,
              as_timezone = sq_timezone stored, as_offered_slots = sq_offered_slots stored\<rparr>))))))))))))"

section \<open>Preparing an appointment request\<close>

record prepared_request =
  rp_draft_id :: int
  rp_quote_id :: quote_id
  rp_source_id :: str
  rp_idempotency_key :: str
  rp_caller :: caller_identity
  rp_kind :: appointment_kind
  rp_starts_at :: odt
  rp_ends_at :: odt
  rp_timezone :: str
  rp_requester_included :: bool
  rp_recap :: str

definition prepare_request ::
    "'w pa_service \<Rightarrow> quote_id \<Rightarrow> 32 word \<Rightarrow> caller_identity \<Rightarrow> appointment_kind \<Rightarrow> bool option \<Rightarrow> str \<Rightarrow> str \<Rightarrow> odt
      \<Rightarrow> ('w, prepared_request) service_outcome" where
  "prepare_request S quote_id slot_index caller kind requester_included source_id key now =
     sbind (store_outcome_op (from_store (load_appointment_quote_by_id (sv_texts S) quote_id))) (\<lambda>quoted.
     if sq_appointment_kind quoted \<noteq> kind then sfail (Failed (SvStore (Conflict ''appointment quote'')))
     else if unat slot_index \<ge> length (sq_offered_slots quoted)
     then sfail (Failed (SvStore (if sq_appointment_draft quoted \<noteq> None then Conflict ''appointment quote''
                                  else InvalidInput ''slot_index'')))
     else let slot = sq_offered_slots quoted ! unat slot_index;
              included = (case requester_included of Some b \<Rightarrow> b | None \<Rightarrow> requester_included_by_default kind) in
     sbind (slift (case ad_new_with_requester_inclusion kind caller (slot_starts_at slot) quote_id key included of
                     None \<Rightarrow> Inl Panicked | Some r \<Rightarrow> or_fail (map_err SvDomain r))) (\<lambda>draft.
     sbind (store_outcome_op (on_store (prepare_appointment_draft_from_quote (sv_texts S) quote_id slot_index source_id draft
              (to_utc now)))) (\<lambda>prepared.
     sbind (slift_fail (ok_or (SvStore quote_invalid) (sq_appointment_draft prepared))) (\<lambda>stored.
     let draft = sd_draft stored in
     sbind (slift_fail (appointment_recap S draft (sq_timezone prepared))) (\<lambda>recap.
       sret \<lparr>rp_draft_id = sd_id stored, rp_quote_id = q_id (sq_quote prepared), rp_source_id = sd_source_id stored,
             rp_idempotency_key = ad_idempotency_key draft, rp_caller = ad_caller draft, rp_kind = ad_kind draft,
             rp_starts_at = ad_starts_at draft, rp_ends_at = ad_ends_at draft, rp_timezone = sq_timezone prepared,
             rp_requester_included = ad_requester_included draft, rp_recap = recap\<rparr>)))))"

section \<open>The owner\<close>

datatype owner_confirmation = OwnerConfirmation

definition from_explicit_yes :: "bool \<Rightarrow> owner_confirmation service_result" where
  "from_explicit_yes confirmed = (if confirmed then Inr OwnerConfirmation else Inl (SvInvalidInput ''owner_confirmation''))"

record owner_verified =
  ov_normalized_caller :: str
  ov_fingerprint :: str
  ov_verified_at :: odt
  ov_expires_at :: odt

definition owner_verified_issue ::
    "(u8 list \<Rightarrow> u8 list) \<Rightarrow> str \<Rightarrow> str \<Rightarrow> owner_confirmation \<Rightarrow> odt \<Rightarrow> owner_verified service_result" where
  "owner_verified_issue sha configured_owner_number caller_number c verified_at =
     rbind (normalize_owner_number configured_owner_number ''configured_owner_number'') (\<lambda>configured.
     rbind (normalize_owner_number caller_number ''caller_number'') (\<lambda>normalized_caller.
     if configured \<noteq> normalized_caller then Inl (SvInvalidInput ''owner_binding'')
     else rbind (canonical_owner_time verified_at ''verified_at'') (\<lambda>verified_at.
     rbind (ok_or (SvInvalidInput ''owner_verification'') (odt_checked_add verified_at OWNER_VERIFICATION_VALID_FOR)) (\<lambda>expires_at.
       Inr \<lparr>ov_normalized_caller = normalized_caller, ov_fingerprint = owner_caller_fingerprint sha normalized_caller,
            ov_verified_at = verified_at, ov_expires_at = expires_at\<rparr>))))"

definition owner_verified_validate_at :: "owner_verified \<Rightarrow> str \<Rightarrow> odt \<Rightarrow> unit service_result" where
  "owner_verified_validate_at v caller_number now =
     rbind (normalize_owner_number caller_number ''caller_number'') (\<lambda>caller_number.
     rbind (canonical_owner_time now ''now'') (\<lambda>now.
     if caller_number \<noteq> ov_normalized_caller v then Inl (SvInvalidInput ''owner_binding'')
     else if before now (ov_verified_at v) then Inl (SvInvalidInput ''owner_verification'')
     else if \<not> before now (ov_expires_at v) then Inl (SvInvalidInput ''owner_verification'')
     else Inr ()))"

section \<open>Preparing an owner task\<close>

record prepared_owner_task =
  po_owner_task_draft_id :: int
  po_starts_at :: odt
  po_ends_at :: odt
  po_timezone :: str
  po_operation_key :: str

definition prepare_owner_task ::
    "'w pa_service \<Rightarrow> owner_task_draft \<Rightarrow> str option \<Rightarrow> odt \<Rightarrow> str \<Rightarrow> str \<Rightarrow> owner_verified \<Rightarrow> str \<Rightarrow> odt
      \<Rightarrow> ('w, prepared_owner_task) service_op" where
  "prepare_owner_task S draft source_id starts_at timezone operation_key verified caller_number now =
     sbind (slift (owner_verified_validate_at verified caller_number now)) (\<lambda>_.
     sbind (slift (canonical_owner_time starts_at ''starts_at'')) (\<lambda>starts_at.
     sbind (slift (ok_or (SvInvalidInput ''ends_at'') (odt_checked_add starts_at (dm_as_duration (ot_duration draft))))) (\<lambda>ends_at.
     let fingerprint = ov_fingerprint verified in
     sbind (smap_err SvStore (on_store (save_prepared_owner_task (sv_texts S) source_id draft starts_at ends_at timezone
              operation_key fingerprint))) (\<lambda>(stored_draft, placement).
       if \<not> same_owner_task (so_draft stored_draft) draft \<or> so_source_id stored_draft \<noteq> source_id
          \<or> \<not> same_instant (sp_starts_at placement) starts_at \<or> \<not> same_instant (sp_ends_at placement) ends_at
          \<or> sp_timezone placement \<noteq> timezone \<or> sp_operation_key placement \<noteq> operation_key
          \<or> sp_owner_fingerprint placement \<noteq> fingerprint \<or> sp_draft_id placement \<noteq> so_id stored_draft
       then sfail (SvStore (Conflict ''owner task preparation''))
       else sret \<lparr>po_owner_task_draft_id = so_id stored_draft, po_starts_at = sp_starts_at placement,
                  po_ends_at = sp_ends_at placement, po_timezone = sp_timezone placement,
                  po_operation_key = sp_operation_key placement\<rparr>))))"

section \<open>Submitting an owner task\<close>

record submitted_owner_task =
  su_owner_task_draft_id :: int
  su_provider_event_id :: str
  su_state :: str

definition validate_owner_task_submission ::
    "prepared_owner_task \<Rightarrow> stored_owner_task \<Rightarrow> stored_placement \<Rightarrow> owner_verified \<Rightarrow> unit service_result" where
  "validate_owner_task_submission prepared stored_draft placement verified =
     rbind (ok_or (SvInvalidInput ''ends_at'')
              (odt_checked_add (sp_starts_at placement) (dm_as_duration (ot_duration (so_draft stored_draft))))) (\<lambda>expected_ends_at.
       if po_owner_task_draft_id prepared \<noteq> so_id stored_draft \<or> sp_draft_id placement \<noteq> so_id stored_draft
          \<or> \<not> same_instant (po_starts_at prepared) (sp_starts_at placement)
          \<or> \<not> same_instant (po_ends_at prepared) (sp_ends_at placement)
          \<or> po_timezone prepared \<noteq> sp_timezone placement \<or> po_operation_key prepared \<noteq> sp_operation_key placement
          \<or> sp_owner_fingerprint placement \<noteq> ov_fingerprint verified
          \<or> \<not> is_utc (sp_starts_at placement) \<or> \<not> is_utc (sp_ends_at placement)
          \<or> \<not> same_instant (sp_ends_at placement) expected_ends_at
       then Inl (SvStore (Conflict ''owner task submission'')) else Inr ())"

definition validate_owner_event :: "calendar_event \<Rightarrow> owner_event_draft \<Rightarrow> unit service_result" where
  "validate_owner_event e d =
     (if ce_operation_key e = oe_operation_key d \<and> ce_title e = oe_title d \<and> ce_time_range e = oe_time_range d
         \<and> ce_timezone e = oe_timezone d \<and> ce_attendees e = []
      then Inr () else Inl (SvOutlookCalendar PeConflict))"

definition owner_task_submission_audit_key :: "int \<Rightarrow> str" where
  "owner_task_submission_audit_key i = lit ''pa-owner-task-submitted-'' @ show_int i"

definition ensure_owner_task_submission_audit ::
    "'w pa_service \<Rightarrow> str \<Rightarrow> int \<Rightarrow> odt \<Rightarrow> str \<Rightarrow> ('w, unit) service_op" where
  "ensure_owner_task_submission_audit S key i occurred_at clk =
     (let entity_id = show_int i in
      sbind (smatch (on_store (append_audit_event (sv_codec S) key OwnerTaskSubmitted AeOwnerTask entity_id occurred_at clk))
               (\<lambda>r. case r of
                  Inr audit \<Rightarrow> sret audit
                | Inl (Conflict _) \<Rightarrow>
                    smap_err SvStore (from_store (load_audit_event_by_idempotency_key (sv_codec S) key))
                | Inl e \<Rightarrow> sfail (SvStore e))) (\<lambda>audit.
        if sa_event_type audit \<noteq> OwnerTaskSubmitted \<or> sa_entity_type audit \<noteq> AeOwnerTask \<or> sa_entity_id audit \<noteq> entity_id
        then sfail (SvStore (Conflict ''owner task audit'')) else sret ()))"

text \<open>The event that \<open>find_owner_event\<close> or \<open>create_owner_event\<close> answered, validated.\<close>

definition validated :: "owner_event_draft \<Rightarrow> calendar_event \<Rightarrow> ('w, calendar_event) service_op" where
  "validated d e = sbind (slift (validate_owner_event e d)) (\<lambda>_. sret e)"

definition create_or_recover :: "'w pa_service \<Rightarrow> owner_event_draft \<Rightarrow> ('w, calendar_event) service_op" where
  "create_or_recover S d =
     smatch (on_world (outlook_create_owner_event (sv_calendars S) d)) (\<lambda>r. case r of
       Inr event \<Rightarrow> validated d event
     | Inl create_error \<Rightarrow>
         smatch (on_world (outlook_find_owner_event (sv_calendars S) d)) (\<lambda>r. case r of
           Inr event \<Rightarrow> validated d event
         | Inl PeNotFound \<Rightarrow> sfail (SvOutlookCalendar create_error)
         | Inl recovery_error \<Rightarrow> sfail (SvOutlookCalendar recovery_error)))"

definition find_or_create ::
    "'w pa_service \<Rightarrow> owner_event_draft \<Rightarrow> odt \<Rightarrow> odt \<Rightarrow> ('w, calendar_event) service_op" where
  "find_or_create S d starts_at ends_at =
     smatch (on_world (outlook_find_owner_event (sv_calendars S) d)) (\<lambda>r. case r of
       Inr event \<Rightarrow> validated d event
     | Inl PeNotFound \<Rightarrow>
         sbind (smap_err SvOutlookCalendar (on_world (outlook_list_busy (sv_calendars S) (oe_time_range d)))) (\<lambda>outlook_busy.
         sbind (smap_err SvGoogleCalendar (on_world (google_list_busy (sv_calendars S) (oe_time_range d)))) (\<lambda>google_busy.
         if busy_overlaps outlook_busy starts_at ends_at \<or> busy_overlaps google_busy starts_at ends_at
         then sfail SvNoAvailability
         else create_or_recover S d))
     | Inl e \<Rightarrow> sfail (SvOutlookCalendar e))"

definition submitted_state :: str where "submitted_state = lit ''submitted''"

definition submit_owner_task ::
    "'w pa_service \<Rightarrow> prepared_owner_task \<Rightarrow> owner_verified \<Rightarrow> str \<Rightarrow> odt \<Rightarrow> str \<Rightarrow> ('w, submitted_owner_task) service_op" where
  "submit_owner_task S prepared verified caller_number now clk =
     (let T = sv_texts S; i = po_owner_task_draft_id prepared; audit_key = owner_task_submission_audit_key i in
      sbind (slift (owner_verified_validate_at verified caller_number now)) (\<lambda>_.
      sbind (smap_err SvStore (from_store (load_owner_task_draft_by_id (tx_time T) i))) (\<lambda>stored_draft.
      sbind (smap_err SvStore (from_store (load_owner_task_placement T i))) (\<lambda>placement.
      sbind (slift (validate_owner_task_submission prepared stored_draft placement verified)) (\<lambda>_.
      sbind (slift (service_range (sp_starts_at placement) (sp_ends_at placement))) (\<lambda>span.
      sbind (slift (map_err SvOutlookCalendar (owner_event_draft_new (tx_zone T) (sp_operation_key placement)
                      (ot_title (so_draft stored_draft)) span (sp_timezone placement)))) (\<lambda>event_draft.
      case sp_provider_event_id placement of
        Some provider_event_id \<Rightarrow>
          sbind (ensure_owner_task_submission_audit S audit_key i now clk) (\<lambda>_.
            sret \<lparr>su_owner_task_draft_id = i, su_provider_event_id = provider_event_id, su_state = submitted_state\<rparr>)
      | None \<Rightarrow>
      sbind (find_or_create S event_draft (sp_starts_at placement) (sp_ends_at placement)) (\<lambda>event.
      sbind (smap_err SvStore (on_store (submit_owner_task_placement T i (ce_provider_event_id event)))) (\<lambda>submitted.
      sbind (slift (ok_or (SvStore placement_invalid) (sp_provider_event_id submitted))) (\<lambda>provider_event_id.
      if provider_event_id \<noteq> ce_provider_event_id event \<or> sp_draft_id submitted \<noteq> i \<or> \<not> is_submitted submitted
      then sfail (SvStore (Conflict ''owner task submission''))
      else sbind (ensure_owner_task_submission_audit S audit_key i now clk) (\<lambda>_.
        sret \<lparr>su_owner_task_draft_id = i, su_provider_event_id = provider_event_id, su_state = submitted_state\<rparr>)))))))))))"

section \<open>Recording a message\<close>

record recorded_message =
  rm_message_id :: int
  rm_notification_id :: int

definition record_voice_message ::
    "'w pa_service \<Rightarrow> str \<Rightarrow> str \<Rightarrow> odt \<Rightarrow> (nat \<Rightarrow> str) \<Rightarrow> odt \<Rightarrow> ('w, recorded_message) service_op" where
  "record_voice_message S summary source_id received_at clk now_utc =
     (let C = sv_codec S in
      sbind (slift (ok_or SvOwnerNotConfigured (sv_owner S))) (\<lambda>owner.
      sbind (store_check (validate_message_source_id source_id)) (\<lambda>source_id.
      sbind (store_check (validate_message_source_id (lit ''voice:'' @ source_id))) (\<lambda>stored_source_id.
      let message_key = lit ''pa-voice-message-recorded-'' @ source_id;
          provider_message_id = lit ''pa-voice-provider-message-'' @ source_id;
          notification_key = lit ''pa-voice-call-summary-notification-'' @ source_id;
          message_audit_key = lit ''pa-voice-message-recorded-audit-'' @ source_id;
          notification_audit_key = lit ''pa-voice-notification-enqueued-audit-'' @ source_id in
      sbind (store_check (validate_message_idempotency_key message_key)) (\<lambda>_.
      sbind (store_check (validate_provider_message_id provider_message_id)) (\<lambda>_.
      sbind (store_check (validate_message_idempotency_key notification_key)) (\<lambda>_.
      sbind (store_check (validate_message_idempotency_key message_audit_key)) (\<lambda>_.
      sbind (store_check (validate_message_idempotency_key notification_audit_key)) (\<lambda>_.
      let received_at = canonicalize_utc_second received_at in
      sbind (smap_err SvStore (on_store (record_message C
               \<lparr>rq_idempotency_key = message_key, rq_source_id = stored_source_id, rq_provider = MpVoice,
                rq_provider_message_id = provider_message_id, rq_summary = summary, rq_subject = None, rq_sender = None,
                rq_received_at = received_at\<rparr> (clk 0)))) (\<lambda>message.
      sbind (store_check (recipient_new (ma_str owner))) (\<lambda>recipient.
      sbind (store_check (td_new \<lparr>td_title = Some summary, td_starts_at = None, td_ends_at = None, td_timezone = None,
                      td_appointment_kind = None, td_proposal_state = None\<rparr>)) (\<lambda>template.
      sbind (smap_err SvStore (on_store (enqueue_notification C (sv_json S)
               \<lparr>nq_idempotency_key = notification_key, nq_proposal_id = None, nq_event_mapping_id = None,
                nq_kind = NkCallSummary, nq_recipient = recipient, nq_template_data = template,
                nq_available_at = received_at\<rparr> now_utc))) (\<lambda>notification.
      sbind (smap_err SvStore (on_store (append_audit_event C message_audit_key MessageRecorded AeMessage
               (show_int (sm_id message)) received_at (clk 1)))) (\<lambda>_.
      sbind (smap_err SvStore (on_store (append_audit_event C notification_audit_key NotificationEnqueued AeNotification
               (show_int (sn_id notification)) received_at (clk 2)))) (\<lambda>_.
        sret \<lparr>rm_message_id = sm_id message, rm_notification_id = sn_id notification\<rparr>)))))))))))))))"

section \<open>Submitting a request\<close>

datatype explicit_confirmation = ExplicitConfirmation
datatype confirmed_prepared_request = ConfirmedPreparedRequest (cp_prepared: prepared_request)

definition confirmed_new :: "prepared_request \<Rightarrow> explicit_confirmation \<Rightarrow> confirmed_prepared_request service_result" where
  "confirmed_new prepared c = Inr (ConfirmedPreparedRequest prepared)"

record submitted_request =
  sb_proposal_id :: int
  sb_event_mapping_id :: int
  sb_owner_notification_id :: int
  sb_requester_notification_id :: "int option"
  sb_state :: proposal_state

definition selected_slot :: "stored_appointment_quote \<Rightarrow> appointment_slot option" where
  "selected_slot quote =
     (case sq_selected_slot_index quote of
        None \<Rightarrow> None
      | Some i \<Rightarrow> if unat i < length (sq_offered_slots quote) then Some (sq_offered_slots quote ! unat i) else None)"

definition validate_prepared_request ::
    "'w pa_service \<Rightarrow> prepared_request \<Rightarrow> stored_appointment_quote \<Rightarrow> stored_appointment_draft \<Rightarrow> unit service_result" where
  "validate_prepared_request S p quote stored_draft =
     (let draft = sd_draft stored_draft in
      rbind (ok_or (SvStore quote_invalid) (selected_slot quote)) (\<lambda>slot.
      rbind (appointment_recap S draft (sq_timezone quote)) (\<lambda>expected_recap.
      if rp_draft_id p \<noteq> sd_id stored_draft \<or> rp_quote_id p \<noteq> q_id (sq_quote quote)
         \<or> rp_source_id p \<noteq> sd_source_id stored_draft \<or> rp_idempotency_key p \<noteq> ad_idempotency_key draft
         \<or> rp_caller p \<noteq> ad_caller draft \<or> rp_kind p \<noteq> ad_kind draft
         \<or> \<not> same_instant (rp_starts_at p) (ad_starts_at draft) \<or> \<not> same_instant (rp_ends_at p) (ad_ends_at draft)
         \<or> rp_timezone p \<noteq> sq_timezone quote \<or> rp_requester_included p \<noteq> ad_requester_included draft
         \<or> \<not> same_instant (slot_starts_at slot) (ad_starts_at draft) \<or> \<not> same_instant (slot_ends_at slot) (ad_ends_at draft)
         \<or> \<not> is_utc (ad_starts_at draft) \<or> \<not> is_utc (ad_ends_at draft) \<or> expected_recap \<noteq> rp_recap p
         \<or> ad_quote_id draft \<noteq> q_id (sq_quote quote) \<or> \<not> before (ad_starts_at draft) (ad_ends_at draft)
      then Inl (SvStore (Conflict ''prepared appointment request'')) else Inr ())))"

definition validate_existing_proposal :: "stored_proposal \<Rightarrow> int \<Rightarrow> str \<Rightarrow> str \<Rightarrow> unit service_result" where
  "validate_existing_proposal proposal draft_id proposal_key proposal_source =
     (if appointment_draft_id (sp_source proposal) \<noteq> Some draft_id \<or> sp_idempotency_key proposal \<noteq> proposal_key
         \<or> sp_source_id proposal \<noteq> proposal_source \<or> sp_state proposal \<noteq> PsPending
      then Inl (SvStore (Conflict ''appointment request proposal'')) else Inr ())"

definition validate_existing_mapping :: "stored_event_mapping \<Rightarrow> int \<Rightarrow> str \<Rightarrow> appointment_draft \<Rightarrow> unit service_result" where
  "validate_existing_mapping mapping proposal_id expected_source draft =
     (if se_proposal_id mapping \<noteq> proposal_id \<or> se_provider mapping \<noteq> lit ''google_calendar''
         \<or> se_source_id mapping \<noteq> expected_source
         \<or> \<not> same_time (se_starts_at mapping) (Some (ad_starts_at draft))
         \<or> \<not> same_time (se_ends_at mapping) (Some (ad_ends_at draft))
      then Inl (SvStore (Conflict ''appointment request mapping'')) else Inr ())"

definition validate_pending_google_event :: "calendar_event \<Rightarrow> google_proposal_draft \<Rightarrow> mail_address \<Rightarrow> unit service_result" where
  "validate_pending_google_event e d owner =
     (if ce_operation_key e = gp_operation_key d \<and> ce_title e = gp_pending_title d \<and> ce_time_range e = gp_time_range d
         \<and> ce_timezone e = gp_timezone d \<and> length (ce_attendees e) = 1
         \<and> at_address (ce_attendees e ! 0) = owner \<and> at_rsvp (ce_attendees e ! 0) = NeedsAction
      then Inr () else Inl (SvGoogleCalendar PeConflict))"

definition append_submission_audit ::
    "'w pa_service \<Rightarrow> str \<Rightarrow> audit_event_type \<Rightarrow> audit_entity_type \<Rightarrow> str \<Rightarrow> odt \<Rightarrow> str \<Rightarrow> ('w, unit) service_outcome" where
  "append_submission_audit S key event_type entity_type entity_id occurred_at clk =
     sbind (outcome SvStore (on_store (append_audit_event (sv_codec S) key event_type entity_type entity_id occurred_at clk)))
       (\<lambda>_. sret ())"

text \<open>Both calendars around the appointment, with the buffer on either side.\<close>

definition recheck_busy :: "'w pa_service \<Rightarrow> appointment_draft \<Rightarrow> ('w, bool) service_outcome" where
  "recheck_busy S draft =
     (let buffer = ap_meeting_buffer (sv_policy S); overflow = SvAvailability DateTimeOverflow in
      sbind (slift_fail (ok_or overflow (odt_checked_sub_ns (ad_starts_at draft) buffer))) (\<lambda>recheck_start.
      sbind (slift_fail (ok_or overflow (odt_checked_add_ns (ad_ends_at draft) buffer))) (\<lambda>recheck_end.
      sbind (slift_fail (service_range recheck_start recheck_end)) (\<lambda>recheck.
      sbind (outcome SvOutlookCalendar (on_world (outlook_list_busy (sv_calendars S) recheck))) (\<lambda>outlook_busy.
      sbind (outcome SvGoogleCalendar (on_world (google_list_busy (sv_calendars S) recheck))) (\<lambda>google_busy.
        sret (busy_overlaps outlook_busy recheck_start recheck_end \<or> busy_overlaps google_busy recheck_start recheck_end)))))))"

definition find_pending ::
    "'w pa_service \<Rightarrow> google_proposal_draft \<Rightarrow> mail_address \<Rightarrow> ('w, calendar_event option) service_outcome" where
  "find_pending S d owner =
     smatch (on_world (google_find_proposal (sv_calendars S) d)) (\<lambda>r. case r of
       Inr event \<Rightarrow> sbind (slift_fail (validate_pending_google_event event d owner)) (\<lambda>_. sret (Some event))
     | Inl PeNotFound \<Rightarrow> sret None
     | Inl e \<Rightarrow> sfail (Failed (SvGoogleCalendar e)))"

definition ensure_proposal ::
    "'w pa_service \<Rightarrow> stored_appointment_quote \<Rightarrow> int \<Rightarrow> odt \<Rightarrow> str \<Rightarrow> stored_proposal option
      \<Rightarrow> ('w, stored_proposal) service_outcome" where
  "ensure_proposal S quote draft_id durable_now clk existing =
     (case existing of
        Some proposal \<Rightarrow> sret proposal
      | None \<Rightarrow> store_outcome_op (on_store (submit_appointment_quote (sv_texts S) (q_id (sq_quote quote)) draft_id
                  (lit ''pa-proposal-draft-'' @ show_int draft_id) (lit ''pa-proposal-source-draft-'' @ show_int draft_id)
                  durable_now clk)))"

text \<open>
  The pending event of the request: the one that is found, or a new one, after the quote was turned
  into its proposal.
\<close>

definition place_proposal ::
    "'w pa_service \<Rightarrow> stored_appointment_quote \<Rightarrow> int \<Rightarrow> appointment_draft \<Rightarrow> mail_address \<Rightarrow> google_proposal_draft
      \<Rightarrow> stored_proposal option \<Rightarrow> odt \<Rightarrow> odt \<Rightarrow> str \<Rightarrow> ('w, stored_proposal \<times> calendar_event) service_outcome" where
  "place_proposal S quote draft_id draft owner d existing validation_now durable_now clk =
     sbind (if existing \<noteq> None then sret None
            else sbind (recheck_busy S draft) (\<lambda>busy.
                 if \<not> busy then sret None
                 else sbind (find_pending S d owner) (\<lambda>found. case found of
                        Some event \<Rightarrow> sret (Some event) | None \<Rightarrow> sfail (Failed SvNoAvailability)))) (\<lambda>found.
     sbind (case found of Some event \<Rightarrow> sret (Some event) | None \<Rightarrow> find_pending S d owner) (\<lambda>found.
     case found of
       Some event \<Rightarrow> sbind (ensure_proposal S quote draft_id durable_now clk existing) (\<lambda>proposal. sret (proposal, event))
     | None \<Rightarrow>
       sbind (if existing = None
              then sbind (slift_fail (ok_or (SvAvailability DateTimeOverflow)
                            (odt_checked_add_ns validation_now (ap_minimum_notice (sv_policy S))))) (\<lambda>cutoff.
                   if before (ad_starts_at draft) cutoff then sfail (Failed SvNoAvailability) else sret ())
              else sbind (recheck_busy S draft) (\<lambda>busy. if busy then sfail (Failed SvNoAvailability) else sret ())) (\<lambda>_.
       sbind (ensure_proposal S quote draft_id durable_now clk existing) (\<lambda>proposal.
       sbind (outcome SvGoogleCalendar (on_world (google_create_proposal (sv_calendars S) d))) (\<lambda>event.
       sbind (slift_fail (validate_pending_google_event event d owner)) (\<lambda>_. sret (proposal, event)))))))"

definition existing_mapping ::
    "'w pa_service \<Rightarrow> mail_address \<Rightarrow> appointment_draft \<Rightarrow> stored_proposal option \<Rightarrow> ('w, stored_event_mapping option) service_outcome" where
  "existing_mapping S owner draft existing =
     (case existing of
        None \<Rightarrow> sret None
      | Some proposal \<Rightarrow>
          smatch (from_store (load_event_mapping_by_proposal_id (sv_codec S) (tx_naive (sv_texts S)) (sp_id proposal))) (\<lambda>r. case r of
            Inr mapping \<Rightarrow> sbind (slift_fail (validate_existing_mapping mapping (sp_id proposal)
                               (event_mapping_source (sv_sha256 S) (sp_id proposal) owner) draft)) (\<lambda>_. sret (Some mapping))
          | Inl e \<Rightarrow> if e = NotFound ''event mapping'' then sret None else sfail (Failed (SvStore e))))"

definition map_proposal ::
    "'w pa_service \<Rightarrow> stored_appointment_quote \<Rightarrow> int \<Rightarrow> appointment_draft \<Rightarrow> mail_address \<Rightarrow> stored_proposal option \<Rightarrow> odt \<Rightarrow> odt
      \<Rightarrow> (nat \<Rightarrow> str) \<Rightarrow> ('w, stored_proposal \<times> stored_event_mapping) service_outcome" where
  "map_proposal S quote draft_id draft owner existing validation_now durable_now clk =
     sbind (slift_fail (service_range (ad_starts_at draft) (ad_ends_at draft))) (\<lambda>span.
     sbind (slift_fail (map_err SvGoogleCalendar (from_owner (tx_zone (sv_texts S)) (proposal_operation_key draft_id)
              PENDING_PROPOSAL_TITLE span (sq_timezone quote) (needs_action owner)))) (\<lambda>d.
     sbind (place_proposal S quote draft_id draft owner d existing validation_now durable_now (clk 0)) (\<lambda>(proposal, event).
     sbind (outcome SvStore (on_store (attach_event_mapping (sv_codec S) (tx_naive (sv_texts S))
              \<lparr>mq_proposal_id = sp_id proposal, mq_provider = lit ''google_calendar'',
               mq_provider_event_id = ce_provider_event_id event,
               mq_source_id = event_mapping_source (sv_sha256 S) (sp_id proposal) owner,
               mq_starts_at = Some (ad_starts_at draft), mq_ends_at = Some (ad_ends_at draft)\<rparr> (clk 1)))) (\<lambda>mapping.
       sret (proposal, mapping)))))"

text \<open>The notifications of the owner and, when included, of the requester.\<close>

definition proposal_notification ::
    "'w pa_service \<Rightarrow> str \<Rightarrow> int \<Rightarrow> int \<Rightarrow> str \<Rightarrow> template_data \<Rightarrow> odt \<Rightarrow> odt \<Rightarrow> ('w, stored_notification) service_outcome" where
  "proposal_notification S role proposal_id mapping_id address template consumed_at now_utc =
     sbind (slift_fail (map_err SvStore (recipient_new address))) (\<lambda>recipient.
       outcome SvStore (on_store (enqueue_notification (sv_codec S) (sv_json S)
         \<lparr>nq_idempotency_key = lit ''pa-notify-'' @ role @ lit ''-'' @ show_int proposal_id, nq_proposal_id = Some proposal_id,
          nq_event_mapping_id = Some mapping_id, nq_kind = NkProposalRequested, nq_recipient = recipient,
          nq_template_data = template, nq_available_at = consumed_at\<rparr> now_utc)))"

definition announce_request ::
    "'w pa_service \<Rightarrow> stored_appointment_quote \<Rightarrow> int \<Rightarrow> appointment_draft \<Rightarrow> mail_address \<Rightarrow> stored_proposal \<Rightarrow> stored_event_mapping
      \<Rightarrow> (nat \<Rightarrow> str) \<Rightarrow> (nat \<Rightarrow> odt) \<Rightarrow> ('w, submitted_request) service_outcome" where
  "announce_request S quote draft_id draft owner proposal mapping clk now_utc =
     sbind (store_outcome_op (from_store (load_appointment_quote_by_id (sv_texts S) (q_id (sq_quote quote))))) (\<lambda>consumed.
     sbind (slift_fail (ok_or (SvStore quote_invalid) (sq_consumed_at consumed))) (\<lambda>consumed_at.
     sbind (slift_fail (map_err SvStore (td_new
              \<lparr>td_title = Some PENDING_PROPOSAL_TITLE, td_starts_at = Some (ad_starts_at draft),
               td_ends_at = Some (ad_ends_at draft), td_timezone = Some (sq_timezone quote),
               td_appointment_kind = Some (ad_kind draft), td_proposal_state = Some PsPending\<rparr>))) (\<lambda>template.
     sbind (proposal_notification S (lit ''owner'') (sp_id proposal) (se_id mapping) (ma_str owner) template
              consumed_at (now_utc 0)) (\<lambda>owner_notification.
     sbind (if ad_requester_included draft
            then sbind (proposal_notification S (lit ''requester'') (sp_id proposal) (se_id mapping)
                     (ce_value (ci_email (ad_caller draft))) template consumed_at (now_utc 1)) (\<lambda>n. sret (Some n))
            else sret None) (\<lambda>requester_notification.
     sbind (append_submission_audit S (lit ''pa-audit-request-submitted-'' @ show_int draft_id) RequestSubmitted
              AeAppointmentRequest (show_int draft_id) consumed_at (clk 2)) (\<lambda>_.
     sbind (append_submission_audit S (lit ''pa-audit-proposal-created-'' @ show_int (sp_id proposal)) ProposalCreated
              AeProposal (show_int (sp_id proposal)) consumed_at (clk 3)) (\<lambda>_.
     sbind (append_submission_audit S (lit ''pa-audit-notification-enqueued-owner-'' @ show_int (sp_id proposal))
              NotificationEnqueued AeNotification (show_int (sn_id owner_notification)) consumed_at (clk 4)) (\<lambda>_.
     sbind (case requester_notification of
              None \<Rightarrow> sret ()
            | Some n \<Rightarrow> append_submission_audit S (lit ''pa-audit-notification-enqueued-requester-'' @ show_int (sp_id proposal))
                          NotificationEnqueued AeNotification (show_int (sn_id n)) consumed_at (clk 5)) (\<lambda>_.
       sret \<lparr>sb_proposal_id = sp_id proposal, sb_event_mapping_id = se_id mapping,
             sb_owner_notification_id = sn_id owner_notification,
             sb_requester_notification_id = map_option sn_id requester_notification, sb_state = PsPending\<rparr>)))))))))"

definition check_submission_window :: "stored_appointment_quote \<Rightarrow> odt \<Rightarrow> unit service_result" where
  "check_submission_window quote validation_now =
     (case sq_state quote of
        QsPrepared \<Rightarrow>
          if before validation_now (q_issued_at (sq_quote quote)) then Inl (SvStore AppointmentQuoteNotYetValid)
          else if \<not> before validation_now (q_expires_at (sq_quote quote)) then Inl (SvStore AppointmentQuoteExpired)
          else Inr ()
      | QsConsumed \<Rightarrow> Inr ()
      | QsIssued \<Rightarrow> Inl (SvStore (Conflict ''appointment quote'')))"

definition existing_proposal ::
    "'w pa_service \<Rightarrow> stored_appointment_quote \<Rightarrow> int \<Rightarrow> ('w, stored_proposal option) service_outcome" where
  "existing_proposal S quote draft_id =
     (case sq_proposal_id quote of
        None \<Rightarrow> sret None
      | Some proposal_id \<Rightarrow>
          sbind (outcome SvStore (from_store (load_proposal_by_id (tx_naive (sv_texts S)) proposal_id))) (\<lambda>proposal.
          sbind (slift_fail (validate_existing_proposal proposal draft_id (lit ''pa-proposal-draft-'' @ show_int draft_id)
                   (lit ''pa-proposal-source-draft-'' @ show_int draft_id))) (\<lambda>_. sret (Some proposal))))"

definition submit_request ::
    "'w pa_service \<Rightarrow> confirmed_prepared_request \<Rightarrow> odt \<Rightarrow> (nat \<Rightarrow> str) \<Rightarrow> (nat \<Rightarrow> odt) \<Rightarrow> ('w, submitted_request) service_outcome" where
  "submit_request S confirmed now clk now_utc =
     sbind (slift_fail (ok_or SvOwnerNotConfigured (sv_owner S))) (\<lambda>owner.
     let prepared = cp_prepared confirmed; validation_now = to_utc now in
     sbind (store_outcome_op (from_store (load_appointment_quote_by_draft_id (sv_texts S) (rp_draft_id prepared)))) (\<lambda>quote.
     sbind (slift_fail (ok_or (SvStore quote_invalid) (sq_appointment_draft quote))) (\<lambda>stored_draft.
     sbind (slift_fail (validate_prepared_request S prepared quote stored_draft)) (\<lambda>_.
     sbind (slift_fail (check_submission_window quote validation_now)) (\<lambda>_.
     sbind (slift_fail (canonicalize_submission_timestamp validation_now (q_issued_at (sq_quote quote))
              (q_expires_at (sq_quote quote)))) (\<lambda>durable_now.
     let draft = sd_draft stored_draft; draft_id = sd_id stored_draft in
     sbind (existing_proposal S quote draft_id) (\<lambda>existing.
     sbind (existing_mapping S owner draft existing) (\<lambda>mapped.
     sbind (case (existing, mapped) of
              (Some proposal, Some mapping) \<Rightarrow> sret (proposal, mapping)
            | _ \<Rightarrow> map_proposal S quote draft_id draft owner existing validation_now durable_now clk) (\<lambda>(proposal, mapping).
       announce_request S quote draft_id draft owner proposal mapping clk now_utc)))))))))"

end
