(* ===== verification/Service_Logic.thy ===== *)
theory Service_Logic
  imports Assistant_Service
begin

text \<open>
  Pre- and postconditions for the computations of the services. A triple speaks about every end of
  a computation: the postcondition sees the last state and the result, an early return included.
\<close>

definition triple :: "('s \<Rightarrow> bool) \<Rightarrow> ('s, 'e, 'a) op \<Rightarrow> ('s \<Rightarrow> ('e, 'a) result \<Rightarrow> bool) \<Rightarrow> bool" where
  "triple P m Q \<longleftrightarrow> (\<forall>s. P s \<longrightarrow> (case m s of (s', r) \<Rightarrow> Q s' r))"

lemma tripleD: "triple P m Q \<Longrightarrow> P s \<Longrightarrow> m s = (s', r) \<Longrightarrow> Q s' r"
  by (auto simp: triple_def)

lemma tripleI: "(\<And>s s' r. P s \<Longrightarrow> m s = (s', r) \<Longrightarrow> Q s' r) \<Longrightarrow> triple P m Q"
  by (simp add: triple_def split: prod.split)

lemma triple_pre: "triple P m Q \<Longrightarrow> (\<And>s. P' s \<Longrightarrow> P s) \<Longrightarrow> triple P' m Q"
  by (auto simp: triple_def)

lemma triple_post: "triple P m Q \<Longrightarrow> (\<And>s r. Q s r \<Longrightarrow> Q' s r) \<Longrightarrow> triple P m Q'"
  by (auto simp: triple_def split: prod.splits)

lemma triple_ret: "(\<And>s. P s \<Longrightarrow> Q s (Inr x)) \<Longrightarrow> triple P (sret x) Q"
  by (simp add: triple_def)

lemma triple_fail: "(\<And>s. P s \<Longrightarrow> Q s (Inl e)) \<Longrightarrow> triple P (sfail e) Q"
  by (simp add: triple_def)

lemma triple_bind:
  assumes "triple P m (\<lambda>s r. case r of Inl e \<Rightarrow> Q s (Inl e) | Inr x \<Rightarrow> R x s)" "\<And>x. triple (R x) (f x) Q"
  shows "triple P (sbind m f) Q"
proof (rule tripleI)
  fix s s' r assume P: "P s" and run: "sbind m f s = (s', r)"
  obtain t x where m: "m s = (t, x)" by (cases "m s")
  have mid: "case x of Inl e \<Rightarrow> Q t (Inl e) | Inr y \<Rightarrow> R y t" by (rule tripleD[OF assms(1) P m])
  show "Q s' r"
  proof (cases x)
    case (Inl e)
    then show ?thesis using mid m run by (simp add: sbind_def)
  next
    case (Inr y)
    then have "f y t = (s', r)" using m run by (simp add: sbind_def)
    then show ?thesis using tripleD[OF assms(2)] mid Inr by simp
  qed
qed

lemma triple_match:
  assumes "triple P m (\<lambda>s r. R r s)" "\<And>r. triple (R r) (f r) Q"
  shows "triple P (smatch m f) Q"
proof (rule tripleI)
  fix s s' r assume P: "P s" and run: "smatch m f s = (s', r)"
  obtain t x where m: "m s = (t, x)" by (cases "m s")
  have "R x t" by (rule tripleD[OF assms(1) P m])
  moreover have "f x t = (s', r)" using m run by (simp add: smatch_def)
  ultimately show "Q s' r" by (rule tripleD[OF assms(2)])
qed

lemma triple_map_err: "triple P m (\<lambda>s r. Q s (map_err g r)) \<Longrightarrow> triple P (smap_err g m) Q"
  by (auto simp: triple_def smap_err_def split: prod.splits)

text \<open>The steps a service is made of.\<close>

lemma case_map_err: "(case map_err g r of Inl e \<Rightarrow> A e | Inr x \<Rightarrow> B x) = (case r of Inl e \<Rightarrow> A (g e) | Inr x \<Rightarrow> B x)"
  by (cases r) simp_all

lemma triple_check:
  assumes "\<And>s e. P s \<Longrightarrow> c = Inl e \<Longrightarrow> Q s (Inl e)" "\<And>x. c = Inr x \<Longrightarrow> triple P (f x) Q"
  shows "triple P (sbind (slift c) f) Q"
  using assms by (cases c) (auto intro: triple_fail)

lemma triple_read:
  assumes "\<And>s e. P s \<Longrightarrow> c (fst s) = Inl e \<Longrightarrow> Q s (Inl (g e))"
    "\<And>x. triple (\<lambda>s. P s \<and> c (fst s) = Inr x) (f x) Q"
  shows "triple P (sbind (smap_err g (from_store c)) f) Q"
proof (rule triple_bind[where R = "\<lambda>x s. P s \<and> c (fst s) = Inr x"])
  show "triple P (smap_err g (from_store c)) (\<lambda>s r. case r of Inl e \<Rightarrow> Q s (Inl e) | Inr x \<Rightarrow> P s \<and> c (fst s) = Inr x)"
    unfolding triple_def smap_err_def from_store_def prod.case case_map_err
    using assms(1) by (auto split: sum.splits)
qed (rule assms(2))

lemma triple_write:
  assumes "\<And>db w db' e. P (db, w) \<Longrightarrow> c db = (db', Inl e) \<Longrightarrow> Q (db', w) (Inl (g e))"
    "\<And>x. triple (\<lambda>s. \<exists>db. P (db, snd s) \<and> c db = (fst s, Inr x)) (f x) Q"
  shows "triple P (sbind (smap_err g (on_store c)) f) Q"
proof (rule triple_bind[where R = "\<lambda>x s. \<exists>db. P (db, snd s) \<and> c db = (fst s, Inr x)"])
  show "triple P (smap_err g (on_store c)) (\<lambda>s r. case r of Inl e \<Rightarrow> Q s (Inl e)
      | Inr x \<Rightarrow> \<exists>db. P (db, snd s) \<and> c db = (fst s, Inr x))"
  proof (rule triple_map_err, rule tripleI)
    fix s s' r assume P: "P s" and run: "on_store c s = (s', r)"
    obtain db r' where c: "c (fst s) = (db, r')" by (cases "c (fst s)")
    have s': "s' = (db, snd s)" "r = r'" using run c by (auto simp: on_store_def)
    show "case map_err g r of Inl e \<Rightarrow> Q s' (Inl e) | Inr x \<Rightarrow> \<exists>db. P (db, snd s') \<and> c db = (fst s', Inr x)"
    proof (cases r')
      case (Inl e)
      then show ?thesis using assms(1)[of "fst s" "snd s" db e] P c s' by simp
    next
      case (Inr x)
      then show ?thesis using P c s' by (auto intro!: exI[of _ "fst s"])
    qed
  qed
qed (rule assms(2))

text \<open>A call of a provider, which may change its world whether it fails or not.\<close>

lemma triple_call:
  assumes "\<And>db w w' r. P (db, w) \<Longrightarrow> c w = (w', r) \<Longrightarrow> Q (db, w') r"
  shows "triple P (on_world c) Q"
  using assms by (auto simp: triple_def on_world_def split: prod.splits)

end
