(* ===== verification/Fake_Control.thy ===== *)
theory Fake_Control
  imports Provider_Types State_Result
begin

text \<open>
  The control plane of the provider fakes, \<open>src/pa/fakes/control.rs\<close>: it counts the calls of every
  operation and injects the failures that were arranged for it. The mutex is poisoned when a thread
  panicked while it held it; every access then fails with \<open>Unavailable\<close>.
\<close>

datatype fake_operation =
    MailSync | MailSend | MailLabels | CalendarBusy | CalendarSync | CalendarOwnerCreate | CalendarOwnerFind
  | CalendarProposalCreate | CalendarProposalFind | CalendarPromote | CalendarDelete | TriageClassify
  | BackupPut | BackupList | BackupGet | BackupDelete

definition ALL_OPERATIONS :: "fake_operation list" where
  "ALL_OPERATIONS = [MailSync, MailSend, MailLabels, CalendarBusy, CalendarSync, CalendarOwnerCreate, CalendarOwnerFind,
     CalendarProposalCreate, CalendarProposalFind, CalendarPromote, CalendarDelete, TriageClassify,
     BackupPut, BackupList, BackupGet, BackupDelete]"

fun fo_index :: "fake_operation \<Rightarrow> nat" where
  "fo_index MailSync = 0"
| "fo_index MailSend = 1"
| "fo_index MailLabels = 2"
| "fo_index CalendarBusy = 3"
| "fo_index CalendarSync = 4"
| "fo_index CalendarOwnerCreate = 5"
| "fo_index CalendarOwnerFind = 6"
| "fo_index CalendarProposalCreate = 7"
| "fo_index CalendarProposalFind = 8"
| "fo_index CalendarPromote = 9"
| "fo_index CalendarDelete = 10"
| "fo_index TriageClassify = 11"
| "fo_index BackupPut = 12"
| "fo_index BackupList = 13"
| "fo_index BackupGet = 14"
| "fo_index BackupDelete = 15"

record operation_state =
  os_count :: int
  os_queued_failures :: "provider_error list"
  os_persistent_failure :: "provider_error option"
  os_partial_failure_after :: "nat option"

definition operation_default :: operation_state where
  "operation_default = \<lparr>os_count = 0, os_queued_failures = [], os_persistent_failure = None, os_partial_failure_after = None\<rparr>"

record fake_control =
  fc_now :: int
  fc_operations :: "operation_state list"
  fc_poisoned :: bool

definition control_new :: "int \<Rightarrow> fake_control" where
  "control_new now = \<lparr>fc_now = now, fc_operations = map (\<lambda>_. operation_default) ALL_OPERATIONS, fc_poisoned = False\<rparr>"

definition lock_state :: "(fake_control, provider_error, operation_state list) op" where
  "lock_state c = (if fc_poisoned c then (c, Inl PeUnavailable) else (c, Inr (fc_operations c)))"

definition with_operation ::
    "fake_operation \<Rightarrow> (operation_state \<Rightarrow> operation_state) \<Rightarrow> (fake_control, provider_error, unit) op" where
  "with_operation f g = sbind lock_state (\<lambda>ops c.
     (c\<lparr>fc_operations := ops[fo_index f := g (ops ! fo_index f)]\<rparr>, Inr ()))"

definition queue_failure :: "fake_operation \<Rightarrow> provider_error \<Rightarrow> (fake_control, provider_error, unit) op" where
  "queue_failure f e = with_operation f (\<lambda>s. s\<lparr>os_queued_failures := os_queued_failures s @ [e]\<rparr>)"

definition set_failure :: "fake_operation \<Rightarrow> provider_error \<Rightarrow> (fake_control, provider_error, unit) op" where
  "set_failure f e = with_operation f (\<lambda>s. s\<lparr>os_persistent_failure := Some e\<rparr>)"

definition clear_failure :: "fake_operation \<Rightarrow> (fake_control, provider_error, unit) op" where
  "clear_failure f = with_operation f (\<lambda>s. s\<lparr>os_queued_failures := [], os_persistent_failure := None\<rparr>)"

definition clear_persistent_failure :: "fake_operation \<Rightarrow> (fake_control, provider_error, unit) op" where
  "clear_persistent_failure f = with_operation f (\<lambda>s. s\<lparr>os_persistent_failure := None\<rparr>)"

definition set_partial_failure :: "fake_operation \<Rightarrow> nat \<Rightarrow> (fake_control, provider_error, unit) op" where
  "set_partial_failure f n = with_operation f (\<lambda>s. s\<lparr>os_partial_failure_after := Some n\<rparr>)"

definition clear_partial_failure :: "fake_operation \<Rightarrow> (fake_control, provider_error, unit) op" where
  "clear_partial_failure f = with_operation f (\<lambda>s. s\<lparr>os_partial_failure_after := None\<rparr>)"

definition partial_failure_after :: "fake_operation \<Rightarrow> (fake_control, provider_error, nat option) op" where
  "partial_failure_after f = sbind lock_state (\<lambda>ops. sret (os_partial_failure_after (ops ! fo_index f)))"

definition invocation_count :: "fake_operation \<Rightarrow> (fake_control, provider_error, int) op" where
  "invocation_count f = sbind lock_state (\<lambda>ops. sret (os_count (ops ! fo_index f)))"

definition u64_max :: int where "u64_max = 2 ^ 64 - 1"

definition control_begin :: "fake_operation \<Rightarrow> (fake_control, provider_error, unit) op" where
  "control_begin f = sbind lock_state (\<lambda>ops c.
     let s = ops ! fo_index f;
         s = s\<lparr>os_count := min u64_max (os_count s + 1)\<rparr>
     in case os_queued_failures s of
          e # rest \<Rightarrow> (c\<lparr>fc_operations := ops[fo_index f := s\<lparr>os_queued_failures := rest\<rparr>]\<rparr>, Inl e)
        | [] \<Rightarrow> (c\<lparr>fc_operations := ops[fo_index f := s]\<rparr>,
                 case os_persistent_failure s of Some e \<Rightarrow> Inl e | None \<Rightarrow> Inr ()))"

definition operation_mode :: "operation_state \<Rightarrow> str" where
  "operation_mode s =
     (case (os_queued_failures s \<noteq> [], os_persistent_failure s \<noteq> None, os_partial_failure_after s \<noteq> None) of
        (False, False, False) \<Rightarrow> lit ''ready''
      | (True, False, False) \<Rightarrow> lit ''queued''
      | (False, True, False) \<Rightarrow> lit ''persistent''
      | (True, True, False) \<Rightarrow> lit ''queued+persistent''
      | (False, False, True) \<Rightarrow> lit ''partial''
      | (True, False, True) \<Rightarrow> lit ''queued+partial''
      | (False, True, True) \<Rightarrow> lit ''persistent+partial''
      | (True, True, True) \<Rightarrow> lit ''queued+persistent+partial'')"

section \<open>Facts\<close>

text \<open>A healthy operation: the lock is not poisoned and no failure is arranged.\<close>

definition operation_ready :: "fake_operation \<Rightarrow> fake_control \<Rightarrow> bool" where
  "operation_ready f c \<longleftrightarrow> \<not> fc_poisoned c \<and> length (fc_operations c) = 16
     \<and> os_queued_failures (fc_operations c ! fo_index f) = [] \<and> os_persistent_failure (fc_operations c ! fo_index f) = None"

lemma fo_index_less: "fo_index f < 16"
  by (cases f) simp_all

lemma control_new_ready: "operation_ready f (control_new t)"
  by (cases f) (simp_all add: operation_ready_def control_new_def ALL_OPERATIONS_def operation_default_def)

lemma begin_ready:
  assumes "operation_ready f c"
  shows "\<exists>c'. control_begin f c = (c', Inr ()) \<and> fc_now c' = fc_now c \<and> (\<forall>g. operation_ready g c \<longrightarrow> operation_ready g c')"
proof -
  have "operation_ready g (c\<lparr>fc_operations := (fc_operations c)[fo_index f := (fc_operations c ! fo_index f)\<lparr>os_count := n\<rparr>]\<rparr>)"
    if "operation_ready g c" for g n
    using that assms fo_index_less[of f] fo_index_less[of g]
    by (cases "fo_index g = fo_index f") (simp_all add: operation_ready_def)
  then show ?thesis using assms
    by (auto simp: control_begin_def sbind_def lock_state_def operation_ready_def Let_def)
qed

lemma control_keeps_now: "fc_now (fst (control_begin f c)) = fc_now c"
  by (simp add: control_begin_def sbind_def lock_state_def Let_def split: list.splits)

end
