(* ===== verification/Fake_Calendar.thy ===== *)
theory Fake_Calendar
  imports Fake_Control "HOL-Library.Product_Lexorder"
begin

text \<open>
  The deterministic calendar providers, \<open>src/pa/fakes/calendar.rs\<close>: the shared calendar core with its
  busy intervals and changes, the owner events of the Outlook fake and the proposal life cycle of the
  Google fake. A \<open>BTreeMap\<close> is an association list sorted by key, a \<open>VecDeque\<close> a list.
\<close>

section \<open>State\<close>

definition CURSOR_PREFIX :: str where "CURSOR_PREFIX = lit ''fake-calendar:''"
definition FAILURE_SOURCE_ID :: str where "FAILURE_SOURCE_ID = lit ''fake-calendar''"
definition OUTLOOK_OWNER_EVENT_PREFIX :: str where "OUTLOOK_OWNER_EVENT_PREFIX = lit ''fake-outlook-owner-event-''"
definition GOOGLE_PROPOSAL_EVENT_PREFIX :: str where "GOOGLE_PROPOSAL_EVENT_PREFIX = lit ''fake-google-proposal-event-''"

record calendar_state =
  cs_busy :: "busy_interval list"
  cs_unkeyed_busy :: "busy_interval list"
  cs_changes :: "calendar_change list"
  cs_emitted_cursors :: "nat set"
  cs_owner_events :: "calendar_event list"
  cs_google_create_drafts :: "google_proposal_draft list"
  cs_google_events :: "calendar_event list"
  cs_next_google_sequence :: int
  cs_next_outlook_sequence :: int
  cs_google_busy :: "(str \<times> busy_interval) list"
  cs_google_promotions :: "google_proposal_promotion option list"
  cs_deleted_google_ids :: "str set"
  cs_deleted_google_keys :: "str set"
  cs_ambiguous_google_failures :: "provider_error list"
  cs_google_create_overrides :: "calendar_event list"
  cs_ambiguous_owner_failures :: "provider_error list"
  cs_owner_create_overrides :: "calendar_event list"
  cs_owner_find_overrides :: "calendar_event list"

record fake_calendar =
  fk_control :: fake_control
  fk_state :: calendar_state
  fk_poisoned :: bool

definition fake_new :: "fake_control \<Rightarrow> busy_interval list \<Rightarrow> calendar_change list \<Rightarrow> fake_calendar" where
  "fake_new control busy changes =
     \<lparr>fk_control = control,
      fk_state = \<lparr>cs_busy = busy, cs_unkeyed_busy = busy, cs_changes = changes, cs_emitted_cursors = {},
        cs_owner_events = [], cs_google_create_drafts = [], cs_google_events = [], cs_next_google_sequence = 1,
        cs_next_outlook_sequence = 1, cs_google_busy = [], cs_google_promotions = [], cs_deleted_google_ids = {},
        cs_deleted_google_keys = {}, cs_ambiguous_google_failures = [], cs_google_create_overrides = [],
        cs_ambiguous_owner_failures = [], cs_owner_create_overrides = [], cs_owner_find_overrides = []\<rparr>,
      fk_poisoned = False\<rparr>"

type_synonym 'a fake_op = "(fake_calendar, provider_error, 'a) op"

definition fake_begin :: "fake_operation \<Rightarrow> unit fake_op" where
  "fake_begin f k = (case control_begin f (fk_control k) of (c, r) \<Rightarrow> (k\<lparr>fk_control := c\<rparr>, r))"

definition lock_calendar :: "calendar_state fake_op" where
  "lock_calendar k = (if fk_poisoned k then (k, Inl PeUnavailable) else (k, Inr (fk_state k)))"

definition put_calendar :: "calendar_state \<Rightarrow> unit fake_op" where
  "put_calendar s k = (k\<lparr>fk_state := s\<rparr>, Inr ())"

section \<open>Helpers\<close>

definition owner_draft_matches_event :: "owner_event_draft \<Rightarrow> calendar_event \<Rightarrow> bool" where
  "owner_draft_matches_event d e \<longleftrightarrow> ce_operation_key e = oe_operation_key d \<and> ce_title e = oe_title d
     \<and> ce_time_range e = oe_time_range d \<and> ce_timezone e = oe_timezone d \<and> ce_attendees e = []"

definition offset_datetime :: "int \<Rightarrow> odt provider_result" where
  "offset_datetime t =
     ok_or (PeInvalidInput PifTimeRange)
       (map_option (\<lambda>base. to_utc (base\<lparr>instant_ns := instant_ns base + t mod NANOS\<rparr>)) (from_unix_timestamp (t div NANOS)))"

definition busy_for_range :: "time_range \<Rightarrow> busy_interval provider_result" where
  "busy_for_range r =
     rbind (offset_datetime (tr_start r)) (\<lambda>starts_at.
     rbind (offset_datetime (tr_end r)) (\<lambda>ends_at.
       map_err (\<lambda>_. PeInvalidInput PifTimeRange) (busy_interval_new starts_at ends_at)))"

definition rebuild_busy :: "calendar_state \<Rightarrow> calendar_state" where
  "rebuild_busy s = s\<lparr>cs_busy := cs_unkeyed_busy s @ map snd (cs_google_busy s)\<rparr>"

fun btree_insert :: "str \<Rightarrow> 'v \<Rightarrow> (str \<times> 'v) list \<Rightarrow> (str \<times> 'v) list" where
  "btree_insert k v [] = [(k, v)]"
| "btree_insert k v ((l, w) # m) =
     (if k < l then (k, v) # (l, w) # m else if k = l then (k, v) # m else (l, w) # btree_insert k v m)"

definition btree_remove :: "str \<Rightarrow> (str \<times> 'v) list \<Rightarrow> (str \<times> 'v) list" where
  "btree_remove k m = filter (\<lambda>e. fst e \<noteq> k) m"

text \<open>The next provider event id of a sequence, a \<open>u64\<close>, that is not in use.\<close>

function fresh_event_id :: "str \<Rightarrow> str set \<Rightarrow> int \<Rightarrow> (str \<times> int) provider_result" where
  "fresh_event_id prefix used sequence =
     (let candidate = prefix @ show_int sequence in
      if candidate \<notin> used then Inr (candidate, sequence)
      else if sequence \<ge> u64_max then Inl PeUnavailable
      else fresh_event_id prefix used (sequence + 1))"
  by pat_completeness auto
termination by (relation "measure (\<lambda>(p, used, n). nat (u64_max - n))") auto

definition event_with_key :: "str \<Rightarrow> calendar_event list \<Rightarrow> calendar_event option" where
  "event_with_key key events = find (\<lambda>e. ce_operation_key e = key) events"

definition changed_events :: "calendar_state \<Rightarrow> calendar_event list" where
  "changed_events s = List.map_filter cc_event (cs_changes s)"

section \<open>Busy intervals\<close>

definition chrono_key :: "int \<Rightarrow> int \<times> int" where
  "chrono_key t = (t div NANOS, t mod NANOS)"

definition offset_key :: "odt \<Rightarrow> int \<times> int" where
  "offset_key d = (unix_timestamp d, nanosecond d)"

definition fake_list_busy :: "time_range \<Rightarrow> busy_interval list fake_op" where
  "fake_list_busy r =
     sbind (fake_begin CalendarBusy) (\<lambda>_.
     sbind lock_calendar (\<lambda>s.
       sret (sort_key (\<lambda>i. (instant_ns (bi_starts_at i), instant_ns (bi_ends_at i)))
         (filter (\<lambda>i. offset_key (bi_starts_at i) < chrono_key (tr_end r)
                      \<and> offset_key (bi_ends_at i) > chrono_key (tr_start r)) (cs_busy s)))))"

section \<open>Owner events\<close>

definition fake_find_owner_event :: "owner_event_draft \<Rightarrow> calendar_event fake_op" where
  "fake_find_owner_event d =
     sbind (fake_begin CalendarOwnerFind) (\<lambda>_.
     sbind lock_calendar (\<lambda>s.
       case cs_owner_find_overrides s of
         response # rest \<Rightarrow> sbind (put_calendar (s\<lparr>cs_owner_find_overrides := rest\<rparr>)) (\<lambda>_. sret response)
       | [] \<Rightarrow> slift (ok_or PeNotFound
                 (case event_with_key (oe_operation_key d) (cs_owner_events s) of
                    Some e \<Rightarrow> Some e
                  | None \<Rightarrow> event_with_key (oe_operation_key d) (changed_events s)))))"

definition store_owner_event ::
    "(str \<Rightarrow> 'z option) \<Rightarrow> owner_event_draft \<Rightarrow> int \<Rightarrow> calendar_state \<Rightarrow> (calendar_state \<times> calendar_event) provider_result" where
  "store_owner_event P d now s =
     rbind (fresh_event_id OUTLOOK_OWNER_EVENT_PREFIX
              (set (map cc_provider_event_id (cs_changes s)) \<union> set (map ce_provider_event_id (cs_owner_events s)))
              (cs_next_outlook_sequence s)) (\<lambda>(provider_event_id, sequence).
     rbind (if sequence \<ge> u64_max then Inl PeUnavailable else Inr (sequence + 1)) (\<lambda>next_sequence.
     rbind (event_new P provider_event_id (oe_operation_key d) (oe_title d) (oe_time_range d) (oe_timezone d) [] now) (\<lambda>event.
     rbind (busy_for_range (oe_time_range d)) (\<lambda>busy.
     rbind (change_upsert event) (\<lambda>change.
     let s = s\<lparr>cs_owner_events := cs_owner_events s @ [event], cs_next_outlook_sequence := next_sequence,
               cs_unkeyed_busy := cs_unkeyed_busy s @ [busy]\<rparr>;
         s = rebuild_busy s
     in Inr (s\<lparr>cs_changes := cs_changes s @ [change]\<rparr>, event))))))"

definition create_owner_event :: "(str \<Rightarrow> 'z option) \<Rightarrow> owner_event_draft \<Rightarrow> calendar_event fake_op" where
  "create_owner_event P d =
     sbind lock_calendar (\<lambda>s.
     case event_with_key (oe_operation_key d) (cs_owner_events s) of
       Some existing \<Rightarrow> if owner_draft_matches_event d existing then sret existing else sfail PeConflict
     | None \<Rightarrow>
     (case event_with_key (oe_operation_key d) (changed_events s) of
       Some existing \<Rightarrow> if owner_draft_matches_event d existing then sret existing else sfail PeConflict
     | None \<Rightarrow>
       sbind (sget (\<lambda>k. fc_now (fk_control k))) (\<lambda>now.
       sbind (slift (store_owner_event P d now s)) (\<lambda>(s, event).
       case cs_ambiguous_owner_failures s of
         e # rest \<Rightarrow> sbind (put_calendar (s\<lparr>cs_ambiguous_owner_failures := rest\<rparr>)) (\<lambda>_. sfail e)
       | [] \<Rightarrow>
         (case cs_owner_create_overrides s of
            response # rest \<Rightarrow> sbind (put_calendar (s\<lparr>cs_owner_create_overrides := rest\<rparr>)) (\<lambda>_. sret response)
          | [] \<Rightarrow> sbind (put_calendar s) (\<lambda>_. sret event))))))"

definition fake_create_owner_event :: "(str \<Rightarrow> 'z option) \<Rightarrow> owner_event_draft \<Rightarrow> calendar_event fake_op" where
  "fake_create_owner_event P d = sbind (fake_begin CalendarOwnerCreate) (\<lambda>_. create_owner_event P d)"

section \<open>Proposals\<close>

definition google_event_index :: "str \<Rightarrow> calendar_state \<Rightarrow> nat option" where
  "google_event_index i s = (let n = length (takeWhile (\<lambda>e. ce_provider_event_id e \<noteq> i) (cs_google_events s)) in
     if n < length (cs_google_events s) then Some n else None)"

definition google_draft_index :: "str \<Rightarrow> calendar_state \<Rightarrow> nat option" where
  "google_draft_index key s = (let n = length (takeWhile (\<lambda>d. gp_operation_key d \<noteq> key) (cs_google_create_drafts s)) in
     if n < length (cs_google_create_drafts s) then Some n else None)"

definition fake_find_proposal :: "google_proposal_draft \<Rightarrow> calendar_event fake_op" where
  "fake_find_proposal d =
     sbind (fake_begin CalendarProposalFind) (\<lambda>_.
     sbind lock_calendar (\<lambda>s.
       slift (ok_or PeNotFound (event_with_key (gp_operation_key d) (cs_google_events s)))))"

definition store_google_proposal ::
    "(str \<Rightarrow> 'z option) \<Rightarrow> google_proposal_draft \<Rightarrow> int \<Rightarrow> calendar_state \<Rightarrow> (calendar_state \<times> calendar_event) provider_result" where
  "store_google_proposal P d now s =
     rbind (fresh_event_id GOOGLE_PROPOSAL_EVENT_PREFIX
              (set (map cc_provider_event_id (cs_changes s)) \<union> set (map ce_provider_event_id (cs_google_events s)))
              (cs_next_google_sequence s)) (\<lambda>(provider_event_id, sequence).
     rbind (if sequence \<ge> u64_max then Inl PeUnavailable else Inr (sequence + 1)) (\<lambda>next_sequence.
     rbind (event_new P provider_event_id (gp_operation_key d) (gp_pending_title d) (gp_time_range d) (gp_timezone d)
              (gp_attendees d) now) (\<lambda>event.
     rbind (busy_for_range (gp_time_range d)) (\<lambda>busy.
     rbind (change_upsert event) (\<lambda>change.
     let s = s\<lparr>cs_google_create_drafts := cs_google_create_drafts s @ [d], cs_google_events := cs_google_events s @ [event],
               cs_next_google_sequence := next_sequence,
               cs_google_busy := btree_insert (ce_provider_event_id event) busy (cs_google_busy s)\<rparr>;
         s = rebuild_busy s
     in Inr (s\<lparr>cs_google_promotions := cs_google_promotions s @ [None], cs_changes := cs_changes s @ [change]\<rparr>, event))))))"

definition fake_create_proposal :: "(str \<Rightarrow> 'z option) \<Rightarrow> google_proposal_draft \<Rightarrow> calendar_event fake_op" where
  "fake_create_proposal P d =
     sbind (fake_begin CalendarProposalCreate) (\<lambda>_.
     sbind lock_calendar (\<lambda>s.
     if gp_operation_key d \<in> cs_deleted_google_keys s then sfail PeConflict
     else case google_draft_index (gp_operation_key d) s of
       Some n \<Rightarrow>
         (if n \<ge> length (cs_google_events s) then sfail PeConflict
          else if cs_google_create_drafts s ! n = d then sret (cs_google_events s ! n) else sfail PeConflict)
     | None \<Rightarrow>
       (if event_with_key (gp_operation_key d) (changed_events s) \<noteq> None then sfail PeConflict
        else sbind (sget (\<lambda>k. fc_now (fk_control k))) (\<lambda>now.
       sbind (slift (store_google_proposal P d now s)) (\<lambda>(s, event).
       case cs_ambiguous_google_failures s of
         e # rest \<Rightarrow> sbind (put_calendar (s\<lparr>cs_ambiguous_google_failures := rest\<rparr>)) (\<lambda>_. sfail e)
       | [] \<Rightarrow>
         (case cs_google_create_overrides s of
            response # rest \<Rightarrow> sbind (put_calendar (s\<lparr>cs_google_create_overrides := rest\<rparr>)) (\<lambda>_. sret response)
          | [] \<Rightarrow> sbind (put_calendar s) (\<lambda>_. sret event)))))))"

definition fake_set_owner_rsvp :: "(str \<Rightarrow> 'z option) \<Rightarrow> provider_event_id \<Rightarrow> rsvp \<Rightarrow> calendar_event fake_op" where
  "fake_set_owner_rsvp P i r =
     sbind (fake_begin CalendarProposalFind) (\<lambda>_.
     sbind lock_calendar (\<lambda>s.
     sbind (slift (ok_or PeNotFound (google_event_index (pe_str i) s))) (\<lambda>n.
     if n < length (cs_google_promotions s) \<and> cs_google_promotions s ! n \<noteq> None then sfail PeConflict
     else let existing = cs_google_events s ! n in
     case ce_attendees existing of
       [] \<Rightarrow> sfail PeConflict
     | owner # others \<Rightarrow>
       if at_rsvp owner = r then sret existing
       else sbind (slift (attendee_new (at_address owner) r)) (\<lambda>owner.
       sbind (sget (\<lambda>k. fc_now (fk_control k))) (\<lambda>now.
       sbind (slift (event_new P (ce_provider_event_id existing) (ce_operation_key existing) (ce_title existing)
                (ce_time_range existing) (ce_timezone existing) (owner # others) now)) (\<lambda>event.
       sbind (slift (change_upsert event)) (\<lambda>change.
       sbind (put_calendar (s\<lparr>cs_google_events := (cs_google_events s)[n := event], cs_changes := cs_changes s @ [change]\<rparr>)) (\<lambda>_.
         sret event))))))))"

definition promoted_event ::
    "(str \<Rightarrow> 'z option) \<Rightarrow> google_proposal_promotion \<Rightarrow> calendar_event \<Rightarrow> int \<Rightarrow> calendar_event provider_result" where
  "promoted_event P p existing now =
     (if \<not> pm_expected_owner_acceptance p \<or> length (ce_attendees existing) \<noteq> 1 then Inl PeConflict
      else let owner = ce_attendees existing ! 0 in
      if at_rsvp owner \<noteq> Accepted then Inl PeConflict
      else if (case pm_requester p of None \<Rightarrow> False | Some q \<Rightarrow> at_address q = at_address owner) then Inl PeConflict
      else event_new P (ce_provider_event_id existing) (ce_operation_key existing) (pm_final_title p)
             (ce_time_range existing) (ce_timezone existing)
             (owner # (case pm_requester p of None \<Rightarrow> [] | Some q \<Rightarrow> [q])) now)"

definition fake_promote_proposal :: "(str \<Rightarrow> 'z option) \<Rightarrow> google_proposal_promotion \<Rightarrow> calendar_event fake_op" where
  "fake_promote_proposal P p =
     sbind (fake_begin CalendarPromote) (\<lambda>_.
     sbind lock_calendar (\<lambda>s.
     sbind (slift (ok_or PeNotFound (google_event_index (pm_provider_event_id p) s))) (\<lambda>n.
     let existing = cs_google_events s ! n in
     if n \<ge> length (cs_google_promotions s) then sfail PeConflict
     else case cs_google_promotions s ! n of
       Some stored \<Rightarrow> if stored = p then sret existing else sfail PeConflict
     | None \<Rightarrow>
       sbind (sget (\<lambda>k. fc_now (fk_control k))) (\<lambda>now.
       sbind (slift (promoted_event P p existing now)) (\<lambda>event.
       sbind (slift (busy_for_range (ce_time_range existing))) (\<lambda>busy.
       sbind (slift (change_upsert event)) (\<lambda>change.
       if ce_provider_event_id existing \<notin> fst ` set (cs_google_busy s) then sfail PeConflict
       else let s = s\<lparr>cs_google_events := (cs_google_events s)[n := event],
                      cs_google_busy := btree_insert (ce_provider_event_id existing) busy (cs_google_busy s)\<rparr>;
                s = rebuild_busy s
       in sbind (put_calendar (s\<lparr>cs_changes := cs_changes s @ [change],
                                 cs_google_promotions := (cs_google_promotions s)[n := Some p]\<rparr>)) (\<lambda>_.
         sret event))))))))"

definition remove_nth :: "nat \<Rightarrow> 'a list \<Rightarrow> 'a list" where
  "remove_nth n xs = take n xs @ drop (n + 1) xs"

definition fake_delete_proposal :: "provider_event_id \<Rightarrow> unit fake_op" where
  "fake_delete_proposal i =
     sbind (fake_begin CalendarDelete) (\<lambda>_.
     sbind lock_calendar (\<lambda>s.
     case google_event_index (pe_str i) s of
       None \<Rightarrow> if pe_str i \<in> cs_deleted_google_ids s then sret () else sfail PeNotFound
     | Some n \<Rightarrow>
       if pe_str i \<notin> fst ` set (cs_google_busy s) then sfail PeConflict
       else if n \<ge> length (cs_google_create_drafts s) then sfail PeConflict
       else sbind (sget (\<lambda>k. fc_now (fk_control k))) (\<lambda>now.
       sbind (slift (change_deleted (pe_str i) now)) (\<lambda>change.
       let key = gp_operation_key (cs_google_create_drafts s ! n);
           s = s\<lparr>cs_google_events := remove_nth n (cs_google_events s),
                 cs_google_create_drafts := remove_nth n (cs_google_create_drafts s),
                 cs_google_promotions := remove_nth n (cs_google_promotions s),
                 cs_google_busy := btree_remove (pe_str i) (cs_google_busy s)\<rparr>;
           s = rebuild_busy s
       in put_calendar (s\<lparr>cs_deleted_google_ids := insert (pe_str i) (cs_deleted_google_ids s),
                          cs_deleted_google_keys := insert key (cs_deleted_google_keys s),
                          cs_changes := cs_changes s @ [change]\<rparr>)))))"

section \<open>Synchronization\<close>

definition ranges_overlap :: "time_range \<Rightarrow> time_range \<Rightarrow> bool" where
  "ranges_overlap l r \<longleftrightarrow> chrono_key (tr_start l) < chrono_key (tr_end r) \<and> chrono_key (tr_end l) > chrono_key (tr_start r)"

definition cursor_for :: "nat \<Rightarrow> str" where
  "cursor_for position = CURSOR_PREFIX @ show_int (int position)"

definition parse_cursor :: "str \<Rightarrow> calendar_state \<Rightarrow> nat provider_result" where
  "parse_cursor cursor s =
     rbind (if starts_with CURSOR_PREFIX cursor then Inr (drop (length CURSOR_PREFIX) cursor) else Inl PeCursorExpired) (\<lambda>suffix.
     if suffix = [] \<or> \<not> list_all is_ascii_digit suffix then Inl PeCursorExpired
     else rbind (ok_or PeCursorExpired (Option.bind (digits_value 0 suffix) (\<lambda>n. if n \<le> u64_max then Some (nat n) else None))) (\<lambda>position.
     if position \<ge> length (cs_changes s) \<or> cursor_for position \<noteq> cursor \<or> position \<notin> cs_emitted_cursors s
     then Inl PeCursorExpired else Inr position))"

type_synonym event_ranges = "str \<rightharpoonup> time_range"

definition remember_change_range :: "calendar_change \<Rightarrow> event_ranges \<Rightarrow> event_ranges" where
  "remember_change_range c m =
     (case cc_event c of Some e \<Rightarrow> m(ce_provider_event_id e \<mapsto> ce_time_range e)
      | None \<Rightarrow> m(cc_provider_event_id c := None))"

definition change_for_sync ::
    "time_range \<Rightarrow> calendar_change \<Rightarrow> event_ranges \<Rightarrow> (event_ranges \<times> calendar_change option) provider_result" where
  "change_for_sync requested c m =
     (case cc_event c of
        Some e \<Rightarrow>
          (let was_matching = (case m (ce_provider_event_id e) of None \<Rightarrow> False | Some r \<Rightarrow> ranges_overlap r requested);
               matches = ranges_overlap (ce_time_range e) requested;
               m = m(ce_provider_event_id e \<mapsto> ce_time_range e)
           in if matches then Inr (m, Some c)
              else if was_matching
              then rbind (change_deleted (ce_provider_event_id e) (ce_last_modified_at e)) (\<lambda>d. Inr (m, Some d))
              else Inr (m, None))
      | None \<Rightarrow>
          (let known = m (cc_provider_event_id c);
               m = m(cc_provider_event_id c := None)
           in Inr (m, if (case known of None \<Rightarrow> True | Some r \<Rightarrow> ranges_overlap r requested) then Some c else None)))"

fun sync_scan ::
    "time_range \<Rightarrow> nat \<Rightarrow> event_ranges \<Rightarrow> calendar_change list \<Rightarrow> (nat \<times> calendar_change) list provider_result" where
  "sync_scan requested position m [] = Inr []"
| "sync_scan requested position m (c # cs) =
     rbind (change_for_sync requested c m) (\<lambda>(m, r).
     rbind (sync_scan requested (position + 1) m cs) (\<lambda>rest.
       Inr (case r of Some c \<Rightarrow> (position, c) # rest | None \<Rightarrow> rest)))"

text \<open>The page of the matching changes, with the position the next page starts at.\<close>

definition sync_page_of ::
    "calendar_state \<Rightarrow> (nat \<times> calendar_change) list \<Rightarrow> nat \<Rightarrow> nat option
      \<Rightarrow> (calendar_change sync_page \<times> nat option) provider_result" where
  "sync_page_of s matching limit partial_after =
     (let available = length matching;
          page_count = min available limit;
          failure_after = (case partial_after of Some n \<Rightarrow> if n < page_count then Some n else None | None \<Rightarrow> None);
          successful = (case failure_after of Some n \<Rightarrow> n | None \<Rightarrow> page_count);
          items = map snd (take successful matching);
          next_position = (case failure_after of
              Some _ \<Rightarrow> Some (fst (matching ! successful))
            | None \<Rightarrow> if page_count < available then Some (fst (matching ! (page_count - 1)) + 1) else None);
          next_position = (case next_position of Some p \<Rightarrow> if p < length (cs_changes s) then Some p else None | None \<Rightarrow> None)
      in rbind (case failure_after of
                  Some _ \<Rightarrow> rbind (item_failure_new FAILURE_SOURCE_ID
                              (cc_provider_event_id (cs_changes s ! fst (matching ! successful))) PeUnavailable) (\<lambda>f. Inr [f])
                | None \<Rightarrow> Inr []) (\<lambda>item_failures.
         rbind (sync_page_new items (map_option cursor_for next_position) item_failures) (\<lambda>page.
           Inr (page, next_position))))"

definition fake_partial_after :: "fake_operation \<Rightarrow> nat option fake_op" where
  "fake_partial_after f k = (case partial_failure_after f (fk_control k) of (c, r) \<Rightarrow> (k\<lparr>fk_control := c\<rparr>, r))"

definition fake_sync_calendar :: "calendar_sync_request \<Rightarrow> calendar_change sync_page fake_op" where
  "fake_sync_calendar request =
     sbind (fake_begin CalendarSync) (\<lambda>_.
     sbind (fake_partial_after CalendarSync) (\<lambda>partial_after.
     sbind lock_calendar (\<lambda>s.
     sbind (slift (case sr_cursor request of None \<Rightarrow> Inr 0 | Some cursor \<Rightarrow> parse_cursor cursor s)) (\<lambda>start.
     sbind (slift (sync_scan (sr_time_range request) start (fold remember_change_range (take start (cs_changes s)) Map.empty)
              (drop start (cs_changes s)))) (\<lambda>matching.
     sbind (slift (sync_page_of s matching (sr_limit request) partial_after)) (\<lambda>(page, next_position).
     sbind (put_calendar (case next_position of
              Some p \<Rightarrow> s\<lparr>cs_emitted_cursors := insert p (cs_emitted_cursors s)\<rparr> | None \<Rightarrow> s)) (\<lambda>_.
       sret page)))))))"

section \<open>Arranging failures\<close>

definition queue_ambiguous_create_failure :: "provider_error \<Rightarrow> unit fake_op" where
  "queue_ambiguous_create_failure e = sbind lock_calendar (\<lambda>s.
     put_calendar (s\<lparr>cs_ambiguous_google_failures := cs_ambiguous_google_failures s @ [e]\<rparr>))"

definition queue_create_response_override :: "calendar_event \<Rightarrow> unit fake_op" where
  "queue_create_response_override e = sbind lock_calendar (\<lambda>s.
     put_calendar (s\<lparr>cs_google_create_overrides := cs_google_create_overrides s @ [e]\<rparr>))"

definition queue_ambiguous_owner_create_failure :: "provider_error \<Rightarrow> unit fake_op" where
  "queue_ambiguous_owner_create_failure e = sbind lock_calendar (\<lambda>s.
     put_calendar (s\<lparr>cs_ambiguous_owner_failures := cs_ambiguous_owner_failures s @ [e]\<rparr>))"

definition queue_owner_create_response_override :: "calendar_event \<Rightarrow> unit fake_op" where
  "queue_owner_create_response_override e = sbind lock_calendar (\<lambda>s.
     put_calendar (s\<lparr>cs_owner_create_overrides := cs_owner_create_overrides s @ [e]\<rparr>))"

definition queue_owner_find_response_override :: "calendar_event \<Rightarrow> unit fake_op" where
  "queue_owner_find_response_override e = sbind lock_calendar (\<lambda>s.
     put_calendar (s\<lparr>cs_owner_find_overrides := cs_owner_find_overrides s @ [e]\<rparr>))"

end
