(* ===== verification/Owner_Submission.thy ===== *)
theory Owner_Submission
  imports Service_Logic Fake_Calendar Owner_Task_Runs
begin

text \<open>
  Submitting owner tasks: every task gets one calendar event, whatever fails on the way. The locale
  \<open>owner_calendar\<close> states what is relied on of the calendars: looking for an event and listing busy
  intervals change no event, a lookup tells the truth about its operation key, and creating an event
  adds at most one under its key, whether the call reports success or not. Creating need not be
  idempotent.
\<close>

section \<open>The contract of the calendars\<close>

locale owner_calendar =
  fixes cal :: "'w calendars" and events :: "'w \<Rightarrow> str \<Rightarrow> calendar_event list" and fine :: "'w \<Rightarrow> bool"
  assumes outlook_reads: "fine w \<Longrightarrow> outlook_list_busy cal span w = (w', x) \<Longrightarrow> fine w' \<and> events w' = events w"
    and google_reads: "fine w \<Longrightarrow> google_list_busy cal span w = (w', x) \<Longrightarrow> fine w' \<and> events w' = events w"
    and find_reads: "fine w \<Longrightarrow> outlook_find_owner_event cal d w = (w', r) \<Longrightarrow> fine w' \<and> events w' = events w"
    and find_answers: "fine w \<Longrightarrow> outlook_find_owner_event cal d w = (w', Inr e) \<Longrightarrow> e \<in> set (events w (oe_operation_key d))"
    and find_misses: "fine w \<Longrightarrow> outlook_find_owner_event cal d w = (w', Inl PeNotFound) \<Longrightarrow> events w (oe_operation_key d) = []"
    and create_adds: "fine w \<Longrightarrow> outlook_create_owner_event cal d w = (w', r) \<Longrightarrow> fine w'
      \<and> (\<forall>k. k \<noteq> oe_operation_key d \<longrightarrow> events w' k = events w k)
      \<and> (events w' (oe_operation_key d) = events w (oe_operation_key d)
         \<or> (\<exists>e. events w' (oe_operation_key d) = events w (oe_operation_key d) @ [e]))"
    and create_answers: "fine w \<Longrightarrow> outlook_create_owner_event cal d w = (w', Inr e)
      \<Longrightarrow> e \<in> set (events w' (oe_operation_key d))"

definition single_events :: "('w \<Rightarrow> str \<Rightarrow> calendar_event list) \<Rightarrow> 'w \<Rightarrow> bool" where
  "single_events events w \<longleftrightarrow> (\<forall>k. length (events w k) \<le> 1)"

text \<open>From one world to another at most one event was added, under the key \<open>k\<close>, which had none.\<close>

definition grew :: "('w \<Rightarrow> str \<Rightarrow> calendar_event list) \<Rightarrow> str \<Rightarrow> 'w \<Rightarrow> 'w \<Rightarrow> bool" where
  "grew events k w w' \<longleftrightarrow> (\<forall>j. j \<noteq> k \<longrightarrow> events w' j = events w j)
     \<and> (events w' k = events w k \<or> events w k = [] \<and> (\<exists>e. events w' k = [e]))"

lemma grew_same: "events w' = events w \<Longrightarrow> grew events k w w'"
  by (simp add: grew_def)

lemma grew_single: "single_events events w \<Longrightarrow> grew events k w w' \<Longrightarrow> single_events events w'"
  unfolding single_events_def grew_def by (metis One_nat_def eq_imp_le length_Cons list.size(3))

lemma single_mem: "single_events events w \<Longrightarrow> e \<in> set (events w k) \<Longrightarrow> events w k = [e]"
proof -
  assume a: "single_events events w" "e \<in> set (events w k)"
  have "length (events w k) \<le> 1" using a(1) by (simp add: single_events_def)
  then show ?thesis using a(2) by (cases "events w k") auto
qed

section \<open>Finding or creating the event\<close>

definition event_found ::
    "('w \<Rightarrow> str \<Rightarrow> calendar_event list) \<Rightarrow> ('w \<Rightarrow> bool) \<Rightarrow> owner_event_draft \<Rightarrow> db \<Rightarrow> 'w \<Rightarrow> db \<times> 'w
      \<Rightarrow> (service_error, calendar_event) result \<Rightarrow> bool" where
  "event_found events fine d db w s r \<longleftrightarrow> fst s = db \<and> fine (snd s) \<and> grew events (oe_operation_key d) w (snd s)
     \<and> (\<forall>e. r = Inr e \<longrightarrow> events (snd s) (oe_operation_key d) = [e] \<and> validate_owner_event e d = Inr ())"

lemma validated_triple:
  "triple (\<lambda>s. event_found events fine d db w s (Inl x) \<and> events (snd s) (oe_operation_key d) = [e]) (validated d e)
     (event_found events fine d db w)"
  unfolding validated_def by (rule triple_check, simp add: event_found_def) (rule triple_ret, simp add: event_found_def)

context owner_calendar
begin

lemma recover_triple:
  assumes "sv_calendars S = cal" "single_events events w"
  shows "triple (\<lambda>s. fst s = db \<and> fine (snd s) \<and> events (snd s) = events w \<and> events w (oe_operation_key d) = [])
    (create_or_recover S d) (event_found events fine d db w)"
  unfolding create_or_recover_def assms(1)
proof (rule triple_match[where R = "\<lambda>r s. event_found events fine d db w s (Inl SvNoAvailability)
    \<and> (\<forall>e. r = Inr e \<longrightarrow> events (snd s) (oe_operation_key d) = [e])"], goal_cases)
  case 1
  show ?case
  proof (rule triple_call)
    fix db' v v' r
    assume P: "fst (db', v) = db \<and> fine (snd (db', v)) \<and> events (snd (db', v)) = events w \<and> events w (oe_operation_key d) = []"
      and run: "outlook_create_owner_event cal d v = (v', r)"
    have a: "fine v'" "\<forall>k. k \<noteq> oe_operation_key d \<longrightarrow> events v' k = events w k"
      "events v' (oe_operation_key d) = [] \<or> (\<exists>e. events v' (oe_operation_key d) = [e])"
      using create_adds[OF _ run] P by auto
    have "events v' (oe_operation_key d) = [e]" if "r = Inr e" for e
      using create_answers[of v d v' e] run that P a(3) by auto
    then show "event_found events fine d db w (db', v') (Inl SvNoAvailability)
        \<and> (\<forall>e. r = Inr e \<longrightarrow> events (snd (db', v')) (oe_operation_key d) = [e])"
      using P a by (auto simp: event_found_def grew_def)
  qed
next
  case (2 r)
  show ?case
  proof (cases r)
    case (Inr e)
    then show ?thesis by (auto intro!: triple_pre[OF validated_triple])
  next
    case (Inl x)
    have "triple (\<lambda>s. event_found events fine d db w s (Inl SvNoAvailability))
      (smatch (on_world (outlook_find_owner_event cal d)) (\<lambda>r. case r of Inr event \<Rightarrow> validated d event
         | Inl PeNotFound \<Rightarrow> sfail (SvOutlookCalendar x) | Inl e \<Rightarrow> sfail (SvOutlookCalendar e)))
      (event_found events fine d db w)"
    proof (rule triple_match[where R = "\<lambda>r s. event_found events fine d db w s (Inl SvNoAvailability)
        \<and> (\<forall>e. r = Inr e \<longrightarrow> events (snd s) (oe_operation_key d) = [e])"], goal_cases)
      case 1
      show ?case
      proof (rule triple_call)
        fix db' v v' r
        assume P: "event_found events fine d db w (db', v) (Inl SvNoAvailability)"
          and run: "outlook_find_owner_event cal d v = (v', r)"
        have f: "fine v" and g: "grew events (oe_operation_key d) w v" using P by (simp_all add: event_found_def)
        have a: "fine v'" "events v' = events v" using find_reads[OF f run] by simp_all
        have "events v' (oe_operation_key d) = [e]" if "r = Inr e" for e
          using find_answers[OF f, of d v' e] run that a(2) single_mem[OF grew_single[OF assms(2) g]] by simp
        then show "event_found events fine d db w (db', v') (Inl SvNoAvailability)
            \<and> (\<forall>e. r = Inr e \<longrightarrow> events (snd (db', v')) (oe_operation_key d) = [e])"
          using P a by (simp add: event_found_def grew_def)
      qed
    next
      case (2 r)
      show ?case
      proof (cases r)
        case (Inr e)
        then show ?thesis by (auto intro!: triple_pre[OF validated_triple])
      next
        case (Inl y)
        then show ?thesis by (cases y) (auto intro!: triple_fail simp: event_found_def)
      qed
    qed
    then show ?thesis using Inl by (auto intro: triple_pre)
  qed
qed

lemma find_or_create_triple:
  assumes "sv_calendars S = cal" "single_events events w"
  shows "triple (\<lambda>s. s = (db, w) \<and> fine w) (find_or_create S d a b) (event_found events fine d db w)"
  unfolding find_or_create_def assms(1)
proof (rule triple_match[where R = "\<lambda>r s. fst s = db \<and> fine (snd s) \<and> events (snd s) = events w
    \<and> (\<forall>e. r = Inr e \<longrightarrow> events w (oe_operation_key d) = [e])
    \<and> (r = Inl PeNotFound \<longrightarrow> events w (oe_operation_key d) = [])"], goal_cases)
  case 1
  show ?case
    by (rule triple_call) (use find_reads find_answers find_misses single_mem[OF assms(2)] in fastforce)
next
  case (2 r)
  show ?case
  proof (cases r)
    case (Inr e)
    then show ?thesis by (auto intro!: triple_pre[OF validated_triple] simp: event_found_def grew_same)
  next
    case (Inl x)
    let ?I = "\<lambda>s. fst s = db \<and> fine (snd s) \<and> events (snd s) = events w \<and> events w (oe_operation_key d) = []"
    have fails: "event_found events fine d db w s (Inl e)" if "?I s" for s e
      using that by (simp add: event_found_def grew_same)
    have "triple ?I (sbind (smap_err SvOutlookCalendar (on_world (outlook_list_busy cal (oe_time_range d)))) (\<lambda>outlook_busy.
         sbind (smap_err SvGoogleCalendar (on_world (google_list_busy cal (oe_time_range d)))) (\<lambda>google_busy.
         if busy_overlaps outlook_busy a b \<or> busy_overlaps google_busy a b then sfail SvNoAvailability
         else create_or_recover S d))) (event_found events fine d db w)"
    proof (intro triple_bind[where R = "\<lambda>_. ?I"] triple_map_err triple_call, goal_cases)
      case (1 db' v v' r)
      then show ?case using outlook_reads[of v _ v' r] fails by (cases r) auto
    next
      case (2 _ db' v v' r)
      then show ?case using google_reads[of v _ v' r] fails by (cases r) auto
    next
      case (3 ob gb)
      show ?case using recover_triple[OF assms, of db d] fails by (auto intro: triple_fail)
    qed
    then show ?thesis using Inl by (cases x) (auto intro!: triple_fail intro: triple_pre simp: event_found_def grew_same)
  qed
qed

end

section \<open>The audit of a submission\<close>

definition owner_tables_same :: "db \<Rightarrow> db \<Rightarrow> bool" where
  "owner_tables_same db db' \<longleftrightarrow> owner_task_drafts db' = owner_task_drafts db \<and> owner_task_placements db' = owner_task_placements db"

definition submission_audited :: "codec \<Rightarrow> int \<Rightarrow> db \<Rightarrow> bool" where
  "submission_audited C i db \<longleftrightarrow> (\<exists>row \<in> set (audit_events db). \<exists>a. decode_audit_event_row C row = Inr a
     \<and> au_idempotency_key row = owner_task_submission_audit_key i \<and> sa_event_type a = OwnerTaskSubmitted
     \<and> sa_entity_type a = AeOwnerTask \<and> sa_entity_id a = show_int i)"

definition audit_verdict :: "int \<Rightarrow> stored_audit_event \<Rightarrow> unit service_result" where
  "audit_verdict i a =
     (if sa_event_type a \<noteq> OwnerTaskSubmitted \<or> sa_entity_type a \<noteq> AeOwnerTask \<or> sa_entity_id a \<noteq> show_int i
      then Inl (SvStore (Conflict ''owner task audit'')) else Inr ())"

lemma ensure_audit_eq:
  assumes "append_audit_event (sv_codec S) key OwnerTaskSubmitted AeOwnerTask (show_int i) now clk db = (db1, x)"
  shows "ensure_owner_task_submission_audit S key i now clk (db, w) =
    ((db1, w), case x of
       Inr a \<Rightarrow> audit_verdict i a
     | Inl e \<Rightarrow> (case e of Conflict _ \<Rightarrow>
           rbind (map_err SvStore (load_audit_event_by_idempotency_key (sv_codec S) key db1)) (audit_verdict i)
         | _ \<Rightarrow> Inl (SvStore e)))"
proof (cases x)
  case (Inr a)
  then show ?thesis using assms
    by (simp add: ensure_owner_task_submission_audit_def Let_def sbind_def smatch_def on_store_def audit_verdict_def)
next
  case (Inl e)
  show ?thesis
  proof (cases "\<exists>r. e = Conflict r")
    case True
    then show ?thesis using assms Inl
      by (cases "load_audit_event_by_idempotency_key (sv_codec S) key db1")
        (auto simp: ensure_owner_task_submission_audit_def Let_def sbind_def smatch_def on_store_def audit_verdict_def smap_err_def
          from_store_def)
  next
    case False
    then show ?thesis using assms Inl
      by (cases e) (auto simp: ensure_owner_task_submission_audit_def Let_def sbind_def smatch_def on_store_def)
  qed
qed

lemma audit_verdict_Inr: "audit_verdict i a = Inr u \<longleftrightarrow> sa_event_type a = OwnerTaskSubmitted \<and> sa_entity_type a = AeOwnerTask
    \<and> sa_entity_id a = show_int i"
  by (auto simp: audit_verdict_def)

lemma ensure_audit_outcome:
  assumes inv: "audit_inv (sv_codec S) db"
    and run: "ensure_owner_task_submission_audit S (owner_task_submission_audit_key i) i now clk (db, w) = (s, r)"
  shows "snd s = w \<and> owner_tables_same db (fst s) \<and> audit_inv (sv_codec S) (fst s)
    \<and> (\<exists>new. audit_events (fst s) = audit_events db @ new) \<and> (r = Inr () \<longrightarrow> submission_audited (sv_codec S) i (fst s))"
proof -
  let ?C = "sv_codec S" and ?key = "owner_task_submission_audit_key i"
  let ?a = "(?key, OwnerTaskSubmitted, AeOwnerTask, show_int i, now)"
  obtain db1 x where app: "append_audit_event ?C ?key OwnerTaskSubmitted AeOwnerTask (show_int i) now clk db = (db1, x)"
    by (cases "append_audit_event ?C ?key OwnerTaskSubmitted AeOwnerTask (show_int i) now clk db") simp
  have create: "audit_create ?C ?a clk db = (db1, x)" using app by (simp add: audit_create_def)
  note eq = ensure_audit_eq[OF app, of w]
  have C: "codec_ok ?C" using inv by (simp add: audit_inv_def)
  show ?thesis
  proof (cases x)
    case (Inr a)
    have ok: "audit_inv ?C db1" "audit_stored ?C ?a a db1" using audit_create_ok[OF inv] create Inr by simp_all
    obtain new where new: "audit_events db1 = audit_events db @ new" "db1 = db\<lparr>audit_events := audit_events db1\<rparr>"
      using audit_create_appends create Inr by blast
    have "owner_tables_same db db1" by (subst new(2)) (simp add: owner_tables_same_def)
    moreover have "submission_audited ?C i db1"
    proof -
      obtain row where "row \<in> set (audit_events db1)" "decode_audit_event_row ?C row = Inr a" and m: "audit_matches ?a a"
        using ok(2) by (auto simp: audit_stored_def)
      moreover from this(2) m have "au_idempotency_key row = ?key"
        by (simp add: decode_audit_event_row_Inr[OF C] audit_matches_def)
      ultimately show ?thesis using m by (auto simp: submission_audited_def audit_matches_def)
    qed
    ultimately show ?thesis using run eq ok(1) new(1) Inr by auto
  next
    case (Inl e)
    have db1: "db1 = db" using audit_create_error create Inl by blast
    have loaded: "\<exists>row. find_audit_row db k = Some row \<and> decode_audit_event_row ?C row = Inr a"
      if "load_audit_event_by_idempotency_key ?C k db = Inr a" for a k
      using that by (cases "find_audit_row db k") (auto simp: load_audit_event_by_idempotency_key_def rbind_Inr_iff validator_eqs
          split: if_splits)
    have aud: "submission_audited ?C i db"
      if given: "load_audit_event_by_idempotency_key ?C ?key db = Inr a" "audit_verdict i a = Inr ()" for a
    proof -
      obtain row where row: "find_audit_row db ?key = Some row" "decode_audit_event_row ?C row = Inr a"
        using loaded[OF given(1)] by blast
      then show ?thesis using find_audit_row_Some[OF row(1)] given(2)
        unfolding submission_audited_def audit_verdict_Inr by blast
    qed
    have "s = (db, w)" using run eq db1 Inl by simp
    moreover have "submission_audited ?C i db" if "r = Inr ()"
    proof (cases "\<exists>r. e = Conflict r")
      case True
      then show ?thesis using run eq Inl that aud unfolding db1 by (auto simp: rbind_Inr_iff)
    next
      case False
      then show ?thesis using run eq Inl that unfolding db1 by (cases e) auto
    qed
    ultimately show ?thesis using inv by (simp add: owner_tables_same_def)
  qed
qed

lemma ensure_audit_retry:
  assumes inv: "audit_inv (sv_codec S) db" and st: "submission_audited (sv_codec S) i db"
    and now: "nanosecond now = 0" "rfc_range (unix_timestamp now)"
  shows "ensure_owner_task_submission_audit S (owner_task_submission_audit_key i) i now clk (db, w) = ((db, w), Inr ())"
proof -
  let ?C = "sv_codec S" and ?key = "owner_task_submission_audit_key i"
  have C: "codec_ok ?C" using inv by (simp add: audit_inv_def)
  obtain row a where row: "row \<in> set (audit_events db)" "decode_audit_event_row ?C row = Inr a" "au_idempotency_key row = ?key"
    and a: "sa_event_type a = OwnerTaskSubmitted" "sa_entity_type a = AeOwnerTask" "sa_entity_id a = show_int i"
    using st by (auto simp: submission_audited_def)
  have ids: "machine_id 256 ?key" "machine_id 256 (show_int i)"
    using row(2,3) a(3) by (simp_all add: decode_audit_event_row_Inr[OF C])
  have found: "find_audit_row db ?key = Some row"
    using find_audit_row_eq[OF _ row(1,3)] inv by (simp add: audit_inv_def)
  have load: "load_audit_event_by_idempotency_key ?C ?key db = Inr a"
    using found row(2) ids by (simp add: load_audit_event_by_idempotency_key_def validator_eqs store_limits)
  have verdict: "audit_verdict i a = Inr ()" using a by (simp add: audit_verdict_Inr)
  have "audit_valid (?key, OwnerTaskSubmitted, AeOwnerTask, show_int i, now)" using ids now by (simp add: audit_valid_def)
  then have "append_audit_event ?C ?key OwnerTaskSubmitted AeOwnerTask (show_int i) now clk db =
      (if same_instant (sa_occurred_at a) now then (db, Inr a) else (db, Inl (Conflict ''audit event'')))"
    using append_audit_event_cases[OF C refl] found row(2) a by simp
  then show ?thesis
    using ensure_audit_eq[of S ?key i now clk db db "Inr a" w] ensure_audit_eq[of S ?key i now clk db db "Inl (Conflict ''audit event'')" w]
      load verdict by (cases "same_instant (sa_occurred_at a) now") simp_all
qed

section \<open>The invariant\<close>

definition linked :: "('w \<Rightarrow> str \<Rightarrow> calendar_event list) \<Rightarrow> db \<Rightarrow> 'w \<Rightarrow> bool" where
  "linked events db w \<longleftrightarrow> (\<forall>r \<in> set (owner_task_placements db). \<forall>x. pl_provider_event_id r = Some x \<longrightarrow>
     (\<exists>e. events w (pl_operation_key r) = [e] \<and> ce_provider_event_id e = x))"

definition submission_inv ::
    "'w pa_service \<Rightarrow> ('w \<Rightarrow> str \<Rightarrow> calendar_event list) \<Rightarrow> ('w \<Rightarrow> bool) \<Rightarrow> db \<times> 'w \<Rightarrow> bool" where
  "submission_inv S events fine s \<longleftrightarrow> fine (snd s) \<and> single_events events (snd s) \<and> linked events (fst s) (snd s)
     \<and> owner_inv (sv_texts S) (fst s) \<and> audit_inv (sv_codec S) (fst s)"

lemma linked_grew: "linked events db w \<Longrightarrow> grew events k w w' \<Longrightarrow> linked events db w'"
  unfolding linked_def grew_def by (metis list.distinct(1))

lemma linked_tables: "owner_tables_same db db' \<Longrightarrow> linked events db' w = linked events db w"
  by (simp add: linked_def owner_tables_same_def)

lemma loads_tables:
  assumes "owner_tables_same db db'"
  shows "load_owner_task_placement T i db' = load_owner_task_placement T i db"
    "load_owner_task_draft_by_id C i db' = load_owner_task_draft_by_id C i db"
    "owner_inv T db' = owner_inv T db"
  using assms by (simp_all add: owner_tables_same_def load_owner_task_placement_def load_owner_task_draft_by_id_def
      validate_owner_task_placement_reference_def ensure_owner_task_draft_exists_def owner_inv_def)

lemma linked_submitted:
  assumes T: "texts_ok T" and inv: "owner_inv T db" and l: "linked events db w" and p: "load_owner_task_placement T i db = Inr p"
    and e: "events w (sp_operation_key p) = [e]"
  shows "linked events (submitted_db i (ce_provider_event_id e) db) w"
  unfolding linked_def
proof (intro ballI allI impI)
  fix r x
  assume r: "r \<in> set (owner_task_placements (submitted_db i (ce_provider_event_id e) db))" and x: "pl_provider_event_id r = Some x"
  obtain q where q: "q \<in> set (owner_task_placements db)"
    "r = (if pl_owner_task_draft_id q = i then set_submitted (ce_provider_event_id e) q else q)"
    using r by (auto simp: submitted_db_def update_rows_def)
  show "\<exists>e. events w (pl_operation_key r) = [e] \<and> ce_provider_event_id e = x"
  proof (cases "pl_owner_task_draft_id q = i")
    case True
    obtain r' where r': "r' \<in> set (owner_task_placements db)" "pl_owner_task_draft_id r' = i" "placement_decodes T r' p"
      using p by (auto simp: placement_load_iff[OF T inv])
    have "q = r'" using inv q(1) r'(1,2) True distinct_map_unique[of pl_owner_task_draft_id "owner_task_placements db" q r']
      by (simp add: owner_inv_def placement_rows_ok_def)
    then have "pl_operation_key q = sp_operation_key p" using r'(3) by (simp add: placement_decodes_def)
    then show ?thesis using q(2) x e True by simp
  next
    case False
    then show ?thesis using l q x by (simp add: linked_def)
  qed
qed

section \<open>Submitting\<close>

text \<open>Everything that is checked before the providers are asked, for the placement \<open>p\<close>.\<close>

definition submission_ready ::
    "'w pa_service \<Rightarrow> prepared_owner_task \<Rightarrow> owner_verified \<Rightarrow> stored_placement \<Rightarrow> owner_event_draft \<Rightarrow> db \<Rightarrow> bool" where
  "submission_ready S prepared verified p d db \<longleftrightarrow>
     (\<exists>x span. load_owner_task_draft_by_id (sv_codec S) (po_owner_task_draft_id prepared) db = Inr x
        \<and> load_owner_task_placement (sv_texts S) (po_owner_task_draft_id prepared) db = Inr p
        \<and> validate_owner_task_submission prepared x p verified = Inr ()
        \<and> service_range (sp_starts_at p) (sp_ends_at p) = Inr span
        \<and> owner_event_draft_new (tx_zone (sv_texts S)) (sp_operation_key p) (ot_title (so_draft x)) span (sp_timezone p) = Inr d)"

text \<open>What a successful submission leaves behind.\<close>

definition submission_done ::
    "'w pa_service \<Rightarrow> ('w \<Rightarrow> str \<Rightarrow> calendar_event list) \<Rightarrow> prepared_owner_task \<Rightarrow> owner_verified \<Rightarrow> submitted_owner_task \<Rightarrow> db \<times> 'w \<Rightarrow> bool" where
  "submission_done S events prepared verified x s \<longleftrightarrow>
     (\<exists>p d. submission_ready S prepared verified p d (fst s) \<and> sp_provider_event_id p = Some (su_provider_event_id x))
     \<and> su_owner_task_draft_id x = po_owner_task_draft_id prepared \<and> su_state x = submitted_state
     \<and> (\<exists>e. events (snd s) (po_operation_key prepared) = [e] \<and> ce_provider_event_id e = su_provider_event_id x)
     \<and> submission_audited (sv_codec S) (po_owner_task_draft_id prepared) (fst s)"

lemma owner_event_draft_key: "owner_event_draft_new P k t span z = Inr d \<Longrightarrow> oe_operation_key d = k"
  by (auto simp: owner_event_draft_new_def rbind_Inr_iff validate_identifier_Inr)

lemma validated_submission:
  "validate_owner_task_submission prepared x p verified = Inr () \<Longrightarrow> po_operation_key prepared = sp_operation_key p"
  by (auto simp: validate_owner_task_submission_def rbind_Inr_iff split: if_splits)

lemma ready_follows:
  assumes r: "submission_ready S prepared verified p d db"
    and x: "load_owner_task_draft_by_id (sv_codec S) (po_owner_task_draft_id prepared) db' =
        load_owner_task_draft_by_id (sv_codec S) (po_owner_task_draft_id prepared) db"
    and q: "load_owner_task_placement (sv_texts S) (po_owner_task_draft_id prepared) db' = Inr q" "placement_follows p q"
    and v: "ov_fingerprint verified' = ov_fingerprint verified"
  shows "submission_ready S prepared verified' q d db'"
proof -
  have "validate_owner_task_submission prepared y q verified' = validate_owner_task_submission prepared y p verified" for y
    using q(2) v by (simp add: validate_owner_task_submission_def placement_follows_def)
  then show ?thesis using r x q by (auto simp: submission_ready_def placement_follows_def)
qed

text \<open>What the database may lose or change on the way: no placement, and nothing of the audit log.\<close>

definition advances :: "'w pa_service \<Rightarrow> db \<Rightarrow> db \<Rightarrow> bool" where
  "advances S db db' \<longleftrightarrow> placements_kept (sv_texts S) db db' \<and> (\<exists>new. audit_events db' = audit_events db @ new)"

lemma advances_refl: "owner_inv (sv_texts S) db \<Longrightarrow> advances S db db"
  by (simp add: advances_def placements_kept_refl)

lemma advances_trans: "advances S db db1 \<Longrightarrow> advances S db1 db2 \<Longrightarrow> advances S db db2"
  unfolding advances_def using placements_kept_trans by fastforce

lemma advances_audit:
  assumes "owner_inv (sv_texts S) db" "owner_tables_same db db'" "audit_events db' = audit_events db @ new"
  shows "advances S db db'"
  using assms placements_kept_same[OF assms(1)] by (auto simp: advances_def owner_tables_same_def)

lemma triple_at: "(\<And>t. P t \<Longrightarrow> triple (\<lambda>s. s = t) m Q) \<Longrightarrow> triple P m Q"
  by (simp add: triple_def)

lemma audit_triple:
  assumes inv: "submission_inv S events fine (db, w)" and adv: "advances S db0 db" and i: "i = po_owner_task_draft_id prepared"
    and r: "submission_ready S prepared verified p d db" "sp_provider_event_id p = Some e"
    and ev: "\<exists>x. events w (po_operation_key prepared) = [x] \<and> ce_provider_event_id x = e"
  shows "triple (\<lambda>s. s = (db, w))
    (sbind (ensure_owner_task_submission_audit S (owner_task_submission_audit_key i) i now clk) (\<lambda>_.
       sret \<lparr>su_owner_task_draft_id = i, su_provider_event_id = e, su_state = submitted_state\<rparr>))
    (\<lambda>s r. submission_inv S events fine s \<and> advances S db0 (fst s) \<and> (\<forall>x. r = Inr x \<longrightarrow> submission_done S events prepared verified x s))"
proof (rule triple_bind[where R = "\<lambda>_ s. submission_inv S events fine s \<and> advances S db0 (fst s) \<and> snd s = w \<and> owner_tables_same db (fst s)
    \<and> submission_audited (sv_codec S) i (fst s)"], goal_cases)
  case 1
  show ?case
  proof (rule tripleI)
    fix s s' r
    assume "s = (db, w)" and run: "ensure_owner_task_submission_audit S (owner_task_submission_audit_key i) i now clk s = (s', r)"
    then have run: "ensure_owner_task_submission_audit S (owner_task_submission_audit_key i) i now clk (db, w) = (s', r)" by simp
    have a: "snd s' = w" "owner_tables_same db (fst s')" "audit_inv (sv_codec S) (fst s')"
      "r = Inr () \<longrightarrow> submission_audited (sv_codec S) i (fst s')"
      using ensure_audit_outcome[OF _ run] inv by (simp_all add: submission_inv_def)
    obtain new where "audit_events (fst s') = audit_events db @ new"
      using ensure_audit_outcome[OF _ run] inv by (auto simp: submission_inv_def)
    then have "advances S db0 (fst s')"
      using advances_trans[OF adv advances_audit[OF _ a(2)]] inv by (simp add: submission_inv_def)
    moreover    have "submission_inv S events fine s'"
      using inv a by (simp add: submission_inv_def linked_tables[OF a(2)] loads_tables(3)[OF a(2)])
    ultimately show "case r of Inl e \<Rightarrow> submission_inv S events fine s' \<and> advances S db0 (fst s') \<and> (\<forall>x. Inl e = Inr x \<longrightarrow> submission_done S events prepared verified x s')
      | Inr x \<Rightarrow> submission_inv S events fine s' \<and> advances S db0 (fst s') \<and> snd s' = w \<and> owner_tables_same db (fst s') \<and> submission_audited (sv_codec S) i (fst s')"
      using a by (cases r) simp_all
  qed
next
  case (2 u)
  show ?case
  proof (rule triple_ret)
    fix s assume s: "submission_inv S events fine s \<and> advances S db0 (fst s) \<and> snd s = w \<and> owner_tables_same db (fst s) \<and> submission_audited (sv_codec S) i (fst s)"
    then have "submission_ready S prepared verified p d (fst s)"
      using r(1) by (auto simp: submission_ready_def loads_tables[of db "fst s"])
    then show "submission_inv S events fine s \<and> advances S db0 (fst s) \<and> (\<forall>x. Inr \<lparr>su_owner_task_draft_id = i, su_provider_event_id = e, su_state = submitted_state\<rparr> = Inr x
        \<longrightarrow> submission_done S events prepared verified x s)"
      using s r(2) ev i by (auto simp: submission_done_def)
  qed
qed

context owner_calendar
begin

lemma submit_triple:
  assumes S: "sv_calendars S = cal" and T: "texts_ok (sv_texts S)"
  shows "triple (\<lambda>s. submission_inv S events fine s \<and> fst s = db0) (submit_owner_task S prepared verified caller now clk)
    (\<lambda>s r. submission_inv S events fine s \<and> advances S db0 (fst s) \<and> (\<forall>x. r = Inr x \<longrightarrow> submission_done S events prepared verified x s))"
proof (rule triple_at)
  fix t assume t: "submission_inv S events fine t \<and> fst t = db0"
  obtain db w where tw: "t = (db, w)" by (cases t)
  have inv: "submission_inv S events fine (db, w)" and db0: "fst (db, w) = db0" using t unfolding tw by blast+
  let ?i = "po_owner_task_draft_id prepared" and ?T = "sv_texts S"
  let ?Q = "\<lambda>s r. submission_inv S events fine s \<and> advances S db0 (fst s) \<and> (\<forall>x. r = Inr x \<longrightarrow> submission_done S events prepared verified x s)"
  have own: "owner_inv ?T db" and single: "single_events events w" and lnk: "linked events db w" and fw: "fine w"
    using inv by (simp_all add: submission_inv_def)
  have adv0: "advances S db0 db" using advances_refl[OF own] db0 by simp
  show "triple (\<lambda>s. s = t) (submit_owner_task S prepared verified caller now clk) ?Q"
    unfolding tw submit_owner_task_def Let_def
  proof (intro triple_check triple_read, goal_cases)
    case (7 _ x p u span d)
    show ?case
    proof (cases "load_owner_task_draft_by_id (sv_codec S) ?i db = Inr x \<and> load_owner_task_placement ?T ?i db = Inr p")
      case False
      then show ?thesis by (auto simp: triple_def)
    next
      case True
      have ready: "submission_ready S prepared verified p d db" using True 7 by (auto simp: submission_ready_def)
      have key: "oe_operation_key d = sp_operation_key p" "po_operation_key prepared = sp_operation_key p"
        using 7 owner_event_draft_key validated_submission by auto
      show ?thesis
      proof (cases "sp_provider_event_id p")
        case (Some e)
        obtain r where r: "r \<in> set (owner_task_placements db)" "placement_decodes ?T r p"
          using True by (auto simp: placement_load_iff[OF T own])
        then have "\<exists>x. events w (po_operation_key prepared) = [x] \<and> ce_provider_event_id x = e"
          using lnk Some key by (auto simp: linked_def placement_decodes_def)
        then show ?thesis using audit_triple[OF inv adv0 refl ready Some] Some by (auto intro: triple_pre)
      next
        case None
        have "triple (\<lambda>s. s = (db, w)) (sbind (find_or_create S d (sp_starts_at p) (sp_ends_at p)) (\<lambda>event.
          sbind (smap_err SvStore (on_store (submit_owner_task_placement ?T ?i (ce_provider_event_id event)))) (\<lambda>submitted.
          sbind (slift (ok_or (SvStore placement_invalid) (sp_provider_event_id submitted))) (\<lambda>provider_event_id.
          if provider_event_id \<noteq> ce_provider_event_id event \<or> sp_draft_id submitted \<noteq> ?i \<or> \<not> is_submitted submitted
          then sfail (SvStore (Conflict ''owner task submission''))
          else sbind (ensure_owner_task_submission_audit S (owner_task_submission_audit_key ?i) ?i now clk) (\<lambda>_.
            sret \<lparr>su_owner_task_draft_id = ?i, su_provider_event_id = provider_event_id, su_state = submitted_state\<rparr>))))) ?Q"
        proof (rule triple_bind[where R = "\<lambda>e s. event_found events fine d db w s (Inr e)"], goal_cases)
          case 1
          have kept: "submission_inv S events fine s \<and> advances S db0 (fst s)" if "event_found events fine d db w s r" for s r
            using that inv grew_single[OF single] linked_grew[OF lnk] adv0 by (auto simp: event_found_def submission_inv_def)
          show ?case
            by (rule triple_post[OF triple_pre[OF find_or_create_triple[OF S single]]])
              (use fw kept in \<open>auto split: sum.splits\<close>)
        next
          case (2 event)
          have found: "fst s = db" "fine (snd s)" "single_events events (snd s)" "linked events db (snd s)"
            "events (snd s) (sp_operation_key p) = [event]" if "event_found events fine d db w s (Inr event)" for s
            using that grew_single[OF single] linked_grew[OF lnk] key by (auto simp: event_found_def)
          show ?case
          proof (rule triple_write, goal_cases)
            case (1 dbx v db' e)
            have "dbx = db" using found(1)[OF 1(1)] by simp
            then have "db' = db" using saves_roll_back(2) 1(2) by blast
            then show ?case using found[OF 1(1)] inv adv0 by (simp add: submission_inv_def)
          next
            case (2 q)
            show ?case
            proof (rule triple_at, clarify)
              fix db' v dbx assume ef: "event_found events fine d db w (dbx, snd (db', v)) (Inr event)"
                and run: "submit_owner_task_placement ?T ?i (ce_provider_event_id event) dbx = (fst (db', v), Inr q)"
              have f: "dbx = db" "fine v" "single_events events v" "linked events db v" "events v (sp_operation_key p) = [event]"
                using found[OF ef] by simp_all
              have run: "submit_owner_task_placement ?T ?i (ce_provider_event_id event) db = (db', Inr q)" using run f(1) by simp
              note step = submit_task_step[OF T own run]
              have load: "load_owner_task_placement ?T ?i db = Inr p" using True by simp
              have db': "db' = submitted_db ?i (ce_provider_event_id event) db" "q = p\<lparr>sp_provider_event_id := Some (ce_provider_event_id event)\<rparr>"
                using submit_task_outcome[OF T own load step(2)] None run by (auto split: if_splits)
              have own': "owner_inv ?T db'" using step(1) by (simp add: placements_kept_def)
              have "linked events db' v" using linked_submitted[OF T own f(4) load f(5)] db'(1) by simp
              moreover have "audit_events db' = audit_events db" using db'(1) by (simp add: submitted_db_def)
              ultimately have inv': "submission_inv S events fine (db', v)"
                using inv f own' by (simp add: submission_inv_def audit_inv_def)
              have "audit_events db' = audit_events db" using db'(1) by (simp add: submitted_db_def)
              then have "advances S db db'" using step(1) by (simp add: advances_def)
              then have adv': "advances S db0 db'" by (rule advances_trans[OF adv0])
              have dload: "load_owner_task_draft_by_id (sv_codec S) ?i db' = load_owner_task_draft_by_id (sv_codec S) ?i db"
                using step(1) load by (auto simp: placements_kept_def)
              have follow: "placement_follows p q" using db'(2) None by (simp add: placement_follows_def is_submitted_def)
              have ready': "submission_ready S prepared verified q d db'"
                by (rule ready_follows[OF ready dload step(3) follow refl])
              have i: "sp_draft_id q = ?i" by (rule placement_load_id[OF T own' step(3)])
              have ev: "\<exists>x. events v (po_operation_key prepared) = [x] \<and> ce_provider_event_id x = ce_provider_event_id event"
                using f(5) key by simp
              show "triple (\<lambda>s. s = (db', v)) (sbind (slift (ok_or (SvStore placement_invalid) (sp_provider_event_id q))) (\<lambda>provider_event_id.
                if provider_event_id \<noteq> ce_provider_event_id event \<or> sp_draft_id q \<noteq> ?i \<or> \<not> is_submitted q
                then sfail (SvStore (Conflict ''owner task submission''))
                else sbind (ensure_owner_task_submission_audit S (owner_task_submission_audit_key ?i) ?i now clk) (\<lambda>_.
                  sret \<lparr>su_owner_task_draft_id = ?i, su_provider_event_id = provider_event_id, su_state = submitted_state\<rparr>))) ?Q"
                using audit_triple[OF inv' adv' refl ready' step(4) ev] step(4) i by (simp add: is_submitted_def)
            qed
          qed
        qed
        then show ?thesis using None by (auto intro: triple_pre)
      qed
    qed
  qed (use inv adv0 in simp_all)
qed

end

section \<open>Runs\<close>

text \<open>Tasks are prepared and submitted in any order, and any call may fail.\<close>

inductive owner_run :: "'w pa_service \<Rightarrow> db \<times> 'w \<Rightarrow> db \<times> 'w \<Rightarrow> bool" for S where
  prepared: "owner_task_made d \<Longrightarrow> prepare_owner_task S d source starts zone key verified caller now s = (s', r) \<Longrightarrow> owner_run S s s'"
| submitted: "submit_owner_task S p verified caller now clk s = (s', r) \<Longrightarrow> owner_run S s s'"

lemma insert_owner_frame:
  "insert_owner_task s d due db = Inr (db1, n) \<Longrightarrow> owner_task_placements db1 = owner_task_placements db \<and> audit_events db1 = audit_events db"
  by (auto simp: insert_owner_task_def Let_def split: if_splits)

lemma bind_placement_frame:
  "bind_placement T i a b u v zone key owner db = Inr (db1, p) \<Longrightarrow> audit_events db1 = audit_events db
    \<and> (owner_task_placements db1 = owner_task_placements db
       \<or> (\<exists>r. owner_task_placements db1 = owner_task_placements db @ [r] \<and> pl_provider_event_id r = None))"
  by (auto simp: bind_placement_def rbind_Inr_iff insert_placement_def new_placement_row_def split: if_splits option.splits)

lemma prepared_frame:
  assumes "save_prepared_owner_task T s d a b zone key owner db = (db1, Inr x)"
  shows "audit_events db1 = audit_events db
    \<and> (owner_task_placements db1 = owner_task_placements db
       \<or> (\<exists>r. owner_task_placements db1 = owner_task_placements db @ [r] \<and> pl_provider_event_id r = None))"
  using assms unfolding save_prepared_owner_task_def run_tx_Inr
  by (auto simp: rbind_Inr_iff split: if_splits dest!: insert_owner_frame bind_placement_frame)

lemma prepare_triple:
  assumes T: "texts_ok (sv_texts S)" and d: "owner_task_made d"
  shows "triple (\<lambda>s. submission_inv S events fine s \<and> s = (db0, w0))
    (prepare_owner_task S d source starts zone key verified caller now)
    (\<lambda>s r. submission_inv S events fine s \<and> advances S db0 (fst s))"
proof -
  have keep: "submission_inv S events fine (db, w0) \<and> advances S db0 db"
    if inv: "submission_inv S events fine (db0, w0)"
      and run: "save_prepared_owner_task (sv_texts S) source d a b zone key owner db0 = (db, r)" for a b owner db r
  proof (cases r)
    case (Inl e)
    then have "db = db0" using saves_roll_back(1) run by blast
    then show ?thesis using inv by (simp add: submission_inv_def advances_refl)
  next
    case (Inr xp)
    obtain x p where xp: "xp = (x, p)" by (cases xp)
    have own: "owner_inv (sv_texts S) db0" using inv by (simp add: submission_inv_def)
    have run': "save_prepared_owner_task (sv_texts S) source d a b zone key owner db0 = (db, Inr (x, p))" using run Inr xp by simp
    have kept: "placements_kept (sv_texts S) db0 db" by (rule prepared_step(1)[OF T own d run'])
    have frame: "audit_events db = audit_events db0" "linked events db w0"
      using prepared_frame[OF run'] inv by (auto simp: linked_def submission_inv_def)
    then show ?thesis using inv kept by (auto simp: submission_inv_def advances_def placements_kept_def audit_inv_def)
  qed
  show ?thesis
    unfolding prepare_owner_task_def Let_def
  proof (intro triple_check triple_write, goal_cases)
    case (4 _ start1 end1 db w db' e)
    then show ?case using keep by auto
  next
    case (5 _ start1 end1 sp)
    have "submission_inv S events fine s \<and> advances S db0 (fst s)"
      if "\<exists>db. (submission_inv S events fine (db, snd s) \<and> (db, snd s) = (db0, w0))
          \<and> save_prepared_owner_task (sv_texts S) source d start1 end1 zone key (ov_fingerprint verified) db = (fst s, Inr sp)" for s
      using keep[of start1 end1 "ov_fingerprint verified" "fst s" "Inr sp"] that by (cases s) auto
    then show ?case by (cases sp) (auto intro!: triple_ret triple_fail)
  qed (auto simp: submission_inv_def advances_refl)
qed

lemma run_step:
  assumes cal: "owner_calendar (sv_calendars S) events fine" and T: "texts_ok (sv_texts S)"
    and inv: "submission_inv S events fine s" and step: "owner_run S s s'"
  shows "submission_inv S events fine s' \<and> advances S (fst s) (fst s')"
  using step
proof cases
  case (prepared d source starts zone key verified caller now r)
  then show ?thesis using tripleD[OF prepare_triple[OF T prepared(1), of events fine "fst s" "snd s"]] inv by simp
next
  case (submitted p verified caller now clk r)
  then show ?thesis using tripleD[OF owner_calendar.submit_triple[OF cal refl T]] inv by blast
qed

lemma run_steps:
  assumes cal: "owner_calendar (sv_calendars S) events fine" and T: "texts_ok (sv_texts S)"
    and inv: "submission_inv S events fine s" and steps: "(owner_run S)\<^sup>*\<^sup>* s s'"
  shows "submission_inv S events fine s' \<and> advances S (fst s) (fst s')"
  using steps
proof (induction rule: rtranclp_induct)
  case base
  show ?case using inv by (simp add: submission_inv_def advances_refl)
next
  case (step t u)
  have "submission_inv S events fine u \<and> advances S (fst t) (fst u)" using run_step[OF cal T _ step.hyps(2)] step.IH by blast
  then show ?case using step.IH advances_trans by blast
qed

text \<open>
  C18. One event per task: along any run of preparations and submissions, whatever calls fail, the
  owner's calendar never holds two events under one operation key, although creating an event need
  not be idempotent; and a task that is recorded as submitted has exactly the recorded event.
\<close>

theorem one_event_per_task:
  assumes cal: "owner_calendar (sv_calendars S) events fine" and T: "texts_ok (sv_texts S)"
    and inv: "submission_inv S events fine s" and steps: "(owner_run S)\<^sup>*\<^sup>* s s'"
  shows "length (events (snd s') k) \<le> 1
    \<and> (\<forall>i p x. load_owner_task_placement (sv_texts S) i (fst s') = Inr p \<and> sp_provider_event_id p = Some x
         \<longrightarrow> (\<exists>e. events (snd s') (sp_operation_key p) = [e] \<and> ce_provider_event_id e = x))"
proof -
  have inv': "submission_inv S events fine s'" using run_steps[OF cal T inv steps] by simp
  then have own: "owner_inv (sv_texts S) (fst s')" by (simp add: submission_inv_def)
  have "\<exists>e. events (snd s') (sp_operation_key p) = [e] \<and> ce_provider_event_id e = x"
    if p: "load_owner_task_placement (sv_texts S) i (fst s') = Inr p" and x: "sp_provider_event_id p = Some x" for i p x
  proof -
    obtain r where "r \<in> set (owner_task_placements (fst s'))" "placement_decodes (sv_texts S) r p"
      using p by (auto simp: placement_load_iff[OF T own])
    then show ?thesis using inv' x by (auto simp: submission_inv_def linked_def placement_decodes_def)
  qed
  then show ?thesis using inv' by (auto simp: submission_inv_def single_events_def)
qed

lemma submit_again:
  assumes v: "owner_verified_validate_at verified caller now = Inr ()"
    and r: "submission_ready S prepared verified p d db" "sp_provider_event_id p = Some e"
    and a: "audit_inv (sv_codec S) db" "submission_audited (sv_codec S) (po_owner_task_draft_id prepared) db"
    and now: "nanosecond now = 0" "rfc_range (unix_timestamp now)"
  shows "submit_owner_task S prepared verified caller now clk (db, w) =
    ((db, w), Inr \<lparr>su_owner_task_draft_id = po_owner_task_draft_id prepared, su_provider_event_id = e, su_state = submitted_state\<rparr>)"
proof -
  obtain x span where x: "load_owner_task_draft_by_id (sv_codec S) (po_owner_task_draft_id prepared) db = Inr x"
    "load_owner_task_placement (sv_texts S) (po_owner_task_draft_id prepared) db = Inr p"
    "validate_owner_task_submission prepared x p verified = Inr ()"
    "service_range (sp_starts_at p) (sp_ends_at p) = Inr span"
    "owner_event_draft_new (tx_zone (sv_texts S)) (sp_operation_key p) (ot_title (so_draft x)) span (sp_timezone p) = Inr d"
    using r(1) by (auto simp: submission_ready_def)
  show ?thesis
    using v x r(2) ensure_audit_retry[OF a now, of clk w]
    by (simp add: submit_owner_task_def Let_def sbind_def smap_err_def from_store_def)
qed

lemma validate_at_Inr:
  "owner_verified_validate_at v caller now = Inr () \<longleftrightarrow>
    normalize_caller_id caller = Some (ov_normalized_caller v) \<and> is_utc now \<and> nanosecond now = 0
    \<and> \<not> before now (ov_verified_at v) \<and> before now (ov_expires_at v)"
  by (auto simp: owner_verified_validate_at_def rbind_Inr_iff normalize_owner_number_def canonical_owner_time_def
      split: if_splits)

text \<open>
  The owner's verification: one issued for the configured number at \<open>t\<close> is accepted exactly from
  callers with that number, in some spelling, at whole UTC seconds from \<open>t\<close> until a minute later,
  the end excluded.
\<close>

theorem owner_verification_window:
  assumes "owner_verified_issue sha configured caller c t = Inr v"
  shows "owner_verified_validate_at v caller' now = Inr () \<longleftrightarrow>
    normalize_caller_id caller' = normalize_caller_id configured \<and> is_utc now \<and> nanosecond now = 0
    \<and> instant_ns t \<le> instant_ns now \<and> instant_ns now < instant_ns t + 60 * NANOS"
  using assms
  by (auto simp: validate_at_Inr owner_verified_issue_def rbind_Inr_iff normalize_owner_number_def canonical_owner_time_def
      odt_checked_add_def OWNER_VERIFICATION_VALID_FOR_def before_def Let_def split: if_splits)

theorem owner_verification_window_witness:
  "\<exists>v. owner_verified_issue (\<lambda>_. []) (lit ''+1 555 0100'') (lit ''tel:+15550100'') OwnerConfirmation (utc_secs 60) = Inr v
    \<and> owner_verified_validate_at v (lit ''sip:+15550100@x'') (utc_secs 60) = Inr ()"
proof -
  let ?i = "owner_verified_issue (\<lambda>_. []) (lit ''+1 555 0100'') (lit ''tel:+15550100'') OwnerConfirmation (utc_secs 60)"
  have "case ?i of Inr v \<Rightarrow> True | _ \<Rightarrow> False" by code_simp
  then obtain v where v: "?i = Inr v" by (auto split: sum.splits)
  have "normalize_caller_id (lit ''sip:+15550100@x'') = normalize_caller_id (lit ''+1 555 0100'')" "is_utc (utc_secs 60)"
    "nanosecond (utc_secs 60) = 0" by code_simp+
  then show ?thesis using owner_verification_window[OF v] v by (simp add: NANOS_def)
qed

text \<open>
  C37. A submission that returned stays: after any further run, submitting the same task again with a
  valid verification of the same owner returns the same event, calls no provider and changes
  nothing.
\<close>

theorem submission_can_be_repeated:
  assumes cal: "owner_calendar (sv_calendars S) events fine" and T: "texts_ok (sv_texts S)"
    and inv: "submission_inv S events fine s"
    and first: "submit_owner_task S prepared verified caller now clk s = (s1, Inr x)"
    and steps: "(owner_run S)\<^sup>*\<^sup>* s1 s2"
    and again: "owner_verified_validate_at verified' caller' now' = Inr ()" "ov_fingerprint verified' = ov_fingerprint verified"
      "rfc_range (unix_timestamp now')"
  shows "submit_owner_task S prepared verified' caller' now' clk' s2 = (s2, Inr x)"
proof -
  have s1: "submission_inv S events fine s1" "submission_done S events prepared verified x s1"
    using tripleD[OF owner_calendar.submit_triple[OF cal refl T] _ first] inv by simp_all
  obtain p d where p: "submission_ready S prepared verified p d (fst s1)" "sp_provider_event_id p = Some (su_provider_event_id x)"
    using s1(2) by (auto simp: submission_done_def)
  have load: "load_owner_task_placement (sv_texts S) (po_owner_task_draft_id prepared) (fst s1) = Inr p"
    using p(1) by (auto simp: submission_ready_def)
  note run = run_steps[OF cal T s1(1) steps]
  obtain q where q: "load_owner_task_placement (sv_texts S) (po_owner_task_draft_id prepared) (fst s2) = Inr q" "placement_follows p q"
    "load_owner_task_draft_by_id (sv_codec S) (po_owner_task_draft_id prepared) (fst s2) =
     load_owner_task_draft_by_id (sv_codec S) (po_owner_task_draft_id prepared) (fst s1)"
    using run load unfolding advances_def placements_kept_def by blast
  have ready: "submission_ready S prepared verified' q d (fst s2)" by (rule ready_follows[OF p(1) q(3,1,2) again(2)])
  have id: "sp_provider_event_id q = Some (su_provider_event_id x)"
    using q(2) p(2) by (simp add: placement_follows_def is_submitted_def)
  have aud: "audit_inv (sv_codec S) (fst s2)" using run by (simp add: submission_inv_def)
  obtain new where "audit_events (fst s2) = audit_events (fst s1) @ new" using run by (auto simp: advances_def)
  then have "submission_audited (sv_codec S) (po_owner_task_draft_id prepared) (fst s2)"
    using s1(2) by (auto simp: submission_done_def submission_audited_def)
  moreover have "nanosecond now' = 0" using again(1) by (simp add: validate_at_Inr)
  ultimately have "submit_owner_task S prepared verified' caller' now' clk' (fst s2, snd s2) =
    ((fst s2, snd s2), Inr \<lparr>su_owner_task_draft_id = po_owner_task_draft_id prepared,
      su_provider_event_id = su_provider_event_id x, su_state = submitted_state\<rparr>)"
    using submit_again[OF again(1) ready id aud] again(3) by blast
  moreover have "x = \<lparr>su_owner_task_draft_id = po_owner_task_draft_id prepared,
      su_provider_event_id = su_provider_event_id x, su_state = submitted_state\<rparr>"
    using s1(2) by (cases x) (simp add: submission_done_def)
  ultimately show ?thesis by simp
qed

end
