(* ===== verification/Fake_Contract.thy ===== *)
theory Fake_Contract
  imports Owner_Submission
begin

text \<open>
  The calendar fakes fulfil the contract of the owner's calendar, unless they were told to lie: no
  response was overridden, and no failure \<open>NotFound\<close> was arranged for the lookup of events. The world
  of the services is a pair of fakes, Outlook and Google.
\<close>

section \<open>The fakes as providers\<close>

type_synonym fakes = "fake_calendar \<times> fake_calendar"

definition on_outlook :: "'a fake_op \<Rightarrow> (fakes, provider_error, 'a) op" where
  "on_outlook m w = (case m (fst w) of (k, r) \<Rightarrow> ((k, snd w), r))"

definition on_google :: "'a fake_op \<Rightarrow> (fakes, provider_error, 'a) op" where
  "on_google m w = (case m (snd w) of (k, r) \<Rightarrow> ((fst w, k), r))"

definition fake_calendars :: "(str \<Rightarrow> 'z option) \<Rightarrow> fakes calendars" where
  "fake_calendars P =
     \<lparr>outlook_list_busy = \<lambda>r. on_outlook (fake_list_busy r), outlook_find_owner_event = \<lambda>d. on_outlook (fake_find_owner_event d),
      outlook_create_owner_event = \<lambda>d. on_outlook (fake_create_owner_event P d),
      google_list_busy = \<lambda>r. on_google (fake_list_busy r), google_find_proposal = \<lambda>d. on_google (fake_find_proposal d),
      google_create_proposal = \<lambda>d. on_google (fake_create_proposal P d)\<rparr>"

definition fake_events :: "fakes \<Rightarrow> str \<Rightarrow> calendar_event list" where
  "fake_events w k = filter (\<lambda>e. ce_operation_key e = k) (cs_owner_events (fk_state (fst w)))"

definition not_arranged :: "fake_operation \<Rightarrow> provider_error \<Rightarrow> fake_control \<Rightarrow> bool" where
  "not_arranged f e c \<longleftrightarrow> e \<notin> set (os_queued_failures (fc_operations c ! fo_index f))
     \<and> os_persistent_failure (fc_operations c ! fo_index f) \<noteq> Some e"

definition honest_state :: "calendar_state \<Rightarrow> bool" where
  "honest_state s \<longleftrightarrow> cs_owner_find_overrides s = [] \<and> cs_owner_create_overrides s = []
     \<and> set (changed_events s) \<subseteq> set (cs_owner_events s)"

definition honest :: "fakes \<Rightarrow> bool" where
  "honest w \<longleftrightarrow> length (fc_operations (fk_control (fst w))) = 16
     \<and> not_arranged CalendarOwnerFind PeNotFound (fk_control (fst w)) \<and> honest_state (fk_state (fst w))"

section \<open>The control plane\<close>

lemma begin_keeps:
  assumes "control_begin g c = (c', r)" "length (fc_operations c) = 16" "not_arranged f e c" "e \<noteq> PeUnavailable"
  shows "length (fc_operations c') = 16 \<and> not_arranged f e c' \<and> (f = g \<longrightarrow> r \<noteq> Inl e)"
proof -
  have i: "fo_index f < 16" "fo_index g < 16" by (rule fo_index_less)+
  let ?s = "(fc_operations c ! fo_index g)\<lparr>os_count := min u64_max (os_count (fc_operations c ! fo_index g) + 1)\<rparr>"
  have put: "not_arranged f e (c\<lparr>fc_operations := (fc_operations c)[fo_index g := q]\<rparr>)"
    if "set (os_queued_failures q) \<subseteq> set (os_queued_failures (fc_operations c ! fo_index g))"
      "os_persistent_failure q = os_persistent_failure (fc_operations c ! fo_index g)" for q
    using that i assms(2,3) by (cases "fo_index f = fo_index g") (auto simp: not_arranged_def)
  show ?thesis
  proof (cases "fc_poisoned c")
    case True
    then show ?thesis using assms by (auto simp: control_begin_def sbind_def lock_state_def)
  next
    case False
    show ?thesis
    proof (cases "os_queued_failures (fc_operations c ! fo_index g)")
      case Nil
      have c': "c' = c\<lparr>fc_operations := (fc_operations c)[fo_index g := ?s]\<rparr>"
        "r = (case os_persistent_failure (fc_operations c ! fo_index g) of Some e \<Rightarrow> Inl e | None \<Rightarrow> Inr ())"
        using assms(1) False Nil by (auto simp: control_begin_def sbind_def lock_state_def Let_def)
      show ?thesis using assms(2,3) put[of ?s] c' by (auto simp: not_arranged_def split: option.splits)
    next
      case (Cons x rest)
      have c': "c' = c\<lparr>fc_operations := (fc_operations c)[fo_index g := ?s\<lparr>os_queued_failures := rest\<rparr>]\<rparr>" "r = Inl x"
        using assms(1) False Cons by (auto simp: control_begin_def sbind_def lock_state_def Let_def)
      show ?thesis using assms(2,3) put[of "?s\<lparr>os_queued_failures := rest\<rparr>"] c' Cons by (auto simp: not_arranged_def)
    qed
  qed
qed

text \<open>Beginning any operation keeps the fake honest and its events.\<close>

definition same_calendar :: "fake_calendar \<Rightarrow> fake_calendar \<Rightarrow> bool" where
  "same_calendar k k' \<longleftrightarrow> fk_state k' = fk_state k \<and> fk_poisoned k' = fk_poisoned k"

lemma fake_begin_keeps:
  assumes "fake_begin g k = (k', r)" "honest (k, l)"
  shows "same_calendar k k' \<and> honest (k', l) \<and> (g = CalendarOwnerFind \<longrightarrow> r \<noteq> Inl PeNotFound)"
proof -
  obtain c where c: "control_begin g (fk_control k) = (c, r)" "k' = k\<lparr>fk_control := c\<rparr>"
    using assms(1) by (auto simp: fake_begin_def split: prod.splits)
  show ?thesis using begin_keeps[OF c(1), of CalendarOwnerFind PeNotFound] assms(2) c(2)
    by (auto simp: honest_def same_calendar_def)
qed

lemma same_calendar_events: "same_calendar k k' \<Longrightarrow> fake_events (k', l') = fake_events (k, l)"
  by (simp add: fake_events_def same_calendar_def fun_eq_iff)

section \<open>Lookups\<close>

lemma list_busy_keeps:
  assumes "fake_list_busy span k = (k', r)" "honest (k, l)"
  shows "honest (k', l) \<and> same_calendar k k'"
proof -
  obtain k1 r1 where b: "fake_begin CalendarBusy k = (k1, r1)" by (cases "fake_begin CalendarBusy k")
  have "k' = k1" using assms(1) b
    by (cases r1) (auto simp: fake_list_busy_def sbind_def lock_calendar_def split: if_splits)
  then show ?thesis using fake_begin_keeps[OF b assms(2)] by simp
qed

lemma find_keeps:
  assumes run: "fake_find_owner_event d k = (k', r)" and hon: "honest (k, l)"
  shows "honest (k', l) \<and> same_calendar k k'
    \<and> (\<forall>e. r = Inr e \<longrightarrow> e \<in> set (fake_events (k, l) (oe_operation_key d)))
    \<and> (r = Inl PeNotFound \<longrightarrow> fake_events (k, l) (oe_operation_key d) = [])"
proof -
  obtain k1 r1 where b: "fake_begin CalendarOwnerFind k = (k1, r1)" by (cases "fake_begin CalendarOwnerFind k")
  note kept = fake_begin_keeps[OF b hon]
  have st: "fk_state k1 = fk_state k" "fk_poisoned k1 = fk_poisoned k" using kept by (simp_all add: same_calendar_def)
  have no: "cs_owner_find_overrides (fk_state k) = []" and sub: "set (changed_events (fk_state k)) \<subseteq> set (cs_owner_events (fk_state k))"
    using hon by (simp_all add: honest_def honest_state_def)
  show ?thesis
  proof (cases "(\<exists>e. r1 = Inl e) \<or> fk_poisoned k")
    case True
    then have "k' = k1 \<and> ((\<exists>e. r = Inl e \<and> r1 = Inl e) \<or> r = Inl PeUnavailable)"
      using run b st by (cases r1) (auto simp: fake_find_owner_event_def sbind_def lock_calendar_def)
    then show ?thesis using kept by auto
  next
    case False
    then obtain u where u: "r1 = Inr u" "\<not> fk_poisoned k" by (cases r1) auto
    let ?own = "event_with_key (oe_operation_key d) (cs_owner_events (fk_state k))"
    let ?chg = "event_with_key (oe_operation_key d) (changed_events (fk_state k))"
    have res: "k' = k1" "r = ok_or PeNotFound (case ?own of Some e \<Rightarrow> Some e | None \<Rightarrow> ?chg)"
      using run b u st no by (auto simp: fake_find_owner_event_def sbind_def lock_calendar_def)
    have mem: "e \<in> set (cs_owner_events (fk_state k)) \<and> ce_operation_key e = oe_operation_key d"
      if "?own = Some e \<or> ?chg = Some e" for e
      using that sub find_Some_mem by (fastforce simp: event_with_key_def)
    have none: "fake_events (k, l) (oe_operation_key d) = []" if "?own = None"
      using that by (auto simp: fake_events_def event_with_key_def find_None_iff filter_empty_conv)
    show ?thesis using kept res mem none by (auto simp: fake_events_def split: option.splits)
  qed
qed

section \<open>Creating\<close>

lemma fresh_event_ok:
  "store_owner_event P d now s = Inr (s', e) \<Longrightarrow> ce_operation_key e = oe_operation_key d
    \<and> cs_owner_events s' = cs_owner_events s @ [e] \<and> cs_changes s' = cs_changes s @ [Upsert e]
    \<and> cs_owner_find_overrides s' = cs_owner_find_overrides s \<and> cs_owner_create_overrides s' = cs_owner_create_overrides s
    \<and> cs_ambiguous_owner_failures s' = cs_ambiguous_owner_failures s"
  by (auto simp: store_owner_event_def rbind_Inr_iff event_new_Inr change_upsert_def rebuild_busy_def Let_def split: prod.splits)

lemma stored_honest:
  assumes "store_owner_event P d now s = Inr (s', e)" "honest_state s"
  shows "honest_state s'"
  using fresh_event_ok[OF assms(1)] assms(2) by (auto simp: honest_state_def changed_events_def map_filter_def)

lemma create_keeps:
  assumes run: "fake_create_owner_event P d k = (k', r)" and hon: "honest (k, l)"
  shows "honest (k', l)
    \<and> (cs_owner_events (fk_state k') = cs_owner_events (fk_state k)
       \<or> (\<exists>e. cs_owner_events (fk_state k') = cs_owner_events (fk_state k) @ [e] \<and> ce_operation_key e = oe_operation_key d))
    \<and> (\<forall>e. r = Inr e \<longrightarrow> e \<in> set (fake_events (k', l) (oe_operation_key d)))"
proof -
  obtain k1 r1 where b: "fake_begin CalendarOwnerCreate k = (k1, r1)" by (cases "fake_begin CalendarOwnerCreate k")
  note kept = fake_begin_keeps[OF b hon]
  have st: "fk_state k1 = fk_state k" "fk_poisoned k1 = fk_poisoned k" using kept by (simp_all add: same_calendar_def)
  have hs: "honest_state (fk_state k)" using hon by (simp add: honest_def)
  have same: "honest (k1, l) \<and> cs_owner_events (fk_state k1) = cs_owner_events (fk_state k)" using kept st by simp
  show ?thesis
  proof (cases "(\<exists>e. r1 = Inl e) \<or> fk_poisoned k")
    case True
    then have "k' = k1 \<and> (\<exists>e. r = Inl e)"
      using run b st by (cases r1) (auto simp: fake_create_owner_event_def create_owner_event_def sbind_def lock_calendar_def)
    then show ?thesis using same by auto
  next
    case False
    then obtain u where u: "r1 = Inr u" "\<not> fk_poisoned k" by (cases r1) auto
    let ?own = "event_with_key (oe_operation_key d) (cs_owner_events (fk_state k))"
    let ?chg = "event_with_key (oe_operation_key d) (changed_events (fk_state k))"
    have run1: "create_owner_event P d k1 = (k', r)" using run b u by (simp add: fake_create_owner_event_def sbind_def)
    show ?thesis
    proof (cases "case ?own of Some e \<Rightarrow> Some e | None \<Rightarrow> ?chg")
      case (Some x)
      have x: "x \<in> set (cs_owner_events (fk_state k))" "ce_operation_key x = oe_operation_key d"
        using Some hs find_Some_mem by (fastforce simp: event_with_key_def honest_state_def split: option.splits)+
      have "k' = k1 \<and> (r = Inr x \<or> r = Inl PeConflict)"
        using run1 Some u st by (auto simp: create_owner_event_def sbind_def lock_calendar_def split: option.splits if_splits)
      then show ?thesis using same x by (auto simp: fake_events_def)
    next
      case None
      then have none: "?own = None" "?chg = None" by (auto split: option.splits)
      show ?thesis
      proof (cases "store_owner_event P d (fc_now (fk_control k1)) (fk_state k)")
        case (Inl e)
        then have "k' = k1 \<and> r = Inl e"
          using run1 none u st by (auto simp: create_owner_event_def sbind_def lock_calendar_def)
        then show ?thesis using same by auto
      next
        case (Inr se)
        obtain s e where se: "se = (s, e)" by (cases se)
        note made = fresh_event_ok[OF Inr[unfolded se]]
        have noov: "cs_owner_create_overrides s = []" using made hs by (simp add: honest_state_def)
        have k': "\<exists>s'. k' = k1\<lparr>fk_state := s'\<rparr> \<and> (s' = s \<and> r = Inr e
            \<or> (\<exists>x rest. s' = s\<lparr>cs_ambiguous_owner_failures := rest\<rparr> \<and> r = Inl x))"
          using run1 none u st Inr se noov
          by (cases "cs_ambiguous_owner_failures s")
            (auto simp: create_owner_event_def sbind_def lock_calendar_def put_calendar_def)
        have "honest_state s" by (rule stored_honest[OF Inr[unfolded se] hs])
        then have hon': "honest (k', l)" using k' kept by (auto simp: honest_def honest_state_def changed_events_def)
        have ev: "cs_owner_events (fk_state k') = cs_owner_events (fk_state k) @ [e]" using k' made by auto
        show ?thesis using hon' ev made k' by (auto simp: fake_events_def)
      qed
    qed
  qed
qed

section \<open>The contract\<close>

lemma google_reads_keep: "on_google m w = (w', x) \<Longrightarrow> honest w \<Longrightarrow> honest w' \<and> fake_events w' = fake_events w"
  by (auto simp: on_google_def honest_def fake_events_def fun_eq_iff split: prod.splits)

interpretation fakes: owner_calendar "fake_calendars P" fake_events honest for P :: "str \<Rightarrow> 'z option"
proof (unfold_locales, goal_cases)
  case (1 w span w' x)
  obtain k where k: "fake_list_busy span (fst w) = (k, x)" "w' = (k, snd w)"
    using 1 by (auto simp: fake_calendars_def on_outlook_def split: prod.splits)
  then show ?case using list_busy_keeps[OF k(1), of "snd w"] same_calendar_events[of "fst w" k "snd w" "snd w"] 1(1) by simp
next
  case (2 w span w' x)
  then show ?case using google_reads_keep[of "fake_list_busy span" w w' x] by (simp add: fake_calendars_def)
next
  case (3 w d w' r)
  obtain k where k: "fake_find_owner_event d (fst w) = (k, r)" "w' = (k, snd w)"
    using 3 by (auto simp: fake_calendars_def on_outlook_def split: prod.splits)
  then show ?case using find_keeps[OF k(1), of "snd w"] same_calendar_events[of "fst w" k "snd w" "snd w"] 3(1) by simp
next
  case (4 w d w' e)
  obtain k where k: "fake_find_owner_event d (fst w) = (k, Inr e)"
    using 4 by (auto simp: fake_calendars_def on_outlook_def split: prod.splits)
  then show ?case using find_keeps[OF k(1), of "snd w"] 4(1) by simp
next
  case (5 w d w')
  obtain k where k: "fake_find_owner_event d (fst w) = (k, Inl PeNotFound)"
    using 5 by (auto simp: fake_calendars_def on_outlook_def split: prod.splits)
  then show ?case using find_keeps[OF k(1), of "snd w"] 5(1) by simp
next
  case (6 w d w' r)
  obtain k where k: "fake_create_owner_event P d (fst w) = (k, r)" "w' = (k, snd w)"
    using 6 by (auto simp: fake_calendars_def on_outlook_def split: prod.splits)
  then show ?case using create_keeps[OF k(1), of "snd w"] 6(1) by (auto simp: fake_events_def)
next
  case (7 w d w' e)
  obtain k where k: "fake_create_owner_event P d (fst w) = (k, Inr e)" "w' = (k, snd w)"
    using 7 by (auto simp: fake_calendars_def on_outlook_def split: prod.splits)
  then show ?case using create_keeps[OF k(1), of "snd w"] 7(1) by simp
qed

section \<open>A run over the fakes\<close>

text \<open>The task of \<open>demo_placed_db\<close> is submitted to fresh fakes, twice.\<close>

definition demo_fakes :: fakes where
  "demo_fakes = (fake_new (control_new 0) [] [], fake_new (control_new 0) [] [])"

definition demo_service :: "fakes pa_service" where
  "demo_service = \<lparr>sv_texts = demo_texts, sv_json = \<lparr>js_write = (\<lambda>_. None), js_read = (\<lambda>_. None)\<rparr>, sv_sha256 = (\<lambda>_. []),
     sv_local_date = (\<lambda>_ _. []), sv_local_time = (\<lambda>_ _. []), sv_calendars = fake_calendars (\<lambda>z. if z = lit ''UTC'' then Some () else None),
     sv_policy = \<lparr>ap_timezone_name = lit ''UTC'', ap_timezone = \<lparr>tz_offset = (\<lambda>_. 0), tz_from_local = LocalSingle\<rparr>, ap_windows = [],
       ap_minimum_notice = 0, ap_booking_horizon = 1, ap_meeting_buffer = 0\<rparr>, sv_owner = None\<rparr>"

definition demo_verified :: owner_verified where
  "demo_verified = \<lparr>ov_normalized_caller = lit ''1'', ov_fingerprint = lit ''fp'', ov_verified_at = utc_secs 60,
     ov_expires_at = utc_secs 120\<rparr>"

definition demo_prepared_task :: prepared_owner_task where
  "demo_prepared_task = \<lparr>po_owner_task_draft_id = 1, po_starts_at = utc_secs 900, po_ends_at = utc_secs 1800,
     po_timezone = lit ''UTC'', po_operation_key = lit ''op''\<rparr>"

abbreviation "demo_submit \<equiv> submit_owner_task demo_service demo_prepared_task demo_verified (lit ''1'') (utc_secs 60)
  (demo_whole 60 @ [90])"

lemma demo_submit_outcome: "\<exists>s x. demo_submit (demo_placed_db, demo_fakes) = (s, Inr x)"
proof -
  have "case demo_submit (demo_placed_db, demo_fakes) of (_, Inr x) \<Rightarrow> True | _ \<Rightarrow> False" by code_simp
  then show ?thesis by (auto split: prod.splits sum.splits)
qed

lemma demo_service_parts:
  "sv_calendars demo_service = fake_calendars (\<lambda>z. if z = lit ''UTC'' then Some () else None)"
  "sv_texts demo_service = demo_texts" "sv_codec demo_service = demo_utc_codec"
  by (simp_all add: demo_service_def demo_texts_def)

lemma demo_submission_inv: "submission_inv demo_service fake_events honest (demo_placed_db, demo_fakes)"
proof -
  have "honest demo_fakes" by code_simp
  moreover have "fake_events demo_fakes k = []" for k
    by (simp add: fake_events_def demo_fakes_def fake_new_def)
  moreover have "audit_inv demo_utc_codec demo_placed_db"
    using demo_utc_codec_ok by (simp add: audit_inv_def ids_ok_def demo_placed_db_def empty_db_def)
  moreover have "linked fake_events demo_placed_db demo_fakes" by (simp add: linked_def demo_placed_db_def)
  moreover have "tx_time demo_texts = demo_utc_codec" by (simp add: demo_texts_def)
  ultimately show ?thesis using demo_placed_inv by (simp add: submission_inv_def single_events_def demo_service_parts)
qed

lemma demo_contract: "owner_calendar (sv_calendars demo_service) fake_events honest"
  unfolding demo_service_parts by (rule fakes.owner_calendar_axioms)

theorem one_event_per_task_witness:
  "\<exists>s x. demo_submit (demo_placed_db, demo_fakes) = (s, Inr x) \<and> length (fake_events (snd s) (lit ''op'')) \<le> 1"
proof -
  obtain s x where run: "demo_submit (demo_placed_db, demo_fakes) = (s, Inr x)" using demo_submit_outcome by blast
  have T: "texts_ok (sv_texts demo_service)" by (simp add: demo_service_parts demo_texts_ok)
  have "(owner_run demo_service)\<^sup>*\<^sup>* (demo_placed_db, demo_fakes) s" using owner_run.submitted[OF run] by simp
  then show ?thesis using one_event_per_task[OF demo_contract T demo_submission_inv] run by blast
qed

theorem submission_can_be_repeated_witness:
  "\<exists>s x. demo_submit (demo_placed_db, demo_fakes) = (s, Inr x) \<and> demo_submit s = (s, Inr x)"
proof -
  obtain s x where run: "demo_submit (demo_placed_db, demo_fakes) = (s, Inr x)" using demo_submit_outcome by blast
  have T: "texts_ok (sv_texts demo_service)" by (simp add: demo_service_parts demo_texts_ok)
  have v: "owner_verified_validate_at demo_verified (lit ''1'') (utc_secs 60) = Inr ()" "rfc_range (unix_timestamp (utc_secs 60))"
    by code_simp+
  show ?thesis
    using submission_can_be_repeated[OF demo_contract T demo_submission_inv run rtranclp.rtrancl_refl v(1) refl v(2)] run
    by blast
qed

end
