(* ===== verification/Request_Submission.thy ===== *)
theory Request_Submission
  imports Fake_Contract
begin

text \<open>
  Submitting appointment requests: a request gets at most one pending event, whatever fails on the
  way and whatever happens to the database in between, because a submission looks for the event
  before it creates one. The locale \<open>proposal_calendar\<close> states what is relied on of the calendars.
\<close>

section \<open>The contract of the calendars\<close>

locale proposal_calendar =
  fixes cal :: "'w calendars" and events :: "'w \<Rightarrow> str \<Rightarrow> calendar_event list" and fine :: "'w \<Rightarrow> bool"
  assumes outlook_reads: "fine w \<Longrightarrow> outlook_list_busy cal span w = (w', x) \<Longrightarrow> fine w' \<and> events w' = events w"
    and google_reads: "fine w \<Longrightarrow> google_list_busy cal span w = (w', x) \<Longrightarrow> fine w' \<and> events w' = events w"
    and find_reads: "fine w \<Longrightarrow> google_find_proposal cal d w = (w', r) \<Longrightarrow> fine w' \<and> events w' = events w"
    and find_misses: "fine w \<Longrightarrow> google_find_proposal cal d w = (w', Inl PeNotFound) \<Longrightarrow> events w (gp_operation_key d) = []"
    and create_adds: "fine w \<Longrightarrow> google_create_proposal cal d w = (w', r) \<Longrightarrow> fine w'
      \<and> (\<forall>k. k \<noteq> gp_operation_key d \<longrightarrow> events w' k = events w k)
      \<and> (events w' (gp_operation_key d) = events w (gp_operation_key d)
         \<or> (\<exists>e. events w' (gp_operation_key d) = events w (gp_operation_key d) @ [e]))"

section \<open>Computations that leave the calendars alone\<close>

definition steady :: "('w \<Rightarrow> bool) \<Rightarrow> (db \<times> 'w, 'e, 'a) op \<Rightarrow> bool" where
  "steady P m \<longleftrightarrow> triple (\<lambda>s. P (snd s)) m (\<lambda>s r. P (snd s))"

named_theorems steady_rules

lemma steady_ret [steady_rules]: "steady P (sret x)" and steady_fail [steady_rules]: "steady P (sfail e)"
  and steady_lift [steady_rules]: "steady P (slift c)" and steady_lift_fail [steady_rules]: "steady P (slift_fail c')"
  and steady_store [steady_rules]: "steady P (on_store f)" and steady_from_store [steady_rules]: "steady P (from_store g)"
  by (auto simp: steady_def triple_def slift_fail_def on_store_def from_store_def slift_def sret_def sfail_def
      split: prod.splits sum.splits)

lemma steady_bind [steady_rules]: "steady P m \<Longrightarrow> (\<And>x. steady P (f x)) \<Longrightarrow> steady P (sbind m f)"
  unfolding steady_def by (rule triple_bind[where R = "\<lambda>_ s. P (snd s)"]) (auto elim!: triple_post split: sum.splits)

lemma steady_match [steady_rules]: "steady P m \<Longrightarrow> (\<And>x. steady P (f x)) \<Longrightarrow> steady P (smatch m f)"
  unfolding steady_def by (rule triple_match[where R = "\<lambda>_ s. P (snd s)"])

lemma steady_map_err [steady_rules]: "steady P m \<Longrightarrow> steady P (smap_err g m)"
  unfolding steady_def by (rule triple_map_err)

lemma steady_outcome [steady_rules]: "steady P m \<Longrightarrow> steady P (outcome f m)" "steady P m' \<Longrightarrow> steady P (store_outcome_op m')"
  by (simp_all add: outcome_def store_outcome_op_def steady_map_err)

lemma steady_if [steady_rules]: "steady P a \<Longrightarrow> steady P b \<Longrightarrow> steady P (if c then a else b)"
  by simp

lemma steady_option [steady_rules]: "steady P a \<Longrightarrow> (\<And>x. steady P (f x)) \<Longrightarrow> steady P (case v of None \<Rightarrow> a | Some x \<Rightarrow> f x)"
  by (simp split: option.split)

lemma steady_result [steady_rules]: "(\<And>e. steady P (f e)) \<Longrightarrow> (\<And>x. steady P (g x)) \<Longrightarrow> steady P (case v of Inl e \<Rightarrow> f e | Inr x \<Rightarrow> g x)"
  by (simp split: sum.split)

lemma steady_pair [steady_rules]: "(\<And>a b. steady P (f a b)) \<Longrightarrow> steady P (case v of (a, b) \<Rightarrow> f a b)"
  by (simp split: prod.split)

lemma steady_call: "(\<And>w w' r. P w \<Longrightarrow> c w = (w', r) \<Longrightarrow> P w') \<Longrightarrow> steady P (on_world c)"
  unfolding steady_def by (rule triple_call) auto

lemma triple_conj: "triple P m Q \<Longrightarrow> triple P m R \<Longrightarrow> triple P m (\<lambda>s r. Q s r \<and> R s r)"
  by (auto simp: triple_def split: prod.splits)

section \<open>One pending event\<close>

context proposal_calendar
begin

definition same :: "'w \<Rightarrow> 'w \<Rightarrow> bool" where
  "same w0 w \<longleftrightarrow> fine w \<and> events w = events w0"

lemma same_reads:
  "steady (same w0) (on_world (outlook_list_busy cal span))" "steady (same w0) (on_world (google_list_busy cal span))"
  "steady (same w0) (on_world (google_find_proposal cal d))"
  unfolding same_def by (rule steady_call, metis outlook_reads google_reads find_reads)+

lemma recheck_steady:
  assumes S: "sv_calendars S = cal" shows "steady (same w0) (recheck_busy S draft)"
  unfolding recheck_busy_def Let_def S by (intro steady_rules same_reads)

lemma ensure_steady: "steady (same w0) (ensure_proposal S quote i now clk existing)"
  unfolding ensure_proposal_def by (intro steady_rules)


text \<open>The search for the pending event: a miss tells that there was none.\<close>

lemma find_pending_triple:
  assumes S: "sv_calendars S = cal"
  shows "triple (\<lambda>s. same w0 (snd s)) (find_pending S d owner)
    (\<lambda>s r. same w0 (snd s) \<and> (r = Inr None \<longrightarrow> events w0 (gp_operation_key d) = []))"
  unfolding find_pending_def S
proof (rule triple_match[where R = "\<lambda>r s. same w0 (snd s) \<and> (r = Inl PeNotFound \<longrightarrow> events w0 (gp_operation_key d) = [])"], goal_cases)
  case 1
  show ?case by (rule triple_call) (metis same_def find_reads find_misses snd_conv)
next
  case (2 r)
  show ?case
  proof (cases r)
    case (Inr e)
    have "steady (same w0) (sbind (slift_fail (validate_pending_google_event e d owner)) (\<lambda>_. sret (Some e)))"
      by (intro steady_rules)
    moreover have "triple (\<lambda>s. same w0 (snd s)) (sbind (slift_fail (validate_pending_google_event e d owner)) (\<lambda>_. sret (Some e)))
        (\<lambda>s r. r \<noteq> Inr None)"
      by (auto simp: triple_def sbind_def slift_fail_def slift_def sret_def split: sum.splits prod.splits)
    ultimately have "triple (\<lambda>s. same w0 (snd s)) (sbind (slift_fail (validate_pending_google_event e d owner)) (\<lambda>_. sret (Some e)))
        (\<lambda>s r. same w0 (snd s) \<and> r \<noteq> Inr None)"
      unfolding steady_def by (rule triple_conj)
    then show ?thesis using Inr by (auto elim!: triple_post intro: triple_pre)
  next
    case (Inl e)
    then show ?thesis by (cases e) (auto intro: triple_ret triple_fail)
  qed
qed

definition grown :: "str \<Rightarrow> 'w \<Rightarrow> 'w \<Rightarrow> bool" where
  "grown k w0 w \<longleftrightarrow> fine w \<and> grew events k w0 w"

lemma same_grown: "same w0 w \<Longrightarrow> grown k w0 w"
  by (simp add: same_def grown_def grew_same)

lemma steady_grown: "steady (same w0) m \<Longrightarrow> triple (\<lambda>s. same w0 (snd s)) m (\<lambda>s r. grown k w0 (snd s))"
  unfolding steady_def by (erule triple_post) (rule same_grown)

lemma create_triple:
  assumes "events w0 (gp_operation_key d) = []"
  shows "triple (\<lambda>s. same w0 (snd s)) (on_world (google_create_proposal cal d)) (\<lambda>s r. grown (gp_operation_key d) w0 (snd s))"
proof (rule triple_call)
  fix db w w' r assume w: "same w0 (snd (db, w))" and run: "google_create_proposal cal d w = (w', r)"
  have "fine w'" "\<forall>k. k \<noteq> gp_operation_key d \<longrightarrow> events w' k = events w k"
    "events w' (gp_operation_key d) = [] \<or> (\<exists>e. events w' (gp_operation_key d) = [e])"
    using create_adds[OF _ run] w assms by (auto simp: same_def)
  then show "grown (gp_operation_key d) w0 (snd (db, w'))" using w assms by (auto simp: grown_def grew_def same_def)
qed

lemma bind_steady:
  assumes "steady (same w0) m" "\<And>x. triple (\<lambda>s. same w0 (snd s)) (f x) (\<lambda>s r. grown k w0 (snd s))"
  shows "triple (\<lambda>s. same w0 (snd s)) (sbind m f) (\<lambda>s r. grown k w0 (snd s))"
  by (rule triple_bind[where R = "\<lambda>_ s. same w0 (snd s)"])
    (use assms in \<open>auto simp: steady_def intro: same_grown elim!: triple_post split: sum.splits\<close>)

lemma bind_grown:
  assumes "triple P m (\<lambda>s r. grown k w0 (snd s))" "\<And>x. steady (grown k w0) (f x)"
  shows "triple P (sbind m f) (\<lambda>s r. grown k w0 (snd s))"
  by (rule triple_bind[where R = "\<lambda>_ s. grown k w0 (snd s)"])
    (use assms in \<open>auto simp: steady_def elim!: triple_post split: sum.splits\<close>)

lemma place_triple:
  assumes S: "sv_calendars S = cal"
  shows "triple (\<lambda>s. same w0 (snd s)) (place_proposal S quote i draft owner d existing now durable clk)
    (\<lambda>s r. grown (gp_operation_key d) w0 (snd s))"
  unfolding place_proposal_def
proof (rule bind_steady, goal_cases)
  case 1
  have "steady (same w0) (find_pending S d owner)"
    using find_pending_triple[OF S] unfolding steady_def by (rule triple_post) simp
  then show ?case by (intro steady_rules recheck_steady[OF S])
next
  case (2 found)
  show ?case
  proof (rule triple_bind[where R = "\<lambda>found s. same w0 (snd s) \<and> (found = None \<longrightarrow> events w0 (gp_operation_key d) = [])"], goal_cases)
    case 1
    show ?case
    proof (cases found)
      case None
      then show ?thesis using triple_post[OF find_pending_triple[OF S, of w0 d owner]]
        by (auto simp: same_grown split: sum.splits)
    next
      case (Some e)
      then show ?thesis by (auto intro: triple_ret)
    qed
  next
    case (2 found)
    show ?case
    proof (cases found)
      case (Some e)
      have "steady (same w0) (sbind (ensure_proposal S quote i durable clk existing) (\<lambda>proposal. sret (proposal, e)))"
        by (intro steady_rules ensure_steady)
      then show ?thesis using Some steady_grown by (auto intro: triple_pre)
    next
      case None
      show ?thesis
      proof (cases "events w0 (gp_operation_key d) = []")
        case False
        then show ?thesis using None by (simp add: triple_def)
      next
        case True
        have "triple (\<lambda>s. same w0 (snd s))
          (sbind (if existing = None
              then sbind (slift_fail (ok_or (SvAvailability DateTimeOverflow)
                            (odt_checked_add_ns now (ap_minimum_notice (sv_policy S))))) (\<lambda>cutoff.
                   if before (ad_starts_at draft) cutoff then sfail (Failed SvNoAvailability) else sret ())
              else sbind (recheck_busy S draft) (\<lambda>busy. if busy then sfail (Failed SvNoAvailability) else sret ())) (\<lambda>_.
           sbind (ensure_proposal S quote i durable clk existing) (\<lambda>proposal.
           sbind (outcome SvGoogleCalendar (on_world (google_create_proposal (sv_calendars S) d))) (\<lambda>event.
           sbind (slift_fail (validate_pending_google_event event d owner)) (\<lambda>_. sret (proposal, event))))))
          (\<lambda>s r. grown (gp_operation_key d) w0 (snd s))"
          unfolding S outcome_def
          by (intro bind_steady bind_grown triple_map_err create_triple[OF True] steady_rules recheck_steady[OF S] ensure_steady)
        then show ?thesis using None True by simp
      qed
    qed
  qed
qed


definition changed :: "'w \<Rightarrow> 'w \<Rightarrow> bool" where
  "changed w0 w \<longleftrightarrow> (\<exists>k. grown k w0 w)"

lemma same_changed: "same w0 w \<Longrightarrow> changed w0 w"
  using same_grown by (auto simp: changed_def)

lemma bind_unchanged:
  assumes "steady (same w0) m" "\<And>x. triple (\<lambda>s. same w0 (snd s)) (f x) (\<lambda>s r. changed w0 (snd s))"
  shows "triple (\<lambda>s. same w0 (snd s)) (sbind m f) (\<lambda>s r. changed w0 (snd s))"
  by (rule triple_bind[where R = "\<lambda>_ s. same w0 (snd s)"])
    (use assms in \<open>auto simp: steady_def intro: same_changed elim!: triple_post split: sum.splits\<close>)

lemma bind_changed:
  assumes "triple P m (\<lambda>s r. changed w0 (snd s))" "\<And>x. steady (changed w0) (f x)"
  shows "triple P (sbind m f) (\<lambda>s r. changed w0 (snd s))"
  by (rule triple_bind[where R = "\<lambda>_ s. changed w0 (snd s)"])
    (use assms in \<open>auto simp: steady_def elim!: triple_post split: sum.splits\<close>)

lemma place_changed:
  "sv_calendars S = cal \<Longrightarrow> triple (\<lambda>s. same w0 (snd s)) (place_proposal S quote i draft owner d existing now durable clk)
    (\<lambda>s r. changed w0 (snd s))"
  by (rule triple_post[OF place_triple]) (auto simp: changed_def)

lemma map_triple:
  assumes S: "sv_calendars S = cal"
  shows "triple (\<lambda>s. same w0 (snd s)) (map_proposal S quote i draft owner existing now durable clk) (\<lambda>s r. changed w0 (snd s))"
  unfolding map_proposal_def by (intro bind_unchanged bind_changed place_changed[OF S] steady_rules)

lemma existing_steady:
  "steady P (existing_proposal S quote i)" "steady P (existing_mapping S owner draft existing)"
  unfolding existing_proposal_def existing_mapping_def by (intro steady_rules)+

lemma announce_steady: "steady P (announce_request S quote i draft owner proposal mapping clk now_utc)"
  unfolding announce_request_def proposal_notification_def append_submission_audit_def by (intro steady_rules)

lemma submit_request_triple:
  assumes S: "sv_calendars S = cal"
  shows "triple (\<lambda>s. same w0 (snd s)) (submit_request S confirmed now clk now_utc) (\<lambda>s r. changed w0 (snd s))"
proof -
  have "triple (\<lambda>s. same w0 (snd s)) (case (existing, mapped) of
              (Some proposal, Some mapping) \<Rightarrow> sret (proposal, mapping)
            | _ \<Rightarrow> map_proposal S quote i draft owner existing validation_now durable_now clk) (\<lambda>s r. changed w0 (snd s))"
    for existing mapped quote i draft owner validation_now durable_now
    by (auto split: option.split intro!: triple_ret same_changed map_triple[OF S])
  then show ?thesis
    unfolding submit_request_def Let_def
    by (intro bind_unchanged bind_changed existing_steady steady_rules announce_steady)
qed

end

section \<open>Runs\<close>

text \<open>Requests are submitted in any order, any call may fail, and the database may change in between.\<close>

inductive request_run :: "'w pa_service \<Rightarrow> db \<times> 'w \<Rightarrow> db \<times> 'w \<Rightarrow> bool" for S where
  submitted: "submit_request S confirmed now clk now_utc s = (s', r) \<Longrightarrow> request_run S s s'"
| elsewhere: "request_run S (db, w) (db', w)"

definition keeps_events :: "('w \<Rightarrow> str \<Rightarrow> calendar_event list) \<Rightarrow> 'w \<Rightarrow> 'w \<Rightarrow> bool" where
  "keeps_events events w w' \<longleftrightarrow> (\<forall>k. events w k \<noteq> [] \<longrightarrow> events w' k = events w k)"

lemma request_step:
  assumes cal: "proposal_calendar (sv_calendars S) events fine" and fine: "fine (snd s)" "single_events events (snd s)"
    and step: "request_run S s s'"
  shows "fine (snd s') \<and> single_events events (snd s') \<and> keeps_events events (snd s) (snd s')"
  using step
proof cases
  case (submitted confirmed now clk now_utc r)
  have "proposal_calendar.changed events fine (snd s) (snd s')"
    using tripleD[OF proposal_calendar.submit_request_triple[OF cal refl] _ submitted]
    by (simp add: proposal_calendar.same_def[OF cal] fine)
  then obtain k where k: "fine (snd s')" "grew events k (snd s) (snd s')"
    by (auto simp: proposal_calendar.changed_def[OF cal] proposal_calendar.grown_def[OF cal])
  moreover have "keeps_events events (snd s) (snd s')" using k(2) by (auto simp: keeps_events_def grew_def)
  ultimately show ?thesis using grew_single[OF fine(2)] by blast
next
  case elsewhere
  then show ?thesis using fine by (simp add: keeps_events_def)
qed

text \<open>
  C22. One pending event per request: along any run of submissions, with any failures of the
  calendars and any changes of the database in between, the proposals calendar never holds two events
  under one operation key, and an event that was created stays the one event of its request.
\<close>

theorem one_pending_event_per_request:
  assumes cal: "proposal_calendar (sv_calendars S) events fine" and fine: "fine (snd s)" "single_events events (snd s)"
    and steps: "(request_run S)\<^sup>*\<^sup>* s s'"
  shows "length (events (snd s') k) \<le> 1 \<and> (events (snd s) k \<noteq> [] \<longrightarrow> events (snd s') k = events (snd s) k)"
proof -
  have "fine (snd s') \<and> single_events events (snd s') \<and> keeps_events events (snd s) (snd s')"
    using steps
  proof (induction rule: rtranclp_induct)
    case base
    show ?case using fine by (simp add: keeps_events_def)
  next
    case (step t u)
    have "fine (snd u) \<and> single_events events (snd u) \<and> keeps_events events (snd t) (snd u)"
      using request_step[OF cal _ _ step.hyps(2)] step.IH by blast
    then show ?case using step.IH unfolding keeps_events_def by metis
  qed
  then show ?thesis by (simp add: single_events_def keeps_events_def)
qed

section \<open>The fakes\<close>

definition proposal_events :: "fakes \<Rightarrow> str \<Rightarrow> calendar_event list" where
  "proposal_events w k = filter (\<lambda>e. ce_operation_key e = k) (cs_google_events (fk_state (snd w)))"

definition proposal_honest :: "fakes \<Rightarrow> bool" where
  "proposal_honest w \<longleftrightarrow> length (fc_operations (fk_control (snd w))) = 16
     \<and> not_arranged CalendarProposalFind PeNotFound (fk_control (snd w))"

lemma google_begin_keeps:
  assumes "fake_begin g k = (k', r)" "proposal_honest (l, k)"
  shows "same_calendar k k' \<and> proposal_honest (l, k') \<and> (g = CalendarProposalFind \<longrightarrow> r \<noteq> Inl PeNotFound)"
proof -
  obtain c where c: "control_begin g (fk_control k) = (c, r)" "k' = k\<lparr>fk_control := c\<rparr>"
    using assms(1) by (auto simp: fake_begin_def split: prod.splits)
  show ?thesis using begin_keeps[OF c(1), of CalendarProposalFind PeNotFound] assms(2) c(2)
    by (auto simp: proposal_honest_def same_calendar_def)
qed

lemma same_proposals: "same_calendar k k' \<Longrightarrow> proposal_events (l, k') = proposal_events (l, k)"
  by (simp add: proposal_events_def same_calendar_def fun_eq_iff)

lemma google_busy_keeps:
  assumes "fake_list_busy span k = (k', r)" "proposal_honest (l, k)"
  shows "proposal_honest (l, k') \<and> same_calendar k k'"
proof -
  obtain k1 r1 where b: "fake_begin CalendarBusy k = (k1, r1)" by (cases "fake_begin CalendarBusy k")
  have "k' = k1" using assms(1) b
    by (cases r1) (auto simp: fake_list_busy_def sbind_def lock_calendar_def split: if_splits)
  then show ?thesis using google_begin_keeps[OF b assms(2)] by simp
qed

lemma find_proposal_keeps:
  assumes run: "fake_find_proposal d k = (k', r)" and hon: "proposal_honest (l, k)"
  shows "proposal_honest (l, k') \<and> same_calendar k k' \<and> (r = Inl PeNotFound \<longrightarrow> proposal_events (l, k) (gp_operation_key d) = [])"
proof -
  obtain k1 r1 where b: "fake_begin CalendarProposalFind k = (k1, r1)" by (cases "fake_begin CalendarProposalFind k")
  note kept = google_begin_keeps[OF b hon]
  have st: "fk_state k1 = fk_state k" "fk_poisoned k1 = fk_poisoned k" using kept by (simp_all add: same_calendar_def)
  show ?thesis
  proof (cases "(\<exists>e. r1 = Inl e) \<or> fk_poisoned k")
    case True
    then have "k' = k1 \<and> ((\<exists>e. r = Inl e \<and> r1 = Inl e) \<or> r = Inl PeUnavailable)"
      using run b st by (cases r1) (auto simp: fake_find_proposal_def sbind_def lock_calendar_def)
    then show ?thesis using kept by auto
  next
    case False
    then obtain u where u: "r1 = Inr u" "\<not> fk_poisoned k" by (cases r1) auto
    have "k' = k1" "r = ok_or PeNotFound (event_with_key (gp_operation_key d) (cs_google_events (fk_state k)))"
      using run b u st by (auto simp: fake_find_proposal_def sbind_def lock_calendar_def)
    then show ?thesis using kept
      by (auto simp: ok_or_def proposal_events_def event_with_key_def find_None_iff filter_empty_conv split: option.splits)
  qed
qed

lemma stored_proposal:
  assumes "store_google_proposal P d now s = Inr (s', e)"
  shows "ce_operation_key e = gp_operation_key d \<and> cs_google_events s' = cs_google_events s @ [e]"
proof -
  obtain i event where "event_new P i (gp_operation_key d) (gp_pending_title d) (gp_time_range d) (gp_timezone d) (gp_attendees d) now = Inr event"
    and "e = event" "cs_google_events s' = cs_google_events s @ [event]"
    using assms unfolding store_google_proposal_def rebuild_busy_def Let_def rbind_Inr_iff
    by (elim exE conjE) (simp only: prod.case split_paired_all, fastforce simp: rbind_Inr_iff)
  then show ?thesis by (simp add: event_new_Inr)
qed

lemma create_proposal_keeps:
  assumes run: "fake_create_proposal P d k = (k', r)" and hon: "proposal_honest (l, k)"
  shows "proposal_honest (l, k')
    \<and> (cs_google_events (fk_state k') = cs_google_events (fk_state k)
       \<or> (\<exists>e. cs_google_events (fk_state k') = cs_google_events (fk_state k) @ [e] \<and> ce_operation_key e = gp_operation_key d))"
proof -
  obtain k1 r1 where b: "fake_begin CalendarProposalCreate k = (k1, r1)" by (cases "fake_begin CalendarProposalCreate k")
  note kept = google_begin_keeps[OF b hon]
  have st: "fk_state k1 = fk_state k" "fk_poisoned k1 = fk_poisoned k" using kept by (simp_all add: same_calendar_def)
  have "k' = k1 \<or> (\<exists>s e s'. store_google_proposal P d (fc_now (fk_control k1)) (fk_state k) = Inr (s, e)
      \<and> k' = k1\<lparr>fk_state := s'\<rparr> \<and> cs_google_events s' = cs_google_events s)"
  proof (cases "(\<exists>e. r1 = Inl e) \<or> fk_poisoned k")
    case True
    then show ?thesis using run b st by (cases r1) (auto simp: fake_create_proposal_def sbind_def lock_calendar_def)
  next
    case False
    then obtain u where u: "r1 = Inr u" "\<not> fk_poisoned k" by (cases r1) auto
    have lock: "lock_calendar k1 = (k1, Inr (fk_state k))" using u st by (simp add: lock_calendar_def)
    note run = run[unfolded fake_create_proposal_def sbind_def b u(1) prod.case sum.case lock]
    show ?thesis
    proof (cases "gp_operation_key d \<in> cs_deleted_google_keys (fk_state k) \<or> google_draft_index (gp_operation_key d) (fk_state k) \<noteq> None
        \<or> event_with_key (gp_operation_key d) (changed_events (fk_state k)) \<noteq> None")
      case True
      then show ?thesis using run by (auto split: if_splits option.splits)
    next
      case False
      show ?thesis
      proof (cases "store_google_proposal P d (fc_now (fk_control k1)) (fk_state k)")
        case (Inl e)
        then show ?thesis using run False by (auto split: if_splits option.splits)
      next
        case (Inr se)
        obtain s e where se: "se = (s, e)" by (cases se)
        have "\<exists>s'. k' = k1\<lparr>fk_state := s'\<rparr> \<and> cs_google_events s' = cs_google_events s"
          using run False Inr se
          by (cases "cs_ambiguous_google_failures s"; cases "cs_google_create_overrides s") (auto simp: put_calendar_def split: if_splits option.splits)
        then show ?thesis using Inr se by auto
      qed
    qed
  qed
  then show ?thesis using kept st stored_proposal by (fastforce simp: proposal_honest_def)
qed

interpretation proposals: proposal_calendar "fake_calendars P" proposal_events proposal_honest for P :: "str \<Rightarrow> 'z option"
proof (unfold_locales, goal_cases)
  case (1 w span w' x)
  then show ?case by (auto simp: fake_calendars_def on_outlook_def proposal_honest_def proposal_events_def fun_eq_iff split: prod.splits)
next
  case (2 w span w' x)
  obtain k where k: "fake_list_busy span (snd w) = (k, x)" "w' = (fst w, k)"
    using 2 by (auto simp: fake_calendars_def on_google_def split: prod.splits)
  then show ?case using google_busy_keeps[OF k(1), of "fst w"] same_proposals[of "snd w" k "fst w"] 2(1) by simp
next
  case (3 w d w' r)
  obtain k where k: "fake_find_proposal d (snd w) = (k, r)" "w' = (fst w, k)"
    using 3 by (auto simp: fake_calendars_def on_google_def split: prod.splits)
  then show ?case using find_proposal_keeps[OF k(1), of "fst w"] same_proposals[of "snd w" k "fst w"] 3(1) by simp
next
  case (4 w d w')
  obtain k where k: "fake_find_proposal d (snd w) = (k, Inl PeNotFound)"
    using 4 by (auto simp: fake_calendars_def on_google_def split: prod.splits)
  then show ?case using find_proposal_keeps[OF k(1), of "fst w"] 4(1) by simp
next
  case (5 w d w' r)
  obtain k where k: "fake_create_proposal P d (snd w) = (k, r)" "w' = (fst w, k)"
    using 5 by (auto simp: fake_calendars_def on_google_def split: prod.splits)
  then show ?case using create_proposal_keeps[OF k(1), of "fst w"] 5(1) by (auto simp: proposal_events_def)
qed

section \<open>A run over the fakes\<close>

text \<open>
  A callback is prepared and submitted twice. The notification cannot be written as JSON, so both
  submissions fail after the event was created.
\<close>

definition demo_requests :: "fakes pa_service" where
  "demo_requests = demo_service\<lparr>sv_owner := Some (MailAddress (lit ''o@b.co''))\<rparr>"

definition demo_quoted :: db where
  "demo_quoted = fst (save_appointment_quote demo_texts demo_offer AkCallback (lit ''UTC'') demo_slots empty_db)"

definition demo_prepare :: "(db \<times> fakes) \<times> (service_error fault, prepared_request) result" where
  "demo_prepare = prepare_request demo_requests 7 0 demo_caller AkCallback (Some False) (lit ''s'') (lit ''k'') (utc_secs 10)
     (demo_quoted, demo_fakes)"

abbreviation "demo_request_submit p \<equiv> submit_request demo_requests (ConfirmedPreparedRequest p) (utc_secs 20)
  (\<lambda>_. lit ''t'') (\<lambda>_. utc_secs 20)"

definition demo_first :: "(db \<times> fakes) \<times> (service_error fault, submitted_request) result" where
  "demo_first = (case demo_prepare of (s, Inr p) \<Rightarrow> demo_request_submit p s | (s, Inl e) \<Rightarrow> (s, Inl e))"

lemma demo_first_event: "length (proposal_events (snd (fst demo_first)) (proposal_operation_key 1)) = 1"
  by code_simp

theorem one_pending_event_per_request_witness:
  "\<exists>s p. demo_prepare = (s, Inr p)
    \<and> length (proposal_events (snd (fst (demo_request_submit p s))) (proposal_operation_key 1)) = 1
    \<and> length (proposal_events (snd (fst (demo_request_submit p (fst (demo_request_submit p s))))) (proposal_operation_key 1)) = 1"
proof -
  have "case demo_prepare of (_, Inr p) \<Rightarrow> True | _ \<Rightarrow> False" by code_simp
  then obtain s p where prep: "demo_prepare = (s, Inr p)" by (auto split: prod.splits sum.splits)
  obtain s1 r1 where one: "demo_request_submit p s = (s1, r1)" by (cases "demo_request_submit p s")
  obtain s2 r2 where two: "demo_request_submit p s1 = (s2, r2)" by (cases "demo_request_submit p s1")
  have ev: "length (proposal_events (snd s1) (proposal_operation_key 1)) = 1"
    using demo_first_event one unfolding demo_first_def prep by (simp del: lit_simps)
  have cal: "proposal_calendar (sv_calendars demo_requests) proposal_events proposal_honest"
    using proposals.proposal_calendar_axioms by (simp add: demo_requests_def demo_service_parts)
  have "steady (\<lambda>w. w = demo_fakes) (prepare_request demo_requests 7 0 demo_caller AkCallback (Some False) (lit ''s'') (lit ''k'') (utc_secs 10))"
    unfolding prepare_request_def Let_def by (intro steady_rules)
  then have w: "snd s = demo_fakes"
    using prep tripleD[of "\<lambda>s. snd s = demo_fakes" _ "\<lambda>s r. snd s = demo_fakes" "(demo_quoted, demo_fakes)" s "Inr p"]
    unfolding steady_def demo_prepare_def snd_conv by blast
  have fine: "proposal_honest (snd s)" "single_events proposal_events (snd s)"
    unfolding w by code_simp (simp add: single_events_def proposal_events_def demo_fakes_def fake_new_def)
  have steps: "(request_run demo_requests)\<^sup>*\<^sup>* s s2" "(request_run demo_requests)\<^sup>*\<^sup>* s s1" "(request_run demo_requests)\<^sup>*\<^sup>* s1 s2"
    using request_run.submitted[OF one] request_run.submitted[OF two] by auto
  have "proposal_honest (snd s1)" "single_events proposal_events (snd s1)"
    using request_step[OF cal fine request_run.submitted[OF one]] by simp_all
  then have "proposal_events (snd s2) (proposal_operation_key 1) = proposal_events (snd s1) (proposal_operation_key 1)"
    using one_pending_event_per_request[OF cal _ _ steps(3), of "proposal_operation_key 1"] ev by auto
  then show ?thesis using prep ev by (intro exI[of _ s] exI[of _ p]) (simp add: one two del: lit_simps)
qed

end
