(* ===== verification/Audio.thy ===== *)
theory Audio
  imports Rust_Prelude "HOL-Library.Signed_Division"
begin

text \<open>
  Telephony audio (\<open>src/audio.rs\<close>): the mu-law encoder, the splitting into frames, and the reader
  of streamed WAV payloads. Samples are \<open>i16\<close>, 16-bit words read with \<open>sint\<close>. An index or slice
  out of range is the error \<open>WavPanic\<close>. Positions are \<open>usize\<close>; a slice has at most \<open>isize::MAX\<close>
  elements, so their sums do not overflow. The crate \<open>hound\<close> is a parameter. The resampler computes
  with floating-point numbers and is not modelled.
\<close>

type_synonym i16 = "16 word"

section \<open>Mu-law\<close>

definition saturating_neg :: "i16 \<Rightarrow> i16" where
  "saturating_neg x = (if sint x = - 32768 then 32767 else - x)"

definition saturating_add :: "i16 \<Rightarrow> i16 \<Rightarrow> i16" where
  "saturating_add a b = word_of_int (max (- 32768) (min 32767 (sint a + sint b)))"

definition mulaw_exponent :: "i16 \<Rightarrow> nat" where
  "mulaw_exponent clipped =
     (let c = sint clipped in
      if 0 \<le> c \<and> c \<le> 0x1f then 0
      else if 0x20 \<le> c \<and> c \<le> 0x3f then 1
      else if 0x40 \<le> c \<and> c \<le> 0x7f then 2
      else if 0x80 \<le> c \<and> c \<le> 0xff then 3
      else if 0x100 \<le> c \<and> c \<le> 0x1ff then 4
      else if 0x200 \<le> c \<and> c \<le> 0x3ff then 5
      else if 0x400 \<le> c \<and> c \<le> 0x7ff then 6
      else 7)"

definition mulaw_clipped :: "i16 \<Rightarrow> i16" where
  "mulaw_clipped pcm = saturating_add (if sint pcm \<le> 32635 then pcm else 32635) 0x84"

definition linear_to_mulaw :: "i16 \<Rightarrow> u8" where
  "linear_to_mulaw sample =
     (let (pcm, sign) = (if sint sample < 0 then (saturating_neg sample, 0x7f) else (sample, 0xff));
          clipped = mulaw_clipped pcm;
          exponent = mulaw_exponent clipped;
          mantissa = signed_drop_bit (exponent + 3) clipped AND 0x0f
      in sign XOR (word_of_nat (exponent * 16) OR ucast mantissa))"

definition encode_mulaw :: "i16 list \<Rightarrow> u8 list" where
  "encode_mulaw samples = map linear_to_mulaw samples"

section \<open>Frames\<close>

partial_function (option) split_loop :: "i16 list \<Rightarrow> nat \<Rightarrow> nat \<Rightarrow> i16 list list \<Rightarrow> i16 list list option" where
  "split_loop samples frame_samples index frames =
     (if index < length samples
      then let stop = min (index + frame_samples) (length samples);
               frame = take (stop - index) (drop index samples);
               frame = (if length frame < frame_samples then frame @ replicate (frame_samples - length frame) 0 else frame)
           in split_loop samples frame_samples stop (frames @ [frame])
      else Some frames)"

definition split_frames :: "i16 list \<Rightarrow> nat \<Rightarrow> i16 list list option" where
  "split_frames samples frame_samples =
     map_option (\<lambda>frames. if frames = [] then [replicate frame_samples 0] else frames)
       (split_loop samples frame_samples 0 [])"

section \<open>WAV payloads\<close>

datatype wav_error =
    InvalidWavPayload | InvalidFmtChunk | UnsupportedWavFormat "16 word" | MissingFmtChunk | MissingChannelCount
  | MissingBitDepth | UnsupportedBitDepth "16 word" | UnsupportedSampleFormat | MissingDataChunk
  | UnsupportedChannelCount "16 word" | ReadSamples | WavPanic

type_synonym 'a wav_result = "(wav_error, 'a) result"

definition slice :: "'a list \<Rightarrow> nat \<Rightarrow> nat \<Rightarrow> 'a list wav_result" where
  "slice xs a b = (if a \<le> b \<and> b \<le> length xs then Inr (take (b - a) (drop a xs)) else Inl WavPanic)"

definition from_le_bytes :: "u8 list \<Rightarrow> 'a::len word" where
  "from_le_bytes bs = word_of_nat (foldr (\<lambda>b v. unat b + 256 * v) bs 0)"

fun as_chunks2 :: "'a list \<Rightarrow> ('a \<times> 'a) list" where
  "as_chunks2 (a # b # xs) = (a, b) # as_chunks2 xs"
| "as_chunks2 _ = []"

definition stereo_to_mono :: "i16 list \<Rightarrow> i16 list" where
  "stereo_to_mono samples = map (\<lambda>(a, b). word_of_int ((sint a + sint b) sdiv 2)) (as_chunks2 samples)"

definition U32_MAX :: nat where "U32_MAX = 2 ^ 32 - 1"

definition riff_id :: "u8 list" where "riff_id = [82, 73, 70, 70]"
definition wave_id :: "u8 list" where "wave_id = [87, 65, 86, 69]"
definition fmt_id :: "u8 list" where "fmt_id = [102, 109, 116, 32]"
definition data_id :: "u8 list" where "data_id = [100, 97, 116, 97]"

record wav_fields =
  wf_sample_rate :: "32 word option"
  wf_channels :: "16 word option"
  wf_bits_per_sample :: "16 word option"
  wf_data :: "u8 list option"

text \<open>One chunk; the flag says whether the loop stops after it.\<close>

definition wav_chunk :: "u8 list \<Rightarrow> nat \<Rightarrow> u8 list \<Rightarrow> wav_fields \<Rightarrow> (wav_fields \<times> bool) wav_result" where
  "wav_chunk chunk_id chunk_size chunk st =
     (if chunk_id = fmt_id then
        if length chunk < 16 then Inl InvalidFmtChunk
        else rbind (slice chunk 0 2) (\<lambda>f. let audio_format = from_le_bytes f in
             if audio_format \<noteq> 1 then Inl (UnsupportedWavFormat audio_format)
             else rbind (slice chunk 2 4) (\<lambda>c. rbind (slice chunk 4 8) (\<lambda>r. rbind (slice chunk 14 16) (\<lambda>b.
                  Inr (st\<lparr>wf_channels := Some (from_le_bytes c), wf_sample_rate := Some (from_le_bytes r),
                          wf_bits_per_sample := Some (from_le_bytes b)\<rparr>, False)))))
      else if chunk_id = data_id then Inr (st\<lparr>wf_data := Some chunk\<rparr>, chunk_size = U32_MAX)
      else Inr (st, False))"

function wav_chunks :: "u8 list \<Rightarrow> nat \<Rightarrow> wav_fields \<Rightarrow> wav_fields wav_result" where
  "wav_chunks input cursor st =
     (if cursor + 8 \<le> length input
      then rbind (slice input cursor (cursor + 4)) (\<lambda>chunk_id.
           rbind (slice input (cursor + 4) (cursor + 8)) (\<lambda>size_bytes.
           let chunk_size = unat (from_le_bytes size_bytes :: 32 word); chunk_start = cursor + 8 in
           if chunk_start > length input then Inr st
           else let remaining = length input - chunk_start;
                    actual_len = (if chunk_size = U32_MAX \<or> chunk_size > remaining then remaining else chunk_size) in
           rbind (slice input chunk_start (chunk_start + actual_len)) (\<lambda>chunk.
           rbind (wav_chunk chunk_id chunk_size chunk st) (\<lambda>(st, stop).
           if stop then Inr st
           else let padded_len = (if actual_len mod 2 = 0 then actual_len else actual_len + 1) in
                wav_chunks input (chunk_start + padded_len) st))))
      else Inr st)"
  by pat_completeness auto
termination
  by (relation "measure (\<lambda>(input, cursor, st). length input - cursor)") auto

definition decode_streaming_wav_mono_i16 :: "u8 list \<Rightarrow> (32 word \<times> i16 list) wav_result" where
  "decode_streaming_wav_mono_i16 input =
     (if length input < 12 then Inl InvalidWavPayload
      else rbind (slice input 0 4) (\<lambda>riff. rbind (slice input 8 12) (\<lambda>wave.
      if riff \<noteq> riff_id \<or> wave \<noteq> wave_id then Inl InvalidWavPayload
      else rbind (wav_chunks input 12 \<lparr>wf_sample_rate = None, wf_channels = None, wf_bits_per_sample = None, wf_data = None\<rparr>) (\<lambda>st.
      rbind (ok_or MissingFmtChunk (wf_sample_rate st)) (\<lambda>sample_rate.
      rbind (ok_or MissingChannelCount (wf_channels st)) (\<lambda>channels.
      rbind (ok_or MissingBitDepth (wf_bits_per_sample st)) (\<lambda>bits.
      if bits \<noteq> 16 then Inl (UnsupportedBitDepth bits)
      else rbind (ok_or MissingDataChunk (wf_data st)) (\<lambda>data.
      rbind (slice data 0 (length data div 2 * 2)) (\<lambda>data.
      let samples = map (\<lambda>(a, b). from_le_bytes [a, b]) (as_chunks2 data) in
      if channels = 1 then Inr (sample_rate, samples)
      else if channels = 2 then Inr (sample_rate, stereo_to_mono samples)
      else Inl (UnsupportedChannelCount channels))))))))))"

text \<open>
  What the crate \<open>hound\<close> reads: nothing when the header is not accepted, else the specification and
  the samples, which may fail.
\<close>

record hound_wav =
  hw_channels :: "16 word"
  hw_sample_rate :: "32 word"
  hw_bits_per_sample :: "16 word"
  hw_is_int :: bool
  hw_samples :: "i16 list option"

definition decode_wav_mono_i16 :: "(u8 list \<Rightarrow> hound_wav option) \<Rightarrow> u8 list \<Rightarrow> (32 word \<times> i16 list) wav_result" where
  "decode_wav_mono_i16 hound input =
     (case hound input of
        None \<Rightarrow> decode_streaming_wav_mono_i16 input
      | Some h \<Rightarrow>
          if hw_bits_per_sample h \<noteq> 16 then Inl (UnsupportedBitDepth (hw_bits_per_sample h))
          else if \<not> hw_is_int h then Inl UnsupportedSampleFormat
          else rbind (ok_or ReadSamples (hw_samples h)) (\<lambda>samples.
          if hw_channels h = 1 then Inr (hw_sample_rate h, samples)
          else if hw_channels h = 2 then Inr (hw_sample_rate h, stereo_to_mono samples)
          else Inl (UnsupportedChannelCount (hw_channels h))))"

declare wav_chunks.simps [simp del]

section \<open>Mu-law codes\<close>

lemma sint_bounds: "- 32768 \<le> sint x" "sint x < 32768" for x :: i16
  using sint_range_size[of x] by (simp_all add: word_size)

lemma sint_of_int: "- 32768 \<le> k \<Longrightarrow> k < 32768 \<Longrightarrow> sint (word_of_int k :: i16) = k"
  by (subst sint_sbintrunc') (simp add: signed_take_bit_int_eq_self)

lemma clipped_value:
  assumes "0 \<le> sint pcm"
  shows "sint (mulaw_clipped pcm) = min (sint pcm) 32635 + 132"
proof -
  have lit: "sint (32635 :: i16) = 32635" "sint (132 :: i16) = 132" by code_simp+
  have "sint (word_of_int (min (sint pcm) 32635 + 132) :: i16) = min (sint pcm) 32635 + 132"
    using assms by (intro sint_of_int) auto
  then show ?thesis using assms lit sint_bounds[of pcm]
    by (auto simp: mulaw_clipped_def saturating_add_def min_def simp del: of_int_add of_int_numeral of_int_sint)
qed

lemma saturating_neg_sint: "sint x < 0 \<Longrightarrow> sint (saturating_neg x) = min 32767 (- sint x)"
proof -
  assume x: "sint x < 0"
  show ?thesis
  proof (cases "sint x = - 32768")
    case True
    then show ?thesis by (simp add: saturating_neg_def)
  next
    case False
    then have "- sint x < 32768" "- 32768 \<le> - sint x" using x sint_bounds[of x] by auto
    then have "sint (word_of_int (- sint x) :: i16) = - sint x" by (rule sint_of_int[rotated])
    moreover have "word_of_int (- sint x) = - x" by simp
    ultimately show ?thesis using False x sint_bounds[of x] by (simp add: saturating_neg_def)
  qed
qed

lemma low_nibble: "(w AND 0x0f :: i16) = word_of_int (sint w mod 16)"
proof -
  have m: "(0x0f :: i16) = mask 4" by (simp add: mask_numeral)
  have "sint w mod 16 = take_bit 4 (sint w)" by (simp add: take_bit_eq_mod)
  then show ?thesis unfolding m
    by (intro bit_word_eqI) (auto simp: bit_simps min_def)
qed

lemma mulaw_positive:
  "0 \<le> sint s \<Longrightarrow> linear_to_mulaw s = 0xff XOR (word_of_nat (mulaw_exponent (mulaw_clipped s) * 16)
     OR ucast (word_of_int ((sint (mulaw_clipped s) div 2 ^ (mulaw_exponent (mulaw_clipped s) + 3)) mod 16) :: i16))"
  by (simp add: linear_to_mulaw_def Let_def low_nibble sint_signed_drop_bit_eq drop_bit_eq_div)

text \<open>
  C40. Loud samples are not distinguished: adding half of the range to an amplitude between 1916 and
  16251 does not change its code. All of them get the exponent 7 and a mantissa that keeps only four
  of the five bits above the tenth.
\<close>

theorem loud_samples_collide:
  assumes "1916 \<le> sint s" "sint s \<le> 16251"
  shows "linear_to_mulaw (s + 16384) = linear_to_mulaw s"
proof -
  have "s + 16384 = word_of_int (sint s + 16384)" by simp
  moreover have "sint (word_of_int (sint s + 16384) :: i16) = sint s + 16384" using assms by (intro sint_of_int) auto
  ultimately have u: "sint (s + 16384) = sint s + 16384" by metis
  have c: "sint (mulaw_clipped s) = sint s + 132" "sint (mulaw_clipped (s + 16384)) = sint s + 132 + 16384"
    using assms u by (simp_all add: clipped_value)
  have e: "mulaw_exponent (mulaw_clipped s) = 7" "mulaw_exponent (mulaw_clipped (s + 16384)) = 7"
    using assms c by (simp_all add: mulaw_exponent_def Let_def)
  have "(sint s + 132 + 16384) div 1024 mod 16 = (sint s + 132) div 1024 mod 16"
    using div_mult_self1[of 1024 "sint s + 132" 16] by simp
  then show ?thesis using mulaw_positive[of s] mulaw_positive[of "s + 16384"] assms u c e by simp
qed

theorem loud_samples_collide_witness: "linear_to_mulaw 24444 = linear_to_mulaw 8060"
proof -
  have "sint (8060 :: i16) = 8060" by code_simp
  then show ?thesis using loud_samples_collide[of 8060] by simp
qed

section \<open>Frames\<close>

lemma split_loop_none:
  assumes "split_loop samples n index frames = Some r"
  shows "n = 0 \<longrightarrow> \<not> index < length samples"
  by (rule split_loop.raw_induct[OF _ assms]) (fastforce simp: Let_def split: if_splits)

lemma split_loop_some:
  assumes "0 < n" "index \<le> length xs"
  shows "\<exists>fs. split_loop xs n index acc = Some (acc @ fs) \<and> (\<forall>f \<in> set fs. length f = n)
    \<and> (\<exists>k. concat fs = drop index xs @ replicate k 0 \<and> k < n) \<and> (fs = [] \<longleftrightarrow> index = length xs)"
  using assms(2)
proof (induction "length xs - index" arbitrary: index acc rule: less_induct)
  case less
  show ?case
  proof (cases "index < length xs")
    case False
    then show ?thesis using less.prems assms by (subst split_loop.simps) (auto intro!: exI[of _ 0])
  next
    case True
    define stop where "stop = min (index + n) (length xs)"
    define g where "g = (let f = take (stop - index) (drop index xs)
      in if length f < n then f @ replicate (n - length f) 0 else f)"
    have stop: "index < stop" "stop \<le> length xs" using True assms by (auto simp: stop_def)
    have "length xs - stop < length xs - index" using stop by arith
    then obtain fs k where fs: "split_loop xs n stop (acc @ [g]) = Some ((acc @ [g]) @ fs)" "\<forall>f \<in> set fs. length f = n"
      "concat fs = drop stop xs @ replicate k 0" "k < n" "fs = [] \<longleftrightarrow> stop = length xs"
      using less.hyps[of stop "acc @ [g]"] stop by blast
    have run: "split_loop xs n index acc = Some (acc @ g # fs)"
      using True fs(1) by (subst split_loop.simps) (simp add: Let_def stop_def g_def)
    have len: "length g = n" using stop by (auto simp: g_def stop_def Let_def)
    have "\<exists>k. concat (g # fs) = drop index xs @ replicate k 0 \<and> k < n"
    proof (cases "index + n \<le> length xs")
      case True
      then have "g = take n (drop index xs)" by (simp add: g_def stop_def)
      moreover have "drop stop xs = drop n (drop index xs)" using True by (simp add: stop_def add.commute)
      ultimately show ?thesis using fs(3,4) by (metis append.assoc append_take_drop_id concat.simps(2))
    next
      case False
      then have "fs = []" "g = drop index xs @ replicate (n - (length xs - index)) 0"
        using fs(5) True by (auto simp: g_def stop_def Let_def)
      moreover have "n - (length xs - index) < n" using True assms(1) by simp
      ultimately show ?thesis by auto
    qed
    then show ?thesis using run len fs(2) stop True by (intro exI[of _ "g # fs"]) auto
  qed
qed

text \<open>
  Splitting into frames never ends exactly when there are samples and the frame width is zero.
  Otherwise it returns at least one frame, all of the requested width, which hold the samples in
  order and then less than a frame of zeros, or one frame of zeros for no samples.
\<close>

theorem split_frames_outcome:
  "(split_frames samples n = None \<longleftrightarrow> n = 0 \<and> samples \<noteq> [])
    \<and> (\<forall>frames. split_frames samples n = Some frames \<longrightarrow> frames \<noteq> [] \<and> (\<forall>f \<in> set frames. length f = n)
        \<and> (\<exists>k. concat frames = samples @ replicate k 0 \<and> (k < n \<or> samples = [] \<and> k = n)))"
proof (cases "n = 0 \<or> samples = []")
  case True
  then show ?thesis
    using split_loop_none[of samples 0 0 "[]"] split_loop.simps[of "[]" n 0 "[]"]
    by (cases "split_loop samples 0 0 []") (auto simp: split_frames_def)
next
  case False
  then obtain fs k where "split_loop samples n 0 [] = Some fs" "\<forall>f \<in> set fs. length f = n"
    "concat fs = samples @ replicate k 0" "k < n" "fs \<noteq> []"
    using split_loop_some[of n 0 samples "[]"] by auto
  then show ?thesis using False by (auto simp: split_frames_def)
qed

section \<open>Reading WAV payloads\<close>

lemma slice_Inl: "slice xs a b = Inl e \<longleftrightarrow> \<not> (a \<le> b \<and> b \<le> length xs) \<and> e = WavPanic"
  by (auto simp: slice_def)

lemma slice_Inr: "slice xs a b = Inr ys \<longleftrightarrow> a \<le> b \<and> b \<le> length xs \<and> ys = take (b - a) (drop a xs)"
  by (auto simp: slice_def)

lemma wav_chunk_no_panic: "wav_chunk chunk_id n chunk st \<noteq> Inl WavPanic"
  by (auto simp: wav_chunk_def rbind_Inl_iff slice_Inl Let_def split: if_splits)

text \<open>The length of the chunk at a position, and one round of the loop.\<close>

definition size_at :: "u8 list \<Rightarrow> nat \<Rightarrow> nat" where
  "size_at input cursor = unat (from_le_bytes (take 4 (drop (cursor + 4) input)) :: 32 word)"

definition len_at :: "u8 list \<Rightarrow> nat \<Rightarrow> nat" where
  "len_at input cursor = (let remaining = length input - (cursor + 8) in
     if size_at input cursor = U32_MAX \<or> size_at input cursor > remaining then remaining else size_at input cursor)"

lemma len_at_le: "cursor + 8 \<le> length input \<Longrightarrow> cursor + 8 + len_at input cursor \<le> length input"
  by (auto simp: len_at_def Let_def)

definition next_at :: "u8 list \<Rightarrow> nat \<Rightarrow> nat" where
  "next_at input cursor = cursor + 8 + (if len_at input cursor mod 2 = 0 then len_at input cursor else len_at input cursor + 1)"

lemma wav_chunks_step:
  assumes "cursor + 8 \<le> length input"
  shows "wav_chunks input cursor st =
    rbind (wav_chunk (take 4 (drop cursor input)) (size_at input cursor) (take (len_at input cursor) (drop (cursor + 8) input)) st)
      (\<lambda>(st, stop). if stop then Inr st
         else wav_chunks input (next_at input cursor) st)"
proof -
  have sl: "slice input cursor (cursor + 4) = Inr (take 4 (drop cursor input))"
    "slice input (cursor + 4) (cursor + 8) = Inr (take 4 (drop (cursor + 4) input))"
    "slice input (cursor + 8) (cursor + 8 + len_at input cursor) = Inr (take (len_at input cursor) (drop (cursor + 8) input))"
    using assms len_at_le[OF assms] by (simp_all add: slice_def)
  show ?thesis using sl assms
    by (subst wav_chunks.simps) (simp only: size_at_def[symmetric] rbind_simps Let_def len_at_def[unfolded Let_def, symmetric] if_True not_less[symmetric] if_False simp_thms next_at_def)
qed

lemma wav_chunks_end: "\<not> cursor + 8 \<le> length input \<Longrightarrow> wav_chunks input cursor st = Inr st"
  by (simp add: wav_chunks.simps)

lemma wav_chunks_induct:
  assumes "P st" "\<And>i n chunk st e. wav_chunk i n chunk st = Inl e \<Longrightarrow> Q e"
    "\<And>i n chunk st st' stop. length chunk \<le> length input \<Longrightarrow> P st \<Longrightarrow> wav_chunk i n chunk st = Inr (st', stop) \<Longrightarrow> P st'"
  shows "(\<forall>e. wav_chunks input cursor st = Inl e \<longrightarrow> Q e) \<and> (\<forall>st'. wav_chunks input cursor st = Inr st' \<longrightarrow> P st')"
  using assms(1)
proof (induction "length input - cursor" arbitrary: cursor st rule: less_induct)
  case less
  show ?case
  proof (cases "cursor + 8 \<le> length input")
    case False
    then show ?thesis using less.prems by (simp add: wav_chunks_end)
  next
    case True
    let ?chunk = "take (len_at input cursor) (drop (cursor + 8) input)"
    have lt: "length input - next_at input cursor < length input - cursor" using True by (auto simp: next_at_def)
    note step = wav_chunks_step[OF True, of st]
    show ?thesis
    proof (cases "wav_chunk (take 4 (drop cursor input)) (size_at input cursor) ?chunk st")
      case (Inl e)
      then show ?thesis using step assms(2)[OF Inl] by simp
    next
      case (Inr r)
      obtain st1 stop where r: "r = (st1, stop)" by (cases r)
      have "P st1" by (rule assms(3)[OF _ less.prems Inr[unfolded r]]) simp
      then show ?thesis using less.hyps[OF lt, of st1] step Inr r by (cases stop) auto
    qed
  qed
qed

lemma wav_chunks_no_panic: "wav_chunks input cursor st \<noteq> Inl WavPanic"
  using wav_chunks_induct[of "\<lambda>_. True" st "\<lambda>e. e \<noteq> WavPanic" input cursor] wav_chunk_no_panic by auto

lemma wav_chunk_data:
  "wav_chunk i n chunk st = Inr (st', stop) \<Longrightarrow> wf_data st' = wf_data st \<or> wf_data st' = Some chunk"
  by (auto simp: wav_chunk_def rbind_Inr_iff Let_def split: if_splits)

lemma wav_chunks_data:
  assumes "wav_chunks input cursor st = Inr st'" "wf_data st = None" "wf_data st' = Some d"
  shows "length d \<le> length input"
proof -
  have "\<forall>d. wf_data st' = Some d \<longrightarrow> length d \<le> length input"
    using wav_chunks_induct[of "\<lambda>st. \<forall>d. wf_data st = Some d \<longrightarrow> length d \<le> length input" st "\<lambda>_. True" input cursor]
      assms(1,2) wav_chunk_data by fastforce
  then show ?thesis using assms(3) by blast
qed

lemma length_chunks2: "length (as_chunks2 xs) = length xs div 2"
  by (induction xs rule: as_chunks2.induct) simp_all

text \<open>
  Reading a payload never indexes or slices out of range, whatever the bytes are; and it yields
  at most one sample for two bytes.
\<close>

theorem streaming_wav_never_panics:
  "case decode_streaming_wav_mono_i16 input of Inl e \<Rightarrow> e \<noteq> WavPanic
     | Inr (rate, samples) \<Rightarrow> 2 * length samples \<le> length input"
proof (cases "decode_streaming_wav_mono_i16 input")
  case (Inl e)
  then show ?thesis using wav_chunks_no_panic
    by (auto simp: decode_streaming_wav_mono_i16_def rbind_Inl_iff slice_Inl Let_def ok_or_def split: if_splits option.splits)
next
  case (Inr x)
  obtain rate samples where x: "x = (rate, samples)" by (cases x)
  obtain st d where st: "wav_chunks input 12 \<lparr>wf_sample_rate = None, wf_channels = None, wf_bits_per_sample = None, wf_data = None\<rparr> = Inr st"
      "wf_data st = Some d" and len: "2 * length samples \<le> length d"
    using Inr x by (auto simp: decode_streaming_wav_mono_i16_def rbind_Inr_iff slice_Inr Let_def stereo_to_mono_def length_chunks2
        split: if_splits)
  then show ?thesis using wav_chunks_data[OF st(1) _ st(2)] Inr x by simp
qed

section \<open>A reference writer\<close>

text \<open>
  The layout that speech services stream: the length of the whole and of the data may be announced as
  the largest \<open>u32\<close>, and other chunks may come before the format and between format and data. When the
  length of the data is announced, other chunks may follow the data, and the payload may end in the
  middle of a chunk header. A frame has one sample per channel.
\<close>

fun le_bytes :: "nat \<Rightarrow> nat \<Rightarrow> u8 list" where
  "le_bytes 0 v = []"
| "le_bytes (Suc n) v = word_of_nat v # le_bytes n (v div 256)"

definition chunk_bytes :: "u8 list \<Rightarrow> nat \<Rightarrow> u8 list \<Rightarrow> u8 list" where
  "chunk_bytes i announced payload = i @ le_bytes 4 announced @ payload @ (if even (length payload) then [] else [0])"

definition fmt_payload :: "32 word \<Rightarrow> 16 word \<Rightarrow> u8 list" where
  "fmt_payload rate channels = le_bytes 2 1 @ le_bytes 2 (unat channels) @ le_bytes 4 (unat rate)
     @ le_bytes 4 (unat rate * unat channels * 2) @ le_bytes 2 (unat channels * 2) @ le_bytes 2 16"

definition sample_bytes :: "i16 list \<Rightarrow> u8 list" where
  "sample_bytes samples = concat (map (\<lambda>s. le_bytes 2 (unat s)) samples)"

definition other_chunks :: "(u8 list \<times> u8 list) list \<Rightarrow> u8 list" where
  "other_chunks cs = concat (map (\<lambda>(i, p). chunk_bytes i (length p) p) cs)"

definition others_ok :: "(u8 list \<times> u8 list) list \<Rightarrow> bool" where
  "others_ok cs \<longleftrightarrow> (\<forall>(i, p) \<in> set cs. length i = 4 \<and> i \<noteq> fmt_id \<and> i \<noteq> data_id \<and> length p < U32_MAX)"

definition streamed_wav ::
    "nat \<Rightarrow> 32 word \<Rightarrow> 16 word \<Rightarrow> (u8 list \<times> u8 list) list \<Rightarrow> (u8 list \<times> u8 list) list \<Rightarrow> nat \<Rightarrow> i16 list list
      \<Rightarrow> (u8 list \<times> u8 list) list \<Rightarrow> u8 list \<Rightarrow> u8 list" where
  "streamed_wav riff_size rate channels before_fmt before_data announced frames after_data torn =
     riff_id @ le_bytes 4 riff_size @ wave_id @ other_chunks before_fmt @ chunk_bytes fmt_id 16 (fmt_payload rate channels)
     @ other_chunks before_data @ chunk_bytes data_id announced (sample_bytes (concat frames))
     @ other_chunks after_data @ torn"

text \<open>
  What the mono sample of a frame has to be: the only sample, or half the sum of the left and the
  right one, rounded towards zero.
\<close>

definition frame_mix :: "i16 list \<Rightarrow> i16 \<Rightarrow> bool" where
  "frame_mix frame m =
     (case frame of
        [s] \<Rightarrow> m = s
      | [l, r] \<Rightarrow> \<bar>2 * sint m\<bar> \<le> \<bar>sint l + sint r\<bar> \<and> \<bar>sint l + sint r - 2 * sint m\<bar> \<le> 1
      | _ \<Rightarrow> False)"

lemma length_le_bytes [simp]: "length (le_bytes n v) = n"
  by (induction n v rule: le_bytes.induct) simp_all

lemma le_value: "foldr (\<lambda>b v. unat (b :: u8) + 256 * v) (le_bytes n v) 0 = v mod 256 ^ n"
proof (induction n v rule: le_bytes.induct)
  case (2 n v)
  have "unat (word_of_nat v :: u8) = v mod 256" by (simp add: unat_of_nat)
  then show ?case using 2 mod_mult2_eq[of v 256 "256 ^ n"] by (simp add: mult.commute)
qed simp

lemma from_le_bytes_le [simp]: "from_le_bytes (le_bytes n v) = word_of_nat (v mod 256 ^ n)"
  by (simp add: from_le_bytes_def le_value)

lemma unat_less16: "unat (s :: 16 word) < 65536" and unat_less32: "unat (r :: 32 word) < 4294967296"
  using unsigned_less[of s] unsigned_less[of r] by simp_all

lemma chunk_step:
  assumes input: "input = pre @ chunk_bytes i announced p @ rest" and i: "length i = 4"
    and announced: "announced = length p \<and> announced < U32_MAX \<or> announced = U32_MAX \<and> rest = [] \<and> even (length p)"
  shows "wav_chunks input (length pre) st = rbind (wav_chunk i announced p st)
    (\<lambda>(st, stop). if stop then Inr st else wav_chunks input (length (pre @ chunk_bytes i announced p)) st)"
proof -
  have len: "length pre + 8 \<le> length input" by (simp add: input chunk_bytes_def i)
  have sz: "announced \<le> U32_MAX" using announced by auto
  have size_at: "size_at input (length pre) = announced"
    using sz by (simp add: size_at_def input chunk_bytes_def i U32_MAX_def unat_of_nat)
  have "length input - (length pre + 8) = length p + (if even (length p) then 0 else 1) + length rest"
    by (simp add: input chunk_bytes_def i)
  then have len_at: "len_at input (length pre) = length p"
    using announced by (auto simp: len_at_def size_at Let_def)
  have "take 4 (drop (length pre) input) = i" by (simp add: input chunk_bytes_def i)
  moreover have "take (length p) (drop (length pre + 8) input) = p" by (simp add: input chunk_bytes_def i)
  moreover have "next_at input (length pre) = length (pre @ chunk_bytes i announced p)"
    by (simp add: next_at_def len_at chunk_bytes_def i odd_iff_mod_2_eq_one)
  ultimately show ?thesis using wav_chunks_step[OF len, of st] size_at len_at by (simp only:)
qed

lemma other_chunks_step:
  assumes "others_ok cs" "input = pre @ other_chunks cs @ rest"
  shows "wav_chunks input (length pre) st = wav_chunks input (length (pre @ other_chunks cs)) st"
  using assms
proof (induction cs arbitrary: pre)
  case Nil
  then show ?case by (simp add: other_chunks_def)
next
  case (Cons c cs)
  obtain i p where c: "c = (i, p)" by (cases c)
  have ok: "length i = 4" "i \<noteq> fmt_id" "i \<noteq> data_id" "length p < U32_MAX" "others_ok cs"
    using Cons.prems(1) c by (auto simp: others_ok_def)
  have input: "input = pre @ chunk_bytes i (length p) p @ other_chunks cs @ rest"
    using Cons.prems(2) c by (simp add: other_chunks_def)
  have "wav_chunks input (length pre) st = wav_chunks input (length (pre @ chunk_bytes i (length p) p)) st"
    using chunk_step[OF input ok(1)] ok by (simp add: wav_chunk_def)
  then show ?case using Cons.IH[of "pre @ chunk_bytes i (length p) p"] ok(5) input c by (simp add: other_chunks_def)
qed

lemma fmt_chunk:
  "wav_chunk fmt_id 16 (fmt_payload rate channels) st =
     Inr (st\<lparr>wf_channels := Some channels, wf_sample_rate := Some rate, wf_bits_per_sample := Some 16\<rparr>, False)"
  using unat_less16[of channels] unat_less32[of rate]
  by (simp add: wav_chunk_def fmt_payload_def slice_def)

lemma samples_read: "map (\<lambda>(a, b). from_le_bytes [a, b]) (as_chunks2 (sample_bytes samples)) = samples"
proof (induction samples)
  case (Cons s samples)
  obtain a b where ab: "le_bytes 2 (unat s) = [a, b]" by (simp add: numeral_2_eq_2)
  have "from_le_bytes [a, b] = s" using from_le_bytes_le[of 2 "unat s", where 'a = 16] unat_less16[of s] by (simp add: ab)
  then show ?case using Cons ab by (simp add: sample_bytes_def)
qed (simp add: sample_bytes_def)

lemma half_sum:
  fixes l r :: i16
  shows "frame_mix [l, r] (word_of_int ((sint l + sint r) sdiv 2))"
proof -
  define t where "t = sint l + sint r"
  have b: "- 65536 \<le> t" "t \<le> 65534"
    using sint_ge[of l] sint_lt[of l] sint_ge[of r] sint_lt[of r] by (simp_all add: t_def)
  have q: "\<bar>2 * (t sdiv 2)\<bar> \<le> \<bar>t\<bar> \<and> \<bar>t - 2 * (t sdiv 2)\<bar> \<le> 1"
    by (cases "t \<ge> 0") (auto simp: signed_divide_int_def sgn_if)
  have range: "- 32768 \<le> t sdiv 2" "t sdiv 2 < 32768" using q b by linarith+
  have "sint (word_of_int (t sdiv 2) :: i16) = t sdiv 2"
    using range by (simp add: sint_sbintrunc' signed_take_bit_int_eq_self)
  then show ?thesis using q by (simp add: frame_mix_def t_def)
qed

lemma mixed_frames:
  assumes "channels = (1::16 word) \<or> channels = 2" "\<forall>f \<in> set frames. length f = unat channels"
  shows "list_all2 frame_mix frames (if channels = 1 then concat frames else stereo_to_mono (concat frames))"
proof (cases "channels = 1")
  case True
  then have "\<forall>f \<in> set frames. length f = 1" using assms(2) by simp
  then have "list_all2 frame_mix frames (concat frames)"
  proof (induction frames)
    case (Cons f frames)
    then show ?case by (cases f) (auto simp: frame_mix_def)
  qed simp
  then show ?thesis using True by simp
next
  case False
  then have "\<forall>f \<in> set frames. length f = 2" using assms by auto
  then have "list_all2 frame_mix frames (stereo_to_mono (concat frames))"
  proof (induction frames)
    case (Cons f frames)
    then obtain l r where "f = [l, r]" by (auto simp: length_Suc_conv numeral_2_eq_2)
    then show ?case using Cons half_sum[of l r] by (simp add: stereo_to_mono_def)
  qed (simp add: stereo_to_mono_def)
  then show ?thesis using False by simp
qed

text \<open>
  C21. A streamed payload is read back: the sample rate, and for every frame its sample, or the half
  sum of its two samples rounded towards zero, whatever other chunks come before the format and the
  data. The length of the data is announced, and then other chunks and an incomplete chunk header
  may follow the data, or it is the largest \<open>u32\<close> and the data are the rest of the payload.
\<close>

theorem streamed_wav_is_read_back:
  assumes "others_ok before_fmt" "others_ok before_data" "others_ok after_data" "length torn < 8"
    and "announced = U32_MAX \<and> after_data = [] \<and> torn = []
       \<or> announced = length (sample_bytes (concat frames)) \<and> announced < U32_MAX"
    and "channels = 1 \<or> channels = 2" "\<forall>f \<in> set frames. length f = unat channels"
  shows "\<exists>samples. decode_streaming_wav_mono_i16
        (streamed_wav riff_size rate channels before_fmt before_data announced frames after_data torn) = Inr (rate, samples)
    \<and> list_all2 frame_mix frames samples"
proof -
  let ?samples = "concat frames"
  let ?input = "streamed_wav riff_size rate channels before_fmt before_data announced frames after_data torn"
  let ?empty = "\<lparr>wf_sample_rate = None, wf_channels = None, wf_bits_per_sample = None, wf_data = None\<rparr>"
  let ?fmt = "?empty\<lparr>wf_channels := Some channels, wf_sample_rate := Some rate, wf_bits_per_sample := Some 16\<rparr>"
  let ?read = "?fmt\<lparr>wf_data := Some (sample_bytes ?samples)\<rparr>"
  let ?head = "riff_id @ le_bytes 4 riff_size @ wave_id"
  let ?fmt_chunk = "chunk_bytes fmt_id 16 (fmt_payload rate channels)"
  let ?before = "?head @ other_chunks before_fmt @ ?fmt_chunk @ other_chunks before_data"
  let ?data_chunk = "chunk_bytes data_id announced (sample_bytes ?samples)"
  have even: "even (length (sample_bytes xs))" for xs by (induction xs) (simp_all add: sample_bytes_def)
  have ids: "length riff_id = 4" "length wave_id = 4" "length fmt_id = 4" "length data_id = 4" "data_id \<noteq> fmt_id"
    by (simp_all add: riff_id_def wave_id_def fmt_id_def data_id_def)
  have head: "length ?head = 12" by (simp add: ids)
  have fmt: "length (fmt_payload rate channels) = 16" by (simp add: fmt_payload_def)
  have "wav_chunks ?input 12 ?empty = wav_chunks ?input (length (?head @ other_chunks before_fmt)) ?empty"
    using other_chunks_step[OF assms(1), of ?input ?head] unfolding head by (simp add: streamed_wav_def)
  also have "\<dots> = wav_chunks ?input (length ((?head @ other_chunks before_fmt) @ ?fmt_chunk)) ?fmt"
    using chunk_step[of ?input "?head @ other_chunks before_fmt" fmt_id 16 "fmt_payload rate channels"
        "other_chunks before_data @ ?data_chunk @ other_chunks after_data @ torn"] fmt
    by (simp add: streamed_wav_def ids fmt_chunk U32_MAX_def)
  also have "\<dots> = wav_chunks ?input (length ?before) ?fmt"
    using other_chunks_step[OF assms(2), of ?input "?head @ other_chunks before_fmt @ ?fmt_chunk"]
    by (simp add: streamed_wav_def)
  also have "\<dots> = rbind (wav_chunk data_id announced (sample_bytes ?samples) ?fmt)
      (\<lambda>(st, stop). if stop then Inr st else wav_chunks ?input (length (?before @ ?data_chunk)) st)"
    by (rule chunk_step[where rest = "other_chunks after_data @ torn"])
      (use assms(5) even in \<open>auto simp: streamed_wav_def ids other_chunks_def\<close>)
  also have "\<dots> = (if announced = U32_MAX then Inr ?read else wav_chunks ?input (length (?before @ ?data_chunk)) ?read)"
    by (simp add: wav_chunk_def ids)
  also have "wav_chunks ?input (length (?before @ ?data_chunk)) ?read
      = wav_chunks ?input (length ((?before @ ?data_chunk) @ other_chunks after_data)) ?read"
    by (rule other_chunks_step[OF assms(3), where rest = torn]) (simp add: streamed_wav_def)
  also have "\<dots> = Inr ?read" by (rule wav_chunks_end) (use assms(4) in \<open>simp add: streamed_wav_def\<close>)
  finally have st: "wav_chunks ?input 12 ?empty = Inr ?read" by simp
  have "slice ?input 0 4 = Inr riff_id" "slice ?input 8 12 = Inr wave_id" "\<not> length ?input < 12"
    by (simp_all add: slice_def streamed_wav_def ids)
  then have "decode_streaming_wav_mono_i16 ?input = Inr (rate, if channels = 1 then ?samples else stereo_to_mono ?samples)"
    using st even assms(6) by (auto simp: decode_streaming_wav_mono_i16_def Let_def slice_def samples_read)
  then show ?thesis using mixed_frames[OF assms(6,7)] by blast
qed

theorem streamed_wav_is_read_back_witness:
  "\<exists>samples. decode_streaming_wav_mono_i16 (streamed_wav 0 8000 2 [([76, 73, 83, 84], [7])] [] 8 [[1, 4], [- 3, - 2]]
      [([76, 73, 83, 84], [1, 2, 3])] [100, 97]) = Inr (8000, samples) \<and> length samples = 2 \<and> frame_mix [1, 4] (samples ! 0)"
proof -
  have "others_ok [([76, 73, 83, 84], [7])]" "others_ok []" "others_ok [([76, 73, 83, 84], [1, 2, 3])]"
    by (simp_all add: others_ok_def fmt_id_def data_id_def U32_MAX_def)
  moreover have "8 = length (sample_bytes (concat [[1, 4], [- 3, - 2]])) \<and> (8::nat) < U32_MAX"
    by (simp add: sample_bytes_def U32_MAX_def)
  ultimately obtain samples where "decode_streaming_wav_mono_i16 (streamed_wav 0 8000 2 [([76, 73, 83, 84], [7])] [] 8
      [[1, 4], [- 3, - 2]] [([76, 73, 83, 84], [1, 2, 3])] [100, 97]) = Inr (8000, samples)"
      "list_all2 frame_mix [[1, 4], [- 3, - 2]] samples"
    using streamed_wav_is_read_back[of "[([76, 73, 83, 84], [7])]" "[]" "[([76, 73, 83, 84], [1, 2, 3])]" "[100, 97]" 8
        "[[1, 4], [- 3, - 2]]" 2 0 8000] by auto
  then show ?thesis by (auto simp: list_all2_Cons1)
qed

theorem split_frames_outcome_witness: "\<exists>frames k. split_frames [1, 2, 3] 2 = Some frames \<and> concat frames = [1, 2, 3] @ replicate k 0"
proof -
  have "split_frames [1, 2, 3] 2 \<noteq> None" using split_frames_outcome[of "[1, 2, 3]" 2] by simp
  then obtain frames where "split_frames [1, 2, 3] 2 = Some frames" by blast
  then show ?thesis using split_frames_outcome[of "[1, 2, 3]" 2] by blast
qed

end
