(* ===== verification/Voice_Turns.thy ===== *)
theory Voice_Turns
  imports Audio
begin

text \<open>
  The media side of a call (\<open>src/service.rs\<close>): the detector that cuts the caller's frames into
  utterances, and the headers of the RTP stream. Amplitudes are summed in \<open>i32\<close>, which cannot
  overflow for frames of up to 65535 samples; the counters are \<open>usize\<close> and count frames of one call.
  Times of the RTP clock are nanoseconds.
\<close>

definition TELEPHONY_RATE :: nat where "TELEPHONY_RATE = 8000"
definition TELEPHONY_FRAME_SAMPLES :: nat where "TELEPHONY_FRAME_SAMPLES = 160"

section \<open>Turn detection\<close>

record behavior_turns =
  bh_turn_silence_ms :: nat
  bh_min_utterance_ms :: nat
  bh_vad_threshold :: nat

record turn_detector =
  td_buffer :: "i16 list"
  td_pre_roll :: "i16 list list"
  td_speaking :: bool
  td_silent_frames :: nat
  td_speech_frames :: nat
  td_silence_frames_needed :: nat
  td_min_frames :: nat
  td_pre_roll_frames :: nat
  td_vad_threshold :: int

definition div_ceil :: "nat \<Rightarrow> nat \<Rightarrow> nat" where
  "div_ceil a b = (a + b - 1) div b"

definition frame_ms :: nat where "frame_ms = TELEPHONY_FRAME_SAMPLES * 1000 div TELEPHONY_RATE"

definition turn_detector_new :: "behavior_turns \<Rightarrow> turn_detector" where
  "turn_detector_new behavior =
     \<lparr>td_buffer = [], td_pre_roll = [], td_speaking = False, td_silent_frames = 0, td_speech_frames = 0,
      td_silence_frames_needed = div_ceil (max (bh_turn_silence_ms behavior) frame_ms) frame_ms,
      td_min_frames = div_ceil (max (bh_min_utterance_ms behavior) frame_ms) frame_ms,
      td_pre_roll_frames = div_ceil 250 frame_ms, td_vad_threshold = int (bh_vad_threshold behavior)\<rparr>"

definition frame_average_amplitude :: "i16 list \<Rightarrow> int" where
  "frame_average_amplitude frame =
     (if frame = [] then 0 else sum_list (map (\<lambda>s. \<bar>sint s\<bar>) frame) div int (length frame))"

definition is_speech :: "turn_detector \<Rightarrow> i16 list \<Rightarrow> bool" where
  "is_speech d frame \<longleftrightarrow> frame_average_amplitude frame \<ge> td_vad_threshold d"

definition detector_finish :: "turn_detector \<Rightarrow> turn_detector \<times> i16 list option" where
  "detector_finish d =
     (d\<lparr>td_speaking := False, td_silent_frames := 0, td_speech_frames := 0, td_pre_roll := [], td_buffer := []\<rparr>,
      if td_speaking d \<and> td_speech_frames d \<ge> td_min_frames d then Some (td_buffer d) else None)"

definition detector_reset :: "turn_detector \<Rightarrow> turn_detector" where
  "detector_reset d =
     d\<lparr>td_speaking := False, td_silent_frames := 0, td_speech_frames := 0, td_buffer := [], td_pre_roll := []\<rparr>"

definition remember_pre_roll :: "i16 list \<Rightarrow> turn_detector \<Rightarrow> turn_detector" where
  "remember_pre_roll frame d =
     (let history = (if length (td_pre_roll d) = td_pre_roll_frames d then tl (td_pre_roll d) else td_pre_roll d)
      in d\<lparr>td_pre_roll := history @ [frame]\<rparr>)"

definition push_frame :: "i16 list \<Rightarrow> turn_detector \<Rightarrow> turn_detector \<times> i16 list option" where
  "push_frame frame d =
     (if is_speech d frame then
        let d = (if \<not> td_speaking d then d\<lparr>td_buffer := td_buffer d @ concat (td_pre_roll d), td_pre_roll := []\<rparr> else d)
        in (d\<lparr>td_speaking := True, td_silent_frames := 0, td_speech_frames := td_speech_frames d + 1,
              td_buffer := td_buffer d @ frame\<rparr>, None)
      else if td_speaking d then
        let d = d\<lparr>td_buffer := td_buffer d @ frame, td_silent_frames := td_silent_frames d + 1\<rparr>
        in if td_silent_frames d \<ge> td_silence_frames_needed d then detector_finish d else (d, None)
      else (remember_pre_roll frame d, None))"

text \<open>
  The thread of the bridge: frames that arrive while the input is suppressed reset the detector, the
  others are pushed.
\<close>

definition hear :: "bool \<times> i16 list \<Rightarrow> turn_detector \<Rightarrow> turn_detector \<times> i16 list option" where
  "hear input d = (if fst input then (detector_reset d, None) else push_frame (snd input) d)"

fun listen :: "(bool \<times> i16 list) list \<Rightarrow> turn_detector \<Rightarrow> turn_detector \<times> i16 list list" where
  "listen [] d = (d, [])"
| "listen (input # inputs) d =
     (case hear input d of (d, u) \<Rightarrow> case listen inputs d of (d, us) \<Rightarrow> (d, (case u of Some x \<Rightarrow> [x] | None \<Rightarrow> []) @ us))"

section \<open>What an utterance is\<close>

text \<open>
  The frames of an open turn: at most a pre-roll of silent frames, then speech, with no stretch of
  silence that would have ended it; \<open>n\<close> silent frames are at its end.
\<close>

definition settings :: "turn_detector \<Rightarrow> nat \<times> nat \<times> nat \<times> int" where
  "settings d = (td_silence_frames_needed d, td_min_frames d, td_pre_roll_frames d, td_vad_threshold d)"

definition loud :: "int \<Rightarrow> i16 list \<Rightarrow> bool" where
  "loud threshold frame \<longleftrightarrow> frame_average_amplitude frame \<ge> threshold"

inductive open_turn :: "nat \<times> nat \<times> nat \<times> int \<Rightarrow> nat \<Rightarrow> i16 list list \<Rightarrow> bool" for c where
  begins: "c = (need, least, roll, threshold) \<Longrightarrow> length pre \<le> roll \<Longrightarrow> \<forall>f \<in> set pre. \<not> loud threshold f
    \<Longrightarrow> loud threshold f \<Longrightarrow> open_turn c 0 (pre @ [f])"
| speaks: "c = (need, least, roll, threshold) \<Longrightarrow> open_turn c n fs \<Longrightarrow> loud threshold f \<Longrightarrow> open_turn c 0 (fs @ [f])"
| pauses: "c = (need, least, roll, threshold) \<Longrightarrow> open_turn c n fs \<Longrightarrow> \<not> loud threshold f \<Longrightarrow> n + 1 < need
    \<Longrightarrow> open_turn c (n + 1) (fs @ [f])"

definition speech_count :: "int \<Rightarrow> i16 list list \<Rightarrow> nat" where
  "speech_count threshold fs = length (filter (loud threshold) fs)"

text \<open>A finished turn: an open turn, the last silent frame that was needed, and enough speech.\<close>

definition finished_turn :: "nat \<times> nat \<times> nat \<times> int \<Rightarrow> i16 list list \<Rightarrow> bool" where
  "finished_turn c fs \<longleftrightarrow> (case c of (need, least, roll, threshold) \<Rightarrow>
     (\<exists>n init f. fs = init @ [f] \<and> open_turn c n init \<and> \<not> loud threshold f \<and> n + 1 \<ge> need)
     \<and> speech_count threshold fs \<ge> least)"

text \<open>The turns lie one after another in the frames, without overlap, with \<open>rest\<close> at the end.\<close>

fun laid_out :: "'a list list \<Rightarrow> 'a list \<Rightarrow> 'a list \<Rightarrow> bool" where
  "laid_out [] fs rest \<longleftrightarrow> (\<exists>gap. fs = gap @ rest)"
| "laid_out (t # ts) fs rest \<longleftrightarrow> (\<exists>gap later. fs = gap @ t @ later \<and> laid_out ts later rest)"

lemma laid_out_last: "laid_out ts fs rest \<Longrightarrow> laid_out (ts @ [rest]) fs []"
proof (induction ts arbitrary: fs)
  case Nil
  then obtain gap where "fs = gap @ rest @ []" by auto
  then show ?case by (simp, blast)
qed auto

lemma laid_out_gap: "laid_out ts fs rest \<Longrightarrow> laid_out ts (gap @ fs) rest"
  by (cases ts) (auto, (metis append.assoc)+)

definition detector_holds :: "turn_detector \<Rightarrow> i16 list list \<Rightarrow> bool" where
  "detector_holds d cur \<longleftrightarrow>
     (if td_speaking d
      then td_buffer d = concat cur \<and> open_turn (settings d) (td_silent_frames d) cur
        \<and> speech_count (td_vad_threshold d) cur = td_speech_frames d \<and> td_pre_roll d = []
      else td_buffer d = [] \<and> td_pre_roll d = cur \<and> td_silent_frames d = 0 \<and> td_speech_frames d = 0
        \<and> length cur \<le> td_pre_roll_frames d \<and> (\<forall>f \<in> set cur. \<not> loud (td_vad_threshold d) f))"

abbreviation heard :: "i16 list list \<Rightarrow> (bool \<times> i16 list) list" where "heard fs \<equiv> map (Pair False) fs"

lemma hear_settings: "hear input d = (d', u) \<Longrightarrow> settings d' = settings d"
  by (auto simp: hear_def push_frame_def detector_finish_def detector_reset_def remember_pre_roll_def settings_def Let_def
      split: if_splits)

text \<open>One frame: the turn in the detector is extended, or it ends here, or the frame is dropped.\<close>

lemma hear_step:
  assumes holds: "detector_holds d cur" and step: "hear (suppressed, frame) d = (d', u)" and roll: "0 < td_pre_roll_frames d"
  shows "\<exists>gap cur'. detector_holds d' cur' \<and> (case u of
      None \<Rightarrow> heard cur @ [(suppressed, frame)] = gap @ heard cur'
    | Some x \<Rightarrow> cur' = [] \<and> \<not> suppressed \<and> finished_turn (settings d) (cur @ [frame]) \<and> x = concat (cur @ [frame]))"
proof -
  have loud: "is_speech d frame = loud (td_vad_threshold d) frame" by (simp add: is_speech_def loud_def)
  consider (reset) "suppressed" | (first) "\<not> suppressed" "is_speech d frame" "\<not> td_speaking d"
    | (speak) "\<not> suppressed" "is_speech d frame" "td_speaking d"
    | (pause) "\<not> suppressed" "\<not> is_speech d frame" "td_speaking d" "td_silent_frames d + 1 < td_silence_frames_needed d"
    | (ends) "\<not> suppressed" "\<not> is_speech d frame" "td_speaking d" "td_silent_frames d + 1 \<ge> td_silence_frames_needed d"
    | (idle) "\<not> suppressed" "\<not> is_speech d frame" "\<not> td_speaking d"
    by linarith
  then show ?thesis
  proof cases
    case reset
    then have "u = None" "detector_holds d' []" using step by (auto simp: hear_def detector_reset_def detector_holds_def)
    then show ?thesis by (intro exI[of _ "heard cur @ [(suppressed, frame)]"] exI[of _ "[]"]) simp
  next
    case first
    then have "u = None" "detector_holds d' (cur @ [frame])"
      using step holds loud open_turn.begins[of "settings d" "td_silence_frames_needed d" "td_min_frames d" "td_pre_roll_frames d"
          "td_vad_threshold d" cur frame]
      by (auto simp: hear_def push_frame_def detector_holds_def settings_def speech_count_def Let_def)
    then show ?thesis using first by (intro exI[of _ "[]"] exI[of _ "cur @ [frame]"]) simp
  next
    case speak
    then have "u = None" "detector_holds d' (cur @ [frame])"
      using step holds loud open_turn.speaks[of "settings d" "td_silence_frames_needed d" "td_min_frames d" "td_pre_roll_frames d"
          "td_vad_threshold d" "td_silent_frames d" cur frame]
      by (auto simp: hear_def push_frame_def detector_holds_def settings_def speech_count_def Let_def)
    then show ?thesis using speak by (intro exI[of _ "[]"] exI[of _ "cur @ [frame]"]) simp
  next
    case pause
    then have "u = None" "detector_holds d' (cur @ [frame])"
      using step holds loud open_turn.pauses[of "settings d" "td_silence_frames_needed d" "td_min_frames d" "td_pre_roll_frames d"
          "td_vad_threshold d" "td_silent_frames d" cur frame]
      by (auto simp: hear_def push_frame_def detector_holds_def settings_def speech_count_def Let_def)
    then show ?thesis using pause by (intro exI[of _ "[]"] exI[of _ "cur @ [frame]"]) simp
  next
    case ends
    let ?enough = "td_speech_frames d \<ge> td_min_frames d"
    have d': "detector_holds d' []" "u = (if ?enough then Some (td_buffer d @ frame) else None)"
      using step ends by (auto simp: hear_def push_frame_def detector_finish_def detector_holds_def Let_def)
    have "finished_turn (settings d) (cur @ [frame])" if ?enough
      using that holds ends loud by (auto simp: finished_turn_def settings_def detector_holds_def speech_count_def)
    moreover have "td_buffer d = concat cur" using holds ends by (simp add: detector_holds_def)
    ultimately show ?thesis using d' ends by (intro exI[of _ "heard cur @ [(suppressed, frame)]"] exI[of _ "[]"]) auto
  next
    case idle
    let ?kept = "(if length cur = td_pre_roll_frames d then tl cur else cur) @ [frame]"
    have pre: "td_pre_roll d = cur" "length cur \<le> td_pre_roll_frames d" using holds idle by (simp_all add: detector_holds_def)
    have "set (tl cur) \<subseteq> set cur" by (cases cur) auto
    then have "u = None" "detector_holds d' ?kept"
      using step holds idle loud roll
      by (auto simp: hear_def push_frame_def remember_pre_roll_def detector_holds_def Let_def)
    moreover have "heard cur @ [(suppressed, frame)] = heard (if length cur = td_pre_roll_frames d then [hd cur] else []) @ heard ?kept"
      using roll pre idle by (cases cur) auto
    ultimately show ?thesis
      by (intro exI[of _ "heard (if length cur = td_pre_roll_frames d then [hd cur] else [])"] exI[of _ ?kept]) simp
  qed
qed

lemma listen_turns:
  assumes "detector_holds d cur" "listen inputs d = (d', us)" "0 < td_pre_roll_frames d"
  shows "\<exists>ts cur'. us = map concat ts \<and> (\<forall>t \<in> set ts. finished_turn (settings d) t) \<and> settings d' = settings d
    \<and> detector_holds d' cur' \<and> laid_out (map heard ts) (heard cur @ inputs) (heard cur')"
  using assms
proof (induction inputs arbitrary: d cur us)
  case Nil
  then show ?case by (intro exI[of _ "[]"] exI[of _ cur]) simp
next
  case (Cons input inputs)
  obtain suppressed frame where input: "input = (suppressed, frame)" by (cases input)
  obtain d1 u where h: "hear (suppressed, frame) d = (d1, u)" by (cases "hear (suppressed, frame) d")
  obtain us1 where l: "listen inputs d1 = (d', us1)" and us: "us = (case u of Some x \<Rightarrow> [x] | None \<Rightarrow> []) @ us1"
    using Cons.prems(2) h input by (auto split: prod.splits)
  have same: "settings d1 = settings d" by (rule hear_settings[OF h])
  obtain gap cur1 where one: "detector_holds d1 cur1" "case u of
      None \<Rightarrow> heard cur @ [(suppressed, frame)] = gap @ heard cur1
    | Some x \<Rightarrow> cur1 = [] \<and> \<not> suppressed \<and> finished_turn (settings d) (cur @ [frame]) \<and> x = concat (cur @ [frame])"
    using hear_step[OF Cons.prems(1) h Cons.prems(3)] by blast
  have roll: "0 < td_pre_roll_frames d1" using same Cons.prems(3) by (simp add: settings_def)
  obtain ts cur' where ts: "us1 = map concat ts" "\<forall>t \<in> set ts. finished_turn (settings d) t" "settings d' = settings d"
    "detector_holds d' cur'" "laid_out (map heard ts) (heard cur1 @ inputs) (heard cur')"
    using Cons.IH[OF one(1) l roll] same by auto
  show ?case
  proof (cases u)
    case None
    then have "(heard cur @ [input]) @ inputs = (gap @ heard cur1) @ inputs" using one(2) input by simp
    then have "heard cur @ input # inputs = gap @ heard cur1 @ inputs" by simp
    then have "laid_out (map heard ts) (heard cur @ input # inputs) (heard cur')"
      using laid_out_gap[OF ts(5), of gap] by (simp only:)
    then show ?thesis using ts us None by auto
  next
    case (Some x)
    then have "laid_out (map heard ((cur @ [frame]) # ts)) (heard cur @ input # inputs) (heard cur')"
      using one(2) input ts(5) Some unfolding list.map laid_out.simps
      by (intro exI[of _ "[]"] exI[of _ inputs]) simp
    moreover have "us = map concat ((cur @ [frame]) # ts)" using us ts(1) Some one(2) by simp
    ultimately show ?thesis using ts(2-4) one(2) Some
      by (intro exI[of _ "(cur @ [frame]) # ts"] exI[of _ cur']) auto
  qed
qed

text \<open>All utterances of a call, the one that is open when the stream of frames ends included.\<close>

definition call_utterances :: "behavior_turns \<Rightarrow> (bool \<times> i16 list) list \<Rightarrow> i16 list list" where
  "call_utterances behavior inputs =
     (case listen inputs (turn_detector_new behavior) of (d, us) \<Rightarrow>
        us @ (case snd (detector_finish d) of Some x \<Rightarrow> [x] | None \<Rightarrow> []))"

lemma new_detector:
  "detector_holds (turn_detector_new behavior) []" "td_pre_roll_frames (turn_detector_new behavior) = 13"
  by (simp_all add: detector_holds_def turn_detector_new_def div_ceil_def frame_ms_def TELEPHONY_FRAME_SAMPLES_def
      TELEPHONY_RATE_def)

text \<open>
  C20. Utterances are turns of the caller: what the detector hands on are disjoint stretches of the
  frames, in order, complete and without a suppressed frame. Each begins with at most 13 silent
  frames of pre-roll and then speech, has enough speech, and contains no silence as long as the one
  that ends a turn, except at its end; only the last may lack that silence.
\<close>

theorem utterances_are_turns:
  "\<exists>ts. call_utterances behavior inputs = map concat ts \<and> laid_out (map heard ts) inputs []
    \<and> (\<forall>t \<in> set ts. finished_turn (settings (turn_detector_new behavior)) t
        \<or> t = last ts \<and> (\<exists>n. open_turn (settings (turn_detector_new behavior)) n t)
          \<and> speech_count (int (bh_vad_threshold behavior)) t \<ge> td_min_frames (turn_detector_new behavior))"
proof -
  let ?d = "turn_detector_new behavior"
  obtain d us where run: "listen inputs ?d = (d, us)" by (cases "listen inputs ?d")
  obtain ts cur where ts: "us = map concat ts" "\<forall>t \<in> set ts. finished_turn (settings ?d) t" "settings d = settings ?d"
    "detector_holds d cur" "laid_out (map heard ts) inputs (heard cur)"
    using listen_turns[OF new_detector(1) run] new_detector(2) by auto
  have threshold: "td_vad_threshold d = int (bh_vad_threshold behavior)" "td_min_frames d = td_min_frames ?d"
    using ts(3) by (auto simp: settings_def turn_detector_new_def)
  show ?thesis
  proof (cases "td_speaking d \<and> td_speech_frames d \<ge> td_min_frames d")
    case True
    then have "call_utterances behavior inputs = map concat (ts @ [cur])"
      using run ts(1,4) by (simp add: call_utterances_def detector_finish_def detector_holds_def)
    moreover have "laid_out (map heard (ts @ [cur])) inputs []" using laid_out_last[OF ts(5)] by simp
    moreover have "open_turn (settings ?d) (td_silent_frames d) cur"
      "speech_count (int (bh_vad_threshold behavior)) cur \<ge> td_min_frames ?d"
      using True ts(3,4) threshold by (auto simp: detector_holds_def)
    ultimately show ?thesis using ts(2) by (intro exI[of _ "ts @ [cur]"]) auto
  next
    case False
    then have "call_utterances behavior inputs = map concat ts"
      using run ts(1) by (auto simp: call_utterances_def detector_finish_def)
    moreover have "laid_out ss fs rest \<Longrightarrow> laid_out ss fs []" for ss and fs rest :: "(bool \<times> i16 list) list"
      by (induction ss arbitrary: fs) auto
    ultimately show ?thesis using ts(2,5) by blast
  qed
qed

section \<open>The RTP stream\<close>

record rtp_state =
  rt_sequence_number :: "16 word"
  rt_initial_timestamp :: "32 word"
  rt_ssrc :: "32 word"
  rt_last_packet :: "(int \<times> 32 word) option"

record rtp_header =
  rh_version :: nat
  rh_marker :: bool
  rh_payload_type :: nat
  rh_sequence_number :: "16 word"
  rh_timestamp :: "32 word"
  rh_ssrc :: "32 word"

definition RTP_FRAME_INTERVAL_MS :: nat where "RTP_FRAME_INTERVAL_MS = 20"

text \<open>The state made from ten random bytes.\<close>

definition rtp_state_new :: "u8 list \<Rightarrow> rtp_state" where
  "rtp_state_new seed =
     (let ssrc = from_le_bytes [seed ! 3, seed ! 2, seed ! 1, seed ! 0] :: 32 word
      in \<lparr>rt_sequence_number = from_le_bytes [seed ! 5, seed ! 4],
          rt_initial_timestamp = from_le_bytes [seed ! 9, seed ! 8, seed ! 7, seed ! 6],
          rt_ssrc = if ssrc = 0 then 1 else ssrc, rt_last_packet = None\<rparr>)"

definition elapsed_frames :: "bool \<Rightarrow> int \<Rightarrow> int \<Rightarrow> 32 word" where
  "elapsed_frames marker now last_sent_at =
     (if marker then word_of_nat (max (nat (max 0 (now - last_sent_at)) div 1000000 div RTP_FRAME_INTERVAL_MS) 1) else 1)"

definition next_header :: "bool \<Rightarrow> int \<Rightarrow> rtp_state \<Rightarrow> rtp_state \<times> rtp_header" where
  "next_header marker now s =
     (let timestamp = (case rt_last_packet s of
            Some (last_sent_at, last_timestamp) \<Rightarrow>
              last_timestamp + word_of_nat TELEPHONY_FRAME_SAMPLES * elapsed_frames marker now last_sent_at
          | None \<Rightarrow> rt_initial_timestamp s)
      in (s\<lparr>rt_sequence_number := rt_sequence_number s + 1, rt_last_packet := Some (now, timestamp)\<rparr>,
          \<lparr>rh_version = 2, rh_marker = marker, rh_payload_type = 0, rh_sequence_number = rt_sequence_number s,
           rh_timestamp = timestamp, rh_ssrc = rt_ssrc s\<rparr>))"

fun rtp_headers :: "(bool \<times> int) list \<Rightarrow> rtp_state \<Rightarrow> rtp_header list" where
  "rtp_headers [] s = []"
| "rtp_headers ((marker, now) # packets) s =
     (case next_header marker now s of (s, h) \<Rightarrow> h # rtp_headers packets s)"

text \<open>
  The packets of a stream are numbered one after another, modulo \<open>2^16\<close>, under one source; and
  every packet that does not start a talk spurt is exactly one frame later than the packet before.
\<close>

theorem rtp_packets_follow:
  assumes "hs = rtp_headers packets s" "i < length packets"
  shows "length hs = length packets \<and> rh_sequence_number (hs ! i) = rt_sequence_number s + word_of_nat i
    \<and> rh_ssrc (hs ! i) = rt_ssrc s
    \<and> (0 < i \<and> \<not> fst (packets ! i) \<longrightarrow> rh_timestamp (hs ! i) = rh_timestamp (hs ! (i - 1)) + 160)"
  using assms
proof (induction packets arbitrary: hs s i)
  case (Cons p packets)
  obtain marker now where p: "p = (marker, now)" by (cases p)
  obtain s1 h where n: "next_header marker now s = (s1, h)" by (cases "next_header marker now s")
  have h: "rh_sequence_number h = rt_sequence_number s" "rh_ssrc h = rt_ssrc s" "rt_ssrc s1 = rt_ssrc s"
    "rt_sequence_number s1 = rt_sequence_number s + 1" "rt_last_packet s1 = Some (now, rh_timestamp h)"
    using n by (auto simp: next_header_def Let_def)
  have hs: "hs = h # rtp_headers packets s1" using Cons.prems(1) p n by simp
  have len: "length (rtp_headers qs t) = length qs" for qs t
    by (induction qs t rule: rtp_headers.induct) (auto split: prod.split)
  show ?case
  proof (cases i)
    case 0
    then show ?thesis using hs h len by simp
  next
    case (Suc j)
    note IH = Cons.IH[OF refl, of j s1]
    have j: "j < length packets" using Cons.prems(2) Suc by simp
    have next_one: "rh_timestamp (rtp_headers packets s1 ! 0) = rh_timestamp h + 160" if "\<not> fst (packets ! 0)" "j = 0"
      using that j h(5) by (cases packets) (auto simp: next_header_def elapsed_frames_def TELEPHONY_FRAME_SAMPLES_def Let_def)
    show ?thesis
    proof (cases j)
      case 0
      then show ?thesis using IH hs h j Suc next_one len by simp
    next
      case (Suc k)
      then show ?thesis using IH hs h j \<open>i = Suc j\<close> len by (simp add: algebra_simps)
    qed
  qed
qed simp

abbreviation "demo_rtp \<equiv> rtp_headers [(True, 0), (False, 5)] (rtp_state_new (replicate 10 255))"

theorem rtp_packets_follow_witness:
  "rh_sequence_number (demo_rtp ! 1) = rt_sequence_number (rtp_state_new (replicate 10 255)) + 1
    \<and> rh_timestamp (demo_rtp ! 1) = rh_timestamp (demo_rtp ! 0) + 160"
  using rtp_packets_follow[OF refl, of 1 "[(True, 0), (False, 5)]" "rtp_state_new (replicate 10 255)"] by simp

abbreviation "demo_turns \<equiv> call_utterances \<lparr>bh_turn_silence_ms = 20, bh_min_utterance_ms = 20, bh_vad_threshold = 10\<rparr>
  [(False, [0]), (True, [50]), (False, [1]), (False, [100]), (False, [2])]"

theorem utterances_are_turns_witness: "\<exists>ts. demo_turns = map concat ts \<and> ts \<noteq> [] \<and> concat (last ts) = [1, 100, 2]"
proof -
  have amp: "frame_average_amplitude [0] = 0" "frame_average_amplitude [50] = 50" "frame_average_amplitude [1] = 1"
    "frame_average_amplitude [100] = 100" "frame_average_amplitude [2] = 2"
    by (simp_all add: frame_average_amplitude_def)
  have out: "demo_turns = [[1, 100, 2]]"
    by (simp add: call_utterances_def turn_detector_new_def div_ceil_def frame_ms_def TELEPHONY_FRAME_SAMPLES_def
        TELEPHONY_RATE_def hear_def push_frame_def is_speech_def amp detector_finish_def detector_reset_def remember_pre_roll_def)
  obtain ts where "demo_turns = map concat ts"
    using utterances_are_turns[of "\<lparr>bh_turn_silence_ms = 20, bh_min_utterance_ms = 20, bh_vad_threshold = 10\<rparr>"
        "[(False, [0]), (True, [50]), (False, [1]), (False, [100]), (False, [2])]"] by blast
  moreover from this have "map concat ts = [[1, 100, 2]]" using out by simp
  ultimately show ?thesis by (intro exI[of _ ts]) auto
qed

end
