(* ===== verification/Call_Intent.thy ===== *)
theory Call_Intent
  imports Phone_Book
begin

text \<open>
  What the caller meant (\<open>src/service.rs\<close>): matching of spoken phrases, the end of a call, and the
  profile of the caller, whose email address is only stored after it was confirmed. The time zone
  database is the parameter \<open>valid_zone\<close>.
\<close>

section \<open>Matching text\<close>

fun match_chars :: "bool \<Rightarrow> str \<Rightarrow> str" where
  "match_chars last_was_space [] = []"
| "match_chars last_was_space (ch # chars) =
     (let mapped = (if is_ascii_alphanumeric ch then ascii_lower ch else 32)
      in if mapped = 32 then (if \<not> last_was_space then 32 # match_chars True chars else match_chars True chars)
         else mapped # match_chars False chars)"

definition normalize_match_text :: "str \<Rightarrow> str" where
  "normalize_match_text text = str_trim (match_chars True text)"

text \<open>The phrase is the whole text, or its first words.\<close>

definition begins_with_phrase :: "str \<Rightarrow> str \<Rightarrow> bool" where
  "begins_with_phrase normalized phrase \<longleftrightarrow> normalized = phrase \<or> starts_with (phrase @ lit '' '') normalized"

definition confirming :: "str list" where
  "confirming = [lit ''yes'', lit ''yes please'', lit ''yeah'', lit ''yep'', lit ''yup'', lit ''sure'', lit ''correct'',
     lit ''that s correct'', lit ''that is correct'', lit ''that is right'', lit ''that'' @ [39] @ lit ''s right'', lit ''confirmed'']"

definition caller_confirmed_pending_value :: "str \<Rightarrow> bool" where
  "caller_confirmed_pending_value text = list_ex (begins_with_phrase (normalize_match_text text)) confirming"

definition caller_rejected_pending_value :: "str \<Rightarrow> bool" where
  "caller_rejected_pending_value text = list_ex (begins_with_phrase (normalize_match_text text))
     [lit ''no'', lit ''nope'', lit ''no thanks'', lit ''not'', lit ''cancel'', lit ''wrong'', lit ''never mind'',
      lit ''forget it'', lit ''that is not'', lit ''that s not'']"

definition mentions :: "str list \<Rightarrow> str \<Rightarrow> bool" where
  "mentions phrases normalized = list_ex (\<lambda>phrase. contains phrase normalized) phrases"

definition hangup_phrases :: "str list" where
  "hangup_phrases = [lit ''hang up'', lit ''hanging up'', lit ''hangup'', lit ''disconnect'', lit ''end the call'', lit ''drop the call'']"

definition caller_requested_end_call :: "str \<Rightarrow> bool" where
  "caller_requested_end_call text = mentions ([lit ''goodbye'', lit ''good bye'', lit ''bye'', lit ''bye bye'', lit ''see you'',
     lit ''see ya'', lit ''catch you later'', lit ''talk to you later'', lit ''that s all'', lit ''that is all'',
     lit ''nothing else''] @ hangup_phrases) (normalize_match_text text)"

definition caller_requested_immediate_hangup :: "str \<Rightarrow> bool" where
  "caller_requested_immediate_hangup text = mentions hangup_phrases (normalize_match_text text)"

definition looks_like_final_farewell :: "str \<Rightarrow> bool" where
  "looks_like_final_farewell text = mentions [lit ''goodbye'', lit ''good bye'', lit ''bye'', lit ''see you'', lit ''see ya'',
     lit ''take care'', lit ''have a good'', lit ''have a great'', lit ''talk soon'', lit ''catch you later'', lit ''call back'',
     lit ''thanks for calling'', lit ''no worries bye''] (normalize_match_text text)"

definition looks_like_clarification_request :: "str \<Rightarrow> bool" where
  "looks_like_clarification_request text = mentions [lit ''could you say that again'', lit ''can you say that again'',
     lit ''could you repeat that'', lit ''can you repeat that'', lit ''i didn t catch that'', lit ''i did not catch that'',
     lit ''pardon'', lit ''sorry''] (normalize_match_text text)"

section \<open>Ending the call\<close>

definition default_final_farewell :: str where
  "default_final_farewell = lit ''Okay, no worries. See you later.''"

definition finalize_end_call_response :: "str \<Rightarrow> str" where
  "finalize_end_call_response text =
     (let trimmed = str_trim text in
      if trimmed = [] \<or> looks_like_clarification_request trimmed then default_final_farewell
      else if looks_like_final_farewell trimmed then trimmed
      else let suffix = lit '' See you later.'' in
           if last trimmed \<in> {46, 33, 63} then trimmed @ suffix else trimmed @ lit ''.'' @ suffix)"

definition number_words :: "(str \<times> str) list" where
  "number_words = [(lit ''1'', lit ''one''), (lit ''2'', lit ''two''), (lit ''3'', lit ''three''), (lit ''4'', lit ''four''),
     (lit ''5'', lit ''five''), (lit ''6'', lit ''six''), (lit ''7'', lit ''seven''), (lit ''8'', lit ''eight''),
     (lit ''9'', lit ''nine''), (lit ''10'', lit ''ten'')]"

definition parse_count_word :: "str \<Rightarrow> nat option" where
  "parse_count_word token = map_option Suc
     (List.find (\<lambda>i. token = fst (number_words ! i) \<or> token = snd (number_words ! i)) [0..<10])"

definition count_words :: "nat \<Rightarrow> str list" where
  "count_words limit = map (\<lambda>i. snd (number_words ! i)) [0..<min limit 10]"

fun count_to :: "str list \<Rightarrow> nat option" where
  "count_to (a # b # c # ws) =
     (case (if a = lit ''count'' \<and> b = lit ''to'' then parse_count_word c else None) of
        Some limit \<Rightarrow> Some limit | None \<Rightarrow> count_to (b # c # ws))"
| "count_to _ = None"

fun count_plain :: "str list \<Rightarrow> nat option" where
  "count_plain (a # b # ws) =
     (case (if a = lit ''count'' then parse_count_word b else None) of
        Some limit \<Rightarrow> Some limit | None \<Rightarrow> count_plain (b # ws))"
| "count_plain _ = None"

definition requested_count_before_hangup :: "str \<Rightarrow> nat option" where
  "requested_count_before_hangup text =
     (let normalized = normalize_match_text text in
      if \<not> caller_requested_immediate_hangup normalized then None
      else let tokens = split_whitespace normalized in
           case count_to tokens of Some limit \<Rightarrow> Some limit | None \<Rightarrow> count_plain tokens)"

definition fast_path_end_call_response :: "str \<Rightarrow> str option" where
  "fast_path_end_call_response text =
     (case requested_count_before_hangup text of
        Some limit \<Rightarrow> Some (join (lit '', '') (count_words limit) @ lit '', bye.'')
      | None \<Rightarrow> if caller_requested_immediate_hangup text then Some (lit ''Okay, bye.'') else None)"

section \<open>The profile of the caller\<close>

record transcript_event =
  te_role :: str
  te_kind :: str
  te_text :: str
  te_at :: str

definition windowed_transcript :: "'a list \<Rightarrow> nat \<Rightarrow> 'a list" where
  "windowed_transcript events max_events =
     (if max_events = 0 \<or> length events \<le> max_events then events else drop (length events - max_events) events)"

definition caller_explicitly_set_language_preference :: "str \<Rightarrow> bool" where
  "caller_explicitly_set_language_preference text =
     (let n = to_ascii_lowercase text in
      mentions [lit ''prefer'', lit ''speak'', lit ''language''] n
      \<and> mentions [lit ''english'', lit ''japanese'', lit ''korean'', lit ''mandarin'', lit ''cantonese'', lit ''spanish'',
          lit ''french'', lit ''german'', lit ''arabic'', lit ''italian'', lit ''portuguese'', lit ''hindi'',
          lit ''vietnamese'', lit ''thai''] n)"

definition normalize_name_candidate :: "str option \<Rightarrow> str option" where
  "normalize_name_candidate candidate =
     (case candidate of None \<Rightarrow> None | Some v \<Rightarrow> let trimmed = str_trim v in
      if trimmed = [] \<or> 64 \<in> set trimmed \<or> length (filter is_ascii_digit trimmed) > 0 then None else Some trimmed)"

definition normalize_company_candidate :: "str option \<Rightarrow> str option" where
  "normalize_company_candidate candidate =
     (case candidate of None \<Rightarrow> None | Some v \<Rightarrow> let trimmed = str_trim v in
      if trimmed = [] \<or> str_len trimmed > 120 then None else Some trimmed)"

definition sanitize_notes :: "str list \<Rightarrow> str list" where
  "sanitize_notes notes = filter (\<lambda>n. n \<noteq> [] \<and> str_len n \<le> 120) (map str_trim notes)"

definition sanitize_caller_update ::
    "(str \<Rightarrow> bool) \<Rightarrow> caller_update \<Rightarrow> str \<Rightarrow> caller_update \<times> str option" where
  "sanitize_caller_update valid_zone update latest_caller_text =
     (update\<lparr>cu_first_name := normalize_name_candidate (cu_first_name update),
        cu_last_name := normalize_name_candidate (cu_last_name update),
        cu_company := normalize_company_candidate (cu_company update),
        cu_timezone := (case cu_timezone update of Some z \<Rightarrow> if valid_zone z then Some z else None | None \<Rightarrow> None),
        cu_preferred_language := (if cu_preferred_language update \<noteq> None
            \<and> \<not> caller_explicitly_set_language_preference latest_caller_text then None else cu_preferred_language update),
        cu_email := None, cu_notes := sanitize_notes (cu_notes update)\<rparr>,
      case cu_email update of None \<Rightarrow> None | Some v \<Rightarrow> normalize_email_candidate v)"

definition caller_text_indicates_profile_update :: "str \<Rightarrow> bool" where
  "caller_text_indicates_profile_update text =
     (let n = to_ascii_lowercase (str_trim text) in
      n \<noteq> [] \<and> (64 \<in> set n \<or> mentions [lit ''email'', lit ''phone book'', lit ''address book'', lit ''my record'', lit ''profile'',
        lit ''preferences'', lit ''first name'', lit ''last name'', lit ''surname'', lit ''company'', lit ''work at'', lit ''work for'',
        lit ''calling from'', lit ''i'' @ [39] @ lit ''m from'', lit ''i am from'', lit ''live in'', lit ''based in'', lit ''timezone'',
        lit ''language'', lit ''prefer '', lit ''spelt '', lit ''spell '', lit ''spelled '', lit ''correct''] n))"

definition assistant_prompt_requests_profile_field :: "str \<Rightarrow> bool" where
  "assistant_prompt_requests_profile_field text =
     (let n = to_ascii_lowercase (str_trim text); whats = lit ''what'' @ [39] @ lit ''s '' in
      n \<noteq> [] \<and> mentions [lit ''what is it'', whats @ lit ''your first name'', lit ''what is your first name'',
        whats @ lit ''your last name'', lit ''what is your last name'', whats @ lit ''your surname'', lit ''what is your surname'',
        lit ''who should i say is calling'', lit ''could you spell'', lit ''can you spell'', lit ''spell that'', lit ''is that correct'',
        lit ''let me confirm'', lit ''just to confirm'', lit ''confirm whether'', lit ''where are you calling from'',
        lit ''which city are you in'', lit ''what city are you in''] n)"

definition should_extract_caller_update :: "transcript_event list \<Rightarrow> str option \<Rightarrow> str \<Rightarrow> bool" where
  "should_extract_caller_update history pending caller_text \<longleftrightarrow>
     pending \<noteq> None \<or> caller_text_indicates_profile_update caller_text
     \<or> (case List.find (\<lambda>e. te_role e = lit ''assistant'' \<and> te_kind e = lit ''assistant.tts'') (rev history) of
          Some e \<Rightarrow> assistant_prompt_requests_profile_field (te_text e) | None \<Rightarrow> False)"

definition only_email :: "str \<Rightarrow> caller_update" where
  "only_email e = \<lparr>cu_first_name = None, cu_last_name = None, cu_email = Some e, cu_company = None, cu_timezone = None,
     cu_preferred_language = None, cu_notes = []\<rparr>"

text \<open>The book and the pending address of the call; the result is the failure of writing the book.\<close>

type_synonym talk = "callers \<times> str option"

definition reconcile_pending_email_confirmation ::
    "persist \<Rightarrow> str \<Rightarrow> str \<Rightarrow> str option \<Rightarrow> str \<Rightarrow> talk \<Rightarrow> talk \<times> (string, unit) result" where
  "reconcile_pending_email_confirmation save created now phone_book_key latest_caller_text s =
     (case s of (b, pending) \<Rightarrow> case pending of
        None \<Rightarrow> (s, Inr ())
      | Some pending_email \<Rightarrow> (case phone_book_key of
          None \<Rightarrow> ((b, None), Inr ())
        | Some key \<Rightarrow>
            if caller_confirmed_pending_value latest_caller_text
            then (case merge_update save created now key (only_email pending_email) b of
                    (b, Inl e) \<Rightarrow> ((b, Some pending_email), Inl e)
                  | (b, Inr _) \<Rightarrow> ((b, None), Inr ()))
            else if caller_rejected_pending_value latest_caller_text then ((b, None), Inr ())
            else (s, Inr ())))"

text \<open>An update that the language model extracted from the conversation.\<close>

definition accept_extraction ::
    "(str \<Rightarrow> bool) \<Rightarrow> persist \<Rightarrow> str \<Rightarrow> str \<Rightarrow> str \<Rightarrow> caller_update \<Rightarrow> str \<Rightarrow> talk \<Rightarrow> talk" where
  "accept_extraction valid_zone save created now key update caller_text s =
     (case sanitize_caller_update valid_zone update caller_text of (u, candidate) \<Rightarrow>
        (fst (merge_update save created now key u (fst s)),
         case candidate of Some email \<Rightarrow> Some email | None \<Rightarrow> snd s))"

section \<open>Normal texts\<close>

text \<open>A normal text is the sequence of its words, in lower case, with one space between them.\<close>

definition match_words :: "str \<Rightarrow> str list" where
  "match_words text = filter (\<lambda>w. w \<noteq> []) (map (map ascii_lower) (str_split (\<lambda>c. \<not> is_ascii_alphanumeric c) text))"

fun spaced :: "str list \<Rightarrow> str" and spaced_after :: "str list \<Rightarrow> str" where
  "spaced [] = []"
| "spaced (w # ws) = (if w = [] then spaced ws else w @ spaced_after ws)"
| "spaced_after [] = []"
| "spaced_after (w # ws) = 32 # spaced (w # ws)"

lemma alnum_not_space: "is_ascii_alphanumeric c \<Longrightarrow> ascii_lower c \<noteq> 32 \<and> ascii_lower c \<noteq> 39 \<and> \<not> is_whitespace (ascii_lower c)"
  by (auto simp: char_class_defs)

lemma match_chars_spaced:
  "match_chars True s = spaced (map (map ascii_lower) (str_split (\<lambda>c. \<not> is_ascii_alphanumeric c) s))
    \<and> (\<forall>w ws. str_split (\<lambda>c. \<not> is_ascii_alphanumeric c) s = w # ws
         \<longrightarrow> match_chars False s = map ascii_lower w @ spaced_after (map (map ascii_lower) ws))"
proof (induction s)
  case (Cons c s)
  obtain w ws where sp: "str_split (\<lambda>c. \<not> is_ascii_alphanumeric c) s = w # ws"
    by (cases "str_split (\<lambda>c. \<not> is_ascii_alphanumeric c) s") auto
  show ?case
  proof (cases "is_ascii_alphanumeric c")
    case True
    then show ?thesis using Cons sp alnum_not_space[of c] by (simp add: Let_def)
  next
    case False
    then show ?thesis using Cons sp by (simp add: Let_def)
  qed
qed simp

lemma spaced_join: "spaced ws = join [32] (filter (\<lambda>w. w \<noteq> []) ws)
    @ (if filter (\<lambda>w. w \<noteq> []) ws \<noteq> [] \<and> last ws = [] then [32] else [])"
proof (induction ws)
  case (Cons w ws)
  show ?case
  proof (cases "filter (\<lambda>w. w \<noteq> []) ws")
    case Nil
    then have "\<forall>w \<in> set ws. w = []" by (simp add: filter_empty_conv)
    then have "ws = [] \<or> last ws = []" by (metis last_in_set)
    then show ?thesis using Cons Nil by (cases ws) auto
  next
    case (Cons v vs)
    then have "ws \<noteq> []" by auto
    then show ?thesis using Cons.IH Cons by (cases ws) auto
  qed
qed simp

lemma match_words_chars: "w \<in> set (match_words s) \<Longrightarrow> w \<noteq> [] \<and> (\<forall>c \<in> set w. \<not> is_whitespace c \<and> c \<noteq> 39)"
proof -
  assume "w \<in> set (match_words s)"
  then obtain v where v: "v \<in> set (str_split (\<lambda>c. \<not> is_ascii_alphanumeric c) s)" "w = map ascii_lower v" "w \<noteq> []"
    by (auto simp: match_words_def)
  have "is_ascii_alphanumeric c" if "c \<in> set v" for c using str_split_no_sep[OF v(1) that] by simp
  then show ?thesis using v(2,3) alnum_not_space by auto
qed

lemma join_ends:
  "ws \<noteq> [] \<Longrightarrow> (\<And>w. w \<in> set ws \<Longrightarrow> w \<noteq> []) \<Longrightarrow> join sep ws \<noteq> [] \<and> hd (join sep ws) = hd (hd ws) \<and> last (join sep ws) = last (last ws)"
proof (induction sep ws rule: join.induct)
  case (3 sep w v ws)
  then have "join sep (v # ws) \<noteq> [] \<and> last (join sep (v # ws)) = last (last (v # ws))" by simp
  then show ?case using 3(3)[of w] by auto
qed auto

theorem normalize_words: "normalize_match_text s = join [32] (match_words s)"
proof -
  let ?ws = "map (map ascii_lower) (str_split (\<lambda>c. \<not> is_ascii_alphanumeric c) s)"
  let ?tail = "if match_words s \<noteq> [] \<and> last ?ws = [] then [32] else []"
  have eq: "match_chars True s = join [32] (match_words s) @ ?tail"
    using match_chars_spaced[of s] spaced_join[of ?ws] by (simp add: match_words_def)
  show ?thesis
  proof (cases "match_words s = []")
    case True
    then show ?thesis using eq by (simp add: normalize_match_text_def str_trim_def trim_matches_def)
  next
    case False
    have j: "join [32] (match_words s) \<noteq> []" "\<not> is_whitespace (hd (join [32] (match_words s)))"
      "\<not> is_whitespace (last (join [32] (match_words s)))"
      using join_ends[of "match_words s" "[32]"] match_words_chars[of "hd (match_words s)" s]
        match_words_chars[of "last (match_words s)" s] match_words_chars False by (simp_all add: hd_in_set last_in_set)
    have "str_trim (join [32] (match_words s)) = join [32] (match_words s)"
      unfolding str_trim_def using j by (intro trim_matches_id) simp
    moreover have "str_trim (x @ [32]) = str_trim x" if "x \<noteq> []" "\<not> is_whitespace (hd x)" for x
    proof -
      have "dropWhile is_whitespace (x @ [32]) = x @ [32]" "dropWhile is_whitespace x = x"
        using that by (auto simp: dropWhile_id)
      then show ?thesis by (simp add: str_trim_def trim_matches_def is_whitespace_def)
    qed
    ultimately show ?thesis using eq j by (simp add: normalize_match_text_def)
  qed
qed

text \<open>
  The address that the caller confirms is recognized from normal texts, which hold no apostrophe:
  the confirming phrase \<open>that's right\<close> never matches, so a caller who says just that confirms nothing.
\<close>

theorem apostrophe_phrase_never_matches:
  "\<not> begins_with_phrase (normalize_match_text text) (lit ''that'' @ [39] @ lit ''s right'')
    \<and> \<not> caller_confirmed_pending_value (lit ''That'' @ [39] @ lit ''s right.'')"
proof -
  have "set (join [32] ws) \<subseteq> insert 32 (\<Union>(set ` set ws))" for ws
    by (induction "[32::int]" ws rule: join.induct) auto
  then have "39 \<notin> set (normalize_match_text text)"
    using match_words_chars by (fastforce simp: normalize_words)
  moreover have "39 \<in> set (normalize_match_text text)"
    if "begins_with_phrase (normalize_match_text text) (lit ''that'' @ [39] @ lit ''s right'')"
    using that starts_with_set[of "(lit ''that'' @ [39] @ lit ''s right'') @ lit '' ''" "normalize_match_text text"]
    by (auto simp: begins_with_phrase_def simp del: lit_simps)
  moreover have "\<not> caller_confirmed_pending_value (lit ''That'' @ [39] @ lit ''s right.'')" by code_simp
  ultimately show ?thesis by blast
qed

section \<open>Farewells\<close>

lemma split_sep: "p c \<Longrightarrow> str_split p (x @ c # y) = str_split p x @ str_split p y"
proof (induction x)
  case (Cons d x)
  then show ?case by (cases "str_split p x") auto
qed simp

lemma match_words_sep: "\<not> is_ascii_alphanumeric c \<Longrightarrow> match_words (x @ c # y) = match_words x @ match_words y"
  by (simp add: match_words_def split_sep)

lemma contains_infix: "contains p (x @ p @ y)"
proof (induction x)
  case Nil
  have "starts_with p (p @ y)" by (simp add: starts_with_def)
  then show ?case by (cases "p @ y") auto
qed simp

lemma join_suffix: "ys \<noteq> [] \<Longrightarrow> \<exists>pre. join sep (xs @ ys) = pre @ join sep ys"
proof (induction xs)
  case (Cons x xs)
  then obtain pre where pre: "join sep (xs @ ys) = pre @ join sep ys" by blast
  show ?case
  proof (cases "xs @ ys")
    case (Cons z zs)
    then show ?thesis using pre by (intro exI[of _ "x @ sep @ pre"]) simp
  qed (use Cons.prems in simp)
qed (auto intro: exI[of _ "[]"])

lemma see_you_later:
  assumes "\<not> is_ascii_alphanumeric c" "match_words y = [lit ''see'', lit ''you'', lit ''later'']"
  shows "looks_like_final_farewell (x @ c # y)"
proof -
  obtain pre where "normalize_match_text (x @ c # y) = pre @ join [32] [lit ''see'', lit ''you'', lit ''later'']"
    using join_suffix[of "[lit ''see'', lit ''you'', lit ''later'']" "[32]" "match_words x"] assms
    by (auto simp: normalize_words match_words_sep simp del: lit_simps join.simps)
  moreover have "join [32] [lit ''see'', lit ''you'', lit ''later''] = lit ''see you'' @ lit '' later''" by simp
  ultimately have "contains (lit ''see you'') (normalize_match_text (x @ c # y))" using contains_infix by metis
  then show ?thesis by (simp add: looks_like_final_farewell_def mentions_def del: lit_simps)
qed

text \<open>
  The last words of a call that the caller wants to end are a farewell: whatever the language
  model answered, the reply that is spoken passes the check for a final farewell.
\<close>

theorem final_reply_is_a_farewell: "looks_like_final_farewell (finalize_end_call_response text)"
proof -
  have words: "match_words (lit ''See you later.'') = [lit ''see'', lit ''you'', lit ''later'']"
    "match_words (lit '' See you later.'') = [lit ''see'', lit ''you'', lit ''later'']" by code_simp+
  have suffix: "lit '' See you later.'' = 32 # lit ''See you later.''" "lit ''.'' @ y = 46 # y" for y by simp_all
  have "looks_like_final_farewell default_final_farewell" by code_simp
  moreover have "looks_like_final_farewell (x @ lit '' See you later.'')" for x
    unfolding suffix(1) using words(1) by (intro see_you_later) (simp_all add: char_class_defs)
  moreover have "looks_like_final_farewell (x @ lit ''.'' @ lit '' See you later.'')" for x
    unfolding suffix(2) using words(2) by (intro see_you_later) (simp_all add: char_class_defs)
  ultimately show ?thesis by (simp add: finalize_end_call_response_def Let_def del: lit_simps)
qed

section \<open>The address of the caller\<close>

datatype talk_event = Heard str | Extracted caller_update

text \<open>
  What happens to the profile during a call: the caller is heard, and updates are extracted, whose
  storing may be skipped after a failure.
\<close>

inductive talk :: "(str \<Rightarrow> bool) \<Rightarrow> str option \<Rightarrow> talk \<Rightarrow> talk_event list \<Rightarrow> talk \<Rightarrow> bool" for valid_zone key s where
  starts: "talk valid_zone key s [] s"
| heard: "talk valid_zone key s es s1 \<Longrightarrow> reconcile_pending_email_confirmation save created now key text s1 = (s2, r)
    \<Longrightarrow> talk valid_zone key s (es @ [Heard text]) s2"
| extracted: "talk valid_zone key s es s1 \<Longrightarrow> key = Some k
    \<Longrightarrow> talk valid_zone key s (es @ [Extracted u]) (accept_extraction valid_zone save created now k u text s1)"
| unstored: "talk valid_zone key s es s1 \<Longrightarrow> key = Some k
    \<Longrightarrow> talk valid_zone key s (es @ [Extracted u]) (fst s1, snd (accept_extraction valid_zone save created now k u text s1))"

definition email_candidate :: "caller_update \<Rightarrow> str option" where
  "email_candidate u = (case cu_email u of None \<Rightarrow> None | Some v \<Rightarrow> normalize_email_candidate v)"

fun keeps_question :: "talk_event \<Rightarrow> bool" where
  "keeps_question (Heard text) \<longleftrightarrow> caller_confirmed_pending_value text \<or> \<not> caller_rejected_pending_value text"
| "keeps_question (Extracted u) \<longleftrightarrow> email_candidate u = None"

text \<open>The address was the last one extracted, and not rejected since; and it was then confirmed.\<close>

definition asked :: "talk_event list \<Rightarrow> str \<Rightarrow> bool" where
  "asked es e \<longleftrightarrow> (\<exists>before u after. es = before @ Extracted u # after \<and> email_candidate u = Some e \<and> list_all keeps_question after)"

definition confirmed_email :: "talk_event list \<Rightarrow> str \<Rightarrow> bool" where
  "confirmed_email es e \<longleftrightarrow> (\<exists>before text after. es = before @ Heard text # after
     \<and> caller_confirmed_pending_value text \<and> asked before e)"

definition email_of :: "callers \<Rightarrow> str \<Rightarrow> str option" where
  "email_of b k = (case b k of None \<Rightarrow> None | Some r \<Rightarrow> cr_email r)"

lemma asked_more: "asked es e \<Longrightarrow> keeps_question ev \<Longrightarrow> asked (es @ [ev]) e"
  unfolding asked_def
proof (elim exE conjE)
  fix before u after assume "es = before @ Extracted u # after" "email_candidate u = Some e" "list_all keeps_question after"
    and "keeps_question ev"
  then show "\<exists>before u after. es @ [ev] = before @ Extracted u # after \<and> email_candidate u = Some e \<and> list_all keeps_question after"
    by (intro exI[of _ before] exI[of _ u] exI[of _ "after @ [ev]"]) simp
qed

lemma confirmed_more: "confirmed_email es e \<Longrightarrow> confirmed_email (es @ [ev]) e"
  unfolding confirmed_email_def
proof (elim exE conjE)
  fix before t after assume "es = before @ Heard t # after" "caller_confirmed_pending_value t" "asked before e"
  then show "\<exists>before text after. es @ [ev] = before @ Heard text # after \<and> caller_confirmed_pending_value text \<and> asked before e"
    by (intro exI[of _ before] exI[of _ t] exI[of _ "after @ [ev]"]) simp
qed

lemma candidate_normal:
  assumes "normalize_email_candidate v = Some e"
  shows "e \<noteq> []" "to_ascii_lowercase e = e" "str_trim e = e"
proof -
  have e: "e = to_ascii_lowercase (trim_matches (\<lambda>c. c \<in> {34, 39, 46, 44, 59, 58}) (str_trim v))" "looks_like_email e"
    using assms by (auto simp: normalize_email_candidate_def Let_def split: if_splits)
  show "to_ascii_lowercase e = e" unfolding e(1) by (simp add: to_ascii_lowercase_def)
  show "e \<noteq> []" using e(2) by (auto simp: looks_like_email_def)
  have "list_all (\<lambda>c. is_ascii_alphanumeric c \<or> c \<in> {64, 46, 95, 45, 43}) e"
    using e(2) by (simp add: looks_like_email_def Let_def split: if_splits)
  then show "str_trim e = e" by (intro str_trim_id) (auto simp: list_all_iff char_class_defs)
qed

lemma merged_email: "j \<noteq> k \<Longrightarrow> fst (merge_update save created now k u b) j = b j"
  by (simp add: merge_update_def Let_def)

lemma merged_own: "email_of (fst (merge_update save created now k u b)) k =
    merge_option (email_of b k) (map_option to_ascii_lowercase (cu_email u))"
  by (cases "b k") (simp_all add: merge_update_def email_of_def apply_update_def sanitize_def caller_record_new_def Let_def)

lemma merged_own_email:
  "cu_email u = None \<Longrightarrow> email_of (fst (merge_update save created now k u b)) k = email_of b k"
  "cu_email u = Some e \<Longrightarrow> normalize_email_candidate v = Some e \<Longrightarrow> email_of (fst (merge_update save created now k u b)) k = Some e"
  using candidate_normal[of v e] by (simp_all add: merged_own merge_option_def)

definition talk_inv :: "callers \<Rightarrow> str option \<Rightarrow> talk_event list \<Rightarrow> talk \<Rightarrow> bool" where
  "talk_inv b key es s \<longleftrightarrow> (\<forall>e. snd s = Some e \<longrightarrow> asked es e \<and> (\<exists>v. normalize_email_candidate v = Some e))
     \<and> (\<forall>j. Some j \<noteq> key \<longrightarrow> fst s j = b j)
     \<and> (\<forall>k. key = Some k \<longrightarrow> email_of (fst s) k = email_of b k \<or> (\<exists>e. email_of (fst s) k = Some e \<and> confirmed_email es e))"

lemma talk_inv_more:
  assumes inv: "talk_inv b key es s" and "snd s' = None \<or> snd s' = snd s \<and> keeps_question ev" "fst s' = fst s"
  shows "talk_inv b key (es @ [ev]) s'"
proof -
  have "asked (es @ [ev]) e \<and> (\<exists>v. normalize_email_candidate v = Some e)" if "snd s' = Some e" for e
  proof -
    have "snd s = Some e" "keeps_question ev" using that assms(2) by auto
    then show ?thesis using inv asked_more[of es e ev] unfolding talk_inv_def by blast
  qed
  moreover have "email_of (fst s) k = email_of b k \<or> (\<exists>e. email_of (fst s) k = Some e \<and> confirmed_email (es @ [ev]) e)"
    if "key = Some k" for k
    using that inv confirmed_more[of es _ ev] unfolding talk_inv_def by blast
  ultimately show ?thesis using inv assms(3) by (simp add: talk_inv_def)
qed

lemma heard_inv:
  assumes inv: "talk_inv b key es s1"
    and run: "reconcile_pending_email_confirmation save created now key t s1 = (s2, r)"
  shows "talk_inv b key (es @ [Heard t]) s2"
proof -
  obtain c pending where s1: "s1 = (c, pending)" by (cases s1)
  show ?thesis
  proof (cases "\<exists>e k. pending = Some e \<and> key = Some k \<and> caller_confirmed_pending_value t")
    case False
    then have "(snd s2 = None \<or> snd s2 = snd s1 \<and> keeps_question (Heard t)) \<and> fst s2 = fst s1"
      using run s1 by (auto simp: reconcile_pending_email_confirmation_def split: option.splits if_splits)
    then show ?thesis using talk_inv_more[OF inv] by blast
  next
    case True
    then obtain e k where e: "pending = Some e" "key = Some k" "caller_confirmed_pending_value t" by blast
    have asked: "asked es e" and valid: "\<exists>v. normalize_email_candidate v = Some e"
      using inv s1 e by (auto simp: talk_inv_def)
    let ?c = "fst (merge_update save created now k (only_email e) c)"
    have s2: "fst s2 = ?c" "snd s2 = None \<or> snd s2 = Some e"
      using run s1 e by (auto simp: reconcile_pending_email_confirmation_def split: prod.splits sum.splits)
    have "email_of ?c k = Some e" using merged_own_email(2)[of "only_email e" e] valid by (auto simp: only_email_def)
    moreover have "confirmed_email (es @ [Heard t]) e" using asked e(3) by (auto simp: confirmed_email_def)
    moreover have "asked (es @ [Heard t]) e" by (rule asked_more[OF asked]) (simp add: e)
    moreover have "?c j = b j" if "Some j \<noteq> key" for j
      using that inv s1 e merged_email[of j k save created now "only_email e" c] by (auto simp: talk_inv_def)
    ultimately show ?thesis using s2 e(2) valid by (auto simp: talk_inv_def)
  qed
qed

lemma extracted_inv:
  assumes inv: "talk_inv b key es s1" and k: "key = Some k"
  shows "talk_inv b key (es @ [Extracted u]) (fst s1, snd (accept_extraction valid_zone save created now k u t s1))"
    "talk_inv b key (es @ [Extracted u]) (accept_extraction valid_zone save created now k u t s1)"
proof -
  let ?s = "accept_extraction valid_zone save created now k u t s1"
  have new: "asked (es @ [Extracted u]) e \<and> (\<exists>v. normalize_email_candidate v = Some e)" if "email_candidate u = Some e" for e
    using that by (force simp: asked_def email_candidate_def split: option.splits)
  have snd: "snd ?s = (case email_candidate u of Some e \<Rightarrow> Some e | None \<Rightarrow> snd s1)"
    by (simp add: accept_extraction_def sanitize_caller_update_def email_candidate_def split: option.split)
  have pend: "snd ?s = Some e \<Longrightarrow> asked (es @ [Extracted u]) e \<and> (\<exists>v. normalize_email_candidate v = Some e)" for e
    using new snd asked_more[of es e "Extracted u"] inv by (cases "email_candidate u") (auto simp: talk_inv_def)
  show first: "talk_inv b key (es @ [Extracted u]) (fst s1, snd ?s)"
    using pend inv confirmed_more[of es _ "Extracted u"] by (fastforce simp: talk_inv_def)
  obtain w where w: "fst ?s = fst (merge_update save created now k w (fst s1))" "cu_email w = None"
    by (simp add: accept_extraction_def sanitize_caller_update_def)
  have "fst ?s j = fst s1 j" if "j \<noteq> k" for j using merged_email[OF that] w by simp
  moreover have "email_of (fst ?s) k = email_of (fst s1) k" using merged_own_email(1) w by simp
  ultimately show "talk_inv b key (es @ [Extracted u]) ?s" using first k by (auto simp: talk_inv_def)
qed

text \<open>
  C19. No address without consent: along any call, with any updates extracted and any failures of
  writing, the stored address of the caller only changes to one that was asked for, was neither
  replaced nor rejected since, and was then confirmed by the caller; and no other record changes.
\<close>

theorem address_needs_confirmation:
  assumes "talk valid_zone key (b, None) es (b', pending)"
  shows "(\<forall>k. key = Some k \<longrightarrow> email_of b' k = email_of b k \<or> (\<exists>e. email_of b' k = Some e \<and> confirmed_email es e))
    \<and> (\<forall>j. Some j \<noteq> key \<longrightarrow> b' j = b j)"
proof -
  have "talk_inv b key es (b', pending)"
    using assms
  proof (induction "(b', pending)" arbitrary: b' pending rule: talk.induct)
    case starts
    show ?case by (simp add: talk_inv_def)
  next
    case (heard es s1 save created now t r)
    then show ?case using heard_inv by (cases s1) blast
  next
    case (extracted es s1 k u save created now t)
    then show ?case using extracted_inv(2) by (cases s1) metis
  next
    case (unstored es s1 k u save created now t)
    then show ?case using extracted_inv(1) by (cases s1) metis
  qed
  then show ?thesis by (simp add: talk_inv_def)
qed

abbreviation "demo_extraction \<equiv> (only_email (lit '' A@b.co.''))"

theorem address_needs_confirmation_witness:
  "\<exists>b pending e. talk (\<lambda>_. True) (Some (lit ''7'')) (Map.empty, None) [Extracted demo_extraction, Heard (lit ''Yes, please'')] (b, pending)
    \<and> email_of b (lit ''7'') = Some e \<and> confirmed_email [Extracted demo_extraction, Heard (lit ''Yes, please'')] e"
proof -
  let ?s1 = "accept_extraction (\<lambda>_. True) (\<lambda>_. Inr ()) [] [] (lit ''7'') demo_extraction [] (Map.empty, None)"
  let ?r = "reconcile_pending_email_confirmation (\<lambda>_. Inr ()) [] [] (Some (lit ''7'')) (lit ''Yes, please'') ?s1"
  have t1: "talk (\<lambda>_. True) (Some (lit ''7'')) (Map.empty, None) ([] @ [Extracted demo_extraction]) ?s1"
    by (rule talk.extracted[OF talk.starts refl])
  obtain b pending where s2: "fst ?r = (b, pending)" by (cases "fst ?r")
  have "talk (\<lambda>_. True) (Some (lit ''7'')) (Map.empty, None) (([] @ [Extracted demo_extraction]) @ [Heard (lit ''Yes, please'')]) (b, pending)"
    by (rule talk.heard[OF t1, of "\<lambda>_. Inr ()" "[]" "[]" "lit ''Yes, please''" _ "snd ?r"]) (simp add: s2[symmetric])
  then have run: "talk (\<lambda>_. True) (Some (lit ''7'')) (Map.empty, None) [Extracted demo_extraction, Heard (lit ''Yes, please'')] (b, pending)"
    by (simp del: lit_simps)
  have "email_of (fst (fst ?r)) (lit ''7'') = Some (lit ''a@b.co'')" by code_simp
  then have "email_of b (lit ''7'') \<noteq> email_of Map.empty (lit ''7'')" using s2 by (simp add: email_of_def)
  then show ?thesis using address_needs_confirmation[OF run] run by blast
qed

end
