(* ===== verification/Speech_Text.thy ===== *)
theory Speech_Text
  imports Rust_Text
begin

text \<open>
  Cutting a reply into the pieces that are synthesized one after another (\<open>split_tts_text\<close> of
  \<open>src/service.rs\<close>). Lengths and positions count bytes; splitting a text where no character ends is
  a panic, the result \<open>None\<close>.
\<close>

section \<open>The cut\<close>

text \<open>\<open>String::split_off\<close>.\<close>

fun split_off :: "str \<Rightarrow> nat \<Rightarrow> (str \<times> str) option" where
  "split_off s 0 = Some ([], s)"
| "split_off [] (Suc n) = None"
| "split_off (c # s) (Suc n) =
     (if length (utf8_char c) \<le> Suc n
      then map_option (\<lambda>(a, b). (c # a, b)) (split_off s (Suc n - length (utf8_char c))) else None)"

text \<open>\<open>str::rfind\<close> of a character.\<close>

fun rfind :: "rchar \<Rightarrow> str \<Rightarrow> nat option" where
  "rfind d [] = None"
| "rfind d (c # s) = (case rfind d s of Some i \<Rightarrow> Some (length (utf8_char c) + i) | None \<Rightarrow> if c = d then Some 0 else None)"

definition sentence_end :: "rchar \<Rightarrow> bool" where
  "sentence_end c \<longleftrightarrow> c \<in> {46, 33, 63, 59, 58}"

record tts_state =
  tt_segments :: "str list"
  tt_current :: str
  tt_last_break_at :: "nat option"

definition push_segment :: "str \<Rightarrow> tts_state \<Rightarrow> tts_state" where
  "push_segment s st = (if str_trim s \<noteq> [] then st\<lparr>tt_segments := tt_segments st @ [str_trim s]\<rparr> else st)"

definition cut_at :: "nat \<Rightarrow> tts_state \<Rightarrow> tts_state option" where
  "cut_at index st =
     (case split_off (tt_current st) index of
        None \<Rightarrow> None
      | Some (head, tail) \<Rightarrow> Some ((push_segment head st)\<lparr>tt_current := str_trim_start tail\<rparr>))"

definition tts_char :: "rchar \<Rightarrow> tts_state \<Rightarrow> tts_state option" where
  "tts_char ch st =
     (let st = st\<lparr>tt_current := tt_current st @ [ch]\<rparr>;
          st = (if sentence_end ch \<or> (ch = 44 \<and> str_len (tt_current st) \<ge> 48)
                then st\<lparr>tt_last_break_at := Some (str_len (tt_current st))\<rparr> else st)
      in if str_len (tt_current st) \<ge> 24 \<and> sentence_end ch
         then Some ((push_segment (tt_current st) st)\<lparr>tt_current := [], tt_last_break_at := None\<rparr>)
         else if str_len (tt_current st) \<ge> 72
         then map_option (\<lambda>st. st\<lparr>tt_last_break_at := None\<rparr>)
                (case tt_last_break_at st of
                   Some index \<Rightarrow> cut_at index (st\<lparr>tt_last_break_at := None\<rparr>)
                 | None \<Rightarrow> (case rfind 32 (tt_current st) of Some index \<Rightarrow> cut_at index st | None \<Rightarrow> Some st))
         else Some st)"

fun tts_chars :: "str \<Rightarrow> tts_state \<Rightarrow> tts_state option" where
  "tts_chars [] st = Some st"
| "tts_chars (ch # chars) st = (case tts_char ch st of None \<Rightarrow> None | Some st \<Rightarrow> tts_chars chars st)"

definition split_tts_text :: "str \<Rightarrow> str \<Rightarrow> str list option" where
  "split_tts_text message backend =
     (let normalized = join [32] (split_whitespace message) in
      if normalized = [] then Some [[]]
      else if backend \<noteq> lit ''sherpa-onnx'' then Some [normalized]
      else map_option (\<lambda>st. let segments = tt_segments (push_segment (tt_current st) st) in
                        if segments = [] then [normalized] else segments)
             (tts_chars normalized \<lparr>tt_segments = [], tt_current = [], tt_last_break_at = None\<rparr>))"

section \<open>Nothing is lost\<close>

definition spoken :: "str \<Rightarrow> str" where
  "spoken s = filter (\<lambda>c. \<not> is_whitespace c) s"

lemma spoken_append [simp]: "spoken (a @ b) = spoken a @ spoken b"
  by (simp add: spoken_def)

lemma spoken_dropWhile: "spoken (dropWhile is_whitespace s) = spoken s"
  by (induction s) (auto simp: spoken_def)

lemma spoken_rev: "spoken (rev s) = rev (spoken s)"
  by (simp add: spoken_def rev_filter)

lemma spoken_trim [simp]: "spoken (str_trim s) = spoken s" "spoken (str_trim_start s) = spoken s"
  by (simp_all add: str_trim_def trim_matches_def str_trim_start_def trim_start_matches_def spoken_rev spoken_dropWhile)

lemma split_off_length: "split_off (a @ b) (str_len a) = Some (a, b)"
proof (induction a)
  case (Cons c a)
  obtain n where "length (utf8_char c) = Suc n" by (cases "utf8_char c") auto
  then show ?case using Cons by simp
qed simp

lemma split_off_joins: "split_off s n = Some (a, b) \<Longrightarrow> s = a @ b"
  by (induction s n arbitrary: a b rule: split_off.induct) (auto split: if_splits)

lemma rfind_boundary: "rfind d s = Some i \<Longrightarrow> \<exists>a b. s = a @ b \<and> i = str_len a"
proof (induction s arbitrary: i)
  case (Cons c s)
  show ?case
  proof (cases "rfind d s")
    case None
    then have "i = 0" using Cons.prems by (simp split: if_splits)
    then show ?thesis by (intro exI[of _ "[]"] exI[of _ "c # s"]) simp
  next
    case (Some j)
    then obtain a b where "s = a @ b" "j = str_len a" using Cons.IH by blast
    then show ?thesis using Cons.prems Some by (intro exI[of _ "c # a"] exI[of _ b]) simp
  qed
qed simp

text \<open>The break is a place between two characters of the current piece.\<close>

definition break_ok :: "tts_state \<Rightarrow> bool" where
  "break_ok st \<longleftrightarrow> (\<forall>i. tt_last_break_at st = Some i \<longrightarrow> (\<exists>a b. tt_current st = a @ b \<and> i = str_len a))"

definition said :: "tts_state \<Rightarrow> str" where
  "said st = spoken (concat (tt_segments st) @ tt_current st)"

definition pieces_ok :: "str list \<Rightarrow> bool" where
  "pieces_ok segments \<longleftrightarrow> (\<forall>s \<in> set segments. s \<noteq> [] \<and> str_trim s = s)"

lemma pushed: "spoken (concat (tt_segments (push_segment s st))) = spoken (concat (tt_segments st)) @ spoken s"
  "pieces_ok (tt_segments st) \<Longrightarrow> pieces_ok (tt_segments (push_segment s st))"
  using spoken_trim(1)[of s] by (auto simp: push_segment_def pieces_ok_def spoken_def simp del: spoken_trim)

lemma cut_ok:
  assumes "tt_current st = a @ b" "i = str_len a" "pieces_ok (tt_segments st)"
  shows "\<exists>st'. cut_at i st = Some st' \<and> said st' = said st \<and> pieces_ok (tt_segments st')"
  using assms pushed[where s = a and st = st] by (simp add: cut_at_def split_off_length said_def)

lemma push_fields [simp]: "tt_current (push_segment s st) = tt_current st" "tt_last_break_at (push_segment s st) = tt_last_break_at st"
  by (simp_all add: push_segment_def)

lemma tts_char_ok:
  assumes "break_ok st" "pieces_ok (tt_segments st)"
  shows "\<exists>st'. tts_char ch st = Some st' \<and> break_ok st' \<and> pieces_ok (tt_segments st') \<and> said st' = said st @ spoken [ch]"
proof -
  define st0 where "st0 = st\<lparr>tt_current := tt_current st @ [ch]\<rparr>"
  define st1 where "st1 = (if sentence_end ch \<or> (ch = 44 \<and> str_len (tt_current st0) \<ge> 48)
    then st0\<lparr>tt_last_break_at := Some (str_len (tt_current st0))\<rparr> else st0)"
  have cur: "tt_current st1 = tt_current st @ [ch]" "tt_segments st1 = tt_segments st" by (simp_all add: st1_def st0_def)
  have said1: "said st1 = said st @ spoken [ch]" by (simp add: said_def cur)
  have more: "\<exists>a b. tt_current st @ [ch] = a @ b \<and> i = str_len a" if "\<exists>a b. tt_current st = a @ b \<and> i = str_len a" for i
    using that by (metis append.assoc)
  have whole: "\<exists>a b. tt_current st @ [ch] = a @ b \<and> str_len (tt_current st @ [ch]) = str_len a"
    by (intro exI[of _ "tt_current st @ [ch]"] exI[of _ "[]"]) simp
  have ok1: "break_ok st1"
    using assms(1) more whole unfolding break_ok_def cur by (auto simp: st1_def st0_def simp del: append_assoc)
  have run: "tts_char ch st =
      (if str_len (tt_current st1) \<ge> 24 \<and> sentence_end ch
       then Some ((push_segment (tt_current st1) st1)\<lparr>tt_current := [], tt_last_break_at := None\<rparr>)
       else if str_len (tt_current st1) \<ge> 72
       then map_option (\<lambda>st. st\<lparr>tt_last_break_at := None\<rparr>)
              (case tt_last_break_at st1 of
                 Some index \<Rightarrow> cut_at index (st1\<lparr>tt_last_break_at := None\<rparr>)
               | None \<Rightarrow> (case rfind 32 (tt_current st1) of Some index \<Rightarrow> cut_at index st1 | None \<Rightarrow> Some st1))
       else Some st1)"
    by (simp only: tts_char_def Let_def st0_def[symmetric] st1_def[symmetric])
  consider (sentence) "str_len (tt_current st1) \<ge> 24 \<and> sentence_end ch"
    | (long) "\<not> (str_len (tt_current st1) \<ge> 24 \<and> sentence_end ch)" "str_len (tt_current st1) \<ge> 72"
    | (short) "\<not> (str_len (tt_current st1) \<ge> 24 \<and> sentence_end ch)" "\<not> str_len (tt_current st1) \<ge> 72" by blast
  then show ?thesis
  proof cases
    case sentence
    have "said ((push_segment (tt_current st1) st1)\<lparr>tt_current := [], tt_last_break_at := None\<rparr>) = said st1"
      using pushed(1)[where s = "tt_current st1" and st = st1] by (simp add: said_def)
    then show ?thesis using run sentence said1 pushed(2)[where s = "tt_current st1" and st = st1] assms(2) cur
      by (simp add: break_ok_def)
  next
    case long
    let ?st2 = "st1\<lparr>tt_last_break_at := None\<rparr>"
    have "\<exists>st2. (case tt_last_break_at st1 of Some index \<Rightarrow> cut_at index ?st2
        | None \<Rightarrow> (case rfind 32 (tt_current st1) of Some index \<Rightarrow> cut_at index st1 | None \<Rightarrow> Some st1)) = Some st2
      \<and> said st2 = said st1 \<and> pieces_ok (tt_segments st2)"
    proof (cases "tt_last_break_at st1")
      case (Some i)
      obtain a b where "tt_current ?st2 = a @ b" "i = str_len a" using ok1 Some by (auto simp: break_ok_def)
      then show ?thesis using cut_ok[of ?st2 a b i] Some assms(2) cur by (simp add: said_def)
    next
      case None
      then show ?thesis
      proof (cases "rfind 32 (tt_current st1)")
        case (Some i)
        obtain a b where "tt_current st1 = a @ b" "i = str_len a" using rfind_boundary[OF Some] by blast
        then show ?thesis using cut_ok[of st1 a b i] Some None assms(2) cur by simp
      qed (use None assms(2) cur in simp)
    qed
    then show ?thesis using run long said1 by (auto simp: break_ok_def said_def)
  next
    case short
    have "tts_char ch st = Some st1" unfolding run using short by (simp only: if_not_P not_False_eq_True)
    then show ?thesis using said1 ok1 assms(2) cur(2) by simp
  qed
qed

lemma tts_chars_ok:
  assumes "break_ok st" "pieces_ok (tt_segments st)"
  shows "\<exists>st'. tts_chars chars st = Some st' \<and> pieces_ok (tt_segments st') \<and> said st' = said st @ spoken chars"
  using assms
proof (induction chars arbitrary: st)
  case (Cons ch chars)
  obtain st1 where st1: "tts_char ch st = Some st1" "break_ok st1" "pieces_ok (tt_segments st1)" "said st1 = said st @ spoken [ch]"
    using tts_char_ok[OF Cons.prems] by blast
  then obtain st2 where "tts_chars chars st1 = Some st2" "pieces_ok (tt_segments st2)" "said st2 = said st1 @ spoken chars"
    using Cons.IH by blast
  then show ?case using st1 spoken_append[of "[ch]" chars] by simp
qed (simp add: spoken_def)

lemma spoken_join: "spoken (join [32] ws) = spoken (concat ws)"
  by (induction "[32::int]" ws rule: join.induct) (simp_all add: spoken_def is_whitespace_def)

lemma spoken_split: "spoken (concat (str_split is_whitespace s)) = spoken s"
proof (induction s)
  case (Cons c s)
  then show ?case by (cases "str_split is_whitespace s") (auto simp: spoken_def)
qed simp

lemma concat_nonempty: "concat (filter (\<lambda>w. w \<noteq> []) ws) = concat ws"
  by (induction ws) auto

text \<open>
  C39. Cutting a reply never panics and loses nothing: the pieces, none of which is blank unless the
  reply is, together hold every character of the reply but white space, in order.
\<close>

theorem split_tts_text_keeps_the_reply:
  "\<exists>pieces. split_tts_text message backend = Some pieces \<and> pieces \<noteq> [] \<and> spoken (concat pieces) = spoken message
    \<and> (pieces = [[]] \<or> (\<forall>p \<in> set pieces. p \<noteq> []))"
proof -
  let ?n = "join [32] (split_whitespace message)"
  have keep: "spoken ?n = spoken message"
    by (simp add: spoken_join split_whitespace_def concat_nonempty spoken_split)
  obtain st where st: "tts_chars ?n \<lparr>tt_segments = [], tt_current = [], tt_last_break_at = None\<rparr> = Some st"
    "pieces_ok (tt_segments st)" "said st = spoken ?n"
    using tts_chars_ok[of "\<lparr>tt_segments = [], tt_current = [], tt_last_break_at = None\<rparr>" ?n]
    by (auto simp: break_ok_def pieces_ok_def said_def spoken_def)
  let ?segments = "tt_segments (push_segment (tt_current st) st)"
  have "spoken (concat ?segments) = spoken message" "pieces_ok ?segments"
    using pushed[where s = "tt_current st" and st = st] st keep by (simp_all add: said_def)
  then show ?thesis using st(1) keep
    by (cases "?n = []"; cases "?segments = []") (auto simp: split_tts_text_def Let_def pieces_ok_def spoken_def)
qed

theorem split_tts_text_keeps_the_reply_witness:
  "\<exists>pieces. split_tts_text (lit ''Well,  that is a rather long first sentence. Yes.'') (lit ''sherpa-onnx'') = Some pieces
    \<and> (\<forall>p \<in> set pieces. p \<noteq> [])"
proof -
  let ?m = "lit ''Well,  that is a rather long first sentence. Yes.''"
  obtain pieces where p: "split_tts_text ?m (lit ''sherpa-onnx'') = Some pieces" "spoken (concat pieces) = spoken ?m"
    "pieces = [[]] \<or> (\<forall>p \<in> set pieces. p \<noteq> [])"
    using split_tts_text_keeps_the_reply[of ?m "lit ''sherpa-onnx''"] by blast
  have "spoken ?m \<noteq> []" by code_simp
  then have "pieces \<noteq> [[]]" using p(2) by (auto simp: spoken_def)
  then show ?thesis using p by blast
qed

end
