(* ===== verification/OAuth_Credentials.thy ===== *)
theory OAuth_Credentials
  imports Store_Schema Token_Cipher
begin

text \<open>
  The OAuth credentials of \<open>src/pa/store.rs\<close>: the table \<open>oauth_credentials\<close> with its key
  (provider, account), and \<open>save_oauth_credential\<close>, \<open>update_oauth_tokens\<close>,
  \<open>load_oauth_credential\<close>, \<open>delete_oauth_credential\<close> over the envelope encryption. The JSON
  texts of serde and the RFC 3339 texts of chrono are parameters (\<open>oauth_codec\<close>); a
  \<open>DateTime<Utc>\<close> is opaque here, a type variable.
\<close>

section \<open>Values\<close>

record 't oauth_credential =
  oc_provider :: str
  oc_account_id :: str
  oc_access_token :: str
  oc_refresh_token :: "str option"
  oc_expires_at :: "'t option"
  oc_scopes :: "str list"

record oauth_row =
  oa_provider :: str
  oa_account_id :: str
  oa_access :: "u8 list option"
  oa_refresh :: "u8 list option"
  oa_expires_at :: "str option"
  oa_scopes :: "str option"
  oa_created_at :: str
  oa_updated_at :: str

record 't oauth_codec =
  envelope_json :: "encrypted_secret \<Rightarrow> u8 list option"
  envelope_of_json :: "u8 list \<Rightarrow> encrypted_secret option"
  scopes_json :: "str list \<Rightarrow> str option"
  scopes_of_json :: "str \<Rightarrow> str list option"
  utc_format :: "'t \<Rightarrow> str"
  utc_parse :: "str \<Rightarrow> 't option"
  utc_writable :: "'t \<Rightarrow> bool"

text \<open>
  What serde and chrono promise: what they wrote they read back, an instant if its year has the
  four digits RFC 3339 wants (\<open>utc_writable\<close>).
\<close>

definition oauth_codec_ok :: "'t oauth_codec \<Rightarrow> bool" where
  "oauth_codec_ok J \<longleftrightarrow>
     (\<forall>e b. envelope_json J e = Some b \<longrightarrow> envelope_of_json J b = Some e)
   \<and> (\<forall>l s. scopes_json J l = Some s \<longrightarrow> scopes_of_json J s = Some l)
   \<and> (\<forall>t. utc_writable J t \<longrightarrow> utc_parse J (utc_format J t) = Some t)"

section \<open>Validation\<close>

definition validate_oauth_identity :: "str \<Rightarrow> string \<Rightarrow> str store_result" where
  "validate_oauth_identity v field =
     rbind (validate_non_empty v field) (\<lambda>v.
       if 58 \<in> set v then Inl (InvalidInput field) else Inr v)"

fun normalize_scopes_loop :: "str list \<Rightarrow> str list \<Rightarrow> str list store_result" where
  "normalize_scopes_loop [] normalized =
     (if normalized = [] then Inl (InvalidInput ''scopes'') else Inr normalized)"
| "normalize_scopes_loop (scope # scopes) normalized =
     (let scope = str_trim scope
      in if scope = [] then Inl (InvalidInput ''scopes'')
         else normalize_scopes_loop scopes (insort_insert scope normalized))"

definition normalize_scopes :: "str list \<Rightarrow> str list store_result" where
  "normalize_scopes scopes = normalize_scopes_loop scopes []"

definition validate_and_normalize :: "'t oauth_credential \<Rightarrow> 't oauth_credential store_result" where
  "validate_and_normalize c =
     rbind (validate_oauth_identity (oc_provider c) ''provider'') (\<lambda>provider.
     rbind (validate_oauth_identity (oc_account_id c) ''account_id'') (\<lambda>account_id.
     if str_trim (oc_access_token c) = [] then Inl (InvalidInput ''access_token'')
     else if (case oc_refresh_token c of None \<Rightarrow> False | Some r \<Rightarrow> str_trim r = [])
       then Inl (InvalidInput ''refresh_token'')
     else rbind (normalize_scopes (oc_scopes c)) (\<lambda>scopes.
       Inr (c\<lparr>oc_provider := provider, oc_account_id := account_id, oc_scopes := scopes\<rparr>))))"

definition oauth_credential_new ::
    "str \<Rightarrow> str \<Rightarrow> str \<Rightarrow> str option \<Rightarrow> 't option \<Rightarrow> str list \<Rightarrow> 't oauth_credential store_result" where
  "oauth_credential_new provider account_id access_token refresh_token expires_at scopes =
     validate_and_normalize \<lparr>oc_provider = provider, oc_account_id = account_id,
       oc_access_token = access_token, oc_refresh_token = refresh_token,
       oc_expires_at = expires_at, oc_scopes = scopes\<rparr>"

definition oauth_context :: "str \<Rightarrow> str \<Rightarrow> str \<Rightarrow> str" where
  "oauth_context provider account_id token_kind =
     lit ''oauth:'' @ provider @ lit '':'' @ account_id @ lit '':'' @ token_kind"

section \<open>Operations\<close>

definition serialize_envelope :: "'t oauth_codec \<Rightarrow> encrypted_secret \<Rightarrow> u8 list store_result" where
  "serialize_envelope J e = ok_or StoredValueInvalid (envelope_json J e)"

definition deserialize_envelope :: "'t oauth_codec \<Rightarrow> u8 list \<Rightarrow> encrypted_secret store_result" where
  "deserialize_envelope J b = ok_or StoredValueInvalid (envelope_of_json J b)"

text \<open>One token of an account, on its way into a column and back.\<close>

definition seal_token ::
    "sealer \<Rightarrow> 't oauth_codec \<Rightarrow> token_cipher \<Rightarrow> u8 list option \<Rightarrow> str \<Rightarrow> str \<Rightarrow> str \<Rightarrow> str \<Rightarrow> u8 list store_result" where
  "seal_token A J tc rnd token provider account_id kind =
     rbind (map_err Crypto (encrypt A tc rnd (str_bytes token)
              (str_bytes (oauth_context provider account_id kind))))
       (serialize_envelope J)"

definition open_token ::
    "sealer \<Rightarrow> 't oauth_codec \<Rightarrow> token_cipher \<Rightarrow> u8 list \<Rightarrow> str \<Rightarrow> str \<Rightarrow> str \<Rightarrow> str store_result" where
  "open_token A J tc column provider account_id kind =
     rbind (deserialize_envelope J column) (\<lambda>envelope.
     rbind (map_err Crypto (decrypt A tc envelope
              (str_bytes (oauth_context provider account_id kind)))) (\<lambda>token.
     ok_or StoredValueInvalid (from_utf8 token)))"

definition oauth_key :: "oauth_row \<Rightarrow> str \<times> str" where
  "oauth_key r = (oa_provider r, oa_account_id r)"

definition find_oauth :: "str \<Rightarrow> str \<Rightarrow> oauth_row list \<Rightarrow> oauth_row option" where
  "find_oauth provider account_id rows = find (\<lambda>r. oauth_key r = (provider, account_id)) rows"

text \<open>
  \<open>INSERT ... ON CONFLICT(provider, account_id) DO UPDATE\<close>: \<open>refresh old new\<close> is the value the
  update gives the column \<open>refresh_token_ciphertext\<close>.
\<close>

definition upsert_oauth ::
    "(u8 list option \<Rightarrow> u8 list option \<Rightarrow> u8 list option) \<Rightarrow> oauth_row \<Rightarrow> oauth_row list \<Rightarrow> oauth_row list" where
  "upsert_oauth refresh row rows =
     (if find_oauth (oa_provider row) (oa_account_id row) rows = None then rows @ [row]
      else update_rows (\<lambda>r. oauth_key r = oauth_key row)
        (\<lambda>r. r\<lparr>oa_access := oa_access row, oa_refresh := refresh (oa_refresh r) (oa_refresh row),
               oa_expires_at := oa_expires_at row, oa_scopes := oa_scopes row,
               oa_updated_at := oa_updated_at row\<rparr>) rows)"

definition save_oauth_credential ::
    "sealer \<Rightarrow> 't oauth_codec \<Rightarrow> token_cipher \<Rightarrow> u8 list option \<Rightarrow> u8 list option \<Rightarrow> str \<Rightarrow>
     't oauth_credential \<Rightarrow> oauth_row list \<Rightarrow> oauth_row list \<times> unit store_result" where
  "save_oauth_credential A J tc rnd1 rnd2 clk credential =
     run_tx (\<lambda>rows.
       rbind (validate_and_normalize credential) (\<lambda>c.
       rbind (seal_token A J tc rnd1 (oc_access_token c) (oc_provider c) (oc_account_id c) (lit ''access''))
         (\<lambda>access.
       rbind (transpose (map_option (\<lambda>refresh.
                seal_token A J tc rnd2 refresh (oc_provider c) (oc_account_id c) (lit ''refresh''))
                (oc_refresh_token c))) (\<lambda>refresh.
       rbind (ok_or StoredValueInvalid (scopes_json J (oc_scopes c))) (\<lambda>scopes.
       Inr (upsert_oauth (\<lambda>old new. new)
         \<lparr>oa_provider = oc_provider c, oa_account_id = oc_account_id c, oa_access = Some access,
          oa_refresh = refresh, oa_expires_at = map_option (utc_format J) (oc_expires_at c),
          oa_scopes = Some scopes, oa_created_at = clk, oa_updated_at = clk\<rparr> rows, ()))))))"

definition update_oauth_tokens ::
    "sealer \<Rightarrow> 't oauth_codec \<Rightarrow> token_cipher \<Rightarrow> u8 list option \<Rightarrow> u8 list option \<Rightarrow> str \<Rightarrow>
     str \<Rightarrow> str \<Rightarrow> str \<Rightarrow> str option \<Rightarrow> 't \<Rightarrow> str list \<Rightarrow>
     oauth_row list \<Rightarrow> oauth_row list \<times> unit store_result" where
  "update_oauth_tokens A J tc rnd1 rnd2 clk provider account_id access_token refresh_token expires_at scopes =
     run_tx (\<lambda>rows.
       rbind (validate_oauth_identity provider ''provider'') (\<lambda>provider.
       rbind (validate_oauth_identity account_id ''account_id'') (\<lambda>account_id.
       if str_trim access_token = [] then Inl (InvalidInput ''access_token'')
       else if (case refresh_token of None \<Rightarrow> False | Some r \<Rightarrow> str_trim r = [])
         then Inl (InvalidInput ''refresh_token'')
       else rbind (normalize_scopes scopes) (\<lambda>scopes.
       rbind (ok_or StoredValueInvalid (scopes_json J scopes)) (\<lambda>scopes.
       rbind (seal_token A J tc rnd1 access_token provider account_id (lit ''access'')) (\<lambda>access.
       rbind (case refresh_token of
                Some refresh \<Rightarrow> rbind (seal_token A J tc rnd2 refresh provider account_id (lit ''refresh''))
                                  (\<lambda>ct. Inr (Some ct))
              | None \<Rightarrow> Inr (Option.bind (find_oauth provider account_id rows) oa_refresh)) (\<lambda>refresh.
       Inr (upsert_oauth (\<lambda>old new. if new = None then old else new)
         \<lparr>oa_provider = provider, oa_account_id = account_id, oa_access = Some access,
          oa_refresh = refresh, oa_expires_at = Some (utc_format J expires_at),
          oa_scopes = Some scopes, oa_created_at = clk, oa_updated_at = clk\<rparr> rows, ()))))))))"

definition load_oauth_credential ::
    "sealer \<Rightarrow> 't oauth_codec \<Rightarrow> token_cipher \<Rightarrow> str \<Rightarrow> str \<Rightarrow> oauth_row list \<Rightarrow>
     't oauth_credential store_result" where
  "load_oauth_credential A J tc provider account_id rows =
     rbind (validate_oauth_identity provider ''provider'') (\<lambda>provider.
     rbind (validate_oauth_identity account_id ''account_id'') (\<lambda>account_id.
     rbind (ok_or (NotFound ''oauth credential'') (find_oauth provider account_id rows)) (\<lambda>row.
     rbind (ok_or SqliteError (oa_access row)) (\<lambda>access.
     rbind (ok_or SqliteError (oa_scopes row)) (\<lambda>scopes_text.
     rbind (open_token A J tc access provider account_id (lit ''access'')) (\<lambda>access_token.
     rbind (transpose (map_option (\<lambda>column.
              open_token A J tc column provider account_id (lit ''refresh'')) (oa_refresh row))) (\<lambda>refresh_token.
     rbind (transpose (map_option (\<lambda>text. ok_or StoredValueInvalid (utc_parse J text)) (oa_expires_at row)))
       (\<lambda>expires_at.
     rbind (ok_or StoredValueInvalid (scopes_of_json J scopes_text)) (\<lambda>scopes.
     oauth_credential_new provider account_id access_token refresh_token expires_at scopes)))))))))"

definition delete_oauth_credential ::
    "str \<Rightarrow> str \<Rightarrow> oauth_row list \<Rightarrow> oauth_row list \<times> unit store_result" where
  "delete_oauth_credential provider account_id rows =
     (case rbind (validate_oauth_identity provider ''provider'') (\<lambda>provider.
           rbind (validate_oauth_identity account_id ''account_id'') (\<lambda>account_id.
           Inr (provider, account_id))) of
        Inl e \<Rightarrow> (rows, Inl e)
      | Inr key \<Rightarrow>
          (let kept = filter (\<lambda>r. oauth_key r \<noteq> key) rows
           in (kept, if length kept = length rows then Inl (NotFound ''oauth credential'') else Inr ())))"

section \<open>Closed forms\<close>

definition oauth_id :: "str \<Rightarrow> bool" where
  "oauth_id s \<longleftrightarrow> str_trim s \<noteq> [] \<and> 58 \<notin> set s"

definition scopes_ok :: "str list \<Rightarrow> bool" where
  "scopes_ok scopes \<longleftrightarrow> scopes \<noteq> [] \<and> (\<forall>s \<in> set scopes. str_trim s \<noteq> [])"

definition scope_set :: "str list \<Rightarrow> str list" where
  "scope_set scopes = sorted_list_of_set (str_trim ` set scopes)"

definition credential_ok :: "'t oauth_credential \<Rightarrow> bool" where
  "credential_ok c \<longleftrightarrow> oauth_id (oc_provider c) \<and> oauth_id (oc_account_id c)
     \<and> str_trim (oc_access_token c) \<noteq> [] \<and> (\<forall>r. oc_refresh_token c = Some r \<longrightarrow> str_trim r \<noteq> [])
     \<and> scopes_ok (oc_scopes c)"

definition with_scope_set :: "'t oauth_credential \<Rightarrow> 't oauth_credential" where
  "with_scope_set c = c\<lparr>oc_scopes := scope_set (oc_scopes c)\<rparr>"

lemma validate_oauth_identity_eq:
  "validate_oauth_identity v f = (if oauth_id v then Inr v else Inl (InvalidInput f))"
  by (simp add: validate_oauth_identity_def validate_non_empty_def oauth_id_def)

lemma insert_scope:
  assumes "sorted xs" "distinct xs"
  shows "insort_insert x xs = sorted_list_of_set (insert x (set xs))"
  using assms sorted_list_of_set.idem_if_sorted_distinct[of "insort_insert x xs"]
  by (simp add: sorted_insort_insert distinct_insort_insert set_insort_insert)

lemma normalize_scopes_loop_eq:
  assumes "sorted acc" "distinct acc"
  shows "normalize_scopes_loop scopes acc =
     (if (scopes = [] \<and> acc = []) \<or> (\<exists>s \<in> set scopes. str_trim s = [])
      then Inl (InvalidInput ''scopes'') else Inr (sorted_list_of_set (set acc \<union> str_trim ` set scopes)))"
  using assms
proof (induction scopes arbitrary: acc)
  case Nil
  then show ?case by (simp add: sorted_list_of_set.idem_if_sorted_distinct)
next
  case (Cons s scopes)
  have "insort_insert (str_trim s) acc \<noteq> []" using set_insort_insert[of "str_trim s" acc] by force
  then show ?case using Cons
    by (simp add: sorted_insort_insert distinct_insort_insert set_insort_insert Let_def Un_commute insert_commute)
qed

lemma normalize_scopes_eq:
  "normalize_scopes scopes = (if scopes_ok scopes then Inr (scope_set scopes) else Inl (InvalidInput ''scopes''))"
  by (simp add: normalize_scopes_def normalize_scopes_loop_eq scopes_ok_def scope_set_def)

lemma set_scope_set [simp]: "set (scope_set scopes) = str_trim ` set scopes"
  by (simp add: scope_set_def)

lemma scope_set_idem: "scope_set (scope_set scopes) = scope_set scopes"
proof -
  have "str_trim ` str_trim ` set scopes = str_trim ` set scopes" by (simp add: image_image)
  then show ?thesis by (simp add: scope_set_def[of "scope_set scopes"]) (simp add: scope_set_def)
qed

lemma scopes_ok_scope_set: "scopes_ok scopes \<Longrightarrow> scopes_ok (scope_set scopes)"
proof -
  assume ok: "scopes_ok scopes"
  then have "set (scope_set scopes) \<noteq> {}" unfolding set_scope_set by (simp add: scopes_ok_def)
  then have "scope_set scopes \<noteq> []" by fastforce
  then show ?thesis using ok by (auto simp: scopes_ok_def)
qed

lemma validate_and_normalize_ok:
  "credential_ok c \<Longrightarrow> validate_and_normalize c = Inr (with_scope_set c)"
  by (cases c) (auto simp: validate_and_normalize_def credential_ok_def with_scope_set_def
      validate_oauth_identity_eq normalize_scopes_eq split: option.splits)

lemma validate_and_normalize_Inr:
  "validate_and_normalize c = Inr d \<longleftrightarrow> credential_ok c \<and> d = with_scope_set c"
  using validate_and_normalize_ok[of c]
  by (auto simp: validate_and_normalize_def credential_ok_def rbind_Inr_iff
      validate_oauth_identity_eq normalize_scopes_eq split: option.splits if_splits)

lemma with_scope_set_ok: "credential_ok c \<Longrightarrow> credential_ok (with_scope_set c)"
  by (simp add: credential_ok_def with_scope_set_def scopes_ok_scope_set)

text \<open>The context determines provider, account and kind of token, because no identity has a colon.\<close>

lemma colon_split:
  assumes "58 \<notin> set p" "58 \<notin> set p'" "p @ 58 # r = p' @ 58 # r'"
  shows "p = p' \<and> r = (r' :: str)"
  using assms by (auto simp: append_eq_append_conv2 append_eq_Cons_conv Cons_eq_append_conv)

lemma oauth_context_inj:
  assumes "oauth_id p" "oauth_id a" "oauth_id p'" "oauth_id a'"
    and "oauth_context p a k = oauth_context p' a' k'"
  shows "p = p' \<and> a = a' \<and> k = k'"
proof -
  have "p @ 58 # (a @ 58 # k) = p' @ 58 # (a' @ 58 # k')"
    using assms(5) by (simp add: oauth_context_def)
  then have "p = p'" "a @ 58 # k = a' @ 58 # k'" using colon_split assms by (auto simp: oauth_id_def)
  then show ?thesis using colon_split assms by (auto simp: oauth_id_def)
qed

text \<open>Rust strings hold Unicode scalar values only.\<close>

definition rust_str :: "str \<Rightarrow> bool" where
  "rust_str s \<longleftrightarrow> list_all is_scalar s"

lemma str_bytes_inj: "rust_str s \<Longrightarrow> rust_str t \<Longrightarrow> str_bytes s = str_bytes t \<Longrightarrow> s = t"
  using from_utf8_str_bytes by (metis option.inject rust_str_def)

lemma str_bytes_empty [simp]: "str_bytes s = [] \<longleftrightarrow> s = []"
  by (cases s) (simp_all add: str_bytes_def)

definition token_kinds :: "str set" where
  "token_kinds = {lit ''access'', lit ''refresh''}"

lemma rust_str_append: "rust_str (s @ t) \<longleftrightarrow> rust_str s \<and> rust_str t"
  by (simp add: rust_str_def)

lemma rust_lits:
  "rust_str (lit ''oauth:'')" "rust_str (lit '':'')" "rust_str (lit ''access'')" "rust_str (lit ''refresh'')"
  by (simp_all add: rust_str_def is_scalar_def)

lemma rust_str_context:
  assumes "rust_str p" "rust_str a" "k \<in> token_kinds"
  shows "rust_str (oauth_context p a k)"
proof -
  have k: "rust_str k" using assms(3) rust_lits unfolding token_kinds_def by blast
  show ?thesis unfolding oauth_context_def using assms(1,2) k rust_lits by (simp only: rust_str_append)
qed

lemma oauth_context_bytes:
  assumes "oauth_id p" "oauth_id a" "oauth_id p'" "oauth_id a'" "rust_str p" "rust_str a" "rust_str p'" "rust_str a'"
    and "k \<in> token_kinds" "k' \<in> token_kinds"
  shows "str_bytes (oauth_context p a k) = str_bytes (oauth_context p' a' k') \<longleftrightarrow> p = p' \<and> a = a' \<and> k = k'"
proof
  assume "str_bytes (oauth_context p a k) = str_bytes (oauth_context p' a' k')"
  then have "oauth_context p a k = oauth_context p' a' k'"
    using rust_str_context[OF assms(5,6,9)] rust_str_context[OF assms(7,8,10)] by (rule str_bytes_inj[rotated 2])
  then show "p = p' \<and> a = a' \<and> k = k'" by (rule oauth_context_inj[OF assms(1-4)])
qed simp

definition nonce_ok :: "u8 list option \<Rightarrow> bool" where
  "nonce_ok rnd \<longleftrightarrow> (\<forall>n. rnd = Some n \<longrightarrow> length n = NONCE_LEN)"

text \<open>A stored token opens at its own account and kind, and nowhere else.\<close>

lemma open_sealed_token:
  assumes "sealer_ok A" "oauth_codec_ok J" "nonce_ok rnd" "rust_str token"
    and ids: "oauth_id p" "oauth_id a" "oauth_id p'" "oauth_id a'" "rust_str p" "rust_str a" "rust_str p'" "rust_str a'"
    and k: "k \<in> token_kinds" "k' \<in> token_kinds"
    and sealed: "seal_token A J tc rnd token p a k = Inr ct"
  shows "open_token A J tc ct p' a' k' =
     (if p' = p \<and> a' = a \<and> k' = k then Inr token else Inl (Crypto DecryptionFailed))"
proof -
  obtain e where e: "encrypt A tc rnd (str_bytes token) (str_bytes (oauth_context p a k)) = Inr e"
      "envelope_json J e = Some ct"
    using sealed by (auto simp: seal_token_def rbind_Inr_iff serialize_envelope_def)
  then obtain n where n: "rnd = Some n" "length n = NONCE_LEN"
    using assms(3) by (auto simp: encrypt_Inr_iff nonce_ok_def)
  have reads: "envelope_of_json J ct = Some e" using assms(2) e(2) by (auto simp: oauth_codec_ok_def)
  show ?thesis
    using decrypt_encrypt[OF assms(1) n(2) e(1)[unfolded n(1)], of "str_bytes (oauth_context p' a' k')"]
      from_utf8_str_bytes[of token] assms(4) oauth_context_bytes[of p' a' p a k' k] ids k
    by (auto simp: open_token_def deserialize_envelope_def reads rust_str_def)
qed

section \<open>The table implements a map from accounts to credentials\<close>

text \<open>The abstract state: the credential of every account, the scopes as a sorted set.\<close>

type_synonym 't credentials = "str \<times> str \<Rightarrow> 't oauth_credential option"

definition credential_key :: "'t oauth_credential \<Rightarrow> str \<times> str" where
  "credential_key c = (oc_provider c, oc_account_id c)"

datatype 't oauth_op =
    SaveCredential "u8 list option" "u8 list option" str "'t oauth_credential"
  | UpdateTokens "u8 list option" "u8 list option" str str str str "str option" 't "str list"
  | DeleteCredential str str

fun oauth_step ::
    "sealer \<Rightarrow> 't oauth_codec \<Rightarrow> token_cipher \<Rightarrow> 't oauth_op \<Rightarrow> oauth_row list \<Rightarrow> oauth_row list \<times> unit store_result" where
  "oauth_step A J tc (SaveCredential r1 r2 clk c) = save_oauth_credential A J tc r1 r2 clk c"
| "oauth_step A J tc (UpdateTokens r1 r2 clk p a access refresh e scopes) =
     update_oauth_tokens A J tc r1 r2 clk p a access refresh e scopes"
| "oauth_step A J tc (DeleteCredential p a) = delete_oauth_credential p a"

text \<open>What an operation that succeeds does to the map.\<close>

fun credential_step :: "'t oauth_op \<Rightarrow> 't credentials \<Rightarrow> 't credentials" where
  "credential_step (SaveCredential r1 r2 clk c) m = m(credential_key c \<mapsto> with_scope_set c)"
| "credential_step (UpdateTokens r1 r2 clk p a access refresh e scopes) m =
     m((p, a) \<mapsto> \<lparr>oc_provider = p, oc_account_id = a, oc_access_token = access,
        oc_refresh_token = (case refresh of Some r \<Rightarrow> Some r
                            | None \<Rightarrow> Option.bind (m (p, a)) oc_refresh_token),
        oc_expires_at = Some e, oc_scopes = scope_set scopes\<rparr>)"
| "credential_step (DeleteCredential p a) m = m((p, a) := None)"

text \<open>A run of operations, with the map beside the table: an operation that fails leaves the map.\<close>

fun oauth_run ::
    "sealer \<Rightarrow> 't oauth_codec \<Rightarrow> token_cipher \<Rightarrow> 't oauth_op list \<Rightarrow> oauth_row list \<times> 't credentials \<Rightarrow>
     oauth_row list \<times> 't credentials" where
  "oauth_run A J tc [] s = s"
| "oauth_run A J tc (op # ops) s =
     (case oauth_step A J tc op (fst s) of (rows, r) \<Rightarrow>
        oauth_run A J tc ops (rows, if is_ok r then credential_step op (snd s) else snd s))"

text \<open>The inputs of the operations are Rust strings, random nonces of twelve bytes and dates of four-digit years.\<close>

definition credential_writable :: "'t oauth_codec \<Rightarrow> 't oauth_credential \<Rightarrow> bool" where
  "credential_writable J c \<longleftrightarrow> rust_str (oc_provider c) \<and> rust_str (oc_account_id c) \<and> rust_str (oc_access_token c)
     \<and> (\<forall>r. oc_refresh_token c = Some r \<longrightarrow> rust_str r)
     \<and> (\<forall>t. oc_expires_at c = Some t \<longrightarrow> utc_writable J t)"

fun oauth_op_ok :: "'t oauth_codec \<Rightarrow> 't oauth_op \<Rightarrow> bool" where
  "oauth_op_ok J (SaveCredential r1 r2 clk c) \<longleftrightarrow> nonce_ok r1 \<and> nonce_ok r2 \<and> credential_writable J c"
| "oauth_op_ok J (UpdateTokens r1 r2 clk p a access refresh e scopes) \<longleftrightarrow> nonce_ok r1 \<and> nonce_ok r2
     \<and> rust_str p \<and> rust_str a \<and> rust_str access \<and> (\<forall>r. refresh = Some r \<longrightarrow> rust_str r) \<and> utc_writable J e"
| "oauth_op_ok J (DeleteCredential p a) \<longleftrightarrow> True"

text \<open>A row holds a credential: its columns open and decode to it.\<close>

definition sealed_as ::
    "sealer \<Rightarrow> 't oauth_codec \<Rightarrow> token_cipher \<Rightarrow> u8 list \<Rightarrow> str \<Rightarrow> str \<Rightarrow> str \<Rightarrow> str \<Rightarrow> bool" where
  "sealed_as A J tc ct token p a k \<longleftrightarrow>
     (\<exists>rnd. nonce_ok rnd \<and> seal_token A J tc rnd token p a k = Inr ct) \<and> rust_str token"

definition row_holds ::
    "sealer \<Rightarrow> 't oauth_codec \<Rightarrow> token_cipher \<Rightarrow> oauth_row \<Rightarrow> 't oauth_credential \<Rightarrow> bool" where
  "row_holds A J tc r c \<longleftrightarrow>
     credential_ok c \<and> with_scope_set c = c \<and> credential_writable J c \<and> oauth_key r = credential_key c
   \<and> (\<exists>ct. oa_access r = Some ct \<and> sealed_as A J tc ct (oc_access_token c) (oc_provider c) (oc_account_id c) (lit ''access''))
   \<and> rel_option (\<lambda>ct t. sealed_as A J tc ct t (oc_provider c) (oc_account_id c) (lit ''refresh''))
       (oa_refresh r) (oc_refresh_token c)
   \<and> oa_expires_at r = map_option (utc_format J) (oc_expires_at c)
   \<and> (\<exists>s. oa_scopes r = Some s \<and> scopes_json J (oc_scopes c) = Some s)"

definition table_holds ::
    "sealer \<Rightarrow> 't oauth_codec \<Rightarrow> token_cipher \<Rightarrow> oauth_row list \<Rightarrow> 't credentials \<Rightarrow> bool" where
  "table_holds A J tc rows m \<longleftrightarrow> distinct (map oauth_key rows)
     \<and> (\<forall>p a. rel_option (row_holds A J tc) (find_oauth p a rows) (m (p, a)))"

lemma load_row:
  assumes A: "sealer_ok A" and J: "oauth_codec_ok J" and row: "row_holds A J tc r c"
    and found: "find_oauth (oc_provider c) (oc_account_id c) rows = Some r"
  shows "load_oauth_credential A J tc (oc_provider c) (oc_account_id c) rows = Inr c"
proof -
  let ?p = "oc_provider c" let ?a = "oc_account_id c"
  have ok: "credential_ok c" "oauth_id ?p" "oauth_id ?a" "rust_str ?p" "rust_str ?a" "with_scope_set c = c"
    using row by (auto simp: row_holds_def credential_ok_def credential_writable_def)
  have opens: "open_token A J tc ct ?p ?a k = Inr t" if "sealed_as A J tc ct t ?p ?a k" "k \<in> token_kinds" for ct t k
    using that open_sealed_token[OF A J] ok unfolding sealed_as_def by auto
  obtain ct s where cols: "oa_access r = Some ct" "sealed_as A J tc ct (oc_access_token c) ?p ?a (lit ''access'')"
      "oa_scopes r = Some s" "scopes_json J (oc_scopes c) = Some s"
    using row by (auto simp: row_holds_def)
  have access: "open_token A J tc ct ?p ?a (lit ''access'') = Inr (oc_access_token c)"
    by (rule opens[OF cols(2)]) (simp add: token_kinds_def del: lit_simps)
  have refresh: "transpose (map_option (\<lambda>column. open_token A J tc column ?p ?a (lit ''refresh'')) (oa_refresh r))
      = Inr (oc_refresh_token c)"
  proof (cases "oc_refresh_token c")
    case None
    then show ?thesis using row by (auto simp: row_holds_def)
  next
    case (Some t)
    then obtain d where "oa_refresh r = Some d" "sealed_as A J tc d t ?p ?a (lit ''refresh'')"
      using row by (auto simp: row_holds_def option_rel_Some2)
    then show ?thesis using Some opens[of d t "lit ''refresh''"] by (simp add: token_kinds_def del: lit_simps)
  qed
  have expires: "transpose (map_option (\<lambda>text. ok_or StoredValueInvalid (utc_parse J text)) (oa_expires_at r))
      = Inr (oc_expires_at c)"
    using row J by (cases "oc_expires_at c") (auto simp: row_holds_def credential_writable_def oauth_codec_ok_def)
  have scopes: "scopes_of_json J s = Some (oc_scopes c)" using J cols(4) by (auto simp: oauth_codec_ok_def)
  have same: "\<lparr>oc_provider = oc_provider c, oc_account_id = oc_account_id c, oc_access_token = oc_access_token c,
      oc_refresh_token = oc_refresh_token c, oc_expires_at = oc_expires_at c, oc_scopes = oc_scopes c\<rparr> = c" by simp
  show ?thesis
    using validate_and_normalize_ok[OF ok(1)] ok(2,3,6)
    by (simp add: load_oauth_credential_def validate_oauth_identity_eq found cols(1,3) access refresh expires scopes
        oauth_credential_new_def same del: lit_simps)
qed

lemma load_missing:
  "oauth_id p \<Longrightarrow> oauth_id a \<Longrightarrow> find_oauth p a rows = None \<Longrightarrow>
   load_oauth_credential A J tc p a rows = Inl (NotFound ''oauth credential'')"
  by (simp add: load_oauth_credential_def validate_oauth_identity_eq)

lemma find_oauth_key: "find_oauth p a rows = Some r \<Longrightarrow> r \<in> set rows \<and> oauth_key r = (p, a)"
  by (auto simp: find_oauth_def dest: find_Some_mem)

lemma load_table:
  assumes "sealer_ok A" "oauth_codec_ok J" "table_holds A J tc rows m" "oauth_id p" "oauth_id a"
  shows "load_oauth_credential A J tc p a rows =
     (case m (p, a) of None \<Rightarrow> Inl (NotFound ''oauth credential'') | Some c \<Rightarrow> Inr c)"
proof (cases "m (p, a)")
  case None
  then have "find_oauth p a rows = None" using assms(3) by (metis option_rel_Some1 option.exhaust option.distinct(1) table_holds_def)
  then show ?thesis using load_missing assms(4,5) None by simp
next
  case (Some c)
  then obtain r where r: "find_oauth p a rows = Some r" "row_holds A J tc r c"
    using assms(3) unfolding table_holds_def by (metis option_rel_Some2)
  then have "oc_provider c = p" "oc_account_id c = a"
    using find_oauth_key[OF r(1)] by (auto simp: row_holds_def credential_key_def)
  then show ?thesis using load_row[OF assms(1,2) r(2)] r(1) Some by simp
qed

text \<open>The upsert changes exactly the row of its key.\<close>

lemma find_oauth_upsert:
  "find_oauth p a (upsert_oauth f row rows) =
     (if (p, a) = oauth_key row
      then Some (case find_oauth p a rows of None \<Rightarrow> row
           | Some r \<Rightarrow> r\<lparr>oa_access := oa_access row, oa_refresh := f (oa_refresh r) (oa_refresh row),
               oa_expires_at := oa_expires_at row, oa_scopes := oa_scopes row, oa_updated_at := oa_updated_at row\<rparr>)
      else find_oauth p a rows)"
proof (cases "find_oauth (oa_provider row) (oa_account_id row) rows")
  case None
  have app: "find P (xs @ [x]) = (case find P xs of None \<Rightarrow> if P x then Some x else None | Some y \<Rightarrow> Some y)"
    for P and xs :: "oauth_row list" and x
    by (induction xs) auto
  show ?thesis using None
    by (auto simp: upsert_oauth_def find_oauth_def app oauth_key_def split: option.splits)
next
  case (Some r0)
  let ?g = "\<lambda>r. r\<lparr>oa_access := oa_access row, oa_refresh := f (oa_refresh r) (oa_refresh row),
               oa_expires_at := oa_expires_at row, oa_scopes := oa_scopes row, oa_updated_at := oa_updated_at row\<rparr>"
  have upd: "find_oauth p a (update_rows (\<lambda>r. oauth_key r = oauth_key row) ?g rows)
      = map_option (\<lambda>r. if oauth_key r = oauth_key row then ?g r else r) (find_oauth p a rows)"
    unfolding find_oauth_def by (rule find_update_rows) (simp add: oauth_key_def)
  have ups: "upsert_oauth f row rows = update_rows (\<lambda>r. oauth_key r = oauth_key row) ?g rows"
    using Some by (simp add: upsert_oauth_def)
  show ?thesis
  proof (cases "(p, a) = oauth_key row")
    case True
    then have "p = oa_provider row" "a = oa_account_id row" by (simp_all add: oauth_key_def)
    then have f: "find_oauth p a rows = Some r0" using Some by simp
    have "oauth_key r0 = oauth_key row" using find_oauth_key[OF f] True by simp
    then show ?thesis using f True unfolding ups upd by simp
  next
    case False
    then show ?thesis unfolding ups upd
      by (cases "find_oauth p a rows") (auto dest: find_oauth_key)
  qed
qed

lemma upsert_keys:
  "distinct (map oauth_key rows) \<Longrightarrow> distinct (map oauth_key (upsert_oauth f row rows))"
proof (cases "find_oauth (oa_provider row) (oa_account_id row) rows")
  case None
  then show "distinct (map oauth_key rows) \<Longrightarrow> ?thesis"
    by (auto simp: upsert_oauth_def find_oauth_def find_None_iff oauth_key_def)
next
  case (Some r)
  have "map oauth_key (upsert_oauth f row rows) = map oauth_key rows"
    using Some by (auto simp: upsert_oauth_def update_rows_def oauth_key_def)
  then show "distinct (map oauth_key rows) \<Longrightarrow> ?thesis" by simp
qed

lemma table_upsert:
  assumes "table_holds A J tc rows m" "oauth_key row = credential_key c"
    and "row_holds A J tc (case find_oauth (oa_provider row) (oa_account_id row) rows of None \<Rightarrow> row
           | Some r \<Rightarrow> r\<lparr>oa_access := oa_access row, oa_refresh := f (oa_refresh r) (oa_refresh row),
               oa_expires_at := oa_expires_at row, oa_scopes := oa_scopes row, oa_updated_at := oa_updated_at row\<rparr>) c"
  shows "table_holds A J tc (upsert_oauth f row rows) (m(credential_key c \<mapsto> c))"
proof -
  have key: "credential_key c = (oa_provider row, oa_account_id row)"
    using assms(2) by (simp add: oauth_key_def)
  have "rel_option (row_holds A J tc) (find_oauth p a (upsert_oauth f row rows)) ((m(credential_key c \<mapsto> c)) (p, a))"
    for p a
    using assms(1,3) unfolding find_oauth_upsert assms(2) key table_holds_def by auto
  then show ?thesis using assms(1) upsert_keys[of rows f row] by (simp add: table_holds_def)
qed
lemma saved_row_holds:
  assumes "credential_ok c" "credential_writable J c" "nonce_ok rnd1" "nonce_ok rnd2"
    and d: "d = with_scope_set c"
    and "seal_token A J tc rnd1 (oc_access_token d) (oc_provider d) (oc_account_id d) (lit ''access'') = Inr access"
    and "transpose (map_option (\<lambda>refresh.
           seal_token A J tc rnd2 refresh (oc_provider d) (oc_account_id d) (lit ''refresh'')) (oc_refresh_token d)) = Inr refresh"
    and "scopes_json J (oc_scopes d) = Some scopes"
    and "oauth_key r = credential_key c" "oa_access r = Some access" "oa_refresh r = refresh"
      "oa_expires_at r = map_option (utc_format J) (oc_expires_at d)" "oa_scopes r = Some scopes"
  shows "row_holds A J tc r d"
proof -
  have ok: "credential_ok d" "with_scope_set d = d" "credential_writable J d" "credential_key d = credential_key c"
    using assms(1,2) with_scope_set_ok d
    by (auto simp: with_scope_set_def credential_writable_def credential_key_def scope_set_idem)
  have "sealed_as A J tc access (oc_access_token d) (oc_provider d) (oc_account_id d) (lit ''access'')"
    using assms(3,6) ok(3) by (auto simp: sealed_as_def credential_writable_def)
  moreover have "rel_option (\<lambda>ct t. sealed_as A J tc ct t (oc_provider d) (oc_account_id d) (lit ''refresh''))
      refresh (oc_refresh_token d)"
    using assms(4,7) ok(3) by (auto simp: transpose_Inr_iff sealed_as_def credential_writable_def)
  ultimately show ?thesis using ok assms(8-13) by (auto simp: row_holds_def)
qed

lemma save_holds:
  assumes "table_holds A J tc rows m" "oauth_op_ok J (SaveCredential r1 r2 clk c)"
    and "save_oauth_credential A J tc r1 r2 clk c rows = (rows', Inr ())"
  shows "table_holds A J tc rows' (m(credential_key c \<mapsto> with_scope_set c))"
proof -
  let ?d = "with_scope_set c"
  obtain access refresh scopes where s: "credential_ok c"
      "seal_token A J tc r1 (oc_access_token ?d) (oc_provider ?d) (oc_account_id ?d) (lit ''access'') = Inr access"
      "transpose (map_option (\<lambda>refresh.
           seal_token A J tc r2 refresh (oc_provider ?d) (oc_account_id ?d) (lit ''refresh'')) (oc_refresh_token ?d)) = Inr refresh"
      "scopes_json J (oc_scopes ?d) = Some scopes"
    and rows': "rows' = upsert_oauth (\<lambda>old new. new)
         \<lparr>oa_provider = oc_provider ?d, oa_account_id = oc_account_id ?d, oa_access = Some access,
          oa_refresh = refresh, oa_expires_at = map_option (utc_format J) (oc_expires_at ?d),
          oa_scopes = Some scopes, oa_created_at = clk, oa_updated_at = clk\<rparr> rows"
    using assms(3) unfolding save_oauth_credential_def run_tx_Inr
    by (auto simp only: rbind_Inr_iff validate_and_normalize_Inr ok_or_simps sum.inject prod.inject)
  have n: "credential_writable J c" "nonce_ok r1" "nonce_ok r2" using assms(2) by simp_all
  have key: "credential_key ?d = credential_key c" "oc_provider ?d = oc_provider c" "oc_account_id ?d = oc_account_id c"
    by (simp_all add: with_scope_set_def credential_key_def)
  note holds = saved_row_holds[OF s(1) n refl s(2-4)]
  show ?thesis unfolding rows' key(1)[symmetric]
    by (rule table_upsert[OF assms(1)])
      (auto simp: oauth_key_def credential_key_def key(2,3) intro!: holds dest!: find_oauth_key split: option.splits)
qed

lemma update_holds:
  assumes "table_holds A J tc rows m" "oauth_op_ok J (UpdateTokens r1 r2 clk p a access refresh e scopes)"
    and run: "update_oauth_tokens A J tc r1 r2 clk p a access refresh e scopes rows = (rows', Inr ())"
  shows "table_holds A J tc rows' (credential_step (UpdateTokens r1 r2 clk p a access refresh e scopes) m)"
proof -
  define old where "old = Option.bind (m (p, a)) oc_refresh_token"
  define c where "c = \<lparr>oc_provider = p, oc_account_id = a, oc_access_token = access,
      oc_refresh_token = (case refresh of Some r \<Rightarrow> Some r | None \<Rightarrow> old),
      oc_expires_at = Some e, oc_scopes = scope_set scopes\<rparr>"
  have ids: "oauth_id p" "oauth_id a" "str_trim access \<noteq> []" "scopes_ok scopes"
      "(case refresh of None \<Rightarrow> False | Some r \<Rightarrow> str_trim r = []) = False"
    using run unfolding update_oauth_tokens_def run_tx_Inr
    by (auto simp: rbind_Inr_iff validate_oauth_identity_eq normalize_scopes_eq simp del: lit_simps
        split: if_splits)
  obtain ct rt s where
      cols: "seal_token A J tc r1 access p a (lit ''access'') = Inr ct"
      "(case refresh of Some refresh \<Rightarrow> rbind (seal_token A J tc r2 refresh p a (lit ''refresh'')) (\<lambda>ct. Inr (Some ct))
        | None \<Rightarrow> Inr (Option.bind (find_oauth p a rows) oa_refresh)) = Inr rt"
      "scopes_json J (scope_set scopes) = Some s"
    and rows': "rows' = upsert_oauth (\<lambda>old new. if new = None then old else new)
         \<lparr>oa_provider = p, oa_account_id = a, oa_access = Some ct, oa_refresh = rt,
          oa_expires_at = Some (utc_format J e), oa_scopes = Some s, oa_created_at = clk, oa_updated_at = clk\<rparr> rows"
    using run ids unfolding update_oauth_tokens_def run_tx_Inr
    by (auto simp: rbind_Inr_iff validate_oauth_identity_eq normalize_scopes_eq simp del: lit_simps)
  have old_row: "rel_option (row_holds A J tc) (find_oauth p a rows) (m (p, a))"
    using assms(1) by (simp add: table_holds_def)
  have inputs: "nonce_ok r1" "nonce_ok r2" "rust_str p" "rust_str a" "rust_str access" "utc_writable J e"
      "\<forall>r. refresh = Some r \<longrightarrow> rust_str r" using assms(2) by simp_all
  have old_ok: "str_trim t \<noteq> [] \<and> rust_str t" if "old = Some t" for t
    using that old_row unfolding old_def
    by (cases "m (p, a)") (auto simp: option_rel_Some2 row_holds_def credential_ok_def credential_writable_def)
  have old_sealed: "rel_option (\<lambda>ct t. sealed_as A J tc ct t p a (lit ''refresh''))
      (Option.bind (find_oauth p a rows) oa_refresh) old"
    using old_row find_oauth_key unfolding old_def
    by (cases "m (p, a)") (auto simp: option_rel_Some2 row_holds_def credential_key_def simp del: lit_simps)
  have new_sealed: "rel_option (\<lambda>ct t. sealed_as A J tc ct t p a (lit ''refresh'')) rt (oc_refresh_token c)"
    using cols(2) old_sealed inputs(2,7)
    by (cases refresh) (auto simp: c_def rbind_Inr_iff sealed_as_def simp del: lit_simps)
  have c_ok: "credential_ok c" "with_scope_set c = c" "credential_writable J c" "credential_key c = (p, a)"
    using ids old_ok inputs
    by (auto simp: c_def credential_ok_def with_scope_set_def credential_writable_def credential_key_def
        scope_set_idem scopes_ok_scope_set split: option.splits)
  have access: "sealed_as A J tc ct access p a (lit ''access'')"
    using cols(1) inputs by (auto simp: sealed_as_def)
  have holds: "row_holds A J tc r c"
    if "oauth_key r = (p, a)" "oa_access r = Some ct" "oa_refresh r = rt"
      "oa_expires_at r = Some (utc_format J e)" "oa_scopes r = Some s" for r
    using that c_ok access new_sealed cols(3) by (auto simp: row_holds_def c_def simp del: lit_simps)
  have kept: "rt = None \<Longrightarrow> find_oauth p a rows = Some r \<Longrightarrow> oa_refresh r = None" for r
    using cols(2) by (cases refresh) (auto simp: rbind_Inr_iff)
  have "table_holds A J tc rows' (m(credential_key c \<mapsto> c))"
    unfolding rows'
    by (rule table_upsert[OF assms(1)])
      (use kept find_oauth_key in \<open>force simp: oauth_key_def c_ok(4) intro!: holds split: option.splits\<close>)+
  then show ?thesis by (simp add: c_def old_def credential_key_def split: option.split_asm option.split)
qed

lemma delete_run:
  assumes "delete_oauth_credential p a rows = (rows', r)"
  shows "r = Inr () \<Longrightarrow> rows' = filter (\<lambda>x. oauth_key x \<noteq> (p, a)) rows"
    and "r = Inl e \<Longrightarrow> rows' = rows"
proof -
  have "filter P xs = xs" if "length (filter P xs) = length xs" for P and xs :: "oauth_row list"
    using that by (metis filter_True length_filter_less less_irrefl)
  then show "r = Inr () \<Longrightarrow> rows' = filter (\<lambda>x. oauth_key x \<noteq> (p, a)) rows"
    and "r = Inl e \<Longrightarrow> rows' = rows"
    using assms
    by (auto simp: delete_oauth_credential_def validate_oauth_identity_eq Let_def split: if_splits)
qed

lemma find_filter_key:
  "find (\<lambda>r. k r = i) (filter (\<lambda>r. k r \<noteq> j) rows) = (if i = j then None else find (\<lambda>r. k r = i) rows)"
  by (induction rows) (auto simp: find_None_iff)

lemma delete_holds:
  assumes "table_holds A J tc rows m" "delete_oauth_credential p a rows = (rows', Inr ())"
  shows "table_holds A J tc rows' (m((p, a) := None))"
  using assms(1) delete_run(1)[OF assms(2) refl]
  by (auto simp: table_holds_def find_oauth_def find_filter_key distinct_map_filter)

lemma oauth_error_keeps:
  assumes "oauth_step A J tc op rows = (rows', Inl e)" shows "rows' = rows"
  using assms delete_run(2) by (cases op) (auto simp: save_oauth_credential_def update_oauth_tokens_def)

lemma step_holds:
  assumes "table_holds A J tc rows m" "oauth_op_ok J op" "oauth_step A J tc op rows = (rows', r)"
  shows "table_holds A J tc rows' (if is_ok r then credential_step op m else m)"
proof (cases r)
  case (Inl e)
  then show ?thesis using assms oauth_error_keeps[of A J tc op rows rows' e] by simp
next
  case (Inr u)
  then have run: "oauth_step A J tc op rows = (rows', Inr ())" using assms(3) by simp
  have "table_holds A J tc rows' (credential_step op m)"
  proof (cases op)
    case (SaveCredential r1 r2 clk c)
    then show ?thesis using save_holds[OF assms(1)] assms(2) run by simp
  next
    case (UpdateTokens r1 r2 clk p a access refresh e scopes)
    then show ?thesis using update_holds[OF assms(1)] assms(2) run by (simp del: credential_step.simps)
  next
    case (DeleteCredential p a)
    then show ?thesis using delete_holds[OF assms(1)] run by simp
  qed
  then show ?thesis using Inr by simp
qed

lemma run_holds:
  "table_holds A J tc (fst s) (snd s) \<Longrightarrow> \<forall>op \<in> set ops. oauth_op_ok J op \<Longrightarrow>
   table_holds A J tc (fst (oauth_run A J tc ops s)) (snd (oauth_run A J tc ops s))"
proof (induction ops arbitrary: s)
  case Nil
  then show ?case by simp
next
  case (Cons op ops)
  obtain rows' r where step: "oauth_step A J tc op (fst s) = (rows', r)" by (cases "oauth_step A J tc op (fst s)")
  show ?case
    using Cons.IH[of "(rows', if is_ok r then credential_step op (snd s) else snd s)"]
      step_holds[OF Cons.prems(1) _ step] Cons.prems(2) step by simp
qed

lemma empty_holds: "table_holds A J tc [] (\<lambda>_. None)"
  by (simp add: table_holds_def find_oauth_def)

section \<open>Which operations succeed\<close>

fun oauth_op_valid :: "'t oauth_op \<Rightarrow> 't credentials \<Rightarrow> bool" where
  "oauth_op_valid (SaveCredential r1 r2 clk c) m \<longleftrightarrow> credential_ok c"
| "oauth_op_valid (UpdateTokens r1 r2 clk p a access refresh e scopes) m \<longleftrightarrow>
     oauth_id p \<and> oauth_id a \<and> str_trim access \<noteq> [] \<and> (\<forall>r. refresh = Some r \<longrightarrow> str_trim r \<noteq> []) \<and> scopes_ok scopes"
| "oauth_op_valid (DeleteCredential p a) m \<longleftrightarrow> oauth_id p \<and> oauth_id a \<and> m (p, a) \<noteq> None"

text \<open>No call of a crate fails: sealing, JSON and the random numbers of the operation.\<close>

fun nonces_drawn :: "'t oauth_op \<Rightarrow> bool" where
  "nonces_drawn (SaveCredential r1 r2 clk c) \<longleftrightarrow> r1 \<noteq> None \<and> r2 \<noteq> None"
| "nonces_drawn (UpdateTokens r1 r2 clk p a access refresh e scopes) \<longleftrightarrow> r1 \<noteq> None \<and> r2 \<noteq> None"
| "nonces_drawn (DeleteCredential p a) \<longleftrightarrow> True"

definition crates_work :: "sealer \<Rightarrow> 't oauth_codec \<Rightarrow> bool" where
  "crates_work A J \<longleftrightarrow> (\<forall>k n c p. seal A k n c p \<noteq> None) \<and> (\<forall>e. envelope_json J e \<noteq> None)
     \<and> (\<forall>l. scopes_json J l \<noteq> None)"

lemma crates_workD:
  assumes "crates_work A J"
  shows "\<exists>s. seal A k n c p = Some s" "\<exists>b. envelope_json J e = Some b" "\<exists>t. scopes_json J l = Some t"
  using assms by (simp_all add: crates_work_def)

lemma oauth_context_nonempty: "oauth_context p a k \<noteq> []"
  by (simp add: oauth_context_def)

lemma seal_token_works:
  assumes "crates_work A J" "rnd \<noteq> None" "str_trim token \<noteq> []"
  shows "\<exists>ct. seal_token A J tc rnd token p a k = Inr ct"
proof -
  have "token \<noteq> []" using assms(3) by (auto simp: str_trim_def trim_matches_def)
  moreover obtain n where "rnd = Some n" using assms(2) by blast
  moreover obtain c where "seal A (tc_key tc) n (str_bytes (oauth_context p a k)) (str_bytes token) = Some c"
    using crates_workD(1)[OF assms(1)] by blast
  ultimately have "encrypt A tc rnd (str_bytes token) (str_bytes (oauth_context p a k)) =
      Inr \<lparr>es_version = TOKEN_CIPHER_VERSION, es_nonce = b64_encode A n, es_ciphertext = b64_encode A c\<rparr>"
    by (simp add: encrypt_def oauth_context_nonempty)
  then show ?thesis
    using crates_workD(2)[OF assms(1)] unfolding seal_token_def serialize_envelope_def
    by (metis map_err_simps(2) ok_or_simps(2) rbind_simps(2))
qed

lemma delete_succeeds_iff:
  "is_ok (snd (delete_oauth_credential p a rows)) \<longleftrightarrow> oauth_id p \<and> oauth_id a \<and> find_oauth p a rows \<noteq> None"
proof -
  have "length (filter (\<lambda>r. oauth_key r \<noteq> (p, a)) rows) = length rows \<longleftrightarrow> find_oauth p a rows = None"
    unfolding find_oauth_def find_None_iff
    by (metis (mono_tags, lifting) filter_True length_filter_less less_irrefl)
  then show ?thesis
    by (simp add: delete_oauth_credential_def validate_oauth_identity_eq Let_def)
qed

lemma save_succeeds_iff:
  assumes "crates_work A J" "r1 \<noteq> None" "r2 \<noteq> None"
  shows "is_ok (snd (save_oauth_credential A J tc r1 r2 clk c rows)) \<longleftrightarrow> credential_ok c"
proof (cases "credential_ok c")
  case True
  let ?d = "with_scope_set c"
  have d: "credential_ok ?d" using with_scope_set_ok[OF True] .
  obtain ct where "seal_token A J tc r1 (oc_access_token ?d) (oc_provider ?d) (oc_account_id ?d) (lit ''access'') = Inr ct"
    using seal_token_works[OF assms(1,2)] d unfolding credential_ok_def by blast
  moreover obtain rt where "transpose (map_option (\<lambda>refresh.
      seal_token A J tc r2 refresh (oc_provider ?d) (oc_account_id ?d) (lit ''refresh'')) (oc_refresh_token ?d)) = Inr rt"
    using seal_token_works[OF assms(1,3)] d
    by (cases "oc_refresh_token ?d") (fastforce simp: credential_ok_def transpose_Inr_iff simp del: lit_simps)+
  moreover obtain s where "scopes_json J (oc_scopes ?d) = Some s" using crates_workD(3)[OF assms(1)] by blast
  ultimately show ?thesis using True
    by (simp add: save_oauth_credential_def run_tx_def validate_and_normalize_ok del: lit_simps)
next
  case False
  then obtain e where "validate_and_normalize c = Inl e"
    using validate_and_normalize_Inr by (cases "validate_and_normalize c") blast+
  then show ?thesis using False by (simp add: save_oauth_credential_def run_tx_def)
qed

lemma update_succeeds_iff:
  assumes "crates_work A J" "r1 \<noteq> None" "r2 \<noteq> None"
  shows "is_ok (snd (update_oauth_tokens A J tc r1 r2 clk p a access refresh e scopes rows)) \<longleftrightarrow>
    oauth_id p \<and> oauth_id a \<and> str_trim access \<noteq> [] \<and> (\<forall>r. refresh = Some r \<longrightarrow> str_trim r \<noteq> []) \<and> scopes_ok scopes"
    (is "_ \<longleftrightarrow> ?valid")
proof (cases ?valid)
  case True
  obtain ct where "seal_token A J tc r1 access p a (lit ''access'') = Inr ct"
    using seal_token_works[OF assms(1,2)] True by blast
  moreover obtain rt where "(case refresh of
        Some refresh \<Rightarrow> rbind (seal_token A J tc r2 refresh p a (lit ''refresh'')) (\<lambda>ct. Inr (Some ct))
      | None \<Rightarrow> Inr (Option.bind (find_oauth p a rows) oa_refresh)) = Inr rt"
    using seal_token_works[OF assms(1,3)] True by (cases refresh) (fastforce simp: rbind_Inr_iff simp del: lit_simps)+
  moreover obtain s where "scopes_json J (scope_set scopes) = Some s" using crates_workD(3)[OF assms(1)] by blast
  moreover have "(case refresh of None \<Rightarrow> False | Some r \<Rightarrow> str_trim r = []) = False"
    using True by (cases refresh) auto
  ultimately show ?thesis using True
    by (simp add: update_oauth_tokens_def run_tx_def validate_oauth_identity_eq normalize_scopes_eq del: lit_simps)
next
  case False
  have "\<not> is_ok (snd (update_oauth_tokens A J tc r1 r2 clk p a access refresh e scopes rows))"
    using False
    by (auto simp: update_oauth_tokens_def run_tx_def validate_oauth_identity_eq normalize_scopes_eq
        simp del: lit_simps split: option.splits)
  then show ?thesis using False by blast
qed

lemma step_succeeds_iff:
  assumes "crates_work A J" "nonces_drawn op" "table_holds A J tc rows m"
  shows "is_ok (snd (oauth_step A J tc op rows)) \<longleftrightarrow> oauth_op_valid op m"
proof (cases op)
  case (DeleteCredential p a)
  have "rel_option (row_holds A J tc) (find_oauth p a rows) (m (p, a))" using assms(3) by (simp add: table_holds_def)
  then have "find_oauth p a rows = None \<longleftrightarrow> m (p, a) = None" by (cases "m (p, a)") (auto simp: option_rel_Some2)
  then show ?thesis using DeleteCredential delete_succeeds_iff[of p a rows] by simp
qed (use assms save_succeeds_iff[OF assms(1)] update_succeeds_iff[OF assms(1)] in simp_all)
section \<open>Properties\<close>

text \<open>
  C23. The table \<open>oauth_credentials\<close> implements a map from accounts to credentials. After any run
  of saves, token updates and deletions, of which any may fail, loading an account returns the
  credential the map holds for it: the one saved, scopes trimmed, sorted and without duplicates, with the tokens of the
  last update; an update without refresh token keeps the stored one. Where no crate fails, an
  operation succeeds exactly on valid input, a deletion exactly if the account has a credential.
\<close>

theorem credentials_are_a_map:
  assumes "sealer_ok A" "oauth_codec_ok J" "\<forall>op \<in> set ops. oauth_op_ok J op"
    and "oauth_run A J tc ops ([], \<lambda>_. None) = (rows, m)"
    and "oauth_id p" "oauth_id a"
  shows "load_oauth_credential A J tc p a rows =
           (case m (p, a) of None \<Rightarrow> Inl (NotFound ''oauth credential'') | Some c \<Rightarrow> Inr c)
     \<and> (crates_work A J \<and> nonces_drawn op \<longrightarrow> (is_ok (snd (oauth_step A J tc op rows)) \<longleftrightarrow> oauth_op_valid op m))"
proof -
  have holds: "table_holds A J tc rows m"
    using run_holds[of A J tc "([], \<lambda>_. None)" ops] assms(3,4) empty_holds[of A J tc] by simp
  show ?thesis using load_table[OF assms(1,2) holds assms(5,6)] step_succeeds_iff[OF _ _ holds] by blast
qed

lemma load_opens_columns:
  assumes "load_oauth_credential A J tc p a table = Inr c" "find_oauth p a table = Some row"
  shows "oauth_id p \<and> oauth_id a"
    and "oa_access row = Some ct \<Longrightarrow> \<exists>t. open_token A J tc ct p a (lit ''access'') = Inr t"
    and "oa_refresh row = Some ct \<Longrightarrow> \<exists>t. open_token A J tc ct p a (lit ''refresh'') = Inr t"
  using assms
  by (auto simp: load_oauth_credential_def rbind_Inr_iff validate_oauth_identity_eq transpose_Inr_iff
      simp del: lit_simps split: if_splits)

lemma rows_are_sealed:
  assumes "table_holds A J tc rows m" "r \<in> set rows"
    and "(k = lit ''access'' \<and> oa_access r = Some ct) \<or> (k = lit ''refresh'' \<and> oa_refresh r = Some ct)"
  shows "oauth_id (oa_provider r)" "oauth_id (oa_account_id r)" "rust_str (oa_provider r)" "rust_str (oa_account_id r)"
    "\<exists>t. sealed_as A J tc ct t (oa_provider r) (oa_account_id r) k"
proof -
  let ?p = "oa_provider r" let ?a = "oa_account_id r"
  have "find_oauth ?p ?a rows = Some r"
    using find_unique[of oauth_key rows r] assms(1,2)
    by (simp add: find_oauth_def table_holds_def oauth_key_def[of r])
  then obtain c where c: "row_holds A J tc r c"
    using assms(1) unfolding table_holds_def by (metis option_rel_Some1)
  then have key: "oc_provider c = ?p" "oc_account_id c = ?a" by (auto simp: row_holds_def credential_key_def oauth_key_def)
  show "oauth_id ?p" "oauth_id ?a" "rust_str ?p" "rust_str ?a"
    using c key by (auto simp: row_holds_def credential_ok_def credential_writable_def)
  show "\<exists>t. sealed_as A J tc ct t ?p ?a k"
    using c assms(3) by (auto simp: row_holds_def key option_rel_Some1 simp del: lit_simps)
qed

text \<open>
  C24. A stored token opens only where it was stored. Take any encrypted column of any row that a
  run of operations left and put it into the column of another account, or into the other token
  column of the same account: loading that account fails, whatever else its row holds.
\<close>

theorem stored_tokens_open_only_at_their_place:
  assumes "sealer_ok A" "oauth_codec_ok J" "\<forall>op \<in> set ops. oauth_op_ok J op"
    and "oauth_run A J tc ops ([], \<lambda>_. None) = (rows, m)" "r \<in> set rows"
    and from_column: "(k = lit ''access'' \<and> oa_access r = Some ct) \<or> (k = lit ''refresh'' \<and> oa_refresh r = Some ct)"
    and "find_oauth p a table = Some row" "rust_str p" "rust_str a"
    and to_column: "(k' = lit ''access'' \<and> oa_access row = Some ct) \<or> (k' = lit ''refresh'' \<and> oa_refresh row = Some ct)"
    and "(p, a, k') \<noteq> (oa_provider r, oa_account_id r, k)"
  shows "\<not> is_ok (load_oauth_credential A J tc p a table)"
proof
  assume "is_ok (load_oauth_credential A J tc p a table)"
  then obtain c where c: "load_oauth_credential A J tc p a table = Inr c" by (auto simp: is_ok_iff)
  have holds: "table_holds A J tc rows m"
    using run_holds[of A J tc "([], \<lambda>_. None)" ops] assms(3,4) empty_holds[of A J tc] by simp
  note sealed = rows_are_sealed[OF holds assms(5) from_column]
  obtain t rnd where t: "nonce_ok rnd" "rust_str t"
      "seal_token A J tc rnd t (oa_provider r) (oa_account_id r) k = Inr ct"
    using sealed(5) by (auto simp: sealed_as_def)
  have kinds: "k \<in> token_kinds" "k' \<in> token_kinds" using from_column to_column unfolding token_kinds_def by blast+
  have "open_token A J tc ct p a k' = Inl (Crypto DecryptionFailed)"
    using open_sealed_token[OF assms(1,2) t(1,2) sealed(1,2) _ _ sealed(3,4) assms(8,9) kinds t(3)]
      load_opens_columns(1)[OF c assms(7)] assms(11) by auto
  moreover have "\<exists>u. open_token A J tc ct p a k' = Inr u"
    using load_opens_columns(2,3)[OF c assms(7)] to_column by blast
  ultimately show False by simp
qed

section \<open>Witnesses\<close>

text \<open>A codec that satisfies the laws: numbers are written in unary, lists after their length.\<close>

definition unary :: "nat \<Rightarrow> u8 list" where
  "unary n = replicate n 1 @ [0]"

fun read_unary :: "u8 list \<Rightarrow> nat \<times> u8 list" where
  "read_unary [] = (0, [])"
| "read_unary (b # bs) = (if b = 1 then (case read_unary bs of (n, r) \<Rightarrow> (Suc n, r)) else (0, bs))"

definition write_int :: "int \<Rightarrow> u8 list" where
  "write_int i = (if i < 0 then 1 else 0) # unary (nat \<bar>i\<bar>)"

fun read_int :: "u8 list \<Rightarrow> int \<times> u8 list" where
  "read_int [] = (0, [])"
| "read_int (s # bs) = (case read_unary bs of (n, r) \<Rightarrow> (if s = 1 then - int n else int n, r))"

definition write_ints :: "int list \<Rightarrow> u8 list" where
  "write_ints xs = unary (length xs) @ concat (map write_int xs)"

fun read_n_ints :: "nat \<Rightarrow> u8 list \<Rightarrow> int list \<times> u8 list" where
  "read_n_ints 0 bs = ([], bs)"
| "read_n_ints (Suc n) bs = (case read_int bs of (i, r) \<Rightarrow> (case read_n_ints n r of (is, r') \<Rightarrow> (i # is, r')))"

definition read_ints :: "u8 list \<Rightarrow> int list \<times> u8 list" where
  "read_ints bs = (case read_unary bs of (n, r) \<Rightarrow> read_n_ints n r)"

lemma read_unary_unary [simp]: "read_unary (unary n @ r) = (n, r)"
  by (induction n) (simp_all add: unary_def)

lemma read_write_int [simp]: "read_int (write_int i @ r) = (i, r)"
  by (simp add: write_int_def)

lemma read_write_ints [simp]: "read_ints (write_ints xs @ r) = (xs, r)"
proof -
  have "read_n_ints (length xs) (concat (map write_int xs) @ r) = (xs, r)" by (induction xs) simp_all
  then show ?thesis by (simp add: read_ints_def write_ints_def)
qed

fun unframe :: "str \<Rightarrow> str list" where
  "unframe [] = []"
| "unframe (n # s) = take (nat n) s # unframe (drop (nat n) s)"

lemma unframe_concat [simp]: "unframe (concat (map (\<lambda>s. int (length s) # s) l)) = l"
  by (induction l) simp_all

definition demo_oauth_codec :: "int oauth_codec" where
  "demo_oauth_codec = \<lparr>
     envelope_json = (\<lambda>e. Some (unary (es_version e) @ write_ints (es_nonce e) @ write_ints (es_ciphertext e))),
     envelope_of_json = (\<lambda>bs. case read_unary bs of (v, r) \<Rightarrow> case read_ints r of (n, r') \<Rightarrow>
       case read_ints r' of (c, _) \<Rightarrow> Some \<lparr>es_version = v, es_nonce = n, es_ciphertext = c\<rparr>),
     scopes_json = (\<lambda>l. Some (concat (map (\<lambda>s. int (length s) # s) l))),
     scopes_of_json = Some \<circ> unframe,
     utc_format = (\<lambda>t. [t]), utc_parse = (\<lambda>s. Some (hd s)), utc_writable = (\<lambda>_. True)\<rparr>"


lemma demo_oauth_codec_ok: "oauth_codec_ok demo_oauth_codec"
proof -
  have "read_ints (write_ints xs) = (xs, [])" for xs using read_write_ints[of xs "[]"] by simp
  then show ?thesis by (simp add: oauth_codec_ok_def demo_oauth_codec_def)
qed

lemma demo_crates_work: "crates_work demo_sealer demo_oauth_codec"
  by (simp add: crates_work_def demo_sealer_def demo_oauth_codec_def)

definition demo_credential :: "int oauth_credential" where
  "demo_credential = \<lparr>oc_provider = lit ''google'', oc_account_id = lit ''owner'', oc_access_token = lit ''a1'',
     oc_refresh_token = Some (lit ''r1''), oc_expires_at = None, oc_scopes = [lit ''mail'', lit '' mail '', lit ''calendar'']\<rparr>"

definition demo_nonce :: "u8 list" where "demo_nonce = replicate 12 7"

definition demo_save :: "int oauth_op" where
  "demo_save = SaveCredential (Some demo_nonce) (Some demo_nonce) (lit ''t0'') demo_credential"

definition demo_update :: "int oauth_op" where
  "demo_update = UpdateTokens (Some demo_nonce) (Some demo_nonce) (lit ''t1'') (lit ''google'') (lit ''owner'')
     (lit ''a2'') None 99 [lit ''mail'']"

lemma demo_oauth_facts:
  "oauth_id (lit ''google'')" "oauth_id (lit ''owner'')" "credential_ok demo_credential"
  "oauth_op_ok demo_oauth_codec demo_save" "oauth_op_ok demo_oauth_codec demo_update"
  "nonces_drawn demo_save" "nonces_drawn demo_update" "oauth_op_valid demo_save m" "oauth_op_valid demo_update m"
  by (simp_all add: oauth_id_def demo_credential_def credential_ok_def scopes_ok_def demo_save_def demo_update_def
      nonce_ok_def demo_nonce_def NONCE_LEN_def credential_writable_def rust_str_def is_scalar_def
      demo_oauth_codec_def str_trim_def trim_matches_def is_whitespace_def)
definition demo_tc :: token_cipher where "demo_tc = \<lparr>tc_key = replicate 32 9\<rparr>"

definition demo_empty :: "oauth_row list \<times> int credentials" where "demo_empty = ([], \<lambda>_. None)"

definition demo_oauth_run :: "int oauth_op list \<Rightarrow> oauth_row list \<times> int credentials" where
  "demo_oauth_run ops = oauth_run demo_sealer demo_oauth_codec demo_tc ops demo_empty"

text \<open>
  Saving a credential and updating its access token without a refresh token: the loaded
  credential has the new access token and the old refresh token.
\<close>

theorem credentials_are_a_map_witness:
  "load_oauth_credential demo_sealer demo_oauth_codec demo_tc (lit ''google'') (lit ''owner'')
      (fst (demo_oauth_run [demo_save, demo_update])) =
    Inr \<lparr>oc_provider = lit ''google'', oc_account_id = lit ''owner'', oc_access_token = lit ''a2'',
         oc_refresh_token = Some (lit ''r1''), oc_expires_at = Some 99, oc_scopes = [lit ''mail'']\<rparr>"
proof -
  have eq: "oauth_run demo_sealer demo_oauth_codec demo_tc ops ([], \<lambda>_. None) = (fst (demo_oauth_run ops), snd (demo_oauth_run ops))" for ops
    by (simp add: demo_oauth_run_def demo_empty_def)
  note map = credentials_are_a_map[OF demo_sealer_ok demo_oauth_codec_ok _ eq demo_oauth_facts(1,2)]
  let ?step = "oauth_step demo_sealer demo_oauth_codec demo_tc"
  have ok1: "is_ok (snd (?step demo_save []))"
    using map[of "[]" demo_save] demo_crates_work demo_oauth_facts(6,8) by (simp add: demo_oauth_run_def demo_empty_def)
  obtain rows1 where s1: "?step demo_save [] = (rows1, Inr ())"
    using ok1 by (cases "?step demo_save []") (auto simp: is_ok_iff)
  have run1: "demo_oauth_run [demo_save] = (rows1, credential_step demo_save (\<lambda>_. None))"
    by (simp add: demo_oauth_run_def demo_empty_def s1)
  have ok2: "is_ok (snd (?step demo_update rows1))"
    using map[of "[demo_save]" demo_update] demo_crates_work demo_oauth_facts(4,7,9) run1 by simp
  obtain rows2 where s2: "?step demo_update rows1 = (rows2, Inr ())"
    using ok2 by (cases "?step demo_update rows1") (auto simp: is_ok_iff)
  have run2: "snd (demo_oauth_run [demo_save, demo_update]) =
      credential_step demo_update (credential_step demo_save (\<lambda>_. None))"
    by (simp add: demo_oauth_run_def demo_empty_def s1 s2)
  have scopes: "scope_set [lit ''mail''] = [lit ''mail'']"
    by (simp add: scope_set_def str_trim_def trim_matches_def is_whitespace_def)
  show ?thesis
    using map[of "[demo_save, demo_update]"] demo_oauth_facts(4,5) run2
    by (simp add: demo_update_def demo_save_def credential_key_def demo_credential_def with_scope_set_def scopes
        del: lit_simps)
qed

text \<open>The columns of the saved credential, put under another account or exchanged.\<close>

theorem stored_tokens_open_only_at_their_place_witness:
  "\<exists>r access refresh. fst (demo_oauth_run [demo_save]) = [r] \<and> oa_access r = Some access \<and> oa_refresh r = Some refresh
     \<and> \<not> is_ok (load_oauth_credential demo_sealer demo_oauth_codec demo_tc (lit ''google'') (lit ''other'')
          [r\<lparr>oa_account_id := lit ''other''\<rparr>])
     \<and> \<not> is_ok (load_oauth_credential demo_sealer demo_oauth_codec demo_tc (lit ''google'') (lit ''owner'')
          [r\<lparr>oa_access := Some refresh\<rparr>])"
proof -
  have ok: "is_ok (snd (oauth_step demo_sealer demo_oauth_codec demo_tc demo_save []))"
    using step_succeeds_iff[OF demo_crates_work _ empty_holds] demo_oauth_facts(6,8) by blast
  then obtain r where rows: "oauth_step demo_sealer demo_oauth_codec demo_tc demo_save [] = ([r], Inr ())"
      "oa_provider r = lit ''google''" "oa_account_id r = lit ''owner''"
      "\<exists>access. oa_access r = Some access" "\<exists>refresh. oa_refresh r = Some refresh"
    by (cases "snd (oauth_step demo_sealer demo_oauth_codec demo_tc demo_save [])")
      (auto simp: demo_save_def demo_credential_def save_oauth_credential_def run_tx_def rbind_Inr_iff
        validate_and_normalize_Inr with_scope_set_def transpose_Inr_iff upsert_oauth_def find_oauth_def
        simp del: lit_simps split: sum.splits)
  then obtain access refresh where cols: "oa_access r = Some access" "oa_refresh r = Some refresh" by blast
  have run: "oauth_run demo_sealer demo_oauth_codec demo_tc [demo_save] ([], \<lambda>_. None) =
      ([r], credential_step demo_save (\<lambda>_. None))"
    by (simp add: rows(1))
  have strs: "rust_str (lit ''google'')" "rust_str (lit ''other'')" "rust_str (lit ''owner'')"
    by (simp_all add: rust_str_def is_scalar_def)
  have differ: "lit ''other'' \<noteq> lit ''owner''" "lit ''access'' \<noteq> lit ''refresh''" by simp_all
  note place = stored_tokens_open_only_at_their_place[OF demo_sealer_ok demo_oauth_codec_ok _ run,
      of r _ _ "lit ''google''"]
  have "\<not> is_ok (load_oauth_credential demo_sealer demo_oauth_codec demo_tc (lit ''google'') (lit ''other'')
          [r\<lparr>oa_account_id := lit ''other''\<rparr>])"
    by (rule place[where k = "lit ''access''" and k' = "lit ''access''" and ct = access and row = "r\<lparr>oa_account_id := lit ''other''\<rparr>"])
      (simp_all add: demo_oauth_facts(4) cols rows(2,3) strs differ find_oauth_def oauth_key_def del: lit_simps)
  moreover have "\<not> is_ok (load_oauth_credential demo_sealer demo_oauth_codec demo_tc (lit ''google'') (lit ''owner'')
          [r\<lparr>oa_access := Some refresh\<rparr>])"
    by (rule place[where k = "lit ''refresh''" and k' = "lit ''access''" and ct = refresh and row = "r\<lparr>oa_access := Some refresh\<rparr>"])
      (simp_all add: demo_oauth_facts(4) cols rows(2,3) strs differ find_oauth_def oauth_key_def del: lit_simps)
  moreover have "fst (demo_oauth_run [demo_save]) = [r]" by (simp add: demo_oauth_run_def demo_empty_def rows(1))
  ultimately show ?thesis using cols by blast
qed

end
