(* ===== verification/Backup_Envelope.thy ===== *)
theory Backup_Envelope
  imports Rust_Text
begin

text \<open>
  The backup format of \<open>src/pa/backup/envelope.rs\<close> and the snapshot metadata of
  \<open>src/pa/backup/metadata.rs\<close>: a magic line, the length of a JSON header as four bytes, the header
  in its canonical serialization, and the opaque ciphertext. The JSON of serde, the RFC 3339 texts
  of chrono and SHA-256 are parameters (\<open>header_codec\<close>); an instant is a type variable.
\<close>

section \<open>Envelopes\<close>

definition BACKUP_FORMAT :: str where "BACKUP_FORMAT = lit ''agent_voice_backup_v1''"
definition BACKUP_MAGIC :: "u8 list" where "BACKUP_MAGIC = str_bytes (BACKUP_FORMAT @ [10])"
definition MAX_HEADER_BYTES :: nat where "MAX_HEADER_BYTES = 64 * 1024"

record snapshot_header =
  sh_format :: str
  sh_checksum :: str
  sh_ciphertext_size :: nat
  sh_created_at :: str
  sh_object_key :: str
  sh_encryption_format :: str
  sh_key_metadata :: str
  sh_encryption_metadata :: str

record snapshot_envelope =
  se_header :: snapshot_header
  se_ciphertext :: "u8 list"

datatype envelope_error =
    Truncated
  | BadMagic
  | HeaderTooLarge
  | InvalidHeader
  | NonCanonicalHeader
  | InvalidValue
  | EnvelopeSizeMismatch

text \<open>
  \<open>WireHeader\<close> has the fields of the header and only serves serde: \<open>header_json\<close> is
  \<open>serde_json::to_vec\<close> and \<open>header_of_json\<close> is \<open>serde_json::from_slice\<close> through it.
\<close>

record 't header_codec =
  header_json :: "snapshot_header \<Rightarrow> u8 list option"
  header_of_json :: "u8 list \<Rightarrow> snapshot_header option"
  chrono_format :: "'t \<Rightarrow> str"
  chrono_parse :: "str \<Rightarrow> 't option"
  sha256 :: "u8 list \<Rightarrow> u8 list"

definition u64_limit :: nat where "u64_limit = 2 ^ 64 - 1"

text \<open>\<open>u64::try_from\<close> of a length.\<close>

definition u64_len :: "'e \<Rightarrow> u8 list \<Rightarrow> ('e, nat) result" where
  "u64_len e bytes = (if length bytes \<le> u64_limit then Inr (length bytes) else Inl e)"

definition to_be_bytes :: "nat \<Rightarrow> u8 list" where
  "to_be_bytes n = map (\<lambda>k. word_of_nat (n div 256 ^ k)) [3, 2, 1, 0]"

definition from_be_bytes :: "u8 list \<Rightarrow> nat" where
  "from_be_bytes bs = foldl (\<lambda>n b. n * 256 + unat b) 0 bs"

definition is_canonical_timestamp :: "'t header_codec \<Rightarrow> str \<Rightarrow> bool" where
  "is_canonical_timestamp K v \<longleftrightarrow>
     ends_with (lit ''Z'') v \<and> (case chrono_parse K v of None \<Rightarrow> False | Some t \<Rightarrow> chrono_format K t = v)"

definition bounded_value :: "str \<Rightarrow> bool" where
  "bounded_value v \<longleftrightarrow> \<not> (str_trim v = [] \<or> str_len v > 256 \<or> list_ex is_control v)"

definition validate_header :: "'t header_codec \<Rightarrow> snapshot_header \<Rightarrow> (envelope_error, unit) result" where
  "validate_header K h =
     (if \<not> list_all bounded_value [sh_format h, sh_checksum h, sh_created_at h, sh_object_key h,
            sh_encryption_format h, sh_key_metadata h, sh_encryption_metadata h]
      then Inl InvalidValue
      else if sh_format h \<noteq> BACKUP_FORMAT \<or> str_len (sh_checksum h) \<noteq> 64
         \<or> \<not> all_bytes is_lower_hex_char (sh_checksum h)
         \<or> sh_ciphertext_size h = 0 \<or> \<not> is_canonical_timestamp K (sh_created_at h)
      then Inl InvalidValue
      else Inr ())"

definition envelope_encode ::
    "'t header_codec \<Rightarrow> snapshot_header \<Rightarrow> u8 list \<Rightarrow> (envelope_error, u8 list) result" where
  "envelope_encode K h ciphertext =
     rbind (validate_header K h) (\<lambda>_.
     rbind (u64_len EnvelopeSizeMismatch ciphertext) (\<lambda>ciphertext_len.
     if sh_ciphertext_size h = 0 \<or> sh_ciphertext_size h \<noteq> ciphertext_len then Inl EnvelopeSizeMismatch
     else rbind (ok_or InvalidHeader (header_json K h)) (\<lambda>header_bytes.
       if length header_bytes \<ge> 2 ^ 32 then Inl HeaderTooLarge
       else if length header_bytes > MAX_HEADER_BYTES then Inl HeaderTooLarge
       else if length BACKUP_MAGIC + 4 + length header_bytes + length ciphertext > u64_limit
         then Inl EnvelopeSizeMismatch
       else Inr (BACKUP_MAGIC @ to_be_bytes (length header_bytes) @ header_bytes @ ciphertext))))"

definition envelope_parse :: "'t header_codec \<Rightarrow> u8 list \<Rightarrow> (envelope_error, snapshot_envelope) result" where
  "envelope_parse K bytes =
     (let length_start = length BACKUP_MAGIC; length_end = length_start + 4 in
      if length bytes < length_start then Inl Truncated
      else if take length_start bytes \<noteq> BACKUP_MAGIC then Inl BadMagic
      else if length bytes < length_end then Inl Truncated
      else
        let header_len = from_be_bytes (take 4 (drop length_start bytes)) in
        if header_len > MAX_HEADER_BYTES then Inl HeaderTooLarge
        else
          let header_end = length_end + header_len in
          if length bytes < header_end then Inl Truncated
          else
            let header_bytes = take header_len (drop length_end bytes) in
            rbind (ok_or InvalidHeader (header_of_json K header_bytes)) (\<lambda>h.
            rbind (ok_or InvalidHeader (header_json K h)) (\<lambda>canonical.
            if canonical \<noteq> header_bytes then Inl NonCanonicalHeader
            else rbind (validate_header K h) (\<lambda>_.
              let ciphertext = drop header_end bytes in
              rbind (u64_len EnvelopeSizeMismatch ciphertext) (\<lambda>ciphertext_len.
              if sh_ciphertext_size h \<noteq> ciphertext_len then Inl EnvelopeSizeMismatch
              else Inr \<lparr>se_header = h, se_ciphertext = ciphertext\<rparr>)))))"

text \<open>\<open>encoded_len\<close>; \<open>None\<close> is the panic of its \<open>expect\<close>.\<close>

definition encoded_len :: "'t header_codec \<Rightarrow> snapshot_envelope \<Rightarrow> nat option" where
  "encoded_len K e =
     map_option (\<lambda>h. length BACKUP_MAGIC + 4 + length h + length (se_ciphertext e)) (header_json K (se_header e))"

section \<open>Snapshot metadata\<close>

definition ENCRYPTION_FORMAT :: str where "ENCRYPTION_FORMAT = lit ''sqlcipher''"
definition KEY_METADATA :: str where "KEY_METADATA = lit ''external''"
definition ENCRYPTION_METADATA :: str where "ENCRYPTION_METADATA = lit ''sqlcipher-v1''"

record 't snapshot_metadata =
  sm_format :: str
  sm_checksum :: str
  sm_ciphertext_size :: nat
  sm_created_at :: 't
  sm_object_key :: str
  sm_encryption_format :: str
  sm_key_metadata :: str
  sm_encryption_metadata :: str

datatype metadata_error =
    EmptyCiphertext
  | InvalidTimestamp
  | InvalidObjectKey
  | InvalidMetadata
  | ChecksumMismatch
  | MetadataSizeMismatch

definition to_header :: "'t header_codec \<Rightarrow> 't snapshot_metadata \<Rightarrow> snapshot_header" where
  "to_header K m = \<lparr>sh_format = sm_format m, sh_checksum = sm_checksum m,
     sh_ciphertext_size = sm_ciphertext_size m, sh_created_at = chrono_format K (sm_created_at m),
     sh_object_key = sm_object_key m, sh_encryption_format = sm_encryption_format m,
     sh_key_metadata = sm_key_metadata m, sh_encryption_metadata = sm_encryption_metadata m\<rparr>"

definition ciphertext_checksum :: "'t header_codec \<Rightarrow> u8 list \<Rightarrow> str" where
  "ciphertext_checksum K ciphertext = lower_hex (sha256 K ciphertext)"

definition valid_object_key :: "str \<Rightarrow> bool" where
  "valid_object_key k \<longleftrightarrow> str_trim k \<noteq> [] \<and> str_len k \<le> 256 \<and> \<not> list_ex is_control k
     \<and> \<not> starts_with (lit ''/'') k
     \<and> \<not> list_ex (\<lambda>c. c = lit ''.'' \<or> c = lit ''..'') (str_split (\<lambda>c. c = 47) k)"

definition valid_checksum_shape :: "str \<Rightarrow> bool" where
  "valid_checksum_shape c \<longleftrightarrow> str_len c = 64 \<and> all_bytes is_lower_hex_char c"

definition valid_timestamp :: "'t header_codec \<Rightarrow> str \<Rightarrow> bool" where
  "valid_timestamp K v \<longleftrightarrow>
     ends_with (lit ''Z'') v \<and> (case chrono_parse K v of None \<Rightarrow> False | Some t \<Rightarrow> chrono_format K t = v)"

definition derive_metadata ::
    "'t header_codec \<Rightarrow> u8 list \<Rightarrow> 't \<Rightarrow> str \<Rightarrow> (metadata_error, 't snapshot_metadata) result" where
  "derive_metadata K ciphertext created_at object_key =
     (if ciphertext = [] then Inl EmptyCiphertext
      else if \<not> valid_timestamp K (chrono_format K created_at) then Inl InvalidTimestamp
      else if \<not> valid_object_key object_key then Inl InvalidObjectKey
      else rbind (u64_len MetadataSizeMismatch ciphertext) (\<lambda>ciphertext_size.
        Inr \<lparr>sm_format = BACKUP_FORMAT, sm_checksum = ciphertext_checksum K ciphertext,
             sm_ciphertext_size = ciphertext_size, sm_created_at = created_at, sm_object_key = object_key,
             sm_encryption_format = ENCRYPTION_FORMAT, sm_key_metadata = KEY_METADATA,
             sm_encryption_metadata = ENCRYPTION_METADATA\<rparr>))"

definition verify_header :: "'t header_codec \<Rightarrow> snapshot_header \<Rightarrow> u8 list \<Rightarrow> (metadata_error, unit) result" where
  "verify_header K h ciphertext =
     (if ciphertext = [] then Inl EmptyCiphertext
      else rbind (u64_len MetadataSizeMismatch ciphertext) (\<lambda>ciphertext_size.
        if sh_ciphertext_size h \<noteq> ciphertext_size then Inl MetadataSizeMismatch
        else if sh_format h \<noteq> BACKUP_FORMAT \<or> sh_encryption_format h \<noteq> ENCRYPTION_FORMAT
           \<or> sh_key_metadata h \<noteq> KEY_METADATA \<or> sh_encryption_metadata h \<noteq> ENCRYPTION_METADATA
           \<or> \<not> valid_checksum_shape (sh_checksum h)
        then Inl InvalidMetadata
        else if \<not> valid_object_key (sh_object_key h) then Inl InvalidObjectKey
        else if \<not> valid_timestamp K (sh_created_at h) then Inl InvalidTimestamp
        else if sh_checksum h \<noteq> ciphertext_checksum K ciphertext then Inl ChecksumMismatch
        else Inr ()))"

section \<open>The format\<close>

text \<open>The fields are Rust strings and a \<open>u64\<close>.\<close>

definition header_fields :: "snapshot_header \<Rightarrow> str list" where
  "header_fields h = [sh_format h, sh_checksum h, sh_created_at h, sh_object_key h,
     sh_encryption_format h, sh_key_metadata h, sh_encryption_metadata h]"

definition header_rust :: "snapshot_header \<Rightarrow> bool" where
  "header_rust h \<longleftrightarrow> list_all (list_all is_scalar) (header_fields h) \<and> sh_ciphertext_size h \<le> u64_limit"

definition visible :: "rchar \<Rightarrow> bool" where
  "visible c \<longleftrightarrow> 33 \<le> c \<and> c < 127"

definition header_codec_ok :: "'t header_codec \<Rightarrow> bool" where
  "header_codec_ok K \<longleftrightarrow>
     (\<forall>h b. header_json K h = Some b \<longrightarrow> header_of_json K b = Some h)
   \<and> (\<forall>h. validate_header K h = Inr () \<and> header_rust h \<longrightarrow> (\<exists>b. header_json K h = Some b \<and> length b \<le> MAX_HEADER_BYTES))
   \<and> (\<forall>t. list_all visible (chrono_format K t) \<and> length (chrono_format K t) \<le> 64)
   \<and> (\<forall>bs. length (sha256 K bs) = 32)"

text \<open>
  The laws: serde reads what it wrote and writes the headers of the format within the limit of 64
  KiB (seven texts of at most 256 bytes and a number, without control characters), chrono writes a
  short visible text, SHA-256 has 32 bytes.
\<close>

lemma from_be_digits:
  "from_be_bytes [a, b, c, d] = ((unat a * 256 + unat b) * 256 + unat c) * 256 + unat d"
  by (simp add: from_be_bytes_def)

lemma unat_byte: "unat (word_of_nat n :: u8) = n mod 256"
  by (simp add: unat_of_nat)

lemma from_to_be: "n < 2 ^ 32 \<Longrightarrow> from_be_bytes (to_be_bytes n) = n"
proof -
  assume n: "n < 2 ^ 32"
  define q1 q2 q3 where "q1 = n div 256" and "q2 = q1 div 256" and "q3 = q2 div 256"
  have pow: "n div 256 ^ 0 = n" "n div 256 ^ 1 = q1" "n div 256 ^ 2 = q2" "n div 256 ^ 3 = q3"
    by (simp_all add: q1_def q2_def q3_def div_mult2_eq[symmetric])
  have "q3 < 256" using n by (simp add: q1_def q2_def q3_def div_mult2_eq[symmetric])
  then have top: "q3 mod 256 = q3" by simp
  have step: "q3 * 256 + q2 mod 256 = q2" "q2 * 256 + q1 mod 256 = q1" "q1 * 256 + n mod 256 = n"
    by (simp_all add: q1_def q2_def q3_def)
  show ?thesis
    by (simp only: to_be_bytes_def list.map pow from_be_digits unat_byte top step)
qed

lemma to_from_be: "length bs = 4 \<Longrightarrow> to_be_bytes (from_be_bytes bs) = bs"
proof -
  assume "length bs = 4"
  then obtain a b c d where bs: "bs = [a, b, c, d]"
    by (auto simp: length_Suc_conv numeral_eq_Suc)
  have lt: "unat (x :: u8) < 256" for x using unsigned_less[of x] by simp
  have low: "word_of_nat (q * 256 + unat x) = x" for q and x :: u8
    by (simp only: word_unat_eq_iff unat_byte) (simp add: lt)
  have high: "(q * 256 + unat x) div 256 = q" for q and x :: u8 using lt[of x] by simp
  define n where "n = ((unat a * 256 + unat b) * 256 + unat c) * 256 + unat d"
  have n1: "n div 256 = (unat a * 256 + unat b) * 256 + unat c" unfolding n_def by (rule high)
  have "n div 256 ^ 2 = n div 256 div 256" "n div 256 ^ 3 = n div 256 div 256 div 256"
    by (simp_all add: div_mult2_eq[symmetric])
  then have pow: "n div 256 ^ 0 = n" "n div 256 ^ 1 = (unat a * 256 + unat b) * 256 + unat c"
      "n div 256 ^ 2 = unat a * 256 + unat b" "n div 256 ^ 3 = unat a"
    by (simp_all only: n1 high power_0 power_one_right div_by_1)
  have "word_of_nat n = d" unfolding n_def by (rule low)
  moreover have "word_of_nat (unat a) = a" by simp
  ultimately show ?thesis
    unfolding bs from_be_digits n_def[symmetric] to_be_bytes_def by (simp only: list.map pow low)
qed

lemma header_codec_okD:
  assumes "header_codec_ok K"
  shows "header_json K h = Some b \<Longrightarrow> header_of_json K b = Some h"
    and "validate_header K h = Inr () \<Longrightarrow> header_rust h \<Longrightarrow> \<exists>b. header_json K h = Some b \<and> length b \<le> MAX_HEADER_BYTES"
    and "list_all visible (chrono_format K t)" "length (chrono_format K t) \<le> 64"
    and "length (sha256 K bs) = 32"
  using assms unfolding header_codec_ok_def by blast+

lemma encode_Inr_iff:
  "envelope_encode K h ct = Inr bytes \<longleftrightarrow>
     validate_header K h = Inr () \<and> length ct \<le> u64_limit \<and> sh_ciphertext_size h \<noteq> 0 \<and> sh_ciphertext_size h = length ct
     \<and> (\<exists>b. header_json K h = Some b \<and> length b \<le> MAX_HEADER_BYTES
          \<and> length BACKUP_MAGIC + 4 + length b + length ct \<le> u64_limit
          \<and> bytes = BACKUP_MAGIC @ to_be_bytes (length b) @ b @ ct)"
proof (cases "header_json K h")
  case None
  then show ?thesis by (auto simp: envelope_encode_def rbind_Inr_iff split: if_splits)
next
  case (Some b)
  then show ?thesis
    by (auto simp: envelope_encode_def rbind_Inr_iff u64_len_def MAX_HEADER_BYTES_def split: if_splits)
qed

lemma length_to_be [simp]: "length (to_be_bytes n) = 4"
  by (simp add: to_be_bytes_def)

lemma parse_Inr_iff:
  "envelope_parse K bytes = Inr e \<longleftrightarrow>
     (\<exists>len b. bytes = BACKUP_MAGIC @ len @ b @ se_ciphertext e \<and> length len = 4 \<and> from_be_bytes len = length b
        \<and> length b \<le> MAX_HEADER_BYTES \<and> header_of_json K b = Some (se_header e) \<and> header_json K (se_header e) = Some b
        \<and> validate_header K (se_header e) = Inr () \<and> length (se_ciphertext e) \<le> u64_limit
        \<and> sh_ciphertext_size (se_header e) = length (se_ciphertext e))"
  (is "_ \<longleftrightarrow> ?R")
proof
  let ?m = "length BACKUP_MAGIC"
  assume parse: "envelope_parse K bytes = Inr e"
  define len b where "len = take 4 (drop ?m bytes)" and "b = take (from_be_bytes len) (drop (?m + 4) bytes)"
  have long: "\<not> length bytes < ?m" "take ?m bytes = BACKUP_MAGIC" "\<not> length bytes < ?m + 4"
      "\<not> from_be_bytes len > MAX_HEADER_BYTES" "\<not> length bytes < ?m + 4 + from_be_bytes len"
    using parse unfolding envelope_parse_def Let_def len_def by (auto split: if_splits)
  then have rest: "header_of_json K b = Some (se_header e)" "header_json K (se_header e) = Some b"
      "validate_header K (se_header e) = Inr ()" "se_ciphertext e = drop (?m + 4 + from_be_bytes len) bytes"
      "length (se_ciphertext e) \<le> u64_limit" "sh_ciphertext_size (se_header e) = length (se_ciphertext e)"
    using parse unfolding envelope_parse_def Let_def len_def b_def
    by (auto simp: rbind_Inr_iff u64_len_def split: if_splits)
  have cut: "bytes = take ?m bytes @ take 4 (drop ?m bytes) @ take n (drop (?m + 4) bytes) @ drop (?m + 4 + n) bytes" for n
  proof -
    have "drop (?m + 4 + n) bytes = drop n (drop (?m + 4) bytes)" "drop (?m + 4) bytes = drop 4 (drop ?m bytes)"
      by (simp_all add: drop_drop ac_simps)
    then show ?thesis by (simp only: append_take_drop_id)
  qed
  have "bytes = BACKUP_MAGIC @ len @ b @ se_ciphertext e"
    using cut[of "from_be_bytes len"] long(2) unfolding rest(4) b_def len_def by simp
  moreover have "length len = 4" "length b = from_be_bytes len" using long unfolding len_def b_def by simp_all
  ultimately show ?R using rest long(4) by auto
next
  assume ?R
  then obtain len b where r: "bytes = BACKUP_MAGIC @ len @ b @ se_ciphertext e" "length len = 4" "from_be_bytes len = length b"
      "length b \<le> MAX_HEADER_BYTES" "header_of_json K b = Some (se_header e)" "header_json K (se_header e) = Some b"
      "validate_header K (se_header e) = Inr ()" "length (se_ciphertext e) \<le> u64_limit"
      "sh_ciphertext_size (se_header e) = length (se_ciphertext e)"
    by blast
  then show "envelope_parse K bytes = Inr e" by (simp add: envelope_parse_def Let_def u64_len_def)
qed

lemma valid_header_size: "validate_header K h = Inr () \<Longrightarrow> sh_ciphertext_size h \<noteq> 0"
  by (auto simp: validate_header_def split: if_splits)

lemma parse_iff_encode:
  assumes "header_codec_ok K" "length bytes \<le> u64_limit"
  shows "envelope_parse K bytes = Inr e \<longleftrightarrow> envelope_encode K (se_header e) (se_ciphertext e) = Inr bytes"
proof
  assume "envelope_parse K bytes = Inr e"
  then obtain len b where r: "bytes = BACKUP_MAGIC @ len @ b @ se_ciphertext e" "length len = 4" "from_be_bytes len = length b"
      "length b \<le> MAX_HEADER_BYTES" "header_json K (se_header e) = Some b"
      "validate_header K (se_header e) = Inr ()" "length (se_ciphertext e) \<le> u64_limit"
      "sh_ciphertext_size (se_header e) = length (se_ciphertext e)"
    unfolding parse_Inr_iff by blast
  have "len = to_be_bytes (length b)" using to_from_be[OF r(2)] r(3) by simp
  then show "envelope_encode K (se_header e) (se_ciphertext e) = Inr bytes"
    unfolding encode_Inr_iff using r assms(2) valid_header_size[OF r(6)] by auto
next
  assume "envelope_encode K (se_header e) (se_ciphertext e) = Inr bytes"
  then obtain b where b: "validate_header K (se_header e) = Inr ()" "length (se_ciphertext e) \<le> u64_limit"
      "sh_ciphertext_size (se_header e) = length (se_ciphertext e)" "header_json K (se_header e) = Some b"
      "length b \<le> MAX_HEADER_BYTES" "bytes = BACKUP_MAGIC @ to_be_bytes (length b) @ b @ se_ciphertext e"
    unfolding encode_Inr_iff by blast
  have "from_be_bytes (to_be_bytes (length b)) = length b"
    using b(5) by (intro from_to_be) (simp add: MAX_HEADER_BYTES_def)
  then show "envelope_parse K bytes = Inr e"
    unfolding parse_Inr_iff using b header_codec_okD(1)[OF assms(1) b(4)] by (intro exI conjI) auto
qed

text \<open>
  C25. The backup format is exact. A byte string parses to a header and a ciphertext if and only if
  it is what encoding that header and ciphertext produces: no other bytes are accepted, two
  different backups never have the same bytes, and every encoded backup is read back.
\<close>

theorem backup_format_is_exact:
  assumes "header_codec_ok K" "length bytes \<le> u64_limit"
  shows "envelope_parse K bytes = Inr e \<longleftrightarrow> envelope_encode K (se_header e) (se_ciphertext e) = Inr bytes"
  by (rule parse_iff_encode[OF assms])

section \<open>Derived metadata\<close>

lemma visible_plain: "visible c \<Longrightarrow> is_ascii c \<and> \<not> is_whitespace c \<and> \<not> is_control c"
  by (auto simp: visible_def is_ascii_def is_whitespace_def is_control_def)

lemma visible_bounded:
  assumes "list_all visible v" "v \<noteq> []" "length v \<le> 256"
  shows "bounded_value v" "str_len v = length v"
proof -
  have plain: "list_all is_ascii v" "\<not> list_ex is_control v" "\<And>c. c \<in> set v \<Longrightarrow> \<not> is_whitespace c"
    using assms(1) visible_plain by (auto simp: list_all_iff list_ex_iff)
  show len: "str_len v = length v" by (rule str_len_ascii[OF plain(1)])
  show "bounded_value v"
    using str_trim_nonempty[OF assms(2) plain(3)] plain(2) assms(3) len by (simp add: bounded_value_def)
qed

lemma bounded_lits:
  "bounded_value BACKUP_FORMAT" "bounded_value ENCRYPTION_FORMAT" "bounded_value KEY_METADATA" "bounded_value ENCRYPTION_METADATA"
  by (rule visible_bounded; simp add: visible_def BACKUP_FORMAT_def ENCRYPTION_FORMAT_def KEY_METADATA_def
      ENCRYPTION_METADATA_def)+

lemma lower_hex_visible: "is_lower_hex_char c \<Longrightarrow> visible c"
  by (auto simp: is_lower_hex_char_def is_ascii_digit_def visible_def)

lemma checksum_ok:
  assumes "header_codec_ok K"
  shows "valid_checksum_shape (ciphertext_checksum K ct)" "bounded_value (ciphertext_checksum K ct)"
proof -
  let ?c = "ciphertext_checksum K ct"
  have hex: "list_all is_lower_hex_char ?c" by (simp add: ciphertext_checksum_def lower_hex_chars)
  have len: "length ?c = 64" using header_codec_okD(5)[OF assms] by (simp add: ciphertext_checksum_def)
  have vis: "list_all visible ?c" using hex lower_hex_visible by (auto simp: list_all_iff)
  have "?c \<noteq> []" "length ?c \<le> 256" using len by auto
  note b = visible_bounded[OF vis this]
  show "bounded_value ?c" by (rule b(1))
  have "all_bytes is_lower_hex_char ?c"
    using hex all_bytes_ascii[of is_lower_hex_char ?c] lower_hex_visible visible_plain by blast
  then show "valid_checksum_shape ?c" using b(2) len by (simp add: valid_checksum_shape_def)
qed

lemma valid_timestamp_eq: "valid_timestamp K v = is_canonical_timestamp K v"
  by (simp add: valid_timestamp_def is_canonical_timestamp_def)

lemma derive_Inr_iff:
  "derive_metadata K ct t key = Inr m \<longleftrightarrow>
     ct \<noteq> [] \<and> valid_timestamp K (chrono_format K t) \<and> valid_object_key key \<and> length ct \<le> u64_limit
     \<and> m = \<lparr>sm_format = BACKUP_FORMAT, sm_checksum = ciphertext_checksum K ct, sm_ciphertext_size = length ct,
          sm_created_at = t, sm_object_key = key, sm_encryption_format = ENCRYPTION_FORMAT,
          sm_key_metadata = KEY_METADATA, sm_encryption_metadata = ENCRYPTION_METADATA\<rparr>"
  by (auto simp: derive_metadata_def rbind_Inr_iff u64_len_def split: if_splits)

lemma derived_header_valid:
  assumes K: "header_codec_ok K" and m: "derive_metadata K ct t key = Inr m"
  shows "validate_header K (to_header K m) = Inr ()"
proof -
  have d: "ct \<noteq> []" "valid_timestamp K (chrono_format K t)" "valid_object_key key"
      "m = \<lparr>sm_format = BACKUP_FORMAT, sm_checksum = ciphertext_checksum K ct, sm_ciphertext_size = length ct,
          sm_created_at = t, sm_object_key = key, sm_encryption_format = ENCRYPTION_FORMAT,
          sm_key_metadata = KEY_METADATA, sm_encryption_metadata = ENCRYPTION_METADATA\<rparr>"
    using m by (simp_all add: derive_Inr_iff)
  have "chrono_format K t \<noteq> []" using d(2) by (auto simp: valid_timestamp_def ends_with_def)
  then have "bounded_value (chrono_format K t)"
    using header_codec_okD(3,4)[OF K, of t] by (intro visible_bounded(1)) simp_all
  moreover have "bounded_value key" using d(3) by (simp add: valid_object_key_def bounded_value_def)
  ultimately show ?thesis
    using checksum_ok[OF K, of ct] d(1,2) bounded_lits
    by (simp add: validate_header_def to_header_def d(4) valid_checksum_shape_def valid_timestamp_eq)
qed

lemma visible_scalar: "list_all visible v \<Longrightarrow> list_all is_scalar v"
  by (auto simp: list_all_iff visible_def is_scalar_def)

lemma derived_header_rust:
  assumes K: "header_codec_ok K" and m: "derive_metadata K ct t key = Inr m" and key: "list_all is_scalar key"
  shows "header_rust (to_header K m)"
proof -
  have "list_all visible (ciphertext_checksum K ct)"
    using lower_hex_chars[of "sha256 K ct"] lower_hex_visible by (auto simp: ciphertext_checksum_def list_all_iff)
  then have "list_all is_scalar (ciphertext_checksum K ct)" by (rule visible_scalar)
  moreover have "list_all is_scalar (chrono_format K t)" using header_codec_okD(3)[OF K] by (rule visible_scalar)
  moreover have "list_all is_scalar BACKUP_FORMAT" "list_all is_scalar ENCRYPTION_FORMAT" "list_all is_scalar KEY_METADATA"
      "list_all is_scalar ENCRYPTION_METADATA"
    by (rule visible_scalar; simp add: visible_def BACKUP_FORMAT_def ENCRYPTION_FORMAT_def KEY_METADATA_def
        ENCRYPTION_METADATA_def)+
  ultimately show ?thesis
    using m key by (auto simp: derive_Inr_iff header_rust_def header_fields_def to_header_def)
qed

lemma lower_hex_inj: "lower_hex a = lower_hex b \<Longrightarrow> a = b"
proof (induction a arbitrary: b)
  case Nil
  then show ?case by (cases b) auto
next
  case (Cons x a)
  then obtain y b' where b: "b = y # b'" by (cases b) auto
  have inj: "hex_char m = hex_char n \<Longrightarrow> 0 \<le> m \<Longrightarrow> m < 16 \<Longrightarrow> 0 \<le> n \<Longrightarrow> n < 16 \<Longrightarrow> m = n" for m n
    by (auto simp: hex_char_def split: if_splits)
  have bd: "0 \<le> uint z div 16" "uint z div 16 < 16" for z :: u8 using uint_u8_bounds[of z] by linarith+
  have "uint x div 16 = uint y div 16" "uint x mod 16 = uint y mod 16"
    using Cons.prems bd by (auto simp: b uint_high_nibble uint_low_nibble intro!: inj)
  then have "x = y" by (metis div_mult_mod_eq word_uint_eqI)
  then show ?case using Cons b by simp
qed

text \<open>
  C26. A snapshot whose metadata were derived from its ciphertext survives the whole way: it can be
  encoded, the bytes parse to the same header and ciphertext, and the metadata verify it. The same
  metadata verify another ciphertext only if it has the same length and the same SHA-256 digest.
\<close>

theorem derived_snapshot_is_verified:
  assumes "header_codec_ok K" "derive_metadata K ct t key = Inr m" "list_all is_scalar key"
    and "length BACKUP_MAGIC + 4 + MAX_HEADER_BYTES + length ct \<le> u64_limit"
  shows "(\<exists>bytes. envelope_encode K (to_header K m) ct = Inr bytes
            \<and> envelope_parse K bytes = Inr \<lparr>se_header = to_header K m, se_ciphertext = ct\<rparr>)
     \<and> (verify_header K (to_header K m) other = Inr () \<longleftrightarrow> length other = length ct \<and> sha256 K other = sha256 K ct)"
proof
  note valid = derived_header_valid[OF assms(1,2)]
  have d: "ct \<noteq> []" "valid_timestamp K (chrono_format K t)" "valid_object_key key" "length ct \<le> u64_limit"
      "m = \<lparr>sm_format = BACKUP_FORMAT, sm_checksum = ciphertext_checksum K ct, sm_ciphertext_size = length ct,
          sm_created_at = t, sm_object_key = key, sm_encryption_format = ENCRYPTION_FORMAT,
          sm_key_metadata = KEY_METADATA, sm_encryption_metadata = ENCRYPTION_METADATA\<rparr>"
    using assms(2) by (simp_all add: derive_Inr_iff)
  obtain b where b: "header_json K (to_header K m) = Some b" "length b \<le> MAX_HEADER_BYTES"
    using header_codec_okD(2)[OF assms(1) valid derived_header_rust[OF assms(1-3)]] by blast
  have "\<exists>bytes. envelope_encode K (to_header K m) ct = Inr bytes"
    unfolding encode_Inr_iff using valid b assms(4) d(1,4) by (auto simp: to_header_def d(5))
  then obtain bytes where bytes: "envelope_encode K (to_header K m) ct = Inr bytes" by blast
  have "length bytes \<le> u64_limit" using bytes unfolding encode_Inr_iff by auto
  then have "envelope_parse K bytes = Inr \<lparr>se_header = to_header K m, se_ciphertext = ct\<rparr>"
    using parse_iff_encode[OF assms(1), of bytes "\<lparr>se_header = to_header K m, se_ciphertext = ct\<rparr>"] bytes by simp
  then show "\<exists>bytes. envelope_encode K (to_header K m) ct = Inr bytes
            \<and> envelope_parse K bytes = Inr \<lparr>se_header = to_header K m, se_ciphertext = ct\<rparr>" using bytes by blast
  show "verify_header K (to_header K m) other = Inr () \<longleftrightarrow> length other = length ct \<and> sha256 K other = sha256 K ct"
    using d checksum_ok(1)[OF assms(1), of ct]
    by (auto simp: verify_header_def rbind_Inr_iff u64_len_def to_header_def ciphertext_checksum_def
        dest: lower_hex_inj split: if_splits)
qed

section \<open>Witnesses\<close>

text \<open>A codec that satisfies the laws: every field is written after its length.\<close>

definition frame :: "u8 list \<Rightarrow> u8 list" where
  "frame b = to_be_bytes (length b) @ b"

fun unframes :: "nat \<Rightarrow> u8 list \<Rightarrow> u8 list list \<times> u8 list" where
  "unframes 0 bs = ([], bs)"
| "unframes (Suc k) bs =
     (let n = from_be_bytes (take 4 bs); r = drop 4 bs
      in case unframes k (drop n r) of (fs, r') \<Rightarrow> (take n r # fs, r'))"

definition demo_header_bytes :: "snapshot_header \<Rightarrow> u8 list" where
  "demo_header_bytes h = concat (map (\<lambda>f. frame (str_bytes f)) (header_fields h))
     @ to_be_bytes (sh_ciphertext_size h div 2 ^ 32) @ to_be_bytes (sh_ciphertext_size h mod 2 ^ 32)"

definition demo_header_codec :: "int header_codec" where
  "demo_header_codec = \<lparr>
     header_json = (\<lambda>h. if header_rust h \<and> list_all (\<lambda>f. str_len f < 2 ^ 32) (header_fields h)
        then Some (demo_header_bytes h) else None),
     header_of_json = (\<lambda>b. case unframes 7 b of (fs, r) \<Rightarrow>
        (case map (the \<circ> from_utf8) fs of [f, c, t, k, e, y, m] \<Rightarrow>
           Some \<lparr>sh_format = f, sh_checksum = c,
             sh_ciphertext_size = from_be_bytes (take 4 r) * 2 ^ 32 + from_be_bytes (drop 4 r), sh_created_at = t,
             sh_object_key = k, sh_encryption_format = e, sh_key_metadata = y, sh_encryption_metadata = m\<rparr>
         | _ \<Rightarrow> None)),
     chrono_format = (\<lambda>t. if 0 \<le> t \<and> t < 50 then [40 + t, 90] else lit ''+''),
     chrono_parse = (\<lambda>s. Some (hd s - 40)),
     sha256 = (\<lambda>b. take 32 (b @ replicate 32 0))\<rparr>"

lemma length_str_bytes [simp]: "length (str_bytes s) = str_len s"
  by (simp add: str_bytes_def str_len_def)

lemma unframes_frames:
  "list_all (\<lambda>f. length f < 2 ^ 32) fs \<Longrightarrow> unframes (length fs) (concat (map frame fs) @ r) = (fs, r)"
  by (induction fs) (simp_all add: frame_def from_to_be)

lemma demo_header_reads:
  assumes "header_json demo_header_codec h = Some b"
  shows "header_of_json demo_header_codec b = Some h"
proof -
  have h: "header_rust h" "list_all (\<lambda>f. str_len f < 2 ^ 32) (header_fields h)" "b = demo_header_bytes h"
    using assms by (auto simp: demo_header_codec_def split: if_splits)
  let ?r = "to_be_bytes (sh_ciphertext_size h div 2 ^ 32) @ to_be_bytes (sh_ciphertext_size h mod 2 ^ 32)"
  have seven: "length (map str_bytes (header_fields h)) = 7" by (simp add: header_fields_def)
  have short: "list_all (\<lambda>f. length f < 2 ^ 32) (map str_bytes (header_fields h))"
    using h(2) by (simp only: list_all_iff set_map ball_simps length_str_bytes)
  have "unframes 7 (concat (map frame (map str_bytes (header_fields h))) @ ?r) = (map str_bytes (header_fields h), ?r)"
    using unframes_frames[OF short, of ?r] unfolding seven .
  then have u: "unframes 7 b = (map str_bytes (header_fields h), ?r)" by (simp add: h(3) demo_header_bytes_def comp_def)
  have fields: "map (the \<circ> from_utf8) (map str_bytes (header_fields h)) = header_fields h"
    using h(1) by (simp add: header_rust_def header_fields_def from_utf8_str_bytes)
  have "sh_ciphertext_size h div 2 ^ 32 < 2 ^ 32"
    using h(1) by (intro less_mult_imp_div_less) (simp add: header_rust_def u64_limit_def)
  then have size_eq: "from_be_bytes (take 4 ?r) * 2 ^ 32 + from_be_bytes (drop 4 ?r) = sh_ciphertext_size h"
    by (simp add: from_to_be)
  show ?thesis
    unfolding demo_header_codec_def header_codec.simps u prod.case fields size_eq
    by (simp add: header_fields_def)
qed

lemma demo_header_short:
  assumes "validate_header demo_header_codec h = Inr ()" "header_rust h"
  shows "\<exists>b. header_json demo_header_codec h = Some b \<and> length b \<le> MAX_HEADER_BYTES"
proof -
  have len: "\<forall>f \<in> set (header_fields h). str_len f \<le> 256"
    using assms(1) by (auto simp: validate_header_def header_fields_def bounded_value_def split: if_splits)
  then have "list_all (\<lambda>f. str_len f < 2 ^ 32) (header_fields h)" by (fastforce simp: list_all_iff)
  moreover have "length (demo_header_bytes h) \<le> MAX_HEADER_BYTES"
    using len by (simp add: demo_header_bytes_def frame_def header_fields_def MAX_HEADER_BYTES_def)
  ultimately show ?thesis using assms(2) by (simp add: demo_header_codec_def)
qed

lemma demo_header_codec_ok: "header_codec_ok demo_header_codec"
proof -
  have "list_all visible (chrono_format demo_header_codec t) \<and> length (chrono_format demo_header_codec t) \<le> 64"
      "length (sha256 demo_header_codec bs) = 32" for t bs
    by (simp_all add: demo_header_codec_def visible_def)
  then show ?thesis
    unfolding header_codec_ok_def using demo_header_reads demo_header_short by blast
qed

definition demo_ciphertext :: "u8 list" where "demo_ciphertext = [7, 0, 255]"

lemma demo_derived:
  "\<exists>m. derive_metadata demo_header_codec demo_ciphertext 5 (lit ''daily/one'') = Inr m"
  by (simp add: derive_metadata_def demo_ciphertext_def demo_header_codec_def valid_timestamp_def ends_with_def
      valid_object_key_def str_trim_def trim_matches_def is_whitespace_def is_control_def utf8_char_def
      u64_len_def u64_limit_def)

theorem derived_snapshot_is_verified_witness:
  "\<exists>m bytes. derive_metadata demo_header_codec demo_ciphertext 5 (lit ''daily/one'') = Inr m
     \<and> envelope_parse demo_header_codec bytes = Inr \<lparr>se_header = to_header demo_header_codec m, se_ciphertext = demo_ciphertext\<rparr>
     \<and> verify_header demo_header_codec (to_header demo_header_codec m) demo_ciphertext = Inr ()
     \<and> verify_header demo_header_codec (to_header demo_header_codec m) [7, 1, 255] \<noteq> Inr ()"
proof -
  obtain m where m: "derive_metadata demo_header_codec demo_ciphertext 5 (lit ''daily/one'') = Inr m"
    using demo_derived by blast
  have key: "list_all is_scalar (lit ''daily/one'')" by (simp add: is_scalar_def)
  have small: "length BACKUP_MAGIC + 4 + MAX_HEADER_BYTES + length demo_ciphertext \<le> u64_limit"
    by (simp add: BACKUP_MAGIC_def BACKUP_FORMAT_def utf8_char_def MAX_HEADER_BYTES_def demo_ciphertext_def u64_limit_def)
  have other: "sha256 demo_header_codec [7, 1, 255] \<noteq> sha256 demo_header_codec demo_ciphertext"
    by (simp add: demo_header_codec_def demo_ciphertext_def)
  note verified = derived_snapshot_is_verified[OF demo_header_codec_ok m key small]
  show ?thesis using m verified[of demo_ciphertext] verified[of "[7, 1, 255]"] other by blast
qed

theorem backup_format_is_exact_witness:
  "\<exists>e. length (se_ciphertext e) = 3 \<and>
     (\<exists>bytes. envelope_encode demo_header_codec (se_header e) (se_ciphertext e) = Inr bytes
        \<and> envelope_parse demo_header_codec bytes = Inr e)"
proof -
  obtain m where m: "derive_metadata demo_header_codec demo_ciphertext 5 (lit ''daily/one'') = Inr m"
    using demo_derived by blast
  let ?e = "\<lparr>se_header = to_header demo_header_codec m, se_ciphertext = demo_ciphertext\<rparr>"
  have valid: "validate_header demo_header_codec (to_header demo_header_codec m) = Inr ()"
    by (rule derived_header_valid[OF demo_header_codec_ok m])
  have "header_rust (to_header demo_header_codec m)"
    by (rule derived_header_rust[OF demo_header_codec_ok m]) (simp add: is_scalar_def)
  then obtain b where b: "header_json demo_header_codec (to_header demo_header_codec m) = Some b" "length b \<le> MAX_HEADER_BYTES"
    using demo_header_short[OF valid] by blast
  let ?bytes = "BACKUP_MAGIC @ to_be_bytes (length b) @ b @ demo_ciphertext"
  have len: "length ?bytes \<le> u64_limit"
    using b(2) by (simp add: BACKUP_MAGIC_def BACKUP_FORMAT_def utf8_char_def MAX_HEADER_BYTES_def
        demo_ciphertext_def u64_limit_def)
  have "envelope_encode demo_header_codec (se_header ?e) (se_ciphertext ?e) = Inr ?bytes"
    unfolding encode_Inr_iff using valid b len m by (auto simp: derive_Inr_iff to_header_def)
  then show ?thesis
    using backup_format_is_exact[OF demo_header_codec_ok len, of ?e] by (intro exI[of _ ?e]) (auto simp: demo_ciphertext_def)
qed

end
