(* ===== verification/Accounting.thy ===== *)
theory Accounting
  imports Rust_Text
begin

text \<open>
  Token accounting of \<open>src/accounting.rs\<close>: usage and cost of one API call, the summary of a call by
  model, the CSV log with its header, and the path the log may be written to. The floating-point
  numbers of costs are a type variable with their operations as parameters (\<open>f64_ops\<close>); a write to
  the log succeeds or fails, possibly after some bytes (\<open>log_io\<close>). Counters are \<open>u64\<close> and wrap, as
  in a release build. Scraping the pricing page and loading the catalog are not modelled.
\<close>

type_synonym u64 = "64 word"

section \<open>Ordered maps\<close>

text \<open>A \<open>BTreeMap\<close> as the list of its entries in the order of the keys.\<close>

fun bt_insert :: "str \<Rightarrow> 'v \<Rightarrow> (str \<times> 'v) list \<Rightarrow> (str \<times> 'v) list" where
  "bt_insert k v [] = [(k, v)]"
| "bt_insert k v ((k', v') # m) =
     (if k < k' then (k, v) # (k', v') # m
      else if k = k' then (k, v) # m
      else (k', v') # bt_insert k v m)"

definition bt_collect :: "('v \<Rightarrow> str) \<Rightarrow> 'v list \<Rightarrow> (str \<times> 'v) list" where
  "bt_collect key vs = foldl (\<lambda>m v. bt_insert (key v) v m) [] vs"

definition bt_values :: "(str \<times> 'v) list \<Rightarrow> 'v list" where
  "bt_values m = map snd m"

section \<open>Usage and cost\<close>

record 'f f64_ops =
  f_zero :: 'f
  f_add :: "'f \<Rightarrow> 'f \<Rightarrow> 'f"
  f_mul :: "'f \<Rightarrow> 'f \<Rightarrow> 'f"
  f_div :: "'f \<Rightarrow> 'f \<Rightarrow> 'f"
  f_of_u64 :: "u64 \<Rightarrow> 'f"
  f_million :: 'f
  f_display8 :: "'f \<Rightarrow> str"

record token_usage =
  input_text_tokens :: u64
  cached_input_text_tokens :: u64
  output_text_tokens :: u64
  input_audio_tokens :: u64
  output_audio_tokens :: u64

definition usage_default :: token_usage where
  "usage_default = \<lparr>input_text_tokens = 0, cached_input_text_tokens = 0, output_text_tokens = 0,
     input_audio_tokens = 0, output_audio_tokens = 0\<rparr>"

definition total_tokens :: "token_usage \<Rightarrow> u64" where
  "total_tokens u = input_text_tokens u + output_text_tokens u + input_audio_tokens u + output_audio_tokens u"

definition merge_from :: "token_usage \<Rightarrow> token_usage \<Rightarrow> token_usage" where
  "merge_from u other = \<lparr>input_text_tokens = input_text_tokens u + input_text_tokens other,
     cached_input_text_tokens = cached_input_text_tokens u + cached_input_text_tokens other,
     output_text_tokens = output_text_tokens u + output_text_tokens other,
     input_audio_tokens = input_audio_tokens u + input_audio_tokens other,
     output_audio_tokens = output_audio_tokens u + output_audio_tokens other\<rparr>"

record 'f model_pricing =
  mp_name :: str
  mp_service :: str
  mp_input_text :: 'f
  mp_cached_input_text :: 'f
  mp_output_text :: 'f
  mp_input_audio :: 'f
  mp_output_audio :: 'f
  mp_chars_per_token :: "'f option"
  mp_input_audio_rate :: "'f option"
  mp_output_audio_rate :: "'f option"

record 'f catalog_defaults =
  cd_chars_per_token :: 'f
  cd_input_audio_rate :: "'f option"
  cd_output_audio_rate :: "'f option"

record 'f model_catalog =
  mc_defaults :: "'f catalog_defaults"
  mc_models :: "'f model_pricing list"

definition model_pricing_of :: "'f model_catalog \<Rightarrow> str \<Rightarrow> 'f model_pricing option" where
  "model_pricing_of catalog model = find (\<lambda>c. mp_name c = model) (mc_models catalog)"

definition saturating_sub :: "u64 \<Rightarrow> u64 \<Rightarrow> u64" where
  "saturating_sub a b = (if a < b then 0 else a - b)"

definition compute_cost :: "'f f64_ops \<Rightarrow> 'f model_catalog \<Rightarrow> str \<Rightarrow> token_usage \<Rightarrow> 'f" where
  "compute_cost F catalog model u =
     (case model_pricing_of catalog model of
        None \<Rightarrow> f_zero F
      | Some p \<Rightarrow>
          (let uncached_input_text = saturating_sub (input_text_tokens u) (cached_input_text_tokens u);
               price = (\<lambda>tokens rate. f_div F (f_mul F (f_of_u64 F tokens) rate) (f_million F))
           in f_add F (f_add F (f_add F (f_add F
                (price uncached_input_text (mp_input_text p))
                (price (cached_input_text_tokens u) (mp_cached_input_text p)))
                (price (output_text_tokens u) (mp_output_text p)))
                (price (input_audio_tokens u) (mp_input_audio p)))
                (price (output_audio_tokens u) (mp_output_audio p))))"

text \<open>The first model that is missing is the error of \<open>validate_required_models\<close>.\<close>

fun validate_required_models :: "'f model_catalog \<Rightarrow> str list \<Rightarrow> (str, unit) result" where
  "validate_required_models catalog [] = Inr ()"
| "validate_required_models catalog (model # models) =
     (if model_pricing_of catalog model = None then Inl model else validate_required_models catalog models)"

definition merge_pricing :: "'f model_pricing \<Rightarrow> 'f model_pricing \<Rightarrow> 'f model_pricing" where
  "merge_pricing existing scraped = existing\<lparr>mp_service := mp_service scraped,
     mp_input_text := mp_input_text scraped, mp_cached_input_text := mp_cached_input_text scraped,
     mp_output_text := mp_output_text scraped, mp_input_audio := mp_input_audio scraped,
     mp_output_audio := mp_output_audio scraped\<rparr>"

definition merge_catalogs ::
    "'f catalog_defaults \<Rightarrow> 'f model_catalog option \<Rightarrow> 'f model_catalog \<Rightarrow> 'f model_catalog" where
  "merge_catalogs default_defaults existing scraped =
     (let defaults = (case existing of None \<Rightarrow> default_defaults | Some c \<Rightarrow> mc_defaults c);
          merged = (case existing of None \<Rightarrow> [] | Some c \<Rightarrow> bt_collect mp_name (mc_models c));
          merged = foldl (\<lambda>m s. bt_insert (mp_name s)
                     (case map_of m (mp_name s) of None \<Rightarrow> s | Some e \<Rightarrow> merge_pricing e s) m)
                   merged (mc_models scraped)
      in \<lparr>mc_defaults = defaults, mc_models = bt_values merged\<rparr>)"

section \<open>The summary of a call\<close>

record 'f api_call_log_entry =
  al_at :: str
  al_call_id :: str
  al_direction :: str
  al_peer :: str
  al_operation :: str
  al_endpoint :: str
  al_model :: str
  al_duration_ms :: nat
  al_usage_source :: str
  al_estimated :: bool
  al_cost_usd :: 'f
  al_usage :: token_usage
  al_total_tokens :: u64

record 'f model_usage_summary =
  mu_model :: str
  mu_api_call_count :: u64
  mu_estimated_api_call_count :: u64
  mu_cost_usd :: 'f
  mu_usage :: token_usage

record 'f call_summary =
  cs_api_call_count :: u64
  cs_total_cost_usd :: 'f
  cs_totals :: token_usage
  cs_model_usage :: "'f model_usage_summary list"

definition call_summary_default :: "'f f64_ops \<Rightarrow> 'f call_summary" where
  "call_summary_default F = \<lparr>cs_api_call_count = 0, cs_total_cost_usd = f_zero F, cs_totals = usage_default,
     cs_model_usage = []\<rparr>"

definition model_usage_new :: "'f f64_ops \<Rightarrow> str \<Rightarrow> 'f model_usage_summary" where
  "model_usage_new F model = \<lparr>mu_model = model, mu_api_call_count = 0, mu_estimated_api_call_count = 0,
     mu_cost_usd = f_zero F, mu_usage = usage_default\<rparr>"

definition add_to_model :: "'f f64_ops \<Rightarrow> 'f api_call_log_entry \<Rightarrow> 'f model_usage_summary \<Rightarrow> 'f model_usage_summary" where
  "add_to_model F e m =
     m\<lparr>mu_api_call_count := mu_api_call_count m + 1,
       mu_estimated_api_call_count := (if al_estimated e then mu_estimated_api_call_count m + 1
                                       else mu_estimated_api_call_count m),
       mu_cost_usd := f_add F (mu_cost_usd m) (al_cost_usd e),
       mu_usage := merge_from (mu_usage m) (al_usage e)\<rparr>"

definition summary_record :: "'f f64_ops \<Rightarrow> 'f call_summary \<Rightarrow> 'f api_call_log_entry \<Rightarrow> 'f call_summary" where
  "summary_record F s e =
     (let by_model = bt_collect mu_model (cs_model_usage s);
          model = (case map_of by_model (al_model e) of None \<Rightarrow> model_usage_new F (al_model e) | Some m \<Rightarrow> m)
      in \<lparr>cs_api_call_count = cs_api_call_count s + 1,
          cs_total_cost_usd = f_add F (cs_total_cost_usd s) (al_cost_usd e),
          cs_totals = merge_from (cs_totals s) (al_usage e),
          cs_model_usage = bt_values (bt_insert (al_model e) (add_to_model F e model) by_model)\<rparr>)"
section \<open>Writing the log\<close>

datatype accounting_error =
    NoWorkingDirectory
  | OutsideLogDirectory
  | NoFileName
  | CreateDirectoryFailed
  | OpenFailed
  | WriteFailed

text \<open>
  A Unix path as its \<open>std::path::Component\<close>s: repeated and trailing slashes and the \<open>.\<close> after the
  first component are not components. \<open>join\<close> with a relative path appends its components.
\<close>

datatype path_component = RootDir | CurDir | ParentDir | NormalComponent str

type_synonym path = "path_component list"

definition path_component_of :: "str \<Rightarrow> path_component list" where
  "path_component_of s = (if s = [] \<or> s = lit ''.'' then [] else if s = lit ''..'' then [ParentDir] else [NormalComponent s])"

definition path_components :: "str \<Rightarrow> path" where
  "path_components s =
     (let parts = str_split (\<lambda>c. c = 47) s
      in (if starts_with (lit ''/'') s then [RootDir] else if hd parts = lit ''.'' then [CurDir] else [])
         @ concat (map path_component_of parts))"

definition is_absolute :: "path \<Rightarrow> bool" where
  "is_absolute p \<longleftrightarrow> p \<noteq> [] \<and> hd p = RootDir"

definition path_join :: "path \<Rightarrow> path \<Rightarrow> path" where
  "path_join p q = (if is_absolute q then q else p @ filter (\<lambda>c. c \<noteq> CurDir) q)"

definition path_starts_with :: "path \<Rightarrow> path \<Rightarrow> bool" where
  "path_starts_with p base \<longleftrightarrow> take (length base) p = base"

definition file_name :: "path \<Rightarrow> str option" where
  "file_name p = (if p = [] then None else case last p of NormalComponent n \<Rightarrow> Some n | _ \<Rightarrow> None)"

definition safe_log_path :: "path option \<Rightarrow> str \<Rightarrow> (accounting_error, path) result" where
  "safe_log_path current_dir configured =
     rbind (ok_or NoWorkingDirectory current_dir) (\<lambda>cwd.
       let base = path_join cwd [NormalComponent (lit ''accounting'')];
           configured_path = path_components configured
       in if ParentDir \<in> set configured_path then Inl OutsideLogDirectory
          else
            let candidate = (if is_absolute configured_path then configured_path else path_join cwd configured_path)
            in rbind (ok_or NoFileName (file_name candidate)) (\<lambda>name.
                 if path_starts_with candidate base then Inr candidate
                 else if is_absolute configured_path then Inl OutsideLogDirectory
                 else Inr (path_join base [NormalComponent name])))"

text \<open>
  The file system holds the bytes of every file. What it does with one append is an argument:
  whether the directory can be created and the file opened, and after how many bytes a write fails.
\<close>

type_synonym fs = "path \<Rightarrow> u8 list option"

record log_io =
  io_create_dir :: bool
  io_open :: bool
  io_header_fails :: "nat option"
  io_row_fails :: "nat option"

definition write_all :: "nat option \<Rightarrow> path \<Rightarrow> u8 list \<Rightarrow> fs \<Rightarrow> fs \<times> (accounting_error, unit) result" where
  "write_all fails p bytes fs =
     (let old = (case fs p of None \<Rightarrow> [] | Some b \<Rightarrow> b)
      in case fails of
           None \<Rightarrow> (fs(p \<mapsto> old @ bytes), Inr ())
         | Some n \<Rightarrow> (fs(p \<mapsto> old @ take n bytes), Inl WriteFailed))"

definition API_CALLS_COLUMNS :: "str list" where
  "API_CALLS_COLUMNS = [lit ''at'', lit ''call_id'', lit ''direction'', lit ''peer'', lit ''operation'',
     lit ''endpoint'', lit ''model'', lit ''duration_ms'', lit ''usage_source'', lit ''estimated'', lit ''cost_usd'',
     lit ''input_text_tokens'', lit ''cached_input_text_tokens'', lit ''output_text_tokens'',
     lit ''input_audio_tokens'', lit ''output_audio_tokens'', lit ''total_tokens'']"

definition API_CALLS_HEADER :: str where
  "API_CALLS_HEADER = join (lit '','') API_CALLS_COLUMNS @ [10]"

definition CALL_TOTALS_COLUMNS :: "str list" where
  "CALL_TOTALS_COLUMNS = [lit ''ended_at'', lit ''call_id'', lit ''direction'', lit ''peer'', lit ''started_at'',
     lit ''ended_reason'', lit ''transcript_events'', lit ''api_call_count'', lit ''total_cost_usd'',
     lit ''input_text_tokens'', lit ''cached_input_text_tokens'', lit ''output_text_tokens'',
     lit ''input_audio_tokens'', lit ''output_audio_tokens'', lit ''total_tokens'', lit ''model_usage_json'']"

definition CALL_TOTALS_HEADER :: str where
  "CALL_TOTALS_HEADER = join (lit '','') CALL_TOTALS_COLUMNS @ [10]"

definition escape_csv :: "str \<Rightarrow> str" where
  "escape_csv v =
     (if list_ex (\<lambda>c. c = 44 \<or> c = 34 \<or> c = 10) v
      then lit [CHR 0x22] @ concat (map (\<lambda>c. if c = 34 then [34, 34] else [c]) v) @ lit [CHR 0x22]
      else v)"

definition csv_row :: "str list \<Rightarrow> str" where
  "csv_row columns = join (lit '','') (map escape_csv columns) @ [10]"

text \<open>\<open>Display\<close> of an unsigned integer; 39 digits are enough for a \<open>u128\<close>.\<close>

definition show_nat :: "nat \<Rightarrow> str" where
  "show_nat n = show_nat_acc 39 (int n) []"

definition show_u64 :: "u64 \<Rightarrow> str" where
  "show_u64 w = show_nat (unat w)"

definition api_call_columns :: "'f f64_ops \<Rightarrow> 'f api_call_log_entry \<Rightarrow> str list" where
  "api_call_columns F e = [al_at e, al_call_id e, al_direction e, al_peer e, al_operation e, al_endpoint e,
     al_model e, show_nat (al_duration_ms e), al_usage_source e, lit (if al_estimated e then ''true'' else ''false''),
     f_display8 F (al_cost_usd e), show_u64 (input_text_tokens (al_usage e)),
     show_u64 (cached_input_text_tokens (al_usage e)), show_u64 (output_text_tokens (al_usage e)),
     show_u64 (input_audio_tokens (al_usage e)), show_u64 (output_audio_tokens (al_usage e)), show_u64 (al_total_tokens e)]"

record 'f call_totals_entry =
  ct_ended_at :: str
  ct_call_id :: str
  ct_direction :: str
  ct_peer :: str
  ct_started_at :: str
  ct_ended_reason :: str
  ct_transcript_events :: nat
  ct_api_call_count :: u64
  ct_total_cost_usd :: 'f
  ct_usage :: token_usage
  ct_total_tokens :: u64
  ct_model_usage_json :: str

definition call_total_columns :: "'f f64_ops \<Rightarrow> 'f call_totals_entry \<Rightarrow> str list" where
  "call_total_columns F e = [ct_ended_at e, ct_call_id e, ct_direction e, ct_peer e, ct_started_at e,
     ct_ended_reason e, show_nat (ct_transcript_events e), show_u64 (ct_api_call_count e),
     f_display8 F (ct_total_cost_usd e), show_u64 (input_text_tokens (ct_usage e)),
     show_u64 (cached_input_text_tokens (ct_usage e)), show_u64 (output_text_tokens (ct_usage e)),
     show_u64 (input_audio_tokens (ct_usage e)), show_u64 (output_audio_tokens (ct_usage e)),
     show_u64 (ct_total_tokens e), ct_model_usage_json e]"

text \<open>The common part of \<open>append_api_call_csv\<close> and \<open>record_call_total\<close>.\<close>

definition append_csv ::
    "log_io \<Rightarrow> path option \<Rightarrow> str \<Rightarrow> str \<Rightarrow> str list \<Rightarrow> fs \<Rightarrow> fs \<times> (accounting_error, unit) result" where
  "append_csv io cwd configured header columns fs =
     (case safe_log_path cwd configured of
        Inl e \<Rightarrow> (fs, Inl e)
      | Inr path \<Rightarrow>
          if \<not> io_create_dir io then (fs, Inl CreateDirectoryFailed)
          else if \<not> io_open io then (fs, Inl OpenFailed)
          else
            let file_exists = fs path \<noteq> None;
                opened = (if file_exists then fs else fs(path \<mapsto> []));
                (written, r) = (if file_exists then (opened, Inr ())
                                else write_all (io_header_fails io) path (str_bytes header) opened)
            in case r of
                 Inl e \<Rightarrow> (written, Inl e)
               | Inr _ \<Rightarrow> write_all (io_row_fails io) path (str_bytes (csv_row columns)) written)"

definition append_api_call_csv ::
    "'f f64_ops \<Rightarrow> log_io \<Rightarrow> path option \<Rightarrow> str \<Rightarrow> 'f api_call_log_entry \<Rightarrow> fs \<Rightarrow>
     fs \<times> (accounting_error, unit) result" where
  "append_api_call_csv F io cwd configured e = append_csv io cwd configured API_CALLS_HEADER (api_call_columns F e)"

definition record_call_total ::
    "'f f64_ops \<Rightarrow> log_io \<Rightarrow> path option \<Rightarrow> str \<Rightarrow> 'f call_totals_entry \<Rightarrow> fs \<Rightarrow>
     fs \<times> (accounting_error, unit) result" where
  "record_call_total F io cwd configured e = append_csv io cwd configured CALL_TOTALS_HEADER (call_total_columns F e)"

record api_call_context =
  ac_at :: str
  ac_call_id :: str
  ac_direction :: str
  ac_peer :: str
  ac_operation :: str
  ac_endpoint :: str
  ac_model :: str
  ac_duration_ms :: nat
  ac_usage_source :: str
  ac_estimated :: bool

definition record_api_call ::
    "'f f64_ops \<Rightarrow> 'f model_catalog \<Rightarrow> log_io \<Rightarrow> path option \<Rightarrow> str \<Rightarrow> api_call_context \<Rightarrow> token_usage \<Rightarrow> fs \<Rightarrow>
     fs \<times> (accounting_error, 'f api_call_log_entry) result" where
  "record_api_call F catalog io cwd configured ctx usage fs =
     (let entry = \<lparr>al_at = ac_at ctx, al_call_id = ac_call_id ctx, al_direction = ac_direction ctx,
            al_peer = ac_peer ctx, al_operation = ac_operation ctx, al_endpoint = ac_endpoint ctx,
            al_model = ac_model ctx, al_duration_ms = ac_duration_ms ctx, al_usage_source = ac_usage_source ctx,
            al_estimated = ac_estimated ctx, al_cost_usd = compute_cost F catalog (ac_model ctx) usage,
            al_usage = usage, al_total_tokens = total_tokens usage\<rparr>
      in case append_api_call_csv F io cwd configured entry fs of
           (fs, Inl e) \<Rightarrow> (fs, Inl e)
         | (fs, Inr _) \<Rightarrow> (fs, Inr entry))"

text \<open>
  \<open>record_api_call\<close> of \<open>src/service.rs\<close>: the call is logged first, then added to the entries and
  the summary of the managed call; if the log cannot be written both stay as they are.
\<close>

record 'f call_books =
  cb_entries :: "'f api_call_log_entry list"
  cb_summary :: "'f call_summary"

definition books_new :: "'f f64_ops \<Rightarrow> 'f call_books" where
  "books_new F = \<lparr>cb_entries = [], cb_summary = call_summary_default F\<rparr>"

definition books_record :: "'f f64_ops \<Rightarrow> 'f call_books \<Rightarrow> 'f api_call_log_entry \<Rightarrow> 'f call_books" where
  "books_record F b e = \<lparr>cb_entries = cb_entries b @ [e], cb_summary = summary_record F (cb_summary b) e\<rparr>"

definition account_call ::
    "'f f64_ops \<Rightarrow> 'f model_catalog \<Rightarrow> path option \<Rightarrow> str \<Rightarrow> log_io \<Rightarrow> api_call_context \<Rightarrow> token_usage \<Rightarrow>
     fs \<times> 'f call_books \<Rightarrow> (fs \<times> 'f call_books) \<times> (accounting_error, 'f api_call_log_entry) result" where
  "account_call F catalog cwd configured io ctx usage s =
     (case record_api_call F catalog io cwd configured ctx usage (fst s) of
        (fs, Inl e) \<Rightarrow> ((fs, snd s), Inl e)
      | (fs, Inr entry) \<Rightarrow> ((fs, books_record F (snd s) entry), Inr entry))"

text \<open>The calls of one conversation, each with what the file system does.\<close>

fun account_calls ::
    "'f f64_ops \<Rightarrow> 'f model_catalog \<Rightarrow> path option \<Rightarrow> str \<Rightarrow> (log_io \<times> api_call_context \<times> token_usage) list \<Rightarrow>
     fs \<times> 'f call_books \<Rightarrow> fs \<times> 'f call_books" where
  "account_calls F catalog cwd configured [] s = s"
| "account_calls F catalog cwd configured ((io, ctx, usage) # calls) s =
     account_calls F catalog cwd configured calls (fst (account_call F catalog cwd configured io ctx usage s))"

text \<open>All writes of the CSV logs: rows of API calls and totals of calls, each log under its configured path.\<close>

datatype 'f log_write =
    ApiCallRow log_io api_call_context token_usage
  | CallTotalRow log_io "'f call_totals_entry"

fun write_logs ::
    "'f f64_ops \<Rightarrow> 'f model_catalog \<Rightarrow> path option \<Rightarrow> str \<Rightarrow> str \<Rightarrow> 'f log_write list \<Rightarrow> fs \<Rightarrow> fs" where
  "write_logs F catalog cwd api_calls_path call_totals_path [] fs = fs"
| "write_logs F catalog cwd api_calls_path call_totals_path (ApiCallRow io ctx usage # ws) fs =
     write_logs F catalog cwd api_calls_path call_totals_path ws
       (fst (record_api_call F catalog io cwd api_calls_path ctx usage fs))"
| "write_logs F catalog cwd api_calls_path call_totals_path (CallTotalRow io entry # ws) fs =
     write_logs F catalog cwd api_calls_path call_totals_path ws
       (fst (record_call_total F io cwd call_totals_path entry fs))"

section \<open>Ordered maps: lookup and order\<close>

lemma map_of_bt_insert: "map_of (bt_insert k v m) = (map_of m)(k \<mapsto> v)"
  by (induction k v m rule: bt_insert.induct) (auto simp: fun_eq_iff)

lemma set_bt_insert: "fst ` set (bt_insert k v m) = insert k (fst ` set m)"
  by (induction k v m rule: bt_insert.induct) auto

lemma bt_insert_sorted: "sorted_wrt (<) (map fst m) \<Longrightarrow> sorted_wrt (<) (map fst (bt_insert k v m))"
proof (induction k v m rule: bt_insert.induct)
  case (1 k v)
  then show ?case by simp
next
  case (2 k v k' v' m)
  then show ?case using set_bt_insert[of k v m] by auto
qed

text \<open>An ordered map is determined by its keys and the values it gives them.\<close>

lemma bt_eq_map:
  assumes "sorted_wrt (<) (map fst m)" "\<And>k v. map_of m k = Some v \<Longrightarrow> v = f k"
  shows "m = map (\<lambda>k. (k, f k)) (sorted_list_of_set (fst ` set m))"
proof -
  have d: "distinct (map fst m)" "sorted (map fst m)" using assms(1) by (simp_all add: strict_sorted_iff)
  have "sorted_list_of_set (fst ` set m) = map fst m"
    using sorted_list_of_set.idem_if_sorted_distinct[OF d(2,1)] by simp
  moreover have "map (\<lambda>k. (k, f k)) (map fst m) = m"
    using assms(2) d(1) by (auto simp: comp_def intro!: map_idI)
  ultimately show ?thesis by simp
qed

section \<open>The summary groups by model\<close>

definition usage_sum :: "token_usage list \<Rightarrow> token_usage" where
  "usage_sum us = foldl merge_from usage_default us"

definition cost_sum :: "'f f64_ops \<Rightarrow> 'f list \<Rightarrow> 'f" where
  "cost_sum F cs = foldl (f_add F) (f_zero F) cs"

definition model_summary :: "'f f64_ops \<Rightarrow> 'f api_call_log_entry list \<Rightarrow> str \<Rightarrow> 'f model_usage_summary" where
  "model_summary F es model =
     (let mine = filter (\<lambda>e. al_model e = model) es
      in \<lparr>mu_model = model, mu_api_call_count = of_nat (length mine),
          mu_estimated_api_call_count = of_nat (length (filter al_estimated mine)),
          mu_cost_usd = cost_sum F (map al_cost_usd mine), mu_usage = usage_sum (map al_usage mine)\<rparr>)"

definition summary_of :: "'f f64_ops \<Rightarrow> 'f api_call_log_entry list \<Rightarrow> 'f call_summary" where
  "summary_of F es =
     \<lparr>cs_api_call_count = of_nat (length es), cs_total_cost_usd = cost_sum F (map al_cost_usd es),
      cs_totals = usage_sum (map al_usage es),
      cs_model_usage = map (model_summary F es) (sorted_list_of_set (al_model ` set es))\<rparr>"

lemma bt_collect_distinct:
  assumes "distinct (map key vs)"
  shows "map_of (bt_collect key vs) k = find (\<lambda>v. key v = k) vs" "fst ` set (bt_collect key vs) = key ` set vs"
    "sorted_wrt (<) (map fst (bt_collect key vs))"
proof -
  have *: "map_of (foldl (\<lambda>m v. bt_insert (key v) v m) m vs) k =
        (case find (\<lambda>v. key v = k) vs of None \<Rightarrow> map_of m k | Some v \<Rightarrow> Some v)
     \<and> fst ` set (foldl (\<lambda>m v. bt_insert (key v) v m) m vs) = fst ` set m \<union> key ` set vs
     \<and> (sorted_wrt (<) (map fst m) \<longrightarrow> sorted_wrt (<) (map fst (foldl (\<lambda>m v. bt_insert (key v) v m) m vs)))" for m
    using assms
  proof (induction vs arbitrary: m)
    case Nil
    then show ?case by simp
  next
    case (Cons v vs)
    have "find (\<lambda>w. key w = key v) vs = None" using Cons.prems by (auto simp: find_None_iff image_iff)
    then show ?case using Cons bt_insert_sorted[of m "key v" v]
      by (auto simp: map_of_bt_insert set_bt_insert split: option.splits)
  qed
  show "map_of (bt_collect key vs) k = find (\<lambda>v. key v = k) vs" "fst ` set (bt_collect key vs) = key ` set vs"
    "sorted_wrt (<) (map fst (bt_collect key vs))"
    using *[of "[]"] by (auto simp: bt_collect_def split: option.splits)
qed

lemma add_to_model_summary:
  "model_summary F (es @ [e]) k = (if al_model e = k then add_to_model F e (model_summary F es k) else model_summary F es k)"
  by (simp add: model_summary_def add_to_model_def Let_def cost_sum_def usage_sum_def)

lemma summary_record_snoc: "summary_record F (summary_of F es) e = summary_of F (es @ [e])"
proof -
  let ?vs = "map (model_summary F es) (sorted_list_of_set (al_model ` set es))"
  let ?k = "al_model e"
  have key: "mu_model (model_summary F es k) = k" for k by (simp add: model_summary_def Let_def)
  have d: "distinct (map mu_model ?vs)" by (simp add: comp_def key)
  note col = bt_collect_distinct[OF d]
  have found: "map_of (bt_collect mu_model ?vs) k = (if k \<in> al_model ` set es then Some (model_summary F es k) else None)" for k
  proof -
    have "find (\<lambda>v. mu_model v = k) (map (model_summary F es) ks) = (if k \<in> set ks then Some (model_summary F es k) else None)" for ks
      by (induction ks) (auto simp: key)
    then show ?thesis by (simp add: col(1))
  qed
  have fresh: "model_summary F es k = model_usage_new F k" if "k \<notin> al_model ` set es" for k
  proof -
    have "filter (\<lambda>e. al_model e = k) es = []" using that by (auto simp: filter_empty_conv)
    then show ?thesis by (simp add: model_summary_def model_usage_new_def Let_def cost_sum_def usage_sum_def)
  qed
  define m where "m = bt_insert ?k (add_to_model F e (case map_of (bt_collect mu_model ?vs) ?k of
      None \<Rightarrow> model_usage_new F ?k | Some m \<Rightarrow> m)) (bt_collect mu_model ?vs)"
  have m_eq: "m = bt_insert ?k (add_to_model F e (model_summary F es ?k)) (bt_collect mu_model ?vs)"
    using found[of ?k] fresh[of ?k] by (simp add: m_def)
  have "m = map (\<lambda>k. (k, model_summary F (es @ [e]) k)) (sorted_list_of_set (fst ` set m))"
  proof (rule bt_eq_map)
    show "sorted_wrt (<) (map fst m)" unfolding m_eq by (rule bt_insert_sorted[OF col(3)])
    show "v = model_summary F (es @ [e]) k" if "map_of m k = Some v" for k v
      using that by (auto simp: m_eq map_of_bt_insert found add_to_model_summary split: if_splits)
  qed
  moreover have "fst ` set m = al_model ` set (es @ [e])"
    unfolding m_eq set_bt_insert col(2) by (auto simp: key image_image)
  ultimately have "bt_values m = map (model_summary F (es @ [e])) (sorted_list_of_set (al_model ` set (es @ [e])))"
    by (metis (no_types, lifting) bt_values_def comp_def list.map_comp map_eq_conv snd_conv)
  then show ?thesis
    by (simp add: summary_record_def summary_of_def Let_def m_def cost_sum_def usage_sum_def)
qed

section \<open>Where the log may be written\<close>

definition log_directory :: "path \<Rightarrow> path" where
  "log_directory cwd = cwd @ [NormalComponent (lit ''accounting'')]"

text \<open>The working directory is an absolute path without \<open>..\<close>.\<close>

definition plain_directory :: "path \<Rightarrow> bool" where
  "plain_directory cwd \<longleftrightarrow> (\<exists>names. cwd = RootDir # map NormalComponent names)"

lemma starts_with_append [simp]: "path_starts_with (base @ rest) base"
  by (simp add: path_starts_with_def)

lemma component_parts: "c \<in> set (concat (map path_component_of parts)) \<Longrightarrow> c = ParentDir \<or> (\<exists>n. c = NormalComponent n)"
  by (auto simp: path_component_of_def split: if_splits)

lemma component_cases:
  "c \<in> set (path_components s) \<Longrightarrow> c = CurDir \<or> c = ParentDir \<or> c = RootDir \<or> (\<exists>n. c = NormalComponent n)"
  by (cases c) auto

lemma tl_components:
  assumes "path_components s = c # cs" "d \<in> set cs"
  shows "d = ParentDir \<or> (\<exists>n. d = NormalComponent n)"
proof -
  let ?r = "concat (map path_component_of (str_split (\<lambda>c. c = 47) s))"
  have "cs = ?r \<or> c # cs = ?r"
    using assms(1) unfolding path_components_def Let_def by (simp only: split: if_splits) auto
  then have "d \<in> set ?r" using assms(2) by (metis list.set_intros(2))
  then show ?thesis by (rule component_parts)
qed

lemma relative_components:
  assumes "\<not> is_absolute (path_components s)" "ParentDir \<notin> set (path_components s)" "c \<in> set (path_components s)" "c \<noteq> CurDir"
  shows "\<exists>n. c = NormalComponent n"
proof -
  obtain d ds where p: "path_components s = d # ds" using assms(3) by (cases "path_components s") auto
  have "c \<noteq> RootDir"
  proof
    assume root: "c = RootDir"
    then have "c \<notin> set ds" using tl_components[OF p, of c] by auto
    then have "d = RootDir" using assms(3) root p by auto
    then show False using assms(1) p by (simp add: is_absolute_def)
  qed
  then show ?thesis using component_cases[OF assms(3)] assms(2,3,4) by auto
qed

lemma absolute_components:
  assumes "is_absolute (path_components s)" "ParentDir \<notin> set (path_components s)"
  shows "\<exists>names. path_components s = RootDir # map NormalComponent names"
proof -
  obtain ds where p: "path_components s = RootDir # ds"
    using assms(1) by (cases "path_components s") (auto simp: is_absolute_def)
  have "\<forall>d \<in> set ds. \<exists>n. d = NormalComponent n" using tl_components[OF p] assms(2) p by auto
  then have "\<exists>names. ds = map NormalComponent names"
    by (induction ds) (auto, metis list.simps(9))
  then show ?thesis using p by auto
qed

lemma safe_log_path_Inr:
  assumes "safe_log_path (Some cwd) configured = Inr p" "plain_directory cwd"
  shows "\<exists>names. p = log_directory cwd @ map NormalComponent names"
proof -
  let ?c = "path_components configured"
  have base: "path_join cwd [NormalComponent (lit ''accounting'')] = log_directory cwd"
    by (simp add: path_join_def is_absolute_def log_directory_def)
  have no_parent: "ParentDir \<notin> set ?c"
    using assms(1) by (auto simp: safe_log_path_def Let_def split: if_splits)
  define candidate where "candidate = (if is_absolute ?c then ?c else path_join cwd ?c)"
  have run: "safe_log_path (Some cwd) configured = rbind (ok_or NoFileName (file_name candidate)) (\<lambda>name.
      if path_starts_with candidate (log_directory cwd) then Inr candidate
      else if is_absolute ?c then Inl OutsideLogDirectory
      else Inr (path_join (log_directory cwd) [NormalComponent name]))"
    unfolding safe_log_path_def Let_def ok_or_simps(2) rbind_simps(2) base candidate_def if_not_P[OF no_parent] ..
  obtain name where name: "file_name candidate = Some name"
      and p: "p = (if path_starts_with candidate (log_directory cwd) then candidate
                   else path_join (log_directory cwd) [NormalComponent name])"
    using assms(1) run by (auto simp: rbind_Inr_iff split: if_splits)
  have plain: "\<exists>names. candidate = RootDir # map NormalComponent names"
  proof (cases "is_absolute ?c")
    case True
    then show ?thesis using absolute_components[OF True no_parent] by (simp add: candidate_def)
  next
    case False
    have "\<exists>names. cs = map NormalComponent names" if "\<forall>c \<in> set cs. \<exists>n. c = NormalComponent n" for cs
      using that by (induction cs) (auto, metis list.simps(9))
    moreover have "\<forall>c \<in> set (filter (\<lambda>c. c \<noteq> CurDir) ?c). \<exists>n. c = NormalComponent n"
      using relative_components[OF False no_parent] by auto
    ultimately obtain names where "filter (\<lambda>c. c \<noteq> CurDir) ?c = map NormalComponent names" by blast
    moreover obtain dirs where "cwd = RootDir # map NormalComponent dirs"
      using assms(2) by (auto simp: plain_directory_def)
    ultimately have "candidate = RootDir # map NormalComponent (dirs @ names)"
      using False by (simp add: candidate_def path_join_def)
    then show ?thesis by blast
  qed
  show ?thesis
  proof (cases "path_starts_with candidate (log_directory cwd)")
    case True
    then have "candidate = log_directory cwd @ drop (length (log_directory cwd)) candidate"
      by (metis append_take_drop_id path_starts_with_def)
    moreover obtain names where "candidate = RootDir # map NormalComponent names" using plain by blast
    moreover have "log_directory cwd \<noteq> []" by (simp add: log_directory_def)
    ultimately have "p = log_directory cwd @ map NormalComponent (drop (length (log_directory cwd) - 1) names)"
      using True p by (cases "length (log_directory cwd)") (auto simp: drop_map)
    then show ?thesis by blast
  next
    case False
    then have "p = log_directory cwd @ map NormalComponent [name]"
      using p by (simp add: path_join_def is_absolute_def)
    then show ?thesis by blast
  qed
qed

lemma write_all_other: "q \<noteq> p \<Longrightarrow> fst (write_all fails p bytes fs) q = fs q"
  by (simp add: write_all_def Let_def split: option.splits)

lemma append_csv_other:
  assumes "safe_log_path cwd configured \<noteq> Inr q"
  shows "fst (append_csv io cwd configured header columns fs) q = fs q"
  using assms write_all_other
  by (auto simp: append_csv_def Let_def split: sum.splits prod.splits) (metis fst_conv fun_upd_other)+

lemma record_api_call_fs:
  "\<exists>e. fst (record_api_call F catalog io cwd configured ctx usage fs) = fst (append_api_call_csv F io cwd configured e fs)"
  by (auto simp: record_api_call_def Let_def split: prod.splits sum.splits) (metis fst_conv)+

lemma account_calls_writes:
  "fst (account_calls F catalog cwd configured calls s) =
     write_logs F catalog cwd configured totals (map (\<lambda>(io, ctx, usage). ApiCallRow io ctx usage) calls) (fst s)"
proof (induction calls arbitrary: s)
  case (Cons c calls)
  obtain io ctx usage where c: "c = (io, ctx, usage)" by (cases c)
  have "fst (fst (account_call F catalog cwd configured io ctx usage s)) =
      fst (record_api_call F catalog io cwd configured ctx usage (fst s))"
    by (simp add: account_call_def split: prod.splits sum.splits)
  then show ?case using Cons c by simp
qed simp

lemma write_logs_other:
  assumes "safe_log_path cwd api \<noteq> Inr q" "safe_log_path cwd totals \<noteq> Inr q"
  shows "write_logs F catalog cwd api totals ws fs q = fs q"
proof (induction ws arbitrary: fs)
  case (Cons w ws)
  show ?case
  proof (cases w)
    case (ApiCallRow io ctx usage)
    obtain e where "fst (record_api_call F catalog io cwd api ctx usage fs) = fst (append_api_call_csv F io cwd api e fs)"
      using record_api_call_fs by blast
    then show ?thesis using Cons append_csv_other[OF assms(1)] ApiCallRow by (simp add: append_api_call_csv_def)
  next
    case (CallTotalRow io entry)
    then show ?thesis using Cons append_csv_other[OF assms(2)] by (simp add: record_call_total_def)
  qed
qed simp

text \<open>
  C28. Whatever paths are configured for the two CSV logs, whatever rows of API calls and of call
  totals are written in whatever order, and whatever fails, the logs are written only inside the
  directory \<open>accounting\<close> below the working directory, under names without \<open>..\<close>: every other file
  stays as it was.
\<close>

theorem accounting_stays_in_its_directory:
  assumes "plain_directory cwd"
    and "write_logs F catalog (Some cwd) api_calls_path call_totals_path ws fs q \<noteq> fs q"
  shows "\<exists>names. q = log_directory cwd @ map NormalComponent names"
proof -
  have "safe_log_path (Some cwd) api_calls_path = Inr q \<or> safe_log_path (Some cwd) call_totals_path = Inr q"
    using assms(2) write_logs_other by metis
  then show ?thesis using assms(1) safe_log_path_Inr by blast
qed

section \<open>The log is read back\<close>

text \<open>
  A reference reader of CSV as RFC 4180 describes it, with a line feed at the end of every record:
  a field in quotes may contain commas, line feeds and doubled quotes.
\<close>

datatype csv_mode = FieldStart | Plain | Quoted | QuoteSeen

fun csv_read :: "csv_mode \<Rightarrow> str \<Rightarrow> str list \<Rightarrow> str \<Rightarrow> str list list option" where
  "csv_read mode cur acc [] = (if mode = FieldStart \<and> acc = [] then Some [] else None)"
| "csv_read mode cur acc (c # s) =
     (let more = (\<lambda>m cur. csv_read m cur acc s);
          next_field = csv_read FieldStart [] (acc @ [cur]) s;
          next_record = map_option ((#) (acc @ [cur])) (csv_read FieldStart [] [] s)
      in case mode of
           FieldStart \<Rightarrow> if c = 34 then more Quoted [] else if c = 44 then next_field
                         else if c = 10 then next_record else more Plain [c]
         | Plain \<Rightarrow> if c = 34 then None else if c = 44 then next_field
                    else if c = 10 then next_record else more Plain (cur @ [c])
         | Quoted \<Rightarrow> if c = 34 then more QuoteSeen cur else more Quoted (cur @ [c])
         | QuoteSeen \<Rightarrow> if c = 34 then more Quoted (cur @ [c]) else if c = 44 then next_field
                        else if c = 10 then next_record else None)"

definition csv_records :: "str \<Rightarrow> str list list option" where
  "csv_records s = csv_read FieldStart [] [] s"

lemma csv_read_plain:
  "\<not> list_ex (\<lambda>c. c = 44 \<or> c = 34 \<or> c = 10) v \<Longrightarrow> csv_read Plain cur acc (v @ s) = csv_read Plain (cur @ v) acc s"
  by (induction v arbitrary: cur) (auto simp: Let_def)

lemma csv_read_quoted:
  "csv_read Quoted cur acc (concat (map (\<lambda>c. if c = 34 then [34, 34] else [c]) v) @ s) = csv_read Quoted (cur @ v) acc s"
  by (induction v arbitrary: cur) (auto simp: Let_def)

text \<open>An escaped field and the character after it, a comma or a line feed.\<close>

lemma csv_read_field:
  assumes "d = 44 \<or> d = 10"
  shows "csv_read FieldStart [] acc (escape_csv v @ d # s) =
    (if d = 44 then csv_read FieldStart [] (acc @ [v]) s
     else map_option ((#) (acc @ [v])) (csv_read FieldStart [] [] s))"
proof (cases "list_ex (\<lambda>c. c = 44 \<or> c = 34 \<or> c = 10) v")
  case True
  then show ?thesis using assms csv_read_quoted[of "[]" acc v "34 # d # s"]
    by (auto simp: escape_csv_def Let_def)
next
  case False
  then have e: "escape_csv v = v" by (simp add: escape_csv_def)
  show ?thesis
  proof (cases v)
    case Nil
    then show ?thesis using assms e by (auto simp: Let_def)
  next
    case (Cons c v')
    then show ?thesis using assms e False csv_read_plain[of v' "[c]" acc "d # s"]
      by (auto simp: Let_def)
  qed
qed

lemma csv_read_row:
  "columns \<noteq> [] \<Longrightarrow> csv_read FieldStart [] acc (csv_row columns @ s) =
     map_option ((#) (acc @ columns)) (csv_records s)"
proof (induction columns arbitrary: acc)
  case Nil
  then show ?case by simp
next
  case (Cons v columns)
  show ?case
  proof (cases columns)
    case Nil
    then show ?thesis using csv_read_field[of 10 acc v s] by (simp add: csv_row_def csv_records_def)
  next
    case (Cons w ws)
    then have "csv_row (v # columns) @ s = escape_csv v @ 44 # (csv_row columns @ s)"
      by (simp add: csv_row_def)
    then show ?thesis using csv_read_field[of 44 acc v] Cons.IH[of "acc @ [v]"] Cons
      by simp
  qed
qed

lemma csv_records_rows:
  "list_all (\<lambda>r. r \<noteq> []) rows \<Longrightarrow> csv_records (concat (map csv_row rows)) = Some rows"
proof (induction rows)
  case Nil
  then show ?case by (simp add: csv_records_def)
next
  case (Cons r rows)
  then show ?case using csv_read_row[of r "[]" "concat (map csv_row rows)"] by (simp add: csv_records_def)
qed

lemma header_is_row: "API_CALLS_HEADER = csv_row API_CALLS_COLUMNS" "CALL_TOTALS_HEADER = csv_row CALL_TOTALS_COLUMNS"
proof -
  have plain: "list_all (\<lambda>w. escape_csv w = w) API_CALLS_COLUMNS" "list_all (\<lambda>w. escape_csv w = w) CALL_TOTALS_COLUMNS"
    by (simp_all add: API_CALLS_COLUMNS_def CALL_TOTALS_COLUMNS_def escape_csv_def)
  then have "map escape_csv API_CALLS_COLUMNS = API_CALLS_COLUMNS" "map escape_csv CALL_TOTALS_COLUMNS = CALL_TOTALS_COLUMNS"
    by (auto simp: list_all_iff intro: map_idI)
  then show "API_CALLS_HEADER = csv_row API_CALLS_COLUMNS" "CALL_TOTALS_HEADER = csv_row CALL_TOTALS_COLUMNS"
    by (simp_all only: API_CALLS_HEADER_def CALL_TOTALS_HEADER_def csv_row_def)
qed

text \<open>No write fails half-way; creating the directory and opening the file may fail.\<close>

definition writes_are_whole :: "log_io \<Rightarrow> bool" where
  "writes_are_whole io \<longleftrightarrow> io_header_fails io = None \<and> io_row_fails io = None"

definition log_text :: "'f f64_ops \<Rightarrow> 'f api_call_log_entry list \<Rightarrow> str" where
  "log_text F es = concat (map csv_row (API_CALLS_COLUMNS # map (api_call_columns F) es))"

lemma str_bytes_append: "str_bytes (s @ t) = str_bytes s @ str_bytes t"
  by (induction s) (simp_all add: str_bytes_def)

text \<open>A log that holds these entries: the header and a row for each, or no file when there is none.\<close>

definition log_holds :: "'f f64_ops \<Rightarrow> 'f api_call_log_entry list \<Rightarrow> u8 list option \<Rightarrow> bool" where
  "log_holds F es file \<longleftrightarrow> file = None \<and> es = [] \<or> file = Some (str_bytes (log_text F es))"

lemma append_csv_whole:
  assumes "safe_log_path cwd configured = Inr p" "writes_are_whole io"
  shows "append_csv io cwd configured header columns fs =
    (if \<not> io_create_dir io then (fs, Inl CreateDirectoryFailed)
     else if \<not> io_open io then (fs, Inl OpenFailed)
     else (fs(p \<mapsto> (case fs p of None \<Rightarrow> str_bytes header | Some b \<Rightarrow> b) @ str_bytes (csv_row columns)), Inr ()))"
  using assms by (auto simp: append_csv_def write_all_def writes_are_whole_def Let_def split: option.splits)

lemma account_call_summary:
  "cb_summary (snd s) = summary_of F (cb_entries (snd s)) \<Longrightarrow>
     cb_summary (snd (fst (account_call F catalog cwd configured io ctx usage s)))
       = summary_of F (cb_entries (snd (fst (account_call F catalog cwd configured io ctx usage s))))"
  by (auto simp: account_call_def books_record_def summary_record_snoc split: prod.splits sum.splits)

lemma account_calls_summary:
  "cb_summary (snd s) = summary_of F (cb_entries (snd s)) \<Longrightarrow>
     cb_summary (snd (account_calls F catalog cwd configured calls s))
       = summary_of F (cb_entries (snd (account_calls F catalog cwd configured calls s)))"
proof (induction calls arbitrary: s)
  case (Cons c calls)
  obtain io ctx usage where "c = (io, ctx, usage)" by (cases c)
  then show ?case using Cons.IH[OF account_call_summary[OF Cons.prems]] by simp
qed simp

lemma account_call_log:
  assumes "safe_log_path cwd configured = Inr p" "writes_are_whole io" "log_holds F (earlier @ cb_entries (snd s)) (fst s p)"
  shows "log_holds F (earlier @ cb_entries (snd (fst (account_call F catalog cwd configured io ctx usage s))))
           (fst (fst (account_call F catalog cwd configured io ctx usage s)) p)"
proof -
  obtain fs b where s: "s = (fs, b)" by (cases s)
  define entry where "entry = \<lparr>al_at = ac_at ctx, al_call_id = ac_call_id ctx, al_direction = ac_direction ctx,
            al_peer = ac_peer ctx, al_operation = ac_operation ctx, al_endpoint = ac_endpoint ctx,
            al_model = ac_model ctx, al_duration_ms = ac_duration_ms ctx, al_usage_source = ac_usage_source ctx,
            al_estimated = ac_estimated ctx, al_cost_usd = compute_cost F catalog (ac_model ctx) usage,
            al_usage = usage, al_total_tokens = total_tokens usage\<rparr>"
  have run: "account_call F catalog cwd configured io ctx usage s =
      (if \<not> io_create_dir io then ((fs, b), Inl CreateDirectoryFailed)
       else if \<not> io_open io then ((fs, b), Inl OpenFailed)
       else ((fs(p \<mapsto> (case fs p of None \<Rightarrow> str_bytes API_CALLS_HEADER | Some b \<Rightarrow> b)
                @ str_bytes (csv_row (api_call_columns F entry))), books_record F b entry), Inr entry))"
    unfolding account_call_def record_api_call_def append_api_call_csv_def append_csv_whole[OF assms(1,2)] Let_def
      entry_def[symmetric] s by simp
  have content: "(case fs p of None \<Rightarrow> str_bytes API_CALLS_HEADER | Some b \<Rightarrow> b) @ str_bytes (csv_row (api_call_columns F entry))
      = str_bytes (log_text F (earlier @ cb_entries b @ [entry]))"
    using assms(3) by (auto simp: log_holds_def s log_text_def header_is_row str_bytes_append str_bytes_def[of "[]"])
  show ?thesis
    using assms(3) unfolding run content by (auto simp: log_holds_def s books_record_def)
qed

lemma account_calls_log:
  "safe_log_path cwd configured = Inr p \<Longrightarrow> \<forall>c \<in> set calls. writes_are_whole (fst c) \<Longrightarrow>
   log_holds F (earlier @ cb_entries (snd s)) (fst s p) \<Longrightarrow>
   log_holds F (earlier @ cb_entries (snd (account_calls F catalog cwd configured calls s)))
     (fst (account_calls F catalog cwd configured calls s) p)"
proof (induction calls arbitrary: s)
  case Nil
  then show ?case by simp
next
  case (Cons c calls)
  obtain io ctx usage where "c = (io, ctx, usage)" by (cases c)
  then show ?case using Cons account_call_log[OF Cons.prems(1) _ Cons.prems(3), of io catalog ctx usage] by simp
qed

lemma empty_summary: "summary_of F [] = call_summary_default F"
  by (simp add: summary_of_def call_summary_default_def cost_sum_def usage_sum_def)

lemma scalar_join:
  "list_all is_scalar sep \<Longrightarrow> list_all (list_all is_scalar) ws \<Longrightarrow> list_all is_scalar (join sep ws)"
  by (induction sep ws rule: join.induct) simp_all

lemma scalar_escape: "list_all is_scalar v \<Longrightarrow> list_all is_scalar (escape_csv v)"
  by (auto simp: escape_csv_def list_all_iff is_scalar_def)

lemma scalar_row: "list_all (list_all is_scalar) r \<Longrightarrow> list_all is_scalar (csv_row r)"
proof -
  assume "list_all (list_all is_scalar) r"
  then have "list_all (list_all is_scalar) (map escape_csv r)" using scalar_escape by (auto simp: list_all_iff)
  moreover have "list_all is_scalar (lit '','')" by (simp add: is_scalar_def)
  ultimately have "list_all is_scalar (join (lit '','') (map escape_csv r))" by (intro scalar_join)
  then show ?thesis by (simp add: csv_row_def is_scalar_def)
qed

lemma log_reads_back:
  assumes "log_holds F es (Some bytes)" "list_all (\<lambda>e. list_all (list_all is_scalar) (api_call_columns F e)) es"
  shows "Option.bind (from_utf8 bytes) csv_records = Some (API_CALLS_COLUMNS # map (api_call_columns F) es)"
proof -
  let ?rows = "API_CALLS_COLUMNS # map (api_call_columns F) es"
  have "list_all (list_all is_scalar) API_CALLS_COLUMNS" by (simp add: API_CALLS_COLUMNS_def is_scalar_def)
  then have "list_all is_scalar (log_text F es)"
    using scalar_row assms(2) by (fastforce simp: log_text_def list_all_iff)
  then have "from_utf8 (str_bytes (log_text F es)) = Some (log_text F es)"
    by (rule from_utf8_str_bytes)
  moreover have "list_all (\<lambda>r. r \<noteq> []) ?rows"
    by (simp add: list_all_iff API_CALLS_COLUMNS_def api_call_columns_def)
  then have "csv_records (log_text F es) = Some ?rows"
    unfolding log_text_def by (rule csv_records_rows)
  ultimately show ?thesis using assms(1) by (auto simp: log_holds_def)
qed

text \<open>
  C27. The summary of a conversation is the one of its recorded entries, grouped by model in the
  order of the names with counts, costs and tokens added up per model, whatever fails on the way.
  And the log agrees with it as long as no write fails half-way (creating the directory and opening
  the file may fail): starting without a log file, or with a log that holds the entries of earlier
  conversations, the file then reads back as the header, the earlier entries and exactly one record
  per recorded entry, whatever characters the fields contain.
\<close>

theorem log_and_summary_agree:
  assumes "account_calls F catalog cwd configured calls (fs, books_new F) = (fs', books)"
  shows "cb_summary books = summary_of F (cb_entries books)
     \<and> (\<forall>p earlier. safe_log_path cwd configured = Inr p \<longrightarrow> (\<forall>c \<in> set calls. writes_are_whole (fst c)) \<longrightarrow>
          log_holds F earlier (fs p) \<longrightarrow>
          list_all (\<lambda>e. list_all (list_all is_scalar) (api_call_columns F e)) (earlier @ cb_entries books) \<longrightarrow>
          (case fs' p of
             None \<Rightarrow> earlier = [] \<and> cb_entries books = []
           | Some bytes \<Rightarrow> Option.bind (from_utf8 bytes) csv_records =
               Some (API_CALLS_COLUMNS # map (api_call_columns F) (earlier @ cb_entries books))))"
proof -
  have start: "cb_summary (books_new F) = summary_of F (cb_entries (books_new F))"
    by (simp add: books_new_def empty_summary)
  have "cb_summary books = summary_of F (cb_entries books)"
    using account_calls_summary[of "(fs, books_new F)" F catalog cwd configured calls] start assms by simp
  moreover have "log_holds F (earlier @ cb_entries books) (fs' p)"
    if "safe_log_path cwd configured = Inr p" "\<forall>c \<in> set calls. writes_are_whole (fst c)" "log_holds F earlier (fs p)" for p earlier
    using account_calls_log[OF that(1,2), of F earlier "(fs, books_new F)" catalog] that(3) assms by (simp add: books_new_def)
  ultimately show ?thesis using log_reads_back by (fastforce simp: log_holds_def split: option.splits)
qed

text \<open>A header that could only be written in part is never completed: the next call finds the file.\<close>

lemma failed_header_is_never_repaired:
  assumes "safe_log_path cwd configured = Inr p" "fs p = None"
    and "io_create_dir io" "io_open io" "io_header_fails io = Some n"
    and "writes_are_whole io'" "io_create_dir io'" "io_open io'"
  shows "fst (append_csv io' cwd configured header columns (fst (append_csv io cwd configured header columns fs))) p
       = Some (take n (str_bytes header) @ str_bytes (csv_row columns))"
proof -
  have "fst (append_csv io cwd configured header columns fs) = fs(p \<mapsto> take n (str_bytes header))"
    using assms(1-5) by (simp add: append_csv_def write_all_def Let_def)
  then show ?thesis using append_csv_whole[OF assms(1,6)] assms(7,8) by simp
qed

section \<open>Witnesses\<close>

text \<open>Costs in whole units instead of floating-point numbers.\<close>

definition demo_f64 :: "int f64_ops" where
  "demo_f64 = \<lparr>f_zero = 0, f_add = (+), f_mul = (*), f_div = (div), f_of_u64 = uint, f_million = 1000000,
     f_display8 = (\<lambda>n. show_nat (nat n))\<rparr>"

definition demo_catalog :: "int model_catalog" where
  "demo_catalog = \<lparr>mc_defaults = \<lparr>cd_chars_per_token = 4, cd_input_audio_rate = None, cd_output_audio_rate = None\<rparr>,
     mc_models = [\<lparr>mp_name = lit ''gpt'', mp_service = lit ''responses'', mp_input_text = 3000000,
       mp_cached_input_text = 1000000, mp_output_text = 2000000, mp_input_audio = 0, mp_output_audio = 0,
       mp_chars_per_token = None, mp_input_audio_rate = None, mp_output_audio_rate = None\<rparr>]\<rparr>"

definition demo_cwd :: path where
  "demo_cwd = [RootDir, NormalComponent (lit ''srv'')]"

definition demo_log :: path where
  "demo_log = [RootDir, NormalComponent (lit ''srv''), NormalComponent (lit ''accounting''), NormalComponent (lit ''c.csv'')]"

definition demo_context :: "str \<Rightarrow> str \<Rightarrow> api_call_context" where
  "demo_context model peer = \<lparr>ac_at = lit ''t0'', ac_call_id = lit ''1'', ac_direction = lit ''in'', ac_peer = peer,
     ac_operation = lit ''reply'', ac_endpoint = lit ''e'', ac_model = model, ac_duration_ms = 12,
     ac_usage_source = lit ''api'', ac_estimated = False\<rparr>"

definition demo_io :: "bool \<Rightarrow> log_io" where
  "demo_io opens = \<lparr>io_create_dir = True, io_open = opens, io_header_fails = None, io_row_fails = None\<rparr>"

definition demo_usage :: token_usage where
  "demo_usage = \<lparr>input_text_tokens = 10, cached_input_text_tokens = 4, output_text_tokens = 5,
     input_audio_tokens = 0, output_audio_tokens = 0\<rparr>"

definition demo_calls :: "(log_io \<times> api_call_context \<times> token_usage) list" where
  "demo_calls = [(demo_io True, demo_context (lit ''gpt'') (lit ''a,b''), demo_usage),
     (demo_io False, demo_context (lit ''gpt'') (lit ''c''), demo_usage),
     (demo_io True, demo_context (lit ''asr'') (lit ''d''), demo_usage)]"

definition demo_books :: "fs \<times> int call_books" where
  "demo_books = account_calls demo_f64 demo_catalog (Some demo_cwd) (lit ''./accounting//c.csv'') demo_calls
     ((\<lambda>_. None), books_new demo_f64)"

lemma demo_log_path: "safe_log_path (Some demo_cwd) (lit ''./accounting//c.csv'') = Inr demo_log"
  by code_simp

lemma demo_entries:
  "map al_peer (cb_entries (snd demo_books)) = [lit ''a,b'', lit ''d'']"
  "list_all (\<lambda>e. list_all (list_all is_scalar) (api_call_columns demo_f64 e)) (cb_entries (snd demo_books))"
  by code_simp+

lemma demo_first_log: "log_holds demo_f64 (cb_entries (snd demo_books)) (fst demo_books demo_log)"
proof -
  have whole: "\<forall>c \<in> set demo_calls. writes_are_whole (fst c)"
    by (simp add: demo_calls_def demo_io_def writes_are_whole_def)
  have "log_holds demo_f64 ([] @ cb_entries (snd ((\<lambda>_. None), books_new demo_f64))) (fst ((\<lambda>_. None), books_new demo_f64) demo_log)"
    by (simp add: log_holds_def books_new_def)
  from account_calls_log[OF demo_log_path whole this] show ?thesis by (simp add: demo_books_def)
qed

text \<open>A second conversation after \<open>demo_books\<close>, which appends to the log of the first one.\<close>

theorem log_and_summary_agree_witness:
  "\<exists>fs books. account_calls demo_f64 demo_catalog (Some demo_cwd) (lit ''./accounting//c.csv'') demo_calls
      (fst demo_books, books_new demo_f64) = (fs, books)
   \<and> cs_total_cost_usd (cb_summary books) = cost_sum demo_f64 (map al_cost_usd (cb_entries books))
   \<and> (\<exists>bytes. fs demo_log = Some bytes \<and> map_option length (Option.bind (from_utf8 bytes) csv_records) = Some 5)"
proof -
  let ?run = "account_calls demo_f64 demo_catalog (Some demo_cwd) (lit ''./accounting//c.csv'') demo_calls
      (fst demo_books, books_new demo_f64)"
  have whole: "\<forall>c \<in> set demo_calls. writes_are_whole (fst c)"
    by (simp add: demo_calls_def demo_io_def writes_are_whole_def)
  have two: "length (cb_entries (snd demo_books)) = 2"
    using arg_cong[OF demo_entries(1), of length] by simp
  have same: "cb_entries (snd ?run) = cb_entries (snd demo_books)" by code_simp
  have scalar: "list_all (\<lambda>e. list_all (list_all is_scalar) (api_call_columns demo_f64 e))
      (cb_entries (snd demo_books) @ cb_entries (snd ?run))"
    using demo_entries(2) same by simp
  have agree: "cb_summary (snd ?run) = summary_of demo_f64 (cb_entries (snd ?run))
     \<and> (case fst ?run demo_log of None \<Rightarrow> cb_entries (snd demo_books) = [] \<and> cb_entries (snd ?run) = []
        | Some bytes \<Rightarrow> Option.bind (from_utf8 bytes) csv_records = Some (API_CALLS_COLUMNS
            # map (api_call_columns demo_f64) (cb_entries (snd demo_books) @ cb_entries (snd ?run))))"
    using log_and_summary_agree[of demo_f64 demo_catalog "Some demo_cwd" "lit ''./accounting//c.csv''" demo_calls "fst demo_books"
        "fst ?run" "snd ?run"] demo_log_path whole demo_first_log scalar by (simp del: lit_simps)
  have "\<exists>bytes. fst ?run demo_log = Some bytes \<and> map_option length (Option.bind (from_utf8 bytes) csv_records) = Some 5"
    using agree two same by (cases "fst ?run demo_log") auto
  moreover have "cs_total_cost_usd (cb_summary (snd ?run)) = cost_sum demo_f64 (map al_cost_usd (cb_entries (snd ?run)))"
    using agree by (simp add: summary_of_def)
  ultimately show ?thesis by (metis prod.collapse)
qed

definition demo_total :: "int call_totals_entry" where
  "demo_total = \<lparr>ct_ended_at = lit ''t1'', ct_call_id = lit ''1'', ct_direction = lit ''in'', ct_peer = lit ''d'',
     ct_started_at = lit ''t0'', ct_ended_reason = lit ''hangup'', ct_transcript_events = 2, ct_api_call_count = 1,
     ct_total_cost_usd = 7, ct_usage = demo_usage, ct_total_tokens = 15, ct_model_usage_json = lit ''[]''\<rparr>"

definition demo_writes :: "int log_write list" where
  "demo_writes = [ApiCallRow (demo_io True) (demo_context (lit ''gpt'') (lit ''d'')) demo_usage, CallTotalRow (demo_io True) demo_total]"

theorem accounting_stays_in_its_directory_witness:
  "\<exists>fs. write_logs demo_f64 demo_catalog (Some demo_cwd) (lit ''accounting/a.csv'') (lit ''logs/c.csv'') demo_writes (\<lambda>_. None) = fs
    \<and> fs demo_log \<noteq> None \<and> (\<exists>names. demo_log = log_directory demo_cwd @ map NormalComponent names)"
proof -
  have "plain_directory demo_cwd"
    unfolding plain_directory_def demo_cwd_def by (rule exI[of _ "[lit ''srv'']"]) simp
  moreover have w: "write_logs demo_f64 demo_catalog (Some demo_cwd) (lit ''accounting/a.csv'') (lit ''logs/c.csv'') demo_writes
      (\<lambda>_. None) demo_log \<noteq> None"
    by code_simp
  ultimately have "\<exists>names. demo_log = log_directory demo_cwd @ map NormalComponent names"
    by (rule accounting_stays_in_its_directory)
  then show ?thesis using w by blast
qed

end
