(* ===== verification/Spec2Isabelle.thy ===== *)
theory Spec2Isabelle
  imports Hmac_Admission Store_Audit Store_Cursor Store_Tasks Reference_Runs Domain_Values Availability Sigv4
    Owner_Task_Runs Phone_Book Request_Submission Voice_Turns Call_Intent Speech_Text
    OAuth_Credentials Backup_Envelope Accounting
begin

text \<open>
  A model of \<open>agent_voice\<close>, a telephone assistant with a personal-assistant back end, and the
  theorems that make its parts correct. A caller is admitted by the phone book, heard turn by turn
  and answered; appointments, owner tasks and messages go through the assistant service, which keeps
  an encrypted SQLite store and talks to two calendars. A small HTTP interface admits requests that
  are signed with HMAC.

  Conventions. Every definition is named after the Rust item it translates, in lower case, with a
  prefix for record fields and constructors. A \<open>Result\<close> is a sum with the error on the left, every
  \<open>?\<close> is \<open>rbind\<close>, an operation on a state is a function to the new state and the result (\<open>sbind\<close>,
  \<open>State_Result\<close>). Panics are results of their own: \<open>None\<close>, \<open>Panicked\<close> or \<open>WavPanic\<close>. Machine
  integers are words or integers with their bounds written out. Strings are lists of Unicode scalar
  values, \<open>lit ''abc''\<close> is a literal, and lengths that the code takes in bytes are taken in bytes.

  Foundations. \<open>Rust_Prelude\<close>, \<open>Rust_Text\<close>, \<open>Rust_Time\<close> and \<open>State_Result\<close> hold the vocabulary:
  results, transactions, UTF-8, string operations, dates with offsets, state passing.

  Request authentication. \<open>Auth\<close> (\<open>src/pa/auth.rs\<close>) has signing, verification and the bounded
  in-memory replay guard; the trait \<open>ReplayGuard\<close> is the locale \<open>replay_guard\<close>, interpreted on both
  guards. \<open>Store_Replay\<close> has the persistent guard of the store and its refinement of the retention
  specification, \<open>Hmac_Admission\<close> (\<open>src/pa/http\<close>) the buffering of bodies and the admission.
  \<open>Sigv4\<close> (\<open>src/pa/sigv4.rs\<close>) signs requests to S3.

  The store, \<open>src/pa/store.rs\<close>. \<open>Domain_Values\<close> (\<open>src/pa/domain.rs\<close>) has the validated values,
  \<open>Store_Common\<close> the shared validation, \<open>Store_Schema\<close> the tables: the database is a record of
  lists of rows, an insert checks the constraints of the schema and gives the next row id, a
  transaction that fails leaves the database alone (\<open>run_tx\<close>). \<open>Store_Contracts\<close> states the
  contracts several tables share as locales (idempotent creation, inserting or finding the same row,
  life cycles along a graph of states, compare and set), which \<open>Store_Messages\<close>, \<open>Store_Audit\<close>,
  \<open>Store_Tasks\<close>, \<open>Store_Cursor\<close> and \<open>Store_Proposals\<close> interpret. Appointment quotes and drafts are in
  \<open>Store_Quotes\<close> (operations), \<open>Store_Quote_Life\<close> (what each operation does to the invariant) and
  \<open>Store_Quote_Runs\<close> (runs), owner tasks in \<open>Store_Owner_Tasks\<close>, \<open>Store_Placements\<close> and
  \<open>Owner_Task_Runs\<close>, the notification outbox in \<open>Notification_Time\<close> (fixed-width comparison keys),
  \<open>Store_Notifications\<close> (operations) and \<open>Outbox_Runs\<close> (leases, attempts and retries over runs;
  deletions that cascade from a proposal or an event mapping are no steps of these runs).
  \<open>Reference_Runs\<close> takes the successful operations of all these tables, deletions and their cascades
  included, as the steps of one run and shows that no foreign key is left dangling. Each table has an invariant
  \<open>X_inv\<close>: its rows decode, identities are distinct, references exist. The lemmas show that every
  operation keeps it, what every operation does on every branch, and that retries change nothing.

  Credentials and backups. \<open>Token_Cipher\<close> (\<open>src/pa/crypto.rs\<close>) seals tokens for a context,
  \<open>OAuth_Credentials\<close> (\<open>src/pa/store.rs\<close>) keeps the tokens of every account and refines a map from
  accounts to credentials. \<open>Backup_Envelope\<close> (\<open>src/pa/backup/envelope.rs\<close>, \<open>metadata.rs\<close>) writes,
  parses and verifies the backup format; its parser accepts exactly what its encoder writes.

  Calendars. \<open>Provider_Types\<close> (\<open>src/pa/providers.rs\<close>) has the values of the provider boundary,
  \<open>Fake_Control\<close> and \<open>Fake_Calendar\<close> (\<open>src/pa/fakes\<close>) the deterministic calendars of the tests,
  \<open>Availability\<close> (\<open>src/pa/availability.rs\<close>) the computation of free slots with a reference
  definition without loops.

  The assistant service, \<open>src/pa/service.rs\<close>. \<open>Assistant_Service\<close> composes store and calendars as
  the code does: the state is the pair of the database and the world of the providers, and a failure
  keeps what was done before it. \<open>Service_Logic\<close> has pre- and postconditions for such computations.
  \<open>Owner_Submission\<close> and \<open>Request_Submission\<close> state what is relied on of the calendars as the locales
  \<open>owner_calendar\<close> and \<open>proposal_calendar\<close> (a lookup tells the truth, a creation adds at most one
  event whether it reports success or not; creating need not be idempotent) and prove that no key ever
  gets two events. \<open>Fake_Contract\<close> and the end of \<open>Request_Submission\<close> interpret the locales on the
  calendar fakes, and the witnesses evaluate whole submissions over them.

  The telephone side. \<open>Phone_Book\<close> (\<open>src/phonebook.rs\<close>) decides who may call. \<open>Voice_Turns\<close>
  (\<open>src/service.rs\<close>) cuts the frames of a call into utterances and numbers RTP packets, \<open>Call_Intent\<close>
  matches what was said, ends calls and keeps the address of the caller until it is confirmed,
  \<open>Speech_Text\<close> cuts replies into pieces, \<open>Audio\<close> (\<open>src/audio.rs\<close>) encodes mu-law and reads streamed
  WAV payloads. \<open>Accounting\<close> (\<open>src/accounting.rs\<close>) logs the calls to remote services as CSV, in a
  file system whose writes may fail half-way, and sums them up by model.

  Parameters. Authenticated encryption and base64 are \<open>sealer\<close> with the ideal laws \<open>sealer_ok\<close>, the
  JSON and time texts of credentials \<open>oauth_codec\<close>, those of backups \<open>header_codec\<close>, each with a
  concrete instance that satisfies its laws. SHA-256 and HMAC are functions \<open>sha\<close>, \<open>hmac\<close>. The crate \<open>time\<close> formats and parses RFC
  3339 texts through a \<open>codec\<close>; \<open>codec_ok\<close>, \<open>codec_utc\<close>, \<open>codec_reads_back\<close> and \<open>codec_exact\<close> state
  the documented behaviour a lemma needs, the parser of naive SQLite times is another function, and
  \<open>texts\<close> with \<open>texts_ok\<close> bundles them with UUID texts and time zone names. JSON is \<open>json\<close> with
  \<open>json_ok\<close>. The time zone database is \<open>tz\<close> with \<open>tz_ok\<close>, or a predicate or parser of zone names.
  Readings of the clock are arguments (\<open>now\<close>, \<open>clk\<close>, \<open>now_utc\<close>), as are fresh identities, random bytes
  and the writing of the phone book, which may fail. The crate \<open>hound\<close> is a function in \<open>Audio\<close>. The
  witnesses instantiate all of them: \<open>demo_texts\<close> and \<open>demo_utc_codec\<close> satisfy the laws.

  Bounds and fuel. Row ids, counters and times have the bounds of \<open>i64\<close> where the code checks them.
  Attempt numbers, new row ids and the call counter of the phone book are not bounded.
  Reading all pages of a listing takes fuel; more fuel than rows is enough. Searching a free
  day in \<open>Availability\<close> ends because days increase up to the horizon, looking for a fresh event id in
  \<open>Fake_Calendar\<close> because the sequence is bounded, reading WAV chunks because the position increases.
  \<open>split_frames\<close> is partial, as the loop of the code is.

  Not modelled. \<open>Debug\<close> and \<open>Display\<close> output; opening the encrypted database, its migrations and
  the publication of backup files, which are SQL scripts, pragmas and file operations; the
  validators for idempotency records of the HTTP interface, which have no operations yet;
  configuration from YAML and the environment; the fakes for mail, triage and backup; the mail,
  triage and backup values of the providers; SIP, sockets, threads, processes and the clients of
  remote services; the prompts for the language model; resampling and the other
  floating-point computation, whose operations are parameters in \<open>Accounting\<close>; leap seconds of \<open>chrono\<close>.
  Operations of the store run in SQLite transactions and are modelled one after another; the steps
  of two concurrent service calls are not interleaved.
\<close>

end
